(* ===== verification/Prelude.thy ===== *)
theory Prelude
  imports Main "HOL-Library.AList" "HOL-Library.List_Lexorder" "HOL-Library.Char_ord"
begin

text \<open>
  Shared vocabulary of the development: Python exceptions as values, the result
  type every fallible operation returns, insertion-ordered dictionaries, and
  the small list idioms of the source (\<open>next\<close> over \<open>enumerate\<close>, tuple slicing,
  \<open>dict.fromkeys\<close>), together with the generic lemmas the components use.

  A Python exception that leaves an operation is an \<open>Inl\<close>; the fixed part of its
  message is kept, so that every \<open>raise\<close> of the source is a distinguishable branch.
\<close>

section \<open>Exceptions and results\<close>

datatype py_error =
    ValueError string
  | TypeError string
  | RuntimeError string
  | KeyError string
  | LookupError string
  | AttributeError string
  | ContractViolation string string
  | ContextOverflow string
  | ArtifactNotFoundError string string
  | ArtifactConflictError string string
  | ArtifactStateError string string
  | ArtifactValidationError string string
  | ArtifactAccessDeniedError string string
  | NonTermination

type_synonym 'a result = "py_error + 'a"

text \<open>
  \<open>ContractViolation code message\<close> is \<open>ContractViolationError\<close>; its default code is
  \<open>contract_violation\<close>. \<open>ContextOverflow reason\<close> is \<open>ContextOverflowError\<close> with its
  \<open>reason_code\<close>. The artifact errors carry their code and their message. \<open>NonTermination\<close>
  is no exception: it is the value of a walk over stored
  pointers that has not ended after as many steps as there are entries to visit.
\<close>

abbreviation contract_violation :: "string \<Rightarrow> py_error" where
  "contract_violation msg \<equiv> ContractViolation ''contract_violation'' msg"

fun bind_result :: "'a result \<Rightarrow> ('a \<Rightarrow> 'b result) \<Rightarrow> 'b result" where
  "bind_result (Inl e) f = Inl e"
| "bind_result (Inr x) f = f x"

fun map_result :: "('a \<Rightarrow> 'b result) \<Rightarrow> 'a list \<Rightarrow> 'b list result" where
  "map_result f [] = Inr []"
| "map_result f (x # xs) =
     bind_result (f x) (\<lambda>y. bind_result (map_result f xs) (\<lambda>ys. Inr (y # ys)))"

text \<open>\<open>any(f(x) for x in xs)\<close> and \<open>tuple(x for x in xs if f(x))\<close> where \<open>f\<close> may raise.\<close>

fun any_result :: "('a \<Rightarrow> bool result) \<Rightarrow> 'a list \<Rightarrow> bool result" where
  "any_result f [] = Inr False"
| "any_result f (x # xs) = bind_result (f x) (\<lambda>b. if b then Inr True else any_result f xs)"

fun filter_result :: "('a \<Rightarrow> bool result) \<Rightarrow> 'a list \<Rightarrow> 'a list result" where
  "filter_result f [] = Inr []"
| "filter_result f (x # xs) = bind_result (f x) (\<lambda>b.
     bind_result (filter_result f xs) (\<lambda>ys. Inr (if b then x # ys else ys)))"

named_theorems result_simps \<open>equations that open a successful computation\<close>

lemma bind_result_Inr_iff [result_simps]:
  "bind_result m f = Inr y \<longleftrightarrow> (\<exists>x. m = Inr x \<and> f x = Inr y)"
  by (cases m) auto

lemma bind_result_Inl_iff:
  "bind_result m f = Inl e \<longleftrightarrow> m = Inl e \<or> (\<exists>x. m = Inr x \<and> f x = Inl e)"
  by (cases m) auto

lemma bind_result_cong [fundef_cong]:
  "m = m' \<Longrightarrow> (\<And>x. m' = Inr x \<Longrightarrow> f x = f' x) \<Longrightarrow> bind_result m f = bind_result m' f'"
  by (cases m') auto

lemma if_Inl_eq_Inr [result_simps]:
  "(if b then Inl e else m) = Inr y \<longleftrightarrow> \<not> b \<and> m = Inr y"
  by auto

lemma map_result_cong [fundef_cong]:
  "xs = ys \<Longrightarrow> (\<And>x. x \<in> set ys \<Longrightarrow> f x = g x) \<Longrightarrow> map_result f xs = map_result g ys"
  by (induction xs arbitrary: ys) auto

lemma map_result_Inr_iff:
  "map_result f xs = Inr ys \<longleftrightarrow> list_all2 (\<lambda>x y. f x = Inr y) xs ys"
  by (induction xs arbitrary: ys) (auto simp: bind_result_Inr_iff list_all2_Cons1)

lemma map_result_total:
  "(\<And>x. x \<in> set xs \<Longrightarrow> f x = Inr (g x)) \<Longrightarrow> map_result f xs = Inr (map g xs)"
  by (induction xs) auto

lemma any_result_total:
  "(\<And>x. x \<in> set xs \<Longrightarrow> f x = Inr (P x)) \<Longrightarrow> any_result f xs = Inr (\<exists>x \<in> set xs. P x)"
  by (induction xs) auto

lemma filter_result_total:
  "(\<And>x. x \<in> set xs \<Longrightarrow> f x = Inr (P x)) \<Longrightarrow> filter_result f xs = Inr (filter P xs)"
  by (induction xs) auto

lemma map_result_length: "map_result f xs = Inr ys \<Longrightarrow> length ys = length xs"
  by (simp add: map_result_Inr_iff list_all2_lengthD)

lemma list_all2_right_in: "list_all2 P xs ys \<Longrightarrow> y \<in> set ys \<Longrightarrow> \<exists>x \<in> set xs. P x y"
  by (induction rule: list_all2_induct) auto

lemma map_result_in:
  "map_result f xs = Inr ys \<Longrightarrow> y \<in> set ys \<Longrightarrow> \<exists>x \<in> set xs. f x = Inr y"
  by (fastforce simp: map_result_Inr_iff in_set_conv_nth list_all2_conv_all_nth)

section \<open>Constructed values\<close>

text \<open>
  A command carries values that their constructors have accepted. The constructors are
  idempotent, so these are the values the constructor returns unchanged.
\<close>

definition constructed :: "('a \<Rightarrow> 'a result) \<Rightarrow> 'a \<Rightarrow> bool" where
  "constructed post_init v \<longleftrightarrow> post_init v = Inr v"

section \<open>Operations that keep what they changed\<close>

text \<open>
  An operation whose state changes survive a raise yields its result together with the state it
  leaves.
\<close>

fun bind_op :: "'a result \<times> 's \<Rightarrow> ('a \<Rightarrow> 's \<Rightarrow> 'b result \<times> 's) \<Rightarrow> 'b result \<times> 's" where
  "bind_op (Inl e, s) f = (Inl e, s)"
| "bind_op (Inr x, s) f = f x s"

text \<open>A computation that only reads, followed by one that may write.\<close>

definition read_op :: "'a result \<Rightarrow> 's \<Rightarrow> ('a \<Rightarrow> 'b result \<times> 's) \<Rightarrow> 'b result \<times> 's" where
  "read_op r s f = (case r of Inl e \<Rightarrow> (Inl e, s) | Inr x \<Rightarrow> f x)"

lemma snd_bind_op:
  "P (snd m) \<Longrightarrow> (\<And>x t. m = (Inr x, t) \<Longrightarrow> P (snd (f x t))) \<Longrightarrow> P (snd (bind_op m f))"
  by (cases m; cases "fst m") auto

lemma snd_read_op: "P s \<Longrightarrow> (\<And>x. r = Inr x \<Longrightarrow> P (snd (f x))) \<Longrightarrow> P (snd (read_op r s f))"
  by (cases r) (auto simp: read_op_def)

lemma snd_bind_return: "snd (bind_op m (\<lambda>_ s. (Inr (f s), s))) = snd m"
  by (cases m; cases "fst m") auto

lemma bind_op_Inr:
  "bind_op m f = (Inr y, t) \<longleftrightarrow> (\<exists>x s. m = (Inr x, s) \<and> f x s = (Inr y, t))"
  by (cases m; cases "fst m") auto

lemma read_op_Inr: "read_op r s f = (Inr y, t) \<longleftrightarrow> (\<exists>x. r = Inr x \<and> f x = (Inr y, t))"
  by (cases r) (auto simp: read_op_def)

section \<open>Sequences\<close>

text \<open>
  \<open>next((i for i, x in enumerate(xs) if P(x)), -1)\<close>: the first index that satisfies a
  predicate, \<open>None\<close> standing for \<open>-1\<close>.
\<close>

fun find_index :: "('a \<Rightarrow> bool) \<Rightarrow> 'a list \<Rightarrow> nat option" where
  "find_index P [] = None"
| "find_index P (x # xs) = (if P x then Some 0 else map_option Suc (find_index P xs))"

lemma find_index_None_iff [simp]: "find_index P xs = None \<longleftrightarrow> (\<forall>x \<in> set xs. \<not> P x)"
  by (induction xs) auto

lemma find_index_Some_iff:
  "find_index P xs = Some i \<longleftrightarrow>
     i < length xs \<and> P (xs ! i) \<and> (\<forall>j < i. \<not> P (xs ! j))"
proof (induction xs arbitrary: i)
  case Nil
  then show ?case by simp
next
  case (Cons x xs)
  show ?case
    by (cases i) (auto simp: Cons.IH less_Suc_eq_0_disj split: if_splits)
qed

lemma find_index_SomeD:
  assumes "find_index P xs = Some i"
  shows "i < length xs" and "P (xs ! i)" and "\<And>j. j < i \<Longrightarrow> \<not> P (xs ! j)"
  using assms by (auto simp: find_index_Some_iff)

text \<open>\<open>xs[:i] + (x,) + xs[i+1:]\<close>.\<close>

definition replace_at :: "'a list \<Rightarrow> nat \<Rightarrow> 'a \<Rightarrow> 'a list" where
  "replace_at xs i x = take i xs @ [x] @ drop (Suc i) xs"

lemma replace_at_list_update: "i < length xs \<Longrightarrow> replace_at xs i x = xs[i := x]"
  by (simp add: replace_at_def upd_conv_take_nth_drop)

text \<open>\<open>tuple(dict.fromkeys(xs))\<close>: the first occurrence of every element, in order.\<close>

definition dict_fromkeys :: "'a list \<Rightarrow> 'a list" where
  "dict_fromkeys xs = rev (remdups (rev xs))"

lemma set_dict_fromkeys [simp]: "set (dict_fromkeys xs) = set xs"
  by (simp add: dict_fromkeys_def)

lemma distinct_dict_fromkeys [simp]: "distinct (dict_fromkeys xs)"
  by (simp add: dict_fromkeys_def)

lemma dict_fromkeys_distinct: "distinct xs \<Longrightarrow> dict_fromkeys xs = xs"
  by (simp add: dict_fromkeys_def distinct_remdups_id)

lemma dict_fromkeys_idem [simp]: "dict_fromkeys (dict_fromkeys xs) = dict_fromkeys xs"
  by (simp add: dict_fromkeys_distinct)

lemma dict_fromkeys_Nil [simp]: "dict_fromkeys [] = []"
  by (simp add: dict_fromkeys_def)

section \<open>Insertion-ordered dictionaries\<close>

text \<open>
  A Python \<open>dict\<close> whose iteration order matters is an association list:
  \<open>d[k] = v\<close> is \<open>AList.update\<close> (in place for a known key, appended otherwise), \<open>d.get(k)\<close>
  is \<open>map_of\<close> and \<open>d.values()\<close> is \<open>map snd\<close>. The laws a client relies on are the
  locale below.
\<close>

type_synonym ('k, 'v) dict = "('k \<times> 'v) list"

abbreviation dict_values :: "('k, 'v) dict \<Rightarrow> 'v list" where
  "dict_values d \<equiv> map snd d"

locale keyed_store =
  fixes lookup :: "'s \<Rightarrow> 'k \<Rightarrow> 'v option"
    and store :: "'k \<Rightarrow> 'v \<Rightarrow> 's \<Rightarrow> 's"
    and vals :: "'s \<Rightarrow> 'v list"
    and good :: "'s \<Rightarrow> bool"
  assumes lookup_store: "lookup (store k v s) = (lookup s)(k \<mapsto> v)"
    and good_store: "good s \<Longrightarrow> good (store k v s)"
    and vals_lookup: "good s \<Longrightarrow> v \<in> set (vals s) \<longleftrightarrow> (\<exists>k. lookup s k = Some v)"
begin

lemma store_other: "j \<noteq> k \<Longrightarrow> lookup (store k v s) j = lookup s j"
  by (simp add: lookup_store)

lemma in_vals_store:
  assumes "good s" and "w \<in> set (vals (store k v s))"
  shows "w = v \<or> w \<in> set (vals s)"
proof -
  from assms obtain j where "lookup (store k v s) j = Some w"
    using good_store vals_lookup by blast
  then show ?thesis
    using assms(1) vals_lookup by (auto simp: lookup_store split: if_splits)
qed

lemma store_in_vals: "good s \<Longrightarrow> v \<in> set (vals (store k v s))"
  using good_store vals_lookup by (fastforce simp: lookup_store)

lemma vals_store_keep:
  assumes "good s" and "lookup s j = Some w" and "j \<noteq> k"
  shows "w \<in> set (vals (store k v s))"
  using assms good_store vals_lookup store_other by metis

end

lemma map_of_update [simp]: "map_of (AList.update k v d) = (map_of d)(k \<mapsto> v)"
  by (rule update_conv')

lemma map_leD: "m \<subseteq>\<^sub>m n \<Longrightarrow> m k = Some v \<Longrightarrow> n k = Some v"
  by (metis domI map_le_def)

lemma distinct_keys_update: "distinct (map fst d) \<Longrightarrow> distinct (map fst (AList.update k v d))"
  by (rule distinct_update)

lemma dict_values_lookup:
  assumes "distinct (map fst d)"
  shows "v \<in> set (dict_values d) \<longleftrightarrow> (\<exists>k. map_of d k = Some v)"
  using assms by (force dest: map_of_SomeD intro: map_of_is_SomeI)

interpretation dict: keyed_store
  "\<lambda>d. map_of d" AList.update "\<lambda>d. dict_values d" "\<lambda>d. distinct (map fst d)"
proof unfold_locales
  fix d :: "('k \<times> 'v) list" and k v
  show "map_of (AList.update k v d) = (map_of d)(k \<mapsto> v)"
    by (rule map_of_update)
  show "distinct (map fst d) \<Longrightarrow> distinct (map fst (AList.update k v d))"
    by (rule distinct_keys_update)
  show "distinct (map fst d) \<Longrightarrow> v \<in> set (dict_values d) \<longleftrightarrow> (\<exists>k. map_of d k = Some v)"
    by (rule dict_values_lookup)
qed

lemma update_fresh: "k \<notin> fst ` set d \<Longrightarrow> AList.update k v d = d @ [(k, v)]"
  by (induction d) auto

lemma map_of_filter_keys: "map_of (filter (\<lambda>(k, v). P k) d) = (\<lambda>k. if P k then map_of d k else None)"
  by (induction d) (auto simp: fun_eq_iff)

lemma map_of_filter_entries:
  "distinct (map fst d) \<Longrightarrow>
     map_of (filter P d) k = (case map_of d k of None \<Rightarrow> None | Some v \<Rightarrow> if P (k, v) then Some v else None)"
  by (induction d) (auto simp: map_of_eq_None_iff image_iff split: option.splits dest: map_of_SomeD)

lemma distinct_keys_filter: "distinct (map fst d) \<Longrightarrow> distinct (map fst (filter P d))"
  by (induction d) auto

section \<open>Event machines\<close>

text \<open>
  A component that reacts to a sequence of events; an event whose handler raises leaves the
  state as it was. The locale collects what a client of such a machine relies on: admissible
  events keep an invariant, and a settled state is never changed again.
\<close>

fun drive :: "('s \<Rightarrow> 'e \<Rightarrow> 's result) \<Rightarrow> 's \<Rightarrow> 'e list \<Rightarrow> 's" where
  "drive react s [] = s"
| "drive react s (e # es) =
     drive react (case react s e of Inl err \<Rightarrow> s | Inr s' \<Rightarrow> s') es"

lemma drive_append: "drive react s (es @ fs) = drive react (drive react s es) fs"
  by (induction es arbitrary: s) auto

locale event_machine =
  fixes react :: "'s \<Rightarrow> 'e \<Rightarrow> 's result"
    and admissible :: "'e \<Rightarrow> bool"
    and inv :: "'s \<Rightarrow> bool"
  assumes inv_react: "inv s \<Longrightarrow> admissible e \<Longrightarrow> react s e = Inr s' \<Longrightarrow> inv s'"
begin

lemma drive_inv: "inv s \<Longrightarrow> list_all admissible es \<Longrightarrow> inv (drive react s es)"
  by (induction es arbitrary: s) (auto intro: inv_react split: sum.splits)

end

locale settling_machine = event_machine +
  fixes settled_state :: "'a \<Rightarrow> bool"
  assumes settled_react: "settled_state s \<Longrightarrow> react s e = Inr s' \<Longrightarrow> s' = s"
begin

lemma drive_settled: "settled_state s \<Longrightarrow> drive react s es = s"
  by (induction es) (auto dest: settled_react split: sum.splits)

lemma drive_settled_prefix:
  "settled_state (drive react s es) \<Longrightarrow> drive react s (es @ fs) = drive react s es"
  by (simp add: drive_append drive_settled)

end

text \<open>Every step moves along a preorder, hence so does every sequence of events.\<close>

locale progress_machine = event_machine +
  fixes leads_to :: "'a \<Rightarrow> 'a \<Rightarrow> bool"
  assumes leads_refl: "leads_to s s"
    and leads_trans: "leads_to s t \<Longrightarrow> leads_to t u \<Longrightarrow> leads_to s u"
    and leads_react: "inv s \<Longrightarrow> admissible e \<Longrightarrow> react s e = Inr s' \<Longrightarrow> leads_to s s'"
begin

lemma drive_leads: "inv s \<Longrightarrow> list_all admissible es \<Longrightarrow> leads_to s (drive react s es)"
proof (induction es arbitrary: s)
  case (Cons e es)
  then show ?case
    by (cases "react s e") (auto intro: leads_trans leads_react inv_react)
qed (simp add: leads_refl)

end

end
