(* ===== verification/Enums.thy ===== *)
theory Enums
  imports Prelude
begin

text \<open>
  \<open>purra/contracts/enums.py\<close>: the enumerations of the contracts the development models,
  one constructor per member, prefixed because members of different enumerations share
  names.
\<close>

datatype run_status =
  Run_RUNNING | Run_DONE | Run_BLOCKED | Run_FAILED | Run_CANCELED

datatype step_status =
  Step_PENDING | Step_RUNNING | Step_DONE | Step_BLOCKED | Step_FAILED

datatype step_executor = Exec_MODEL | Exec_TOOL

datatype step_type =
  Type_READ | Type_ANALYZE | Type_WRITE | Type_REVIEW | Type_CONFIRM

datatype tool_execution_mode = Mode_READ | Mode_PROPOSE | Mode_CONFIRM

datatype tool_risk_level = Risk_READ | Risk_WRITE | Risk_DESTRUCTIVE

datatype message_role =
  Role_SYSTEM | Role_DEVELOPER | Role_USER | Role_ASSISTANT | Role_TOOL

datatype message_origin =
  Origin_CALLER | Origin_HOST_CONTEXT | Origin_MODEL | Origin_HOST_TOOL_RESULT

datatype tool_batch_outcome =
  Batch_PROGRESSED | Batch_COMPLETED | Batch_DECLINED
  | Batch_CANCELED | Batch_REJECTED | Batch_FAILED

end
