(* ===== verification/Normalization.thy ===== *)
theory Normalization
  imports Prelude
begin

text \<open>
  \<open>purra/normalization.py\<close>: the normalizers every value contract applies in its
  \<open>__post_init__\<close>. A Python \<open>str\<close> is a list of code points, here those below 256 (HOL's
  \<open>char\<close>); \<open>str.strip()\<close> removes exactly the code points of that range that
  \<open>str.isspace()\<close> accepts. Field values arrive with the type the dataclass declares,
  so \<open>str(value or "")\<close> is the string itself or the empty string for \<open>None\<close>.
\<close>

section \<open>Python strings\<close>

definition py_space :: "char \<Rightarrow> bool" where
  "py_space c = (let n = (of_char c :: nat) in
     9 \<le> n \<and> n \<le> 13 \<or> 28 \<le> n \<and> n \<le> 32 \<or> n = 133 \<or> n = 160)"

definition strip :: "string \<Rightarrow> string" where
  "strip s = rev (dropWhile py_space (rev (dropWhile py_space s)))"

text \<open>\<open>str(value or "")\<close> for an optional text field.\<close>

definition str_or_empty :: "string option \<Rightarrow> string" where
  "str_or_empty v = (case v of None \<Rightarrow> [] | Some s \<Rightarrow> s)"

text \<open>\<open>f"{n}"\<close> for a non-negative integer.\<close>

definition digit_char :: "nat \<Rightarrow> char" where
  "digit_char n = char_of (48 + n)"

fun show_nat :: "nat \<Rightarrow> string" where
  "show_nat n = (if n < 10 then [digit_char n]
     else show_nat (n div 10) @ [digit_char (n mod 10)])"

declare show_nat.simps [simp del]

text \<open>\<open>sep.join(sorted(xs))\<close> after duplicates are removed, as \<open>sorted\<close> of a \<open>set\<close> gives.\<close>

fun join :: "string \<Rightarrow> string list \<Rightarrow> string" where
  "join sep [] = []"
| "join sep [x] = x"
| "join sep (x # xs) = x @ sep @ join sep xs"

definition join_sorted :: "string list \<Rightarrow> string" where
  "join_sorted xs = join '', '' (sort (remdups xs))"

section \<open>The normalizers\<close>

definition required_text :: "string \<Rightarrow> string \<Rightarrow> string result" where
  "required_text v field = (let text = strip v in
     if text = [] then Inl (ValueError (field @ '' is required'')) else Inr text)"

definition optional_text :: "string option \<Rightarrow> string option" where
  "optional_text v = (let text = strip (str_or_empty v) in if text = [] then None else Some text)"

definition positive_int :: "int \<Rightarrow> string \<Rightarrow> int result" where
  "positive_int v field =
     (if v \<le> 0 then Inl (ValueError (field @ '' must be positive'')) else Inr v)"

definition non_negative_int :: "int \<Rightarrow> string \<Rightarrow> int result" where
  "non_negative_int v field =
     (if v < 0 then Inl (ValueError (field @ '' must be non-negative'')) else Inr v)"

definition optional_non_negative_int :: "int option \<Rightarrow> string \<Rightarrow> int option result" where
  "optional_non_negative_int v field =
     (case v of None \<Rightarrow> Inr None | Some n \<Rightarrow> bind_result (non_negative_int n field) (\<lambda>m. Inr (Some m)))"

definition optional_positive_int :: "int option \<Rightarrow> string \<Rightarrow> int option result" where
  "optional_positive_int v field =
     (case v of None \<Rightarrow> Inr None | Some n \<Rightarrow> bind_result (positive_int n field) (\<lambda>m. Inr (Some m)))"

definition text_tuple :: "string list \<Rightarrow> string list" where
  "text_tuple vs = filter (\<lambda>t. t \<noteq> []) (map strip vs)"

definition unique_text_tuple :: "string list \<Rightarrow> string list" where
  "unique_text_tuple vs = dict_fromkeys (text_tuple vs)"

definition text_frozenset :: "string set \<Rightarrow> string set" where
  "text_frozenset vs = (strip ` vs) - {[]}"

text \<open>
  \<open>if value is not None: required_text(value, field)\<close>, the idiom the agent-tree
  contracts use for optional identities.
\<close>

definition required_text_opt :: "string option \<Rightarrow> string \<Rightarrow> string option result" where
  "required_text_opt v field =
     (case v of None \<Rightarrow> Inr None | Some s \<Rightarrow> bind_result (required_text s field) (\<lambda>t. Inr (Some t)))"

section \<open>Normal forms\<close>

text \<open>
  A text is \<^emph>\<open>clean\<close> when stripping leaves it alone. Normalization is idempotent: every
  normalizer returns clean values and is the identity on them, which is what makes
  \<open>dataclasses.replace\<close> on an already constructed value harmless.
\<close>

definition clean :: "string \<Rightarrow> bool" where
  "clean s \<longleftrightarrow> strip s = s"

definition clean_id :: "string \<Rightarrow> bool" where
  "clean_id s \<longleftrightarrow> strip s = s \<and> s \<noteq> []"

definition clean_opt :: "string option \<Rightarrow> bool" where
  "clean_opt v \<longleftrightarrow> (case v of None \<Rightarrow> True | Some s \<Rightarrow> clean_id s)"

definition clean_ids :: "string list \<Rightarrow> bool" where
  "clean_ids xs \<longleftrightarrow> distinct xs \<and> (\<forall>x \<in> set xs. clean_id x)"

lemma dropWhile_idem: "dropWhile P (dropWhile P xs) = dropWhile P xs"
  by (induction xs) auto

lemma hd_dropWhile_rev:
  assumes "dropWhile P xs = xs"
  shows "dropWhile P (rev (dropWhile P (rev xs))) = rev (dropWhile P (rev xs))"
proof (cases "rev (dropWhile P (rev xs))")
  case Nil
  show ?thesis unfolding Nil by simp
next
  case (Cons y ys)
  obtain zs where "rev xs = zs @ dropWhile P (rev xs)"
    by (metis takeWhile_dropWhile_id)
  then have "xs = rev (dropWhile P (rev xs)) @ rev zs"
    by (metis rev_append rev_rev_ident)
  with Cons have "xs = y # ys @ rev zs" by simp
  with assms have "\<not> P y" by (metis dropWhile_eq_Cons_conv list.sel(1) dropWhile_eq_self_iff list.distinct(1))
  with Cons show ?thesis by simp
qed

lemma strip_strip [simp]: "strip (strip s) = strip s"
  unfolding strip_def by (simp add: hd_dropWhile_rev dropWhile_idem)

lemma strip_Nil [simp]: "strip [] = []"
  by (simp add: strip_def)

lemma clean_strip [simp]: "clean (strip s)"
  by (simp add: clean_def)

lemma required_text_Inr:
  "required_text v f = Inr t \<longleftrightarrow> t = strip v \<and> t \<noteq> []"
  by (auto simp: required_text_def Let_def)

lemma required_text_clean [simp]: "clean_id s \<Longrightarrow> required_text s f = Inr s"
  by (simp add: required_text_def clean_id_def)

lemma required_text_result_clean: "required_text v f = Inr t \<Longrightarrow> clean_id t"
  by (auto simp: required_text_Inr clean_id_def)

lemma optional_text_clean [simp]: "clean_opt v \<Longrightarrow> optional_text v = v"
  by (auto simp: optional_text_def clean_opt_def clean_id_def str_or_empty_def split: option.splits)

lemma optional_text_result_clean [simp]: "clean_opt (optional_text v)"
  by (auto simp: optional_text_def clean_opt_def clean_id_def Let_def)

lemma optional_text_SomeD: "optional_text v = Some t \<Longrightarrow> clean_id t"
  using optional_text_result_clean [of v] by (simp only: clean_opt_def option.case)

lemma clean_opt_None [simp]: "clean_opt None"
  by (simp add: clean_opt_def)

lemma clean_opt_Some [simp]: "clean_opt (Some s) = clean_id s"
  by (simp add: clean_opt_def)

lemma text_tuple_clean: "\<forall>x \<in> set xs. clean_id x \<Longrightarrow> text_tuple xs = xs"
  by (induction xs) (auto simp: text_tuple_def clean_id_def)

lemma unique_text_tuple_clean [simp]: "clean_ids xs \<Longrightarrow> unique_text_tuple xs = xs"
  by (simp add: unique_text_tuple_def clean_ids_def text_tuple_clean dict_fromkeys_distinct)

lemma unique_text_tuple_result_clean [simp]: "clean_ids (unique_text_tuple xs)"
  by (auto simp: unique_text_tuple_def clean_ids_def text_tuple_def clean_id_def)

lemma text_frozenset_clean: "\<forall>x \<in> S. clean_id x \<Longrightarrow> text_frozenset S = S"
  by (force simp: text_frozenset_def clean_id_def image_iff)

lemma positive_int_Inr: "positive_int v f = Inr n \<longleftrightarrow> n = v \<and> 0 < v"
  by (auto simp: positive_int_def)

lemma non_negative_int_Inr: "non_negative_int v f = Inr n \<longleftrightarrow> n = v \<and> 0 \<le> v"
  by (auto simp: non_negative_int_def)

lemma optional_positive_int_Inr:
  "optional_positive_int v f = Inr w \<longleftrightarrow> w = v \<and> (\<forall>n. v = Some n \<longrightarrow> 0 < n)"
  by (cases v) (auto simp: optional_positive_int_def bind_result_Inr_iff positive_int_Inr)

lemma optional_non_negative_int_Inr:
  "optional_non_negative_int v f = Inr w \<longleftrightarrow> w = v \<and> (\<forall>n. v = Some n \<longrightarrow> 0 \<le> n)"
  by (cases v) (auto simp: optional_non_negative_int_def bind_result_Inr_iff non_negative_int_Inr)

lemma required_text_opt_clean [simp]: "clean_opt v \<Longrightarrow> required_text_opt v f = Inr v"
  by (cases v) (auto simp: required_text_opt_def)

lemma required_text_opt_result_clean: "required_text_opt v f = Inr w \<Longrightarrow> clean_opt w"
  by (cases v) (auto simp: required_text_opt_def bind_result_Inr_iff dest: required_text_result_clean)

lemmas normalizer_Inr =
  positive_int_Inr non_negative_int_Inr optional_positive_int_Inr optional_non_negative_int_Inr

section \<open>Decimal numerals are injective\<close>

text \<open>Generated identities such as \<open>f"agent-run-{n}"\<close> rest on this.\<close>

definition char_digit :: "char \<Rightarrow> nat" where
  "char_digit c = of_char c - 48"

definition read_nat :: "string \<Rightarrow> nat" where
  "read_nat s = foldl (\<lambda>n c. 10 * n + char_digit c) 0 s"

lemma char_digit_digit_char: "n < 10 \<Longrightarrow> char_digit (digit_char n) = n"
  by (simp add: char_digit_def digit_char_def)

lemma read_nat_snoc: "read_nat (s @ [c]) = 10 * read_nat s + char_digit c"
  by (simp add: read_nat_def)

lemma read_show_nat: "read_nat (show_nat n) = n"
proof (induction n rule: show_nat.induct)
  case (1 n)
  show ?case
  proof (cases "n < 10")
    case True
    then show ?thesis
      by (simp add: show_nat.simps [of n] read_nat_def char_digit_digit_char)
  next
    case False
    with "1.IH" show ?thesis
      by (simp add: show_nat.simps [of n] read_nat_snoc char_digit_digit_char)
  qed
qed

lemma show_nat_inject [simp]: "show_nat m = show_nat n \<longleftrightarrow> m = n"
  by (metis read_show_nat)

lemma digit_char_not_space: "n < 10 \<Longrightarrow> \<not> py_space (digit_char n)"
  by (auto simp: py_space_def digit_char_def)

lemma show_nat_last: "\<exists>s n'. show_nat n = s @ [digit_char n'] \<and> n' < 10"
  by (subst show_nat.simps) (auto intro: exI [of _ "[]"])

lemma clean_id_snoc:
  assumes "\<not> py_space (last s)" and "\<not> py_space (hd s)" and "s \<noteq> []"
  shows "clean_id s"
proof -
  have "dropWhile py_space s = s"
    using assms(2,3) by (cases s) auto
  moreover have "dropWhile py_space (rev s) = rev s"
    using assms(1,3) by (cases "rev s") (auto simp: last_rev [symmetric] hd_rev)
  ultimately show ?thesis
    using assms(3) by (simp add: clean_id_def strip_def)
qed

lemma clean_id_numbered:
  assumes "p \<noteq> []" and "\<not> py_space (hd p)"
  shows "clean_id (p @ show_nat n)"
proof -
  obtain s n' where "show_nat n = s @ [digit_char n']" and "n' < 10"
    using show_nat_last by blast
  with assms show ?thesis
    by (intro clean_id_snoc) (auto simp: digit_char_not_space)
qed

definition positive_opt :: "int option \<Rightarrow> bool" where
  "positive_opt v \<longleftrightarrow> (\<forall>n. v = Some n \<longrightarrow> 0 < n)"

lemma positive_opt_code [code]: "positive_opt v \<longleftrightarrow> (case v of None \<Rightarrow> True | Some n \<Rightarrow> 0 < n)"
  by (auto simp: positive_opt_def split: option.splits)

lemma optional_positive_int_id: "positive_opt v \<Longrightarrow> optional_positive_int v f = Inr v"
  by (auto simp: optional_positive_int_def positive_opt_def positive_int_def split: option.splits)

lemma optional_positive_int_ok: "optional_positive_int v f = Inr w \<Longrightarrow> positive_opt w"
  by (auto simp: optional_positive_int_def positive_opt_def positive_int_def split: option.splits if_splits)

text \<open>Identities of the form \<open>f"{prefix}{n}"\<close>, the ones the repositories generate.\<close>

definition reserved :: "string \<Rightarrow> string \<Rightarrow> bool" where
  "reserved prefix s \<longleftrightarrow> take (length prefix) s = prefix \<and> drop (length prefix) s \<noteq> []
     \<and> list_all (\<lambda>c. c \<in> set ''0123456789'') (drop (length prefix) s)"

lemma digit_char_digit: "n < 10 \<Longrightarrow> digit_char n \<in> set ''0123456789''"
proof -
  assume "n < 10"
  then have "n \<in> {0, 1, 2, 3, 4, 5, 6, 7, 8, 9}" by auto
  moreover have "\<forall>i \<in> {0, 1, 2, 3, 4, 5, 6, 7, 8, 9}. digit_char i \<in> set ''0123456789''" by code_simp
  ultimately show ?thesis by blast
qed

lemma show_nat_digits: "list_all (\<lambda>c. c \<in> set ''0123456789'') (show_nat n) \<and> show_nat n \<noteq> []"
proof (induction n rule: show_nat.induct)
  case (1 n)
  then show ?case
    using digit_char_digit [of n] digit_char_digit [of "n mod 10"]
    by (subst show_nat.simps, subst (2) show_nat.simps) (simp del: list.set)
qed

lemma reserved_numbered: "reserved prefix (prefix @ show_nat n)"
  using show_nat_digits [of n] by (simp add: reserved_def del: list.set)

end
