(* ===== verification/Json_Values.thy ===== *)
theory Json_Values
  imports Normalization
begin

text \<open>
  JSON payloads. The contracts keep opaque JSON in fields such as \<open>target\<close>,
  \<open>input_payload\<close> and \<open>agent_preset_snapshot\<close>; a value of type \<open>json\<close> is what
  \<open>freeze_json_mapping\<close> returns (immutable, string keys, finite floats only), so freezing
  such a value again is the identity. A mapping keeps its insertion order. A finite float
  is its mantissa and binary exponent.
\<close>

datatype json =
    JNull
  | JBool bool
  | JInt int
  | JFloat int int
  | JStr string
  | JList "json list"
  | JObj "(string \<times> json) list"

type_synonym json_mapping = "(string \<times> json) list"

text \<open>\<open>json.dumps(..., sort_keys=True)\<close> orders every mapping by key before encoding it.\<close>

primrec sort_keys :: "json \<Rightarrow> json" where
  "sort_keys JNull = JNull"
| "sort_keys (JBool b) = JBool b"
| "sort_keys (JInt i) = JInt i"
| "sort_keys (JFloat m e) = JFloat m e"
| "sort_keys (JStr s) = JStr s"
| "sort_keys (JList xs) = JList (map sort_keys xs)"
| "sort_keys (JObj kvs) = JObj (sort_key fst (map (map_prod id sort_keys) kvs))"

text \<open>
  \<open>_digest\<close> and \<open>canonical_json_digest\<close>: SHA-256 in hexadecimal of the compact encoding
  with sorted keys. The hash of an encoded value is the parameter \<open>H\<close>.
\<close>

definition canonical_json_digest :: "(json \<Rightarrow> string) \<Rightarrow> json \<Rightarrow> string" where
  "canonical_json_digest H v = H (sort_keys v)"

definition json_texts :: "string list \<Rightarrow> json" where
  "json_texts xs = JList (map JStr xs)"

definition json_opt_text :: "string option \<Rightarrow> json" where
  "json_opt_text v = (case v of None \<Rightarrow> JNull | Some s \<Rightarrow> JStr s)"

text \<open>\<open>value not in (None, "", [], {})\<close>.\<close>

definition json_present :: "json \<Rightarrow> bool" where
  "json_present v \<longleftrightarrow> v \<notin> {JNull, JStr [], JList [], JObj []}"

text \<open>
  Equality of thawed JSON: mappings do not compare their order, and \<open>True\<close>, \<open>1\<close> and \<open>1.0\<close> are
  equal. Two values are equal when their normal forms are.
\<close>

fun float_value :: "int \<Rightarrow> nat \<Rightarrow> json" where
  "float_value m 0 = JInt m"
| "float_value m (Suc k) = (if even m then float_value (m div 2) k else JFloat m (- int (Suc k)))"

primrec json_value :: "json \<Rightarrow> json" where
  "json_value JNull = JNull"
| "json_value (JBool b) = JInt (of_bool b)"
| "json_value (JInt i) = JInt i"
| "json_value (JFloat m e) = (if e \<ge> 0 then JInt (m * 2 ^ nat e) else float_value m (nat (- e)))"
| "json_value (JStr s) = JStr s"
| "json_value (JList xs) = JList (map json_value xs)"
| "json_value (JObj kvs) = JObj (sort_key fst (map (map_prod id json_value) kvs))"

definition json_mapping_eq :: "json_mapping \<Rightarrow> json_mapping \<Rightarrow> bool" where
  "json_mapping_eq a b \<longleftrightarrow> json_value (JObj a) = json_value (JObj b)"

end
