(* ===== verification/Plans.thy ===== *)
theory Plans
  imports Enums Json_Values
begin

text \<open>
  \<open>purra/contracts/plans.py\<close>: semantic work plans, persisted execution steps and plans,
  and the bounded runtime grant. Each dataclass is a record of its raw field values; its
  \<open>__post_init__\<close> is a function from the raw record to the normalized one or to the
  exception it raises, and \<open>dataclasses.replace(x, f=v)\<close> is that function applied to the
  updated record.
\<close>

section \<open>Data\<close>

record task_spec =
  ts_goal :: string
  ts_target :: json_mapping
  ts_operation :: "string option"
  ts_instruction :: "string option"
  ts_constraints :: "string list"
  ts_preserve :: "string list"
  ts_deliverable :: "string option"

record work_step =
  ws_id :: string
  ws_title :: string
  ws_type :: step_type
  ws_executor :: step_executor
  ws_risk_level :: "tool_risk_level option"
  ws_capability_names :: "string list"
  ws_depends_on :: "string list"
  ws_description :: "string option"

record work_plan =
  wp_title :: string
  wp_steps :: "work_step list"
  wp_goal :: "string option"
  wp_task_spec :: "task_spec option"

record task_step =
  st_id :: string
  st_title :: string
  st_type :: step_type
  st_executor :: step_executor
  st_status :: step_status
  st_risk_level :: "tool_risk_level option"
  st_suggested_tools :: "string list"
  st_depends_on :: "string list"
  st_description :: "string option"
  st_result_summary :: "string option"
  st_error :: "string option"
  st_protocol_private :: bool
  st_planning_capability :: "string option"

record execution_plan =
  ep_title :: string
  ep_steps :: "task_step list"
  ep_goal :: "string option"
  ep_task_spec :: "task_spec option"
  ep_work_step_ids :: "string list option"

record execution_transition =
  et_step_id :: string
  et_executor :: step_executor
  et_allowed_tool_names :: "string set"
  et_future_tool_names :: "string set"

section \<open>Constructors\<close>

definition TaskSpec_post_init :: "task_spec \<Rightarrow> task_spec result" where
  "TaskSpec_post_init t =
     bind_result (required_text (ts_goal t) ''task spec goal'') (\<lambda>goal.
     Inr (t\<lparr>ts_goal := goal,
            ts_operation := optional_text (ts_operation t),
            ts_instruction := optional_text (ts_instruction t),
            ts_constraints := unique_text_tuple (ts_constraints t),
            ts_preserve := unique_text_tuple (ts_preserve t),
            ts_deliverable := optional_text (ts_deliverable t)\<rparr>))"

definition TaskSpec_to_mapping :: "task_spec \<Rightarrow> json_mapping" where
  "TaskSpec_to_mapping t = filter (\<lambda>(k, v). json_present v)
     [(''goal'', JStr (ts_goal t)),
      (''target'', JObj (ts_target t)),
      (''operation'', json_opt_text (ts_operation t)),
      (''instruction'', json_opt_text (ts_instruction t)),
      (''constraints'', json_texts (ts_constraints t)),
      (''preserve'', json_texts (ts_preserve t)),
      (''deliverable'', json_opt_text (ts_deliverable t))]"

definition WorkStep_post_init :: "work_step \<Rightarrow> work_step result" where
  "WorkStep_post_init w =
     bind_result (required_text (ws_id w) ''work step id'') (\<lambda>i.
     bind_result (required_text (ws_title w) ''work step title'') (\<lambda>t.
     Inr (w\<lparr>ws_id := i, ws_title := t,
            ws_capability_names := unique_text_tuple (ws_capability_names w),
            ws_depends_on := unique_text_tuple (ws_depends_on w),
            ws_description := optional_text (ws_description w)\<rparr>)))"

text \<open>
  \<open>_validate_dependencies\<close>, over the identity and the dependencies of each step; \<open>known\<close>
  is the set the loop accumulates.
\<close>

fun check_known_dependencies ::
    "string \<Rightarrow> string list \<Rightarrow> (string \<times> string list) list \<Rightarrow> unit result" where
  "check_known_dependencies label known [] = Inr ()"
| "check_known_dependencies label known ((i, deps) # rest) =
     (let unknown = filter (\<lambda>d. d \<notin> set known) deps in
      if unknown \<noteq> [] then
        Inl (ValueError (label @ '' dependencies must reference earlier steps: '' @ join_sorted unknown))
      else if i \<in> set deps then
        Inl (ValueError (label @ '' step cannot depend on itself''))
      else check_known_dependencies label (i # known) rest)"

definition validate_dependencies :: "(string \<times> string list) list \<Rightarrow> string \<Rightarrow> unit result" where
  "validate_dependencies steps label =
     (if \<not> distinct (map fst steps) then Inl (ValueError (label @ '' step ids must be unique''))
      else check_known_dependencies label [] steps)"

definition WorkPlan_post_init :: "work_plan \<Rightarrow> work_plan result" where
  "WorkPlan_post_init p =
     bind_result (required_text (wp_title p) ''work plan title'') (\<lambda>title.
     if wp_steps p = [] then Inl (ValueError ''work plan requires at least one step'')
     else bind_result
       (validate_dependencies (map (\<lambda>w. (ws_id w, ws_depends_on w)) (wp_steps p)) ''work plan'') (\<lambda>_.
     Inr (p\<lparr>wp_title := title, wp_goal := optional_text (wp_goal p)\<rparr>)))"

definition TaskStep_post_init :: "task_step \<Rightarrow> task_step result" where
  "TaskStep_post_init s =
     bind_result (required_text (st_id s) ''task step id'') (\<lambda>i.
     bind_result (required_text (st_title s) ''task step title'') (\<lambda>t.
     let capability = optional_text (st_planning_capability s);
         normalized = s\<lparr>st_id := i, st_title := t,
           st_suggested_tools := unique_text_tuple (st_suggested_tools s),
           st_depends_on := unique_text_tuple (st_depends_on s),
           st_description := optional_text (st_description s),
           st_result_summary := optional_text (st_result_summary s),
           st_error := optional_text (st_error s),
           st_planning_capability := capability\<rparr>
     in if st_protocol_private s \<and> st_executor s \<noteq> Exec_TOOL then
          Inl (ValueError ''only tool steps may be protocol-private'')
        else if capability \<noteq> None \<and> st_executor s \<noteq> Exec_TOOL then
          Inl (ValueError ''only tool steps may reference a planning capability'')
        else Inr normalized))"

definition step_edges :: "task_step list \<Rightarrow> (string \<times> string list) list" where
  "step_edges steps = map (\<lambda>s. (st_id s, st_depends_on s)) steps"

definition default_work_step_ids :: "task_step list \<Rightarrow> string list" where
  "default_work_step_ids steps = map st_id (filter (\<lambda>s. \<not> st_protocol_private s) steps)"

definition ExecutionPlan_post_init :: "execution_plan \<Rightarrow> execution_plan result" where
  "ExecutionPlan_post_init p =
     bind_result (required_text (ep_title p) ''execution plan title'') (\<lambda>title.
     if ep_steps p = [] then Inl (ValueError ''execution plan requires at least one step'')
     else bind_result (validate_dependencies (step_edges (ep_steps p)) ''execution plan'') (\<lambda>_.
     let work_ids = (case ep_work_step_ids p of
           None \<Rightarrow> default_work_step_ids (ep_steps p)
         | Some ids \<Rightarrow> unique_text_tuple ids);
         unknown = filter (\<lambda>i. i \<notin> set (map st_id (ep_steps p))) work_ids
     in if unknown \<noteq> [] then
          Inl (ValueError (''execution plan work_step_ids name unknown steps: '' @ join_sorted unknown))
        else Inr (p\<lparr>ep_title := title, ep_work_step_ids := Some work_ids,
                     ep_goal := optional_text (ep_goal p)\<rparr>)))"

definition ExecutionTransition_post_init ::
    "string \<Rightarrow> step_executor \<Rightarrow> string set \<Rightarrow> string set \<Rightarrow> execution_transition result" where
  "ExecutionTransition_post_init step_id executor allowed future =
     bind_result (required_text step_id ''execution transition step id'') (\<lambda>i.
     Inr \<lparr>et_step_id = i, et_executor = executor,
          et_allowed_tool_names = text_frozenset allowed,
          et_future_tool_names = text_frozenset future\<rparr>)"

section \<open>Well-formed steps and plans\<close>

text \<open>The steps \<open>__post_init__\<close> returns, as an explicit predicate.\<close>

definition step_ok :: "task_step \<Rightarrow> bool" where
  "step_ok s \<longleftrightarrow>
     clean_id (st_id s) \<and> clean_id (st_title s)
     \<and> clean_ids (st_suggested_tools s) \<and> clean_ids (st_depends_on s)
     \<and> clean_opt (st_description s) \<and> clean_opt (st_result_summary s) \<and> clean_opt (st_error s)
     \<and> clean_opt (st_planning_capability s)
     \<and> (st_protocol_private s \<longrightarrow> st_executor s = Exec_TOOL)
     \<and> (st_planning_capability s \<noteq> None \<longrightarrow> st_executor s = Exec_TOOL)"

lemma TaskStep_post_init_ok: "TaskStep_post_init s = Inr t \<Longrightarrow> step_ok t"
  by (auto simp: TaskStep_post_init_def step_ok_def Let_def result_simps
      dest: required_text_result_clean)

lemma TaskStep_post_init_id [simp]: "step_ok s \<Longrightarrow> TaskStep_post_init s = Inr s"
  by (auto simp: TaskStep_post_init_def step_ok_def Let_def)

text \<open>
  A dependency list is \<^emph>\<open>backward\<close> when every step depends only on steps listed before it.
\<close>

definition backward :: "(string \<times> string list) list \<Rightarrow> bool" where
  "backward es \<longleftrightarrow> (\<forall>i < length es. set (snd (es ! i)) \<subseteq> set (map fst (take i es)))"

lemma check_known_dependencies_iff:
  assumes "distinct (map fst es)" and "set known \<inter> set (map fst es) = {}"
  shows "check_known_dependencies label known es = Inr () \<longleftrightarrow>
     (\<forall>i < length es. set (snd (es ! i)) \<subseteq> set known \<union> set (map fst (take i es)))"
  using assms
proof (induction es arbitrary: known)
  case Nil
  then show ?case by simp
next
  case (Cons e es)
  obtain i deps where e: "e = (i, deps)" by (cases e)
  have IH: "check_known_dependencies label (i # known) es = Inr () \<longleftrightarrow>
      (\<forall>j < length es. set (snd (es ! j)) \<subseteq> set (i # known) \<union> set (map fst (take j es)))"
    using Cons.prems by (intro Cons.IH) (auto simp: e)
  have all: "(\<forall>j < length (e # es). P j) \<longleftrightarrow> P 0 \<and> (\<forall>j < length es. P (Suc j))" for P :: "nat \<Rightarrow> bool"
    by (auto simp: less_Suc_eq_0_disj)
  have unk: "filter (\<lambda>d. d \<notin> set known) deps = [] \<longleftrightarrow> set deps \<subseteq> set known"
    by (auto simp: filter_empty_conv)
  have notself: "set deps \<subseteq> set known \<Longrightarrow> i \<notin> set deps"
    using Cons.prems by (auto simp: e)
  show ?case
    unfolding all using IH unk notself by (auto simp: e Let_def)
qed

lemma validate_dependencies_iff:
  "validate_dependencies es label = Inr () \<longleftrightarrow> distinct (map fst es) \<and> backward es"
  by (auto simp: validate_dependencies_def backward_def check_known_dependencies_iff)

text \<open>The self-dependency branch of \<open>_validate_dependencies\<close> is never the one that fires.\<close>

lemma backward_no_self:
  assumes "distinct (map fst es)" and "backward es" and "i < length es"
  shows "fst (es ! i) \<notin> set (snd (es ! i))"
proof
  assume "fst (es ! i) \<in> set (snd (es ! i))"
  then have "map fst es ! i \<in> set (take i (map fst es))"
    using assms(2,3) by (auto simp: backward_def take_map)
  then obtain j where j: "j < i" "map fst es ! j = map fst es ! i"
    using assms(3) by (force simp: in_set_conv_nth)
  from assms(3) j(1) have "j < length (map fst es)" and "i < length (map fst es)"
    by simp_all
  with j nth_eq_iff_index_eq [OF assms(1)] show False
    by blast
qed

definition plan_ok :: "execution_plan \<Rightarrow> bool" where
  "plan_ok p \<longleftrightarrow>
     clean_id (ep_title p) \<and> ep_steps p \<noteq> [] \<and> (\<forall>s \<in> set (ep_steps p). step_ok s)
     \<and> distinct (map st_id (ep_steps p)) \<and> backward (step_edges (ep_steps p))
     \<and> clean_opt (ep_goal p)
     \<and> (\<exists>ids. ep_work_step_ids p = Some ids \<and> clean_ids ids \<and> set ids \<subseteq> set (map st_id (ep_steps p)))"

lemma plan_ok_code [code]:
  "plan_ok p \<longleftrightarrow>
     clean_id (ep_title p) \<and> ep_steps p \<noteq> [] \<and> list_all step_ok (ep_steps p)
     \<and> distinct (map st_id (ep_steps p)) \<and> backward (step_edges (ep_steps p))
     \<and> clean_opt (ep_goal p)
     \<and> (case ep_work_step_ids p of None \<Rightarrow> False
        | Some ids \<Rightarrow> clean_ids ids \<and> set ids \<subseteq> set (map st_id (ep_steps p)))"
  by (auto simp: plan_ok_def list_all_iff split: option.splits)

lemma map_fst_step_edges [simp]: "map fst (step_edges steps) = map st_id steps"
  by (simp add: step_edges_def comp_def)

lemma default_work_step_ids_clean:
  "\<forall>s \<in> set steps. step_ok s \<Longrightarrow> distinct (map st_id steps) \<Longrightarrow>
   clean_ids (default_work_step_ids steps)"
  by (auto simp: default_work_step_ids_def clean_ids_def step_ok_def distinct_map_filter)

lemma ExecutionPlan_post_init_ok:
  assumes "ExecutionPlan_post_init p = Inr q" and "\<forall>s \<in> set (ep_steps p). step_ok s"
  shows "plan_ok q"
proof -
  have ne: "filter (\<lambda>i. i \<notin> A) xs = [] \<longleftrightarrow> set xs \<subseteq> A" for A and xs :: "string list"
    by (auto simp: filter_empty_conv)
  show ?thesis
    using assms default_work_step_ids_clean [of "ep_steps p"]
    by (auto simp: ExecutionPlan_post_init_def plan_ok_def Let_def result_simps ne
        validate_dependencies_iff [simplified] required_text_Inr clean_id_def
        split: option.splits if_splits)
qed

lemma ExecutionPlan_post_init_id:
  assumes "plan_ok p"
  shows "ExecutionPlan_post_init p = Inr p"
proof -
  from assms obtain ids where ids: "ep_work_step_ids p = Some ids" "clean_ids ids"
      "filter (\<lambda>i. i \<notin> set (map st_id (ep_steps p))) ids = []"
    by (auto simp: plan_ok_def filter_empty_conv)
  from assms have "validate_dependencies (step_edges (ep_steps p)) ''execution plan'' = Inr ()"
    by (simp add: validate_dependencies_iff plan_ok_def)
  with assms ids show ?thesis
    by (simp add: ExecutionPlan_post_init_def plan_ok_def)
qed

end
