(* ===== verification/Run_State.thy ===== *)
theory Run_State
  imports Plans
begin

text \<open>
  \<open>purra/run_state.py\<close>: the immutable Run snapshot and \<open>RunStateMachine\<close>, the stateless
  reducer behind every Run. A snapshot is a record of raw field values and
  \<open>RunSnapshot_post_init\<close> the validation its constructor (and every \<open>replace\<close>) runs; each
  reducer method is one definition returning the transition or the exception.

  Of an execution checkpoint the snapshot inspects only the Run it belongs to; the rest is
  carried along as JSON.
\<close>

section \<open>Snapshots\<close>

record execution_checkpoint =
  cp_run_id :: string
  cp_body :: json

record run_snapshot =
  rs_run_id :: string
  rs_title :: string
  rs_goal :: "string option"
  rs_status :: run_status
  rs_task_spec :: "task_spec option"
  rs_steps :: "task_step list"
  rs_work_step_ids :: "string list option"
  rs_final_response :: string
  rs_error :: "string option"
  rs_execution_checkpoint :: "execution_checkpoint option"
  rs_agent_preset_snapshot :: json_mapping
  rs_deadline_at_ms :: "int option"
  rs_requested_user_max_generation_tokens :: "int option"
  rs_result_capacity_target_tokens :: "int option"
  rs_selected_context_window_tokens :: "int option"

definition terminal_status :: "run_status \<Rightarrow> bool" where
  "terminal_status st \<longleftrightarrow> st \<in> {Run_DONE, Run_BLOCKED, Run_FAILED, Run_CANCELED}"

definition finished :: "task_step \<Rightarrow> bool" where
  "finished s \<longleftrightarrow> st_status s \<in> {Step_DONE, Step_BLOCKED, Step_FAILED}"

definition running :: "task_step \<Rightarrow> bool" where
  "running s \<longleftrightarrow> st_status s = Step_RUNNING"

definition status_by_id :: "task_step list \<Rightarrow> string \<Rightarrow> step_status option" where
  "status_by_id steps = map_of (map (\<lambda>s. (st_id s, st_status s)) steps)"

definition dependencies_done :: "task_step list \<Rightarrow> task_step \<Rightarrow> bool" where
  "dependencies_done steps s \<longleftrightarrow>
     (\<forall>d \<in> set (st_depends_on s). status_by_id steps d = Some Step_DONE)"

definition RunSnapshot_post_init :: "run_snapshot \<Rightarrow> run_snapshot result" where
  "RunSnapshot_post_init r =
     bind_result (required_text (rs_run_id r) ''run snapshot run id'') (\<lambda>run_id.
     bind_result (required_text (rs_title r) ''run snapshot title'') (\<lambda>title.
     let steps = rs_steps r;
         work_ids = (case rs_work_step_ids r of
           None \<Rightarrow> default_work_step_ids steps | Some ids \<Rightarrow> ids)
     in
     if \<not> distinct (map st_id steps) then
       Inl (ValueError ''run snapshot step ids must be unique'')
     else if 1 < length (filter running steps) then
       Inl (ValueError ''a Run may execute only one plan transition at a time'')
     else if \<exists>s \<in> set steps. running s \<and> st_depends_on s \<noteq> [] \<and> \<not> dependencies_done steps s then
       Inl (ValueError ''a running step requires all Planner dependencies to be done'')
     else if terminal_status (rs_status r) \<and> filter running steps \<noteq> [] then
       Inl (ValueError ''terminal run snapshot cannot have a running step'')
     else if \<not> set work_ids \<subseteq> set (map st_id steps) then
       Inl (ValueError ''run snapshot work_step_ids must name known steps'')
     else
     bind_result (optional_positive_int (rs_requested_user_max_generation_tokens r)
       ''run snapshot requested_user_max_generation_tokens'') (\<lambda>requested.
     bind_result (optional_positive_int (rs_result_capacity_target_tokens r)
       ''run snapshot result_capacity_target_tokens'') (\<lambda>capacity.
     bind_result (optional_positive_int (rs_selected_context_window_tokens r)
       ''run snapshot selected_context_window_tokens'') (\<lambda>window.
     if (case rs_execution_checkpoint r of None \<Rightarrow> False | Some cp \<Rightarrow> cp_run_id cp \<noteq> run_id) then
       Inl (ValueError ''Run execution checkpoint belongs to another Run'')
     else Inr (r\<lparr>rs_run_id := run_id, rs_title := title,
       rs_goal := optional_text (rs_goal r),
       rs_work_step_ids := Some work_ids,
       rs_error := optional_text (rs_error r),
       rs_requested_user_max_generation_tokens := requested,
       rs_result_capacity_target_tokens := capacity,
       rs_selected_context_window_tokens := window\<rparr>))))))"

definition run_terminal :: "run_snapshot \<Rightarrow> bool" where
  "run_terminal r \<longleftrightarrow> terminal_status (rs_status r)"

definition snapshot_execution_plan :: "run_snapshot \<Rightarrow> execution_plan option result" where
  "snapshot_execution_plan r =
     (if rs_steps r = [] then Inr None
      else bind_result (ExecutionPlan_post_init
        \<lparr>ep_title = rs_title r, ep_steps = rs_steps r, ep_goal = rs_goal r,
         ep_task_spec = rs_task_spec r, ep_work_step_ids = rs_work_step_ids r\<rparr>) (\<lambda>p. Inr (Some p)))"

record step_update =
  tu_step_id :: string
  tu_status :: step_status
  tu_result_summary :: "string option"
  tu_error :: "string option"

definition TaskStepUpdate_post_init :: "step_update \<Rightarrow> step_update result" where
  "TaskStepUpdate_post_init u =
     bind_result (required_text (tu_step_id u) ''task step update id'') (\<lambda>i.
     Inr (u\<lparr>tu_step_id := i\<rparr>))"

record run_transition =
  tr_before :: run_snapshot
  tr_after :: run_snapshot
  tr_step_updates :: "step_update list"

definition RunTransition_post_init :: "run_transition \<Rightarrow> run_transition result" where
  "RunTransition_post_init t =
     (if rs_run_id (tr_before t) \<noteq> rs_run_id (tr_after t)
      then Inl (ValueError ''run transition cannot change run id'') else Inr t)"

definition transition_changed :: "run_transition \<Rightarrow> bool" where
  "transition_changed t \<longleftrightarrow> tr_before t \<noteq> tr_after t"

section \<open>Helpers of the reducer\<close>

definition unchanged :: "run_snapshot \<Rightarrow> run_transition result" where
  "unchanged r = RunTransition_post_init \<lparr>tr_before = r, tr_after = r, tr_step_updates = []\<rparr>"

definition initial_step :: "task_step \<Rightarrow> task_step result" where
  "initial_step s = TaskStep_post_init (s\<lparr>
     st_status := (if st_status s = Step_DONE then Step_DONE else Step_PENDING),
     st_result_summary := (if st_status s = Step_DONE then st_result_summary s else None),
     st_error := None\<rparr>)"

definition validate_step_execution_contract :: "task_step \<Rightarrow> unit result" where
  "validate_step_execution_contract s =
     (if st_type s = Type_CONFIRM then
        Inl (contract_violation ''confirm steps are owned by the host approval policy'')
      else if st_type s = Type_READ \<and> st_executor s \<noteq> Exec_TOOL then
        Inl (contract_violation ''read step must use the tool executor'')
      else if st_executor s = Exec_TOOL \<and> length (st_suggested_tools s) \<noteq> 1 then
        Inl (contract_violation ''tool step requires exactly one expected tool'')
      else if st_executor s = Exec_MODEL \<and> st_suggested_tools s \<noteq> [] then
        Inl (contract_violation ''model step cannot grant tool access'')
      else Inr ())"

definition is_tool_step :: "task_step \<Rightarrow> bool" where
  "is_tool_step s \<longleftrightarrow> st_executor s = Exec_TOOL \<or> st_type s = Type_READ"

definition is_model_step :: "task_step \<Rightarrow> bool" where
  "is_model_step s \<longleftrightarrow> st_executor s = Exec_MODEL \<and> st_type s \<notin> {Type_READ, Type_CONFIRM}"

definition next_incomplete_index :: "task_step list \<Rightarrow> nat option" where
  "next_incomplete_index steps = find_index (\<lambda>s. \<not> finished s) steps"

fun apply_step_changes :: "task_step list \<Rightarrow> (nat \<times> task_step) list \<Rightarrow> task_step list" where
  "apply_step_changes steps [] = steps"
| "apply_step_changes steps ((i, s) # changes) = apply_step_changes (replace_at steps i s) changes"

definition with_step_changes ::
    "run_snapshot \<Rightarrow> (nat \<times> task_step) list \<Rightarrow> run_status option \<Rightarrow> string option
     \<Rightarrow> string option \<Rightarrow> run_transition result" where
  "with_step_changes r changes status final_response err =
     bind_result (map_result (\<lambda>(i, s). TaskStepUpdate_post_init
        \<lparr>tu_step_id = st_id s, tu_status = st_status s,
         tu_result_summary = st_result_summary s, tu_error = st_error s\<rparr>) changes) (\<lambda>updates.
     bind_result (RunSnapshot_post_init (r\<lparr>
        rs_steps := apply_step_changes (rs_steps r) changes,
        rs_status := (case status of None \<Rightarrow> rs_status r | Some st \<Rightarrow> st),
        rs_final_response := (case final_response of None \<Rightarrow> rs_final_response r | Some t \<Rightarrow> t),
        rs_error := (case err of None \<Rightarrow> rs_error r | Some e \<Rightarrow> Some e)\<rparr>)) (\<lambda>after.
     RunTransition_post_init \<lparr>tr_before = r, tr_after = after, tr_step_updates = updates\<rparr>))"

text \<open>
  \<open>_unique_step_id\<close>: the loop runs over the suffixes from 2. Only finitely many numbered
  identities are in use, so it stops.
\<close>

definition numbered_id :: "string \<Rightarrow> nat \<Rightarrow> string" where
  "numbered_id base n = base @ ''-'' @ show_nat n"

lemma finite_used_suffixes: "finite {m. n \<le> m \<and> numbered_id base m \<in> set used}"
proof -
  have "inj (numbered_id base)" by (rule injI) (simp add: numbered_id_def)
  then have "finite (numbered_id base -` set used)"
    by (simp add: finite_vimageI)
  then show ?thesis
    by (rule rev_finite_subset) auto
qed

function next_suffix :: "string \<Rightarrow> string list \<Rightarrow> nat \<Rightarrow> nat" where
  "next_suffix base used n =
     (if numbered_id base n \<in> set used then next_suffix base used (Suc n) else n)"
  by pat_completeness auto
termination
proof (relation "measure (\<lambda>(base, used, n). card {m. n \<le> m \<and> numbered_id base m \<in> set used})",
    goal_cases)
  case 1
  show ?case by simp
next
  case (2 base used n)
  then have "{m. Suc n \<le> m \<and> numbered_id base m \<in> set used}
      \<subset> {m. n \<le> m \<and> numbered_id base m \<in> set used}"
    by (auto simp: psubset_eq Suc_le_eq)
  then show ?case
    using finite_used_suffixes by (simp add: psubset_card_mono)
qed

declare next_suffix.simps [simp del]

definition unique_step_id :: "string \<Rightarrow> string list \<Rightarrow> string" where
  "unique_step_id base used =
     (if base \<notin> set used then base else numbered_id base (next_suffix base used 2))"

section \<open>RunStateMachine\<close>

definition replace_step_status :: "task_step \<Rightarrow> step_status \<Rightarrow> task_step result" where
  "replace_step_status s st = TaskStep_post_init (s\<lparr>st_status := st\<rparr>)"

text \<open>\<open>replace(step, status=..., result_summary=(step.result_summary or default))\<close>.\<close>

definition or_text :: "string option \<Rightarrow> string \<Rightarrow> string option" where
  "or_text v d = (case v of None \<Rightarrow> Some d | Some s \<Rightarrow> if s = [] then Some d else Some s)"

definition settle_step :: "task_step \<Rightarrow> step_status \<Rightarrow> string \<Rightarrow> task_step result" where
  "settle_step s st summary = TaskStep_post_init
     (s\<lparr>st_status := st, st_result_summary := or_text (st_result_summary s) summary\<rparr>)"

definition initialize ::
    "string \<Rightarrow> execution_plan option \<Rightarrow> string \<Rightarrow> run_snapshot result" where
  "initialize run_id plan default_title =
     (let fresh = \<lparr>rs_run_id = run_id, rs_title = default_title, rs_goal = None,
        rs_status = Run_RUNNING, rs_task_spec = None, rs_steps = [], rs_work_step_ids = None,
        rs_final_response = [], rs_error = None, rs_execution_checkpoint = None,
        rs_agent_preset_snapshot = [], rs_deadline_at_ms = None,
        rs_requested_user_max_generation_tokens = None,
        rs_result_capacity_target_tokens = None,
        rs_selected_context_window_tokens = None\<rparr> in
      case plan of
        None \<Rightarrow> RunSnapshot_post_init fresh
      | Some p \<Rightarrow>
          bind_result (map_result initial_step (ep_steps p)) (\<lambda>steps.
          bind_result (map_result validate_step_execution_contract steps) (\<lambda>_.
          bind_result
            (case find_index (\<lambda>s. st_status s \<noteq> Step_DONE \<and> st_type s \<noteq> Type_CONFIRM) steps of
               None \<Rightarrow> Inr steps
             | Some i \<Rightarrow> bind_result (replace_step_status (steps ! i) Step_RUNNING) (\<lambda>s.
                 Inr (replace_at steps i s))) (\<lambda>started.
          RunSnapshot_post_init (fresh\<lparr>rs_title := ep_title p, rs_goal := ep_goal p,
            rs_task_spec := ep_task_spec p, rs_steps := started,
            rs_work_step_ids := ep_work_step_ids p\<rparr>)))))"

definition default_title :: string where
  "default_title = ''To-dos''"

definition fallback_step :: "string list \<Rightarrow> task_step result" where
  "fallback_step history_ids = TaskStep_post_init
     \<lparr>st_id = unique_step_id ''respond'' history_ids, st_title = ''Respond'',
      st_type = Type_REVIEW, st_executor = Exec_MODEL, st_status = Step_PENDING,
      st_risk_level = None, st_suggested_tools = [], st_depends_on = [],
      st_description = None, st_result_summary = None, st_error = None,
      st_protocol_private = False, st_planning_capability = None\<rparr>"

definition revise_step ::
    "(string \<rightharpoonup> string list) \<Rightarrow> (string \<rightharpoonup> task_step) \<Rightarrow> bool \<Rightarrow> task_step \<Rightarrow> task_step result" where
  "revise_step future_dependencies current_future preserve_running s =
     (case future_dependencies (st_id s) of
        None \<Rightarrow> Inl (KeyError (st_id s))
      | Some deps \<Rightarrow>
          (case current_future (st_id s) of
             Some c \<Rightarrow> TaskStep_post_init (s\<lparr>st_depends_on := deps, st_status := st_status c,
               st_result_summary := st_result_summary c, st_error := st_error c\<rparr>)
           | None \<Rightarrow> TaskStep_post_init (s\<lparr>st_depends_on := deps,
               st_status := (if preserve_running then Step_PENDING else st_status s)\<rparr>)))"

definition revise_plan :: "run_snapshot \<Rightarrow> execution_plan \<Rightarrow> run_snapshot result" where
  "revise_plan r plan =
     (if run_terminal r then Inl (contract_violation ''cannot revise a terminal run plan'')
      else
      let history = filter finished (rs_steps r);
          history_ids = map st_id history;
          planned = filter (\<lambda>s. st_id s \<notin> set history_ids) (ep_steps plan)
      in
      bind_result (if planned \<noteq> [] then Inr planned
                   else bind_result (fallback_step history_ids) (\<lambda>s. Inr [s])) (\<lambda>future.
      let future_dependencies = map_of (map (\<lambda>s. (st_id s, st_depends_on s)) future);
          current = filter (\<lambda>s. st_id s \<notin> set history_ids \<and> running s) (rs_steps r);
          current_future = map_of (map (\<lambda>s. (st_id s, s)) current);
          preserve_running = (\<exists>s \<in> set future. current_future (st_id s) \<noteq> None)
      in
      bind_result (map_result (\<lambda>s. TaskStep_post_init (s\<lparr>st_depends_on :=
          filter (\<lambda>d. d \<notin> set history_ids) (st_depends_on s)\<rparr>)) future) (\<lambda>detached.
      bind_result (ExecutionPlan_post_init \<lparr>ep_title = ep_title plan, ep_steps = detached,
          ep_goal = ep_goal plan, ep_task_spec = ep_task_spec plan, ep_work_step_ids = None\<rparr>) (\<lambda>tail_plan.
      bind_result (initialize (rs_run_id r) (Some tail_plan) default_title) (\<lambda>revised.
      bind_result (map_result (revise_step future_dependencies current_future preserve_running)
          (rs_steps revised)) (\<lambda>revised_steps.
      RunSnapshot_post_init (r\<lparr>rs_title := ep_title plan, rs_goal := ep_goal plan,
        rs_task_spec := ep_task_spec plan,
        rs_steps := history @ revised_steps,
        rs_work_step_ids := Some (dict_fromkeys
          (filter (\<lambda>i. i \<in> set history_ids)
             (case rs_work_step_ids r of None \<Rightarrow> [] | Some ids \<Rightarrow> ids)
           @ (case ep_work_step_ids plan of None \<Rightarrow> [] | Some ids \<Rightarrow> ids)))\<rparr>)))))))"

definition on_model_delta :: "run_snapshot \<Rightarrow> run_transition result" where
  "on_model_delta r =
     (if run_terminal r \<or> (\<exists>s \<in> set (rs_steps r). running s \<and> is_tool_step s) then unchanged r
      else case next_incomplete_index (rs_steps r) of
        None \<Rightarrow> unchanged r
      | Some i \<Rightarrow>
          if \<not> is_model_step (rs_steps r ! i) then unchanged r
          else if running (rs_steps r ! i) then unchanged r
          else bind_result (replace_step_status (rs_steps r ! i) Step_RUNNING) (\<lambda>s.
            with_step_changes r [(i, s)] None None None))"

definition allowed_tool_names_for_current_transition :: "run_snapshot \<Rightarrow> string set" where
  "allowed_tool_names_for_current_transition r =
     (if run_terminal r then {}
      else case find_index running (rs_steps r) of
        None \<Rightarrow> {}
      | Some i \<Rightarrow>
          let current = rs_steps r ! i in
          if is_tool_step current then set (st_suggested_tools current)
          else if \<not> is_model_step current then {}
          else case find (\<lambda>s. \<not> finished s) (drop (Suc i) (rs_steps r)) of
              None \<Rightarrow> {}
            | Some s \<Rightarrow> if is_tool_step s then set (st_suggested_tools s) else {})"

definition future_allowed_tool_names :: "run_snapshot \<Rightarrow> string set" where
  "future_allowed_tool_names r =
     (if run_terminal r then {}
      else case find_index running (rs_steps r) of
        None \<Rightarrow> {}
      | Some i \<Rightarrow>
          let current = rs_steps r ! i;
              current_tool_index =
                (if is_tool_step current then Some i
                 else if is_model_step current then
                   (case find_index (\<lambda>s. \<not> finished s) (drop (Suc i) (rs_steps r)) of
                      None \<Rightarrow> None
                    | Some k \<Rightarrow> if is_tool_step (rs_steps r ! (Suc i + k)) then Some (Suc i + k) else None)
                 else None);
              start_index = (case current_tool_index of Some k \<Rightarrow> Suc k | None \<Rightarrow> Suc i)
          in set (concat (map st_suggested_tools
               (filter (\<lambda>s. \<not> finished s \<and> is_tool_step s) (drop start_index (rs_steps r))))))"

definition allowed_tool_names :: "run_snapshot \<Rightarrow> string set" where
  "allowed_tool_names r =
     set (concat (map st_suggested_tools (filter is_tool_step (rs_steps r))))"

definition execution_transition :: "run_snapshot \<Rightarrow> execution_transition option result" where
  "execution_transition r =
     (if run_terminal r then Inr None
      else case find running (rs_steps r) of
        None \<Rightarrow> Inr None
      | Some s \<Rightarrow> bind_result (ExecutionTransition_post_init (st_id s) (st_executor s)
          (allowed_tool_names_for_current_transition r) (future_allowed_tool_names r)) (\<lambda>t.
          Inr (Some t)))"

text \<open>
  \<open>on_tool_calls_started\<close> first closes a running model step, then starts the tool step;
  the second part works on the steps as the first left them.
\<close>

definition close_running_model ::
    "task_step list \<Rightarrow> ((nat \<times> task_step) list \<times> task_step list) result" where
  "close_running_model steps =
     (case find_index (\<lambda>s. running s \<and> is_model_step s) steps of
        None \<Rightarrow> Inr ([], steps)
      | Some i \<Rightarrow> bind_result (settle_step (steps ! i) Step_DONE
            ''Model reasoning completed before tool execution.'') (\<lambda>completed.
          Inr ([(i, completed)], replace_at steps i completed)))"

definition on_tool_calls_started :: "run_snapshot \<Rightarrow> string list \<Rightarrow> run_transition result" where
  "on_tool_calls_started r tool_names =
     (if run_terminal r then unchanged r
      else
      let requested = set (text_tuple tool_names);
          allowed = allowed_tool_names_for_current_transition r
      in if requested = {} \<or> \<not> requested \<subseteq> allowed then
           Inl (contract_violation ''tool calls are outside the current plan transition'')
      else
      bind_result (close_running_model (rs_steps r)) (\<lambda>(changes, steps).
      let tool_index = (case find_index (\<lambda>s. running s \<and> is_tool_step s) steps of
             Some i \<Rightarrow> Some i | None \<Rightarrow> next_incomplete_index steps)
      in case tool_index of
           None \<Rightarrow> Inl (contract_violation ''current plan transition is not a tool step'')
         | Some i \<Rightarrow>
             if \<not> is_tool_step (steps ! i) then
               Inl (contract_violation ''current plan transition is not a tool step'')
             else if running (steps ! i) then with_step_changes r changes None None None
             else bind_result (replace_step_status (steps ! i) Step_RUNNING) (\<lambda>s.
               with_step_changes r (changes @ [(i, s)]) None None None)))"

definition on_tool_round_completed ::
    "run_snapshot \<Rightarrow> tool_batch_outcome \<Rightarrow> run_transition result" where
  "on_tool_round_completed r outcome =
     (if run_terminal r then unchanged r
      else if outcome \<notin> {Batch_PROGRESSED, Batch_COMPLETED, Batch_DECLINED} then
        Inl (contract_violation
          ''only progressed, completed, or declined tool rounds may advance todo state'')
      else case find_index (\<lambda>s. running s \<and> is_tool_step s) (rs_steps r) of
        None \<Rightarrow> unchanged r
      | Some i \<Rightarrow>
          if outcome = Batch_DECLINED then
            bind_result (TaskStep_post_init ((rs_steps r ! i)\<lparr>st_status := Step_BLOCKED,
                st_result_summary :=
                  Some ''User declined approval; the planned tool was not executed.'',
                st_error := Some ''approval_rejected''\<rparr>)) (\<lambda>declined.
              with_step_changes r [(i, declined)] None None None)
          else if outcome = Batch_PROGRESSED then unchanged r
          else
            bind_result (settle_step (rs_steps r ! i) Step_DONE ''Planned tool step completed.'') (\<lambda>completed.
              let steps = replace_at (rs_steps r) i completed in
              case next_incomplete_index steps of
                None \<Rightarrow> with_step_changes r [(i, completed)] None None None
              | Some k \<Rightarrow>
                  if st_type (steps ! k) = Type_CONFIRM
                  then with_step_changes r [(i, completed)] None None None
                  else bind_result (replace_step_status (steps ! k) Step_RUNNING) (\<lambda>started.
                    with_step_changes r [(i, completed), (k, started)] None None None)))"

definition on_tool_round_failed :: "run_snapshot \<Rightarrow> string \<Rightarrow> run_transition result" where
  "on_tool_round_failed r err =
     (if run_terminal r then unchanged r
      else
      let normalized_error = (case optional_text (Some err) of
            None \<Rightarrow> ''tool_execution_failed'' | Some e \<Rightarrow> e)
      in case find_index (\<lambda>s. running s \<and> is_tool_step s) (rs_steps r) of
        None \<Rightarrow> Inl (contract_violation ''failed tool round requires a running tool step'')
      | Some i \<Rightarrow>
          bind_result (TaskStep_post_init ((rs_steps r ! i)\<lparr>st_status := Step_FAILED,
              st_result_summary := Some ''Tool execution failed; runtime replanning requested.'',
              st_error := Some normalized_error\<rparr>)) (\<lambda>failed.
            with_step_changes r [(i, failed)] None None None))"

text \<open>
  The closing reducers build one change per selected step of \<open>enumerate(state.steps)\<close>.
\<close>

definition changes_for ::
    "(task_step \<Rightarrow> bool) \<Rightarrow> (task_step \<Rightarrow> task_step result) \<Rightarrow> task_step list
     \<Rightarrow> (nat \<times> task_step) list result" where
  "changes_for sel upd steps =
     map_result (\<lambda>(i, s). bind_result (upd s) (\<lambda>t. Inr (i, t)))
       (filter (\<lambda>(i, s). sel s) (enumerate 0 steps))"

definition open_step :: "task_step \<Rightarrow> bool" where
  "open_step s \<longleftrightarrow> st_status s \<in> {Step_PENDING, Step_RUNNING}"

definition complete_step :: "bool \<Rightarrow> task_step \<Rightarrow> task_step result" where
  "complete_step has_incomplete_non_model s =
     (if is_model_step s \<and> (running s \<or> \<not> has_incomplete_non_model)
      then settle_step s Step_DONE ''Final response covered this model step.''
      else settle_step s Step_BLOCKED ''This planned step was not executed in the run.'')"

definition has_incomplete_non_model :: "task_step list \<Rightarrow> bool" where
  "has_incomplete_non_model steps \<longleftrightarrow> (\<exists>s \<in> set steps. open_step s \<and> \<not> is_model_step s)"

definition complete :: "run_snapshot \<Rightarrow> string \<Rightarrow> run_transition result" where
  "complete r final_response =
     (if run_terminal r then unchanged r
      else
      let incomplete = has_incomplete_non_model (rs_steps r) in
      bind_result (changes_for open_step (complete_step incomplete) (rs_steps r)) (\<lambda>changes.
      with_step_changes r changes (Some (if incomplete then Run_BLOCKED else Run_DONE))
        (Some final_response) None))"

definition durable_changes ::
    "run_snapshot \<Rightarrow> string list \<Rightarrow> (nat \<times> task_step) list result" where
  "durable_changes r covered_step_ids =
     (if set (map st_id (rs_steps r)) \<noteq> set covered_step_ids then
        Inl (RuntimeError ''durable completion must match the admitted plan steps'')
      else changes_for (\<lambda>s. st_id s \<in> set covered_step_ids \<and> st_status s \<noteq> Step_DONE)
        (\<lambda>s. settle_step s Step_DONE ''Durable execution fulfilled this admitted step.'')
        (rs_steps r))"

definition complete_durable_execution ::
    "run_snapshot \<Rightarrow> string \<Rightarrow> string list \<Rightarrow> run_transition result" where
  "complete_durable_execution r final_response covered_step_ids =
     (if run_terminal r then unchanged r
      else bind_result (durable_changes r covered_step_ids) (\<lambda>changes.
        with_step_changes r changes (Some Run_DONE) (Some final_response) None))"

definition finish_durable_execution ::
    "run_snapshot \<Rightarrow> string list \<Rightarrow> run_transition result" where
  "finish_durable_execution r covered_step_ids =
     (if run_terminal r then unchanged r
      else bind_result (durable_changes r covered_step_ids) (\<lambda>changes.
        with_step_changes r changes None None None))"

fun sync_changes ::
    "task_step list \<Rightarrow> (string \<times> step_status) list \<Rightarrow> (nat \<times> task_step) list result" where
  "sync_changes steps [] = Inr []"
| "sync_changes steps ((step_id, status) # rest) =
     (case find_index (\<lambda>s. st_id s = step_id) steps of
        None \<Rightarrow> Inl (KeyError step_id)
      | Some i \<Rightarrow>
          let s = steps ! i in
          if st_status s = status then sync_changes steps rest
          else if st_status s = Step_DONE \<and> status \<noteq> Step_DONE then sync_changes steps rest
          else bind_result (TaskStep_post_init (s\<lparr>st_status := status,
                 st_result_summary := (if status = Step_DONE
                   then Some ''Durable execution completed this Planner step.''
                   else st_result_summary s),
                 st_error := (if status = Step_FAILED
                   then Some ''durable_execution_failed'' else None)\<rparr>)) (\<lambda>t.
               bind_result (sync_changes steps rest) (\<lambda>changes. Inr ((i, t) # changes))))"

definition sync_durable_execution ::
    "run_snapshot \<Rightarrow> (string \<times> step_status) list \<Rightarrow> run_transition result" where
  "sync_durable_execution r statuses =
     (if run_terminal r then unchanged r
      else
      let unknown = filter (\<lambda>i. i \<notin> set (map st_id (rs_steps r))) (map fst statuses) in
      if unknown \<noteq> [] then
        Inl (contract_violation (''durable progress names unknown plan steps: '' @ join_sorted unknown))
      else bind_result (sync_changes (rs_steps r) statuses) (\<lambda>changes.
        with_step_changes r changes None None None))"

definition fail :: "run_snapshot \<Rightarrow> string \<Rightarrow> run_transition result" where
  "fail r err =
     (if run_terminal r then unchanged r
      else case optional_text (Some err) of
        None \<Rightarrow> Inl (contract_violation ''failed run requires a non-empty error'')
      | Some normalized_error \<Rightarrow>
          bind_result (changes_for running (\<lambda>s. TaskStep_post_init
            (s\<lparr>st_status := Step_FAILED, st_error := Some normalized_error\<rparr>)) (rs_steps r)) (\<lambda>changes.
          with_step_changes r changes (Some Run_FAILED) None (Some normalized_error)))"

definition cancel :: "run_snapshot \<Rightarrow> string \<Rightarrow> run_transition result" where
  "cancel r reason =
     (if run_terminal r then unchanged r
      else
      let normalized_reason = (case optional_text (Some reason) of
            None \<Rightarrow> ''request_canceled'' | Some t \<Rightarrow> t)
      in bind_result (changes_for open_step (\<lambda>s. settle_step s Step_BLOCKED
           ''Run was canceled before this step completed.'') (rs_steps r)) (\<lambda>changes.
         with_step_changes r changes (Some Run_CANCELED) None (Some normalized_reason)))"

definition canonicalize_execution_plan :: "execution_plan \<Rightarrow> execution_plan result" where
  "canonicalize_execution_plan p =
     bind_result (initialize ''canonical-plan'' (Some p) default_title) (\<lambda>r.
     ExecutionPlan_post_init \<lparr>ep_title = rs_title r, ep_steps = rs_steps r, ep_goal = rs_goal r,
       ep_task_spec = rs_task_spec r, ep_work_step_ids = rs_work_step_ids r\<rparr>)"

end
