(* ===== verification/Run_Lifecycle.thy ===== *)
theory Run_Lifecycle
  imports Run_State
begin

text \<open>
  Correctness of the Run reducer: the snapshots its constructor accepts as an explicit
  invariant, what every reducer does to the steps, and the event machine the controller
  drives.
\<close>

section \<open>The snapshot invariant\<close>

definition steps_ok :: "run_status \<Rightarrow> task_step list \<Rightarrow> bool" where
  "steps_ok st steps \<longleftrightarrow>
     (\<forall>s \<in> set steps. step_ok s) \<and> distinct (map st_id steps)
     \<and> length (filter running steps) \<le> 1
     \<and> (\<forall>s \<in> set steps. running s \<longrightarrow> dependencies_done steps s)
     \<and> (terminal_status st \<longrightarrow> (\<forall>s \<in> set steps. \<not> running s))"

definition snapshot_ok :: "run_snapshot \<Rightarrow> bool" where
  "snapshot_ok r \<longleftrightarrow>
     clean_id (rs_run_id r) \<and> clean_id (rs_title r)
     \<and> clean_opt (rs_goal r) \<and> clean_opt (rs_error r)
     \<and> steps_ok (rs_status r) (rs_steps r)
     \<and> (\<exists>ids. rs_work_step_ids r = Some ids \<and> set ids \<subseteq> st_id ` set (rs_steps r))
     \<and> positive_opt (rs_requested_user_max_generation_tokens r)
     \<and> positive_opt (rs_result_capacity_target_tokens r)
     \<and> positive_opt (rs_selected_context_window_tokens r)
     \<and> (\<forall>cp. rs_execution_checkpoint r = Some cp \<longrightarrow> cp_run_id cp = rs_run_id r)"

lemma snapshot_ok_code [code]:
  "snapshot_ok r \<longleftrightarrow>
     clean_id (rs_run_id r) \<and> clean_id (rs_title r)
     \<and> clean_opt (rs_goal r) \<and> clean_opt (rs_error r)
     \<and> steps_ok (rs_status r) (rs_steps r)
     \<and> (case rs_work_step_ids r of None \<Rightarrow> False | Some ids \<Rightarrow> set ids \<subseteq> set (map st_id (rs_steps r)))
     \<and> positive_opt (rs_requested_user_max_generation_tokens r)
     \<and> positive_opt (rs_result_capacity_target_tokens r)
     \<and> positive_opt (rs_selected_context_window_tokens r)
     \<and> (case rs_execution_checkpoint r of None \<Rightarrow> True | Some cp \<Rightarrow> cp_run_id cp = rs_run_id r)"
  by (auto simp: snapshot_ok_def split: option.splits)

lemma dependencies_done_Nil: "st_depends_on s = [] \<Longrightarrow> dependencies_done steps s"
  by (simp add: dependencies_done_def)

lemma RunSnapshot_post_init_frame:
  assumes "RunSnapshot_post_init r = Inr r'"
  shows "rs_steps r' = rs_steps r" and "rs_status r' = rs_status r"
    and "rs_final_response r' = rs_final_response r"
    and "rs_error r' = optional_text (rs_error r)"
    and "rs_run_id r' = strip (rs_run_id r)" and "rs_title r' = strip (rs_title r)"
    and "rs_goal r' = optional_text (rs_goal r)"
    and "rs_task_spec r' = rs_task_spec r"
  using assms
  by (auto simp: RunSnapshot_post_init_def Let_def result_simps required_text_Inr)

lemma RunSnapshot_post_init_checks:
  assumes "RunSnapshot_post_init r = Inr r'"
  shows "clean_id (rs_run_id r')" and "clean_id (rs_title r')"
    and "distinct (map st_id (rs_steps r))" and "length (filter running (rs_steps r)) \<le> 1"
    and "\<not> (\<exists>s \<in> set (rs_steps r). running s \<and> st_depends_on s \<noteq> []
           \<and> \<not> dependencies_done (rs_steps r) s)"
    and "terminal_status (rs_status r) \<Longrightarrow> filter running (rs_steps r) = []"
    and "\<exists>ids. rs_work_step_ids r' = Some ids \<and> set ids \<subseteq> st_id ` set (rs_steps r)"
    and "positive_opt (rs_requested_user_max_generation_tokens r')"
    and "positive_opt (rs_result_capacity_target_tokens r')"
    and "positive_opt (rs_selected_context_window_tokens r')"
    and "rs_execution_checkpoint r' = Some cp \<Longrightarrow> cp_run_id cp = rs_run_id r'"
  using assms
  by (auto simp: RunSnapshot_post_init_def positive_opt_def Let_def result_simps normalizer_Inr
      dest: required_text_result_clean)

lemma RunSnapshot_post_init_ok:
  assumes "RunSnapshot_post_init r = Inr r'" and "\<forall>s \<in> set (rs_steps r). step_ok s"
  shows "snapshot_ok r'"
proof -
  note checks = RunSnapshot_post_init_checks [OF assms(1)]
  note frame = RunSnapshot_post_init_frame [OF assms(1)]
  have "\<forall>s \<in> set (rs_steps r). running s \<longrightarrow> dependencies_done (rs_steps r) s"
    using checks(5) dependencies_done_Nil by blast
  then have "steps_ok (rs_status r') (rs_steps r')"
    using assms(2) checks(3,4,6) by (auto simp: steps_ok_def frame filter_empty_conv)
  with checks show ?thesis
    by (simp add: snapshot_ok_def frame)
qed

lemma RunSnapshot_post_init_id:
  assumes "snapshot_ok r"
  shows "RunSnapshot_post_init r = Inr r"
proof -
  from assms obtain ids where ids: "rs_work_step_ids r = Some ids" "set ids \<subseteq> st_id ` set (rs_steps r)"
    by (auto simp: snapshot_ok_def)
  have pos: "optional_positive_int (rs_requested_user_max_generation_tokens r) f
        = Inr (rs_requested_user_max_generation_tokens r)"
      "optional_positive_int (rs_result_capacity_target_tokens r) f
        = Inr (rs_result_capacity_target_tokens r)"
      "optional_positive_int (rs_selected_context_window_tokens r) f
        = Inr (rs_selected_context_window_tokens r)" for f
    using assms by (auto simp: snapshot_ok_def positive_opt_def optional_positive_int_Inr)
  have ne: "filter running (rs_steps r) = []" if "terminal_status (rs_status r)"
    using assms that by (auto simp: snapshot_ok_def steps_ok_def filter_empty_conv)
  show ?thesis
    using assms ids ne
    by (auto simp: RunSnapshot_post_init_def snapshot_ok_def steps_ok_def pos Let_def
        split: option.splits)
qed

section \<open>Step changes\<close>

definition changes_ok :: "task_step list \<Rightarrow> (nat \<times> task_step) list \<Rightarrow> bool" where
  "changes_ok steps cs \<longleftrightarrow>
     distinct (map fst cs)
     \<and> (\<forall>(i, s) \<in> set cs. i < length steps \<and> step_ok s \<and> st_id s = st_id (steps ! i))"

lemma apply_step_changes_length:
  "\<forall>(i, s) \<in> set cs. i < length steps \<Longrightarrow> length (apply_step_changes steps cs) = length steps"
  by (induction cs arbitrary: steps) (auto simp: replace_at_list_update)

lemma apply_step_changes_nth:
  assumes "distinct (map fst cs)" and "\<forall>(i, s) \<in> set cs. i < length steps" and "j < length steps"
  shows "apply_step_changes steps cs ! j = (case map_of cs j of Some s \<Rightarrow> s | None \<Rightarrow> steps ! j)"
  using assms
proof (induction cs arbitrary: steps)
  case Nil
  then show ?case by simp
next
  case (Cons c cs)
  obtain i s where c: "c = (i, s)" by (cases c)
  have "map_of cs i = None"
    using Cons.prems(1) by (auto simp: c map_of_eq_None_iff)
  then show ?case
    using Cons.prems Cons.IH [of "steps[i := s]"]
    by (auto simp: c replace_at_list_update split: option.splits)
qed

lemma apply_step_changes_ids:
  assumes "changes_ok steps cs"
  shows "map st_id (apply_step_changes steps cs) = map st_id steps"
proof (rule nth_equalityI)
  have rng: "\<forall>(i, s) \<in> set cs. i < length steps" and d: "distinct (map fst cs)"
    using assms by (auto simp: changes_ok_def)
  show "length (map st_id (apply_step_changes steps cs)) = length (map st_id steps)"
    using rng by (simp add: apply_step_changes_length)
  fix j assume "j < length (map st_id (apply_step_changes steps cs))"
  then have j: "j < length steps" using rng by (simp add: apply_step_changes_length)
  have "st_id s = st_id (steps ! j)" if "map_of cs j = Some s" for s
    using assms that by (auto simp: changes_ok_def dest!: map_of_SomeD)
  then show "map st_id (apply_step_changes steps cs) ! j = map st_id steps ! j"
    using j rng d
    by (auto simp: apply_step_changes_nth apply_step_changes_length split: option.splits)
qed

lemma apply_step_changes_step_ok:
  assumes "changes_ok steps cs" and "\<forall>s \<in> set steps. step_ok s"
    and "s \<in> set (apply_step_changes steps cs)"
  shows "step_ok s"
proof -
  have rng: "\<forall>(i, s) \<in> set cs. i < length steps" and d: "distinct (map fst cs)"
    using assms(1) by (auto simp: changes_ok_def)
  from assms(3) obtain j where j: "j < length steps" "s = apply_step_changes steps cs ! j"
    using rng by (auto simp: in_set_conv_nth apply_step_changes_length)
  show ?thesis
    using assms(1,2) j rng d
    by (auto simp: apply_step_changes_nth changes_ok_def split: option.splits dest!: map_of_SomeD)
qed

definition update_of :: "task_step \<Rightarrow> step_update" where
  "update_of s = \<lparr>tu_step_id = st_id s, tu_status = st_status s,
     tu_result_summary = st_result_summary s, tu_error = st_error s\<rparr>"

definition changed_snapshot ::
    "run_snapshot \<Rightarrow> task_step list \<Rightarrow> run_status option \<Rightarrow> string option \<Rightarrow> string option
     \<Rightarrow> run_snapshot" where
  "changed_snapshot r steps st resp err = r\<lparr>rs_steps := steps,
     rs_status := (case st of None \<Rightarrow> rs_status r | Some x \<Rightarrow> x),
     rs_final_response := (case resp of None \<Rightarrow> rs_final_response r | Some t \<Rightarrow> t),
     rs_error := (case err of None \<Rightarrow> rs_error r | Some e \<Rightarrow> Some e)\<rparr>"

text \<open>
  The characteristic equation of \<open>_with_step_changes\<close> on a valid snapshot: it returns the
  changed snapshot exactly when the changed steps satisfy the invariant.
\<close>

lemma with_step_changes_eq:
  assumes "snapshot_ok r" and "changes_ok (rs_steps r) cs" and "clean_opt err"
  shows "with_step_changes r cs st resp err =
     bind_result (RunSnapshot_post_init (changed_snapshot r (apply_step_changes (rs_steps r) cs) st resp err))
       (\<lambda>after. Inr \<lparr>tr_before = r, tr_after = after, tr_step_updates = map (update_of \<circ> snd) cs\<rparr>)"
proof -
  have "map_result (\<lambda>(i, s). TaskStepUpdate_post_init
        \<lparr>tu_step_id = st_id s, tu_status = st_status s,
         tu_result_summary = st_result_summary s, tu_error = st_error s\<rparr>) cs
      = Inr (map (update_of \<circ> snd) cs)"
    using assms(2)
    by (intro map_result_total)
      (auto simp: changes_ok_def step_ok_def TaskStepUpdate_post_init_def update_of_def)
  moreover have "RunTransition_post_init \<lparr>tr_before = r, tr_after = after, tr_step_updates = us\<rparr>
      = Inr \<lparr>tr_before = r, tr_after = after, tr_step_updates = us\<rparr>"
    if "RunSnapshot_post_init (changed_snapshot r steps st resp err) = Inr after" for after steps us
    using RunSnapshot_post_init_frame(5) [OF that] assms(1)
    by (simp add: RunTransition_post_init_def changed_snapshot_def snapshot_ok_def clean_id_def)
  ultimately show ?thesis
    unfolding with_step_changes_def changed_snapshot_def [symmetric]
    by (auto intro: bind_result_cong)
qed

lemma changed_snapshot_ok:
  assumes "snapshot_ok r" and "clean_opt err"
    and "steps_ok (case st of None \<Rightarrow> rs_status r | Some x \<Rightarrow> x) steps"
    and "map st_id steps = map st_id (rs_steps r)"
  shows "snapshot_ok (changed_snapshot r steps st resp err)"
proof -
  have "st_id ` set steps = st_id ` set (rs_steps r)"
    using assms(4) by (metis list.set_map)
  then show ?thesis
    using assms(1,2,3)
    by (auto simp: snapshot_ok_def changed_snapshot_def split: option.splits)
qed

lemma with_step_changes_Inr:
  assumes "snapshot_ok r" and "changes_ok (rs_steps r) cs" and "clean_opt err"
    and "steps_ok (case st of None \<Rightarrow> rs_status r | Some x \<Rightarrow> x) (apply_step_changes (rs_steps r) cs)"
  shows "with_step_changes r cs st resp err = Inr
     \<lparr>tr_before = r, tr_after = changed_snapshot r (apply_step_changes (rs_steps r) cs) st resp err,
      tr_step_updates = map (update_of \<circ> snd) cs\<rparr>"
  using assms
  by (simp add: with_step_changes_eq RunSnapshot_post_init_id changed_snapshot_ok
      apply_step_changes_ids)

lemma with_step_changes_ok:
  assumes "with_step_changes r cs st resp err = Inr t" and "snapshot_ok r"
    and "changes_ok (rs_steps r) cs"
  shows "snapshot_ok (tr_after t)" and "tr_before t = r"
    and "rs_steps (tr_after t) = apply_step_changes (rs_steps r) cs"
    and "rs_status (tr_after t) = (case st of None \<Rightarrow> rs_status r | Some x \<Rightarrow> x)"
proof -
  have ok: "\<forall>s \<in> set (apply_step_changes (rs_steps r) cs). step_ok s"
    using assms(2,3) apply_step_changes_step_ok by (auto simp: snapshot_ok_def steps_ok_def)
  obtain after where a: "RunSnapshot_post_init
      (changed_snapshot r (apply_step_changes (rs_steps r) cs) st resp err) = Inr after"
      and t: "tr_after t = after" "tr_before t = r"
    using assms(1) unfolding with_step_changes_def changed_snapshot_def [symmetric]
    by (auto simp: bind_result_Inr_iff RunTransition_post_init_def split: if_splits)
  show "snapshot_ok (tr_after t)"
    using RunSnapshot_post_init_ok [OF a] ok t by (simp add: changed_snapshot_def)
  show "tr_before t = r" by (rule t)
  show "rs_steps (tr_after t) = apply_step_changes (rs_steps r) cs"
    using RunSnapshot_post_init_frame(1) [OF a] t by (simp add: changed_snapshot_def)
  show "rs_status (tr_after t) = (case st of None \<Rightarrow> rs_status r | Some x \<Rightarrow> x)"
    using RunSnapshot_post_init_frame(2) [OF a] t by (simp add: changed_snapshot_def)
qed

lemma unchanged_eq [simp]:
  "unchanged r = Inr \<lparr>tr_before = r, tr_after = r, tr_step_updates = []\<rparr>"
  by (simp add: unchanged_def RunTransition_post_init_def)

section \<open>Bulk changes\<close>

definition selected_changes ::
    "(task_step \<Rightarrow> bool) \<Rightarrow> (task_step \<Rightarrow> task_step) \<Rightarrow> task_step list \<Rightarrow> (nat \<times> task_step) list" where
  "selected_changes sel g steps =
     map (\<lambda>(i, s). (i, g s)) (filter (\<lambda>(i, s). sel s) (enumerate 0 steps))"

lemma changes_for_Inr:
  assumes "\<And>s. s \<in> set steps \<Longrightarrow> sel s \<Longrightarrow> upd s = Inr (g s)"
  shows "changes_for sel upd steps = Inr (selected_changes sel g steps)"
  unfolding changes_for_def selected_changes_def
  by (rule map_result_total) (auto simp: assms in_set_enumerate_eq)

lemma fst_selected_changes:
  "map fst (selected_changes sel g steps) = map fst (filter (\<lambda>(i, s). sel s) (enumerate 0 steps))"
  by (simp add: selected_changes_def case_prod_beta comp_def)

lemma in_selected_changes:
  "(i, t) \<in> set (selected_changes sel g steps) \<longleftrightarrow>
     i < length steps \<and> sel (steps ! i) \<and> t = g (steps ! i)"
  by (auto simp: selected_changes_def in_set_enumerate_eq image_iff)

lemma distinct_selected_changes: "distinct (map fst (selected_changes sel g steps))"
  unfolding fst_selected_changes
  by (rule distinct_map_filter) (simp add: enumerate_eq_zip)

lemma map_of_selected_changes:
  assumes "j < length steps"
  shows "map_of (selected_changes sel g steps) j = (if sel (steps ! j) then Some (g (steps ! j)) else None)"
proof (cases "sel (steps ! j)")
  case True
  then have "(j, g (steps ! j)) \<in> set (selected_changes sel g steps)"
    using assms by (simp add: in_selected_changes)
  with True show ?thesis
    by (simp add: distinct_selected_changes)
next
  case False
  then have "j \<notin> fst ` set (selected_changes sel g steps)"
    by (auto simp: in_selected_changes)
  with False show ?thesis by (simp add: map_of_eq_None_iff)
qed

lemma apply_selected_changes:
  "apply_step_changes steps (selected_changes sel g steps) = map (\<lambda>s. if sel s then g s else s) steps"
proof (rule nth_equalityI)
  have rng: "\<forall>(i, s) \<in> set (selected_changes sel g steps). i < length steps"
    by (auto simp: in_selected_changes)
  then show "length (apply_step_changes steps (selected_changes sel g steps))
      = length (map (\<lambda>s. if sel s then g s else s) steps)"
    by (simp add: apply_step_changes_length)
  fix j assume "j < length (apply_step_changes steps (selected_changes sel g steps))"
  then have "j < length steps" using rng by (simp add: apply_step_changes_length)
  then show "apply_step_changes steps (selected_changes sel g steps) ! j
      = map (\<lambda>s. if sel s then g s else s) steps ! j"
    using rng by (simp add: apply_step_changes_nth distinct_selected_changes map_of_selected_changes)
qed

lemma selected_changes_ok:
  assumes "\<And>s. s \<in> set steps \<Longrightarrow> sel s \<Longrightarrow> step_ok (g s) \<and> st_id (g s) = st_id s"
  shows "changes_ok steps (selected_changes sel g steps)"
  using assms by (auto simp: changes_ok_def distinct_selected_changes in_selected_changes)

text \<open>A list of steps with nothing running satisfies the invariant whatever the Run status is.\<close>

lemma steps_ok_quiet:
  assumes "\<forall>s \<in> set steps. step_ok s" and "distinct (map st_id steps)"
    and "\<forall>s \<in> set steps. \<not> running s"
  shows "steps_ok st steps"
  using assms by (auto simp: steps_ok_def filter_False)

text \<open>
  A reducer that closes selected steps and leaves nothing running always succeeds, and its
  result is the pointwise one.
\<close>

lemma close_selected:
  assumes ok: "snapshot_ok r" and err: "clean_opt err"
    and g: "\<And>s. s \<in> set (rs_steps r) \<Longrightarrow> sel s \<Longrightarrow>
      upd s = Inr (g s) \<and> step_ok (g s) \<and> st_id (g s) = st_id s \<and> \<not> running (g s)"
    and rest: "\<And>s. s \<in> set (rs_steps r) \<Longrightarrow> \<not> sel s \<Longrightarrow> \<not> running s"
  shows "bind_result (changes_for sel upd (rs_steps r)) (\<lambda>cs. with_step_changes r cs st resp err) = Inr
     \<lparr>tr_before = r,
      tr_after = changed_snapshot r (map (\<lambda>s. if sel s then g s else s) (rs_steps r)) st resp err,
      tr_step_updates = map (update_of \<circ> snd) (selected_changes sel g (rs_steps r))\<rparr>"
    and "snapshot_ok (changed_snapshot r (map (\<lambda>s. if sel s then g s else s) (rs_steps r)) st resp err)"
proof -
  let ?steps = "map (\<lambda>s. if sel s then g s else s) (rs_steps r)"
  have cs: "changes_for sel upd (rs_steps r) = Inr (selected_changes sel g (rs_steps r))"
    using g by (intro changes_for_Inr) auto
  have cok: "changes_ok (rs_steps r) (selected_changes sel g (rs_steps r))"
    using g by (intro selected_changes_ok) auto
  have ids: "map st_id ?steps = map st_id (rs_steps r)"
    using g by (auto simp: comp_def)
  have sok: "steps_ok (case st of None \<Rightarrow> rs_status r | Some x \<Rightarrow> x) ?steps"
  proof (rule steps_ok_quiet)
    show "\<forall>s \<in> set ?steps. step_ok s" and "\<forall>s \<in> set ?steps. \<not> running s"
      using g rest ok by (auto simp: snapshot_ok_def steps_ok_def)
    show "distinct (map st_id ?steps)"
      unfolding ids using ok by (simp add: snapshot_ok_def steps_ok_def)
  qed
  show "bind_result (changes_for sel upd (rs_steps r)) (\<lambda>cs. with_step_changes r cs st resp err) = Inr
     \<lparr>tr_before = r, tr_after = changed_snapshot r ?steps st resp err,
      tr_step_updates = map (update_of \<circ> snd) (selected_changes sel g (rs_steps r))\<rparr>"
    using with_step_changes_Inr [OF ok cok err] sok
    by (simp add: cs apply_selected_changes)
  show "snapshot_ok (changed_snapshot r ?steps st resp err)"
    by (rule changed_snapshot_ok [OF ok err sok ids])
qed

lemma close_selected_ex:
  assumes "snapshot_ok r" and "clean_opt err"
    and "\<And>s. s \<in> set (rs_steps r) \<Longrightarrow> sel s \<Longrightarrow>
      upd s = Inr (g s) \<and> step_ok (g s) \<and> st_id (g s) = st_id s \<and> \<not> running (g s)"
    and "\<And>s. s \<in> set (rs_steps r) \<Longrightarrow> \<not> sel s \<Longrightarrow> \<not> running s"
  shows "\<exists>t. bind_result (changes_for sel upd (rs_steps r)) (\<lambda>cs. with_step_changes r cs st resp err) = Inr t
    \<and> tr_before t = r \<and> snapshot_ok (tr_after t)
    \<and> tr_after t = changed_snapshot r (map (\<lambda>s. if sel s then g s else s) (rs_steps r)) st resp err"
  using close_selected [OF assms] by (intro exI conjI) (assumption, simp_all)

section \<open>Settling steps\<close>

lemma clean_or_text: "clean_opt v \<Longrightarrow> clean_id d \<Longrightarrow> clean_opt (or_text v d)"
  by (cases v) (auto simp: or_text_def)

definition settled :: "task_step \<Rightarrow> step_status \<Rightarrow> string \<Rightarrow> task_step" where
  "settled s st d = s\<lparr>st_status := st, st_result_summary := or_text (st_result_summary s) d\<rparr>"

lemma settled_sel [simp]:
  "st_id (settled s st d) = st_id s" "st_status (settled s st d) = st"
  "st_type (settled s st d) = st_type s" "st_executor (settled s st d) = st_executor s"
  "st_suggested_tools (settled s st d) = st_suggested_tools s"
  "st_depends_on (settled s st d) = st_depends_on s"
  by (simp_all add: settled_def)

lemma step_ok_settled: "step_ok s \<Longrightarrow> clean_id d \<Longrightarrow> step_ok (settled s st d)"
  by (simp add: step_ok_def settled_def clean_or_text)

lemma settle_step_eq: "step_ok s \<Longrightarrow> clean_id d \<Longrightarrow> settle_step s st d = Inr (settled s st d)"
  using step_ok_settled [of s d st] by (simp add: settle_step_def settled_def)

lemma step_ok_status [simp]: "step_ok (s\<lparr>st_status := st\<rparr>) = step_ok s"
  by (simp add: step_ok_def)

lemma replace_step_status_eq: "step_ok s \<Longrightarrow> replace_step_status s st = Inr (s\<lparr>st_status := st\<rparr>)"
  by (simp add: replace_step_status_def)

lemma clean_summaries:
  "clean_id ''Model reasoning completed before tool execution.''"
  "clean_id ''Planned tool step completed.''"
  "clean_id ''User declined approval; the planned tool was not executed.''"
  "clean_id ''approval_rejected''"
  "clean_id ''Tool execution failed; runtime replanning requested.''"
  "clean_id ''tool_execution_failed''"
  "clean_id ''Final response covered this model step.''"
  "clean_id ''This planned step was not executed in the run.''"
  "clean_id ''Durable execution fulfilled this admitted step.''"
  "clean_id ''Durable execution completed this Planner step.''"
  "clean_id ''durable_execution_failed''"
  "clean_id ''Run was canceled before this step completed.''"
  "clean_id ''request_canceled''"
  by code_simp+

lemma finished_open: "finished s \<longleftrightarrow> \<not> open_step s"
  by (cases "st_status s") (auto simp: finished_def open_step_def)

lemma running_open: "running s \<Longrightarrow> open_step s"
  by (simp add: running_def open_step_def)

section \<open>Terminal reducers\<close>

definition completed_step :: "task_step list \<Rightarrow> task_step \<Rightarrow> task_step" where
  "completed_step steps s =
     (if is_model_step s \<and> (running s \<or> \<not> has_incomplete_non_model steps)
      then settled s Step_DONE ''Final response covered this model step.''
      else settled s Step_BLOCKED ''This planned step was not executed in the run.'')"

lemma complete_eq:
  assumes "snapshot_ok r" and "\<not> run_terminal r"
  shows "\<exists>t. complete r resp = Inr t \<and> tr_before t = r \<and> snapshot_ok (tr_after t)
    \<and> tr_after t = changed_snapshot r
         (map (\<lambda>s. if open_step s then completed_step (rs_steps r) s else s) (rs_steps r))
         (Some (if has_incomplete_non_model (rs_steps r) then Run_BLOCKED else Run_DONE))
         (Some resp) None"
proof -
  have g: "complete_step (has_incomplete_non_model (rs_steps r)) s = Inr (completed_step (rs_steps r) s)
      \<and> step_ok (completed_step (rs_steps r) s)
      \<and> st_id (completed_step (rs_steps r) s) = st_id s
      \<and> \<not> running (completed_step (rs_steps r) s)" if "s \<in> set (rs_steps r)" for s
    using assms(1) that
    by (auto simp: snapshot_ok_def steps_ok_def complete_step_def completed_step_def running_def
        settle_step_eq step_ok_settled clean_summaries)
  have eq: "complete r resp = bind_result (changes_for open_step
        (complete_step (has_incomplete_non_model (rs_steps r))) (rs_steps r))
      (\<lambda>cs. with_step_changes r cs
        (Some (if has_incomplete_non_model (rs_steps r) then Run_BLOCKED else Run_DONE)) (Some resp) None)"
    using assms(2) by (simp add: complete_def Let_def)
  show ?thesis
    unfolding eq by (rule close_selected_ex [OF assms(1)]) (use g running_open in auto)
qed

lemma cancel_eq:
  assumes "snapshot_ok r" and "\<not> run_terminal r"
  shows "\<exists>t. cancel r reason = Inr t \<and> tr_before t = r \<and> snapshot_ok (tr_after t)
    \<and> tr_after t = changed_snapshot r
         (map (\<lambda>s. if open_step s then settled s Step_BLOCKED
            ''Run was canceled before this step completed.'' else s) (rs_steps r))
         (Some Run_CANCELED) None
         (Some (case optional_text (Some reason) of None \<Rightarrow> ''request_canceled'' | Some t \<Rightarrow> t))"
proof -
  let ?g = "\<lambda>s. settled s Step_BLOCKED ''Run was canceled before this step completed.''"
  let ?why = "case optional_text (Some reason) of None \<Rightarrow> ''request_canceled'' | Some t \<Rightarrow> t"
  have why: "clean_opt (Some ?why)"
    by (auto simp: clean_summaries split: option.splits dest: optional_text_SomeD)
  have g: "settle_step s Step_BLOCKED ''Run was canceled before this step completed.'' = Inr (?g s)
      \<and> step_ok (?g s) \<and> st_id (?g s) = st_id s \<and> \<not> running (?g s)" if "s \<in> set (rs_steps r)" for s
    using assms(1) that
    by (auto simp: snapshot_ok_def steps_ok_def running_def settle_step_eq step_ok_settled clean_summaries)
  have eq: "cancel r reason = bind_result (changes_for open_step (\<lambda>s. settle_step s Step_BLOCKED
        ''Run was canceled before this step completed.'') (rs_steps r))
      (\<lambda>cs. with_step_changes r cs (Some Run_CANCELED) None (Some ?why))"
    using assms(2) by (simp add: cancel_def Let_def)
  show ?thesis
    unfolding eq by (rule close_selected_ex [OF assms(1) why]) (use g running_open in blast)+
qed

lemma fail_eq:
  assumes "snapshot_ok r" and "\<not> run_terminal r" and "optional_text (Some err) = Some e"
  shows "\<exists>t. fail r err = Inr t \<and> tr_before t = r \<and> snapshot_ok (tr_after t)
    \<and> tr_after t = changed_snapshot r
         (map (\<lambda>s. if running s then s\<lparr>st_status := Step_FAILED, st_error := Some e\<rparr> else s) (rs_steps r))
         (Some Run_FAILED) None (Some e)"
proof -
  let ?g = "\<lambda>s. s\<lparr>st_status := Step_FAILED, st_error := Some e\<rparr>"
  have e: "clean_id e"
    using assms(3) by (rule optional_text_SomeD)
  have g: "TaskStep_post_init (?g s) = Inr (?g s)
      \<and> step_ok (?g s) \<and> st_id (?g s) = st_id s \<and> \<not> running (?g s)" if "s \<in> set (rs_steps r)" for s
  proof -
    have "step_ok (?g s)"
      using assms(1) that e by (auto simp: snapshot_ok_def steps_ok_def step_ok_def)
    then show ?thesis by (simp add: running_def)
  qed
  have eq: "fail r err = bind_result (changes_for running (\<lambda>s. TaskStep_post_init (?g s)) (rs_steps r))
      (\<lambda>cs. with_step_changes r cs (Some Run_FAILED) None (Some e))"
    using assms(2,3) by (simp add: fail_def)
  have "clean_opt (Some e)" using e by simp
  then show ?thesis
    unfolding eq by (rule close_selected_ex [OF assms(1)]) (use g in blast)+
qed

text \<open>What the changed snapshot says, for the theorems about the terminal reducers.\<close>

lemma changed_snapshot_sel [simp]:
  "rs_steps (changed_snapshot r steps st resp err) = steps"
  "rs_status (changed_snapshot r steps (Some x) resp err) = x"
  "rs_status (changed_snapshot r steps None resp err) = rs_status r"
  "rs_final_response (changed_snapshot r steps st (Some t) err) = t"
  "rs_final_response (changed_snapshot r steps st None err) = rs_final_response r"
  "rs_error (changed_snapshot r steps st resp (Some e)) = Some e"
  "rs_error (changed_snapshot r steps st resp None) = rs_error r"
  "rs_run_id (changed_snapshot r steps st resp err) = rs_run_id r"
  by (simp_all add: changed_snapshot_def)

section \<open>Every reducer keeps the invariant\<close>

lemma snapshot_ok_steps: "snapshot_ok r \<Longrightarrow> s \<in> set (rs_steps r) \<Longrightarrow> step_ok s"
  by (simp add: snapshot_ok_def steps_ok_def)

lemma snapshot_ok_nth: "snapshot_ok r \<Longrightarrow> i < length (rs_steps r) \<Longrightarrow> step_ok (rs_steps r ! i)"
  by (simp add: snapshot_ok_steps)

lemma one_change_ok:
  "i < length steps \<Longrightarrow> step_ok s \<Longrightarrow> st_id s = st_id (steps ! i) \<Longrightarrow> changes_ok steps [(i, s)]"
  by (simp add: changes_ok_def)

lemma two_changes_ok:
  "i < length steps \<Longrightarrow> k < length steps \<Longrightarrow> i \<noteq> k \<Longrightarrow> step_ok s \<Longrightarrow> step_ok u
   \<Longrightarrow> st_id s = st_id (steps ! i) \<Longrightarrow> st_id u = st_id (steps ! k) \<Longrightarrow> changes_ok steps [(i, s), (k, u)]"
  by (simp add: changes_ok_def)

lemma TaskStep_post_init_frame:
  "TaskStep_post_init s = Inr t \<Longrightarrow> st_id t = strip (st_id s)"
  by (auto simp: TaskStep_post_init_def Let_def result_simps required_text_Inr)

lemma replaced_step:
  assumes "TaskStep_post_init s = Inr t" and "step_ok u" and "st_id s = st_id u"
  shows "step_ok t" and "st_id t = st_id u"
  using TaskStep_post_init_ok [OF assms(1)] TaskStep_post_init_frame [OF assms(1)] assms(2,3)
  by (simp_all add: step_ok_def [of u] clean_id_def)

lemma changes_for_ok:
  assumes "changes_for sel upd steps = Inr cs"
    and "\<And>s t. s \<in> set steps \<Longrightarrow> upd s = Inr t \<Longrightarrow> step_ok t \<and> st_id t = st_id s"
  shows "changes_ok steps cs"
proof -
  let ?sel = "filter (\<lambda>(i, s). sel s) (enumerate 0 steps)"
  have cs: "list_all2 (\<lambda>p c. fst c = fst p \<and> upd (snd p) = Inr (snd c)) ?sel cs"
    using assms(1) unfolding changes_for_def map_result_Inr_iff
    by (rule list_all2_mono) (auto simp: bind_result_Inr_iff)
  then have "map fst cs = map fst ?sel"
    by (induction rule: list_all2_induct) auto
  then have "distinct (map fst cs)"
    by (simp add: distinct_map_filter enumerate_eq_zip)
  moreover have "i < length steps \<and> step_ok t \<and> st_id t = st_id (steps ! i)" if "(i, t) \<in> set cs" for i t
  proof -
    from list_all2_right_in [OF cs that] obtain u
      where "(i, u) \<in> set (enumerate 0 steps)" "upd u = Inr t"
      by auto
    with assms(2) [of u t] show ?thesis by (auto simp: in_set_enumerate_eq)
  qed
  ultimately show ?thesis by (auto simp: changes_ok_def)
qed

text \<open>Starting the step at a position.\<close>

abbreviation started :: "task_step \<Rightarrow> task_step" where
  "started s \<equiv> s\<lparr>st_status := Step_RUNNING\<rparr>"

lemma started_change_ok:
  "snapshot_ok r \<Longrightarrow> i < length (rs_steps r) \<Longrightarrow> changes_ok (rs_steps r) [(i, started (rs_steps r ! i))]"
  by (rule one_change_ok) (simp_all add: snapshot_ok_nth)

lemma next_incomplete_SomeD:
  assumes "next_incomplete_index steps = Some i"
  shows "i < length steps" and "open_step (steps ! i)" and "\<And>j. j < i \<Longrightarrow> finished (steps ! j)"
  using assms by (auto simp: next_incomplete_index_def finished_open dest: find_index_SomeD)

lemma on_model_delta_cases:
  assumes "snapshot_ok r" and "on_model_delta r = Inr t"
  shows "tr_after t = r \<or> (\<exists>i. next_incomplete_index (rs_steps r) = Some i
     \<and> is_model_step (rs_steps r ! i) \<and> \<not> run_terminal r
     \<and> (\<forall>s \<in> set (rs_steps r). running s \<longrightarrow> \<not> is_tool_step s)
     \<and> with_step_changes r [(i, started (rs_steps r ! i))] None None None = Inr t)"
  using assms next_incomplete_SomeD(1) snapshot_ok_nth
  by (auto simp: on_model_delta_def replace_step_status_eq split: if_splits option.splits)

lemma on_model_delta_inv:
  assumes "snapshot_ok r" and "on_model_delta r = Inr t"
  shows "snapshot_ok (tr_after t)"
  using on_model_delta_cases [OF assms] assms(1) started_change_ok with_step_changes_ok(1)
    next_incomplete_SomeD(1) by blast

lemma close_running_model_cases:
  assumes "snapshot_ok r" and "close_running_model (rs_steps r) = Inr (changes, steps)"
  shows "(changes = [] \<and> steps = rs_steps r \<and> (\<forall>s \<in> set (rs_steps r). \<not> (running s \<and> is_model_step s)))
    \<or> (\<exists>m c. find_index (\<lambda>s. running s \<and> is_model_step s) (rs_steps r) = Some m
         \<and> c = settled (rs_steps r ! m) Step_DONE ''Model reasoning completed before tool execution.''
         \<and> changes = [(m, c)] \<and> steps = (rs_steps r)[m := c])"
proof (cases "find_index (\<lambda>s. running s \<and> is_model_step s) (rs_steps r)")
  case None
  with assms(2) show ?thesis by (auto simp: close_running_model_def)
next
  case (Some m)
  then have m: "m < length (rs_steps r)" by (rule find_index_SomeD)
  then have "settle_step (rs_steps r ! m) Step_DONE ''Model reasoning completed before tool execution.''
      = Inr (settled (rs_steps r ! m) Step_DONE ''Model reasoning completed before tool execution.'')"
    using assms(1) by (simp add: settle_step_eq snapshot_ok_nth clean_summaries)
  with assms(2) Some m show ?thesis
    by (simp add: close_running_model_def replace_at_list_update)
qed

text \<open>
  The shape of a successful \<open>on_tool_calls_started\<close>: the steps after closing the running
  model step, the index of the tool step, and the changes it applies.
\<close>

lemma on_tool_calls_started_cases:
  assumes "snapshot_ok r" and "on_tool_calls_started r names = Inr t" and "\<not> run_terminal r"
  obtains changes steps i where
    "set (text_tuple names) \<noteq> {}"
    "set (text_tuple names) \<subseteq> allowed_tool_names_for_current_transition r"
    "close_running_model (rs_steps r) = Inr (changes, steps)"
    "i < length steps" "is_tool_step (steps ! i)" "open_step (steps ! i)"
    "find_index (\<lambda>s. running s \<and> is_tool_step s) steps = Some i
     \<or> find_index (\<lambda>s. running s \<and> is_tool_step s) steps = None \<and> next_incomplete_index steps = Some i"
    "with_step_changes r (if running (steps ! i) then changes else changes @ [(i, started (steps ! i))])
       None None None = Inr t"
proof -
  obtain changes steps where c: "close_running_model (rs_steps r) = Inr (changes, steps)"
    using assms(2,3)
    by (auto simp: on_tool_calls_started_def Let_def bind_result_Inr_iff split: if_splits)
  have ok: "step_ok (steps ! j)" if "j < length steps" for j
    using close_running_model_cases [OF assms(1) c] that assms(1)
    by (auto simp: nth_list_update step_ok_settled clean_summaries snapshot_ok_nth
        dest: find_index_SomeD(1))
  let ?f = "find_index (\<lambda>s. running s \<and> is_tool_step s) steps"
  define idx where "idx = (case ?f of Some i \<Rightarrow> Some i | None \<Rightarrow> next_incomplete_index steps)"
  have eq: "on_tool_calls_started r names =
     (if set (text_tuple names) = {} \<or> \<not> set (text_tuple names) \<subseteq> allowed_tool_names_for_current_transition r
      then Inl (contract_violation ''tool calls are outside the current plan transition'')
      else case idx of
           None \<Rightarrow> Inl (contract_violation ''current plan transition is not a tool step'')
         | Some i \<Rightarrow>
             if \<not> is_tool_step (steps ! i) then
               Inl (contract_violation ''current plan transition is not a tool step'')
             else if running (steps ! i) then with_step_changes r changes None None None
             else bind_result (replace_step_status (steps ! i) Step_RUNNING) (\<lambda>s.
               with_step_changes r (changes @ [(i, s)]) None None None))"
    using assms(3) c by (simp add: on_tool_calls_started_def Let_def idx_def)
  have rest: "set (text_tuple names) \<noteq> {} \<and> set (text_tuple names) \<subseteq> allowed_tool_names_for_current_transition r
     \<and> (case idx of None \<Rightarrow> False | Some i \<Rightarrow> is_tool_step (steps ! i) \<and>
          (if running (steps ! i) then with_step_changes r changes None None None
           else bind_result (replace_step_status (steps ! i) Step_RUNNING) (\<lambda>s.
             with_step_changes r (changes @ [(i, s)]) None None None)) = Inr t)"
    using assms(2) unfolding eq by (auto split: if_splits option.splits)
  then obtain i where i: "idx = Some i" by (auto split: option.splits)
  have props: "i < length steps" "open_step (steps ! i)"
    using i next_incomplete_SomeD [of steps i] find_index_SomeD [of "\<lambda>s. running s \<and> is_tool_step s" steps i]
    by (auto simp: idx_def running_open split: option.splits)
  show thesis
  proof (rule that)
    show "?f = Some i \<or> ?f = None \<and> next_incomplete_index steps = Some i"
      using i by (auto simp: idx_def split: option.splits)
    show "with_step_changes r (if running (steps ! i) then changes else changes @ [(i, started (steps ! i))])
       None None None = Inr t"
      using rest i ok props(1) by (auto simp: replace_step_status_eq)
  qed (use rest i c props in auto)
qed

lemma on_tool_calls_started_changes:
  assumes "snapshot_ok r" and "close_running_model (rs_steps r) = Inr (changes, steps)"
    and "i < length steps" and "open_step (steps ! i)"
  shows "changes_ok (rs_steps r) (if running (steps ! i) then changes else changes @ [(i, started (steps ! i))])"
    and "apply_step_changes (rs_steps r) (if running (steps ! i) then changes else changes @ [(i, started (steps ! i))])
      = steps[i := started (steps ! i)]"
proof -
  have run: "started s = s" if "running s" for s
    using that by (simp add: running_def)
  have "changes_ok (rs_steps r) (if running (steps ! i) then changes else changes @ [(i, started (steps ! i))])
    \<and> apply_step_changes (rs_steps r) (if running (steps ! i) then changes else changes @ [(i, started (steps ! i))])
      = steps[i := started (steps ! i)]"
    using close_running_model_cases [OF assms(1,2)]
  proof (elim disjE exE conjE)
    assume "changes = []" "steps = rs_steps r"
    with assms show ?thesis
      by (auto simp: changes_ok_def snapshot_ok_nth replace_at_list_update run)
  next
    fix m c
    assume m: "find_index (\<lambda>s. running s \<and> is_model_step s) (rs_steps r) = Some m"
      and c: "c = settled (rs_steps r ! m) Step_DONE ''Model reasoning completed before tool execution.''"
      and ch: "changes = [(m, c)]" and st: "steps = (rs_steps r)[m := c]"
    have lm: "m < length (rs_steps r)" using m by (rule find_index_SomeD)
    have neq: "i \<noteq> m"
      using assms(3,4) lm by (auto simp: st c open_step_def)
    have okc: "step_ok c"
      using assms(1) lm by (simp add: c step_ok_settled clean_summaries snapshot_ok_nth)
    have same: "steps[i := started (steps ! i)] = steps" if "running (steps ! i)"
      using that by (simp add: run)
    have "changes_ok (rs_steps r) (changes @ [(i, started (steps ! i))])"
      using assms(1,3) lm neq okc
      by (auto simp: ch st changes_ok_def snapshot_ok_nth c)
    then have "changes_ok (rs_steps r) (if running (steps ! i) then changes else changes @ [(i, started (steps ! i))])"
      by (auto simp: changes_ok_def)
    moreover have "apply_step_changes (rs_steps r) changes = steps"
      using lm by (simp add: ch st replace_at_list_update)
    moreover have "apply_step_changes (rs_steps r) (changes @ [(i, started (steps ! i))])
        = steps[i := started (steps ! i)]"
      using lm assms(3) by (simp add: ch st replace_at_list_update)
    ultimately show ?thesis
      using same by simp
  qed
  then show "changes_ok (rs_steps r) (if running (steps ! i) then changes else changes @ [(i, started (steps ! i))])"
    and "apply_step_changes (rs_steps r) (if running (steps ! i) then changes else changes @ [(i, started (steps ! i))])
      = steps[i := started (steps ! i)]"
    by blast+
qed

lemma on_tool_calls_started_inv:
  assumes "snapshot_ok r" and "on_tool_calls_started r names = Inr t"
  shows "snapshot_ok (tr_after t)"
proof (cases "run_terminal r")
  case True
  with assms show ?thesis by (auto simp: on_tool_calls_started_def)
next
  case False
  show ?thesis
  proof (rule on_tool_calls_started_cases [OF assms False])
    fix changes steps i
    assume c: "close_running_model (rs_steps r) = Inr (changes, steps)" "i < length steps" "open_step (steps ! i)"
      and w: "with_step_changes r (if running (steps ! i) then changes else changes @ [(i, started (steps ! i))])
        None None None = Inr t"
    show ?thesis
      by (rule with_step_changes_ok(1) [OF w assms(1) on_tool_calls_started_changes(1) [OF assms(1) c]])
  qed
qed

text \<open>A completed tool round: the running tool step is settled, the next open step started.\<close>

definition completed_tool :: "task_step \<Rightarrow> task_step" where
  "completed_tool s = settled s Step_DONE ''Planned tool step completed.''"

definition declined_tool :: "task_step \<Rightarrow> task_step" where
  "declined_tool s = s\<lparr>st_status := Step_BLOCKED,
     st_result_summary := Some ''User declined approval; the planned tool was not executed.'',
     st_error := Some ''approval_rejected''\<rparr>"

definition failed_tool :: "string \<Rightarrow> task_step \<Rightarrow> task_step" where
  "failed_tool e s = s\<lparr>st_status := Step_FAILED,
     st_result_summary := Some ''Tool execution failed; runtime replanning requested.'',
     st_error := Some e\<rparr>"

lemma step_ok_results:
  assumes "step_ok s" and "clean_opt a" and "clean_opt b"
  shows "step_ok (s\<lparr>st_status := st, st_result_summary := a, st_error := b\<rparr>)"
  using assms by (simp add: step_ok_def)

lemma step_ok_tool_results:
  assumes "step_ok s"
  shows "step_ok (completed_tool s)" and "step_ok (declined_tool s)"
    and "clean_id e \<Longrightarrow> step_ok (failed_tool e s)"
proof -
  show "step_ok (completed_tool s)"
    unfolding completed_tool_def by (rule step_ok_settled [OF assms clean_summaries(2)])
  show "step_ok (declined_tool s)"
    unfolding declined_tool_def
    by (rule step_ok_results [OF assms]) (simp_all only: clean_summaries clean_opt_Some)
  show "step_ok (failed_tool e s)" if "clean_id e"
    unfolding failed_tool_def
    by (rule step_ok_results [OF assms]) (use that in \<open>simp_all only: clean_summaries clean_opt_Some\<close>)
qed

lemma tool_results_sel [simp]:
  "st_id (completed_tool s) = st_id s" "st_id (declined_tool s) = st_id s" "st_id (failed_tool e s) = st_id s"
  "st_status (completed_tool s) = Step_DONE" "st_status (declined_tool s) = Step_BLOCKED"
  "st_status (failed_tool e s) = Step_FAILED"
  by (simp_all add: completed_tool_def declined_tool_def failed_tool_def)

abbreviation tool_index :: "task_step list \<Rightarrow> nat option" where
  "tool_index steps \<equiv> find_index (\<lambda>s. running s \<and> is_tool_step s) steps"

lemma on_tool_round_completed_eq:
  assumes "snapshot_ok r" and "\<not> run_terminal r" and "tool_index (rs_steps r) = Some i"
  shows "on_tool_round_completed r Batch_DECLINED
      = with_step_changes r [(i, declined_tool (rs_steps r ! i))] None None None"
    and "on_tool_round_completed r Batch_PROGRESSED = unchanged r"
    and "on_tool_round_completed r Batch_COMPLETED =
      (let steps = (rs_steps r)[i := completed_tool (rs_steps r ! i)] in
       case next_incomplete_index steps of
         None \<Rightarrow> with_step_changes r [(i, completed_tool (rs_steps r ! i))] None None None
       | Some k \<Rightarrow> if st_type (steps ! k) = Type_CONFIRM
           then with_step_changes r [(i, completed_tool (rs_steps r ! i))] None None None
           else with_step_changes r [(i, completed_tool (rs_steps r ! i)), (k, started (steps ! k))] None None None)"
proof -
  have i: "i < length (rs_steps r)" using assms(3) by (rule find_index_SomeD)
  then have ok: "step_ok (rs_steps r ! i)" using assms(1) by (simp add: snapshot_ok_nth)
  have d: "TaskStep_post_init (declined_tool (rs_steps r ! i)) = Inr (declined_tool (rs_steps r ! i))"
    by (rule TaskStep_post_init_id [OF step_ok_tool_results(2) [OF ok]])
  have c: "settle_step (rs_steps r ! i) Step_DONE ''Planned tool step completed.'' = Inr (completed_tool (rs_steps r ! i))"
    using ok by (simp add: settle_step_eq clean_summaries completed_tool_def)
  show "on_tool_round_completed r Batch_DECLINED
      = with_step_changes r [(i, declined_tool (rs_steps r ! i))] None None None"
    unfolding on_tool_round_completed_def declined_tool_def [symmetric] using d assms(2,3) by simp
  show "on_tool_round_completed r Batch_PROGRESSED = unchanged r"
    using assms(2,3) by (simp add: on_tool_round_completed_def)
  let ?steps = "(rs_steps r)[i := completed_tool (rs_steps r ! i)]"
  have "replace_step_status (?steps ! k) Step_RUNNING = Inr (started (?steps ! k))"
    if "next_incomplete_index ?steps = Some k" for k
  proof -
    have "k < length (rs_steps r)" using next_incomplete_SomeD(1) [OF that] by simp
    then have "step_ok (?steps ! k)"
      using assms(1) ok i by (auto simp: nth_list_update step_ok_tool_results snapshot_ok_nth)
    then show ?thesis by (rule replace_step_status_eq)
  qed
  then show "on_tool_round_completed r Batch_COMPLETED =
      (let steps = ?steps in
       case next_incomplete_index steps of
         None \<Rightarrow> with_step_changes r [(i, completed_tool (rs_steps r ! i))] None None None
       | Some k \<Rightarrow> if st_type (steps ! k) = Type_CONFIRM
           then with_step_changes r [(i, completed_tool (rs_steps r ! i))] None None None
           else with_step_changes r [(i, completed_tool (rs_steps r ! i)), (k, started (steps ! k))] None None None)"
    using c assms(2,3) i
    by (auto simp: on_tool_round_completed_def replace_at_list_update Let_def split: option.splits)
qed

lemma on_tool_round_completed_inv:
  assumes "snapshot_ok r" and "on_tool_round_completed r outcome = Inr t"
  shows "snapshot_ok (tr_after t)"
proof (cases "run_terminal r \<or> tool_index (rs_steps r) = None")
  case True
  with assms show ?thesis
    by (auto simp: on_tool_round_completed_def simp del: find_index_None_iff split: if_splits option.splits)
next
  case False
  then obtain i where nt: "\<not> run_terminal r" and ti: "tool_index (rs_steps r) = Some i" by blast
  note eq = on_tool_round_completed_eq [OF assms(1) nt ti]
  have i: "i < length (rs_steps r)" using ti by (rule find_index_SomeD)
  then have ok: "step_ok (rs_steps r ! i)" using assms(1) by (simp add: snapshot_ok_nth)
  have one: "changes_ok (rs_steps r) [(i, completed_tool (rs_steps r ! i))]"
    "changes_ok (rs_steps r) [(i, declined_tool (rs_steps r ! i))]"
    using i ok by (auto intro!: one_change_ok simp: step_ok_tool_results)
  have two: "changes_ok (rs_steps r) [(i, completed_tool (rs_steps r ! i)),
        (k, started ((rs_steps r)[i := completed_tool (rs_steps r ! i)] ! k))]"
    if "next_incomplete_index ((rs_steps r)[i := completed_tool (rs_steps r ! i)]) = Some k" for k
  proof -
    have k: "k < length (rs_steps r)" and "k \<noteq> i"
      using next_incomplete_SomeD(1,2) [OF that] i by (auto simp: open_step_def)
    then show ?thesis
      using i ok assms(1) by (intro two_changes_ok) (simp_all add: step_ok_tool_results snapshot_ok_nth)
  qed
  consider "outcome = Batch_DECLINED" | "outcome = Batch_PROGRESSED" | "outcome = Batch_COMPLETED"
    using assms(2) nt by (auto simp: on_tool_round_completed_def split: if_splits)
  then show ?thesis
  proof cases
    case 1
    with assms eq(1) one(2) with_step_changes_ok(1) show ?thesis by simp
  next
    case 2
    with assms eq(2) show ?thesis by auto
  next
    case 3
    with assms(2) eq(3) obtain cs where "with_step_changes r cs None None None = Inr t"
        and "changes_ok (rs_steps r) cs"
      using one(1) two by (auto simp: Let_def split: option.splits if_splits)
    then show ?thesis using assms(1) with_step_changes_ok(1) by blast
  qed
qed

lemma clean_error_default:
  "clean_id d \<Longrightarrow> clean_id (case optional_text v of None \<Rightarrow> d | Some e \<Rightarrow> e)"
  by (auto split: option.splits dest: optional_text_SomeD)

lemma on_tool_round_failed_eq:
  assumes "snapshot_ok r" and "\<not> run_terminal r" and "tool_index (rs_steps r) = Some i"
  shows "on_tool_round_failed r err = with_step_changes r
     [(i, failed_tool (case optional_text (Some err) of None \<Rightarrow> ''tool_execution_failed'' | Some e \<Rightarrow> e)
        (rs_steps r ! i))] None None None"
proof -
  have "i < length (rs_steps r)" using assms(3) by (rule find_index_SomeD)
  then have ok: "step_ok (rs_steps r ! i)" using assms(1) by (simp add: snapshot_ok_nth)
  note f = TaskStep_post_init_id [OF step_ok_tool_results(3) [OF ok
    clean_error_default [OF clean_summaries(6), of "Some err"]]]
  show ?thesis
    unfolding on_tool_round_failed_def Let_def failed_tool_def [symmetric]
    using f assms(2,3) by simp
qed

lemma on_tool_round_failed_inv:
  assumes "snapshot_ok r" and "on_tool_round_failed r err = Inr t"
  shows "snapshot_ok (tr_after t)"
proof (cases "run_terminal r")
  case True
  with assms show ?thesis by (auto simp: on_tool_round_failed_def)
next
  case False
  then obtain i where ti: "tool_index (rs_steps r) = Some i"
    using assms(2) by (auto simp: on_tool_round_failed_def Let_def simp del: find_index_None_iff split: option.splits)
  have i: "i < length (rs_steps r)" using ti by (rule find_index_SomeD)
  let ?f = "failed_tool (case optional_text (Some err) of None \<Rightarrow> ''tool_execution_failed'' | Some e \<Rightarrow> e)
    (rs_steps r ! i)"
  have "step_ok ?f"
    by (rule step_ok_tool_results(3) [OF snapshot_ok_nth [OF assms(1) i] clean_error_default [OF clean_summaries(6)]])
  then have "changes_ok (rs_steps r) [(i, ?f)]"
    using i by (intro one_change_ok) simp_all
  then show ?thesis
    using assms(2) on_tool_round_failed_eq [OF assms(1) False ti]
    by (intro with_step_changes_ok(1) [OF _ assms(1)]) simp_all
qed

text \<open>Durable execution: covered steps are settled as done, progress is copied from the task.\<close>

lemma durable_changes_ok:
  assumes "snapshot_ok r" and "durable_changes r covered = Inr cs"
  shows "changes_ok (rs_steps r) cs"
proof (rule changes_for_ok)
  show "changes_for (\<lambda>s. st_id s \<in> set covered \<and> st_status s \<noteq> Step_DONE)
        (\<lambda>s. settle_step s Step_DONE ''Durable execution fulfilled this admitted step.'') (rs_steps r) = Inr cs"
    using assms(2) by (simp add: durable_changes_def split: if_splits)
  show "step_ok t \<and> st_id t = st_id s" if "s \<in> set (rs_steps r)"
      "settle_step s Step_DONE ''Durable execution fulfilled this admitted step.'' = Inr t" for s t
    using that snapshot_ok_steps [OF assms(1) that(1)]
    by (auto simp: settle_step_eq clean_summaries step_ok_settled)
qed

lemma complete_durable_inv:
  assumes "snapshot_ok r" and "complete_durable_execution r resp covered = Inr t"
  shows "snapshot_ok (tr_after t)"
  using assms durable_changes_ok [OF assms(1)] with_step_changes_ok(1)
  by (auto simp: complete_durable_execution_def bind_result_Inr_iff split: if_splits)

lemma finish_durable_inv:
  assumes "snapshot_ok r" and "finish_durable_execution r covered = Inr t"
  shows "snapshot_ok (tr_after t)"
  using assms durable_changes_ok [OF assms(1)] with_step_changes_ok(1)
  by (auto simp: finish_durable_execution_def bind_result_Inr_iff split: if_splits)

lemma durable_eq:
  assumes "snapshot_ok r" and "set covered = st_id ` set (rs_steps r)"
  shows "\<exists>t. bind_result (durable_changes r covered) (\<lambda>cs. with_step_changes r cs st resp None) = Inr t
    \<and> tr_before t = r \<and> snapshot_ok (tr_after t)
    \<and> tr_after t = changed_snapshot r
         (map (\<lambda>s. if st_id s \<in> set covered \<and> st_status s \<noteq> Step_DONE
            then settled s Step_DONE ''Durable execution fulfilled this admitted step.'' else s) (rs_steps r))
         st resp None"
proof -
  let ?g = "\<lambda>s. settled s Step_DONE ''Durable execution fulfilled this admitted step.''"
  let ?sel = "\<lambda>s. st_id s \<in> set covered \<and> st_status s \<noteq> Step_DONE"
  have g: "settle_step s Step_DONE ''Durable execution fulfilled this admitted step.'' = Inr (?g s)
      \<and> step_ok (?g s) \<and> st_id (?g s) = st_id s \<and> \<not> running (?g s)" if "s \<in> set (rs_steps r)" for s
    using snapshot_ok_steps [OF assms(1) that]
    by (simp add: running_def settle_step_eq step_ok_settled clean_summaries)
  have quiet: "\<not> running s" if "s \<in> set (rs_steps r)" "\<not> ?sel s" for s
    using that assms(2) by (auto simp: running_def)
  have eq: "durable_changes r covered = changes_for ?sel
      (\<lambda>s. settle_step s Step_DONE ''Durable execution fulfilled this admitted step.'') (rs_steps r)"
    using assms(2) by (simp add: durable_changes_def)
  show ?thesis
    unfolding eq by (rule close_selected_ex [OF assms(1)]) (use g quiet in simp_all)
qed

lemma sync_step_ok:
  assumes "step_ok s" and "TaskStep_post_init (s\<lparr>st_status := status,
        st_result_summary := (if status = Step_DONE
          then Some ''Durable execution completed this Planner step.'' else st_result_summary s),
        st_error := (if status = Step_FAILED then Some ''durable_execution_failed'' else None)\<rparr>) = Inr t"
  shows "step_ok t" and "st_id t = st_id s"
  by (rule replaced_step [OF assms(2,1)], simp)+

lemma sync_changes_SomeD:
  assumes "sync_changes steps statuses = Inr cs" and "\<forall>s \<in> set steps. step_ok s"
    and "(i, t) \<in> set cs"
  shows "i < length steps \<and> step_ok t \<and> st_id t = st_id (steps ! i)
     \<and> st_id (steps ! i) \<in> set (map fst statuses)
     \<and> st_status (steps ! i) \<noteq> Step_DONE"
  using assms
proof (induction statuses arbitrary: cs)
  case Nil
  then show ?case by simp
next
  case (Cons p rest)
  obtain step_id status where p: "p = (step_id, status)" by (cases p)
  obtain j where j: "find_index (\<lambda>s. st_id s = step_id) steps = Some j"
    using Cons.prems(1) by (auto simp: p simp del: find_index_None_iff split: option.splits)
  note jD = find_index_SomeD [OF j]
  show ?case
  proof (cases "st_status (steps ! j) = status \<or> st_status (steps ! j) = Step_DONE \<and> status \<noteq> Step_DONE")
    case True
    with Cons.prems j have "sync_changes steps rest = Inr cs"
      by (auto simp: p Let_def split: if_splits)
    with Cons.IH Cons.prems show ?thesis by (simp add: p)
  next
    case False
    with Cons.prems(1) j obtain u cs' where
        u: "TaskStep_post_init ((steps ! j)\<lparr>st_status := status,
          st_result_summary := (if status = Step_DONE
            then Some ''Durable execution completed this Planner step.'' else st_result_summary (steps ! j)),
          st_error := (if status = Step_FAILED then Some ''durable_execution_failed'' else None)\<rparr>) = Inr u"
        and rest: "sync_changes steps rest = Inr cs'" and cs: "cs = (j, u) # cs'"
      by (auto simp: p Let_def bind_result_Inr_iff)
    have "step_ok u \<and> st_id u = st_id (steps ! j)"
      using sync_step_ok [OF _ u] jD(1) Cons.prems(2) by simp
    with Cons.IH [OF rest Cons.prems(2)] Cons.prems(3) jD False show ?thesis
      by (auto simp: cs p)
  qed
qed

lemma sync_changes_distinct:
  assumes "sync_changes steps statuses = Inr cs" and "\<forall>s \<in> set steps. step_ok s"
    and "distinct (map fst statuses)"
  shows "distinct (map fst cs)"
  using assms
proof (induction statuses arbitrary: cs)
  case Nil
  then show ?case by simp
next
  case (Cons p rest)
  obtain step_id status where p: "p = (step_id, status)" by (cases p)
  obtain j where j: "find_index (\<lambda>s. st_id s = step_id) steps = Some j"
    using Cons.prems(1) by (auto simp: p simp del: find_index_None_iff split: option.splits)
  from Cons.prems(1) j consider "sync_changes steps rest = Inr cs"
    | u cs' where "sync_changes steps rest = Inr cs'" "cs = (j, u) # cs'"
    by (auto simp: p Let_def bind_result_Inr_iff split: if_splits)
  then show ?case
  proof cases
    case 1
    with Cons show ?thesis by simp
  next
    case 2
    have "j \<notin> fst ` set cs'"
      using sync_changes_SomeD [OF 2(1) Cons.prems(2)] find_index_SomeD(2) [OF j] Cons.prems(3)
      by (auto simp: p)
    with Cons 2 show ?thesis by simp
  qed
qed

lemma sync_changes_ok:
  assumes "snapshot_ok r" and "sync_changes (rs_steps r) statuses = Inr cs"
    and "distinct (map fst statuses)"
  shows "changes_ok (rs_steps r) cs"
proof -
  have ok: "\<forall>s \<in> set (rs_steps r). step_ok s" using assms(1) snapshot_ok_steps by blast
  then show ?thesis
    using sync_changes_SomeD [OF assms(2) ok] sync_changes_distinct [OF assms(2) ok assms(3)]
    by (auto simp: changes_ok_def)
qed

lemma sync_durable_cases:
  assumes "snapshot_ok r" and "sync_durable_execution r statuses = Inr t"
    and "distinct (map fst statuses)"
  shows "tr_after t = r \<or> (\<exists>cs. sync_changes (rs_steps r) statuses = Inr cs
    \<and> changes_ok (rs_steps r) cs \<and> with_step_changes r cs None None None = Inr t)"
  using assms(2) sync_changes_ok [OF assms(1) _ assms(3)]
  by (auto simp: sync_durable_execution_def Let_def bind_result_Inr_iff split: if_splits)

lemma sync_durable_inv:
  assumes "snapshot_ok r" and "sync_durable_execution r statuses = Inr t"
    and "distinct (map fst statuses)"
  shows "snapshot_ok (tr_after t)"
  using sync_durable_cases [OF assms] assms(1) with_step_changes_ok(1) by metis

section \<open>Starting and revising a plan\<close>

definition contract_ok :: "task_step \<Rightarrow> bool" where
  "contract_ok s \<longleftrightarrow> st_type s \<noteq> Type_CONFIRM
     \<and> (st_type s = Type_READ \<longrightarrow> st_executor s = Exec_TOOL)
     \<and> (st_executor s = Exec_TOOL \<longrightarrow> length (st_suggested_tools s) = 1)
     \<and> (st_executor s = Exec_MODEL \<longrightarrow> st_suggested_tools s = [])"

lemma contract_iff: "validate_step_execution_contract s = Inr () \<longleftrightarrow> contract_ok s"
  by (auto simp: validate_step_execution_contract_def contract_ok_def)

definition initial_of :: "task_step \<Rightarrow> task_step" where
  "initial_of s = s\<lparr>st_status := (if st_status s = Step_DONE then Step_DONE else Step_PENDING),
     st_result_summary := (if st_status s = Step_DONE then st_result_summary s else None),
     st_error := None\<rparr>"

lemma initial_of_sel [simp]:
  "st_id (initial_of s) = st_id s" "st_depends_on (initial_of s) = st_depends_on s"
  "st_type (initial_of s) = st_type s" "st_executor (initial_of s) = st_executor s"
  "st_suggested_tools (initial_of s) = st_suggested_tools s"
  "st_status (initial_of s) = Step_DONE \<longleftrightarrow> st_status s = Step_DONE"
  "st_protocol_private (initial_of s) = st_protocol_private s"
  by (simp_all add: initial_of_def)

lemma initial_of_not_running [simp]: "\<not> running (initial_of s)"
  by (simp add: initial_of_def running_def)

lemma contract_ok_initial [simp]: "contract_ok (initial_of s) = contract_ok s"
  by (simp add: contract_ok_def)

lemma step_ok_initial: "step_ok s \<Longrightarrow> step_ok (initial_of s)"
  unfolding initial_of_def by (rule step_ok_results) (auto simp: step_ok_def)

lemma initial_step_eq: "step_ok s \<Longrightarrow> initial_step s = Inr (initial_of s)"
  using step_ok_initial [of s] by (simp add: initial_step_def initial_of_def)

lemma initialize_ok:
  assumes "initialize run_id plan title = Inr r"
  shows "snapshot_ok r" and "rs_status r = Run_RUNNING"
proof -
  have "snapshot_ok r \<and> rs_status r = Run_RUNNING"
  proof (cases plan)
    case None
    with assms show ?thesis
      by (auto simp: initialize_def intro!: RunSnapshot_post_init_ok dest: RunSnapshot_post_init_frame(2))
  next
    case (Some p)
    obtain steps started q where steps: "map_result initial_step (ep_steps p) = Inr steps"
        and started: "(case find_index (\<lambda>s. st_status s \<noteq> Step_DONE \<and> st_type s \<noteq> Type_CONFIRM) steps of
               None \<Rightarrow> Inr steps
             | Some i \<Rightarrow> bind_result (replace_step_status (steps ! i) Step_RUNNING) (\<lambda>s.
                 Inr (replace_at steps i s))) = Inr started"
        and q: "RunSnapshot_post_init q = Inr r" "rs_steps q = started" "rs_status q = Run_RUNNING"
      using assms by (auto simp: initialize_def Some bind_result_Inr_iff)
    have ok: "\<forall>s \<in> set steps. step_ok s"
      using map_result_in [OF steps] by (auto simp: initial_step_def dest: TaskStep_post_init_ok)
    have "\<forall>s \<in> set started. step_ok s"
    proof (cases "find_index (\<lambda>s. st_status s \<noteq> Step_DONE \<and> st_type s \<noteq> Type_CONFIRM) steps")
      case None
      with started ok show ?thesis by simp
    next
      case (Some i)
      then have i: "i < length steps" by (rule find_index_SomeD)
      with ok have "started = steps[i := (steps ! i)\<lparr>st_status := Step_RUNNING\<rparr>]"
        using started Some by (simp add: replace_step_status_eq replace_at_list_update)
      with ok i show ?thesis
        by (auto dest!: subsetD [OF set_update_subset_insert])
    qed
    then show ?thesis
      using RunSnapshot_post_init_ok [OF q(1)] RunSnapshot_post_init_frame(2) [OF q(1)] q by simp
  qed
  then show "snapshot_ok r" and "rs_status r = Run_RUNNING" by blast+
qed

lemma revise_plan_cases:
  assumes "snapshot_ok r" and "revise_plan r plan = Inr r'"
  obtains tail where "\<not> run_terminal r" and "rs_steps r' = filter finished (rs_steps r) @ tail"
    and "rs_status r' = rs_status r" and "snapshot_ok r'" and "rs_title r' = strip (ep_title plan)"
    and "rs_run_id r' = rs_run_id r"
proof -
  have nt: "\<not> run_terminal r" using assms(2) by (auto simp: revise_plan_def)
  obtain fd cf pr base tail q where
      tail: "map_result (revise_step fd cf pr) base = Inr tail"
      and q: "RunSnapshot_post_init q = Inr r'" "rs_steps q = filter finished (rs_steps r) @ tail"
        "rs_status q = rs_status r" "rs_title q = ep_title plan" "rs_run_id q = rs_run_id r"
    using assms(2) nt unfolding revise_plan_def Let_def if_not_P [OF nt] bind_result_Inr_iff
    by (elim exE conjE) (rule that, assumption, assumption, simp_all)
  have "step_ok s" if "s \<in> set tail" for s
    using map_result_in [OF tail that] TaskStep_post_init_ok
    by (auto simp: revise_step_def split: option.splits)
  then have "\<forall>s \<in> set (rs_steps q). step_ok s"
    using q(2) snapshot_ok_steps [OF assms(1)] by auto
  then have "snapshot_ok r'" by (rule RunSnapshot_post_init_ok [OF q(1)])
  with RunSnapshot_post_init_frame [OF q(1)] q nt assms(1) show thesis
    by (intro that [of tail]) (simp_all add: snapshot_ok_def clean_id_def)
qed

text \<open>
  Steps are \<^emph>\<open>in order\<close> when everything before a running step is finished: the plan is worked
  through front to back.
\<close>

definition in_order :: "task_step list \<Rightarrow> bool" where
  "in_order steps \<longleftrightarrow> (\<forall>j < length steps. running (steps ! j) \<longrightarrow> (\<forall>i < j. finished (steps ! i)))"

lemma running_not_finished: "running s \<Longrightarrow> \<not> finished s"
  by (simp add: running_def finished_def)

lemma in_order_quiet: "\<forall>s \<in> set steps. \<not> running s \<Longrightarrow> in_order steps"
  by (simp add: in_order_def)

lemma in_order_running:
  assumes "in_order steps" and "next_incomplete_index steps = Some i"
    and "j < length steps" and "running (steps ! j)"
  shows "j = i"
proof (rule linorder_cases [of i j])
  assume "i < j"
  then have "finished (steps ! i)" using assms(1,3,4) by (simp add: in_order_def)
  then show ?thesis using next_incomplete_SomeD(2) [OF assms(2)] by (simp add: finished_open)
next
  assume "j < i"
  then show ?thesis
    using next_incomplete_SomeD(3) [OF assms(2)] assms(4) running_not_finished by blast
qed simp

lemma in_order_next:
  assumes "in_order steps" and "j < length steps" and "running (steps ! j)"
  shows "next_incomplete_index steps = Some j"
  using assms running_not_finished by (auto simp: next_incomplete_index_def find_index_Some_iff in_order_def)

lemma running_unique:
  assumes "in_order steps" and "i < length steps" and "j < length steps"
    and "running (steps ! i)" and "running (steps ! j)"
  shows "i = j"
  using in_order_running [OF assms(1) in_order_next [OF assms(1,3,5)] assms(2,4)] .

lemma in_order_settle:
  assumes "in_order steps" and "finished c"
  shows "in_order (steps[m := c])"
  unfolding in_order_def
proof (intro allI impI)
  fix j i
  assume j: "j < length (steps[m := c])" "running (steps[m := c] ! j)" "i < j"
  then have "j \<noteq> m" using assms(2) running_not_finished by auto
  then have "finished (steps ! i)" using j assms(1) by (simp add: in_order_def)
  then show "finished (steps[m := c] ! i)"
    using assms(2) j by (cases "i = m") simp_all
qed

lemma in_order_start:
  assumes "in_order steps" and "next_incomplete_index steps = Some i"
  shows "in_order (steps[i := started (steps ! i)])"
  unfolding in_order_def
proof (intro allI impI)
  fix j k
  assume j: "j < length (steps[i := started (steps ! i)])" "running (steps[i := started (steps ! i)] ! j)" "k < j"
  then have "j = i"
    using in_order_running [OF assms, of j] by (metis length_list_update nth_list_update_neq)
  with j next_incomplete_SomeD(3) [OF assms(2)] show "finished (steps[i := started (steps ! i)] ! k)"
    by simp
qed

lemma settled_finished [simp]:
  "finished (settled s Step_DONE d)" "finished (settled s Step_BLOCKED d)"
  "finished (completed_tool s)" "finished (declined_tool s)" "finished (failed_tool e s)"
  by (simp_all add: finished_def)

lemma contract_ok_results [simp]:
  "contract_ok (settled s st d) = contract_ok s" "contract_ok (completed_tool s) = contract_ok s"
  "contract_ok (declined_tool s) = contract_ok s" "contract_ok (failed_tool e s) = contract_ok s"
  "contract_ok (s\<lparr>st_status := st\<rparr>) = contract_ok s"
  "contract_ok (s\<lparr>st_status := st, st_error := err\<rparr>) = contract_ok s"
  by (simp_all add: contract_ok_def completed_tool_def declined_tool_def failed_tool_def)

definition contracts :: "task_step list \<Rightarrow> bool" where
  "contracts steps \<longleftrightarrow> (\<forall>s \<in> set steps. contract_ok s)"

lemma contracts_update [intro]:
  "contracts steps \<Longrightarrow> contract_ok c \<Longrightarrow> contracts (steps[i := c])"
  by (auto simp: contracts_def dest!: subsetD [OF set_update_subset_insert])

lemma contracts_nth: "contracts steps \<Longrightarrow> i < length steps \<Longrightarrow> contract_ok (steps ! i)"
  by (simp add: contracts_def)

text \<open>The first open step of a plan that satisfies the contract may always be started.\<close>

lemma started_prefix_ok:
  assumes "\<forall>s \<in> set steps. step_ok s \<and> \<not> running s" and "distinct (map st_id steps)"
    and "backward (step_edges steps)" and "i < length steps"
    and "\<And>j. j < i \<Longrightarrow> st_status (steps ! j) = Step_DONE" and "\<not> terminal_status st"
  shows "steps_ok st (steps[i := started (steps ! i)])"
proof -
  let ?s = "steps[i := started (steps ! i)]"
  have ids: "map st_id ?s = map st_id steps"
    using assms(4) by (simp add: map_update list_update_same_conv)
  have run: "j = i" if "j < length steps" "running (?s ! j)" for j
    using that assms(1) by (cases "j = i") auto
  have len: "length (filter running ?s) \<le> 1"
  proof -
    have "{j. j < length ?s \<and> running (?s ! j)} \<subseteq> {i}"
      using run by auto
    then have "card {j. j < length ?s \<and> running (?s ! j)} \<le> card {i}"
      by (rule card_mono [rotated]) simp
    then show ?thesis by (simp add: length_filter_conv_card)
  qed
  have dep: "dependencies_done ?s (?s ! i)"
    unfolding dependencies_done_def
  proof
    fix d assume "d \<in> set (st_depends_on (?s ! i))"
    then have "d \<in> set (snd (step_edges steps ! i))"
      using assms(4) by (simp add: step_edges_def)
    then have "d \<in> set (map fst (take i (step_edges steps)))"
      using assms(3,4) by (auto simp: backward_def step_edges_def)
    then have "d \<in> set (map st_id (take i steps))"
      by (simp only: take_map [symmetric] map_fst_step_edges)
    then obtain j where j: "j < i" "d = st_id (steps ! j)"
      using assms(4) by (auto simp: in_set_conv_nth)
    then have "(d, Step_DONE) \<in> set (map (\<lambda>s. (st_id s, st_status s)) ?s)"
    proof -
      have "?s ! j \<in> set ?s" by (rule nth_mem) (use j(1) assms(4) in simp)
      moreover have "?s ! j = steps ! j" using j(1) by simp
      ultimately show ?thesis using j(2) assms(5) [OF j(1)] by force
    qed
    moreover have "distinct (map fst (map (\<lambda>s. (st_id s, st_status s)) ?s))"
      using assms(2) by (simp add: comp_def ids del: map_update)
    ultimately show "status_by_id ?s d = Some Step_DONE"
      unfolding status_by_id_def by simp
  qed
  have "dependencies_done ?s s" if "s \<in> set ?s" "running s" for s
    using that dep run by (auto simp: in_set_conv_nth)
  moreover have "step_ok s" if "s \<in> set ?s" for s
    using that assms(1,4) by (auto dest!: subsetD [OF set_update_subset_insert])
  ultimately show ?thesis
    using len assms(2,6) ids by (auto simp: steps_ok_def simp del: map_update)
qed

definition initial_steps :: "task_step list \<Rightarrow> task_step list" where
  "initial_steps steps = (let fresh = map initial_of steps in
     case find_index (\<lambda>s. st_status s \<noteq> Step_DONE) steps of
       None \<Rightarrow> fresh | Some i \<Rightarrow> fresh[i := started (fresh ! i)])"

lemma find_index_map: "find_index P (map f xs) = find_index (P \<circ> f) xs"
  by (induction xs) auto

lemma find_index_cong:
  "(\<And>x. x \<in> set xs \<Longrightarrow> P x = Q x) \<Longrightarrow> find_index P xs = find_index Q xs"
  by (induction xs) auto

lemma initial_steps_ids: "map st_id (initial_steps steps) = map st_id steps"
proof (cases "find_index (\<lambda>s. st_status s \<noteq> Step_DONE) steps")
  case (Some i)
  then have "i < length steps" by (rule find_index_SomeD)
  with Some show ?thesis
    by (simp add: initial_steps_def Let_def comp_def map_update list_update_same_conv)
qed (simp add: initial_steps_def Let_def comp_def del: find_index_None_iff)

lemma initial_steps_ok:
  assumes "plan_ok p" and "\<not> terminal_status st"
  shows "steps_ok st (initial_steps (ep_steps p))"
proof -
  let ?fresh = "map initial_of (ep_steps p)"
  have base: "\<forall>s \<in> set ?fresh. step_ok s \<and> \<not> running s" "distinct (map st_id ?fresh)"
      "backward (step_edges ?fresh)"
    using assms(1) by (auto simp: plan_ok_def step_ok_initial comp_def step_edges_def)
  show ?thesis
  proof (cases "find_index (\<lambda>s. st_status s \<noteq> Step_DONE) (ep_steps p)")
    case None
    then have "initial_steps (ep_steps p) = ?fresh" by (simp add: initial_steps_def Let_def del: find_index_None_iff)
    with base steps_ok_quiet show ?thesis by metis
  next
    case (Some i)
    note iD = find_index_SomeD [OF Some]
    have "steps_ok st (?fresh[i := started (?fresh ! i)])"
      using iD by (intro started_prefix_ok base assms(2)) simp_all
    with Some show ?thesis by (simp add: initial_steps_def Let_def)
  qed
qed

lemma map_result_unit:
  "map_result f xs = Inr us \<longleftrightarrow> (\<forall>x \<in> set xs. f x = Inr ()) \<and> us = replicate (length xs) ()"
  by (induction xs arbitrary: us) (auto simp: bind_result_Inr_iff)

lemma initialize_eq:
  assumes "plan_ok p" and "contracts (ep_steps p)" and "clean_id run_id"
  shows "\<exists>r. initialize run_id (Some p) title = Inr r
    \<and> rs_steps r = initial_steps (ep_steps p) \<and> rs_title r = ep_title p \<and> rs_goal r = ep_goal p
    \<and> rs_task_spec r = ep_task_spec p \<and> rs_work_step_ids r = ep_work_step_ids p
    \<and> rs_run_id r = run_id \<and> rs_status r = Run_RUNNING"
proof -
  let ?fresh = "map initial_of (ep_steps p)"
  let ?r = "\<lparr>rs_run_id = run_id, rs_title = ep_title p, rs_goal = ep_goal p,
        rs_status = Run_RUNNING, rs_task_spec = ep_task_spec p, rs_steps = initial_steps (ep_steps p),
        rs_work_step_ids = ep_work_step_ids p,
        rs_final_response = [], rs_error = None, rs_execution_checkpoint = None,
        rs_agent_preset_snapshot = [], rs_deadline_at_ms = None,
        rs_requested_user_max_generation_tokens = None,
        rs_result_capacity_target_tokens = None,
        rs_selected_context_window_tokens = None\<rparr>"
  have steps: "map_result initial_step (ep_steps p) = Inr ?fresh"
    using assms(1) by (intro map_result_total) (simp add: plan_ok_def initial_step_eq)
  have valid: "map_result validate_step_execution_contract ?fresh = Inr (replicate (length ?fresh) ())"
    using assms(2) by (simp add: map_result_unit contract_iff contracts_def)
  have idx: "find_index (\<lambda>s. st_status s \<noteq> Step_DONE \<and> st_type s \<noteq> Type_CONFIRM) ?fresh
      = find_index (\<lambda>s. st_status s \<noteq> Step_DONE) (ep_steps p)"
    unfolding find_index_map using assms(2)
    by (intro find_index_cong) (auto simp: contracts_def contract_ok_def)
  have started: "(case find_index (\<lambda>s. st_status s \<noteq> Step_DONE) (ep_steps p) of
               None \<Rightarrow> Inr ?fresh
             | Some i \<Rightarrow> bind_result (replace_step_status (?fresh ! i) Step_RUNNING) (\<lambda>s.
                 Inr (replace_at ?fresh i s))) = Inr (initial_steps (ep_steps p))"
  proof (cases "find_index (\<lambda>s. st_status s \<noteq> Step_DONE) (ep_steps p)")
    case (Some i)
    then have i: "i < length (ep_steps p)" by (rule find_index_SomeD)
    then have "step_ok (?fresh ! i)" using assms(1) by (simp add: plan_ok_def step_ok_initial)
    with Some i show ?thesis
      by (simp add: initial_steps_def Let_def replace_step_status_eq replace_at_list_update)
  qed (simp add: initial_steps_def Let_def del: find_index_None_iff)
  have ids: "st_id ` set (initial_steps (ep_steps p)) = st_id ` set (ep_steps p)"
    using initial_steps_ids by (metis list.set_map)
  have "snapshot_ok ?r"
    using assms initial_steps_ok [OF assms(1), of Run_RUNNING]
    by (auto simp: snapshot_ok_def plan_ok_def positive_opt_def terminal_status_def ids)
  then have "RunSnapshot_post_init ?r = Inr ?r" by (rule RunSnapshot_post_init_id)
  then have "initialize run_id (Some p) title = Inr ?r"
    by (simp add: initialize_def steps valid idx started)
  then show ?thesis by simp
qed

lemma initial_steps_in_order: "in_order (initial_steps steps)"
proof (cases "find_index (\<lambda>s. st_status s \<noteq> Step_DONE) steps")
  case None
  then show ?thesis
    by (auto simp: initial_steps_def Let_def simp del: find_index_None_iff intro!: in_order_quiet)
next
  case (Some i)
  let ?fresh = "map initial_of steps"
  have "next_incomplete_index ?fresh = Some i"
    using find_index_SomeD [OF Some]
    by (auto simp: next_incomplete_index_def find_index_Some_iff finished_def initial_of_def)
  then have "in_order (?fresh[i := started (?fresh ! i)])"
    by (intro in_order_start in_order_quiet) auto
  with Some show ?thesis by (simp add: initial_steps_def Let_def)
qed

lemma initial_steps_contracts:
  assumes "contracts steps"
  shows "contracts (initial_steps steps)"
proof -
  have fresh: "contracts (map initial_of steps)" using assms by (simp add: contracts_def)
  show ?thesis
  proof (cases "find_index (\<lambda>s. st_status s \<noteq> Step_DONE) steps")
    case (Some i)
    then have "i < length steps" by (rule find_index_SomeD)
    with fresh have "contracts ((map initial_of steps)[i := started (map initial_of steps ! i)])"
      by (intro contracts_update) (simp_all add: contracts_nth [OF assms])
    with Some show ?thesis by (simp add: initial_steps_def Let_def)
  qed (use fresh in \<open>simp add: initial_steps_def Let_def del: find_index_None_iff\<close>)
qed

section \<open>The event machine\<close>

text \<open>
  The controller (\<open>run_controller.py\<close>) owns one snapshot and applies one reducer per call,
  under its mutation lock; a reducer that raises leaves the snapshot alone.
\<close>

datatype run_event =
    Model_Delta
  | Tool_Calls_Started "string list"
  | Tool_Round_Completed tool_batch_outcome
  | Tool_Round_Failed string
  | Complete string
  | Complete_Durable string "string list"
  | Finish_Durable "string list"
  | Sync_Durable "(string \<times> step_status) list"
  | Fail string
  | Cancel string
  | Revise_Plan execution_plan

definition after_of :: "run_transition result \<Rightarrow> run_snapshot result" where
  "after_of m = bind_result m (\<lambda>t. Inr (tr_after t))"

fun reduce :: "run_snapshot \<Rightarrow> run_event \<Rightarrow> run_snapshot result" where
  "reduce r Model_Delta = after_of (on_model_delta r)"
| "reduce r (Tool_Calls_Started names) = after_of (on_tool_calls_started r names)"
| "reduce r (Tool_Round_Completed outcome) = after_of (on_tool_round_completed r outcome)"
| "reduce r (Tool_Round_Failed err) = after_of (on_tool_round_failed r err)"
| "reduce r (Complete resp) = after_of (complete r resp)"
| "reduce r (Complete_Durable resp ids) = after_of (complete_durable_execution r resp ids)"
| "reduce r (Finish_Durable ids) = after_of (finish_durable_execution r ids)"
| "reduce r (Sync_Durable statuses) = after_of (sync_durable_execution r statuses)"
| "reduce r (Fail err) = after_of (fail r err)"
| "reduce r (Cancel reason) = after_of (cancel r reason)"
| "reduce r (Revise_Plan plan) = revise_plan r plan"

text \<open>The statuses of a durable task arrive as a mapping: no key twice.\<close>

fun well_typed :: "run_event \<Rightarrow> bool" where
  "well_typed (Sync_Durable statuses) = distinct (map fst statuses)"
| "well_typed _ = True"

lemma after_of_Inr [result_simps]: "after_of m = Inr r \<longleftrightarrow> (\<exists>t. m = Inr t \<and> tr_after t = r)"
  by (auto simp: after_of_def bind_result_Inr_iff)

lemma run_terminal_reduce:
  assumes "run_terminal r" and "reduce r e = Inr r'"
  shows "r' = r"
  using assms
  by (cases e) (auto simp: after_of_def on_model_delta_def on_tool_calls_started_def
      on_tool_round_completed_def on_tool_round_failed_def complete_def complete_durable_execution_def
      finish_durable_execution_def sync_durable_execution_def fail_def cancel_def revise_plan_def)

lemma terminal_inv:
  assumes "snapshot_ok r"
  shows "complete r resp = Inr t \<Longrightarrow> snapshot_ok (tr_after t)"
    and "cancel r reason = Inr t \<Longrightarrow> snapshot_ok (tr_after t)"
    and "fail r err = Inr t \<Longrightarrow> snapshot_ok (tr_after t)"
proof -
  show "snapshot_ok (tr_after t)" if "complete r resp = Inr t"
  proof (cases "run_terminal r")
    case False
    with complete_eq [OF assms False, of resp] that show ?thesis by auto
  qed (use that assms in \<open>auto simp: complete_def\<close>)
  show "snapshot_ok (tr_after t)" if "cancel r reason = Inr t"
  proof (cases "run_terminal r")
    case False
    with cancel_eq [OF assms False, of reason] that show ?thesis by auto
  qed (use that assms in \<open>auto simp: cancel_def\<close>)
  show "snapshot_ok (tr_after t)" if "fail r err = Inr t"
  proof (cases "run_terminal r")
    case False
    with that obtain e where "optional_text (Some err) = Some e"
      by (auto simp: fail_def split: option.splits)
    with fail_eq [OF assms False] that show ?thesis by fastforce
  qed (use that assms in \<open>auto simp: fail_def\<close>)
qed

lemmas reducer_invs = on_model_delta_inv on_tool_calls_started_inv on_tool_round_completed_inv
  on_tool_round_failed_inv complete_durable_inv finish_durable_inv sync_durable_inv terminal_inv

lemma reduce_inv:
  assumes "snapshot_ok r" and "well_typed e" and "reduce r e = Inr r'"
  shows "snapshot_ok r'"
proof (cases e)
  case (Revise_Plan plan)
  with assms revise_plan_cases show ?thesis by (metis reduce.simps(11))
qed (use assms reducer_invs in \<open>auto simp: result_simps\<close>)

interpretation run_machine: settling_machine reduce well_typed snapshot_ok run_terminal
  using reduce_inv run_terminal_reduce by unfold_locales blast+

section \<open>Working through the plan in order\<close>

definition orderly :: "run_snapshot \<Rightarrow> bool" where
  "orderly r \<longleftrightarrow> snapshot_ok r \<and> in_order (rs_steps r) \<and> contracts (rs_steps r)"

text \<open>
  The events of the plan-driven loop: everything but the two that overwrite step states from
  outside the plan (durable progress, plan revision).
\<close>

fun plan_driven :: "run_event \<Rightarrow> bool" where
  "plan_driven (Sync_Durable statuses) = False"
| "plan_driven (Revise_Plan plan) = False"
| "plan_driven _ = True"

lemma orderly_changes:
  assumes "orderly r" and "with_step_changes r cs st resp err = Inr t" and "changes_ok (rs_steps r) cs"
    and "in_order (apply_step_changes (rs_steps r) cs)" and "contracts (apply_step_changes (rs_steps r) cs)"
  shows "orderly (tr_after t)"
  using with_step_changes_ok [OF assms(2) _ assms(3)] assms by (simp add: orderly_def)

lemma orderly_model_delta:
  assumes "orderly r" and "on_model_delta r = Inr t"
  shows "orderly (tr_after t)"
proof -
  have ok: "snapshot_ok r" using assms(1) by (simp add: orderly_def)
  show ?thesis
    using on_model_delta_cases [OF ok assms(2)]
  proof (elim disjE exE conjE)
    fix i
    assume i: "next_incomplete_index (rs_steps r) = Some i"
      and w: "with_step_changes r [(i, started (rs_steps r ! i))] None None None = Inr t"
    have "i < length (rs_steps r)" using i by (rule next_incomplete_SomeD)
    then show ?thesis
      using assms(1) ok in_order_start [OF _ i]
      by (intro orderly_changes [OF assms(1) w started_change_ok])
        (auto simp: orderly_def replace_at_list_update contracts_nth)
  qed (use assms(1) in simp)
qed

lemma orderly_close_model:
  assumes "orderly r" and "close_running_model (rs_steps r) = Inr (changes, steps)"
  shows "in_order steps" and "contracts steps" and "length steps = length (rs_steps r)"
    and "\<forall>s \<in> set steps. \<not> (running s \<and> is_model_step s)"
proof -
  have ok: "snapshot_ok r" "in_order (rs_steps r)" "contracts (rs_steps r)"
    using assms(1) by (simp_all add: orderly_def)
  have "in_order steps \<and> contracts steps \<and> length steps = length (rs_steps r)
     \<and> (\<forall>s \<in> set steps. \<not> (running s \<and> is_model_step s))"
    using close_running_model_cases [OF ok(1) assms(2)]
  proof (elim disjE exE conjE)
    fix m c
    assume m: "find_index (\<lambda>s. running s \<and> is_model_step s) (rs_steps r) = Some m"
      and c: "c = settled (rs_steps r ! m) Step_DONE ''Model reasoning completed before tool execution.''"
      and s: "steps = (rs_steps r)[m := c]"
    note mD = find_index_SomeD [OF m]
    have "\<not> running (steps ! j)" if "j < length steps" for j
    proof (cases "j = m")
      case False
      with that mD running_unique [OF ok(2), of j m] show ?thesis by (auto simp: s)
    qed (use mD in \<open>simp add: s c running_def\<close>)
    then have "\<forall>x \<in> set steps. \<not> running x" by (auto simp: in_set_conv_nth)
    then show ?thesis
      using ok mD by (auto simp: s c intro!: in_order_settle contracts_update contracts_nth)
  qed (use ok in auto)
  then show "in_order steps" and "contracts steps" and "length steps = length (rs_steps r)"
    and "\<forall>s \<in> set steps. \<not> (running s \<and> is_model_step s)"
    by blast+
qed

text \<open>
  What a successful tool start leaves behind in an orderly Run: exactly one running step, the
  first open one, which is a tool step.
\<close>

lemma orderly_tool_start:
  assumes "orderly r" and "on_tool_calls_started r names = Inr t" and "\<not> run_terminal r"
  obtains steps changes i where "orderly (tr_after t)"
    "close_running_model (rs_steps r) = Inr (changes, steps)" "next_incomplete_index steps = Some i"
    "rs_steps (tr_after t) = steps[i := started (steps ! i)]" "is_tool_step (steps ! i)"
    "set (text_tuple names) \<noteq> {}"
    "set (text_tuple names) \<subseteq> allowed_tool_names_for_current_transition r"
proof -
  have ok: "snapshot_ok r" using assms(1) by (simp add: orderly_def)
  show thesis
  proof (rule on_tool_calls_started_cases [OF ok assms(2,3)])
    fix changes steps i
    assume names: "set (text_tuple names) \<noteq> {}"
        "set (text_tuple names) \<subseteq> allowed_tool_names_for_current_transition r"
      and c: "close_running_model (rs_steps r) = Inr (changes, steps)" "i < length steps" "open_step (steps ! i)"
      and tool: "is_tool_step (steps ! i)"
      and idx: "tool_index steps = Some i
        \<or> tool_index steps = None \<and> next_incomplete_index steps = Some i"
      and w: "with_step_changes r (if running (steps ! i) then changes else changes @ [(i, started (steps ! i))])
        None None None = Inr t"
    note cl = orderly_close_model [OF assms(1) c(1)]
    note ch = on_tool_calls_started_changes [OF ok c]
    have nx: "next_incomplete_index steps = Some i"
      using idx in_order_next [OF cl(1) c(2)] find_index_SomeD(2) by blast
    have steps: "rs_steps (tr_after t) = steps[i := started (steps ! i)]"
      using with_step_changes_ok(3) [OF w ok ch(1)] ch(2) by simp
    have "orderly (tr_after t)"
      using in_order_start [OF cl(1) nx] contracts_nth [OF cl(2) c(2)] cl(2)
      by (intro orderly_changes [OF assms(1) w ch(1)]) (auto simp: ch(2))
    then show thesis using c(1) nx steps tool names by (rule that)
  qed
qed

lemma find_drop_index:
  assumes "find P (drop n xs) = Some x"
  shows "\<exists>k. n \<le> k \<and> k < length xs \<and> xs ! k = x \<and> P x \<and> (\<forall>j. n \<le> j \<and> j < k \<longrightarrow> \<not> P (xs ! j))"
proof -
  from assms obtain k where k: "k < length (drop n xs)" "P (drop n xs ! k)" "x = drop n xs ! k"
      "\<forall>j < k. \<not> P (drop n xs ! j)"
    by (auto simp: find_Some_iff)
  have "\<not> P (xs ! j)" if "n \<le> j" "j < n + k" for j
  proof -
    have "drop n xs ! (j - n) = xs ! j" and "j - n < k" using k(1) that by auto
    with k(4) show ?thesis by metis
  qed
  with k show ?thesis by (intro exI [of _ "n + k"]) auto
qed

lemma orderly_tool_grant:
  assumes "orderly r" and "on_tool_calls_started r names = Inr t" and "\<not> run_terminal r"
  shows "\<exists>i < length (rs_steps (tr_after t)).
     running (rs_steps (tr_after t) ! i) \<and> is_tool_step (rs_steps (tr_after t) ! i)
     \<and> set (text_tuple names) \<noteq> {}
     \<and> set (text_tuple names) \<subseteq> set (st_suggested_tools (rs_steps (tr_after t) ! i))
     \<and> (\<forall>j < i. finished (rs_steps (tr_after t) ! j))"
proof (rule orderly_tool_start [OF assms])
  fix steps changes i
  assume c: "close_running_model (rs_steps r) = Inr (changes, steps)"
    and nx: "next_incomplete_index steps = Some i"
    and after: "rs_steps (tr_after t) = steps[i := started (steps ! i)]"
    and tool: "is_tool_step (steps ! i)"
    and names: "set (text_tuple names) \<noteq> {}"
      "set (text_tuple names) \<subseteq> allowed_tool_names_for_current_transition r"
  have ok: "snapshot_ok r" "in_order (rs_steps r)" using assms(1) by (simp_all add: orderly_def)
  note iD = next_incomplete_SomeD [OF nx]
  have ne: "allowed_tool_names_for_current_transition r \<noteq> {}"
    using names by (metis subset_empty)
  have "find_index running (rs_steps r) \<noteq> None"
  proof
    assume "find_index running (rs_steps r) = None"
    then have "allowed_tool_names_for_current_transition r = {}"
      by (simp add: allowed_tool_names_for_current_transition_def del: find_index_None_iff)
    with ne show False by simp
  qed
  then obtain k where k: "find_index running (rs_steps r) = Some k" by blast
  note kD = find_index_SomeD [OF k]
  note kn = in_order_next [OF ok(2) kD(1,2)]
  have "allowed_tool_names_for_current_transition r = set (st_suggested_tools (steps ! i))"
    using close_running_model_cases [OF ok(1) c]
  proof (elim disjE exE conjE)
    assume st: "steps = rs_steps r" and nm: "\<forall>s \<in> set (rs_steps r). \<not> (running s \<and> is_model_step s)"
    have ik: "i = k" using nx kn st by simp
    then show ?thesis
      using k tool assms(3) by (simp add: allowed_tool_names_for_current_transition_def st)
  next
    fix m d
    assume m: "find_index (\<lambda>s. running s \<and> is_model_step s) (rs_steps r) = Some m"
      and d: "d = settled (rs_steps r ! m) Step_DONE ''Model reasoning completed before tool execution.''"
      and st: "steps = (rs_steps r)[m := d]"
    note mD = find_index_SomeD [OF m]
    have mk: "m = k" using running_unique [OF ok(2) mD(1) kD(1)] mD(2) kD(2) by blast
    have "\<not> is_tool_step (rs_steps r ! k)"
      using mD(2) by (auto simp: mk is_tool_step_def is_model_step_def)
    then obtain s where s: "find (\<lambda>s. \<not> finished s) (drop (Suc k) (rs_steps r)) = Some s" "is_tool_step s"
        "allowed_tool_names_for_current_transition r = set (st_suggested_tools s)"
      using ne k assms(3)
      by (auto simp: allowed_tool_names_for_current_transition_def Let_def split: if_splits option.splits)
    from find_drop_index [OF s(1)] obtain l where l: "Suc k \<le> l" "l < length (rs_steps r)"
        "rs_steps r ! l = s" "\<not> finished s" "\<And>j. Suc k \<le> j \<Longrightarrow> j < l \<Longrightarrow> finished (rs_steps r ! j)"
      by blast
    have "finished (steps ! j)" if "j < l" for j
    proof (rule linorder_cases [of j k])
      assume "j < k"
      with next_incomplete_SomeD(3) [OF kn] show ?thesis by (simp add: st mk)
    next
      assume "j = k"
      then show ?thesis using kD(1) by (simp add: st mk d)
    next
      assume "k < j"
      with l(5) that show ?thesis by (simp add: st mk)
    qed
    then have "next_incomplete_index steps = Some l"
      using l by (auto simp: next_incomplete_index_def find_index_Some_iff st mk)
    then show ?thesis using s(3) l nx by (simp add: st mk)
  qed
  then show ?thesis
    using names iD tool
    by (intro exI [of _ i]) (auto simp: after running_def is_tool_step_def)
qed

lemma orderly_settle_one:
  assumes "orderly r" and "i < length (rs_steps r)" and "with_step_changes r [(i, c)] None None None = Inr t"
    and "step_ok c" and "st_id c = st_id (rs_steps r ! i)" and "finished c"
    and "contract_ok c = contract_ok (rs_steps r ! i)"
  shows "orderly (tr_after t)"
  using assms in_order_settle contracts_nth
  by (intro orderly_changes [OF assms(1,3) one_change_ok])
    (auto simp: orderly_def replace_at_list_update)

lemma orderly_round_completed:
  assumes "orderly r" and "on_tool_round_completed r outcome = Inr t"
  shows "orderly (tr_after t)"
proof (cases "run_terminal r \<or> tool_index (rs_steps r) = None")
  case True
  with assms show ?thesis
    by (auto simp: on_tool_round_completed_def simp del: find_index_None_iff split: if_splits option.splits)
next
  case False
  then obtain i where nt: "\<not> run_terminal r" and ti: "tool_index (rs_steps r) = Some i" by blast
  have ok: "snapshot_ok r" "in_order (rs_steps r)" "contracts (rs_steps r)"
    using assms(1) by (simp_all add: orderly_def)
  note eq = on_tool_round_completed_eq [OF ok(1) nt ti]
  have i: "i < length (rs_steps r)" using ti by (rule find_index_SomeD)
  have iok: "step_ok (rs_steps r ! i)" using ok(1) i by (rule snapshot_ok_nth)
  note one = orderly_settle_one [OF assms(1) i]
  let ?c = "completed_tool (rs_steps r ! i)" and ?steps = "(rs_steps r)[i := completed_tool (rs_steps r ! i)]"
  have two: "orderly (tr_after t)"
    if k: "next_incomplete_index ?steps = Some k"
      and w: "with_step_changes r [(i, ?c), (k, started (?steps ! k))] None None None = Inr t" for k
  proof -
    have kl: "k < length (rs_steps r)" and ne: "k \<noteq> i"
      using next_incomplete_SomeD(1,2) [OF k] i by (auto simp: open_step_def)
    have co: "changes_ok (rs_steps r) [(i, ?c), (k, started (?steps ! k))]"
      using i kl ne ok(1) iok by (intro two_changes_ok) (simp_all add: step_ok_tool_results snapshot_ok_nth)
    have ap: "apply_step_changes (rs_steps r) [(i, ?c), (k, started (?steps ! k))] = ?steps[k := started (?steps ! k)]"
      using i kl by (simp add: replace_at_list_update)
    have "contracts ?steps" using ok(3) i by (auto intro!: contracts_update contracts_nth)
    then have "contracts (?steps[k := started (?steps ! k)])"
      using contracts_nth [of ?steps k] kl by (intro contracts_update [of ?steps]) simp_all
    then show ?thesis
      using in_order_start [OF in_order_settle [OF ok(2)] k]
      by (intro orderly_changes [OF assms(1) w co]) (simp_all only: ap settled_finished)
  qed
  consider "outcome = Batch_DECLINED" | "outcome = Batch_PROGRESSED" | "outcome = Batch_COMPLETED"
    using assms(2) nt by (auto simp: on_tool_round_completed_def split: if_splits)
  then show ?thesis
  proof cases
    case 1
    with assms(2) eq(1) have "with_step_changes r [(i, declined_tool (rs_steps r ! i))] None None None = Inr t"
      by simp
    then show ?thesis by (rule one) (simp_all add: step_ok_tool_results iok)
  next
    case 2
    with assms eq(2) show ?thesis by auto
  next
    case 3
    with assms(2) eq(3) consider "with_step_changes r [(i, ?c)] None None None = Inr t"
      | k where "next_incomplete_index ?steps = Some k"
          "with_step_changes r [(i, ?c), (k, started (?steps ! k))] None None None = Inr t"
      by (auto simp: Let_def split: option.splits if_splits)
    then show ?thesis
    proof cases
      case 1
      then show ?thesis by (rule one) (simp_all add: step_ok_tool_results iok)
    qed (rule two)
  qed
qed

lemma orderly_round_failed:
  assumes "orderly r" and "on_tool_round_failed r err = Inr t"
  shows "orderly (tr_after t)"
proof (cases "run_terminal r")
  case True
  with assms show ?thesis by (auto simp: on_tool_round_failed_def)
next
  case False
  then obtain i where ti: "tool_index (rs_steps r) = Some i"
    using assms(2) by (auto simp: on_tool_round_failed_def Let_def simp del: find_index_None_iff split: option.splits)
  have ok: "snapshot_ok r" using assms(1) by (simp add: orderly_def)
  have i: "i < length (rs_steps r)" using ti by (rule find_index_SomeD)
  note eq = on_tool_round_failed_eq [OF ok False ti, of err]
  have e: "clean_id (case optional_text (Some err) of None \<Rightarrow> ''tool_execution_failed'' | Some e \<Rightarrow> e)"
    by (rule clean_error_default [OF clean_summaries(6)])
  show ?thesis
    by (rule orderly_settle_one [OF assms(1) i assms(2) [unfolded eq]
        step_ok_tool_results(3) [OF snapshot_ok_nth [OF ok i] e]]) simp_all
qed

text \<open>A reducer that leaves nothing running keeps the Run orderly.\<close>

lemma orderly_closed:
  assumes "orderly r" and "snapshot_ok r'" and "rs_steps r' = map f (rs_steps r)"
    and "\<And>s. s \<in> set (rs_steps r) \<Longrightarrow> \<not> running (f s) \<and> contract_ok (f s) = contract_ok s"
  shows "orderly r'"
  using assms by (auto simp: orderly_def contracts_def intro!: in_order_quiet)

lemma orderly_complete:
  assumes "orderly r" and "complete r resp = Inr t"
  shows "orderly (tr_after t)"
proof (cases "run_terminal r")
  case False
  have ok: "snapshot_ok r" using assms(1) by (simp add: orderly_def)
  from complete_eq [OF ok False, of resp] assms(2)
  have "snapshot_ok (tr_after t)" and "rs_steps (tr_after t)
      = map (\<lambda>s. if open_step s then completed_step (rs_steps r) s else s) (rs_steps r)" by auto
  then show ?thesis
    by (rule orderly_closed [OF assms(1)]) (simp add: completed_step_def running_def open_step_def)
qed (use assms in \<open>auto simp: complete_def\<close>)

lemma orderly_cancel:
  assumes "orderly r" and "cancel r reason = Inr t"
  shows "orderly (tr_after t)"
proof (cases "run_terminal r")
  case False
  have ok: "snapshot_ok r" using assms(1) by (simp add: orderly_def)
  from cancel_eq [OF ok False, of reason] assms(2)
  have "snapshot_ok (tr_after t)" and "rs_steps (tr_after t)
      = map (\<lambda>s. if open_step s then settled s Step_BLOCKED
            ''Run was canceled before this step completed.'' else s) (rs_steps r)" by auto
  then show ?thesis
    by (rule orderly_closed [OF assms(1)]) (simp add: running_def open_step_def)
qed (use assms in \<open>auto simp: cancel_def\<close>)

lemma orderly_fail:
  assumes "orderly r" and "fail r err = Inr t"
  shows "orderly (tr_after t)"
proof (cases "run_terminal r")
  case False
  have ok: "snapshot_ok r" using assms(1) by (simp add: orderly_def)
  from assms(2) False obtain e where "optional_text (Some err) = Some e"
    by (auto simp: fail_def split: option.splits)
  from fail_eq [OF ok False this] assms(2)
  have "snapshot_ok (tr_after t)" and "rs_steps (tr_after t)
      = map (\<lambda>s. if running s then s\<lparr>st_status := Step_FAILED, st_error := Some e\<rparr> else s) (rs_steps r)"
    by auto
  then show ?thesis
    by (rule orderly_closed [OF assms(1)]) (simp add: running_def)
qed (use assms in \<open>auto simp: fail_def\<close>)

lemma durable_covered:
  assumes "durable_changes r covered = Inr cs"
  shows "set covered = st_id ` set (rs_steps r)"
  using assms by (auto simp: durable_changes_def split: if_splits)

lemma orderly_durable:
  assumes "orderly r" and "bind_result (durable_changes r covered) (\<lambda>cs. with_step_changes r cs st resp None) = Inr t"
  shows "orderly (tr_after t)"
proof -
  have ok: "snapshot_ok r" using assms(1) by (simp add: orderly_def)
  have cov: "set covered = st_id ` set (rs_steps r)"
    using assms(2) durable_covered by (auto simp: bind_result_Inr_iff)
  from durable_eq [OF ok cov, of st resp] assms(2)
  have "snapshot_ok (tr_after t)" and "rs_steps (tr_after t)
      = map (\<lambda>s. if st_id s \<in> set covered \<and> st_status s \<noteq> Step_DONE
            then settled s Step_DONE ''Durable execution fulfilled this admitted step.'' else s) (rs_steps r)"
    by auto
  then show ?thesis
    by (rule orderly_closed [OF assms(1)]) (use cov in \<open>auto simp: running_def\<close>)
qed

lemma orderly_tool_calls:
  assumes "orderly r" and "on_tool_calls_started r names = Inr t"
  shows "orderly (tr_after t)"
proof (cases "run_terminal r")
  case False
  show ?thesis by (rule orderly_tool_start [OF assms False])
qed (use assms in \<open>auto simp: on_tool_calls_started_def\<close>)

lemma orderly_complete_durable:
  "orderly r \<Longrightarrow> complete_durable_execution r resp covered = Inr t \<Longrightarrow> orderly (tr_after t)"
  unfolding complete_durable_execution_def using orderly_durable by (fastforce split: if_splits)

lemma orderly_finish_durable:
  "orderly r \<Longrightarrow> finish_durable_execution r covered = Inr t \<Longrightarrow> orderly (tr_after t)"
  unfolding finish_durable_execution_def using orderly_durable by (fastforce split: if_splits)

lemma reduce_orderly:
  assumes "orderly r" and "plan_driven e" and "reduce r e = Inr r'"
  shows "orderly r'"
  using assms orderly_model_delta orderly_tool_calls orderly_round_completed orderly_round_failed
    orderly_complete orderly_cancel orderly_fail orderly_complete_durable orderly_finish_durable
  by (cases e) (auto simp: result_simps)

interpretation plan_machine: settling_machine reduce plan_driven orderly run_terminal
  using reduce_orderly run_terminal_reduce by unfold_locales blast+

section \<open>Canonical plans\<close>

lemma initialize_contracts:
  assumes "plan_ok p" and "initialize run_id (Some p) title = Inr r"
  shows "contracts (ep_steps p)" and "clean_id (strip run_id)"
proof -
  have steps: "map_result initial_step (ep_steps p) = Inr (map initial_of (ep_steps p))"
    using assms(1) by (intro map_result_total) (simp add: plan_ok_def initial_step_eq)
  obtain us q where us: "map_result validate_step_execution_contract (map initial_of (ep_steps p)) = Inr us"
      and q: "RunSnapshot_post_init q = Inr r" "rs_run_id q = run_id"
    using assms(2) by (auto simp: initialize_def steps bind_result_Inr_iff)
  show "contracts (ep_steps p)"
    using us by (simp add: map_result_unit contract_iff contracts_def)
  show "clean_id (strip run_id)"
    using RunSnapshot_post_init_checks(1) [OF q(1)] RunSnapshot_post_init_frame(5) [OF q(1)] q(2) by simp
qed

lemma initial_of_started: "st_status s \<noteq> Step_DONE \<Longrightarrow> initial_of (started (initial_of s)) = initial_of s"
  by (simp add: initial_of_def)

lemma initial_of_idem: "initial_of (initial_of s) = initial_of s"
  by (simp add: initial_of_def)

lemma initial_steps_idem: "initial_steps (initial_steps steps) = initial_steps steps"
proof (cases "find_index (\<lambda>s. st_status s \<noteq> Step_DONE) steps")
  case None
  then show ?thesis
    by (simp add: initial_steps_def Let_def initial_of_idem find_index_map comp_def del: find_index_None_iff)
next
  case (Some i)
  note iD = find_index_SomeD [OF Some]
  let ?fresh = "map initial_of steps"
  let ?s = "?fresh[i := started (?fresh ! i)]"
  have s: "initial_steps steps = ?s" using Some by (simp add: initial_steps_def Let_def)
  have idx: "find_index (\<lambda>s. st_status s \<noteq> Step_DONE) ?s = Some i"
    using iD by (auto simp: find_index_Some_iff)
  have "map initial_of ?s = ?fresh"
    using iD by (intro nth_equalityI) (auto simp: nth_list_update initial_of_started initial_of_idem)
  with idx show ?thesis unfolding s by (simp add: initial_steps_def Let_def del: map_update)
qed

lemma initial_steps_edges: "step_edges (initial_steps steps) = step_edges steps"
proof (cases "find_index (\<lambda>s. st_status s \<noteq> Step_DONE) steps")
  case (Some i)
  then have "i < length steps" by (rule find_index_SomeD)
  with Some show ?thesis
    by (simp add: initial_steps_def Let_def step_edges_def comp_def map_update list_update_same_conv)
qed (simp add: initial_steps_def Let_def step_edges_def comp_def del: find_index_None_iff)

lemma clean_canonical: "clean_id ''canonical-plan''"
  by code_simp

lemma canonicalize_eq:
  assumes "plan_ok p" and "contracts (ep_steps p)"
  shows "canonicalize_execution_plan p = Inr (p\<lparr>ep_steps := initial_steps (ep_steps p)\<rparr>)"
    and "plan_ok (p\<lparr>ep_steps := initial_steps (ep_steps p)\<rparr>)"
proof -
  let ?q = "p\<lparr>ep_steps := initial_steps (ep_steps p)\<rparr>"
  have steps: "\<forall>s \<in> set (initial_steps (ep_steps p)). step_ok s"
    using initial_steps_ok [OF assms(1), of Run_RUNNING] by (simp add: steps_ok_def terminal_status_def)
  have ids: "map st_id (initial_steps (ep_steps p)) = map st_id (ep_steps p)" by (rule initial_steps_ids)
  then have "initial_steps (ep_steps p) \<noteq> []" and "st_id ` set (initial_steps (ep_steps p)) = st_id ` set (ep_steps p)"
    using assms(1) by (force simp: plan_ok_def, metis list.set_map)
  then show q: "plan_ok ?q"
    using assms(1) steps ids by (simp add: plan_ok_def initial_steps_edges)
  from initialize_eq [OF assms clean_canonical, of default_title] obtain r where
      r: "initialize ''canonical-plan'' (Some p) default_title = Inr r"
      "\<lparr>ep_title = rs_title r, ep_steps = rs_steps r, ep_goal = rs_goal r,
       ep_task_spec = rs_task_spec r, ep_work_step_ids = rs_work_step_ids r\<rparr> = ?q"
    by (cases p) auto
  show "canonicalize_execution_plan p = Inr ?q"
    by (simp add: canonicalize_execution_plan_def r ExecutionPlan_post_init_id [OF q])
qed

lemma required_text_strip: "required_text (strip s) f = required_text s f"
  by (simp add: required_text_def)

lemma RunSnapshot_post_init_strip:
  "RunSnapshot_post_init (r\<lparr>rs_run_id := strip i\<rparr>) = RunSnapshot_post_init (r\<lparr>rs_run_id := i\<rparr>)"
  by (simp add: RunSnapshot_post_init_def required_text_strip Let_def cong: if_cong option.case_cong)

lemma initialize_strip: "initialize (strip run_id) plan title = initialize run_id plan title"
  using RunSnapshot_post_init_strip [where i = run_id and r = "\<lparr>rs_run_id = [], rs_title = title', rs_goal = g,
        rs_status = Run_RUNNING, rs_task_spec = sp, rs_steps = steps, rs_work_step_ids = w,
        rs_final_response = [], rs_error = None, rs_execution_checkpoint = None,
        rs_agent_preset_snapshot = [], rs_deadline_at_ms = None,
        rs_requested_user_max_generation_tokens = None,
        rs_result_capacity_target_tokens = None,
        rs_selected_context_window_tokens = None\<rparr>" for title' g sp steps w]
  by (simp add: initialize_def Let_def cong: option.case_cong)

section \<open>Fresh step identities\<close>

lemma next_suffix_fresh:
  "numbered_id base (next_suffix base used n) \<notin> set used
   \<and> n \<le> next_suffix base used n
   \<and> (\<forall>m. n \<le> m \<and> m < next_suffix base used n \<longrightarrow> numbered_id base m \<in> set used)"
proof (induction base used n rule: next_suffix.induct)
  case (1 base used n)
  show ?case
  proof (cases "numbered_id base n \<in> set used")
    case True
    then have eq: "next_suffix base used n = next_suffix base used (Suc n)"
      by (subst next_suffix.simps) simp
    have "numbered_id base m \<in> set used" if "n \<le> m" "m < next_suffix base used (Suc n)" for m
      using that True 1 [OF True] by (cases "m = n") auto
    with 1 [OF True] show ?thesis by (auto simp: eq)
  next
    case False
    then have "next_suffix base used n = n" by (subst next_suffix.simps) simp
    with False show ?thesis by auto
  qed
qed

section \<open>Grants and blocked starts\<close>

lemma find_Some_in: "find P xs = Some x \<Longrightarrow> x \<in> set xs \<and> P x"
  by (auto simp: find_Some_iff)

lemma transition_grants:
  "allowed_tool_names_for_current_transition r \<subseteq> allowed_tool_names r"
  "future_allowed_tool_names r \<subseteq> allowed_tool_names r"
proof -
  have nth: "rs_steps r ! i \<in> set (rs_steps r)" if "find_index P (rs_steps r) = Some i" for P i
    using find_index_SomeD(1) [OF that] by simp
  show "allowed_tool_names_for_current_transition r \<subseteq> allowed_tool_names r"
    by (auto simp: allowed_tool_names_for_current_transition_def allowed_tool_names_def Let_def
        simp del: find_index_None_iff split: option.splits if_splits
        dest!: find_Some_in in_set_dropD dest: nth)
  show "future_allowed_tool_names r \<subseteq> allowed_tool_names r"
    unfolding future_allowed_tool_names_def allowed_tool_names_def Let_def
    by (auto simp del: find_index_None_iff dest!: in_set_dropD split: option.splits)
qed

lemma text_frozenset_tools:
  assumes "snapshot_ok r" and "A \<subseteq> allowed_tool_names r"
  shows "text_frozenset A \<subseteq> allowed_tool_names r"
proof -
  have "strip a = a" if "a \<in> allowed_tool_names r" for a
    using that snapshot_ok_steps [OF assms(1)]
    by (auto simp: allowed_tool_names_def step_ok_def clean_ids_def clean_id_def clean_def)
  then show ?thesis using assms(2) by (auto simp: text_frozenset_def)
qed

lemma execution_transition_grants:
  assumes "snapshot_ok r"
  shows "if run_terminal r \<or> (\<forall>s \<in> set (rs_steps r). \<not> running s) then execution_transition r = Inr None
    else \<exists>t. execution_transition r = Inr (Some t)
      \<and> (\<exists>s \<in> set (rs_steps r). running s \<and> et_step_id t = st_id s \<and> et_executor t = st_executor s)
      \<and> et_allowed_tool_names t \<subseteq> allowed_tool_names r \<and> et_future_tool_names t \<subseteq> allowed_tool_names r"
proof (cases "run_terminal r \<or> (\<forall>s \<in> set (rs_steps r). \<not> running s)")
  case True
  then show ?thesis
    by (auto simp: execution_transition_def find_None_iff split: option.splits dest: find_Some_in)
next
  case False
  then obtain s where s: "find running (rs_steps r) = Some s"
    by (cases "find running (rs_steps r)") (auto simp: find_None_iff)
  have "s \<in> set (rs_steps r)" and "running s" using find_Some_in [OF s] by auto
  moreover from this have "clean_id (st_id s)"
    using snapshot_ok_steps [OF assms] by (simp add: step_ok_def)
  ultimately show ?thesis
    using False s transition_grants [of r] text_frozenset_tools [OF assms]
    by (auto simp: execution_transition_def ExecutionTransition_post_init_def)
qed

lemma model_delta_blocked:
  assumes "snapshot_ok r" and "\<not> run_terminal r" and "\<forall>s \<in> set (rs_steps r). \<not> running s"
    and "next_incomplete_index (rs_steps r) = Some i" and "is_model_step (rs_steps r ! i)"
    and "\<not> dependencies_done (rs_steps r) (rs_steps r ! i)"
  shows "on_model_delta r = Inl (ValueError ''a running step requires all Planner dependencies to be done'')"
proof -
  let ?s = "started (rs_steps r ! i)" and ?steps = "(rs_steps r)[i := started (rs_steps r ! i)]"
  have i: "i < length (rs_steps r)" using assms(4) by (rule next_incomplete_SomeD)
  have ids: "map st_id ?steps = map st_id (rs_steps r)"
    using i by (simp add: map_update list_update_same_conv)
  have eq: "on_model_delta r = with_step_changes r [(i, ?s)] None None None"
    using assms(2-5) i snapshot_ok_nth [OF assms(1) i]
    by (auto simp: on_model_delta_def replace_step_status_eq)
  obtain d where d: "d \<in> set (st_depends_on (rs_steps r ! i))" "status_by_id (rs_steps r) d \<noteq> Some Step_DONE"
    using assms(6) by (auto simp: dependencies_done_def)
  have dist: "distinct (map st_id (rs_steps r))" using assms(1) by (simp add: snapshot_ok_def steps_ok_def)
  have "status_by_id ?steps d \<noteq> Some Step_DONE"
  proof
    assume "status_by_id ?steps d = Some Step_DONE"
    then obtain j where j: "j < length (rs_steps r)" "st_id (?steps ! j) = d" "st_status (?steps ! j) = Step_DONE"
      by (auto simp: status_by_id_def in_set_conv_nth simp del: map_update dest!: map_of_SomeD)
    then have "j \<noteq> i" using i by auto
    with j have "(d, Step_DONE) \<in> set (map (\<lambda>s. (st_id s, st_status s)) (rs_steps r))"
      by (force simp: in_set_conv_nth)
    moreover have "distinct (map fst (map (\<lambda>s. (st_id s, st_status s)) (rs_steps r)))"
      using dist by (simp add: comp_def)
    ultimately show False using d(2) unfolding status_by_id_def by simp
  qed
  then have nd: "\<exists>s \<in> set ?steps. running s \<and> st_depends_on s \<noteq> [] \<and> \<not> dependencies_done ?steps s"
    using d(1) i by (intro bexI [of _ ?s]) (auto simp: running_def dependencies_done_def set_update_memI)
  have "filter running (take i (rs_steps r)) = []" and "filter running (drop (Suc i) (rs_steps r)) = []"
    using assms(3) by (auto simp: filter_empty_conv dest: in_set_takeD in_set_dropD)
  then have run: "filter running ?steps = [?s]"
    using i by (simp add: upd_conv_take_nth_drop running_def [of ?s])
  have "RunSnapshot_post_init (changed_snapshot r ?steps None None None)
      = Inl (ValueError ''a running step requires all Planner dependencies to be done'')"
    using assms(1) nd dist ids run
    by (simp add: RunSnapshot_post_init_def snapshot_ok_def changed_snapshot_def Let_def del: map_update)
  then show ?thesis
    unfolding eq using started_change_ok [OF assms(1) i] i
    by (simp add: with_step_changes_eq [OF assms(1)] replace_at_list_update)
qed

end
