(* ===== verification/Run_Properties.thy ===== *)
theory Run_Properties
  imports Run_Lifecycle
begin

text \<open>
  The properties of the Run reducer (\<open>purra/run_state.py\<close>), each with a concrete run as
  its witness.
\<close>

section \<open>A sample plan\<close>

definition sample_step :: "string \<Rightarrow> step_type \<Rightarrow> step_executor \<Rightarrow> string list \<Rightarrow> string list \<Rightarrow> task_step" where
  "sample_step i ty ex tools deps = \<lparr>st_id = i, st_title = i, st_type = ty, st_executor = ex,
     st_status = Step_PENDING, st_risk_level = None, st_suggested_tools = tools, st_depends_on = deps,
     st_description = None, st_result_summary = None, st_error = None,
     st_protocol_private = False, st_planning_capability = None\<rparr>"

text \<open>Think, then search, then answer from the search.\<close>

definition sample_plan :: execution_plan where
  "sample_plan = \<lparr>ep_title = ''plan'', ep_steps =
     [sample_step ''think'' Type_ANALYZE Exec_MODEL [] [],
      sample_step ''search'' Type_READ Exec_TOOL [''web''] [''think''],
      sample_step ''answer'' Type_REVIEW Exec_MODEL [] [''search'']],
     ep_goal = None, ep_task_spec = None, ep_work_step_ids = Some [''think'', ''search'', ''answer'']\<rparr>"

definition sample_run :: run_snapshot where
  "sample_run = (case initialize ''run'' (Some sample_plan) default_title of
     Inr r \<Rightarrow> r | Inl _ \<Rightarrow> undefined)"

lemma sample_plan_valid: "plan_ok sample_plan" "contracts (ep_steps sample_plan)" "clean_id ''run''"
  by code_simp+

lemma sample_run_started: "initialize ''run'' (Some sample_plan) default_title = Inr sample_run"
  using initialize_eq [OF sample_plan_valid, of default_title] by (auto simp: sample_run_def)

lemma sample_run_ok: "snapshot_ok sample_run" "orderly sample_run" "\<not> run_terminal sample_run"
proof -
  show "snapshot_ok sample_run" by (rule initialize_ok [OF sample_run_started])
  then show "orderly sample_run"
    using initialize_eq [OF sample_plan_valid, of default_title] sample_run_started
      initial_steps_in_order initial_steps_contracts [OF sample_plan_valid(2)]
    by (simp add: orderly_def)
  show "\<not> run_terminal sample_run"
    using initialize_ok(2) [OF sample_run_started] by (simp add: run_terminal_def terminal_status_def)
qed

section \<open>Properties\<close>

text \<open>Once a Run has reached a terminal status, no later sequence of events, whatever they are,
  changes its snapshot.\<close>

theorem run_terminal_is_final:
  assumes "run_terminal (drive reduce r es)"
  shows "drive reduce r (es @ fs) = drive reduce r es"
  using assms by (rule run_machine.drive_settled_prefix)

theorem run_terminal_is_final_witness:
  "drive reduce sample_run ([Cancel ''stop''] @ [Complete ''late'', Model_Delta])
     = drive reduce sample_run [Cancel ''stop'']"
  by (rule run_terminal_is_final) code_simp

text \<open>C1. Every snapshot reachable from a started Run is valid: clean identities, unique step
  ids, at most one running step, whose dependencies are all done, nothing running in a
  terminal Run, and work-step ids that name steps of the Run.\<close>

theorem reachable_snapshots_valid:
  assumes "initialize run_id plan title = Inr r" and "list_all well_typed es"
  shows "snapshot_ok (drive reduce r es)"
  using initialize_ok(1) [OF assms(1)] assms(2) by (rule run_machine.drive_inv)

theorem reachable_snapshots_valid_witness:
  "snapshot_ok (drive reduce sample_run
     [Tool_Calls_Started [''web''], Sync_Durable [(''answer'', Step_BLOCKED)], Fail ''timeout''])"
  using sample_run_started by (rule reachable_snapshots_valid) code_simp

text \<open>A valid plan whose steps meet the execution contract always starts: finished steps
  are kept, every other step is reset, and exactly the first step that is not done runs; the
  steps before the running one are all done.\<close>

theorem initialize_starts_first_open_step:
  assumes "plan_ok p" and "contracts (ep_steps p)" and "clean_id run_id"
  shows "\<exists>r. initialize run_id (Some p) title = Inr r \<and> rs_status r = Run_RUNNING
    \<and> length (rs_steps r) = length (ep_steps p)
    \<and> (\<forall>j < length (ep_steps p).
         (st_status (ep_steps p ! j) = Step_DONE \<longrightarrow> st_status (rs_steps r ! j) = Step_DONE)
         \<and> (running (rs_steps r ! j) \<longleftrightarrow> st_status (ep_steps p ! j) \<noteq> Step_DONE
              \<and> (\<forall>k < j. st_status (ep_steps p ! k) = Step_DONE)))"
proof -
  let ?i = "find_index (\<lambda>s. st_status s \<noteq> Step_DONE) (ep_steps p)"
  have len: "length (initial_steps (ep_steps p)) = length (ep_steps p)"
    by (simp add: initial_steps_def Let_def split: option.splits)
  have kept: "st_status (initial_steps (ep_steps p) ! j) = Step_DONE"
    if "j < length (ep_steps p)" "st_status (ep_steps p ! j) = Step_DONE" for j
  proof (cases ?i)
    case (Some a)
    with find_index_SomeD(2) [OF Some] that have "a \<noteq> j" by auto
    with Some that show ?thesis by (simp add: initial_steps_def Let_def)
  qed (use that in \<open>simp add: initial_steps_def Let_def del: find_index_None_iff\<close>)
  have run: "running (initial_steps (ep_steps p) ! j) \<longleftrightarrow> ?i = Some j" if "j < length (ep_steps p)" for j
  proof (cases ?i)
    case (Some a)
    with find_index_SomeD(1) [OF Some] that show ?thesis
      by (cases "a = j") (simp_all add: initial_steps_def Let_def running_def initial_of_def)
  qed (use that in \<open>simp add: initial_steps_def Let_def del: find_index_None_iff\<close>)
  from initialize_eq [OF assms, of title] obtain r where "initialize run_id (Some p) title = Inr r"
      "rs_steps r = initial_steps (ep_steps p)" "rs_status r = Run_RUNNING"
    by blast
  with len kept run show ?thesis
    by (intro exI [of _ r]) (auto simp: find_index_Some_iff)
qed

theorem initialize_starts_first_open_step_witness:
  "\<exists>r. initialize ''run'' (Some sample_plan) default_title = Inr r \<and> rs_status r = Run_RUNNING"
  using initialize_starts_first_open_step [OF sample_plan_valid, of default_title] by blast

text \<open>C2. In the plan-driven loop the plan is worked through front to back: whatever the
  events, everything before the running step is finished, and every step still meets the
  execution contract (a tool step grants exactly one tool, a model step none).\<close>

theorem plan_is_worked_in_order:
  assumes "plan_ok p" and "initialize run_id (Some p) title = Inr r" and "list_all plan_driven es"
  shows "in_order (rs_steps (drive reduce r es)) \<and> contracts (rs_steps (drive reduce r es))"
proof -
  note c = initialize_contracts [OF assms(1,2)]
  have "initialize (strip run_id) (Some p) title = Inr r"
    using assms(2) initialize_strip by simp
  with initialize_eq [OF assms(1) c, of title] have "rs_steps r = initial_steps (ep_steps p)" by auto
  then have "orderly r"
    using initialize_ok(1) [OF assms(2)] initial_steps_in_order initial_steps_contracts [OF c(1)]
    by (simp add: orderly_def)
  then have "orderly (drive reduce r es)" using assms(3) by (rule plan_machine.drive_inv)
  then show ?thesis by (simp add: orderly_def)
qed

theorem plan_is_worked_in_order_witness:
  "in_order (rs_steps (drive reduce sample_run
     [Tool_Calls_Started [''web''], Tool_Round_Completed Batch_COMPLETED, Model_Delta]))"
  using plan_is_worked_in_order [OF sample_plan_valid(1) sample_run_started,
      of "[Tool_Calls_Started [''web''], Tool_Round_Completed Batch_COMPLETED, Model_Delta]"] by simp

text \<open>C3. When tool calls start in an orderly Run, every requested tool is granted by the one
  tool step that is running afterwards, and everything before that step is finished; a
  request outside the grant starts nothing.\<close>

theorem started_tools_are_granted:
  assumes "orderly r" and "\<not> run_terminal r"
  shows "case on_tool_calls_started r names of
      Inr t \<Rightarrow> (\<exists>i < length (rs_steps (tr_after t)).
        running (rs_steps (tr_after t) ! i) \<and> is_tool_step (rs_steps (tr_after t) ! i)
        \<and> set (text_tuple names) \<noteq> {}
        \<and> set (text_tuple names) \<subseteq> set (st_suggested_tools (rs_steps (tr_after t) ! i))
        \<and> (\<forall>j < i. finished (rs_steps (tr_after t) ! j)))
    | Inl e \<Rightarrow> set (text_tuple names) \<subseteq> allowed_tool_names_for_current_transition r \<and> set (text_tuple names) \<noteq> {}
        \<or> e = contract_violation ''tool calls are outside the current plan transition''"
proof (cases "on_tool_calls_started r names")
  case (Inl e)
  with assms(2) show ?thesis by (auto simp: on_tool_calls_started_def Let_def split: if_splits)
next
  case (Inr t)
  with orderly_tool_grant [OF assms(1) Inr assms(2)] show ?thesis by simp
qed

theorem started_tools_are_granted_witness:
  "\<exists>t. on_tool_calls_started sample_run [''web''] = Inr t
     \<and> (\<exists>i < length (rs_steps (tr_after t)). set (text_tuple [''web''])
          \<subseteq> set (st_suggested_tools (rs_steps (tr_after t) ! i)))"
proof -
  have "\<not> isl (on_tool_calls_started sample_run [''web''])" by code_simp
  then obtain t where "on_tool_calls_started sample_run [''web''] = Inr t"
    by (cases "on_tool_calls_started sample_run [''web'']") auto
  with started_tools_are_granted [OF sample_run_ok(2,3), of "[''web'']"] show ?thesis by auto
qed

text \<open>Completing a live Run always succeeds: it is DONE exactly when no tool step was left
  open and BLOCKED otherwise, the final response is recorded, no step stays open, and steps
  that were already finished are untouched.\<close>

theorem complete_settles_run:
  assumes "snapshot_ok r" and "\<not> run_terminal r"
  shows "\<exists>t. complete r resp = Inr t \<and> snapshot_ok (tr_after t)
    \<and> rs_status (tr_after t) = (if \<exists>s \<in> set (rs_steps r). open_step s \<and> \<not> is_model_step s
         then Run_BLOCKED else Run_DONE)
    \<and> rs_final_response (tr_after t) = resp
    \<and> (\<forall>s \<in> set (rs_steps (tr_after t)). \<not> open_step s)
    \<and> length (rs_steps (tr_after t)) = length (rs_steps r)
    \<and> (\<forall>i < length (rs_steps r). \<not> open_step (rs_steps r ! i) \<longrightarrow>
         rs_steps (tr_after t) ! i = rs_steps r ! i)"
  using complete_eq [OF assms, of resp]
  by (fastforce simp: has_incomplete_non_model_def completed_step_def open_step_def)

theorem complete_settles_run_witness:
  "\<exists>t. complete sample_run ''bye'' = Inr t \<and> rs_status (tr_after t) = Run_BLOCKED"
proof -
  have "\<exists>s \<in> set (rs_steps sample_run). open_step s \<and> \<not> is_model_step s" by code_simp
  with complete_settles_run [OF sample_run_ok(1,3), of "''bye''"] show ?thesis by auto
qed

text \<open>Cancelling a live Run always succeeds, ends it as CANCELED with the given reason (or
  \<open>request_canceled\<close>) and blocks every step that was still open.\<close>

theorem cancel_settles_run:
  assumes "snapshot_ok r" and "\<not> run_terminal r"
  shows "\<exists>t. cancel r reason = Inr t \<and> snapshot_ok (tr_after t)
    \<and> rs_status (tr_after t) = Run_CANCELED
    \<and> rs_error (tr_after t) = Some (if strip reason = [] then ''request_canceled'' else strip reason)
    \<and> length (rs_steps (tr_after t)) = length (rs_steps r)
    \<and> (\<forall>i < length (rs_steps r). st_status (rs_steps (tr_after t) ! i)
         = (if open_step (rs_steps r ! i) then Step_BLOCKED else st_status (rs_steps r ! i)))"
  using cancel_eq [OF assms, of reason]
  by (fastforce simp: optional_text_def str_or_empty_def Let_def)

theorem cancel_settles_run_witness:
  "\<exists>t. cancel sample_run [] = Inr t \<and> rs_status (tr_after t) = Run_CANCELED"
  using cancel_settles_run [OF sample_run_ok(1,3), of "[]"] by blast

text \<open>Failing a live Run requires a non-blank error; it then always succeeds, marks the
  running step as failed with that error and leaves every other step alone.\<close>

theorem fail_settles_run:
  assumes "snapshot_ok r" and "\<not> run_terminal r"
  shows "if strip err = [] then fail r err = Inl (contract_violation ''failed run requires a non-empty error'')
    else \<exists>t. fail r err = Inr t \<and> snapshot_ok (tr_after t) \<and> rs_status (tr_after t) = Run_FAILED
      \<and> rs_error (tr_after t) = Some (strip err)
      \<and> rs_steps (tr_after t) = map (\<lambda>s. if running s
           then s\<lparr>st_status := Step_FAILED, st_error := Some (strip err)\<rparr> else s) (rs_steps r)"
proof (cases "strip err = []")
  case True
  with assms(2) show ?thesis by (simp add: fail_def optional_text_def str_or_empty_def)
next
  case False
  then have "optional_text (Some err) = Some (strip err)"
    by (simp add: optional_text_def str_or_empty_def Let_def)
  from fail_eq [OF assms this] False show ?thesis by auto
qed

theorem fail_settles_run_witness:
  "\<exists>t. fail sample_run ''timeout'' = Inr t \<and> rs_status (tr_after t) = Run_FAILED"
proof -
  have "strip ''timeout'' \<noteq> []" by code_simp
  with fail_settles_run [OF sample_run_ok(1,3), of "''timeout''"] show ?thesis by auto
qed

text \<open>Durable completion succeeds exactly when the covered ids are the ids of the admitted
  steps; it then leaves every step done and the Run DONE.\<close>

theorem durable_completion_covers_plan:
  assumes "snapshot_ok r" and "\<not> run_terminal r"
  shows "if set covered = st_id ` set (rs_steps r)
    then \<exists>t. complete_durable_execution r resp covered = Inr t \<and> snapshot_ok (tr_after t)
      \<and> rs_status (tr_after t) = Run_DONE \<and> rs_final_response (tr_after t) = resp
      \<and> (\<forall>s \<in> set (rs_steps (tr_after t)). st_status s = Step_DONE)
    else complete_durable_execution r resp covered
      = Inl (RuntimeError ''durable completion must match the admitted plan steps'')"
proof (cases "set covered = st_id ` set (rs_steps r)")
  case True
  from durable_eq [OF assms(1) True, of "Some Run_DONE" "Some resp"] obtain t where
      "complete_durable_execution r resp covered = Inr t" "snapshot_ok (tr_after t)"
      and "tr_after t = changed_snapshot r
         (map (\<lambda>s. if st_id s \<in> set covered \<and> st_status s \<noteq> Step_DONE
            then settled s Step_DONE ''Durable execution fulfilled this admitted step.'' else s) (rs_steps r))
         (Some Run_DONE) (Some resp) None"
    using assms(2) by (auto simp: complete_durable_execution_def)
  with True show ?thesis by auto
next
  case False
  then have "set (map st_id (rs_steps r)) \<noteq> set covered" by auto
  with False assms(2) show ?thesis by (simp add: complete_durable_execution_def durable_changes_def)
qed

theorem durable_completion_covers_plan_witness:
  "complete_durable_execution sample_run ''done'' [''think'']
     = Inl (RuntimeError ''durable completion must match the admitted plan steps'')"
proof -
  have "set [''think''] \<noteq> st_id ` set (rs_steps sample_run)" by code_simp
  with durable_completion_covers_plan [OF sample_run_ok(1,3), of "[''think'']" "''done''"]
  show ?thesis by simp
qed

text \<open>Durable progress never takes back a finished step: a step that is done stays exactly
  as it is, whatever statuses are reported.\<close>

theorem sync_keeps_done_steps:
  assumes "snapshot_ok r" and "distinct (map fst statuses)"
    and "sync_durable_execution r statuses = Inr t"
    and "i < length (rs_steps r)" and "st_status (rs_steps r ! i) = Step_DONE"
  shows "rs_steps (tr_after t) ! i = rs_steps r ! i"
  using sync_durable_cases [OF assms(1,3,2)]
proof (elim disjE exE conjE)
  fix cs
  assume cs: "sync_changes (rs_steps r) statuses = Inr cs" "changes_ok (rs_steps r) cs"
    and w: "with_step_changes r cs None None None = Inr t"
  have ok: "\<forall>s \<in> set (rs_steps r). step_ok s" using assms(1) snapshot_ok_steps by blast
  have "map_of cs i = None"
    using sync_changes_SomeD [OF cs(1) ok] assms(5) by (fastforce simp: map_of_eq_None_iff)
  moreover have "distinct (map fst cs)" and "\<forall>(j, s) \<in> set cs. j < length (rs_steps r)"
    using cs(2) by (auto simp: changes_ok_def)
  ultimately show ?thesis
    using with_step_changes_ok(3) [OF w assms(1) cs(2)] assms(4) by (simp add: apply_step_changes_nth)
qed simp

definition sample_progress :: run_snapshot where
  "sample_progress = drive reduce sample_run [Tool_Calls_Started [''web'']]"

theorem sync_keeps_done_steps_witness:
  "\<exists>t. sync_durable_execution sample_progress [(''think'', Step_FAILED), (''search'', Step_DONE)] = Inr t
     \<and> rs_steps (tr_after t) ! 0 = rs_steps sample_progress ! 0"
proof -
  have ok: "snapshot_ok sample_progress" by code_simp
  have "\<not> isl (sync_durable_execution sample_progress [(''think'', Step_FAILED), (''search'', Step_DONE)])"
    by code_simp
  then obtain t where
      t: "sync_durable_execution sample_progress [(''think'', Step_FAILED), (''search'', Step_DONE)] = Inr t"
    by (cases "sync_durable_execution sample_progress [(''think'', Step_FAILED), (''search'', Step_DONE)]") auto
  have "rs_steps (tr_after t) ! 0 = rs_steps sample_progress ! 0"
    by (rule sync_keeps_done_steps [OF ok _ t]) code_simp+
  with t show ?thesis by blast
qed

text \<open>Revising the plan never rewrites history: the steps that were finished are kept, in
  their order, as a prefix of the revised steps, the Run keeps its identity and status, and a
  terminal Run cannot be revised.\<close>

theorem revise_keeps_history:
  assumes "snapshot_ok r" and "revise_plan r plan = Inr r'"
  shows "\<not> run_terminal r \<and> snapshot_ok r' \<and> rs_status r' = rs_status r \<and> rs_run_id r' = rs_run_id r
    \<and> take (length (filter finished (rs_steps r))) (rs_steps r') = filter finished (rs_steps r)"
  by (rule revise_plan_cases [OF assms]) simp

theorem revise_keeps_history_witness:
  "\<exists>r'. revise_plan sample_progress sample_plan = Inr r' \<and> take 1 (rs_steps r') = filter finished (rs_steps sample_progress)"
proof -
  have ok: "snapshot_ok sample_progress" by code_simp
  have "\<not> isl (revise_plan sample_progress sample_plan)" by code_simp
  then obtain r' where r': "revise_plan sample_progress sample_plan = Inr r'"
    by (cases "revise_plan sample_progress sample_plan") auto
  have "length (filter finished (rs_steps sample_progress)) = 1" by code_simp
  with revise_keeps_history [OF ok r'] r' show ?thesis by auto
qed

text \<open>\<open>canonicalize_execution_plan\<close> accepts every valid plan that meets the execution
  contract, returns a valid plan with the same steps, and is idempotent.\<close>

theorem canonicalize_idempotent:
  assumes "plan_ok p" and "contracts (ep_steps p)"
  shows "\<exists>q. canonicalize_execution_plan p = Inr q \<and> plan_ok q
     \<and> map st_id (ep_steps q) = map st_id (ep_steps p) \<and> canonicalize_execution_plan q = Inr q"
proof -
  let ?q = "p\<lparr>ep_steps := initial_steps (ep_steps p)\<rparr>"
  note p = canonicalize_eq [OF assms]
  have "canonicalize_execution_plan ?q = Inr ?q"
    using canonicalize_eq(1) [OF p(2)] initial_steps_contracts [OF assms(2)]
    by (simp add: initial_steps_idem)
  with p show ?thesis by (simp add: initial_steps_ids)
qed

theorem canonicalize_idempotent_witness:
  "\<exists>q. canonicalize_execution_plan sample_plan = Inr q \<and> canonicalize_execution_plan q = Inr q"
  using canonicalize_idempotent [OF sample_plan_valid(1,2)] by blast

text \<open>\<open>_unique_step_id\<close> terminates and returns an unused identity: the base itself when it
  is free, otherwise the base with the smallest free suffix from 2 on.\<close>

theorem unique_step_id_fresh:
  "unique_step_id base used \<notin> set used
   \<and> (base \<notin> set used \<longrightarrow> unique_step_id base used = base)
   \<and> (base \<in> set used \<longrightarrow> (\<exists>n \<ge> 2. unique_step_id base used = numbered_id base n
        \<and> (\<forall>m. 2 \<le> m \<and> m < n \<longrightarrow> numbered_id base m \<in> set used)))"
  using next_suffix_fresh [of base used 2] by (auto simp: unique_step_id_def)

theorem unique_step_id_fresh_witness:
  "unique_step_id ''respond'' [''respond'', ''respond-2''] = ''respond-3''
   \<and> unique_step_id ''respond'' [''respond'', ''respond-2''] \<notin> set [''respond'', ''respond-2'']"
proof
  show "unique_step_id ''respond'' [''respond'', ''respond-2''] = ''respond-3''" by code_simp
  show "unique_step_id ''respond'' [''respond'', ''respond-2''] \<notin> set [''respond'', ''respond-2'']"
    using unique_step_id_fresh by blast
qed

text \<open>The execution transition announced for a valid Run names its running step, and the
  tools it grants now or later are all tools of the plan.\<close>

theorem execution_transition_within_plan:
  assumes "snapshot_ok r"
  shows "if run_terminal r \<or> (\<forall>s \<in> set (rs_steps r). \<not> running s) then execution_transition r = Inr None
    else \<exists>t. execution_transition r = Inr (Some t)
      \<and> (\<exists>s \<in> set (rs_steps r). running s \<and> et_step_id t = st_id s \<and> et_executor t = st_executor s)
      \<and> et_allowed_tool_names t \<subseteq> allowed_tool_names r \<and> et_future_tool_names t \<subseteq> allowed_tool_names r"
  by (rule execution_transition_grants [OF assms])

theorem execution_transition_within_plan_witness:
  "\<exists>t. execution_transition sample_run = Inr (Some t) \<and> et_allowed_tool_names t \<subseteq> allowed_tool_names sample_run"
proof -
  have "\<not> (\<forall>s \<in> set (rs_steps sample_run). \<not> running s)" by code_simp
  with execution_transition_within_plan [OF sample_run_ok(1)] sample_run_ok(3) show ?thesis by auto
qed

text \<open>A model step that depends on a step that is not done cannot be started by a model
  delta: the reducer raises. In particular this is what happens after the user declined the
  tool such a step depends on.\<close>

theorem model_delta_needs_dependencies:
  assumes "snapshot_ok r" and "\<not> run_terminal r" and "\<forall>s \<in> set (rs_steps r). \<not> running s"
    and "next_incomplete_index (rs_steps r) = Some i" and "is_model_step (rs_steps r ! i)"
    and "\<not> dependencies_done (rs_steps r) (rs_steps r ! i)"
  shows "on_model_delta r = Inl (ValueError ''a running step requires all Planner dependencies to be done'')"
  by (rule model_delta_blocked [OF assms])

definition sample_declined :: run_snapshot where
  "sample_declined = drive reduce sample_run
     [Tool_Calls_Started [''web''], Tool_Round_Completed Batch_DECLINED]"

theorem model_delta_needs_dependencies_witness:
  "on_model_delta sample_declined
     = Inl (ValueError ''a running step requires all Planner dependencies to be done'')"
proof (rule model_delta_needs_dependencies)
  show "next_incomplete_index (rs_steps sample_declined) = Some 2" by code_simp
qed code_simp+

section \<open>A revision that reorders the plan\<close>

definition reordered_plan :: execution_plan where
  "reordered_plan = sample_plan\<lparr>ep_steps :=
     sample_step ''prepare'' Type_WRITE Exec_TOOL [''shell''] [] # ep_steps sample_plan\<rparr>"

definition sample_revised :: run_snapshot where
  "sample_revised = drive reduce sample_run [Revise_Plan reordered_plan]"

text \<open>\<open>in_order\<close> is not kept by a revision: the running step keeps running even when the
  revised plan puts new steps before it. The grant is then computed from the steps after the
  running one, while \<open>on_tool_calls_started\<close> starts the first open step of the plan: a call to
  \<open>web\<close>, granted by the step \<open>search\<close>, starts the step \<open>prepare\<close>, whose tool is \<open>shell\<close>.\<close>

theorem revision_misattributes_tool:
  "allowed_tool_names_for_current_transition sample_revised = {''web''}
   \<and> map (\<lambda>s. (st_id s, st_suggested_tools s)) (filter running
       (rs_steps (drive reduce sample_revised [Tool_Calls_Started [''web'']]))) = [(''prepare'', [''shell''])]"
  by code_simp

end
