(* ===== verification/Messages.thy ===== *)
theory Messages
  imports Json_Values Enums
begin

text \<open>
  Messages as the model loop exchanges them: \<open>json.dumps\<close> of a JSON value, the static image
  envelope (\<open>purra/media.py\<close>), \<open>ToolCall\<close> and \<open>ToolSchema\<close> (\<open>purra/contracts/tools.py\<close>) and
  \<open>AgentMessage\<close> (\<open>purra/contracts/model.py\<close>).

  The textual form of a finite float is the parameter \<open>R\<close> (\<open>float.__repr__\<close> of mantissa and
  exponent); everything else of the encoder is written out.
\<close>

section \<open>JSON text\<close>

definition hex_digit :: "nat \<Rightarrow> char" where
  "hex_digit n = ''0123456789abcdef'' ! (n mod 16)"

text \<open>The escapes of \<open>json.dumps(..., ensure_ascii=False)\<close>.\<close>

definition json_escape :: "char \<Rightarrow> string" where
  "json_escape c =
     (let n = of_char c :: nat in
      if n = 34 then [CHR 0x5C, CHR 0x22]
      else if n = 92 then [CHR 0x5C, CHR 0x5C]
      else if n = 10 then [CHR 0x5C, CHR ''n'']
      else if n = 13 then [CHR 0x5C, CHR ''r'']
      else if n = 9 then [CHR 0x5C, CHR ''t'']
      else if n = 12 then [CHR 0x5C, CHR ''f'']
      else if n = 8 then [CHR 0x5C, CHR ''b'']
      else if n < 32 then CHR 0x5C # ''u00'' @ [hex_digit (n div 16), hex_digit n]
      else [c])"

definition json_quote :: "string \<Rightarrow> string" where
  "json_quote s = CHR 0x22 # concat (map json_escape s) @ [CHR 0x22]"

definition show_int :: "int \<Rightarrow> string" where
  "show_int i = (if i < 0 then CHR ''-'' # show_nat (nat (- i)) else show_nat (nat i))"

primrec json_dumps :: "(int \<Rightarrow> int \<Rightarrow> string) \<Rightarrow> json \<Rightarrow> string" where
  "json_dumps R JNull = ''null''"
| "json_dumps R (JBool b) = (if b then ''true'' else ''false'')"
| "json_dumps R (JInt i) = show_int i"
| "json_dumps R (JFloat m e) = R m e"
| "json_dumps R (JStr s) = json_quote s"
| "json_dumps R (JList xs) = ''['' @ join '','' (map (json_dumps R) xs) @ '']''"
| "json_dumps R (JObj kvs) = ''{'' @ join '','' (map (\<lambda>(k, e). json_quote k @ '':'' @ e)
     (map (map_prod id (json_dumps R)) kvs)) @ ''}''"

section \<open>Static images\<close>

definition STATIC_IMAGE_PROFILE :: string where
  "STATIC_IMAGE_PROFILE = ''purra.static-images/v1''"

definition base64_alphabet :: string where
  "base64_alphabet = ''ABCDEFGHIJKLMNOPQRSTUVWXYZabcdefghijklmnopqrstuvwxyz0123456789+/''"

definition base64_value :: "char \<Rightarrow> nat option" where
  "base64_value c = find_index (\<lambda>d. d = c) base64_alphabet"

definition base64_char :: "nat \<Rightarrow> char" where
  "base64_char n = base64_alphabet ! (n mod 64)"

text \<open>\<open>base64.b64encode\<close> of a sequence of bytes.\<close>

fun b64encode :: "nat list \<Rightarrow> string" where
  "b64encode [] = []"
| "b64encode [x] = [base64_char (x div 4), base64_char (x mod 4 * 16), CHR ''='', CHR ''='']"
| "b64encode [x, y] = [base64_char (x div 4), base64_char (x mod 4 * 16 + y div 16),
     base64_char (y mod 16 * 4), CHR ''='']"
| "b64encode (x # y # z # rest) = base64_char (x div 4) # base64_char (x mod 4 * 16 + y div 16)
     # base64_char (y mod 16 * 4 + z div 64) # base64_char (z mod 64) # b64encode rest"

text \<open>
  The data of an image is canonical when decoding it and encoding the bytes again gives the same
  text: groups of four, padding only at the end, and no stray bits under the padding.
\<close>

fun canonical_base64 :: "string \<Rightarrow> bool" where
  "canonical_base64 [] = True"
| "canonical_base64 (a # b # c # d # rest) =
     (case (base64_value a, base64_value b) of
        (Some x, Some y) \<Rightarrow>
          if c = CHR ''='' then d = CHR ''='' \<and> rest = [] \<and> y mod 16 = 0
          else (case base64_value c of
            None \<Rightarrow> False
          | Some z \<Rightarrow> if d = CHR ''='' then rest = [] \<and> z mod 4 = 0
              else base64_value d \<noteq> None \<and> canonical_base64 rest)
      | _ \<Rightarrow> False)"
| "canonical_base64 s = False"

definition parse_image :: "json \<Rightarrow> int \<Rightarrow> (json_mapping \<times> int) result" where
  "parse_image item sum0 =
     (case item of
        JObj kvs \<Rightarrow>
          if fst ` set kvs \<noteq> {''mediaType'', ''dataBase64'', ''inputTokens''} then
            Inl (ValueError ''Invalid static image fields'')
          else if map_of kvs ''mediaType'' \<notin> {Some (JStr ''image/png''), Some (JStr ''image/jpeg''), Some (JStr ''image/webp'')}
          then Inl (ValueError ''Unsupported static image media type'')
          else (case map_of kvs ''dataBase64'' of
            Some (JStr data) \<Rightarrow>
              if data = [] \<or> \<not> canonical_base64 data then
                Inl (ValueError ''Static image data must be canonical base64'')
              else (case map_of kvs ''inputTokens'' of
                Some (JInt tokens) \<Rightarrow>
                  if tokens \<le> 0 \<or> tokens > 2 ^ 53 - 1 then
                    Inl (ValueError ''Static image inputTokens must be a positive safe integer'')
                  else if sum0 + tokens > 2 ^ 53 - 1 then
                    Inl (ValueError ''Static image token allowance exceeds safe integer range'')
                  else Inr (kvs, sum0 + tokens)
              | _ \<Rightarrow> Inl (ValueError ''Static image inputTokens must be a positive safe integer''))
          | _ \<Rightarrow> Inl (ValueError ''Static image data must be canonical base64''))
      | _ \<Rightarrow> Inl (ValueError ''Invalid static image fields''))"

fun parse_images :: "json list \<Rightarrow> int \<Rightarrow> json_mapping list result" where
  "parse_images [] sum0 = Inr []"
| "parse_images (item # items) sum0 =
     bind_result (parse_image item sum0) (\<lambda>(img, sum').
     bind_result (parse_images items sum') (\<lambda>images. Inr (img # images)))"

text \<open>The validated text and images, or \<open>None\<close> for unrelated content.\<close>

definition parse_static_image_content :: "json \<Rightarrow> (string \<times> json_mapping list) option result" where
  "parse_static_image_content v =
     (case v of
        JObj kvs \<Rightarrow>
          if map_of kvs ''type'' \<noteq> Some (JStr STATIC_IMAGE_PROFILE) then Inr None
          else if fst ` set kvs \<noteq> {''type'', ''text'', ''images''} then
            Inl (ValueError ''Invalid static image content'')
          else (case map_of kvs ''text'' of
            Some (JStr text) \<Rightarrow>
              (case map_of kvs ''images'' of
                 Some (JList items) \<Rightarrow>
                   if items = [] then Inl (ValueError ''Static image content requires images'')
                   else bind_result (parse_images items 0) (\<lambda>images. Inr (Some (text, images)))
               | _ \<Rightarrow> Inl (ValueError ''Static image content requires images''))
          | _ \<Rightarrow> Inl (ValueError ''Invalid static image content''))
      | _ \<Rightarrow> Inr None)"

definition image_tokens :: "json_mapping \<Rightarrow> int" where
  "image_tokens kvs = (case map_of kvs ''inputTokens'' of Some (JInt n) \<Rightarrow> n | _ \<Rightarrow> 0)"

definition image_input_tokens :: "json \<Rightarrow> int result" where
  "image_input_tokens content =
     bind_result (parse_static_image_content content) (\<lambda>v.
     Inr (case v of None \<Rightarrow> 0 | Some (text, images) \<Rightarrow> sum_list (map image_tokens images)))"

section \<open>Tools and messages\<close>

record tool_call =
  tc_id :: string
  tc_name :: string
  tc_arguments_json :: string

definition ToolCall_post_init :: "tool_call \<Rightarrow> tool_call result" where
  "ToolCall_post_init c =
     bind_result (required_text (tc_id c) ''tool call id'') (\<lambda>i.
     bind_result (required_text (tc_name c) ''tool call name'') (\<lambda>name.
     Inr (c\<lparr>tc_id := i, tc_name := name\<rparr>)))"

record tool_schema =
  sch_name :: string
  sch_description :: string
  sch_parameters :: json_mapping
  sch_display_names :: json_mapping

record agent_message =
  am_role :: message_role
  am_content :: json
  am_reasoning :: "string option"
  am_tool_calls :: "tool_call list"
  am_tool_call_id :: "string option"
  am_origin :: message_origin
  am_attributes :: json_mapping
  am_host_metadata :: json_mapping
  am_provider_data :: json_mapping

fun MessageRole_value :: "message_role \<Rightarrow> string" where
  "MessageRole_value Role_SYSTEM = ''system''"
| "MessageRole_value Role_DEVELOPER = ''developer''"
| "MessageRole_value Role_USER = ''user''"
| "MessageRole_value Role_ASSISTANT = ''assistant''"
| "MessageRole_value Role_TOOL = ''tool''"

definition AgentMessage_post_init :: "agent_message \<Rightarrow> agent_message result" where
  "AgentMessage_post_init m =
     bind_result (parse_static_image_content (am_content m)) (\<lambda>img.
     if img \<noteq> None \<and> am_role m \<noteq> Role_USER then Inl (ValueError ''Static images require user role'')
     else let reasoning = optional_text (am_reasoning m); call_id = optional_text (am_tool_call_id m) in
     if am_role m = Role_TOOL \<and> call_id = None then Inl (ValueError ''tool message requires tool_call_id'')
     else Inr (m\<lparr>am_reasoning := reasoning, am_tool_call_id := call_id\<rparr>))"

definition AgentMessage_to_mapping :: "agent_message \<Rightarrow> json_mapping" where
  "AgentMessage_to_mapping m =
     (let v1 = AList.update ''content'' (am_content m)
            (AList.update ''role'' (JStr (MessageRole_value (am_role m))) (am_attributes m));
          v2 = (case am_reasoning m of None \<Rightarrow> v1 | Some r \<Rightarrow> AList.update ''reasoning'' (JStr r) v1);
          v3 = (if am_tool_calls m = [] then v2 else AList.update ''tool_calls'' (JList (map (\<lambda>c. JObj
            [(''id'', JStr (tc_id c)), (''name'', JStr (tc_name c)), (''arguments_json'', JStr (tc_arguments_json c))])
            (am_tool_calls m))) v2);
          v4 = (case am_tool_call_id m of None \<Rightarrow> v3 | Some i \<Rightarrow> AList.update ''tool_call_id'' (JStr i) v3)
      in if am_provider_data m = [] then v4 else AList.update ''provider_data'' (JObj (am_provider_data m)) v4)"

section \<open>Canonical base64 is exactly what the encoder produces\<close>

lemma base64_alphabet_length: "length base64_alphabet = 64"
  by (simp add: base64_alphabet_def)

lemma base64_alphabet_distinct: "distinct base64_alphabet"
  by (simp add: base64_alphabet_def)

lemma base64_value_char [simp]: "n < 64 \<Longrightarrow> base64_value (base64_char n) = Some n"
  using base64_alphabet_distinct
  by (auto simp: base64_value_def base64_char_def find_index_Some_iff base64_alphabet_length nth_eq_iff_index_eq)

lemma base64_value_Some:
  assumes "base64_value c = Some n"
  shows "n < 64" and "base64_char n = c"
  using find_index_SomeD [OF assms [unfolded base64_value_def]]
  by (auto simp: base64_char_def base64_alphabet_length)

lemma base64_char_not_pad: "n < 64 \<Longrightarrow> base64_char n \<noteq> CHR ''=''"
proof
  assume "n < 64" "base64_char n = CHR ''=''"
  then have "base64_value (CHR ''='') = Some n" using base64_value_char by metis
  moreover have "base64_value (CHR ''='') = None" by (simp add: base64_value_def base64_alphabet_def)
  ultimately show False by simp
qed

lemma canonical_b64encode: "\<forall>b \<in> set bs. b < 256 \<Longrightarrow> canonical_base64 (b64encode bs)"
  by (induction bs rule: b64encode.induct) (auto simp: base64_char_not_pad)

lemma canonical_base64_decodes:
  "canonical_base64 s \<Longrightarrow> \<exists>bs. (\<forall>b \<in> set bs. b < 256) \<and> b64encode bs = s"
proof (induction s rule: canonical_base64.induct)
  case (2 a b c d rest)
  then obtain x y where xy: "base64_value a = Some x" "base64_value b = Some y"
    by (auto split: option.splits)
  note X = base64_value_Some [OF xy(1)] and Y = base64_value_Some [OF xy(2)]
  let ?p = "x * 4 + y div 16"
  have p: "?p < 256" "?p div 4 = x" "?p mod 4 = y div 16" using X(1) Y(1) by auto
  show ?case
  proof (cases "c = CHR ''=''")
    case True
    then have "d = CHR ''=''" "rest = []" "y mod 16 = 0" using 2(2) xy by auto
    moreover from this(3) have "y div 16 * 16 = y" by auto
    ultimately have "b64encode [?p] = a # b # c # d # rest" using p X Y True by simp
    moreover have "\<forall>b \<in> set [?p]. b < 256" using p(1) by simp
    ultimately show ?thesis by blast
  next
    case cne: False
    then obtain z where z: "base64_value c = Some z" using 2(2) xy by (auto split: option.splits)
    note Z = base64_value_Some [OF z]
    let ?q = "y mod 16 * 16 + z div 4"
    have q: "?q < 256" "?q div 16 = y mod 16" "?q mod 16 = z div 4" using Z(1) by auto
    have y: "?p mod 4 * 16 + ?q div 16 = y" using p(3) q(2) by simp
    show ?thesis
    proof (cases "d = CHR ''=''")
      case True
      then have "rest = []" "z mod 4 = 0" using 2(2) xy z cne by auto
      moreover from this(2) have "z div 4 * 4 = z" by auto
      ultimately have "b64encode [?p, ?q] = a # b # c # d # rest"
        using p q(3) y X Y Z True by simp
      moreover have "\<forall>b \<in> set [?p, ?q]. b < 256" using p(1) q(1) by simp
      ultimately show ?thesis by blast
    next
      case False
      then obtain w where w: "base64_value d = Some w" and rest: "canonical_base64 rest"
        using 2(2) xy z cne by auto
      note W = base64_value_Some [OF w]
      obtain bs where bs: "\<forall>b \<in> set bs. b < 256" "b64encode bs = rest"
        using 2(1) [OF refl xy cne z False rest] by blast
      let ?r = "z mod 4 * 64 + w"
      have r: "?r < 256" "?r div 64 = z mod 4" "?r mod 64 = w" using W(1) by auto
      have "b64encode (?p # ?q # ?r # bs) = a # b # c # d # rest"
        using p q(3) y r bs(2) X Y Z W by simp
      moreover have "\<forall>b \<in> set (?p # ?q # ?r # bs). b < 256" using p(1) q(1) r(1) bs(1) by simp
      ultimately show ?thesis by blast
    qed
  qed
qed (auto intro: exI [of _ "[]"])

lemma canonical_base64_iff: "canonical_base64 s \<longleftrightarrow> (\<exists>bs. (\<forall>b \<in> set bs. b < 256) \<and> b64encode bs = s)"
  using canonical_base64_decodes canonical_b64encode by blast

end
