(* ===== verification/Plan_Compiler.thy ===== *)
theory Plan_Compiler
  imports Messages Run_State
begin

text \<open>
  \<open>purra/plan_compiler.py\<close>: how a work plan of the planner becomes an execution plan. A step that
  names a public capability is lowered to the private runtime tools behind it, in the order of their
  prerequisites, and prerequisites that nothing provides yet are inserted before the tool that needs
  them. The contracts it reads come from \<open>contracts/tools.py\<close>, \<open>contracts/planning.py\<close> and
  \<open>ports/tools.py\<close>.
\<close>

text \<open>
  \<open>repr(s)\<close> of a string, as the error messages quote tool names: double quotes when the text has single
  quotes only, escapes for the quote, the backslash and what is not printable (up to code point 255).
\<close>

definition repr_char :: "char \<Rightarrow> char \<Rightarrow> string" where
  "repr_char q c = (let n = of_char c :: nat; hex = (\<lambda>d. ''0123456789abcdef'' ! d) in
     if c = q \<or> c = CHR 0x5C then [CHR 0x5C, c]
     else if n = 9 then [CHR 0x5C, CHR ''t'']
     else if n = 10 then [CHR 0x5C, CHR ''n'']
     else if n = 13 then [CHR 0x5C, CHR ''r'']
     else if n < 32 \<or> 127 \<le> n \<and> n \<le> 160 \<or> n = 173 then [CHR 0x5C, CHR ''x'', hex (n div 16), hex (n mod 16)]
     else [c])"

definition py_repr :: "string \<Rightarrow> string" where
  "py_repr s = (let q = (if CHR 0x27 \<in> set s \<and> CHR 0x22 \<notin> set s then CHR 0x22 else CHR 0x27) in
     [q] @ concat (map (repr_char q) s) @ [q])"

section \<open>Tools and constraints\<close>

record tool_policy =
  tp_mode :: tool_execution_mode
  tp_title :: string
  tp_risk_level :: tool_risk_level

definition ToolPolicy_post_init :: "tool_policy \<Rightarrow> tool_policy result" where
  "ToolPolicy_post_init p = bind_result (required_text (tp_title p) ''tool policy title'') (\<lambda>t. Inr (p\<lparr>tp_title := t\<rparr>))"

datatype tool_result_projection = Projection_FULL | Projection_RECEIPT

record tool_context_contract =
  tcc_prerequisite_tools :: "string list"
  tcc_mandatory_context_keys :: "string list"
  tcc_required_context_blocks :: "string list"
  tcc_evidence_kinds :: "string list"
  tcc_produces :: "string list"
  tcc_result_projection :: tool_result_projection
  tcc_final_projection :: tool_result_projection

definition ToolContextContract_post_init :: "tool_context_contract \<Rightarrow> tool_context_contract" where
  "ToolContextContract_post_init c = c\<lparr>tcc_prerequisite_tools := unique_text_tuple (tcc_prerequisite_tools c),
     tcc_mandatory_context_keys := unique_text_tuple (tcc_mandatory_context_keys c),
     tcc_required_context_blocks := unique_text_tuple (tcc_required_context_blocks c),
     tcc_evidence_kinds := unique_text_tuple (tcc_evidence_kinds c), tcc_produces := unique_text_tuple (tcc_produces c)\<rparr>"

text \<open>The fields of a registration that the compiler reads; its callables are not among them.\<close>

record tool_registration =
  tr_schema :: tool_schema
  tr_policy :: tool_policy
  tr_context_contract :: tool_context_contract
  tr_planning_capability :: "tool_schema option"

definition prerequisite_tools :: "tool_registration \<Rightarrow> string list" where
  "prerequisite_tools r = tcc_prerequisite_tools (tr_context_contract r)"

abbreviation tool_name :: "tool_registration \<Rightarrow> string" where
  "tool_name r \<equiv> sch_name (tr_schema r)"

text \<open>Equality of two schemas compares their mappings as JSON.\<close>

definition schema_equal :: "tool_schema \<Rightarrow> tool_schema \<Rightarrow> bool" where
  "schema_equal a b \<longleftrightarrow> sch_name a = sch_name b \<and> sch_description a = sch_description b
     \<and> json_mapping_eq (sch_parameters a) (sch_parameters b) \<and> json_mapping_eq (sch_display_names a) (sch_display_names b)"

record planning_constraints =
  pc_context_satisfied_tool_names :: "string set"
  pc_planning_excluded_tool_names :: "string set"
  pc_satisfied_tool_dependency_edges :: "(string \<times> string) set"
  pc_required_any_tool_names :: "string set"
  pc_execution_satisfied_tool_names :: "string set"
  pc_planning_excluded_executors :: "step_executor set"
  pc_allow_model_only_fallback :: bool
  pc_min_initial_visible_steps :: int

definition PlanningConstraints_post_init :: "planning_constraints \<Rightarrow> planning_constraints result" where
  "PlanningConstraints_post_init c =
     (if \<not> (1 \<le> pc_min_initial_visible_steps c \<and> pc_min_initial_visible_steps c \<le> 9007199254740991) then
        Inl (ValueError ''min_initial_visible_steps must be a positive safe integer'')
      else
        let edges = map_prod strip strip ` pc_satisfied_tool_dependency_edges c in
        if \<exists>e \<in> edges. fst e = [] \<or> snd e = [] then
          Inl (ValueError ''satisfied tool dependency edge names must be non-empty'')
        else Inr (c\<lparr>pc_context_satisfied_tool_names := text_frozenset (pc_context_satisfied_tool_names c),
          pc_planning_excluded_tool_names := text_frozenset (pc_planning_excluded_tool_names c),
          pc_required_any_tool_names := text_frozenset (pc_required_any_tool_names c),
          pc_execution_satisfied_tool_names := text_frozenset (pc_execution_satisfied_tool_names c),
          pc_satisfied_tool_dependency_edges := edges\<rparr>))"

section \<open>Fresh identities of at most 48 characters\<close>

text \<open>\<open>xs[:k]\<close>, where a negative \<open>k\<close> counts from the end.\<close>

definition py_take :: "int \<Rightarrow> 'a list \<Rightarrow> 'a list" where
  "py_take k xs = (if 0 \<le> k then take (nat k) xs else take (length xs - nat (- k)) xs)"

definition short_numbered_id :: "string \<Rightarrow> nat \<Rightarrow> string" where
  "short_numbered_id base n = (let suffix = ''-'' @ show_nat n in py_take (48 - int (length suffix)) base @ suffix)"

lemma short_numbered_id_inject: "short_numbered_id base m = short_numbered_id base n \<longleftrightarrow> m = n"
proof
  assume eq: "short_numbered_id base m = short_numbered_id base n"
  have digits: "takeWhile (\<lambda>c. c \<noteq> CHR ''-'') (rev (short_numbered_id base k)) = rev (show_nat k)" for k
  proof -
    have "CHR ''-'' \<notin> set ''0123456789''" by code_simp
    moreover have "list_all (\<lambda>c. c \<in> set ''0123456789'') (show_nat k)" using show_nat_digits [of k] by blast
    ultimately have "\<forall>c \<in> set (show_nat k). c \<noteq> CHR ''-''" unfolding list_all_iff by blast
    then show ?thesis by (simp add: short_numbered_id_def Let_def) (subst takeWhile_append2, auto)
  qed
  have "rev (show_nat m) = rev (show_nat n)" unfolding digits [of m, symmetric] eq by (rule digits)
  then show "m = n" by simp
qed simp

lemma finite_used_short_ids: "finite {m. n \<le> m \<and> short_numbered_id base m \<in> set used}"
proof -
  have "inj (short_numbered_id base)" by (rule injI) (simp add: short_numbered_id_inject)
  then have "finite (short_numbered_id base -` set used)" by (simp add: finite_vimageI)
  then show ?thesis by (rule rev_finite_subset) auto
qed

function next_short_id :: "string \<Rightarrow> string list \<Rightarrow> nat \<Rightarrow> string" where
  "next_short_id base used n =
     (if short_numbered_id base n \<in> set used then next_short_id base used (Suc n) else short_numbered_id base n)"
  by pat_completeness auto
termination
proof (relation "measure (\<lambda>(base, used, n). card {m. n \<le> m \<and> short_numbered_id base m \<in> set used})", goal_cases)
  case (2 base used n)
  then have "{m. Suc n \<le> m \<and> short_numbered_id base m \<in> set used} \<subset> {m. n \<le> m \<and> short_numbered_id base m \<in> set used}"
    by (auto simp: psubset_eq Suc_le_eq)
  then show ?case using finite_used_short_ids by (simp add: psubset_card_mono)
qed simp

declare next_short_id.simps [simp del]

definition unique_short_id :: "string \<Rightarrow> string list \<Rightarrow> string" where
  "unique_short_id candidate existing =
     (let normalized = take 48 candidate in
      if normalized \<notin> set existing then normalized else next_short_id normalized existing 2)"

section \<open>Capabilities\<close>

type_synonym capability_dict = "(string, tool_registration list) dict"

text \<open>\<open>{item.schema.name: item for item in registrations}\<close>: the last registration of a name counts.\<close>

definition by_name :: "tool_registration list \<Rightarrow> string \<Rightarrow> tool_registration option" where
  "by_name rs n = map_of (rev (map (\<lambda>r. (tool_name r, r)) rs)) n"

fun group_capabilities ::
    "string set \<Rightarrow> string set \<Rightarrow> tool_registration list \<Rightarrow> (string, tool_schema) dict \<Rightarrow> capability_dict \<Rightarrow> capability_dict result" where
  "group_capabilities runtime_names enabled [] schemas grouped = Inr grouped"
| "group_capabilities runtime_names enabled (r # rs) schemas grouped =
     (case tr_planning_capability r of
        None \<Rightarrow> group_capabilities runtime_names enabled rs schemas grouped
      | Some c \<Rightarrow>
          if tool_name r \<notin> enabled then group_capabilities runtime_names enabled rs schemas grouped
          else if sch_name c \<in> runtime_names then
            Inl (contract_violation (''planning capability collides with a runtime tool: '' @ sch_name c))
          else if (case map_of schemas (sch_name c) of None \<Rightarrow> False | Some p \<Rightarrow> \<not> schema_equal p c) then
            Inl (contract_violation (''runtime tools declare conflicting planning capabilities: '' @ sch_name c))
          else group_capabilities runtime_names enabled rs (AList.update (sch_name c) c schemas)
            (AList.update (sch_name c) ((case map_of grouped (sch_name c) of None \<Rightarrow> [] | Some ms \<Rightarrow> ms) @ [r]) grouped))"

definition planning_capabilities :: "tool_registration list \<Rightarrow> string set \<Rightarrow> capability_dict result" where
  "planning_capabilities rs enabled =
     group_capabilities (tool_name ` set (filter (\<lambda>r. tool_name r \<in> enabled) rs)) enabled rs [] []"

definition projected_planning_tool_names :: "tool_registration list \<Rightarrow> string set \<Rightarrow> string set result" where
  "projected_planning_tool_names rs enabled = bind_result (planning_capabilities rs enabled) (\<lambda>_.
     Inr ((\<lambda>r. case tr_planning_capability r of Some c \<Rightarrow> sch_name c | None \<Rightarrow> tool_name r)
       ` set (filter (\<lambda>r. tool_name r \<in> enabled) rs)))"

definition projected_planning_tool_schemas :: "tool_registration list \<Rightarrow> string set \<Rightarrow> (string, tool_schema) dict result" where
  "projected_planning_tool_schemas rs enabled = bind_result (planning_capabilities rs enabled) (\<lambda>caps.
     Inr (List.map_filter (\<lambda>(name, members). case members of [] \<Rightarrow> None
       | r # _ \<Rightarrow> map_option (\<lambda>c. (name, c)) (tr_planning_capability r)) caps))"

definition runtime_tool_names_for_planning_names ::
    "tool_registration list \<Rightarrow> string set \<Rightarrow> string list \<Rightarrow> string set result" where
  "runtime_tool_names_for_planning_names rs enabled planning_names =
     bind_result (planning_capabilities rs enabled) (\<lambda>caps.
     let runtime = tool_name ` set (filter (\<lambda>r. tool_name r \<in> enabled) rs);
         unknown = filter (\<lambda>n. n \<notin> runtime \<and> map_of caps n = None) planning_names in
     if unknown \<noteq> [] then
       Inl (contract_violation (''planning selection names unavailable capabilities: '' @ join_sorted unknown))
     else Inr (\<Union>n \<in> set planning_names. case map_of caps n of
         Some members \<Rightarrow> tool_name ` set members
       | None \<Rightarrow> if n \<in> runtime then {n} else {}))"

text \<open>
  \<open>_ordered_runtime_names\<close>: a depth-first visit. \<open>visited\<close> of the source always holds the names of
  \<open>ordered\<close>; \<open>visiting\<close> are the names on the way to this call. The fuel bounds the depth by the
  number of members.
\<close>

function (sequential) visit_name :: "nat \<Rightarrow> (string \<Rightarrow> tool_registration option) \<Rightarrow> string list \<Rightarrow> string \<Rightarrow> string list \<Rightarrow> string list result"
  and visit_names :: "nat \<Rightarrow> (string \<Rightarrow> tool_registration option) \<Rightarrow> string list \<Rightarrow> string list \<Rightarrow> string list \<Rightarrow> string list result" where
  "visit_name fuel by visiting name ordered =
     (if name \<in> set ordered then Inr ordered
      else if name \<in> set visiting then
        Inl (contract_violation ''planning capability contains a runtime dependency cycle'')
      else case fuel of 0 \<Rightarrow> Inl NonTermination
        | Suc f \<Rightarrow>
          (case by name of None \<Rightarrow> Inl (KeyError name)
           | Some r \<Rightarrow> bind_result
               (visit_names f by (name # visiting) (filter (\<lambda>d. by d \<noteq> None) (prerequisite_tools r)) ordered) (\<lambda>ordered.
               Inr (ordered @ [name]))))"
| "visit_names fuel by visiting [] ordered = Inr ordered"
| "visit_names fuel by visiting (n # ns) ordered =
     bind_result (visit_name fuel by visiting n ordered) (\<lambda>ordered. visit_names fuel by visiting ns ordered)"
  by pat_completeness auto
termination
  by (relation "inv_image (less_than <*lex*> less_than) (\<lambda>x. case x of Inl (f, b, v, n, xs) \<Rightarrow> (f, 0)
       | Inr (f, b, v, ns, xs) \<Rightarrow> (f, Suc (length ns)))") auto

declare visit_name.simps [simp del]

definition ordered_runtime_names :: "tool_registration list \<Rightarrow> string list result" where
  "ordered_runtime_names rs = visit_names (length rs) (by_name rs) [] (map tool_name rs) []"

definition terminal_runtime_names :: "tool_registration list \<Rightarrow> string set" where
  "terminal_runtime_names rs = set (map tool_name rs)
     - set (filter (\<lambda>d. d \<in> set (map tool_name rs)) (concat (map prerequisite_tools rs)))"


definition capability_of_runtime :: "capability_dict \<Rightarrow> string \<Rightarrow> string option" where
  "capability_of_runtime caps n =
     map_of (rev (concat (map (\<lambda>(name, members). map (\<lambda>r. (tool_name r, name)) members) caps))) n"

definition project_completed_step :: "capability_dict \<Rightarrow> task_step \<Rightarrow> task_step list result" where
  "project_completed_step caps s =
     (let runtime_name = (case st_suggested_tools s of [] \<Rightarrow> [] | t # _ \<Rightarrow> t) in
      case capability_of_runtime caps runtime_name of
        None \<Rightarrow> Inr [s]
      | Some c \<Rightarrow>
          if st_status s = Step_DONE \<and> (case map_of caps c of None \<Rightarrow> True | Some ms \<Rightarrow> runtime_name \<notin> terminal_runtime_names ms)
          then Inr []
          else bind_result (TaskStep_post_init (s\<lparr>st_suggested_tools := [c], st_protocol_private := False,
            st_planning_capability := Some c\<rparr>)) (\<lambda>t. Inr [t]))"

definition project_completed_steps_for_planning ::
    "task_step list \<Rightarrow> tool_registration list \<Rightarrow> string set \<Rightarrow> task_step list result" where
  "project_completed_steps_for_planning steps rs enabled =
     bind_result (planning_capabilities rs enabled) (\<lambda>caps.
     bind_result (map_result (project_completed_step caps) steps) (\<lambda>parts. Inr (concat parts)))"

section \<open>Compilation\<close>

record compiled_execution_plan =
  ce_execution_plan :: execution_plan
  ce_inserted_tool_names :: "string list"
  ce_lowered_tool_names :: "string list"

text \<open>The local variables of \<open>compile_work_plan\<close>.\<close>

record compile_state =
  co_completed :: "string set"
  co_existing_ids :: "string list"
  co_expanded :: "task_step list"
  co_inserted :: "string list"
  co_lowered :: "string list"
  co_sequence :: nat

definition prerequisite_step :: "tool_registration \<Rightarrow> string \<Rightarrow> string \<Rightarrow> string \<Rightarrow> task_step result" where
  "prerequisite_step r step_id dependency tool = TaskStep_post_init
     \<lparr>st_id = step_id, st_title = tp_title (tr_policy r),
      st_type = (if tp_mode (tr_policy r) = Mode_READ then Type_READ else Type_ANALYZE), st_executor = Exec_TOOL,
      st_status = Step_PENDING, st_risk_level = Some (tp_risk_level (tr_policy r)), st_suggested_tools = [dependency],
      st_depends_on = [], st_description = Some (''Host-inserted prerequisite for '' @ tool
        @ ''; derived from the registered tool context contract.''),
      st_result_summary = None, st_error = None, st_protocol_private = True, st_planning_capability = None\<rparr>"

text \<open>
  \<open>append_prerequisites\<close> and its loop over the prerequisites of one tool. A path never repeats a
  name and all its names are registered, so as many levels as there are registrations are enough.
\<close>

function (sequential) append_prerequisites ::
    "nat \<Rightarrow> (string \<Rightarrow> tool_registration option) \<Rightarrow> planning_constraints \<Rightarrow> string \<Rightarrow> string list \<Rightarrow> compile_state \<Rightarrow> compile_state result"
  and append_dependencies ::
    "nat \<Rightarrow> (string \<Rightarrow> tool_registration option) \<Rightarrow> planning_constraints \<Rightarrow> string \<Rightarrow> string list \<Rightarrow> string list \<Rightarrow> compile_state \<Rightarrow> compile_state result" where
  "append_prerequisites fuel by cs tool path st =
     (if tool \<in> set path then
        Inl (contract_violation (''tool context contract contains a prerequisite cycle: '' @ join '' -> '' (path @ [tool])))
      else case by tool of
        None \<Rightarrow> Inl (contract_violation (''tool context contract names unavailable tool '' @ py_repr tool))
      | Some r \<Rightarrow> (case fuel of 0 \<Rightarrow> Inl NonTermination
          | Suc f \<Rightarrow> append_dependencies f by cs tool path (prerequisite_tools r) st))"
| "append_dependencies fuel by cs tool path [] st = Inr st"
| "append_dependencies fuel by cs tool path (d # ds) st =
     (if d \<in> co_completed st \<or> (tool, d) \<in> pc_satisfied_tool_dependency_edges cs then
        append_dependencies fuel by cs tool path ds st
      else if d \<in> pc_planning_excluded_tool_names cs then
        Inl (contract_violation (''tool '' @ py_repr tool @ '' requires planning-excluded tool '' @ py_repr d))
      else bind_result (append_prerequisites fuel by cs d (path @ [tool]) st) (\<lambda>st.
        if d \<in> co_completed st then append_dependencies fuel by cs tool path ds st
        else case by d of
          None \<Rightarrow> Inl (KeyError d)
        | Some r \<Rightarrow>
            let seq = co_sequence st + 1;
                step_id = unique_short_id (''host-prerequisite-'' @ d @ ''-'' @ show_nat seq) (co_existing_ids st) in
            bind_result (prerequisite_step r step_id d tool) (\<lambda>s.
            append_dependencies fuel by cs tool path ds
              (st\<lparr>co_sequence := seq, co_existing_ids := step_id # co_existing_ids st, co_expanded := co_expanded st @ [s],
                 co_completed := insert d (co_completed st), co_inserted := co_inserted st @ [d]\<rparr>))))"
  by pat_completeness auto
termination
  by (relation "inv_image (less_than <*lex*> less_than) (\<lambda>x. case x of Inl (f, b, c, t, p, st) \<Rightarrow> (f, 0)
       | Inr (f, b, c, t, p, ds, st) \<Rightarrow> (f, Suc (length ds)))") auto

declare append_prerequisites.simps [simp del] append_dependencies.simps [simp del]

definition to_execution_step :: "work_step \<Rightarrow> task_step result" where
  "to_execution_step w = TaskStep_post_init
     \<lparr>st_id = ws_id w, st_title = ws_title w, st_type = ws_type w, st_executor = ws_executor w, st_status = Step_PENDING,
      st_risk_level = ws_risk_level w, st_suggested_tools = ws_capability_names w, st_depends_on = ws_depends_on w,
      st_description = ws_description w, st_result_summary = None, st_error = None, st_protocol_private = False,
      st_planning_capability = None\<rparr>"

text \<open>The loop that lowers one capability to its runtime tools.\<close>

fun lower_runtime ::
    "nat \<Rightarrow> (string \<Rightarrow> tool_registration option) \<Rightarrow> planning_constraints \<Rightarrow> work_step \<Rightarrow> task_step \<Rightarrow> string \<Rightarrow> nat \<Rightarrow> string option \<Rightarrow>
     string list \<Rightarrow> compile_state \<Rightarrow> compile_state result" where
  "lower_runtime fuel by cs w es selected index previous [] st = Inr st"
| "lower_runtime fuel by cs w es selected index previous (n # ns) st =
     bind_result (append_prerequisites fuel by cs n [] st) (\<lambda>st.
     case by n of
       None \<Rightarrow> Inl (KeyError n)
     | Some r \<Rightarrow>
       let is_terminal = (ns = []);
           step_id = (if is_terminal then ws_id w
             else unique_short_id (ws_id w @ ''-protocol-'' @ show_nat (index + 1)) (co_existing_ids st)) in
       bind_result (TaskStep_post_init (es\<lparr>st_id := step_id, st_title := (if is_terminal then ws_title w else tp_title (tr_policy r)),
         st_risk_level := Some (tp_risk_level (tr_policy r)), st_suggested_tools := [n],
         st_depends_on := (case previous of Some p \<Rightarrow> [p] | None \<Rightarrow> ws_depends_on w),
         st_description := (if is_terminal then ws_description w else Some (''Host-private execution protocol for '' @ selected)),
         st_protocol_private := (\<not> is_terminal), st_planning_capability := Some selected\<rparr>)) (\<lambda>s.
       lower_runtime fuel by cs w es selected (index + 1) (Some step_id) ns
         (st\<lparr>co_existing_ids := step_id # co_existing_ids st, co_expanded := co_expanded st @ [s],
            co_completed := insert n (co_completed st), co_lowered := co_lowered st @ [n]\<rparr>)))"

definition compile_step ::
    "tool_registration list \<Rightarrow> string set \<Rightarrow> capability_dict \<Rightarrow> planning_constraints \<Rightarrow> work_step \<Rightarrow> compile_state \<Rightarrow> compile_state result" where
  "compile_step rs enabled caps cs w st =
     bind_result (to_execution_step w) (\<lambda>es.
     if ws_executor w \<noteq> Exec_TOOL then Inr (st\<lparr>co_expanded := co_expanded st @ [es]\<rparr>)
     else case ws_capability_names w of
       [selected] \<Rightarrow>
         (case by_name rs selected of
            Some r \<Rightarrow>
              if selected \<notin> enabled then Inl (contract_violation (''plan names disabled tool '' @ py_repr selected))
              else (case tr_planning_capability r of
                Some c \<Rightarrow> Inl (contract_violation (''plan must select public planning capability '' @ py_repr (sch_name c)
                  @ '' instead of private runtime tool '' @ py_repr selected))
              | None \<Rightarrow> bind_result (append_prerequisites (length rs) (by_name rs) cs selected [] st) (\<lambda>st.
                  Inr (st\<lparr>co_completed := insert selected (co_completed st), co_expanded := co_expanded st @ [es]\<rparr>)))
          | None \<Rightarrow>
              (case map_of caps selected of
                 None \<Rightarrow> Inl (contract_violation (''plan names unavailable capability '' @ py_repr selected))
               | Some members \<Rightarrow> bind_result (ordered_runtime_names members) (\<lambda>names.
                   let sequence = filter (\<lambda>n. n \<notin> co_completed st) names in
                   if sequence = [] then
                     Inl (contract_violation (''plan redundantly selects completed capability '' @ py_repr selected))
                   else lower_runtime (length rs) (by_name rs) cs w es selected 0 None sequence st)))
     | _ \<Rightarrow> Inl (contract_violation ''host plan compilation requires exactly one tool per step''))"

fun compile_steps ::
    "tool_registration list \<Rightarrow> string set \<Rightarrow> capability_dict \<Rightarrow> planning_constraints \<Rightarrow> work_step list \<Rightarrow> compile_state \<Rightarrow> compile_state result" where
  "compile_steps rs enabled caps cs [] st = Inr st"
| "compile_steps rs enabled caps cs (w # ws) st =
     bind_result (compile_step rs enabled caps cs w st) (\<lambda>st. compile_steps rs enabled caps cs ws st)"

definition satisfied_tools :: "planning_constraints \<Rightarrow> string set \<Rightarrow> string set" where
  "satisfied_tools cs satisfied = satisfied \<union> pc_execution_satisfied_tool_names cs \<union> pc_context_satisfied_tool_names cs"

definition compile_work_plan ::
    "work_plan \<Rightarrow> tool_registration list \<Rightarrow> planning_constraints \<Rightarrow> string set \<Rightarrow> string set option \<Rightarrow> compiled_execution_plan result" where
  "compile_work_plan p rs cs satisfied enabled_names =
     (let enabled = (case enabled_names of None \<Rightarrow> tool_name ` set rs | Some e \<Rightarrow> e) in
      bind_result (planning_capabilities rs enabled) (\<lambda>caps.
      bind_result (compile_steps rs enabled caps cs (wp_steps p)
        \<lparr>co_completed = satisfied_tools cs satisfied, co_existing_ids = map ws_id (wp_steps p), co_expanded = [], co_inserted = [],
         co_lowered = [], co_sequence = 0\<rparr>) (\<lambda>st.
      bind_result (ExecutionPlan_post_init \<lparr>ep_title = wp_title p, ep_steps = co_expanded st, ep_goal = wp_goal p,
        ep_task_spec = wp_task_spec p, ep_work_step_ids = Some (map ws_id (wp_steps p))\<rparr>) (\<lambda>plan.
      Inr \<lparr>ce_execution_plan = plan, ce_inserted_tool_names = co_inserted st, ce_lowered_tool_names = co_lowered st\<rparr>))))"


end
