(* ===== verification/Plan_Compiler_Laws.thy ===== *)
theory Plan_Compiler_Laws
  imports Plan_Compiler Run_Lifecycle
begin

text \<open>
  What the compiler guarantees: the order of a capability's tools, the readiness of every step that
  is compiled, the errors it can raise, and how planning names and runtime tools correspond.
\<close>

section \<open>Registrations\<close>

abbreviation known_deps :: "(string \<Rightarrow> tool_registration option) \<Rightarrow> tool_registration \<Rightarrow> string list" where
  "known_deps by r \<equiv> filter (\<lambda>d. by d \<noteq> None) (prerequisite_tools r)"

lemma dom_by_name: "dom (by_name rs) = set (map tool_name rs)"
  by (auto simp: by_name_def [abs_def] dom_map_of_conv_image_fst image_iff)

lemma by_name_Some: "by_name rs n = Some r \<Longrightarrow> r \<in> set rs \<and> tool_name r = n"
  by (auto simp: by_name_def dest: map_of_SomeD)

lemma finite_dom_by_name: "finite (dom (by_name rs))" and card_dom_by_name: "card (dom (by_name rs)) \<le> length rs"
  unfolding dom_by_name using card_length [of "map tool_name rs"] by simp_all

text \<open>
  Fuel: a path without repetition among the names of a finite map is not longer than the map has
  entries.
\<close>

lemma path_room:
  assumes "finite (dom by)" and "distinct path" and "set path \<subseteq> dom by" and "n \<in> dom by" and "n \<notin> set path"
  shows "length path < card (dom by)"
proof -
  have "length (n # path) = card (set (n # path))" using assms by (simp add: distinct_card)
  also have "\<dots> \<le> card (dom by)" using assms by (intro card_mono) auto
  finally show ?thesis by simp
qed

section \<open>The order of a capability\<close>

text \<open>
  A list of names is in dependency order when every name comes after the known prerequisites of
  its registration.
\<close>

definition dependency_order :: "(string \<Rightarrow> tool_registration option) \<Rightarrow> string list \<Rightarrow> bool" where
  "dependency_order by xs \<longleftrightarrow> distinct xs \<and> set xs \<subseteq> dom by
     \<and> (\<forall>ys n zs r. xs = ys @ n # zs \<and> by n = Some r \<longrightarrow> set (known_deps by r) \<subseteq> set ys)"

definition dependency_edges :: "(string \<Rightarrow> tool_registration option) \<Rightarrow> (string \<times> string) set" where
  "dependency_edges by = {(d, n). \<exists>r. by n = Some r \<and> d \<in> set (known_deps by r)}"

lemma dependency_order_snoc:
  assumes "dependency_order by xs" and "n \<notin> set xs" and "by n = Some r" and "set (known_deps by r) \<subseteq> set xs"
  shows "dependency_order by (xs @ [n])"
proof -
  have "set (known_deps by q) \<subseteq> set ys" if e: "xs @ [n] = ys @ m # zs" and q: "by m = Some q" for ys m zs q
  proof (cases zs rule: rev_cases)
    case Nil
    then show ?thesis using e q assms(3,4) by simp
  next
    case (snoc zs' z)
    then have "xs = ys @ m # zs'" using e by simp
    then show ?thesis using assms(1) q unfolding dependency_order_def by blast
  qed
  then show ?thesis using assms unfolding dependency_order_def by auto
qed

text \<open>What a successful visit does: it adds names in dependency order, among them the one asked for.\<close>

definition visit_result :: "(string \<Rightarrow> tool_registration option) \<Rightarrow> string list \<Rightarrow> string list \<Rightarrow> string list \<Rightarrow> string list \<Rightarrow> bool" where
  "visit_result by visiting names ordered ordered' \<longleftrightarrow> dependency_order by ordered' \<and> set ordered \<subseteq> set ordered'
     \<and> set names \<subseteq> set ordered' \<and> set ordered' \<inter> set visiting \<subseteq> set ordered"

lemma visit_sound:
  "visit_name fuel by visiting name ordered = Inr ordered' \<Longrightarrow> dependency_order by ordered \<Longrightarrow> visit_result by visiting [name] ordered ordered'"
  "visit_names fuel by visiting names ordered = Inr ordered' \<Longrightarrow> dependency_order by ordered \<Longrightarrow> visit_result by visiting names ordered ordered'"
proof (induction fuel "by" visiting name ordered and fuel "by" visiting names ordered arbitrary: ordered' and ordered'
    rule: visit_name_visit_names.induct)
  case (1 fuel "by" visiting name ordered)
  show ?case
  proof (cases "name \<in> set ordered")
    case True
    then show ?thesis using "1.prems" by (simp add: visit_name.simps visit_result_def)
  next
    case False
    then obtain f r o' where f: "name \<notin> set visiting" "fuel = Suc f" "by name = Some r"
      and v: "visit_names f by (name # visiting) (known_deps by r) ordered = Inr o'" and o: "ordered' = o' @ [name]"
      using "1.prems"(1) by (auto simp: visit_name.simps bind_result_Inr_iff split: if_splits nat.splits option.splits)
    have R: "visit_result by (name # visiting) (known_deps by r) ordered o'"
      using "1.IH" [OF False f(1,2,3) v "1.prems"(2)] .
    then have "name \<notin> set o'" using False by (auto simp: visit_result_def)
    then have "dependency_order by (o' @ [name])" using R f(3) by (intro dependency_order_snoc) (auto simp: visit_result_def)
    then show ?thesis using R f(1) by (auto simp: visit_result_def o)
  qed
next
  case (2 fuel "by" visiting ordered)
  then show ?case by (simp add: visit_result_def)
next
  case (3 fuel "by" visiting n ns ordered)
  obtain o1 where o1: "visit_name fuel by visiting n ordered = Inr o1" "visit_names fuel by visiting ns o1 = Inr ordered'"
    using "3.prems"(1) by (auto simp: bind_result_Inr_iff)
  have A: "visit_result by visiting [n] ordered o1" by (rule "3.IH"(1) [OF o1(1) "3.prems"(2)])
  then have "visit_result by visiting ns o1 ordered'" using "3.IH"(2) [OF o1(1) o1(2)] by (simp add: visit_result_def)
  then show ?case using A by (auto simp: visit_result_def)
qed

text \<open>The only error of a visit is a cycle, and then there is one.\<close>

definition cycle_error :: py_error where
  "cycle_error = contract_violation ''planning capability contains a runtime dependency cycle''"

lemma successively_path: "successively (\<lambda>x y. (x, y) \<in> E) (x # xs) \<Longrightarrow> y \<in> set xs \<Longrightarrow> (x, y) \<in> E\<^sup>+"
proof (induction xs arbitrary: x)
  case (Cons z zs)
  then have xz: "(x, z) \<in> E" by simp
  show ?case
  proof (cases "y = z")
    case True
    then show ?thesis using xz by auto
  next
    case False
    then have "(z, y) \<in> E\<^sup>+" using Cons by simp
    then show ?thesis using xz by (rule trancl_into_trancl2 [rotated])
  qed
qed simp

lemma visit_errors:
  assumes "finite (dom by)"
  shows "visit_name fuel by visiting name ordered = Inl e \<Longrightarrow> name \<in> dom by \<Longrightarrow> distinct visiting \<Longrightarrow> set visiting \<subseteq> dom by \<Longrightarrow>
      card (dom by) \<le> fuel + length visiting \<Longrightarrow> successively (\<lambda>x y. (x, y) \<in> dependency_edges by) (name # visiting) \<Longrightarrow>
      e = cycle_error \<and> \<not> acyclic (dependency_edges by)"
    and "visit_names fuel by visiting names ordered = Inl e \<Longrightarrow> set names \<subseteq> dom by \<Longrightarrow> distinct visiting \<Longrightarrow> set visiting \<subseteq> dom by \<Longrightarrow>
      card (dom by) \<le> fuel + length visiting \<Longrightarrow>
      \<forall>n \<in> set names. successively (\<lambda>x y. (x, y) \<in> dependency_edges by) (n # visiting) \<Longrightarrow>
      e = cycle_error \<and> \<not> acyclic (dependency_edges by)"
  using assms
proof (induction fuel "by" visiting name ordered and fuel "by" visiting names ordered rule: visit_name_visit_names.induct)
  case (1 fuel "by" visiting name ordered)
  show ?case
  proof (cases "name \<in> set visiting")
    case True
    then have "(name, name) \<in> (dependency_edges by)\<^sup>+" using "1.prems"(6) by (rule successively_path [rotated])
    then show ?thesis using True "1.prems"(1) by (auto simp: visit_name.simps cycle_error_def acyclic_def split: if_splits)
  next
    case False
    then have nin: "name \<notin> set ordered" using "1.prems"(1) by (auto simp: visit_name.simps)
    have "length visiting < card (dom by)" using path_room [OF "1.prems"(7,3,4,2) False] .
    then obtain f where f: "fuel = Suc f" using "1.prems"(5) by (cases fuel) auto
    obtain r where r: "by name = Some r" using "1.prems"(2) by auto
    have v: "visit_names f by (name # visiting) (known_deps by r) ordered = Inl e"
      using "1.prems"(1) nin False f r by (auto simp: visit_name.simps bind_result_Inl_iff)
    show ?thesis
    proof (rule "1.IH" [OF nin False f r v _ _ _ _ _ "1.prems"(7)])
      show "set (known_deps by r) \<subseteq> dom by" by auto
      show "distinct (name # visiting)" using False "1.prems"(3) by simp
      show "set (name # visiting) \<subseteq> dom by" using "1.prems"(2,4) by simp
      show "card (dom by) \<le> f + length (name # visiting)" using "1.prems"(5) f by simp
      show "\<forall>n \<in> set (known_deps by r). successively (\<lambda>x y. (x, y) \<in> dependency_edges by) (n # name # visiting)"
        using "1.prems"(6) r by (auto simp: dependency_edges_def)
    qed
  qed
next
  case (2 fuel "by" visiting ordered)
  then show ?case by simp
next
  case (3 fuel "by" visiting n ns ordered)
  show ?case
  proof (cases "visit_name fuel by visiting n ordered")
    case (Inl e')
    then have "e' = e" using "3.prems"(1) by simp
    then show ?thesis using "3.IH"(1) Inl "3.prems" by simp
  next
    case (Inr o1)
    then show ?thesis using "3.IH"(2) [OF Inr] "3.prems" by simp
  qed
qed

lemma length_takeWhile_split: "n \<notin> set us \<Longrightarrow> length (takeWhile (\<lambda>x. x \<noteq> n) (us @ n # vs)) = length us"
  by (induction us) auto

lemma dependency_order_acyclic:
  assumes o: "dependency_order by xs" and all: "dom by \<subseteq> set xs"
  shows "acyclic (dependency_edges by)"
proof -
  have d: "distinct xs" using o by (simp add: dependency_order_def)
  define pos where "pos n = length (takeWhile (\<lambda>x. x \<noteq> n) xs)" for n
  have less: "pos a < pos b" if ab: "(a, b) \<in> dependency_edges by" for a b
  proof -
    obtain r where r: "by b = Some r" "a \<in> set (known_deps by r)" using ab by (auto simp: dependency_edges_def)
    then have "b \<in> set xs" using all by auto
    then obtain ys zs where e: "xs = ys @ b # zs" by (auto dest: split_list)
    then have "a \<in> set ys" using o r unfolding dependency_order_def by blast
    then obtain us vs where y: "ys = us @ a # vs" by (auto dest: split_list)
    have "pos b = length ys" unfolding pos_def e by (rule length_takeWhile_split) (use d e in auto)
    moreover have "pos a = length us"
      unfolding pos_def e y using length_takeWhile_split [of a us "vs @ b # zs"] d e y by simp
    ultimately have "pos b = length ys" "pos a = length us" .
    then show ?thesis by (simp add: y)
  qed
  have "pos a < pos b" if "(a, b) \<in> (dependency_edges by)\<^sup>+" for a b
    using that by induction (auto dest: less intro: less_trans)
  then show ?thesis unfolding acyclic_def by (meson less_irrefl)
qed

lemma ordered_runtime_names_cases:
  obtains (order) xs where "ordered_runtime_names rs = Inr xs" "dependency_order (by_name rs) xs" "set xs = set (map tool_name rs)"
      "acyclic (dependency_edges (by_name rs))"
  | (cycle) "ordered_runtime_names rs = Inl cycle_error" "\<not> acyclic (dependency_edges (by_name rs))"
proof (cases "ordered_runtime_names rs")
  case (Inr xs)
  have "dependency_order (by_name rs) []" by (simp add: dependency_order_def)
  then have v: "visit_result (by_name rs) [] (map tool_name rs) [] xs"
    using visit_sound(2) Inr unfolding ordered_runtime_names_def by blast
  then have s: "set xs = set (map tool_name rs)"
    using dom_by_name [of rs] by (auto simp: visit_result_def dependency_order_def)
  show thesis using order [OF Inr _ s] dependency_order_acyclic [of "by_name rs" xs] v s dom_by_name [of rs]
    by (simp add: visit_result_def)
next
  case (Inl e)
  have "e = cycle_error \<and> \<not> acyclic (dependency_edges (by_name rs))"
    by (rule visit_errors(2) [OF finite_dom_by_name Inl [unfolded ordered_runtime_names_def]])
       (use card_dom_by_name [of rs] dom_by_name [of rs] in simp_all)
  then show thesis using cycle Inl by simp
qed

section \<open>Inserted prerequisites\<close>

text \<open>The tools that the tool steps of a list run.\<close>

definition run_tools :: "task_step list \<Rightarrow> string set" where
  "run_tools xs = {t. \<exists>s \<in> set xs. st_executor s = Exec_TOOL \<and> st_suggested_tools s = [t]}"

lemma run_tools_append [simp]: "run_tools (xs @ ys) = run_tools xs \<union> run_tools ys"
  by (auto simp: run_tools_def)

lemma run_tools_Nil [simp]: "run_tools [] = {}"
  by (simp add: run_tools_def)

text \<open>
  A step can run after the steps before it: it runs one registered tool, and each prerequisite of
  the tool was satisfied before, need not hold for this tool, or is run by an earlier step.
\<close>

definition step_ready ::
    "(string \<Rightarrow> tool_registration option) \<Rightarrow> planning_constraints \<Rightarrow> string set \<Rightarrow> task_step list \<Rightarrow> task_step \<Rightarrow> bool" where
  "step_ready by cs sat before s \<longleftrightarrow> (st_executor s = Exec_TOOL \<longrightarrow>
     (\<exists>t r. st_suggested_tools s = [t] \<and> by t = Some r
        \<and> (\<forall>d \<in> set (prerequisite_tools r). d \<in> sat \<or> (t, d) \<in> pc_satisfied_tool_dependency_edges cs \<or> d \<in> run_tools before)))"

definition steps_ready ::
    "(string \<Rightarrow> tool_registration option) \<Rightarrow> planning_constraints \<Rightarrow> string set \<Rightarrow> task_step list \<Rightarrow> bool" where
  "steps_ready by cs sat xs \<longleftrightarrow> (\<forall>ys s zs. xs = ys @ s # zs \<longrightarrow> step_ready by cs sat ys s)"

lemma steps_ready_snoc: "steps_ready by cs sat (xs @ [s]) \<longleftrightarrow> steps_ready by cs sat xs \<and> step_ready by cs sat xs s"
proof
  assume r: "steps_ready by cs sat (xs @ [s])"
  have "step_ready by cs sat ys t" if "xs = ys @ t # zs" for ys t zs
    using r that unfolding steps_ready_def by (metis append_Cons append_assoc)
  then show "steps_ready by cs sat xs \<and> step_ready by cs sat xs s" using r by (auto simp: steps_ready_def)
next
  assume r: "steps_ready by cs sat xs \<and> step_ready by cs sat xs s"
  have "step_ready by cs sat ys t" if e: "xs @ [s] = ys @ t # zs" for ys t zs
  proof (cases zs rule: rev_cases)
    case Nil
    then show ?thesis using e r by simp
  next
    case (snoc zs' z)
    then have "xs = ys @ t # zs'" using e by simp
    then show ?thesis using r unfolding steps_ready_def by blast
  qed
  then show "steps_ready by cs sat (xs @ [s])" by (simp add: steps_ready_def)
qed

lemma steps_ready_nth: "steps_ready by cs sat xs \<Longrightarrow> i < length xs \<Longrightarrow> step_ready by cs sat (take i xs) (xs ! i)"
  unfolding steps_ready_def by (metis id_take_nth_drop)

text \<open>What holds throughout the compilation.\<close>

definition compile_ok ::
    "(string \<Rightarrow> tool_registration option) \<Rightarrow> planning_constraints \<Rightarrow> string set \<Rightarrow> compile_state \<Rightarrow> bool" where
  "compile_ok by cs sat st \<longleftrightarrow> sat \<subseteq> co_completed st \<and> co_completed st \<subseteq> sat \<union> run_tools (co_expanded st)
     \<and> steps_ready by cs sat (co_expanded st) \<and> list_all step_ok (co_expanded st)
     \<and> distinct (co_inserted st) \<and> set (co_inserted st) \<subseteq> co_completed st
     \<and> set (co_inserted st) \<inter> (sat \<union> pc_planning_excluded_tool_names cs) = {}"

text \<open>What inserting prerequisites adds: private tool steps, and everything already there stays.\<close>

definition extends :: "compile_state \<Rightarrow> compile_state \<Rightarrow> bool" where
  "extends st st' \<longleftrightarrow> co_completed st \<subseteq> co_completed st' \<and> co_lowered st' = co_lowered st
     \<and> (\<exists>new. co_expanded st' = co_expanded st @ new \<and> list_all (\<lambda>s. st_protocol_private s \<and> st_executor s = Exec_TOOL
          \<and> st_type s \<in> {Type_READ, Type_ANALYZE} \<and> length (st_suggested_tools s) = 1) new)"

lemma extends_refl: "extends st st"
  by (simp add: extends_def)

lemma extends_trans: "extends a b \<Longrightarrow> extends b c \<Longrightarrow> extends a c"
  by (auto simp: extends_def)

definition regs_clean :: "(string \<Rightarrow> tool_registration option) \<Rightarrow> bool" where
  "regs_clean by \<longleftrightarrow> (\<forall>n \<in> dom by. clean_id n)"

lemma prerequisite_step_Inr:
  assumes "prerequisite_step r i d tool = Inr s" and "clean_id d"
  shows "step_ok s \<and> st_executor s = Exec_TOOL \<and> st_suggested_tools s = [d] \<and> st_protocol_private s
     \<and> st_type s \<in> {Type_READ, Type_ANALYZE} \<and> st_depends_on s = []"
proof -
  have "step_ok s" using assms(1) unfolding prerequisite_step_def by (rule TaskStep_post_init_ok)
  moreover have "unique_text_tuple [d] = [d]" "unique_text_tuple [] = []" using assms(2) by (simp_all add: clean_ids_def)
  ultimately show ?thesis using assms(1)
    by (auto simp: prerequisite_step_def TaskStep_post_init_def Let_def bind_result_Inr_iff split: if_splits)
qed

text \<open>After its prerequisites have been inserted a tool can be run.\<close>

lemma tool_ready:
  assumes "compile_ok by cs sat st" and "by t = Some r"
    and "\<forall>d \<in> set (prerequisite_tools r). d \<in> co_completed st \<or> (t, d) \<in> pc_satisfied_tool_dependency_edges cs"
    and "st_suggested_tools s = [t]"
  shows "step_ready by cs sat (co_expanded st) s"
  using assms unfolding step_ready_def compile_ok_def by blast

lemma add_prerequisite_ok:
  assumes ok: "compile_ok by cs sat st" and r: "by d = Some r" and clean: "regs_clean by"
    and ready: "\<forall>e \<in> set (prerequisite_tools r). e \<in> co_completed st \<or> (d, e) \<in> pc_satisfied_tool_dependency_edges cs"
    and d: "d \<notin> co_completed st" "d \<notin> pc_planning_excluded_tool_names cs" and s: "prerequisite_step r i d tool = Inr s"
  shows "compile_ok by cs sat (st\<lparr>co_sequence := n, co_existing_ids := ids, co_expanded := co_expanded st @ [s],
      co_completed := insert d (co_completed st), co_inserted := co_inserted st @ [d]\<rparr>)"
    and "extends st (st\<lparr>co_sequence := n, co_existing_ids := ids, co_expanded := co_expanded st @ [s],
      co_completed := insert d (co_completed st), co_inserted := co_inserted st @ [d]\<rparr>)"
proof -
  have c: "clean_id d" using clean r by (auto simp: regs_clean_def)
  note S = prerequisite_step_Inr [OF s c]
  have rt: "run_tools [s] = {d}" using S by (auto simp: run_tools_def)
  have sr: "step_ready by cs sat (co_expanded st) s" using tool_ready [OF ok r ready] S by blast
  show "compile_ok by cs sat (st\<lparr>co_sequence := n, co_existing_ids := ids, co_expanded := co_expanded st @ [s],
      co_completed := insert d (co_completed st), co_inserted := co_inserted st @ [d]\<rparr>)"
    using ok S sr d rt by (auto simp: compile_ok_def steps_ready_snoc)
  show "extends st (st\<lparr>co_sequence := n, co_existing_ids := ids, co_expanded := co_expanded st @ [s],
      co_completed := insert d (co_completed st), co_inserted := co_inserted st @ [d]\<rparr>)"
    using S by (auto simp: extends_def)
qed

lemma prerequisites_sound:
  "append_prerequisites fuel by cs tool path st = Inr st' \<Longrightarrow> compile_ok by cs sat st \<Longrightarrow> regs_clean by \<Longrightarrow>
     compile_ok by cs sat st' \<and> extends st st'
     \<and> (\<exists>r. by tool = Some r \<and> (\<forall>d \<in> set (prerequisite_tools r). d \<in> co_completed st' \<or> (tool, d) \<in> pc_satisfied_tool_dependency_edges cs))"
  "append_dependencies fuel by cs tool path ds st = Inr st' \<Longrightarrow> compile_ok by cs sat st \<Longrightarrow> regs_clean by \<Longrightarrow>
     compile_ok by cs sat st' \<and> extends st st'
     \<and> (\<forall>d \<in> set ds. d \<in> co_completed st' \<or> (tool, d) \<in> pc_satisfied_tool_dependency_edges cs)"
proof (induction fuel "by" cs tool path st and fuel "by" cs tool path ds st arbitrary: st' and st'
    rule: append_prerequisites_append_dependencies.induct)
  case (1 fuel "by" cs tool path st)
  obtain r f where r: "tool \<notin> set path" "by tool = Some r" "fuel = Suc f"
    and a: "append_dependencies f by cs tool path (prerequisite_tools r) st = Inr st'"
    using "1.prems"(1) by (auto simp: append_prerequisites.simps split: if_splits option.splits nat.splits)
  show ?case using "1.IH" [OF r a "1.prems"(2,3)] r(2) by simp
next
  case (2 fuel "by" cs tool path st)
  then show ?case by (simp add: append_dependencies.simps extends_refl)
next
  case (3 fuel "by" cs tool path d ds st)
  show ?case
  proof (cases "d \<in> co_completed st \<or> (tool, d) \<in> pc_satisfied_tool_dependency_edges cs")
    case True
    then have "append_dependencies fuel by cs tool path ds st = Inr st'" using "3.prems"(1) by (simp add: append_dependencies.simps)
    then have IH: "compile_ok by cs sat st' \<and> extends st st' \<and> (\<forall>d \<in> set ds. d \<in> co_completed st' \<or> (tool, d) \<in> pc_satisfied_tool_dependency_edges cs)"
      using "3.IH"(1) [OF True _ "3.prems"(2,3)] by blast
    then show ?thesis using True by (auto simp: extends_def)
  next
    case False
    then have ex: "d \<notin> pc_planning_excluded_tool_names cs" using "3.prems"(1) by (auto simp: append_dependencies.simps)
    obtain s1 where s1: "append_prerequisites fuel by cs d (path @ [tool]) st = Inr s1"
      using "3.prems"(1) False ex by (auto simp: append_dependencies.simps bind_result_Inr_iff)
    have A: "compile_ok by cs sat s1" "extends st s1"
      and R: "\<exists>r. by d = Some r \<and> (\<forall>e \<in> set (prerequisite_tools r). e \<in> co_completed s1 \<or> (d, e) \<in> pc_satisfied_tool_dependency_edges cs)"
      using "3.IH"(2) [OF False ex s1 "3.prems"(2,3)] by simp_all
    show ?thesis
    proof (cases "d \<in> co_completed s1")
      case True
      then have t: "append_dependencies fuel by cs tool path ds s1 = Inr st'"
        using "3.prems"(1) False ex s1 by (simp add: append_dependencies.simps)
      note IH = "3.IH"(3) [OF False ex s1 True t A(1) "3.prems"(3)]
      have "extends st st'" by (rule extends_trans [OF A(2)]) (use IH in blast)
      moreover have "d \<in> co_completed st'" using IH True unfolding extends_def by blast
      ultimately show ?thesis using IH by simp
    next
      case nc: False
      obtain r where r: "by d = Some r" "\<forall>e \<in> set (prerequisite_tools r). e \<in> co_completed s1 \<or> (d, e) \<in> pc_satisfied_tool_dependency_edges cs"
        using R by blast
      let ?n = "co_sequence s1 + 1"
      let ?i = "unique_short_id (''host-prerequisite-'' @ d @ ''-'' @ show_nat ?n) (co_existing_ids s1)"
      obtain s where s: "prerequisite_step r ?i d tool = Inr s"
        and t: "append_dependencies fuel by cs tool path ds (s1\<lparr>co_sequence := ?n, co_existing_ids := ?i # co_existing_ids s1,
          co_expanded := co_expanded s1 @ [s], co_completed := insert d (co_completed s1), co_inserted := co_inserted s1 @ [d]\<rparr>) = Inr st'"
        using "3.prems"(1) False ex s1 nc r(1) by (auto simp: append_dependencies.simps bind_result_Inr_iff Let_def)
      note B = add_prerequisite_ok [OF A(1) r(1) "3.prems"(3) r(2) nc ex s]
      have IH: "compile_ok by cs sat st' \<and> extends (s1\<lparr>co_sequence := ?n, co_existing_ids := ?i # co_existing_ids s1,
          co_expanded := co_expanded s1 @ [s], co_completed := insert d (co_completed s1), co_inserted := co_inserted s1 @ [d]\<rparr>) st'
        \<and> (\<forall>d \<in> set ds. d \<in> co_completed st' \<or> (tool, d) \<in> pc_satisfied_tool_dependency_edges cs)"
        by (rule "3.IH"(4) [OF False ex s1 nc r(1) refl refl s t B(1) "3.prems"(3)])
      have "extends st st'" using extends_trans [OF A(2) extends_trans [OF B(2)]] IH by blast
      moreover have "d \<in> co_completed st'" using IH by (auto simp: extends_def)
      ultimately show ?thesis using IH by auto
    qed
  qed
qed

section \<open>Errors\<close>

text \<open>
  The fuel suffices and no look-up fails: the compiler raises contract violations and the value
  errors of the constructors only.
\<close>

definition plan_error :: "py_error \<Rightarrow> bool" where
  "plan_error e \<longleftrightarrow> (\<exists>m. e = contract_violation m) \<or> (\<exists>m. e = ValueError m)"

lemma plan_errorI: "plan_error (contract_violation m)" "plan_error (ValueError m)"
  by (auto simp: plan_error_def)

lemma TaskStep_post_init_error: "TaskStep_post_init s = Inl e \<Longrightarrow> plan_error e"
  by (auto simp: TaskStep_post_init_def Let_def bind_result_Inl_iff required_text_def plan_error_def split: if_splits)

lemma prerequisites_errors:
  assumes "finite (dom by)"
  shows "append_prerequisites fuel by cs tool path st = Inl e \<Longrightarrow> distinct path \<Longrightarrow> set path \<subseteq> dom by \<Longrightarrow>
      card (dom by) \<le> fuel + length path \<Longrightarrow> plan_error e"
    and "append_dependencies fuel by cs tool path ds st = Inl e \<Longrightarrow> tool \<in> dom by \<Longrightarrow> tool \<notin> set path \<Longrightarrow> distinct path \<Longrightarrow> set path \<subseteq> dom by \<Longrightarrow>
      card (dom by) \<le> fuel + length path + 1 \<Longrightarrow> plan_error e"
  using assms
proof (induction fuel "by" cs tool path st and fuel "by" cs tool path ds st rule: append_prerequisites_append_dependencies.induct)
  case (1 fuel "by" cs tool path st)
  show ?case
  proof (cases "tool \<in> set path \<or> by tool = None")
    case True
    then show ?thesis using "1.prems"(1) by (auto simp: append_prerequisites.simps plan_errorI split: if_splits)
  next
    case False
    then obtain r where r: "tool \<notin> set path" "by tool = Some r" by auto
    have "length path < card (dom by)" using path_room [OF "1.prems"(5,2,3) _ r(1)] r(2) by auto
    then obtain f where f: "fuel = Suc f" using "1.prems"(4) by (cases fuel) auto
    have a: "append_dependencies f by cs tool path (prerequisite_tools r) st = Inl e"
      using "1.prems"(1) r f by (simp add: append_prerequisites.simps)
    show ?thesis by (rule "1.IH" [OF r f a]) (use "1.prems" r f in auto)
  qed
next
  case (2 fuel "by" cs tool path st)
  then show ?case by (simp add: append_dependencies.simps)
next
  case (3 fuel "by" cs tool path d ds st)
  show ?case
  proof (cases "d \<in> co_completed st \<or> (tool, d) \<in> pc_satisfied_tool_dependency_edges cs")
    case True
    then have "append_dependencies fuel by cs tool path ds st = Inl e" using "3.prems"(1) by (simp add: append_dependencies.simps)
    then show ?thesis using "3.IH"(1) [OF True] "3.prems" by blast
  next
    case False
    show ?thesis
    proof (cases "d \<in> pc_planning_excluded_tool_names cs")
      case True
      then show ?thesis using "3.prems"(1) False by (auto simp: append_dependencies.simps plan_errorI)
    next
      case ex: False
      show ?thesis
      proof (cases "append_prerequisites fuel by cs d (path @ [tool]) st")
        case (Inl e')
        then have "e' = e" using "3.prems"(1) False ex by (simp add: append_dependencies.simps)
        then have "append_prerequisites fuel by cs d (path @ [tool]) st = Inl e" using Inl by simp
        then show ?thesis by (rule "3.IH"(2) [OF False ex]) (use "3.prems" in auto)
      next
        case (Inr s1)
        have known: "\<exists>r. by d = Some r" using Inr by (auto simp: append_prerequisites.simps split: if_splits option.splits)
        show ?thesis
        proof (cases "d \<in> co_completed s1")
          case True
          then have "append_dependencies fuel by cs tool path ds s1 = Inl e"
            using "3.prems"(1) False ex Inr by (simp add: append_dependencies.simps)
          then show ?thesis using "3.IH"(3) [OF False ex Inr True] "3.prems" by blast
        next
          case nc: False
          obtain r where r: "by d = Some r" using known by blast
          let ?n = "co_sequence s1 + 1"
          let ?i = "unique_short_id (''host-prerequisite-'' @ d @ ''-'' @ show_nat ?n) (co_existing_ids s1)"
          show ?thesis
          proof (cases "prerequisite_step r ?i d tool")
            case (Inl e')
            then have "e' = e" using "3.prems"(1) False ex Inr nc r by (simp add: append_dependencies.simps Let_def)
            moreover have "plan_error e'" using Inl unfolding prerequisite_step_def by (rule TaskStep_post_init_error)
            ultimately show ?thesis by simp
          next
            case s: (Inr s)
            then have "append_dependencies fuel by cs tool path ds (s1\<lparr>co_sequence := ?n, co_existing_ids := ?i # co_existing_ids s1,
          co_expanded := co_expanded s1 @ [s], co_completed := insert d (co_completed s1), co_inserted := co_inserted s1 @ [d]\<rparr>) = Inl e"
              using "3.prems"(1) False ex Inr nc r by (simp add: append_dependencies.simps Let_def)
            then show ?thesis using "3.IH"(4) [OF False ex Inr nc r refl refl s] "3.prems" by blast
          qed
        qed
      qed
    qed
  qed
qed

section \<open>Lowering and compiling\<close>

definition work_contract :: "work_step \<Rightarrow> bool" where
  "work_contract w \<longleftrightarrow> ws_type w \<noteq> Type_CONFIRM \<and> (ws_type w = Type_READ \<longrightarrow> ws_executor w = Exec_TOOL)
     \<and> (ws_executor w = Exec_MODEL \<longrightarrow> ws_capability_names w = [])"

text \<open>The steps that one work step is compiled to: exactly one of them is public and carries its identity.\<close>

definition compiled_to :: "work_step \<Rightarrow> task_step list \<Rightarrow> bool" where
  "compiled_to w new \<longleftrightarrow> map st_id (filter (\<lambda>s. \<not> st_protocol_private s) new) = [ws_id w]
     \<and> (work_contract w \<longrightarrow> (\<forall>s \<in> set new. validate_step_execution_contract s = Inr ()))"

definition work_ok :: "work_step \<Rightarrow> bool" where
  "work_ok w \<longleftrightarrow> constructed WorkStep_post_init w"

lemma work_okD:
  assumes "work_ok w"
  shows "clean_id (ws_id w)" and "clean_id (ws_title w)" and "clean_ids (ws_capability_names w)" and "clean_ids (ws_depends_on w)"
proof -
  have w: "WorkStep_post_init w = Inr w" using assms by (simp add: work_ok_def constructed_def)
  then have f: "strip (ws_id w) \<noteq> []" "strip (ws_title w) \<noteq> []" and eq: "w\<lparr>ws_id := strip (ws_id w), ws_title := strip (ws_title w),
      ws_capability_names := unique_text_tuple (ws_capability_names w), ws_depends_on := unique_text_tuple (ws_depends_on w),
      ws_description := optional_text (ws_description w)\<rparr> = w"
    by (auto simp: WorkStep_post_init_def bind_result_Inr_iff required_text_Inr)
  show "clean_id (ws_id w)" using f(1) arg_cong [OF eq, of ws_id] by (simp add: clean_id_def)
  show "clean_id (ws_title w)" using f(2) arg_cong [OF eq, of ws_title] by (simp add: clean_id_def)
  show "clean_ids (ws_capability_names w)"
    using arg_cong [OF eq, of ws_capability_names] unique_text_tuple_result_clean [of "ws_capability_names w"] by simp
  show "clean_ids (ws_depends_on w)"
    using arg_cong [OF eq, of ws_depends_on] unique_text_tuple_result_clean [of "ws_depends_on w"] by simp
qed

lemma to_execution_step_Inr:
  assumes "to_execution_step w = Inr es" and "work_ok w"
  shows "step_ok es" and "st_id es = ws_id w" and "st_executor es = ws_executor w" and "st_type es = ws_type w"
    and "st_suggested_tools es = ws_capability_names w" and "\<not> st_protocol_private es"
proof -
  show "step_ok es" using assms(1) unfolding to_execution_step_def by (rule TaskStep_post_init_ok)
  show "st_id es = ws_id w" "st_executor es = ws_executor w" "st_type es = ws_type w"
    "st_suggested_tools es = ws_capability_names w" "\<not> st_protocol_private es"
    using assms(1) work_okD [OF assms(2)]
    by (auto simp: to_execution_step_def TaskStep_post_init_def Let_def bind_result_Inr_iff required_text_Inr clean_id_def split: if_splits)
qed

lemma inserted_contract:
  "st_executor s = Exec_TOOL \<Longrightarrow> st_type s \<in> {Type_READ, Type_ANALYZE} \<Longrightarrow> length (st_suggested_tools s) = 1 \<Longrightarrow>
     validate_step_execution_contract s = Inr ()"
  by (auto simp: validate_step_execution_contract_def)

lemma extends_private:
  assumes "extends st st'"
  obtains new where "co_expanded st' = co_expanded st @ new" "filter (\<lambda>s. \<not> st_protocol_private s) new = []"
    "\<forall>s \<in> set new. validate_step_execution_contract s = Inr ()"
proof -
  obtain new where new: "co_expanded st' = co_expanded st @ new" "list_all (\<lambda>s. st_protocol_private s \<and> st_executor s = Exec_TOOL
      \<and> st_type s \<in> {Type_READ, Type_ANALYZE} \<and> length (st_suggested_tools s) = 1) new"
    using assms unfolding extends_def by blast
  show thesis by (rule that [OF new(1)]) (use new(2) in \<open>auto simp: list_all_iff filter_empty_conv intro: inserted_contract\<close>)
qed

lemma add_tool_ok:
  assumes ok: "compile_ok by cs sat st" and r: "by t = Some r"
    and ready: "\<forall>d \<in> set (prerequisite_tools r). d \<in> co_completed st \<or> (t, d) \<in> pc_satisfied_tool_dependency_edges cs"
    and s: "step_ok s" "st_executor s = Exec_TOOL" "st_suggested_tools s = [t]"
  shows "compile_ok by cs sat (st\<lparr>co_existing_ids := ids, co_expanded := co_expanded st @ [s], co_completed := insert t (co_completed st), co_lowered := low\<rparr>)"
proof -
  have rt: "run_tools [s] = {t}" using s by (auto simp: run_tools_def)
  show ?thesis using ok s(1) rt tool_ready [OF ok r ready s(3)] by (auto simp: compile_ok_def steps_ready_snoc)
qed

lemma lowered_step:
  assumes es: "st_executor es = Exec_TOOL" and n: "clean_id n"
    and s: "TaskStep_post_init (es\<lparr>st_id := i, st_title := ti, st_risk_level := ri, st_suggested_tools := [n], st_depends_on := de,
         st_description := ds, st_protocol_private := p, st_planning_capability := pl\<rparr>) = Inr s"
  shows "step_ok s \<and> st_executor s = Exec_TOOL \<and> st_suggested_tools s = [n] \<and> st_type s = st_type es \<and> st_protocol_private s = p
    \<and> st_id s = strip i"
proof -
  have "unique_text_tuple [n] = [n]" using n by (simp add: clean_ids_def)
  then show ?thesis using s es TaskStep_post_init_ok [OF s]
    by (auto simp: TaskStep_post_init_def Let_def bind_result_Inr_iff required_text_Inr split: if_splits)
qed

lemma lower_runtime_sound:
  assumes "lower_runtime fuel by cs w es selected index prev ns st = Inr st'" and "compile_ok by cs sat st" and "regs_clean by"
    and "ns \<noteq> []" and "st_executor es = Exec_TOOL" and "st_type es = ws_type w" and "clean_id (ws_id w)"
  shows "compile_ok by cs sat st' \<and> (\<exists>new. co_expanded st' = co_expanded st @ new \<and> compiled_to w new)"
  using assms(1,2,4)
proof (induction ns arbitrary: index prev st)
  case (Cons n ns)
  obtain s1 where s1: "append_prerequisites fuel by cs n [] st = Inr s1" using Cons.prems(1) by (auto simp: bind_result_Inr_iff)
  obtain r where ok1: "compile_ok by cs sat s1" and x1: "extends st s1" and r: "by n = Some r"
    and ready: "\<forall>d \<in> set (prerequisite_tools r). d \<in> co_completed s1 \<or> (n, d) \<in> pc_satisfied_tool_dependency_edges cs"
    using prerequisites_sound(1) [OF s1 Cons.prems(2) assms(3)] by blast
  let ?id = "if ns = [] then ws_id w else unique_short_id (ws_id w @ ''-protocol-'' @ show_nat (index + 1)) (co_existing_ids s1)"
  obtain s where s: "TaskStep_post_init (es\<lparr>st_id := ?id, st_title := (if ns = [] then ws_title w else tp_title (tr_policy r)),
         st_risk_level := Some (tp_risk_level (tr_policy r)), st_suggested_tools := [n],
         st_depends_on := (case prev of Some p \<Rightarrow> [p] | None \<Rightarrow> ws_depends_on w),
         st_description := (if ns = [] then ws_description w else Some (''Host-private execution protocol for '' @ selected)),
         st_protocol_private := (ns \<noteq> []), st_planning_capability := Some selected\<rparr>) = Inr s"
    and rest: "lower_runtime fuel by cs w es selected (index + 1) (Some ?id) ns
         (s1\<lparr>co_existing_ids := ?id # co_existing_ids s1, co_expanded := co_expanded s1 @ [s],
            co_completed := insert n (co_completed s1), co_lowered := co_lowered s1 @ [n]\<rparr>) = Inr st'"
    using Cons.prems(1) s1 r by (auto simp: bind_result_Inr_iff Let_def)
  have n: "clean_id n" using r assms(3) by (auto simp: regs_clean_def)
  note S = lowered_step [OF assms(5) n s]
  have ok2: "compile_ok by cs sat (s1\<lparr>co_existing_ids := ?id # co_existing_ids s1, co_expanded := co_expanded s1 @ [s],
            co_completed := insert n (co_completed s1), co_lowered := co_lowered s1 @ [n]\<rparr>)" (is "compile_ok _ _ _ ?s2")
    using S by (intro add_tool_ok [OF ok1 r ready]) simp_all
  obtain new where new: "co_expanded s1 = co_expanded st @ new" "filter (\<lambda>s. \<not> st_protocol_private s) new = []"
    "\<forall>s \<in> set new. validate_step_execution_contract s = Inr ()" by (rule extends_private [OF x1])
  have con: "work_contract w \<Longrightarrow> validate_step_execution_contract s = Inr ()"
    using S assms(6) by (auto simp: validate_step_execution_contract_def work_contract_def)
  show ?case
  proof (cases "ns = []")
    case True
    then have "st' = ?s2" using rest by simp
    moreover have "compiled_to w (new @ [s])" using new S con True assms(7) by (auto simp: compiled_to_def clean_id_def)
    ultimately show ?thesis using ok2 new(1) by (intro conjI exI [of _ "new @ [s]"]) simp_all
  next
    case False
    obtain new2 where IH: "compile_ok by cs sat st'" "co_expanded st' = co_expanded ?s2 @ new2" "compiled_to w new2"
      using Cons.IH [OF rest ok2 False] by blast
    have "compiled_to w (new @ [s] @ new2)" using new S con False IH(3) by (auto simp: compiled_to_def)
    then show ?thesis using IH(1,2) new(1) by (intro conjI exI [of _ "new @ [s] @ new2"]) simp_all
  qed
qed simp

lemma compile_step_sound:
  assumes c: "compile_step rs enabled caps cs w st = Inr st'" and ok: "compile_ok (by_name rs) cs sat st" and clean: "regs_clean (by_name rs)"
    and w: "work_ok w"
  shows "compile_ok (by_name rs) cs sat st' \<and> (\<exists>new. co_expanded st' = co_expanded st @ new \<and> compiled_to w new)"
proof -
  obtain es where es: "to_execution_step w = Inr es" using c by (auto simp: compile_step_def bind_result_Inr_iff)
  note E = to_execution_step_Inr [OF es w]
  show ?thesis
  proof (cases "ws_executor w")
    case Exec_MODEL
    then have st': "st' = st\<lparr>co_expanded := co_expanded st @ [es]\<rparr>" using c es by (simp add: compile_step_def)
    have "compile_ok (by_name rs) cs sat st'"
      using ok E Exec_MODEL unfolding st' by (auto simp: compile_ok_def steps_ready_snoc step_ready_def)
    moreover have "compiled_to w [es]"
      using E Exec_MODEL by (auto simp: compiled_to_def work_contract_def validate_step_execution_contract_def)
    ultimately show ?thesis unfolding st' by (intro conjI exI [of _ "[es]"]) simp_all
  next
    case Exec_TOOL
    obtain sel where sel: "ws_capability_names w = [sel]"
      using c es Exec_TOOL by (auto simp: compile_step_def split: list.splits)
    show ?thesis
    proof (cases "by_name rs sel")
      case (Some r)
      obtain s1 where s1: "append_prerequisites (length rs) (by_name rs) cs sel [] st = Inr s1"
        and st': "st' = s1\<lparr>co_completed := insert sel (co_completed s1), co_expanded := co_expanded s1 @ [es]\<rparr>"
        using c es Exec_TOOL sel Some by (auto simp: compile_step_def bind_result_Inr_iff split: if_splits option.splits)
      have ok1: "compile_ok (by_name rs) cs sat s1" and x1: "extends st s1"
        and ready: "\<forall>d \<in> set (prerequisite_tools r). d \<in> co_completed s1 \<or> (sel, d) \<in> pc_satisfied_tool_dependency_edges cs"
        using prerequisites_sound(1) [OF s1 ok clean] Some by auto
      have "compile_ok (by_name rs) cs sat (s1\<lparr>co_existing_ids := co_existing_ids s1, co_expanded := co_expanded s1 @ [es],
          co_completed := insert sel (co_completed s1), co_lowered := co_lowered s1\<rparr>)"
        using E Exec_TOOL sel by (intro add_tool_ok [OF ok1 Some ready]) simp_all
      then have ok2: "compile_ok (by_name rs) cs sat st'" by (simp add: st' compile_ok_def)
      obtain new where new: "co_expanded s1 = co_expanded st @ new" "filter (\<lambda>s. \<not> st_protocol_private s) new = []"
        "\<forall>s \<in> set new. validate_step_execution_contract s = Inr ()" by (rule extends_private [OF x1])
      have "compiled_to w (new @ [es])"
        using new E Exec_TOOL sel by (auto simp: compiled_to_def work_contract_def validate_step_execution_contract_def)
      then show ?thesis using ok2 new(1) by (intro conjI exI [of _ "new @ [es]"]) (simp_all add: st')
    next
      case None
      obtain ns where ns: "ns \<noteq> []" "lower_runtime (length rs) (by_name rs) cs w es sel 0 None ns st = Inr st'"
        using c es Exec_TOOL sel None by (auto simp: compile_step_def bind_result_Inr_iff Let_def split: if_splits option.splits)
      show ?thesis using lower_runtime_sound [OF ns(2) ok clean ns(1)] E Exec_TOOL work_okD(1) [OF w] by simp
    qed
  qed
qed

lemma compile_steps_sound:
  assumes "compile_steps rs enabled caps cs ws st = Inr st'" and "compile_ok (by_name rs) cs sat st" and "regs_clean (by_name rs)"
    and "list_all work_ok ws"
  shows "compile_ok (by_name rs) cs sat st' \<and> (\<exists>news. co_expanded st' = co_expanded st @ concat news \<and> list_all2 compiled_to ws news)"
  using assms(1,2,4)
proof (induction ws arbitrary: st)
  case Nil
  then show ?case by (intro conjI exI [of _ "[]"]) simp_all
next
  case (Cons w ws)
  obtain s1 where s1: "compile_step rs enabled caps cs w st = Inr s1" "compile_steps rs enabled caps cs ws s1 = Inr st'"
    using Cons.prems(1) by (auto simp: bind_result_Inr_iff)
  obtain new where A: "compile_ok (by_name rs) cs sat s1" "co_expanded s1 = co_expanded st @ new" "compiled_to w new"
    using compile_step_sound [OF s1(1) Cons.prems(2) assms(3)] Cons.prems(3) by auto
  obtain news where B: "compile_ok (by_name rs) cs sat st'" "co_expanded st' = co_expanded s1 @ concat news" "list_all2 compiled_to ws news"
    using Cons.IH [OF s1(2) A(1)] Cons.prems(3) by auto
  show ?case using A B by (intro conjI exI [of _ "new # news"]) simp_all
qed

section \<open>The compiled plan\<close>

definition work_plan_ok :: "work_plan \<Rightarrow> bool" where
  "work_plan_ok p \<longleftrightarrow> constructed WorkPlan_post_init p \<and> list_all work_ok (wp_steps p)"

definition start_state :: "planning_constraints \<Rightarrow> string set \<Rightarrow> work_step list \<Rightarrow> compile_state" where
  "start_state cs satisfied ws = \<lparr>co_completed = satisfied_tools cs satisfied, co_existing_ids = map ws_id ws, co_expanded = [],
     co_inserted = [], co_lowered = [], co_sequence = 0\<rparr>"

lemma start_state_ok: "compile_ok by cs (satisfied_tools cs satisfied) (start_state cs satisfied ws)"
  by (simp add: start_state_def compile_ok_def steps_ready_def)

lemma compile_work_plan_InrE:
  assumes "compile_work_plan p rs cs satisfied enabled_names = Inr c"
  obtains enabled caps st where "planning_capabilities rs enabled = Inr caps"
    "compile_steps rs enabled caps cs (wp_steps p) (start_state cs satisfied (wp_steps p)) = Inr st"
    "ExecutionPlan_post_init \<lparr>ep_title = wp_title p, ep_steps = co_expanded st, ep_goal = wp_goal p,
        ep_task_spec = wp_task_spec p, ep_work_step_ids = Some (map ws_id (wp_steps p))\<rparr> = Inr (ce_execution_plan c)"
    "ce_inserted_tool_names c = co_inserted st" "ce_lowered_tool_names c = co_lowered st"
  using assms unfolding start_state_def by (auto simp: compile_work_plan_def Let_def bind_result_Inr_iff)

lemma ExecutionPlan_post_init_fields:
  "ExecutionPlan_post_init p = Inr q \<Longrightarrow> ep_steps q = ep_steps p \<and> ep_task_spec q = ep_task_spec p
     \<and> (\<forall>ids. ep_work_step_ids p = Some ids \<longrightarrow> ep_work_step_ids q = Some (unique_text_tuple ids))"
  by (auto simp: ExecutionPlan_post_init_def Let_def bind_result_Inr_iff split: if_splits)

lemma public_ids_concat:
  "list_all2 compiled_to ws news \<Longrightarrow> default_work_step_ids (concat news) = map ws_id ws"
  by (induction rule: list_all2_induct) (auto simp: default_work_step_ids_def compiled_to_def)

lemma contracts_concat:
  "list_all2 compiled_to ws news \<Longrightarrow> list_all work_contract ws \<Longrightarrow>
     \<forall>s \<in> set (concat news). validate_step_execution_contract s = Inr ()"
  by (induction rule: list_all2_induct) (auto simp: compiled_to_def)

lemma work_ids_clean: "work_plan_ok p \<Longrightarrow> clean_ids (map ws_id (wp_steps p))"
  by (auto simp: work_plan_ok_def constructed_def WorkPlan_post_init_def validate_dependencies_def list_all_iff clean_ids_def comp_def
      bind_result_Inr_iff dest: work_okD(1) split: if_splits)

text \<open>All that is known of a compiled plan.\<close>

lemma compile_work_plan_sound:
  assumes c: "compile_work_plan p rs cs satisfied enabled_names = Inr c" and p: "work_plan_ok p" and rs: "regs_clean (by_name rs)"
  shows "plan_ok (ce_execution_plan c)"
    and "steps_ready (by_name rs) cs (satisfied_tools cs satisfied) (ep_steps (ce_execution_plan c))"
    and "default_work_step_ids (ep_steps (ce_execution_plan c)) = map ws_id (wp_steps p)"
    and "ep_work_step_ids (ce_execution_plan c) = Some (map ws_id (wp_steps p))"
    and "distinct (ce_inserted_tool_names c)"
    and "set (ce_inserted_tool_names c) \<inter> (satisfied_tools cs satisfied \<union> pc_planning_excluded_tool_names cs) = {}"
    and "list_all work_contract (wp_steps p) \<Longrightarrow> \<forall>s \<in> set (ep_steps (ce_execution_plan c)). validate_step_execution_contract s = Inr ()"
proof -
  obtain enabled caps st where st: "compile_steps rs enabled caps cs (wp_steps p) (start_state cs satisfied (wp_steps p)) = Inr st"
    and e: "ExecutionPlan_post_init \<lparr>ep_title = wp_title p, ep_steps = co_expanded st, ep_goal = wp_goal p,
        ep_task_spec = wp_task_spec p, ep_work_step_ids = Some (map ws_id (wp_steps p))\<rparr> = Inr (ce_execution_plan c)"
    and ins: "ce_inserted_tool_names c = co_inserted st"
    by (rule compile_work_plan_InrE [OF c])
  have w: "list_all work_ok (wp_steps p)" using p by (simp add: work_plan_ok_def)
  obtain news where ok: "compile_ok (by_name rs) cs (satisfied_tools cs satisfied) st" and x: "co_expanded st = concat news"
    and n: "list_all2 compiled_to (wp_steps p) news"
    using compile_steps_sound [OF st start_state_ok rs w] by (auto simp: start_state_def)
  note F = ExecutionPlan_post_init_fields [OF e, simplified]
  show "plan_ok (ce_execution_plan c)"
    using ExecutionPlan_post_init_ok [OF e] ok by (simp add: compile_ok_def list_all_iff)
  show "steps_ready (by_name rs) cs (satisfied_tools cs satisfied) (ep_steps (ce_execution_plan c))"
    using ok F by (simp add: compile_ok_def)
  show "default_work_step_ids (ep_steps (ce_execution_plan c)) = map ws_id (wp_steps p)"
    using public_ids_concat [OF n] F x by simp
  show "ep_work_step_ids (ce_execution_plan c) = Some (map ws_id (wp_steps p))"
    using F work_ids_clean [OF p] by simp
  show "distinct (ce_inserted_tool_names c)"
    and "set (ce_inserted_tool_names c) \<inter> (satisfied_tools cs satisfied \<union> pc_planning_excluded_tool_names cs) = {}"
    using ok ins by (simp_all add: compile_ok_def)
  show "\<forall>s \<in> set (ep_steps (ce_execution_plan c)). validate_step_execution_contract s = Inr ()" if "list_all work_contract (wp_steps p)"
    using contracts_concat [OF n that] F x by simp
qed

section \<open>Errors of the compiler\<close>

lemma top_prerequisites_error: "append_prerequisites (length rs) (by_name rs) cs tool [] st = Inl e \<Longrightarrow> plan_error e"
  using prerequisites_errors(1) [OF finite_dom_by_name [of rs], of "length rs" cs tool "[]" st e] card_dom_by_name [of rs] by simp

lemma lower_runtime_error:
  "lower_runtime (length rs) (by_name rs) cs w es selected index prev ns st = Inl e \<Longrightarrow> set ns \<subseteq> dom (by_name rs) \<Longrightarrow> plan_error e"
proof (induction ns arbitrary: index prev st)
  case (Cons n ns)
  show ?case
  proof (cases "append_prerequisites (length rs) (by_name rs) cs n [] st")
    case (Inl e')
    then show ?thesis using Cons.prems(1) by (auto intro: top_prerequisites_error)
  next
    case (Inr s1)
    then show ?thesis using Cons.prems Cons.IH
      by (auto simp: Let_def bind_result_Inl_iff intro: TaskStep_post_init_error)
  qed
qed simp

lemma group_capabilities_members:
  "group_capabilities run enabled rs schemas grouped = Inr caps \<Longrightarrow> \<forall>ms \<in> ran (map_of grouped). set ms \<subseteq> A \<Longrightarrow> set rs \<subseteq> A \<Longrightarrow>
     \<forall>ms \<in> ran (map_of caps). set ms \<subseteq> A"
proof (induction run enabled rs schemas grouped rule: group_capabilities.induct)
  case (2 run enabled r rs schemas grouped)
  show ?case
  proof (cases "tr_planning_capability r = None \<or> tool_name r \<notin> enabled")
    case True
    then show ?thesis using 2 by (auto split: option.splits)
  next
    case False
    then obtain c where c: "tr_planning_capability r = Some c" "tool_name r \<in> enabled" by auto
    define new where "new = (case map_of grouped (sch_name c) of None \<Rightarrow> [] | Some ms \<Rightarrow> ms) @ [r]"
    have "set new \<subseteq> A" unfolding new_def using "2.prems"(2,3) by (cases "map_of grouped (sch_name c)") (auto simp: ran_def)
    then have g: "\<forall>ms \<in> ran (map_of (AList.update (sch_name c) new grouped)). set ms \<subseteq> A"
      using "2.prems"(2) by (auto simp: AList.update_conv' ran_def split: if_splits)
    show ?thesis using "2.IH"(3) [OF c(1) _ _ _ _ g [unfolded new_def]] c "2.prems"(1,3)
      by (auto split: if_splits)
  qed
qed simp

lemma planning_capabilities_members:
  "planning_capabilities rs enabled = Inr caps \<Longrightarrow> map_of caps n = Some ms \<Longrightarrow> set ms \<subseteq> set rs"
  unfolding planning_capabilities_def by (drule group_capabilities_members [where A = "set rs"]) (auto simp: ran_def)

lemma group_capabilities_error: "group_capabilities run enabled rs schemas grouped = Inl e \<Longrightarrow> \<exists>m. e = contract_violation m"
  by (induction run enabled rs schemas grouped rule: group_capabilities.induct) (auto split: option.splits if_splits)

lemma compile_step_error:
  assumes "compile_step rs enabled caps cs w st = Inl e" and caps: "planning_capabilities rs enabled = Inr caps"
  shows "plan_error e"
proof (cases "to_execution_step w")
  case (Inl e')
  then show ?thesis using assms(1) by (auto simp: compile_step_def to_execution_step_def intro: TaskStep_post_init_error)
next
  case es: (Inr es)
  show ?thesis
  proof (cases "ws_executor w = Exec_TOOL \<and> (\<exists>sel. ws_capability_names w = [sel])")
    case False
    then show ?thesis using assms(1) es by (auto simp: compile_step_def plan_errorI split: if_splits list.splits)
  next
    case True
    then obtain sel where sel: "ws_executor w = Exec_TOOL" "ws_capability_names w = [sel]" by auto
    show ?thesis
    proof (cases "by_name rs sel")
      case (Some r)
      then show ?thesis using assms(1) es sel
        by (auto simp: compile_step_def plan_errorI bind_result_Inl_iff intro: top_prerequisites_error split: if_splits option.splits)
    next
      case None
      show ?thesis
      proof (cases "map_of caps sel")
        case m: None
        then show ?thesis using assms(1) es sel None by (auto simp: compile_step_def plan_errorI)
      next
        case m: (Some ms)
        have sub: "set ms \<subseteq> set rs" by (rule planning_capabilities_members [OF caps m])
        show ?thesis
        proof (rule ordered_runtime_names_cases [of ms])
          fix xs assume xs: "ordered_runtime_names ms = Inr xs" "set xs = set (map tool_name ms)"
          have "set (filter (\<lambda>n. n \<notin> co_completed st) xs) \<subseteq> dom (by_name rs)" using sub xs(2) by (auto simp: dom_by_name)
          then show ?thesis using assms(1) es sel None m xs(1) lower_runtime_error
            by (auto simp: compile_step_def Let_def plan_errorI simp del: set_filter split: if_splits)
        next
          assume "ordered_runtime_names ms = Inl cycle_error"
          then show ?thesis using assms(1) es sel None m by (auto simp: compile_step_def cycle_error_def plan_errorI)
        qed
      qed
    qed
  qed
qed

lemma compile_steps_error:
  "compile_steps rs enabled caps cs ws st = Inl e \<Longrightarrow> planning_capabilities rs enabled = Inr caps \<Longrightarrow> plan_error e"
  by (induction ws arbitrary: st) (auto simp: bind_result_Inl_iff intro: compile_step_error)

lemma check_known_dependencies_error: "check_known_dependencies label known xs = Inl e \<Longrightarrow> plan_error e"
  by (induction label known xs rule: check_known_dependencies.induct) (auto simp: Let_def plan_errorI split: if_splits)

lemma ExecutionPlan_post_init_error: "ExecutionPlan_post_init p = Inl e \<Longrightarrow> plan_error e"
  by (auto simp: ExecutionPlan_post_init_def validate_dependencies_def required_text_def Let_def bind_result_Inl_iff plan_errorI
      intro: check_known_dependencies_error split: if_splits)

lemma compile_work_plan_error: "compile_work_plan p rs cs satisfied enabled_names = Inl e \<Longrightarrow> plan_error e"
  unfolding compile_work_plan_def Let_def bind_result_Inl_iff planning_capabilities_def
  by (auto dest: group_capabilities_error ExecutionPlan_post_init_error compile_steps_error [unfolded planning_capabilities_def]
      simp: plan_errorI)

section \<open>Projection onto planning names and back\<close>

abbreviation enabled_registrations :: "tool_registration list \<Rightarrow> string set \<Rightarrow> tool_registration list" where
  "enabled_registrations rs enabled \<equiv> filter (\<lambda>r. tool_name r \<in> enabled) rs"

definition capability_members :: "tool_registration list \<Rightarrow> string set \<Rightarrow> string \<Rightarrow> tool_registration list" where
  "capability_members rs enabled n =
     filter (\<lambda>r. tool_name r \<in> enabled \<and> map_option sch_name (tr_planning_capability r) = Some n) rs"

definition members_at :: "capability_dict \<Rightarrow> string \<Rightarrow> tool_registration list" where
  "members_at caps n = (case map_of caps n of None \<Rightarrow> [] | Some ms \<Rightarrow> ms)"

lemma group_capabilities_eq:
  assumes "group_capabilities run enabled rs schemas grouped = Inr caps"
  shows "members_at caps n = members_at grouped n @ capability_members rs enabled n
    \<and> (map_of caps n = None \<longleftrightarrow> map_of grouped n = None \<and> capability_members rs enabled n = [])
    \<and> (capability_members rs enabled n \<noteq> [] \<longrightarrow> n \<notin> run)"
  using assms
proof (induction run enabled rs schemas grouped rule: group_capabilities.induct)
  case (1 run enabled schemas grouped)
  then show ?case by (simp add: capability_members_def)
next
  case (2 run enabled r rs schemas grouped)
  show ?case
  proof (cases "tr_planning_capability r = None \<or> tool_name r \<notin> enabled")
    case True
    then have e: "capability_members (r # rs) enabled n = capability_members rs enabled n" by (auto simp: capability_members_def)
    from True 2 show ?thesis unfolding e by (auto split: option.splits)
  next
    case False
    then obtain c where c: "tr_planning_capability r = Some c" "tool_name r \<in> enabled" by auto
    have ok: "sch_name c \<notin> run" "\<not> (case map_of schemas (sch_name c) of None \<Rightarrow> False | Some p \<Rightarrow> \<not> schema_equal p c)"
      and g: "group_capabilities run enabled rs (AList.update (sch_name c) c schemas)
        (AList.update (sch_name c) (members_at grouped (sch_name c) @ [r]) grouped) = Inr caps"
      using "2.prems" c by (auto simp: members_at_def split: if_splits)
    have m: "members_at (AList.update (sch_name c) (members_at grouped (sch_name c) @ [r]) grouped) n
        = members_at grouped n @ (if n = sch_name c then [r] else [])"
      by (simp add: members_at_def AList.update_conv')
    have u: "map_of (AList.update (sch_name c) (members_at grouped (sch_name c) @ [r]) grouped) n = None
        \<longleftrightarrow> map_of grouped n = None \<and> n \<noteq> sch_name c"
      by (simp add: AList.update_conv')
    have e: "capability_members (r # rs) enabled n = (if n = sch_name c then [r] else []) @ capability_members rs enabled n"
      using c by (simp add: capability_members_def)
    note IH = "2.IH"(3) [OF c(1) _ ok(1) ok(2), folded members_at_def, OF _ g, unfolded m u]
    show ?thesis unfolding e using IH c(2) ok(1) by auto
  qed
qed

lemma planning_capabilities_eq:
  assumes "planning_capabilities rs enabled = Inr caps"
  shows "map_of caps n = (if capability_members rs enabled n = [] then None else Some (capability_members rs enabled n))"
    and "capability_members rs enabled n \<noteq> [] \<Longrightarrow> n \<notin> tool_name ` set (enabled_registrations rs enabled)"
  using group_capabilities_eq [OF assms [unfolded planning_capabilities_def], of n]
  by (auto simp: members_at_def split: option.splits)

lemma capability_member: "r \<in> set (capability_members rs enabled n) \<longleftrightarrow>
    r \<in> set rs \<and> tool_name r \<in> enabled \<and> (\<exists>c. tr_planning_capability r = Some c \<and> sch_name c = n)"
  by (auto simp: capability_members_def)

text \<open>Selecting every projected name resolves to exactly the enabled runtime tools.\<close>

lemma projection_resolves:
  assumes "projected_planning_tool_names rs enabled = Inr names" and "set selected = names"
  shows "runtime_tool_names_for_planning_names rs enabled selected = Inr (tool_name ` set (enabled_registrations rs enabled))"
proof -
  obtain caps where caps: "planning_capabilities rs enabled = Inr caps" using assms(1)
    by (auto simp: projected_planning_tool_names_def bind_result_Inr_iff)
  note C = planning_capabilities_eq [OF caps]
  let ?run = "tool_name ` set (enabled_registrations rs enabled)"
  have names: "n \<in> names \<longleftrightarrow> (\<exists>r \<in> set rs. tool_name r \<in> enabled
      \<and> n = (case tr_planning_capability r of Some c \<Rightarrow> sch_name c | None \<Rightarrow> tool_name r))" for n
    using assms(1) caps by (auto simp: projected_planning_tool_names_def)
  have known: "n \<in> ?run \<or> capability_members rs enabled n \<noteq> []" if n: "n \<in> names" for n
  proof -
    obtain r where r: "r \<in> set rs" "tool_name r \<in> enabled"
      "n = (case tr_planning_capability r of Some c \<Rightarrow> sch_name c | None \<Rightarrow> tool_name r)" using n names by blast
    show ?thesis
    proof (cases "tr_planning_capability r")
      case None
      then show ?thesis using r by auto
    next
      case (Some c)
      then have "r \<in> set (capability_members rs enabled n)" using r by (simp add: capability_member)
      then show ?thesis by auto
    qed
  qed
  have none: "filter (\<lambda>n. n \<notin> ?run \<and> map_of caps n = None) selected = []"
    using known assms(2) by (auto simp: filter_empty_conv C(1))
  have tools: "(case map_of caps n of Some ms \<Rightarrow> tool_name ` set ms | None \<Rightarrow> if n \<in> ?run then {n} else {}) \<subseteq> ?run" for n
    by (auto simp: C(1) capability_member)
  have all: "tool_name r \<in> (\<Union>n \<in> names. case map_of caps n of Some ms \<Rightarrow> tool_name ` set ms | None \<Rightarrow> if n \<in> ?run then {n} else {})"
    if r: "r \<in> set rs" "tool_name r \<in> enabled" for r
  proof (cases "tr_planning_capability r")
    case None
    then have n: "tool_name r \<in> names" using r names by force
    moreover have "map_of caps (tool_name r) = None" using C [of "tool_name r"] r by auto
    ultimately show ?thesis using r by (intro UN_I [OF n]) simp
  next
    case (Some c)
    then have n: "sch_name c \<in> names" using r names by force
    have "r \<in> set (capability_members rs enabled (sch_name c))" using r Some by (simp add: capability_member)
    then show ?thesis by (intro UN_I [OF n]) (auto simp: C(1))
  qed
  have "(\<Union>n \<in> names. case map_of caps n of Some ms \<Rightarrow> tool_name ` set ms | None \<Rightarrow> if n \<in> ?run then {n} else {}) = ?run"
    using tools all by fastforce
  then show ?thesis unfolding runtime_tool_names_for_planning_names_def caps bind_result.simps Let_def
    using none assms(2) by simp
qed

text \<open>The steps shown to the planner never name a tool that hides behind a capability.\<close>

lemma capability_of_runtime_iff:
  assumes "planning_capabilities rs enabled = Inr caps"
  shows "capability_of_runtime caps n = None \<longleftrightarrow>
    (\<forall>r \<in> set rs. tool_name r \<in> enabled \<and> tr_planning_capability r \<noteq> None \<longrightarrow> tool_name r \<noteq> n)"
proof -
  note C = planning_capabilities_eq(1) [OF assms]
  have d: "distinct (map fst grouped) \<Longrightarrow> group_capabilities run en xs schemas grouped = Inr caps \<Longrightarrow> distinct (map fst caps)"
    for run en xs schemas grouped
    by (induction run en xs schemas grouped rule: group_capabilities.induct)
       (auto split: option.splits if_splits simp: AList.distinct_update)
  have "distinct (map fst caps)" using d [of "[]"] assms unfolding planning_capabilities_def by simp
  then have e: "(m, ms) \<in> set caps \<longleftrightarrow> map_of caps m = Some ms" for m ms by simp
  have "capability_of_runtime caps n = None \<longleftrightarrow> (\<forall>m ms r. map_of caps m = Some ms \<and> r \<in> set ms \<longrightarrow> tool_name r \<noteq> n)"
    unfolding capability_of_runtime_def e [symmetric] by (fastforce simp: map_of_eq_None_iff image_iff)
  also have "\<dots> \<longleftrightarrow> (\<forall>m. \<forall>r \<in> set (capability_members rs enabled m). tool_name r \<noteq> n)"
  proof -
    have "(\<forall>ms r. map_of caps m = Some ms \<and> r \<in> set ms \<longrightarrow> tool_name r \<noteq> n)
        \<longleftrightarrow> (\<forall>r \<in> set (capability_members rs enabled m). tool_name r \<noteq> n)" for m
      using C [of m] by (cases "capability_members rs enabled m = []") auto
    then show ?thesis by blast
  qed
  also have "\<dots> \<longleftrightarrow> (\<forall>r \<in> set rs. tool_name r \<in> enabled \<and> tr_planning_capability r \<noteq> None \<longrightarrow> tool_name r \<noteq> n)"
    unfolding Ball_def capability_member by blast
  finally show ?thesis .
qed

lemma capability_of_runtime_SomeD:
  "capability_of_runtime caps n = Some c \<Longrightarrow> c \<in> fst ` set caps"
  unfolding capability_of_runtime_def by (drule map_of_SomeD) force

lemma project_completed_step_hides:
  assumes caps: "planning_capabilities rs enabled = Inr caps" and p: "project_completed_step caps s = Inr out" and t: "t \<in> set out"
    and clean: "\<forall>r \<in> set rs. \<forall>c. tr_planning_capability r = Some c \<longrightarrow> clean_id (sch_name c)"
    and r: "r \<in> set rs" "tool_name r \<in> enabled" "tr_planning_capability r \<noteq> None"
  shows "st_suggested_tools t \<noteq> tool_name r # rest"
proof
  assume eq: "st_suggested_tools t = tool_name r # rest"
  have hidden: "capability_of_runtime caps (tool_name r) \<noteq> None" using capability_of_runtime_iff [OF caps] r by blast
  let ?n = "case st_suggested_tools s of [] \<Rightarrow> [] | t # _ \<Rightarrow> t"
  show False
  proof (cases "capability_of_runtime caps ?n")
    case None
    then have "t = s" using p t by (auto simp: project_completed_step_def)
    then show False using None hidden eq by simp
  next
    case (Some c)
    then have "c \<in> fst ` set caps" by (rule capability_of_runtime_SomeD)
    then have "map_of caps c \<noteq> None" by (simp add: map_of_eq_None_iff)
    then have ne: "capability_members rs enabled c \<noteq> []" using planning_capabilities_eq(1) [OF caps, of c] by auto
    then obtain q d where "q \<in> set rs" "tr_planning_capability q = Some d" "sch_name d = c"
      using capability_member [of _ rs enabled c] by (meson last_in_set)
    then have "clean_id c" using clean by blast
    then have "unique_text_tuple [c] = [c]" by (simp add: clean_ids_def)
    then have "st_suggested_tools t = [c]" using p t Some
      by (auto simp: project_completed_step_def Let_def bind_result_Inr_iff TaskStep_post_init_def split: if_splits)
    then have "c = tool_name r" using eq by simp
    then show False using planning_capabilities_eq(2) [OF caps ne] r by auto
  qed
qed

end
