(* ===== verification/Plan_Execution.thy ===== *)
theory Plan_Execution
  imports Plan_Compiler_Laws
begin

text \<open>
  Compiled plans in a Run: no plan-driven event changes what a step runs, so what the compiler
  guarantees of the plan holds of the steps of every reachable snapshot.
\<close>

section \<open>What a step runs never changes\<close>

definition work_of :: "task_step \<Rightarrow> step_executor \<times> string list" where
  "work_of s = (st_executor s, st_suggested_tools s)"

lemma work_of_settled [simp]:
  "work_of (settled s st d) = work_of s" "work_of (started s) = work_of s" "work_of (completed_tool s) = work_of s"
  "work_of (declined_tool s) = work_of s" "work_of (failed_tool e s) = work_of s" "work_of (initial_of s) = work_of s"
  by (simp_all add: work_of_def settled_def completed_tool_def declined_tool_def failed_tool_def initial_of_def)

definition same_work :: "run_snapshot \<Rightarrow> run_snapshot \<Rightarrow> bool" where
  "same_work r r' \<longleftrightarrow> map work_of (rs_steps r') = map work_of (rs_steps r)"

lemma same_work_refl [simp]: "same_work r r"
  by (simp add: same_work_def)

lemma same_work_trans: "same_work a b \<Longrightarrow> same_work b c \<Longrightarrow> same_work a c"
  by (simp add: same_work_def)

lemma same_work_update: "i < length xs \<Longrightarrow> work_of s = work_of (xs ! i) \<Longrightarrow> map work_of (xs[i := s]) = map work_of xs"
  by (simp add: map_update list_update_same_conv)

lemma same_work_changes:
  assumes "with_step_changes r cs st resp err = Inr t" and "snapshot_ok r" and "changes_ok (rs_steps r) cs"
    and "\<forall>(i, s) \<in> set cs. work_of s = work_of (rs_steps r ! i)"
  shows "same_work r (tr_after t)"
  unfolding same_work_def with_step_changes_ok(3) [OF assms(1-3)]
proof (rule nth_equalityI)
  have rng: "\<forall>(i, s) \<in> set cs. i < length (rs_steps r)" and d: "distinct (map fst cs)"
    using assms(3) by (auto simp: changes_ok_def)
  show "length (map work_of (apply_step_changes (rs_steps r) cs)) = length (map work_of (rs_steps r))"
    using rng by (simp add: apply_step_changes_length)
  fix j assume "j < length (map work_of (apply_step_changes (rs_steps r) cs))"
  then have j: "j < length (rs_steps r)" using rng by (simp add: apply_step_changes_length)
  have "work_of s = work_of (rs_steps r ! j)" if "map_of cs j = Some s" for s
    using assms(4) that by (auto dest!: map_of_SomeD)
  then show "map work_of (apply_step_changes (rs_steps r) cs) ! j = map work_of (rs_steps r) ! j"
    using j rng d by (auto simp: apply_step_changes_nth apply_step_changes_length split: option.splits)
qed

lemma same_work_model_delta: "snapshot_ok r \<Longrightarrow> on_model_delta r = Inr t \<Longrightarrow> same_work r (tr_after t)"
  using on_model_delta_cases [of r t] same_work_changes [of r _ None None None t] started_change_ok [of r] next_incomplete_SomeD(1)
  by fastforce

lemma same_work_tool_calls:
  assumes "snapshot_ok r" and "on_tool_calls_started r names = Inr t"
  shows "same_work r (tr_after t)"
proof (cases "run_terminal r")
  case False
  show ?thesis
  proof (rule on_tool_calls_started_cases [OF assms False])
    fix changes steps i
    assume c: "close_running_model (rs_steps r) = Inr (changes, steps)" "i < length steps" "open_step (steps ! i)"
      and w: "with_step_changes r (if running (steps ! i) then changes else changes @ [(i, started (steps ! i))]) None None None = Inr t"
    note C = on_tool_calls_started_changes [OF assms(1) c]
    have "map work_of steps = map work_of (rs_steps r)"
      using close_running_model_cases [OF assms(1) c(1)] by (auto intro!: same_work_update dest: find_index_SomeD(1))
    then show ?thesis using with_step_changes_ok(3) [OF w assms(1) C(1)] C(2) c(2) by (simp add: same_work_def same_work_update)
  qed
qed (use assms in \<open>auto simp: on_tool_calls_started_def\<close>)

lemma same_work_round_completed:
  assumes "snapshot_ok r" and "on_tool_round_completed r outcome = Inr t"
  shows "same_work r (tr_after t)"
proof (cases "run_terminal r \<or> tool_index (rs_steps r) = None")
  case True
  with assms show ?thesis
    by (auto simp: on_tool_round_completed_def simp del: find_index_None_iff split: if_splits option.splits)
next
  case False
  then obtain i where nt: "\<not> run_terminal r" and ti: "tool_index (rs_steps r) = Some i" by blast
  have i: "i < length (rs_steps r)" using ti by (rule find_index_SomeD)
  then have ok: "step_ok (rs_steps r ! i)" using assms(1) by (simp add: snapshot_ok_nth)
  note eq = on_tool_round_completed_eq [OF assms(1) nt ti]
  have one: "changes_ok (rs_steps r) [(i, completed_tool (rs_steps r ! i))]" "changes_ok (rs_steps r) [(i, declined_tool (rs_steps r ! i))]"
    using i ok by (auto intro!: one_change_ok simp: step_ok_tool_results)
  have two: "changes_ok (rs_steps r) [(i, completed_tool (rs_steps r ! i)), (k, started ((rs_steps r)[i := completed_tool (rs_steps r ! i)] ! k))]
      \<and> (rs_steps r)[i := completed_tool (rs_steps r ! i)] ! k = rs_steps r ! k"
    if n: "next_incomplete_index ((rs_steps r)[i := completed_tool (rs_steps r ! i)]) = Some k" for k
  proof -
    have k: "k < length (rs_steps r)" "k \<noteq> i" using next_incomplete_SomeD(1,2) [OF n] i by (auto simp: open_step_def)
    then show ?thesis using i ok assms(1)
      by (intro conjI two_changes_ok) (simp_all add: step_ok_tool_results snapshot_ok_nth)
  qed
  consider "outcome = Batch_DECLINED" | "outcome = Batch_PROGRESSED" | "outcome = Batch_COMPLETED"
    using assms(2) nt by (auto simp: on_tool_round_completed_def split: if_splits)
  then show ?thesis
  proof cases
    case 1
    then show ?thesis using assms(2) eq(1) by (intro same_work_changes [OF _ assms(1) one(2)]) simp_all
  next
    case 2
    then show ?thesis using assms eq(2) by auto
  next
    case 3
    then obtain cs where "with_step_changes r cs None None None = Inr t" "changes_ok (rs_steps r) cs"
      "\<forall>(i, s) \<in> set cs. work_of s = work_of (rs_steps r ! i)"
      using assms(2) eq(3) one(1) two by (auto simp: Let_def split: option.splits if_splits)
    then show ?thesis using assms(1) same_work_changes by blast
  qed
qed

lemma same_work_round_failed:
  assumes "snapshot_ok r" and "on_tool_round_failed r err = Inr t"
  shows "same_work r (tr_after t)"
proof (cases "run_terminal r")
  case False
  then obtain i where ti: "tool_index (rs_steps r) = Some i"
    using assms(2) by (auto simp: on_tool_round_failed_def Let_def simp del: find_index_None_iff split: option.splits)
  have i: "i < length (rs_steps r)" using ti by (rule find_index_SomeD)
  let ?f = "failed_tool (case optional_text (Some err) of None \<Rightarrow> ''tool_execution_failed'' | Some e \<Rightarrow> e) (rs_steps r ! i)"
  have "step_ok ?f"
    by (rule step_ok_tool_results(3) [OF snapshot_ok_nth [OF assms(1) i] clean_error_default [OF clean_summaries(6)]])
  then have ch: "changes_ok (rs_steps r) [(i, ?f)]" using i by (intro one_change_ok) simp_all
  show ?thesis using assms(2) on_tool_round_failed_eq [OF assms(1) False ti]
    by (intro same_work_changes [OF _ assms(1) ch]) simp_all
qed (use assms in \<open>auto simp: on_tool_round_failed_def\<close>)

lemma same_work_complete: "snapshot_ok r \<Longrightarrow> complete r resp = Inr t \<Longrightarrow> same_work r (tr_after t)"
proof (cases "run_terminal r")
  case False
  assume "snapshot_ok r" and "complete r resp = Inr t"
  then show ?thesis using complete_eq [OF _ False, of resp] by (auto simp: same_work_def completed_step_def)
qed (auto simp: complete_def)

lemma same_work_cancel: "snapshot_ok r \<Longrightarrow> cancel r reason = Inr t \<Longrightarrow> same_work r (tr_after t)"
proof (cases "run_terminal r")
  case False
  assume "snapshot_ok r" and "cancel r reason = Inr t"
  then show ?thesis using cancel_eq [OF _ False, of reason] by (auto simp: same_work_def)
qed (auto simp: cancel_def)

lemma same_work_fail: "snapshot_ok r \<Longrightarrow> fail r err = Inr t \<Longrightarrow> same_work r (tr_after t)"
proof (cases "run_terminal r")
  case False
  assume r: "snapshot_ok r" and f: "fail r err = Inr t"
  then obtain e where "optional_text (Some err) = Some e" using False by (auto simp: fail_def split: option.splits)
  from fail_eq [OF r False this] f show ?thesis by (auto simp: same_work_def work_of_def)
qed (auto simp: fail_def)

lemma same_work_durable:
  assumes "snapshot_ok r" and "bind_result (durable_changes r covered) (\<lambda>cs. with_step_changes r cs st resp None) = Inr t"
  shows "same_work r (tr_after t)"
proof -
  have cov: "set covered = st_id ` set (rs_steps r)" using assms(2) durable_covered by (auto simp: bind_result_Inr_iff)
  from durable_eq [OF assms(1) cov, of st resp] assms(2) show ?thesis by (auto simp: same_work_def)
qed

lemma same_work_durable_events:
  assumes "snapshot_ok r"
  shows "complete_durable_execution r resp covered = Inr t \<Longrightarrow> same_work r (tr_after t)"
    and "finish_durable_execution r covered = Inr t \<Longrightarrow> same_work r (tr_after t)"
  unfolding complete_durable_execution_def finish_durable_execution_def using same_work_durable [OF assms]
  by (fastforce split: if_splits)+

lemma reduce_same_work:
  assumes "snapshot_ok r" and "plan_driven e" and "reduce r e = Inr r'"
  shows "same_work r r'"
  using assms same_work_model_delta same_work_tool_calls same_work_round_completed same_work_round_failed
    same_work_complete same_work_cancel same_work_fail same_work_durable_events
  by (cases e) (auto simp: result_simps)

interpretation work_kept: progress_machine reduce plan_driven orderly same_work
proof
  show "same_work r r'" if "orderly r" "plan_driven e" "reduce r e = Inr r'" for r e r'
    using that reduce_same_work by (simp add: orderly_def)
qed (blast intro: same_work_refl same_work_trans)+

lemma initial_steps_work: "map work_of (initial_steps steps) = map work_of steps"
proof (cases "find_index (\<lambda>s. st_status s \<noteq> Step_DONE) steps")
  case (Some i)
  then have "i < length steps" by (rule find_index_SomeD)
  with Some show ?thesis by (simp add: initial_steps_def Let_def comp_def map_update list_update_same_conv)
qed (simp add: initial_steps_def Let_def comp_def del: find_index_None_iff)

text \<open>A Run of a valid plan: its steps run what the steps of the plan run, front to back.\<close>

lemma started_plan:
  assumes "plan_ok p" and "initialize run_id (Some p) title = Inr r" and "list_all plan_driven es"
  shows "in_order (rs_steps (drive reduce r es))" and "map work_of (rs_steps (drive reduce r es)) = map work_of (ep_steps p)"
proof -
  note c = initialize_contracts [OF assms(1,2)]
  have "initialize (strip run_id) (Some p) title = Inr r" using assms(2) initialize_strip by simp
  then have s: "rs_steps r = initial_steps (ep_steps p)" using initialize_eq [OF assms(1) c, of title] by auto
  then have o: "orderly r" using initialize_ok(1) [OF assms(2)] initial_steps_in_order initial_steps_contracts [OF c(1)]
    by (simp add: orderly_def)
  then show "in_order (rs_steps (drive reduce r es))" using plan_machine.drive_inv [OF o assms(3)] by (simp add: orderly_def)
  show "map work_of (rs_steps (drive reduce r es)) = map work_of (ep_steps p)"
    using work_kept.drive_leads [OF o assms(3)] s by (simp add: same_work_def initial_steps_work)
qed

lemma step_ready_work:
  assumes "steps_ready by cs sat xs" and "map work_of ys = map work_of xs" and "j < length ys" and "st_executor (ys ! j) = Exec_TOOL"
  obtains t q where "st_suggested_tools (ys ! j) = [t]" "by t = Some q"
    "\<forall>d \<in> set (prerequisite_tools q). d \<in> sat \<or> (t, d) \<in> pc_satisfied_tool_dependency_edges cs
       \<or> (\<exists>i < j. st_executor (ys ! i) = Exec_TOOL \<and> st_suggested_tools (ys ! i) = [d])"
proof -
  have len: "length xs = length ys" using assms(2) by (metis length_map)
  have w: "work_of (ys ! i) = work_of (xs ! i)" if "i < length ys" for i
    using arg_cong [OF assms(2), of "\<lambda>l. l ! i"] that len by simp
  have j: "j < length xs" using assms(3) len by simp
  have earlier: "\<exists>i < j. st_executor (ys ! i) = Exec_TOOL \<and> st_suggested_tools (ys ! i) = [d]" if d: "d \<in> run_tools (take j xs)" for d
  proof -
    obtain i where "i < j" "st_executor (xs ! i) = Exec_TOOL" "st_suggested_tools (xs ! i) = [d]"
      using d j by (auto simp: run_tools_def in_set_conv_nth)
    then show ?thesis using w [of i] assms(3) by (auto simp: work_of_def intro!: exI [of _ i])
  qed
  have "step_ready by cs sat (take j xs) (xs ! j)" by (rule steps_ready_nth [OF assms(1) j])
  moreover have "st_executor (xs ! j) = Exec_TOOL" "st_suggested_tools (xs ! j) = st_suggested_tools (ys ! j)"
    using w [OF assms(3)] assms(4) by (simp_all add: work_of_def)
  ultimately obtain t q where "st_suggested_tools (ys ! j) = [t]" "by t = Some q"
    "\<forall>d \<in> set (prerequisite_tools q). d \<in> sat \<or> (t, d) \<in> pc_satisfied_tool_dependency_edges cs \<or> d \<in> run_tools (take j xs)"
    by (auto simp: step_ready_def)
  then show thesis using earlier by (intro that) blast+
qed

end
