(* ===== verification/Plan_Compiler_Properties.thy ===== *)
theory Plan_Compiler_Properties
  imports Plan_Execution
begin

text \<open>
  Properties of the plan compiler, alone and together with the Run it starts.
\<close>

section \<open>A sample catalogue\<close>

abbreviation sample_schema :: "string \<Rightarrow> tool_schema" where
  "sample_schema n \<equiv> \<lparr>sch_name = n, sch_description = n, sch_parameters = [], sch_display_names = []\<rparr>"

abbreviation sample_tool :: "string \<Rightarrow> string list \<Rightarrow> string option \<Rightarrow> tool_registration" where
  "sample_tool n needs cap \<equiv> \<lparr>tr_schema = sample_schema n,
     tr_policy = \<lparr>tp_mode = Mode_READ, tp_title = n, tp_risk_level = Risk_READ\<rparr>,
     tr_context_contract = \<lparr>tcc_prerequisite_tools = needs, tcc_mandatory_context_keys = [], tcc_required_context_blocks = [],
       tcc_evidence_kinds = [], tcc_produces = [], tcc_result_projection = Projection_FULL, tcc_final_projection = Projection_FULL\<rparr>,
     tr_planning_capability = map_option sample_schema cap\<rparr>"

definition sample_tools :: "tool_registration list" where
  "sample_tools = [sample_tool ''fetch'' [] None, sample_tool ''index'' [''fetch''] None,
     sample_tool ''push'' [''stage''] (Some ''publish''), sample_tool ''stage'' [''index''] (Some ''publish'')]"

definition open_constraints :: planning_constraints where
  "open_constraints = \<lparr>pc_context_satisfied_tool_names = {}, pc_planning_excluded_tool_names = {},
     pc_satisfied_tool_dependency_edges = {}, pc_required_any_tool_names = {}, pc_execution_satisfied_tool_names = {},
     pc_planning_excluded_executors = {}, pc_allow_model_only_fallback = False, pc_min_initial_visible_steps = 1\<rparr>"

abbreviation sample_work :: "string \<Rightarrow> step_executor \<Rightarrow> string list \<Rightarrow> string list \<Rightarrow> work_step" where
  "sample_work i e caps deps \<equiv> \<lparr>ws_id = i, ws_title = i, ws_type = Type_ANALYZE, ws_executor = e, ws_risk_level = None,
     ws_capability_names = caps, ws_depends_on = deps, ws_description = None\<rparr>"

definition sample_work_plan :: work_plan where
  "sample_work_plan = \<lparr>wp_title = ''Ship'', wp_steps = [sample_work ''ship'' Exec_TOOL [''publish''] [], sample_work ''say'' Exec_MODEL [] [''ship'']],
     wp_goal = None, wp_task_spec = None\<rparr>"

text \<open>C5. Whatever the compiler returns for a constructed work plan is a valid execution plan that
  keeps the plan: its public steps are the work steps, in order, and are recorded as such; no
  prerequisite is inserted twice, none that was satisfied or is excluded from planning; and when the
  work steps keep the rules for executors, the Run starts from it.\<close>

theorem compiled_plans_are_sound:
  assumes "compile_work_plan p rs cs satisfied enabled = Inr c" and "work_plan_ok p" and "regs_clean (by_name rs)"
  shows "plan_ok (ce_execution_plan c)
    \<and> default_work_step_ids (ep_steps (ce_execution_plan c)) = map ws_id (wp_steps p)
    \<and> ep_work_step_ids (ce_execution_plan c) = Some (map ws_id (wp_steps p))
    \<and> distinct (ce_inserted_tool_names c)
    \<and> set (ce_inserted_tool_names c) \<inter> (satisfied_tools cs satisfied \<union> pc_planning_excluded_tool_names cs) = {}
    \<and> (list_all work_contract (wp_steps p) \<and> clean_id run_id \<longrightarrow>
         (\<exists>r. initialize run_id (Some (ce_execution_plan c)) title = Inr r \<and> rs_status r = Run_RUNNING))"
proof -
  note S = compile_work_plan_sound [OF assms]
  have "\<exists>r. initialize run_id (Some (ce_execution_plan c)) title = Inr r \<and> rs_status r = Run_RUNNING"
    if w: "list_all work_contract (wp_steps p)" "clean_id run_id"
  proof -
    have "contracts (ep_steps (ce_execution_plan c))" using S(7) [OF w(1)] by (simp add: contracts_def contract_iff)
    then show ?thesis using initialize_eq [OF S(1) _ w(2), of title] by blast
  qed
  then show ?thesis using S(1,3-6) by blast
qed

lemma sample_work_plan_ok: "work_plan_ok sample_work_plan"
  unfolding work_plan_ok_def work_ok_def constructed_def by code_simp

lemma sample_tools_clean: "regs_clean (by_name sample_tools)"
proof -
  have "list_all clean_id (map tool_name sample_tools)" by code_simp
  then show ?thesis unfolding regs_clean_def dom_by_name list_all_iff .
qed

definition sample_compiled :: compiled_execution_plan where
  "sample_compiled = (case compile_work_plan sample_work_plan sample_tools open_constraints {} None of
     Inr c \<Rightarrow> c | Inl _ \<Rightarrow> undefined)"

lemma sample_compiles: "compile_work_plan sample_work_plan sample_tools open_constraints {} None = Inr sample_compiled"
proof -
  have "case compile_work_plan sample_work_plan sample_tools open_constraints {} None of Inr c \<Rightarrow> True | Inl e \<Rightarrow> False"
    by code_simp
  then show ?thesis by (auto simp: sample_compiled_def split: sum.splits)
qed

theorem compiled_plans_are_sound_witness:
  "default_work_step_ids (ep_steps (ce_execution_plan sample_compiled)) = [''ship'', ''say'']
     \<and> (\<exists>r. initialize ''run'' (Some (ce_execution_plan sample_compiled)) default_title = Inr r \<and> rs_status r = Run_RUNNING)"
proof -
  have w: "list_all work_contract (wp_steps sample_work_plan)" "clean_id ''run''" "map ws_id (wp_steps sample_work_plan) = [''ship'', ''say'']"
    by code_simp+
  show ?thesis using compiled_plans_are_sound [OF sample_compiles sample_work_plan_ok sample_tools_clean, of "''run''" default_title] w
    by simp
qed

text \<open>C4. A compiled plan is safe to run: in every state the plan-driven events can lead to, a
  running tool step runs one registered tool, and each prerequisite of that tool was satisfied at
  the start, is waived for it, or belongs to an earlier step that has finished.\<close>

theorem compiled_runs_respect_prerequisites:
  assumes "compile_work_plan p rs cs satisfied enabled = Inr c" and "work_plan_ok p" and "regs_clean (by_name rs)"
    and "initialize run_id (Some (ce_execution_plan c)) title = Inr r" and "list_all plan_driven es"
    and "j < length (rs_steps (drive reduce r es))" and "running (rs_steps (drive reduce r es) ! j)"
    and "st_executor (rs_steps (drive reduce r es) ! j) = Exec_TOOL"
  shows "\<exists>t q. st_suggested_tools (rs_steps (drive reduce r es) ! j) = [t] \<and> by_name rs t = Some q
    \<and> (\<forall>d \<in> set (prerequisite_tools q). d \<in> satisfied_tools cs satisfied \<or> (t, d) \<in> pc_satisfied_tool_dependency_edges cs
        \<or> (\<exists>i < j. finished (rs_steps (drive reduce r es) ! i) \<and> st_executor (rs_steps (drive reduce r es) ! i) = Exec_TOOL
             \<and> st_suggested_tools (rs_steps (drive reduce r es) ! i) = [d]))"
proof -
  note S = compile_work_plan_sound [OF assms(1-3)]
  note R = started_plan [OF S(1) assms(4,5)]
  have before: "\<forall>i < j. finished (rs_steps (drive reduce r es) ! i)" using R(1) assms(6,7) by (simp add: in_order_def)
  show ?thesis by (rule step_ready_work [OF S(2) R(2) assms(6,8)]) (use before in blast)
qed

theorem compiled_runs_respect_prerequisites_witness:
  "\<exists>r t q. initialize ''run'' (Some (ce_execution_plan sample_compiled)) default_title = Inr r
     \<and> st_suggested_tools (rs_steps (drive reduce r [Tool_Calls_Started [''fetch''], Tool_Round_Completed Batch_COMPLETED]) ! 1) = [t]
     \<and> by_name sample_tools t = Some q"
proof -
  let ?es = "[Tool_Calls_Started [''fetch''], Tool_Round_Completed Batch_COMPLETED]"
  have run: "case initialize ''run'' (Some (ce_execution_plan sample_compiled)) default_title of Inl e \<Rightarrow> False
    | Inr r \<Rightarrow> (let xs = rs_steps (drive reduce r ?es) in 1 < length xs \<and> running (xs ! 1) \<and> st_executor (xs ! 1) = Exec_TOOL)"
    unfolding sample_compiled_def by code_simp
  then obtain r where r: "initialize ''run'' (Some (ce_execution_plan sample_compiled)) default_title = Inr r"
    "1 < length (rs_steps (drive reduce r ?es))" "running (rs_steps (drive reduce r ?es) ! 1)"
    "st_executor (rs_steps (drive reduce r ?es) ! 1) = Exec_TOOL"
    by (auto simp: Let_def split: sum.splits)
  have "list_all plan_driven ?es" by simp
  from compiled_runs_respect_prerequisites [OF sample_compiles sample_work_plan_ok sample_tools_clean r(1) this r(2-4)] r(1)
  show ?thesis by blast
qed

text \<open>C6. The compiler always answers: it returns a plan, or it raises a contract violation or a
  constructor's value error; the recursion through the prerequisites ends, cycles included, and no
  look-up fails.\<close>

theorem compiler_errors_are_contractual:
  "case compile_work_plan p rs cs satisfied enabled of
     Inr c \<Rightarrow> True
   | Inl e \<Rightarrow> (\<exists>m. e = contract_violation m) \<or> (\<exists>m. e = ValueError m)"
  using compile_work_plan_error [of p rs cs satisfied enabled] by (auto simp: plan_error_def split: sum.splits)

text \<open>C7. A capability is lowered in dependency order: its tools can be ordered exactly when their
  prerequisites among each other have no cycle, and then every tool comes once, after the members
  it requires; otherwise the cycle is reported.\<close>

theorem capability_order_exists_iff_acyclic:
  "case ordered_runtime_names rs of
     Inr xs \<Rightarrow> acyclic (dependency_edges (by_name rs)) \<and> dependency_order (by_name rs) xs \<and> set xs = tool_name ` set rs
   | Inl e \<Rightarrow> \<not> acyclic (dependency_edges (by_name rs)) \<and> e = cycle_error"
  by (rule ordered_runtime_names_cases [of rs]) simp_all

text \<open>Projection and resolution are inverse: selecting every name that the planner is shown
  resolves to exactly the enabled runtime tools.\<close>

theorem planning_names_resolve_back:
  assumes "projected_planning_tool_names rs enabled = Inr names" and "set selected = names"
  shows "runtime_tool_names_for_planning_names rs enabled selected = Inr (tool_name ` set (enabled_registrations rs enabled))"
  by (rule projection_resolves [OF assms])

theorem planning_names_resolve_back_witness:
  "runtime_tool_names_for_planning_names sample_tools {''fetch'', ''stage'', ''push''} [''publish'', ''fetch''] =
     Inr (tool_name ` set (enabled_registrations sample_tools {''fetch'', ''stage'', ''push''}))"
proof -
  have "projected_planning_tool_names sample_tools {''fetch'', ''stage'', ''push''} = Inr {''publish'', ''fetch''}" by code_simp
  then show ?thesis by (rule planning_names_resolve_back) simp
qed

text \<open>The steps shown to the planner never name a tool that hides behind a capability.\<close>

theorem projected_steps_hide_private_tools:
  assumes "project_completed_steps_for_planning steps rs enabled = Inr out"
    and "\<forall>r \<in> set rs. \<forall>c. tr_planning_capability r = Some c \<longrightarrow> clean_id (sch_name c)"
    and "s \<in> set out" and "r \<in> set rs" and "tool_name r \<in> enabled" and "tr_planning_capability r \<noteq> None"
  shows "st_suggested_tools s \<noteq> tool_name r # rest"
proof -
  obtain caps parts where caps: "planning_capabilities rs enabled = Inr caps"
    and parts: "map_result (project_completed_step caps) steps = Inr parts" "out = concat parts"
    using assms(1) by (auto simp: project_completed_steps_for_planning_def bind_result_Inr_iff)
  obtain part where part: "part \<in> set parts" "s \<in> set part" using assms(3) parts(2) by auto
  obtain x where "project_completed_step caps x = Inr part" using map_result_in [OF parts(1) part(1)] by blast
  from project_completed_step_hides [OF caps this part(2) assms(2) assms(4-6)] show ?thesis .
qed

section \<open>A member lowered twice\<close>

text \<open>
  The members to lower are chosen before the prerequisites of the first are inserted. A member that
  is an indirect prerequisite of another through a public tool is then inserted as a prerequisite
  and lowered once more, as the last step and so under the identity of the work step.
\<close>

definition crossed_tools :: "tool_registration list" where
  "crossed_tools = [sample_tool ''push'' [''lint''] (Some ''publish''), sample_tool ''stage'' [] (Some ''publish''),
     sample_tool ''lint'' [''stage''] None]"

theorem crossed_member_is_lowered_twice:
  "case compile_work_plan sample_work_plan crossed_tools open_constraints {} None of Inl e \<Rightarrow> False
   | Inr c \<Rightarrow> ce_inserted_tool_names c = [''stage'', ''lint''] \<and> ce_lowered_tool_names c = [''push'', ''stage'']"
  by code_simp

end
