(* ===== verification/Agent_Contracts.thy ===== *)
theory Agent_Contracts
  imports Json_Values
begin

text \<open>
  \<open>purra/agent_tree/contracts.py\<close>: the value contracts of recursive Agents (nodes, Runs,
  capability grants, checkpoints, commands and receipts). A record holds raw field values,
  \<open>X_post_init\<close> is the constructor's \<open>__post_init__\<close>. Fields arrive with their declared types,
  so the \<open>isinstance\<close> guards have no counterpart.
\<close>

section \<open>Data\<close>

datatype agent_node_state = Node_ACTIVE | Node_CLOSED

datatype agent_tree_run_status =
  Tree_QUEUED | Tree_RUNNING | Tree_WAITING | Tree_DONE | Tree_FAILED | Tree_CANCELED

definition ACTIVE_RUN_STATUSES :: "agent_tree_run_status set" where
  "ACTIVE_RUN_STATUSES = {Tree_QUEUED, Tree_RUNNING, Tree_WAITING}"

definition TERMINAL_RUN_STATUSES :: "agent_tree_run_status set" where
  "TERMINAL_RUN_STATUSES = {Tree_DONE, Tree_FAILED, Tree_CANCELED}"

record agent_capability_grant =
  cg_can_spawn_agents :: bool
  cg_max_depth :: int
  cg_max_children_per_call :: int
  cg_max_agents_per_root :: int
  cg_max_parallel_runs :: int
  cg_allowed_tools :: "string list"
  cg_allowed_models :: "string list"

record agent_node =
  an_agent_id :: string
  an_root_agent_id :: string
  an_parent_agent_id :: "string option"
  an_depth :: int
  an_created_by_run_id :: string
  an_created_by_call_id :: string
  an_name :: string
  an_title :: string
  an_instruction :: string
  an_capability_grant :: agent_capability_grant
  an_context_version :: int
  an_context_checkpoint_id :: "string option"
  an_latest_run_id :: "string option"
  an_state :: agent_node_state

record agent_tree_run =
  ar_run_id :: string
  ar_agent_id :: string
  ar_root_run_id :: string
  ar_parent_run_id :: "string option"
  ar_previous_run_id :: "string option"
  ar_spawn_batch_id :: "string option"
  ar_objective :: string
  ar_input_payload :: json_mapping
  ar_required :: bool
  ar_priority :: int
  ar_status :: agent_tree_run_status
  ar_result :: json
  ar_error_code :: "string option"
  ar_created_sequence :: int
  ar_lease_owner_id :: "string option"
  ar_lease_epoch :: int
  ar_lease_expires_at_ms :: "int option"
  ar_dependency_run_ids :: "string list"

record context_checkpoint =
  cc_checkpoint_id :: string
  cc_agent_id :: string
  cc_version :: int
  cc_previous_checkpoint_id :: "string option"
  cc_source_run_id :: string
  cc_content_ref :: string
  cc_fingerprint :: string

record child_agent_spec =
  sp_name :: string
  sp_title :: string
  sp_instruction :: string
  sp_objective :: string
  sp_input_payload :: json_mapping
  sp_required :: bool
  sp_priority :: int
  sp_capability_grant :: "agent_capability_grant option"
  sp_depends_on :: "string list"

record begin_root_agent_command =
  br_run_id :: string
  br_agent_id :: string
  br_name :: string
  br_title :: string
  br_instruction :: string
  br_objective :: string
  br_capability_grant :: agent_capability_grant
  br_idempotency_key :: string

record spawn_agents_command =
  sc_parent_run_id :: string
  sc_idempotency_key :: string
  sc_children :: "child_agent_spec list"
  sc_lease_owner_id :: "string option"
  sc_lease_epoch :: "int option"

record continue_agent_command =
  co_requester_run_id :: string
  co_idempotency_key :: string
  co_agent_id :: string
  co_expected_context_version :: int
  co_message :: string
  co_required :: bool
  co_priority :: int
  co_lease_owner_id :: "string option"
  co_lease_epoch :: "int option"

record spawned_agent =
  sa_agent :: agent_node
  sa_run :: agent_tree_run

record spawn_agents_receipt =
  sr_batch_id :: string
  sr_items :: "spawned_agent list"
  sr_replayed :: bool

record continue_agent_receipt =
  cr_agent :: agent_node
  cr_run :: agent_tree_run
  cr_replayed :: bool

record agent_run_aggregation =
  ag_state :: string
  ag_pending_run_ids :: "string list"
  ag_required_failures :: "string list"
  ag_results :: "json_mapping list"

definition ar_terminal :: "agent_tree_run \<Rightarrow> bool" where
  "ar_terminal r \<longleftrightarrow> ar_status r \<in> TERMINAL_RUN_STATUSES"

definition ar_active :: "agent_tree_run \<Rightarrow> bool" where
  "ar_active r \<longleftrightarrow> ar_status r \<in> ACTIVE_RUN_STATUSES"

section \<open>Dependency names and cycles\<close>

definition dependency_names :: "string list \<Rightarrow> string list result" where
  "dependency_names values =
     bind_result (map_result (\<lambda>v. required_text v ''dependency'') values) (\<lambda>names.
     if \<not> distinct names then Inl (ValueError ''dependencies must be unique'') else Inr names)"

text \<open>
  \<open>graphlib.TopologicalSorter(graph).static_order()\<close>: rounds of nodes whose predecessors have
  all been handed out; \<open>CycleError\<close> is raised exactly when some node is never ready. A
  predecessor that is no key of the graph is a node without predecessors.
\<close>

lemma filter_shrinks: "filter P xs \<noteq> xs \<Longrightarrow> length (filter P xs) < length xs"
  by (auto simp: filter_id_conv intro: length_filter_less)

function topological_rounds ::
    "(string \<times> string list) list \<Rightarrow> (string \<times> string list) list" where
  "topological_rounds graph =
     (let pending = map fst graph;
          rest = filter (\<lambda>(n, deps). \<exists>d \<in> set deps. d \<in> set pending) graph
      in if rest = graph then graph else topological_rounds rest)"
  by pat_completeness auto
termination
  by (relation "measure length") (auto intro: filter_shrinks)

declare topological_rounds.simps [simp del]

definition has_cycle :: "(string \<times> string list) list \<Rightarrow> bool" where
  "has_cycle graph \<longleftrightarrow> topological_rounds graph \<noteq> []"

section \<open>Constructors\<close>

definition AgentCapabilityGrant_post_init :: "agent_capability_grant \<Rightarrow> agent_capability_grant result" where
  "AgentCapabilityGrant_post_init g =
     bind_result (positive_int (cg_max_depth g) ''max depth'') (\<lambda>depth.
     bind_result (positive_int (cg_max_children_per_call g) ''max children per call'') (\<lambda>children.
     bind_result (positive_int (cg_max_agents_per_root g) ''max agents per root'') (\<lambda>agents.
     bind_result (positive_int (cg_max_parallel_runs g) ''max parallel runs'') (\<lambda>parallel.
     Inr (g\<lparr>cg_max_depth := depth, cg_max_children_per_call := children,
       cg_max_agents_per_root := agents, cg_max_parallel_runs := parallel,
       cg_allowed_tools := unique_text_tuple (cg_allowed_tools g),
       cg_allowed_models := unique_text_tuple (cg_allowed_models g)\<rparr>)))))"

definition agent_escalation :: "string \<Rightarrow> 'a result" where
  "agent_escalation msg = Inl (ContractViolation ''agent_capability_escalation'' msg)"

definition authorize_child ::
    "agent_capability_grant \<Rightarrow> agent_capability_grant option \<Rightarrow> agent_capability_grant result" where
  "authorize_child self requested =
     (let child = (case requested of None \<Rightarrow> self | Some g \<Rightarrow> g) in
      if cg_can_spawn_agents child \<and> \<not> cg_can_spawn_agents self then
        agent_escalation ''child cannot gain spawn authority''
      else if cg_max_depth child > cg_max_depth self then
        agent_escalation ''child cannot increase max_depth''
      else if cg_max_children_per_call child > cg_max_children_per_call self then
        agent_escalation ''child cannot increase max_children_per_call''
      else if cg_max_agents_per_root child > cg_max_agents_per_root self then
        agent_escalation ''child cannot increase max_agents_per_root''
      else if cg_max_parallel_runs child > cg_max_parallel_runs self then
        agent_escalation ''child cannot increase max_parallel_runs''
      else if \<not> set (cg_allowed_tools child) \<subseteq> set (cg_allowed_tools self) then
        agent_escalation ''child cannot gain tools''
      else if \<not> set (cg_allowed_models child) \<subseteq> set (cg_allowed_models self) then
        agent_escalation ''child cannot gain models''
      else Inr child)"

definition AgentCapabilityGrant_to_mapping :: "agent_capability_grant \<Rightarrow> json_mapping" where
  "AgentCapabilityGrant_to_mapping g =
     [(''canSpawnAgents'', JBool (cg_can_spawn_agents g)),
      (''maxDepth'', JInt (cg_max_depth g)),
      (''maxChildrenPerCall'', JInt (cg_max_children_per_call g)),
      (''maxAgentsPerRoot'', JInt (cg_max_agents_per_root g)),
      (''maxParallelRuns'', JInt (cg_max_parallel_runs g)),
      (''allowedTools'', json_texts (cg_allowed_tools g)),
      (''allowedModels'', json_texts (cg_allowed_models g))]"

definition AgentNode_post_init :: "agent_node \<Rightarrow> agent_node result" where
  "AgentNode_post_init a =
     bind_result (required_text (an_agent_id a) ''Agent id'') (\<lambda>agent_id.
     bind_result (required_text (an_root_agent_id a) ''root Agent id'') (\<lambda>root_id.
     bind_result (required_text (an_created_by_run_id a) ''Agent creator Run id'') (\<lambda>creator_run.
     bind_result (required_text (an_created_by_call_id a) ''Agent creator call id'') (\<lambda>creator_call.
     bind_result (required_text (an_name a) ''Agent name'') (\<lambda>name.
     bind_result (required_text (an_title a) ''Agent title'') (\<lambda>title.
     bind_result (required_text (an_instruction a) ''Agent instruction'') (\<lambda>instruction.
     bind_result (required_text_opt (an_parent_agent_id a) ''parent Agent id'') (\<lambda>parent.
     bind_result (non_negative_int (an_depth a) ''Agent depth'') (\<lambda>depth.
     if (parent = None) \<noteq> (depth = 0) then
       Inl (ValueError ''only a root Agent may have depth zero'')
     else
     bind_result (non_negative_int (an_context_version a) ''Agent context version'') (\<lambda>version.
     bind_result (required_text_opt (an_context_checkpoint_id a) ''context checkpoint id'') (\<lambda>checkpoint.
     bind_result (required_text_opt (an_latest_run_id a) ''latest Agent Run id'') (\<lambda>latest.
     Inr (a\<lparr>an_agent_id := agent_id, an_root_agent_id := root_id,
       an_created_by_run_id := creator_run, an_created_by_call_id := creator_call,
       an_name := name, an_title := title, an_instruction := instruction,
       an_parent_agent_id := parent, an_depth := depth, an_context_version := version,
       an_context_checkpoint_id := checkpoint, an_latest_run_id := latest\<rparr>)))))))))))))"

definition AgentTreeRun_post_init :: "agent_tree_run \<Rightarrow> agent_tree_run result" where
  "AgentTreeRun_post_init r =
     bind_result (dependency_names (ar_dependency_run_ids r)) (\<lambda>deps.
     bind_result (required_text (ar_run_id r) ''Agent Run id'') (\<lambda>run_id.
     bind_result (required_text (ar_agent_id r) ''Agent Run Agent id'') (\<lambda>agent_id.
     bind_result (required_text (ar_root_run_id r) ''root Run id'') (\<lambda>root_id.
     bind_result (required_text (ar_objective r) ''Agent Run objective'') (\<lambda>objective.
     bind_result (required_text_opt (ar_parent_run_id r) ''parent Run id'') (\<lambda>parent.
     bind_result (required_text_opt (ar_previous_run_id r) ''previous Run id'') (\<lambda>previous.
     bind_result (required_text_opt (ar_spawn_batch_id r) ''spawn batch id'') (\<lambda>batch.
     let error_code = optional_text (ar_error_code r) in
     if ar_status r = Tree_DONE \<and> error_code \<noteq> None then
       Inl (ValueError ''completed Agent Run cannot carry an error'')
     else if ar_status r \<in> {Tree_FAILED, Tree_CANCELED} \<and> error_code = None then
       Inl (ValueError ''failed or canceled Agent Run requires an error code'')
     else
     bind_result (non_negative_int (ar_created_sequence r) ''Agent Run sequence'') (\<lambda>created.
     bind_result (required_text_opt (ar_lease_owner_id r) ''Agent Run lease owner'') (\<lambda>owner.
     bind_result (non_negative_int (ar_lease_epoch r) ''Agent Run lease epoch'') (\<lambda>epoch.
     bind_result (optional_positive_int (ar_lease_expires_at_ms r) ''Agent Run lease expiry'') (\<lambda>expires.
     if (owner = None) \<noteq> (expires = None) then
       Inl (ValueError ''Agent Run lease owner and expiry must match'')
     else Inr (r\<lparr>ar_dependency_run_ids := deps, ar_run_id := run_id, ar_agent_id := agent_id,
       ar_root_run_id := root_id, ar_objective := objective, ar_parent_run_id := parent,
       ar_previous_run_id := previous, ar_spawn_batch_id := batch, ar_error_code := error_code,
       ar_created_sequence := created, ar_lease_owner_id := owner, ar_lease_epoch := epoch,
       ar_lease_expires_at_ms := expires\<rparr>)))))))))))))"

definition ContextCheckpoint_post_init :: "context_checkpoint \<Rightarrow> context_checkpoint result" where
  "ContextCheckpoint_post_init c =
     bind_result (required_text (cc_checkpoint_id c) ''context checkpoint id'') (\<lambda>checkpoint_id.
     bind_result (required_text (cc_agent_id c) ''context checkpoint Agent id'') (\<lambda>agent_id.
     bind_result (required_text (cc_source_run_id c) ''context checkpoint Run id'') (\<lambda>run_id.
     bind_result (required_text (cc_content_ref c) ''context checkpoint content reference'') (\<lambda>content.
     bind_result (required_text (cc_fingerprint c) ''context checkpoint fingerprint'') (\<lambda>fingerprint.
     bind_result (positive_int (cc_version c) ''context checkpoint version'') (\<lambda>version.
     bind_result (required_text_opt (cc_previous_checkpoint_id c) ''previous context checkpoint id'') (\<lambda>previous.
     Inr (c\<lparr>cc_checkpoint_id := checkpoint_id, cc_agent_id := agent_id, cc_source_run_id := run_id,
       cc_content_ref := content, cc_fingerprint := fingerprint, cc_version := version,
       cc_previous_checkpoint_id := previous\<rparr>))))))))"

definition ChildAgentSpec_post_init :: "child_agent_spec \<Rightarrow> child_agent_spec result" where
  "ChildAgentSpec_post_init c =
     bind_result (dependency_names (sp_depends_on c)) (\<lambda>deps.
     bind_result (required_text (sp_name c) ''child Agent name'') (\<lambda>name.
     bind_result (required_text (sp_title c) ''child Agent title'') (\<lambda>title.
     bind_result (required_text (sp_instruction c) ''child Agent instruction'') (\<lambda>instruction.
     bind_result (required_text (sp_objective c) ''child Agent objective'') (\<lambda>objective.
     Inr (c\<lparr>sp_depends_on := deps, sp_name := name, sp_title := title,
       sp_instruction := instruction, sp_objective := objective\<rparr>))))))"

definition ChildAgentSpec_to_mapping :: "child_agent_spec \<Rightarrow> json_mapping" where
  "ChildAgentSpec_to_mapping c =
     [(''dependsOn'', json_texts (sp_depends_on c)),
      (''name'', JStr (sp_name c)),
      (''title'', JStr (sp_title c)),
      (''instruction'', JStr (sp_instruction c)),
      (''objective'', JStr (sp_objective c)),
      (''input'', JObj (sp_input_payload c)),
      (''required'', JBool (sp_required c)),
      (''priority'', JInt (sp_priority c)),
      (''capabilityGrant'', case sp_capability_grant c of None \<Rightarrow> JNull
         | Some g \<Rightarrow> JObj (AgentCapabilityGrant_to_mapping g))]"

definition BeginRootAgentCommand_post_init :: "begin_root_agent_command \<Rightarrow> begin_root_agent_command result" where
  "BeginRootAgentCommand_post_init c =
     bind_result (required_text (br_run_id c) ''root Run id'') (\<lambda>run_id.
     bind_result (required_text (br_agent_id c) ''root Agent id'') (\<lambda>agent_id.
     bind_result (required_text (br_name c) ''root Agent name'') (\<lambda>name.
     bind_result (required_text (br_title c) ''root Agent title'') (\<lambda>title.
     bind_result (required_text (br_instruction c) ''root Agent instruction'') (\<lambda>instruction.
     bind_result (required_text (br_objective c) ''root Run objective'') (\<lambda>objective.
     bind_result (required_text (br_idempotency_key c) ''root Agent idempotency key'') (\<lambda>key.
     Inr (c\<lparr>br_run_id := run_id, br_agent_id := agent_id, br_name := name, br_title := title,
       br_instruction := instruction, br_objective := objective, br_idempotency_key := key\<rparr>))))))))"

definition normalize_command_lease ::
    "string option \<Rightarrow> int option \<Rightarrow> (string option \<times> int option) result" where
  "normalize_command_lease lease_owner_id lease_epoch =
     (let owner = optional_text lease_owner_id in
      bind_result (optional_non_negative_int lease_epoch ''Agent Run lease epoch'') (\<lambda>epoch.
      if (owner = None) \<noteq> (epoch = None) then
        Inl (ValueError ''Agent Run lease owner and epoch must be provided together'')
      else Inr (owner, epoch)))"

definition SpawnAgentsCommand_post_init :: "spawn_agents_command \<Rightarrow> spawn_agents_command result" where
  "SpawnAgentsCommand_post_init c =
     bind_result (required_text (sc_parent_run_id c) ''parent Run id'') (\<lambda>parent.
     bind_result (required_text (sc_idempotency_key c) ''spawn idempotency key'') (\<lambda>key.
     let children = sc_children c; names = map sp_name children in
     if children = [] then Inl (ValueError ''spawn command requires child Agent specs'')
     else if \<not> distinct names then
       Inl (ValueError ''spawned Agent names must be unique in one command'')
     else if \<exists>item \<in> set children. \<not> set (sp_depends_on item) \<subseteq> set names then
       Inl (ValueError ''Child dependency must name a sibling in the spawn command'')
     else if has_cycle (map (\<lambda>item. (sp_name item, sp_depends_on item)) children) then
       Inl (ValueError ''Child dependencies must be acyclic'')
     else
     bind_result (normalize_command_lease (sc_lease_owner_id c) (sc_lease_epoch c)) (\<lambda>(owner, epoch).
     Inr (c\<lparr>sc_parent_run_id := parent, sc_idempotency_key := key,
       sc_lease_owner_id := owner, sc_lease_epoch := epoch\<rparr>))))"

definition ContinueAgentCommand_post_init :: "continue_agent_command \<Rightarrow> continue_agent_command result" where
  "ContinueAgentCommand_post_init c =
     bind_result (required_text (co_requester_run_id c) ''continuation requester Run id'') (\<lambda>requester.
     bind_result (required_text (co_idempotency_key c) ''continuation idempotency key'') (\<lambda>key.
     bind_result (required_text (co_agent_id c) ''continued Agent id'') (\<lambda>agent_id.
     bind_result (required_text (co_message c) ''continuation message'') (\<lambda>message.
     bind_result (non_negative_int (co_expected_context_version c) ''expected Agent context version'') (\<lambda>version.
     bind_result (normalize_command_lease (co_lease_owner_id c) (co_lease_epoch c)) (\<lambda>(owner, epoch).
     Inr (c\<lparr>co_requester_run_id := requester, co_idempotency_key := key, co_agent_id := agent_id,
       co_message := message, co_expected_context_version := version,
       co_lease_owner_id := owner, co_lease_epoch := epoch\<rparr>)))))))"

text \<open>\<open>validate_stored_dependencies\<close> over the stored mapping of Runs.\<close>

definition stored_dependency_ok :: "(string, agent_tree_run) dict \<Rightarrow> agent_tree_run \<Rightarrow> string \<Rightarrow> bool" where
  "stored_dependency_ok runs r d =
     (case map_of runs d of
        None \<Rightarrow> False
      | Some dep \<Rightarrow> ar_parent_run_id r \<noteq> None \<and> ar_parent_run_id dep = ar_parent_run_id r
          \<and> ar_root_run_id dep = ar_root_run_id r)"

fun validate_stored_runs ::
    "(string, agent_tree_run) dict \<Rightarrow> (string, agent_tree_run) dict \<Rightarrow> unit result" where
  "validate_stored_runs runs [] = Inr ()"
| "validate_stored_runs runs ((identity, r) # rest) =
     (if identity \<noteq> ar_run_id r then Inl (ValueError ''stored dependency Run identity mismatch'')
      else if \<not> list_all (stored_dependency_ok runs r) (ar_dependency_run_ids r) then
        Inl (ValueError ''stored dependency is outside its sibling scope'')
      else validate_stored_runs runs rest)"

definition validate_stored_dependencies :: "(string, agent_tree_run) dict \<Rightarrow> unit result" where
  "validate_stored_dependencies runs =
     bind_result (validate_stored_runs runs runs) (\<lambda>_.
     if has_cycle (map (\<lambda>(identity, r). (identity, ar_dependency_run_ids r)) runs) then
       Inl (ValueError ''stored dependency graph is cyclic'')
     else Inr ())"

section \<open>The topological sorter finds exactly the cycles\<close>

definition graph_edges :: "(string \<times> string list) list \<Rightarrow> (string \<times> string) set" where
  "graph_edges graph = {(d, n). \<exists>deps. (n, deps) \<in> set graph \<and> d \<in> set deps}"

lemma graph_edges_mono: "set g \<subseteq> set h \<Longrightarrow> graph_edges g \<subseteq> graph_edges h"
  by (auto simp: graph_edges_def)

lemma finite_graph_edges: "finite (graph_edges graph)"
proof -
  have "graph_edges graph = (\<Union>(n, deps) \<in> set graph. (\<lambda>d. (d, n)) ` set deps)"
    by (auto simp: graph_edges_def)
  then show ?thesis by auto
qed

lemma topological_rounds_subset: "set (topological_rounds graph) \<subseteq> set graph"
proof (induction graph rule: topological_rounds.induct)
  case (1 graph)
  then show ?case
    by (subst topological_rounds.simps) (auto simp: Let_def)
qed

lemma topological_rounds_stuck:
  "(n, deps) \<in> set (topological_rounds graph) \<Longrightarrow>
   \<exists>d \<in> set deps. d \<in> fst ` set (topological_rounds graph)"
proof (induction graph rule: topological_rounds.induct)
  case (1 graph)
  define rest where "rest = filter (\<lambda>(n, deps). \<exists>d \<in> set deps. d \<in> set (map fst graph)) graph"
  show ?case
  proof (cases "rest = graph")
    case True
    then have "topological_rounds graph = graph"
      by (subst topological_rounds.simps) (simp add: rest_def)
    moreover have "(n, deps) \<in> set rest" using 1(2) calculation True by simp
    ultimately show ?thesis by (auto simp: rest_def)
  next
    case False
    then have "topological_rounds graph = topological_rounds rest"
      by (subst topological_rounds.simps) (simp add: rest_def)
    with 1 False show ?thesis by (simp add: rest_def)
  qed
qed

lemma topological_rounds_acyclic: "topological_rounds graph = [] \<Longrightarrow> acyclic (graph_edges graph)"
proof (induction graph rule: topological_rounds.induct)
  case (1 graph)
  define rest where "rest = filter (\<lambda>(n, deps). \<exists>d \<in> set deps. d \<in> set (map fst graph)) graph"
  show ?case
  proof (cases "rest = graph")
    case True
    with 1(2) have "graph = []" by (subst (asm) topological_rounds.simps) (simp add: rest_def)
    then show ?thesis by (simp add: graph_edges_def acyclic_def)
  next
    case False
    then have "topological_rounds graph = topological_rounds rest"
      by (subst topological_rounds.simps) (simp add: rest_def)
    with 1 False have ac: "acyclic (graph_edges rest)" by (simp add: rest_def)
    have edge: "(a, b) \<in> graph_edges rest" if "(a, b) \<in> graph_edges graph" "a \<in> fst ` set graph" for a b
      using that by (auto simp: graph_edges_def rest_def)
    have "(a, b) \<in> (graph_edges rest)\<^sup>+" if "(a, b) \<in> (graph_edges graph)\<^sup>+" "a \<in> fst ` set graph" for a b
      using that(1)
    proof (induction rule: trancl_induct)
      case (base c)
      with edge that(2) show ?case by blast
    next
      case (step c d)
      have "c \<in> fst ` set graph"
        using step.hyps(1) by (cases rule: tranclE) (auto simp: graph_edges_def intro: rev_image_eqI)
      with step.hyps(2) have "(c, d) \<in> graph_edges rest" by (rule edge)
      with step.IH show ?case by (rule trancl_into_trancl)
    qed
    moreover have "x \<in> fst ` set graph" if "(x, x) \<in> (graph_edges graph)\<^sup>+" for x
      using that by (cases rule: tranclE) (auto simp: graph_edges_def intro: rev_image_eqI)
    ultimately show ?thesis using ac unfolding acyclic_def by blast
  qed
qed

lemma has_cycle_iff: "has_cycle graph \<longleftrightarrow> \<not> acyclic (graph_edges graph)"
proof
  assume "has_cycle graph"
  then obtain n deps where core: "(n, deps) \<in> set (topological_rounds graph)"
    by (cases "topological_rounds graph") (auto simp: has_cycle_def)
  let ?core = "topological_rounds graph"
  show "\<not> acyclic (graph_edges graph)"
  proof
    assume "acyclic (graph_edges graph)"
    then have "acyclic (graph_edges ?core)"
      by (rule acyclic_subset) (intro graph_edges_mono topological_rounds_subset)
    then have "wf (graph_edges ?core)"
      using finite_graph_edges finite_acyclic_wf by blast
    then obtain z where z: "z \<in> fst ` set ?core" "\<And>y. (y, z) \<in> graph_edges ?core \<Longrightarrow> y \<notin> fst ` set ?core"
      using core wfE_min [of "graph_edges ?core" n "fst ` set ?core"] by (metis fst_conv image_eqI)
    then obtain ds where zd: "(z, ds) \<in> set ?core" by auto
    from topological_rounds_stuck [OF zd] obtain d where d: "d \<in> set ds" "d \<in> fst ` set ?core" by blast
    then have "(d, z) \<in> graph_edges ?core" using zd by (auto simp: graph_edges_def)
    with z(2) d(2) show False by blast
  qed
next
  assume "\<not> acyclic (graph_edges graph)"
  then show "has_cycle graph" using topological_rounds_acyclic by (auto simp: has_cycle_def)
qed

end
