(* ===== verification/Agent_Tree.thy ===== *)
theory Agent_Tree
  imports Agent_Contracts "HOL-Library.Product_Lexorder"
begin

text \<open>
  \<open>purra/agent_tree/memory.py\<close>: \<open>InMemoryRunTreeRepository\<close>, the reference adapter of the Run
  tree port. Every operation runs under the repository's lock, so one call is one atomic step
  on \<open>agent_tree_state\<close> (\<open>AgentTreeState\<close> of \<open>purra/adapter_state.py\<close>, its dictionaries as
  insertion-ordered association lists).

  The clock is a reading \<open>now\<close> in milliseconds, one per operation and non-negative, as
  \<open>_now_ms\<close> checks; the digest is \<open>canonical_json_digest\<close> of the hash \<open>H\<close>. The optional
  \<open>_cancel_children\<close> hook of a host adapter is absent, as it is by default.

  Commands are the values their constructors return and stored values are normalized, so the
  constructors inside an operation do not raise and an operation that raises does so in its
  guards: it leaves the state alone, except \<open>complete_run\<close>, which may have
  advanced the checkpoint counter before its checkpoint is refused: it returns the state along
  with the result.
\<close>

section \<open>State\<close>

record agent_tree_state =
  ts_agents :: "(string, agent_node) dict"
  ts_runs :: "(string, agent_tree_run) dict"
  ts_checkpoints :: "(string, context_checkpoint) dict"
  ts_spawn_receipts :: "(string \<times> string, string \<times> spawn_agents_receipt) dict"
  ts_continue_receipts :: "(string \<times> string, string \<times> continue_agent_receipt) dict"
  ts_root_digests :: "(string, string) dict"
  ts_sequence :: nat
  ts_agent_sequence :: nat
  ts_run_sequence :: nat
  ts_batch_sequence :: nat
  ts_checkpoint_sequence :: nat

definition empty_tree :: "nat \<Rightarrow> agent_tree_state" where
  "empty_tree initial_run_sequence =
     \<lparr>ts_agents = [], ts_runs = [], ts_checkpoints = [], ts_spawn_receipts = [],
      ts_continue_receipts = [], ts_root_digests = [], ts_sequence = 0, ts_agent_sequence = 0,
      ts_run_sequence = initial_run_sequence, ts_batch_sequence = 0, ts_checkpoint_sequence = 0\<rparr>"

type_synonym 'a tree_op = "('a \<times> agent_tree_state) result"

definition put_run :: "agent_tree_run \<Rightarrow> agent_tree_state \<Rightarrow> agent_tree_state" where
  "put_run r s = s\<lparr>ts_runs := AList.update (ar_run_id r) r (ts_runs s)\<rparr>"

definition put_agent :: "agent_node \<Rightarrow> agent_tree_state \<Rightarrow> agent_tree_state" where
  "put_agent a s = s\<lparr>ts_agents := AList.update (an_agent_id a) a (ts_agents s)\<rparr>"

definition numbered :: "string \<Rightarrow> nat \<Rightarrow> string" where
  "numbered prefix n = prefix @ show_nat n"

section \<open>Lookups and guards\<close>

definition require_agent :: "agent_tree_state \<Rightarrow> string \<Rightarrow> agent_node result" where
  "require_agent s agent_id =
     bind_result (required_text agent_id ''Agent id'') (\<lambda>i.
     case map_of (ts_agents s) i of
       None \<Rightarrow> Inl (ContractViolation ''agent_not_found'' ''Agent does not exist'')
     | Some a \<Rightarrow> Inr a)"

definition require_active_agent :: "agent_tree_state \<Rightarrow> string \<Rightarrow> agent_node result" where
  "require_active_agent s agent_id =
     bind_result (require_agent s agent_id) (\<lambda>a.
     if an_state a = Node_CLOSED then Inl (ContractViolation ''agent_closed'' ''Agent is closed'')
     else Inr a)"

definition require_run :: "agent_tree_state \<Rightarrow> string \<Rightarrow> agent_tree_run result" where
  "require_run s run_id =
     bind_result (required_text run_id ''Agent Run id'') (\<lambda>i.
     case map_of (ts_runs s) i of
       None \<Rightarrow> Inl (ContractViolation ''child_run_not_found'' ''Agent Run does not exist'')
     | Some r \<Rightarrow> Inr r)"

definition require_active_run :: "agent_tree_state \<Rightarrow> string \<Rightarrow> agent_tree_run result" where
  "require_active_run s run_id =
     bind_result (require_run s run_id) (\<lambda>r.
     if ar_status r \<notin> {Tree_RUNNING, Tree_WAITING} then
       Inl (ContractViolation ''root_run_not_active'' ''Agent Run is not active'')
     else Inr r)"

definition lease_expired :: "agent_tree_run \<Rightarrow> nat \<Rightarrow> bool" where
  "lease_expired r now \<longleftrightarrow> ar_status r \<in> {Tree_RUNNING, Tree_WAITING}
     \<and> (case ar_lease_expires_at_ms r of None \<Rightarrow> False | Some t \<Rightarrow> int now \<ge> t)"

definition require_claim ::
    "agent_tree_run \<Rightarrow> string option \<Rightarrow> int option \<Rightarrow> nat \<Rightarrow> unit result" where
  "require_claim r lease_owner_id lease_epoch now =
     (let owner = optional_text lease_owner_id in
      bind_result (optional_non_negative_int lease_epoch ''Agent Run lease epoch'') (\<lambda>epoch.
      if ar_lease_owner_id r = None then
        (if owner = None \<and> epoch = None then Inr ()
         else Inl (ContractViolation ''agent_run_lease_lost'' ''Agent Run has no matching lease''))
      else if owner \<noteq> ar_lease_owner_id r \<or> epoch \<noteq> Some (ar_lease_epoch r) \<or> lease_expired r now then
        Inl (ContractViolation ''agent_run_lease_lost'' ''Agent Run lease is stale or expired'')
      else Inr ()))"

definition require_run_claim ::
    "agent_tree_state \<Rightarrow> string \<Rightarrow> string option \<Rightarrow> int option \<Rightarrow> nat \<Rightarrow> unit result" where
  "require_run_claim s run_id lease_owner_id lease_epoch now =
     bind_result (require_run s run_id) (\<lambda>r. require_claim r lease_owner_id lease_epoch now)"

definition has_active_run :: "agent_tree_state \<Rightarrow> string \<Rightarrow> bool" where
  "has_active_run s agent_id \<longleftrightarrow>
     (\<exists>r \<in> set (dict_values (ts_runs s)). ar_agent_id r = agent_id \<and> ar_active r)"

text \<open>
  The two pointer walks. A walk that has not ended after visiting as many entries as are
  stored runs in a circle: it never ends.
\<close>

fun ancestor_walk :: "nat \<Rightarrow> agent_tree_state \<Rightarrow> string \<Rightarrow> agent_node \<Rightarrow> bool result" where
  "ancestor_walk 0 s ancestor_id current = Inl NonTermination"
| "ancestor_walk (Suc n) s ancestor_id current =
     (if an_agent_id current = ancestor_id then Inr True
      else case an_parent_agent_id current of
        None \<Rightarrow> Inr False
      | Some p \<Rightarrow> bind_result (require_agent s p) (ancestor_walk n s ancestor_id))"

definition is_ancestor :: "agent_tree_state \<Rightarrow> string \<Rightarrow> string \<Rightarrow> bool result" where
  "is_ancestor s ancestor_id descendant_id =
     bind_result (require_agent s descendant_id)
       (ancestor_walk (length (ts_agents s)) s ancestor_id)"

fun causal_walk :: "nat \<Rightarrow> agent_tree_state \<Rightarrow> string \<Rightarrow> agent_tree_run \<Rightarrow> bool result" where
  "causal_walk 0 s parent_run_id current = Inl NonTermination"
| "causal_walk (Suc n) s parent_run_id current =
     (case ar_parent_run_id current of
        None \<Rightarrow> Inr False
      | Some p \<Rightarrow> if p = parent_run_id then Inr True
          else bind_result (require_run s p) (causal_walk n s parent_run_id))"

definition is_causal_descendant :: "agent_tree_state \<Rightarrow> string \<Rightarrow> string \<Rightarrow> bool result" where
  "is_causal_descendant s parent_run_id run_id =
     bind_result (require_run s run_id)
       (causal_walk (length (ts_runs s)) s parent_run_id)"

definition next_sequence :: "agent_tree_state \<Rightarrow> int \<times> agent_tree_state" where
  "next_sequence s = (int (Suc (ts_sequence s)), s\<lparr>ts_sequence := Suc (ts_sequence s)\<rparr>)"

definition participating_agents :: "agent_tree_state \<Rightarrow> string \<Rightarrow> string list" where
  "participating_agents s root_run_id =
     remdups (map ar_agent_id (filter (\<lambda>r. ar_root_run_id r = root_run_id) (dict_values (ts_runs s))))"

definition active_count :: "agent_tree_state \<Rightarrow> string \<Rightarrow> nat \<Rightarrow> nat" where
  "active_count s root_run_id now = length (filter (\<lambda>r. ar_root_run_id r = root_run_id
     \<and> ar_status r = Tree_RUNNING \<and> \<not> lease_expired r now) (dict_values (ts_runs s)))"

definition dependencies_terminal :: "agent_tree_state \<Rightarrow> agent_tree_run \<Rightarrow> bool result" where
  "dependencies_terminal s r =
     bind_result (any_result (\<lambda>d. bind_result (require_run s d) (\<lambda>dep. Inr (\<not> ar_terminal dep)))
       (ar_dependency_run_ids r)) (\<lambda>waiting. Inr (\<not> waiting))"

section \<open>Creating Runs\<close>

definition begin_root_digest :: "(json \<Rightarrow> string) \<Rightarrow> begin_root_agent_command \<Rightarrow> string" where
  "begin_root_digest H c = canonical_json_digest H (JObj
     [(''agentId'', JStr (br_agent_id c)),
      (''name'', JStr (br_name c)),
      (''title'', JStr (br_title c)),
      (''instruction'', JStr (br_instruction c)),
      (''objective'', JStr (br_objective c)),
      (''capabilityGrant'', JObj (AgentCapabilityGrant_to_mapping (br_capability_grant c))),
      (''idempotencyKey'', JStr (br_idempotency_key c))])"

definition root_agent_for :: "agent_tree_state \<Rightarrow> begin_root_agent_command \<Rightarrow> agent_node result" where
  "root_agent_for s c =
     (case map_of (ts_agents s) (br_agent_id c) of
        None \<Rightarrow> AgentNode_post_init
          \<lparr>an_agent_id = br_agent_id c, an_root_agent_id = br_agent_id c, an_parent_agent_id = None,
           an_depth = 0, an_created_by_run_id = br_run_id c,
           an_created_by_call_id = br_idempotency_key c, an_name = br_name c, an_title = br_title c,
           an_instruction = br_instruction c, an_capability_grant = br_capability_grant c,
           an_context_version = 0, an_context_checkpoint_id = None, an_latest_run_id = None,
           an_state = Node_ACTIVE\<rparr>
      | Some a \<Rightarrow>
          if an_parent_agent_id a \<noteq> None \<or> an_state a = Node_CLOSED
            \<or> an_capability_grant a \<noteq> br_capability_grant c then
            Inl (ContractViolation ''agent_scope_violation'' ''root Agent cannot be rebound'')
          else if has_active_run s (an_agent_id a) then
            Inl (ContractViolation ''agent_busy'' ''root Agent already has an active Run'')
          else Inr a)"

definition begin_root ::
    "(json \<Rightarrow> string) \<Rightarrow> agent_tree_state \<Rightarrow> begin_root_agent_command \<Rightarrow> agent_tree_run tree_op" where
  "begin_root H s c =
     (let digest = begin_root_digest H c in
      case map_of (ts_runs s) (br_run_id c) of
        Some existing \<Rightarrow>
          if map_of (ts_root_digests s) (br_run_id c) \<noteq> Some digest then
            Inl (ContractViolation ''child_spawn_idempotency_conflict''
              ''root Run id was reused with different input'')
          else Inr (existing, s)
      | None \<Rightarrow>
          bind_result (root_agent_for s c) (\<lambda>agent.
          let (created, s1) = next_sequence s in
          bind_result (AgentTreeRun_post_init
            \<lparr>ar_run_id = br_run_id c, ar_agent_id = an_agent_id agent, ar_root_run_id = br_run_id c,
             ar_parent_run_id = None, ar_previous_run_id = an_latest_run_id agent,
             ar_spawn_batch_id = None, ar_objective = br_objective c, ar_input_payload = [],
             ar_required = True, ar_priority = 0, ar_status = Tree_RUNNING, ar_result = JNull,
             ar_error_code = None, ar_created_sequence = created, ar_lease_owner_id = None,
             ar_lease_epoch = 0, ar_lease_expires_at_ms = None, ar_dependency_run_ids = []\<rparr>) (\<lambda>run.
          bind_result (AgentNode_post_init (agent\<lparr>an_latest_run_id := Some (ar_run_id run)\<rparr>)) (\<lambda>agent'.
          Inr (run, put_agent agent' ((put_run run s1)\<lparr>ts_root_digests :=
            AList.update (ar_run_id run) digest (ts_root_digests s1)\<rparr>))))))"

definition child_agent ::
    "agent_node \<Rightarrow> agent_tree_run \<Rightarrow> string \<Rightarrow> child_agent_spec \<Rightarrow> agent_capability_grant
     \<Rightarrow> string \<Rightarrow> string \<Rightarrow> agent_node" where
  "child_agent parent_agent parent_run key spec grant agent_id run_id =
     \<lparr>an_agent_id = agent_id, an_root_agent_id = an_root_agent_id parent_agent,
      an_parent_agent_id = Some (an_agent_id parent_agent), an_depth = an_depth parent_agent + 1,
      an_created_by_run_id = ar_run_id parent_run, an_created_by_call_id = key,
      an_name = sp_name spec, an_title = sp_title spec, an_instruction = sp_instruction spec,
      an_capability_grant = grant, an_context_version = 0, an_context_checkpoint_id = None,
      an_latest_run_id = Some run_id, an_state = Node_ACTIVE\<rparr>"

definition child_run ::
    "agent_tree_run \<Rightarrow> string \<Rightarrow> child_agent_spec \<Rightarrow> string \<Rightarrow> string \<Rightarrow> string list \<Rightarrow> int
     \<Rightarrow> agent_tree_run" where
  "child_run parent_run batch_id spec agent_id run_id deps created =
     \<lparr>ar_run_id = run_id, ar_agent_id = agent_id, ar_root_run_id = ar_root_run_id parent_run,
      ar_parent_run_id = Some (ar_run_id parent_run), ar_previous_run_id = None,
      ar_spawn_batch_id = Some batch_id, ar_objective = sp_objective spec,
      ar_input_payload = sp_input_payload spec, ar_required = sp_required spec,
      ar_priority = sp_priority spec, ar_status = Tree_QUEUED, ar_result = JNull,
      ar_error_code = None, ar_created_sequence = created, ar_lease_owner_id = None,
      ar_lease_epoch = 0, ar_lease_expires_at_ms = None, ar_dependency_run_ids = deps\<rparr>"

text \<open>The loop of \<open>spawn_agents\<close> over the children and their authorized grants.\<close>

fun spawn_children ::
    "agent_node \<Rightarrow> agent_tree_run \<Rightarrow> string \<Rightarrow> string \<Rightarrow> (string \<times> string) list
     \<Rightarrow> (child_agent_spec \<times> agent_capability_grant) list \<Rightarrow> agent_tree_state
     \<Rightarrow> spawned_agent list tree_op" where
  "spawn_children parent_agent parent_run key batch_id dependency_ids [] s = Inr ([], s)"
| "spawn_children parent_agent parent_run key batch_id dependency_ids ((spec, grant) # rest) s =
     (let s1 = s\<lparr>ts_agent_sequence := Suc (ts_agent_sequence s),
                 ts_run_sequence := Suc (ts_run_sequence s)\<rparr>;
          agent_id = numbered ''agent-'' (ts_agent_sequence s1);
          run_id = numbered ''agent-run-'' (ts_run_sequence s1)
      in
      bind_result (AgentNode_post_init
        (child_agent parent_agent parent_run key spec grant agent_id run_id)) (\<lambda>agent.
      bind_result (map_result (\<lambda>name. case map_of dependency_ids name of
          None \<Rightarrow> Inl (KeyError name) | Some i \<Rightarrow> Inr i) (sp_depends_on spec)) (\<lambda>deps.
      let (created, s2) = next_sequence s1 in
      bind_result (AgentTreeRun_post_init
        (child_run parent_run batch_id spec agent_id run_id deps created)) (\<lambda>run.
      bind_result (spawn_children parent_agent parent_run key batch_id dependency_ids rest
        (put_run run (put_agent agent s2))) (\<lambda>(items, s').
      Inr (\<lparr>sa_agent = agent, sa_run = run\<rparr> # items, s'))))))"

definition spawn_digest :: "(json \<Rightarrow> string) \<Rightarrow> spawn_agents_command \<Rightarrow> string" where
  "spawn_digest H c = canonical_json_digest H (JObj
     [(''children'', JList (map (\<lambda>item. JObj (ChildAgentSpec_to_mapping item)) (sc_children c)))])"

definition spawn_admission ::
    "agent_tree_state \<Rightarrow> spawn_agents_command \<Rightarrow> nat
     \<Rightarrow> (agent_tree_run \<times> agent_node \<times> agent_capability_grant list) result" where
  "spawn_admission s c now =
     bind_result (require_active_run s (sc_parent_run_id c)) (\<lambda>parent_run.
     bind_result (require_claim parent_run (sc_lease_owner_id c) (sc_lease_epoch c) now) (\<lambda>_.
     bind_result (require_active_agent s (ar_agent_id parent_run)) (\<lambda>parent_agent.
     let grant = an_capability_grant parent_agent in
     if \<not> cg_can_spawn_agents grant then
       Inl (ContractViolation ''agent_capability_escalation'' ''Agent cannot create children'')
     else if an_depth parent_agent \<ge> cg_max_depth grant then
       Inl (ContractViolation ''agent_depth_exceeded'' ''maximum Agent depth was reached'')
     else if int (length (sc_children c)) > cg_max_children_per_call grant then
       Inl (ContractViolation ''agent_capacity_exceeded'' ''too many children in one call'')
     else if int (length (participating_agents s (ar_root_run_id parent_run)) + length (sc_children c))
         > cg_max_agents_per_root grant then
       Inl (ContractViolation ''agent_capacity_exceeded'' ''Root Agent capacity was exceeded'')
     else bind_result (map_result (\<lambda>spec. authorize_child grant (sp_capability_grant spec))
            (sc_children c)) (\<lambda>grants.
          Inr (parent_run, parent_agent, grants)))))"

definition spawn_agents ::
    "(json \<Rightarrow> string) \<Rightarrow> agent_tree_state \<Rightarrow> spawn_agents_command \<Rightarrow> nat
     \<Rightarrow> spawn_agents_receipt tree_op" where
  "spawn_agents H s c now =
     (let digest = spawn_digest H c;
          key = (sc_parent_run_id c, sc_idempotency_key c)
      in case map_of (ts_spawn_receipts s) key of
        Some (stored, receipt) \<Rightarrow>
          if stored \<noteq> digest then
            Inl (ContractViolation ''child_spawn_idempotency_conflict''
              ''spawn key was reused with different input'')
          else Inr (receipt\<lparr>sr_replayed := True\<rparr>, s)
      | None \<Rightarrow>
          bind_result (spawn_admission s c now) (\<lambda>(parent_run, parent_agent, grants).
          let dependency_ids = map (\<lambda>(index, spec). (sp_name spec,
                numbered ''agent-run-'' (ts_run_sequence s + index + 1)))
                (enumerate 0 (sc_children c));
              s1 = s\<lparr>ts_batch_sequence := Suc (ts_batch_sequence s)\<rparr>;
              batch_id = numbered ''agent-batch-'' (ts_batch_sequence s1)
          in bind_result (spawn_children parent_agent parent_run (sc_idempotency_key c) batch_id
               dependency_ids (zip (sc_children c) grants) s1) (\<lambda>(items, s2).
             let receipt = \<lparr>sr_batch_id = batch_id, sr_items = items, sr_replayed = False\<rparr>
             in Inr (receipt, s2\<lparr>ts_spawn_receipts :=
                  AList.update key (digest, receipt) (ts_spawn_receipts s2)\<rparr>))))"

definition continue_digest :: "(json \<Rightarrow> string) \<Rightarrow> continue_agent_command \<Rightarrow> string" where
  "continue_digest H c = canonical_json_digest H (JObj
     [(''agentId'', JStr (co_agent_id c)),
      (''contextVersion'', JInt (co_expected_context_version c)),
      (''message'', JStr (co_message c)),
      (''required'', JBool (co_required c)),
      (''priority'', JInt (co_priority c))])"

definition continue_admission ::
    "agent_tree_state \<Rightarrow> continue_agent_command \<Rightarrow> nat \<Rightarrow> (agent_tree_run \<times> agent_node) result" where
  "continue_admission s c now =
     bind_result (require_active_run s (co_requester_run_id c)) (\<lambda>requester.
     bind_result (require_claim requester (co_lease_owner_id c) (co_lease_epoch c) now) (\<lambda>_.
     bind_result (require_active_agent s (co_agent_id c)) (\<lambda>target.
     bind_result (require_active_agent s (ar_agent_id requester)) (\<lambda>requester_agent.
     if an_root_agent_id requester_agent \<noteq> an_root_agent_id target then
       Inl (ContractViolation ''agent_scope_violation'' ''continued Agent belongs to another tree'')
     else bind_result (is_ancestor s (an_agent_id requester_agent) (an_agent_id target)) (\<lambda>ancestor.
     if \<not> ancestor then
       Inl (ContractViolation ''agent_scope_violation'' ''requester is not an Agent ancestor'')
     else if an_context_version target \<noteq> co_expected_context_version c then
       Inl (ContractViolation ''agent_context_conflict'' ''Agent context version changed'')
     else if has_active_run s (an_agent_id target) then
       Inl (ContractViolation ''agent_busy'' ''Agent already has an active Run'')
     else bind_result (require_active_agent s (an_root_agent_id requester_agent)) (\<lambda>root.
     if an_agent_id target \<notin> set (participating_agents s (ar_root_run_id requester))
         \<and> int (length (participating_agents s (ar_root_run_id requester)))
            \<ge> cg_max_agents_per_root (an_capability_grant root) then
       Inl (ContractViolation ''agent_capacity_exceeded'' ''Root Agent capacity was exceeded'')
     else Inr (requester, target)))))))"

definition continued_run ::
    "agent_tree_run \<Rightarrow> agent_node \<Rightarrow> continue_agent_command \<Rightarrow> string \<Rightarrow> int \<Rightarrow> agent_tree_run" where
  "continued_run requester target c run_id created =
     \<lparr>ar_run_id = run_id, ar_agent_id = an_agent_id target, ar_root_run_id = ar_root_run_id requester,
      ar_parent_run_id = Some (ar_run_id requester), ar_previous_run_id = an_latest_run_id target,
      ar_spawn_batch_id = None, ar_objective = co_message c, ar_input_payload = [],
      ar_required = co_required c, ar_priority = co_priority c, ar_status = Tree_QUEUED,
      ar_result = JNull, ar_error_code = None, ar_created_sequence = created,
      ar_lease_owner_id = None, ar_lease_epoch = 0, ar_lease_expires_at_ms = None,
      ar_dependency_run_ids = []\<rparr>"

definition continue_agent ::
    "(json \<Rightarrow> string) \<Rightarrow> agent_tree_state \<Rightarrow> continue_agent_command \<Rightarrow> nat
     \<Rightarrow> continue_agent_receipt tree_op" where
  "continue_agent H s c now =
     (let digest = continue_digest H c;
          key = (co_requester_run_id c, co_idempotency_key c)
      in case map_of (ts_continue_receipts s) key of
        Some (stored, receipt) \<Rightarrow>
          if stored \<noteq> digest then
            Inl (ContractViolation ''child_spawn_idempotency_conflict''
              ''continuation key was reused with different input'')
          else Inr (receipt\<lparr>cr_replayed := True\<rparr>, s)
      | None \<Rightarrow>
          bind_result (continue_admission s c now) (\<lambda>(requester, target).
          let s1 = s\<lparr>ts_run_sequence := Suc (ts_run_sequence s)\<rparr>;
              (created, s2) = next_sequence s1
          in bind_result (AgentTreeRun_post_init (continued_run requester target c
               (numbered ''agent-run-'' (ts_run_sequence s1)) created)) (\<lambda>run.
             bind_result (AgentNode_post_init (target\<lparr>an_latest_run_id := Some (ar_run_id run)\<rparr>)) (\<lambda>next_agent.
             let receipt = \<lparr>cr_agent = next_agent, cr_run = run, cr_replayed = False\<rparr>
             in Inr (receipt, (put_run run (put_agent next_agent s2))\<lparr>ts_continue_receipts :=
                  AList.update key (digest, receipt) (ts_continue_receipts s2)\<rparr>)))))"

section \<open>Leases\<close>

definition claimable_status :: "agent_tree_run \<Rightarrow> nat \<Rightarrow> bool" where
  "claimable_status r now \<longleftrightarrow>
     ar_status r = Tree_QUEUED
     \<or> ar_status r = Tree_RUNNING
         \<and> (case ar_lease_expires_at_ms r of None \<Rightarrow> False | Some t \<Rightarrow> int now \<ge> t)
     \<or> ar_status r = Tree_WAITING \<and> ar_lease_owner_id r = None \<and> ar_lease_epoch r > 0"

definition claim_run ::
    "agent_tree_state \<Rightarrow> string \<Rightarrow> string \<Rightarrow> int \<Rightarrow> nat \<Rightarrow> agent_tree_run option tree_op" where
  "claim_run s run_id owner_id lease_duration_ms now =
     bind_result (required_text owner_id ''Agent Run lease owner'') (\<lambda>owner.
     bind_result (positive_int lease_duration_ms ''Agent Run lease duration'') (\<lambda>duration.
     bind_result (require_run s run_id) (\<lambda>r.
     if \<not> claimable_status r now then Inr (None, s)
     else bind_result (dependencies_terminal s r) (\<lambda>ready.
     if \<not> ready then Inr (None, s)
     else bind_result (require_run s (ar_root_run_id r)) (\<lambda>root_run.
     bind_result (require_active_agent s (ar_agent_id root_run)) (\<lambda>root.
     if int (active_count s (ar_root_run_id r) now) \<ge> cg_max_parallel_runs (an_capability_grant root)
     then Inr (None, s)
     else bind_result (AgentTreeRun_post_init (r\<lparr>ar_status := Tree_RUNNING,
            ar_lease_owner_id := Some owner, ar_lease_epoch := ar_lease_epoch r + 1,
            ar_lease_expires_at_ms := Some (int now + duration)\<rparr>)) (\<lambda>claimed.
          Inr (Some claimed, put_run claimed s))))))))"

definition suspend_run ::
    "agent_tree_state \<Rightarrow> string \<Rightarrow> string \<Rightarrow> int \<Rightarrow> nat \<Rightarrow> agent_tree_run tree_op" where
  "suspend_run s run_id lease_owner_id lease_epoch now =
     bind_result (require_run s run_id) (\<lambda>r.
     bind_result (require_claim r (Some lease_owner_id) (Some lease_epoch) now) (\<lambda>_.
     bind_result (AgentTreeRun_post_init (r\<lparr>ar_status := Tree_WAITING, ar_lease_owner_id := None,
       ar_lease_expires_at_ms := None\<rparr>)) (\<lambda>suspended.
     Inr (suspended, s\<lparr>ts_runs := AList.update run_id suspended (ts_runs s)\<rparr>))))"

definition renew_run_lease ::
    "agent_tree_state \<Rightarrow> string \<Rightarrow> string \<Rightarrow> int \<Rightarrow> int \<Rightarrow> nat \<Rightarrow> agent_tree_run tree_op" where
  "renew_run_lease s run_id owner_id lease_epoch lease_duration_ms now =
     bind_result (required_text owner_id ''Agent Run lease owner'') (\<lambda>owner.
     bind_result (non_negative_int lease_epoch ''Agent Run lease epoch'') (\<lambda>epoch.
     bind_result (positive_int lease_duration_ms ''Agent Run lease duration'') (\<lambda>duration.
     bind_result (require_active_run s run_id) (\<lambda>r.
     bind_result (require_claim r (Some owner) (Some epoch) now) (\<lambda>_.
     bind_result (AgentTreeRun_post_init (r\<lparr>ar_lease_expires_at_ms := Some (int now + duration)\<rparr>)) (\<lambda>renewed.
     Inr (renewed, put_run renewed s)))))))"

definition state_conflict :: py_error where
  "state_conflict = ContractViolation ''agent_run_state_conflict'' ''Agent Run state changed''"

definition mark_waiting ::
    "agent_tree_state \<Rightarrow> string \<Rightarrow> string option \<Rightarrow> int option \<Rightarrow> nat \<Rightarrow> agent_tree_run tree_op" where
  "mark_waiting s run_id lease_owner_id lease_epoch now =
     bind_result (require_run s run_id) (\<lambda>r.
     if ar_status r \<noteq> Tree_RUNNING then Inl state_conflict
     else bind_result (require_claim r lease_owner_id lease_epoch now) (\<lambda>_.
     bind_result (AgentTreeRun_post_init (r\<lparr>ar_status := Tree_WAITING\<rparr>)) (\<lambda>waiting.
     Inr (waiting, put_run waiting s))))"

definition release_waiting ::
    "agent_tree_state \<Rightarrow> string \<Rightarrow> string option \<Rightarrow> int option \<Rightarrow> nat \<Rightarrow> agent_tree_run tree_op" where
  "release_waiting s run_id lease_owner_id lease_epoch now =
     bind_result (require_run s run_id) (\<lambda>r.
     if ar_status r \<noteq> Tree_WAITING then Inl state_conflict
     else bind_result (require_claim r lease_owner_id lease_epoch now) (\<lambda>_.
     bind_result (require_run s (ar_root_run_id r)) (\<lambda>root_run.
     bind_result (require_active_agent s (ar_agent_id root_run)) (\<lambda>root.
     if int (active_count s (ar_root_run_id r) now) \<ge> cg_max_parallel_runs (an_capability_grant root)
     then Inl (ContractViolation ''agent_capacity_exceeded'' ''no root execution slot is available'')
     else bind_result (AgentTreeRun_post_init (r\<lparr>ar_status := Tree_RUNNING\<rparr>)) (\<lambda>resumed.
     Inr (resumed, put_run resumed s))))))"

section \<open>Settling Runs\<close>

definition complete_admission ::
    "agent_tree_state \<Rightarrow> string \<Rightarrow> int \<Rightarrow> string option \<Rightarrow> int option \<Rightarrow> nat
     \<Rightarrow> (agent_tree_run \<times> agent_node) result" where
  "complete_admission s run_id expected_context_version lease_owner_id lease_epoch now =
     bind_result (require_run s run_id) (\<lambda>r.
     if ar_status r \<noteq> Tree_RUNNING then
       Inl (ContractViolation ''agent_run_state_conflict'' ''only a running Run may complete'')
     else bind_result (require_claim r lease_owner_id lease_epoch now) (\<lambda>_.
     bind_result (any_result (\<lambda>item. if ar_terminal item then Inr False
         else is_causal_descendant s (ar_run_id r) (ar_run_id item))
       (filter (\<lambda>item. ar_root_run_id item = ar_root_run_id r) (dict_values (ts_runs s)))) (\<lambda>unfinished.
     if unfinished then Inl (ContractViolation ''root_run_not_quiescent'' ''Run has unfinished children'')
     else bind_result (require_active_agent s (ar_agent_id r)) (\<lambda>agent.
     if an_context_version agent \<noteq> expected_context_version then
       Inl (ContractViolation ''agent_context_conflict'' ''Agent context version changed'')
     else Inr (r, agent)))))"

definition complete_run ::
    "agent_tree_state \<Rightarrow> string \<Rightarrow> int \<Rightarrow> json \<Rightarrow> string \<Rightarrow> string \<Rightarrow> string option \<Rightarrow> int option \<Rightarrow> nat
     \<Rightarrow> agent_tree_state \<times> agent_tree_run result" where
  "complete_run s run_id expected_context_version result content_ref fingerprint
       lease_owner_id lease_epoch now =
     (case complete_admission s run_id expected_context_version lease_owner_id lease_epoch now of
        Inl e \<Rightarrow> (s, Inl e)
      | Inr (r, agent) \<Rightarrow>
          let s1 = s\<lparr>ts_checkpoint_sequence := Suc (ts_checkpoint_sequence s)\<rparr> in
          case bind_result (ContextCheckpoint_post_init
              \<lparr>cc_checkpoint_id = numbered ''context-'' (ts_checkpoint_sequence s1),
               cc_agent_id = an_agent_id agent, cc_version = an_context_version agent + 1,
               cc_previous_checkpoint_id = an_context_checkpoint_id agent,
               cc_source_run_id = ar_run_id r, cc_content_ref = content_ref,
               cc_fingerprint = fingerprint\<rparr>) (\<lambda>checkpoint.
            bind_result (AgentTreeRun_post_init (r\<lparr>ar_status := Tree_DONE, ar_result := result,
               ar_lease_owner_id := None, ar_lease_expires_at_ms := None\<rparr>)) (\<lambda>completed.
            bind_result (AgentNode_post_init (agent\<lparr>an_context_version := cc_version checkpoint,
               an_context_checkpoint_id := Some (cc_checkpoint_id checkpoint)\<rparr>)) (\<lambda>agent'.
            Inr (completed, put_agent agent' ((put_run completed s1)\<lparr>ts_checkpoints :=
              AList.update (cc_checkpoint_id checkpoint) checkpoint (ts_checkpoints s1)\<rparr>))))) of
            Inl e \<Rightarrow> (s1, Inl e)
          | Inr (completed, s2) \<Rightarrow> (s2, Inr completed))"

definition canceled_as :: "string \<Rightarrow> agent_tree_run \<Rightarrow> agent_tree_run" where
  "canceled_as reason r = r\<lparr>ar_status := Tree_CANCELED, ar_error_code := Some reason,
     ar_lease_owner_id := None, ar_lease_expires_at_ms := None\<rparr>"

text \<open>The loop over \<open>runs.values()\<close> that cancels the active causal descendants.\<close>

fun cancel_descendants :: "string \<Rightarrow> agent_tree_run list \<Rightarrow> agent_tree_state \<Rightarrow> agent_tree_state result" where
  "cancel_descendants run_id [] s = Inr s"
| "cancel_descendants run_id (item # items) s =
     bind_result (if ar_active item then is_causal_descendant s run_id (ar_run_id item) else Inr False) (\<lambda>hit.
     if hit then bind_result (AgentTreeRun_post_init (canceled_as ''ancestor_run_failed'' item)) (\<lambda>c.
       cancel_descendants run_id items (put_run c s))
     else cancel_descendants run_id items s)"

definition fail_run ::
    "agent_tree_state \<Rightarrow> string \<Rightarrow> string \<Rightarrow> string option \<Rightarrow> int option \<Rightarrow> nat \<Rightarrow> agent_tree_run tree_op" where
  "fail_run s run_id error_code lease_owner_id lease_epoch now =
     bind_result (required_text error_code ''Agent Run error code'') (\<lambda>err.
     bind_result (require_run s run_id) (\<lambda>r.
     if \<not> ar_active r then Inr (r, s)
     else bind_result (require_claim r lease_owner_id lease_epoch now) (\<lambda>_.
     bind_result (AgentTreeRun_post_init (r\<lparr>ar_status := Tree_FAILED, ar_error_code := Some err,
       ar_lease_owner_id := None, ar_lease_expires_at_ms := None\<rparr>)) (\<lambda>failed.
     bind_result (filter_result (\<lambda>item. if ar_active item
         then is_causal_descendant s (ar_run_id r) (ar_run_id item) else Inr False)
       (dict_values (ts_runs s))) (\<lambda>descendants.
     let s1 = put_run failed s in
     bind_result (cancel_descendants (ar_run_id r) (dict_values (ts_runs s1)) s1) (\<lambda>s2.
     Inr (failed, s2)))))))"

text \<open>
  \<open>cancel_subtree\<close> collects the subtree depth first. The stack is a list with its top first;
  Python appends the children of the popped entry, so the last one is visited next.
\<close>

definition subtree_children :: "agent_tree_state \<Rightarrow> string \<Rightarrow> string \<Rightarrow> string list" where
  "subtree_children s root_run_id current =
     map ar_run_id (filter (\<lambda>item. ar_root_run_id item = root_run_id
       \<and> ar_parent_run_id item = Some current) (dict_values (ts_runs s)))"

fun subtree_walk :: "nat \<Rightarrow> agent_tree_state \<Rightarrow> string \<Rightarrow> string list \<Rightarrow> string list result" where
  "subtree_walk n s root_run_id [] = Inr []"
| "subtree_walk 0 s root_run_id (current # pending) = Inl NonTermination"
| "subtree_walk (Suc n) s root_run_id (current # pending) =
     bind_result (subtree_walk n s root_run_id (rev (subtree_children s root_run_id current) @ pending))
       (\<lambda>ordered. Inr (current # ordered))"

fun cancel_listed :: "string list \<Rightarrow> agent_tree_state \<Rightarrow> string list tree_op" where
  "cancel_listed [] s = Inr ([], s)"
| "cancel_listed (current # rest) s =
     (case map_of (ts_runs s) current of
        None \<Rightarrow> Inl (KeyError current)
      | Some r \<Rightarrow>
          if ar_active r then
            bind_result (AgentTreeRun_post_init (canceled_as ''agent_run_canceled'' r)) (\<lambda>c.
            bind_result (cancel_listed rest (s\<lparr>ts_runs := AList.update current c (ts_runs s)\<rparr>)) (\<lambda>(canceled, s').
            Inr (current # canceled, s')))
          else cancel_listed rest s)"

definition cancel_subtree :: "agent_tree_state \<Rightarrow> string \<Rightarrow> string list tree_op" where
  "cancel_subtree s run_id =
     bind_result (require_run s run_id) (\<lambda>root.
     bind_result (subtree_walk (length (ts_runs s)) s (ar_root_run_id root) [ar_run_id root]) (\<lambda>ordered.
     bind_result (map_result (\<lambda>i. case map_of (ts_runs s) i of None \<Rightarrow> Inl (KeyError i) | Some r \<Rightarrow> Inr r)
       ordered) (\<lambda>_.
     cancel_listed ordered s)))"

definition close_agent :: "agent_tree_state \<Rightarrow> string \<Rightarrow> agent_node tree_op" where
  "close_agent s agent_id =
     bind_result (require_active_agent s agent_id) (\<lambda>agent.
     if has_active_run s (an_agent_id agent) then
       Inl (ContractViolation ''agent_busy'' ''Agent has an active Run'')
     else bind_result (AgentNode_post_init (agent\<lparr>an_state := Node_CLOSED\<rparr>)) (\<lambda>closed.
     Inr (closed, put_agent closed s)))"

definition transition_run ::
    "agent_tree_state \<Rightarrow> string \<Rightarrow> agent_tree_run_status set \<Rightarrow> agent_tree_run_status \<Rightarrow> agent_tree_run tree_op" where
  "transition_run s run_id expected status =
     bind_result (require_run s run_id) (\<lambda>r.
     if ar_status r \<notin> expected then Inl state_conflict
     else bind_result (AgentTreeRun_post_init (r\<lparr>ar_status := status\<rparr>)) (\<lambda>changed.
     Inr (changed, put_run changed s)))"

section \<open>Queries\<close>

fun tree_status_value :: "agent_tree_run_status \<Rightarrow> string" where
  "tree_status_value Tree_QUEUED = ''queued''"
| "tree_status_value Tree_RUNNING = ''running''"
| "tree_status_value Tree_WAITING = ''waiting''"
| "tree_status_value Tree_DONE = ''done''"
| "tree_status_value Tree_FAILED = ''failed''"
| "tree_status_value Tree_CANCELED = ''canceled''"

definition aggregate_runs ::
    "agent_tree_state \<Rightarrow> string \<Rightarrow> string list \<Rightarrow> agent_run_aggregation result" where
  "aggregate_runs s requester_run_id run_ids =
     bind_result (require_run s requester_run_id) (\<lambda>requester.
     bind_result (map_result (\<lambda>i. required_text i ''joined Agent Run id'') run_ids) (\<lambda>ids.
     bind_result (map_result (require_run s) (dict_fromkeys ids)) (\<lambda>rows.
     bind_result (any_result (\<lambda>row. if ar_root_run_id row \<noteq> ar_root_run_id requester then Inr True
         else bind_result (is_causal_descendant s (ar_run_id requester) (ar_run_id row)) (\<lambda>d. Inr (\<not> d)))
       rows) (\<lambda>escaped.
     if escaped then Inl (ContractViolation ''child_run_scope_violation'' ''joined Run escaped requester'')
     else
     let pending = map ar_run_id (filter ar_active rows);
         failures = map ar_run_id (filter (\<lambda>row. ar_required row
           \<and> ar_status row \<in> {Tree_FAILED, Tree_CANCELED}) rows)
     in Inr \<lparr>ag_state = (if pending \<noteq> [] then ''pending''
               else if failures \<noteq> [] then ''blocked'' else ''ready''),
             ag_pending_run_ids = pending, ag_required_failures = failures,
             ag_results = map (\<lambda>row. [(''agentId'', JStr (ar_agent_id row)),
               (''runId'', JStr (ar_run_id row)),
               (''status'', JStr (tree_status_value (ar_status row))),
               (''result'', ar_result row),
               (''errorCode'', json_opt_text (ar_error_code row))]) (filter ar_terminal rows)\<rparr>))))"

definition get_checkpoint :: "agent_tree_state \<Rightarrow> string \<Rightarrow> context_checkpoint result" where
  "get_checkpoint s checkpoint_id =
     bind_result (required_text checkpoint_id ''context checkpoint id'') (\<lambda>i.
     case map_of (ts_checkpoints s) i of
       None \<Rightarrow> Inl (ContractViolation ''agent_context_checkpoint_not_found''
         ''context checkpoint does not exist'')
     | Some c \<Rightarrow> Inr c)"

definition runnable_key :: "agent_tree_run \<Rightarrow> int \<times> int" where
  "runnable_key r = (- ar_priority r, ar_created_sequence r)"

definition list_runnable :: "agent_tree_state \<Rightarrow> string \<Rightarrow> nat \<Rightarrow> agent_tree_run list result" where
  "list_runnable s root_run_id now =
     bind_result (required_text root_run_id ''root Run id'') (\<lambda>root.
     bind_result (filter_result (\<lambda>r.
         if ar_root_run_id r \<noteq> root then Inr False
         else bind_result (dependencies_terminal s r) (\<lambda>ready.
           Inr (ready \<and> (ar_status r = Tree_QUEUED
             \<or> ar_status r = Tree_WAITING \<and> ar_lease_owner_id r = None \<and> ar_lease_epoch r > 0
             \<or> ar_status r = Tree_RUNNING \<and> lease_expired r now))))
       (dict_values (ts_runs s))) (\<lambda>rows.
     Inr (sort_key runnable_key rows)))"

definition list_agent_descendants ::
    "agent_tree_state \<Rightarrow> string \<Rightarrow> string option \<Rightarrow> int \<Rightarrow> agent_node list result" where
  "list_agent_descendants s agent_id after limit =
     (if \<not> (1 \<le> limit \<and> limit \<le> 51) then
        Inl (ValueError ''Agent page size must be between 1 and 51'')
      else
      bind_result (require_active_agent s agent_id) (\<lambda>_.
      bind_result (filter_result (\<lambda>a. if an_agent_id a = agent_id then Inr False
          else bind_result (is_ancestor s agent_id (an_agent_id a)) (\<lambda>d.
            Inr (d \<and> (case after of None \<Rightarrow> True | Some c \<Rightarrow> an_agent_id a > c))))
        (dict_values (ts_agents s))) (\<lambda>rows.
      Inr (take (nat limit) (sort_key an_agent_id rows)))))"

definition list_descendants :: "agent_tree_state \<Rightarrow> string \<Rightarrow> agent_tree_run list result" where
  "list_descendants s run_id =
     bind_result (required_text run_id ''ancestor Run id'') (\<lambda>parent.
     bind_result (require_run s parent) (\<lambda>_.
     bind_result (filter_result (\<lambda>r. is_causal_descendant s parent (ar_run_id r))
       (dict_values (ts_runs s))) (\<lambda>rows.
     Inr (sort_key ar_created_sequence rows))))"

end
