(* ===== verification/Agent_Tree_Invariant.thy ===== *)
theory Agent_Tree_Invariant
  imports Agent_Tree
begin

text \<open>
  The invariant of the Run tree repository and its preservation by every operation: stored
  values are the ones their constructors return, identities match their keys, parents and
  dependencies exist and belong to the same tree, grants only narrow towards the leaves,
  every Agent has at most one active Run, and only a running or waiting Run holds a lease.
\<close>

section \<open>Normal forms of the stored values\<close>

definition run_ok :: "agent_tree_run \<Rightarrow> bool" where
  "run_ok r \<longleftrightarrow> clean_ids (ar_dependency_run_ids r) \<and> clean_id (ar_run_id r) \<and> clean_id (ar_agent_id r)
     \<and> clean_id (ar_root_run_id r) \<and> clean_id (ar_objective r)
     \<and> clean_opt (ar_parent_run_id r) \<and> clean_opt (ar_previous_run_id r) \<and> clean_opt (ar_spawn_batch_id r)
     \<and> clean_opt (ar_error_code r)
     \<and> (ar_status r = Tree_DONE \<longrightarrow> ar_error_code r = None)
     \<and> (ar_status r \<in> {Tree_FAILED, Tree_CANCELED} \<longrightarrow> ar_error_code r \<noteq> None)
     \<and> 0 \<le> ar_created_sequence r \<and> clean_opt (ar_lease_owner_id r) \<and> 0 \<le> ar_lease_epoch r
     \<and> positive_opt (ar_lease_expires_at_ms r)
     \<and> (ar_lease_owner_id r = None \<longleftrightarrow> ar_lease_expires_at_ms r = None)"

definition agent_ok :: "agent_node \<Rightarrow> bool" where
  "agent_ok a \<longleftrightarrow> clean_id (an_agent_id a) \<and> clean_id (an_root_agent_id a)
     \<and> clean_id (an_created_by_run_id a) \<and> clean_id (an_created_by_call_id a)
     \<and> clean_id (an_name a) \<and> clean_id (an_title a) \<and> clean_id (an_instruction a)
     \<and> clean_opt (an_parent_agent_id a) \<and> 0 \<le> an_depth a
     \<and> (an_parent_agent_id a = None \<longleftrightarrow> an_depth a = 0)
     \<and> 0 \<le> an_context_version a \<and> clean_opt (an_context_checkpoint_id a)
     \<and> clean_opt (an_latest_run_id a)"

lemma dependency_names_Inr:
  "dependency_names xs = Inr ys \<longleftrightarrow> ys = map strip xs \<and> clean_ids ys"
proof -
  have "list_all2 (\<lambda>x y. required_text x ''dependency'' = Inr y) xs ys
      \<longleftrightarrow> ys = map strip xs \<and> [] \<notin> set ys" for ys
    by (induction xs arbitrary: ys) (auto simp: list_all2_Cons1 required_text_Inr)
  then have m: "map_result (\<lambda>v. required_text v ''dependency'') xs = Inr ys
      \<longleftrightarrow> ys = map strip xs \<and> [] \<notin> set ys" for ys
    by (simp add: map_result_Inr_iff)
  have clean: "clean_ids (map strip xs) \<longleftrightarrow> distinct (map strip xs) \<and> [] \<notin> set (map strip xs)"
    by (fastforce simp: clean_ids_def clean_id_def image_iff)
  show ?thesis
    unfolding dependency_names_def bind_result_Inr_iff if_Inl_eq_Inr m using clean by auto
qed

lemma dependency_names_clean: "clean_ids xs \<Longrightarrow> dependency_names xs = Inr xs"
proof -
  assume "clean_ids xs"
  then have "map strip xs = xs" by (auto simp: clean_ids_def clean_id_def intro: map_idI)
  with \<open>clean_ids xs\<close> show ?thesis by (simp add: dependency_names_Inr)
qed

lemma AgentTreeRun_post_init_ok:
  assumes "AgentTreeRun_post_init r = Inr r'"
  shows "run_ok r'"
  using assms unfolding AgentTreeRun_post_init_def Let_def bind_result_Inr_iff if_Inl_eq_Inr
  apply (elim exE conjE)
  apply (drule required_text_result_clean)+
  apply (drule required_text_opt_result_clean)+
  apply (clarsimp simp: dependency_names_Inr normalizer_Inr)
  apply (auto simp: run_ok_def positive_opt_def)
  done

lemma AgentTreeRun_post_init_id:
  assumes "run_ok r"
  shows "AgentTreeRun_post_init r = Inr r"
proof -
  have "optional_positive_int (ar_lease_expires_at_ms r) f = Inr (ar_lease_expires_at_ms r)"
      "non_negative_int (ar_created_sequence r) f = Inr (ar_created_sequence r)"
      "non_negative_int (ar_lease_epoch r) f = Inr (ar_lease_epoch r)" for f
    using assms by (simp_all add: run_ok_def optional_positive_int_id non_negative_int_def)
  with assms show ?thesis
    by (auto simp: AgentTreeRun_post_init_def run_ok_def dependency_names_clean Let_def)
qed

lemma AgentNode_post_init_ok:
  assumes "AgentNode_post_init a = Inr a'"
  shows "agent_ok a'"
  using assms unfolding AgentNode_post_init_def bind_result_Inr_iff if_Inl_eq_Inr
  apply (elim exE conjE)
  apply (drule required_text_result_clean)+
  apply (drule required_text_opt_result_clean)+
  apply (clarsimp simp: normalizer_Inr)
  apply (simp add: agent_ok_def)
  done

lemma AgentNode_post_init_id:
  assumes "agent_ok a"
  shows "AgentNode_post_init a = Inr a"
proof -
  have "non_negative_int (an_depth a) f = Inr (an_depth a)"
      "non_negative_int (an_context_version a) f = Inr (an_context_version a)" for f
    using assms by (simp_all add: agent_ok_def non_negative_int_def)
  with assms show ?thesis
    by (simp add: AgentNode_post_init_def agent_ok_def)
qed

section \<open>Links\<close>

type_synonym run_map = "string \<rightharpoonup> agent_tree_run"
type_synonym agent_map = "string \<rightharpoonup> agent_node"

abbreviation run_at :: "agent_tree_state \<Rightarrow> run_map" where
  "run_at s \<equiv> map_of (ts_runs s)"

abbreviation agent_at :: "agent_tree_state \<Rightarrow> agent_map" where
  "agent_at s \<equiv> map_of (ts_agents s)"

definition status_ok :: "agent_tree_run \<Rightarrow> bool" where
  "status_ok r \<longleftrightarrow> (ar_lease_owner_id r \<noteq> None \<longrightarrow> ar_status r \<in> {Tree_RUNNING, Tree_WAITING})
     \<and> (ar_active r \<longrightarrow> ar_error_code r = None)"

definition run_linked :: "run_map \<Rightarrow> agent_map \<Rightarrow> agent_tree_run \<Rightarrow> bool" where
  "run_linked R A r \<longleftrightarrow> A (ar_agent_id r) \<noteq> None
     \<and> (case ar_parent_run_id r of
          None \<Rightarrow> ar_root_run_id r = ar_run_id r
        | Some p \<Rightarrow> \<exists>q. R p = Some q \<and> ar_root_run_id q = ar_root_run_id r
            \<and> ar_created_sequence q < ar_created_sequence r)
     \<and> (\<forall>d \<in> set (ar_dependency_run_ids r). \<exists>q. R d = Some q \<and> ar_parent_run_id r \<noteq> None
          \<and> ar_parent_run_id q = ar_parent_run_id r \<and> ar_root_run_id q = ar_root_run_id r)"

definition narrower :: "agent_capability_grant \<Rightarrow> agent_capability_grant \<Rightarrow> bool" where
  "narrower g h \<longleftrightarrow> (cg_can_spawn_agents g \<longrightarrow> cg_can_spawn_agents h)
     \<and> cg_max_depth g \<le> cg_max_depth h \<and> cg_max_children_per_call g \<le> cg_max_children_per_call h
     \<and> cg_max_agents_per_root g \<le> cg_max_agents_per_root h
     \<and> cg_max_parallel_runs g \<le> cg_max_parallel_runs h
     \<and> set (cg_allowed_tools g) \<subseteq> set (cg_allowed_tools h)
     \<and> set (cg_allowed_models g) \<subseteq> set (cg_allowed_models h)"

lemma narrower_refl [simp]: "narrower g g"
  by (simp add: narrower_def)

lemma narrower_trans: "narrower f g \<Longrightarrow> narrower g h \<Longrightarrow> narrower f h"
  unfolding narrower_def by force

lemma authorize_child_iff:
  "authorize_child g req = Inr c \<longleftrightarrow> c = (case req of None \<Rightarrow> g | Some h \<Rightarrow> h) \<and> narrower c g"
  by (auto simp: authorize_child_def agent_escalation_def narrower_def Let_def not_less split: if_splits)

definition node_linked :: "agent_map \<Rightarrow> agent_node \<Rightarrow> bool" where
  "node_linked A a \<longleftrightarrow>
     (case an_parent_agent_id a of
        None \<Rightarrow> an_root_agent_id a = an_agent_id a
      | Some p \<Rightarrow> \<exists>b. A p = Some b \<and> an_depth a = an_depth b + 1
          \<and> an_root_agent_id a = an_root_agent_id b
          \<and> narrower (an_capability_grant a) (an_capability_grant b)
          \<and> an_depth a \<le> cg_max_depth (an_capability_grant b))"

lemma run_linkedD:
  assumes "run_linked R A r"
  shows "\<exists>a. A (ar_agent_id r) = Some a"
    and "ar_parent_run_id r = None \<Longrightarrow> ar_root_run_id r = ar_run_id r"
    and "ar_parent_run_id r = Some p \<Longrightarrow> \<exists>q. R p = Some q \<and> ar_root_run_id q = ar_root_run_id r
      \<and> ar_created_sequence q < ar_created_sequence r"
    and "d \<in> set (ar_dependency_run_ids r) \<Longrightarrow> \<exists>q. R d = Some q \<and> ar_parent_run_id r \<noteq> None
      \<and> ar_parent_run_id q = ar_parent_run_id r \<and> ar_root_run_id q = ar_root_run_id r"
  using assms unfolding run_linked_def by auto

lemma node_linkedD:
  assumes "node_linked A a"
  shows "an_parent_agent_id a = None \<Longrightarrow> an_root_agent_id a = an_agent_id a"
    and "an_parent_agent_id a = Some p \<Longrightarrow> \<exists>b. A p = Some b \<and> an_depth a = an_depth b + 1
      \<and> an_root_agent_id a = an_root_agent_id b \<and> narrower (an_capability_grant a) (an_capability_grant b)
      \<and> an_depth a \<le> cg_max_depth (an_capability_grant b)"
  using assms unfolding node_linked_def by auto

text \<open>What no operation ever changes in a stored Run or Agent.\<close>

definition same_run :: "agent_tree_run \<Rightarrow> agent_tree_run \<Rightarrow> bool" where
  "same_run r q \<longleftrightarrow> ar_run_id q = ar_run_id r \<and> ar_agent_id q = ar_agent_id r
     \<and> ar_root_run_id q = ar_root_run_id r \<and> ar_parent_run_id q = ar_parent_run_id r
     \<and> ar_created_sequence q = ar_created_sequence r
     \<and> ar_dependency_run_ids q = ar_dependency_run_ids r"

definition same_agent :: "agent_node \<Rightarrow> agent_node \<Rightarrow> bool" where
  "same_agent a b \<longleftrightarrow> an_agent_id b = an_agent_id a \<and> an_root_agent_id b = an_root_agent_id a
     \<and> an_parent_agent_id b = an_parent_agent_id a \<and> an_depth b = an_depth a
     \<and> an_capability_grant b = an_capability_grant a"

definition runs_grow :: "run_map \<Rightarrow> run_map \<Rightarrow> bool" where
  "runs_grow R R' \<longleftrightarrow> (\<forall>k r. R k = Some r \<longrightarrow> (\<exists>q. R' k = Some q \<and> same_run r q))"

definition agents_grow :: "agent_map \<Rightarrow> agent_map \<Rightarrow> bool" where
  "agents_grow A A' \<longleftrightarrow> (\<forall>k a. A k = Some a \<longrightarrow> (\<exists>b. A' k = Some b \<and> same_agent a b))"

lemma same_run_refl [simp]: "same_run r r"
  by (simp add: same_run_def)

lemma same_agent_refl [simp]: "same_agent a a"
  by (simp add: same_agent_def)

lemma grow_refl [simp]: "runs_grow R R" "agents_grow A A"
  by (simp_all add: runs_grow_def agents_grow_def)

lemma run_linked_grow:
  assumes "run_linked R A r" and "same_run r r'" and "runs_grow R R'" and "agents_grow A A'"
  shows "run_linked R' A' r'"
proof -
  have R': "\<exists>q'. R' k = Some q' \<and> same_run q q'" if "R k = Some q" for k q
    using assms(3) that by (simp add: runs_grow_def)
  have A': "A' k \<noteq> None" if "A k \<noteq> None" for k
    using assms(4) that by (auto simp: agents_grow_def)
  have parent: "case ar_parent_run_id r of None \<Rightarrow> ar_root_run_id r = ar_run_id r
      | Some p \<Rightarrow> \<exists>q. R' p = Some q \<and> ar_root_run_id q = ar_root_run_id r
            \<and> ar_created_sequence q < ar_created_sequence r"
    using assms(1) R' by (fastforce simp: run_linked_def same_run_def split: option.splits)
  have deps: "\<exists>q. R' d = Some q \<and> ar_parent_run_id r \<noteq> None
          \<and> ar_parent_run_id q = ar_parent_run_id r \<and> ar_root_run_id q = ar_root_run_id r"
    if "d \<in> set (ar_dependency_run_ids r)" for d
    using assms(1) R' that by (fastforce simp: run_linked_def same_run_def)
  show ?thesis
    using parent deps A' assms(1,2) by (simp add: run_linked_def same_run_def cong: option.case_cong)
qed

lemma node_linked_grow:
  assumes "node_linked A a" and "same_agent a a'" and "agents_grow A A'"
  shows "node_linked A' a'"
proof -
  have A': "\<exists>b'. A' k = Some b' \<and> same_agent b b'" if "A k = Some b" for k b
    using assms(3) that by (simp add: agents_grow_def)
  have "node_linked A' a"
    using assms(1) A' by (fastforce simp: node_linked_def same_agent_def split: option.splits)
  then show ?thesis using assms(2) by (simp add: node_linked_def same_agent_def cong: option.case_cong)
qed

definition dependency_edges :: "run_map \<Rightarrow> (string \<times> string) set" where
  "dependency_edges R = {(d, k). \<exists>r. R k = Some r \<and> d \<in> set (ar_dependency_run_ids r)}"

definition one_active :: "run_map \<Rightarrow> bool" where
  "one_active R \<longleftrightarrow> (\<forall>k l r q. R k = Some r \<longrightarrow> R l = Some q \<longrightarrow> ar_agent_id r = ar_agent_id q
     \<longrightarrow> ar_active r \<longrightarrow> ar_active q \<longrightarrow> k = l)"

definition fresh_after :: "string \<Rightarrow> nat \<Rightarrow> (string \<rightharpoonup> 'a) \<Rightarrow> bool" where
  "fresh_after prefix n m \<longleftrightarrow> (\<forall>i > n. m (numbered prefix i) = None)"

definition tree_ok :: "agent_tree_state \<Rightarrow> bool" where
  "tree_ok s \<longleftrightarrow>
     distinct (map fst (ts_runs s)) \<and> distinct (map fst (ts_agents s))
     \<and> (\<forall>k r. run_at s k = Some r \<longrightarrow> ar_run_id r = k \<and> run_ok r \<and> status_ok r
          \<and> run_linked (run_at s) (agent_at s) r \<and> ar_created_sequence r \<le> int (ts_sequence s))
     \<and> (\<forall>k a. agent_at s k = Some a \<longrightarrow> an_agent_id a = k \<and> agent_ok a \<and> node_linked (agent_at s) a)
     \<and> fresh_after ''agent-run-'' (ts_run_sequence s) (run_at s)
     \<and> fresh_after ''agent-'' (ts_agent_sequence s) (agent_at s)
     \<and> wf (dependency_edges (run_at s)) \<and> one_active (run_at s)"

lemma tree_ok_run:
  assumes "tree_ok s" and "run_at s k = Some r"
  shows "ar_run_id r = k" and "run_ok r" and "status_ok r"
    and "run_linked (run_at s) (agent_at s) r" and "ar_created_sequence r \<le> int (ts_sequence s)"
  using assms unfolding tree_ok_def by blast+

lemma tree_ok_agent:
  assumes "tree_ok s" and "agent_at s k = Some a"
  shows "an_agent_id a = k" and "agent_ok a" and "node_linked (agent_at s) a"
  using assms unfolding tree_ok_def by blast+

lemma tree_ok_fresh:
  assumes "tree_ok s"
  shows "fresh_after ''agent-run-'' (ts_run_sequence s) (run_at s)"
    and "fresh_after ''agent-'' (ts_agent_sequence s) (agent_at s)"
  using assms unfolding tree_ok_def by blast+

lemma tree_ok_values:
  assumes "tree_ok s"
  shows "r \<in> set (dict_values (ts_runs s)) \<longleftrightarrow> run_at s (ar_run_id r) = Some r"
    and "a \<in> set (dict_values (ts_agents s)) \<longleftrightarrow> agent_at s (an_agent_id a) = Some a"
proof -
  have d: "distinct (map fst (ts_runs s))" "distinct (map fst (ts_agents s))"
    using assms by (simp_all add: tree_ok_def)
  show "r \<in> set (dict_values (ts_runs s)) \<longleftrightarrow> run_at s (ar_run_id r) = Some r"
    using dict.vals_lookup [OF d(1), of r] tree_ok_run(1) [OF assms] by metis
  show "a \<in> set (dict_values (ts_agents s)) \<longleftrightarrow> agent_at s (an_agent_id a) = Some a"
    using dict.vals_lookup [OF d(2), of a] tree_ok_agent(1) [OF assms] by metis
qed

lemma tree_ok_frame [simp]:
  "tree_ok (s\<lparr>ts_checkpoints := a\<rparr>) = tree_ok s" "tree_ok (s\<lparr>ts_spawn_receipts := b\<rparr>) = tree_ok s"
  "tree_ok (s\<lparr>ts_continue_receipts := c\<rparr>) = tree_ok s" "tree_ok (s\<lparr>ts_root_digests := d\<rparr>) = tree_ok s"
  "tree_ok (s\<lparr>ts_batch_sequence := e\<rparr>) = tree_ok s" "tree_ok (s\<lparr>ts_checkpoint_sequence := f\<rparr>) = tree_ok s"
  by (simp_all add: tree_ok_def)

lemma tree_ok_empty [simp]: "tree_ok (empty_tree n)"
  by (simp add: tree_ok_def empty_tree_def fresh_after_def dependency_edges_def one_active_def)

section \<open>Changing and adding entries\<close>

lemma put_sel [simp]:
  "ts_runs (put_run r s) = AList.update (ar_run_id r) r (ts_runs s)" "ts_agents (put_run r s) = ts_agents s"
  "ts_agents (put_agent a s) = AList.update (an_agent_id a) a (ts_agents s)" "ts_runs (put_agent a s) = ts_runs s"
  "ts_sequence (put_run r s) = ts_sequence s" "ts_sequence (put_agent a s) = ts_sequence s"
  "ts_run_sequence (put_run r s) = ts_run_sequence s" "ts_run_sequence (put_agent a s) = ts_run_sequence s"
  "ts_agent_sequence (put_run r s) = ts_agent_sequence s" "ts_agent_sequence (put_agent a s) = ts_agent_sequence s"
  "ts_spawn_receipts (put_run r s) = ts_spawn_receipts s" "ts_spawn_receipts (put_agent a s) = ts_spawn_receipts s"
  "ts_continue_receipts (put_run r s) = ts_continue_receipts s"
  "ts_continue_receipts (put_agent a s) = ts_continue_receipts s"
  "ts_root_digests (put_run r s) = ts_root_digests s" "ts_root_digests (put_agent a s) = ts_root_digests s"
  "ts_checkpoints (put_run r s) = ts_checkpoints s" "ts_checkpoints (put_agent a s) = ts_checkpoints s"
  by (simp_all add: put_run_def put_agent_def)

lemma run_at_put [simp]: "run_at (put_run r s) = (run_at s)(ar_run_id r \<mapsto> r)"
  by (simp add: dict.lookup_store)

lemma agent_at_put [simp]: "agent_at (put_agent a s) = (agent_at s)(an_agent_id a \<mapsto> a)"
  by (simp add: dict.lookup_store)

lemma dependency_edges_same:
  "R k = Some r \<Longrightarrow> ar_dependency_run_ids r' = ar_dependency_run_ids r \<Longrightarrow>
   dependency_edges (R(k \<mapsto> r')) = dependency_edges R"
  by (auto simp: dependency_edges_def split: if_splits)

lemma fresh_after_put: "fresh_after p n m \<Longrightarrow> m k \<noteq> None \<Longrightarrow> fresh_after p n (m(k \<mapsto> v))"
  by (auto simp: fresh_after_def)

text \<open>An operation that rewrites a stored Run, keeping its shape.\<close>

lemma tree_ok_touch_run:
  assumes ok: "tree_ok s" and r: "run_at s k = Some r" and same: "same_run r r'"
    and "run_ok r'" and "status_ok r'" and act: "ar_active r' \<Longrightarrow> ar_active r"
  shows "tree_ok (put_run r' s)"
proof -
  have k: "ar_run_id r' = k" "ar_agent_id r' = ar_agent_id r"
      "ar_dependency_run_ids r' = ar_dependency_run_ids r" "ar_created_sequence r' = ar_created_sequence r"
    using tree_ok_run(1) [OF ok r] same by (simp_all add: same_run_def)
  have grow: "runs_grow (run_at s) (run_at (put_run r' s))"
    using r same by (auto simp: runs_grow_def k)
  have old: "\<exists>q0. run_at s l = Some q0 \<and> same_run q0 q \<and> (ar_active q \<longrightarrow> ar_active q0)
      \<and> (q = r' \<or> q = q0)" if "run_at (put_run r' s) l = Some q" for l q
    using that r same act by (auto simp: k split: if_splits)
  have runs: "ar_run_id q = l \<and> run_ok q \<and> status_ok q
      \<and> run_linked (run_at (put_run r' s)) (agent_at (put_run r' s)) q
      \<and> ar_created_sequence q \<le> int (ts_sequence (put_run r' s))"
    if "run_at (put_run r' s) l = Some q" for l q
  proof -
    from old [OF that] obtain q0 where q0: "run_at s l = Some q0" "same_run q0 q" "q = r' \<or> q = q0" by blast
    note f = tree_ok_run [OF ok q0(1)]
    have "run_linked (run_at (put_run r' s)) (agent_at (put_run r' s)) q"
      using run_linked_grow [OF f(4) q0(2) grow] by simp
    with f q0 assms(4,5) show ?thesis by (auto simp: same_run_def)
  qed
  have "one_active (run_at (put_run r' s))"
    unfolding one_active_def
  proof (intro allI impI)
    fix l m q p
    assume a: "run_at (put_run r' s) l = Some q" "run_at (put_run r' s) m = Some p"
      "ar_agent_id q = ar_agent_id p" "ar_active q" "ar_active p"
    from old [OF a(1)] old [OF a(2)] a(3-5) ok show "l = m"
      unfolding tree_ok_def one_active_def same_run_def by metis
  qed
  then show ?thesis
    using ok runs dependency_edges_same [of "run_at s" k r r'] k(3) fresh_after_put [of _ _ "run_at s" k] r
    by (simp add: tree_ok_def distinct_keys_update k)
qed

text \<open>An operation that rewrites a stored Agent, keeping its shape.\<close>

lemma tree_ok_touch_agent:
  assumes ok: "tree_ok s" and a: "agent_at s k = Some a" and same: "same_agent a a'" and "agent_ok a'"
  shows "tree_ok (put_agent a' s)"
proof -
  have k: "an_agent_id a' = k"
    using tree_ok_agent(1) [OF ok a] same by (simp add: same_agent_def)
  have grow: "agents_grow (agent_at s) (agent_at (put_agent a' s))"
    using a same by (auto simp: agents_grow_def k)
  have agents: "an_agent_id b = l \<and> agent_ok b \<and> node_linked (agent_at (put_agent a' s)) b"
    if b: "agent_at (put_agent a' s) l = Some b" for l b
  proof (cases "l = k")
    case True
    then have "b = a'" using b k by simp
    with True k assms(4) node_linked_grow [OF tree_ok_agent(3) [OF ok a] same grow] show ?thesis by simp
  next
    case False
    then have b0: "agent_at s l = Some b" using b k by simp
    note f = tree_ok_agent [OF ok b0]
    with node_linked_grow [OF f(3) same_agent_refl grow] show ?thesis by simp
  qed
  have runs: "run_linked (run_at (put_agent a' s)) (agent_at (put_agent a' s)) q"
    if "run_at s l = Some q" for l q
    using run_linked_grow [OF tree_ok_run(4) [OF ok that] same_run_refl grow_refl(1) grow] by simp
  show ?thesis
    using ok agents runs fresh_after_put [of _ _ "agent_at s" k] a
    by (simp add: tree_ok_def distinct_keys_update k)
qed

text \<open>Entries under fresh keys are appended.\<close>

definition run_entries :: "agent_tree_run list \<Rightarrow> (string, agent_tree_run) dict" where
  "run_entries rs = map (\<lambda>r. (ar_run_id r, r)) rs"

definition agent_entries :: "agent_node list \<Rightarrow> (string, agent_node) dict" where
  "agent_entries as = map (\<lambda>a. (an_agent_id a, a)) as"

definition add_entries ::
    "agent_tree_run list \<Rightarrow> agent_node list \<Rightarrow> agent_tree_state \<Rightarrow> agent_tree_state" where
  "add_entries rs as s = s\<lparr>ts_runs := ts_runs s @ run_entries rs, ts_agents := ts_agents s @ agent_entries as\<rparr>"

lemma map_of_entries:
  "map_of (run_entries rs) k = Some r \<Longrightarrow> r \<in> set rs \<and> ar_run_id r = k"
  "map_of (agent_entries as) k = Some a \<Longrightarrow> a \<in> set as \<and> an_agent_id a = k"
  by (auto simp: run_entries_def agent_entries_def dest!: map_of_SomeD)

lemma map_of_entries_None:
  "map_of (run_entries rs) k = None \<longleftrightarrow> k \<notin> ar_run_id ` set rs"
  "map_of (agent_entries as) k = None \<longleftrightarrow> k \<notin> an_agent_id ` set as"
  by (auto simp: run_entries_def agent_entries_def map_of_eq_None_iff image_iff)

lemma map_of_append_fresh:
  assumes "\<And>k. map_of ys k \<noteq> None \<Longrightarrow> map_of xs k = None"
  shows "map_of (xs @ ys) k = Some v \<longleftrightarrow> map_of xs k = Some v \<or> map_of ys k = Some v"
  using assms [of k] by (auto simp: map_of_append map_add_Some_iff)

lemma distinct_append_entries:
  assumes "distinct (map fst xs)" and "distinct (map fst ys)" and "\<And>k. map_of ys k \<noteq> None \<Longrightarrow> map_of xs k = None"
  shows "distinct (map fst (xs @ ys))"
  using assms by (auto simp: map_of_eq_None_iff)

text \<open>
  Adding a batch of new Runs and Agents. The new Runs may depend on one another in any
  order; old Runs do not know them.
\<close>

lemma tree_ok_add:
  assumes ok: "tree_ok s"
    and dr: "distinct (map ar_run_id rs)" and da: "distinct (map an_agent_id as)"
    and fr: "\<And>r. r \<in> set rs \<Longrightarrow> run_at s (ar_run_id r) = None"
    and fa: "\<And>a. a \<in> set as \<Longrightarrow> agent_at s (an_agent_id a) = None"
    and runs: "\<And>r. r \<in> set rs \<Longrightarrow> run_ok r \<and> status_ok r \<and> ar_created_sequence r \<le> int n
      \<and> run_linked (run_at (add_entries rs as s)) (agent_at (add_entries rs as s)) r"
    and agents: "\<And>a. a \<in> set as \<Longrightarrow> agent_ok a \<and> node_linked (agent_at (add_entries rs as s)) a"
    and seq: "ts_sequence s \<le> n"
    and fresh: "fresh_after ''agent-run-'' i (run_at (add_entries rs as s))"
      "fresh_after ''agent-'' j (agent_at (add_entries rs as s))"
    and deps: "\<And>r d. r \<in> set rs \<Longrightarrow> d \<in> set (ar_dependency_run_ids r) \<Longrightarrow> d \<in> ar_run_id ` set rs"
    and wf: "wf {(d, ar_run_id r) | d r. r \<in> set rs \<and> d \<in> set (ar_dependency_run_ids r)}"
    and free: "\<And>r. r \<in> set rs \<Longrightarrow> \<not> has_active_run s (ar_agent_id r)"
    and dag: "distinct (map ar_agent_id rs)"
  shows "tree_ok ((add_entries rs as s)\<lparr>ts_sequence := n, ts_run_sequence := i, ts_agent_sequence := j\<rparr>)"
proof -
  let ?R = "run_at (add_entries rs as s)" and ?A = "agent_at (add_entries rs as s)"
  have nr: "map_of (run_entries rs) k \<noteq> None \<Longrightarrow> run_at s k = None" for k
    using fr unfolding map_of_entries_None(1) by auto
  have na: "map_of (agent_entries as) k \<noteq> None \<Longrightarrow> agent_at s k = None" for k
    using fa unfolding map_of_entries_None(2) by auto
  have R: "?R k = Some r \<longleftrightarrow> run_at s k = Some r \<or> map_of (run_entries rs) k = Some r" for k r
    using map_of_append_fresh [OF nr] by (simp add: add_entries_def)
  have A: "?A k = Some a \<longleftrightarrow> agent_at s k = Some a \<or> map_of (agent_entries as) k = Some a" for k a
    using map_of_append_fresh [OF na] by (simp add: add_entries_def)
  have gr: "runs_grow (run_at s) ?R" and ga: "agents_grow (agent_at s) ?A"
    by (auto simp: runs_grow_def agents_grow_def R A)
  have dist: "distinct (map fst (ts_runs s))" "distinct (map fst (ts_agents s))"
    using ok by (simp_all add: tree_ok_def)
  have ent: "distinct (map fst (run_entries rs))" "distinct (map fst (agent_entries as))"
    using dr da by (simp_all add: run_entries_def agent_entries_def comp_def)
  have keys: "distinct (map fst (ts_runs (add_entries rs as s)))" "distinct (map fst (ts_agents (add_entries rs as s)))"
    using distinct_append_entries [OF dist(1) ent(1) nr] distinct_append_entries [OF dist(2) ent(2) na]
    by (simp_all add: add_entries_def)
  have rall: "ar_run_id r = k \<and> run_ok r \<and> status_ok r \<and> run_linked ?R ?A r \<and> ar_created_sequence r \<le> int n"
    if "?R k = Some r" for k r
    using that unfolding R
  proof
    assume "run_at s k = Some r"
    with tree_ok_run [OF ok this] run_linked_grow [OF tree_ok_run(4) [OF ok this] same_run_refl gr ga] seq
    show ?thesis by simp
  qed (use runs map_of_entries(1) in blast)
  have aall: "an_agent_id a = k \<and> agent_ok a \<and> node_linked ?A a" if "?A k = Some a" for k a
    using that unfolding A
  proof
    assume "agent_at s k = Some a"
    with tree_ok_agent [OF ok this] node_linked_grow [OF tree_ok_agent(3) [OF ok this] same_agent_refl ga]
    show ?thesis by simp
  qed (use agents map_of_entries(2) in blast)
  have "dependency_edges ?R \<subseteq> dependency_edges (run_at s)
      \<union> {(d, ar_run_id r) | d r. r \<in> set rs \<and> d \<in> set (ar_dependency_run_ids r)}"
    unfolding dependency_edges_def R using map_of_entries(1) by blast
  moreover have "wf (dependency_edges (run_at s)
      \<union> {(d, ar_run_id r) | d r. r \<in> set rs \<and> d \<in> set (ar_dependency_run_ids r)})"
  proof (rule wf_Un [OF _ wf])
    show "wf (dependency_edges (run_at s))" using ok by (simp add: tree_ok_def)
    have "run_at s d \<noteq> None" if "(d, k) \<in> dependency_edges (run_at s)" for d k
      using that run_linkedD(4) [OF tree_ok_run(4) [OF ok]] by (force simp: dependency_edges_def)
    then show "Domain (dependency_edges (run_at s)) \<inter> Range {(d, ar_run_id r) | d r. r \<in> set rs \<and> d \<in> set (ar_dependency_run_ids r)} = {}"
      using fr by fastforce
  qed
  ultimately have wf': "wf (dependency_edges ?R)" using wf_subset by blast
  have busy: "\<not> ar_active r" if "run_at s k = Some r" "q \<in> set rs" "ar_agent_id r = ar_agent_id q" for k r q
    using free [OF that(2)] tree_ok_values(1) [OF ok, of r] tree_ok_run(1) [OF ok that(1)] that
    by (auto simp: has_active_run_def)
  have "one_active ?R"
    unfolding one_active_def
  proof (intro allI impI)
    fix k l r q
    assume k: "?R k = Some r" and l: "?R l = Some q" and ag: "ar_agent_id r = ar_agent_id q"
      and act: "ar_active r" "ar_active q"
    have r: "run_at s k = Some r \<or> r \<in> set rs \<and> ar_run_id r = k"
      and q: "run_at s l = Some q \<or> q \<in> set rs \<and> ar_run_id q = l"
      using k l map_of_entries(1) unfolding R by blast+
    consider "run_at s k = Some r" "run_at s l = Some q" | "r \<in> set rs" "q \<in> set rs"
      using r q busy ag act by metis
    then show "k = l"
    proof cases
      case 1
      with ok ag act show ?thesis unfolding tree_ok_def one_active_def by blast
    next
      case 2
      with dag ag have "r = q" by (auto simp: distinct_map dest: inj_onD)
      with k l rall show ?thesis by metis
    qed
  qed
  with keys rall aall wf' fresh show ?thesis
    unfolding tree_ok_def by simp
qed

section \<open>Lookups\<close>

lemma require_run_Inr [result_simps]:
  "require_run s i = Inr r \<longleftrightarrow> strip i \<noteq> [] \<and> run_at s (strip i) = Some r"
  by (auto simp: require_run_def bind_result_Inr_iff required_text_Inr split: option.splits)

lemma require_agent_Inr [result_simps]:
  "require_agent s i = Inr a \<longleftrightarrow> strip i \<noteq> [] \<and> agent_at s (strip i) = Some a"
  by (auto simp: require_agent_def bind_result_Inr_iff required_text_Inr split: option.splits)

lemma require_active_agent_Inr [result_simps]:
  "require_active_agent s i = Inr a \<longleftrightarrow>
     strip i \<noteq> [] \<and> agent_at s (strip i) = Some a \<and> an_state a = Node_ACTIVE"
  by (cases "an_state a") (auto simp: require_active_agent_def result_simps)

lemma require_active_run_Inr [result_simps]:
  "require_active_run s i = Inr r \<longleftrightarrow>
     strip i \<noteq> [] \<and> run_at s (strip i) = Some r \<and> ar_status r \<in> {Tree_RUNNING, Tree_WAITING}"
  by (auto simp: require_active_run_def result_simps)

lemma tree_ok_clean:
  assumes "tree_ok s"
  shows "run_at s k = Some r \<Longrightarrow> clean_id k" and "agent_at s k = Some a \<Longrightarrow> clean_id k"
  using tree_ok_run(1,2) [OF assms] tree_ok_agent(1,2) [OF assms]
  by (metis run_ok_def, metis agent_ok_def)

lemma require_stored:
  assumes "tree_ok s"
  shows "run_at s k = Some r \<Longrightarrow> require_run s k = Inr r" and "agent_at s k = Some a \<Longrightarrow> require_agent s k = Inr a"
  using tree_ok_clean [OF assms] by (simp_all add: result_simps clean_id_def)

lemma run_ok_update:
  assumes "run_ok r"
  shows "clean_id owner \<Longrightarrow> 0 < t \<Longrightarrow> ar_active r \<Longrightarrow> run_ok (r\<lparr>ar_status := Tree_RUNNING,
      ar_lease_owner_id := Some owner, ar_lease_epoch := ar_lease_epoch r + 1, ar_lease_expires_at_ms := Some t\<rparr>)"
    and "run_ok (r\<lparr>ar_status := Tree_WAITING, ar_lease_owner_id := None, ar_lease_expires_at_ms := None\<rparr>)"
    and "run_ok (r\<lparr>ar_status := Tree_WAITING\<rparr>)"
    and "run_ok (r\<lparr>ar_status := Tree_RUNNING\<rparr>)"
    and "0 < t \<Longrightarrow> ar_lease_owner_id r \<noteq> None \<Longrightarrow> run_ok (r\<lparr>ar_lease_expires_at_ms := Some t\<rparr>)"
    and "clean_id e \<Longrightarrow> run_ok (r\<lparr>ar_status := Tree_FAILED, ar_error_code := Some e,
      ar_lease_owner_id := None, ar_lease_expires_at_ms := None\<rparr>)"
    and "clean_id e \<Longrightarrow> run_ok (canceled_as e r)"
  using assms by (auto simp: run_ok_def positive_opt_def canceled_as_def ar_active_def)

lemma ar_active_iff: "ar_active r \<longleftrightarrow> \<not> ar_terminal r"
  by (cases "ar_status r") (auto simp: ar_active_def ar_terminal_def ACTIVE_RUN_STATUSES_def TERMINAL_RUN_STATUSES_def)

lemma ar_active_status: "ar_active r \<longleftrightarrow> ar_status r = Tree_QUEUED \<or> ar_status r = Tree_RUNNING \<or> ar_status r = Tree_WAITING"
  by (auto simp: ar_active_def ACTIVE_RUN_STATUSES_def)

lemma status_ok_update:
  assumes "status_ok r" and "ar_active r"
  shows "status_ok (r\<lparr>ar_status := Tree_RUNNING\<rparr>)" and "status_ok (r\<lparr>ar_status := Tree_WAITING\<rparr>)"
    and "status_ok (r\<lparr>ar_status := Tree_RUNNING, ar_lease_owner_id := own, ar_lease_epoch := e, ar_lease_expires_at_ms := t\<rparr>)"
    and "status_ok (r\<lparr>ar_status := Tree_WAITING, ar_lease_owner_id := None, ar_lease_expires_at_ms := None\<rparr>)"
  using assms by (auto simp: status_ok_def ar_active_status)

text \<open>What a successful claim check says about the stored lease.\<close>

lemma require_claim_Inr:
  "require_claim r own ep now = Inr () \<longleftrightarrow>
     (\<forall>e. ep = Some e \<longrightarrow> 0 \<le> e)
     \<and> (if ar_lease_owner_id r = None then optional_text own = None \<and> ep = None
        else optional_text own = ar_lease_owner_id r \<and> ep = Some (ar_lease_epoch r) \<and> \<not> lease_expired r now)"
  by (auto simp: require_claim_def Let_def bind_result_Inr_iff optional_non_negative_int_Inr split: if_splits)

lemma require_claim_owned:
  "require_claim r own (Some e) now = Inr () \<Longrightarrow> ar_lease_owner_id r \<noteq> None \<and> ar_lease_epoch r = e"
  by (auto simp: require_claim_Inr split: if_splits)

section \<open>Lease operations keep the invariant\<close>

text \<open>
  Each of them rewrites one stored Run: the lemmas give the Run before and after.
\<close>

lemma claim_run_cases:
  assumes "tree_ok s" and "claim_run s run_id owner dur now = Inr (res, s')"
  shows "(res = None \<and> s' = s) \<or> (\<exists>r root q. run_at s (strip run_id) = Some r \<and> claimable_status r now
    \<and> dependencies_terminal s r = Inr True
    \<and> run_at s (ar_root_run_id r) = Some q \<and> agent_at s (ar_agent_id q) = Some root
    \<and> int (active_count s (ar_root_run_id r) now) < cg_max_parallel_runs (an_capability_grant root)
    \<and> 0 < dur \<and> clean_id (strip owner)
    \<and> res = Some (r\<lparr>ar_status := Tree_RUNNING, ar_lease_owner_id := Some (strip owner),
        ar_lease_epoch := ar_lease_epoch r + 1, ar_lease_expires_at_ms := Some (int now + dur)\<rparr>)
    \<and> s' = put_run (the res) s)"
proof (cases res)
  case None
  then show ?thesis
    using assms(2) by (auto simp: claim_run_def bind_result_Inr_iff split: if_splits)
next
  case (Some c)
  then obtain r root q where r: "run_at s (strip run_id) = Some r" "claimable_status r now"
      "dependencies_terminal s r = Inr True" "run_at s (strip (ar_root_run_id r)) = Some q"
      "agent_at s (strip (ar_agent_id q)) = Some root"
      "int (active_count s (ar_root_run_id r) now) < cg_max_parallel_runs (an_capability_grant root)"
      "0 < dur" "strip owner \<noteq> []"
      and c: "AgentTreeRun_post_init (r\<lparr>ar_status := Tree_RUNNING, ar_lease_owner_id := Some (strip owner),
        ar_lease_epoch := ar_lease_epoch r + 1, ar_lease_expires_at_ms := Some (int now + dur)\<rparr>) = Inr c"
      "s' = put_run c s"
    using assms(2)
    by (auto simp: claim_run_def result_simps required_text_Inr positive_int_Inr split: if_splits)
  have clean: "strip (ar_root_run_id r) = ar_root_run_id r" "strip (ar_agent_id q) = ar_agent_id q"
    using tree_ok_run(2) [OF assms(1) r(1)] tree_ok_run(2) [OF assms(1) r(4)]
    by (simp_all add: run_ok_def clean_id_def)
  have own: "clean_id (strip owner)" using r(8) by (simp add: clean_id_def)
  have "ar_active r" using r(2) by (auto simp: claimable_status_def ar_active_status)
  then have "AgentTreeRun_post_init (r\<lparr>ar_status := Tree_RUNNING, ar_lease_owner_id := Some (strip owner),
        ar_lease_epoch := ar_lease_epoch r + 1, ar_lease_expires_at_ms := Some (int now + dur)\<rparr>)
      = Inr (r\<lparr>ar_status := Tree_RUNNING, ar_lease_owner_id := Some (strip owner),
        ar_lease_epoch := ar_lease_epoch r + 1, ar_lease_expires_at_ms := Some (int now + dur)\<rparr>)"
    using tree_ok_run(2) [OF assms(1) r(1)] own r(7)
    by (intro AgentTreeRun_post_init_id run_ok_update(1)) auto
  with c Some r clean own show ?thesis by (intro disjI2 exI [of _ r] exI [of _ root] exI [of _ q]) auto
qed

lemma suspend_run_cases:
  assumes "tree_ok s" and "suspend_run s run_id own ep now = Inr (res, s')"
  shows "\<exists>r. run_at s (strip run_id) = Some r \<and> require_claim r (Some own) (Some ep) now = Inr ()
    \<and> res = r\<lparr>ar_status := Tree_WAITING, ar_lease_owner_id := None, ar_lease_expires_at_ms := None\<rparr>
    \<and> s' = s\<lparr>ts_runs := AList.update run_id res (ts_runs s)\<rparr>"
  using assms(2) tree_ok_run(2) [OF assms(1)]
  by (auto simp: suspend_run_def result_simps AgentTreeRun_post_init_id run_ok_update)

lemma renew_run_lease_cases:
  assumes "tree_ok s" and "renew_run_lease s run_id own ep dur now = Inr (res, s')"
  shows "\<exists>r. run_at s (strip run_id) = Some r \<and> require_claim r (Some (strip own)) (Some ep) now = Inr ()
    \<and> 0 < dur \<and> ar_status r \<in> {Tree_RUNNING, Tree_WAITING}
    \<and> res = r\<lparr>ar_lease_expires_at_ms := Some (int now + dur)\<rparr> \<and> s' = put_run res s"
proof -
  obtain r where r: "run_at s (strip run_id) = Some r" "ar_status r \<in> {Tree_RUNNING, Tree_WAITING}"
      "require_claim r (Some (strip own)) (Some ep) now = Inr ()" "0 < dur"
      and res: "AgentTreeRun_post_init (r\<lparr>ar_lease_expires_at_ms := Some (int now + dur)\<rparr>) = Inr res"
        "s' = put_run res s"
    using assms(2) by (auto simp: renew_run_lease_def result_simps required_text_Inr normalizer_Inr)
  have "run_ok (r\<lparr>ar_lease_expires_at_ms := Some (int now + dur)\<rparr>)"
    using tree_ok_run(2) [OF assms(1) r(1)] require_claim_owned [OF r(3)] r(4) by (intro run_ok_update(5)) auto
  with r res show ?thesis by (auto simp: AgentTreeRun_post_init_id)
qed

lemma mark_waiting_cases:
  assumes "tree_ok s" and "mark_waiting s run_id own ep now = Inr (res, s')"
  shows "\<exists>r. run_at s (strip run_id) = Some r \<and> ar_status r = Tree_RUNNING
    \<and> require_claim r own ep now = Inr () \<and> res = r\<lparr>ar_status := Tree_WAITING\<rparr> \<and> s' = put_run res s"
  using assms(2) tree_ok_run(2) [OF assms(1)]
  by (auto simp: mark_waiting_def result_simps AgentTreeRun_post_init_id run_ok_update)

lemma release_waiting_cases:
  assumes "tree_ok s" and "release_waiting s run_id own ep now = Inr (res, s')"
  shows "\<exists>r root q. run_at s (strip run_id) = Some r \<and> ar_status r = Tree_WAITING
    \<and> require_claim r own ep now = Inr ()
    \<and> run_at s (ar_root_run_id r) = Some q \<and> agent_at s (ar_agent_id q) = Some root
    \<and> int (active_count s (ar_root_run_id r) now) < cg_max_parallel_runs (an_capability_grant root)
    \<and> res = r\<lparr>ar_status := Tree_RUNNING\<rparr> \<and> s' = put_run res s"
proof -
  obtain r root q where r: "run_at s (strip run_id) = Some r" "ar_status r = Tree_WAITING"
      "require_claim r own ep now = Inr ()" "run_at s (strip (ar_root_run_id r)) = Some q"
      "agent_at s (strip (ar_agent_id q)) = Some root"
      "int (active_count s (ar_root_run_id r) now) < cg_max_parallel_runs (an_capability_grant root)"
      and res: "AgentTreeRun_post_init (r\<lparr>ar_status := Tree_RUNNING\<rparr>) = Inr res" "s' = put_run res s"
    using assms(2) by (auto simp: release_waiting_def result_simps)
  have "strip (ar_root_run_id r) = ar_root_run_id r" "strip (ar_agent_id q) = ar_agent_id q"
    using tree_ok_run(2) [OF assms(1) r(1)] tree_ok_run(2) [OF assms(1) r(4)]
    by (simp_all add: run_ok_def clean_id_def)
  with r res tree_ok_run(2) [OF assms(1) r(1)] show ?thesis
    by (auto simp: AgentTreeRun_post_init_id run_ok_update)
qed

lemma claimed_status_ok: "status_ok r \<Longrightarrow> status_ok (r\<lparr>ar_lease_expires_at_ms := t\<rparr>)"
  by (simp add: status_ok_def ar_active_status)

lemma lease_ops_ok:
  assumes ok: "tree_ok s"
  shows "claim_run s run_id owner dur now = Inr (c, s') \<Longrightarrow> tree_ok s'"
    and "strip run_id = run_id \<Longrightarrow> suspend_run s run_id own' e' now = Inr (res, s') \<Longrightarrow> tree_ok s'"
    and "renew_run_lease s run_id own' e' dur now = Inr (res, s') \<Longrightarrow> tree_ok s'"
    and "mark_waiting s run_id own ep now = Inr (res, s') \<Longrightarrow> tree_ok s'"
    and "release_waiting s run_id own ep now = Inr (res, s') \<Longrightarrow> tree_ok s'"
proof -
  show "tree_ok s'" if "claim_run s run_id owner dur now = Inr (c, s')"
    using claim_run_cases [OF ok that]
  proof (elim disjE exE conjE)
    fix r root q
    assume r: "run_at s (strip run_id) = Some r" "claimable_status r now" "0 < dur" "clean_id (strip owner)"
      and c: "c = Some (r\<lparr>ar_status := Tree_RUNNING, ar_lease_owner_id := Some (strip owner),
        ar_lease_epoch := ar_lease_epoch r + 1, ar_lease_expires_at_ms := Some (int now + dur)\<rparr>)"
        "s' = put_run (the c) s"
    have act: "ar_active r" using r(2) by (auto simp: claimable_status_def ar_active_status)
    show ?thesis
      unfolding c option.sel
      by (rule tree_ok_touch_run [OF ok r(1)])
        (use tree_ok_run(2,3) [OF ok r(1)] r act in \<open>auto simp: same_run_def intro: run_ok_update(1) status_ok_update\<close>)
  qed (use ok in simp)
  show "tree_ok s'" if id: "strip run_id = run_id" and op: "suspend_run s run_id own' e' now = Inr (res, s')"
  proof -
    from suspend_run_cases [OF ok op] obtain r where r: "run_at s run_id = Some r"
        "require_claim r (Some own') (Some e') now = Inr ()"
        and res: "res = r\<lparr>ar_status := Tree_WAITING, ar_lease_owner_id := None, ar_lease_expires_at_ms := None\<rparr>"
        "s' = s\<lparr>ts_runs := AList.update run_id res (ts_runs s)\<rparr>"
      using id by auto
    have s': "s' = put_run res s" using tree_ok_run(1) [OF ok r(1)] res by (simp add: put_run_def)
    have "ar_active r" using tree_ok_run(3) [OF ok r(1)] require_claim_owned [OF r(2)]
      by (auto simp: status_ok_def ar_active_status)
    then show ?thesis
      unfolding s' res(1)
      by (intro tree_ok_touch_run [OF ok r(1)])
        (use tree_ok_run(2,3) [OF ok r(1)] in \<open>auto simp: same_run_def run_ok_update status_ok_update\<close>)
  qed
  show "tree_ok s'" if op: "renew_run_lease s run_id own' e' dur now = Inr (res, s')"
  proof -
    from renew_run_lease_cases [OF ok op] obtain r where r: "run_at s (strip run_id) = Some r"
        "require_claim r (Some (strip own')) (Some e') now = Inr ()" "0 < dur"
        and res: "res = r\<lparr>ar_lease_expires_at_ms := Some (int now + dur)\<rparr>" "s' = put_run res s"
      by auto
    show ?thesis
      unfolding res
      by (rule tree_ok_touch_run [OF ok r(1)])
        (use tree_ok_run(2,3) [OF ok r(1)] require_claim_owned [OF r(2)] r(3)
         in \<open>auto simp: same_run_def ar_active_def intro: run_ok_update claimed_status_ok\<close>)
  qed
  show "tree_ok s'" if op: "mark_waiting s run_id own ep now = Inr (res, s')"
  proof -
    from mark_waiting_cases [OF ok op] obtain r where r: "run_at s (strip run_id) = Some r" "ar_status r = Tree_RUNNING"
        and res: "res = r\<lparr>ar_status := Tree_WAITING\<rparr>" "s' = put_run res s" by auto
    show ?thesis
      unfolding res
      by (rule tree_ok_touch_run [OF ok r(1)])
        (use tree_ok_run(2,3) [OF ok r(1)] r in \<open>auto simp: same_run_def ar_active_status intro: run_ok_update status_ok_update\<close>)
  qed
  show "tree_ok s'" if op: "release_waiting s run_id own ep now = Inr (res, s')"
  proof -
    from release_waiting_cases [OF ok op] obtain r where r: "run_at s (strip run_id) = Some r" "ar_status r = Tree_WAITING"
        and res: "res = r\<lparr>ar_status := Tree_RUNNING\<rparr>" "s' = put_run res s" by auto
    show ?thesis
      unfolding res
      by (rule tree_ok_touch_run [OF ok r(1)])
        (use tree_ok_run(2,3) [OF ok r(1)] r in \<open>auto simp: same_run_def ar_active_status intro: run_ok_update status_ok_update\<close>)
  qed
qed

section \<open>The pointer walks end, with the right answer\<close>

definition child_edges :: "run_map \<Rightarrow> (string \<times> string) set" where
  "child_edges R = {(k, p). \<exists>r. R k = Some r \<and> ar_parent_run_id r = Some p}"

text \<open>\<open>k\<close> was caused, directly or not, by the Run \<open>p\<close>.\<close>

definition causal_below :: "run_map \<Rightarrow> string \<Rightarrow> string \<Rightarrow> bool" where
  "causal_below R p k \<longleftrightarrow> (k, p) \<in> (child_edges R)\<^sup>+"

definition older :: "run_map \<Rightarrow> agent_tree_run \<Rightarrow> string set" where
  "older R r = {k. \<exists>q. R k = Some q \<and> ar_created_sequence q < ar_created_sequence r}"

lemma finite_older: "finite (older (map_of xs) r)"
  by (rule finite_subset [OF _ finite_dom_map_of [of xs]]) (auto simp: older_def)

lemma card_older:
  assumes "R = map_of xs" and "R k = Some r"
  shows "card (older R r) < length xs"
proof -
  have "k \<notin> older R r" and "older R r \<subseteq> dom R" using assms(2) by (auto simp: older_def)
  then have "older R r \<subset> dom R" using assms(2) by auto
  then have "card (older R r) < card (dom R)" by (simp add: assms(1) psubset_card_mono finite_dom_map_of)
  also have "card (dom R) \<le> length xs"
    by (simp add: assms(1) dom_map_of_conv_image_fst card_image_le [THEN le_trans] card_length)
  finally show ?thesis .
qed

lemma card_older_parent:
  assumes "R = map_of xs" and "R p = Some q" and "ar_created_sequence q < ar_created_sequence r"
  shows "card (older R q) < card (older R r)"
proof (rule psubset_card_mono)
  show "finite (older R r)" by (simp add: assms(1) finite_older)
  show "older R q \<subset> older R r" using assms(2,3) by (force simp: older_def)
qed

lemma causal_below_step:
  assumes "R k = Some r"
  shows "causal_below R p k \<longleftrightarrow> (case ar_parent_run_id r of None \<Rightarrow> False | Some z \<Rightarrow> z = p \<or> causal_below R p z)"
proof -
  have edge: "(k, z) \<in> child_edges R \<longleftrightarrow> ar_parent_run_id r = Some z" for z
    using assms by (simp add: child_edges_def)
  have "causal_below R p k \<longleftrightarrow> (\<exists>z. (k, z) \<in> child_edges R \<and> (z, p) \<in> (child_edges R)\<^sup>*)"
    unfolding causal_below_def by (meson rtrancl_into_trancl2 tranclD)
  then show ?thesis
    unfolding edge causal_below_def rtrancl_eq_or_trancl by (auto split: option.splits)
qed

lemma causal_walk_correct:
  assumes "tree_ok s" and "run_at s k = Some r" and "card (older (run_at s) r) < n"
  shows "causal_walk n s p r = Inr (causal_below (run_at s) p k)"
  using assms(2,3)
proof (induction n arbitrary: k r)
  case 0
  then show ?case by simp
next
  case (Suc n)
  show ?case
  proof (cases "ar_parent_run_id r")
    case None
    then show ?thesis using causal_below_step [of "run_at s", OF Suc.prems(1), of p] by simp
  next
    case (Some z)
    then obtain q where q: "run_at s z = Some q" "ar_created_sequence q < ar_created_sequence r"
      using run_linkedD(3) [OF tree_ok_run(4) [OF assms(1) Suc.prems(1)]] by blast
    have "card (older (run_at s) q) < n"
      using card_older_parent [of "run_at s", OF refl q] Suc.prems(2) by simp
    with Suc.IH [OF q(1)] Some causal_below_step [of "run_at s", OF Suc.prems(1), of p] require_stored(1) [OF assms(1) q(1)]
    show ?thesis by auto
  qed
qed

lemma is_causal_descendant_correct:
  assumes "tree_ok s" and "run_at s k = Some r"
  shows "is_causal_descendant s p k = Inr (causal_below (run_at s) p k)"
  using causal_walk_correct [OF assms card_older [of "run_at s", OF refl assms(2)]] require_stored(1) [OF assms]
  by (simp add: is_causal_descendant_def)

text \<open>Ancestors in the Agent tree, by depth.\<close>

definition agent_edges :: "agent_map \<Rightarrow> (string \<times> string) set" where
  "agent_edges A = {(k, p). \<exists>a. A k = Some a \<and> an_parent_agent_id a = Some p}"

definition agent_below :: "agent_map \<Rightarrow> string \<Rightarrow> string \<Rightarrow> bool" where
  "agent_below A p k \<longleftrightarrow> (k, p) \<in> (agent_edges A)\<^sup>*"

definition shallower :: "agent_map \<Rightarrow> agent_node \<Rightarrow> string set" where
  "shallower A a = {k. \<exists>b. A k = Some b \<and> an_depth b < an_depth a}"

lemma card_shallower:
  assumes "A = map_of xs" and "A k = Some a"
  shows "card (shallower A a) < length xs"
proof -
  have "k \<notin> shallower A a" and "shallower A a \<subseteq> dom A" using assms(2) by (auto simp: shallower_def)
  then have "shallower A a \<subset> dom A" using assms(2) by auto
  then have "card (shallower A a) < card (dom A)" by (simp add: assms(1) psubset_card_mono finite_dom_map_of)
  also have "card (dom A) \<le> length xs"
    by (simp add: assms(1) dom_map_of_conv_image_fst card_image_le [THEN le_trans] card_length)
  finally show ?thesis .
qed

lemma card_shallower_parent:
  assumes "A = map_of xs" and "A p = Some b" and "an_depth b < an_depth a"
  shows "card (shallower A b) < card (shallower A a)"
proof (rule psubset_card_mono)
  show "finite (shallower A a)"
    by (rule finite_subset [OF _ finite_dom_map_of [of xs]]) (auto simp: shallower_def assms(1))
  show "shallower A b \<subset> shallower A a" using assms(2,3) by (force simp: shallower_def)
qed

lemma agent_below_step:
  assumes "A k = Some a"
  shows "agent_below A p k \<longleftrightarrow> k = p \<or> (case an_parent_agent_id a of None \<Rightarrow> False | Some z \<Rightarrow> agent_below A p z)"
proof -
  have edge: "(k, z) \<in> agent_edges A \<longleftrightarrow> an_parent_agent_id a = Some z" for z
    using assms by (simp add: agent_edges_def)
  have "agent_below A p k \<longleftrightarrow> k = p \<or> (\<exists>z. (k, z) \<in> agent_edges A \<and> (z, p) \<in> (agent_edges A)\<^sup>*)"
    unfolding agent_below_def by (meson converse_rtranclE converse_rtrancl_into_rtrancl rtrancl.rtrancl_refl)
  then show ?thesis unfolding edge agent_below_def by (auto split: option.splits)
qed

lemma ancestor_walk_correct:
  assumes "tree_ok s" and "agent_at s k = Some a" and "card (shallower (agent_at s) a) < n"
  shows "ancestor_walk n s p a = Inr (agent_below (agent_at s) p k)"
  using assms(2,3)
proof (induction n arbitrary: k a)
  case 0
  then show ?case by simp
next
  case (Suc n)
  note id = tree_ok_agent(1) [OF assms(1) Suc.prems(1)]
  show ?case
  proof (cases "an_parent_agent_id a")
    case None
    then show ?thesis using agent_below_step [of "agent_at s", OF Suc.prems(1), of p] id by simp
  next
    case (Some z)
    then obtain b where b: "agent_at s z = Some b" "an_depth a = an_depth b + 1"
      using node_linkedD(2) [OF tree_ok_agent(3) [OF assms(1) Suc.prems(1)]] by blast
    have "card (shallower (agent_at s) b) < n"
      using card_shallower_parent [of "agent_at s", OF refl b(1), of a] b(2) Suc.prems(2) by simp
    with Suc.IH [OF b(1)] Some agent_below_step [of "agent_at s", OF Suc.prems(1), of p] require_stored(2) [OF assms(1) b(1)] id
    show ?thesis by auto
  qed
qed

lemma is_ancestor_correct:
  assumes "tree_ok s" and "agent_at s k = Some a"
  shows "is_ancestor s p k = Inr (agent_below (agent_at s) p k)"
  using ancestor_walk_correct [OF assms card_shallower [of "agent_at s", OF refl assms(2)]] require_stored(2) [OF assms]
  by (simp add: is_ancestor_def)

end
