(* ===== verification/Agent_Tree_Lifecycle.thy ===== *)
theory Agent_Tree_Lifecycle
  imports Agent_Tree_Invariant
begin

text \<open>
  The operations that settle Runs (complete, fail, cancel, close) and the ones that create
  them (begin, spawn, continue): what each does to the stored entries, and that it keeps the
  invariant. The last section collects all operations into one event machine.
\<close>

section \<open>Completing a Run\<close>

lemma clean_numbered:
  "clean_id (numbered ''agent-run-'' n)" "clean_id (numbered ''agent-'' n)"
  "clean_id (numbered ''context-'' n)" "clean_id (numbered ''agent-batch-'' n)"
  unfolding numbered_def by (rule clean_id_numbered; code_simp)+

definition completed_as :: "json \<Rightarrow> agent_tree_run \<Rightarrow> agent_tree_run" where
  "completed_as result r = r\<lparr>ar_status := Tree_DONE, ar_result := result,
     ar_lease_owner_id := None, ar_lease_expires_at_ms := None\<rparr>"

lemma ContextCheckpoint_post_init_frame:
  assumes "ContextCheckpoint_post_init c = Inr c'"
  shows "cc_version c' = cc_version c" and "cc_checkpoint_id c' = strip (cc_checkpoint_id c)"
    and "clean_id (cc_checkpoint_id c')" and "cc_agent_id c' = strip (cc_agent_id c)"
    and "cc_source_run_id c' = strip (cc_source_run_id c)" and "0 < cc_version c"
    and "clean_opt (cc_previous_checkpoint_id c) \<Longrightarrow> cc_previous_checkpoint_id c' = cc_previous_checkpoint_id c"
  using assms
  by (auto simp: ContextCheckpoint_post_init_def bind_result_Inr_iff required_text_Inr positive_int_Inr
      clean_id_def)

lemma complete_admission_Inr:
  assumes ok: "tree_ok s"
  shows "complete_admission s run_id ver own ep now = Inr (r, a) \<longleftrightarrow>
     strip run_id \<noteq> [] \<and> run_at s (strip run_id) = Some r \<and> ar_status r = Tree_RUNNING
     \<and> require_claim r own ep now = Inr ()
     \<and> (\<forall>k q. run_at s k = Some q \<longrightarrow> ar_root_run_id q = ar_root_run_id r
          \<longrightarrow> causal_below (run_at s) (ar_run_id r) k \<longrightarrow> ar_terminal q)
     \<and> agent_at s (ar_agent_id r) = Some a \<and> an_state a = Node_ACTIVE \<and> an_context_version a = ver"
    (is "?L \<longleftrightarrow> ?R")
proof -
  let ?items = "filter (\<lambda>item. ar_root_run_id item = ar_root_run_id r) (dict_values (ts_runs s))"
  have any: "any_result (\<lambda>item. if ar_terminal item then Inr False
         else is_causal_descendant s (ar_run_id r) (ar_run_id item)) ?items
      = Inr (\<exists>q \<in> set ?items. \<not> ar_terminal q \<and> causal_below (run_at s) (ar_run_id r) (ar_run_id q))"
    by (rule any_result_total)
      (auto simp: tree_ok_values(1) [OF ok] is_causal_descendant_correct [OF ok] simp del: set_map)
  have set: "q \<in> set (dict_values (ts_runs s)) \<longleftrightarrow> run_at s (ar_run_id q) = Some q" for q
    by (rule tree_ok_values(1) [OF ok])
  have quiet: "(\<exists>q \<in> set ?items. \<not> ar_terminal q \<and> causal_below (run_at s) (ar_run_id r) (ar_run_id q))
      \<longleftrightarrow> \<not> (\<forall>k q. run_at s k = Some q \<longrightarrow> ar_root_run_id q = ar_root_run_id r
          \<longrightarrow> causal_below (run_at s) (ar_run_id r) k \<longrightarrow> ar_terminal q)"
    unfolding set_filter Bex_def mem_Collect_eq set using tree_ok_run(1) [OF ok] by blast
  have ag: "strip (ar_agent_id r) = ar_agent_id r \<and> ar_agent_id r \<noteq> []" if "run_at s (strip run_id) = Some r"
    using tree_ok_run(2) [OF ok that] by (simp add: run_ok_def clean_id_def)
  show ?thesis
    unfolding complete_admission_def bind_result_Inr_iff require_run_Inr
    using ag any quiet by (auto simp: result_simps split: if_splits)
qed

lemma complete_run_cases:
  assumes ok: "tree_ok s" and op: "complete_run s run_id ver result content fp own ep now = (s', res)"
  shows "(\<exists>e. res = Inl e \<and> (s' = s \<or> s' = s\<lparr>ts_checkpoint_sequence := Suc (ts_checkpoint_sequence s)\<rparr>))
    \<or> (\<exists>r a c. complete_admission s run_id ver own ep now = Inr (r, a)
        \<and> res = Inr (completed_as result r)
        \<and> cc_version c = an_context_version a + 1 \<and> cc_agent_id c = an_agent_id a
        \<and> cc_source_run_id c = ar_run_id r \<and> clean_id (cc_checkpoint_id c)
        \<and> cc_checkpoint_id c = numbered ''context-'' (Suc (ts_checkpoint_sequence s))
        \<and> cc_previous_checkpoint_id c = an_context_checkpoint_id a
        \<and> s' = put_agent (a\<lparr>an_context_version := an_context_version a + 1,
             an_context_checkpoint_id := Some (cc_checkpoint_id c)\<rparr>)
           ((put_run (completed_as result r) (s\<lparr>ts_checkpoint_sequence := Suc (ts_checkpoint_sequence s)\<rparr>))
             \<lparr>ts_checkpoints := AList.update (cc_checkpoint_id c) c (ts_checkpoints s)\<rparr>))"
proof (cases "complete_admission s run_id ver own ep now")
  case (Inl e)
  with op show ?thesis by (auto simp: complete_run_def)
next
  case (Inr ra)
  obtain r a where ra: "ra = (r, a)" by (cases ra)
  have adm: "complete_admission s run_id ver own ep now = Inr (r, a)" using Inr ra by simp
  have r: "run_at s (strip run_id) = Some r" "ar_status r = Tree_RUNNING" "agent_at s (ar_agent_id r) = Some a"
    using adm complete_admission_Inr [OF ok] by simp_all
  note rok = tree_ok_run [OF ok r(1)] and aok = tree_ok_agent [OF ok r(3)]
  define c0 where "c0 = \<lparr>cc_checkpoint_id = numbered ''context-'' (Suc (ts_checkpoint_sequence s)),
               cc_agent_id = an_agent_id a, cc_version = an_context_version a + 1,
               cc_previous_checkpoint_id = an_context_checkpoint_id a,
               cc_source_run_id = ar_run_id r, cc_content_ref = content, cc_fingerprint = fp\<rparr>"
  have fin: "AgentTreeRun_post_init (completed_as result r) = Inr (completed_as result r)"
  proof (rule AgentTreeRun_post_init_id)
    show "run_ok (completed_as result r)"
      using rok(2,3) r(2) by (simp add: run_ok_def status_ok_def ar_active_status completed_as_def positive_opt_def)
  qed
  show ?thesis
  proof (cases "ContextCheckpoint_post_init c0")
    case (Inl e)
    with op adm show ?thesis
      by (auto simp: complete_run_def c0_def Let_def)
  next
    case c: (Inr c)
    note f = ContextCheckpoint_post_init_frame [OF c]
    have a': "AgentNode_post_init (a\<lparr>an_context_version := cc_version c,
        an_context_checkpoint_id := Some (cc_checkpoint_id c)\<rparr>)
      = Inr (a\<lparr>an_context_version := cc_version c, an_context_checkpoint_id := Some (cc_checkpoint_id c)\<rparr>)"
      using aok(2) f by (intro AgentNode_post_init_id) (simp add: agent_ok_def c0_def)
    have ids: "cc_version c = an_context_version a + 1" "cc_agent_id c = an_agent_id a"
        "cc_source_run_id c = ar_run_id r" "cc_previous_checkpoint_id c = an_context_checkpoint_id a"
        "cc_checkpoint_id c = numbered ''context-'' (Suc (ts_checkpoint_sequence s))"
      using f rok(2) aok(2) clean_numbered(3) by (simp_all add: c0_def run_ok_def agent_ok_def clean_id_def)
    show ?thesis
      using op adm c fin a' ids f(3)
      by (intro disjI2 exI [of _ r] exI [of _ a] exI [of _ c])
        (auto simp: complete_run_def c0_def completed_as_def Let_def put_run_def put_agent_def)
  qed
qed

lemma complete_run_ok:
  assumes ok: "tree_ok s" and op: "complete_run s run_id ver result content fp own ep now = (s', res)"
  shows "tree_ok s'"
  using complete_run_cases [OF assms]
proof (elim disjE exE conjE)
  fix r a c
  assume adm: "complete_admission s run_id ver own ep now = Inr (r, a)"
    and c: "clean_id (cc_checkpoint_id c)"
    and s': "s' = put_agent (a\<lparr>an_context_version := an_context_version a + 1,
             an_context_checkpoint_id := Some (cc_checkpoint_id c)\<rparr>)
           ((put_run (completed_as result r) (s\<lparr>ts_checkpoint_sequence := Suc (ts_checkpoint_sequence s)\<rparr>))
             \<lparr>ts_checkpoints := AList.update (cc_checkpoint_id c) c (ts_checkpoints s)\<rparr>)"
  let ?s1 = "s\<lparr>ts_checkpoint_sequence := Suc (ts_checkpoint_sequence s)\<rparr>"
  have r: "run_at s (strip run_id) = Some r" "ar_status r = Tree_RUNNING" "agent_at s (ar_agent_id r) = Some a"
    using adm complete_admission_Inr [OF ok] by simp_all
  note rok = tree_ok_run [OF ok r(1)] and aok = tree_ok_agent [OF ok r(3)]
  have "tree_ok (put_run (completed_as result r) ?s1)"
  proof (rule tree_ok_touch_run)
    show "tree_ok ?s1" using ok by simp
    show "run_at ?s1 (strip run_id) = Some r" using r(1) by simp
    show "run_ok (completed_as result r)"
      using rok(2,3) r(2) by (simp add: run_ok_def status_ok_def ar_active_status completed_as_def positive_opt_def)
  qed (simp_all add: completed_as_def same_run_def ar_active_status status_ok_def)
  then have "tree_ok ((put_run (completed_as result r) ?s1)
      \<lparr>ts_checkpoints := AList.update (cc_checkpoint_id c) c (ts_checkpoints s)\<rparr>)"
    by simp
  then show ?thesis
    unfolding s'
    by (rule tree_ok_touch_agent) (use r(3) aok c in \<open>auto simp: same_agent_def agent_ok_def\<close>)
qed (use ok in auto)

section \<open>Closing an Agent\<close>

lemma close_agent_cases:
  assumes "tree_ok s" and "close_agent s agent_id = Inr (res, s')"
  shows "\<exists>a. agent_at s (strip agent_id) = Some a \<and> an_state a = Node_ACTIVE
    \<and> \<not> has_active_run s (strip agent_id) \<and> res = a\<lparr>an_state := Node_CLOSED\<rparr> \<and> s' = put_agent res s"
proof -
  obtain a where a: "agent_at s (strip agent_id) = Some a" "an_state a = Node_ACTIVE" "\<not> has_active_run s (an_agent_id a)"
      and res: "AgentNode_post_init (a\<lparr>an_state := Node_CLOSED\<rparr>) = Inr res" "s' = put_agent res s"
    using assms(2) by (auto simp: close_agent_def result_simps)
  have "agent_ok (a\<lparr>an_state := Node_CLOSED\<rparr>)"
    using tree_ok_agent(2) [OF assms(1) a(1)] by (simp add: agent_ok_def)
  with a res tree_ok_agent(1) [OF assms(1) a(1)] show ?thesis by (auto simp: AgentNode_post_init_id)
qed

lemma close_agent_ok:
  assumes "tree_ok s" and "close_agent s agent_id = Inr (res, s')"
  shows "tree_ok s'"
  using close_agent_cases [OF assms] tree_ok_agent(2) [OF assms(1)] assms(1)
  by (auto intro!: tree_ok_touch_agent simp: same_agent_def agent_ok_def)

section \<open>Failing a Run\<close>

lemma child_edges_same:
  assumes "R k = Some r" and "same_run r r'"
  shows "child_edges (R(k \<mapsto> r')) = child_edges R"
  using assms by (auto simp: child_edges_def same_run_def split: if_splits)

lemma clean_reasons: "clean_id ''ancestor_run_failed''" "clean_id ''agent_run_canceled''"
  by code_simp+

lemma same_run_canceled [simp]: "same_run r (canceled_as e r)"
  by (simp add: same_run_def canceled_as_def)

lemma canceled_sel [simp]:
  "ar_run_id (canceled_as e r) = ar_run_id r" "ar_status (canceled_as e r) = Tree_CANCELED"
  "\<not> ar_active (canceled_as e r)" "status_ok (canceled_as e r)" "ar_lease_epoch (canceled_as e r) = ar_lease_epoch r"
  by (simp_all add: canceled_as_def ar_active_status status_ok_def)

text \<open>
  The loop over the stored Runs: exactly the listed active Runs below the failed one are
  canceled.
\<close>

lemma cancel_descendants_correct:
  assumes "tree_ok s" and "distinct (map ar_run_id items)"
    and "\<And>r. r \<in> set items \<Longrightarrow> run_at s (ar_run_id r) = Some r"
  shows "\<exists>s'. cancel_descendants p items s = Inr s' \<and> tree_ok s' \<and> child_edges (run_at s') = child_edges (run_at s)
    \<and> s' = s\<lparr>ts_runs := ts_runs s'\<rparr>
    \<and> (\<forall>k. run_at s' k = (case run_at s k of None \<Rightarrow> None | Some r \<Rightarrow> Some
         (if r \<in> set items \<and> ar_active r \<and> causal_below (run_at s) p k
          then canceled_as ''ancestor_run_failed'' r else r)))"
  using assms
proof (induction items arbitrary: s)
  case Nil
  then show ?case by (auto split: option.splits)
next
  case (Cons item items)
  have it: "run_at s (ar_run_id item) = Some item" using Cons.prems(3) by simp
  let ?k = "ar_run_id item" and ?c = "canceled_as ''ancestor_run_failed'' item"
  have desc: "is_causal_descendant s p ?k = Inr (causal_below (run_at s) p ?k)"
    by (rule is_causal_descendant_correct [OF Cons.prems(1) it])
  show ?case
  proof (cases "ar_active item \<and> causal_below (run_at s) p ?k")
    case True
    let ?s1 = "put_run ?c s"
    have rok: "run_ok ?c"
      by (rule run_ok_update(7) [OF tree_ok_run(2) [OF Cons.prems(1) it] clean_reasons(1)])
    have ok1: "tree_ok ?s1"
      by (rule tree_ok_touch_run [OF Cons.prems(1) it]) (simp_all add: rok)
    have stored: "run_at ?s1 (ar_run_id r) = Some r" if "r \<in> set items" for r
    proof -
      have "ar_run_id r \<noteq> ?k" using Cons.prems(2) that by (metis distinct.simps(2) image_eqI list.set_map list.simps(9))
      with Cons.prems(3) [of r] that show ?thesis by simp
    qed
    have edges: "child_edges (run_at ?s1) = child_edges (run_at s)"
      using child_edges_same [of "run_at s", OF it same_run_canceled] by simp
    have notin: "r \<notin> set items" if "ar_run_id r = ?k" for r
      using Cons.prems(2) that by (metis distinct.simps(2) image_eqI list.set_map list.simps(9))
    have dist: "distinct (map ar_run_id items)" using Cons.prems(2) by simp
    from Cons.IH [OF ok1 dist stored] obtain s' where
        s': "cancel_descendants p items ?s1 = Inr s'" "tree_ok s'"
          "child_edges (run_at s') = child_edges (run_at ?s1)" "s' = ?s1\<lparr>ts_runs := ts_runs s'\<rparr>"
        and at: "\<And>k. run_at s' k = (case run_at ?s1 k of None \<Rightarrow> None | Some r \<Rightarrow> Some
         (if r \<in> set items \<and> ar_active r \<and> causal_below (run_at ?s1) p k
          then canceled_as ''ancestor_run_failed'' r else r))"
      by blast
    have below: "causal_below (run_at ?s1) p k \<longleftrightarrow> causal_below (run_at s) p k" for k
      unfolding causal_below_def edges ..
    have "run_at s' k = (case run_at s k of None \<Rightarrow> None | Some r \<Rightarrow> Some
         (if r \<in> set (item # items) \<and> ar_active r \<and> causal_below (run_at s) p k
          then canceled_as ''ancestor_run_failed'' r else r))" for k
    proof (cases "k = ?k")
      case True
      then show ?thesis
        using at [of k] it \<open>ar_active item \<and> causal_below (run_at s) p ?k\<close> by simp
    next
      case False
      then show ?thesis
        using at [of k] tree_ok_run(1) [OF Cons.prems(1), of k] unfolding below
        by (auto split: option.splits)
    qed
    moreover have "s' = s\<lparr>ts_runs := ts_runs s'\<rparr>"
      by (subst s'(4)) (simp add: put_run_def)
    moreover have "cancel_descendants p (item # items) s = Inr s'"
      using True desc rok s'(1) by (simp add: AgentTreeRun_post_init_id)
    moreover have "child_edges (run_at s') = child_edges (run_at s)" using s'(3) edges by (rule trans)
    ultimately show ?thesis using s'(2) by blast
  next
    case False
    have stored: "run_at s (ar_run_id r) = Some r" if "r \<in> set items" for r
      using Cons.prems(3) that by simp
    have "cancel_descendants p (item # items) s = cancel_descendants p items s"
      using False desc by (cases "ar_active item") simp_all
    moreover have "(r = item \<or> r \<in> set items) \<and> ar_active r \<and> causal_below (run_at s) p k
        \<longleftrightarrow> r \<in> set items \<and> ar_active r \<and> causal_below (run_at s) p k" if "run_at s k = Some r" for k r
      using False tree_ok_run(1) [OF Cons.prems(1) that] by auto
    ultimately show ?thesis
      using Cons.IH [OF Cons.prems(1) _ stored] Cons.prems(2) by (auto cong: option.case_cong)
  qed
qed

lemma tree_ok_distinct_values:
  assumes "tree_ok s"
  shows "distinct (map ar_run_id (dict_values (ts_runs s)))"
proof -
  have d: "distinct (map fst (ts_runs s))" using assms by (simp add: tree_ok_def)
  have "ar_run_id q = l" if "(l, q) \<in> set (ts_runs s)" for l q
    using map_of_is_SomeI [OF d that] tree_ok_run(1) [OF assms] by blast
  then have "map ar_run_id (dict_values (ts_runs s)) = map fst (ts_runs s)"
    by auto
  with d show ?thesis by (simp only:)
qed

definition failed_as :: "string \<Rightarrow> agent_tree_run \<Rightarrow> agent_tree_run" where
  "failed_as err r = r\<lparr>ar_status := Tree_FAILED, ar_error_code := Some err,
     ar_lease_owner_id := None, ar_lease_expires_at_ms := None\<rparr>"

lemma failed_sel [simp]:
  "ar_run_id (failed_as e r) = ar_run_id r" "same_run r (failed_as e r)" "\<not> ar_active (failed_as e r)"
  "status_ok (failed_as e r)" "ar_status (failed_as e r) = Tree_FAILED"
  "ar_lease_epoch (failed_as e r) = ar_lease_epoch r"
  by (simp_all add: failed_as_def same_run_def ar_active_status status_ok_def)

text \<open>
  A failing Run takes its whole active subtree with it; nothing else changes. The operation
  always succeeds for the holder of the lease.
\<close>

lemma fail_run_eq:
  assumes ok: "tree_ok s" and r: "run_at s (strip run_id) = Some r" "strip run_id \<noteq> []" and act: "ar_active r"
    and claim: "require_claim r own ep now = Inr ()" and err: "strip err \<noteq> []"
  shows "\<exists>s'. fail_run s run_id err own ep now = Inr (failed_as (strip err) r, s') \<and> tree_ok s'
    \<and> s' = s\<lparr>ts_runs := ts_runs s'\<rparr>
    \<and> (\<forall>k. run_at s' k = (case run_at s k of None \<Rightarrow> None | Some q \<Rightarrow> Some
         (if k = strip run_id then failed_as (strip err) r
          else if ar_active q \<and> causal_below (run_at s) (strip run_id) k
          then canceled_as ''ancestor_run_failed'' q else q)))"
proof -
  let ?f = "failed_as (strip err) r" and ?k = "strip run_id"
  have id: "ar_run_id r = ?k" by (rule tree_ok_run(1) [OF ok r(1)])
  have rok: "run_ok ?f"
    using run_ok_update(6) [OF tree_ok_run(2) [OF ok r(1)], of "strip err"] err
    by (simp add: failed_as_def clean_id_def)
  let ?s1 = "put_run ?f s"
  have ok1: "tree_ok ?s1" by (rule tree_ok_touch_run [OF ok r(1)]) (simp_all add: rok)
  have filt: "filter_result (\<lambda>item. if ar_active item then is_causal_descendant s (ar_run_id r) (ar_run_id item)
        else Inr False) (dict_values (ts_runs s))
      = Inr (filter (\<lambda>q. ar_active q \<and> causal_below (run_at s) ?k (ar_run_id q)) (dict_values (ts_runs s)))"
    by (rule filter_result_total)
      (auto simp: tree_ok_values(1) [OF ok] is_causal_descendant_correct [OF ok] id simp del: set_map)
  note dist = tree_ok_distinct_values [OF ok1]
  have stored: "run_at ?s1 (ar_run_id q) = Some q" if "q \<in> set (dict_values (ts_runs ?s1))" for q
    using that tree_ok_values(1) [OF ok1] by blast
  from cancel_descendants_correct [OF ok1 dist stored] obtain s' where
      s': "cancel_descendants ?k (dict_values (ts_runs ?s1)) ?s1 = Inr s'" "tree_ok s'"
        "s' = ?s1\<lparr>ts_runs := ts_runs s'\<rparr>"
      and at: "\<And>k. run_at s' k = (case run_at ?s1 k of None \<Rightarrow> None | Some q \<Rightarrow> Some
         (if q \<in> set (dict_values (ts_runs ?s1)) \<and> ar_active q \<and> causal_below (run_at ?s1) ?k k
          then canceled_as ''ancestor_run_failed'' q else q))"
    by blast
  have below: "causal_below (run_at ?s1) p k \<longleftrightarrow> causal_below (run_at s) p k" for p k
    using child_edges_same [of "run_at s", OF r(1), of ?f] by (simp add: causal_below_def id)
  have "fail_run s run_id err own ep now = Inr (?f, s')"
    using r act claim err rok s'(1) filt
    by (simp add: fail_run_def require_run_def required_text_def id failed_as_def [symmetric]
        AgentTreeRun_post_init_id Let_def)
  moreover have "run_at s' k = (case run_at s k of None \<Rightarrow> None | Some q \<Rightarrow> Some
         (if k = ?k then ?f else if ar_active q \<and> causal_below (run_at s) ?k k
          then canceled_as ''ancestor_run_failed'' q else q))" for k
  proof (cases "run_at ?s1 k")
    case None
    then show ?thesis using at [of k] r(1) by (auto simp: id split: if_splits)
  next
    case (Some q)
    then have "q \<in> set (dict_values (ts_runs ?s1))"
      using tree_ok_values(1) [OF ok1, of q] tree_ok_run(1) [OF ok1 Some] by simp
    with at [of k] Some r(1) show ?thesis
      unfolding below by (auto simp: id split: if_splits option.splits)
  qed
  moreover have "s' = s\<lparr>ts_runs := ts_runs s'\<rparr>" by (subst s'(3)) (simp add: put_run_def)
  ultimately show ?thesis using s'(2) by blast
qed

lemma fail_run_cases:
  assumes "tree_ok s" and "fail_run s run_id err own ep now = Inr (res, s')"
  shows "\<exists>r. run_at s (strip run_id) = Some r \<and> strip run_id \<noteq> [] \<and> strip err \<noteq> []
    \<and> (\<not> ar_active r \<and> res = r \<and> s' = s
       \<or> ar_active r \<and> require_claim r own ep now = Inr ())"
  using assms(2) by (auto simp: fail_run_def result_simps required_text_Inr split: if_splits)

lemma fail_run_ok:
  assumes "tree_ok s" and "fail_run s run_id err own ep now = Inr (res, s')"
  shows "tree_ok s'"
  using fail_run_cases [OF assms] fail_run_eq [OF assms(1)] assms by fastforce

section \<open>Cancelling a subtree\<close>

definition subtree :: "run_map \<Rightarrow> string \<Rightarrow> string set" where
  "subtree R x = {k. (k, x) \<in> (child_edges R)\<^sup>*}"

lemma child_edges_single_valued: "single_valued (child_edges R)"
  by (auto simp: single_valued_def child_edges_def)

lemma causal_below_created:
  assumes ok: "tree_ok s" and "causal_below (run_at s) p k"
  shows "\<exists>q r. run_at s p = Some q \<and> run_at s k = Some r \<and> ar_root_run_id q = ar_root_run_id r
    \<and> ar_created_sequence q < ar_created_sequence r"
  using assms(2) unfolding causal_below_def
proof (induction rule: trancl_induct)
  case (base p)
  then show ?case
    using run_linkedD(3) [OF tree_ok_run(4) [OF ok]] by (auto simp: child_edges_def)
next
  case (step p p')
  then show ?case
    using run_linkedD(3) [OF tree_ok_run(4) [OF ok]] by (fastforce simp: child_edges_def)
qed

lemma subtree_unfold: "subtree R x = insert x (\<Union>c \<in> {c. (c, x) \<in> child_edges R}. subtree R c)"
  unfolding subtree_def by (auto elim: rtranclE intro: rtrancl_into_rtrancl)

lemma subtree_child_fresh:
  assumes ok: "tree_ok s" and "(c, x) \<in> child_edges (run_at s)"
  shows "x \<notin> subtree (run_at s) c"
proof
  assume "x \<in> subtree (run_at s) c"
  then have "(x, x) \<in> (child_edges (run_at s))\<^sup>+"
    unfolding subtree_def using assms(2) by (simp add: rtrancl_into_trancl1)
  with causal_below_created [OF ok, of x x] show False
    by (auto simp: causal_below_def)
qed

lemma subtree_children_disjoint:
  assumes ok: "tree_ok s" and c: "(c, x) \<in> child_edges (run_at s)" "(d, x) \<in> child_edges (run_at s)" and "c \<noteq> d"
  shows "subtree (run_at s) c \<inter> subtree (run_at s) d = {}"
proof -
  have no: "(c, d) \<notin> (child_edges (run_at s))\<^sup>*"
    if e: "(c, x) \<in> child_edges (run_at s)" "(d, x) \<in> child_edges (run_at s)" and ne: "c \<noteq> d" for c d
  proof
    assume "(c, d) \<in> (child_edges (run_at s))\<^sup>*"
    then obtain y where "(c, y) \<in> child_edges (run_at s)" "(y, d) \<in> (child_edges (run_at s))\<^sup>*"
      using ne by (meson converse_rtranclE)
    moreover have "y = x" using e(1) calculation(1) by (auto simp: child_edges_def)
    ultimately have "x \<in> subtree (run_at s) d" by (simp add: subtree_def)
    with subtree_child_fresh [OF ok e(2)] show False by blast
  qed
  show ?thesis
    using no [OF c assms(4)] no [OF c(2,1) assms(4) [symmetric]]
      single_valued_confluent [OF child_edges_single_valued [of "run_at s"], of _ c d]
    unfolding subtree_def by blast
qed

lemma subtree_dom:
  assumes "tree_ok s" and "run_at s x = Some r"
  shows "subtree (run_at s) x \<subseteq> dom (run_at s)"
proof
  fix k assume "k \<in> subtree (run_at s) x"
  then have "(k, x) \<in> (child_edges (run_at s))\<^sup>*" by (simp add: subtree_def)
  then show "k \<in> dom (run_at s)"
    by (rule converse_rtranclE) (use assms(2) in \<open>auto simp: child_edges_def\<close>)
qed

lemma subtree_children_eq:
  assumes ok: "tree_ok s" and x: "run_at s x = Some r" "ar_root_run_id r = root"
  shows "set (subtree_children s root x) = {c. (c, x) \<in> child_edges (run_at s)}"
    and "distinct (subtree_children s root x)"
proof -
  have "ar_root_run_id q = root" if "run_at s c = Some q" "ar_parent_run_id q = Some x" for c q
    using run_linkedD(3) [OF tree_ok_run(4) [OF ok that(1)] that(2)] x by auto
  then have "c \<in> set (subtree_children s root x) \<longleftrightarrow> (c, x) \<in> child_edges (run_at s)" for c
    using tree_ok_values(1) [OF ok] tree_ok_run(1) [OF ok]
    unfolding subtree_children_def child_edges_def set_map [of ar_run_id] set_filter image_iff mem_Collect_eq
      case_prod_conv by blast
  then show "set (subtree_children s root x) = {c. (c, x) \<in> child_edges (run_at s)}" by blast
  show "distinct (subtree_children s root x)"
    using tree_ok_distinct_values [OF ok] unfolding subtree_children_def by (rule distinct_map_filter)
qed

definition disjoint_subtrees :: "run_map \<Rightarrow> string list \<Rightarrow> bool" where
  "disjoint_subtrees R xs \<longleftrightarrow> distinct xs
     \<and> (\<forall>x \<in> set xs. \<forall>y \<in> set xs. x \<noteq> y \<longrightarrow> subtree R x \<inter> subtree R y = {})"

lemma subtree_walk_correct:
  assumes ok: "tree_ok s"
    and "\<forall>x \<in> set pending. \<exists>r. run_at s x = Some r \<and> ar_root_run_id r = root"
    and "disjoint_subtrees (run_at s) pending"
    and "card (\<Union>x \<in> set pending. subtree (run_at s) x) \<le> n"
  shows "\<exists>ordered. subtree_walk n s root pending = Inr ordered
    \<and> set ordered = (\<Union>x \<in> set pending. subtree (run_at s) x) \<and> distinct ordered"
  using assms(2-4)
proof (induction n arbitrary: pending)
  case 0
  have "pending = []"
  proof (rule ccontr)
    assume "pending \<noteq> []"
    then obtain x where x: "x \<in> set pending" by (meson list.set_sel(1))
    have "finite (\<Union>x \<in> set pending. subtree (run_at s) x)"
      using 0(1) subtree_dom [OF ok] finite_dom_map_of by (meson finite_UN finite_set finite_subset)
    moreover have "x \<in> (\<Union>x \<in> set pending. subtree (run_at s) x)" using x by (auto simp: subtree_def)
    ultimately show False using 0(3) by (metis card_0_eq empty_iff le_zero_eq)
  qed
  then show ?case by simp
next
  case (Suc n)
  show ?case
  proof (cases pending)
    case Nil
    then show ?thesis by simp
  next
    case (Cons x rest)
    let ?R = "run_at s" and ?cs = "subtree_children s root x"
    let ?new = "rev ?cs @ rest"
    obtain r where r: "?R x = Some r" "ar_root_run_id r = root" using Suc.prems(1) Cons by auto
    note ch = subtree_children_eq [OF ok r]
    have sub: "subtree ?R x = insert x (\<Union>c \<in> set ?cs. subtree ?R c)"
      using subtree_unfold [of ?R x] ch(1) by simp
    have sep: "subtree ?R x \<inter> subtree ?R y = {}" if "y \<in> set rest" for y
      using Suc.prems(2) that by (auto simp: Cons disjoint_subtrees_def)
    have fresh: "x \<notin> (\<Union>y \<in> set ?new. subtree ?R y)"
      using sep subtree_child_fresh [OF ok] ch(1) by (auto simp: subtree_def)
    have un: "(\<Union>y \<in> set pending. subtree ?R y) = insert x (\<Union>y \<in> set ?new. subtree ?R y)"
      using sub by (auto simp: Cons)
    have new1: "\<forall>y \<in> set ?new. \<exists>q. ?R y = Some q \<and> ar_root_run_id q = root"
    proof
      fix y assume "y \<in> set ?new"
      then consider "y \<in> set rest" | "(y, x) \<in> child_edges ?R" using ch(1) by auto
      then show "\<exists>q. ?R y = Some q \<and> ar_root_run_id q = root"
      proof cases
        case 2
        then have "causal_below ?R x y" by (simp add: causal_below_def)
        from causal_below_created [OF ok this] r show ?thesis by auto
      qed (use Suc.prems(1) Cons in auto)
    qed
    have inc: "subtree ?R c \<subseteq> subtree ?R x" if "c \<in> set ?cs" for c using sub that by blast
    have ne: "c \<in> subtree ?R c" for c by (simp add: subtree_def)
    have new2: "disjoint_subtrees ?R ?new"
      unfolding disjoint_subtrees_def
    proof (intro conjI ballI impI)
      show "distinct ?new"
        using ch(2) Suc.prems(2) sep inc ne by (fastforce simp: Cons disjoint_subtrees_def)
      fix y z assume yz: "y \<in> set ?new" "z \<in> set ?new" "y \<noteq> z"
      then consider "y \<in> set ?cs" "z \<in> set ?cs" | "y \<in> set ?cs" "z \<in> set rest"
        | "y \<in> set rest" "z \<in> set ?cs" | "y \<in> set rest" "z \<in> set rest" by auto
      then show "subtree ?R y \<inter> subtree ?R z = {}"
      proof cases
        case 1
        with subtree_children_disjoint [OF ok _ _ yz(3)] ch(1) show ?thesis by blast
      next
        case 4
        with Suc.prems(2) yz(3) show ?thesis by (auto simp: Cons disjoint_subtrees_def)
      qed (use sep inc in blast)+
    qed
    have fin: "finite (\<Union>y \<in> set ?new. subtree ?R y)"
      using new1 subtree_dom [OF ok] finite_dom_map_of by (meson finite_UN finite_set finite_subset)
    have "card (\<Union>y \<in> set ?new. subtree ?R y) \<le> n"
      using Suc.prems(3) fresh fin unfolding un by simp
    from Suc.IH [OF new1 new2 this] obtain ordered where
        o: "subtree_walk n s root ?new = Inr ordered" "set ordered = (\<Union>y \<in> set ?new. subtree ?R y)" "distinct ordered"
      by blast
    then have "subtree_walk (Suc n) s root pending = Inr (x # ordered)" by (simp add: Cons)
    moreover have "set (x # ordered) = (\<Union>y \<in> set pending. subtree ?R y)" using o(2) un by simp
    moreover have "distinct (x # ordered)" using o(2,3) fresh by simp
    ultimately show ?thesis by blast
  qed
qed

lemma cancel_listed_correct:
  assumes "tree_ok s" and "distinct ks" and "\<forall>k \<in> set ks. run_at s k \<noteq> None"
  shows "\<exists>s'. cancel_listed ks s = Inr (filter (\<lambda>k. ar_active (the (run_at s k))) ks, s') \<and> tree_ok s'
    \<and> s' = s\<lparr>ts_runs := ts_runs s'\<rparr>
    \<and> (\<forall>k. run_at s' k = (case run_at s k of None \<Rightarrow> None | Some r \<Rightarrow> Some
         (if k \<in> set ks \<and> ar_active r then canceled_as ''agent_run_canceled'' r else r)))"
  using assms
proof (induction ks arbitrary: s)
  case Nil
  then show ?case by (auto split: option.splits)
next
  case (Cons k ks)
  obtain r where r: "run_at s k = Some r" using Cons.prems(3) by auto
  let ?c = "canceled_as ''agent_run_canceled'' r"
  have id: "ar_run_id r = k" by (rule tree_ok_run(1) [OF Cons.prems(1) r])
  show ?case
  proof (cases "ar_active r")
    case True
    have rok: "run_ok ?c"
      by (rule run_ok_update(7) [OF tree_ok_run(2) [OF Cons.prems(1) r] clean_reasons(2)])
    have s1: "s\<lparr>ts_runs := AList.update k ?c (ts_runs s)\<rparr> = put_run ?c s" by (simp add: put_run_def id)
    have ok1: "tree_ok (put_run ?c s)"
      by (rule tree_ok_touch_run [OF Cons.prems(1) r]) (simp_all add: rok)
    have k: "k \<notin> set ks" "distinct ks" using Cons.prems(2) by simp_all
    have "\<forall>l \<in> set ks. run_at (put_run ?c s) l \<noteq> None" using Cons.prems(3) by (simp add: id)
    from Cons.IH [OF ok1 k(2) this] obtain s' where
        s': "cancel_listed ks (put_run ?c s) = Inr (filter (\<lambda>l. ar_active (the (run_at (put_run ?c s) l))) ks, s')"
          "tree_ok s'" "s' = (put_run ?c s)\<lparr>ts_runs := ts_runs s'\<rparr>"
        and at: "\<And>l. run_at s' l = (case run_at (put_run ?c s) l of None \<Rightarrow> None | Some r \<Rightarrow> Some
         (if l \<in> set ks \<and> ar_active r then canceled_as ''agent_run_canceled'' r else r))"
      by blast
    have "filter (\<lambda>l. ar_active (the (run_at (put_run ?c s) l))) ks = filter (\<lambda>l. ar_active (the (run_at s l))) ks"
      using k(1) by (intro filter_cong) (auto simp: id)
    then have "cancel_listed (k # ks) s = Inr (filter (\<lambda>l. ar_active (the (run_at s l))) (k # ks), s')"
      using s'(1) r True rok by (simp add: s1 AgentTreeRun_post_init_id)
    moreover have "s' = s\<lparr>ts_runs := ts_runs s'\<rparr>" by (subst s'(3)) (simp add: put_run_def)
    moreover have "run_at s' l = (case run_at s l of None \<Rightarrow> None | Some r \<Rightarrow> Some
         (if l \<in> set (k # ks) \<and> ar_active r then canceled_as ''agent_run_canceled'' r else r))" for l
      using at [of l] r True k(1) by (cases "l = k") (auto simp: id split: option.splits)
    ultimately show ?thesis using s'(2) by blast
  next
    case False
    have k: "distinct ks" "\<forall>l \<in> set ks. run_at s l \<noteq> None" using Cons.prems by simp_all
    from Cons.IH [OF Cons.prems(1) k] obtain s' where
        s': "cancel_listed ks s = Inr (filter (\<lambda>l. ar_active (the (run_at s l))) ks, s')" "tree_ok s'"
          "s' = s\<lparr>ts_runs := ts_runs s'\<rparr>"
        and at: "\<And>l. run_at s' l = (case run_at s l of None \<Rightarrow> None | Some r \<Rightarrow> Some
         (if l \<in> set ks \<and> ar_active r then canceled_as ''agent_run_canceled'' r else r))"
      by blast
    have "run_at s' l = (case run_at s l of None \<Rightarrow> None | Some r \<Rightarrow> Some
         (if l \<in> set (k # ks) \<and> ar_active r then canceled_as ''agent_run_canceled'' r else r))" for l
      using at [of l] r False by (auto split: option.splits)
    moreover have "cancel_listed (k # ks) s = Inr (filter (\<lambda>l. ar_active (the (run_at s l))) (k # ks), s')"
      using s'(1) r False by simp
    ultimately show ?thesis using s'(2,3) by blast
  qed
qed

text \<open>
  In a well-formed tree \<open>cancel_subtree\<close> ends, cancels exactly the active Runs of the subtree
  and reports them.
\<close>

lemma cancel_subtree_eq:
  assumes ok: "tree_ok s" and r: "run_at s (strip run_id) = Some r" "strip run_id \<noteq> []"
  shows "\<exists>ids s'. cancel_subtree s run_id = Inr (ids, s') \<and> tree_ok s'
    \<and> s' = s\<lparr>ts_runs := ts_runs s'\<rparr> \<and> distinct ids
    \<and> set ids = {k \<in> subtree (run_at s) (strip run_id). ar_active (the (run_at s k))}
    \<and> (\<forall>k. run_at s' k = (case run_at s k of None \<Rightarrow> None | Some q \<Rightarrow> Some
         (if k \<in> subtree (run_at s) (strip run_id) \<and> ar_active q
          then canceled_as ''agent_run_canceled'' q else q)))"
proof -
  let ?k = "strip run_id" and ?R = "run_at s"
  have id: "ar_run_id r = ?k" by (rule tree_ok_run(1) [OF ok r(1)])
  have dom: "subtree ?R ?k \<subseteq> dom ?R" by (rule subtree_dom [OF ok r(1)])
  have "card (subtree ?R ?k) \<le> card (dom ?R)" by (rule card_mono [OF finite_dom_map_of dom])
  also have "card (dom ?R) \<le> length (ts_runs s)"
    by (simp add: dom_map_of_conv_image_fst card_image_le [THEN le_trans] card_length)
  finally have "card (\<Union>x \<in> set [?k]. subtree ?R x) \<le> length (ts_runs s)" by simp
  then obtain ordered where o: "subtree_walk (length (ts_runs s)) s (ar_root_run_id r) [?k] = Inr ordered"
      "set ordered = subtree ?R ?k" "distinct ordered"
    using subtree_walk_correct [OF ok, of "[?k]" "ar_root_run_id r"] r(1) by (auto simp: disjoint_subtrees_def)
  have stored: "\<forall>k \<in> set ordered. ?R k \<noteq> None" using dom o(2) by auto
  from cancel_listed_correct [OF ok o(3) stored] obtain s' where
      s': "cancel_listed ordered s = Inr (filter (\<lambda>k. ar_active (the (?R k))) ordered, s')" "tree_ok s'"
        "s' = s\<lparr>ts_runs := ts_runs s'\<rparr>"
      and at: "\<forall>k. run_at s' k = (case ?R k of None \<Rightarrow> None | Some r \<Rightarrow> Some
         (if k \<in> set ordered \<and> ar_active r then canceled_as ''agent_run_canceled'' r else r))"
    by blast
  have all: "map_result (\<lambda>i. case ?R i of None \<Rightarrow> Inl (KeyError i) | Some r \<Rightarrow> Inr r) ordered
      = Inr (map (\<lambda>i. the (?R i)) ordered)"
    using stored by (intro map_result_total) auto
  have "cancel_subtree s run_id = Inr (filter (\<lambda>k. ar_active (the (?R k))) ordered, s')"
    using r o(1) s'(1) all by (simp add: cancel_subtree_def require_run_def required_text_def id)
  moreover note at [unfolded o(2)]
  moreover have "set (filter (\<lambda>k. ar_active (the (?R k))) ordered) = {k \<in> subtree ?R ?k. ar_active (the (?R k))}"
    using o(2) by auto
  moreover have "distinct (filter (\<lambda>k. ar_active (the (?R k))) ordered)" using o(3) by simp
  ultimately show ?thesis using s'(2,3) by blast
qed

lemma cancel_subtree_ok:
  assumes "tree_ok s" and "cancel_subtree s run_id = Inr (res, s')"
  shows "tree_ok s'"
proof -
  obtain r where "run_at s (strip run_id) = Some r" "strip run_id \<noteq> []"
    using assms(2) by (auto simp: cancel_subtree_def bind_result_Inr_iff require_run_Inr)
  from cancel_subtree_eq [OF assms(1) this] assms(2) show ?thesis by auto
qed

section \<open>Beginning a root Run\<close>

text \<open>
  A command as its constructor returns it. The repository numbers the Runs and Agents it
  creates; the identities a host chooses for root Runs and root Agents must not be of that
  form.
\<close>

definition begin_cmd_ok :: "begin_root_agent_command \<Rightarrow> bool" where
  "begin_cmd_ok c \<longleftrightarrow> clean_id (br_run_id c) \<and> clean_id (br_agent_id c) \<and> clean_id (br_name c)
     \<and> clean_id (br_title c) \<and> clean_id (br_instruction c) \<and> clean_id (br_objective c)
     \<and> clean_id (br_idempotency_key c)
     \<and> \<not> reserved ''agent-run-'' (br_run_id c) \<and> \<not> reserved ''agent-'' (br_agent_id c)"

lemma map_of_fst: "k \<notin> fst ` set d \<longleftrightarrow> map_of d k = None"
  by (simp add: map_of_eq_None_iff)

lemma put_fresh:
  "run_at s (ar_run_id r) = None \<Longrightarrow> put_run r s = add_entries [r] [] s"
  "agent_at s (an_agent_id a) = None \<Longrightarrow> put_agent a s = add_entries [] [a] s"
  by (simp_all add: put_run_def put_agent_def add_entries_def run_entries_def agent_entries_def
      update_fresh map_of_fst)

lemma add_entries_at:
  "run_at s (ar_run_id r) = None \<Longrightarrow> run_at (add_entries [r] as s) = (run_at s)(ar_run_id r \<mapsto> r)"
  "run_at (add_entries [] as s) = run_at s"
  "agent_at s (an_agent_id a) = None \<Longrightarrow> agent_at (add_entries rs [a] s) = (agent_at s)(an_agent_id a \<mapsto> a)"
  "agent_at (add_entries rs [] s) = agent_at s"
  by (auto simp: add_entries_def run_entries_def agent_entries_def map_add_def fun_eq_iff split: option.splits)

lemma reserved_ids: "reserved ''agent-run-'' (numbered ''agent-run-'' n)" "reserved ''agent-'' (numbered ''agent-'' n)"
  unfolding numbered_def by (rule reserved_numbered)+

lemma fresh_after_host:
  "fresh_after p n m \<Longrightarrow> \<not> reserved p k \<Longrightarrow> (\<And>i. reserved p (numbered p i)) \<Longrightarrow> fresh_after p n (m(k \<mapsto> v))"
  by (auto simp: fresh_after_def)

lemma fresh_after_next: "fresh_after p n m \<Longrightarrow> fresh_after p (Suc n) (m(numbered p (Suc n) \<mapsto> v))"
  by (auto simp: fresh_after_def numbered_def)

definition root_run :: "begin_root_agent_command \<Rightarrow> agent_node \<Rightarrow> nat \<Rightarrow> agent_tree_run" where
  "root_run c agent n = \<lparr>ar_run_id = br_run_id c, ar_agent_id = an_agent_id agent, ar_root_run_id = br_run_id c,
     ar_parent_run_id = None, ar_previous_run_id = an_latest_run_id agent,
     ar_spawn_batch_id = None, ar_objective = br_objective c, ar_input_payload = [],
     ar_required = True, ar_priority = 0, ar_status = Tree_RUNNING, ar_result = JNull,
     ar_error_code = None, ar_created_sequence = int (Suc n), ar_lease_owner_id = None,
     ar_lease_epoch = 0, ar_lease_expires_at_ms = None, ar_dependency_run_ids = []\<rparr>"

lemma root_agent_for_cases:
  assumes ok: "tree_ok s" and c: "begin_cmd_ok c" and "root_agent_for s c = Inr agent"
  shows "agent_ok agent \<and> an_agent_id agent = br_agent_id c \<and> an_parent_agent_id agent = None
    \<and> an_root_agent_id agent = br_agent_id c \<and> \<not> has_active_run s (br_agent_id c)
    \<and> (agent_at s (br_agent_id c) = None \<or> agent_at s (br_agent_id c) = Some agent)"
proof (cases "agent_at s (br_agent_id c)")
  case (Some a)
  then have a: "agent = a" "an_parent_agent_id a = None" "\<not> has_active_run s (an_agent_id a)"
    using assms(3) by (auto simp: root_agent_for_def split: if_splits)
  note f = tree_ok_agent [OF ok Some]
  with a Some node_linkedD(1) [OF f(3)] show ?thesis by simp
next
  case None
  let ?a = "\<lparr>an_agent_id = br_agent_id c, an_root_agent_id = br_agent_id c, an_parent_agent_id = None,
           an_depth = 0, an_created_by_run_id = br_run_id c,
           an_created_by_call_id = br_idempotency_key c, an_name = br_name c, an_title = br_title c,
           an_instruction = br_instruction c, an_capability_grant = br_capability_grant c,
           an_context_version = 0, an_context_checkpoint_id = None, an_latest_run_id = None,
           an_state = Node_ACTIVE\<rparr>"
  have "agent_ok ?a" using c by (simp add: agent_ok_def begin_cmd_ok_def)
  then have "agent = ?a" and "agent_ok agent"
    using assms(3) None by (simp_all add: root_agent_for_def AgentNode_post_init_id)
  moreover have "\<not> has_active_run s (br_agent_id c)"
    using None run_linkedD(1) [OF tree_ok_run(4) [OF ok]] tree_ok_values(1) [OF ok]
    by (fastforce simp: has_active_run_def simp del: set_map)
  ultimately show ?thesis using None by simp
qed

lemma agent_ok_latest: "agent_ok a \<Longrightarrow> clean_id k \<Longrightarrow> agent_ok (a\<lparr>an_latest_run_id := Some k\<rparr>)"
  by (simp add: agent_ok_def)

lemma begin_root_cases:
  assumes ok: "tree_ok s" and c: "begin_cmd_ok c" and op: "begin_root H s c = Inr (res, s')"
  shows "(s' = s \<and> run_at s (br_run_id c) = Some res \<and> map_of (ts_root_digests s) (br_run_id c) = Some (begin_root_digest H c))
    \<or> (\<exists>agent. root_agent_for s c = Inr agent \<and> run_at s (br_run_id c) = None
        \<and> res = root_run c agent (ts_sequence s)
        \<and> s' = put_agent (agent\<lparr>an_latest_run_id := Some (br_run_id c)\<rparr>)
            ((put_run res (s\<lparr>ts_sequence := Suc (ts_sequence s)\<rparr>))\<lparr>ts_root_digests :=
               AList.update (br_run_id c) (begin_root_digest H c) (ts_root_digests s)\<rparr>))"
proof (cases "run_at s (br_run_id c)")
  case (Some r)
  with op show ?thesis by (auto simp: begin_root_def Let_def split: if_splits)
next
  case None
  obtain agent where agent: "root_agent_for s c = Inr agent"
    using op None by (auto simp: begin_root_def bind_result_Inr_iff)
  note f = root_agent_for_cases [OF ok c agent]
  have rok: "run_ok (root_run c agent (ts_sequence s))"
    using f c by (simp add: run_ok_def root_run_def begin_cmd_ok_def agent_ok_def clean_ids_def positive_opt_def)
  have aok: "agent_ok (agent\<lparr>an_latest_run_id := Some (br_run_id c)\<rparr>)"
    using f c by (intro agent_ok_latest) (simp_all add: begin_cmd_ok_def)
  have "begin_root H s c = Inr (root_run c agent (ts_sequence s),
      put_agent (agent\<lparr>an_latest_run_id := Some (br_run_id c)\<rparr>)
            ((put_run (root_run c agent (ts_sequence s)) (s\<lparr>ts_sequence := Suc (ts_sequence s)\<rparr>))\<lparr>ts_root_digests :=
               AList.update (br_run_id c) (begin_root_digest H c) (ts_root_digests s)\<rparr>))"
    using None agent AgentTreeRun_post_init_id [OF rok] AgentNode_post_init_id [OF aok]
    by (simp add: begin_root_def next_sequence_def root_run_def)
  with op agent None show ?thesis by auto
qed

lemma one_run_wf: "ar_dependency_run_ids r = [] \<Longrightarrow>
  wf {(d, ar_run_id q) | d q. q \<in> set [r] \<and> d \<in> set (ar_dependency_run_ids q)}"
  by simp

lemma update_sequences: "s\<lparr>ts_sequence := n, ts_run_sequence := ts_run_sequence s, ts_agent_sequence := ts_agent_sequence s\<rparr>
  = s\<lparr>ts_sequence := n\<rparr>"
  by simp

lemma begin_root_ok:
  assumes ok: "tree_ok s" and c: "begin_cmd_ok c" and op: "begin_root H s c = Inr (res, s')"
  shows "tree_ok s'"
  using begin_root_cases [OF assms]
proof (elim disjE exE conjE)
  fix agent
  assume agent: "root_agent_for s c = Inr agent" and none: "run_at s (br_run_id c) = None"
    and res: "res = root_run c agent (ts_sequence s)"
    and s': "s' = put_agent (agent\<lparr>an_latest_run_id := Some (br_run_id c)\<rparr>)
            ((put_run res (s\<lparr>ts_sequence := Suc (ts_sequence s)\<rparr>))\<lparr>ts_root_digests :=
               AList.update (br_run_id c) (begin_root_digest H c) (ts_root_digests s)\<rparr>)"
  note f = root_agent_for_cases [OF ok c agent]
  let ?a = "agent\<lparr>an_latest_run_id := Some (br_run_id c)\<rparr>"
  let ?n = "Suc (ts_sequence s)"
  have aok: "agent_ok ?a" using f c by (intro agent_ok_latest) (simp_all add: begin_cmd_ok_def)
  have rok: "run_ok res \<and> status_ok res \<and> ar_created_sequence res \<le> int ?n"
    using f c by (simp add: run_ok_def root_run_def begin_cmd_ok_def agent_ok_def clean_ids_def
        positive_opt_def status_ok_def res)
  have sel: "ar_run_id res = br_run_id c" "ar_agent_id res = br_agent_id c" "ar_dependency_run_ids res = []"
      "ar_parent_run_id res = None" "ar_root_run_id res = br_run_id c"
    using f by (simp_all add: res root_run_def)
  have fr: "fresh_after ''agent-run-'' (ts_run_sequence s) ((run_at s)(br_run_id c \<mapsto> res))"
    using ok c reserved_ids(1) by (intro fresh_after_host) (auto simp: tree_ok_def begin_cmd_ok_def)
  show ?thesis
  proof (cases "agent_at s (br_agent_id c)")
    case None
    then have na: "agent_at s (an_agent_id ?a) = None" using f by simp
    have nr: "run_at s (ar_run_id res) = None" using none sel by simp
    have at: "run_at (add_entries [res] [?a] s) = (run_at s)(br_run_id c \<mapsto> res)"
        "agent_at (add_entries [res] [?a] s) = (agent_at s)(br_agent_id c \<mapsto> ?a)"
      using add_entries_at(1) [OF nr] add_entries_at(3) [OF na] f sel by simp_all
    have "tree_ok ((add_entries [res] [?a] s)\<lparr>ts_sequence := ?n, ts_run_sequence := ts_run_sequence s,
        ts_agent_sequence := ts_agent_sequence s\<rparr>)"
    proof (rule tree_ok_add [OF ok])
      show "fresh_after ''agent-'' (ts_agent_sequence s) (agent_at (add_entries [res] [?a] s))"
        unfolding at using ok c reserved_ids(2) by (intro fresh_after_host) (auto simp: tree_ok_def begin_cmd_ok_def)
      show "agent_ok a \<and> node_linked (agent_at (add_entries [res] [?a] s)) a" if "a \<in> set [?a]" for a
        using that aok f by (simp add: node_linked_def)
      show "run_ok r \<and> status_ok r \<and> ar_created_sequence r \<le> int ?n
          \<and> run_linked (run_at (add_entries [res] [?a] s)) (agent_at (add_entries [res] [?a] s)) r"
        if "r \<in> set [res]" for r
        using that rok sel unfolding at by (simp add: run_linked_def)
    qed (use f none na sel fr at one_run_wf in auto)
    moreover have "s' = ((add_entries [res] [?a] s)\<lparr>ts_sequence := ?n, ts_run_sequence := ts_run_sequence s,
        ts_agent_sequence := ts_agent_sequence s\<rparr>)
        \<lparr>ts_root_digests := AList.update (br_run_id c) (begin_root_digest H c) (ts_root_digests s)\<rparr>"
      using none na sel f unfolding s' map_of_fst [symmetric]
      by (simp add: put_run_def put_agent_def add_entries_def run_entries_def agent_entries_def update_fresh)
    ultimately show ?thesis by simp
  next
    case (Some a)
    then have a: "agent_at s (br_agent_id c) = Some agent" using f by simp
    have nr: "run_at s (ar_run_id res) = None" using none sel by simp
    have at: "run_at (add_entries [res] [] s) = (run_at s)(br_run_id c \<mapsto> res)"
      using add_entries_at(1) [OF nr] sel by simp
    have "tree_ok ((add_entries [res] [] s)\<lparr>ts_sequence := ?n, ts_run_sequence := ts_run_sequence s,
        ts_agent_sequence := ts_agent_sequence s\<rparr>)"
    proof (rule tree_ok_add [OF ok])
      show "fresh_after ''agent-'' (ts_agent_sequence s) (agent_at (add_entries [res] [] s))"
        using ok by (simp add: add_entries_at(4) tree_ok_def)
      show "run_ok r \<and> status_ok r \<and> ar_created_sequence r \<le> int ?n
          \<and> run_linked (run_at (add_entries [res] [] s)) (agent_at (add_entries [res] [] s)) r"
        if "r \<in> set [res]" for r
        using that rok sel a by (simp add: run_linked_def add_entries_at)
    qed (use f none sel fr at one_run_wf in auto)
    moreover have "put_run res (s\<lparr>ts_sequence := ?n\<rparr>) = (add_entries [res] [] s)\<lparr>ts_sequence := ?n,
        ts_run_sequence := ts_run_sequence s, ts_agent_sequence := ts_agent_sequence s\<rparr>"
      using none sel unfolding map_of_fst [symmetric]
      by (simp add: put_run_def add_entries_def run_entries_def agent_entries_def update_fresh)
    ultimately have "tree_ok ((put_run res (s\<lparr>ts_sequence := ?n\<rparr>))\<lparr>ts_root_digests :=
               AList.update (br_run_id c) (begin_root_digest H c) (ts_root_digests s)\<rparr>)"
      by simp
    then show ?thesis
      unfolding s' by (rule tree_ok_touch_agent) (use a aok in \<open>auto simp: same_agent_def\<close>)
  qed
qed (use ok in simp)

section \<open>Continuing an Agent\<close>

definition continue_cmd_ok :: "continue_agent_command \<Rightarrow> bool" where
  "continue_cmd_ok c \<longleftrightarrow> clean_id (co_requester_run_id c) \<and> clean_id (co_idempotency_key c)
     \<and> clean_id (co_agent_id c) \<and> clean_id (co_message c) \<and> 0 \<le> co_expected_context_version c"

lemma continue_admission_Inr:
  assumes ok: "tree_ok s" and c: "continue_cmd_ok c" and "continue_admission s c now = Inr (q, t)"
  shows "run_at s (co_requester_run_id c) = Some q \<and> ar_status q \<in> {Tree_RUNNING, Tree_WAITING}
    \<and> require_claim q (co_lease_owner_id c) (co_lease_epoch c) now = Inr ()
    \<and> agent_at s (co_agent_id c) = Some t \<and> an_state t = Node_ACTIVE
    \<and> agent_below (agent_at s) (ar_agent_id q) (co_agent_id c)
    \<and> an_context_version t = co_expected_context_version c \<and> \<not> has_active_run s (co_agent_id c)"
proof -
  have strip: "strip (co_requester_run_id c) = co_requester_run_id c" "strip (co_agent_id c) = co_agent_id c"
    using c by (simp_all add: continue_cmd_ok_def clean_id_def)
  obtain p a where q: "run_at s (co_requester_run_id c) = Some q" "ar_status q \<in> {Tree_RUNNING, Tree_WAITING}"
      "require_claim q (co_lease_owner_id c) (co_lease_epoch c) now = Inr ()"
      "agent_at s (co_agent_id c) = Some t" "an_state t = Node_ACTIVE"
      "agent_at s (strip (ar_agent_id q)) = Some p" "is_ancestor s (an_agent_id p) (an_agent_id t) = Inr a" "a"
      "an_context_version t = co_expected_context_version c" "\<not> has_active_run s (an_agent_id t)"
    using assms(3) strip
    by (auto simp: continue_admission_def result_simps split: if_splits)
  have id: "an_agent_id t = co_agent_id c" "an_agent_id p = strip (ar_agent_id q)" "strip (ar_agent_id q) = ar_agent_id q"
    using tree_ok_agent(1) [OF ok q(4)] tree_ok_agent(1) [OF ok q(6)] tree_ok_run(2) [OF ok q(1)]
    by (simp_all add: run_ok_def clean_id_def)
  have "is_ancestor s (an_agent_id p) (an_agent_id t) = Inr (agent_below (agent_at s) (ar_agent_id q) (co_agent_id c))"
    using is_ancestor_correct [OF ok q(4)] id by simp
  with q id show ?thesis by simp
qed

lemma continue_agent_cases:
  assumes ok: "tree_ok s" and c: "continue_cmd_ok c" and op: "continue_agent H s c now = Inr (res, s')"
  shows "(s' = s \<and> (\<exists>rc. map_of (ts_continue_receipts s) (co_requester_run_id c, co_idempotency_key c)
            = Some (continue_digest H c, rc) \<and> res = rc\<lparr>cr_replayed := True\<rparr>))
    \<or> (\<exists>q t run agent. continue_admission s c now = Inr (q, t)
        \<and> map_of (ts_continue_receipts s) (co_requester_run_id c, co_idempotency_key c) = None
        \<and> run = continued_run q t c (numbered ''agent-run-'' (Suc (ts_run_sequence s))) (int (Suc (ts_sequence s)))
        \<and> agent = t\<lparr>an_latest_run_id := Some (numbered ''agent-run-'' (Suc (ts_run_sequence s)))\<rparr>
        \<and> res = \<lparr>cr_agent = agent, cr_run = run, cr_replayed = False\<rparr> \<and> run_ok run \<and> agent_ok agent
        \<and> s' = (put_run run (put_agent agent (s\<lparr>ts_run_sequence := Suc (ts_run_sequence s),
             ts_sequence := Suc (ts_sequence s)\<rparr>)))\<lparr>ts_continue_receipts :=
               AList.update (co_requester_run_id c, co_idempotency_key c) (continue_digest H c, res)
                 (ts_continue_receipts s)\<rparr>)"
proof (cases "map_of (ts_continue_receipts s) (co_requester_run_id c, co_idempotency_key c)")
  case (Some rc)
  with op show ?thesis by (cases rc) (auto simp: continue_agent_def split: if_splits)
next
  case None
  then obtain q t where adm: "continue_admission s c now = Inr (q, t)"
    using op by (auto simp: continue_agent_def bind_result_Inr_iff)
  note f = continue_admission_Inr [OF ok c adm]
  let ?id = "numbered ''agent-run-'' (Suc (ts_run_sequence s))"
  let ?run = "continued_run q t c ?id (int (Suc (ts_sequence s)))"
  let ?agent = "t\<lparr>an_latest_run_id := Some ?id\<rparr>"
  have qok: "run_ok q" "ar_run_id q = co_requester_run_id c"
    and tok: "agent_ok t" using f tree_ok_run(1,2) [OF ok] tree_ok_agent(2) [OF ok] by blast+
  have rok: "run_ok ?run"
    using qok tok c clean_numbered(1)
    by (simp add: run_ok_def continued_run_def agent_ok_def continue_cmd_ok_def clean_ids_def positive_opt_def)
  have aok: "agent_ok ?agent" using tok clean_numbered(1) by (rule agent_ok_latest)
  have id: "ar_run_id ?run = ?id" by (simp add: continued_run_def)
  show ?thesis
    using op None adm rok aok AgentTreeRun_post_init_id [OF rok] AgentNode_post_init_id [OF aok]
    by (intro disjI2 exI [of _ q] exI [of _ t] exI [of _ ?run] exI [of _ ?agent])
      (auto simp: continue_agent_def next_sequence_def Let_def id simp del: of_nat_Suc)
qed

lemma continue_agent_ok:
  assumes ok: "tree_ok s" and c: "continue_cmd_ok c" and op: "continue_agent H s c now = Inr (res, s')"
  shows "tree_ok s'"
  using continue_agent_cases [OF assms]
proof (elim disjE exE conjE)
  fix q t run agent
  assume adm: "continue_admission s c now = Inr (q, t)"
    and run: "run = continued_run q t c (numbered ''agent-run-'' (Suc (ts_run_sequence s))) (int (Suc (ts_sequence s)))"
    and agent: "agent = t\<lparr>an_latest_run_id := Some (numbered ''agent-run-'' (Suc (ts_run_sequence s)))\<rparr>"
    and rok: "run_ok run" and aok: "agent_ok agent"
    and s': "s' = (put_run run (put_agent agent (s\<lparr>ts_run_sequence := Suc (ts_run_sequence s),
             ts_sequence := Suc (ts_sequence s)\<rparr>)))\<lparr>ts_continue_receipts :=
               AList.update (co_requester_run_id c, co_idempotency_key c) (continue_digest H c, res)
                 (ts_continue_receipts s)\<rparr>"
  note f = continue_admission_Inr [OF ok c adm]
  let ?id = "numbered ''agent-run-'' (Suc (ts_run_sequence s))" and ?s = "put_agent agent s"
  have t: "agent_at s (co_agent_id c) = Some t" and q: "run_at s (co_requester_run_id c) = Some q" using f by simp_all
  have tid: "an_agent_id t = co_agent_id c" by (rule tree_ok_agent(1) [OF ok t])
  have ok1: "tree_ok ?s"
    by (rule tree_ok_touch_agent [OF ok t]) (use aok in \<open>simp_all add: agent same_agent_def\<close>)
  have sel: "ar_run_id run = ?id" "ar_agent_id run = co_agent_id c" "ar_dependency_run_ids run = []"
      "ar_parent_run_id run = Some (co_requester_run_id c)" "ar_root_run_id run = ar_root_run_id q"
      "ar_created_sequence run = int (Suc (ts_sequence s))" "ar_lease_owner_id run = None" "ar_error_code run = None"
    using tree_ok_run(1) [OF ok q] tid by (simp_all add: run continued_run_def)
  have nr: "run_at ?s (ar_run_id run) = None"
    using tree_ok_fresh(1) [OF ok] sel by (simp add: fresh_after_def)
  have at: "run_at (add_entries [run] [] ?s) = (run_at s)(?id \<mapsto> run)" "agent_at (add_entries [run] [] ?s) = agent_at ?s"
    using add_entries_at(1) [OF nr] sel by (simp_all add: add_entries_at(4))
  have "tree_ok ((add_entries [run] [] ?s)\<lparr>ts_sequence := Suc (ts_sequence s),
      ts_run_sequence := Suc (ts_run_sequence s), ts_agent_sequence := ts_agent_sequence s\<rparr>)"
  proof (rule tree_ok_add [OF ok1])
    show "fresh_after ''agent-run-'' (Suc (ts_run_sequence s)) (run_at (add_entries [run] [] ?s))"
      unfolding at by (rule fresh_after_next [OF tree_ok_fresh(1) [OF ok]])
    show "fresh_after ''agent-'' (ts_agent_sequence s) (agent_at (add_entries [run] [] ?s))"
      unfolding at using tree_ok_fresh(2) [OF ok1] by simp
    show "run_ok r \<and> status_ok r \<and> ar_created_sequence r \<le> int (Suc (ts_sequence s))
          \<and> run_linked (run_at (add_entries [run] [] ?s)) (agent_at (add_entries [run] [] ?s)) r"
      if "r \<in> set [run]" for r
    proof -
      have "co_requester_run_id c \<noteq> ?id" using q tree_ok_fresh(1) [OF ok] by (auto simp: fresh_after_def)
      then have "run_linked (run_at (add_entries [run] [] ?s)) (agent_at (add_entries [run] [] ?s)) run"
        using sel q tid tree_ok_run(5) [OF ok q] unfolding at by (auto simp: run_linked_def agent)
      then show ?thesis using that rok sel by (simp add: status_ok_def)
    qed
    show "\<not> has_active_run ?s (ar_agent_id r)" if "r \<in> set [run]" for r
      using that f sel by (simp add: has_active_run_def)
  qed (use nr sel one_run_wf in auto)
  moreover have "s' = ((add_entries [run] [] ?s)\<lparr>ts_sequence := Suc (ts_sequence s),
      ts_run_sequence := Suc (ts_run_sequence s), ts_agent_sequence := ts_agent_sequence s\<rparr>)
      \<lparr>ts_continue_receipts := AList.update (co_requester_run_id c, co_idempotency_key c)
        (continue_digest H c, res) (ts_continue_receipts s)\<rparr>"
    using nr sel unfolding s' map_of_fst [symmetric]
    by (simp add: put_run_def put_agent_def add_entries_def run_entries_def agent_entries_def update_fresh)
  ultimately show ?thesis by (simp only: tree_ok_frame)
qed (use ok in simp)

end
