(* ===== verification/Agent_Tree_Spawn.thy ===== *)
theory Agent_Tree_Spawn
  imports Agent_Tree_Lifecycle
begin

text \<open>
  Spawning a batch of children: the loop of \<open>spawn_agents\<close> in closed form, and the invariant.
  The children of one command may depend on one another in any order; that their dependency
  graph stays acyclic rests on the check of the command's constructor.
\<close>

section \<open>Commands\<close>

definition spec_ok :: "child_agent_spec \<Rightarrow> bool" where
  "spec_ok c \<longleftrightarrow> clean_ids (sp_depends_on c) \<and> clean_id (sp_name c) \<and> clean_id (sp_title c)
     \<and> clean_id (sp_instruction c) \<and> clean_id (sp_objective c)"

definition spawn_cmd_ok :: "spawn_agents_command \<Rightarrow> bool" where
  "spawn_cmd_ok c \<longleftrightarrow> clean_id (sc_parent_run_id c) \<and> clean_id (sc_idempotency_key c)
     \<and> list_all spec_ok (sc_children c) \<and> distinct (map sp_name (sc_children c))
     \<and> list_all (\<lambda>item. set (sp_depends_on item) \<subseteq> set (map sp_name (sc_children c))) (sc_children c)
     \<and> \<not> has_cycle (map (\<lambda>item. (sp_name item, sp_depends_on item)) (sc_children c))"

lemma SpawnAgentsCommand_ok:
  assumes "SpawnAgentsCommand_post_init c = Inr c'" and "list_all spec_ok (sc_children c)"
  shows "spawn_cmd_ok c'"
  using assms
  by (clarsimp simp: SpawnAgentsCommand_post_init_def spawn_cmd_ok_def list_all_iff Let_def result_simps)
    (blast dest: required_text_result_clean)

lemma ChildAgentSpec_post_init_ok: "ChildAgentSpec_post_init c = Inr c' \<Longrightarrow> spec_ok c'"
  by (auto simp: ChildAgentSpec_post_init_def spec_ok_def bind_result_Inr_iff dependency_names_Inr
      dest: required_text_result_clean)

lemma BeginRootAgentCommand_ok:
  assumes "BeginRootAgentCommand_post_init c = Inr c'" and "\<not> reserved ''agent-run-'' (strip (br_run_id c))"
    and "\<not> reserved ''agent-'' (strip (br_agent_id c))"
  shows "begin_cmd_ok c'"
  using assms
  by (auto simp: BeginRootAgentCommand_post_init_def begin_cmd_ok_def bind_result_Inr_iff required_text_Inr
      clean_id_def)

lemma ContinueAgentCommand_ok: "ContinueAgentCommand_post_init c = Inr c' \<Longrightarrow> continue_cmd_ok c'"
  by (auto simp: ContinueAgentCommand_post_init_def continue_cmd_ok_def bind_result_Inr_iff required_text_Inr
      non_negative_int_Inr clean_id_def)

section \<open>The batch in closed form\<close>

definition batch_agent ::
    "agent_node \<Rightarrow> agent_tree_run \<Rightarrow> string \<Rightarrow> nat \<Rightarrow> nat \<Rightarrow> nat \<times> child_agent_spec \<times> agent_capability_grant
     \<Rightarrow> agent_node" where
  "batch_agent pa pr key an rn = (\<lambda>(i, spec, g). child_agent pa pr key spec g
     (numbered ''agent-'' (an + Suc i)) (numbered ''agent-run-'' (rn + Suc i)))"

definition batch_run ::
    "agent_tree_run \<Rightarrow> string \<Rightarrow> (string \<times> string) list \<Rightarrow> nat \<Rightarrow> nat \<Rightarrow> nat
     \<Rightarrow> nat \<times> child_agent_spec \<times> agent_capability_grant \<Rightarrow> agent_tree_run" where
  "batch_run pr batch deps an rn sq = (\<lambda>(i, spec, g). child_run pr batch spec
     (numbered ''agent-'' (an + Suc i)) (numbered ''agent-run-'' (rn + Suc i))
     (map (the \<circ> map_of deps) (sp_depends_on spec)) (int (sq + Suc i)))"

lemma batch_sel [simp]:
  "an_agent_id (batch_agent pa pr key an rn (i, sg)) = numbered ''agent-'' (an + Suc i)"
  "ar_run_id (batch_run pr batch deps an rn sq (i, sg)) = numbered ''agent-run-'' (rn + Suc i)"
  "ar_agent_id (batch_run pr batch deps an rn sq (i, sg)) = numbered ''agent-'' (an + Suc i)"
  "ar_parent_run_id (batch_run pr batch deps an rn sq (i, sg)) = Some (ar_run_id pr)"
  "ar_root_run_id (batch_run pr batch deps an rn sq (i, sg)) = ar_root_run_id pr"
  "ar_created_sequence (batch_run pr batch deps an rn sq (i, sg)) = int (sq + Suc i)"
  "ar_dependency_run_ids (batch_run pr batch deps an rn sq (i, sg)) = map (the \<circ> map_of deps) (sp_depends_on (fst sg))"
  "status_ok (batch_run pr batch deps an rn sq (i, sg))"
  by (cases sg; simp add: batch_agent_def batch_run_def child_agent_def child_run_def status_ok_def)+

lemma add_entries_Cons:
  assumes "run_at s (ar_run_id r) = None" and "agent_at s (an_agent_id a) = None"
  shows "add_entries rs as (put_run r (put_agent a s)) = add_entries (r # rs) (a # as) s"
  using assms unfolding map_of_fst [symmetric]
  by (simp add: put_run_def put_agent_def add_entries_def run_entries_def agent_entries_def update_fresh)

lemma spawn_children_eq:
  assumes pa: "agent_ok pa" and pr: "run_ok pr" and "clean_id key" and "clean_id batch"
    and specs: "\<forall>(spec, g) \<in> set pcs. spec_ok spec
      \<and> (\<forall>d \<in> set (sp_depends_on spec). map_of deps d \<noteq> None)"
    and deps: "\<And>d e i. map_of deps d = Some i \<Longrightarrow> map_of deps e = Some i \<Longrightarrow> d = e"
      "\<And>d i. map_of deps d = Some i \<Longrightarrow> clean_id i"
    and seqs: "ts_agent_sequence s = an + k" "ts_run_sequence s = rn + k" "ts_sequence s = sq + k"
    and fresh: "fresh_after ''agent-run-'' (rn + k) (run_at s)" "fresh_after ''agent-'' (an + k) (agent_at s)"
  shows "spawn_children pa pr key batch deps pcs s = Inr
     (map (\<lambda>e. \<lparr>sa_agent = batch_agent pa pr key an rn e, sa_run = batch_run pr batch deps an rn sq e\<rparr>) (enumerate k pcs),
      (add_entries (map (batch_run pr batch deps an rn sq) (enumerate k pcs))
         (map (batch_agent pa pr key an rn) (enumerate k pcs)) s)
        \<lparr>ts_agent_sequence := an + k + length pcs, ts_run_sequence := rn + k + length pcs,
         ts_sequence := sq + k + length pcs\<rparr>)
   \<and> (\<forall>e \<in> set (enumerate k pcs). run_ok (batch_run pr batch deps an rn sq e) \<and> agent_ok (batch_agent pa pr key an rn e))"
  using specs seqs fresh
proof (induction pcs arbitrary: s k)
  case Nil
  then show ?case by (simp add: add_entries_def run_entries_def agent_entries_def)
next
  case (Cons sg pcs)
  obtain spec g where sg: "sg = (spec, g)" by (cases sg)
  let ?a = "batch_agent pa pr key an rn (k, sg)" and ?r = "batch_run pr batch deps an rn sq (k, sg)"
  have spec: "spec_ok spec" "\<forall>d \<in> set (sp_depends_on spec). map_of deps d \<noteq> None"
    using Cons.prems(1) by (auto simp: sg)
  have ds: "map_result (\<lambda>name. case map_of deps name of None \<Rightarrow> Inl (KeyError name) | Some i \<Rightarrow> Inr i)
      (sp_depends_on spec) = Inr (map (the \<circ> map_of deps) (sp_depends_on spec))"
    using spec(2) by (intro map_result_total) auto
  have inj: "inj_on (the \<circ> map_of deps) (set (sp_depends_on spec))"
  proof (rule inj_onI)
    fix x y
    assume xy: "x \<in> set (sp_depends_on spec)" "y \<in> set (sp_depends_on spec)"
      "(the \<circ> map_of deps) x = (the \<circ> map_of deps) y"
    with spec(2) obtain i j where "map_of deps x = Some i" "map_of deps y = Some j" by blast
    with xy(3) deps(1) show "x = y" by simp
  qed
  have "clean_ids (map (the \<circ> map_of deps) (sp_depends_on spec))"
    unfolding clean_ids_def
  proof
    show "distinct (map (the \<circ> map_of deps) (sp_depends_on spec))"
      using spec(1) inj by (simp add: distinct_map spec_ok_def clean_ids_def)
    show "\<forall>x \<in> set (map (the \<circ> map_of deps) (sp_depends_on spec)). clean_id x"
      using spec(2) deps(2) by auto
  qed
  then have rok: "run_ok ?r"
    using pr spec(1) assms(4) clean_numbered
    by (simp add: run_ok_def batch_run_def sg child_run_def spec_ok_def positive_opt_def)
  have aok: "agent_ok ?a"
    using pa pr spec(1) assms(3) clean_numbered
    by (simp add: agent_ok_def run_ok_def batch_agent_def sg child_agent_def spec_ok_def)
  let ?s1 = "s\<lparr>ts_agent_sequence := Suc (an + k), ts_run_sequence := Suc (rn + k), ts_sequence := Suc (sq + k)\<rparr>"
  let ?s2 = "put_run ?r (put_agent ?a ?s1)"
  have fr: "run_at s (ar_run_id ?r) = None" "agent_at s (an_agent_id ?a) = None"
    using Cons.prems(5,6) by (simp_all add: fresh_after_def)
  have f2: "fresh_after ''agent-run-'' (rn + Suc k) (run_at ?s2)" "fresh_after ''agent-'' (an + Suc k) (agent_at ?s2)"
    using Cons.prems(5,6) by (simp_all add: fresh_after_next)
  have sp2: "\<forall>(spec, g) \<in> set pcs. spec_ok spec \<and> (\<forall>d \<in> set (sp_depends_on spec). map_of deps d \<noteq> None)"
    using Cons.prems(1) by simp
  note IH = Cons.IH [OF sp2 _ _ _ f2]
  have step: "spawn_children pa pr key batch deps (sg # pcs) s
      = bind_result (spawn_children pa pr key batch deps pcs ?s2) (\<lambda>(items, s').
          Inr (\<lparr>sa_agent = ?a, sa_run = ?r\<rparr> # items, s'))"
    using AgentNode_post_init_id [OF aok] AgentTreeRun_post_init_id [OF rok] ds Cons.prems(2-4)
    by (simp add: sg Let_def next_sequence_def batch_agent_def batch_run_def)
  have add: "add_entries rs as ?s2 = (add_entries (?r # rs) (?a # as) s)\<lparr>ts_agent_sequence := Suc (an + k),
      ts_run_sequence := Suc (rn + k), ts_sequence := Suc (sq + k)\<rparr>" for rs as
    using add_entries_Cons [of ?s1 ?r ?a] fr by (simp add: add_entries_def)
  show ?case
    unfolding step using IH rok aok by (simp add: add)
qed

section \<open>Names and numbers\<close>

text \<open>\<open>dependency_ids\<close>: the Run each child of the command will get.\<close>

definition spawn_ids :: "nat \<Rightarrow> child_agent_spec list \<Rightarrow> (string \<times> string) list" where
  "spawn_ids rn specs = map (\<lambda>(index, spec). (sp_name spec,
     numbered ''agent-run-'' (rn + index + 1))) (enumerate 0 specs)"

lemma numbered_inject [simp]: "numbered p m = numbered p n \<longleftrightarrow> m = n"
  by (simp add: numbered_def)

lemma spawn_ids_keys: "map fst (spawn_ids rn specs) = map sp_name specs"
proof -
  have "map fst (map (\<lambda>(index, spec). (sp_name spec, numbered ''agent-run-'' (rn + index + 1))) (enumerate k specs))
      = map sp_name specs" for k
    by (induction specs arbitrary: k) auto
  then show ?thesis unfolding spawn_ids_def .
qed

lemma spawn_ids_Some:
  assumes "distinct (map sp_name specs)"
  shows "map_of (spawn_ids rn specs) d = Some i \<longleftrightarrow>
    (\<exists>j < length specs. d = sp_name (specs ! j) \<and> i = numbered ''agent-run-'' (rn + Suc j))"
proof -
  have "map_of (spawn_ids rn specs) d = Some i \<longleftrightarrow> (d, i) \<in> set (spawn_ids rn specs)"
    using assms by (simp add: spawn_ids_keys)
  also have "\<dots> \<longleftrightarrow> (\<exists>j < length specs. d = sp_name (specs ! j) \<and> i = numbered ''agent-run-'' (rn + Suc j))"
    unfolding spawn_ids_def set_map image_iff Bex_def by (auto simp: in_set_enumerate_eq)
  finally show ?thesis .
qed

lemma in_enumerate_zip:
  "length ys = length xs \<Longrightarrow> e \<in> set (enumerate 0 (zip xs ys)) \<longleftrightarrow> (\<exists>j < length xs. e = (j, xs ! j, ys ! j))"
  by (cases e) (auto simp: in_set_enumerate_eq)

lemma batch_runs_set:
  assumes "length grants = length specs"
  shows "r \<in> set (map (batch_run pr batch deps an rn sq) (enumerate 0 (zip specs grants))) \<longleftrightarrow>
    (\<exists>j < length specs. r = batch_run pr batch deps an rn sq (j, specs ! j, grants ! j))"
  unfolding set_map image_iff Bex_def in_enumerate_zip [OF assms] by blast

lemma batch_agents_set:
  assumes "length grants = length specs"
  shows "a \<in> set (map (batch_agent pa pr key an rn) (enumerate 0 (zip specs grants))) \<longleftrightarrow>
    (\<exists>j < length specs. a = batch_agent pa pr key an rn (j, specs ! j, grants ! j))"
  unfolding set_map image_iff Bex_def in_enumerate_zip [OF assms] by blast

text \<open>
  The new dependency edges are the command's, renamed by the injective numbering: no cycles.
\<close>

lemma batch_edges_wf:
  assumes c: "spawn_cmd_ok c" and len: "length grants = length (sc_children c)"
  shows "wf {(d, ar_run_id r) | d r. r \<in> set (map (batch_run pr batch (spawn_ids rn (sc_children c)) an rn sq)
      (enumerate 0 (zip (sc_children c) grants))) \<and> d \<in> set (ar_dependency_run_ids r)}"
proof -
  let ?specs = "sc_children c" and ?ids = "map_of (spawn_ids rn (sc_children c))"
  let ?G = "graph_edges (map (\<lambda>item. (sp_name item, sp_depends_on item)) ?specs)"
  have dn: "distinct (map sp_name ?specs)" using c by (simp add: spawn_cmd_ok_def)
  have "acyclic ?G" using c has_cycle_iff by (simp add: spawn_cmd_ok_def)
  then have wf: "wf ?G" using finite_graph_edges by (rule finite_acyclic_wf [rotated])
  have known: "\<exists>i. ?ids d = Some i" if "d \<in> set (map sp_name ?specs)" for d
  proof -
    from that have "d \<in> set (map fst (spawn_ids rn ?specs))" by (simp only: spawn_ids_keys)
    then have "?ids d \<noteq> None" by (simp add: map_of_eq_None_iff)
    then show ?thesis by blast
  qed
  have names: "fst e \<in> set (map sp_name ?specs) \<and> snd e \<in> set (map sp_name ?specs)" if "e \<in> ?G" for e
  proof -
    from that obtain item where "item \<in> set ?specs" "snd e = sp_name item" "fst e \<in> set (sp_depends_on item)"
      by (auto simp: graph_edges_def)
    moreover from c have "\<forall>item \<in> set ?specs. set (sp_depends_on item) \<subseteq> set (map sp_name ?specs)"
      by (simp add: spawn_cmd_ok_def list_all_iff)
    ultimately show ?thesis by auto
  qed
  have "wf (map_prod (the \<circ> ?ids) (the \<circ> ?ids) ` ?G)"
  proof (rule wf_map_prod_image_Dom_Ran [OF wf])
    fix a b assume "a \<in> Domain ?G" "b \<in> Range ?G" "(the \<circ> ?ids) a = (the \<circ> ?ids) b"
    then obtain c d where ab: "(a, c) \<in> ?G" "(d, b) \<in> ?G" "the (?ids a) = the (?ids b)" by auto
    obtain i where i: "?ids a = Some i" using known names [OF ab(1)] by (metis fst_conv)
    obtain j where j: "?ids b = Some j" using known names [OF ab(2)] by (metis snd_conv)
    have "i = j" using ab(3) i j by simp
    with i j have "?ids a = Some i" "?ids b = Some i" by simp_all
    then show "a = b" using spawn_ids_Some [OF dn] by auto
  qed
  then show ?thesis
  proof (rule wf_subset)
    show "{(d, ar_run_id r) | d r. r \<in> set (map (batch_run pr batch (spawn_ids rn ?specs) an rn sq)
      (enumerate 0 (zip ?specs grants))) \<and> d \<in> set (ar_dependency_run_ids r)} \<subseteq> map_prod (the \<circ> ?ids) (the \<circ> ?ids) ` ?G"
    proof
      fix e assume "e \<in> {(d, ar_run_id r) | d r. r \<in> set (map (batch_run pr batch (spawn_ids rn ?specs) an rn sq)
      (enumerate 0 (zip ?specs grants))) \<and> d \<in> set (ar_dependency_run_ids r)}"
      then obtain j d where j: "j < length ?specs" "d \<in> set (sp_depends_on (?specs ! j))"
          "e = ((the \<circ> ?ids) d, numbered ''agent-run-'' (rn + Suc j))"
        unfolding mem_Collect_eq batch_runs_set [OF len] by auto
      have "?ids (sp_name (?specs ! j)) = Some (numbered ''agent-run-'' (rn + Suc j))"
        using spawn_ids_Some [OF dn] j(1) by blast
      moreover have "(d, sp_name (?specs ! j)) \<in> ?G"
        using j(1,2) nth_mem [OF j(1)] unfolding graph_edges_def
        by (intro CollectI case_prodI exI [of _ "sp_depends_on (?specs ! j)"]) auto
      ultimately show "e \<in> map_prod (the \<circ> ?ids) (the \<circ> ?ids) ` ?G" using j(3) by force
    qed
  qed
qed

section \<open>Spawning\<close>

lemma spawn_admission_Inr:
  assumes ok: "tree_ok s" and c: "spawn_cmd_ok c" and "spawn_admission s c now = Inr (pr, pa, grants)"
  shows "run_at s (sc_parent_run_id c) = Some pr \<and> ar_status pr \<in> {Tree_RUNNING, Tree_WAITING}
    \<and> require_claim pr (sc_lease_owner_id c) (sc_lease_epoch c) now = Inr ()
    \<and> agent_at s (ar_agent_id pr) = Some pa \<and> an_state pa = Node_ACTIVE
    \<and> cg_can_spawn_agents (an_capability_grant pa) \<and> an_depth pa < cg_max_depth (an_capability_grant pa)
    \<and> int (length (sc_children c)) \<le> cg_max_children_per_call (an_capability_grant pa)
    \<and> int (length (participating_agents s (ar_root_run_id pr)) + length (sc_children c))
        \<le> cg_max_agents_per_root (an_capability_grant pa)
    \<and> length grants = length (sc_children c) \<and> (\<forall>g \<in> set grants. narrower g (an_capability_grant pa))"
proof -
  have strip: "strip (sc_parent_run_id c) = sc_parent_run_id c"
    using c by (simp add: spawn_cmd_ok_def clean_id_def)
  have pr: "run_at s (sc_parent_run_id c) = Some pr" "ar_status pr \<in> {Tree_RUNNING, Tree_WAITING}"
      "require_claim pr (sc_lease_owner_id c) (sc_lease_epoch c) now = Inr ()"
      "agent_at s (strip (ar_agent_id pr)) = Some pa" "an_state pa = Node_ACTIVE"
      "cg_can_spawn_agents (an_capability_grant pa)" "an_depth pa < cg_max_depth (an_capability_grant pa)"
      "int (length (sc_children c)) \<le> cg_max_children_per_call (an_capability_grant pa)"
      "int (length (participating_agents s (ar_root_run_id pr)) + length (sc_children c))
        \<le> cg_max_agents_per_root (an_capability_grant pa)"
      "map_result (\<lambda>spec. authorize_child (an_capability_grant pa) (sp_capability_grant spec)) (sc_children c) = Inr grants"
    using assms(3) strip
    by (auto simp: spawn_admission_def Let_def result_simps split: if_splits)
  have "strip (ar_agent_id pr) = ar_agent_id pr"
    using tree_ok_run(2) [OF ok pr(1)] by (simp add: run_ok_def clean_id_def)
  moreover have "narrower g (an_capability_grant pa)" if "g \<in> set grants" for g
    using map_result_in [OF pr(10) that] by (auto simp: authorize_child_iff)
  ultimately show ?thesis using pr map_result_length [OF pr(10)] by simp
qed

lemma spawn_agents_cases:
  assumes ok: "tree_ok s" and c: "spawn_cmd_ok c" and op: "spawn_agents H s c now = Inr (res, s')"
  shows "(s' = s \<and> (\<exists>rc. map_of (ts_spawn_receipts s) (sc_parent_run_id c, sc_idempotency_key c)
            = Some (spawn_digest H c, rc) \<and> res = rc\<lparr>sr_replayed := True\<rparr>))
    \<or> (\<exists>pr pa grants entries rs as. spawn_admission s c now = Inr (pr, pa, grants)
        \<and> map_of (ts_spawn_receipts s) (sc_parent_run_id c, sc_idempotency_key c) = None
        \<and> entries = enumerate 0 (zip (sc_children c) grants)
        \<and> rs = map (batch_run pr (sr_batch_id res) (spawn_ids (ts_run_sequence s) (sc_children c))
             (ts_agent_sequence s) (ts_run_sequence s) (ts_sequence s)) entries
        \<and> as = map (batch_agent pa pr (sc_idempotency_key c) (ts_agent_sequence s) (ts_run_sequence s)) entries
        \<and> (\<forall>r \<in> set rs. run_ok r) \<and> (\<forall>a \<in> set as. agent_ok a) \<and> \<not> sr_replayed res
        \<and> s' = (add_entries rs as s)\<lparr>ts_sequence := ts_sequence s + length (sc_children c),
             ts_run_sequence := ts_run_sequence s + length (sc_children c),
             ts_agent_sequence := ts_agent_sequence s + length (sc_children c),
             ts_batch_sequence := Suc (ts_batch_sequence s),
             ts_spawn_receipts := AList.update (sc_parent_run_id c, sc_idempotency_key c)
               (spawn_digest H c, res) (ts_spawn_receipts s)\<rparr>)"
proof (cases "map_of (ts_spawn_receipts s) (sc_parent_run_id c, sc_idempotency_key c)")
  case (Some rc)
  with op show ?thesis by (cases rc) (auto simp: spawn_agents_def split: if_splits)
next
  case None
  let ?batch = "numbered ''agent-batch-'' (Suc (ts_batch_sequence s))"
  let ?ids = "spawn_ids (ts_run_sequence s) (sc_children c)"
  let ?s1 = "s\<lparr>ts_batch_sequence := Suc (ts_batch_sequence s)\<rparr>"
  obtain pr pa grants where adm: "spawn_admission s c now = Inr (pr, pa, grants)"
    using op None by (auto simp: spawn_agents_def bind_result_Inr_iff)
  note f = spawn_admission_Inr [OF ok c adm]
  have dn: "distinct (map sp_name (sc_children c))" and key: "clean_id (sc_idempotency_key c)"
    using c by (simp_all add: spawn_cmd_ok_def)
  have specs: "\<forall>(spec, g) \<in> set (zip (sc_children c) grants). spec_ok spec
      \<and> (\<forall>d \<in> set (sp_depends_on spec). map_of ?ids d \<noteq> None)"
  proof (clarify, intro conjI ballI)
    fix spec g assume "(spec, g) \<in> set (zip (sc_children c) grants)"
    then have mem: "spec \<in> set (sc_children c)" by (rule set_zip_leftD)
    then show "spec_ok spec" using c by (simp add: spawn_cmd_ok_def list_all_iff)
    fix d assume "d \<in> set (sp_depends_on spec)"
    then have "d \<in> set (map fst ?ids)"
      using c mem unfolding spawn_ids_keys by (auto simp: spawn_cmd_ok_def list_all_iff)
    then show "map_of ?ids d \<noteq> None" by (simp add: map_of_eq_None_iff)
  qed
  have ids1: "d = e" if "map_of ?ids d = Some i" "map_of ?ids e = Some i" for d e i
    using that spawn_ids_Some [OF dn] by auto
  have ids2: "clean_id i" if "map_of ?ids d = Some i" for d i
    using that spawn_ids_Some [OF dn] clean_numbered(1) by auto
  have pok: "agent_ok pa" "run_ok pr" using f tree_ok_run(2) [OF ok] tree_ok_agent(2) [OF ok] by blast+
  have "fresh_after ''agent-run-'' (ts_run_sequence s + 0) (run_at ?s1)"
      "fresh_after ''agent-'' (ts_agent_sequence s + 0) (agent_at ?s1)"
    using tree_ok_fresh [OF ok] by simp_all
  note loop = spawn_children_eq [OF pok key clean_numbered(4) specs ids1 ids2 _ _ _ this, simplified]
  show ?thesis
    using op None adm loop
    by (intro disjI2 exI [of _ pr] exI [of _ pa] exI [of _ grants] exI conjI)
      (auto simp: spawn_agents_def spawn_ids_def Let_def add_entries_def f)
qed

lemma entries_at:
  assumes "distinct (map ar_run_id rs)" and "r \<in> set rs"
  shows "run_at (add_entries rs as s) (ar_run_id r) \<noteq> None"
    and "run_at s (ar_run_id r) = None \<Longrightarrow> run_at (add_entries rs as s) (ar_run_id r) = Some r"
proof -
  have "map_of (run_entries rs) (ar_run_id r) = Some r"
    using assms by (auto simp: run_entries_def comp_def intro!: map_of_is_SomeI)
  then show "run_at (add_entries rs as s) (ar_run_id r) \<noteq> None"
      "run_at s (ar_run_id r) = None \<Longrightarrow> run_at (add_entries rs as s) (ar_run_id r) = Some r"
    by (auto simp: add_entries_def map_add_Some_iff)
qed

lemma entries_keep:
  assumes "\<And>r. r \<in> set rs \<Longrightarrow> run_at s (ar_run_id r) = None"
    and "\<And>a. a \<in> set as \<Longrightarrow> agent_at s (an_agent_id a) = None"
  shows "run_at s k = Some q \<Longrightarrow> run_at (add_entries rs as s) k = Some q"
    and "agent_at s k = Some b \<Longrightarrow> agent_at (add_entries rs as s) k = Some b"
proof -
  have "map_of (run_entries rs) k = None" if "run_at s k = Some q" for q
    using that assms(1) unfolding map_of_entries_None by force
  moreover have "map_of (agent_entries as) k = None" if "agent_at s k = Some b" for b
    using that assms(2) unfolding map_of_entries_None by force
  ultimately show "run_at s k = Some q \<Longrightarrow> run_at (add_entries rs as s) k = Some q"
      "agent_at s k = Some b \<Longrightarrow> agent_at (add_entries rs as s) k = Some b"
    by (simp_all add: add_entries_def map_add_Some_iff)
qed

lemma entries_fresh:
  assumes "fresh_after p m (run_at s)" and "m \<le> n" and "\<And>r i. r \<in> set rs \<Longrightarrow> ar_run_id r = numbered p i \<Longrightarrow> i \<le> n"
  shows "fresh_after p n (run_at (add_entries rs as s))"
  using assms(1,2) unfolding fresh_after_def add_entries_def
  by (auto simp: map_add_None map_of_entries_None dest: assms(3) [OF _ sym])

lemma agent_entries_fresh:
  assumes "fresh_after p m (agent_at s)" and "m \<le> n" and "\<And>a i. a \<in> set as \<Longrightarrow> an_agent_id a = numbered p i \<Longrightarrow> i \<le> n"
  shows "fresh_after p n (agent_at (add_entries rs as s))"
  using assms(1,2) unfolding fresh_after_def add_entries_def
  by (auto simp: map_add_None map_of_entries_None dest: assms(3) [OF _ sym])

lemma distinct_numbered_batch:
  assumes "\<And>i x. f (i, x) = numbered p (n + Suc i)"
  shows "distinct (map f (enumerate k xs))"
proof -
  have "map f (enumerate k xs) = map (\<lambda>i. numbered p (n + Suc i)) (map fst (enumerate k xs))"
    unfolding map_map using assms by (intro map_cong) auto
  also have "distinct \<dots>" by (auto simp: distinct_map inj_on_def)
  finally show ?thesis .
qed

lemma no_active_run_fresh:
  assumes "tree_ok s" and "agent_at s k = None"
  shows "\<not> has_active_run s k"
proof
  assume "has_active_run s k"
  then obtain r where "run_at s (ar_run_id r) = Some r" "ar_agent_id r = k"
    using tree_ok_values(1) [OF assms(1)] tree_ok_run(1) [OF assms(1)] by (auto simp: has_active_run_def)
  with run_linkedD(1) [OF tree_ok_run(4) [OF assms(1)]] assms(2) show False by fastforce
qed

lemma spawn_agents_ok:
  assumes ok: "tree_ok s" and c: "spawn_cmd_ok c" and op: "spawn_agents H s c now = Inr (res, s')"
  shows "tree_ok s'"
  using spawn_agents_cases [OF ok c op]
proof (elim disjE exE conjE)
  assume "s' = s" then show ?thesis using ok by simp
next
  fix pr pa grants entries rs as
  let ?n = "length (sc_children c)" and ?ids = "spawn_ids (ts_run_sequence s) (sc_children c)"
  let ?run = "batch_run pr (sr_batch_id res) ?ids (ts_agent_sequence s) (ts_run_sequence s) (ts_sequence s)"
  let ?agent = "batch_agent pa pr (sc_idempotency_key c) (ts_agent_sequence s) (ts_run_sequence s)"
  assume adm: "spawn_admission s c now = Inr (pr, pa, grants)"
    and entries: "entries = enumerate 0 (zip (sc_children c) grants)"
    and rs: "rs = map ?run entries" and as: "as = map ?agent entries"
    and good: "\<forall>r \<in> set rs. run_ok r" "\<forall>a \<in> set as. agent_ok a"
    and s': "s' = (add_entries rs as s)\<lparr>ts_sequence := ts_sequence s + ?n,
             ts_run_sequence := ts_run_sequence s + ?n, ts_agent_sequence := ts_agent_sequence s + ?n,
             ts_batch_sequence := Suc (ts_batch_sequence s),
             ts_spawn_receipts := AList.update (sc_parent_run_id c, sc_idempotency_key c)
               (spawn_digest H c, res) (ts_spawn_receipts s)\<rparr>"
  note f = spawn_admission_Inr [OF ok c adm]
  have len: "length grants = ?n" using f by blast
  have inr: "r \<in> set rs \<longleftrightarrow> (\<exists>j < ?n. r = ?run (j, sc_children c ! j, grants ! j))" for r
    unfolding rs entries by (rule batch_runs_set [OF len])
  have ina: "a \<in> set as \<longleftrightarrow> (\<exists>j < ?n. a = ?agent (j, sc_children c ! j, grants ! j))" for a
    unfolding as entries by (rule batch_agents_set [OF len])
  have fr: "run_at s (ar_run_id r) = None" "agent_at s (ar_agent_id r) = None" if "r \<in> set rs" for r
    using that tree_ok_fresh [OF ok] by (auto simp: inr fresh_after_def)
  have fa: "agent_at s (an_agent_id a) = None" if "a \<in> set as" for a
    using that tree_ok_fresh(2) [OF ok] by (auto simp: ina fresh_after_def)
  have dr: "distinct (map ar_run_id rs)" and dag: "distinct (map ar_agent_id rs)"
    and da: "distinct (map an_agent_id as)"
    unfolding rs as entries map_map
    by (rule distinct_numbered_batch [of _ "''agent-run-''" "ts_run_sequence s"], simp)
      (rule distinct_numbered_batch [of _ "''agent-''" "ts_agent_sequence s"], simp)+
  have keep: "run_at s k = Some q \<Longrightarrow> run_at (add_entries rs as s) k = Some q"
      "agent_at s k = Some b \<Longrightarrow> agent_at (add_entries rs as s) k = Some b" for k q b
    using entries_keep [of rs s as] fr(1) fa by blast+
  have pr0: "run_at s (sc_parent_run_id c) = Some pr" and pa0: "agent_at s (ar_agent_id pr) = Some pa"
    and depth: "an_depth pa < cg_max_depth (an_capability_grant pa)"
    and grants: "\<forall>g \<in> set grants. narrower g (an_capability_grant pa)"
    using f by blast+
  have pr: "run_at s (ar_run_id pr) = Some pr" using pr0 tree_ok_run(1) [OF ok pr0] by simp
  have pa: "agent_at s (an_agent_id pa) = Some pa" using pa0 tree_ok_agent(1) [OF ok pa0] by simp
  have dn: "distinct (map sp_name (sc_children c))"
    and known: "\<forall>item \<in> set (sc_children c). set (sp_depends_on item) \<subseteq> set (map sp_name (sc_children c))"
    using c by (simp_all add: spawn_cmd_ok_def list_all_iff)
  have sib: "\<exists>j < ?n. d = ar_run_id (?run (j, sc_children c ! j, grants ! j))"
    if r: "r \<in> set rs" "d \<in> set (ar_dependency_run_ids r)" for r d
  proof -
    from r obtain i x where i: "i < ?n" "x \<in> set (sp_depends_on (sc_children c ! i))" "d = the (map_of ?ids x)"
      unfolding inr by auto
    have "x \<in> set (map sp_name (sc_children c))" using known nth_mem [OF i(1)] i(2) by blast
    then obtain j where j: "j < ?n" "x = sp_name (sc_children c ! j)" by (auto simp: in_set_conv_nth)
    then have "map_of ?ids x = Some (numbered ''agent-run-'' (ts_run_sequence s + Suc j))"
      using spawn_ids_Some [OF dn] by blast
    with j(1) i(3) show ?thesis by auto
  qed
  have new: "run_at (add_entries rs as s) (ar_run_id r) = Some r" if "r \<in> set rs" for r
    using entries_at(2) [OF dr that fr(1) [OF that]] .
  have newa: "agent_at (add_entries rs as s) (ar_agent_id r) \<noteq> None" if "r \<in> set rs" for r
  proof -
    from that obtain j where j: "j < ?n" "r = ?run (j, sc_children c ! j, grants ! j)" unfolding inr by blast
    then have "?agent (j, sc_children c ! j, grants ! j) \<in> set as" unfolding ina by blast
    then have "ar_agent_id r \<in> an_agent_id ` set as" using j(2) by (intro image_eqI) auto
    then have "map_of (agent_entries as) (ar_agent_id r) \<noteq> None" by (simp add: map_of_entries_None)
    then show ?thesis by (auto simp: add_entries_def map_add_Some_iff)
  qed
  have linked: "run_linked (run_at (add_entries rs as s)) (agent_at (add_entries rs as s)) r" if r: "r \<in> set rs" for r
  proof -
    have par: "ar_parent_run_id q = Some (ar_run_id pr) \<and> ar_root_run_id q = ar_root_run_id pr
        \<and> ar_created_sequence pr < ar_created_sequence q" if "q \<in> set rs" for q
      using that tree_ok_run(5) [OF ok pr] unfolding inr by auto
    have "\<exists>q. run_at (add_entries rs as s) d = Some q \<and> ar_parent_run_id q = Some (ar_run_id pr)
        \<and> ar_root_run_id q = ar_root_run_id pr" if d: "d \<in> set (ar_dependency_run_ids r)" for d
    proof -
      from sib [OF r d] inr obtain q where "q \<in> set rs" "d = ar_run_id q" by blast
      with new par show ?thesis by blast
    qed
    then show ?thesis
      using par [OF r] newa [OF r] keep(1) [OF pr] unfolding run_linked_def by auto
  qed
  have nlinked: "node_linked (agent_at (add_entries rs as s)) a" if "a \<in> set as" for a
  proof -
    from that obtain j where j: "j < ?n" "a = ?agent (j, sc_children c ! j, grants ! j)" unfolding ina by blast
    have "narrower (grants ! j) (an_capability_grant pa)" using grants j(1) len by simp
    then show ?thesis
      using j(2) keep(2) [OF pa] depth by (simp add: node_linked_def batch_agent_def child_agent_def)
  qed
  have wf: "wf {(d, ar_run_id r) | d r. r \<in> set rs \<and> d \<in> set (ar_dependency_run_ids r)}"
    unfolding rs entries by (rule batch_edges_wf [OF c len])
  have frun: "fresh_after ''agent-run-'' (ts_run_sequence s + ?n) (run_at (add_entries rs as s))"
    by (rule entries_fresh [OF tree_ok_fresh(1) [OF ok]]) (auto simp: inr)
  have fag: "fresh_after ''agent-'' (ts_agent_sequence s + ?n) (agent_at (add_entries rs as s))"
    by (rule agent_entries_fresh [OF tree_ok_fresh(2) [OF ok]]) (auto simp: ina)
  have "tree_ok ((add_entries rs as s)\<lparr>ts_sequence := ts_sequence s + ?n,
             ts_run_sequence := ts_run_sequence s + ?n, ts_agent_sequence := ts_agent_sequence s + ?n\<rparr>)"
  proof (rule tree_ok_add [OF ok dr da _ _ _ _ _ frun fag _ wf _ dag])
    fix r assume r: "r \<in> set rs"
    then show "run_ok r \<and> status_ok r \<and> ar_created_sequence r \<le> int (ts_sequence s + ?n)
        \<and> run_linked (run_at (add_entries rs as s)) (agent_at (add_entries rs as s)) r"
      using good(1) linked by (auto simp: inr)
    show "run_at s (ar_run_id r) = None" by (rule fr(1) [OF r])
    show "\<not> has_active_run s (ar_agent_id r)" by (rule no_active_run_fresh [OF ok fr(2) [OF r]])
    show "d \<in> ar_run_id ` set rs" if "d \<in> set (ar_dependency_run_ids r)" for d
      using sib [OF r that] inr by blast
  qed (use good(2) nlinked fa in auto)
  then show ?thesis unfolding s' by simp
qed

end
