(* ===== verification/Agent_Tree_Machine.thy ===== *)
theory Agent_Tree_Machine
  imports Agent_Tree_Spawn
begin

text \<open>
  The Run tree repository as an event machine: every call of the port is a command, a call
  that raises changes nothing (\<open>complete_run\<close> may advance the checkpoint counter). Two
  families of facts about arbitrary sequences of calls: the structural invariant, and what
  only ever moves forward (settled Runs, lease epochs, context versions, receipts).
\<close>

section \<open>Commands\<close>

datatype tree_cmd =
    Begin_Root begin_root_agent_command
  | Spawn_Agents spawn_agents_command nat
  | Continue_Agent continue_agent_command nat
  | Claim_Run string string int nat
  | Suspend_Run string string int nat
  | Renew_Run_Lease string string int int nat
  | Mark_Waiting string "string option" "int option" nat
  | Release_Waiting string "string option" "int option" nat
  | Complete_Run string int json string string "string option" "int option" nat
  | Fail_Run string string "string option" "int option" nat
  | Cancel_Subtree string
  | Close_Agent string

definition after :: "'a tree_op \<Rightarrow> agent_tree_state result" where
  "after m = bind_result m (\<lambda>(x, s). Inr s)"

lemma after_Inr: "after m = Inr s \<longleftrightarrow> (\<exists>x. m = Inr (x, s))"
  by (auto simp: after_def bind_result_Inr_iff)

fun tree_react :: "(json \<Rightarrow> string) \<Rightarrow> agent_tree_state \<Rightarrow> tree_cmd \<Rightarrow> agent_tree_state result" where
  "tree_react H s (Begin_Root c) = after (begin_root H s c)"
| "tree_react H s (Spawn_Agents c now) = after (spawn_agents H s c now)"
| "tree_react H s (Continue_Agent c now) = after (continue_agent H s c now)"
| "tree_react H s (Claim_Run i own dur now) = after (claim_run s i own dur now)"
| "tree_react H s (Suspend_Run i own ep now) = after (suspend_run s i own ep now)"
| "tree_react H s (Renew_Run_Lease i own ep dur now) = after (renew_run_lease s i own ep dur now)"
| "tree_react H s (Mark_Waiting i own ep now) = after (mark_waiting s i own ep now)"
| "tree_react H s (Release_Waiting i own ep now) = after (release_waiting s i own ep now)"
| "tree_react H s (Complete_Run i ver result content fp own ep now) =
     Inr (fst (complete_run s i ver result content fp own ep now))"
| "tree_react H s (Fail_Run i err own ep now) = after (fail_run s i err own ep now)"
| "tree_react H s (Cancel_Subtree i) = after (cancel_subtree s i)"
| "tree_react H s (Close_Agent i) = after (close_agent s i)"

text \<open>
  Commands are values their constructors accepted. A host that begins a root keeps away from
  the identities the repository generates, and passes \<open>suspend_run\<close> an identity without
  surrounding blanks: the source checks neither.
\<close>

fun tree_cmd_ok :: "tree_cmd \<Rightarrow> bool" where
  "tree_cmd_ok (Begin_Root c) \<longleftrightarrow> begin_cmd_ok c"
| "tree_cmd_ok (Spawn_Agents c now) \<longleftrightarrow> spawn_cmd_ok c"
| "tree_cmd_ok (Continue_Agent c now) \<longleftrightarrow> continue_cmd_ok c"
| "tree_cmd_ok (Suspend_Run i own ep now) \<longleftrightarrow> strip i = i"
| "tree_cmd_ok cmd \<longleftrightarrow> True"

lemma tree_react_ok:
  assumes ok: "tree_ok s" and c: "tree_cmd_ok cmd" and "tree_react H s cmd = Inr s'"
  shows "tree_ok s'"
proof (cases cmd)
  case (Complete_Run i ver result content fp own ep now)
  then show ?thesis
    using assms complete_run_ok [OF ok] by (metis Inr_inject prod.collapse tree_react.simps(9))
qed (use assms in \<open>auto simp: after_Inr intro: begin_root_ok spawn_agents_ok continue_agent_ok lease_ops_ok
      fail_run_ok cancel_subtree_ok close_agent_ok\<close>)

interpretation run_tree: event_machine "tree_react H" tree_cmd_ok tree_ok for H
  by unfold_locales (rule tree_react_ok)

section \<open>What only moves forward\<close>

definition evolves :: "agent_tree_state \<Rightarrow> agent_tree_state \<Rightarrow> bool" where
  "evolves s s' \<longleftrightarrow>
     (\<forall>k r. run_at s k = Some r \<longrightarrow> (\<exists>q. run_at s' k = Some q \<and> same_run r q
        \<and> ar_lease_epoch r \<le> ar_lease_epoch q \<and> (ar_terminal r \<longrightarrow> q = r)))
     \<and> (\<forall>k a. agent_at s k = Some a \<longrightarrow> (\<exists>b. agent_at s' k = Some b \<and> same_agent a b
        \<and> an_context_version a \<le> an_context_version b \<and> (an_state a = Node_CLOSED \<longrightarrow> b = a)))
     \<and> map_of (ts_spawn_receipts s) \<subseteq>\<^sub>m map_of (ts_spawn_receipts s')
     \<and> map_of (ts_continue_receipts s) \<subseteq>\<^sub>m map_of (ts_continue_receipts s')"

lemma same_trans:
  "same_run r q \<Longrightarrow> same_run q p \<Longrightarrow> same_run r p" "same_agent a b \<Longrightarrow> same_agent b d \<Longrightarrow> same_agent a d"
  by (simp_all add: same_run_def same_agent_def)

lemma evolves_refl [simp]: "evolves s s"
  by (auto simp: evolves_def)

lemma evolves_run:
  assumes "evolves s s'" and "run_at s k = Some r"
  obtains q where "run_at s' k = Some q" "same_run r q" "ar_lease_epoch r \<le> ar_lease_epoch q"
    "ar_terminal r \<Longrightarrow> q = r"
  using assms unfolding evolves_def by metis

lemma evolves_agent:
  assumes "evolves s s'" and "agent_at s k = Some a"
  obtains b where "agent_at s' k = Some b" "same_agent a b" "an_context_version a \<le> an_context_version b"
    "an_state a = Node_CLOSED \<Longrightarrow> b = a"
  using assms unfolding evolves_def by metis

lemma evolves_trans:
  assumes "evolves s t" and "evolves t u"
  shows "evolves s u"
  unfolding evolves_def
proof (intro conjI allI impI)
  fix k r assume "run_at s k = Some r"
  then obtain q where q: "run_at t k = Some q" "same_run r q" "ar_lease_epoch r \<le> ar_lease_epoch q"
      "ar_terminal r \<Longrightarrow> q = r"
    using evolves_run [OF assms(1)] by blast
  obtain p where "run_at u k = Some p" "same_run q p" "ar_lease_epoch q \<le> ar_lease_epoch p" "ar_terminal q \<Longrightarrow> p = q"
    using evolves_run [OF assms(2) q(1)] by blast
  with q show "\<exists>q. run_at u k = Some q \<and> same_run r q \<and> ar_lease_epoch r \<le> ar_lease_epoch q \<and> (ar_terminal r \<longrightarrow> q = r)"
    using same_trans(1) by (intro exI [of _ p]) auto
next
  fix k a assume "agent_at s k = Some a"
  then obtain b where b: "agent_at t k = Some b" "same_agent a b" "an_context_version a \<le> an_context_version b"
      "an_state a = Node_CLOSED \<Longrightarrow> b = a"
    using evolves_agent [OF assms(1)] by blast
  obtain d where "agent_at u k = Some d" "same_agent b d" "an_context_version b \<le> an_context_version d"
      "an_state b = Node_CLOSED \<Longrightarrow> d = b"
    using evolves_agent [OF assms(2) b(1)] by blast
  with b show "\<exists>b. agent_at u k = Some b \<and> same_agent a b \<and> an_context_version a \<le> an_context_version b
      \<and> (an_state a = Node_CLOSED \<longrightarrow> b = a)"
    using same_trans(2) by (intro exI [of _ d]) auto
qed (use assms map_le_trans in \<open>auto simp: evolves_def\<close>)

lemma evolves_frame [simp]:
  "evolves s (t\<lparr>ts_checkpoints := a\<rparr>) = evolves s t" "evolves s (t\<lparr>ts_root_digests := d\<rparr>) = evolves s t"
  "evolves s (t\<lparr>ts_batch_sequence := e\<rparr>) = evolves s t" "evolves s (t\<lparr>ts_checkpoint_sequence := f\<rparr>) = evolves s t"
  "evolves s (t\<lparr>ts_sequence := g\<rparr>) = evolves s t" "evolves s (t\<lparr>ts_run_sequence := h\<rparr>) = evolves s t"
  "evolves s (t\<lparr>ts_agent_sequence := i\<rparr>) = evolves s t"
  by (simp_all add: evolves_def)

text \<open>The steps every operation is made of.\<close>

lemma evolves_touch_run:
  assumes "evolves s t" and "run_at t k = Some r" and "ar_run_id r' = k" and "same_run r r'"
    and "ar_lease_epoch r \<le> ar_lease_epoch r'" and "\<not> ar_terminal r"
  shows "evolves s (put_run r' t)"
  by (rule evolves_trans [OF assms(1)]) (use assms in \<open>auto simp: evolves_def\<close>)

lemma evolves_touch_agent:
  assumes "evolves s t" and "agent_at t k = Some a" and "an_agent_id a' = k" and "same_agent a a'"
    and "an_context_version a \<le> an_context_version a'" and "an_state a \<noteq> Node_CLOSED"
  shows "evolves s (put_agent a' t)"
  by (rule evolves_trans [OF assms(1)]) (use assms in \<open>auto simp: evolves_def\<close>)

lemma evolves_new_run:
  assumes "evolves s t" and "run_at t (ar_run_id r) = None"
  shows "evolves s (put_run r t)"
  by (rule evolves_trans [OF assms(1)]) (use assms in \<open>auto simp: evolves_def\<close>)

lemma evolves_new_agent:
  assumes "evolves s t" and "agent_at t (an_agent_id a) = None"
  shows "evolves s (put_agent a t)"
  by (rule evolves_trans [OF assms(1)]) (use assms in \<open>auto simp: evolves_def\<close>)

lemma evolves_runs_changed:
  assumes "s' = s\<lparr>ts_runs := ts_runs s'\<rparr>"
    and "\<And>k. run_at s' k = (case run_at s k of None \<Rightarrow> None | Some q \<Rightarrow> Some (f k q))"
    and "\<And>k q. run_at s k = Some q \<Longrightarrow> f k q = q
      \<or> same_run q (f k q) \<and> ar_lease_epoch q \<le> ar_lease_epoch (f k q) \<and> \<not> ar_terminal q"
  shows "evolves s s'"
proof -
  have frame: "ts_agents s' = ts_agents s" "ts_spawn_receipts s' = ts_spawn_receipts s"
      "ts_continue_receipts s' = ts_continue_receipts s"
    by (subst assms(1), simp)+
  have "\<exists>q. run_at s' k = Some q \<and> same_run r q \<and> ar_lease_epoch r \<le> ar_lease_epoch q \<and> (ar_terminal r \<longrightarrow> q = r)"
    if "run_at s k = Some r" for k r
    using assms(3) [OF that] that unfolding assms(2) by (intro exI [of _ "f k r"]) auto
  then show ?thesis by (simp add: evolves_def frame)
qed

lemma evolves_receipt:
  "evolves s t \<Longrightarrow> map_of (ts_spawn_receipts s) k = None \<Longrightarrow>
     evolves s (t\<lparr>ts_spawn_receipts := AList.update k v (ts_spawn_receipts s)\<rparr>)"
  "evolves s t \<Longrightarrow> map_of (ts_continue_receipts s) k = None \<Longrightarrow>
     evolves s (t\<lparr>ts_continue_receipts := AList.update k w (ts_continue_receipts s)\<rparr>)"
  by (auto simp: evolves_def map_le_def)

lemma evolves_add:
  assumes "\<And>r. r \<in> set rs \<Longrightarrow> run_at s (ar_run_id r) = None"
    and "\<And>a. a \<in> set as \<Longrightarrow> agent_at s (an_agent_id a) = None"
  shows "evolves s (add_entries rs as s)"
  using entries_keep [of rs s as, OF assms] unfolding evolves_def by (auto simp: add_entries_def)

section \<open>Every operation moves forward\<close>

lemma ar_terminal_status: "ar_terminal r \<longleftrightarrow> ar_status r = Tree_DONE \<or> ar_status r = Tree_FAILED \<or> ar_status r = Tree_CANCELED"
  by (auto simp: ar_terminal_def TERMINAL_RUN_STATUSES_def)

lemma evolves_lease_ops:
  assumes ok: "tree_ok s"
  shows "claim_run s i own dur now = Inr (c, s') \<Longrightarrow> evolves s s'"
    and "strip i = i \<Longrightarrow> suspend_run s i own e now = Inr (res, s') \<Longrightarrow> evolves s s'"
    and "renew_run_lease s i own e dur now = Inr (res, s') \<Longrightarrow> evolves s s'"
    and "mark_waiting s i own' e' now = Inr (res, s') \<Longrightarrow> evolves s s'"
    and "release_waiting s i own' e' now = Inr (res, s') \<Longrightarrow> evolves s s'"
proof -
  note id = tree_ok_run(1) [OF ok]
  have touch: "evolves s (put_run r' s)" if "run_at s (strip i) = Some r" "same_run r r'"
      "ar_lease_epoch r \<le> ar_lease_epoch r'" "ar_active r" for r r'
    by (rule evolves_touch_run [OF evolves_refl that(1) _ that(2,3)])
      (use that id [OF that(1)] in \<open>auto simp: same_run_def ar_active_iff\<close>)
  show "evolves s s'" if "claim_run s i own dur now = Inr (c, s')"
    using claim_run_cases [OF ok that]
    by (elim disjE exE conjE) (auto intro!: touch simp: same_run_def claimable_status_def ar_active_status)
  show "evolves s s'" if strip: "strip i = i" and op: "suspend_run s i own e now = Inr (res, s')"
  proof -
    from suspend_run_cases [OF ok op] obtain r where r: "run_at s (strip i) = Some r"
        "require_claim r (Some own) (Some e) now = Inr ()"
        and res: "res = r\<lparr>ar_status := Tree_WAITING, ar_lease_owner_id := None, ar_lease_expires_at_ms := None\<rparr>"
        "s' = s\<lparr>ts_runs := AList.update i res (ts_runs s)\<rparr>"
      by blast
    have "ar_active r" using tree_ok_run(3) [OF ok r(1)] require_claim_owned [OF r(2)]
      by (auto simp: status_ok_def ar_active_status)
    moreover have "s' = put_run res s" using id [OF r(1)] res strip by (simp add: put_run_def)
    ultimately show ?thesis using r(1) res(1) by (auto intro!: touch simp: same_run_def)
  qed
  show "evolves s s'" if "renew_run_lease s i own e dur now = Inr (res, s')"
    using renew_run_lease_cases [OF ok that] by (auto intro!: touch simp: same_run_def ar_active_status)
  show "evolves s s'" if "mark_waiting s i own' e' now = Inr (res, s')"
    using mark_waiting_cases [OF ok that] by (auto intro!: touch simp: same_run_def ar_active_status)
  show "evolves s s'" if "release_waiting s i own' e' now = Inr (res, s')"
    using release_waiting_cases [OF ok that] by (auto intro!: touch simp: same_run_def ar_active_status)
qed

lemma evolves_complete:
  assumes ok: "tree_ok s" and op: "complete_run s i ver result content fp own ep now = (s', res)"
  shows "evolves s s'"
  using complete_run_cases [OF assms]
proof (elim disjE exE conjE)
  fix r a c
  assume adm: "complete_admission s i ver own ep now = Inr (r, a)"
    and s': "s' = put_agent (a\<lparr>an_context_version := an_context_version a + 1,
             an_context_checkpoint_id := Some (cc_checkpoint_id c)\<rparr>)
           ((put_run (completed_as result r) (s\<lparr>ts_checkpoint_sequence := Suc (ts_checkpoint_sequence s)\<rparr>))
             \<lparr>ts_checkpoints := AList.update (cc_checkpoint_id c) c (ts_checkpoints s)\<rparr>)"
  have r: "run_at s (strip i) = Some r" "ar_status r = Tree_RUNNING" "agent_at s (ar_agent_id r) = Some a"
      "an_state a = Node_ACTIVE"
    using adm complete_admission_Inr [OF ok] by simp_all
  note id = tree_ok_run(1) [OF ok r(1)] tree_ok_agent(1) [OF ok r(3)]
  have "evolves s (put_run (completed_as result r) (s\<lparr>ts_checkpoint_sequence := Suc (ts_checkpoint_sequence s)\<rparr>))"
    by (rule evolves_touch_run [of _ _ "strip i" r])
      (use r id in \<open>simp_all add: completed_as_def same_run_def ar_terminal_status\<close>)
  then show ?thesis
    unfolding s'
    by (intro evolves_touch_agent [of _ _ "ar_agent_id r" a])
      (use r id in \<open>simp_all add: same_agent_def\<close>)
qed auto

lemma evolves_settling:
  assumes ok: "tree_ok s"
  shows "fail_run s i err own ep now = Inr (res, s') \<Longrightarrow> evolves s s'"
    and "cancel_subtree s i = Inr (ids, s') \<Longrightarrow> evolves s s'"
    and "close_agent s i = Inr (a, s') \<Longrightarrow> evolves s s'"
proof -
  show "evolves s s'" if op: "fail_run s i err own ep now = Inr (res, s')"
    using fail_run_cases [OF ok op]
  proof (elim disjE exE conjE)
    fix r assume r: "run_at s (strip i) = Some r" "strip i \<noteq> []" "strip err \<noteq> []" "ar_active r"
      "require_claim r own ep now = Inr ()"
    obtain s'' where s'': "fail_run s i err own ep now = Inr (failed_as (strip err) r, s'')" "s'' = s\<lparr>ts_runs := ts_runs s''\<rparr>"
        "\<And>k. run_at s'' k = (case run_at s k of None \<Rightarrow> None | Some q \<Rightarrow> Some
         (if k = strip i then failed_as (strip err) r
          else if ar_active q \<and> causal_below (run_at s) (strip i) k
          then canceled_as ''ancestor_run_failed'' q else q))"
      using fail_run_eq [OF ok r(1,2,4,5,3)] by blast
    have "evolves s s''"
      by (rule evolves_runs_changed [OF s''(2,3)]) (use r in \<open>auto simp: ar_active_iff\<close>)
    then show ?thesis using op s''(1) by simp
  qed simp
  show "evolves s s'" if op: "cancel_subtree s i = Inr (ids, s')"
  proof -
    obtain r where r: "run_at s (strip i) = Some r" "strip i \<noteq> []"
      using op by (auto simp: cancel_subtree_def result_simps)
    obtain ids' s'' where s'': "cancel_subtree s i = Inr (ids', s'')" "s'' = s\<lparr>ts_runs := ts_runs s''\<rparr>"
        "\<And>k. run_at s'' k = (case run_at s k of None \<Rightarrow> None | Some q \<Rightarrow> Some
         (if k \<in> subtree (run_at s) (strip i) \<and> ar_active q
          then canceled_as ''agent_run_canceled'' q else q))"
      using cancel_subtree_eq [OF ok r] by blast
    have "evolves s s''"
      by (rule evolves_runs_changed [OF s''(2,3)]) (auto simp: ar_active_iff)
    then show ?thesis using op s''(1) by simp
  qed
  show "evolves s s'" if op: "close_agent s i = Inr (a, s')"
  proof -
    from close_agent_cases [OF ok op] obtain b where b: "agent_at s (strip i) = Some b" "an_state b = Node_ACTIVE"
        "s' = put_agent (b\<lparr>an_state := Node_CLOSED\<rparr>) s" by blast
    show ?thesis
      unfolding b(3) by (rule evolves_touch_agent [OF evolves_refl b(1)])
        (use b tree_ok_agent(1) [OF ok b(1)] in \<open>simp_all add: same_agent_def\<close>)
  qed
qed

lemma evolves_creating:
  assumes ok: "tree_ok s"
  shows "begin_cmd_ok c \<Longrightarrow> begin_root H s c = Inr (res, s') \<Longrightarrow> evolves s s'"
    and "continue_cmd_ok d \<Longrightarrow> continue_agent H s d now = Inr (rc, s') \<Longrightarrow> evolves s s'"
    and "spawn_cmd_ok e \<Longrightarrow> spawn_agents H s e now = Inr (rs, s') \<Longrightarrow> evolves s s'"
proof -
  show "evolves s s'" if c: "begin_cmd_ok c" and op: "begin_root H s c = Inr (res, s')"
    using begin_root_cases [OF ok c op]
  proof (elim disjE exE conjE)
    fix agent
    assume agent: "root_agent_for s c = Inr agent" and none: "run_at s (br_run_id c) = None"
      and res: "res = root_run c agent (ts_sequence s)"
      and s': "s' = put_agent (agent\<lparr>an_latest_run_id := Some (br_run_id c)\<rparr>)
            ((put_run res (s\<lparr>ts_sequence := Suc (ts_sequence s)\<rparr>))\<lparr>ts_root_digests :=
               AList.update (br_run_id c) (begin_root_digest H c) (ts_root_digests s)\<rparr>)"
    let ?t = "(put_run res (s\<lparr>ts_sequence := Suc (ts_sequence s)\<rparr>))\<lparr>ts_root_digests :=
               AList.update (br_run_id c) (begin_root_digest H c) (ts_root_digests s)\<rparr>"
    note f = root_agent_for_cases [OF ok c agent]
    have t: "evolves s ?t"
      unfolding evolves_frame by (rule evolves_new_run) (use none res in \<open>simp_all add: root_run_def\<close>)
    show ?thesis
    proof (cases "agent_at s (br_agent_id c)")
      case None
      then show ?thesis unfolding s' by (intro evolves_new_agent [OF t]) (use f in simp)
    next
      case (Some a)
      then have "an_state agent \<noteq> Node_CLOSED"
        using agent by (auto simp: root_agent_for_def split: if_splits)
      then show ?thesis
        unfolding s' using f Some
        by (intro evolves_touch_agent [OF t, of "br_agent_id c" agent]) (simp_all add: same_agent_def)
    qed
  qed simp
  show "evolves s s'" if d: "continue_cmd_ok d" and op: "continue_agent H s d now = Inr (rc, s')"
    using continue_agent_cases [OF ok d op]
  proof (elim disjE exE conjE)
    fix q t run agent
    let ?id = "numbered ''agent-run-'' (Suc (ts_run_sequence s))"
    assume adm: "continue_admission s d now = Inr (q, t)"
      and none: "map_of (ts_continue_receipts s) (co_requester_run_id d, co_idempotency_key d) = None"
      and run: "run = continued_run q t d ?id (int (Suc (ts_sequence s)))"
      and agent: "agent = t\<lparr>an_latest_run_id := Some ?id\<rparr>"
      and s': "s' = (put_run run (put_agent agent (s\<lparr>ts_run_sequence := Suc (ts_run_sequence s),
             ts_sequence := Suc (ts_sequence s)\<rparr>)))\<lparr>ts_continue_receipts :=
               AList.update (co_requester_run_id d, co_idempotency_key d) (continue_digest H d, rc)
                 (ts_continue_receipts s)\<rparr>"
    note f = continue_admission_Inr [OF ok d adm]
    have t: "agent_at s (co_agent_id d) = Some t" "an_state t = Node_ACTIVE" using f by simp_all
    have "run_at s ?id = None" using tree_ok_fresh(1) [OF ok] by (simp add: fresh_after_def)
    then show ?thesis
      unfolding s'
      by (intro evolves_receipt(2) [OF _ none] evolves_new_run evolves_touch_agent [of _ _ "co_agent_id d" t])
        (use t tree_ok_agent(1) [OF ok t(1)] in \<open>simp_all add: agent same_agent_def run continued_run_def\<close>)
  qed simp
  show "evolves s s'" if e: "spawn_cmd_ok e" and op: "spawn_agents H s e now = Inr (rs, s')"
    using spawn_agents_cases [OF ok e op]
  proof (elim disjE exE conjE)
    fix pr pa grants entries runs agents
    assume adm: "spawn_admission s e now = Inr (pr, pa, grants)"
      and none: "map_of (ts_spawn_receipts s) (sc_parent_run_id e, sc_idempotency_key e) = None"
      and entries: "entries = enumerate 0 (zip (sc_children e) grants)"
      and runs: "runs = map (batch_run pr (sr_batch_id rs) (spawn_ids (ts_run_sequence s) (sc_children e))
             (ts_agent_sequence s) (ts_run_sequence s) (ts_sequence s)) entries"
      and agents: "agents = map (batch_agent pa pr (sc_idempotency_key e) (ts_agent_sequence s) (ts_run_sequence s)) entries"
      and s': "s' = (add_entries runs agents s)\<lparr>ts_sequence := ts_sequence s + length (sc_children e),
             ts_run_sequence := ts_run_sequence s + length (sc_children e),
             ts_agent_sequence := ts_agent_sequence s + length (sc_children e),
             ts_batch_sequence := Suc (ts_batch_sequence s),
             ts_spawn_receipts := AList.update (sc_parent_run_id e, sc_idempotency_key e)
               (spawn_digest H e, rs) (ts_spawn_receipts s)\<rparr>"
    have "evolves s (add_entries runs agents s)"
      by (rule evolves_add) (use tree_ok_fresh [OF ok] in \<open>auto simp: runs agents fresh_after_def\<close>)
    then show ?thesis unfolding s' by (intro evolves_receipt(1) [OF _ none]) simp
  qed simp
qed

lemma tree_react_evolves:
  assumes ok: "tree_ok s" and c: "tree_cmd_ok cmd" and "tree_react H s cmd = Inr s'"
  shows "evolves s s'"
proof (cases cmd)
  case (Complete_Run i ver result content fp own ep now)
  then show ?thesis
    using assms evolves_complete [OF ok] by (metis Inr_inject prod.collapse tree_react.simps(9))
qed (use assms in \<open>auto simp: after_Inr intro: evolves_lease_ops evolves_settling evolves_creating\<close>)

interpretation run_tree_progress: progress_machine "tree_react H" tree_cmd_ok tree_ok evolves for H
  by unfold_locales (auto intro: evolves_trans tree_react_evolves)

end
