(* ===== verification/Agent_Tree_Context.thy ===== *)
theory Agent_Tree_Context
  imports Agent_Tree_Machine
begin

text \<open>
  Context checkpoints: every version of an Agent's context was written by a completed Run of
  that Agent, and the versions form an unbroken chain down to the first one.
\<close>

section \<open>The chain\<close>

abbreviation checkpoint_at :: "agent_tree_state \<Rightarrow> string \<Rightarrow> context_checkpoint option" where
  "checkpoint_at s \<equiv> map_of (ts_checkpoints s)"

definition checkpoint_linked :: "agent_tree_state \<Rightarrow> context_checkpoint \<Rightarrow> bool" where
  "checkpoint_linked s c \<longleftrightarrow>
     (\<exists>r. run_at s (cc_source_run_id c) = Some r \<and> ar_status r = Tree_DONE \<and> ar_agent_id r = cc_agent_id c)
     \<and> (case cc_previous_checkpoint_id c of
          None \<Rightarrow> cc_version c = 1
        | Some p \<Rightarrow> \<exists>d. checkpoint_at s p = Some d \<and> cc_agent_id d = cc_agent_id c \<and> cc_version c = cc_version d + 1)"

definition context_linked :: "agent_tree_state \<Rightarrow> agent_node \<Rightarrow> bool" where
  "context_linked s a \<longleftrightarrow>
     (case an_context_checkpoint_id a of
        None \<Rightarrow> an_context_version a = 0
      | Some p \<Rightarrow> \<exists>c. checkpoint_at s p = Some c \<and> cc_agent_id c = an_agent_id a \<and> cc_version c = an_context_version a)"

definition contexts_ok :: "agent_tree_state \<Rightarrow> bool" where
  "contexts_ok s \<longleftrightarrow>
     (\<forall>k c. checkpoint_at s k = Some c \<longrightarrow> cc_checkpoint_id c = k \<and> clean_id k \<and> 0 < cc_version c \<and> checkpoint_linked s c)
     \<and> (\<forall>k a. agent_at s k = Some a \<longrightarrow> context_linked s a)
     \<and> fresh_after ''context-'' (ts_checkpoint_sequence s) (checkpoint_at s)"

lemma contexts_ok_empty [simp]: "contexts_ok (empty_tree n)"
  by (simp add: contexts_ok_def empty_tree_def fresh_after_def)

text \<open>What every operation but \<open>complete_run\<close> does to contexts: nothing.\<close>

definition contexts_kept :: "agent_tree_state \<Rightarrow> agent_tree_state \<Rightarrow> bool" where
  "contexts_kept s s' \<longleftrightarrow> ts_checkpoints s' = ts_checkpoints s
     \<and> ts_checkpoint_sequence s \<le> ts_checkpoint_sequence s'
     \<and> (\<forall>k b. agent_at s' k = Some b \<longrightarrow>
          (case agent_at s k of
             None \<Rightarrow> an_context_version b = 0 \<and> an_context_checkpoint_id b = None
           | Some a \<Rightarrow> an_agent_id b = an_agent_id a \<and> an_context_version b = an_context_version a
               \<and> an_context_checkpoint_id b = an_context_checkpoint_id a))"

lemma contexts_keptI:
  assumes "ts_checkpoints s' = ts_checkpoints s" and "ts_checkpoint_sequence s' = ts_checkpoint_sequence s"
    and "ts_agents s' = ts_agents s"
  shows "contexts_kept s s'"
  using assms by (simp add: contexts_kept_def split: option.splits)

lemma checkpoint_linked_evolves:
  assumes "checkpoint_linked s c" and "evolves s s'" and "checkpoint_at s \<subseteq>\<^sub>m checkpoint_at s'"
  shows "checkpoint_linked s' c"
proof -
  obtain r where r: "run_at s (cc_source_run_id c) = Some r" "ar_status r = Tree_DONE" "ar_agent_id r = cc_agent_id c"
    using assms(1) by (auto simp: checkpoint_linked_def)
  then have "run_at s' (cc_source_run_id c) = Some r"
    using evolves_run [OF assms(2) r(1)] by (metis ar_terminal_status)
  moreover have "\<exists>d. checkpoint_at s' p = Some d \<and> cc_agent_id d = cc_agent_id c \<and> cc_version c = cc_version d + 1"
    if "cc_previous_checkpoint_id c = Some p" for p
    using assms(1,3) that by (auto simp: checkpoint_linked_def intro: map_leD)
  ultimately show ?thesis
    using r assms(1) by (simp add: checkpoint_linked_def split: option.splits)
qed

lemma contexts_ok_kept:
  assumes ok: "contexts_ok s" and ev: "evolves s s'" and kept: "contexts_kept s s'"
  shows "contexts_ok s'"
proof -
  have cp: "checkpoint_at s' = checkpoint_at s" and seq: "ts_checkpoint_sequence s \<le> ts_checkpoint_sequence s'"
    using kept by (simp_all add: contexts_kept_def)
  have "checkpoint_linked s' c" if "checkpoint_at s k = Some c" for k c
    by (rule checkpoint_linked_evolves [OF _ ev]) (use ok that cp in \<open>auto simp: contexts_ok_def\<close>)
  moreover have "context_linked s' b" if b: "agent_at s' k = Some b" for k b
  proof (cases "agent_at s k")
    case None
    then show ?thesis using kept b by (force simp: contexts_kept_def context_linked_def)
  next
    case (Some a)
    then have "context_linked s a" using ok by (simp add: contexts_ok_def)
    moreover have "an_agent_id b = an_agent_id a" "an_context_version b = an_context_version a"
        "an_context_checkpoint_id b = an_context_checkpoint_id a"
      using kept b Some by (force simp: contexts_kept_def)+
    ultimately show ?thesis by (simp add: context_linked_def cp cong: option.case_cong)
  qed
  ultimately show ?thesis
    using ok seq by (auto simp: contexts_ok_def cp fresh_after_def)
qed

section \<open>The operations\<close>

lemma lease_ops_contexts:
  assumes ok: "tree_ok s"
  shows "claim_run s i own dur now = Inr (c, s') \<Longrightarrow> contexts_kept s s'"
    and "suspend_run s i own e now = Inr (res, s') \<Longrightarrow> contexts_kept s s'"
    and "renew_run_lease s i own e dur now = Inr (res, s') \<Longrightarrow> contexts_kept s s'"
    and "mark_waiting s i own' e' now = Inr (res, s') \<Longrightarrow> contexts_kept s s'"
    and "release_waiting s i own' e' now = Inr (res, s') \<Longrightarrow> contexts_kept s s'"
  by (auto intro!: contexts_keptI simp: put_run_def claim_run_def suspend_run_def renew_run_lease_def
      mark_waiting_def release_waiting_def result_simps split: if_splits)

lemma settling_contexts:
  assumes ok: "tree_ok s"
  shows "fail_run s i err own ep now = Inr (res, s') \<Longrightarrow> contexts_kept s s'"
    and "cancel_subtree s i = Inr (ids, s') \<Longrightarrow> contexts_kept s s'"
    and "close_agent s i = Inr (a, s') \<Longrightarrow> contexts_kept s s'"
proof -
  have runs: "contexts_kept s t" if "t = s\<lparr>ts_runs := x\<rparr>" for t x
    unfolding that by (rule contexts_keptI) simp_all
  show "contexts_kept s s'" if op: "fail_run s i err own ep now = Inr (res, s')"
    using fail_run_cases [OF ok op]
  proof (elim disjE exE conjE)
    fix r assume r: "run_at s (strip i) = Some r" "strip i \<noteq> []" "strip err \<noteq> []" "ar_active r"
      "require_claim r own ep now = Inr ()"
    obtain s'' where f: "fail_run s i err own ep now = Inr (failed_as (strip err) r, s'')" and s'': "s'' = s\<lparr>ts_runs := ts_runs s''\<rparr>"
      using fail_run_eq [OF ok r(1,2,4,5,3)] by (elim exE conjE)
    from f op have "s' = s''" by simp
    with runs [OF s''] show ?thesis by (simp only:)
  qed (simp add: contexts_keptI)
  show "contexts_kept s s'" if op: "cancel_subtree s i = Inr (ids, s')"
  proof -
    obtain r where r: "run_at s (strip i) = Some r" "strip i \<noteq> []"
      using op by (auto simp: cancel_subtree_def result_simps)
    obtain ids' s'' where f: "cancel_subtree s i = Inr (ids', s'')" and s'': "s'' = s\<lparr>ts_runs := ts_runs s''\<rparr>"
      using cancel_subtree_eq [OF ok r] by blast
    from f op have "s' = s''" by simp
    with runs [OF s''] show ?thesis by (simp only:)
  qed
  show "contexts_kept s s'" if op: "close_agent s i = Inr (a, s')"
  proof -
    from close_agent_cases [OF ok op] obtain b where b: "agent_at s (strip i) = Some b"
        "s' = put_agent (b\<lparr>an_state := Node_CLOSED\<rparr>) s" by blast
    then show ?thesis using tree_ok_agent(1) [OF ok b(1)]
      by (auto simp: contexts_kept_def put_agent_def split: option.splits)
  qed
qed

lemma creating_contexts:
  assumes ok: "tree_ok s"
  shows "begin_cmd_ok c \<Longrightarrow> begin_root H s c = Inr (res, s') \<Longrightarrow> contexts_kept s s'"
    and "continue_cmd_ok d \<Longrightarrow> continue_agent H s d now = Inr (rc, s') \<Longrightarrow> contexts_kept s s'"
    and "spawn_cmd_ok e \<Longrightarrow> spawn_agents H s e now = Inr (rs, s') \<Longrightarrow> contexts_kept s s'"
proof -
  have same: "contexts_kept s s" by (simp add: contexts_keptI)
  show "contexts_kept s s'" if c: "begin_cmd_ok c" and op: "begin_root H s c = Inr (res, s')"
    using begin_root_cases [OF ok c op]
  proof (elim disjE exE conjE)
    fix agent
    assume agent: "root_agent_for s c = Inr agent"
      and s': "s' = put_agent (agent\<lparr>an_latest_run_id := Some (br_run_id c)\<rparr>)
            ((put_run res (s\<lparr>ts_sequence := Suc (ts_sequence s)\<rparr>))\<lparr>ts_root_digests :=
               AList.update (br_run_id c) (begin_root_digest H c) (ts_root_digests s)\<rparr>)"
    note f = root_agent_for_cases [OF ok c agent]
    have "an_context_version agent = 0 \<and> an_context_checkpoint_id agent = None" if "agent_at s (br_agent_id c) = None"
      using agent that by (auto simp: root_agent_for_def AgentNode_post_init_def result_simps normalizer_Inr)
    then show ?thesis
      using f s' by (auto simp: contexts_kept_def put_agent_def put_run_def split: option.splits)
  qed (use same in simp)
  show "contexts_kept s s'" if d: "continue_cmd_ok d" and op: "continue_agent H s d now = Inr (rc, s')"
    using continue_agent_cases [OF ok d op]
  proof (elim disjE exE conjE)
    fix q t run agent
    assume adm: "continue_admission s d now = Inr (q, t)"
      and agent: "agent = t\<lparr>an_latest_run_id := Some (numbered ''agent-run-'' (Suc (ts_run_sequence s)))\<rparr>"
      and s': "s' = (put_run run (put_agent agent (s\<lparr>ts_run_sequence := Suc (ts_run_sequence s),
             ts_sequence := Suc (ts_sequence s)\<rparr>)))\<lparr>ts_continue_receipts :=
               AList.update (co_requester_run_id d, co_idempotency_key d) (continue_digest H d, rc)
                 (ts_continue_receipts s)\<rparr>"
    have t: "agent_at s (co_agent_id d) = Some t" using continue_admission_Inr [OF ok d adm] by simp
    then show ?thesis
      using tree_ok_agent(1) [OF ok t] s' agent
      by (auto simp: contexts_kept_def put_agent_def put_run_def split: option.splits)
  qed (use same in simp)
  show "contexts_kept s s'" if e: "spawn_cmd_ok e" and op: "spawn_agents H s e now = Inr (rs, s')"
    using spawn_agents_cases [OF ok e op]
  proof (elim disjE exE conjE)
    fix pr pa grants entries runs agents
    assume agents: "agents = map (batch_agent pa pr (sc_idempotency_key e) (ts_agent_sequence s) (ts_run_sequence s)) entries"
      and s': "s' = (add_entries runs agents s)\<lparr>ts_sequence := ts_sequence s + length (sc_children e),
             ts_run_sequence := ts_run_sequence s + length (sc_children e),
             ts_agent_sequence := ts_agent_sequence s + length (sc_children e),
             ts_batch_sequence := Suc (ts_batch_sequence s),
             ts_spawn_receipts := AList.update (sc_parent_run_id e, sc_idempotency_key e)
               (spawn_digest H e, rs) (ts_spawn_receipts s)\<rparr>"
    have new: "an_context_version a = 0 \<and> an_context_checkpoint_id a = None \<and> agent_at s (an_agent_id a) = None"
      if "a \<in> set agents" for a
      using that tree_ok_fresh(2) [OF ok]
      by (auto simp: agents batch_agent_def child_agent_def fresh_after_def)
    have "case agent_at s k of None \<Rightarrow> an_context_version b = 0 \<and> an_context_checkpoint_id b = None
        | Some a \<Rightarrow> an_agent_id b = an_agent_id a \<and> an_context_version b = an_context_version a
            \<and> an_context_checkpoint_id b = an_context_checkpoint_id a" if b: "agent_at s' k = Some b" for k b
    proof (cases "map_of (agent_entries agents) k")
      case None
      then have "agent_at s k = Some b" using b by (simp add: s' add_entries_def map_add_Some_iff)
      then show ?thesis by simp
    next
      case (Some a)
      then have "agent_at s k = None" using new map_of_entries(2) [OF Some] by auto
      moreover from this have "b = a" using b Some by (simp add: s' add_entries_def map_add_Some_iff)
      ultimately show ?thesis using new map_of_entries(2) [OF Some] by simp
    qed
    then show ?thesis unfolding contexts_kept_def by (simp add: s' add_entries_def)
  qed (use same in simp)
qed

lemma complete_run_contexts:
  assumes ok: "tree_ok s" and con: "contexts_ok s"
    and op: "complete_run s i ver result content fp own ep now = (s', res)"
  shows "contexts_ok s'"
  using complete_run_cases [OF ok op]
proof (elim disjE exE conjE)
  fix e
  assume "res = Inl e" "s' = s" then show ?thesis using con by simp
next
  fix e
  assume "s' = s\<lparr>ts_checkpoint_sequence := Suc (ts_checkpoint_sequence s)\<rparr>"
  then have "contexts_kept s s'" by (simp add: contexts_kept_def split: option.splits)
  then show ?thesis by (rule contexts_ok_kept [OF con evolves_complete [OF ok op]])
next
  fix r a c
  assume adm: "complete_admission s i ver own ep now = Inr (r, a)"
    and c: "cc_version c = an_context_version a + 1" "cc_agent_id c = an_agent_id a"
      "cc_source_run_id c = ar_run_id r" "cc_previous_checkpoint_id c = an_context_checkpoint_id a"
    and id: "cc_checkpoint_id c = numbered ''context-'' (Suc (ts_checkpoint_sequence s))"
    and s': "s' = put_agent (a\<lparr>an_context_version := an_context_version a + 1,
             an_context_checkpoint_id := Some (cc_checkpoint_id c)\<rparr>)
           ((put_run (completed_as result r) (s\<lparr>ts_checkpoint_sequence := Suc (ts_checkpoint_sequence s)\<rparr>))
             \<lparr>ts_checkpoints := AList.update (cc_checkpoint_id c) c (ts_checkpoints s)\<rparr>)"
  have r: "run_at s (strip i) = Some r" "agent_at s (ar_agent_id r) = Some a"
    using adm complete_admission_Inr [OF ok] by simp_all
  note ids = tree_ok_run(1) [OF ok r(1)] tree_ok_agent(1,2) [OF ok r(2)]
  have new: "checkpoint_at s (cc_checkpoint_id c) = None"
    using con by (simp add: contexts_ok_def fresh_after_def id)
  then have mono: "checkpoint_at s \<subseteq>\<^sub>m checkpoint_at s'"
    unfolding s' by (auto simp: map_le_def)
  have old: "checkpoint_linked s' d" if "checkpoint_at s k = Some d" for k d
    by (rule checkpoint_linked_evolves [OF _ evolves_complete [OF ok op] mono])
      (use con that in \<open>auto simp: contexts_ok_def\<close>)
  have conA: "context_linked s a" using con r(2) by (simp add: contexts_ok_def)
  have cl: "checkpoint_linked s' c"
  proof -
    have "run_at s' (cc_source_run_id c) = Some (completed_as result r)"
      unfolding s' using ids c by (simp add: completed_as_def)
    moreover have "case cc_previous_checkpoint_id c of None \<Rightarrow> cc_version c = 1
        | Some p \<Rightarrow> \<exists>d. checkpoint_at s' p = Some d \<and> cc_agent_id d = cc_agent_id c \<and> cc_version c = cc_version d + 1"
      using conA c mono by (fastforce simp: context_linked_def dest: map_leD split: option.splits)
    ultimately show ?thesis using c ids by (simp add: checkpoint_linked_def completed_as_def)
  qed
  have cp: "checkpoint_at s' = (checkpoint_at s)(cc_checkpoint_id c \<mapsto> c)" unfolding s' by simp
  have "context_linked s' b" if b: "agent_at s' k = Some b" for k b
  proof (cases "k = ar_agent_id r")
    case True
    then show ?thesis using b c ids unfolding s' by (auto simp: context_linked_def)
  next
    case False
    then have "agent_at s k = Some b" using b ids unfolding s' by simp
    then have "context_linked s b" using con by (simp add: contexts_ok_def)
    then show ?thesis using new unfolding context_linked_def cp by (auto split: option.splits)
  qed
  moreover have "cc_checkpoint_id d = k \<and> clean_id k \<and> 0 < cc_version d \<and> checkpoint_linked s' d" if "checkpoint_at s' k = Some d" for k d
  proof (cases "k = cc_checkpoint_id c")
    case True
    moreover have "0 \<le> an_context_version a" using ids(3) by (simp add: agent_ok_def)
    moreover have "clean_id (cc_checkpoint_id c)" using clean_numbered(3) id by simp
    ultimately show ?thesis using that cl c(1) unfolding cp by auto
  next
    case False
    then have "checkpoint_at s k = Some d" using that unfolding cp by simp
    with old [OF this] con show ?thesis by (auto simp: contexts_ok_def)
  qed
  moreover have "fresh_after ''context-'' (ts_checkpoint_sequence s') (checkpoint_at s')"
    unfolding cp using con fresh_after_next [of "''context-''" "ts_checkpoint_sequence s" "checkpoint_at s" c]
    by (simp add: contexts_ok_def id s' put_agent_def put_run_def)
  ultimately show ?thesis by (simp add: contexts_ok_def)
qed

lemma tree_react_contexts:
  assumes ok: "tree_ok s \<and> contexts_ok s" and c: "tree_cmd_ok cmd" and op: "tree_react H s cmd = Inr s'"
  shows "tree_ok s' \<and> contexts_ok s'"
proof
  show "tree_ok s'" using tree_react_ok assms by blast
  have t: "tree_ok s" using ok by simp
  show "contexts_ok s'"
  proof (cases cmd)
    case (Complete_Run i ver result content fp own ep now)
    then show ?thesis using complete_run_contexts [OF t] ok op
      by (metis Inr_inject prod.collapse tree_react.simps(9))
  qed (rule contexts_ok_kept [OF conjunct2 [OF ok] tree_react_evolves [OF t c op]],
      use c op t in \<open>auto simp: after_Inr intro: lease_ops_contexts settling_contexts creating_contexts\<close>)+
qed

interpretation run_contexts: event_machine "tree_react H" tree_cmd_ok "\<lambda>s. tree_ok s \<and> contexts_ok s" for H
  by unfold_locales (rule tree_react_contexts)

end
