(* ===== verification/Agent_Tree_Properties.thy ===== *)
theory Agent_Tree_Properties
  imports Agent_Tree_Context
begin

text \<open>
  The properties of the Run tree repository (\<open>purra/agent_tree/memory.py\<close>) over every
  sequence of calls, each with a concrete tree as its witness.
\<close>

section \<open>Derived facts\<close>

text \<open>Grants and depth along the path to an ancestor.\<close>

lemma below_narrower:
  assumes ok: "tree_ok s" and "agent_below (agent_at s) p k" and "agent_at s k = Some a" and "agent_at s p = Some b"
  shows "narrower (an_capability_grant a) (an_capability_grant b) \<and> an_root_agent_id a = an_root_agent_id b
    \<and> (k \<noteq> p \<longrightarrow> an_depth b < an_depth a \<and> an_depth a \<le> cg_max_depth (an_capability_grant b))"
  using assms(2-4) unfolding agent_below_def
proof (induction k arbitrary: a rule: converse_rtrancl_induct)
  case base
  then show ?case by simp
next
  case (step k z)
  then have "an_parent_agent_id a = Some z" by (auto simp: agent_edges_def)
  then obtain c where c: "agent_at s z = Some c" "an_depth a = an_depth c + 1" "an_root_agent_id a = an_root_agent_id c"
      "narrower (an_capability_grant a) (an_capability_grant c)" "an_depth a \<le> cg_max_depth (an_capability_grant c)"
    using node_linkedD(2) [OF tree_ok_agent(3) [OF ok step.prems(1)]] by blast
  note IH = step.IH [OF c(1) step.prems(2)]
  have n: "narrower (an_capability_grant c) (an_capability_grant b)" using IH by blast
  have "an_depth b \<le> an_depth c" using IH c(1) step.prems(2) by (cases "z = p") simp_all
  moreover have "cg_max_depth (an_capability_grant c) \<le> cg_max_depth (an_capability_grant b)"
    using n by (simp add: narrower_def)
  ultimately show ?case
    using narrower_trans [OF c(4) n] IH c(2,3,5) by simp
qed

lemma agent_below_root:
  assumes ok: "tree_ok s" and "agent_at s k = Some a"
  shows "\<exists>b. agent_at s (an_root_agent_id a) = Some b \<and> agent_below (agent_at s) (an_root_agent_id a) k"
  using assms(2)
proof (induction "nat (an_depth a)" arbitrary: k a)
  case 0
  then have "an_parent_agent_id a = None"
    using tree_ok_agent(2) [OF ok 0(2)] by (simp add: agent_ok_def)
  then show ?case
    using 0 node_linkedD(1) [OF tree_ok_agent(3) [OF ok 0(2)]] tree_ok_agent(1) [OF ok 0(2)]
    by (simp add: agent_below_def)
next
  case (Suc n)
  then obtain z where z: "an_parent_agent_id a = Some z"
    using tree_ok_agent(2) [OF ok Suc.prems] by (cases "an_parent_agent_id a") (auto simp: agent_ok_def)
  then obtain c where c: "agent_at s z = Some c" "an_depth a = an_depth c + 1" "an_root_agent_id a = an_root_agent_id c"
    using node_linkedD(2) [OF tree_ok_agent(3) [OF ok Suc.prems]] by blast
  then show ?case
    using Suc.hyps(1) [OF _ c(1)] Suc.hyps(2) z agent_below_step [of "agent_at s", OF Suc.prems, of "an_root_agent_id a"]
    by auto
qed

text \<open>Counting the entries of a dictionary.\<close>

lemma count_update:
  assumes "distinct (map fst d)" and "map_of d k = Some v"
  shows "length (filter P (dict_values (AList.update k w d))) + of_bool (P v)
    = length (filter P (dict_values d)) + of_bool (P w)"
  using assms
proof (induction d)
  case (Cons e d)
  then show ?case by (cases e) (auto split: if_splits)
qed simp

lemma active_count_put:
  assumes ok: "tree_ok s" and r: "run_at s k = Some r" "ar_run_id r' = k"
    and "\<not> (ar_root_run_id r = root \<and> ar_status r = Tree_RUNNING \<and> \<not> lease_expired r now)"
  shows "active_count (put_run r' s) root now \<le> Suc (active_count s root now)"
proof -
  have "distinct (map fst (ts_runs s))" using ok by (simp add: tree_ok_def)
  from count_update [OF this r(1), of "\<lambda>r. ar_root_run_id r = root \<and> ar_status r = Tree_RUNNING
      \<and> \<not> lease_expired r now" r'] assms(4) show ?thesis
    unfolding active_count_def put_run_def by (simp add: r(2) of_bool_def split: if_splits)
qed

lemma dependencies_terminal_eq:
  assumes ok: "tree_ok s" and r: "run_at s k = Some r"
  shows "dependencies_terminal s r = Inr (\<forall>d \<in> set (ar_dependency_run_ids r). \<exists>q. run_at s d = Some q \<and> ar_terminal q)"
proof -
  have dep: "\<exists>q. run_at s d = Some q \<and> require_run s d = Inr q" if "d \<in> set (ar_dependency_run_ids r)" for d
    using run_linkedD(4) [OF tree_ok_run(4) [OF ok r] that] require_stored(1) [OF ok] by blast
  have "any_result (\<lambda>d. bind_result (require_run s d) (\<lambda>dep. Inr (\<not> ar_terminal dep))) (ar_dependency_run_ids r)
      = Inr (\<exists>d \<in> set (ar_dependency_run_ids r). \<not> (\<exists>q. run_at s d = Some q \<and> ar_terminal q))"
    by (rule any_result_total) (use dep in fastforce)
  then show ?thesis by (simp add: dependencies_terminal_def)
qed

text \<open>The Runs a scheduler may claim.\<close>

definition runnable :: "agent_tree_state \<Rightarrow> nat \<Rightarrow> agent_tree_run \<Rightarrow> bool" where
  "runnable s now r \<longleftrightarrow> (\<forall>d \<in> set (ar_dependency_run_ids r). \<exists>q. run_at s d = Some q \<and> ar_terminal q)
     \<and> (ar_status r = Tree_QUEUED
        \<or> ar_status r = Tree_WAITING \<and> ar_lease_owner_id r = None \<and> ar_lease_epoch r > 0
        \<or> ar_status r = Tree_RUNNING \<and> lease_expired r now)"

lemma claimable_runnable:
  assumes ok: "tree_ok s" and r: "run_at s k = Some r"
  shows "runnable s now r \<longleftrightarrow> claimable_status r now \<and> dependencies_terminal s r = Inr True"
  unfolding runnable_def dependencies_terminal_eq [OF assms]
  by (auto simp: claimable_status_def lease_expired_def split: option.splits)

lemma list_runnable_eq:
  assumes ok: "tree_ok s" and "strip root \<noteq> []"
  shows "list_runnable s root now = Inr (sort_key runnable_key
    (filter (\<lambda>r. ar_root_run_id r = strip root \<and> runnable s now r) (dict_values (ts_runs s))))"
proof -
  have "filter_result (\<lambda>r. if ar_root_run_id r \<noteq> strip root then Inr False
         else bind_result (dependencies_terminal s r) (\<lambda>ready.
           Inr (ready \<and> (ar_status r = Tree_QUEUED
             \<or> ar_status r = Tree_WAITING \<and> ar_lease_owner_id r = None \<and> ar_lease_epoch r > 0
             \<or> ar_status r = Tree_RUNNING \<and> lease_expired r now)))) (dict_values (ts_runs s))
      = Inr (filter (\<lambda>r. ar_root_run_id r = strip root \<and> runnable s now r) (dict_values (ts_runs s)))"
  proof (rule filter_result_total)
    fix r assume "r \<in> set (dict_values (ts_runs s))"
    then obtain k where "run_at s k = Some r" using ok tree_ok_values(1) by blast
    then show "(if ar_root_run_id r \<noteq> strip root then Inr False
         else bind_result (dependencies_terminal s r) (\<lambda>ready.
           Inr (ready \<and> (ar_status r = Tree_QUEUED
             \<or> ar_status r = Tree_WAITING \<and> ar_lease_owner_id r = None \<and> ar_lease_epoch r > 0
             \<or> ar_status r = Tree_RUNNING \<and> lease_expired r now))))
        = Inr (ar_root_run_id r = strip root \<and> runnable s now r)"
      using dependencies_terminal_eq [OF ok] by (simp add: runnable_def)
  qed
  then show ?thesis using assms(2) by (simp add: list_runnable_def required_text_def)
qed

lemma tree_ok_rows_distinct:
  assumes ok: "tree_ok s"
  shows "distinct (dict_values (ts_runs s))"
proof -
  have "ar_run_id (snd e) = fst e" if "e \<in> set (ts_runs s)" for e
    using that ok tree_ok_run(1) [OF ok, of "fst e" "snd e"] by (simp add: tree_ok_def)
  then have "map ar_run_id (dict_values (ts_runs s)) = map fst (ts_runs s)" by simp
  then show ?thesis using ok by (metis distinct_map tree_ok_def)
qed

text \<open>Among queued siblings none of which is under way, one is not blocked.\<close>

lemma some_queued_runnable:
  assumes ok: "tree_ok s" and r: "run_at s k = Some r" "ar_parent_run_id r = Some p" "ar_status r = Tree_QUEUED"
    and idle: "\<And>l q. run_at s l = Some q \<Longrightarrow> ar_parent_run_id q = Some p \<Longrightarrow> ar_status q \<notin> {Tree_RUNNING, Tree_WAITING}"
  shows "\<exists>l q. run_at s l = Some q \<and> ar_parent_run_id q = Some p \<and> runnable s now q"
proof -
  let ?Q = "{l. \<exists>q. run_at s l = Some q \<and> ar_parent_run_id q = Some p \<and> ar_status q = Tree_QUEUED}"
  have "wf (dependency_edges (run_at s))" using ok by (simp add: tree_ok_def)
  moreover have "k \<in> ?Q" using r by blast
  ultimately obtain l where l: "l \<in> ?Q" "\<And>d. (d, l) \<in> dependency_edges (run_at s) \<Longrightarrow> d \<notin> ?Q"
    by (rule wfE_min) blast
  then obtain q where q: "run_at s l = Some q" "ar_parent_run_id q = Some p" "ar_status q = Tree_QUEUED" by blast
  have "\<exists>z. run_at s d = Some z \<and> ar_terminal z" if d: "d \<in> set (ar_dependency_run_ids q)" for d
  proof -
    from run_linkedD(4) [OF tree_ok_run(4) [OF ok q(1)] d] obtain z where z: "run_at s d = Some z" "ar_parent_run_id z = Some p"
      using q(2) by auto
    have "(d, l) \<in> dependency_edges (run_at s)" using q(1) d by (auto simp: dependency_edges_def)
    then have "d \<notin> ?Q" by (rule l(2))
    with z idle [OF z] show ?thesis by (cases "ar_status z") (auto simp: ar_terminal_status)
  qed
  with q show ?thesis by (auto simp: runnable_def)
qed

text \<open>The checkpoints of an Agent, newest first.\<close>

fun context_history :: "nat \<Rightarrow> agent_tree_state \<Rightarrow> string option \<Rightarrow> context_checkpoint list" where
  "context_history 0 s p = []"
| "context_history (Suc n) s p = (case p of None \<Rightarrow> [] | Some i \<Rightarrow>
     (case get_checkpoint s i of Inl e \<Rightarrow> [] | Inr c \<Rightarrow> c # context_history n s (cc_previous_checkpoint_id c)))"

lemma context_history_versions:
  assumes ok: "contexts_ok s" and "checkpoint_at s p = Some c" and "nat (cc_version c) \<le> n"
  shows "map cc_version (context_history n s (Some p)) = rev [1..cc_version c]
    \<and> (\<forall>d \<in> set (context_history n s (Some p)). cc_agent_id d = cc_agent_id c)"
  using assms(2,3)
proof (induction n arbitrary: p c)
  case 0
  then show ?case using ok by (force simp: contexts_ok_def)
next
  case (Suc n)
  have link: "checkpoint_linked s c" and pos: "0 < cc_version c" and clean: "clean_id p"
    using ok Suc.prems(1) by (auto simp: contexts_ok_def)
  have get: "get_checkpoint s p = Inr c"
    using clean Suc.prems(1) by (simp add: get_checkpoint_def required_text_def clean_id_def)
  show ?case
  proof (cases "cc_previous_checkpoint_id c")
    case None
    then have "cc_version c = 1" using link by (simp add: checkpoint_linked_def)
    then show ?thesis using None get by (cases n) simp_all
  next
    case (Some z)
    then obtain d where d: "checkpoint_at s z = Some d" "cc_agent_id d = cc_agent_id c" "cc_version c = cc_version d + 1"
      using link by (auto simp: checkpoint_linked_def)
    have "rev [1..cc_version c] = cc_version c # rev [1..cc_version d]"
      using pos d(3) upto_rec2 [of 1 "cc_version c"] by simp
    then show ?thesis using Some get d Suc.IH [OF d(1)] Suc.prems(2) by simp
  qed
qed

lemma validate_stored_runs_ok:
  assumes ok: "tree_ok s" and "set part \<subseteq> set (ts_runs s)"
  shows "validate_stored_runs (ts_runs s) part = Inr ()"
  using assms(2)
proof (induction part)
  case (Cons e part)
  obtain k r where e: "e = (k, r)" by (cases e)
  have "run_at s k = Some r" using Cons.prems ok by (simp add: e tree_ok_def)
  note f = tree_ok_run [OF ok this]
  have "list_all (stored_dependency_ok (ts_runs s) r) (ar_dependency_run_ids r)"
    using run_linkedD(4) [OF f(4)] by (fastforce simp: list_all_iff stored_dependency_ok_def)
  with Cons f(1) show ?case by (simp add: e)
qed simp

lemma validate_stored_ok:
  assumes ok: "tree_ok s"
  shows "validate_stored_dependencies (ts_runs s) = Inr ()"
proof -
  let ?g = "map (\<lambda>(identity, r). (identity, ar_dependency_run_ids r)) (ts_runs s)"
  have "graph_edges ?g \<subseteq> dependency_edges (run_at s)"
    using ok by (auto simp: graph_edges_def dependency_edges_def tree_ok_def)
  moreover have "wf (dependency_edges (run_at s))" using ok by (simp add: tree_ok_def)
  ultimately have "acyclic (graph_edges ?g)" by (meson wf_acyclic wf_subset)
  then show ?thesis
    using validate_stored_runs_ok [OF ok, of "ts_runs s"] by (simp add: validate_stored_dependencies_def has_cycle_iff)
qed

section \<open>A sample tree\<close>

text \<open>A root that spawns two children, the second depending on the first, one of them claimed.\<close>

definition sample_hash :: "json \<Rightarrow> string" where
  "sample_hash j = ''digest''"

definition sample_grant :: agent_capability_grant where
  "sample_grant = \<lparr>cg_can_spawn_agents = True, cg_max_depth = 2, cg_max_children_per_call = 2,
     cg_max_agents_per_root = 4, cg_max_parallel_runs = 2, cg_allowed_tools = [''web''], cg_allowed_models = [''m'']\<rparr>"

definition sample_begin :: begin_root_agent_command where
  "sample_begin = \<lparr>br_run_id = ''root-run'', br_agent_id = ''root'', br_name = ''root'', br_title = ''Root'',
     br_instruction = ''lead'', br_objective = ''goal'', br_capability_grant = sample_grant, br_idempotency_key = ''k0''\<rparr>"

definition sample_child :: "string \<Rightarrow> string list \<Rightarrow> child_agent_spec" where
  "sample_child name deps = \<lparr>sp_name = name, sp_title = name, sp_instruction = ''help'', sp_objective = ''part'',
     sp_input_payload = [], sp_required = True, sp_priority = 0,
     sp_capability_grant = Some (sample_grant\<lparr>cg_can_spawn_agents := False\<rparr>), sp_depends_on = deps\<rparr>"

definition sample_spawn :: spawn_agents_command where
  "sample_spawn = \<lparr>sc_parent_run_id = ''root-run'', sc_idempotency_key = ''k1'',
     sc_children = [sample_child ''a'' [], sample_child ''b'' [''a'']],
     sc_lease_owner_id = None, sc_lease_epoch = None\<rparr>"

definition sample_cmds :: "tree_cmd list" where
  "sample_cmds = [Begin_Root sample_begin, Spawn_Agents sample_spawn 0]"

definition sample_tree :: agent_tree_state where
  "sample_tree = drive (tree_react sample_hash) (empty_tree 0) sample_cmds"

lemma sample_cmds_ok: "list_all tree_cmd_ok sample_cmds"
  by code_simp

lemma sample_tree_ok: "tree_ok sample_tree"
  unfolding sample_tree_def by (rule run_tree.drive_inv [OF tree_ok_empty sample_cmds_ok])

lemma sample_tree_runs: "map fst (ts_runs sample_tree) = [''root-run'', ''agent-run-1'', ''agent-run-2'']"
  by code_simp

definition sample_claimed :: agent_tree_state where
  "sample_claimed = drive (tree_react sample_hash) sample_tree [Claim_Run ''agent-run-1'' ''w1'' 10 0]"

lemma sample_claimed_ok: "tree_ok sample_claimed"
  unfolding sample_claimed_def by (rule run_tree.drive_inv [OF sample_tree_ok]) simp

text \<open>\<open>suspend_run\<close> looks the Run up under the stripped identity and stores it under the identity as passed.\<close>

lemma suspend_run_well_formed:
  assumes "tree_ok s" and "suspend_run s run_id own ep now = Inr (r, s')"
  shows "tree_ok s' = (strip run_id = run_id)"
proof
  obtain q where q: "run_at s (strip run_id) = Some q"
      "r = q\<lparr>ar_status := Tree_WAITING, ar_lease_owner_id := None, ar_lease_expires_at_ms := None\<rparr>"
      "s' = s\<lparr>ts_runs := AList.update run_id r (ts_runs s)\<rparr>"
    using suspend_run_cases [OF assms] by blast
  show "strip run_id = run_id" if "tree_ok s'"
    using tree_ok_run(1) [OF that, of run_id r] tree_ok_run(1) [OF assms(1) q(1)] q(2,3) by (simp add: update_conv')
qed (use lease_ops_ok [OF assms(1)] assms(2) in blast)

section \<open>Properties\<close>

text \<open>C8. The repository stays well formed under every sequence of admissible calls, refused ones
  included: stored values are normalized, parents and sibling dependencies exist in the same tree,
  dependencies are acyclic, grants narrow towards the leaves, every Agent has at most one active
  Run and only running or waiting Runs hold a lease. Admissible are calls whose commands are values that
  their constructors returned, except that a host that begins a root keeps away from the identities
  \<open>agent-n\<close> and \<open>agent-run-n\<close> which the repository generates, and that \<open>suspend_run\<close> is given an identity
  without surrounding blanks. The second exception is exact: in every reachable state, a \<open>suspend_run\<close>
  that succeeds keeps the repository well formed if and only if its identity has no surrounding blanks.\<close>

theorem run_tree_invariant:
  assumes "list_all tree_cmd_ok cmds" and "s = drive (tree_react H) (empty_tree n) cmds"
  shows "tree_ok s \<and> (\<forall>run_id own ep now r s'. suspend_run s run_id own ep now = Inr (r, s') \<longrightarrow> tree_ok s' = (strip run_id = run_id))"
  using run_tree.drive_inv [OF tree_ok_empty assms(1)] suspend_run_well_formed unfolding assms(2) by blast

theorem run_tree_invariant_witness:
  "tree_ok sample_claimed
   \<and> (\<exists>r s'. suspend_run sample_claimed ''agent-run-1'' ''w1'' 1 5 = Inr (r, s') \<and> tree_ok s')
   \<and> (\<exists>r s'. suspend_run sample_claimed '' agent-run-1'' ''w1'' 1 5 = Inr (r, s') \<and> \<not> tree_ok s')"
proof -
  have c: "list_all tree_cmd_ok (sample_cmds @ [Claim_Run ''agent-run-1'' ''w1'' 10 0])" by code_simp
  have e: "sample_claimed = drive (tree_react sample_hash) (empty_tree 0) (sample_cmds @ [Claim_Run ''agent-run-1'' ''w1'' 10 0])"
    unfolding sample_claimed_def sample_tree_def by (simp add: drive_append)
  have "isl (suspend_run sample_claimed ''agent-run-1'' ''w1'' 1 5) = False" "isl (suspend_run sample_claimed '' agent-run-1'' ''w1'' 1 5) = False"
    by code_simp+
  then obtain p q where "suspend_run sample_claimed ''agent-run-1'' ''w1'' 1 5 = Inr p" "suspend_run sample_claimed '' agent-run-1'' ''w1'' 1 5 = Inr q"
    by (metis sum.collapse(2))
  moreover have "strip ''agent-run-1'' = ''agent-run-1''" "strip '' agent-run-1'' \<noteq> '' agent-run-1''" by code_simp+
  ultimately show ?thesis using run_tree_invariant [OF c e] by (cases p; cases q) metis
qed

text \<open>A storage backend that reloads the Runs of any reachable repository state passes them
  through \<open>validate_stored_dependencies\<close>; that check never refuses them.\<close>

theorem stored_runs_reload:
  assumes "list_all tree_cmd_ok cmds"
  shows "validate_stored_dependencies (ts_runs (drive (tree_react H) (empty_tree n) cmds)) = Inr ()"
  by (rule validate_stored_ok [OF run_tree.drive_inv [OF tree_ok_empty assms]])

theorem stored_runs_reload_witness:
  "validate_stored_dependencies (ts_runs (drive (tree_react sample_hash) (empty_tree 0) sample_cmds)) = Inr ()"
  by (rule stored_runs_reload [OF sample_cmds_ok])

text \<open>C9. A claim fences every earlier lease: once a Run has been claimed, a caller that presents an
  epoch from before the claim is refused with \<open>agent_run_lease_lost\<close> after any further calls.\<close>

theorem claim_fences_old_epochs:
  assumes "tree_ok s" and "claim_run s run_id owner duration now = Inr (Some c, s')"
    and "list_all tree_cmd_ok cmds" and "0 \<le> e" and "e < ar_lease_epoch c"
  shows "\<exists>msg. require_run_claim (drive (tree_react H) s' cmds) run_id own (Some e) later
    = Inl (ContractViolation ''agent_run_lease_lost'' msg)"
proof -
  obtain r where r: "run_at s (strip run_id) = Some r" "c = r\<lparr>ar_status := Tree_RUNNING, ar_lease_owner_id := Some (strip owner),
        ar_lease_epoch := ar_lease_epoch r + 1, ar_lease_expires_at_ms := Some (int now + duration)\<rparr>" "s' = put_run c s"
    using claim_run_cases [OF assms(1,2)] by auto
  let ?t = "drive (tree_react H) s' cmds"
  have ok': "tree_ok s'" by (rule lease_ops_ok(1) [OF assms(1,2)])
  have "run_at s' (strip run_id) = Some c" using r tree_ok_run(1) [OF assms(1) r(1)] by simp
  then obtain q where q: "run_at ?t (strip run_id) = Some q" "ar_lease_epoch c \<le> ar_lease_epoch q"
    using evolves_run [OF run_tree_progress.drive_leads [OF ok' assms(3)]] by blast
  have "strip run_id \<noteq> []"
    using tree_ok_clean(1) [OF assms(1) r(1)] by (simp add: clean_id_def)
  then have "require_run ?t run_id = Inr q" using q(1) by (simp add: result_simps)
  then show ?thesis
    using q(2) assms(4,5)
    by (auto simp: require_run_claim_def require_claim_def optional_non_negative_int_def non_negative_int_def Let_def)
qed

text \<open>The lease of the first worker has expired; a second one takes over.\<close>

definition sample_reclaim :: "agent_tree_run option \<times> agent_tree_state" where
  "sample_reclaim = (case claim_run sample_claimed ''agent-run-1'' ''w2'' 10 20 of Inr c \<Rightarrow> c | Inl _ \<Rightarrow> (None, sample_claimed))"

lemma sample_reclaim_eq:
  "claim_run sample_claimed ''agent-run-1'' ''w2'' 10 20 = Inr (Some (the (fst sample_reclaim)), snd sample_reclaim)"
  "ar_lease_epoch (the (fst sample_reclaim)) = 2"
  by code_simp+

theorem claim_fences_old_epochs_witness:
  "\<exists>msg. require_run_claim (drive (tree_react sample_hash) (snd sample_reclaim) [Suspend_Run ''agent-run-1'' ''w1'' 1 21])
     ''agent-run-1'' (Some ''w1'') (Some 1) 22 = Inl (ContractViolation ''agent_run_lease_lost'' msg)"
  by (rule claim_fences_old_epochs [OF sample_claimed_ok sample_reclaim_eq(1)])
    (code_simp, simp_all add: sample_reclaim_eq(2))

text \<open>C10. A successful claim respects the tree: its dependencies are terminal, the Run is running under
  the claimed lease with the next epoch, and the running Runs of its root stay within the root
  Agent's \<open>max_parallel_runs\<close>.\<close>

theorem claim_within_capacity:
  assumes "tree_ok s" and "claim_run s run_id owner duration now = Inr (Some c, s')"
  shows "\<exists>r root. run_at s (strip run_id) = Some r \<and> run_at s' (strip run_id) = Some c
    \<and> (\<forall>d \<in> set (ar_dependency_run_ids c). \<exists>q. run_at s' d = Some q \<and> ar_terminal q)
    \<and> ar_status c = Tree_RUNNING \<and> ar_lease_owner_id c = Some (strip owner)
    \<and> ar_lease_epoch c = ar_lease_epoch r + 1 \<and> ar_lease_expires_at_ms c = Some (int now + duration)
    \<and> (\<exists>q. run_at s' (ar_root_run_id c) = Some q \<and> agent_at s' (ar_agent_id q) = Some root)
    \<and> int (active_count s' (ar_root_run_id c) now) \<le> cg_max_parallel_runs (an_capability_grant root)"
proof -
  obtain r root q where r: "run_at s (strip run_id) = Some r" "claimable_status r now"
      "dependencies_terminal s r = Inr True" "run_at s (ar_root_run_id r) = Some q" "agent_at s (ar_agent_id q) = Some root"
      "int (active_count s (ar_root_run_id r) now) < cg_max_parallel_runs (an_capability_grant root)"
      and c: "c = r\<lparr>ar_status := Tree_RUNNING, ar_lease_owner_id := Some (strip owner),
        ar_lease_epoch := ar_lease_epoch r + 1, ar_lease_expires_at_ms := Some (int now + duration)\<rparr>" "s' = put_run c s"
    using claim_run_cases [OF assms] by auto
  note id = tree_ok_run(1) [OF assms(1) r(1)]
  have act: "\<not> ar_terminal r" using r(2) by (auto simp: claimable_status_def ar_terminal_status)
  have "active_count s' (ar_root_run_id r) now \<le> Suc (active_count s (ar_root_run_id r) now)"
    unfolding c(2) by (rule active_count_put [OF assms(1) r(1)])
      (use c(1) id r(2) in \<open>auto simp: claimable_status_def lease_expired_def split: option.splits\<close>)
  moreover have "\<exists>q'. run_at s' (ar_root_run_id r) = Some q' \<and> ar_agent_id q' = ar_agent_id q"
    using r(1,4) c id by (auto simp: c)
  moreover have "\<forall>d \<in> set (ar_dependency_run_ids r). \<exists>p. run_at s d = Some p \<and> ar_terminal p"
    using r(3) dependencies_terminal_eq [OF assms(1) r(1)] by simp
  then have "\<forall>d \<in> set (ar_dependency_run_ids r). \<exists>p. run_at s' d = Some p \<and> ar_terminal p"
    using act r(1) c id by auto
  ultimately show ?thesis
    using r c id by (intro exI [of _ r] exI [of _ root]) auto
qed

theorem claim_within_capacity_witness:
  "\<exists>r root. run_at sample_claimed (strip ''agent-run-1'') = Some r
    \<and> run_at (snd sample_reclaim) (strip ''agent-run-1'') = Some (the (fst sample_reclaim))
    \<and> (\<forall>d \<in> set (ar_dependency_run_ids (the (fst sample_reclaim))).
        \<exists>q. run_at (snd sample_reclaim) d = Some q \<and> ar_terminal q)
    \<and> ar_status (the (fst sample_reclaim)) = Tree_RUNNING
    \<and> ar_lease_owner_id (the (fst sample_reclaim)) = Some (strip ''w2'')
    \<and> ar_lease_epoch (the (fst sample_reclaim)) = ar_lease_epoch r + 1
    \<and> ar_lease_expires_at_ms (the (fst sample_reclaim)) = Some (int 20 + 10)
    \<and> (\<exists>q. run_at (snd sample_reclaim) (ar_root_run_id (the (fst sample_reclaim))) = Some q
        \<and> agent_at (snd sample_reclaim) (ar_agent_id q) = Some root)
    \<and> int (active_count (snd sample_reclaim) (ar_root_run_id (the (fst sample_reclaim))) 20)
      \<le> cg_max_parallel_runs (an_capability_grant root)"
  by (rule claim_within_capacity [OF sample_claimed_ok sample_reclaim_eq(1)])

text \<open>C11. No Agent ever holds more than its ancestors. After any sequence of admissible calls from the empty
  repository, whatever grants the spawn commands ask for: along every chain up to the root Agent, tools,
  models and limits only narrow, and the depth of an Agent stays within what every ancestor allows.\<close>

theorem grants_only_narrow:
  assumes "list_all tree_cmd_ok cmds" and "s = drive (tree_react H) (empty_tree n) cmds" and "agent_at s k = Some a"
  shows "\<exists>root. agent_at s (an_root_agent_id a) = Some root \<and> is_ancestor s (an_root_agent_id a) k = Inr True
    \<and> narrower (an_capability_grant a) (an_capability_grant root)
    \<and> (\<forall>p b. agent_at s p = Some b \<longrightarrow> is_ancestor s p k = Inr True \<longrightarrow>
         narrower (an_capability_grant a) (an_capability_grant b)
         \<and> (k \<noteq> p \<longrightarrow> an_depth a \<le> cg_max_depth (an_capability_grant b)))"
proof -
  have ok: "tree_ok s" unfolding assms(2) by (rule run_tree.drive_inv [OF tree_ok_empty assms(1)])
  obtain root where root: "agent_at s (an_root_agent_id a) = Some root" "agent_below (agent_at s) (an_root_agent_id a) k"
    using agent_below_root [OF ok assms(3)] by blast
  have "narrower (an_capability_grant a) (an_capability_grant b)
         \<and> (k \<noteq> p \<longrightarrow> an_depth a \<le> cg_max_depth (an_capability_grant b))"
    if "agent_at s p = Some b" "agent_below (agent_at s) p k" for p b
    using below_narrower [OF ok that(2) assms(3) that(1)] by blast
  with root show ?thesis using is_ancestor_correct [OF ok assms(3)] by auto
qed

theorem grants_only_narrow_witness:
  "\<exists>root. agent_at sample_tree ''root'' = Some root \<and> is_ancestor sample_tree ''root'' ''agent-2'' = Inr True
    \<and> narrower (sample_grant\<lparr>cg_can_spawn_agents := False\<rparr>) (an_capability_grant root)
    \<and> an_depth (the (agent_at sample_tree ''agent-2'')) \<le> cg_max_depth (an_capability_grant root)"
proof -
  have a: "agent_at sample_tree ''agent-2'' = Some (the (agent_at sample_tree ''agent-2''))"
    "an_root_agent_id (the (agent_at sample_tree ''agent-2'')) = ''root''"
    "an_capability_grant (the (agent_at sample_tree ''agent-2'')) = sample_grant\<lparr>cg_can_spawn_agents := False\<rparr>"
    by code_simp+
  show ?thesis using grants_only_narrow [OF sample_cmds_ok sample_tree_def a(1)] a(2,3) by auto
qed

text \<open>C12. Spawning is idempotent for good: after any further calls, the same command returns the stored
  receipt marked as replayed and changes nothing, and the same key with other children is refused.\<close>

theorem spawn_is_idempotent:
  assumes "tree_ok s" and "spawn_cmd_ok c" and "spawn_agents H s c now = Inr (receipt, s')"
    and "list_all tree_cmd_ok cmds"
    and "sc_parent_run_id d = sc_parent_run_id c" and "sc_idempotency_key d = sc_idempotency_key c"
  shows "spawn_agents H (drive (tree_react H) s' cmds) d later =
    (if spawn_digest H d = spawn_digest H c
     then Inr (receipt\<lparr>sr_replayed := True\<rparr>, drive (tree_react H) s' cmds)
     else Inl (ContractViolation ''child_spawn_idempotency_conflict'' ''spawn key was reused with different input''))"
proof -
  let ?key = "(sc_parent_run_id c, sc_idempotency_key c)"
  obtain rc where rc: "map_of (ts_spawn_receipts s') ?key = Some (spawn_digest H c, rc)"
      "rc\<lparr>sr_replayed := True\<rparr> = receipt\<lparr>sr_replayed := True\<rparr>"
    using spawn_agents_cases [OF assms(1-3)] by (elim disjE exE conjE) auto
  have "tree_ok s'" by (rule spawn_agents_ok [OF assms(1-3)])
  then have "map_of (ts_spawn_receipts s') \<subseteq>\<^sub>m map_of (ts_spawn_receipts (drive (tree_react H) s' cmds))"
    using run_tree_progress.drive_leads [OF _ assms(4)] by (simp add: evolves_def)
  from map_leD [OF this rc(1)] show ?thesis
    using rc(2) assms(5,6) by (auto simp: spawn_agents_def Let_def)
qed

definition sample_root :: agent_tree_state where
  "sample_root = drive (tree_react sample_hash) (empty_tree 0) [Begin_Root sample_begin]"

definition sample_receipt :: "spawn_agents_receipt \<times> agent_tree_state" where
  "sample_receipt = (case spawn_agents sample_hash sample_root sample_spawn 0 of Inr x \<Rightarrow> x | Inl e \<Rightarrow> undefined)"

lemma sample_receipt_eq:
  "spawn_agents sample_hash sample_root sample_spawn 0 = Inr (fst sample_receipt, snd sample_receipt)"
  by code_simp

lemma sample_root_ok: "tree_ok sample_root"
  unfolding sample_root_def by (rule run_tree.drive_inv [OF tree_ok_empty]) code_simp

theorem spawn_is_idempotent_witness:
  "spawn_agents sample_hash (drive (tree_react sample_hash) (snd sample_receipt) [Cancel_Subtree ''root-run'']) sample_spawn 9
     = Inr ((fst sample_receipt)\<lparr>sr_replayed := True\<rparr>,
         drive (tree_react sample_hash) (snd sample_receipt) [Cancel_Subtree ''root-run''])"
proof -
  have c: "spawn_cmd_ok sample_spawn" by code_simp
  show ?thesis
    using spawn_is_idempotent [OF sample_root_ok c sample_receipt_eq, of "[Cancel_Subtree ''root-run'']" sample_spawn 9] by simp
qed

text \<open>A Run that is done, failed or canceled is never touched again, and an Agent that is closed stays
  exactly as it was, whatever calls follow.\<close>

theorem settled_runs_are_final:
  assumes "tree_ok s" and "list_all tree_cmd_ok cmds"
  shows "(\<forall>k r. run_at s k = Some r \<longrightarrow> ar_terminal r \<longrightarrow> run_at (drive (tree_react H) s cmds) k = Some r)
    \<and> (\<forall>k a. agent_at s k = Some a \<longrightarrow> an_state a = Node_CLOSED
        \<longrightarrow> agent_at (drive (tree_react H) s cmds) k = Some a)"
proof -
  note ev = run_tree_progress.drive_leads [OF assms, of H]
  have "run_at (drive (tree_react H) s cmds) k = Some r" if "run_at s k = Some r" "ar_terminal r" for k r
    using evolves_run [OF ev that(1)] that(2) by metis
  moreover have "agent_at (drive (tree_react H) s cmds) k = Some a" if "agent_at s k = Some a" "an_state a = Node_CLOSED" for k a
    using evolves_agent [OF ev that(1)] that(2) by metis
  ultimately show ?thesis by blast
qed

definition sample_settled :: agent_tree_state where
  "sample_settled = drive (tree_react sample_hash) sample_tree [Cancel_Subtree ''agent-run-1'']"

theorem settled_runs_are_final_witness:
  "run_at (drive (tree_react sample_hash) sample_settled [Claim_Run ''agent-run-1'' ''w'' 5 0, Fail_Run ''root-run'' ''x'' None None 0])
     ''agent-run-1'' = run_at sample_settled ''agent-run-1''
   \<and> map_option ar_status (run_at sample_settled ''agent-run-1'') = Some Tree_CANCELED"
proof -
  have ok: "tree_ok sample_settled"
    unfolding sample_settled_def by (rule run_tree.drive_inv [OF sample_tree_ok]) simp
  have r: "run_at sample_settled ''agent-run-1'' = Some (the (run_at sample_settled ''agent-run-1''))"
    "ar_terminal (the (run_at sample_settled ''agent-run-1''))"
    "map_option ar_status (run_at sample_settled ''agent-run-1'') = Some Tree_CANCELED"
    by code_simp+
  show ?thesis
    using settled_runs_are_final [OF ok, of "[Claim_Run ''agent-run-1'' ''w'' 5 0, Fail_Run ''root-run'' ''x'' None None 0]" sample_hash]
      r by auto
qed

text \<open>C13. A Run completes only for the holder of its lease, against the current context version and with
  every Run it caused settled; then it is done with the given result, its lease is gone, and its
  Agent's context version moves up by one to a checkpoint this Run wrote.\<close>

theorem complete_run_requires_quiescence:
  assumes "tree_ok s" and "complete_run s run_id expected result content_ref fingerprint own ep now = (s', Inr done_run)"
  shows "\<exists>r a c. run_at s (strip run_id) = Some r \<and> ar_status r = Tree_RUNNING \<and> require_claim r own ep now = Inr ()
    \<and> (\<forall>k q. run_at s k = Some q \<longrightarrow> causal_below (run_at s) (strip run_id) k \<longrightarrow> ar_terminal q)
    \<and> agent_at s (ar_agent_id r) = Some a \<and> an_context_version a = expected
    \<and> run_at s' (strip run_id) = Some done_run \<and> ar_status done_run = Tree_DONE \<and> ar_result done_run = result
    \<and> ar_lease_owner_id done_run = None
    \<and> agent_at s' (ar_agent_id r) = Some (a\<lparr>an_context_version := expected + 1,
        an_context_checkpoint_id := Some (cc_checkpoint_id c)\<rparr>)
    \<and> map_of (ts_checkpoints s') (cc_checkpoint_id c) = Some c \<and> cc_version c = expected + 1
    \<and> cc_source_run_id c = strip run_id \<and> cc_previous_checkpoint_id c = an_context_checkpoint_id a"
proof -
  obtain r a c where adm: "complete_admission s run_id expected own ep now = Inr (r, a)"
      and res: "done_run = completed_as result r"
      and c: "cc_version c = an_context_version a + 1" "cc_source_run_id c = ar_run_id r"
        "cc_previous_checkpoint_id c = an_context_checkpoint_id a"
      and s': "s' = put_agent (a\<lparr>an_context_version := an_context_version a + 1,
             an_context_checkpoint_id := Some (cc_checkpoint_id c)\<rparr>)
           ((put_run (completed_as result r) (s\<lparr>ts_checkpoint_sequence := Suc (ts_checkpoint_sequence s)\<rparr>))
             \<lparr>ts_checkpoints := AList.update (cc_checkpoint_id c) c (ts_checkpoints s)\<rparr>)"
    using complete_run_cases [OF assms] by auto
  have f: "run_at s (strip run_id) = Some r" "ar_status r = Tree_RUNNING" "require_claim r own ep now = Inr ()"
      "\<And>k q. run_at s k = Some q \<Longrightarrow> ar_root_run_id q = ar_root_run_id r
          \<Longrightarrow> causal_below (run_at s) (ar_run_id r) k \<Longrightarrow> ar_terminal q"
      "agent_at s (ar_agent_id r) = Some a" "an_context_version a = expected"
    using adm complete_admission_Inr [OF assms(1)] by simp_all
  note ids = tree_ok_run(1) [OF assms(1) f(1)] tree_ok_agent(1) [OF assms(1) f(5)]
  have "ar_terminal q" if "run_at s k = Some q" "causal_below (run_at s) (strip run_id) k" for k q
    using f(4) [OF that(1)] causal_below_created [OF assms(1) that(2)] that f(1) ids by auto
  then show ?thesis
    using f c ids res unfolding s'
    by (intro exI [of _ r] exI [of _ a] exI [of _ c]) (auto simp: completed_as_def)
qed

definition sample_finished :: "agent_tree_state \<times> agent_tree_run result" where
  "sample_finished = complete_run (drive (tree_react sample_hash) sample_settled [Claim_Run ''agent-run-2'' ''w'' 9 0])
     ''agent-run-2'' 0 (JInt 7) ''ref'' ''fp'' (Some ''w'') (Some 1) 5"

theorem complete_run_requires_quiescence_witness:
  "\<exists>a c. agent_at (fst sample_finished) ''agent-2'' = Some a \<and> an_context_version a = 1
     \<and> map_of (ts_checkpoints (fst sample_finished)) (cc_checkpoint_id c) = Some c \<and> cc_source_run_id c = ''agent-run-2''"
proof -
  let ?s = "drive (tree_react sample_hash) sample_settled [Claim_Run ''agent-run-2'' ''w'' 9 0]"
  have ok: "tree_ok ?s" unfolding sample_settled_def
    by (intro run_tree.drive_inv sample_tree_ok) simp_all
  have r: "complete_run ?s ''agent-run-2'' 0 (JInt 7) ''ref'' ''fp'' (Some ''w'') (Some 1) 5
      = (fst sample_finished, Inr (projr (snd sample_finished)))" "strip ''agent-run-2'' = ''agent-run-2''"
      "map_option ar_agent_id (run_at ?s ''agent-run-2'') = Some ''agent-2''"
    by code_simp+
  from complete_run_requires_quiescence [OF ok r(1)] show ?thesis unfolding r(2) using r(3) by auto
qed

text \<open>A Run that fails takes exactly its active causal descendants with it: they are canceled with
  \<open>ancestor_run_failed\<close>, every other Run and all Agents stay as they were.\<close>

theorem fail_run_cancels_descendants:
  assumes "tree_ok s" and "run_at s (strip run_id) = Some r" and "ar_active r"
    and "require_claim r own ep now = Inr ()" and "strip err \<noteq> []"
  shows "\<exists>s'. fail_run s run_id err own ep now = Inr (failed_as (strip err) r, s') \<and> ts_agents s' = ts_agents s
    \<and> (\<forall>k q. run_at s k = Some q \<longrightarrow> run_at s' k = Some
        (if k = strip run_id then failed_as (strip err) r
         else if ar_active q \<and> is_causal_descendant s (strip run_id) k = Inr True
         then canceled_as ''ancestor_run_failed'' q else q))"
proof -
  have "strip run_id \<noteq> []" using tree_ok_clean(1) [OF assms(1,2)] by (simp add: clean_id_def)
  from fail_run_eq [OF assms(1,2) this assms(3-5)] obtain s' where
      s': "fail_run s run_id err own ep now = Inr (failed_as (strip err) r, s')" "s' = s\<lparr>ts_runs := ts_runs s'\<rparr>"
        "\<And>k. run_at s' k = (case run_at s k of None \<Rightarrow> None | Some q \<Rightarrow> Some
         (if k = strip run_id then failed_as (strip err) r
          else if ar_active q \<and> causal_below (run_at s) (strip run_id) k
          then canceled_as ''ancestor_run_failed'' q else q))"
    by (elim exE conjE) blast
  have "ts_agents s' = ts_agents s" by (subst s'(2)) simp
  then show ?thesis
    using s'(1,3) is_causal_descendant_correct [OF assms(1)] by (intro exI [of _ s']) auto
qed

theorem fail_run_cancels_descendants_witness:
  "\<exists>s'. fail_run sample_tree ''root-run'' ''boom'' None None 3
      = Inr (failed_as (strip ''boom'') (the (run_at sample_tree ''root-run'')), s')
    \<and> map_option ar_error_code (run_at s' ''agent-run-2'') = Some (Some ''ancestor_run_failed'')"
proof -
  have r: "run_at sample_tree (strip ''root-run'') = Some (the (run_at sample_tree ''root-run''))"
    "ar_active (the (run_at sample_tree ''root-run''))" "require_claim (the (run_at sample_tree ''root-run'')) None None 3 = Inr ()"
    "strip ''boom'' \<noteq> []" by code_simp+
  have q: "run_at sample_tree ''agent-run-2'' = Some (the (run_at sample_tree ''agent-run-2''))"
    "ar_active (the (run_at sample_tree ''agent-run-2''))"
    "is_causal_descendant sample_tree (strip ''root-run'') ''agent-run-2'' = Inr True" "''agent-run-2'' \<noteq> strip ''root-run''"
    by code_simp+
  from fail_run_cancels_descendants [OF sample_tree_ok r] q show ?thesis
    by (force simp: canceled_as_def)
qed

text \<open>C14. Cancelling a Run always returns: its work list empties within as many visits as Runs are
  stored. It cancels exactly the active Runs of the subtree, so nothing in it is active afterwards.\<close>

theorem cancel_subtree_settles:
  assumes "tree_ok s" and "run_at s (strip run_id) = Some r"
  shows "\<exists>ids s'. cancel_subtree s run_id = Inr (ids, s') \<and> distinct ids
    \<and> set ids = {k. k \<in> subtree (run_at s) (strip run_id) \<and> (\<exists>q. run_at s k = Some q \<and> ar_active q)}
    \<and> (\<forall>k q. run_at s k = Some q \<longrightarrow> run_at s' k = Some (if k \<in> set ids then canceled_as ''agent_run_canceled'' q else q))
    \<and> (\<forall>k q. run_at s' k = Some q \<longrightarrow> k \<in> subtree (run_at s') (strip run_id) \<longrightarrow> ar_terminal q)"
proof -
  have "strip run_id \<noteq> []" using tree_ok_clean(1) [OF assms] by (simp add: clean_id_def)
  from cancel_subtree_eq [OF assms this] obtain ids s' where
      s': "cancel_subtree s run_id = Inr (ids, s')" "distinct ids"
        "set ids = {k \<in> subtree (run_at s) (strip run_id). ar_active (the (run_at s k))}"
        "\<And>k. run_at s' k = (case run_at s k of None \<Rightarrow> None | Some q \<Rightarrow> Some
         (if k \<in> subtree (run_at s) (strip run_id) \<and> ar_active q
          then canceled_as ''agent_run_canceled'' q else q))"
    by (elim exE conjE) blast
  have ids: "set ids = {k. k \<in> subtree (run_at s) (strip run_id) \<and> (\<exists>q. run_at s k = Some q \<and> ar_active q)}"
    using s'(3) subtree_dom [OF assms] by force
  have parent: "ar_parent_run_id (canceled_as e q) = ar_parent_run_id q" for e q by (simp add: canceled_as_def)
  have "child_edges (run_at s') = child_edges (run_at s)"
    unfolding child_edges_def s'(4) by (auto simp: parent split: option.splits if_splits)
  then have sub: "subtree (run_at s') = subtree (run_at s)" by (simp add: subtree_def fun_eq_iff)
  have "ar_terminal q" if "run_at s' k = Some q" "k \<in> subtree (run_at s) (strip run_id)" for k q
    using that unfolding s'(4) by (auto simp: ar_active_iff ar_terminal_status split: option.splits if_splits)
  moreover have "run_at s' k = Some (if k \<in> set ids then canceled_as ''agent_run_canceled'' q else q)"
    if "run_at s k = Some q" for k q
    using that unfolding s'(4) ids by auto
  ultimately show ?thesis using s'(1,2) ids sub by (intro exI [of _ ids] exI [of _ s']) simp
qed

theorem cancel_subtree_settles_witness:
  "\<exists>ids s'. cancel_subtree sample_tree ''root-run'' = Inr (ids, s')
     \<and> (\<forall>k q. run_at s' k = Some q \<longrightarrow> k \<in> subtree (run_at s') ''root-run'' \<longrightarrow> ar_terminal q)"
proof -
  have r: "run_at sample_tree (strip ''root-run'') = Some (the (run_at sample_tree ''root-run''))"
    "strip ''root-run'' = ''root-run''" by code_simp+
  show ?thesis using cancel_subtree_settles [OF sample_tree_ok r(1)] unfolding r(2) by blast
qed

text \<open>C15. The scheduler's view is sound and complete: \<open>list_runnable\<close> returns, by descending priority and
  then by age, each Run once, exactly the Runs of the root that \<open>claim_run\<close> accepts while a slot is free; it never
  returns a Run of another tree.\<close>

theorem list_runnable_is_claimable:
  assumes "tree_ok s" and "run_at s (strip root) = Some q" and "agent_at s (ar_agent_id q) = Some a" and "an_state a = Node_ACTIVE"
    and "int (active_count s (strip root) now) < cg_max_parallel_runs (an_capability_grant a)"
    and "strip owner \<noteq> []" and "0 < duration"
  shows "\<exists>rows. list_runnable s root now = Inr rows \<and> sorted (map runnable_key rows) \<and> distinct rows
    \<and> (\<forall>r. r \<in> set rows \<longleftrightarrow> (\<exists>k c s'. run_at s k = Some r \<and> ar_root_run_id r = strip root
         \<and> claim_run s k owner duration now = Inr (Some c, s')))"
proof -
  have ne: "strip root \<noteq> []" using tree_ok_clean(1) [OF assms(1,2)] by (simp add: clean_id_def)
  let ?rows = "sort_key runnable_key (filter (\<lambda>r. ar_root_run_id r = strip root \<and> runnable s now r) (dict_values (ts_runs s)))"
  have iff: "(r \<in> set ?rows) = (\<exists>c s'. claim_run s k owner duration now = Inr (Some c, s'))"
    if r: "run_at s k = Some r" "ar_root_run_id r = strip root" for k r
  proof -
    note clean = tree_ok_clean [OF assms(1)]
    have k: "strip k = k" "k \<noteq> []" using clean(1) [OF r(1)] by (simp_all add: clean_id_def)
    have mem: "r \<in> set ?rows \<longleftrightarrow> runnable s now r"
      using r tree_ok_values(1) [OF assms(1), of r] tree_ok_run(1) [OF assms(1) r(1)] by auto
    have reqs: "require_run s k = Inr r" "require_run s (strip root) = Inr q" "require_active_agent s (ar_agent_id q) = Inr a"
      using r(1) k assms(2-4) clean(1) [OF assms(2)] clean(2) [OF assms(3)] by (simp_all add: result_simps clean_id_def)
    have "\<exists>c s'. claim_run s k owner duration now = Inr (Some c, s')" if "runnable s now r"
    proof -
      have cl: "claimable_status r now" "dependencies_terminal s r = Inr True"
        using that claimable_runnable [OF assms(1) r(1)] by simp_all
      let ?c = "r\<lparr>ar_status := Tree_RUNNING, ar_lease_owner_id := Some (strip owner),
        ar_lease_epoch := ar_lease_epoch r + 1, ar_lease_expires_at_ms := Some (int now + duration)\<rparr>"
      have "run_ok ?c"
        by (rule run_ok_update(1) [OF tree_ok_run(2) [OF assms(1) r(1)]])
          (use assms(6,7) cl(1) in \<open>auto simp: clean_id_def claimable_status_def ar_active_status\<close>)
      from AgentTreeRun_post_init_id [OF this] show ?thesis
        using reqs cl assms(5-7) r(2) by (simp add: claim_run_def required_text_def positive_int_def)
    qed
    moreover have "runnable s now r" if "claim_run s k owner duration now = Inr (Some c, s')" for c s'
      using claim_run_cases [OF assms(1) that] r(1) k claimable_runnable [OF assms(1) r(1)] by auto
    ultimately show ?thesis using mem by blast
  qed
  have known: "(\<exists>k. run_at s k = Some r) \<and> ar_root_run_id r = strip root" if "r \<in> set ?rows" for r
    using that tree_ok_values(1) [OF assms(1), of r] by auto
  have "distinct ?rows" using tree_ok_rows_distinct [OF assms(1)] by simp
  moreover have "r \<in> set ?rows \<longleftrightarrow> (\<exists>k c s'. run_at s k = Some r \<and> ar_root_run_id r = strip root
      \<and> claim_run s k owner duration now = Inr (Some c, s'))" for r
    using iff known by blast
  ultimately show ?thesis using list_runnable_eq [OF assms(1) ne] by (intro exI [of _ ?rows]) (simp del: set_sort set_filter)
qed

theorem list_runnable_is_claimable_witness:
  "\<exists>rows. list_runnable sample_tree ''root-run'' 0 = Inr rows \<and> the (run_at sample_tree ''agent-run-1'') \<in> set rows
     \<and> the (run_at sample_tree ''agent-run-2'') \<notin> set rows"
proof -
  have q: "run_at sample_tree (strip ''root-run'') = Some (the (run_at sample_tree ''root-run''))"
    "agent_at sample_tree (ar_agent_id (the (run_at sample_tree ''root-run''))) = Some (the (agent_at sample_tree ''root''))"
    "an_state (the (agent_at sample_tree ''root'')) = Node_ACTIVE"
    "int (active_count sample_tree (strip ''root-run'') 0) < cg_max_parallel_runs (an_capability_grant (the (agent_at sample_tree ''root'')))"
    "strip ''w'' \<noteq> []" "(0::int) < 5" by code_simp+
  have r: "run_at sample_tree ''agent-run-1'' = Some (the (run_at sample_tree ''agent-run-1''))"
    "ar_root_run_id (the (run_at sample_tree ''agent-run-1'')) = strip ''root-run''"
    "run_at sample_tree ''agent-run-2'' = Some (the (run_at sample_tree ''agent-run-2''))" by code_simp+
  have c: "case claim_run sample_tree ''agent-run-1'' ''w'' 5 0 of Inr (Some c, _) \<Rightarrow> True | _ \<Rightarrow> False"
    "case claim_run sample_tree ''agent-run-2'' ''w'' 5 0 of Inr (Some c, _) \<Rightarrow> False | _ \<Rightarrow> True" by code_simp+
  obtain x s' where x: "claim_run sample_tree ''agent-run-1'' ''w'' 5 0 = Inr (Some x, s')" using c(1) by (auto split: sum.splits option.splits)
  have "k = ''agent-run-2''" if "run_at sample_tree k = Some (the (run_at sample_tree ''agent-run-2''))" for k
    using tree_ok_run(1) [OF sample_tree_ok that] tree_ok_run(1) [OF sample_tree_ok r(3)] by simp
  moreover have "claim_run sample_tree ''agent-run-2'' ''w'' 5 0 \<noteq> Inr (Some y, s'')" for y s'' using c(2) by auto
  ultimately have blocked: "\<nexists>k c s'. run_at sample_tree k = Some (the (run_at sample_tree ''agent-run-2''))
      \<and> claim_run sample_tree k ''w'' 5 0 = Inr (Some c, s')" by blast
  obtain rows where "list_runnable sample_tree ''root-run'' 0 = Inr rows"
      "\<And>r. r \<in> set rows \<longleftrightarrow> (\<exists>k c s'. run_at sample_tree k = Some r \<and> ar_root_run_id r = strip ''root-run''
         \<and> claim_run sample_tree k ''w'' 5 0 = Inr (Some c, s'))"
    using list_runnable_is_claimable [OF sample_tree_ok q] by blast
  then show ?thesis using r(1,2) x blocked by blast
qed

text \<open>C16. Dependencies never deadlock a batch: when children of a Run are queued and none of its children
  is under way, \<open>list_runnable\<close> offers at least one child of that Run.\<close>

theorem queued_siblings_make_progress:
  assumes "tree_ok s" and "run_at s k = Some r" and "ar_parent_run_id r = Some p" and "ar_status r = Tree_QUEUED"
    and "\<forall>l q. run_at s l = Some q \<longrightarrow> ar_parent_run_id q = Some p \<longrightarrow> ar_status q \<notin> {Tree_RUNNING, Tree_WAITING}"
  shows "\<exists>rows q. list_runnable s (ar_root_run_id r) now = Inr rows \<and> q \<in> set rows \<and> ar_parent_run_id q = Some p"
proof -
  let ?root = "ar_root_run_id r"
  have root: "strip ?root = ?root" "?root \<noteq> []"
    using tree_ok_run(2) [OF assms(1,2)] by (auto simp: run_ok_def clean_id_def)
  obtain l q where q: "run_at s l = Some q" "ar_parent_run_id q = Some p" "runnable s now q"
    using some_queued_runnable [OF assms(1-4)] assms(5) by blast
  have "ar_root_run_id q = ?root"
    using run_linkedD(3) [OF tree_ok_run(4) [OF assms(1) q(1)] q(2)]
      run_linkedD(3) [OF tree_ok_run(4) [OF assms(1,2)] assms(3)] by auto
  moreover have "q \<in> set (dict_values (ts_runs s))"
    using q(1) tree_ok_values(1) [OF assms(1), of q] tree_ok_run(1) [OF assms(1) q(1)] by auto
  ultimately show ?thesis using list_runnable_eq [OF assms(1), of ?root now] root q by auto
qed

theorem queued_siblings_make_progress_witness:
  "\<exists>rows q. list_runnable sample_tree (ar_root_run_id (the (run_at sample_tree ''agent-run-2''))) 0 = Inr rows
     \<and> q \<in> set rows \<and> ar_parent_run_id q = Some ''root-run''"
proof (rule queued_siblings_make_progress [OF sample_tree_ok])
  show "run_at sample_tree ''agent-run-2'' = Some (the (run_at sample_tree ''agent-run-2''))"
    "ar_parent_run_id (the (run_at sample_tree ''agent-run-2'')) = Some ''root-run''"
    "ar_status (the (run_at sample_tree ''agent-run-2'')) = Tree_QUEUED" by code_simp+
  have "\<forall>q \<in> set (dict_values (ts_runs sample_tree)). ar_parent_run_id q = Some ''root-run'' \<longrightarrow> ar_status q = Tree_QUEUED"
    by code_simp
  then show "\<forall>l q. run_at sample_tree l = Some q \<longrightarrow> ar_parent_run_id q = Some ''root-run'' \<longrightarrow> ar_status q \<notin> {Tree_RUNNING, Tree_WAITING}"
    using dict_values_lookup [of "ts_runs sample_tree"] sample_tree_ok by (fastforce simp: tree_ok_def)
qed

text \<open>C17. The context history of an Agent is complete: from its current checkpoint, \<open>get_checkpoint\<close> along the
  previous links returns every version down to the first, all of that Agent.\<close>

theorem context_history_complete:
  assumes "list_all tree_cmd_ok cmds" and "agent_at (drive (tree_react H) (empty_tree n) cmds) k = Some a"
  shows "map cc_version (context_history (nat (an_context_version a)) (drive (tree_react H) (empty_tree n) cmds)
      (an_context_checkpoint_id a)) = rev [1..an_context_version a]
    \<and> (\<forall>c \<in> set (context_history (nat (an_context_version a)) (drive (tree_react H) (empty_tree n) cmds)
      (an_context_checkpoint_id a)). cc_agent_id c = k)"
proof -
  let ?s = "drive (tree_react H) (empty_tree n) cmds"
  have ok: "tree_ok ?s \<and> contexts_ok ?s"
    by (rule run_contexts.drive_inv) (simp_all add: assms(1))
  have id: "an_agent_id a = k" using tree_ok_agent(1) [of ?s, OF _ assms(2)] ok by blast
  have link: "context_linked ?s a" using ok assms(2) by (simp add: contexts_ok_def)
  show ?thesis
  proof (cases "an_context_checkpoint_id a")
    case None
    then show ?thesis using link by (simp add: context_linked_def)
  next
    case (Some i)
    then obtain c where c: "checkpoint_at ?s i = Some c" "cc_agent_id c = k" "cc_version c = an_context_version a"
      using link id by (auto simp: context_linked_def)
    then show ?thesis using context_history_versions [of ?s, OF _ c(1), of "nat (an_context_version a)"] ok Some by simp
  qed
qed

definition sample_history_cmds :: "tree_cmd list" where
  "sample_history_cmds = sample_cmds @ [Claim_Run ''agent-run-1'' ''w'' 9 0,
     Complete_Run ''agent-run-1'' 0 JNull ''ref'' ''fp'' (Some ''w'') (Some 1) 1,
     Continue_Agent \<lparr>co_requester_run_id = ''root-run'', co_idempotency_key = ''k2'', co_agent_id = ''agent-1'',
       co_expected_context_version = 1, co_message = ''more'', co_required = True, co_priority = 0,
       co_lease_owner_id = None, co_lease_epoch = None\<rparr> 2,
     Claim_Run ''agent-run-3'' ''w'' 9 2,
     Complete_Run ''agent-run-3'' 1 JNull ''ref2'' ''fp2'' (Some ''w'') (Some 1) 3]"

definition sample_history :: agent_tree_state where
  "sample_history = drive (tree_react sample_hash) (empty_tree 0) sample_history_cmds"

theorem context_history_complete_witness:
  "map cc_version (context_history 2 sample_history (an_context_checkpoint_id (the (agent_at sample_history ''agent-1'')))) = [2, 1]"
proof -
  have "map_option an_context_version (agent_at sample_history ''agent-1'') = Some 2" by code_simp
  then have a: "agent_at sample_history ''agent-1'' = Some (the (agent_at sample_history ''agent-1''))"
    "an_context_version (the (agent_at sample_history ''agent-1'')) = 2" by auto
  have c: "list_all tree_cmd_ok sample_history_cmds" by code_simp
  have "rev [1..2] = [2, 1::int]" by code_simp
  then show ?thesis
    using context_history_complete [OF c a(1) [unfolded sample_history_def]] a(2)
    unfolding sample_history_def [symmetric] by simp
qed

text \<open>The constructor of a spawn command accepts a batch precisely when it names a parent and a key, the
  lease proof is complete or absent, child names are distinct, every dependency names a sibling,
  and the dependencies have no cycle.\<close>

theorem spawn_command_accepts_dags:
  "(\<exists>c'. SpawnAgentsCommand_post_init c = Inr c') \<longleftrightarrow>
     strip (sc_parent_run_id c) \<noteq> [] \<and> strip (sc_idempotency_key c) \<noteq> [] \<and> sc_children c \<noteq> []
     \<and> distinct (map sp_name (sc_children c))
     \<and> (\<Union>item \<in> set (sc_children c). set (sp_depends_on item)) \<subseteq> sp_name ` set (sc_children c)
     \<and> acyclic {(d, sp_name item) | d item. item \<in> set (sc_children c) \<and> d \<in> set (sp_depends_on item)}
     \<and> (\<exists>l. normalize_command_lease (sc_lease_owner_id c) (sc_lease_epoch c) = Inr l)"
proof -
  have edges: "graph_edges (map (\<lambda>item. (sp_name item, sp_depends_on item)) (sc_children c))
      = {(d, sp_name item) | d item. item \<in> set (sc_children c) \<and> d \<in> set (sp_depends_on item)}"
    by (auto simp: graph_edges_def)
  have known: "(\<exists>item \<in> set (sc_children c). \<not> set (sp_depends_on item) \<subseteq> set (map sp_name (sc_children c)))
      \<longleftrightarrow> \<not> (\<Union>item \<in> set (sc_children c). set (sp_depends_on item)) \<subseteq> sp_name ` set (sc_children c)"
    unfolding set_map by blast
  show ?thesis
    unfolding SpawnAgentsCommand_post_init_def Let_def known has_cycle_iff edges bind_result_Inr_iff if_Inl_eq_Inr
      required_text_Inr by (auto simp: split_paired_Ex)
qed

text \<open>\<open>suspend_run\<close> files the suspended Run under the identity as the caller spelled it: with surrounding
  blanks the call succeeds, yet the stored Run keeps its status and lease and a second entry appears.\<close>

theorem suspend_run_misfiles_padded_id:
  assumes "tree_ok s" and "suspend_run s run_id own ep now = Inr (suspended, s')" and "strip run_id \<noteq> run_id"
  shows "ar_status suspended = Tree_WAITING \<and> run_at s' (strip run_id) = run_at s (strip run_id)
    \<and> run_at s' run_id = Some suspended \<and> ar_run_id suspended \<noteq> run_id"
proof -
  obtain r where r: "run_at s (strip run_id) = Some r"
      "suspended = r\<lparr>ar_status := Tree_WAITING, ar_lease_owner_id := None, ar_lease_expires_at_ms := None\<rparr>"
      "s' = s\<lparr>ts_runs := AList.update run_id suspended (ts_runs s)\<rparr>"
    using suspend_run_cases [OF assms(1,2)] by blast
  show ?thesis using r assms(3) tree_ok_run(1) [OF assms(1) r(1)] by auto
qed

theorem suspend_run_misfiles_padded_id_witness:
  "\<exists>suspended s'. suspend_run sample_claimed '' agent-run-1'' ''w1'' 1 5 = Inr (suspended, s')
     \<and> run_at s' (strip '' agent-run-1'') = run_at sample_claimed (strip '' agent-run-1'')
     \<and> map_option ar_status (run_at sample_claimed (strip '' agent-run-1'')) = Some Tree_RUNNING"
proof -
  have "isl (suspend_run sample_claimed '' agent-run-1'' ''w1'' 1 5) = False" by code_simp
  then obtain suspended s' where op: "suspend_run sample_claimed '' agent-run-1'' ''w1'' 1 5 = Inr (suspended, s')"
    by (cases "suspend_run sample_claimed '' agent-run-1'' ''w1'' 1 5") auto
  have r: "strip '' agent-run-1'' \<noteq> '' agent-run-1''"
    "map_option ar_status (run_at sample_claimed (strip '' agent-run-1'')) = Some Tree_RUNNING" by code_simp+
  show ?thesis using suspend_run_misfiles_padded_id [OF sample_claimed_ok op r(1)] op r(2) by blast
qed

text \<open>
  The repository does not check that a root keeps away from the identities it generates. A root
  Run named \<open>agent-run-1\<close> is overwritten by its first child, which thereby becomes its own parent.
\<close>

lemma generated_identity_overwrites_root:
  "map_option ar_parent_run_id (run_at (drive (tree_react sample_hash) (empty_tree 0)
     [Begin_Root (sample_begin\<lparr>br_run_id := ''agent-run-1''\<rparr>), Spawn_Agents (sample_spawn\<lparr>sc_parent_run_id := ''agent-run-1''\<rparr>) 0])
     ''agent-run-1'') = Some (Some ''agent-run-1'')"
  by code_simp

end
