(* ===== verification/Recovery.thy ===== *)
theory Recovery
  imports Json_Values "HOL-Library.Product_Lexorder"
begin

text \<open>
  \<open>purra/recovery\<close>: the contracts of recovery decisions (\<open>contracts.py\<close>), the disposition of a
  failed durable attempt (\<open>disposition.py\<close>), the per-profile attempt limits (\<open>policy.py\<close>) and
  the ledger that grants bounded recovery attempts within one Run (\<open>ledger.py\<close>).

  Enumeration members are constructors; \<open>RecoveryCause(text)\<close> is \<open>RecoveryCause_of\<close>. A
  \<open>Counter\<close> is an insertion-ordered dictionary that reads 0 for a missing key.
\<close>

section \<open>Contracts\<close>

datatype recovery_action = Action_RETRY_MODEL | Action_FALLBACK_PROVIDER_MODE | Action_REPLAN

datatype recovery_cause =
    Cause_PROVIDER_REQUIRED_TOOL_CHOICE_UNSUPPORTED
  | Cause_PROVIDER_STREAM_INTERRUPTED
  | Cause_MALFORMED_TOOL_CALL_BATCH
  | Cause_MISSING_REQUIRED_TOOL_CALL
  | Cause_MISSING_REQUIRED_TOOL_CALL_REPLAN
  | Cause_UNSTRUCTURED_TOOL_PROTOCOL
  | Cause_EMPTY_MODEL_RESPONSE
  | Cause_STRUCTURED_OUTPUT_INVALID
  | Cause_RESPONSE_CONSTRAINT_DETERMINISTIC
  | Cause_RESPONSE_CONSTRAINT_SEMANTIC
  | Cause_FUTURE_TOOL_STEP
  | Cause_UNAUTHORIZED_TOOL
  | Cause_UNAUTHORIZED_TOOL_REPLAN
  | Cause_TOOL_INPUT_INVALID
  | Cause_TOOL_EXECUTION_FAILED_REPLAN

fun RecoveryCause_value :: "recovery_cause \<Rightarrow> string" where
  "RecoveryCause_value Cause_PROVIDER_REQUIRED_TOOL_CHOICE_UNSUPPORTED =
     ''provider_required_tool_choice_unsupported''"
| "RecoveryCause_value Cause_PROVIDER_STREAM_INTERRUPTED = ''provider_stream_interrupted''"
| "RecoveryCause_value Cause_MALFORMED_TOOL_CALL_BATCH = ''malformed_tool_call_batch''"
| "RecoveryCause_value Cause_MISSING_REQUIRED_TOOL_CALL = ''missing_required_tool_call''"
| "RecoveryCause_value Cause_MISSING_REQUIRED_TOOL_CALL_REPLAN = ''missing_required_tool_call_replan''"
| "RecoveryCause_value Cause_UNSTRUCTURED_TOOL_PROTOCOL = ''unstructured_tool_protocol''"
| "RecoveryCause_value Cause_EMPTY_MODEL_RESPONSE = ''empty_model_response''"
| "RecoveryCause_value Cause_STRUCTURED_OUTPUT_INVALID = ''structured_output_invalid''"
| "RecoveryCause_value Cause_RESPONSE_CONSTRAINT_DETERMINISTIC = ''response_constraint_deterministic''"
| "RecoveryCause_value Cause_RESPONSE_CONSTRAINT_SEMANTIC = ''response_constraint_semantic''"
| "RecoveryCause_value Cause_FUTURE_TOOL_STEP = ''future_tool_step''"
| "RecoveryCause_value Cause_UNAUTHORIZED_TOOL = ''unauthorized_tool''"
| "RecoveryCause_value Cause_UNAUTHORIZED_TOOL_REPLAN = ''unauthorized_tool_replan''"
| "RecoveryCause_value Cause_TOOL_INPUT_INVALID = ''tool_input_invalid''"
| "RecoveryCause_value Cause_TOOL_EXECUTION_FAILED_REPLAN = ''tool_execution_failed_replan''"

definition recovery_causes :: "recovery_cause list" where
  "recovery_causes =
     [Cause_PROVIDER_REQUIRED_TOOL_CHOICE_UNSUPPORTED, Cause_PROVIDER_STREAM_INTERRUPTED,
      Cause_MALFORMED_TOOL_CALL_BATCH, Cause_MISSING_REQUIRED_TOOL_CALL,
      Cause_MISSING_REQUIRED_TOOL_CALL_REPLAN, Cause_UNSTRUCTURED_TOOL_PROTOCOL,
      Cause_EMPTY_MODEL_RESPONSE, Cause_STRUCTURED_OUTPUT_INVALID,
      Cause_RESPONSE_CONSTRAINT_DETERMINISTIC, Cause_RESPONSE_CONSTRAINT_SEMANTIC,
      Cause_FUTURE_TOOL_STEP, Cause_UNAUTHORIZED_TOOL, Cause_UNAUTHORIZED_TOOL_REPLAN,
      Cause_TOOL_INPUT_INVALID, Cause_TOOL_EXECUTION_FAILED_REPLAN]"

definition RecoveryCause_of :: "string \<Rightarrow> recovery_cause result" where
  "RecoveryCause_of text = (case find (\<lambda>c. RecoveryCause_value c = text) recovery_causes of
     None \<Rightarrow> Inl (ValueError ''not a valid RecoveryCause'') | Some c \<Rightarrow> Inr c)"

datatype recovery_effect_state = Effect_NOT_STARTED | Effect_COMMITTED | Effect_UNKNOWN

datatype failure_category =
    Failure_CANCELED | Failure_TRANSIENT_PROVIDER | Failure_PERMANENT_EXTERNAL
  | Failure_PROTOCOL_INCOMPATIBLE | Failure_MODEL_OUTPUT_INVALID | Failure_TOOL_INPUT_INVALID
  | Failure_TOOL_EXECUTION | Failure_BUSINESS_INVARIANT

datatype failure_disposition =
    Disp_RETRY_ATTEMPT | Disp_RESUME_CHECKPOINT | Disp_PAUSE_RECOVERABLE
  | Disp_SPLIT_PART | Disp_FAIL_PERMANENT | Disp_CANCEL

datatype failure_scope = Scope_LOCAL | Scope_SYSTEMIC

record failure_signal =
  fs_category :: failure_category
  fs_code :: string
  fs_retryable :: bool
  fs_scope :: failure_scope
  fs_effect_state :: recovery_effect_state
  fs_checkpoint_available :: bool
  fs_part_splittable :: bool

record failure_decision =
  fd_category :: failure_category
  fd_code :: string
  fd_disposition :: failure_disposition
  fd_attempts_remaining :: int
  fd_effect_state :: recovery_effect_state
  fd_checkpoint_available :: bool
  fd_part_splittable :: bool
  fd_scope :: failure_scope

definition FailureSignal_post_init :: "failure_signal \<Rightarrow> failure_signal result" where
  "FailureSignal_post_init s =
     bind_result (required_text (fs_code s) ''failure signal code'') (\<lambda>code.
     Inr (s\<lparr>fs_code := code\<rparr>))"

definition FailureDecision_post_init :: "failure_decision \<Rightarrow> failure_decision result" where
  "FailureDecision_post_init d =
     bind_result (required_text (fd_code d) ''failure decision code'') (\<lambda>code.
     bind_result (non_negative_int (fd_attempts_remaining d) ''failure decision attempts_remaining'') (\<lambda>remaining.
     Inr (d\<lparr>fd_code := code, fd_attempts_remaining := remaining\<rparr>)))"

datatype recovery_reason =
    Reason_ALLOWED | Reason_ATTEMPT_BUDGET_EXHAUSTED | Reason_CAUSE_NOT_RETRYABLE
  | Reason_POLICY_DISABLED | Reason_REQUEST_CANCELED | Reason_ROUND_BUDGET_EXHAUSTED
  | Reason_SIDE_EFFECT_COMMITTED | Reason_SIDE_EFFECT_STATE_UNKNOWN
  | Reason_VISIBLE_OUTPUT_ALREADY_EMITTED

record recovery_request =
  rr_cause :: recovery_cause
  rr_action :: recovery_action
  rr_scope :: string
  rr_remaining_model_rounds :: int
  rr_minimum_remaining_rounds :: int
  rr_retryable :: bool
  rr_cancellation_requested :: bool
  rr_visible_output_emitted :: bool
  rr_effect_state :: recovery_effect_state
  rr_may_repeat_side_effect :: bool

definition RecoveryRequest_post_init :: "recovery_request \<Rightarrow> recovery_request result" where
  "RecoveryRequest_post_init r =
     bind_result (required_text (rr_scope r) ''recovery scope'') (\<lambda>scope.
     bind_result (non_negative_int (rr_minimum_remaining_rounds r) ''minimum remaining rounds'') (\<lambda>minimum.
     Inr (r\<lparr>rr_scope := scope, rr_remaining_model_rounds := max 0 (rr_remaining_model_rounds r),
       rr_minimum_remaining_rounds := minimum\<rparr>)))"

record recovery_decision =
  rd_cause :: recovery_cause
  rd_action :: recovery_action
  rd_scope :: string
  rd_allowed :: bool
  rd_reason_code :: recovery_reason
  rd_attempt :: int
  rd_max_attempts :: int
  rd_remaining_model_rounds :: int
  rd_minimum_remaining_rounds :: int
  rd_effect_state :: recovery_effect_state
  rd_may_repeat_side_effect :: bool

fun RecoveryAction_value :: "recovery_action \<Rightarrow> string" where
  "RecoveryAction_value Action_RETRY_MODEL = ''retry_model''"
| "RecoveryAction_value Action_FALLBACK_PROVIDER_MODE = ''fallback_provider_mode''"
| "RecoveryAction_value Action_REPLAN = ''replan''"

fun RecoveryReason_value :: "recovery_reason \<Rightarrow> string" where
  "RecoveryReason_value Reason_ALLOWED = ''allowed''"
| "RecoveryReason_value Reason_ATTEMPT_BUDGET_EXHAUSTED = ''attempt_budget_exhausted''"
| "RecoveryReason_value Reason_CAUSE_NOT_RETRYABLE = ''cause_not_retryable''"
| "RecoveryReason_value Reason_POLICY_DISABLED = ''policy_disabled''"
| "RecoveryReason_value Reason_REQUEST_CANCELED = ''request_canceled''"
| "RecoveryReason_value Reason_ROUND_BUDGET_EXHAUSTED = ''round_budget_exhausted''"
| "RecoveryReason_value Reason_SIDE_EFFECT_COMMITTED = ''side_effect_committed''"
| "RecoveryReason_value Reason_SIDE_EFFECT_STATE_UNKNOWN = ''side_effect_state_unknown''"
| "RecoveryReason_value Reason_VISIBLE_OUTPUT_ALREADY_EMITTED = ''visible_output_already_emitted''"

fun RecoveryEffectState_value :: "recovery_effect_state \<Rightarrow> string" where
  "RecoveryEffectState_value Effect_NOT_STARTED = ''not_started''"
| "RecoveryEffectState_value Effect_COMMITTED = ''committed''"
| "RecoveryEffectState_value Effect_UNKNOWN = ''unknown''"

definition RecoveryDecision_to_trace_details :: "recovery_decision \<Rightarrow> json_mapping" where
  "RecoveryDecision_to_trace_details d =
     [(''cause'', JStr (RecoveryCause_value (rd_cause d))),
      (''action'', JStr (RecoveryAction_value (rd_action d))),
      (''scope'', JStr (rd_scope d)),
      (''allowed'', JBool (rd_allowed d)),
      (''reasonCode'', JStr (RecoveryReason_value (rd_reason_code d))),
      (''attempt'', JInt (rd_attempt d)),
      (''maxAttempts'', JInt (rd_max_attempts d)),
      (''remainingModelRounds'', JInt (rd_remaining_model_rounds d)),
      (''minimumRemainingRounds'', JInt (rd_minimum_remaining_rounds d)),
      (''effectState'', JStr (RecoveryEffectState_value (rd_effect_state d))),
      (''mayRepeatSideEffect'', JBool (rd_may_repeat_side_effect d))]"

section \<open>Disposition of a failed attempt\<close>

definition PERMANENT_CATEGORIES :: "failure_category set" where
  "PERMANENT_CATEGORIES = {Failure_PERMANENT_EXTERNAL, Failure_BUSINESS_INVARIANT}"

definition failure_disposition_of :: "failure_signal \<Rightarrow> int \<Rightarrow> failure_disposition" where
  "failure_disposition_of signal remaining =
     (if fs_category signal = Failure_CANCELED then Disp_CANCEL
      else if fs_category signal \<in> PERMANENT_CATEGORIES then Disp_FAIL_PERMANENT
      else if fs_effect_state signal = Effect_UNKNOWN then Disp_FAIL_PERMANENT
      else if fs_effect_state signal = Effect_COMMITTED then
        (if fs_checkpoint_available signal then Disp_RESUME_CHECKPOINT else Disp_FAIL_PERMANENT)
      else if fs_checkpoint_available signal then Disp_RESUME_CHECKPOINT
      else if fs_part_splittable signal then Disp_SPLIT_PART
      else if fs_retryable signal \<and> remaining \<noteq> 0 then
        (if fs_checkpoint_available signal then Disp_RESUME_CHECKPOINT else Disp_RETRY_ATTEMPT)
      else if fs_category signal = Failure_TRANSIENT_PROVIDER \<and> fs_retryable signal then
        Disp_PAUSE_RECOVERABLE
      else Disp_FAIL_PERMANENT)"

definition decide_failure :: "failure_signal \<Rightarrow> int \<Rightarrow> failure_decision result" where
  "decide_failure signal attempts_remaining =
     (let remaining = max 0 attempts_remaining in
      FailureDecision_post_init
        \<lparr>fd_category = fs_category signal, fd_code = fs_code signal,
         fd_disposition = failure_disposition_of signal remaining,
         fd_attempts_remaining = remaining, fd_effect_state = fs_effect_state signal,
         fd_checkpoint_available = fs_checkpoint_available signal,
         fd_part_splittable = fs_part_splittable signal, fd_scope = fs_scope signal\<rparr>)"

section \<open>Policy\<close>

type_synonym recovery_policy = "(recovery_cause, int) dict"

definition STANDARD_LIMITS :: recovery_policy where
  "STANDARD_LIMITS = map (\<lambda>c. (c, if c = Cause_EMPTY_MODEL_RESPONSE then 2
     else if c = Cause_STRUCTURED_OUTPUT_INVALID then 0 else 1)) recovery_causes"

definition RecoveryPolicy_post_init :: "(recovery_cause, int) dict \<Rightarrow> recovery_policy result" where
  "RecoveryPolicy_post_init limits =
     (if \<exists>n \<in> set (dict_values limits). n < 0 then
        Inl (ValueError ''recovery max attempts must be non-negative'')
      else Inr limits)"

definition max_attempts :: "recovery_policy \<Rightarrow> recovery_cause \<Rightarrow> int" where
  "max_attempts p cause = (case map_of p cause of None \<Rightarrow> 0 | Some n \<Rightarrow> n)"

definition with_overrides :: "recovery_policy \<Rightarrow> (recovery_cause, int) dict \<Rightarrow> recovery_policy result" where
  "with_overrides p overrides =
     RecoveryPolicy_post_init (fold (\<lambda>(cause, attempts). AList.update cause attempts) overrides p)"

section \<open>Ledger\<close>

record recovery_ledger =
  rl_policy :: recovery_policy
  rl_attempts :: "(recovery_cause \<times> string, int) dict"

definition new_ledger :: "recovery_policy \<Rightarrow> recovery_ledger" where
  "new_ledger p = \<lparr>rl_policy = p, rl_attempts = []\<rparr>"

definition attempts :: "recovery_ledger \<Rightarrow> recovery_cause \<Rightarrow> string \<Rightarrow> int" where
  "attempts l cause scope = (case map_of (rl_attempts l) (cause, scope) of None \<Rightarrow> 0 | Some n \<Rightarrow> n)"

definition snapshot :: "recovery_ledger \<Rightarrow> (string \<times> string \<times> int) list" where
  "snapshot l = sort (map (\<lambda>((cause, scope), n). (RecoveryCause_value cause, scope, n)) (rl_attempts l))"

fun restore_entries ::
    "(string \<times> string \<times> int) list \<Rightarrow> (recovery_cause \<times> string, int) dict
     \<Rightarrow> (recovery_cause \<times> string, int) dict result" where
  "restore_entries [] restored = Inr restored"
| "restore_entries ((cause, scope, n) # rest) restored =
     bind_result (RecoveryCause_of cause) (\<lambda>c.
     if n < 0 then Inl (ValueError ''recovery attempt count must be non-negative'')
     else restore_entries rest (AList.update (c, scope) n restored))"

definition restore :: "recovery_ledger \<Rightarrow> (string \<times> string \<times> int) list \<Rightarrow> recovery_ledger result" where
  "restore l snap =
     (if rl_attempts l \<noteq> [] then Inl (RuntimeError ''recovery ledger has already been used'')
      else bind_result (restore_entries snap []) (\<lambda>restored. Inr (l\<lparr>rl_attempts := restored\<rparr>)))"

definition denial_reason :: "recovery_request \<Rightarrow> int \<Rightarrow> int \<Rightarrow> recovery_reason option" where
  "denial_reason r used limit =
     (if rr_cancellation_requested r then Some Reason_REQUEST_CANCELED
      else if \<not> rr_retryable r then Some Reason_CAUSE_NOT_RETRYABLE
      else if rr_visible_output_emitted r then Some Reason_VISIBLE_OUTPUT_ALREADY_EMITTED
      else if rr_may_repeat_side_effect r \<and> rr_effect_state r = Effect_COMMITTED then
        Some Reason_SIDE_EFFECT_COMMITTED
      else if rr_may_repeat_side_effect r \<and> rr_effect_state r = Effect_UNKNOWN then
        Some Reason_SIDE_EFFECT_STATE_UNKNOWN
      else if rr_remaining_model_rounds r < rr_minimum_remaining_rounds r then
        Some Reason_ROUND_BUDGET_EXHAUSTED
      else if limit \<le> 0 then Some Reason_POLICY_DISABLED
      else if used \<ge> limit then Some Reason_ATTEMPT_BUDGET_EXHAUSTED
      else None)"

definition decide :: "recovery_ledger \<Rightarrow> recovery_request \<Rightarrow> recovery_decision \<times> recovery_ledger" where
  "decide l r =
     (let limit = max_attempts (rl_policy l) (rr_cause r);
          key = (rr_cause r, rr_scope r);
          used = attempts l (rr_cause r) (rr_scope r);
          reason = denial_reason r used limit;
          allowed = (reason = None);
          attempt = (if allowed then used + 1 else used)
      in (\<lparr>rd_cause = rr_cause r, rd_action = rr_action r, rd_scope = rr_scope r, rd_allowed = allowed,
           rd_reason_code = (case reason of None \<Rightarrow> Reason_ALLOWED | Some x \<Rightarrow> x),
           rd_attempt = attempt, rd_max_attempts = limit,
           rd_remaining_model_rounds = rr_remaining_model_rounds r,
           rd_minimum_remaining_rounds = rr_minimum_remaining_rounds r,
           rd_effect_state = rr_effect_state r,
           rd_may_repeat_side_effect = rr_may_repeat_side_effect r\<rparr>,
          if allowed then l\<lparr>rl_attempts := AList.update key attempt (rl_attempts l)\<rparr> else l))"

end
