(* ===== verification/Recovery_Properties.thy ===== *)
theory Recovery_Properties
  imports Recovery "HOL-Library.Multiset"
begin

text \<open>
  The properties of recovery: which owner action a failed attempt gets, that a Run never gets
  more recovery attempts than its policy grants, and that a checkpoint carries the consumed
  attempts over to a replacement process.
\<close>

section \<open>Causes and their texts\<close>

lemma recovery_causes_complete [simp]: "c \<in> set recovery_causes"
  by (cases c) (simp_all add: recovery_causes_def)

lemma RecoveryCause_of_value [simp]: "RecoveryCause_of (RecoveryCause_value c) = Inr c"
  by (cases c) (simp_all add: RecoveryCause_of_def recovery_causes_def)

lemma RecoveryCause_value_inject [simp]: "RecoveryCause_value c = RecoveryCause_value d \<longleftrightarrow> c = d"
  by (metis RecoveryCause_of_value sum.inject(2))

section \<open>The ledger as a machine\<close>

definition ledger_react :: "recovery_ledger \<Rightarrow> recovery_request \<Rightarrow> recovery_ledger result" where
  "ledger_react l r = Inr (snd (decide l r))"

fun decisions :: "recovery_ledger \<Rightarrow> recovery_request list \<Rightarrow> recovery_decision list" where
  "decisions l [] = []"
| "decisions l (r # rs) = fst (decide l r) # decisions (snd (decide l r)) rs"

definition granted :: "recovery_cause \<Rightarrow> string \<Rightarrow> recovery_decision list \<Rightarrow> nat" where
  "granted c s ds = length (filter (\<lambda>d. rd_allowed d \<and> rd_cause d = c \<and> rd_scope d = s) ds)"

lemma decide_sel [simp]:
  "rl_policy (snd (decide l r)) = rl_policy l" "rd_cause (fst (decide l r)) = rr_cause r"
  "rd_scope (fst (decide l r)) = rr_scope r"
  "rd_allowed (fst (decide l r)) \<longleftrightarrow> denial_reason r (attempts l (rr_cause r) (rr_scope r))
     (max_attempts (rl_policy l) (rr_cause r)) = None"
  by (simp_all add: decide_def Let_def)

lemma new_ledger_policy [simp]: "rl_policy (new_ledger p) = p"
  by (simp add: new_ledger_def)

lemma attempts_decide:
  "attempts (snd (decide l r)) c s
     = attempts l c s + of_bool (rd_allowed (fst (decide l r)) \<and> rr_cause r = c \<and> rr_scope r = s)"
  by (auto simp: decide_def Let_def attempts_def)

lemma denial_reason_None:
  "denial_reason r used limit = None \<longleftrightarrow>
     \<not> rr_cancellation_requested r \<and> rr_retryable r \<and> \<not> rr_visible_output_emitted r
     \<and> (rr_may_repeat_side_effect r \<longrightarrow> rr_effect_state r = Effect_NOT_STARTED)
     \<and> rr_minimum_remaining_rounds r \<le> rr_remaining_model_rounds r \<and> used < limit \<and> 0 < limit"
  by (cases "rr_effect_state r") (auto simp: denial_reason_def)

text \<open>Within budget: no key has used more attempts than the policy grants its cause.\<close>

definition within_budget :: "recovery_ledger \<Rightarrow> bool" where
  "within_budget l \<longleftrightarrow> distinct (map fst (rl_attempts l))
     \<and> (\<forall>c s. 0 \<le> attempts l c s \<and> attempts l c s \<le> max 0 (max_attempts (rl_policy l) c))"

interpretation ledger: event_machine ledger_react "\<lambda>r. True" within_budget
proof unfold_locales
  fix l r l'
  assume inv: "within_budget l" and "ledger_react l r = Inr l'"
  then have l': "l' = snd (decide l r)" by (simp add: ledger_react_def)
  have "distinct (map fst (rl_attempts l'))"
    using inv distinct_update [of "rl_attempts l"] by (simp add: l' decide_def Let_def within_budget_def)
  moreover have "0 \<le> attempts l' c s \<and> attempts l' c s \<le> max 0 (max_attempts (rl_policy l') c)" for c s
  proof -
    have "0 \<le> attempts l c s" "attempts l c s \<le> max 0 (max_attempts (rl_policy l) c)"
      using inv by (simp_all add: within_budget_def)
    then show ?thesis unfolding l' attempts_decide by (auto simp: denial_reason_None of_bool_def)
  qed
  ultimately show "within_budget l'" by (simp add: within_budget_def)
qed

lemma within_budget_new [simp]: "within_budget (new_ledger p)"
  by (simp add: within_budget_def new_ledger_def attempts_def)

lemma attempts_drive:
  "attempts (drive ledger_react l rs) c s = attempts l c s + int (granted c s (decisions l rs))"
proof (induction rs arbitrary: l)
  case (Cons r rs)
  show ?case using Cons [of "snd (decide l r)"] by (auto simp: ledger_react_def granted_def attempts_decide)
qed (simp add: granted_def)

lemma rl_policy_drive [simp]: "rl_policy (drive ledger_react l rs) = rl_policy l"
  by (induction rs arbitrary: l) (simp_all add: ledger_react_def)

section \<open>Snapshots\<close>

lemma restore_entries_eq:
  assumes "distinct (map fst kvs)" and "\<forall>n \<in> set (dict_values kvs). 0 \<le> n"
    and "fst ` set kvs \<inter> fst ` set acc = {}"
  shows "restore_entries (map (\<lambda>((cause, scope), n). (RecoveryCause_value cause, scope, n)) kvs) acc = Inr (acc @ kvs)"
  using assms
proof (induction kvs arbitrary: acc)
  case (Cons e kvs)
  obtain c s n where e: "e = ((c, s), n)" by (metis surj_pair)
  have "(c, s) \<notin> fst ` set acc" using Cons.prems(3) by (auto simp: e)
  then have "AList.update (c, s) n acc = acc @ [e]"
    unfolding e by (induction acc) auto
  moreover have "fst ` set kvs \<inter> fst ` set (acc @ [e]) = {}"
    using Cons.prems(1,3) by auto
  ultimately show ?case using Cons.IH [of "acc @ [e]"] Cons.prems(1,2) by (simp add: e)
qed simp

lemma sorted_map_inv:
  assumes "inj f"
  shows "\<exists>ys. sort (map f xs) = map f ys \<and> mset ys = mset xs"
proof -
  have "sort (map f xs) = map f (map (inv f) (sort (map f xs)))"
    unfolding map_map by (rule map_idI [symmetric]) (auto simp: f_inv_into_f)
  moreover have "mset (map (inv f) (sort (map f xs))) = mset xs"
    by (simp add: multiset.map_comp comp_def assms)
  ultimately show ?thesis by blast
qed

lemma snapshot_restore:
  assumes d: "distinct (map fst (rl_attempts l))" and nn: "\<forall>n \<in> set (dict_values (rl_attempts l)). 0 \<le> n"
  shows "\<exists>l'. restore (new_ledger (rl_policy l)) (snapshot l) = Inr l' \<and> rl_policy l' = rl_policy l
    \<and> map_of (rl_attempts l') = map_of (rl_attempts l) \<and> snapshot l' = snapshot l"
proof -
  let ?f = "\<lambda>((cause, scope), n). (RecoveryCause_value cause, scope, n :: int)"
  have inj: "inj ?f" by (auto intro!: injI)
  then obtain ys where ys: "snapshot l = map ?f ys" "mset ys = mset (rl_attempts l)"
    unfolding snapshot_def using sorted_map_inv [OF inj] by blast
  have dist: "distinct (map fst ys)" using d ys(2) by (metis mset_eq_imp_distinct_iff mset_map)
  have "\<forall>n \<in> set (dict_values ys). 0 \<le> n" using nn mset_eq_setD [OF ys(2)] by simp
  then have "restore (new_ledger (rl_policy l)) (snapshot l) = Inr \<lparr>rl_policy = rl_policy l, rl_attempts = ys\<rparr>"
    unfolding restore_def ys(1) using restore_entries_eq [OF dist, of "[]"] by (simp add: new_ledger_def)
  moreover have "map_of ys = map_of (rl_attempts l)"
    using dist d mset_eq_setD [OF ys(2)] by (simp add: map_of_inject_set)
  moreover have "snapshot \<lparr>rl_policy = rl_policy l, rl_attempts = ys\<rparr> = snapshot l"
    unfolding snapshot_def by (intro properties_for_sort) (simp_all add: ys(2))
  ultimately show ?thesis by auto
qed

lemma within_budget_counts:
  assumes "within_budget l"
  shows "distinct (map fst (rl_attempts l))" and "\<forall>n \<in> set (dict_values (rl_attempts l)). 0 \<le> n"
proof -
  show d: "distinct (map fst (rl_attempts l))" using assms by (simp add: within_budget_def)
  have "0 \<le> n" if "map_of (rl_attempts l) (c, s) = Some n" for c s n
    using assms that by (auto simp: within_budget_def attempts_def split: option.splits dest: spec [of _ c])
  then show "\<forall>n \<in> set (dict_values (rl_attempts l)). 0 \<le> n" using d by (auto simp: dict_values_lookup simp del: set_map)
qed

section \<open>Properties\<close>

text \<open>The owner action after a failed attempt: work is repeated (retry or split) only when the failed
  operation cannot have changed anything and there is no checkpoint; committed work is only ever
  resumed from a checkpoint; unknown effects and permanent causes fail; a transient provider failure
  whose attempts are used up is paused for a later resume.\<close>

theorem decide_failure_is_safe:
  assumes "FailureSignal_post_init s0 = Inr s"
  shows "\<exists>d. decide_failure s n = Inr d \<and> fd_attempts_remaining d = max 0 n \<and> fd_code d = fs_code s
    \<and> (fd_disposition d = Disp_CANCEL \<longleftrightarrow> fs_category s = Failure_CANCELED)
    \<and> (fd_disposition d = Disp_RESUME_CHECKPOINT \<longleftrightarrow> fs_checkpoint_available s \<and> fs_effect_state s \<noteq> Effect_UNKNOWN
        \<and> fs_category s \<notin> {Failure_CANCELED, Failure_PERMANENT_EXTERNAL, Failure_BUSINESS_INVARIANT})
    \<and> (fd_disposition d \<in> {Disp_SPLIT_PART, Disp_RETRY_ATTEMPT, Disp_PAUSE_RECOVERABLE} \<longrightarrow>
        fs_effect_state s = Effect_NOT_STARTED \<and> \<not> fs_checkpoint_available s
        \<and> (fd_disposition d = Disp_SPLIT_PART \<longleftrightarrow> fs_part_splittable s)
        \<and> (fd_disposition d = Disp_RETRY_ATTEMPT \<longrightarrow> fs_retryable s \<and> 0 < n)
        \<and> (fd_disposition d = Disp_PAUSE_RECOVERABLE \<longrightarrow> fs_retryable s \<and> n \<le> 0 \<and> fs_category s = Failure_TRANSIENT_PROVIDER))
    \<and> (fs_retryable s \<and> 0 < n \<and> fs_effect_state s = Effect_NOT_STARTED
        \<and> fs_category s \<notin> {Failure_CANCELED, Failure_PERMANENT_EXTERNAL, Failure_BUSINESS_INVARIANT}
        \<longrightarrow> fd_disposition d \<noteq> Disp_FAIL_PERMANENT)"
proof -
  have code: "required_text (fs_code s) f = Inr (fs_code s)" for f
    using assms by (auto simp: FailureSignal_post_init_def bind_result_Inr_iff required_text_Inr)
  show ?thesis
    by (cases "fs_effect_state s"; cases "fs_category s")
      (auto simp: decide_failure_def FailureDecision_post_init_def Let_def code non_negative_int_def
        failure_disposition_of_def PERMANENT_CATEGORIES_def)
qed

definition sample_signal :: failure_signal where
  "sample_signal = \<lparr>fs_category = Failure_TRANSIENT_PROVIDER, fs_code = '' timeout'', fs_retryable = True,
     fs_scope = Scope_LOCAL, fs_effect_state = Effect_NOT_STARTED, fs_checkpoint_available = False,
     fs_part_splittable = False\<rparr>"

theorem decide_failure_is_safe_witness:
  "\<exists>d. decide_failure (sample_signal\<lparr>fs_code := ''timeout''\<rparr>) 1 = Inr d \<and> fd_disposition d \<noteq> Disp_FAIL_PERMANENT"
proof -
  have "FailureSignal_post_init sample_signal = Inr (sample_signal\<lparr>fs_code := ''timeout''\<rparr>)" by code_simp
  from decide_failure_is_safe [OF this, of 1] show ?thesis by (auto simp: sample_signal_def)
qed

text \<open>C37. Recovery is bounded: whatever requests a Run makes, the ledger grants a cause in a scope exactly as
  many attempts as it counts, never more than the policy allows, and a granted attempt never repeats
  a side effect that may have happened or follows output the user has seen.\<close>

theorem recovery_attempts_bounded:
  "attempts (drive ledger_react (new_ledger p) rs) cause scope
     = int (granted cause scope (decisions (new_ledger p) rs))
   \<and> int (granted cause scope (decisions (new_ledger p) rs)) \<le> max 0 (max_attempts p cause)
   \<and> rd_allowed (fst (decide l r)) = (\<not> rr_cancellation_requested r \<and> rr_retryable r \<and> \<not> rr_visible_output_emitted r
       \<and> (\<not> rr_may_repeat_side_effect r \<or> rr_effect_state r = Effect_NOT_STARTED)
       \<and> rr_minimum_remaining_rounds r \<le> rr_remaining_model_rounds r
       \<and> attempts l (rr_cause r) (rr_scope r) < max_attempts (rl_policy l) (rr_cause r)
       \<and> 0 < max_attempts (rl_policy l) (rr_cause r))"
proof -
  have "within_budget (drive ledger_react (new_ledger p) rs)"
    by (rule ledger.drive_inv) (simp_all add: list_all_iff)
  then have "attempts (drive ledger_react (new_ledger p) rs) cause scope \<le> max 0 (max_attempts p cause)"
    by (simp add: within_budget_def)
  moreover have "attempts (new_ledger p) cause scope = 0" by (simp add: attempts_def new_ledger_def)
  ultimately show ?thesis using attempts_drive [of "new_ledger p" rs cause scope]
    by (auto simp: denial_reason_None)
qed

definition sample_request :: recovery_request where
  "sample_request = \<lparr>rr_cause = Cause_EMPTY_MODEL_RESPONSE, rr_action = Action_RETRY_MODEL, rr_scope = ''run'',
     rr_remaining_model_rounds = 5, rr_minimum_remaining_rounds = 1, rr_retryable = True,
     rr_cancellation_requested = False, rr_visible_output_emitted = False,
     rr_effect_state = Effect_NOT_STARTED, rr_may_repeat_side_effect = True\<rparr>"

theorem recovery_attempts_bounded_witness:
  "granted Cause_EMPTY_MODEL_RESPONSE ''run'' (decisions (new_ledger STANDARD_LIMITS) (replicate 5 sample_request)) \<le> 2
   \<and> rd_allowed (fst (decide (new_ledger STANDARD_LIMITS) sample_request))"
proof -
  have "max_attempts STANDARD_LIMITS Cause_EMPTY_MODEL_RESPONSE = 2"
    "attempts (new_ledger STANDARD_LIMITS) Cause_EMPTY_MODEL_RESPONSE ''run'' = 0" by code_simp+
  then show ?thesis
    using recovery_attempts_bounded [of STANDARD_LIMITS "replicate 5 sample_request" Cause_EMPTY_MODEL_RESPONSE "''run''"
        "new_ledger STANDARD_LIMITS" sample_request]
    by (simp add: sample_request_def)
qed

text \<open>A model-ready checkpoint carries the ledger over exactly: restoring the snapshot of any ledger a Run
  reached into a new process succeeds, and from then on both ledgers answer every request alike.\<close>

theorem ledger_snapshot_roundtrip:
  "\<exists>l'. restore (new_ledger p) (snapshot (drive ledger_react (new_ledger p) rs)) = Inr l'
     \<and> snapshot l' = snapshot (drive ledger_react (new_ledger p) rs)
     \<and> (\<forall>r. fst (decide l' r) = fst (decide (drive ledger_react (new_ledger p) rs) r))"
proof -
  let ?l = "drive ledger_react (new_ledger p) rs"
  have "within_budget ?l" by (rule ledger.drive_inv) (simp_all add: list_all_iff)
  note c = within_budget_counts [OF this]
  have p: "rl_policy ?l = p" by simp
  from snapshot_restore [OF c] obtain l' where l': "restore (new_ledger p) (snapshot ?l) = Inr l'" "rl_policy l' = p"
      "map_of (rl_attempts l') = map_of (rl_attempts ?l)" "snapshot l' = snapshot ?l"
    unfolding p by blast
  then have "fst (decide l' r) = fst (decide ?l r)" for r
    by (simp add: decide_def Let_def attempts_def p)
  with l' show ?thesis by blast
qed

end
