(* ===== verification/Context_Budget.thy ===== *)
theory Context_Budget
  imports Messages
begin

text \<open>
  \<open>purra/contracts/context.py\<close> and \<open>purra/context_budget.py\<close>: how the tokens of a model's context
  window are divided between output, safety, runtime, tool schemas and named context claims, and
  how a conversation is trimmed to complete turns.

  Token counts are unbounded integers, as in Python. The default safety reserve multiplies the
  window by the double \<open>0.05\<close>; the product is computed here bit for bit (53-bit significands,
  round half to even), for windows whose conversion to a double does not overflow. Text is a
  list of characters with code points below 256.
\<close>

section \<open>Contracts\<close>

record context_budget =
  cb_window_tokens :: int
  cb_output_reserve_tokens :: int
  cb_safety_reserve_tokens :: int
  cb_runtime_reserve_tokens :: int
  cb_tool_schema_tokens :: int
  cb_provider_input_tokens :: int
  cb_minimum_message_tokens :: int
  cb_context_allocations :: "(string, int) dict"

text \<open>The normalization loop over \<open>context_allocations.items()\<close>.\<close>

fun normalize_allocations :: "(string \<times> int) list \<Rightarrow> (string, int) dict \<Rightarrow> (string, int) dict result" where
  "normalize_allocations [] allocations = Inr allocations"
| "normalize_allocations ((raw_name, raw_tokens) # rest) allocations =
     bind_result (required_text raw_name ''context allocation name'') (\<lambda>name.
     bind_result (non_negative_int raw_tokens ''context allocation tokens'') (\<lambda>tokens.
     normalize_allocations rest (AList.update name tokens allocations)))"

definition ContextBudget_post_init :: "context_budget \<Rightarrow> context_budget result" where
  "ContextBudget_post_init b =
     bind_result (positive_int (cb_window_tokens b) ''window_tokens'') (\<lambda>_.
     bind_result (non_negative_int (cb_output_reserve_tokens b) ''output_reserve_tokens'') (\<lambda>_.
     bind_result (non_negative_int (cb_safety_reserve_tokens b) ''safety_reserve_tokens'') (\<lambda>_.
     bind_result (non_negative_int (cb_runtime_reserve_tokens b) ''runtime_reserve_tokens'') (\<lambda>_.
     bind_result (non_negative_int (cb_tool_schema_tokens b) ''tool_schema_tokens'') (\<lambda>_.
     bind_result (non_negative_int (cb_provider_input_tokens b) ''provider_input_tokens'') (\<lambda>_.
     bind_result (non_negative_int (cb_minimum_message_tokens b) ''minimum_message_tokens'') (\<lambda>_.
     bind_result (normalize_allocations (cb_context_allocations b) []) (\<lambda>allocations.
     if cb_output_reserve_tokens b + cb_safety_reserve_tokens b + cb_runtime_reserve_tokens b
        + cb_tool_schema_tokens b + cb_provider_input_tokens b > cb_window_tokens b then
       Inl (ValueError ''context budget exceeds the model window'')
     else if sum_list (dict_values allocations) + cb_minimum_message_tokens b > cb_provider_input_tokens b then
       Inl (ValueError ''context allocations exceed provider input budget'')
     else Inr (b\<lparr>cb_context_allocations := allocations\<rparr>)))))))))"

definition round_input_tokens :: "context_budget \<Rightarrow> int" where
  "round_input_tokens b = cb_provider_input_tokens b + cb_runtime_reserve_tokens b"

definition context_pool_tokens :: "context_budget \<Rightarrow> int" where
  "context_pool_tokens b = max 0 (cb_provider_input_tokens b - cb_minimum_message_tokens b)"

definition allocation_for :: "context_budget \<Rightarrow> string \<Rightarrow> int" where
  "allocation_for b name = (case map_of (cb_context_allocations b) name of None \<Rightarrow> 0 | Some n \<Rightarrow> n)"

record context_budget_claim =
  cl_name :: string
  cl_desired_tokens :: int
  cl_minimum_tokens :: int
  cl_maximum_tokens :: "int option"
  cl_priority :: int

definition ContextBudgetClaim_post_init :: "context_budget_claim \<Rightarrow> context_budget_claim result" where
  "ContextBudgetClaim_post_init c =
     bind_result (required_text (cl_name c) ''context budget claim name'') (\<lambda>name.
     bind_result (non_negative_int (cl_desired_tokens c) ''context budget claim desired tokens'') (\<lambda>desired.
     bind_result (non_negative_int (cl_minimum_tokens c) ''context budget claim minimum tokens'') (\<lambda>minimum.
     bind_result (case cl_maximum_tokens c of None \<Rightarrow> Inr desired
       | Some m \<Rightarrow> non_negative_int m ''context budget claim maximum tokens'') (\<lambda>maximum.
     if minimum > desired then Inl (ValueError ''context budget claim minimum exceeds desired'')
     else if desired > maximum then Inl (ValueError ''context budget claim desired exceeds maximum'')
     else Inr (c\<lparr>cl_name := name, cl_desired_tokens := desired, cl_minimum_tokens := minimum,
       cl_maximum_tokens := Some maximum\<rparr>)))))"

record context_block =
  bk_name :: string
  bk_content :: string
  bk_token_count :: int
  bk_untrusted :: bool
  bk_host_metadata :: json_mapping

definition ContextBlock_post_init :: "context_block \<Rightarrow> context_block result" where
  "ContextBlock_post_init b =
     bind_result (required_text (bk_name b) ''context block name'') (\<lambda>name.
     bind_result (non_negative_int (bk_token_count b) ''context block token count'') (\<lambda>tokens.
     Inr (b\<lparr>bk_name := name, bk_token_count := tokens\<rparr>)))"

record context_bundle =
  bd_blocks :: "context_block list"
  bd_diagnostics :: json_mapping

definition ContextBundle_post_init :: "context_bundle \<Rightarrow> context_bundle result" where
  "ContextBundle_post_init b =
     (if \<not> distinct (map bk_name (bd_blocks b)) then Inl (ValueError ''context block names must be unique'')
      else Inr b)"

record context_evidence_receipt =
  er_evidence_id :: string
  er_context_block :: string
  er_source :: string
  er_item_id :: string
  er_version :: "int option"
  er_metadata :: json_mapping

definition ContextEvidenceReceipt_post_init :: "context_evidence_receipt \<Rightarrow> context_evidence_receipt result" where
  "ContextEvidenceReceipt_post_init e =
     bind_result (required_text (er_evidence_id e) ''evidence id'') (\<lambda>i.
     bind_result (required_text (er_context_block e) ''evidence context block'') (\<lambda>block.
     bind_result (required_text (er_source e) ''evidence source'') (\<lambda>source.
     bind_result (required_text (er_item_id e) ''evidence item id'') (\<lambda>item.
     bind_result (optional_positive_int (er_version e) ''evidence version'') (\<lambda>version.
     Inr (e\<lparr>er_evidence_id := i, er_context_block := block, er_source := source, er_item_id := item,
       er_version := version\<rparr>))))))"

definition ContextEvidenceReceipt_to_mapping :: "context_evidence_receipt \<Rightarrow> json_mapping" where
  "ContextEvidenceReceipt_to_mapping e = filter (\<lambda>(k, v). v \<notin> {JNull, JStr '''', JObj []})
     [(''evidenceId'', JStr (er_evidence_id e)),
      (''contextBlock'', JStr (er_context_block e)),
      (''source'', JStr (er_source e)),
      (''itemId'', JStr (er_item_id e)),
      (''version'', case er_version e of None \<Rightarrow> JNull | Some n \<Rightarrow> JInt n),
      (''metadata'', JObj (er_metadata e))]"

section \<open>Estimates\<close>

definition estimate_units :: "string \<Rightarrow> nat \<Rightarrow> int" where
  "estimate_units v ascii_divisor =
     (let ascii_count = length (filter (\<lambda>c. (of_char c :: nat) < 128) v);
          non_ascii_count = length v - ascii_count;
          d = max 1 ascii_divisor
      in int (non_ascii_count + (ascii_count + d - 1) div d))"

definition estimate_json_tokens :: "(int \<Rightarrow> int \<Rightarrow> string) \<Rightarrow> json \<Rightarrow> int" where
  "estimate_json_tokens R v = estimate_units (json_dumps R v) 2"

definition estimate_text_tokens :: "string option \<Rightarrow> int" where
  "estimate_text_tokens v = estimate_units (str_or_empty v) 4"

definition budget_tool_call :: "tool_call \<Rightarrow> json" where
  "budget_tool_call c = JObj
     [(''tool_call_identifier'', JStr (tc_id c)),
      (''tool_protocol_type'', JStr ''function''),
      (''function_descriptor'', JObj
        [(''tool_function_name'', JStr (tc_name c)),
         (''serialized_arguments_json'', JStr (tc_arguments_json c))])]"

definition budget_message_mapping :: "agent_message \<Rightarrow> json_mapping result" where
  "budget_message_mapping m =
     bind_result (parse_static_image_content (am_content m)) (\<lambda>img.
     let content = (case img of None \<Rightarrow> am_content m
           | Some (text, images) \<Rightarrow> JObj [(''type'', JStr STATIC_IMAGE_PROFILE), (''text'', JStr text),
               (''images'', JList (map (\<lambda>kvs. JObj (AList.update ''dataBase64'' (JStr '''') kvs)) images))]);
         v1 = AList.update ''content'' content
            (AList.update ''role'' (JStr (MessageRole_value (am_role m))) (am_attributes m));
         v2 = (case am_reasoning m of None \<Rightarrow> v1
           | Some r \<Rightarrow> AList.update ''structured_reasoning_content'' (JStr r) v1);
         v3 = (if am_tool_calls m = [] then v2
           else AList.update ''structured_tool_calls'' (JList (map budget_tool_call (am_tool_calls m))) v2);
         v4 = (case am_tool_call_id m of None \<Rightarrow> v3
           | Some i \<Rightarrow> AList.update ''tool_call_identifier'' (JStr i) v3)
     in Inr (if am_provider_data m = [] then v4
             else AList.update ''provider_continuation_data'' (JObj (am_provider_data m)) v4))"

definition budget_tool_schema :: "tool_schema \<Rightarrow> json" where
  "budget_tool_schema t = JObj
     [(''tool_protocol_type'', JStr ''function''),
      (''function_descriptor'', JObj
        [(''tool_function_name'', JStr (sch_name t)),
         (''tool_description'', JStr (sch_description t)),
         (''tool_parameters_schema'', JObj (sch_parameters t))])]"

definition estimate_tool_schema_tokens :: "(int \<Rightarrow> int \<Rightarrow> string) \<Rightarrow> tool_schema list \<Rightarrow> int" where
  "estimate_tool_schema_tokens R tools =
     (if tools = [] then 0
      else estimate_json_tokens R (JList (map budget_tool_schema tools)) + 8 * int (length tools))"

text \<open>The cost of one message in a running total; \<open>extra\<close> is the image allowance or nothing.\<close>

definition message_text_tokens :: "(int \<Rightarrow> int \<Rightarrow> string) \<Rightarrow> agent_message \<Rightarrow> int result" where
  "message_text_tokens R m =
     bind_result (budget_message_mapping m) (\<lambda>v. Inr (estimate_json_tokens R (JObj v) + 4))"

definition message_tokens :: "(int \<Rightarrow> int \<Rightarrow> string) \<Rightarrow> agent_message \<Rightarrow> int result" where
  "message_tokens R m =
     bind_result (budget_message_mapping m) (\<lambda>v.
     bind_result (image_input_tokens (am_content m)) (\<lambda>img.
     Inr (estimate_json_tokens R (JObj v) + img + 4)))"

definition estimate_agent_messages_tokens :: "(int \<Rightarrow> int \<Rightarrow> string) \<Rightarrow> agent_message list \<Rightarrow> int result" where
  "estimate_agent_messages_tokens R messages =
     bind_result (map_result (message_tokens R) messages) (\<lambda>costs. Inr (2 + sum_list costs))"

section \<open>Reserves\<close>

fun bit_length :: "nat \<Rightarrow> nat" where
  "bit_length n = (if n = 0 then 0 else Suc (bit_length (n div 2)))"

declare bit_length.simps [simp del]

definition round_half_even :: "nat \<Rightarrow> nat \<Rightarrow> nat" where
  "round_half_even p shift =
     (if shift = 0 then p
      else let q = p div 2 ^ shift; r = p mod 2 ^ shift; half = 2 ^ (shift - 1)
           in if r > half \<or> r = half \<and> odd q then q + 1 else q)"

text \<open>The double nearest to a natural number, as a natural number.\<close>

definition double_of :: "nat \<Rightarrow> nat" where
  "double_of p = (let shift = bit_length p - 53 in round_half_even p shift * 2 ^ shift)"

text \<open>\<open>math.ceil(window * 0.05)\<close>; the double \<open>0.05\<close> is \<open>3602879701896397 / 2 ^ 56\<close>.\<close>

definition ceil_times_0_05 :: "int \<Rightarrow> int" where
  "ceil_times_0_05 window =
     int ((double_of (double_of (nat window) * 3602879701896397) + (2 ^ 56 - 1)) div 2 ^ 56)"

definition fixed_context_reserves ::
    "(int \<Rightarrow> int \<Rightarrow> string) \<Rightarrow> int \<Rightarrow> tool_schema list \<Rightarrow> int option \<Rightarrow> int option \<Rightarrow> int option
     \<Rightarrow> (int \<times> int \<times> int \<times> int) result" where
  "fixed_context_reserves R window tools safety_reserve runtime_reserve minimum_message =
     (let schema_tokens = estimate_tool_schema_tokens R tools;
          safety = (case safety_reserve of Some n \<Rightarrow> n
            | None \<Rightarrow> min 64000 (max 4096 (ceil_times_0_05 window)));
          runtime = (case runtime_reserve of Some n \<Rightarrow> n
            | None \<Rightarrow> if tools \<noteq> [] then min 64000 (max 4096 (window div 10))
                else min 16000 (max 2048 (window div 25)));
          minimum = (case minimum_message of Some n \<Rightarrow> n
            | None \<Rightarrow> min 8192 (max 1024 (window div 100)))
      in if min safety (min runtime minimum) < 0 then Inl (ValueError ''context reserves must be non-negative'')
         else Inr (safety, runtime, schema_tokens, minimum))"

section \<open>Allocation\<close>

definition validate_context_claims :: "context_budget_claim list \<Rightarrow> string \<Rightarrow> context_budget_claim list result" where
  "validate_context_claims claims source =
     (if \<not> distinct (map cl_name claims) then Inl (ValueError (source @ '' contains duplicate names''))
      else Inr claims)"

definition proportional_shares :: "int list \<Rightarrow> int \<Rightarrow> int list" where
  "proportional_shares weights available =
     (let sum0 = sum_list (map (max 0) weights); pool = max 0 available in
      if sum0 \<le> 0 \<or> pool \<le> 0 then map (\<lambda>_. 0) weights
      else
        let qrs = map (\<lambda>w. (max 0 w * pool div sum0, max 0 w * pool mod sum0)) weights;
            shares = map fst qrs;
            remaining = pool - sum_list shares;
            order = sort_key (\<lambda>i. - snd (qrs ! i)) [0..<length weights]
        in fold (\<lambda>i s. s[i := s ! i + 1]) (take (nat remaining) order) shares)"

definition claim_allocation :: "(string, int) dict \<Rightarrow> string \<Rightarrow> int" where
  "claim_allocation allocations name = (case map_of allocations name of None \<Rightarrow> 0 | Some n \<Rightarrow> n)"

text \<open>\<open>for claim, extra in zip(group, extras): allocations[claim.name] += extra\<close>.\<close>

definition add_allocations ::
    "(context_budget_claim \<times> int) list \<Rightarrow> (string, int) dict \<Rightarrow> (string, int) dict" where
  "add_allocations extras allocations = fold (\<lambda>(claim, n) d.
     AList.update (cl_name claim) (claim_allocation d (cl_name claim) + n) d) extras allocations"

fun allocate_priorities ::
    "context_budget_claim list \<Rightarrow> int list \<Rightarrow> (string, int) dict \<Rightarrow> int \<Rightarrow> (string, int) dict" where
  "allocate_priorities claims [] allocations remaining = allocations"
| "allocate_priorities claims (priority # priorities) allocations remaining =
     (let group = filter (\<lambda>c. cl_priority c = priority) claims;
          needs = map (\<lambda>c. max 0 (cl_desired_tokens c - claim_allocation allocations (cl_name c))) group;
          needed_total = sum_list needs
      in if needed_total \<le> 0 then allocate_priorities claims priorities allocations remaining
         else if needed_total \<le> remaining then
           allocate_priorities claims priorities (add_allocations (zip group needs) allocations)
             (remaining - needed_total)
         else add_allocations (zip group (proportional_shares needs remaining)) allocations)"

definition allocate_claims :: "context_budget_claim list \<Rightarrow> int \<Rightarrow> (string, int) dict result" where
  "allocate_claims claims available_tokens =
     (if claims = [] then Inr []
      else let available = max 0 available_tokens;
               minimum_total = sum_list (map cl_minimum_tokens claims)
           in if minimum_total > available then
                Inl (ContextOverflow ''minimum_context_demand_exceeds_pool'')
              else Inr (allocate_priorities claims (rev (sort (remdups (map cl_priority claims))))
                (map (\<lambda>c. (cl_name c, cl_minimum_tokens c)) claims) (available - minimum_total)))"

definition allocate_context_budget ::
    "(int \<Rightarrow> int \<Rightarrow> string) \<Rightarrow> int \<Rightarrow> int \<Rightarrow> tool_schema list \<Rightarrow> context_budget_claim list
     \<Rightarrow> int option \<Rightarrow> int option \<Rightarrow> int option \<Rightarrow> context_budget result" where
  "allocate_context_budget R window out tools claims safety_reserve runtime_reserve minimum_message =
     (if window \<le> 0 then Inl (ValueError ''context window must be positive'')
      else if out \<le> 0 then Inl (ValueError ''output reserve must be positive'')
      else
      bind_result (fixed_context_reserves R window tools safety_reserve runtime_reserve minimum_message)
        (\<lambda>(safety, runtime, schema_tokens, minimum).
      let provider_input = window - out - safety - runtime - schema_tokens in
      if provider_input < minimum then Inl (ContextOverflow ''fixed_reserves_exceed_window'')
      else
      bind_result (validate_context_claims claims ''context budget'') (\<lambda>normalized_claims.
      bind_result (allocate_claims normalized_claims (max 0 (provider_input - minimum))) (\<lambda>allocations.
      ContextBudget_post_init
        \<lparr>cb_window_tokens = window, cb_output_reserve_tokens = out, cb_safety_reserve_tokens = safety,
         cb_runtime_reserve_tokens = runtime, cb_tool_schema_tokens = schema_tokens,
         cb_provider_input_tokens = provider_input, cb_minimum_message_tokens = minimum,
         cb_context_allocations = allocations\<rparr>))))"

definition max_generation_tokens_for_context ::
    "(int \<Rightarrow> int \<Rightarrow> string) \<Rightarrow> int \<Rightarrow> tool_schema list \<Rightarrow> int option \<Rightarrow> int option \<Rightarrow> int option \<Rightarrow> int result" where
  "max_generation_tokens_for_context R window tools safety_reserve runtime_reserve minimum_message =
     (if window \<le> 0 then Inl (ValueError ''context window must be positive'')
      else
      bind_result (fixed_context_reserves R window tools safety_reserve runtime_reserve minimum_message)
        (\<lambda>(safety, runtime, schemas, minimum).
      let maximum = window - safety - runtime - schemas - minimum in
      if maximum \<le> 0 then Inl (ContextOverflow ''fixed_reserves_exceed_window'') else Inr maximum))"

definition max_generation_tokens_for_actual_input ::
    "(int \<Rightarrow> int \<Rightarrow> string) \<Rightarrow> int \<Rightarrow> agent_message list \<Rightarrow> tool_schema list \<Rightarrow> int option \<Rightarrow> int option \<Rightarrow> int result" where
  "max_generation_tokens_for_actual_input R window messages tools safety_reserve runtime_reserve =
     (if window \<le> 0 then Inl (ValueError ''context window must be positive'')
      else
      bind_result (fixed_context_reserves R window tools
          (Some (case safety_reserve of None \<Rightarrow> 0 | Some n \<Rightarrow> n))
          (Some (case runtime_reserve of None \<Rightarrow> 0 | Some n \<Rightarrow> n)) (Some 0))
        (\<lambda>(safety, runtime, schemas, _).
      bind_result (estimate_agent_messages_tokens R messages) (\<lambda>input_tokens.
      let maximum = window - safety - runtime - schemas - input_tokens in
      if maximum \<le> 0 then Inl (ContextOverflow ''compiled_input_exceeds_window'') else Inr maximum)))"

text \<open>
  \<open>context_budget_contract_error\<close>; of the request only the declared context window is read.
\<close>

definition context_budget_contract_error ::
    "(int \<Rightarrow> int \<Rightarrow> string) \<Rightarrow> int option \<Rightarrow> context_budget option \<Rightarrow> tool_schema list \<Rightarrow> string option" where
  "context_budget_contract_error R request_window budget configured_tools =
     (case budget of
        None \<Rightarrow> None
      | Some b \<Rightarrow>
          if request_window \<noteq> Some (cb_window_tokens b) then Some ''context_budget_window_mismatch''
          else if estimate_tool_schema_tokens R configured_tools \<noteq> cb_tool_schema_tokens b then
            Some ''context_budget_tool_schema_mismatch''
          else if cb_output_reserve_tokens b \<le> 0 then Some ''context_budget_output_reserve_invalid''
          else None)"

section \<open>Trimming\<close>

definition protected_message :: "agent_message \<Rightarrow> bool" where
  "protected_message m \<longleftrightarrow> am_role m \<in> {Role_SYSTEM, Role_DEVELOPER} \<or> am_origin m = Origin_HOST_CONTEXT"

type_synonym indexed = "nat \<times> agent_message"

text \<open>The loop that collects protected messages and complete turns.\<close>

fun split_turns ::
    "indexed list \<Rightarrow> indexed list \<Rightarrow> indexed list list \<Rightarrow> indexed list \<Rightarrow> indexed list \<times> indexed list list" where
  "split_turns [] protected turns current =
     (protected, if current \<noteq> [] then turns @ [current] else turns)"
| "split_turns ((index, message) # rest) protected turns current =
     (if protected_message message then
        split_turns rest (protected @ [(index, message)])
          (if current \<noteq> [] then turns @ [current] else turns) []
      else if am_role message = Role_USER \<and> current \<noteq> [] then
        split_turns rest protected (turns @ [current]) [(index, message)]
      else split_turns rest protected turns (current @ [(index, message)]))"

definition row_tokens :: "(int \<Rightarrow> int \<Rightarrow> string) \<Rightarrow> indexed list \<Rightarrow> int result" where
  "row_tokens R rows = bind_result (map_result (\<lambda>(i, m). message_text_tokens R m) rows) (\<lambda>costs.
     Inr (sum_list costs))"

text \<open>The loop over the turns, newest first, until one does not fit.\<close>

fun select_turns ::
    "(int \<Rightarrow> int \<Rightarrow> string) \<Rightarrow> int \<Rightarrow> int option \<Rightarrow> bool \<Rightarrow> indexed list list \<Rightarrow> nat set \<Rightarrow> int \<Rightarrow> int
     \<Rightarrow> nat set result" where
  "select_turns R budget max_recent required [] selected count used = Inr selected"
| "select_turns R budget max_recent required (turn # turns) selected count used =
     bind_result (row_tokens R turn) (\<lambda>turn_cost.
     let count_fits = (case max_recent of None \<Rightarrow> True
           | Some n \<Rightarrow> count + int (length turn) \<le> max 1 n)
     in if required \<or> count_fits \<and> used + turn_cost \<le> max 0 budget then
          select_turns R budget max_recent False turns (selected \<union> fst ` set turn)
            (count + int (length turn)) (used + turn_cost)
        else Inr selected)"

record trimmed_agent_messages =
  tm_messages :: "agent_message list"
  tm_dropped_count :: int
  tm_token_estimate :: int
  tm_overflow_tokens :: int

definition trim_agent_messages_by_turn ::
    "(int \<Rightarrow> int \<Rightarrow> string) \<Rightarrow> agent_message list \<Rightarrow> int \<Rightarrow> int option \<Rightarrow> trimmed_agent_messages result" where
  "trim_agent_messages_by_turn R messages token_budget max_recent =
     (let rows = enumerate 0 messages; (protected, turns) = split_turns rows [] [] [] in
      bind_result (row_tokens R protected) (\<lambda>protected_cost.
      bind_result (select_turns R token_budget max_recent True (rev turns) (fst ` set protected) 0 (2 + protected_cost))
        (\<lambda>selected_indices.
      let selected = map snd (filter (\<lambda>(i, m). i \<in> selected_indices) rows) in
      bind_result (estimate_agent_messages_tokens R selected) (\<lambda>actual.
      Inr \<lparr>tm_messages = selected, tm_dropped_count = max 0 (int (length messages) - int (length selected)),
           tm_token_estimate = actual, tm_overflow_tokens = max 0 (actual - max 0 token_budget)\<rparr>))))"

end
