(* ===== verification/Context_Laws.thy ===== *)
theory Context_Laws
  imports Context_Budget "HOL-Library.Multiset"
begin

text \<open>
  Lemmas on the context budget: the largest-remainder division of a pool, the priority rounds over
  the claims, the account of the whole window, and the selection of complete turns.
\<close>

section \<open>Proportional shares\<close>

lemma sum_list_bump: "i < length s \<Longrightarrow> sum_list (s[i := s ! i + 1]) = sum_list s + (1 :: int)"
proof (induction s arbitrary: i)
  case (Cons x s)
  then show ?case by (cases i) auto
qed simp

lemma insort_key_cong: "f x = g x \<Longrightarrow> (\<And>y. y \<in> set xs \<Longrightarrow> f y = g y) \<Longrightarrow> insort_key f x xs = insort_key g x xs"
  by (induction xs) auto

lemma sort_key_cong: "(\<And>x. x \<in> set xs \<Longrightarrow> f x = g x) \<Longrightarrow> sort_key f xs = sort_key g xs"
proof (induction xs)
  case (Cons x xs)
  then show ?case using insort_key_cong [of f x g "sort_key g xs"] by simp
qed simp

lemma bump_list:
  fixes s :: "int list"
  assumes "distinct is" and "\<forall>i \<in> set is. i < length s"
  shows "length (fold (\<lambda>i s. s[i := s ! i + 1]) is s) = length s
    \<and> (\<forall>j < length s. fold (\<lambda>i s. s[i := s ! i + 1]) is s ! j = s ! j + of_bool (j \<in> set is))
    \<and> sum_list (fold (\<lambda>i s. s[i := s ! i + 1]) is s) = sum_list s + int (length is)"
  using assms
proof (induction "is" arbitrary: s)
  case (Cons i "is")
  let ?s = "s[i := s ! i + 1]"
  have pre: "distinct is" "\<forall>i \<in> set is. i < length ?s" "i < length s" "i \<notin> set is" using Cons.prems by simp_all
  show ?case
    using Cons.IH [OF pre(1,2)] pre(3,4) by (auto simp: nth_list_update sum_list_bump)
qed simp

lemma sum_list_div_mod:
  fixes m :: int
  shows "sum_list (map (\<lambda>x. f x) xs) = m * sum_list (map (\<lambda>x. f x div m) xs) + sum_list (map (\<lambda>x. f x mod m) xs)"
  by (induction xs) (auto simp: algebra_simps)

lemma sum_list_less_count:
  fixes f :: "'a \<Rightarrow> int"
  assumes "\<And>x. x \<in> set xs \<Longrightarrow> 0 \<le> f x \<and> f x < m"
  shows "sum_list (map f xs) \<le> int (length (filter (\<lambda>x. f x > 0) xs)) * (m - 1)"
  using assms
proof (induction xs)
  case (Cons x xs)
  have x: "0 \<le> f x" "f x < m" using Cons.prems by simp_all
  have IH: "sum_list (map f xs) \<le> int (length (filter (\<lambda>x. f x > 0) xs)) * (m - 1)" using Cons by simp
  then show ?case using x by (auto simp: algebra_simps)
qed simp

text \<open>With a descending order, a prefix no longer than the number of positive entries has only those.\<close>

lemma take_positive:
  fixes f :: "nat \<Rightarrow> int"
  assumes "k \<le> length (filter (\<lambda>i. f i > 0) xs)" and "i \<in> set (take k (sort_key (\<lambda>i. - f i) xs))"
  shows "f i > 0"
proof (rule ccontr)
  let ?ys = "sort_key (\<lambda>i. - f i) xs"
  assume neg: "\<not> f i > 0"
  from assms(2) obtain j where j: "j < k" "j < length ?ys" "?ys ! j = i" by (auto simp: in_set_conv_nth)
  have "sorted (map (\<lambda>i. - f i) ?ys)" by (rule sorted_sort_key)
  then have "\<not> f (?ys ! l) > 0" if "j \<le> l" "l < length ?ys" for l
    using that j neg sorted_nth_mono [of "map (\<lambda>i. - f i) ?ys" j l] by force
  then have "\<forall>x \<in> set (drop j ?ys). \<not> f x > 0" by (auto simp: in_set_conv_nth)
  then have "filter (\<lambda>i. f i > 0) (drop j ?ys) = []" by (simp add: filter_empty_conv)
  then have "length (filter (\<lambda>i. f i > 0) ?ys) = length (filter (\<lambda>i. f i > 0) (take j ?ys))"
    by (metis append_take_drop_id filter_append append_Nil2)
  also have "\<dots> \<le> j" by (metis length_filter_le length_take le_trans min.cobounded2)
  also have "length (filter (\<lambda>i. f i > 0) ?ys) = length (filter (\<lambda>i. f i > 0) xs)"
    by (metis mset_filter mset_sort size_mset)
  finally show False using assms(1) j(1) by simp
qed

lemma proportional_shares_props:
  assumes nn: "\<forall>w \<in> set weights. 0 \<le> w" and pool: "0 \<le> available" "available \<le> sum_list weights"
  defines "shares \<equiv> proportional_shares weights available"
  shows "length shares = length weights" and "sum_list shares = available"
    and "i < length weights \<Longrightarrow> 0 \<le> shares ! i \<and> shares ! i \<le> weights ! i
      \<and> \<bar>shares ! i * sum_list weights - weights ! i * available\<bar> < max 1 (sum_list weights)"
proof -
  define m where "m = sum_list weights"
  have mx: "map (max 0) weights = weights" using nn by (auto intro: map_idI)
  have m: "sum_list (map (max 0) weights) = m" by (simp add: mx m_def)
  have goal: "length shares = length weights \<and> sum_list shares = available
    \<and> (\<forall>i < length weights. 0 \<le> shares ! i \<and> shares ! i \<le> weights ! i
      \<and> \<bar>shares ! i * m - weights ! i * available\<bar> < max 1 m)"
  proof (cases "available = 0")
    case True
    then have "shares = map (\<lambda>_. 0) weights" by (simp add: shares_def proportional_shares_def)
    then show ?thesis using nn True by (simp add: less_max_iff_disj)
  next
    case False
    then have pos: "0 < available" "0 < m" using pool by (auto simp: m_def)
    define q where "q = (\<lambda>i. weights ! i * available div m)"
    define r where "r = (\<lambda>i. weights ! i * available mod m)"
    define base where "base = map q [0..<length weights]"
    define order where "order = sort_key (\<lambda>i. - r i) [0..<length weights]"
    define rest where "rest = nat (available - sum_list base)"
    have wi: "0 \<le> weights ! i" if "i < length weights" for i using nn that by simp
    have fstq: "map fst (map (\<lambda>w. (max 0 w * available div m, max 0 w * available mod m)) weights) = base"
      unfolding base_def q_def by (rule nth_equalityI) (auto simp: wi)
    have ord: "sort_key (\<lambda>i. - snd (map (\<lambda>w. (max 0 w * available div m, max 0 w * available mod m)) weights ! i)) [0..<length weights] = order"
      unfolding order_def r_def by (rule sort_key_cong) (auto simp: wi)
    have shares: "shares = fold (\<lambda>i s. s[i := s ! i + 1]) (take rest order) base"
      unfolding shares_def proportional_shares_def Let_def m
      using pos fstq ord by (simp add: rest_def max_def)
    have "map (\<lambda>i. weights ! i * available) [0..<length weights] = map (\<lambda>w. w * available) weights"
      by (rule nth_equalityI) simp_all
    then have tot: "sum_list (map (\<lambda>i. weights ! i * available) [0..<length weights]) = m * available"
      by (simp add: sum_list_mult_const m_def)
    have split: "m * available = m * sum_list base + sum_list (map r [0..<length weights])"
      using sum_list_div_mod [of "\<lambda>i. weights ! i * available" "[0..<length weights]" m] tot
      by (simp add: base_def q_def r_def)
    have r: "0 \<le> r i \<and> r i < m" for i using pos by (simp add: r_def)
    let ?pos = "length (filter (\<lambda>i. r i > 0) [0..<length weights])"
    have "sum_list (map r [0..<length weights]) \<le> int ?pos * (m - 1)"
      by (rule sum_list_less_count) (use r in blast)
    moreover have nnr: "0 \<le> sum_list (map r [0..<length weights])"
      by (rule sum_list_nonneg) (use r in auto)
    ultimately have "m * (available - sum_list base) \<le> int ?pos * (m - 1)" "0 \<le> m * (available - sum_list base)"
      using split by (simp_all add: algebra_simps)
    then have rest: "0 \<le> available - sum_list base" "available - sum_list base \<le> int ?pos"
    proof -
      show 0: "0 \<le> available - sum_list base"
        using \<open>0 \<le> m * (available - sum_list base)\<close> pos(2) by (simp add: zero_le_mult_iff)
      show "available - sum_list base \<le> int ?pos"
      proof (rule ccontr)
        assume "\<not> available - sum_list base \<le> int ?pos"
        then have "int ?pos < available - sum_list base" by simp
        then have "m * int ?pos < m * (available - sum_list base)" using pos(2) by simp
        moreover have "int ?pos * (m - 1) \<le> m * int ?pos" by (simp add: algebra_simps)
        ultimately show False using \<open>m * (available - sum_list base) \<le> int ?pos * (m - 1)\<close> by linarith
      qed
    qed
    have dist: "distinct (take rest order)" "\<forall>i \<in> set (take rest order). i < length base"
      by (auto simp: order_def base_def dest: in_set_takeD)
    note bump = bump_list [OF dist]
    have posr: "r i > 0" if "i \<in> set (take rest order)" for i
      using take_positive [of rest r "[0..<length weights]" i] that rest by (simp add: order_def rest_def)
    have len: "length (take rest order) = rest"
    proof -
      have "rest \<le> ?pos" using rest by (simp add: rest_def)
      also have "\<dots> \<le> length weights" by (metis diff_zero length_filter_le length_upt)
      finally show ?thesis by (simp add: order_def)
    qed
    have "sum_list shares = available" using bump len rest(1) by (simp add: shares rest_def)
    moreover have "0 \<le> shares ! i \<and> shares ! i \<le> weights ! i \<and> \<bar>shares ! i * m - weights ! i * available\<bar> < max 1 m"
      if i: "i < length weights" for i
    proof -
      have si: "shares ! i = q i + of_bool (i \<in> set (take rest order))"
        using bump i by (simp add: shares base_def)
      have qr: "weights ! i * available = m * q i + r i" by (simp add: q_def r_def)
      have q0: "0 \<le> q i" using wi [OF i] pos by (simp add: q_def pos_imp_zdiv_nonneg_iff)
      have "weights ! i * available \<le> weights ! i * m"
        using wi [OF i] pool by (simp add: mult_left_mono m_def)
      then have le: "m * q i + r i \<le> m * weights ! i" using qr by (simp add: algebra_simps)
      have qw: "q i \<le> weights ! i"
      proof (rule ccontr)
        assume "\<not> q i \<le> weights ! i"
        then have "m * (weights ! i + 1) \<le> m * q i" using pos(2) by simp
        then show False using le r [of i] pos(2) by (simp add: algebra_simps)
      qed
      have "q i < weights ! i" if "r i > 0"
      proof (rule ccontr)
        assume "\<not> q i < weights ! i"
        then have "q i = weights ! i" using qw by simp
        then show False using le that by simp
      qed
      then have "shares ! i \<le> weights ! i" using si qw posr by auto
      moreover have "\<bar>shares ! i * m - weights ! i * available\<bar> < max 1 m"
        using si qr r [of i] posr [of i] pos(2) by (auto simp: algebra_simps)
      ultimately show ?thesis using si q0 by auto
    qed
    moreover have "length shares = length weights" using bump by (simp add: shares base_def)
    ultimately show ?thesis by blast
  qed
  then show "length shares = length weights" "sum_list shares = available"
    "i < length weights \<Longrightarrow> 0 \<le> shares ! i \<and> shares ! i \<le> weights ! i
      \<and> \<bar>shares ! i * sum_list weights - weights ! i * available\<bar> < max 1 (sum_list weights)"
    by (simp_all add: m_def)
qed

section \<open>Claims\<close>

definition claim_ok :: "context_budget_claim \<Rightarrow> bool" where
  "claim_ok c \<longleftrightarrow> clean_id (cl_name c) \<and> 0 \<le> cl_minimum_tokens c \<and> cl_minimum_tokens c \<le> cl_desired_tokens c"

lemma ContextBudgetClaim_post_init_ok: "ContextBudgetClaim_post_init c = Inr c' \<Longrightarrow> claim_ok c'"
  by (auto simp: ContextBudgetClaim_post_init_def claim_ok_def bind_result_Inr_iff normalizer_Inr
      dest: required_text_result_clean split: if_splits)

abbreviation tokens_total :: "(string, int) dict \<Rightarrow> int" where
  "tokens_total d \<equiv> sum_list (dict_values d)"

lemma tokens_total_update:
  assumes "distinct (map fst d)" and "k \<in> fst ` set d"
  shows "tokens_total (AList.update k (claim_allocation d k + n) d) = tokens_total d + n"
    and "map fst (AList.update k v d) = map fst d"
  using assms by (induction d) (auto simp: claim_allocation_def)

lemma claim_allocation_update [simp]:
  "claim_allocation (AList.update k v d) j = (if j = k then v else claim_allocation d j)"
  by (simp add: claim_allocation_def)

lemma add_allocations_Cons:
  "add_allocations ((c, n) # extras) d
     = add_allocations extras (AList.update (cl_name c) (claim_allocation d (cl_name c) + n) d)"
  by (simp add: add_allocations_def)

lemma add_allocations_props:
  assumes "distinct (map fst d)" and "cl_name ` set cs \<subseteq> fst ` set d" and "distinct (map cl_name cs)"
    and "length ns = length cs"
  shows "map fst (add_allocations (zip cs ns) d) = map fst d
    \<and> tokens_total (add_allocations (zip cs ns) d) = tokens_total d + sum_list ns
    \<and> (\<forall>i < length cs. claim_allocation (add_allocations (zip cs ns) d) (cl_name (cs ! i))
         = claim_allocation d (cl_name (cs ! i)) + ns ! i)
    \<and> (\<forall>k. k \<notin> cl_name ` set cs \<longrightarrow> claim_allocation (add_allocations (zip cs ns) d) k = claim_allocation d k)"
  using assms
proof (induction cs arbitrary: ns d)
  case Nil
  then show ?case by (simp add: add_allocations_def)
next
  case (Cons c cs)
  then obtain n ns' where ns: "ns = n # ns'" "length ns' = length cs" by (cases ns) auto
  let ?d = "AList.update (cl_name c) (claim_allocation d (cl_name c) + n) d"
  have k: "cl_name c \<in> fst ` set d" using Cons.prems(2) by simp
  note u = tokens_total_update [OF Cons.prems(1) k]
  have "fst ` set ?d = fst ` set d" using u(2) by (metis list.set_map)
  then have "cl_name ` set cs \<subseteq> fst ` set ?d" "distinct (map fst ?d)" "distinct (map cl_name cs)"
    using Cons.prems u(2) by auto
  note IH = Cons.IH [OF this(2,1,3) ns(2)]
  have c: "cl_name c \<notin> cl_name ` set cs" using Cons.prems(3) by auto
  have ne: "cl_name (cs ! i) \<noteq> cl_name c" if "i < length cs" for i using c that by (metis image_eqI nth_mem)
  have "claim_allocation (add_allocations (zip (c # cs) ns) d) (cl_name ((c # cs) ! i))
         = claim_allocation d (cl_name ((c # cs) ! i)) + ns ! i" if "i < length (c # cs)" for i
    using that IH c ne by (cases i) (auto simp: ns(1) add_allocations_Cons)
  then show ?case using IH u by (auto simp: ns(1) add_allocations_Cons)
qed

lemma tokens_total_claims:
  assumes "distinct (map cl_name claims)" and "map fst d = map cl_name claims"
  shows "tokens_total d = sum_list (map (\<lambda>c. claim_allocation d (cl_name c)) claims)"
proof -
  have "distinct (map fst d)" using assms by simp
  then have "dict_values d = map (claim_allocation d) (map fst d)"
    by (auto simp: claim_allocation_def intro!: nth_equalityI)
  then show ?thesis unfolding assms(2) by (simp add: comp_def)
qed

lemma sum_list_filter_le:
  fixes f :: "'a \<Rightarrow> int"
  shows "(\<And>x. x \<in> set xs \<Longrightarrow> 0 \<le> f x) \<Longrightarrow> sum_list (map f (filter P xs)) \<le> sum_list (map f xs)"
  by (induction xs) (auto intro: add_increasing)

lemma sum_list_nonpos_zero:
  fixes f :: "'a \<Rightarrow> int"
  assumes "\<And>x. x \<in> set xs \<Longrightarrow> 0 \<le> f x" and "sum_list (map f xs) \<le> 0" and "x \<in> set xs"
  shows "f x = 0"
proof -
  have "f x \<le> sum_list (map f xs)" using assms(1,3) by (intro member_le_sum_list) auto
  then show ?thesis using assms by force
qed

lemma allocate_priorities_props:
  assumes names: "distinct (map cl_name claims)" and ok: "\<forall>c \<in> set claims. claim_ok c"
    and "map fst d = map cl_name claims" and "sorted_wrt (>) ps"
    and "\<forall>c \<in> set claims. claim_allocation d (cl_name c)
      = (if cl_priority c \<in> set ps then cl_minimum_tokens c else cl_desired_tokens c)"
    and "\<forall>c \<in> set claims. cl_priority c \<notin> set ps \<longrightarrow> (\<forall>p \<in> set ps. p < cl_priority c)" and "0 \<le> remaining"
  shows "map fst (allocate_priorities claims ps d remaining) = map cl_name claims
    \<and> (\<forall>c \<in> set claims. cl_minimum_tokens c \<le> claim_allocation (allocate_priorities claims ps d remaining) (cl_name c)
        \<and> claim_allocation (allocate_priorities claims ps d remaining) (cl_name c) \<le> cl_desired_tokens c)
    \<and> tokens_total (allocate_priorities claims ps d remaining)
        = tokens_total d + min remaining (sum_list (map cl_desired_tokens claims) - tokens_total d)
    \<and> (\<forall>c \<in> set claims. \<forall>e \<in> set claims. cl_priority e < cl_priority c
        \<longrightarrow> cl_minimum_tokens e < claim_allocation (allocate_priorities claims ps d remaining) (cl_name e)
        \<longrightarrow> claim_allocation (allocate_priorities claims ps d remaining) (cl_name c) = cl_desired_tokens c)"
  using assms(3-7)
proof (induction ps arbitrary: d remaining)
  case Nil
  have "tokens_total d = sum_list (map cl_desired_tokens claims)"
    unfolding tokens_total_claims [OF names Nil.prems(1)] using Nil.prems(3) by (intro arg_cong [of _ _ sum_list] map_cong) auto
  then show ?case using Nil.prems ok by (auto simp: claim_ok_def)
next
  case (Cons p ps)
  let ?g = "filter (\<lambda>c. cl_priority c = p) claims"
  let ?need = "\<lambda>c. cl_desired_tokens c - cl_minimum_tokens c"
  have nn: "0 \<le> ?need c" if "c \<in> set claims" for c using ok that by (simp add: claim_ok_def)
  have needs: "map (\<lambda>c. max 0 (cl_desired_tokens c - claim_allocation d (cl_name c))) ?g = map ?need ?g"
    using Cons.prems(3) nn by (intro map_cong) auto
  have pmax: "q < p" if "q \<in> set ps" for q using Cons.prems(2) that by simp
  then have pnew: "p \<notin> set ps" by blast
  have gsub: "cl_name ` set ?g \<subseteq> fst ` set d" using Cons.prems(1) by (metis filter_is_subset image_mono list.set_map)
  have gdist: "distinct (map cl_name ?g)" using names by (simp add: distinct_map_filter)
  have dd: "distinct (map fst d)" using Cons.prems(1) names by simp
  have above: "\<forall>c \<in> set claims. cl_priority c \<notin> set ps \<longrightarrow> (\<forall>q \<in> set ps. q < cl_priority c)"
  proof (intro ballI impI)
    fix c q assume "c \<in> set claims" "cl_priority c \<notin> set ps" "q \<in> set ps"
    then show "q < cl_priority c" using Cons.prems(4) pmax by (cases "cl_priority c = p") simp_all
  qed
  have sps: "sorted_wrt (>) ps" using Cons.prems(2) by simp
  have gidx: "\<exists>i < length ?g. c = ?g ! i" if "c \<in> set claims" "cl_priority c = p" for c
  proof -
    have "c \<in> set ?g" using that by simp
    then show ?thesis by (metis in_set_conv_nth)
  qed
  have gin: "?g ! i \<in> set claims" "cl_priority (?g ! i) = p" if "i < length ?g" for i
    using nth_mem [OF that] by simp_all
  have gout: "cl_name c \<notin> cl_name ` set ?g" if "c \<in> set claims" "cl_priority c \<noteq> p" for c
    using that names by (auto simp: distinct_map dest: inj_onD)
  let ?total = "sum_list (map ?need ?g)"
  consider "?total \<le> 0" | "\<not> ?total \<le> 0" "?total \<le> remaining" | "\<not> ?total \<le> 0" "\<not> ?total \<le> remaining" by linarith
  then show ?case
  proof cases
    case 1
    have full: "cl_minimum_tokens c = cl_desired_tokens c" if "c \<in> set claims" "cl_priority c = p" for c
      using sum_list_nonpos_zero [of ?g ?need c] nn 1 that by auto
    have st: "\<forall>c \<in> set claims. claim_allocation d (cl_name c)
        = (if cl_priority c \<in> set ps then cl_minimum_tokens c else cl_desired_tokens c)"
      using Cons.prems(3) full pnew by auto
    have eq: "allocate_priorities claims (p # ps) d remaining = allocate_priorities claims ps d remaining"
      using 1 by (simp only: allocate_priorities.simps Let_def needs if_True)
    show ?thesis unfolding eq by (rule Cons.IH [OF Cons.prems(1) sps st above Cons.prems(5)])
  next
    case 2
    let ?d = "add_allocations (zip ?g (map ?need ?g)) d"
    note a = add_allocations_props [OF dd gsub gdist, of "map ?need ?g", simplified length_map, OF refl]
    have st: "\<forall>c \<in> set claims. claim_allocation ?d (cl_name c)
        = (if cl_priority c \<in> set ps then cl_minimum_tokens c else cl_desired_tokens c)"
    proof
      fix c assume c: "c \<in> set claims"
      show "claim_allocation ?d (cl_name c) = (if cl_priority c \<in> set ps then cl_minimum_tokens c else cl_desired_tokens c)"
      proof (cases "cl_priority c = p")
        case True
        then obtain i where "i < length ?g" "c = ?g ! i" using gidx c by blast
        then have "claim_allocation ?d (cl_name c) = claim_allocation d (cl_name c) + ?need c" using a by simp
        then show ?thesis using Cons.prems(3) c True pnew by auto
      next
        case False
        then have "claim_allocation ?d (cl_name c) = claim_allocation d (cl_name c)" using a gout c by blast
        then show ?thesis using Cons.prems(3) c False by auto
      qed
    qed
    have eq: "allocate_priorities claims (p # ps) d remaining = allocate_priorities claims ps ?d (remaining - ?total)"
      using 2 by (simp only: allocate_priorities.simps Let_def needs if_True if_False)
    have amount: "tokens_total d + ?total + min (remaining - ?total) (x - (tokens_total d + ?total))
        = tokens_total d + min remaining (x - tokens_total d)" for x by linarith
    have d: "map fst ?d = map cl_name claims" "tokens_total ?d = tokens_total d + ?total"
      using a Cons.prems(1) by simp_all
    have "0 \<le> remaining - ?total" using 2 by simp
    note IH = Cons.IH [OF d(1) sps st above this]
    show ?thesis unfolding eq using IH unfolding d(2) amount .
  next
    case 3
    let ?ns = "proportional_shares (map ?need ?g) remaining"
    let ?r = "add_allocations (zip ?g ?ns) d"
    have w: "\<forall>w \<in> set (map ?need ?g). 0 \<le> w" "0 \<le> remaining" "remaining \<le> ?total"
      using nn 3 Cons.prems(5) by auto
    note sh = proportional_shares_props [OF w]
    have sh3: "0 \<le> ?ns ! i" "?ns ! i \<le> ?need (?g ! i)" if "i < length ?g" for i
      using sh(3) [of i] that by simp_all
    have len: "length ?ns = length ?g" using sh(1) by simp
    note a = add_allocations_props [OF dd gsub gdist len]
    have r: "allocate_priorities claims (p # ps) d remaining = ?r"
      using 3 by (simp only: allocate_priorities.simps Let_def needs if_False)
    have inr: "\<exists>i < length ?g. claim_allocation ?r (cl_name c) = cl_minimum_tokens c + ?ns ! i \<and> c = ?g ! i"
      if c: "c \<in> set claims" "cl_priority c = p" for c
    proof -
      obtain i where i: "i < length ?g" "c = ?g ! i" using gidx [OF c] by blast
      then have "claim_allocation ?r (cl_name c) = claim_allocation d (cl_name c) + ?ns ! i" using a by simp
      then show ?thesis using Cons.prems(3) c i by (intro exI [of _ i]) simp
    qed
    have out: "claim_allocation ?r (cl_name c) = (if cl_priority c \<in> set ps then cl_minimum_tokens c else cl_desired_tokens c)"
      if "c \<in> set claims" "cl_priority c \<noteq> p" for c
      using a gout [OF that] Cons.prems(3) that by auto
    have bounds: "cl_minimum_tokens c \<le> claim_allocation ?r (cl_name c) \<and> claim_allocation ?r (cl_name c) \<le> cl_desired_tokens c"
      if c: "c \<in> set claims" for c
    proof (cases "cl_priority c = p")
      case True
      then obtain i where "i < length ?g" "claim_allocation ?r (cl_name c) = cl_minimum_tokens c + ?ns ! i" "c = ?g ! i"
        using inr c by blast
      then show ?thesis using sh3 [of i] by simp
    next
      case False
      then show ?thesis using out [OF c] nn [OF c] by auto
    qed
    have "?total \<le> sum_list (map (\<lambda>c. cl_desired_tokens c - claim_allocation d (cl_name c)) claims)"
    proof -
      have eq: "map ?need ?g = map (\<lambda>c. cl_desired_tokens c - claim_allocation d (cl_name c)) ?g"
        using Cons.prems(3) by (intro map_cong) auto
      have "0 \<le> cl_desired_tokens c - claim_allocation d (cl_name c)" if "c \<in> set claims" for c
        using Cons.prems(3) nn [OF that] that by simp
      then show ?thesis unfolding eq by (rule sum_list_filter_le)
    qed
    then have "remaining \<le> sum_list (map cl_desired_tokens claims) - tokens_total d"
      using 3 tokens_total_claims [OF names Cons.prems(1)] by (simp add: sum_list_subtractf)
    then have tot: "tokens_total ?r = tokens_total d + min remaining (sum_list (map cl_desired_tokens claims) - tokens_total d)"
      using a sh(2) by simp
    have prio: "claim_allocation ?r (cl_name c) = cl_desired_tokens c"
      if c: "c \<in> set claims" and e: "e \<in> set claims" "cl_priority e < cl_priority c" "cl_minimum_tokens e < claim_allocation ?r (cl_name e)" for c e
    proof -
      have "cl_priority e \<notin> set ps" using out [OF e(1)] e(3) pnew by (cases "cl_priority e = p") auto
      then have "cl_priority c \<notin> set (p # ps)"
        using Cons.prems(4) e(1,2) pmax by (cases "cl_priority e = p") fastforce+
      then show ?thesis using out [OF c] by simp
    qed
    show ?thesis unfolding r using a Cons.prems(1) bounds tot prio by simp
  qed
qed

lemma sorted_priorities:
  fixes xs :: "int list"
  shows "sorted_wrt (>) (rev (sort (remdups xs)))" and "set (rev (sort (remdups xs))) = set xs"
proof -
  have "sorted_wrt (<) (sort (remdups xs))"
    by (simp add: strict_sorted_iff)
  then show "sorted_wrt (>) (rev (sort (remdups xs)))" by (simp add: sorted_wrt_rev)
qed simp

lemma allocate_claims_props:
  assumes names: "distinct (map cl_name claims)" and ok: "\<forall>c \<in> set claims. claim_ok c"
  shows "allocate_claims claims available =
      (if claims \<noteq> [] \<and> sum_list (map cl_minimum_tokens claims) > max 0 available
       then Inl (ContextOverflow ''minimum_context_demand_exceeds_pool'')
       else Inr (projr (allocate_claims claims available)))"
    and "allocate_claims claims available = Inr d \<Longrightarrow> map fst d = map cl_name claims
      \<and> (\<forall>c \<in> set claims. cl_minimum_tokens c \<le> claim_allocation d (cl_name c) \<and> claim_allocation d (cl_name c) \<le> cl_desired_tokens c)
      \<and> tokens_total d = min (max 0 available) (sum_list (map cl_desired_tokens claims))
      \<and> (\<forall>c \<in> set claims. \<forall>e \<in> set claims. cl_priority e < cl_priority c
          \<longrightarrow> cl_minimum_tokens e < claim_allocation d (cl_name e) \<longrightarrow> claim_allocation d (cl_name c) = cl_desired_tokens c)"
proof -
  show "allocate_claims claims available =
      (if claims \<noteq> [] \<and> sum_list (map cl_minimum_tokens claims) > max 0 available
       then Inl (ContextOverflow ''minimum_context_demand_exceeds_pool'')
       else Inr (projr (allocate_claims claims available)))"
    by (simp add: allocate_claims_def Let_def)
  assume res: "allocate_claims claims available = Inr d"
  show "map fst d = map cl_name claims
      \<and> (\<forall>c \<in> set claims. cl_minimum_tokens c \<le> claim_allocation d (cl_name c) \<and> claim_allocation d (cl_name c) \<le> cl_desired_tokens c)
      \<and> tokens_total d = min (max 0 available) (sum_list (map cl_desired_tokens claims))
      \<and> (\<forall>c \<in> set claims. \<forall>e \<in> set claims. cl_priority e < cl_priority c
          \<longrightarrow> cl_minimum_tokens e < claim_allocation d (cl_name e) \<longrightarrow> claim_allocation d (cl_name c) = cl_desired_tokens c)"
  proof (cases "claims = []")
    case True
    then show ?thesis using res by (simp add: allocate_claims_def)
  next
    case False
    let ?m = "sum_list (map cl_minimum_tokens claims)" and ?start = "map (\<lambda>c. (cl_name c, cl_minimum_tokens c)) claims"
    let ?ps = "rev (sort (remdups (map cl_priority claims)))"
    have le: "?m \<le> max 0 available" and d: "d = allocate_priorities claims ?ps ?start (max 0 available - ?m)"
      using res False by (auto simp: allocate_claims_def Let_def split: if_splits)
    have keys: "map fst ?start = map cl_name claims" and tot: "tokens_total ?start = ?m" by (simp_all add: comp_def)
    have st: "\<forall>c \<in> set claims. claim_allocation ?start (cl_name c)
        = (if cl_priority c \<in> set ?ps then cl_minimum_tokens c else cl_desired_tokens c)"
    proof
      fix c assume c: "c \<in> set claims"
      have "map_of ?start (cl_name c) = Some (cl_minimum_tokens c)"
        using c names by (intro map_of_is_SomeI) (auto simp: comp_def)
      then show "claim_allocation ?start (cl_name c)
          = (if cl_priority c \<in> set ?ps then cl_minimum_tokens c else cl_desired_tokens c)"
        using c by (simp add: claim_allocation_def)
    qed
    have "?m \<le> sum_list (map cl_desired_tokens claims)" using ok by (intro sum_list_mono) (simp add: claim_ok_def)
    then have "?m + min (max 0 available - ?m) (sum_list (map cl_desired_tokens claims) - ?m)
        = min (max 0 available) (sum_list (map cl_desired_tokens claims))" by linarith
    then show ?thesis
      using allocate_priorities_props [OF names ok keys sorted_priorities(1) st, of "max 0 available - ?m"] le
      unfolding d [symmetric] tot by simp
  qed
qed

section \<open>The whole account\<close>

lemma normalize_allocations_id:
  assumes "distinct (map fst xs)" and "\<forall>(k, n) \<in> set xs. clean_id k \<and> 0 \<le> n" and "fst ` set xs \<inter> fst ` set acc = {}"
  shows "normalize_allocations xs acc = Inr (acc @ xs)"
  using assms
proof (induction xs arbitrary: acc)
  case (Cons e xs)
  obtain k n where e: "e = (k, n)" by (cases e)
  have "k \<notin> fst ` set acc" using Cons.prems(3) by (auto simp: e)
  then have "AList.update k n acc = acc @ [e]" unfolding e by (induction acc) auto
  moreover have "required_text k f = Inr k" "non_negative_int n f = Inr n" for f
    using Cons.prems(2) by (auto simp: e non_negative_int_def)
  moreover have "fst ` set xs \<inter> fst ` set (acc @ [e]) = {}" using Cons.prems(1,3) by auto
  ultimately show ?case using Cons.IH [of "acc @ [e]"] Cons.prems(1,2) by (simp add: e)
qed simp

lemma estimate_units_nonneg [simp]: "0 \<le> estimate_units v n"
  by (simp add: estimate_units_def Let_def)

lemma estimate_tool_schema_tokens_nonneg [simp]: "0 \<le> estimate_tool_schema_tokens R tools"
  by (simp add: estimate_tool_schema_tokens_def estimate_json_tokens_def)

lemma option_default_cases:
  "(0 :: int) \<le> d \<Longrightarrow> v = Some (case v of None \<Rightarrow> d | Some n \<Rightarrow> n) \<or> v = None \<and> 0 \<le> (case v of None \<Rightarrow> d | Some n \<Rightarrow> n)"
  by (cases v) simp_all

lemma fixed_context_reserves_cases:
  obtains sa ru mi where "fixed_context_reserves R window tools s r m =
      (if min sa (min ru mi) < 0 then Inl (ValueError ''context reserves must be non-negative'')
       else Inr (sa, ru, estimate_tool_schema_tokens R tools, mi))"
    and "s = Some sa \<or> s = None \<and> 0 \<le> sa" and "r = Some ru \<or> r = None \<and> 0 \<le> ru" and "m = Some mi \<or> m = None \<and> 0 \<le> mi"
proof (rule that)
  show "fixed_context_reserves R window tools s r m =
      (if min (case s of Some n \<Rightarrow> n | None \<Rightarrow> min 64000 (max 4096 (ceil_times_0_05 window)))
         (min (case r of Some n \<Rightarrow> n
            | None \<Rightarrow> if tools \<noteq> [] then min 64000 (max 4096 (window div 10)) else min 16000 (max 2048 (window div 25)))
           (case m of Some n \<Rightarrow> n | None \<Rightarrow> min 8192 (max 1024 (window div 100)))) < 0
       then Inl (ValueError ''context reserves must be non-negative'')
       else Inr (case s of Some n \<Rightarrow> n | None \<Rightarrow> min 64000 (max 4096 (ceil_times_0_05 window)),
         case r of Some n \<Rightarrow> n
            | None \<Rightarrow> if tools \<noteq> [] then min 64000 (max 4096 (window div 10)) else min 16000 (max 2048 (window div 25)),
         estimate_tool_schema_tokens R tools,
         case m of Some n \<Rightarrow> n | None \<Rightarrow> min 8192 (max 1024 (window div 100))))"
    unfolding fixed_context_reserves_def Let_def ..
qed (rule option_default_cases, simp add: le_max_iff_disj)+

lemma fixed_context_reserves_Inr:
  assumes "fixed_context_reserves R window tools s r m = Inr (safety, runtime, schemas, minimum)"
  shows "0 \<le> safety" and "0 \<le> runtime" and "0 \<le> minimum" and "schemas = estimate_tool_schema_tokens R tools"
proof -
  obtain sa ru mi where "fixed_context_reserves R window tools s r m =
      (if min sa (min ru mi) < 0 then Inl (ValueError ''context reserves must be non-negative'')
       else Inr (sa, ru, estimate_tool_schema_tokens R tools, mi))"
    by (rule fixed_context_reserves_cases)
  then show "0 \<le> safety" "0 \<le> runtime" "0 \<le> minimum" "schemas = estimate_tool_schema_tokens R tools"
    using assms by (simp_all add: min_less_iff_disj not_less split: if_splits)
qed

lemma allocate_claims_values:
  assumes "distinct (map cl_name claims)" and "\<forall>c \<in> set claims. claim_ok c" and "allocate_claims claims n = Inr d"
  shows "\<forall>(k, v) \<in> set d. clean_id k \<and> 0 \<le> v"
proof clarify
  fix k v assume kv: "(k, v) \<in> set d"
  note p = allocate_claims_props(2) [OF assms]
  have "k \<in> set (map cl_name claims)" using kv p by (metis fst_conv image_eqI list.set_map)
  then obtain c where c: "c \<in> set claims" "k = cl_name c" by auto
  have "map_of d k = Some v" using kv p assms(1) by simp
  then have "claim_allocation d (cl_name c) = v" by (simp add: c(2) claim_allocation_def)
  then show "clean_id k \<and> 0 \<le> v" using p c assms(2) by (force simp: claim_ok_def)
qed

lemma allocate_context_budget_eq:
  assumes claims: "distinct (map cl_name claims)" "\<forall>c \<in> set claims. claim_ok c" and pos: "0 < window" "0 < out"
    and res: "fixed_context_reserves R window tools s r m = Inr (safety, runtime, schemas, minimum)"
  defines "input \<equiv> window - out - safety - runtime - schemas"
  shows "allocate_context_budget R window out tools claims s r m =
    (if input < minimum then Inl (ContextOverflow ''fixed_reserves_exceed_window'')
     else bind_result (allocate_claims claims (input - minimum)) (\<lambda>allocations. Inr
       \<lparr>cb_window_tokens = window, cb_output_reserve_tokens = out, cb_safety_reserve_tokens = safety,
         cb_runtime_reserve_tokens = runtime, cb_tool_schema_tokens = schemas,
         cb_provider_input_tokens = input, cb_minimum_message_tokens = minimum,
         cb_context_allocations = allocations\<rparr>))"
proof (cases "input < minimum")
  case True
  then show ?thesis using pos res by (simp add: allocate_context_budget_def input_def Let_def)
next
  case False
  note nn = fixed_context_reserves_Inr [OF res]
  have call: "allocate_context_budget R window out tools claims s r m
      = bind_result (allocate_claims claims (input - minimum)) (\<lambda>allocations. ContextBudget_post_init
       \<lparr>cb_window_tokens = window, cb_output_reserve_tokens = out, cb_safety_reserve_tokens = safety,
         cb_runtime_reserve_tokens = runtime, cb_tool_schema_tokens = schemas,
         cb_provider_input_tokens = input, cb_minimum_message_tokens = minimum,
         cb_context_allocations = allocations\<rparr>)"
    using pos res False claims(1)
    by (simp add: allocate_context_budget_def input_def Let_def validate_context_claims_def max_def)
  show ?thesis
  proof (cases "allocate_claims claims (input - minimum)")
    case (Inl e)
    then show ?thesis using call False by simp
  next
    case (Inr d)
    note p = allocate_claims_props(2) [OF claims Inr]
    have norm: "normalize_allocations d [] = Inr d"
      using normalize_allocations_id [of d "[]"] allocate_claims_values [OF claims Inr] p claims(1) by simp
    have "tokens_total d + minimum \<le> input" using p False by linarith
    then have "ContextBudget_post_init
       \<lparr>cb_window_tokens = window, cb_output_reserve_tokens = out, cb_safety_reserve_tokens = safety,
         cb_runtime_reserve_tokens = runtime, cb_tool_schema_tokens = schemas,
         cb_provider_input_tokens = input, cb_minimum_message_tokens = minimum,
         cb_context_allocations = d\<rparr> = Inr
       \<lparr>cb_window_tokens = window, cb_output_reserve_tokens = out, cb_safety_reserve_tokens = safety,
         cb_runtime_reserve_tokens = runtime, cb_tool_schema_tokens = schemas,
         cb_provider_input_tokens = input, cb_minimum_message_tokens = minimum,
         cb_context_allocations = d\<rparr>"
      using pos nn norm False
      by (auto simp: leD ContextBudget_post_init_def positive_int_def non_negative_int_def input_def)
    then show ?thesis using call Inr False by simp
  qed
qed

lemma fixed_context_reserves_total:
  assumes "\<forall>n \<in> set_option safety \<union> set_option runtime \<union> set_option minimum. 0 \<le> n"
  shows "\<exists>r. fixed_context_reserves R window tools safety runtime minimum = Inr r"
  by (rule fixed_context_reserves_cases [of R window tools safety runtime minimum])
    (use assms in \<open>auto simp: min_less_iff_disj\<close>)

lemma allocate_claims_error:
  assumes "distinct (map cl_name claims)" and "\<forall>c \<in> set claims. claim_ok c" and "allocate_claims claims n = Inl e"
  shows "e = ContextOverflow ''minimum_context_demand_exceeds_pool''"
  using assms(3) by (simp add: allocate_claims_def Let_def split: if_splits)

lemma allocate_context_budget_Inr:
  assumes "allocate_context_budget R window out tools claims s r m = Inr b"
  shows "0 < window" and "0 < out" and "cb_output_reserve_tokens b = out" and "cb_window_tokens b = window"
    and "cb_tool_schema_tokens b = estimate_tool_schema_tokens R tools"
    and "out + cb_safety_reserve_tokens b + cb_runtime_reserve_tokens b + cb_tool_schema_tokens b
      + cb_provider_input_tokens b = window"
  using assms
  by (auto simp: allocate_context_budget_def ContextBudget_post_init_def Let_def bind_result_Inr_iff
      dest!: fixed_context_reserves_Inr(4) split: if_splits prod.splits)

section \<open>Trimming\<close>

definition message_ok :: "agent_message \<Rightarrow> bool" where
  "message_ok m \<longleftrightarrow> (\<exists>v. parse_static_image_content (am_content m) = Inr v)"

lemma AgentMessage_post_init_ok: "AgentMessage_post_init m = Inr m' \<Longrightarrow> message_ok m'"
  by (auto simp: AgentMessage_post_init_def message_ok_def bind_result_Inr_iff Let_def split: if_splits)

definition text_cost :: "(int \<Rightarrow> int \<Rightarrow> string) \<Rightarrow> agent_message \<Rightarrow> int" where
  "text_cost R m = projr (message_text_tokens R m)"

definition full_cost :: "(int \<Rightarrow> int \<Rightarrow> string) \<Rightarrow> agent_message \<Rightarrow> int" where
  "full_cost R m = projr (message_tokens R m)"

lemma message_costs:
  assumes "message_ok m"
  shows "message_text_tokens R m = Inr (text_cost R m)" and "message_tokens R m = Inr (full_cost R m)"
proof -
  obtain v where v: "parse_static_image_content (am_content m) = Inr v" using assms by (auto simp: message_ok_def)
  then obtain w where "budget_message_mapping m = Inr w" by (auto simp: budget_message_mapping_def Let_def)
  with v show "message_text_tokens R m = Inr (text_cost R m)" "message_tokens R m = Inr (full_cost R m)"
    by (simp_all add: text_cost_def full_cost_def message_text_tokens_def message_tokens_def image_input_tokens_def)
qed

lemma estimate_messages_total:
  "\<forall>m \<in> set ms. message_ok m \<Longrightarrow> estimate_agent_messages_tokens R ms = Inr (2 + sum_list (map (full_cost R) ms))"
  using map_result_total [of ms "message_tokens R" "full_cost R"]
  by (simp add: estimate_agent_messages_tokens_def message_costs)

lemma row_tokens_total:
  "\<forall>row \<in> set rows. message_ok (snd row) \<Longrightarrow> row_tokens R rows = Inr (sum_list (map (text_cost R \<circ> snd) rows))"
  using map_result_total [of rows "\<lambda>(i, m). message_text_tokens R m" "text_cost R \<circ> snd"]
  by (simp add: row_tokens_def case_prod_beta message_costs)

text \<open>
  A turn is a run of consecutive messages with a user message at most at its head. It is complete when the
  next one starts for a reason: with a user message, or after a protected message, which leaves a gap in
  the indices.
\<close>

definition turn_ok :: "indexed list \<Rightarrow> bool" where
  "turn_ok t \<longleftrightarrow> t \<noteq> [] \<and> (\<forall>row \<in> set (tl t). am_role (snd row) \<noteq> Role_USER)
     \<and> map fst t = [fst (hd t)..<fst (hd t) + length t]"

definition turn_break :: "indexed list \<Rightarrow> indexed list \<Rightarrow> bool" where
  "turn_break a b \<longleftrightarrow> am_role (snd (hd b)) = Role_USER \<or> fst (hd b) \<noteq> Suc (fst (last a))"

definition complete_turns :: "indexed list list \<Rightarrow> bool" where
  "complete_turns turns \<longleftrightarrow> list_all turn_ok turns \<and> successively turn_break turns"

text \<open>The turns found before the message with index \<open>n\<close>, and the one that is still open.\<close>

definition turns_before :: "nat \<Rightarrow> indexed list list \<Rightarrow> indexed list \<Rightarrow> bool" where
  "turns_before n turns current \<longleftrightarrow> complete_turns (if current = [] then turns else turns @ [current])
     \<and> (current \<noteq> [] \<longrightarrow> Suc (fst (last current)) = n)
     \<and> (current = [] \<longrightarrow> turns \<noteq> [] \<longrightarrow> Suc (fst (last (last turns))) < n)"

lemma complete_turns_snoc:
  "complete_turns (turns @ [t]) \<longleftrightarrow> complete_turns turns \<and> turn_ok t \<and> (turns = [] \<or> turn_break (last turns) t)"
  by (auto simp: complete_turns_def successively_append_iff)

lemma turn_ok_snoc:
  assumes "turn_ok t" and "am_role m \<noteq> Role_USER"
  shows "turn_ok (t @ [(Suc (fst (last t)), m)])"
proof -
  have t: "t \<noteq> []" "map fst t = [fst (hd t)..<fst (hd t) + length t]" using assms(1) by (simp_all add: turn_ok_def)
  have "fst (last t) = last (map fst t)" using t(1) by (simp add: last_map)
  also have "\<dots> = fst (hd t) + length t - 1" using t by simp
  finally have "Suc (fst (last t)) = fst (hd t) + length t" using t(1) by (cases t) simp_all
  then show ?thesis using assms t by (auto simp: turn_ok_def)
qed

lemma turns_before_step:
  assumes "turns_before n turns current"
  shows "turns_before (Suc n) (if current \<noteq> [] then turns @ [current] else turns) []"
    and "am_role m = Role_USER \<Longrightarrow> current \<noteq> [] \<Longrightarrow> turns_before (Suc n) (turns @ [current]) [(n, m)]"
    and "\<not> (am_role m = Role_USER \<and> current \<noteq> []) \<Longrightarrow> turns_before (Suc n) turns (current @ [(n, m)])"
proof -
  have one: "turn_ok [(n, m)]" by (simp add: turn_ok_def)
  show "turns_before (Suc n) (if current \<noteq> [] then turns @ [current] else turns) []"
    using assms by (auto simp: turns_before_def)
  show "am_role m = Role_USER \<Longrightarrow> current \<noteq> [] \<Longrightarrow> turns_before (Suc n) (turns @ [current]) [(n, m)]"
    using assms one complete_turns_snoc [of "turns @ [current]" "[(n, m)]"] by (simp add: turns_before_def turn_break_def)
  show "turns_before (Suc n) turns (current @ [(n, m)])" if "\<not> (am_role m = Role_USER \<and> current \<noteq> [])"
  proof (cases "current = []")
    case True
    then show ?thesis using assms one by (auto simp: turns_before_def complete_turns_snoc turn_break_def)
  next
    case False
    then show ?thesis using assms that turn_ok_snoc [of current m]
      by (auto simp: turns_before_def complete_turns_snoc turn_break_def)
  qed
qed

lemma split_turns_props:
  assumes "split_turns (enumerate n messages) protected turns current = (p, ts)" and "turns_before n turns current"
  shows "p = protected @ filter (\<lambda>row. protected_message (snd row)) (enumerate n messages)
    \<and> concat ts = concat turns @ current @ filter (\<lambda>row. \<not> protected_message (snd row)) (enumerate n messages) \<and> complete_turns ts"
  using assms
proof (induction messages arbitrary: n protected turns current)
  case Nil
  then show ?case by (auto simp: turns_before_def split: if_splits)
next
  case (Cons m messages)
  note step = turns_before_step [OF Cons.prems(2)]
  consider (protected) "protected_message m" | (user) "\<not> protected_message m" "am_role m = Role_USER" "current \<noteq> []"
    | (more) "\<not> protected_message m" "\<not> (am_role m = Role_USER \<and> current \<noteq> [])" by blast
  then show ?case
  proof cases
    case protected
    then show ?thesis using Cons.IH [of "Suc n" "protected @ [(n, m)]", OF _ step(1)] Cons.prems(1) by (auto split: if_splits)
  next
    case user
    then show ?thesis using Cons.IH [OF _ step(2) [OF user(2,3)]] Cons.prems(1) by auto
  next
    case more
    then show ?thesis using Cons.IH [OF _ step(3) [OF more(2)]] Cons.prems(1) by auto
  qed
qed

text \<open>That the turns of a list fit next to what is counted and used already.\<close>

definition turns_fit :: "(int \<Rightarrow> int \<Rightarrow> string) \<Rightarrow> int \<Rightarrow> int option \<Rightarrow> int \<Rightarrow> int \<Rightarrow> indexed list list \<Rightarrow> bool" where
  "turns_fit R budget limit n0 used ts \<longleftrightarrow>
     (case limit of None \<Rightarrow> True | Some n \<Rightarrow> n0 + int (length (concat ts)) \<le> max 1 n)
     \<and> used + sum_list (map (text_cost R \<circ> snd) (concat ts)) \<le> max 0 budget"

lemma turns_fit_Cons:
  "turns_fit R budget limit n0 used (t # ts)
     \<longleftrightarrow> turns_fit R budget limit (n0 + int (length t)) (used + sum_list (map (text_cost R \<circ> snd) t)) ts"
  by (cases limit) (simp_all add: turns_fit_def algebra_simps)

lemma select_turns_props:
  assumes "\<forall>turn \<in> set ts. \<forall>row \<in> set turn. message_ok (snd row)"
  shows "\<exists>k \<le> length ts. select_turns R budget limit required ts selected n0 used
      = Inr (selected \<union> fst ` set (concat (take k ts)))
    \<and> (required \<and> ts \<noteq> [] \<longrightarrow> 0 < k)
    \<and> (of_bool required < k \<longrightarrow> turns_fit R budget limit n0 used (take k ts))
    \<and> (k < length ts \<longrightarrow> \<not> turns_fit R budget limit n0 used (take (Suc k) ts))"
  using assms
proof (induction ts arbitrary: required selected n0 used)
  case Nil
  then show ?case by simp
next
  case (Cons turn ts)
  let ?cost = "sum_list (map (text_cost R \<circ> snd) turn)"
  have cost: "row_tokens R turn = Inr ?cost" using Cons.prems by (intro row_tokens_total) simp
  let ?fits = "turns_fit R budget limit n0 used [turn]"
  have step: "select_turns R budget limit required (turn # ts) selected n0 used = (if required \<or> ?fits
    then select_turns R budget limit False ts (selected \<union> fst ` set turn) (n0 + int (length turn)) (used + ?cost)
    else Inr selected)"
    using cost by (cases limit) (simp_all add: Let_def turns_fit_def)
  show ?case
  proof (cases "required \<or> ?fits")
    case False
    then show ?thesis using step by (intro exI [of _ 0]) simp
  next
    case True
    have ok: "\<forall>turn \<in> set ts. \<forall>row \<in> set turn. message_ok (snd row)" using Cons.prems by simp
    obtain k where k: "k \<le> length ts"
        "select_turns R budget limit False ts (selected \<union> fst ` set turn) (n0 + int (length turn)) (used + ?cost)
          = Inr (selected \<union> fst ` set turn \<union> fst ` set (concat (take k ts)))"
        "of_bool False < k \<longrightarrow> turns_fit R budget limit (n0 + int (length turn)) (used + ?cost) (take k ts)"
        "k < length ts \<longrightarrow> \<not> turns_fit R budget limit (n0 + int (length turn)) (used + ?cost) (take (Suc k) ts)"
      using Cons.IH [OF ok, of False "selected \<union> fst ` set turn" "n0 + int (length turn)" "used + ?cost"] by blast
    have "select_turns R budget limit required (turn # ts) selected n0 used
        = Inr (selected \<union> fst ` set (concat (take (Suc k) (turn # ts))))"
      using step True k(2) by (simp add: image_Un Un_assoc)
    moreover have "turns_fit R budget limit n0 used (take (Suc k) (turn # ts))" if "of_bool required < Suc k"
      using that True k(3) by (cases "k = 0") (auto simp: turns_fit_Cons)
    moreover have "\<not> turns_fit R budget limit n0 used (take (Suc (Suc k)) (turn # ts))" if "Suc k < length (turn # ts)"
      using that k(4) by (simp add: turns_fit_Cons)
    ultimately show ?thesis using k(1)
      by (intro exI [of _ "Suc k"] conjI impI) (simp_all only: length_Cons Suc_le_mono zero_less_Suc not_False_eq_True)
  qed
qed

lemma enumerate_index: "row \<in> set (enumerate 0 xs) \<Longrightarrow> row' \<in> set (enumerate 0 xs) \<Longrightarrow> fst row = fst row' \<Longrightarrow> row = row'"
  by (auto simp: in_set_enumerate_eq prod_eq_iff)

lemma distinct_enumerate: "distinct (enumerate k xs)"
  by (metis distinct_map distinct_upt map_fst_enumerate)

lemma turns_fit_rev: "turns_fit R budget limit n0 used (rev ts) \<longleftrightarrow> turns_fit R budget limit n0 used ts"
proof -
  have "length (concat (rev ts)) = length (concat ts)" by (induction ts) auto
  moreover have "sum_list (map (text_cost R \<circ> snd) (concat (rev ts))) = sum_list (map (text_cost R \<circ> snd) (concat ts))"
    by (induction ts) auto
  ultimately show ?thesis by (simp only: turns_fit_def)
qed

lemma sum_list_filter_set:
  fixes f :: "'a \<Rightarrow> int"
  assumes "distinct xs" and "distinct ys" and "set ys \<subseteq> set xs" and "\<And>x. x \<in> set xs \<Longrightarrow> P x \<longleftrightarrow> x \<in> set ys"
  shows "sum_list (map f (filter P xs)) = sum_list (map f ys)"
proof -
  have "set (filter P xs) = set ys" using assms(3,4) by auto
  then show ?thesis using assms(1,2) by (simp add: sum_list_distinct_conv_sum_set)
qed

lemma length_filter_set:
  assumes "distinct xs" and "distinct ys" and "set ys \<subseteq> set xs" and "\<And>x. x \<in> set xs \<Longrightarrow> P x \<longleftrightarrow> x \<in> set ys"
  shows "length (filter P xs) = length ys"
proof -
  have "set (filter P xs) = set ys" using assms(3,4) by auto
  then show ?thesis using assms(1,2) distinct_card by (metis distinct_filter)
qed

lemma filter_enumerate: "map snd (filter (\<lambda>row. P (snd row)) (enumerate n xs)) = filter P xs"
  by (induction xs arbitrary: n) auto

lemma enumerate_fst_mem:
  assumes "X \<subseteq> set (enumerate 0 xs)" and "row \<in> set (enumerate 0 xs)"
  shows "fst row \<in> fst ` X \<longleftrightarrow> row \<in> X"
proof
  assume "fst row \<in> fst ` X"
  then obtain row' where "row' \<in> X" "fst row = fst row'" by blast
  then show "row \<in> X" using assms enumerate_index [of row xs row'] by blast
qed simp

lemma trim_props:
  assumes ok: "\<forall>m \<in> set messages. message_ok m"
  shows "\<exists>t turns k. trim_agent_messages_by_turn R messages budget limit = Inr t
    \<and> concat turns = filter (\<lambda>row. \<not> protected_message (snd row)) (enumerate 0 messages)
    \<and> complete_turns turns \<and> k \<le> length turns \<and> (turns = [] \<or> 0 < k)
    \<and> tm_messages t = map snd (filter (\<lambda>row. protected_message (snd row) \<or> row \<in> set (concat (drop (length turns - k) turns)))
        (enumerate 0 messages))
    \<and> tm_dropped_count t = int (length (concat (take (length turns - k) turns)))
    \<and> (k \<le> 1 \<or> 2 + sum_list (map (text_cost R) (tm_messages t)) \<le> max 0 budget
        \<and> (\<forall>n. limit = Some n \<longrightarrow> int (length (concat (drop (length turns - k) turns))) \<le> max 1 n))
    \<and> (k = length turns \<or> \<not> turns_fit R budget limit 0 (2 + sum_list (map (text_cost R) (filter protected_message messages)))
        (drop (length turns - Suc k) turns))
    \<and> tm_token_estimate t = 2 + sum_list (map (full_cost R) (tm_messages t))
    \<and> tm_overflow_tokens t = max 0 (tm_token_estimate t - max 0 budget)"
proof -
  define rows where "rows = enumerate 0 messages"
  obtain p turns where sp: "split_turns rows [] [] [] = (p, turns)" by (cases "split_turns rows [] [] []")
  have "turns_before 0 [] []" by (simp add: turns_before_def complete_turns_def)
  note s = split_turns_props [OF sp [unfolded rows_def] this, folded rows_def, simplified]
  have p: "p = filter (\<lambda>row. protected_message (snd row)) rows"
    and turns: "concat turns = filter (\<lambda>row. \<not> protected_message (snd row)) rows" "complete_turns turns"
    using s by auto
  have rok: "\<forall>row \<in> set rows. message_ok (snd row)"
    using ok by (auto simp: rows_def in_set_enumerate_eq)
  have tok: "\<forall>turn \<in> set (rev turns). \<forall>row \<in> set turn. message_ok (snd row)"
  proof (intro ballI)
    fix turn row assume "turn \<in> set (rev turns)" "row \<in> set turn"
    then have "row \<in> set (concat turns)" by auto
    then show "message_ok (snd row)" using rok turns(1) by simp
  qed
  let ?pc = "sum_list (map (text_cost R \<circ> snd) p)"
  have prow: "row_tokens R p = Inr ?pc" by (rule row_tokens_total) (use rok p in simp)
  have pm: "map snd p = filter protected_message messages"
    unfolding p rows_def by (rule filter_enumerate)
  have pc: "?pc = sum_list (map (text_cost R) (filter protected_message messages))"
    using pm by (metis map_map)
  obtain k where k: "k \<le> length turns"
      "select_turns R budget limit True (rev turns) (fst ` set p) 0 (2 + ?pc)
        = Inr (fst ` set p \<union> fst ` set (concat (take k (rev turns))))"
      "turns \<noteq> [] \<longrightarrow> 0 < k" "1 < k \<longrightarrow> turns_fit R budget limit 0 (2 + ?pc) (take k (rev turns))"
      "k < length turns \<longrightarrow> \<not> turns_fit R budget limit 0 (2 + ?pc) (take (Suc k) (rev turns))"
    using select_turns_props [OF tok, of R budget limit True "fst ` set p" 0 "2 + ?pc"] by auto
  define kept where "kept = drop (length turns - k) turns"
  have fit: "turns_fit R budget limit 0 used (rev ts) \<longleftrightarrow> turns_fit R budget limit 0 used ts" for used ts
    by (rule turns_fit_rev)
  have rev: "take j (rev turns) = rev (drop (length turns - j) turns)" for j by (simp add: take_rev)
  define sel where "sel = filter (\<lambda>row. protected_message (snd row) \<or> row \<in> set (concat kept)) rows"
  have kin: "set (concat kept) \<subseteq> set (concat turns)" by (auto simp: kept_def dest: in_set_dropD)
  have ktn: "set (concat kept) \<subseteq> set rows - set p" using kin turns(1) p by auto
  have sel: "filter (\<lambda>(i, m). i \<in> fst ` set p \<union> fst ` set (concat kept)) rows = sel"
    unfolding sel_def
  proof (rule filter_cong [OF refl])
    fix row assume row: "row \<in> set rows"
    have "(fst row \<in> fst ` X) = (row \<in> X)" if "X \<subseteq> set rows" for X
      using that row unfolding rows_def by (rule enumerate_fst_mem)
    then have "fst row \<in> fst ` set p \<longleftrightarrow> row \<in> set p" "fst row \<in> fst ` set (concat kept) \<longleftrightarrow> row \<in> set (concat kept)"
      using ktn p by (metis filter_is_subset, metis Diff_subset subset_trans)
    then show "(case row of (i, m) \<Rightarrow> i \<in> fst ` set p \<union> fst ` set (concat kept))
        = (protected_message (snd row) \<or> row \<in> set (concat kept))"
      using row p by (auto simp: case_prod_beta)
  qed
  have selok: "\<forall>m \<in> set (map snd sel). message_ok m" using rok by (auto simp: sel_def)
  define actual where "actual = 2 + sum_list (map (full_cost R) (map snd sel))"
  have est: "estimate_agent_messages_tokens R (map snd sel) = Inr actual"
    unfolding actual_def by (rule estimate_messages_total [OF selok])
  define t where "t = \<lparr>tm_messages = map snd sel, tm_dropped_count = max 0 (int (length messages) - int (length (map snd sel))),
           tm_token_estimate = actual, tm_overflow_tokens = max 0 (actual - max 0 budget)\<rparr>"
  have k2: "select_turns R budget limit True (rev turns) (fst ` set p) 0 (2 + ?pc)
      = Inr (fst ` set p \<union> fst ` set (concat kept))"
    using k(2) unfolding rev kept_def by simp
  have call: "trim_agent_messages_by_turn R messages budget limit = Inr t"
    unfolding trim_agent_messages_by_turn_def Let_def rows_def [symmetric] sp prod.case prow bind_result.simps k2 sel est
    by (simp add: t_def)
  have dr: "distinct rows" by (simp add: rows_def distinct_enumerate)
  have dc: "distinct (concat turns)" unfolding turns(1) using dr by simp
  have split: "concat turns = concat (take (length turns - k) turns) @ concat kept"
    unfolding kept_def by (metis append_take_drop_id concat_append)
  have dk: "distinct (p @ concat kept)" using dc dr ktn by (auto simp: split p)
  have members: "set (p @ concat kept) \<subseteq> set rows"
    "\<And>row. row \<in> set rows \<Longrightarrow> (protected_message (snd row) \<or> row \<in> set (concat kept)) \<longleftrightarrow> row \<in> set (p @ concat kept)"
    using ktn p by auto
  have cost: "sum_list (map (text_cost R) (map snd sel)) = ?pc + sum_list (map (text_cost R \<circ> snd) (concat kept))"
    using sum_list_filter_set [OF dr dk members, of "text_cost R \<circ> snd"]
    by (simp only: sel_def map_map map_append sum_list_append)
  have "length sel = length p + length (concat kept)"
    using length_filter_set [OF dr dk members] by (simp only: sel_def length_append)
  moreover have "length rows = length p + length (concat turns)"
    unfolding p turns(1) by (metis sum_length_filter_compl)
  moreover have "length rows = length messages" by (simp add: rows_def)
  ultimately have dropped: "tm_dropped_count t = int (length (concat (take (length turns - k) turns)))"
    by (simp add: t_def split)
  have bounded: "k \<le> 1 \<or> 2 + sum_list (map (text_cost R) (tm_messages t)) \<le> max 0 budget
      \<and> (\<forall>n. limit = Some n \<longrightarrow> int (length (concat kept)) \<le> max 1 n)"
  proof (cases "k \<le> 1")
    case False
    then have "turns_fit R budget limit 0 (2 + ?pc) kept" using k(4) by (simp add: rev fit kept_def)
    then show ?thesis by (auto simp: turns_fit_def t_def cost [unfolded map_map] add.assoc)
  qed simp
  have maximal: "k = length turns \<or> \<not> turns_fit R budget limit 0 (2 + sum_list (map (text_cost R) (filter protected_message messages)))
      (drop (length turns - Suc k) turns)"
    using k(1,5) unfolding rev fit pc by linarith
  have fields: "tm_messages t = map snd (filter (\<lambda>row. protected_message (snd row) \<or> row \<in> set (concat kept)) rows)"
    "tm_token_estimate t = 2 + sum_list (map (full_cost R) (tm_messages t))"
    "tm_overflow_tokens t = max 0 (tm_token_estimate t - max 0 budget)"
    by (simp_all only: t_def sel_def actual_def trimmed_agent_messages.simps)
  have newest: "turns = [] \<or> 0 < k" using k(3) by blast
  show ?thesis
    using call turns k(1) newest fields dropped bounded maximal unfolding kept_def rows_def by blast
qed

section \<open>Images\<close>

lemma parse_image_Inr:
  assumes "parse_image item s = Inr (img, s')"
  shows "s' = s + image_tokens img" and "0 < image_tokens img" and "s' \<le> 2 ^ 53 - 1"
    and "\<exists>bytes. bytes \<noteq> [] \<and> (\<forall>b \<in> set bytes. b < 256) \<and> map_of img ''dataBase64'' = Some (JStr (b64encode bytes))"
proof -
  obtain kvs data tokens where p: "item = JObj kvs" "map_of kvs ''dataBase64'' = Some (JStr data)" "data \<noteq> []" "canonical_base64 data"
      "map_of kvs ''inputTokens'' = Some (JInt tokens)" "0 < tokens" "s + tokens \<le> 2 ^ 53 - 1" "img = kvs" "s' = s + tokens"
    using assms by (auto simp: parse_image_def split: json.splits if_splits option.splits)
  then show "s' = s + image_tokens img" "0 < image_tokens img" "s' \<le> 2 ^ 53 - 1"
    by (simp_all add: image_tokens_def)
  obtain bytes where "\<forall>b \<in> set bytes. b < 256" "b64encode bytes = data" using canonical_base64_iff p(4) by blast
  moreover from this have "bytes \<noteq> []" using p(3) by auto
  ultimately show "\<exists>bytes. bytes \<noteq> [] \<and> (\<forall>b \<in> set bytes. b < 256) \<and> map_of img ''dataBase64'' = Some (JStr (b64encode bytes))"
    using p(2,8) by blast
qed

lemma parse_images_props:
  assumes "parse_images items s = Inr images"
  shows "length images = length items" and "items \<noteq> [] \<Longrightarrow> s + sum_list (map image_tokens images) \<le> 2 ^ 53 - 1"
    and "\<forall>img \<in> set images. 0 < image_tokens img
      \<and> (\<exists>bytes. bytes \<noteq> [] \<and> (\<forall>b \<in> set bytes. b < 256) \<and> map_of img ''dataBase64'' = Some (JStr (b64encode bytes)))"
proof -
  have "length images = length items \<and> (items \<noteq> [] \<longrightarrow> s + sum_list (map image_tokens images) \<le> 2 ^ 53 - 1)
    \<and> (\<forall>img \<in> set images. 0 < image_tokens img
      \<and> (\<exists>bytes. bytes \<noteq> [] \<and> (\<forall>b \<in> set bytes. b < 256) \<and> map_of img ''dataBase64'' = Some (JStr (b64encode bytes))))"
    using assms
  proof (induction items arbitrary: s images)
    case (Cons item items)
    obtain img s' rest where step: "parse_image item s = Inr (img, s')" "parse_images items s' = Inr rest" "images = img # rest"
      using Cons.prems by (auto simp: bind_result_Inr_iff)
    show ?case using parse_image_Inr [OF step(1)] Cons.IH [OF step(2)] step(2) by (cases "items = []") (auto simp: step(3))
  qed simp
  then show "length images = length items" "items \<noteq> [] \<Longrightarrow> s + sum_list (map image_tokens images) \<le> 2 ^ 53 - 1"
    "\<forall>img \<in> set images. 0 < image_tokens img
      \<and> (\<exists>bytes. bytes \<noteq> [] \<and> (\<forall>b \<in> set bytes. b < 256) \<and> map_of img ''dataBase64'' = Some (JStr (b64encode bytes)))"
    by simp_all
qed

end
