(* ===== verification/Context_Properties.thy ===== *)
theory Context_Properties
  imports Context_Laws
begin

text \<open>
  What the context budget guarantees: the fair division of a pool, the funding of claims by
  priority, the account of the whole window, the room left for generation, trimming by complete
  turns, and the validation of static images.
\<close>

section \<open>Division of a pool\<close>

text \<open>The proportional division hands out the whole pool and nothing more: for non-negative
  weights whose sum is at least the pool there is one share per weight, the shares add up to the
  pool, no share is negative or above its weight, and each differs from the exact quota by less
  than one token.\<close>

theorem proportional_shares_fair:
  assumes "\<forall>w \<in> set weights. 0 \<le> w" and "0 \<le> available" and "available \<le> sum_list weights"
  shows "length (proportional_shares weights available) = length weights
    \<and> sum_list (proportional_shares weights available) = available
    \<and> (\<forall>i < length weights. 0 \<le> proportional_shares weights available ! i
        \<and> proportional_shares weights available ! i \<le> weights ! i
        \<and> \<bar>proportional_shares weights available ! i * sum_list weights - weights ! i * available\<bar>
            < max 1 (sum_list weights))"
  using proportional_shares_props [OF assms] by blast

theorem proportional_shares_fair_witness:
  "proportional_shares [7, 2, 2] 5 = [3, 1, 1] \<and> sum_list (proportional_shares [7, 2, 2] 5) = 5"
proof -
  have "sum_list (proportional_shares [7, 2, 2] 5) = 5"
    using proportional_shares_fair [of "[7, 2, 2]" 5] by simp
  moreover have "proportional_shares [7, 2, 2] 5 = [3, 1, 1]" by code_simp
  ultimately show ?thesis by simp
qed

text \<open>C39. Claims are funded by priority. For validated claims with distinct names the call is refused
  exactly when the minimums exceed the pool. Otherwise every claim receives at least its minimum and
  at most what it desires, the pool is used up or every desire is met, and a claim gets more than its
  minimum only when every claim of a higher priority has all it desires.\<close>

theorem claims_allocated_by_priority:
  assumes "distinct (map cl_name claims)" and "\<forall>c \<in> set claims. ContextBudgetClaim_post_init c = Inr c"
    and "claims \<noteq> []"
  shows "if sum_list (map cl_minimum_tokens claims) > max 0 available then
      allocate_claims claims available = Inl (ContextOverflow ''minimum_context_demand_exceeds_pool'')
    else \<exists>d. allocate_claims claims available = Inr d \<and> map fst d = map cl_name claims
      \<and> (\<forall>c \<in> set claims. cl_minimum_tokens c \<le> claim_allocation d (cl_name c)
          \<and> claim_allocation d (cl_name c) \<le> cl_desired_tokens c)
      \<and> sum_list (map snd d) = min (max 0 available) (sum_list (map cl_desired_tokens claims))
      \<and> (\<forall>c \<in> set claims. \<forall>e \<in> set claims. cl_priority e < cl_priority c
          \<and> cl_minimum_tokens e < claim_allocation d (cl_name e)
          \<longrightarrow> claim_allocation d (cl_name c) = cl_desired_tokens c)"
proof -
  have ok: "\<forall>c \<in> set claims. claim_ok c" using assms(2) ContextBudgetClaim_post_init_ok by blast
  note eq = allocate_claims_props(1) [OF assms(1) ok, of available]
  show ?thesis
  proof (cases "sum_list (map cl_minimum_tokens claims) > max 0 available")
    case True
    then show ?thesis using eq assms(3) by simp
  next
    case False
    then obtain d where d: "allocate_claims claims available = Inr d" using eq by auto
    show ?thesis using False d allocate_claims_props(2) [OF assms(1) ok d] by auto
  qed
qed

definition sample_claims :: "context_budget_claim list" where
  "sample_claims =
     [\<lparr>cl_name = ''memory'', cl_desired_tokens = 900, cl_minimum_tokens = 100, cl_maximum_tokens = Some 900, cl_priority = 1\<rparr>,
      \<lparr>cl_name = ''files'', cl_desired_tokens = 500, cl_minimum_tokens = 0, cl_maximum_tokens = Some 800, cl_priority = 5\<rparr>,
      \<lparr>cl_name = ''notes'', cl_desired_tokens = 300, cl_minimum_tokens = 50, cl_maximum_tokens = Some 300, cl_priority = 1\<rparr>]"

lemma sample_claims_ok:
  "distinct (map cl_name sample_claims)" "\<forall>c \<in> set sample_claims. ContextBudgetClaim_post_init c = Inr c" "sample_claims \<noteq> []"
  by code_simp+

lemma sample_claims_ok_inv: "\<forall>c \<in> set sample_claims. claim_ok c"
  using sample_claims_ok(2) ContextBudgetClaim_post_init_ok by blast

theorem claims_allocated_by_priority_witness:
  "\<exists>d. allocate_claims sample_claims 1000 = Inr d \<and> sum_list (map snd d) = 1000
     \<and> map fst d = [''memory'', ''files'', ''notes'']"
proof -
  have min: "sum_list (map cl_minimum_tokens sample_claims) = 150"
    "sum_list (map cl_desired_tokens sample_claims) = 1700"
    "map cl_name sample_claims = [''memory'', ''files'', ''notes'']" by code_simp+
  show ?thesis using claims_allocated_by_priority [OF sample_claims_ok, of 1000] by (auto simp: min)
qed

section \<open>The account of the window\<close>

text \<open>C38. The budget accounts for the whole window. For validated claims the allocation either reports a
  context overflow, or gives a budget whose output, safety, runtime, tool schema and provider input
  tokens add up to exactly the window, whose claims fit into the provider input next to the message
  minimum, and which the request's contract check accepts; the constructor never refuses it.\<close>

theorem context_budget_accounts_for_window:
  assumes "distinct (map cl_name claims)" and "\<forall>c \<in> set claims. ContextBudgetClaim_post_init c = Inr c"
    and "0 < window" and "0 < out"
    and "\<forall>n \<in> set_option safety \<union> set_option runtime \<union> set_option minimum. 0 \<le> n"
  shows "case allocate_context_budget R window out tools claims safety runtime minimum of
      Inl e \<Rightarrow> e = ContextOverflow ''fixed_reserves_exceed_window''
        \<or> e = ContextOverflow ''minimum_context_demand_exceeds_pool''
    | Inr b \<Rightarrow> cb_window_tokens b = window \<and> cb_output_reserve_tokens b = out
        \<and> out + cb_safety_reserve_tokens b + cb_runtime_reserve_tokens b + cb_tool_schema_tokens b
            + cb_provider_input_tokens b = window
        \<and> sum_list (map snd (cb_context_allocations b)) + cb_minimum_message_tokens b \<le> cb_provider_input_tokens b
        \<and> sum_list (map snd (cb_context_allocations b))
            = min (context_pool_tokens b) (sum_list (map cl_desired_tokens claims))
        \<and> context_budget_contract_error R (Some window) (Some b) tools = None
        \<and> ContextBudget_post_init b = Inr b"
proof -
  have ok: "\<forall>c \<in> set claims. claim_ok c" using assms(2) ContextBudgetClaim_post_init_ok by blast
  obtain sa ru sc mi where res: "fixed_context_reserves R window tools safety runtime minimum = Inr (sa, ru, sc, mi)"
    using fixed_context_reserves_total [OF assms(5)] by (metis prod_cases4)
  note eq = allocate_context_budget_eq [OF assms(1) ok assms(3,4) res]
  let ?input = "window - out - sa - ru - sc"
  note nn = fixed_context_reserves_Inr [OF res]
  show ?thesis
  proof (cases "?input < mi")
    case True
    then show ?thesis using eq by simp
  next
    case False
    show ?thesis
    proof (cases "allocate_claims claims (?input - mi)")
      case (Inl e)
      then have "e = ContextOverflow ''minimum_context_demand_exceeds_pool''"
        using allocate_claims_error [OF assms(1) ok] by blast
      then show ?thesis using eq False Inl by simp
    next
      case (Inr d)
      define b where "b = \<lparr>cb_window_tokens = window, cb_output_reserve_tokens = out, cb_safety_reserve_tokens = sa,
         cb_runtime_reserve_tokens = ru, cb_tool_schema_tokens = sc,
         cb_provider_input_tokens = ?input, cb_minimum_message_tokens = mi, cb_context_allocations = d\<rparr>"
      have call: "allocate_context_budget R window out tools claims safety runtime minimum = Inr b"
        using eq False Inr by (simp add: b_def)
      note p = allocate_claims_props(2) [OF assms(1) ok Inr]
      have post: "ContextBudget_post_init b = Inr b"
        using call assms(1,3,4) res False Inr
        by (simp add: allocate_context_budget_def validate_context_claims_def Let_def max_def b_def)
      show ?thesis unfolding call sum.case
        using post p False nn(4) assms(4)
        by (auto simp: b_def context_pool_tokens_def context_budget_contract_error_def)
    qed
  qed
qed

theorem context_budget_accounts_for_window_witness:
  "\<exists>b. allocate_context_budget (\<lambda>_ _. ''0.5'') 128000 8192 [] sample_claims None None None = Inr b
     \<and> 8192 + cb_safety_reserve_tokens b + cb_runtime_reserve_tokens b + cb_tool_schema_tokens b
         + cb_provider_input_tokens b = 128000"
proof -
  let ?call = "allocate_context_budget (\<lambda>_ _. ''0.5'') 128000 8192 [] sample_claims None None None"
  have "ceil_times_0_05 128000 = 6400"
    by (simp add: ceil_times_0_05_def double_of_def round_half_even_def bit_length.simps Let_def)
  then have "fixed_context_reserves (\<lambda>_ _. ''0.5'') 128000 [] None None None = Inr (6400, 5120, 0, 1280)"
    by (simp add: fixed_context_reserves_def estimate_tool_schema_tokens_def)
  moreover have "\<not> isl (allocate_claims sample_claims (128000 - 8192 - 6400 - 5120 - 0 - 1280))" by code_simp
  ultimately have "\<not> isl ?call"
    using allocate_context_budget_eq [OF sample_claims_ok(1) sample_claims_ok_inv, of 128000 8192] by (cases "allocate_claims sample_claims 107008") auto
  then show ?thesis
    using context_budget_accounts_for_window [OF sample_claims_ok(1,2), of 128000 8192 None None None "\<lambda>_ _. ''0.5''" "[]"]
    by (cases ?call) auto
qed

text \<open>Output that was reserved stays available. When a budget was allocated and the compiled messages
  together with the reserves asked for at this point stay within the budget's input, runtime and
  safety tokens, the room left for generation is at least the output the budget had reserved.\<close>

theorem reserved_output_is_available:
  assumes "allocate_context_budget R window out tools claims s r m = Inr b"
    and "estimate_agent_messages_tokens R messages = Inr n"
    and "0 \<le> safety" and "0 \<le> runtime"
    and "n + safety + runtime \<le> round_input_tokens b + cb_safety_reserve_tokens b"
  shows "\<exists>k. max_generation_tokens_for_actual_input R window messages tools (Some safety) (Some runtime) = Inr k
    \<and> out \<le> k \<and> 0 < k"
proof -
  have b: "0 < window" "0 < out" "cb_output_reserve_tokens b = out" "cb_window_tokens b = window"
    "cb_tool_schema_tokens b = estimate_tool_schema_tokens R tools"
    "out + cb_safety_reserve_tokens b + cb_runtime_reserve_tokens b + cb_tool_schema_tokens b
      + cb_provider_input_tokens b \<le> window"
    using allocate_context_budget_Inr [OF assms(1)] by auto
  have "fixed_context_reserves R window tools (Some safety) (Some runtime) (Some 0)
      = Inr (safety, runtime, estimate_tool_schema_tokens R tools, 0)"
    using assms(3,4) by (simp add: fixed_context_reserves_def min_less_iff_disj leD)
  then show ?thesis using assms(2,5) b
    by (auto simp: max_generation_tokens_for_actual_input_def round_input_tokens_def)
qed

definition sample_message :: "message_role \<Rightarrow> string \<Rightarrow> agent_message" where
  "sample_message role text = \<lparr>am_role = role, am_content = JStr text, am_reasoning = None, am_tool_calls = [],
     am_tool_call_id = (if role = Role_TOOL then Some ''c1'' else None), am_origin = Origin_CALLER,
     am_attributes = [], am_host_metadata = [], am_provider_data = []\<rparr>"

abbreviation sample_repr :: "int \<Rightarrow> int \<Rightarrow> string" where
  "sample_repr \<equiv> \<lambda>_ _. ''0.5''"

theorem reserved_output_is_available_witness:
  "\<exists>k. max_generation_tokens_for_actual_input sample_repr 20000 [sample_message Role_USER ''hello''] [] (Some 4096) (Some 0) = Inr k
     \<and> 8192 \<le> k"
proof -
  let ?call = "allocate_context_budget sample_repr 20000 8192 [] [] (Some 4096) (Some 2048) (Some 1024)"
  have call: "?call = Inr \<lparr>cb_window_tokens = 20000, cb_output_reserve_tokens = 8192, cb_safety_reserve_tokens = 4096,
         cb_runtime_reserve_tokens = 2048, cb_tool_schema_tokens = 0,
         cb_provider_input_tokens = 5664, cb_minimum_message_tokens = 1024, cb_context_allocations = []\<rparr>"
    by code_simp
  have n: "estimate_agent_messages_tokens sample_repr [sample_message Role_USER ''hello''] = Inr 23" by code_simp
  show ?thesis
    using reserved_output_is_available [OF call n, of 4096 0] by (auto simp: round_input_tokens_def)
qed

section \<open>Trimming\<close>

text \<open>C40. Trimming keeps complete turns. For validated messages the call always returns. The unprotected messages
  fall into turns: runs of consecutive messages with a user message at most at the head, each of which ends
  only where a user message begins the next one or a protected message comes between. The result holds every protected
  message (system, developer, host context) and the newest \<open>k\<close> turns whole, in their original
  order, and nothing else; the newest turn is always kept; beyond it turns are kept exactly as long
  as they fit the message limit and the text budget, and the next older one would not.\<close>

theorem trim_keeps_complete_turns:
  assumes "\<forall>m \<in> set messages. \<exists>m0. AgentMessage_post_init m0 = Inr m"
  shows "\<exists>t turns k. trim_agent_messages_by_turn R messages budget limit = Inr t
    \<and> concat turns = filter (\<lambda>row. \<not> protected_message (snd row)) (enumerate 0 messages)
    \<and> complete_turns turns \<and> k \<le> length turns \<and> (turns = [] \<or> 0 < k)
    \<and> tm_messages t = map snd (filter (\<lambda>row. protected_message (snd row) \<or> row \<in> set (concat (drop (length turns - k) turns)))
        (enumerate 0 messages))
    \<and> tm_dropped_count t = int (length (concat (take (length turns - k) turns)))
    \<and> (k \<le> 1 \<or> 2 + sum_list (map (text_cost R) (tm_messages t)) \<le> max 0 budget
        \<and> (\<forall>n. limit = Some n \<longrightarrow> int (length (concat (drop (length turns - k) turns))) \<le> max 1 n))
    \<and> (k = length turns \<or> \<not> turns_fit R budget limit 0 (2 + sum_list (map (text_cost R) (filter protected_message messages)))
        (drop (length turns - Suc k) turns))
    \<and> tm_token_estimate t = 2 + sum_list (map (full_cost R) (tm_messages t))
    \<and> tm_overflow_tokens t = max 0 (tm_token_estimate t - max 0 budget)"
proof -
  have ok: "\<forall>m \<in> set messages. message_ok m" using assms AgentMessage_post_init_ok by blast
  show ?thesis using trim_props [OF ok] by blast
qed

definition sample_conversation :: "agent_message list" where
  "sample_conversation = [sample_message Role_SYSTEM ''be brief'', sample_message Role_USER ''first question'',
     sample_message Role_ASSISTANT ''first answer'', sample_message Role_USER ''second'', sample_message Role_ASSISTANT ''done'']"

theorem trim_keeps_complete_turns_witness:
  "\<exists>t. trim_agent_messages_by_turn sample_repr sample_conversation 70 None = Inr t
     \<and> tm_token_estimate t = 2 + sum_list (map (full_cost sample_repr) (tm_messages t))
     \<and> tm_messages t = [sample_conversation ! 0, sample_conversation ! 3, sample_conversation ! 4]"
proof -
  have ok: "\<forall>m \<in> set sample_conversation. AgentMessage_post_init m = Inr m" by code_simp
  have "case trim_agent_messages_by_turn sample_repr sample_conversation 70 None of Inl e \<Rightarrow> False
    | Inr t \<Rightarrow> tm_messages t = [sample_conversation ! 0, sample_conversation ! 3, sample_conversation ! 4]"
    by code_simp
  then show ?thesis using trim_keeps_complete_turns [of sample_conversation sample_repr 70 None] ok by fastforce
qed

section \<open>Images\<close>

text \<open>Static image content that is accepted holds at least one image, every image carries the canonical
  base64 text of a non-empty sequence of bytes, and the declared input tokens are positive and add up
  to a safe integer, which is what the token estimate charges.\<close>

theorem static_images_are_canonical:
  assumes "parse_static_image_content content = Inr (Some (text, images))"
  shows "images \<noteq> [] \<and> image_input_tokens content = Inr (sum_list (map image_tokens images))
    \<and> 0 < sum_list (map image_tokens images) \<and> sum_list (map image_tokens images) \<le> 2 ^ 53 - 1
    \<and> (\<forall>img \<in> set images. 0 < image_tokens img
        \<and> (\<exists>bytes. bytes \<noteq> [] \<and> (\<forall>b \<in> set bytes. b < 256) \<and> map_of img ''dataBase64'' = Some (JStr (b64encode bytes))))"
proof -
  obtain items where items: "items \<noteq> []" "parse_images items 0 = Inr images"
    using assms by (auto simp: parse_static_image_content_def bind_result_Inr_iff split: json.splits if_splits option.splits)
  note p = parse_images_props [OF items(2)]
  obtain img rest where "images = img # rest" using p items(1) by (cases images) auto
  moreover have "0 \<le> sum_list (map image_tokens rest)" if "images = img # rest" for img rest
    using p that by (intro sum_list_nonneg) force
  ultimately show ?thesis using p assms items(1) by (force simp: image_input_tokens_def)
qed

theorem static_images_are_canonical_witness:
  "\<exists>bytes. bytes \<noteq> [] \<and> map_of [(''mediaType'', JStr ''image/png''), (''dataBase64'', JStr ''aGk=''), (''inputTokens'', JInt 85)]
     ''dataBase64'' = Some (JStr (b64encode bytes))"
proof -
  let ?img = "[(''mediaType'', JStr ''image/png''), (''dataBase64'', JStr ''aGk=''), (''inputTokens'', JInt 85)]"
  have "parse_static_image_content (JObj [(''type'', JStr STATIC_IMAGE_PROFILE), (''text'', JStr ''look''), (''images'', JList [JObj ?img])])
    = Inr (Some (''look'', [?img]))" by code_simp
  from static_images_are_canonical [OF this] show ?thesis by auto
qed

end
