(* ===== verification/Long_Tasks.thy ===== *)
theory Long_Tasks
  imports Json_Values Recovery
begin

text \<open>
  \<open>purra/long_tasks/contracts.py\<close>: the contracts of durable tasks, that is tasks, their
  execution units, usage, limits, results and splits. Every constructor is a function from the
  raw fields to the normalized record or an error. Times are integers in milliseconds;
  \<open>create_time\<close> and \<open>update_time\<close> are texts of the wall clock.
\<close>

section \<open>Enumerations\<close>

datatype long_task_status =
    Task_PENDING | Task_RUNNING | Task_PAUSED | Task_COMPLETED | Task_FAILED | Task_CANCELED

definition task_terminal :: "long_task_status \<Rightarrow> bool" where
  "task_terminal st \<longleftrightarrow> st \<in> {Task_COMPLETED, Task_FAILED, Task_CANCELED}"

datatype budget_exhaustion_disposition = Budget_PAUSE_RECOVERABLE | Budget_FAIL_PERMANENT

datatype long_task_run_relation = Relation_CREATED | Relation_CONTINUATION | Relation_REFERENCE

datatype long_task_unit_status =
    Unit_PENDING | Unit_WAITING_RETRY | Unit_CLAIMED | Unit_RUNNING | Unit_NEEDS_SPLIT
  | Unit_BLOCKED | Unit_EXPANDED | Unit_COMPLETED | Unit_FAILED | Unit_CANCELED

definition unit_terminal :: "long_task_unit_status \<Rightarrow> bool" where
  "unit_terminal st \<longleftrightarrow> st \<in> {Unit_COMPLETED, Unit_EXPANDED, Unit_FAILED, Unit_CANCELED}"

section \<open>Bindings, usage and limits\<close>

record long_task_run_binding =
  lb_task_id :: string
  lb_run_id :: string
  lb_relation :: long_task_run_relation

definition LongTaskRunBinding_post_init :: "long_task_run_binding \<Rightarrow> long_task_run_binding result" where
  "LongTaskRunBinding_post_init b =
     bind_result (required_text (lb_task_id b) ''long task Run binding task_id'') (\<lambda>t.
     bind_result (required_text (lb_run_id b) ''long task Run binding run_id'') (\<lambda>r.
     Inr (b\<lparr>lb_task_id := t, lb_run_id := r\<rparr>)))"

record long_task_usage =
  lg_invocation_count :: int
  lg_unreported_usage_attempts :: int
  lg_input_tokens :: int
  lg_generation_tokens :: int
  lg_reasoning_tokens :: "int option"

definition LongTaskUsage_post_init :: "long_task_usage \<Rightarrow> long_task_usage result" where
  "LongTaskUsage_post_init u =
     bind_result (non_negative_int (lg_invocation_count u) ''long task usage invocation_count'') (\<lambda>_.
     bind_result (non_negative_int (lg_unreported_usage_attempts u) ''long task usage unreported_usage_attempts'') (\<lambda>_.
     bind_result (non_negative_int (lg_input_tokens u) ''long task usage input_tokens'') (\<lambda>_.
     bind_result (non_negative_int (lg_generation_tokens u) ''long task usage generation_tokens'') (\<lambda>_.
     bind_result (case lg_reasoning_tokens u of None \<Rightarrow> Inr 0
       | Some n \<Rightarrow> non_negative_int n ''long task usage reasoning_tokens'') (\<lambda>_.
     if lg_unreported_usage_attempts u > lg_invocation_count u then
       Inl (ValueError ''unreported usage attempts cannot exceed invocation count'')
     else Inr u)))))"

text \<open>\<open>LongTaskUsage()\<close>.\<close>

definition no_usage :: long_task_usage where
  "no_usage = \<lparr>lg_invocation_count = 0, lg_unreported_usage_attempts = 0, lg_input_tokens = 0,
     lg_generation_tokens = 0, lg_reasoning_tokens = None\<rparr>"

definition json_of_int_option :: "int option \<Rightarrow> json" where
  "json_of_int_option v = (case v of None \<Rightarrow> JNull | Some n \<Rightarrow> JInt n)"

definition LongTaskUsage_to_mapping :: "long_task_usage \<Rightarrow> json_mapping" where
  "LongTaskUsage_to_mapping u =
     [(''invocationCount'', JInt (lg_invocation_count u)),
      (''unreportedUsageAttempts'', JInt (lg_unreported_usage_attempts u)),
      (''inputTokens'', JInt (lg_input_tokens u)),
      (''generationTokens'', JInt (lg_generation_tokens u)),
      (''reasoningTokens'', json_of_int_option (lg_reasoning_tokens u))]"

record long_task_budget_limits =
  lm_max_invocation_attempts :: "int option"
  lm_max_input_tokens :: "int option"
  lm_max_run_generation_tokens :: "int option"
  lm_max_reasoning_tokens :: "int option"

definition LongTaskBudgetLimits_post_init :: "long_task_budget_limits \<Rightarrow> long_task_budget_limits result" where
  "LongTaskBudgetLimits_post_init l =
     bind_result (optional_non_negative_int (lm_max_invocation_attempts l) ''long task budget max_invocation_attempts'') (\<lambda>_.
     bind_result (optional_non_negative_int (lm_max_input_tokens l) ''long task budget max_input_tokens'') (\<lambda>_.
     bind_result (optional_non_negative_int (lm_max_run_generation_tokens l) ''long task budget max_run_generation_tokens'') (\<lambda>_.
     bind_result (optional_non_negative_int (lm_max_reasoning_tokens l) ''long task budget max_reasoning_tokens'') (\<lambda>_.
     Inr l))))"

definition no_limits :: long_task_budget_limits where
  "no_limits = \<lparr>lm_max_invocation_attempts = None, lm_max_input_tokens = None,
     lm_max_run_generation_tokens = None, lm_max_reasoning_tokens = None\<rparr>"

definition LongTaskBudgetLimits_to_mapping :: "long_task_budget_limits \<Rightarrow> json_mapping" where
  "LongTaskBudgetLimits_to_mapping l =
     [(''maxInvocationAttempts'', json_of_int_option (lm_max_invocation_attempts l)),
      (''maxInputTokens'', json_of_int_option (lm_max_input_tokens l)),
      (''maxRunGenerationTokens'', json_of_int_option (lm_max_run_generation_tokens l)),
      (''maxReasoningTokens'', json_of_int_option (lm_max_reasoning_tokens l))]"

section \<open>Units and tasks\<close>

text \<open>
  \<open>tuple(TopologicalSorter(graph).static_order())\<close>: it raises \<open>CycleError\<close> when nodes are left
  that cannot be ordered. One round orders every node none of whose predecessors is still left;
  predecessors outside the graph are ordered first.
\<close>

type_synonym dependency_graph = "(string \<times> string list) list"

definition order_round :: "dependency_graph \<Rightarrow> dependency_graph" where
  "order_round g = filter (\<lambda>(i, ds). \<exists>d \<in> set ds. d \<in> fst ` set g) g"

definition orderable :: "dependency_graph \<Rightarrow> bool" where
  "orderable g \<longleftrightarrow> (order_round ^^ length g) g = []"

record long_task_unit_spec =
  ls_id :: string
  ls_position :: int
  ls_semantic_key :: "string option"
  ls_dependencies :: "string list"
  ls_parent_unit_id :: "string option"
  ls_required :: bool
  ls_input_ref :: "string option"
  ls_max_attempts :: int
  ls_metadata :: json_mapping

text \<open>\<open>self.semantic_key or self.id\<close>.\<close>

definition key_or_id :: "string option \<Rightarrow> string \<Rightarrow> string" where
  "key_or_id key i = (if str_or_empty key = [] then i else str_or_empty key)"

definition LongTaskUnitSpec_post_init :: "long_task_unit_spec \<Rightarrow> long_task_unit_spec result" where
  "LongTaskUnitSpec_post_init u =
     bind_result (required_text (ls_id u) ''long task unit id'') (\<lambda>i.
     bind_result (non_negative_int (ls_position u) ''long task unit position'') (\<lambda>position.
     bind_result (required_text (key_or_id (ls_semantic_key u) i) ''long task unit semantic_key'') (\<lambda>key.
     let dependencies = unique_text_tuple (map strip (ls_dependencies u)) in
     if i \<in> set dependencies then Inl (ValueError ''long task unit cannot depend on itself'')
     else
     bind_result (positive_int (ls_max_attempts u) ''long task unit max_attempts'') (\<lambda>attempts.
     Inr (u\<lparr>ls_id := i, ls_position := position, ls_semantic_key := Some key,
       ls_dependencies := dependencies, ls_parent_unit_id := optional_text (ls_parent_unit_id u),
       ls_input_ref := optional_text (ls_input_ref u), ls_max_attempts := attempts\<rparr>)))))"

definition spec_graph :: "long_task_unit_spec list \<Rightarrow> dependency_graph" where
  "spec_graph units = map (\<lambda>u. (ls_id u, ls_dependencies u)) units"

record long_task_create_command =
  lc_namespace :: string
  lc_kind :: string
  lc_owner_id :: string
  lc_created_by_run_id :: string
  lc_units :: "long_task_unit_spec list"
  lc_max_parallelism :: int
  lc_deadline_at_ms :: "int option"
  lc_budget_limits :: long_task_budget_limits
  lc_budget_exhaustion_disposition :: budget_exhaustion_disposition
  lc_metadata :: json_mapping

definition LongTaskCreateCommand_post_init :: "long_task_create_command \<Rightarrow> long_task_create_command result" where
  "LongTaskCreateCommand_post_init c =
     bind_result (required_text (lc_namespace c) ''long task namespace'') (\<lambda>namespace.
     bind_result (required_text (lc_kind c) ''long task kind'') (\<lambda>kind.
     bind_result (required_text (lc_owner_id c) ''long task owner_id'') (\<lambda>owner.
     bind_result (required_text (lc_created_by_run_id c) ''long task created_by_run_id'') (\<lambda>run.
     let units = lc_units c;
         missing = filter (\<lambda>d. d \<notin> set (map ls_id units)) (concat (map ls_dependencies units)) in
     if units = [] then Inl (ValueError ''long task requires at least one execution unit'')
     else if \<not> list_ex ls_required units then
       Inl (ValueError ''long task requires at least one required execution unit'')
     else if \<not> distinct (map ls_id units) then Inl (ValueError ''long task unit ids must be unique'')
     else if \<not> distinct (map ls_semantic_key units) then
       Inl (ValueError ''long task unit semantic keys must be unique'')
     else if \<not> distinct (map ls_position units) then
       Inl (ValueError ''long task unit positions must be unique'')
     else if missing \<noteq> [] then
       Inl (ValueError (''long task unit dependencies are unknown: '' @ join_sorted missing))
     else if \<not> orderable (spec_graph units) then
       Inl (ValueError ''long task unit dependencies contain a cycle'')
     else
     bind_result (positive_int (lc_max_parallelism c) ''long task max_parallelism'') (\<lambda>parallelism.
     bind_result (optional_positive_int (lc_deadline_at_ms c) ''long task deadline_at_ms'') (\<lambda>deadline.
     Inr (c\<lparr>lc_namespace := namespace, lc_kind := kind, lc_owner_id := owner, lc_created_by_run_id := run,
       lc_max_parallelism := parallelism, lc_deadline_at_ms := deadline\<rparr>)))))))"

record long_task_record =
  lt_id :: string
  lt_namespace :: string
  lt_kind :: string
  lt_owner_id :: string
  lt_created_by_run_id :: string
  lt_status :: long_task_status
  lt_revision :: int
  lt_total_units :: int
  lt_completed_units :: int
  lt_failed_units :: int
  lt_max_parallelism :: int
  lt_deadline_at_ms :: "int option"
  lt_budget_limits :: long_task_budget_limits
  lt_budget_exhaustion_disposition :: budget_exhaustion_disposition
  lt_cancellation_requested_at_ms :: "int option"
  lt_usage :: long_task_usage
  lt_metadata :: json_mapping
  lt_create_time :: "string option"
  lt_update_time :: "string option"

definition LongTaskRecord_post_init :: "long_task_record \<Rightarrow> long_task_record result" where
  "LongTaskRecord_post_init t =
     bind_result (required_text (lt_id t) ''long task record id'') (\<lambda>i.
     bind_result (required_text (lt_namespace t) ''long task record namespace'') (\<lambda>namespace.
     bind_result (required_text (lt_kind t) ''long task record kind'') (\<lambda>kind.
     bind_result (required_text (lt_owner_id t) ''long task record owner_id'') (\<lambda>owner.
     bind_result (required_text (lt_created_by_run_id t) ''long task record created_by_run_id'') (\<lambda>run.
     bind_result (positive_int (lt_revision t) ''long task record revision'') (\<lambda>_.
     bind_result (positive_int (lt_total_units t) ''long task record total_units'') (\<lambda>_.
     bind_result (positive_int (lt_max_parallelism t) ''long task record max_parallelism'') (\<lambda>_.
     bind_result (non_negative_int (lt_completed_units t) ''long task record completed_units'') (\<lambda>_.
     bind_result (non_negative_int (lt_failed_units t) ''long task record failed_units'') (\<lambda>_.
     if lt_completed_units t + lt_failed_units t > lt_total_units t then
       Inl (ValueError ''long task progress exceeds total units'')
     else
     bind_result (optional_positive_int (lt_deadline_at_ms t) ''long task deadline_at_ms'') (\<lambda>_.
     if (case lt_cancellation_requested_at_ms t of None \<Rightarrow> False | Some n \<Rightarrow> n < 0) then
       Inl (ValueError ''long task cancellation timestamp is invalid'')
     else Inr (t\<lparr>lt_id := i, lt_namespace := namespace, lt_kind := kind, lt_owner_id := owner,
       lt_created_by_run_id := run, lt_create_time := optional_text (lt_create_time t),
       lt_update_time := optional_text (lt_update_time t)\<rparr>))))))))))))"

record long_task_unit_record =
  lu_task_id :: string
  lu_id :: string
  lu_position :: int
  lu_status :: long_task_unit_status
  lu_semantic_key :: "string option"
  lu_dependencies :: "string list"
  lu_parent_unit_id :: "string option"
  lu_required :: bool
  lu_attempt :: int
  lu_max_attempts :: int
  lu_worker_id :: "string option"
  lu_lease_epoch :: int
  lu_lease_expires_at_ms :: "int option"
  lu_settled_by_worker_id :: "string option"
  lu_run_id :: "string option"
  lu_input_ref :: "string option"
  lu_output_ref :: "string option"
  lu_artifact_digest :: "string option"
  lu_validation_receipt :: json_mapping
  lu_failure :: json_mapping
  lu_disposition :: "failure_disposition option"
  lu_error_code :: "string option"
  lu_metadata :: json_mapping
  lu_create_time :: "string option"
  lu_update_time :: "string option"

definition LongTaskUnitRecord_post_init :: "long_task_unit_record \<Rightarrow> long_task_unit_record result" where
  "LongTaskUnitRecord_post_init u =
     bind_result (required_text (lu_task_id u) ''long task unit record task_id'') (\<lambda>task.
     bind_result (required_text (lu_id u) ''long task unit record id'') (\<lambda>i.
     bind_result (required_text (key_or_id (lu_semantic_key u) i) ''long task unit record semantic_key'') (\<lambda>key.
     bind_result (non_negative_int (lu_position u) ''long task unit record position'') (\<lambda>_.
     bind_result (non_negative_int (lu_attempt u) ''long task unit record attempt'') (\<lambda>_.
     bind_result (positive_int (lu_max_attempts u) ''long task unit record max_attempts'') (\<lambda>_.
     bind_result (non_negative_int (lu_lease_epoch u) ''long task unit record lease_epoch'') (\<lambda>_.
     Inr (u\<lparr>lu_task_id := task, lu_id := i, lu_semantic_key := Some key,
       lu_parent_unit_id := optional_text (lu_parent_unit_id u),
       lu_worker_id := optional_text (lu_worker_id u),
       lu_settled_by_worker_id := optional_text (lu_settled_by_worker_id u),
       lu_run_id := optional_text (lu_run_id u),
       lu_input_ref := optional_text (lu_input_ref u),
       lu_output_ref := optional_text (lu_output_ref u),
       lu_artifact_digest := optional_text (lu_artifact_digest u),
       lu_error_code := optional_text (lu_error_code u),
       lu_create_time := optional_text (lu_create_time u),
       lu_update_time := optional_text (lu_update_time u)\<rparr>))))))))"

record long_task_unit_result =
  lr_output_ref :: string
  lr_run_id :: "string option"
  lr_artifact_digest :: "string option"
  lr_validation_receipt :: json_mapping
  lr_metadata :: json_mapping

definition LongTaskUnitResult_post_init :: "long_task_unit_result \<Rightarrow> long_task_unit_result result" where
  "LongTaskUnitResult_post_init r =
     bind_result (required_text (lr_output_ref r) ''long task unit result output_ref'') (\<lambda>out.
     Inr (r\<lparr>lr_output_ref := out, lr_run_id := optional_text (lr_run_id r),
       lr_artifact_digest := optional_text (lr_artifact_digest r)\<rparr>))"

record long_task_split_result =
  lp_children :: "long_task_unit_spec list"
  lp_replacement_dependency_ids :: "string list"

definition LongTaskSplitResult_post_init :: "long_task_split_result \<Rightarrow> long_task_split_result result" where
  "LongTaskSplitResult_post_init p =
     (let ids = map ls_id (lp_children p);
          replacement = unique_text_tuple (lp_replacement_dependency_ids p) in
      if \<not> distinct ids then Inl (ValueError ''split child ids must be unique'')
      else if \<not> distinct (map ls_semantic_key (lp_children p)) then
        Inl (ValueError ''split child semantic keys must be unique'')
      else if \<not> set replacement \<subseteq> set ids then
        Inl (ValueError ''replacement dependencies must reference split children'')
      else if lp_children p \<noteq> [] \<and> \<not> orderable (spec_graph (lp_children p)) then
        Inl (ValueError ''long task unit dependencies contain a cycle'')
      else Inr (p\<lparr>lp_replacement_dependency_ids := replacement\<rparr>))"

section \<open>Results of an execution\<close>

datatype long_task_execution_status =
    Execution_COMPLETED | Execution_PARTIAL | Execution_FAILED | Execution_CANCELED | Execution_PAUSED

record long_task_execution_result =
  lx_task_id :: string
  lx_status :: long_task_execution_status
  lx_final_response :: string
  lx_error :: "string option"
  lx_metadata :: json_mapping

definition LongTaskExecutionResult_post_init :: "long_task_execution_result \<Rightarrow> long_task_execution_result result" where
  "LongTaskExecutionResult_post_init r =
     bind_result (required_text (lx_task_id r) ''long task execution task_id'') (\<lambda>t.
     Inr (r\<lparr>lx_task_id := t, lx_error := optional_text (lx_error r)\<rparr>))"

end
