(* ===== verification/Long_Task_Store.thy ===== *)
theory Long_Task_Store
  imports Long_Tasks
begin

text \<open>
  \<open>InMemoryLongTaskRepository\<close> of \<open>purra/adapters/durable_memory.py\<close> with its mixins of
  \<open>purra/adapters/_long_task_mixins.py\<close>: the store of durable tasks.

  Every method runs under the repository's lock, so one call is one step. A call returns its
  result together with the state it leaves, because some calls change the state and then raise
  (an elapsed deadline is recorded before the caller is refused). All readings of the injected
  clock within one call are the argument \<open>now\<close>; \<open>ts\<close> is the text of the wall clock. \<open>replace\<close>
  runs the constructor of a record again. Where the new field values are already normalized this
  changes nothing and the constructor is left out; where it can refuse the record
  (\<open>_refresh_totals\<close>, a requested cancellation, split children) it is written out.
\<close>

section \<open>State\<close>

record stored_long_task =
  sl_record :: long_task_record
  sl_units :: "(string, long_task_unit_record) dict"
  sl_bindings :: "(string, long_task_run_binding) dict"
  sl_usage_by_run :: "(string, long_task_usage) dict"

type_synonym 'a task_op = "'a result \<times> stored_long_task"
type_synonym long_task_state = "(string, stored_long_task) dict"

definition put_unit :: "long_task_unit_record \<Rightarrow> stored_long_task \<Rightarrow> stored_long_task" where
  "put_unit u s = s\<lparr>sl_units := AList.update (lu_id u) u (sl_units s)\<rparr>"

text \<open>\<open>for unit_id, unit in tuple(state.units.items()): state.units[unit_id] = \<dots>\<close>.\<close>

definition map_units :: "(string \<Rightarrow> long_task_unit_record \<Rightarrow> long_task_unit_record) \<Rightarrow> stored_long_task \<Rightarrow> stored_long_task" where
  "map_units f s = s\<lparr>sl_units := map (\<lambda>(k, u). (k, f k u)) (sl_units s)\<rparr>"

definition unit_active :: "long_task_unit_record \<Rightarrow> bool" where
  "unit_active u \<longleftrightarrow> lu_status u \<in> {Unit_CLAIMED, Unit_RUNNING}"

definition lease_at :: "long_task_unit_record \<Rightarrow> int" where
  "lease_at u = (case lu_lease_expires_at_ms u of None \<Rightarrow> 0 | Some n \<Rightarrow> n)"

definition text_or :: "string option \<Rightarrow> string \<Rightarrow> string" where
  "text_or v d = (if str_or_empty v = [] then d else str_or_empty v)"

text \<open>\<open>{**a, **b}\<close>.\<close>

definition dict_merge :: "('k, 'v) dict \<Rightarrow> ('k, 'v) dict \<Rightarrow> ('k, 'v) dict" where
  "dict_merge a b = fold (\<lambda>(k, v). AList.update k v) b a"

section \<open>Private helpers\<close>

definition touch :: "stored_long_task \<Rightarrow> string \<Rightarrow> stored_long_task" where
  "touch s ts = s\<lparr>sl_record := (sl_record s)\<lparr>lt_revision := lt_revision (sl_record s) + 1,
     lt_update_time := optional_text (Some ts)\<rparr>\<rparr>"

definition set_status :: "stored_long_task \<Rightarrow> long_task_status \<Rightarrow> string \<Rightarrow> stored_long_task" where
  "set_status s st ts =
     (if lt_status (sl_record s) = st then s
      else touch (s\<lparr>sl_record := (sl_record s)\<lparr>lt_status := st\<rparr>\<rparr>) ts)"

definition required_units :: "stored_long_task \<Rightarrow> long_task_unit_record list" where
  "required_units s = filter lu_required (dict_values (sl_units s))"

definition refresh_totals :: "stored_long_task \<Rightarrow> string \<Rightarrow> unit task_op" where
  "refresh_totals s ts =
     (let required = required_units s in
      read_op (LongTaskRecord_post_init ((sl_record s)
        \<lparr>lt_total_units := int (length required),
         lt_completed_units := int (length (filter (\<lambda>u. lu_status u = Unit_COMPLETED) required)),
         lt_failed_units := int (length (filter (\<lambda>u. lu_status u = Unit_FAILED) required))\<rparr>)) s
      (\<lambda>r. (Inr (), touch (s\<lparr>sl_record := r\<rparr>) ts)))"

definition cancel_units :: "stored_long_task \<Rightarrow> string \<Rightarrow> stored_long_task" where
  "cancel_units s ts = set_status (map_units (\<lambda>k u.
     if unit_terminal (lu_status u) then u
     else u\<lparr>lu_status := Unit_CANCELED, lu_worker_id := None, lu_lease_expires_at_ms := None\<rparr>) s)
     Task_CANCELED ts"

definition fail_task :: "stored_long_task \<Rightarrow> string \<Rightarrow> string \<Rightarrow> unit task_op" where
  "fail_task s failed_unit_id ts =
     bind_op (refresh_totals (map_units (\<lambda>k u.
       if k \<noteq> failed_unit_id \<and> \<not> unit_terminal (lu_status u) then
         u\<lparr>lu_status := Unit_CANCELED, lu_worker_id := None, lu_lease_expires_at_ms := None,
           lu_error_code := Some (text_or (lu_error_code u) ''task_failed_dependency'')\<rparr>
       else u) s) ts) (\<lambda>_ s.
     (Inr (), set_status s Task_FAILED ts))"

definition release_active_units :: "stored_long_task \<Rightarrow> string \<Rightarrow> stored_long_task" where
  "release_active_units s reason = map_units (\<lambda>k u.
     if unit_active u then
       u\<lparr>lu_status := Unit_PENDING, lu_max_attempts := lu_max_attempts u + 1, lu_worker_id := None,
         lu_lease_expires_at_ms := None, lu_error_code := Some reason\<rparr>
     else u) s"

definition completed_ids :: "stored_long_task \<Rightarrow> string set" where
  "completed_ids s = set (map lu_id (filter (\<lambda>u. lu_status u = Unit_COMPLETED) (dict_values (sl_units s))))"

definition unit_runnable :: "stored_long_task \<Rightarrow> int \<Rightarrow> long_task_unit_record \<Rightarrow> bool" where
  "unit_runnable s now u \<longleftrightarrow> unit_active u \<and> lease_at u > now
     \<or> lu_status u \<in> {Unit_PENDING, Unit_WAITING_RETRY} \<and> lu_attempt u < lu_max_attempts u
       \<and> set (lu_dependencies u) \<subseteq> completed_ids s"

definition has_runnable_work :: "stored_long_task \<Rightarrow> int \<Rightarrow> bool" where
  "has_runnable_work s now \<longleftrightarrow> list_ex (unit_runnable s now) (dict_values (sl_units s))"

definition deadline_elapsed :: "stored_long_task \<Rightarrow> int \<Rightarrow> bool" where
  "deadline_elapsed s now \<longleftrightarrow> (case lt_deadline_at_ms (sl_record s) of None \<Rightarrow> False | Some d \<Rightarrow> d \<le> now)"

definition expire_units :: "stored_long_task \<Rightarrow> string \<Rightarrow> unit task_op" where
  "expire_units s ts =
     bind_op (refresh_totals (map_units (\<lambda>k u.
       if unit_terminal (lu_status u) then u
       else u\<lparr>lu_status := Unit_FAILED, lu_worker_id := None, lu_lease_expires_at_ms := None,
         lu_error_code := Some ''long_task_deadline_exceeded''\<rparr>) s) ts) (\<lambda>_ s.
     (Inr (), set_status s Task_FAILED ts))"

definition over_limit :: "bool \<Rightarrow> int option \<Rightarrow> int option \<Rightarrow> bool" where
  "over_limit exceeded_only v limit = (case (v, limit) of
     (Some n, Some l) \<Rightarrow> n > l \<or> \<not> exceeded_only \<and> n \<ge> l | _ \<Rightarrow> False)"

definition task_budget_exhaustion :: "stored_long_task \<Rightarrow> bool \<Rightarrow> string option" where
  "task_budget_exhaustion s exceeded_only =
     (let usage = lt_usage (sl_record s); limits = lt_budget_limits (sl_record s) in
      if lg_unreported_usage_attempts usage \<noteq> 0
         \<and> (lm_max_input_tokens limits \<noteq> None \<or> lm_max_run_generation_tokens limits \<noteq> None
            \<or> lm_max_reasoning_tokens limits \<noteq> None) then Some ''provider_usage_unreported''
      else if lm_max_reasoning_tokens limits \<noteq> None \<and> lg_reasoning_tokens usage = None then
        Some ''reasoning_tokens_unreported''
      else if over_limit exceeded_only (Some (lg_invocation_count usage)) (lm_max_invocation_attempts limits) then
        Some ''model_attempts''
      else if over_limit exceeded_only (Some (lg_input_tokens usage)) (lm_max_input_tokens limits) then
        Some ''input_tokens''
      else if over_limit exceeded_only (Some (lg_generation_tokens usage)) (lm_max_run_generation_tokens limits) then
        Some ''generation_tokens''
      else if over_limit exceeded_only (lg_reasoning_tokens usage) (lm_max_reasoning_tokens limits) then
        Some ''reasoning_tokens''
      else None)"

definition fail_budget :: "stored_long_task \<Rightarrow> string \<Rightarrow> string \<Rightarrow> unit task_op" where
  "fail_budget s budget_kind ts =
     (if lt_budget_exhaustion_disposition (sl_record s) = Budget_PAUSE_RECOVERABLE then
        bind_op (refresh_totals (map_units (\<lambda>k u.
          if unit_terminal (lu_status u) then u
          else u\<lparr>lu_status := Unit_BLOCKED, lu_worker_id := None, lu_lease_expires_at_ms := None,
            lu_disposition := Some Disp_PAUSE_RECOVERABLE, lu_error_code := Some ''runtime_budget_exceeded'',
            lu_metadata := dict_merge (lu_metadata u) [(''budgetKind'', JStr budget_kind)]\<rparr>) s) ts) (\<lambda>_ s.
        (Inr (), set_status s Task_PAUSED ts))
      else
        bind_op (refresh_totals (map_units (\<lambda>k u.
          if unit_terminal (lu_status u) then u
          else u\<lparr>lu_status := Unit_FAILED, lu_worker_id := None, lu_lease_expires_at_ms := None,
            lu_error_code := Some ''runtime_budget_exceeded'',
            lu_metadata := dict_merge (lu_metadata u) [(''budgetKind'', JStr budget_kind)]\<rparr>) s) ts) (\<lambda>_ s.
        (Inr (), set_status s Task_FAILED ts)))"

definition lease_lost :: py_error where
  "lease_lost = ContractViolation ''long_task_unit_lease_lost'' ''long task unit lease authority was lost''"

definition require_unit :: "stored_long_task \<Rightarrow> string \<Rightarrow> long_task_unit_record result" where
  "require_unit s unit_id = bind_result (required_text unit_id ''long task unit id'') (\<lambda>i.
     case map_of (sl_units s) i of None \<Rightarrow> Inl (LookupError ''long task unit does not exist'') | Some u \<Rightarrow> Inr u)"

definition require_unit_claim ::
    "stored_long_task \<Rightarrow> long_task_unit_record \<Rightarrow> string \<Rightarrow> int \<Rightarrow> int \<Rightarrow> string \<Rightarrow> unit task_op" where
  "require_unit_claim s u worker_id epoch now ts =
     (if deadline_elapsed s now then
        bind_op (expire_units s ts) (\<lambda>_ s.
        (Inl (ContractViolation ''long_task_deadline_exceeded'' ''long task deadline was exceeded''), s))
      else read_op (required_text worker_id ''long task worker id'') s (\<lambda>worker.
        if lt_status (sl_record s) \<noteq> Task_RUNNING \<or> \<not> unit_active u \<or> lu_worker_id u \<noteq> Some worker
           \<or> lu_lease_epoch u \<noteq> epoch
           \<or> (case lu_lease_expires_at_ms u of None \<Rightarrow> True | Some n \<Rightarrow> n \<le> now) then (Inl lease_lost, s)
        else (Inr (), s)))"

definition require_task_revision :: "stored_long_task \<Rightarrow> int \<Rightarrow> unit result" where
  "require_task_revision s expected =
     (if lt_revision (sl_record s) \<noteq> expected then Inl (ValueError ''long task revision conflicts'') else Inr ())"

definition unit_from_spec :: "string \<Rightarrow> long_task_unit_spec \<Rightarrow> string \<Rightarrow> long_task_unit_record result" where
  "unit_from_spec task_id spec ts = LongTaskUnitRecord_post_init
     \<lparr>lu_task_id = task_id, lu_id = ls_id spec, lu_position = ls_position spec, lu_status = Unit_PENDING,
      lu_semantic_key = ls_semantic_key spec, lu_dependencies = ls_dependencies spec,
      lu_parent_unit_id = ls_parent_unit_id spec, lu_required = ls_required spec, lu_attempt = 0,
      lu_max_attempts = ls_max_attempts spec, lu_worker_id = None, lu_lease_epoch = 0,
      lu_lease_expires_at_ms = None, lu_settled_by_worker_id = None, lu_run_id = None,
      lu_input_ref = ls_input_ref spec, lu_output_ref = None, lu_artifact_digest = None,
      lu_validation_receipt = [], lu_failure = [], lu_disposition = None, lu_error_code = None,
      lu_metadata = ls_metadata spec, lu_create_time = Some ts, lu_update_time = Some ts\<rparr>"

definition unit_graph :: "(string, long_task_unit_record) dict \<Rightarrow> dependency_graph" where
  "unit_graph units = map (\<lambda>u. (lu_id u, lu_dependencies u)) (dict_values units)"

definition require_acyclic :: "(string, long_task_unit_record) dict \<Rightarrow> unit result" where
  "require_acyclic units =
     (if orderable (unit_graph units) then Inr () else Inl (ValueError ''long task dependencies contain a cycle''))"

section \<open>Scheduling\<close>

definition expired_exhausted :: "int \<Rightarrow> long_task_unit_record \<Rightarrow> bool" where
  "expired_exhausted now u \<longleftrightarrow> unit_active u \<and> lease_at u \<le> now \<and> lu_attempt u \<ge> lu_max_attempts u"

definition fail_expired :: "int \<Rightarrow> stored_long_task \<Rightarrow> stored_long_task" where
  "fail_expired now = map_units (\<lambda>k u. if expired_exhausted now u
     then u\<lparr>lu_status := Unit_FAILED, lu_worker_id := None, lu_lease_expires_at_ms := None,
       lu_error_code := Some ''lease_expired_attempts_exhausted''\<rparr> else u)"

definition active_units :: "stored_long_task \<Rightarrow> int \<Rightarrow> long_task_unit_record list" where
  "active_units s now = filter (\<lambda>u. unit_active u \<and> lease_at u > now) (dict_values (sl_units s))"

definition claimable :: "stored_long_task \<Rightarrow> int \<Rightarrow> long_task_unit_record \<Rightarrow> bool" where
  "claimable s now u \<longleftrightarrow>
     (lu_status u \<in> {Unit_PENDING, Unit_WAITING_RETRY} \<or> unit_active u \<and> lease_at u \<le> now)
     \<and> lu_attempt u < lu_max_attempts u \<and> set (lu_dependencies u) \<subseteq> completed_ids s"

definition claim_next ::
    "stored_long_task \<Rightarrow> string option \<Rightarrow> string \<Rightarrow> int \<Rightarrow> int \<Rightarrow> string \<Rightarrow> long_task_unit_record option task_op" where
  "claim_next s unit_id worker duration now ts =
     (if int (length (active_units s now)) \<ge> lt_max_parallelism (sl_record s) then (Inr None, s)
      else case find (\<lambda>u. (unit_id = None \<or> unit_id = Some (lu_id u)) \<and> claimable s now u)
             (sort_key lu_position (dict_values (sl_units s))) of
          None \<Rightarrow> (Inr None, s)
        | Some u \<Rightarrow>
            let claimed = u\<lparr>lu_status := Unit_CLAIMED, lu_attempt := lu_attempt u + 1, lu_worker_id := Some worker,
                  lu_lease_epoch := lu_lease_epoch u + 1, lu_lease_expires_at_ms := Some (now + duration),
                  lu_settled_by_worker_id := None, lu_run_id := None\<rparr>
            in (Inr (Some claimed), touch (put_unit claimed s) ts))"

definition claim_stored ::
    "string option \<Rightarrow> string \<Rightarrow> int \<Rightarrow> int \<Rightarrow> string \<Rightarrow> stored_long_task \<Rightarrow> long_task_unit_record option task_op" where
  "claim_stored unit_id worker duration now ts s =
     (if deadline_elapsed s now then bind_op (expire_units s ts) (\<lambda>_ s. (Inr None, s))
      else case task_budget_exhaustion s False of
        Some budget_kind \<Rightarrow> bind_op (fail_budget s budget_kind ts) (\<lambda>_ s. (Inr None, s))
      | None \<Rightarrow>
          if lt_status (sl_record s) \<noteq> Task_RUNNING \<or> lt_cancellation_requested_at_ms (sl_record s) \<noteq> None then
            (Inr None, s)
          else
            let expired = filter (\<lambda>(k, u). expired_exhausted now u) (sl_units s) in
            case find (\<lambda>(k, u). lu_required u) expired of
              Some (failed_required_unit_id, _) \<Rightarrow>
                bind_op (fail_task (fail_expired now s) failed_required_unit_id ts) (\<lambda>_ s. (Inr None, s))
            | None \<Rightarrow>
                claim_next (if expired = [] then s else touch (fail_expired now s) ts) unit_id worker duration now ts)"

text \<open>\<open>list(metadata.get("runHistory") or ())\<close>.\<close>

fun json_truthy :: "json \<Rightarrow> bool" where
  "json_truthy JNull = False"
| "json_truthy (JBool b) = b"
| "json_truthy (JInt i) = (i \<noteq> 0)"
| "json_truthy (JFloat m e) = (m \<noteq> 0)"
| "json_truthy (JStr s) = (s \<noteq> [])"
| "json_truthy (JList xs) = (xs \<noteq> [])"
| "json_truthy (JObj kvs) = (kvs \<noteq> [])"

fun json_items :: "json \<Rightarrow> json list result" where
  "json_items (JStr s) = Inr (map (\<lambda>c. JStr [c]) s)"
| "json_items (JList xs) = Inr xs"
| "json_items (JObj kvs) = Inr (map (\<lambda>(k, v). JStr k) kvs)"
| "json_items v = Inl (TypeError ''object is not iterable'')"

definition run_history :: "json_mapping \<Rightarrow> json list result" where
  "run_history metadata = (case map_of metadata ''runHistory'' of
     None \<Rightarrow> Inr [] | Some v \<Rightarrow> if json_truthy v then json_items v else Inr [])"

fun history_names_run :: "string \<Rightarrow> json \<Rightarrow> bool result" where
  "history_names_run run (JObj kvs) = Inr (map_of kvs ''runId'' = Some (JStr run))"
| "history_names_run run v = Inl (AttributeError ''get'')"

definition other_has_run :: "stored_long_task \<Rightarrow> string \<Rightarrow> string \<Rightarrow> bool" where
  "other_has_run s unit_id run \<longleftrightarrow>
     list_ex (\<lambda>other. lu_id other \<noteq> unit_id \<and> lu_run_id other = Some run) (dict_values (sl_units s))"

definition bind_unit_run_stored ::
    "string \<Rightarrow> string \<Rightarrow> int \<Rightarrow> string \<Rightarrow> int \<Rightarrow> string \<Rightarrow> stored_long_task \<Rightarrow> long_task_unit_record task_op" where
  "bind_unit_run_stored unit_id worker_id epoch run_id now ts s =
     read_op (require_unit s unit_id) s (\<lambda>u.
     bind_op (require_unit_claim s u worker_id epoch now ts) (\<lambda>_ s.
     read_op (required_text run_id ''long task unit Run id'') s (\<lambda>run.
     if lu_run_id u \<noteq> None then
       if lu_run_id u \<noteq> Some run then
         (Inl (ContractViolation ''long_task_unit_run_conflict'' ''A Unit attempt cannot change its Run''), s)
       else (Inr u, s)
     else if other_has_run s (lu_id u) run then
       (Inl (ContractViolation ''long_task_unit_run_conflict'' ''A Run cannot belong to two task Units''), s)
     else
     read_op (run_history (lu_metadata u)) s (\<lambda>history.
     read_op (any_result (history_names_run run) history) s (\<lambda>known.
     let history' = (if known then history
           else history @ [JObj [(''attempt'', JInt (lu_attempt u)), (''runId'', JStr run)]]);
         bound = u\<lparr>lu_status := Unit_RUNNING, lu_run_id := Some run,
           lu_metadata := AList.update ''runHistory'' (JList (drop (length history' - 8) history')) (lu_metadata u)\<rparr>
     in (Inr bound, touch (put_unit bound s) ts))))))"

definition renew_unit_lease_stored ::
    "string \<Rightarrow> string \<Rightarrow> int \<Rightarrow> int \<Rightarrow> int \<Rightarrow> string \<Rightarrow> stored_long_task \<Rightarrow> long_task_unit_record task_op" where
  "renew_unit_lease_stored unit_id worker_id epoch duration now ts s =
     read_op (require_unit s unit_id) s (\<lambda>u.
     bind_op (require_unit_claim s u worker_id epoch now ts) (\<lambda>_ s.
     let renewed = u\<lparr>lu_lease_expires_at_ms := Some (now + duration)\<rparr>
     in (Inr renewed, touch (put_unit renewed s) ts)))"

section \<open>Settlement\<close>

definition update_unit_progress_stored ::
    "string \<Rightarrow> string \<Rightarrow> int \<Rightarrow> json_mapping \<Rightarrow> int \<Rightarrow> string \<Rightarrow> stored_long_task \<Rightarrow> long_task_unit_record task_op" where
  "update_unit_progress_stored unit_id worker_id epoch metadata now ts s =
     read_op (require_unit s unit_id) s (\<lambda>u.
     bind_op (require_unit_claim s u worker_id epoch now ts) (\<lambda>_ s.
     let updated = u\<lparr>lu_metadata := dict_merge (lu_metadata u) metadata\<rparr>
     in (Inr updated, touch (put_unit updated s) ts)))"

definition matches_result :: "long_task_unit_record \<Rightarrow> long_task_unit_result \<Rightarrow> bool" where
  "matches_result u r \<longleftrightarrow> lu_output_ref u = Some (lr_output_ref r)
     \<and> (lr_run_id r = None \<or> lu_run_id u = lr_run_id r)
     \<and> lu_artifact_digest u = lr_artifact_digest r
     \<and> json_mapping_eq (lu_validation_receipt u) (lr_validation_receipt r)"

definition completed_unit ::
    "string \<Rightarrow> string option \<Rightarrow> long_task_unit_result \<Rightarrow> long_task_unit_record \<Rightarrow> long_task_unit_record" where
  "completed_unit worker selected_run result u = u\<lparr>lu_status := Unit_COMPLETED, lu_worker_id := None,
       lu_lease_expires_at_ms := None, lu_settled_by_worker_id := Some worker, lu_run_id := selected_run,
       lu_output_ref := Some (lr_output_ref result), lu_artifact_digest := lr_artifact_digest result,
       lu_validation_receipt := lr_validation_receipt result, lu_failure := [], lu_disposition := None,
       lu_error_code := None, lu_metadata := dict_merge (lu_metadata u) (lr_metadata result)\<rparr>"

definition complete_unit_stored ::
    "string \<Rightarrow> string \<Rightarrow> int \<Rightarrow> long_task_unit_result \<Rightarrow> int \<Rightarrow> string \<Rightarrow> stored_long_task \<Rightarrow> long_task_record task_op" where
  "complete_unit_stored unit_id worker_id epoch result now ts s =
     read_op (require_unit s unit_id) s (\<lambda>u.
     if lu_status u = Unit_COMPLETED then
       if lu_lease_epoch u \<noteq> epoch then (Inl lease_lost, s)
       else read_op (required_text worker_id ''long task worker id'') s (\<lambda>worker.
         if lu_settled_by_worker_id u = Some worker \<and> matches_result u result then (Inr (sl_record s), s)
         else (Inl lease_lost, s))
     else
     bind_op (require_unit_claim s u worker_id epoch now ts) (\<lambda>_ s.
     if lu_run_id u \<noteq> None \<and> lr_run_id result \<noteq> None \<and> lr_run_id result \<noteq> lu_run_id u then
       (Inl (ContractViolation ''long_task_unit_run_conflict'' ''Unit result belongs to a different Run''), s)
     else
     let selected_run = (if lr_run_id result \<noteq> None then lr_run_id result else lu_run_id u) in
     if (case selected_run of None \<Rightarrow> False | Some run \<Rightarrow> other_has_run s (lu_id u) run) then
       (Inl (ContractViolation ''long_task_unit_run_conflict'' ''A Run cannot belong to two task Units''), s)
     else
     read_op (required_text worker_id ''long task worker id'') s (\<lambda>worker.
     bind_op (refresh_totals (put_unit (completed_unit worker selected_run result u) s) ts) (\<lambda>_ s.
     (Inr (sl_record s), s)))))"

fun FailureCategory_value :: "failure_category \<Rightarrow> string" where
  "FailureCategory_value Failure_CANCELED = ''canceled''"
| "FailureCategory_value Failure_TRANSIENT_PROVIDER = ''transient_provider''"
| "FailureCategory_value Failure_PERMANENT_EXTERNAL = ''permanent_external''"
| "FailureCategory_value Failure_PROTOCOL_INCOMPATIBLE = ''protocol_incompatible''"
| "FailureCategory_value Failure_MODEL_OUTPUT_INVALID = ''model_output_invalid''"
| "FailureCategory_value Failure_TOOL_INPUT_INVALID = ''tool_input_invalid''"
| "FailureCategory_value Failure_TOOL_EXECUTION = ''tool_execution''"
| "FailureCategory_value Failure_BUSINESS_INVARIANT = ''business_invariant''"

fun FailureDisposition_value :: "failure_disposition \<Rightarrow> string" where
  "FailureDisposition_value Disp_RETRY_ATTEMPT = ''retry_attempt''"
| "FailureDisposition_value Disp_RESUME_CHECKPOINT = ''resume_checkpoint''"
| "FailureDisposition_value Disp_PAUSE_RECOVERABLE = ''pause_recoverable''"
| "FailureDisposition_value Disp_SPLIT_PART = ''split_part''"
| "FailureDisposition_value Disp_FAIL_PERMANENT = ''fail_permanent''"
| "FailureDisposition_value Disp_CANCEL = ''cancel''"

fun FailureScope_value :: "failure_scope \<Rightarrow> string" where
  "FailureScope_value Scope_LOCAL = ''local''"
| "FailureScope_value Scope_SYSTEMIC = ''systemic''"

definition failure_payload :: "failure_decision \<Rightarrow> json_mapping" where
  "failure_payload d =
     [(''category'', JStr (FailureCategory_value (fd_category d))),
      (''code'', JStr (fd_code d)),
      (''disposition'', JStr (FailureDisposition_value (fd_disposition d))),
      (''effectState'', JStr (RecoveryEffectState_value (fd_effect_state d))),
      (''scope'', JStr (FailureScope_value (fd_scope d)))]"

fun failure_target :: "failure_disposition \<Rightarrow> long_task_unit_status" where
  "failure_target Disp_RETRY_ATTEMPT = Unit_WAITING_RETRY"
| "failure_target Disp_RESUME_CHECKPOINT = Unit_WAITING_RETRY"
| "failure_target Disp_PAUSE_RECOVERABLE = Unit_BLOCKED"
| "failure_target Disp_SPLIT_PART = Unit_NEEDS_SPLIT"
| "failure_target Disp_CANCEL = Unit_CANCELED"
| "failure_target Disp_FAIL_PERMANENT = Unit_FAILED"

definition failed_unit :: "failure_decision \<Rightarrow> long_task_unit_record \<Rightarrow> long_task_unit_record" where
  "failed_unit d u = u\<lparr>lu_status := failure_target (fd_disposition d), lu_worker_id := None,
     lu_lease_expires_at_ms := None, lu_error_code := Some (fd_code d), lu_disposition := Some (fd_disposition d),
     lu_failure := failure_payload d,
     lu_max_attempts := (if fd_disposition d = Disp_RESUME_CHECKPOINT \<and> lu_attempt u \<ge> lu_max_attempts u
       then lu_max_attempts u + 1 else lu_max_attempts u)\<rparr>"

definition settle_unit_failure_stored ::
    "string \<Rightarrow> string \<Rightarrow> int \<Rightarrow> failure_decision \<Rightarrow> int \<Rightarrow> string \<Rightarrow> stored_long_task \<Rightarrow> long_task_record task_op" where
  "settle_unit_failure_stored unit_id worker_id epoch d now ts s =
     read_op (require_unit s unit_id) s (\<lambda>u.
     bind_op (require_unit_claim s u worker_id epoch now ts) (\<lambda>_ s.
     let target = failure_target (fd_disposition d); s = put_unit (failed_unit d u) s in
     bind_op
       (if target = Unit_CANCELED then (Inr (), cancel_units s ts)
        else if target = Unit_FAILED then fail_task s (lu_id u) ts
        else if target = Unit_BLOCKED \<and> (fd_scope d = Scope_SYSTEMIC \<or> \<not> has_runnable_work s now) then
          (Inr (), set_status (release_active_units s (fd_code d)) Task_PAUSED ts)
        else (Inr (), touch s ts)) (\<lambda>_ s.
     (Inr (sl_record s), s))))"

definition split_child ::
    "string \<Rightarrow> long_task_unit_record \<Rightarrow> string \<Rightarrow> long_task_unit_spec \<Rightarrow> (string \<times> long_task_unit_record) result" where
  "split_child task_id parent ts child =
     (let dependencies = dict_fromkeys (lu_dependencies parent @ ls_dependencies child) in
      if lu_id parent \<in> set dependencies then Inl (ValueError ''split child cannot depend on parent'')
      else
      bind_result (LongTaskUnitSpec_post_init (child\<lparr>ls_dependencies := dependencies,
        ls_parent_unit_id := Some (text_or (ls_parent_unit_id child) (lu_id parent))\<rparr>)) (\<lambda>spec.
      bind_result (unit_from_spec task_id spec ts) (\<lambda>u. Inr (ls_id child, u))))"

definition redirect_unit ::
    "string \<Rightarrow> string list \<Rightarrow> string \<times> long_task_unit_record \<Rightarrow> (string \<times> long_task_unit_record) result" where
  "redirect_unit parent_id replacement = (\<lambda>(k, u).
     if k = parent_id \<or> parent_id \<notin> set (lu_dependencies u) then Inr (k, u)
     else if replacement = [] then Inl (ValueError ''split must replace downstream dependencies'')
     else Inr (k, u\<lparr>lu_dependencies := dict_fromkeys (concat (map (\<lambda>d.
       if d = parent_id then replacement else [d]) (lu_dependencies u)))\<rparr>))"

definition prospective_units ::
    "stored_long_task \<Rightarrow> long_task_unit_record \<Rightarrow> long_task_split_result \<Rightarrow> string
     \<Rightarrow> (string, long_task_unit_record) dict result" where
  "prospective_units s parent split ts =
     (let units = dict_values (sl_units s); children = lp_children split in
      if set (map fst (sl_units s)) \<inter> set (map ls_id children) \<noteq> {} then Inl (ValueError ''split child id conflicts'')
      else if set (map lu_semantic_key units) \<inter> set (map ls_semantic_key children) \<noteq> {} then
        Inl (ValueError ''split child semantic key conflicts'')
      else if set (map lu_position units) \<inter> set (map ls_position children) \<noteq> {} then
        Inl (ValueError ''split child position conflicts'')
      else
      bind_result (map_result (split_child (lt_id (sl_record s)) parent ts) children) (\<lambda>added.
      bind_result (map_result (redirect_unit (lu_id parent) (lp_replacement_dependency_ids split))
        (dict_merge (sl_units s) added)) (\<lambda>prospective.
      bind_result (require_acyclic prospective) (\<lambda>_. Inr prospective))))"

definition expanded_unit :: "string \<Rightarrow> failure_decision \<Rightarrow> long_task_unit_record \<Rightarrow> long_task_unit_record" where
  "expanded_unit worker d parent = parent\<lparr>lu_status := Unit_EXPANDED, lu_required := False,
       lu_worker_id := None, lu_lease_expires_at_ms := None, lu_settled_by_worker_id := Some worker,
       lu_error_code := Some (fd_code d), lu_disposition := Some (fd_disposition d),
       lu_failure := failure_payload d\<rparr>"

definition expand_unit_stored ::
    "string \<Rightarrow> string \<Rightarrow> int \<Rightarrow> long_task_split_result \<Rightarrow> failure_decision \<Rightarrow> int \<Rightarrow> string \<Rightarrow> stored_long_task
     \<Rightarrow> long_task_record task_op" where
  "expand_unit_stored unit_id worker_id epoch split d now ts s =
     read_op (require_unit s unit_id) s (\<lambda>parent.
     if lu_status parent = Unit_EXPANDED then
       if lu_lease_epoch parent \<noteq> epoch then (Inl lease_lost, s)
       else read_op (required_text worker_id ''long task worker id'') s (\<lambda>worker.
         if lu_settled_by_worker_id parent = Some worker then (Inr (sl_record s), s) else (Inl lease_lost, s))
     else
     bind_op (require_unit_claim s parent worker_id epoch now ts) (\<lambda>_ s.
     read_op (prospective_units s parent split ts) s (\<lambda>prospective.
     read_op (required_text worker_id ''long task worker id'') s (\<lambda>worker.
     bind_op (refresh_totals (put_unit (expanded_unit worker d parent) (s\<lparr>sl_units := prospective\<rparr>)) ts) (\<lambda>_ s.
     (Inr (sl_record s), s))))))"

definition interrupt_unit_stored ::
    "string \<Rightarrow> string \<Rightarrow> int \<Rightarrow> string \<Rightarrow> int \<Rightarrow> string \<Rightarrow> stored_long_task \<Rightarrow> long_task_record task_op" where
  "interrupt_unit_stored unit_id worker_id epoch reason_code now ts s =
     read_op (require_unit s unit_id) s (\<lambda>u.
     bind_op (require_unit_claim s u worker_id epoch now ts) (\<lambda>_ s.
     read_op (required_text reason_code ''interruption reason'') s (\<lambda>reason.
     let s = set_status (put_unit (u\<lparr>lu_status := Unit_PENDING, lu_max_attempts := lu_max_attempts u + 1,
           lu_worker_id := None, lu_lease_expires_at_ms := None, lu_error_code := Some reason\<rparr>) s) Task_PAUSED ts
     in (Inr (sl_record s), s))))"

section \<open>The lifecycle of a task\<close>

definition aggregate_usage :: "long_task_usage list \<Rightarrow> long_task_usage" where
  "aggregate_usage us = \<lparr>lg_invocation_count = sum_list (map lg_invocation_count us),
     lg_unreported_usage_attempts = sum_list (map lg_unreported_usage_attempts us),
     lg_input_tokens = sum_list (map lg_input_tokens us),
     lg_generation_tokens = sum_list (map lg_generation_tokens us),
     lg_reasoning_tokens = (if list_ex (\<lambda>u. lg_reasoning_tokens u = None) us then None
       else Some (sum_list (map (\<lambda>u. case lg_reasoning_tokens u of None \<Rightarrow> 0 | Some n \<Rightarrow> n) us)))\<rparr>"

definition bind_run_stored ::
    "string \<Rightarrow> long_task_run_relation \<Rightarrow> stored_long_task \<Rightarrow> long_task_run_binding task_op" where
  "bind_run_stored run relation s =
     (case map_of (sl_bindings s) run of
        Some existing \<Rightarrow>
          if lb_relation existing = relation then (Inr existing, s)
          else (Inl (ValueError ''long task Run binding conflicts''), s)
      | None \<Rightarrow>
          read_op (LongTaskRunBinding_post_init
            \<lparr>lb_task_id = lt_id (sl_record s), lb_run_id = run, lb_relation = relation\<rparr>) s (\<lambda>b.
          (Inr b, s\<lparr>sl_bindings := AList.update run b (sl_bindings s)\<rparr>)))"

definition record_usage_stored ::
    "string \<Rightarrow> long_task_usage \<Rightarrow> int \<Rightarrow> string \<Rightarrow> stored_long_task \<Rightarrow> long_task_record task_op" where
  "record_usage_stored run usage expected_revision ts s =
     (case map_of (sl_usage_by_run s) run of
        Some existing \<Rightarrow>
          if existing = usage then (Inr (sl_record s), s)
          else (Inl (ValueError ''long task Run usage conflicts''), s)
      | None \<Rightarrow>
          read_op (require_task_revision s expected_revision) s (\<lambda>_.
          let usages = AList.update run usage (sl_usage_by_run s);
              s = s\<lparr>sl_usage_by_run := usages,
                    sl_record := (sl_record s)\<lparr>lt_usage := aggregate_usage (dict_values usages)\<rparr>\<rparr> in
          bind_op (case task_budget_exhaustion s True of
              Some budget_kind \<Rightarrow> fail_budget s budget_kind ts
            | None \<Rightarrow> (Inr (), touch s ts)) (\<lambda>_ s.
          (Inr (sl_record s), s))))"

definition start_stored :: "int \<Rightarrow> int \<Rightarrow> string \<Rightarrow> stored_long_task \<Rightarrow> long_task_record task_op" where
  "start_stored expected_revision now ts s =
     bind_op
       (if deadline_elapsed s now then expire_units s ts
        else if lt_cancellation_requested_at_ms (sl_record s) \<noteq> None then (Inr (), cancel_units s ts)
        else if lt_status (sl_record s) = Task_RUNNING then (Inr (), s)
        else if lt_status (sl_record s) \<noteq> Task_PENDING then (Inl (ValueError ''only a pending long task can start''), s)
        else read_op (require_task_revision s expected_revision) s (\<lambda>_. (Inr (), set_status s Task_RUNNING ts)))
     (\<lambda>_ s. (Inr (sl_record s), s))"

definition expire_deadline_stored :: "int \<Rightarrow> string \<Rightarrow> stored_long_task \<Rightarrow> long_task_record task_op" where
  "expire_deadline_stored now ts s =
     (if task_terminal (lt_status (sl_record s)) then (Inr (sl_record s), s)
      else if \<not> deadline_elapsed s now then
        (Inl (ContractViolation ''long_task_deadline_not_elapsed'' ''long task deadline has not elapsed''), s)
      else bind_op (expire_units s ts) (\<lambda>_ s. (Inr (sl_record s), s)))"

definition pause_stored :: "int option \<Rightarrow> string option \<Rightarrow> string \<Rightarrow> stored_long_task \<Rightarrow> long_task_record task_op" where
  "pause_stored expected_revision reason_code ts s =
     (if (case expected_revision of None \<Rightarrow> False | Some n \<Rightarrow> lt_revision (sl_record s) \<noteq> n) then
        (Inl (ValueError ''long task revision conflict''), s)
      else if lt_status (sl_record s) = Task_PAUSED then (Inr (sl_record s), s)
      else if lt_status (sl_record s) \<notin> {Task_PENDING, Task_RUNNING} then
        (Inl (ValueError ''long task cannot pause''), s)
      else
        let s = set_status (release_active_units s (text_or (Some (strip (str_or_empty reason_code))) ''execution_paused''))
              Task_PAUSED ts
        in (Inr (sl_record s), s))"

definition recoverable :: "long_task_unit_record \<Rightarrow> bool" where
  "recoverable u \<longleftrightarrow> lu_status u \<in> {Unit_BLOCKED, Unit_FAILED, Unit_CANCELED}"

definition resume_stored :: "int \<Rightarrow> string \<Rightarrow> stored_long_task \<Rightarrow> long_task_record task_op" where
  "resume_stored additional ts s =
     (if lt_status (sl_record s) = Task_RUNNING then (Inr (sl_record s), s)
      else if lt_status (sl_record s) \<notin> {Task_PAUSED, Task_FAILED} then (Inl (ValueError ''long task cannot resume''), s)
      else
        let targets = filter recoverable (dict_values (sl_units s));
            blocked = filter (\<lambda>u. lu_status u = Unit_BLOCKED) targets;
            extra = (if blocked \<noteq> [] \<and> length blocked = length targets \<and> additional \<le> 0 then 1 else additional)
        in if targets \<noteq> [] \<and> extra \<le> 0 then (Inl (ValueError ''durable retry requires additional attempts''), s)
           else if targets = [] \<and> extra \<noteq> 0 then (Inl (ValueError ''long task has no unit requiring attempts''), s)
           else
             let s = map_units (\<lambda>k u. if recoverable u
                   then u\<lparr>lu_status := Unit_PENDING, lu_max_attempts := lu_max_attempts u + extra,
                     lu_worker_id := None, lu_lease_expires_at_ms := None\<rparr> else u) s;
                 s = set_status (s\<lparr>sl_record := (sl_record s)\<lparr>lt_failed_units := 0\<rparr>\<rparr>) Task_RUNNING ts
             in (Inr (sl_record s), s))"

definition cancel_stored :: "string \<Rightarrow> stored_long_task \<Rightarrow> long_task_record task_op" where
  "cancel_stored ts s =
     (if lt_status (sl_record s) = Task_CANCELED then (Inr (sl_record s), s)
      else if task_terminal (lt_status (sl_record s)) then
        (Inl (ValueError ''terminal long task cannot be canceled''), s)
      else let s = cancel_units s ts in (Inr (sl_record s), s))"

definition request_cancel_stored :: "int option \<Rightarrow> int \<Rightarrow> string \<Rightarrow> stored_long_task \<Rightarrow> long_task_record task_op" where
  "request_cancel_stored requested_at now ts s =
     (if task_terminal (lt_status (sl_record s)) \<or> lt_cancellation_requested_at_ms (sl_record s) \<noteq> None then
        (Inr (sl_record s), s)
      else
        read_op (LongTaskRecord_post_init ((sl_record s)
          \<lparr>lt_cancellation_requested_at_ms := Some (case requested_at of None \<Rightarrow> now | Some n \<Rightarrow> n)\<rparr>)) s (\<lambda>r.
        let s = touch (s\<lparr>sl_record := r\<rparr>) ts in (Inr (sl_record s), s)))"

definition finalize_stored :: "int \<Rightarrow> string \<Rightarrow> stored_long_task \<Rightarrow> long_task_record task_op" where
  "finalize_stored now ts s =
     bind_op
       (let required = required_units s in
        if deadline_elapsed s now then expire_units s ts
        else if lt_cancellation_requested_at_ms (sl_record s) \<noteq> None then (Inr (), cancel_units s ts)
        else if lt_status (sl_record s) \<noteq> Task_RUNNING then (Inr (), s)
        else if list_ex (\<lambda>u. lu_status u = Unit_FAILED) required then (Inr (), set_status s Task_FAILED ts)
        else if list_all (\<lambda>u. lu_status u = Unit_COMPLETED) required then (Inr (), set_status s Task_COMPLETED ts)
        else if list_ex (\<lambda>u. lu_status u = Unit_BLOCKED) required \<and> \<not> has_runnable_work s now then
          (Inr (), set_status s Task_PAUSED ts)
        else if \<not> has_runnable_work s now then
          (case find (\<lambda>u. lu_status u \<noteq> Unit_COMPLETED) required of
             None \<Rightarrow> (Inr (), s)
           | Some stranded \<Rightarrow>
               fail_task (put_unit (stranded\<lparr>lu_status := Unit_FAILED, lu_worker_id := None,
                 lu_lease_expires_at_ms := None,
                 lu_error_code := Some (text_or (lu_error_code stranded) ''long_task_no_runnable_work'')\<rparr>) s)
                 (lu_id stranded) ts)
        else (Inr (), s))
     (\<lambda>_ s. (Inr (sl_record s), s))"

text \<open>One round of the loop of \<open>recover_after_restart\<close>; \<open>wall\<close> is \<open>time.time()\<close> in milliseconds.\<close>

definition recover_stored :: "string \<Rightarrow> int \<Rightarrow> string \<Rightarrow> stored_long_task \<Rightarrow> string option \<times> stored_long_task" where
  "recover_stored reason wall ts s =
     (if lt_status (sl_record s) \<noteq> Task_RUNNING then (None, s)
      else if list_ex (\<lambda>u. unit_active u \<and> (case lu_lease_expires_at_ms u of None \<Rightarrow> False | Some n \<Rightarrow> n > wall))
          (dict_values (sl_units s)) then (None, s)
      else (Some (lt_id (sl_record s)),
        if lt_cancellation_requested_at_ms (sl_record s) \<noteq> None then cancel_units s ts
        else set_status (release_active_units s reason) Task_PAUSED ts))"

section \<open>The repository\<close>

definition require_state :: "long_task_state \<Rightarrow> string \<Rightarrow> (string \<times> stored_long_task) result" where
  "require_state tasks task_id = bind_result (required_text task_id ''long task id'') (\<lambda>i.
     case map_of tasks i of None \<Rightarrow> Inl (LookupError ''long task does not exist'') | Some s \<Rightarrow> Inr (i, s))"

text \<open>An operation on one stored task; the object found under the key is changed in place.\<close>

definition on_task :: "long_task_state \<Rightarrow> string \<Rightarrow> (stored_long_task \<Rightarrow> 'a task_op) \<Rightarrow> 'a result \<times> long_task_state" where
  "on_task tasks task_id f = read_op (require_state tasks task_id) tasks (\<lambda>(i, s).
     case f s of (r, s') \<Rightarrow> (r, AList.update i s' tasks))"

text \<open>
  \<open>str(value or "")\<close> for the \<open>sessionId\<close> of some metadata; \<open>S\<close> is \<open>str\<close> of a JSON value that is
  not a text.
\<close>

definition session_text :: "(json \<Rightarrow> string) \<Rightarrow> json \<Rightarrow> string" where
  "session_text S v = (case v of JStr s \<Rightarrow> s | _ \<Rightarrow> S v)"

definition stored_session :: "(json \<Rightarrow> string) \<Rightarrow> json_mapping \<Rightarrow> string" where
  "stored_session S metadata = (case map_of metadata ''sessionId'' of None \<Rightarrow> ''''
     | Some v \<Rightarrow> if json_truthy v then session_text S v else '''')"

definition expected_session :: "(json \<Rightarrow> string) \<Rightarrow> json option \<Rightarrow> string" where
  "expected_session S v = (case v of None \<Rightarrow> '''' | Some JNull \<Rightarrow> '''' | Some w \<Rightarrow> session_text S w)"

definition find_active_state ::
    "(json \<Rightarrow> string) \<Rightarrow> long_task_state \<Rightarrow> string \<Rightarrow> string \<Rightarrow> string \<Rightarrow> json option \<Rightarrow> bool \<Rightarrow> stored_long_task option" where
  "find_active_state S tasks namespace owner_id kind session_id match_session =
     find (\<lambda>s. let r = sl_record s in lt_namespace r = namespace \<and> lt_owner_id r = owner_id \<and> lt_kind r = kind
       \<and> lt_status r \<in> {Task_PENDING, Task_RUNNING, Task_PAUSED}
       \<and> (\<not> match_session \<or> stored_session S (lt_metadata r) = expected_session S session_id))
     (rev (dict_values tasks))"

definition unit_matches_spec :: "long_task_unit_record \<Rightarrow> long_task_unit_spec \<Rightarrow> bool" where
  "unit_matches_spec u spec \<longleftrightarrow> lu_id u = ls_id spec \<and> lu_position u = ls_position spec
     \<and> lu_semantic_key u = ls_semantic_key spec \<and> lu_dependencies u = ls_dependencies spec
     \<and> lu_required u = ls_required spec \<and> lu_input_ref u = ls_input_ref spec
     \<and> lu_max_attempts u = ls_max_attempts spec \<and> json_mapping_eq (lu_metadata u) (ls_metadata spec)"

definition matches_create :: "stored_long_task \<Rightarrow> long_task_create_command \<Rightarrow> bool" where
  "matches_create s c \<longleftrightarrow>
     (let r = sl_record s; units = sort_key lu_position (dict_values (sl_units s));
          specs = sort_key ls_position (lc_units c) in
      lt_namespace r = lc_namespace c \<and> lt_kind r = lc_kind c \<and> lt_owner_id r = lc_owner_id c
      \<and> lt_created_by_run_id r = lc_created_by_run_id c \<and> lt_max_parallelism r = lc_max_parallelism c
      \<and> lt_deadline_at_ms r = lc_deadline_at_ms c \<and> lt_budget_limits r = lc_budget_limits c
      \<and> json_mapping_eq (lt_metadata r) (lc_metadata c)
      \<and> length units = length specs \<and> list_all (\<lambda>(u, spec). unit_matches_spec u spec) (zip units specs))"

definition new_task :: "string \<Rightarrow> long_task_create_command \<Rightarrow> string \<Rightarrow> stored_long_task result" where
  "new_task i c ts =
     bind_result (LongTaskRecord_post_init
       \<lparr>lt_id = i, lt_namespace = lc_namespace c, lt_kind = lc_kind c, lt_owner_id = lc_owner_id c,
        lt_created_by_run_id = lc_created_by_run_id c, lt_status = Task_PENDING, lt_revision = 1,
        lt_total_units = int (length (filter ls_required (lc_units c))), lt_completed_units = 0,
        lt_failed_units = 0, lt_max_parallelism = lc_max_parallelism c,
        lt_deadline_at_ms = lc_deadline_at_ms c, lt_budget_limits = lc_budget_limits c,
        lt_budget_exhaustion_disposition = lc_budget_exhaustion_disposition c,
        lt_cancellation_requested_at_ms = None, lt_usage = no_usage, lt_metadata = lc_metadata c,
        lt_create_time = Some ts, lt_update_time = Some ts\<rparr>) (\<lambda>r.
     bind_result (map_result (\<lambda>spec. bind_result (unit_from_spec (lt_id r) spec ts) (\<lambda>u. Inr (ls_id spec, u)))
       (lc_units c)) (\<lambda>units.
     bind_result (LongTaskRunBinding_post_init
       \<lparr>lb_task_id = lt_id r, lb_run_id = lc_created_by_run_id c, lb_relation = Relation_CREATED\<rparr>) (\<lambda>b.
     Inr \<lparr>sl_record = r, sl_units = dict_merge [] units, sl_bindings = [(lb_run_id b, b)], sl_usage_by_run = []\<rparr>)))"

definition create ::
    "(json \<Rightarrow> string) \<Rightarrow> long_task_state \<Rightarrow> string \<Rightarrow> long_task_create_command \<Rightarrow> string
     \<Rightarrow> long_task_record result \<times> long_task_state" where
  "create S tasks task_id c ts =
     read_op (required_text task_id ''long task id'') tasks (\<lambda>i.
     case map_of tasks i of
       Some existing \<Rightarrow>
         if matches_create existing c then (Inr (sl_record existing), tasks)
         else (Inl (ValueError ''long task id conflicts''), tasks)
     | None \<Rightarrow>
       (case find_active_state S tasks (lc_namespace c) (lc_owner_id c) (lc_kind c)
           (map_of (lc_metadata c) ''sessionId'') True of
          Some active \<Rightarrow> (Inr (sl_record active), tasks)
        | None \<Rightarrow> read_op (new_task i c ts) tasks (\<lambda>s.
            (Inr (sl_record s), AList.update (lt_id (sl_record s)) s tasks))))"

definition load :: "long_task_state \<Rightarrow> string \<Rightarrow> long_task_record option" where
  "load tasks task_id = map_option sl_record (map_of tasks (strip task_id))"

definition list_run_bindings :: "long_task_state \<Rightarrow> string \<Rightarrow> long_task_run_binding list result" where
  "list_run_bindings tasks task_id = bind_result (require_state tasks task_id) (\<lambda>(i, s). Inr (dict_values (sl_bindings s)))"

definition list_units :: "long_task_state \<Rightarrow> string \<Rightarrow> long_task_unit_record list result" where
  "list_units tasks task_id = bind_result (require_state tasks task_id) (\<lambda>(i, s).
     Inr (sort_key lu_position (dict_values (sl_units s))))"

definition list_for_owner :: "long_task_state \<Rightarrow> string \<Rightarrow> string \<Rightarrow> string option \<Rightarrow> int \<Rightarrow> long_task_record list" where
  "list_for_owner tasks namespace owner_id kind limit =
     (let normalized_kind = optional_text kind in
      take (nat (max 1 limit)) (filter (\<lambda>r. lt_namespace r = namespace \<and> lt_owner_id r = owner_id
        \<and> (normalized_kind = None \<or> normalized_kind = Some (lt_kind r))) (map sl_record (rev (dict_values tasks)))))"

definition find_by_idempotency_key :: "long_task_state \<Rightarrow> string \<Rightarrow> string \<Rightarrow> long_task_record option result" where
  "find_by_idempotency_key tasks namespace idempotency_key =
     bind_result (required_text namespace ''long task namespace'') (\<lambda>n.
     bind_result (required_text idempotency_key ''long task idempotency key'') (\<lambda>key.
     let found = filter (\<lambda>r. lt_namespace r = n \<and> map_of (lt_metadata r) ''idempotencyKey'' = Some (JStr key))
           (map sl_record (dict_values tasks)) in
     if length found > 1 then Inl (ValueError ''long task idempotency key conflicts'')
     else Inr (case found of [] \<Rightarrow> None | r # _ \<Rightarrow> Some r)))"

definition find_active ::
    "(json \<Rightarrow> string) \<Rightarrow> long_task_state \<Rightarrow> string \<Rightarrow> string \<Rightarrow> string \<Rightarrow> json option \<Rightarrow> bool \<Rightarrow> long_task_record option" where
  "find_active S tasks namespace owner_id kind session_id match_session =
     map_option sl_record (find_active_state S tasks namespace owner_id kind session_id match_session)"

definition bind_run ::
    "long_task_state \<Rightarrow> string \<Rightarrow> string \<Rightarrow> long_task_run_relation \<Rightarrow> long_task_run_binding result \<times> long_task_state" where
  "bind_run tasks task_id run_id relation =
     (if relation = Relation_CREATED then (Inl (ValueError ''creator Run binding is immutable after creation''), tasks)
      else read_op (required_text run_id ''long task Run id'') tasks (\<lambda>run.
        on_task tasks task_id (bind_run_stored run relation)))"

definition record_usage ::
    "long_task_state \<Rightarrow> string \<Rightarrow> string \<Rightarrow> long_task_usage \<Rightarrow> int \<Rightarrow> string \<Rightarrow> long_task_record result \<times> long_task_state" where
  "record_usage tasks task_id run_id usage expected_revision ts =
     read_op (required_text run_id ''long task usage Run id'') tasks (\<lambda>run.
     on_task tasks task_id (record_usage_stored run usage expected_revision ts))"

definition start :: "long_task_state \<Rightarrow> string \<Rightarrow> int \<Rightarrow> int \<Rightarrow> string \<Rightarrow> long_task_record result \<times> long_task_state" where
  "start tasks task_id expected_revision now ts = on_task tasks task_id (start_stored expected_revision now ts)"

definition expire_deadline :: "long_task_state \<Rightarrow> string \<Rightarrow> int \<Rightarrow> string \<Rightarrow> long_task_record result \<times> long_task_state" where
  "expire_deadline tasks task_id now ts = on_task tasks task_id (expire_deadline_stored now ts)"

definition pause ::
    "long_task_state \<Rightarrow> string \<Rightarrow> int option \<Rightarrow> string option \<Rightarrow> string \<Rightarrow> long_task_record result \<times> long_task_state" where
  "pause tasks task_id expected_revision reason_code ts = on_task tasks task_id (pause_stored expected_revision reason_code ts)"

definition resume :: "long_task_state \<Rightarrow> string \<Rightarrow> int \<Rightarrow> string \<Rightarrow> long_task_record result \<times> long_task_state" where
  "resume tasks task_id additional ts =
     (if additional < 0 then (Inl (ValueError ''additional attempts cannot be negative''), tasks)
      else on_task tasks task_id (resume_stored additional ts))"

definition cancel_task :: "long_task_state \<Rightarrow> string \<Rightarrow> string \<Rightarrow> long_task_record result \<times> long_task_state" where
  "cancel_task tasks task_id ts = on_task tasks task_id (cancel_stored ts)"

definition request_cancel ::
    "long_task_state \<Rightarrow> string \<Rightarrow> int option \<Rightarrow> int \<Rightarrow> string \<Rightarrow> long_task_record result \<times> long_task_state" where
  "request_cancel tasks task_id requested_at now ts = on_task tasks task_id (request_cancel_stored requested_at now ts)"

definition finalize_if_complete :: "long_task_state \<Rightarrow> string \<Rightarrow> int \<Rightarrow> string \<Rightarrow> long_task_record result \<times> long_task_state" where
  "finalize_if_complete tasks task_id now ts = on_task tasks task_id (finalize_stored now ts)"

definition recover_after_restart :: "long_task_state \<Rightarrow> string \<Rightarrow> int \<Rightarrow> string \<Rightarrow> string list result \<times> long_task_state" where
  "recover_after_restart tasks reason_code wall ts =
     read_op (required_text reason_code ''restart recovery reason'') tasks (\<lambda>reason.
     (Inr (concat (map (\<lambda>(k, s). case fst (recover_stored reason wall ts s) of None \<Rightarrow> [] | Some i \<Rightarrow> [i]) tasks)),
      map (\<lambda>(k, s). (k, snd (recover_stored reason wall ts s))) tasks))"

definition claim_with ::
    "long_task_state \<Rightarrow> string \<Rightarrow> string option \<Rightarrow> string \<Rightarrow> int \<Rightarrow> int \<Rightarrow> string
     \<Rightarrow> long_task_unit_record option result \<times> long_task_state" where
  "claim_with tasks task_id unit_id worker_id duration now ts =
     read_op (required_text worker_id ''long task worker id'') tasks (\<lambda>worker.
     if duration \<le> 0 then (Inl (ValueError ''long task lease duration must be positive''), tasks)
     else on_task tasks task_id (claim_stored unit_id worker duration now ts))"

definition claim_ready_unit ::
    "long_task_state \<Rightarrow> string \<Rightarrow> string \<Rightarrow> int \<Rightarrow> int \<Rightarrow> string \<Rightarrow> long_task_unit_record option result \<times> long_task_state" where
  "claim_ready_unit tasks task_id worker_id duration now ts = claim_with tasks task_id None worker_id duration now ts"

definition claim_unit ::
    "long_task_state \<Rightarrow> string \<Rightarrow> string \<Rightarrow> string \<Rightarrow> int \<Rightarrow> int \<Rightarrow> string
     \<Rightarrow> long_task_unit_record option result \<times> long_task_state" where
  "claim_unit tasks task_id unit_id worker_id duration now ts =
     read_op (required_text unit_id ''long task unit id'') tasks (\<lambda>i.
     claim_with tasks task_id (Some i) worker_id duration now ts)"

definition bind_unit_run ::
    "long_task_state \<Rightarrow> string \<Rightarrow> string \<Rightarrow> string \<Rightarrow> int \<Rightarrow> string \<Rightarrow> int \<Rightarrow> string
     \<Rightarrow> long_task_unit_record result \<times> long_task_state" where
  "bind_unit_run tasks task_id unit_id worker_id epoch run_id now ts =
     on_task tasks task_id (bind_unit_run_stored unit_id worker_id epoch run_id now ts)"

definition renew_unit_lease ::
    "long_task_state \<Rightarrow> string \<Rightarrow> string \<Rightarrow> string \<Rightarrow> int \<Rightarrow> int \<Rightarrow> int \<Rightarrow> string
     \<Rightarrow> long_task_unit_record result \<times> long_task_state" where
  "renew_unit_lease tasks task_id unit_id worker_id epoch duration now ts =
     (if duration \<le> 0 then (Inl (ValueError ''long task lease duration must be positive''), tasks)
      else on_task tasks task_id (renew_unit_lease_stored unit_id worker_id epoch duration now ts))"

definition update_unit_progress ::
    "long_task_state \<Rightarrow> string \<Rightarrow> string \<Rightarrow> string \<Rightarrow> int \<Rightarrow> json_mapping \<Rightarrow> int \<Rightarrow> string
     \<Rightarrow> long_task_unit_record result \<times> long_task_state" where
  "update_unit_progress tasks task_id unit_id worker_id epoch metadata now ts =
     on_task tasks task_id (update_unit_progress_stored unit_id worker_id epoch metadata now ts)"

definition complete_unit ::
    "long_task_state \<Rightarrow> string \<Rightarrow> string \<Rightarrow> string \<Rightarrow> int \<Rightarrow> long_task_unit_result \<Rightarrow> int \<Rightarrow> string
     \<Rightarrow> long_task_record result \<times> long_task_state" where
  "complete_unit tasks task_id unit_id worker_id epoch result now ts =
     on_task tasks task_id (complete_unit_stored unit_id worker_id epoch result now ts)"

definition settle_unit_failure ::
    "long_task_state \<Rightarrow> string \<Rightarrow> string \<Rightarrow> string \<Rightarrow> int \<Rightarrow> failure_decision \<Rightarrow> int \<Rightarrow> string
     \<Rightarrow> long_task_record result \<times> long_task_state" where
  "settle_unit_failure tasks task_id unit_id worker_id epoch d now ts =
     on_task tasks task_id (settle_unit_failure_stored unit_id worker_id epoch d now ts)"

definition expand_unit ::
    "long_task_state \<Rightarrow> string \<Rightarrow> string \<Rightarrow> string \<Rightarrow> int \<Rightarrow> long_task_split_result \<Rightarrow> failure_decision \<Rightarrow> int \<Rightarrow> string
     \<Rightarrow> long_task_record result \<times> long_task_state" where
  "expand_unit tasks task_id unit_id worker_id epoch split d now ts =
     (if fd_disposition d \<noteq> Disp_SPLIT_PART then (Inl (ValueError ''long task expansion requires split decision''), tasks)
      else if lp_children split = [] then (Inl (ValueError ''long task expansion requires children''), tasks)
      else on_task tasks task_id (expand_unit_stored unit_id worker_id epoch split d now ts))"

definition interrupt_unit ::
    "long_task_state \<Rightarrow> string \<Rightarrow> string \<Rightarrow> string \<Rightarrow> int \<Rightarrow> string \<Rightarrow> int \<Rightarrow> string
     \<Rightarrow> long_task_record result \<times> long_task_state" where
  "interrupt_unit tasks task_id unit_id worker_id epoch reason_code now ts =
     on_task tasks task_id (interrupt_unit_stored unit_id worker_id epoch reason_code now ts)"

end
