(* ===== verification/Recipes.thy ===== *)
theory Recipes
  imports Plans Messages Long_Task_Store
begin

text \<open>
  Durable execution of a plan: the recipe contracts of \<open>contracts/host.py\<close>, the admission contracts of
  \<open>task_admission/contracts.py\<close>, and how \<open>long_tasks/recipe_compiler.py\<close> turns a recipe into the units of a
  durable task.
\<close>

section \<open>Host contracts\<close>

record run_host_binding =
  rb_namespace :: string
  rb_aggregate_id :: string
  rb_command_id :: string
  rb_attributes :: json_mapping

definition RunBinding_post_init :: "run_host_binding \<Rightarrow> run_host_binding result" where
  "RunBinding_post_init b =
     bind_result (required_text (rb_namespace b) ''run binding namespace'') (\<lambda>n.
     bind_result (required_text (rb_aggregate_id b) ''run binding aggregate_id'') (\<lambda>a.
     bind_result (required_text (rb_command_id b) ''run binding command_id'') (\<lambda>c.
     Inr (b\<lparr>rb_namespace := n, rb_aggregate_id := a, rb_command_id := c\<rparr>))))"

record execution_recipe_step =
  er_id :: string
  er_kind :: string
  er_depends_on :: "string list"
  er_input_ref :: "string option"
  er_executor :: "string option"
  er_plan_step_id :: "string option"
  er_max_attempts :: int
  er_metadata :: json_mapping

definition ExecutionRecipeStep_post_init :: "execution_recipe_step \<Rightarrow> execution_recipe_step result" where
  "ExecutionRecipeStep_post_init s =
     bind_result (required_text (er_id s) ''execution recipe step id'') (\<lambda>i.
     bind_result (required_text (er_kind s) ''execution recipe step kind'') (\<lambda>kind.
     let deps = map strip (er_depends_on s) in
     if [] \<in> set deps then Inl (ValueError ''execution recipe dependencies must be non-empty'')
     else if \<not> distinct deps then Inl (ValueError ''execution recipe dependencies must be unique'')
     else if i \<in> set deps then Inl (ValueError ''execution recipe step cannot depend on itself'')
     else bind_result (positive_int (er_max_attempts s) ''execution recipe step max_attempts'') (\<lambda>n.
     Inr (s\<lparr>er_id := i, er_kind := kind, er_depends_on := deps, er_input_ref := optional_text (er_input_ref s),
       er_executor := optional_text (er_executor s), er_plan_step_id := optional_text (er_plan_step_id s), er_max_attempts := n\<rparr>))))"

record execution_recipe =
  ec_kind :: string
  ec_steps :: "execution_recipe_step list"
  ec_max_parallelism :: int
  ec_metadata :: json_mapping

fun check_recipe_order :: "string set \<Rightarrow> string set \<Rightarrow> execution_recipe_step list \<Rightarrow> unit result" where
  "check_recipe_order ids known [] = Inr ()"
| "check_recipe_order ids known (s # ss) =
     (let unknown = filter (\<lambda>d. d \<notin> ids) (er_depends_on s) in
      if unknown \<noteq> [] then Inl (ValueError (''execution recipe names unknown dependencies: '' @ join_sorted unknown))
      else if \<not> set (er_depends_on s) \<subseteq> known then Inl (ValueError ''execution recipe steps must be topologically ordered'')
      else check_recipe_order ids (insert (er_id s) known) ss)"

definition ExecutionRecipe_post_init :: "execution_recipe \<Rightarrow> execution_recipe result" where
  "ExecutionRecipe_post_init r =
     bind_result (required_text (ec_kind r) ''execution recipe kind'') (\<lambda>kind.
     if ec_steps r = [] then Inl (ValueError ''execution recipe requires at least one step'')
     else if \<not> distinct (map er_id (ec_steps r)) then Inl (ValueError ''execution recipe step ids must be unique'')
     else bind_result (check_recipe_order (set (map er_id (ec_steps r))) {} (ec_steps r)) (\<lambda>_.
     bind_result (positive_int (ec_max_parallelism r) ''execution recipe max_parallelism'') (\<lambda>n.
     Inr (r\<lparr>ec_kind := kind, ec_max_parallelism := n\<rparr>))))"

text \<open>\<open>{key: value} if value else {}\<close>.\<close>

definition optional_entry :: "string \<Rightarrow> string option \<Rightarrow> json_mapping" where
  "optional_entry key v = (if str_or_empty v = [] then [] else [(key, JStr (str_or_empty v))])"

definition recipe_step_metadata :: "execution_recipe_step \<Rightarrow> json_mapping" where
  "recipe_step_metadata s = dict_merge (er_metadata s)
     ([(''id'', JStr (er_id s)), (''kind'', JStr (er_kind s)), (''dependsOn'', JList (map JStr (er_depends_on s)))]
      @ optional_entry ''inputRef'' (er_input_ref s) @ optional_entry ''executor'' (er_executor s)
      @ optional_entry ''plannerStepId'' (er_plan_step_id s) @ [(''maxAttempts'', JInt (er_max_attempts s))])"

definition to_metadata :: "execution_recipe \<Rightarrow> json_mapping" where
  "to_metadata r = dict_merge (ec_metadata r)
     [(''kind'', JStr (ec_kind r)), (''maxParallelism'', JInt (ec_max_parallelism r)),
      (''steps'', JList (map (\<lambda>s. JObj (recipe_step_metadata s)) (ec_steps r)))]"

section \<open>Task admission\<close>

datatype execution_mode = Mode_INLINE | Mode_DURABLE | Mode_CLARIFY | Mode_REJECT

fun ExecutionMode_value :: "execution_mode \<Rightarrow> string" where
  "ExecutionMode_value Mode_INLINE = ''inline''"
| "ExecutionMode_value Mode_DURABLE = ''durable''"
| "ExecutionMode_value Mode_CLARIFY = ''clarify''"
| "ExecutionMode_value Mode_REJECT = ''reject''"

record task_admission_decision =
  ad_mode :: execution_mode
  ad_reason_code :: string
  ad_estimated_units :: int
  ad_estimated_model_calls :: int
  ad_requires_confirmation :: bool
  ad_message :: "string option"
  ad_covered_step_ids :: "string list"
  ad_execution_recipe :: "execution_recipe option"
  ad_metadata :: json_mapping

definition TaskAdmissionDecision_post_init :: "task_admission_decision \<Rightarrow> task_admission_decision result" where
  "TaskAdmissionDecision_post_init d =
     bind_result (required_text (ad_reason_code d) ''task admission reason_code'') (\<lambda>reason.
     bind_result (non_negative_int (ad_estimated_units d) ''task admission estimated_units'') (\<lambda>units.
     bind_result (non_negative_int (ad_estimated_model_calls d) ''task admission estimated_model_calls'') (\<lambda>calls.
     let covered = map strip (ad_covered_step_ids d) in
     if [] \<in> set covered then Inl (ValueError ''covered task admission step ids must be non-empty'')
     else if \<not> distinct covered then Inl (ValueError ''covered task admission step ids must be unique'')
     else if ad_mode d = Mode_DURABLE \<and> covered = [] then Inl (ValueError ''durable task admission requires covered step ids'')
     else if ad_mode d \<noteq> Mode_DURABLE \<and> covered \<noteq> [] then Inl (ValueError ''only durable task admission can cover planned steps'')
     else if ad_execution_recipe d \<noteq> None \<and> ad_mode d \<noteq> Mode_DURABLE then
       Inl (ValueError ''only durable task admission can carry an execution recipe'')
     else if ad_execution_recipe d = None \<and> ad_mode d = Mode_DURABLE then
       Inl (ValueError ''durable task admission requires an execution recipe'')
     else Inr (d\<lparr>ad_reason_code := reason, ad_estimated_units := units, ad_estimated_model_calls := calls,
       ad_message := optional_text (ad_message d), ad_covered_step_ids := covered\<rparr>))))"

definition to_event_payload :: "task_admission_decision \<Rightarrow> json_mapping" where
  "to_event_payload d =
     [(''mode'', JStr (ExecutionMode_value (ad_mode d))), (''reasonCode'', JStr (ad_reason_code d)),
      (''estimatedUnits'', JInt (ad_estimated_units d)), (''estimatedModelCalls'', JInt (ad_estimated_model_calls d)),
      (''requiresConfirmation'', JBool (ad_requires_confirmation d)), (''coveredStepIds'', JList (map JStr (ad_covered_step_ids d)))]
     @ optional_entry ''message'' (ad_message d)
     @ (case ad_execution_recipe d of None \<Rightarrow> [] | Some r \<Rightarrow> [(''executionRecipe'', JObj
         [(''kind'', JStr (ec_kind r)), (''stepCount'', JInt (int (length (ec_steps r)))),
          (''maxParallelism'', JInt (ec_max_parallelism r))])])"

record long_task_dispatch_receipt =
  dr_task_id :: string
  dr_message :: string
  dr_admission :: task_admission_decision
  dr_metadata :: json_mapping

definition LongTaskDispatchReceipt_post_init :: "long_task_dispatch_receipt \<Rightarrow> long_task_dispatch_receipt result" where
  "LongTaskDispatchReceipt_post_init r =
     bind_result (required_text (dr_task_id r) ''long task dispatch task_id'') (\<lambda>i.
     bind_result (required_text (dr_message r) ''long task dispatch message'') (\<lambda>msg.
     if ad_mode (dr_admission r) \<noteq> Mode_DURABLE then Inl (ValueError ''long task dispatch receipt requires durable admission'')
     else Inr (r\<lparr>dr_task_id := i, dr_message := msg\<rparr>)))"

section \<open>Units of a recipe\<close>

definition planned_step :: "execution_recipe_step \<Rightarrow> string" where
  "planned_step s = text_or (er_plan_step_id s) (er_id s)"

definition recipe_unit :: "int \<Rightarrow> execution_recipe_step \<Rightarrow> long_task_unit_spec" where
  "recipe_unit position s = \<lparr>ls_id = er_id s, ls_position = position, ls_semantic_key = None, ls_dependencies = er_depends_on s,
     ls_parent_unit_id = None, ls_required = True, ls_input_ref = er_input_ref s, ls_max_attempts = er_max_attempts s,
     ls_metadata = dict_merge (er_metadata s) [(''unitKind'', JStr (er_kind s)),
       (''executor'', JStr (text_or (er_executor s) (er_kind s))), (''plannerStepId'', JStr (planned_step s))]\<rparr>"

fun compile_units :: "string set \<Rightarrow> int \<Rightarrow> execution_recipe_step list \<Rightarrow> long_task_unit_spec list result" where
  "compile_units covered position [] = Inr []"
| "compile_units covered position (s # ss) =
     (if planned_step s \<notin> covered then
        Inl (ValueError (''execution recipe maps to an unadmitted plan step: '' @ planned_step s))
      else bind_result (LongTaskUnitSpec_post_init (recipe_unit position s)) (\<lambda>u.
      bind_result (compile_units covered (position + 1) ss) (\<lambda>us. Inr (u # us))))"

definition compile_recipe_units :: "execution_recipe \<Rightarrow> string list \<Rightarrow> long_task_unit_spec list result" where
  "compile_recipe_units r covered_step_ids =
     bind_result (compile_units (set covered_step_ids) 0 (ec_steps r)) (\<lambda>units.
     let missing = filter (\<lambda>i. i \<notin> set (map planned_step (ec_steps r))) covered_step_ids in
     if missing \<noteq> [] then
       Inl (ValueError (''execution recipe does not implement admitted plan steps: '' @ join_sorted missing))
     else Inr units)"

text \<open>\<open>task.metadata.get("recipe") or {}\<close>, thawed.\<close>

definition stored_recipe :: "long_task_record \<Rightarrow> json_mapping result" where
  "stored_recipe t = (case map_of (lt_metadata t) ''recipe'' of
     None \<Rightarrow> Inr []
   | Some v \<Rightarrow> if \<not> json_truthy v then Inr [] else (case v of JObj m \<Rightarrow> Inr m | _ \<Rightarrow> Inl (AttributeError ''items'')))"

definition require_same_recipe :: "long_task_record \<Rightarrow> execution_recipe \<Rightarrow> unit result" where
  "require_same_recipe t r = bind_result (stored_recipe t) (\<lambda>m.
     if \<not> json_mapping_eq m (to_metadata r) then Inl (RuntimeError ''durable_task_recipe_conflict'') else Inr ())"

text \<open>\<open>same_optional_text\<close> on the value of a metadata key and a text.\<close>

definition same_optional_text :: "(json \<Rightarrow> string) \<Rightarrow> json option \<Rightarrow> string option \<Rightarrow> bool" where
  "same_optional_text S left right \<longleftrightarrow>
     (case left of None \<Rightarrow> None | Some JNull \<Rightarrow> None | Some v \<Rightarrow> Some (strip (session_text S v))) = map_option strip right"

end
