(* ===== verification/Long_Task_Invariant.thy ===== *)
theory Long_Task_Invariant
  imports Long_Task_Store
begin

text \<open>
  The invariant of the durable task store: unit identities and semantic keys are
  unique, dependencies contain no cycle, a unit that was started has completed
  dependencies, exactly the active units hold a lease, no Run serves two units, and the totals
  and the usage of the task record are those of its units and Runs.
\<close>

section \<open>Topological order\<close>

definition dependency_rel :: "dependency_graph \<Rightarrow> (string \<times> string) set" where
  "dependency_rel g = {(d, i). \<exists>ds. (i, ds) \<in> set g \<and> d \<in> set ds}"

lemma finite_dependency_rel: "finite (dependency_rel g)"
proof -
  have "dependency_rel g = (\<Union>(i, ds) \<in> set g. set ds \<times> {i})" by (auto simp: dependency_rel_def)
  then show ?thesis by auto
qed

lemma in_order_round: "(i, ds) \<in> set (order_round g) \<longleftrightarrow> (i, ds) \<in> set g \<and> (\<exists>d \<in> set ds. d \<in> fst ` set g)"
  by (auto simp: order_round_def)

lemma order_round_Nil [simp]: "order_round [] = []"
  by (simp add: order_round_def)

lemma order_rounds_subset: "set ((order_round ^^ n) g) \<subseteq> set g"
  by (induction n) (auto simp: order_round_def)

definition on_cycle :: "dependency_graph \<Rightarrow> string \<times> string list \<Rightarrow> bool" where
  "on_cycle g e \<longleftrightarrow> e \<in> set g \<and> (\<exists>d \<in> set (snd e). (fst e, d) \<in> (dependency_rel g)\<^sup>*)"

lemma on_cycle_pred:
  assumes "on_cycle g (i, ds)"
  shows "\<exists>d \<in> set ds. \<exists>ds'. on_cycle g (d, ds')"
proof -
  obtain d where d: "d \<in> set ds" "(i, d) \<in> (dependency_rel g)\<^sup>*" "(i, ds) \<in> set g"
    using assms by (auto simp: on_cycle_def)
  have "(d, i) \<in> dependency_rel g" using d by (auto simp: dependency_rel_def)
  then have "(d, d) \<in> (dependency_rel g)\<^sup>+" using d(2) by (rule rtrancl_into_trancl2)
  then obtain e where e: "(d, e) \<in> (dependency_rel g)\<^sup>*" "(e, d) \<in> dependency_rel g" by (metis tranclD2)
  then have "\<exists>ds'. on_cycle g (d, ds')" by (auto simp: on_cycle_def dependency_rel_def)
  then show ?thesis using d(1) by blast
qed

lemma on_cycle_stays: "on_cycle g e \<Longrightarrow> e \<in> set ((order_round ^^ n) g)"
proof (induction n arbitrary: e)
  case 0
  then show ?case by (simp add: on_cycle_def)
next
  case (Suc n)
  obtain i ds where e: "e = (i, ds)" by (cases e)
  obtain d ds' where "d \<in> set ds" "on_cycle g (d, ds')" using on_cycle_pred Suc.prems e by blast
  then have "d \<in> set ds" "d \<in> fst ` set ((order_round ^^ n) g)" using Suc.IH by force+
  then show ?case using Suc.IH [OF Suc.prems] by (auto simp: e in_order_round)
qed

lemma order_round_shrinks:
  assumes "acyclic (dependency_rel g)" and "set h \<subseteq> set g" and "h \<noteq> []"
  shows "length (order_round h) < length h"
proof -
  have "wf (dependency_rel g)" using finite_acyclic_wf finite_dependency_rel assms(1) by blast
  moreover have "fst ` set h \<noteq> {}" using assms(3) by simp
  ultimately obtain i where i: "i \<in> fst ` set h" "\<And>d. (d, i) \<in> dependency_rel g \<Longrightarrow> d \<notin> fst ` set h"
    using wf_eq_minimal by (metis ex_in_conv)
  then obtain ds where ds: "(i, ds) \<in> set h" by auto
  have "(d, i) \<in> dependency_rel g" if "d \<in> set ds" for d
    using ds assms(2) that by (auto simp: dependency_rel_def)
  then have "\<not> (\<exists>d \<in> set ds. d \<in> fst ` set h)" using i(2) by blast
  then show ?thesis unfolding order_round_def
    by (intro length_filter_less [OF ds]) simp
qed

lemma orderable_iff_acyclic: "orderable g \<longleftrightarrow> acyclic (dependency_rel g)"
proof
  assume ord: "orderable g"
  show "acyclic (dependency_rel g)"
  proof (rule acyclicI, rule allI, rule notI)
    fix x assume "(x, x) \<in> (dependency_rel g)\<^sup>+"
    then obtain e where "(x, e) \<in> (dependency_rel g)\<^sup>*" "(e, x) \<in> dependency_rel g" by (metis tranclD2)
    then obtain ds where "on_cycle g (x, ds)" by (auto simp: on_cycle_def dependency_rel_def)
    then show False using on_cycle_stays [of g "(x, ds)" "length g"] ord by (simp add: orderable_def)
  qed
next
  assume acyc: "acyclic (dependency_rel g)"
  have "length ((order_round ^^ n) g) \<le> length g - n" for n
  proof (induction n)
    case (Suc n)
    show ?case
      using order_round_shrinks [OF acyc order_rounds_subset, of n] Suc
      by (cases "(order_round ^^ n) g = []") auto
  qed simp
  from this [of "length g"] show "orderable g" by (simp add: orderable_def)
qed

section \<open>Units\<close>

definition started :: "long_task_unit_record \<Rightarrow> bool" where
  "started u \<longleftrightarrow> lu_status u \<in> {Unit_CLAIMED, Unit_RUNNING, Unit_COMPLETED}"

definition unit_ok :: "long_task_unit_record \<Rightarrow> bool" where
  "unit_ok u \<longleftrightarrow> clean_id (lu_task_id u) \<and> clean_id (lu_id u)
     \<and> (\<exists>key. lu_semantic_key u = Some key \<and> clean_id key)
     \<and> 0 \<le> lu_position u \<and> 0 \<le> lu_attempt u \<and> lu_attempt u \<le> lu_max_attempts u \<and> 0 < lu_max_attempts u
     \<and> 0 \<le> lu_lease_epoch u
     \<and> clean_opt (lu_parent_unit_id u) \<and> clean_opt (lu_worker_id u) \<and> clean_opt (lu_settled_by_worker_id u)
     \<and> clean_opt (lu_run_id u) \<and> clean_opt (lu_input_ref u) \<and> clean_opt (lu_output_ref u)
     \<and> clean_opt (lu_artifact_digest u) \<and> clean_opt (lu_error_code u)
     \<and> clean_opt (lu_create_time u) \<and> clean_opt (lu_update_time u)
     \<and> (unit_active u \<longleftrightarrow> lu_worker_id u \<noteq> None) \<and> (unit_active u \<longleftrightarrow> lu_lease_expires_at_ms u \<noteq> None)
     \<and> (lu_status u = Unit_EXPANDED \<longrightarrow> \<not> lu_required u) \<and> clean_ids (lu_dependencies u)"

text \<open>Running the constructor again on a stored unit changes nothing.\<close>

lemma unit_ok_post_init: "unit_ok u \<Longrightarrow> LongTaskUnitRecord_post_init u = Inr u"
  by (auto simp: unit_ok_def LongTaskUnitRecord_post_init_def key_or_id_def str_or_empty_def
      non_negative_int_def positive_int_def clean_id_def)

definition done_ids :: "(string, long_task_unit_record) dict \<Rightarrow> string set" where
  "done_ids units = lu_id ` {u \<in> set (dict_values units). lu_status u = Unit_COMPLETED}"

lemma completed_ids_eq: "completed_ids s = done_ids (sl_units s)"
  by (auto simp: completed_ids_def done_ids_def)

definition units_ok :: "(string, long_task_unit_record) dict \<Rightarrow> bool" where
  "units_ok units \<longleftrightarrow> distinct (map fst units) \<and> (\<forall>(k, u) \<in> set units. k = lu_id u \<and> unit_ok u)
     \<and> distinct (map lu_semantic_key (dict_values units)) \<and> orderable (unit_graph units)
     \<and> (\<forall>(k, u) \<in> set units. started u \<longrightarrow> set (lu_dependencies u) \<subseteq> done_ids units)
     \<and> (\<forall>(k, u) \<in> set units. \<forall>(j, v) \<in> set units. lu_run_id u \<noteq> None \<and> lu_run_id u = lu_run_id v \<longrightarrow> k = j)"

lemma units_okD:
  assumes "units_ok units"
  shows "distinct (map fst units)" and "(k, u) \<in> set units \<Longrightarrow> k = lu_id u" and "(k, u) \<in> set units \<Longrightarrow> unit_ok u"
    and "distinct (map lu_semantic_key (dict_values units))"
    and "(k, u) \<in> set units \<Longrightarrow> started u \<Longrightarrow> set (lu_dependencies u) \<subseteq> done_ids units"
    and "(k, u) \<in> set units \<Longrightarrow> (j, v) \<in> set units \<Longrightarrow> lu_run_id u = Some r \<Longrightarrow> lu_run_id v = Some r \<Longrightarrow> k = j"
proof -
  note ok = assms [unfolded units_ok_def]
  show "distinct (map fst units)" using ok by (elim conjE)
  show "(k, u) \<in> set units \<Longrightarrow> k = lu_id u" "(k, u) \<in> set units \<Longrightarrow> unit_ok u"
    using ok [THEN conjunct2, THEN conjunct1] by auto
  show "distinct (map lu_semantic_key (dict_values units))" using ok by (elim conjE)
  show "(k, u) \<in> set units \<Longrightarrow> started u \<Longrightarrow> set (lu_dependencies u) \<subseteq> done_ids units"
    using ok [THEN conjunct2, THEN conjunct2, THEN conjunct2, THEN conjunct2, THEN conjunct1] by auto
  show "(k, u) \<in> set units \<Longrightarrow> (j, v) \<in> set units \<Longrightarrow> lu_run_id u = Some r \<Longrightarrow> lu_run_id v = Some r \<Longrightarrow> k = j"
    using ok [THEN conjunct2, THEN conjunct2, THEN conjunct2, THEN conjunct2, THEN conjunct2] by fastforce
qed

text \<open>What may happen to one unit while the others stay: its identity and dependencies are kept, a
  completed unit stays completed, and it starts only when its dependencies are done.\<close>

definition unit_move :: "string set \<Rightarrow> long_task_unit_record \<Rightarrow> long_task_unit_record \<Rightarrow> bool" where
  "unit_move finished u u' \<longleftrightarrow> lu_task_id u' = lu_task_id u \<and> lu_id u' = lu_id u \<and> lu_position u' = lu_position u
     \<and> lu_semantic_key u' = lu_semantic_key u \<and> lu_dependencies u' = lu_dependencies u \<and> unit_ok u'
     \<and> (lu_status u = Unit_COMPLETED \<longrightarrow> lu_status u' = Unit_COMPLETED)
     \<and> (started u' \<longrightarrow> started u \<or> set (lu_dependencies u) \<subseteq> finished)"

lemma unit_move_refl: "unit_ok u \<Longrightarrow> unit_move finished u u"
  by (simp add: unit_move_def)

abbreviation map_dict :: "('k \<Rightarrow> 'v \<Rightarrow> 'v) \<Rightarrow> ('k, 'v) dict \<Rightarrow> ('k, 'v) dict" where
  "map_dict f d \<equiv> map (\<lambda>(k, v). (k, f k v)) d"

lemma map_dict_fst [simp]: "map fst (map_dict f d) = map fst d" "fst ` set (map_dict f d) = fst ` set d"
  by (simp_all add: case_prod_beta comp_def image_image)

lemma map_of_map_dict: "map_of (map_dict f d) k = map_option (f k) (map_of d k)"
  by (induction d) auto

lemma map_dict_field:
  assumes "\<And>k v. (k, v) \<in> set d \<Longrightarrow> g (f k v) = g v"
  shows "map g (dict_values (map_dict f d)) = map g (dict_values d)"
  using assms by (auto simp: case_prod_beta)

lemma units_ok_map:
  assumes ok: "units_ok units"
    and move: "\<And>k u. (k, u) \<in> set units \<Longrightarrow> unit_move (done_ids units) u (f k u)"
    and runs: "\<And>k u j v r. (k, u) \<in> set units \<Longrightarrow> (j, v) \<in> set units \<Longrightarrow> lu_run_id (f k u) = Some r
      \<Longrightarrow> lu_run_id (f j v) = Some r \<Longrightarrow> k = j"
  shows "units_ok (map_dict f units)"
proof -
  note mv = move [unfolded unit_move_def]
  have keys: "map fst (map_dict f units) = map fst units" "fst ` set (map_dict f units) = fst ` set units"
    by (rule map_dict_fst)+
  have pos: "map lu_semantic_key (dict_values (map_dict f units)) = map lu_semantic_key (dict_values units)"
    "unit_graph (map_dict f units) = unit_graph units"
    unfolding unit_graph_def using mv by (intro map_dict_field; blast)+
  have done_mono: "done_ids units \<subseteq> done_ids (map_dict f units)"
  proof
    fix i assume "i \<in> done_ids units"
    then obtain k u where u: "(k, u) \<in> set units" "lu_status u = Unit_COMPLETED" "i = lu_id u" by (auto simp: done_ids_def)
    then have "(k, f k u) \<in> set (map_dict f units)" "lu_status (f k u) = Unit_COMPLETED" "lu_id (f k u) = i"
      using mv [OF u(1)] by force+
    then show "i \<in> done_ids (map_dict f units)" by (force simp: done_ids_def)
  qed
  show ?thesis unfolding units_ok_def keys pos
  proof (intro conjI ballI)
    show "distinct (map fst units)" "distinct (map lu_semantic_key (dict_values units))" "orderable (unit_graph units)"
      using ok by (simp_all add: units_ok_def)
  next
    fix e assume "e \<in> set (map_dict f units)"
    then obtain k u where e: "e = (k, f k u)" "(k, u) \<in> set units" by auto
    note m = mv [OF e(2)] and k = units_okD(2,5) [OF ok e(2)]
    show "case e of (k, u) \<Rightarrow> k = lu_id u \<and> unit_ok u" using m k by (simp add: e)
    show "case e of (k, u) \<Rightarrow> started u \<longrightarrow> set (lu_dependencies u) \<subseteq> done_ids (map_dict f units)"
      using m k done_mono by (auto simp: e)
    show "case e of (k, u) \<Rightarrow> \<forall>(j, v) \<in> set (map_dict f units). lu_run_id u \<noteq> None \<and> lu_run_id u = lu_run_id v \<longrightarrow> k = j"
      using runs [OF e(2)] by (fastforce simp: e)
  qed
qed

text \<open>The usual case: no unit takes a new Run.\<close>

lemma units_ok_map_same_runs:
  assumes ok: "units_ok units"
    and move: "\<And>k u. (k, u) \<in> set units \<Longrightarrow> unit_move (done_ids units) u (f k u)"
    and runs: "\<And>k u. (k, u) \<in> set units \<Longrightarrow> lu_run_id (f k u) \<in> {None, lu_run_id u}"
  shows "units_ok (map_dict f units)"
proof (rule units_ok_map [OF ok move])
  fix k u j v r
  assume uv: "(k, u) \<in> set units" "(j, v) \<in> set units" and r: "lu_run_id (f k u) = Some r" "lu_run_id (f j v) = Some r"
  have "lu_run_id u = Some r" "lu_run_id v = Some r" using runs uv r by force+
  then show "k = j" using units_okD(6) [OF ok uv] by blast
qed

lemma update_as_map_dict:
  assumes "distinct (map fst d)" and "k \<in> fst ` set d"
  shows "AList.update k v d = map_dict (\<lambda>j w. if j = k then v else w) d"
  using assms
proof (induction d)
  case (Cons e d)
  show ?case
  proof (cases "fst e = k")
    case True
    then have "k \<notin> fst ` set d" using Cons.prems(1) by auto
    then have "map_dict (\<lambda>j w. if j = k then v else w) d = d" by (intro map_idI) force
    then show ?thesis using True by (cases e) simp
  next
    case False
    then show ?thesis using Cons by (cases e) auto
  qed
qed simp

lemma map_of_key: "map_of d k = Some v \<Longrightarrow> k \<in> fst ` set d"
  by (metis domI dom_map_of_conv_image_fst)

lemma put_unit_eq:
  assumes "units_ok (sl_units s)" and "map_of (sl_units s) (lu_id u) = Some v"
  shows "put_unit u s = map_units (\<lambda>k w. if k = lu_id u then u else w) s"
  unfolding put_unit_def map_units_def
  using update_as_map_dict [OF units_okD(1) [OF assms(1)] map_of_key [OF assms(2)]] by simp
section \<open>Task records\<close>

definition record_ok :: "long_task_record \<Rightarrow> bool" where
  "record_ok r \<longleftrightarrow> clean_id (lt_id r) \<and> clean_id (lt_namespace r) \<and> clean_id (lt_kind r) \<and> clean_id (lt_owner_id r)
     \<and> clean_id (lt_created_by_run_id r) \<and> 0 < lt_revision r \<and> 0 < lt_total_units r \<and> 0 < lt_max_parallelism r
     \<and> 0 \<le> lt_completed_units r \<and> 0 \<le> lt_failed_units r \<and> lt_completed_units r + lt_failed_units r \<le> lt_total_units r
     \<and> positive_opt (lt_deadline_at_ms r) \<and> (\<forall>n. lt_cancellation_requested_at_ms r = Some n \<longrightarrow> 0 \<le> n)
     \<and> clean_opt (lt_create_time r) \<and> clean_opt (lt_update_time r)"

lemma record_ok_post_init: "record_ok r \<Longrightarrow> LongTaskRecord_post_init r = Inr r"
  by (auto simp: record_ok_def LongTaskRecord_post_init_def positive_int_def non_negative_int_def
      optional_positive_int_id split: option.splits)

lemma LongTaskRecord_post_init_ok: "LongTaskRecord_post_init r = Inr r' \<Longrightarrow> record_ok r'"
  by (auto simp: record_ok_def LongTaskRecord_post_init_def bind_result_Inr_iff normalizer_Inr positive_opt_def
      dest: required_text_result_clean optional_positive_int_ok split: if_splits option.splits)

definition bindings_ok :: "stored_long_task \<Rightarrow> bool" where
  "bindings_ok s \<longleftrightarrow> distinct (map fst (sl_bindings s))
     \<and> (\<forall>(k, b) \<in> set (sl_bindings s). lb_run_id b = k \<and> lb_task_id b = lt_id (sl_record s)
         \<and> (lb_relation b = Relation_CREATED \<longleftrightarrow> k = lt_created_by_run_id (sl_record s)))
     \<and> lt_created_by_run_id (sl_record s) \<in> fst ` set (sl_bindings s)"

definition usage_ok :: "stored_long_task \<Rightarrow> bool" where
  "usage_ok s \<longleftrightarrow> distinct (map fst (sl_usage_by_run s))
     \<and> (\<forall>u \<in> set (dict_values (sl_usage_by_run s)). LongTaskUsage_post_init u = Inr u)
     \<and> lt_usage (sl_record s) = (if sl_usage_by_run s = [] then no_usage
         else aggregate_usage (dict_values (sl_usage_by_run s)))"

definition totals_ok :: "stored_long_task \<Rightarrow> bool" where
  "totals_ok s \<longleftrightarrow> lt_total_units (sl_record s) = int (length (required_units s))
     \<and> lt_completed_units (sl_record s) = int (length (filter (\<lambda>u. lu_status u = Unit_COMPLETED) (required_units s)))
     \<and> lt_failed_units (sl_record s) = int (length (filter (\<lambda>u. lu_status u = Unit_FAILED) (required_units s)))"

text \<open>The invariant, and the part of it that holds before the totals are refreshed.\<close>

definition base_ok :: "stored_long_task \<Rightarrow> bool" where
  "base_ok s \<longleftrightarrow> record_ok (sl_record s) \<and> units_ok (sl_units s)
     \<and> (\<forall>u \<in> set (dict_values (sl_units s)). lu_task_id u = lt_id (sl_record s))
     \<and> bindings_ok s \<and> usage_ok s \<and> required_units s \<noteq> []"

lemma base_okD:
  assumes "base_ok s"
  shows "record_ok (sl_record s)" and "units_ok (sl_units s)"
    and "\<forall>u \<in> set (dict_values (sl_units s)). lu_task_id u = lt_id (sl_record s)"
    and "bindings_ok s" and "usage_ok s" and "required_units s \<noteq> []"
  using assms by (simp_all add: base_ok_def)

lemma base_okI:
  assumes "record_ok (sl_record s)" and "units_ok (sl_units s)"
    and "\<forall>u \<in> set (dict_values (sl_units s)). lu_task_id u = lt_id (sl_record s)"
    and "bindings_ok s" and "usage_ok s" and "required_units s \<noteq> []"
  shows "base_ok s"
  unfolding base_ok_def by (intro conjI) (rule assms)+

definition task_ok :: "stored_long_task \<Rightarrow> bool" where
  "task_ok s \<longleftrightarrow> base_ok s \<and> totals_ok s"

section \<open>What only moves forward\<close>

text \<open>
  Within one lease epoch a lease is never given out again, its holder and its Run stay, and only
  the holder settles the unit. Every new epoch is one more attempt.
\<close>

definition lease_discipline :: "long_task_unit_record \<Rightarrow> long_task_unit_record \<Rightarrow> bool" where
  "lease_discipline u u' \<longleftrightarrow> lu_attempt u' - lu_attempt u = lu_lease_epoch u' - lu_lease_epoch u
     \<and> (lu_lease_epoch u' = lu_lease_epoch u \<longrightarrow>
          (unit_active u' \<longrightarrow> unit_active u \<and> lu_worker_id u' = lu_worker_id u)
        \<and> (lu_run_id u \<noteq> None \<longrightarrow> lu_run_id u' = lu_run_id u)
        \<and> (lu_status u' \<in> {Unit_COMPLETED, Unit_EXPANDED} \<longrightarrow> lu_status u = lu_status u'
            \<or> unit_active u \<and> lu_settled_by_worker_id u' = lu_worker_id u))"

definition unit_evolves :: "long_task_unit_record \<Rightarrow> long_task_unit_record \<Rightarrow> bool" where
  "unit_evolves u u' \<longleftrightarrow> lu_id u' = lu_id u \<and> lu_position u' = lu_position u \<and> lu_semantic_key u' = lu_semantic_key u
     \<and> lu_lease_epoch u \<le> lu_lease_epoch u' \<and> lu_max_attempts u \<le> lu_max_attempts u' \<and> lease_discipline u u'
     \<and> (lu_status u = Unit_COMPLETED \<longrightarrow> lu_status u' = Unit_COMPLETED \<and> lu_output_ref u' = lu_output_ref u
         \<and> lu_artifact_digest u' = lu_artifact_digest u \<and> lu_validation_receipt u' = lu_validation_receipt u
         \<and> lu_run_id u' = lu_run_id u)
     \<and> (lu_status u = Unit_EXPANDED \<longrightarrow> lu_status u' = Unit_EXPANDED)
     \<and> (lu_status u \<in> {Unit_COMPLETED, Unit_EXPANDED} \<longrightarrow> lu_lease_epoch u' = lu_lease_epoch u
         \<and> lu_settled_by_worker_id u' = lu_settled_by_worker_id u)"

lemma unit_evolves_refl [simp]: "unit_evolves u u"
  by (simp add: unit_evolves_def lease_discipline_def)

lemma lease_discipline_trans:
  assumes "lease_discipline u v" and "lease_discipline v w" and "lu_lease_epoch u \<le> lu_lease_epoch v" and "lu_lease_epoch v \<le> lu_lease_epoch w"
    and "lu_status v \<in> {Unit_COMPLETED, Unit_EXPANDED} \<Longrightarrow> lu_settled_by_worker_id w = lu_settled_by_worker_id v"
  shows "lease_discipline u w"
proof (cases "lu_lease_epoch w = lu_lease_epoch u")
  case True
  then have "lu_lease_epoch v = lu_lease_epoch u" "lu_lease_epoch w = lu_lease_epoch v" using assms(3,4) by simp_all
  note uv = conjunct2 [OF assms(1) [unfolded lease_discipline_def], rule_format, OF this(1)]
    and vw = conjunct2 [OF assms(2) [unfolded lease_discipline_def], rule_format, OF this(2)]
  show ?thesis unfolding lease_discipline_def
  proof (intro conjI impI)
    show "lu_attempt w - lu_attempt u = lu_lease_epoch w - lu_lease_epoch u"
      using assms(1,2) by (simp add: lease_discipline_def)
    show "lu_run_id w = lu_run_id u" if "lu_run_id u \<noteq> None" using that uv vw by simp
    show "lu_status u = lu_status w \<or> unit_active u \<and> lu_settled_by_worker_id w = lu_worker_id u"
      if w: "lu_status w \<in> {Unit_COMPLETED, Unit_EXPANDED}"
    proof (cases "lu_status v = lu_status w")
      case True
      then have "lu_status v \<in> {Unit_COMPLETED, Unit_EXPANDED}" using w by simp
      then show ?thesis using uv assms(5) True by auto
    next
      case False
      then show ?thesis using vw w uv by auto
    qed
  qed (use uv vw in simp_all)
next
  case False
  then show ?thesis using assms(1,2) by (simp add: lease_discipline_def)
qed

lemma unit_evolves_trans:
  assumes "unit_evolves u v" and "unit_evolves v w"
  shows "unit_evolves u w"
proof -
  have "lease_discipline u w"
    by (rule lease_discipline_trans [of u v]) (use assms in \<open>auto simp: unit_evolves_def\<close>)
  then show ?thesis using assms unfolding unit_evolves_def by auto
qed

text \<open>What a task is created for never changes.\<close>

definition task_scope :: "long_task_record \<Rightarrow> string \<times> string \<times> string \<times> json_mapping" where
  "task_scope r = (lt_namespace r, lt_kind r, lt_owner_id r, lt_metadata r)"

definition advances :: "stored_long_task \<Rightarrow> stored_long_task \<Rightarrow> bool" where
  "advances s s' \<longleftrightarrow> lt_id (sl_record s') = lt_id (sl_record s) \<and> task_scope (sl_record s') = task_scope (sl_record s)
     \<and> lt_created_by_run_id (sl_record s') = lt_created_by_run_id (sl_record s)
     \<and> lt_max_parallelism (sl_record s') = lt_max_parallelism (sl_record s)
     \<and> lt_deadline_at_ms (sl_record s') = lt_deadline_at_ms (sl_record s)
     \<and> lt_budget_limits (sl_record s') = lt_budget_limits (sl_record s)
     \<and> lt_revision (sl_record s) \<le> lt_revision (sl_record s')
     \<and> (\<forall>k u. map_of (sl_units s) k = Some u \<longrightarrow> (\<exists>u'. map_of (sl_units s') k = Some u' \<and> unit_evolves u u'))
     \<and> map_of (sl_bindings s) \<subseteq>\<^sub>m map_of (sl_bindings s') \<and> map_of (sl_usage_by_run s) \<subseteq>\<^sub>m map_of (sl_usage_by_run s')"

lemma advances_refl [simp]: "advances s s"
  by (simp add: advances_def)

lemma advances_trans: "advances s t \<Longrightarrow> advances t u \<Longrightarrow> advances s u"
proof -
  assume st: "advances s t" and tu: "advances t u"
  have "\<exists>w. map_of (sl_units u) k = Some w \<and> unit_evolves v w" if "map_of (sl_units s) k = Some v" for k v
    using st tu that unfolding advances_def by (meson unit_evolves_trans)
  moreover have "map_of (sl_bindings s) \<subseteq>\<^sub>m map_of (sl_bindings u)" "map_of (sl_usage_by_run s) \<subseteq>\<^sub>m map_of (sl_usage_by_run u)"
    using st tu unfolding advances_def by (meson map_le_trans)+
  ultimately show ?thesis using st tu unfolding advances_def by force
qed

text \<open>A step that keeps the invariant up to the totals, and one that keeps all of it.\<close>

definition good_step :: "stored_long_task \<Rightarrow> stored_long_task \<Rightarrow> bool" where
  "good_step s s' \<longleftrightarrow> base_ok s' \<and> advances s s'"

definition full_step :: "stored_long_task \<Rightarrow> stored_long_task \<Rightarrow> bool" where
  "full_step s s' \<longleftrightarrow> task_ok s' \<and> advances s s'"

lemma good_step_refl: "base_ok s \<Longrightarrow> good_step s s"
  by (simp add: good_step_def)

lemma full_step_refl: "task_ok s \<Longrightarrow> full_step s s"
  by (simp add: full_step_def)

lemma good_full_trans: "good_step s t \<Longrightarrow> full_step t u \<Longrightarrow> full_step s u"
  unfolding good_step_def full_step_def by (blast intro: advances_trans)

lemma full_step_trans: "full_step s t \<Longrightarrow> full_step t u \<Longrightarrow> full_step s u"
  unfolding full_step_def by (blast intro: advances_trans)

section \<open>Steps of the record\<close>

lemma record_change:
  assumes "base_ok s" and "record_ok r"
    and "lt_id r = lt_id (sl_record s)" "lt_created_by_run_id r = lt_created_by_run_id (sl_record s)"
      "lt_max_parallelism r = lt_max_parallelism (sl_record s)" "lt_deadline_at_ms r = lt_deadline_at_ms (sl_record s)"
      "lt_budget_limits r = lt_budget_limits (sl_record s)" "lt_revision (sl_record s) \<le> lt_revision r"
      "lt_usage r = lt_usage (sl_record s)" "task_scope r = task_scope (sl_record s)"
  shows "good_step s (s\<lparr>sl_record := r\<rparr>)"
proof -
  have "advances s (s\<lparr>sl_record := r\<rparr>)" unfolding advances_def using assms(3-8,10) by simp
  then show ?thesis using assms
    by (simp add: good_step_def base_ok_def bindings_ok_def usage_ok_def required_units_def)
qed

lemma required_units_record [simp]: "required_units (s\<lparr>sl_record := r\<rparr>) = required_units s"
  by (simp add: required_units_def)

lemma touch_step: "base_ok s \<Longrightarrow> good_step s (touch s ts)"
  unfolding touch_def by (rule record_change) (auto simp: base_ok_def record_ok_def task_scope_def)

lemma touch_totals [simp]: "totals_ok (touch s ts) = totals_ok s"
  by (simp add: touch_def totals_ok_def)

lemma set_status_step: "base_ok s \<Longrightarrow> good_step s (set_status s st ts)"
  unfolding set_status_def touch_def
  by (cases "lt_status (sl_record s) = st")
     (auto intro!: record_change good_step_refl simp: base_ok_def record_ok_def task_scope_def)

lemma set_status_totals [simp]: "totals_ok (set_status s st ts) = totals_ok s"
  by (simp add: set_status_def touch_def totals_ok_def)

lemma set_status_status [simp]: "lt_status (sl_record (set_status s st ts)) = st"
  by (simp add: set_status_def touch_def)

lemma touch_full: "task_ok s \<Longrightarrow> full_step s (touch s ts)"
  using touch_step [of s ts] by (simp add: task_ok_def full_step_def good_step_def)

lemma set_status_full: "task_ok s \<Longrightarrow> full_step s (set_status s st ts)"
  using set_status_step [of s st ts] by (simp add: task_ok_def full_step_def good_step_def)

lemma length_two_filters:
  "\<not> (\<exists>x. P x \<and> Q x) \<Longrightarrow> length (filter P xs) + length (filter Q xs) \<le> length xs"
  by (induction xs) auto

lemma refresh_totals_full:
  assumes "base_ok s"
  obtains s' where "refresh_totals s ts = (Inr (), s')" "full_step s s'" "sl_units s' = sl_units s"
    "lt_status (sl_record s') = lt_status (sl_record s)"
proof -
  let ?req = "required_units s"
  define r where "r = (sl_record s)\<lparr>lt_total_units := int (length ?req),
         lt_completed_units := int (length (filter (\<lambda>u. lu_status u = Unit_COMPLETED) ?req)),
         lt_failed_units := int (length (filter (\<lambda>u. lu_status u = Unit_FAILED) ?req))\<rparr>"
  have "length (filter (\<lambda>u. lu_status u = Unit_COMPLETED) ?req) + length (filter (\<lambda>u. lu_status u = Unit_FAILED) ?req) \<le> length ?req"
    by (rule length_two_filters) simp
  then have r: "record_ok r" using assms by (simp add: r_def base_ok_def record_ok_def)
  then have eq: "refresh_totals s ts = (Inr (), touch (s\<lparr>sl_record := r\<rparr>) ts)"
    by (simp add: refresh_totals_def read_op_def record_ok_post_init r_def [symmetric])
  have step: "good_step s (s\<lparr>sl_record := r\<rparr>)" using assms r by (rule record_change) (simp_all add: r_def task_scope_def)
  have "totals_ok (s\<lparr>sl_record := r\<rparr>)" by (simp add: totals_ok_def r_def)
  then have "task_ok (s\<lparr>sl_record := r\<rparr>)" using step by (simp add: task_ok_def good_step_def)
  then have "full_step s (touch (s\<lparr>sl_record := r\<rparr>) ts)" by (rule good_full_trans [OF step touch_full])
  with eq show ?thesis by (rule that) (simp_all add: touch_def r_def)
qed
section \<open>Steps of the units\<close>

lemma map_units_sel [simp]:
  "sl_record (map_units f s) = sl_record s" "sl_bindings (map_units f s) = sl_bindings s"
  "sl_usage_by_run (map_units f s) = sl_usage_by_run s" "sl_units (map_units f s) = map_dict f (sl_units s)"
  by (simp_all add: map_units_def)

lemma required_units_map:
  assumes "\<And>k u. (k, u) \<in> set (sl_units s) \<Longrightarrow> lu_required (f k u) = lu_required u"
  shows "required_units (map_units f s) = map (\<lambda>(k, u). f k u) (filter (\<lambda>(k, u). lu_required u) (sl_units s))"
proof -
  have "map snd (filter (\<lambda>x. lu_required (snd x)) (map_dict f d)) = map (\<lambda>(k, u). f k u) (filter (\<lambda>(k, u). lu_required u) d)"
    if "\<And>k u. (k, u) \<in> set d \<Longrightarrow> lu_required (f k u) = lu_required u" for d
    using that by (induction d) auto
  then show ?thesis using assms by (simp add: required_units_def filter_map comp_def)
qed

lemma required_units_alt: "required_units s = map snd (filter (\<lambda>(k, u). lu_required u) (sl_units s))"
  unfolding required_units_def filter_map comp_def case_prod_beta' ..

lemma map_units_step:
  assumes ok: "base_ok s"
    and move: "\<And>k u. (k, u) \<in> set (sl_units s) \<Longrightarrow> unit_ok u \<Longrightarrow>
      unit_move (done_ids (sl_units s)) u (f k u) \<and> unit_evolves u (f k u) \<and> lu_required (f k u) = lu_required u"
    and runs: "\<And>k u j v r. (k, u) \<in> set (sl_units s) \<Longrightarrow> (j, v) \<in> set (sl_units s) \<Longrightarrow> lu_run_id (f k u) = Some r
      \<Longrightarrow> lu_run_id (f j v) = Some r \<Longrightarrow> k = j"
  shows "good_step s (map_units f s)"
proof -
  have units: "units_ok (sl_units s)" using ok by (simp add: base_ok_def)
  have mv: "unit_move (done_ids (sl_units s)) u (f k u)" "unit_evolves u (f k u)" "lu_required (f k u) = lu_required u"
    if "(k, u) \<in> set (sl_units s)" for k u
    using move [OF that] units_okD(3) [OF units that] by simp_all
  have u': "units_ok (sl_units (map_units f s))"
    unfolding map_units_sel by (rule units_ok_map [OF units mv(1) runs])
  have ids: "\<forall>u \<in> set (dict_values (sl_units (map_units f s))). lu_task_id u = lt_id (sl_record s)"
    using ok mv(1) by (fastforce simp: base_ok_def unit_move_def)
  have req: "required_units (map_units f s) \<noteq> []"
  proof -
    have "length (required_units (map_units f s)) = length (required_units s)"
      using required_units_map [of s f] mv(3) by (simp add: required_units_alt)
    then show ?thesis using ok by (auto simp: base_ok_def)
  qed
  have "\<exists>u'. map_of (map_dict f (sl_units s)) k = Some u' \<and> unit_evolves u u'" if "map_of (sl_units s) k = Some u" for k u
    unfolding map_of_map_dict that using mv(2) [OF map_of_SomeD [OF that]] by simp
  then have "advances s (map_units f s)" unfolding advances_def map_units_sel
    by (intro conjI allI impI) (simp_all only: order_refl map_le_refl)
  moreover have "base_ok (map_units f s)"
  proof (rule base_okI)
    show "record_ok (sl_record (map_units f s))" using base_okD(1) [OF ok] by (simp only: map_units_sel)
    show "bindings_ok (map_units f s)" using base_okD(4) [OF ok] unfolding bindings_ok_def map_units_sel .
    show "usage_ok (map_units f s)" using base_okD(5) [OF ok] unfolding usage_ok_def map_units_sel .
    show "\<forall>u \<in> set (dict_values (sl_units (map_units f s))). lu_task_id u = lt_id (sl_record (map_units f s))"
      using ids by (simp only: map_units_sel(1))
  qed (rule u' req)+
  ultimately show ?thesis by (simp add: good_step_def)
qed

lemma map_units_totals:
  assumes "totals_ok s"
    and "\<And>k u. (k, u) \<in> set (sl_units s) \<Longrightarrow> lu_required (f k u) = lu_required u
      \<and> (lu_required u \<longrightarrow> (lu_status (f k u) = Unit_COMPLETED \<longleftrightarrow> lu_status u = Unit_COMPLETED)
        \<and> (lu_status (f k u) = Unit_FAILED \<longleftrightarrow> lu_status u = Unit_FAILED))"
  shows "totals_ok (map_units f s)"
proof -
  have req: "required_units (map_units f s) = map (\<lambda>(k, u). f k u) (filter (\<lambda>(k, u). lu_required u) (sl_units s))"
    using assms(2) by (intro required_units_map) blast
  have cnt: "length (filter P (required_units (map_units f s))) = length (filter P (required_units s))"
    if "\<And>k u. (k, u) \<in> set (sl_units s) \<Longrightarrow> lu_required u \<Longrightarrow> P (f k u) = P u" for P
    unfolding req required_units_alt [of s] filter_map length_map
    using that by (intro arg_cong [of _ _ length] filter_cong) auto
  have "length (required_units (map_units f s)) = length (required_units s)"
    using cnt [of "\<lambda>_. True"] by simp
  moreover have "length (filter (\<lambda>u. lu_status u = Unit_COMPLETED) (required_units (map_units f s)))
      = length (filter (\<lambda>u. lu_status u = Unit_COMPLETED) (required_units s))"
    "length (filter (\<lambda>u. lu_status u = Unit_FAILED) (required_units (map_units f s)))
      = length (filter (\<lambda>u. lu_status u = Unit_FAILED) (required_units s))"
    using assms(2) by (intro cnt; blast)+
  ultimately show ?thesis using assms(1) by (simp only: totals_ok_def map_units_sel)
qed

text \<open>The step that takes a lease away or never gives one: the unit is not started afterwards.\<close>

definition released :: "long_task_unit_record \<Rightarrow> long_task_unit_record \<Rightarrow> bool" where
  "released u u' \<longleftrightarrow> \<not> started u' \<and> lu_status u' \<noteq> Unit_EXPANDED \<and> lu_status u \<noteq> Unit_COMPLETED \<and> lu_status u \<noteq> Unit_EXPANDED
     \<and> lu_worker_id u' = None \<and> lu_lease_expires_at_ms u' = None \<and> lu_max_attempts u \<le> lu_max_attempts u'
     \<and> clean_opt (lu_error_code u') \<and> lu_task_id u' = lu_task_id u \<and> lu_id u' = lu_id u
     \<and> lu_position u' = lu_position u \<and> lu_semantic_key u' = lu_semantic_key u \<and> lu_dependencies u' = lu_dependencies u
     \<and> lu_required u' = lu_required u \<and> lu_attempt u' = lu_attempt u \<and> lu_lease_epoch u' = lu_lease_epoch u
     \<and> lu_parent_unit_id u' = lu_parent_unit_id u \<and> lu_settled_by_worker_id u' = lu_settled_by_worker_id u
     \<and> lu_run_id u' = lu_run_id u \<and> lu_input_ref u' = lu_input_ref u \<and> lu_output_ref u' = lu_output_ref u
     \<and> lu_artifact_digest u' = lu_artifact_digest u \<and> lu_create_time u' = lu_create_time u
     \<and> lu_update_time u' = lu_update_time u"

lemma released_move:
  assumes "released u u'" and "unit_ok u"
  shows "unit_move finished u u'" and "unit_evolves u u'" and "lu_required u' = lu_required u" and "lu_run_id u' = lu_run_id u"
proof -
  have "unit_ok u'" using assms by (auto simp: released_def unit_ok_def unit_active_def started_def)
  then show "unit_move finished u u'" using assms by (simp add: released_def unit_move_def)
  have "lease_discipline u u'" using assms(1) by (auto simp: released_def lease_discipline_def started_def unit_active_def)
  then show "unit_evolves u u'" "lu_required u' = lu_required u" "lu_run_id u' = lu_run_id u"
    using assms by (simp_all add: released_def unit_evolves_def)
qed

lemma released_step:
  assumes ok: "base_ok s" and rel: "\<And>k u. (k, u) \<in> set (sl_units s) \<Longrightarrow> unit_ok u \<Longrightarrow> f k u = u \<or> released u (f k u)"
  shows "good_step s (map_units f s)"
proof (rule map_units_step [OF ok])
  have units: "units_ok (sl_units s)" using ok by (simp add: base_ok_def)
  show "unit_move (done_ids (sl_units s)) u (f k u) \<and> unit_evolves u (f k u) \<and> lu_required (f k u) = lu_required u"
    if "(k, u) \<in> set (sl_units s)" "unit_ok u" for k u
    using rel [OF that] released_move that(2) unit_move_refl by force
  show "k = j" if "(k, u) \<in> set (sl_units s)" "(j, v) \<in> set (sl_units s)" "lu_run_id (f k u) = Some r"
      "lu_run_id (f j v) = Some r" for k u j v r
  proof (rule units_okD(6) [OF units that(1,2)])
    have same: "lu_run_id (f i w) = lu_run_id w" if "(i, w) \<in> set (sl_units s)" for i w
      using rel [OF that] units_okD(3) [OF units that] released_move(4) by force
    show "lu_run_id u = Some r" "lu_run_id v = Some r" using same that by metis+
  qed
qed

lemma text_or_clean: "clean_opt v \<Longrightarrow> clean_id d \<Longrightarrow> clean_id (text_or v d)"
  by (cases v) (auto simp: text_or_def str_or_empty_def clean_id_def)

lemma clean_codes [simp]:
  "clean_id ''task_failed_dependency''" "clean_id ''long_task_deadline_exceeded''" "clean_id ''runtime_budget_exceeded''"
  "clean_id ''lease_expired_attempts_exhausted''" "clean_id ''execution_paused''" "clean_id ''long_task_no_runnable_work''"
  by code_simp+

lemma unit_ok_error_code: "unit_ok u \<Longrightarrow> clean_opt (lu_error_code u)"
  by (simp add: unit_ok_def)

lemmas release_simps = released_def started_def unit_terminal_def unit_active_def text_or_clean unit_ok_error_code

lemma cancel_units_full: "task_ok s \<Longrightarrow> full_step s (cancel_units s ts)"
proof -
  assume ok: "task_ok s"
  let ?f = "\<lambda>(k :: string) u. if unit_terminal (lu_status u) then u
     else u\<lparr>lu_status := Unit_CANCELED, lu_worker_id := None, lu_lease_expires_at_ms := None\<rparr>"
  have "good_step s (map_units ?f s)" by (rule released_step) (use ok in \<open>auto simp: task_ok_def release_simps\<close>)
  moreover have "totals_ok (map_units ?f s)"
    by (rule map_units_totals) (use ok in \<open>auto simp: task_ok_def unit_terminal_def\<close>)
  ultimately show ?thesis unfolding cancel_units_def
    by (intro good_full_trans [OF _ set_status_full]) (auto simp: task_ok_def good_step_def)
qed

text \<open>Settling every open unit and refreshing the totals.\<close>

lemma settle_all_full:
  assumes "base_ok s" and "\<And>k u. (k, u) \<in> set (sl_units s) \<Longrightarrow> unit_ok u \<Longrightarrow> f k u = u \<or> released u (f k u)"
  obtains s' where "bind_op (refresh_totals (map_units f s) ts) (\<lambda>_ s. (Inr (), set_status s st ts)) = (Inr (), s')"
    "full_step s s'" "sl_units s' = map_dict f (sl_units s)" "lt_status (sl_record s') = st"
proof -
  have step: "good_step s (map_units f s)" using assms by (rule released_step)
  then have "base_ok (map_units f s)" by (simp add: good_step_def)
  then obtain t where t: "refresh_totals (map_units f s) ts = (Inr (), t)" "full_step (map_units f s) t"
      "sl_units t = sl_units (map_units f s)" by (rule refresh_totals_full)
  then have "full_step s (set_status t st ts)"
    using step set_status_full good_full_trans full_step_trans unfolding full_step_def by blast
  then show ?thesis using t by (intro that [of "set_status t st ts"]) (simp_all add: set_status_def touch_def)
qed

lemma fail_task_full:
  assumes "base_ok s"
  obtains s' where "fail_task s i ts = (Inr (), s')" "full_step s s'" "lt_status (sl_record s') = Task_FAILED"
proof -
  let ?f = "\<lambda>k u. if k \<noteq> i \<and> \<not> unit_terminal (lu_status u) then
         u\<lparr>lu_status := Unit_CANCELED, lu_worker_id := None, lu_lease_expires_at_ms := None,
           lu_error_code := Some (text_or (lu_error_code u) ''task_failed_dependency'')\<rparr> else u"
  have rel: "?f k u = u \<or> released u (?f k u)" if "unit_ok u" for k u using that by (simp add: release_simps)
  show ?thesis
    by (rule settle_all_full [OF assms, of ?f ts Task_FAILED], rule rel, assumption) (rule that, simp_all add: fail_task_def)
qed

lemma expire_units_full:
  assumes "base_ok s"
  obtains s' where "expire_units s ts = (Inr (), s')" "full_step s s'" "lt_status (sl_record s') = Task_FAILED"
proof -
  let ?f = "\<lambda>(k :: string) u. if unit_terminal (lu_status u) then u
       else u\<lparr>lu_status := Unit_FAILED, lu_worker_id := None, lu_lease_expires_at_ms := None,
         lu_error_code := Some ''long_task_deadline_exceeded''\<rparr>"
  have rel: "?f k u = u \<or> released u (?f k u)" if "unit_ok u" for k u using that by (simp add: release_simps)
  show ?thesis
    by (rule settle_all_full [OF assms, of ?f ts Task_FAILED], rule rel, assumption) (rule that, simp_all add: expire_units_def)
qed

lemma fail_budget_full:
  assumes "base_ok s"
  obtains s' where "fail_budget s kind ts = (Inr (), s')" "full_step s s'"
    "lt_status (sl_record s') = (if lt_budget_exhaustion_disposition (sl_record s) = Budget_PAUSE_RECOVERABLE
      then Task_PAUSED else Task_FAILED)"
proof (cases "lt_budget_exhaustion_disposition (sl_record s) = Budget_PAUSE_RECOVERABLE")
  case True
  let ?f = "\<lambda>(k :: string) u. if unit_terminal (lu_status u) then u
          else u\<lparr>lu_status := Unit_BLOCKED, lu_worker_id := None, lu_lease_expires_at_ms := None,
            lu_disposition := Some Disp_PAUSE_RECOVERABLE, lu_error_code := Some ''runtime_budget_exceeded'',
            lu_metadata := dict_merge (lu_metadata u) [(''budgetKind'', JStr kind)]\<rparr>"
  have rel: "?f k u = u \<or> released u (?f k u)" if "unit_ok u" for k u using that by (simp add: release_simps)
  show ?thesis
    by (rule settle_all_full [OF assms, of ?f ts Task_PAUSED], rule rel, assumption)
       (rule that, use True in \<open>simp_all add: fail_budget_def\<close>)
next
  case False
  let ?f = "\<lambda>(k :: string) u. if unit_terminal (lu_status u) then u
          else u\<lparr>lu_status := Unit_FAILED, lu_worker_id := None, lu_lease_expires_at_ms := None,
            lu_error_code := Some ''runtime_budget_exceeded'',
            lu_metadata := dict_merge (lu_metadata u) [(''budgetKind'', JStr kind)]\<rparr>"
  have rel: "?f k u = u \<or> released u (?f k u)" if "unit_ok u" for k u using that by (simp add: release_simps)
  show ?thesis
    by (rule settle_all_full [OF assms, of ?f ts Task_FAILED], rule rel, assumption)
       (rule that, use False in \<open>simp_all add: fail_budget_def\<close>)
qed

end
