(* ===== verification/Long_Task_Operations.thy ===== *)
theory Long_Task_Operations
  imports Long_Task_Invariant
begin

text \<open>
  Every operation of the durable task store on one task keeps the invariant of
  \<open>Long_Task_Invariant\<close> and only moves the task forward, on every branch and also when the
  operation raises after it has changed the state.
\<close>

section \<open>Held units\<close>

lemma require_unit_Inr:
  assumes "units_ok (sl_units s)" and "require_unit s i = Inr u"
  shows "map_of (sl_units s) (lu_id u) = Some u" and "(lu_id u, u) \<in> set (sl_units s)" and "unit_ok u" and "lu_id u = strip i"
proof -
  obtain k where k: "map_of (sl_units s) k = Some u" "k = strip i"
    using assms(2) by (auto simp: require_unit_def bind_result_Inr_iff required_text_def Let_def split: option.splits if_splits)
  then have "(k, u) \<in> set (sl_units s)" by (simp add: map_of_SomeD)
  then show "map_of (sl_units s) (lu_id u) = Some u" "(lu_id u, u) \<in> set (sl_units s)" "unit_ok u" "lu_id u = strip i"
    using units_okD(2,3) [OF assms(1)] k by metis+
qed

text \<open>The authority a worker needs for a unit.\<close>

definition holds_claim :: "stored_long_task \<Rightarrow> long_task_unit_record \<Rightarrow> string \<Rightarrow> int \<Rightarrow> int \<Rightarrow> bool" where
  "holds_claim s u worker_id epoch now \<longleftrightarrow> lt_status (sl_record s) = Task_RUNNING \<and> unit_active u
     \<and> lu_worker_id u = Some (strip worker_id) \<and> lu_lease_epoch u = epoch \<and> lease_at u > now
     \<and> lu_lease_expires_at_ms u \<noteq> None \<and> \<not> deadline_elapsed s now"

lemma require_unit_claim_Inr:
  "require_unit_claim s u w e now ts = (Inr x, t) \<Longrightarrow> t = s \<and> holds_claim s u w e now \<and> required_text w ''long task worker id'' = Inr (strip w)"
  by (auto simp: require_unit_claim_def holds_claim_def bind_op_Inr read_op_Inr required_text_def Let_def lease_at_def
      split: if_splits option.splits)

lemma require_unit_claim_step:
  assumes "task_ok s"
  shows "full_step s (snd (require_unit_claim s u w e now ts))"
proof (cases "deadline_elapsed s now")
  case True
  have "base_ok s" using assms by (simp add: task_ok_def)
  then obtain s' where "expire_units s ts = (Inr (), s')" "full_step s s'" by (rule expire_units_full)
  then show ?thesis using True by (simp add: require_unit_claim_def)
next
  case False
  then show ?thesis using assms
    by (auto simp: require_unit_claim_def intro!: snd_read_op [where P = "full_step s"] full_step_refl)
qed

text \<open>The frame of every operation on a claimed unit.\<close>

lemma claimed_unit_op:
  assumes ok: "task_ok s"
    and body: "\<And>u. (lu_id u, u) \<in> set (sl_units s) \<Longrightarrow> map_of (sl_units s) (lu_id u) = Some u \<Longrightarrow> unit_ok u
      \<Longrightarrow> holds_claim s u w e now \<Longrightarrow> required_text w ''long task worker id'' = Inr (strip w) \<Longrightarrow> full_step s (snd (f u s))"
  shows "full_step s (snd (read_op (require_unit s i) s (\<lambda>u. bind_op (require_unit_claim s u w e now ts) (\<lambda>_ s. f u s))))"
proof (rule snd_read_op)
  show "full_step s s" using ok by (rule full_step_refl)
  fix u assume u: "require_unit s i = Inr u"
  have "units_ok (sl_units s)" using ok by (simp add: task_ok_def base_okD(2))
  note r = require_unit_Inr [OF this u]
  show "full_step s (snd (bind_op (require_unit_claim s u w e now ts) (\<lambda>_ s. f u s)))"
  proof (rule snd_bind_op)
    show "full_step s (snd (require_unit_claim s u w e now ts))" using ok by (rule require_unit_claim_step)
    show "full_step s (snd (f u t))" if "require_unit_claim s u w e now ts = (Inr x, t)" for x t
      using require_unit_claim_Inr [OF that] body r by blast
  qed
qed

section \<open>Replacing one unit\<close>

lemma put_unit_step:
  assumes ok: "base_ok s" and u: "map_of (sl_units s) (lu_id u) = Some u" and id: "lu_id u' = lu_id u"
    and move: "unit_move (done_ids (sl_units s)) u u'" "unit_evolves u u'" "lu_required u' = lu_required u"
    and runs: "lu_run_id u' = None \<or> lu_run_id u' = lu_run_id u \<or> (\<exists>r. lu_run_id u' = Some r \<and> \<not> other_has_run s (lu_id u) r)"
  shows "good_step s (put_unit u' s)"
proof -
  have units: "units_ok (sl_units s)" using ok by (rule base_okD)
  have eq: "put_unit u' s = map_units (\<lambda>k w. if k = lu_id u' then u' else w) s"
    using units u id by (intro put_unit_eq) simp_all
  have same: "w = u" if "(lu_id u, w) \<in> set (sl_units s)" for w
    using u that units_okD(1) [OF units] by simp
  have apart: "lu_run_id w \<noteq> Some r" if "(j, w) \<in> set (sl_units s)" "j \<noteq> lu_id u" "lu_run_id u' = Some r" for j w r
  proof
    assume r: "lu_run_id w = Some r"
    have j: "j = lu_id w" using units_okD(2) [OF units that(1)] .
    have "w \<in> set (dict_values (sl_units s))" using that(1) by force
    then have "other_has_run s (lu_id u) r" using j that(2) r by (auto simp: other_has_run_def list_ex_iff)
    moreover have "lu_run_id u \<noteq> Some r"
      using units_okD(6) [OF units that(1) map_of_SomeD [OF u]] r that(2) by blast
    ultimately show False using runs that(3) by auto
  qed
  show ?thesis unfolding eq
  proof (rule map_units_step [OF ok])
    show "unit_move (done_ids (sl_units s)) w (if k = lu_id u' then u' else w)
        \<and> unit_evolves w (if k = lu_id u' then u' else w) \<and> lu_required (if k = lu_id u' then u' else w) = lu_required w"
      if "(k, w) \<in> set (sl_units s)" "unit_ok w" for k w
      using that move id same unit_move_refl by auto
    show "k = j" if "(k, v) \<in> set (sl_units s)" "(j, w) \<in> set (sl_units s)" "lu_run_id (if k = lu_id u' then u' else v) = Some r"
      "lu_run_id (if j = lu_id u' then u' else w) = Some r" for k v j w r
      using that apart id units_okD(6) [OF units that(1,2)] by (metis (full_types))
  qed
qed

lemma put_unit_totals:
  assumes "units_ok (sl_units s)" and "totals_ok s" and "map_of (sl_units s) (lu_id u) = Some u" and "lu_id u' = lu_id u"
    and "lu_required u' = lu_required u" and "lu_status u' = Unit_COMPLETED \<longleftrightarrow> lu_status u = Unit_COMPLETED"
    and "lu_status u' = Unit_FAILED \<longleftrightarrow> lu_status u = Unit_FAILED"
  shows "totals_ok (put_unit u' s)"
proof -
  have eq: "put_unit u' s = map_units (\<lambda>k w. if k = lu_id u' then u' else w) s"
    using assms by (intro put_unit_eq) simp_all
  have "w = u" if "(lu_id u, w) \<in> set (sl_units s)" for w using assms(3) that units_okD(1) [OF assms(1)] by simp
  then show ?thesis unfolding eq using assms by (intro map_units_totals) auto
qed

lemma put_unit_full:
  assumes ok: "task_ok s" and u: "map_of (sl_units s) (lu_id u) = Some u" and id: "lu_id u' = lu_id u"
    and move: "unit_move (done_ids (sl_units s)) u u'" "unit_evolves u u'" "lu_required u' = lu_required u"
    and runs: "lu_run_id u' = None \<or> lu_run_id u' = lu_run_id u \<or> (\<exists>r. lu_run_id u' = Some r \<and> \<not> other_has_run s (lu_id u) r)"
    and counts: "lu_status u' = Unit_COMPLETED \<longleftrightarrow> lu_status u = Unit_COMPLETED" "lu_status u' = Unit_FAILED \<longleftrightarrow> lu_status u = Unit_FAILED"
  shows "full_step s (put_unit u' s)"
proof -
  have ok': "base_ok s" "totals_ok s" using ok by (simp_all add: task_ok_def)
  show ?thesis
    using put_unit_step [OF ok'(1) u id move runs] put_unit_totals [OF base_okD(2) [OF ok'(1)] ok'(2) u id move(3) counts]
    by (simp add: full_step_def good_step_def task_ok_def)
qed

text \<open>A step followed by \<open>_touch\<close> or by a new status.\<close>

lemma full_touch: "full_step s t \<Longrightarrow> full_step s (touch t ts)"
  by (rule full_step_trans [OF _ touch_full]) (simp_all add: full_step_def)

lemma full_set_status: "full_step s t \<Longrightarrow> full_step s (set_status t st ts)"
  by (rule full_step_trans [OF _ set_status_full]) (simp_all add: full_step_def)
section \<open>Scheduling\<close>

lemma holds_claim_status: "holds_claim s u w e now \<Longrightarrow> lu_status u \<noteq> Unit_COMPLETED \<and> lu_status u \<noteq> Unit_EXPANDED \<and> lu_status u \<noteq> Unit_FAILED \<and> started u"
  by (auto simp: holds_claim_def unit_active_def started_def)

lemma in_values: "units_ok units \<Longrightarrow> u \<in> set (dict_values units) \<Longrightarrow> (lu_id u, u) \<in> set units \<and> map_of units (lu_id u) = Some u \<and> unit_ok u"
  using units_okD(1,2,3) by force

lemma find_in: "find P xs = Some x \<Longrightarrow> x \<in> set xs \<and> P x"
  by (induction xs) (auto split: if_splits)

lemma claim_next_step:
  assumes ok: "task_ok s" and w: "clean_id worker"
  shows "full_step s (snd (claim_next s i worker duration now ts))"
proof -
  have units: "units_ok (sl_units s)" using ok by (simp add: task_ok_def base_okD(2))
  show ?thesis
  proof (cases "int (length (active_units s now)) \<ge> lt_max_parallelism (sl_record s)
      \<or> find (\<lambda>u. (i = None \<or> i = Some (lu_id u)) \<and> claimable s now u) (sort_key lu_position (dict_values (sl_units s))) = None")
    case True
    then show ?thesis using full_step_refl [OF ok] by (auto simp: claim_next_def)
  next
    case False
    then obtain u where f: "find (\<lambda>u. (i = None \<or> i = Some (lu_id u)) \<and> claimable s now u)
        (sort_key lu_position (dict_values (sl_units s))) = Some u" by auto
    let ?c = "u\<lparr>lu_status := Unit_CLAIMED, lu_attempt := lu_attempt u + 1, lu_worker_id := Some worker,
                  lu_lease_epoch := lu_lease_epoch u + 1, lu_lease_expires_at_ms := Some (now + duration),
                  lu_settled_by_worker_id := None, lu_run_id := None\<rparr>"
    have "u \<in> set (dict_values (sl_units s))" and cl: "claimable s now u" using find_in [OF f] by simp_all
    note u = in_values [OF units this(1)]
    have deps: "set (lu_dependencies u) \<subseteq> done_ids (sl_units s)" using cl by (simp add: claimable_def completed_ids_eq)
    have st: "lu_status u \<in> {Unit_PENDING, Unit_WAITING_RETRY, Unit_CLAIMED, Unit_RUNNING}"
      using cl by (auto simp: claimable_def unit_active_def)
    have "unit_ok ?c" using u cl w by (auto simp: unit_ok_def unit_active_def claimable_def)
    then have "unit_move (done_ids (sl_units s)) u ?c" "unit_evolves u ?c"
      using deps st by (auto simp: unit_move_def unit_evolves_def lease_discipline_def)
    then have "full_step s (put_unit ?c s)" using ok u st by (intro put_unit_full) auto
    then show ?thesis using False f by (simp add: claim_next_def Let_def full_touch)
  qed
qed

lemma fail_expired_step:
  assumes ok: "base_ok s"
  shows "good_step s (fail_expired now s)"
  unfolding fail_expired_def using ok
  by (rule released_step) (auto simp: released_def started_def expired_exhausted_def unit_active_def)

lemma fail_expired_full:
  assumes ok: "task_ok s" and none: "find (\<lambda>(k, u). lu_required u) (filter (\<lambda>(k, u). expired_exhausted now u) (sl_units s)) = None"
  shows "full_step s (fail_expired now s)"
proof -
  have "\<not> expired_exhausted now u" if "(k, u) \<in> set (sl_units s)" "lu_required u" for k u
    using none that by (auto simp: find_None_iff)
  then have "totals_ok (fail_expired now s)" unfolding fail_expired_def
    using ok by (intro map_units_totals) (auto simp: task_ok_def)
  then show ?thesis using fail_expired_step [of s now] ok by (simp add: full_step_def good_step_def task_ok_def)
qed

lemma claim_stored_step:
  assumes ok: "task_ok s" and w: "clean_id worker"
  shows "full_step s (snd (claim_stored i worker duration now ts s))"
proof -
  have base: "base_ok s" using ok by (simp add: task_ok_def)
  let ?exp = "filter (\<lambda>(k, u). expired_exhausted now u) (sl_units s)"
  consider "deadline_elapsed s now" | k where "\<not> deadline_elapsed s now" "task_budget_exhaustion s False = Some k"
    | "\<not> deadline_elapsed s now" "task_budget_exhaustion s False = None"
      "lt_status (sl_record s) \<noteq> Task_RUNNING \<or> lt_cancellation_requested_at_ms (sl_record s) \<noteq> None"
    | k u where "\<not> deadline_elapsed s now" "task_budget_exhaustion s False = None"
      "\<not> (lt_status (sl_record s) \<noteq> Task_RUNNING \<or> lt_cancellation_requested_at_ms (sl_record s) \<noteq> None)"
      "find (\<lambda>(k, u). lu_required u) ?exp = Some (k, u)"
    | "\<not> deadline_elapsed s now" "task_budget_exhaustion s False = None"
      "\<not> (lt_status (sl_record s) \<noteq> Task_RUNNING \<or> lt_cancellation_requested_at_ms (sl_record s) \<noteq> None)"
      "find (\<lambda>(k, u). lu_required u) ?exp = None"
    by (metis option.exhaust prod.exhaust)
  then show ?thesis
  proof cases
    case 1
    obtain s' where "expire_units s ts = (Inr (), s')" "full_step s s'" using base by (rule expire_units_full)
    then show ?thesis using 1 by (simp add: claim_stored_def)
  next
    case 2
    obtain s' where "fail_budget s k ts = (Inr (), s')" "full_step s s'" using base by (rule fail_budget_full)
    then show ?thesis using 2 by (simp add: claim_stored_def)
  next
    case 3
    then show ?thesis using full_step_refl [OF ok] by (auto simp: claim_stored_def)
  next
    case 4
    have st: "good_step s (fail_expired now s)" using base by (rule fail_expired_step)
    then have "base_ok (fail_expired now s)" by (simp add: good_step_def)
    then obtain s' where "fail_task (fail_expired now s) k ts = (Inr (), s')" "full_step (fail_expired now s) s'"
      by (rule fail_task_full)
    then show ?thesis using 4 good_full_trans [OF st] by (simp add: claim_stored_def)
  next
    case 5
    let ?t = "if ?exp = [] then s else touch (fail_expired now s) ts"
    have t: "full_step s ?t" using full_step_refl [OF ok] full_touch [OF fail_expired_full [OF ok 5(4)]] by simp
    then have "full_step ?t (snd (claim_next ?t i worker duration now ts))"
      using w by (intro claim_next_step) (simp_all add: full_step_def)
    with t have "full_step s (snd (claim_next ?t i worker duration now ts))" by (rule full_step_trans)
    then show ?thesis using 5 by (simp add: claim_stored_def)
  qed
qed

text \<open>A held unit that stays held.\<close>

lemma held_unit_full:
  assumes ok: "task_ok s" and u: "map_of (sl_units s) (lu_id u) = Some u" "unit_ok u" and h: "holds_claim s u w e now"
    and u': "\<exists>st lease run meta. u' = u\<lparr>lu_status := st, lu_lease_expires_at_ms := Some lease, lu_run_id := run, lu_metadata := meta\<rparr>
      \<and> st \<in> {Unit_CLAIMED, Unit_RUNNING} \<and> clean_opt run
      \<and> (run = lu_run_id u \<or> lu_run_id u = None \<and> (\<exists>r. run = Some r \<and> \<not> other_has_run s (lu_id u) r))"
  shows "full_step s (touch (put_unit u' s) ts)"
proof -
  obtain st lease run meta where eq: "u' = u\<lparr>lu_status := st, lu_lease_expires_at_ms := Some lease, lu_run_id := run, lu_metadata := meta\<rparr>"
    and st: "st \<in> {Unit_CLAIMED, Unit_RUNNING}" and run: "clean_opt run"
      "run = lu_run_id u \<or> lu_run_id u = None \<and> (\<exists>r. run = Some r \<and> \<not> other_has_run s (lu_id u) r)" using u' by blast
  have "unit_ok u'" using u(2) h st run by (auto simp: eq unit_ok_def unit_active_def holds_claim_def)
  then have "unit_move (done_ids (sl_units s)) u u'" "unit_evolves u u'"
    using st run(2) h holds_claim_status [OF h]
    by (auto simp: eq unit_move_def unit_evolves_def lease_discipline_def unit_active_def holds_claim_def)
  then have "full_step s (put_unit u' s)"
    using ok u(1) st run holds_claim_status [OF h] by (intro put_unit_full) (auto simp: eq)
  then show ?thesis by (rule full_touch)
qed

lemma bind_unit_run_step: "task_ok s \<Longrightarrow> full_step s (snd (bind_unit_run_stored i w e run now ts s))"
  unfolding bind_unit_run_stored_def
proof (rule claimed_unit_op)
  fix u assume ok: "task_ok s" and u: "map_of (sl_units s) (lu_id u) = Some u" "unit_ok u" and h: "holds_claim s u w e now"
  have "full_step s (touch (put_unit (u\<lparr>lu_status := Unit_RUNNING, lu_run_id := Some r, lu_metadata := meta\<rparr>) s) ts)"
    if "required_text run ''long task unit Run id'' = Inr r" "\<not> other_has_run s (lu_id u) r" "lu_run_id u = None" for r meta
  proof (rule held_unit_full [OF ok u h], intro exI conjI)
    show "u\<lparr>lu_status := Unit_RUNNING, lu_run_id := Some r, lu_metadata := meta\<rparr>
      = u\<lparr>lu_status := Unit_RUNNING, lu_lease_expires_at_ms := Some (lease_at u), lu_run_id := Some r, lu_metadata := meta\<rparr>"
      using h by (auto simp: holds_claim_def lease_at_def)
  qed (use that in \<open>auto dest: required_text_result_clean\<close>)
  then show "full_step s (snd (read_op (required_text run ''long task unit Run id'') s (\<lambda>run.
     if lu_run_id u \<noteq> None then
       if lu_run_id u \<noteq> Some run then
         (Inl (ContractViolation ''long_task_unit_run_conflict'' ''A Unit attempt cannot change its Run''), s)
       else (Inr u, s)
     else if other_has_run s (lu_id u) run then
       (Inl (ContractViolation ''long_task_unit_run_conflict'' ''A Run cannot belong to two task Units''), s)
     else
     read_op (run_history (lu_metadata u)) s (\<lambda>history.
     read_op (any_result (history_names_run run) history) s (\<lambda>known.
     let history' = (if known then history
           else history @ [JObj [(''attempt'', JInt (lu_attempt u)), (''runId'', JStr run)]]);
         bound = u\<lparr>lu_status := Unit_RUNNING, lu_run_id := Some run,
           lu_metadata := AList.update ''runHistory'' (JList (drop (length history' - 8) history')) (lu_metadata u)\<rparr>
     in (Inr bound, touch (put_unit bound s) ts))))))"
    using full_step_refl [OF ok]
    by (intro snd_read_op [where P = "full_step s"]) (auto simp: Let_def intro!: snd_read_op [where P = "full_step s"])
qed

lemma renew_step: "task_ok s \<Longrightarrow> full_step s (snd (renew_unit_lease_stored i w e duration now ts s))"
  unfolding renew_unit_lease_stored_def
proof (rule claimed_unit_op)
  fix u assume ok: "task_ok s" and u: "map_of (sl_units s) (lu_id u) = Some u" "unit_ok u" and h: "holds_claim s u w e now"
  have "full_step s (touch (put_unit (u\<lparr>lu_lease_expires_at_ms := Some (now + duration)\<rparr>) s) ts)"
  proof (rule held_unit_full [OF ok u h], intro exI conjI)
    show "u\<lparr>lu_lease_expires_at_ms := Some (now + duration)\<rparr> = u\<lparr>lu_status := lu_status u,
      lu_lease_expires_at_ms := Some (now + duration), lu_run_id := lu_run_id u, lu_metadata := lu_metadata u\<rparr>" by simp
  qed (use u h in \<open>auto simp: holds_claim_def unit_active_def unit_ok_def\<close>)
  then show "full_step s (snd (let renewed = u\<lparr>lu_lease_expires_at_ms := Some (now + duration)\<rparr>
     in (Inr renewed, touch (put_unit renewed s) ts)))" by (simp add: Let_def)
qed

lemma progress_step: "task_ok s \<Longrightarrow> full_step s (snd (update_unit_progress_stored i w e meta now ts s))"
  unfolding update_unit_progress_stored_def
proof (rule claimed_unit_op)
  fix u assume ok: "task_ok s" and u: "map_of (sl_units s) (lu_id u) = Some u" "unit_ok u" and h: "holds_claim s u w e now"
  have "full_step s (touch (put_unit (u\<lparr>lu_metadata := dict_merge (lu_metadata u) meta\<rparr>) s) ts)"
  proof (rule held_unit_full [OF ok u h], intro exI conjI)
    show "u\<lparr>lu_metadata := dict_merge (lu_metadata u) meta\<rparr> = u\<lparr>lu_status := lu_status u,
      lu_lease_expires_at_ms := Some (lease_at u), lu_run_id := lu_run_id u, lu_metadata := dict_merge (lu_metadata u) meta\<rparr>"
      using h by (auto simp: holds_claim_def lease_at_def)
  qed (use u h in \<open>auto simp: holds_claim_def unit_active_def unit_ok_def\<close>)
  then show "full_step s (snd (let updated = u\<lparr>lu_metadata := dict_merge (lu_metadata u) meta\<rparr>
     in (Inr updated, touch (put_unit updated s) ts)))" by (simp add: Let_def)
qed
section \<open>Settlement\<close>

text \<open>Replacing a held unit and refreshing the totals.\<close>

lemma put_refresh_full:
  assumes "good_step s (put_unit u' s)"
  obtains s' where "refresh_totals (put_unit u' s) ts = (Inr (), s')" "full_step s s'" "sl_units s' = AList.update (lu_id u') u' (sl_units s)"
    "lt_status (sl_record s') = lt_status (sl_record s)"
proof -
  have "base_ok (put_unit u' s)" using assms by (simp add: good_step_def)
  then obtain t where "refresh_totals (put_unit u' s) ts = (Inr (), t)" "full_step (put_unit u' s) t"
    "sl_units t = sl_units (put_unit u' s)" "lt_status (sl_record t) = lt_status (sl_record (put_unit u' s))" by (rule refresh_totals_full)
  then show ?thesis using that [of t] good_full_trans [OF assms] by (simp add: put_unit_def)
qed

lemma complete_unit_good:
  assumes ok: "base_ok s" and u: "map_of (sl_units s) (lu_id u) = Some u" "unit_ok u" and h: "holds_claim s u w e now"
    and w: "required_text w ''long task worker id'' = Inr (strip w)" and r: "LongTaskUnitResult_post_init r0 = Inr r"
    and run: "run = lu_run_id u \<or> (run = lr_run_id r \<and> run \<noteq> None \<and> lu_run_id u = None)"
    and free: "\<not> (case run of None \<Rightarrow> False | Some x \<Rightarrow> other_has_run s (lu_id u) x)"
  shows "good_step s (put_unit (completed_unit (strip w) run r u) s)" (is "good_step s (put_unit ?c s)")
proof -
  have cl: "clean_id (lr_output_ref r)" "clean_opt (lr_artifact_digest r)" "clean_opt (lr_run_id r)"
    using r by (auto simp: LongTaskUnitResult_post_init_def bind_result_Inr_iff dest: required_text_result_clean)
  have "clean_id (strip w)" using w by (rule required_text_result_clean)
  moreover have "clean_opt run" using run cl u(2) by (auto simp: unit_ok_def)
  ultimately have "unit_ok ?c" using u(2) cl by (simp add: completed_unit_def unit_ok_def unit_active_def)
  then have "unit_move (done_ids (sl_units s)) u ?c" "unit_evolves u ?c"
    using run h holds_claim_status [OF h]
    by (auto simp: completed_unit_def unit_move_def unit_evolves_def lease_discipline_def started_def unit_active_def holds_claim_def)
  moreover have "lu_run_id ?c = None \<or> lu_run_id ?c = lu_run_id u \<or> (\<exists>r. lu_run_id ?c = Some r \<and> \<not> other_has_run s (lu_id u) r)"
    using free by (cases run) (auto simp: completed_unit_def)
  ultimately show ?thesis using ok u(1) by (intro put_unit_step) (auto simp: completed_unit_def)
qed

lemma complete_unit_step:
  assumes ok: "task_ok s" and r: "LongTaskUnitResult_post_init r0 = Inr r"
  shows "full_step s (snd (complete_unit_stored i w e r now ts s))"
proof -
  have base: "base_ok s" and units: "units_ok (sl_units s)" using ok by (simp_all add: task_ok_def base_okD(2))
  have refl: "full_step s s" using ok by (rule full_step_refl)
  show ?thesis unfolding complete_unit_stored_def
  proof (rule snd_read_op [where P = "full_step s", OF refl])
    fix u assume u: "require_unit s i = Inr u"
    note q = require_unit_Inr [OF units u]
    let ?run = "if lr_run_id r \<noteq> None then lr_run_id r else lu_run_id u"
    let ?other = "\<lambda>s. (case ?run of None \<Rightarrow> False | Some run \<Rightarrow> other_has_run s (lu_id u) run)"
    let ?body = "\<lambda>s. if lu_run_id u \<noteq> None \<and> lr_run_id r \<noteq> None \<and> lr_run_id r \<noteq> lu_run_id u then
       (Inl (ContractViolation ''long_task_unit_run_conflict'' ''Unit result belongs to a different Run''), s)
     else let selected_run = ?run in
     if (case selected_run of None \<Rightarrow> False | Some run \<Rightarrow> other_has_run s (lu_id u) run) then
       (Inl (ContractViolation ''long_task_unit_run_conflict'' ''A Run cannot belong to two task Units''), s)
     else
     read_op (required_text w ''long task worker id'') s (\<lambda>worker.
     bind_op (refresh_totals (put_unit (completed_unit worker selected_run r u) s) ts) (\<lambda>_ s. (Inr (sl_record s), s)))"
    have body: "full_step s (snd (?body s))" if h: "holds_claim s u w e now" and w: "required_text w ''long task worker id'' = Inr (strip w)"
    proof (cases "?other s \<or> lu_run_id u \<noteq> None \<and> lr_run_id r \<noteq> None \<and> lr_run_id r \<noteq> lu_run_id u")
      case True
      then show ?thesis using refl by (elim disjE) (simp_all only: Let_def if_True snd_conv simp_thms if_cancel split: if_split)
    next
      case False
      then have free: "\<not> ?other s" and same: "\<not> (lu_run_id u \<noteq> None \<and> lr_run_id r \<noteq> None \<and> lr_run_id r \<noteq> lu_run_id u)" by blast+
      have "good_step s (put_unit (completed_unit (strip w) ?run r u) s)"
        by (rule complete_unit_good [OF base q(1,3) h w r _ free]) (use same in auto)
      then obtain s' where s': "refresh_totals (put_unit (completed_unit (strip w) ?run r u) s) ts = (Inr (), s')" "full_step s s'"
        by (rule put_refresh_full)
      have no: "?other s = False" using free by blast
      show ?thesis unfolding Let_def no if_False w read_op_def sum.case s'(1) bind_op.simps using s'(2) refl
        by (simp only: snd_conv simp_thms split: if_split)
    qed
    show "full_step s (snd (if lu_status u = Unit_COMPLETED then
       if lu_lease_epoch u \<noteq> e then (Inl lease_lost, s)
       else read_op (required_text w ''long task worker id'') s (\<lambda>worker.
         if lu_settled_by_worker_id u = Some worker \<and> matches_result u r then (Inr (sl_record s), s)
         else (Inl lease_lost, s))
      else bind_op (require_unit_claim s u w e now ts) (\<lambda>_ s. ?body s)))"
    proof (cases "lu_status u = Unit_COMPLETED")
      case True
      then show ?thesis using refl by (auto simp: read_op_def split: sum.splits)
    next
      case False
      have "full_step s (snd (bind_op (require_unit_claim s u w e now ts) (\<lambda>_ s. ?body s)))"
      proof (rule snd_bind_op [where P = "full_step s", OF require_unit_claim_step [OF ok]])
        show "full_step s (snd (?body t))" if "require_unit_claim s u w e now ts = (Inr x, t)" for x t
          using require_unit_claim_Inr [OF that] body by blast
      qed
      then show ?thesis using False by (simp only: if_False)
    qed
  qed
qed

lemma failed_unit_step:
  assumes ok: "base_ok s" and u: "map_of (sl_units s) (lu_id u) = Some u" "unit_ok u" and h: "holds_claim s u w e now"
    and d: "clean_id (fd_code d)"
  shows "good_step s (put_unit (failed_unit d u) s)"
proof -
  have "released u (failed_unit d u)" using holds_claim_status [OF h] d
    by (cases "fd_disposition d") (auto simp: released_def failed_unit_def started_def)
  note m = released_move [OF this u(2)]
  show ?thesis by (rule put_unit_step [OF ok u(1) _ m(1,2,3)]) (simp add: failed_unit_def, rule disjI2, rule disjI1, rule m(4))
qed

lemma release_active_full:
  assumes "task_ok s" and "clean_id reason"
  shows "full_step s (release_active_units s reason)"
proof -
  have "good_step s (release_active_units s reason)" unfolding release_active_units_def
    by (rule released_step) (use assms in \<open>auto simp: task_ok_def released_def started_def unit_active_def\<close>)
  moreover have "totals_ok (release_active_units s reason)" unfolding release_active_units_def
    by (rule map_units_totals) (use assms in \<open>auto simp: task_ok_def unit_active_def\<close>)
  ultimately show ?thesis by (simp add: full_step_def good_step_def task_ok_def)
qed

lemma settle_unit_failure_step:
  assumes ok: "task_ok s" and d: "clean_id (fd_code d)"
  shows "full_step s (snd (settle_unit_failure_stored i w e d now ts s))"
  unfolding settle_unit_failure_stored_def
proof (rule claimed_unit_op [OF ok])
  fix u assume u: "map_of (sl_units s) (lu_id u) = Some u" "unit_ok u" and h: "holds_claim s u w e now"
  let ?t = "put_unit (failed_unit d u) s" and ?target = "failure_target (fd_disposition d)"
  have base: "base_ok s" and tot: "totals_ok s" and units: "units_ok (sl_units s)" using ok by (simp_all add: task_ok_def base_okD(2))
  have step: "good_step s ?t" using base u h d by (rule failed_unit_step)
  have t: "base_ok ?t" using step by (simp add: good_step_def)
  have full: "full_step s ?t" if "?target \<noteq> Unit_FAILED"
  proof -
    have "?target \<noteq> Unit_COMPLETED" by (cases "fd_disposition d") auto
    then have "totals_ok ?t"
      using units tot u(1) that holds_claim_status [OF h] by (intro put_unit_totals) (auto simp: failed_unit_def)
    then show ?thesis using step by (simp add: full_step_def good_step_def task_ok_def)
  qed
  have "full_step s (snd (if ?target = Unit_CANCELED then (Inr (), cancel_units ?t ts)
        else if ?target = Unit_FAILED then fail_task ?t (lu_id u) ts
        else if ?target = Unit_BLOCKED \<and> (fd_scope d = Scope_SYSTEMIC \<or> \<not> has_runnable_work ?t now) then
          (Inr (), set_status (release_active_units ?t (fd_code d)) Task_PAUSED ts)
        else (Inr (), touch ?t ts)))"
  proof (cases "?target = Unit_FAILED")
    case True
    obtain s' where "fail_task ?t (lu_id u) ts = (Inr (), s')" "full_step ?t s'" using t by (rule fail_task_full)
    then show ?thesis using True good_full_trans [OF step] by simp
  next
    case False
    note f = full [OF False]
    then have t: "task_ok ?t" by (simp add: full_step_def)
    show ?thesis using False f full_step_trans [OF f cancel_units_full [OF t]] full_touch [OF f]
        full_set_status [OF full_step_trans [OF f release_active_full [OF t d]]] by simp
  qed
  then show "full_step s (snd (let target = ?target; s = ?t in
     bind_op
       (if target = Unit_CANCELED then (Inr (), cancel_units s ts)
        else if target = Unit_FAILED then fail_task s (lu_id u) ts
        else if target = Unit_BLOCKED \<and> (fd_scope d = Scope_SYSTEMIC \<or> \<not> has_runnable_work s now) then
          (Inr (), set_status (release_active_units s (fd_code d)) Task_PAUSED ts)
        else (Inr (), touch s ts)) (\<lambda>_ s. (Inr (sl_record s), s))))"
    unfolding Let_def snd_bind_return .
qed

lemma interrupt_step: "task_ok s \<Longrightarrow> full_step s (snd (interrupt_unit_stored i w e reason now ts s))"
  unfolding interrupt_unit_stored_def
proof (rule claimed_unit_op)
  fix u assume ok: "task_ok s" and u: "map_of (sl_units s) (lu_id u) = Some u" "unit_ok u" and h: "holds_claim s u w e now"
  have "full_step s (put_unit (u\<lparr>lu_status := Unit_PENDING, lu_max_attempts := lu_max_attempts u + 1,
           lu_worker_id := None, lu_lease_expires_at_ms := None, lu_error_code := Some x\<rparr>) s)" (is "full_step s (put_unit ?u s)")
    if "required_text reason ''interruption reason'' = Inr x" for x
  proof -
    have "released u ?u" using holds_claim_status [OF h] required_text_result_clean [OF that]
      by (simp add: released_def started_def)
    note m = released_move [OF this u(2)]
    show ?thesis using ok u(1) m holds_claim_status [OF h] by (intro put_unit_full) auto
  qed
  then show "full_step s (snd (read_op (required_text reason ''interruption reason'') s (\<lambda>reason.
     let s = set_status (put_unit (u\<lparr>lu_status := Unit_PENDING, lu_max_attempts := lu_max_attempts u + 1,
           lu_worker_id := None, lu_lease_expires_at_ms := None, lu_error_code := Some reason\<rparr>) s) Task_PAUSED ts
     in (Inr (sl_record s), s))))"
    using full_step_refl [OF ok] by (intro snd_read_op [where P = "full_step s"]) (simp_all add: Let_def full_set_status)
qed
section \<open>The lifecycle\<close>

lemma bind_run_step:
  assumes ok: "task_ok s" and run: "clean_id run" and rel: "relation \<noteq> Relation_CREATED"
  shows "full_step s (snd (bind_run_stored run relation s))"
proof (cases "map_of (sl_bindings s) run")
  case (Some b)
  then show ?thesis using full_step_refl [OF ok] by (simp add: bind_run_stored_def)
next
  case None
  have base: "base_ok s" using ok by (simp add: task_ok_def)
  let ?b = "\<lparr>lb_task_id = lt_id (sl_record s), lb_run_id = run, lb_relation = relation\<rparr>"
  let ?s = "s\<lparr>sl_bindings := AList.update run ?b (sl_bindings s)\<rparr>"
  have id: "clean_id (lt_id (sl_record s))" using base_okD(1) [OF base] by (simp add: record_ok_def)
  have call: "bind_run_stored run relation s = (Inr ?b, ?s)"
    using None id run by (simp add: bind_run_stored_def LongTaskRunBinding_post_init_def read_op_def)
  have b: "bindings_ok s" using base by (rule base_okD)
  have fresh: "run \<notin> fst ` set (sl_bindings s)" using None by (simp add: map_of_eq_None_iff)
  then have neq: "run \<noteq> lt_created_by_run_id (sl_record s)" using b by (auto simp: bindings_ok_def)
  have "AList.update run ?b (sl_bindings s) = sl_bindings s @ [(run, ?b)]" using fresh by (rule update_fresh)
  then have "bindings_ok ?s" using b neq rel fresh by (auto simp: bindings_ok_def)
  then have "base_ok ?s" using base by (intro base_okI) (auto simp: base_ok_def usage_ok_def required_units_def)
  moreover have "advances s ?s" using None by (auto simp: advances_def map_le_def)
  moreover have "totals_ok ?s" using ok by (simp add: task_ok_def totals_ok_def required_units_def)
  ultimately show ?thesis by (simp add: call full_step_def task_ok_def)
qed

lemma record_usage_step:
  assumes ok: "task_ok s" and u: "LongTaskUsage_post_init usage = Inr usage"
  shows "full_step s (snd (record_usage_stored run usage rv ts s))"
proof (cases "map_of (sl_usage_by_run s) run = None \<and> require_task_revision s rv = Inr ()")
  case False
  then show ?thesis using full_step_refl [OF ok]
    by (auto simp: record_usage_stored_def read_op_def split: option.splits sum.splits)
next
  case True
  have base: "base_ok s" and tot: "totals_ok s" using ok by (simp_all add: task_ok_def)
  let ?us = "AList.update run usage (sl_usage_by_run s)"
  let ?s = "s\<lparr>sl_usage_by_run := ?us, sl_record := (sl_record s)\<lparr>lt_usage := aggregate_usage (dict_values ?us)\<rparr>\<rparr>"
  have fresh: "run \<notin> fst ` set (sl_usage_by_run s)" using True by (simp add: map_of_eq_None_iff)
  then have app: "?us = sl_usage_by_run s @ [(run, usage)]" by (rule update_fresh)
  have "usage_ok ?s" using base_okD(5) [OF base] u fresh unfolding usage_ok_def app by auto
  moreover have "record_ok (sl_record ?s)" "bindings_ok ?s" using base_okD(1,4) [OF base] by (simp_all add: record_ok_def bindings_ok_def)
  ultimately have "base_ok ?s" using base by (intro base_okI) (auto simp: base_ok_def required_units_def)
  moreover have "advances s ?s" using True by (auto simp: advances_def map_le_def task_scope_def)
  ultimately have step: "good_step s ?s" "base_ok ?s" by (simp_all add: good_step_def)
  have "totals_ok ?s" using tot by (simp add: totals_ok_def required_units_def)
  then have full: "full_step s ?s" using step by (simp add: full_step_def good_step_def task_ok_def)
  have "full_step s (snd (case task_budget_exhaustion ?s True of
              Some budget_kind \<Rightarrow> fail_budget ?s budget_kind ts | None \<Rightarrow> (Inr (), touch ?s ts)))"
  proof (cases "task_budget_exhaustion ?s True")
    case None
    then show ?thesis using full_touch [OF full] by simp
  next
    case (Some kind)
    obtain s' where "fail_budget ?s kind ts = (Inr (), s')" "full_step ?s s'" using step(2) by (rule fail_budget_full)
    then show ?thesis using Some good_full_trans [OF step(1)] by simp
  qed
  then show ?thesis using True unfolding record_usage_stored_def read_op_def by (simp only: option.case sum.case Let_def snd_bind_return)
qed

lemma expire_full: "task_ok s \<Longrightarrow> full_step s (snd (expire_units s ts))"
  by (metis expire_units_full snd_conv task_ok_def)

lemma start_step: "task_ok s \<Longrightarrow> full_step s (snd (start_stored rv now ts s))"
  unfolding start_stored_def snd_bind_return
  by (auto simp: read_op_def expire_full cancel_units_full full_step_refl set_status_full split: sum.splits)

lemma expire_deadline_step: "task_ok s \<Longrightarrow> full_step s (snd (expire_deadline_stored now ts s))"
  unfolding expire_deadline_stored_def by (simp add: snd_bind_return expire_full full_step_refl)

lemma pause_reason_clean: "clean_id (text_or (Some (strip (str_or_empty v))) ''execution_paused'')"
  using clean_codes(5) by (auto simp: text_or_def str_or_empty_def clean_id_def clean_def)

lemma pause_step: "task_ok s \<Longrightarrow> full_step s (snd (pause_stored rv reason ts s))"
  unfolding pause_stored_def
  by (simp add: Let_def full_step_refl full_set_status [OF release_active_full] pause_reason_clean)

lemma resume_step:
  assumes ok: "task_ok s" and pos: "0 \<le> additional"
  shows "full_step s (snd (resume_stored additional ts s))"
proof -
  let ?targets = "filter recoverable (dict_values (sl_units s))"
  let ?blocked = "filter (\<lambda>u. lu_status u = Unit_BLOCKED) ?targets"
  define extra where "extra = (if ?blocked \<noteq> [] \<and> length ?blocked = length ?targets \<and> additional \<le> 0 then 1 else additional)"
  let ?f = "\<lambda>(k :: string) u. if recoverable u then u\<lparr>lu_status := Unit_PENDING, lu_max_attempts := lu_max_attempts u + extra,
                     lu_worker_id := None, lu_lease_expires_at_ms := None\<rparr> else u"
  have base: "base_ok s" and tot: "totals_ok s" using ok by (simp_all add: task_ok_def)
  have "0 \<le> extra" using pos by (simp add: extra_def)
  then have step: "good_step s (map_units ?f s)"
    by (intro released_step [OF base]) (auto simp: released_def started_def recoverable_def unit_ok_error_code)
  define t where "t = map_units ?f s"
  define t' where "t' = t\<lparr>sl_record := (sl_record t)\<lparr>lt_failed_units := 0\<rparr>\<rparr>"
  have tb: "base_ok t" using step by (simp add: good_step_def t_def)
  have rec: "good_step t t'" unfolding t'_def
    by (rule record_change [OF tb]) (use base_okD(1) [OF tb] in \<open>auto simp: record_ok_def task_scope_def\<close>)
  have req: "required_units t = map (\<lambda>(k, u). ?f k u) (filter (\<lambda>(k, u). lu_required u) (sl_units s))"
    unfolding t_def by (rule required_units_map) simp
  have "length (required_units t) = length (required_units s)" by (simp add: req required_units_alt [of s])
  moreover have "length (filter (\<lambda>u. lu_status u = Unit_COMPLETED) (required_units t))
      = length (filter (\<lambda>u. lu_status u = Unit_COMPLETED) (required_units s))"
    unfolding req required_units_alt [of s] filter_map length_map
    by (intro arg_cong [of _ _ length] filter_cong) (auto simp: recoverable_def split: if_splits)
  moreover have "filter (\<lambda>u. lu_status u = Unit_FAILED) (required_units t) = []"
    unfolding req by (auto simp: filter_empty_conv recoverable_def)
  ultimately have "totals_ok t'" using tot by (simp add: totals_ok_def t'_def t_def)
  then have "task_ok t'" "full_step s t'"
    using step rec unfolding full_step_def good_step_def task_ok_def t_def [symmetric] by (auto intro: advances_trans)
  then have fin: "full_step s (set_status t' Task_RUNNING ts)" by (intro full_set_status)
  show ?thesis unfolding resume_stored_def Let_def extra_def [symmetric]
    using fin full_step_refl [OF ok] by (simp add: t'_def t_def)
qed

lemma cancel_step: "task_ok s \<Longrightarrow> full_step s (snd (cancel_stored ts s))"
  unfolding cancel_stored_def by (simp add: Let_def full_step_refl cancel_units_full)

lemma request_cancel_step:
  assumes ok: "task_ok s"
  shows "full_step s (snd (request_cancel_stored at now ts s))"
proof (cases "task_terminal (lt_status (sl_record s)) \<or> lt_cancellation_requested_at_ms (sl_record s) \<noteq> None")
  case True
  then show ?thesis using full_step_refl [OF ok] by (auto simp: request_cancel_stored_def)
next
  case False
  let ?r = "(sl_record s)\<lparr>lt_cancellation_requested_at_ms := Some (case at of None \<Rightarrow> now | Some n \<Rightarrow> n)\<rparr>"
  have base: "base_ok s" and tot: "totals_ok s" using ok by (simp_all add: task_ok_def)
  show ?thesis
  proof (cases "LongTaskRecord_post_init ?r")
    case (Inl e)
    then show ?thesis using False full_step_refl [OF ok] by (simp add: request_cancel_stored_def read_op_def)
  next
    case (Inr r)
    then have rok: "record_ok r" by (rule LongTaskRecord_post_init_ok)
    then have "record_ok ?r" using base_okD(1) [OF base] Inr
      by (auto simp: record_ok_def LongTaskRecord_post_init_def bind_result_Inr_iff split: if_splits)
    then have eq: "r = ?r" using Inr record_ok_post_init by fastforce
    have "good_step s (s\<lparr>sl_record := r\<rparr>)" by (rule record_change [OF base rok]) (simp_all add: eq task_scope_def)
    moreover have "totals_ok (s\<lparr>sl_record := r\<rparr>)" using tot by (simp add: totals_ok_def eq)
    ultimately have "full_step s (s\<lparr>sl_record := r\<rparr>)" by (simp add: full_step_def good_step_def task_ok_def)
    then show ?thesis using False Inr by (simp add: request_cancel_stored_def read_op_def Let_def full_touch)
  qed
qed

lemma stranded_unit_step:
  assumes base: "base_ok s" and f: "find (\<lambda>u. lu_status u \<noteq> Unit_COMPLETED) (required_units s) = Some u"
  shows "good_step s (put_unit (u\<lparr>lu_status := Unit_FAILED, lu_worker_id := None, lu_lease_expires_at_ms := None,
    lu_error_code := Some (text_or (lu_error_code u) ''long_task_no_runnable_work'')\<rparr>) s)" (is "good_step s (put_unit ?u s)")
proof -
  have units: "units_ok (sl_units s)" using base by (rule base_okD(2))
  have "u \<in> set (dict_values (sl_units s))" "lu_status u \<noteq> Unit_COMPLETED" "lu_required u"
    using find_in [OF f] by (auto simp: required_units_def)
  note v = in_values [OF units this(1)] this(2)
  have ne: "lu_status u \<noteq> Unit_EXPANDED" using v(1) \<open>lu_required u\<close> by (auto simp: unit_ok_def)
  have "released u ?u" using v ne by (auto simp: released_def started_def text_or_clean unit_ok_error_code)
  note m = released_move [OF this conjunct2 [OF conjunct2 [OF v(1)]]]
  show ?thesis
    by (rule put_unit_step [OF base conjunct1 [OF conjunct2 [OF v(1)]] _ m(1,2,3)]) (simp, rule disjI2, rule disjI1, rule m(4))
qed

lemma finalize_step:
  assumes ok: "task_ok s"
  shows "full_step s (snd (finalize_stored now ts s))"
proof -
  have base: "base_ok s" using ok by (simp add: task_ok_def)
  have stranded: "full_step s (snd (fail_task (put_unit (u\<lparr>lu_status := Unit_FAILED, lu_worker_id := None,
                 lu_lease_expires_at_ms := None,
                 lu_error_code := Some (text_or (lu_error_code u) ''long_task_no_runnable_work'')\<rparr>) s) (lu_id u) ts))"
    (is "full_step s (snd (fail_task (put_unit ?u s) _ _))")
    if f: "find (\<lambda>u. lu_status u \<noteq> Unit_COMPLETED) (required_units s) = Some u" for u
  proof -
    have step: "good_step s (put_unit ?u s)" using base f by (rule stranded_unit_step)
    then have "base_ok (put_unit ?u s)" by (simp add: good_step_def)
    then obtain s' where "fail_task (put_unit ?u s) (lu_id u) ts = (Inr (), s')" "full_step (put_unit ?u s) s'" by (rule fail_task_full)
    then show ?thesis using good_full_trans [OF step] by simp
  qed
  show ?thesis unfolding finalize_stored_def snd_bind_return Let_def
    using stranded ok
    by (auto simp: expire_full cancel_units_full full_step_refl set_status_full split: option.splits)
qed

lemma recover_step: "task_ok s \<Longrightarrow> clean_id reason \<Longrightarrow> full_step s (snd (recover_stored reason wall ts s))"
  unfolding recover_stored_def
  by (simp add: full_step_refl cancel_units_full full_set_status [OF release_active_full])

end
