(* ===== verification/Long_Task_Split.thy ===== *)
theory Long_Task_Split
  imports Long_Task_Operations
begin

text \<open>
  Replacing a unit by the children it is split into: the children are new pending units,
  dependants of the split unit wait for the replacement, and the invariant is kept.
\<close>

section \<open>Splitting a unit\<close>

definition unit_spec_ok :: "long_task_unit_spec \<Rightarrow> bool" where
  "unit_spec_ok c \<longleftrightarrow> clean_id (ls_id c) \<and> (\<exists>key. ls_semantic_key c = Some key \<and> clean_id key)
     \<and> 0 \<le> ls_position c \<and> 0 < ls_max_attempts c \<and> clean_ids (ls_dependencies c)
     \<and> clean_opt (ls_parent_unit_id c) \<and> clean_opt (ls_input_ref c)"

lemma LongTaskUnitSpec_post_init_ok:
  "LongTaskUnitSpec_post_init c0 = Inr c \<Longrightarrow> unit_spec_ok c"
  by (auto simp: LongTaskUnitSpec_post_init_def unit_spec_ok_def bind_result_Inr_iff normalizer_Inr Let_def
      dest: required_text_result_clean split: if_splits)

text \<open>A unit made from a checked specification: pending, with the identity of the specification.\<close>

definition fresh_unit :: "string \<Rightarrow> long_task_unit_spec \<Rightarrow> long_task_unit_record \<Rightarrow> bool" where
  "fresh_unit task_id c u \<longleftrightarrow> unit_ok u \<and> lu_task_id u = task_id \<and> lu_id u = ls_id c \<and> lu_position u = ls_position c
     \<and> lu_semantic_key u = ls_semantic_key c \<and> lu_required u = ls_required c \<and> lu_status u = Unit_PENDING
     \<and> lu_run_id u = None"

lemma unit_from_spec_fresh:
  assumes "unit_spec_ok c" and "clean_id task_id" and "unit_from_spec task_id c ts = Inr u"
  shows "fresh_unit task_id c u" and "lu_dependencies u = ls_dependencies c"
  using assms
  by (auto simp: unit_from_spec_def LongTaskUnitRecord_post_init_def bind_result_Inr_iff normalizer_Inr fresh_unit_def
      unit_ok_def unit_spec_ok_def key_or_id_def str_or_empty_def unit_active_def clean_id_def)

lemma split_child_fresh:
  assumes "unit_spec_ok c" and "clean_id task_id" and "split_child task_id parent ts c = Inr e"
  shows "fst e = ls_id c" and "fresh_unit task_id c (snd e)"
proof -
  let ?d = "dict_fromkeys (lu_dependencies parent @ ls_dependencies c)"
  let ?c = "c\<lparr>ls_dependencies := ?d, ls_parent_unit_id := Some (text_or (ls_parent_unit_id c) (lu_id parent))\<rparr>"
  obtain c' u where c': "LongTaskUnitSpec_post_init ?c = Inr c'" "unit_from_spec task_id c' ts = Inr u" "e = (ls_id c, u)"
    using assms(3) by (auto simp: split_child_def bind_result_Inr_iff Let_def split: if_splits)
  have "ls_id c' = ls_id c" "ls_semantic_key c' = ls_semantic_key c" "ls_position c' = ls_position c" "ls_required c' = ls_required c"
    using c'(1) assms(1) by (auto simp: LongTaskUnitSpec_post_init_def unit_spec_ok_def bind_result_Inr_iff normalizer_Inr Let_def
        key_or_id_def str_or_empty_def clean_id_def required_text_Inr split: if_splits)
  then show "fst e = ls_id c" "fresh_unit task_id c (snd e)"
    using unit_from_spec_fresh(1) [OF LongTaskUnitSpec_post_init_ok [OF c'(1)] assms(2) c'(2)] c'(3)
    by (simp_all add: fresh_unit_def)
qed

definition fresh_units :: "string \<Rightarrow> long_task_unit_spec list \<Rightarrow> (string, long_task_unit_record) dict \<Rightarrow> bool" where
  "fresh_units task_id specs units \<longleftrightarrow> list_all2 (\<lambda>c e. fst e = ls_id c \<and> fresh_unit task_id c (snd e)) specs units"

lemma fresh_unitsD:
  assumes "fresh_units task_id specs units"
  shows "map fst units = map ls_id specs" and "map lu_semantic_key (dict_values units) = map ls_semantic_key specs"
    and "map lu_required (dict_values units) = map ls_required specs"
    and "(k, u) \<in> set units \<Longrightarrow> k = lu_id u \<and> unit_ok u \<and> lu_task_id u = task_id \<and> lu_status u = Unit_PENDING \<and> lu_run_id u = None"
  using assms unfolding fresh_units_def
  by (induction rule: list_all2_induct) (auto simp: fresh_unit_def)

lemma dict_merge_fresh:
  assumes "distinct (map fst b)" and "fst ` set a \<inter> fst ` set b = {}"
  shows "dict_merge a b = a @ b"
  using assms
proof (induction b arbitrary: a)
  case (Cons e b)
  have "dict_merge (a @ [e]) b = (a @ [e]) @ b" using Cons.prems by (intro Cons.IH) auto
  then show ?case using Cons.prems by (cases e) (auto simp: dict_merge_def update_fresh)
qed (simp add: dict_merge_def)

text \<open>Dependants of the split unit wait for the replacement instead.\<close>

definition redirected :: "string \<Rightarrow> string list \<Rightarrow> string \<Rightarrow> long_task_unit_record \<Rightarrow> long_task_unit_record" where
  "redirected p replacement k u = (if k = p \<or> p \<notin> set (lu_dependencies u) then u
     else u\<lparr>lu_dependencies := dict_fromkeys (concat (map (\<lambda>d. if d = p then replacement else [d]) (lu_dependencies u)))\<rparr>)"

lemma redirect_units_Inr:
  "map_result (redirect_unit p replacement) units = Inr units' \<Longrightarrow> units' = map_dict (redirected p replacement) units"
  by (induction units arbitrary: units')
     (auto simp: bind_result_Inr_iff redirect_unit_def redirected_def split: if_splits)

lemma redirected_ok:
  assumes "unit_ok u" and "clean_ids replacement"
  shows "unit_ok (redirected p replacement k u)"
proof -
  have "clean_ids (dict_fromkeys (concat (map (\<lambda>d. if d = p then replacement else [d]) (lu_dependencies u))))"
    using assms by (auto simp: clean_ids_def unit_ok_def)
  then show ?thesis using assms(1) by (auto simp: redirected_def unit_ok_def unit_active_def)
qed

lemma redirected_sel [simp]:
  "lu_task_id (redirected p q k u) = lu_task_id u" "lu_id (redirected p q k u) = lu_id u"
  "lu_position (redirected p q k u) = lu_position u" "lu_semantic_key (redirected p q k u) = lu_semantic_key u"
  "lu_status (redirected p q k u) = lu_status u" "lu_required (redirected p q k u) = lu_required u"
  "lu_run_id (redirected p q k u) = lu_run_id u" "started (redirected p q k u) = started u"
  by (simp_all add: redirected_def started_def)

lemma redirected_evolves: "unit_evolves u (redirected p q k u)"
  by (simp add: redirected_def unit_evolves_def lease_discipline_def unit_active_def)
lemma done_idsI: "(k, u) \<in> set units \<Longrightarrow> lu_status u = Unit_COMPLETED \<Longrightarrow> lu_id u \<in> done_ids units"
  unfolding done_ids_def by (intro imageI CollectI conjI) (auto intro: rev_image_eqI)

text \<open>The state after a split, with its totals still to be refreshed.\<close>

lemma split_units_ok:
  assumes ok: "units_ok units" and parent: "(p, parent) \<in> set units" "unit_active parent"
    and fresh: "fresh_units task_id children added" and q: "clean_ids q"
    and ids: "distinct (map fst (units @ added))" and keys: "distinct (map lu_semantic_key (dict_values (units @ added)))"
    and acyc: "orderable (unit_graph (map_dict (redirected p q) (units @ added)))"
    and e: "unit_ok e" "lu_id e = p" "lu_semantic_key e = lu_semantic_key parent" "lu_dependencies e = lu_dependencies parent"
      "lu_run_id e = lu_run_id parent" "lu_status e = Unit_EXPANDED"
    and g: "g = (\<lambda>k u. if k = p then e else redirected p q k u)"
  shows "units_ok (map_dict g (units @ added))"
proof -
  let ?all = "units @ added"
  have p: "u = parent" if "(p, u) \<in> set ?all" for u
  proof (rule eq_key_imp_eq_value [OF ids that])
    show "(p, parent) \<in> set ?all" using parent(1) by simp
  qed
  have old: "k = lu_id u" "unit_ok u" if "(k, u) \<in> set ?all" for k u
    using that units_okD(2,3) [OF ok] fresh_unitsD(4) [OF fresh] by auto
  have key: "lu_semantic_key (g k u) = lu_semantic_key u" "lu_run_id (g k u) = lu_run_id u" "lu_id (g k u) = lu_id u"
      "lu_dependencies (g k u) = lu_dependencies (redirected p q k u)" if "(k, u) \<in> set ?all" for k u
  proof -
    have "k = lu_id u" by (rule old(1) [OF that])
    moreover have "k = p \<Longrightarrow> u = parent" using p that by blast
    ultimately show "lu_semantic_key (g k u) = lu_semantic_key u" "lu_run_id (g k u) = lu_run_id u" "lu_id (g k u) = lu_id u"
      "lu_dependencies (g k u) = lu_dependencies (redirected p q k u)"
      using e by (cases "k = p"; simp add: g redirected_def)+
  qed
  have graph: "unit_graph (map_dict g ?all) = unit_graph (map_dict (redirected p q) ?all)"
    unfolding unit_graph_def using key by (auto simp: case_prod_beta)
  have same_keys: "map lu_semantic_key (dict_values (map_dict g ?all)) = map lu_semantic_key (dict_values ?all)"
    by (rule map_dict_field) (rule key(1))
  have runs: "k = j" if "(k, u) \<in> set ?all" "(j, v) \<in> set ?all" "lu_run_id u = Some r" "lu_run_id v = Some r" for k u j v r
    using that units_okD(6) [OF ok] fresh_unitsD(4) [OF fresh] by fastforce
  have pd: "p \<notin> done_ids units"
  proof
    assume "p \<in> done_ids units"
    then obtain k u where u: "(k, u) \<in> set units" "lu_status u = Unit_COMPLETED" "p = lu_id u" by (auto simp: done_ids_def)
    then have "(p, u) \<in> set ?all" using units_okD(2) [OF ok u(1)] by simp
    then show False using p u(2) parent(2) by (auto simp: unit_active_def)
  qed
  have kept: "done_ids units \<subseteq> done_ids (map_dict g ?all)"
  proof
    fix i assume i: "i \<in> done_ids units"
    then obtain k u where u: "(k, u) \<in> set units" "lu_status u = Unit_COMPLETED" "i = lu_id u" by (auto simp: done_ids_def)
    then have "k \<noteq> p" using pd i units_okD(2) [OF ok] by blast
    then have "(k, redirected p q k u) \<in> set (map_dict g ?all)" using u(1) by (force simp: g)
    then have "lu_id (redirected p q k u) \<in> done_ids (map_dict g ?all)" by (rule done_idsI) (simp add: u(2))
    then show "i \<in> done_ids (map_dict g ?all)" by (simp add: u(3))
  qed
  show ?thesis unfolding units_ok_def map_dict_fst graph
  proof (intro conjI ballI)
    show "distinct (map fst ?all)" "orderable (unit_graph (map_dict (redirected p q) ?all))" by (rule ids acyc)+
    show "distinct (map lu_semantic_key (dict_values (map_dict g ?all)))"
      unfolding same_keys by (rule keys)
  next
    fix x assume "x \<in> set (map_dict g ?all)"
    then obtain k u where x: "x = (k, g k u)" "(k, u) \<in> set ?all" by auto
    show "case x of (k, u) \<Rightarrow> k = lu_id u \<and> unit_ok u"
      using old [OF x(2)] key(3) [OF x(2)] redirected_ok q e(1) by (simp add: x(1) g)
    show "case x of (k, u) \<Rightarrow> started u \<longrightarrow> set (lu_dependencies u) \<subseteq> done_ids (map_dict g ?all)"
    proof (unfold x(1) prod.case, rule impI)
      assume st: "started (g k u)"
      then have k: "k \<noteq> p" "started u" using e(6) by (auto simp: g started_def split: if_splits)
      then have "(k, u) \<in> set units" using x(2) fresh_unitsD(4) [OF fresh] by (auto simp: started_def)
      then have d: "set (lu_dependencies u) \<subseteq> done_ids units" using units_okD(5) [OF ok] k(2) by blast
      then have "g k u = u" using k(1) pd by (auto simp: g redirected_def)
      then show "set (lu_dependencies (g k u)) \<subseteq> done_ids (map_dict g ?all)" using d kept by simp
    qed
    show "case x of (k, u) \<Rightarrow> \<forall>(j, v) \<in> set (map_dict g ?all). lu_run_id u \<noteq> None \<and> lu_run_id u = lu_run_id v \<longrightarrow> k = j"
      unfolding x(1) prod.case
    proof
      fix y assume "y \<in> set (map_dict g ?all)"
      then obtain j v where y: "y = (j, g j v)" "(j, v) \<in> set ?all" by (auto simp del: set_append map_append)
      show "case y of (j, w) \<Rightarrow> lu_run_id (g k u) \<noteq> None \<and> lu_run_id (g k u) = lu_run_id w \<longrightarrow> k = j"
        using runs [OF x(2) y(2)] key(2) [OF x(2)] key(2) [OF y(2)]
        by (cases "lu_run_id v") (auto simp: y(1))
    qed
  qed
qed
lemma expanded_unit_sel [simp]:
  "lu_id (expanded_unit w d u) = lu_id u" "lu_task_id (expanded_unit w d u) = lu_task_id u"
  "lu_semantic_key (expanded_unit w d u) = lu_semantic_key u" "lu_dependencies (expanded_unit w d u) = lu_dependencies u"
  "lu_run_id (expanded_unit w d u) = lu_run_id u" "lu_status (expanded_unit w d u) = Unit_EXPANDED"
  "lu_required (expanded_unit w d u) = False"
  by (simp_all add: expanded_unit_def)

lemma expanded_unit_ok:
  "unit_ok u \<Longrightarrow> unit_active u \<Longrightarrow> clean_id w \<Longrightarrow> clean_id (fd_code d) \<Longrightarrow> unit_ok (expanded_unit w d u)"
  by (simp add: expanded_unit_def unit_ok_def unit_active_def)

lemma expanded_unit_evolves: "unit_active u \<Longrightarrow> lu_worker_id u = Some w \<Longrightarrow> unit_evolves u (expanded_unit w d u)"
  by (auto simp: expanded_unit_def unit_evolves_def lease_discipline_def unit_active_def)

text \<open>What a split of a checked result leaves.\<close>

lemma prospective_units_Inr:
  assumes split: "LongTaskSplitResult_post_init p0 = Inr split" and specs: "\<forall>c \<in> set (lp_children split). unit_spec_ok c"
    and tid: "clean_id (lt_id (sl_record s))" and ok: "units_ok (sl_units s)"
    and r: "prospective_units s parent split ts = Inr units'"
  obtains added where "fresh_units (lt_id (sl_record s)) (lp_children split) added"
    "units' = map_dict (redirected (lu_id parent) (lp_replacement_dependency_ids split)) (sl_units s @ added)"
    "distinct (map fst (sl_units s @ added))" "distinct (map lu_semantic_key (dict_values (sl_units s @ added)))"
    "orderable (unit_graph units')"
proof -
  let ?c = "lp_children split"
  have c: "distinct (map ls_id ?c)" "distinct (map ls_semantic_key ?c)"
    using split by (auto simp: LongTaskSplitResult_post_init_def Let_def split: if_splits)
  obtain added where added: "map_result (split_child (lt_id (sl_record s)) parent ts) ?c = Inr added"
    and red: "map_result (redirect_unit (lu_id parent) (lp_replacement_dependency_ids split)) (dict_merge (sl_units s) added) = Inr units'"
    and acyc: "require_acyclic units' = Inr ()"
    and fresh: "set (map fst (sl_units s)) \<inter> set (map ls_id ?c) = {}"
      "set (map lu_semantic_key (dict_values (sl_units s))) \<inter> set (map ls_semantic_key ?c) = {}"
    using r unfolding prospective_units_def Let_def bind_result_Inr_iff if_Inl_eq_Inr
    by (elim conjE exE) (rule that, simp_all)
  have fu: "fresh_units (lt_id (sl_record s)) ?c added"
    unfolding fresh_units_def
    using specs tid
    by (intro list.rel_mono_strong [OF added [unfolded map_result_Inr_iff]]) (auto dest: split_child_fresh)
  note keys = fresh_unitsD(1,2) [OF fu]
  have ids: "distinct (map fst (sl_units s @ added))" using keys(1) c(1) fresh(1) units_okD(1) [OF ok] by simp
  have sem: "distinct (map lu_semantic_key (dict_values (sl_units s @ added)))"
    using keys(2) c(2) fresh(2) units_okD(4) [OF ok] by (simp only: map_append distinct_append)
  have "dict_merge (sl_units s) added = sl_units s @ added" using ids by (intro dict_merge_fresh) auto
  then have "units' = map_dict (redirected (lu_id parent) (lp_replacement_dependency_ids split)) (sl_units s @ added)"
    using redirect_units_Inr [OF red] by simp
  moreover have "orderable (unit_graph units')" using acyc by (simp add: require_acyclic_def split: if_splits)
  ultimately show ?thesis using that fu ids sem by blast
qed

text \<open>
  The source does not check that a task keeps a required unit when one is split: it does if the
  split has a required child or another unit of the task is required.
\<close>

definition keeps_required :: "stored_long_task \<Rightarrow> string \<Rightarrow> long_task_split_result \<Rightarrow> bool" where
  "keeps_required s k split \<longleftrightarrow> list_ex ls_required (lp_children split) \<or> list_ex (\<lambda>u. lu_id u \<noteq> k) (required_units s)"

lemma expand_good:
  assumes ok: "base_ok s" and split: "LongTaskSplitResult_post_init p0 = Inr split"
    and specs: "\<forall>c \<in> set (lp_children split). unit_spec_ok c" and req: "keeps_required s (lu_id parent) split"
    and parent: "(lu_id parent, parent) \<in> set (sl_units s)" "unit_active parent"
    and w: "clean_id w" "lu_worker_id parent = Some w" and d: "clean_id (fd_code d)"
    and r: "prospective_units s parent split ts = Inr units'"
  shows "good_step s (put_unit (expanded_unit w d parent) (s\<lparr>sl_units := units'\<rparr>))" (is "good_step s ?t")
proof -
  let ?p = "lu_id parent" and ?q = "lp_replacement_dependency_ids split"
  define g where "g = (\<lambda>k u. if k = ?p then expanded_unit w d parent else redirected ?p ?q k u)"
  have units: "units_ok (sl_units s)" and tid: "clean_id (lt_id (sl_record s))"
    using ok base_okD(1) [OF ok] by (simp_all add: base_okD(2) record_ok_def)
  obtain added where fu: "fresh_units (lt_id (sl_record s)) (lp_children split) added"
    and u': "units' = map_dict (redirected ?p ?q) (sl_units s @ added)" and ids: "distinct (map fst (sl_units s @ added))"
    and sem: "distinct (map lu_semantic_key (dict_values (sl_units s @ added)))" and acyc: "orderable (unit_graph units')"
    by (rule prospective_units_Inr [OF split specs tid units r])
  let ?all = "sl_units s @ added"
  have q: "clean_ids ?q" using split by (auto simp: LongTaskSplitResult_post_init_def Let_def split: if_splits)
  have pid: "map_of (sl_units s) ?p = Some parent" using units_okD(1) [OF units] parent(1) by (simp add: map_of_is_SomeI)
  have e_ok: "unit_ok (expanded_unit w d parent)"
    using units_okD(3) [OF units parent(1)] parent(2) w(1) d by (rule expanded_unit_ok)
  have "AList.update ?p (expanded_unit w d parent) units' = map_dict (\<lambda>k u. if k = ?p then expanded_unit w d parent else u) units'"
    using ids map_of_key [OF pid] unfolding u' by (intro update_as_map_dict) (simp_all only: map_dict_fst set_append image_Un Un_iff simp_thms)
  then have t: "sl_units ?t = map_dict g ?all"
    by (simp add: put_unit_def u' g_def case_prod_beta comp_def)
  have uok: "units_ok (map_dict g ?all)"
    using e_ok by (intro split_units_ok [OF units parent fu q ids sem acyc [unfolded u']]) (simp_all add: g_def)
  have rest: "sl_record ?t = sl_record s" "sl_bindings ?t = sl_bindings s" "sl_usage_by_run ?t = sl_usage_by_run s"
    by (simp_all add: put_unit_def)
  have ev: "unit_evolves u (g k u)" if "map_of (sl_units s) k = Some u" for k u
    using that pid expanded_unit_evolves [OF parent(2) w(2)] redirected_evolves by (auto simp: g_def)
  have adv: "advances s ?t" unfolding advances_def rest t map_of_map_dict
    using ev by (intro conjI allI impI) (auto simp: map_of_append map_add_Some_iff simp del: map_append split: option.splits
        dest!: map_of_SomeD intro: ids)
  have "base_ok ?t"
  proof (rule base_okI)
    show "record_ok (sl_record ?t)" "bindings_ok ?t" "usage_ok ?t"
      unfolding bindings_ok_def usage_ok_def rest
      by (rule base_okD(1,4,5) [OF ok, unfolded bindings_ok_def usage_ok_def])+
    show "units_ok (sl_units ?t)" unfolding t by (rule uok)
    show "\<forall>u \<in> set (dict_values (sl_units ?t)). lu_task_id u = lt_id (sl_record ?t)"
    proof -
      have "lu_task_id u = lt_id (sl_record s)" if "(k, u) \<in> set ?all" for k u
        using that base_okD(3) [OF ok] fresh_unitsD(4) [OF fu] by fastforce
      note this [of ?p parent] this
      then have "lu_task_id (g k u) = lt_id (sl_record s)" if "(k, u) \<in> set ?all" for k u
        using that parent(1) by (simp add: g_def)
      then show ?thesis unfolding t rest by (auto simp del: set_append map_append)
    qed
    show "required_units ?t \<noteq> []"
    proof -
      obtain k c where c: "(k, c) \<in> set ?all" "lu_required c" "k \<noteq> ?p"
      proof (cases "list_ex ls_required (lp_children split)")
        case True
        then have "True \<in> set (map lu_required (dict_values added))"
          unfolding fresh_unitsD(3) [OF fu] by (auto simp: list_ex_iff)
        then obtain k c where "(k, c) \<in> set added" "lu_required c" by auto
        moreover from this have "k \<noteq> ?p" using ids map_of_key [OF pid] by force
        ultimately show ?thesis using that [of k c] by simp
      next
        case False
        then obtain c where "c \<in> set (required_units s)" "lu_id c \<noteq> ?p" using req by (auto simp: keeps_required_def list_ex_iff)
        moreover from this have "(lu_id c, c) \<in> set (sl_units s)" using units_okD(2) [OF units] by (force simp: required_units_def)
        ultimately show ?thesis using that [of "lu_id c" c] by (auto simp: required_units_def)
      qed
      then have "(k, redirected ?p ?q k c) \<in> set (map_dict g ?all)" by (force simp: g_def)
      then have "redirected ?p ?q k c \<in> set (filter lu_required (dict_values (map_dict g ?all)))"
        using c(2) by (auto simp del: set_append map_append intro: rev_image_eqI)
      then show ?thesis unfolding required_units_def t by (metis empty_iff empty_set)
    qed
  qed
  then show ?thesis using adv by (simp add: good_step_def)
qed
lemma expand_step:
  assumes ok: "task_ok s" and split: "LongTaskSplitResult_post_init p0 = Inr split"
    and specs: "\<forall>c \<in> set (lp_children split). unit_spec_ok c" and req: "keeps_required s (strip i) split"
    and d: "clean_id (fd_code d)"
  shows "full_step s (snd (expand_unit_stored i w e split d now ts s))"
proof -
  have base: "base_ok s" and units: "units_ok (sl_units s)" using ok by (simp_all add: task_ok_def base_okD(2))
  have refl: "full_step s s" using ok by (rule full_step_refl)
  let ?body = "\<lambda>parent s. read_op (prospective_units s parent split ts) s (\<lambda>prospective.
     read_op (required_text w ''long task worker id'') s (\<lambda>worker.
     bind_op (refresh_totals (put_unit (expanded_unit worker d parent) (s\<lparr>sl_units := prospective\<rparr>)) ts) (\<lambda>_ s.
     (Inr (sl_record s), s))))"
  have body: "full_step s (snd (?body parent s))"
    if q: "(lu_id parent, parent) \<in> set (sl_units s)" and h: "holds_claim s parent w e now" and i: "lu_id parent = strip i" for parent
  proof (intro snd_read_op [where P = "full_step s", OF refl])
    fix units' worker
    assume u': "prospective_units s parent split ts = Inr units'" and worker: "required_text w ''long task worker id'' = Inr worker"
    have "good_step s (put_unit (expanded_unit worker d parent) (s\<lparr>sl_units := units'\<rparr>))" (is "good_step s ?t")
      using h worker required_text_result_clean [OF worker]
      by (intro expand_good [OF base split specs req [folded i] q _ _ _ d u']) (simp_all add: holds_claim_def required_text_Inr)
    then obtain t where "refresh_totals ?t ts = (Inr (), t)" "full_step s t"
      by (metis refresh_totals_full good_step_def good_full_trans)
    then show "full_step s (snd (bind_op (refresh_totals ?t ts) (\<lambda>_ s. (Inr (sl_record s), s))))" by simp
  qed
  show ?thesis unfolding expand_unit_stored_def
  proof (rule snd_read_op [where P = "full_step s", OF refl])
    fix parent assume u: "require_unit s i = Inr parent"
    have "full_step s (snd (bind_op (require_unit_claim s parent w e now ts) (\<lambda>_ s. ?body parent s)))"
    proof (rule snd_bind_op [where P = "full_step s", OF require_unit_claim_step [OF ok]])
      show "full_step s (snd (?body parent t))" if "require_unit_claim s parent w e now ts = (Inr x, t)" for x t
        using require_unit_claim_Inr [OF that] body require_unit_Inr(2,4) [OF units u] by blast
    qed
    then show "full_step s (snd (if lu_status parent = Unit_EXPANDED then
       if lu_lease_epoch parent \<noteq> e then (Inl lease_lost, s)
       else read_op (required_text w ''long task worker id'') s (\<lambda>worker.
         if lu_settled_by_worker_id parent = Some worker then (Inr (sl_record s), s) else (Inl lease_lost, s))
      else bind_op (require_unit_claim s parent w e now ts) (\<lambda>_ s. ?body parent s)))"
      using refl by (auto simp: read_op_def split: sum.splits)
  qed
qed

end
