(* ===== verification/Long_Task_Machine.thy ===== *)
theory Long_Task_Machine
  imports Long_Task_Split
begin

text \<open>
  The durable task store as a machine whose events are the calls of its port. Every sequence of
  calls keeps the invariant of every task and only moves the tasks forward.
\<close>

section \<open>Constructed values\<close>

lemma constructed_spec_ok: "constructed LongTaskUnitSpec_post_init c \<Longrightarrow> unit_spec_ok c"
  unfolding constructed_def by (rule LongTaskUnitSpec_post_init_ok)

definition specs_ok :: "long_task_unit_spec list \<Rightarrow> bool" where
  "specs_ok cs \<longleftrightarrow> list_all (constructed LongTaskUnitSpec_post_init) cs"

lemma specs_okD: "specs_ok cs \<Longrightarrow> \<forall>c \<in> set cs. unit_spec_ok c"
  by (simp add: specs_ok_def list_all_iff constructed_spec_ok)

definition create_cmd_ok :: "long_task_create_command \<Rightarrow> bool" where
  "create_cmd_ok c \<longleftrightarrow> constructed LongTaskCreateCommand_post_init c \<and> specs_ok (lc_units c)"

definition split_ok :: "long_task_split_result \<Rightarrow> bool" where
  "split_ok p \<longleftrightarrow> constructed LongTaskSplitResult_post_init p \<and> specs_ok (lp_children p) \<and> list_ex ls_required (lp_children p)"

lemma decision_code: "constructed FailureDecision_post_init d \<Longrightarrow> clean_id (fd_code d)"
  by (auto simp: constructed_def FailureDecision_post_init_def bind_result_Inr_iff clean_id_def required_text_Inr
      intro: arg_cong [of _ _ fd_code] dest: arg_cong [of _ _ fd_code])

section \<open>A new task\<close>

lemma fresh_units_graph:
  assumes "list_all2 (\<lambda>c e. fst e = ls_id c \<and> fresh_unit t c (snd e) \<and> lu_dependencies (snd e) = ls_dependencies c) specs units"
  shows "unit_graph units = spec_graph specs"
  using assms unfolding unit_graph_def spec_graph_def
  by (induction rule: list_all2_induct) (auto simp: fresh_unit_def)

lemma new_units_ok:
  assumes fu: "fresh_units t specs units" and "distinct (map ls_id specs)" and "distinct (map ls_semantic_key specs)"
    and "orderable (unit_graph units)"
  shows "units_ok units"
  unfolding units_ok_def
proof (intro conjI)
  show "distinct (map fst units)" "distinct (map lu_semantic_key (dict_values units))"
    using assms fresh_unitsD(1,2) [OF fu] by simp_all
  show "\<forall>(k, u) \<in> set units. k = lu_id u \<and> unit_ok u" using fresh_unitsD(4) [OF fu] by auto
  show "\<forall>(k, u) \<in> set units. started u \<longrightarrow> set (lu_dependencies u) \<subseteq> done_ids units"
    using fresh_unitsD(4) [OF fu] by (auto simp: started_def)
  show "\<forall>(k, u) \<in> set units. \<forall>(j, v) \<in> set units. lu_run_id u \<noteq> None \<and> lu_run_id u = lu_run_id v \<longrightarrow> k = j"
    using fresh_unitsD(4) [OF fu] by fastforce
qed (rule assms)

lemma length_filter_cong: "map P xs = map Q ys \<Longrightarrow> length (filter P xs) = length (filter Q ys)"
  by (induction xs arbitrary: ys) (auto simp: Cons_eq_map_conv)

lemma new_task_ok:
  assumes fu: "fresh_units (lt_id r) specs units" and units: "units_ok units" and req: "list_ex ls_required specs"
    and r: "record_ok r" "lt_total_units r = int (length (filter ls_required specs))" "lt_completed_units r = 0" "lt_failed_units r = 0"
      "lt_usage r = no_usage"
    and b: "b = \<lparr>lb_task_id = lt_id r, lb_run_id = lt_created_by_run_id r, lb_relation = Relation_CREATED\<rparr>"
  shows "task_ok \<lparr>sl_record = r, sl_units = units, sl_bindings = [(lb_run_id b, b)], sl_usage_by_run = []\<rparr>" (is "task_ok ?s")
proof -
  have len: "length (required_units ?s) = length (filter ls_required specs)"
    using length_filter_cong [OF fresh_unitsD(3) [OF fu]] by (simp add: required_units_def del: map_map)
  then have ne: "required_units ?s \<noteq> []" using req by (auto simp: list_ex_iff filter_empty_conv)
  have pend: "lu_status u = Unit_PENDING" if "u \<in> set (required_units ?s)" for u
    using that fresh_unitsD(4) [OF fu] by (auto simp: required_units_def)
  have "totals_ok ?s" using len r pend by (auto simp: totals_ok_def filter_empty_conv)
  moreover have "base_ok ?s"
  proof (rule base_okI)
    show "\<forall>u \<in> set (dict_values (sl_units ?s)). lu_task_id u = lt_id (sl_record ?s)"
      using fresh_unitsD(4) [OF fu] by auto
  qed (use r units ne in \<open>simp_all add: bindings_ok_def usage_ok_def b\<close>)
  ultimately show ?thesis by (simp add: task_ok_def)
qed
section \<open>The repository\<close>

definition repo_ok :: "long_task_state \<Rightarrow> bool" where
  "repo_ok tasks \<longleftrightarrow> distinct (map fst tasks) \<and> (\<forall>(k, s) \<in> set tasks. k = lt_id (sl_record s) \<and> task_ok s)"

definition tasks_advance :: "long_task_state \<Rightarrow> long_task_state \<Rightarrow> bool" where
  "tasks_advance tasks tasks' \<longleftrightarrow>
     (\<forall>k s. map_of tasks k = Some s \<longrightarrow> (\<exists>s'. map_of tasks' k = Some s' \<and> advances s s'))"

definition repo_step :: "long_task_state \<Rightarrow> long_task_state \<Rightarrow> bool" where
  "repo_step tasks tasks' \<longleftrightarrow> repo_ok tasks' \<and> tasks_advance tasks tasks'"

lemma tasks_advance_refl: "tasks_advance t t"
  by (simp add: tasks_advance_def)

lemma tasks_advance_trans: "tasks_advance a b \<Longrightarrow> tasks_advance b c \<Longrightarrow> tasks_advance a c"
  unfolding tasks_advance_def by (meson advances_trans)

lemma repo_step_refl: "repo_ok t \<Longrightarrow> repo_step t t"
  by (simp add: repo_step_def tasks_advance_refl)

lemma repo_okD:
  assumes "repo_ok tasks" and "map_of tasks k = Some s"
  shows "k = lt_id (sl_record s)" and "task_ok s"
  using assms map_of_SomeD [OF assms(2)] by (auto simp: repo_ok_def)

lemma repo_ok_lookup:
  "distinct (map fst tasks) \<Longrightarrow> (\<And>k s. map_of tasks k = Some s \<Longrightarrow> k = lt_id (sl_record s) \<and> task_ok s) \<Longrightarrow> repo_ok tasks"
  by (auto simp: repo_ok_def)

lemma update_step:
  assumes ok: "repo_ok tasks" and s: "map_of tasks k = Some s" and step: "full_step s s'"
  shows "repo_step tasks (AList.update k s' tasks)"
proof -
  have t: "task_ok s'" "advances s s'" using step by (simp_all add: full_step_def)
  have k: "k = lt_id (sl_record s')" using repo_okD(1) [OF ok s] t(2) by (simp add: advances_def)
  have "repo_ok (AList.update k s' tasks)"
    using ok k t(1) repo_okD [OF ok] by (intro repo_ok_lookup) (auto simp: repo_ok_def update_conv' split: if_splits intro: distinct_update)
  moreover have "tasks_advance tasks (AList.update k s' tasks)"
    using s t(2) by (auto simp: tasks_advance_def update_conv')
  ultimately show ?thesis by (simp add: repo_step_def)
qed

lemma require_state_Inr: "require_state tasks i = Inr (k, s) \<Longrightarrow> map_of tasks k = Some s"
  by (auto simp: require_state_def bind_result_Inr_iff split: option.splits)

lemma on_task_step_at:
  assumes ok: "repo_ok tasks" and f: "\<And>s. task_ok s \<Longrightarrow> map_of tasks (strip i) = Some s \<Longrightarrow> full_step s (snd (f s))"
  shows "repo_step tasks (snd (on_task tasks i f))"
proof (cases "require_state tasks i")
  case (Inl e)
  then show ?thesis using repo_step_refl [OF ok] by (simp add: on_task_def read_op_def)
next
  case (Inr p)
  obtain s where p: "p = (strip i, s)" and s: "map_of tasks (strip i) = Some s"
    using Inr by (auto simp: require_state_def bind_result_Inr_iff required_text_Inr split: option.splits)
  show ?thesis using update_step [OF ok s f [OF repo_okD(2) [OF ok s] s]] Inr p
    by (cases "f s") (simp add: on_task_def read_op_def)
qed

lemma on_task_step:
  assumes "repo_ok tasks" and "\<And>s. task_ok s \<Longrightarrow> full_step s (snd (f s))"
  shows "repo_step tasks (snd (on_task tasks i f))"
  using assms by (intro on_task_step_at)

lemma LongTaskRecord_post_init_value:
  "LongTaskRecord_post_init t = Inr t' \<Longrightarrow> t' = t\<lparr>lt_id := strip (lt_id t), lt_namespace := strip (lt_namespace t),
     lt_kind := strip (lt_kind t), lt_owner_id := strip (lt_owner_id t), lt_created_by_run_id := strip (lt_created_by_run_id t),
     lt_create_time := optional_text (lt_create_time t), lt_update_time := optional_text (lt_update_time t)\<rparr>"
  by (auto simp: LongTaskRecord_post_init_def bind_result_Inr_iff required_text_Inr split: if_splits)

lemma new_task_Inr:
  assumes "new_task i c ts = Inr s"
  obtains r units b where "record_ok r" "lt_id r = strip i" "lt_namespace r = strip (lc_namespace c)" "lt_kind r = strip (lc_kind c)"
    "lt_owner_id r = strip (lc_owner_id c)" "lt_created_by_run_id r = strip (lc_created_by_run_id c)"
    "lt_total_units r = int (length (filter ls_required (lc_units c)))" "lt_completed_units r = 0" "lt_failed_units r = 0"
    "lt_usage r = no_usage" "lt_max_parallelism r = lc_max_parallelism c" "lt_deadline_at_ms r = lc_deadline_at_ms c"
    "lt_budget_limits r = lc_budget_limits c" "lt_metadata r = lc_metadata c"
    "map_result (\<lambda>spec. bind_result (unit_from_spec (lt_id r) spec ts) (\<lambda>u. Inr (ls_id spec, u))) (lc_units c) = Inr units"
    "b = \<lparr>lb_task_id = lt_id r, lb_run_id = lt_created_by_run_id r, lb_relation = Relation_CREATED\<rparr>"
    "s = \<lparr>sl_record = r, sl_units = dict_merge [] units, sl_bindings = [(lb_run_id b, b)], sl_usage_by_run = []\<rparr>"
proof -
  obtain r units b where r: "LongTaskRecord_post_init
       \<lparr>lt_id = i, lt_namespace = lc_namespace c, lt_kind = lc_kind c, lt_owner_id = lc_owner_id c,
        lt_created_by_run_id = lc_created_by_run_id c, lt_status = Task_PENDING, lt_revision = 1,
        lt_total_units = int (length (filter ls_required (lc_units c))), lt_completed_units = 0,
        lt_failed_units = 0, lt_max_parallelism = lc_max_parallelism c,
        lt_deadline_at_ms = lc_deadline_at_ms c, lt_budget_limits = lc_budget_limits c,
        lt_budget_exhaustion_disposition = lc_budget_exhaustion_disposition c,
        lt_cancellation_requested_at_ms = None, lt_usage = no_usage, lt_metadata = lc_metadata c,
        lt_create_time = Some ts, lt_update_time = Some ts\<rparr> = Inr r"
    and u: "map_result (\<lambda>spec. bind_result (unit_from_spec (lt_id r) spec ts) (\<lambda>u. Inr (ls_id spec, u))) (lc_units c) = Inr units"
    and b: "LongTaskRunBinding_post_init
       \<lparr>lb_task_id = lt_id r, lb_run_id = lc_created_by_run_id c, lb_relation = Relation_CREATED\<rparr> = Inr b"
    and s: "s = \<lparr>sl_record = r, sl_units = dict_merge [] units, sl_bindings = [(lb_run_id b, b)], sl_usage_by_run = []\<rparr>"
    using assms unfolding new_task_def bind_result_Inr_iff
    by (elim exE conjE) (rule that, assumption, assumption, assumption, simp)
  have rok: "record_ok r" using r by (rule LongTaskRecord_post_init_ok)
  have f: "lt_id r = strip i" "lt_namespace r = strip (lc_namespace c)" "lt_kind r = strip (lc_kind c)"
    "lt_owner_id r = strip (lc_owner_id c)" "lt_created_by_run_id r = strip (lc_created_by_run_id c)"
    "lt_total_units r = int (length (filter ls_required (lc_units c)))" "lt_completed_units r = 0" "lt_failed_units r = 0"
    "lt_usage r = no_usage" "lt_max_parallelism r = lc_max_parallelism c" "lt_deadline_at_ms r = lc_deadline_at_ms c"
    "lt_budget_limits r = lc_budget_limits c" "lt_metadata r = lc_metadata c"
    unfolding LongTaskRecord_post_init_value [OF r] by simp_all
  have "b = \<lparr>lb_task_id = lt_id r, lb_run_id = lt_created_by_run_id r, lb_relation = Relation_CREATED\<rparr>"
    using b rok f(5) by (auto simp: LongTaskRunBinding_post_init_def bind_result_Inr_iff required_text_Inr record_ok_def clean_id_def)
  then show ?thesis by (rule that [OF rok f u _ s])
qed

lemma new_task_step:
  assumes c: "create_cmd_ok c" and s: "new_task i c ts = Inr s"
  shows "task_ok s" and "lt_id (sl_record s) = strip i"
proof -
  have cc: "LongTaskCreateCommand_post_init c = Inr c" "\<forall>x \<in> set (lc_units c). unit_spec_ok x"
    using c specs_okD by (auto simp: create_cmd_ok_def constructed_def)
  have specs: "distinct (map ls_id (lc_units c))" "distinct (map ls_semantic_key (lc_units c))"
      "list_ex ls_required (lc_units c)" "orderable (spec_graph (lc_units c))"
    using cc(1) by (auto simp: LongTaskCreateCommand_post_init_def bind_result_Inr_iff Let_def split: if_splits)
  obtain r units b where rok: "record_ok r" and rf: "lt_id r = strip i"
      "lt_total_units r = int (length (filter ls_required (lc_units c)))" "lt_completed_units r = 0" "lt_failed_units r = 0"
      "lt_usage r = no_usage"
    and u: "map_result (\<lambda>spec. bind_result (unit_from_spec (lt_id r) spec ts) (\<lambda>u. Inr (ls_id spec, u))) (lc_units c) = Inr units"
    and b: "b = \<lparr>lb_task_id = lt_id r, lb_run_id = lt_created_by_run_id r, lb_relation = Relation_CREATED\<rparr>"
    and eq: "s = \<lparr>sl_record = r, sl_units = dict_merge [] units, sl_bindings = [(lb_run_id b, b)], sl_usage_by_run = []\<rparr>"
    by (rule new_task_Inr [OF s])
  have tid: "clean_id (lt_id r)" using rok by (simp add: record_ok_def)
  have fg: "list_all2 (\<lambda>x e. fst e = ls_id x \<and> fresh_unit (lt_id r) x (snd e) \<and> lu_dependencies (snd e) = ls_dependencies x) (lc_units c) units"
    by (rule list.rel_mono_strong [OF u [unfolded map_result_Inr_iff]])
       (use cc(2) tid unit_from_spec_fresh in \<open>auto simp: bind_result_Inr_iff\<close>)
  then have fu: "fresh_units (lt_id r) (lc_units c) units" unfolding fresh_units_def by (rule list.rel_mono_strong) simp
  have uok: "units_ok units" using specs fresh_units_graph [OF fg] by (intro new_units_ok [OF fu]) simp_all
  have merged: "dict_merge [] units = units"
    using specs(1) fresh_unitsD(1) [OF fu] dict_merge_fresh [of units "[]"] by simp
  show "task_ok s" unfolding eq merged by (rule new_task_ok [OF fu uok specs(3) rok rf(2-5) b])
  show "lt_id (sl_record s) = strip i" by (simp add: eq rf(1))
qed

lemma create_step:
  assumes ok: "repo_ok tasks" and c: "create_cmd_ok c"
  shows "repo_step tasks (snd (create S tasks i c ts))"
proof -
  have refl: "repo_step tasks tasks" using ok by (rule repo_step_refl)
  have new: "repo_step tasks (AList.update (lt_id (sl_record s)) s tasks)"
    if "map_of tasks k = None" "strip k = k" "new_task k c ts = Inr s" for k s
  proof -
    have s: "task_ok s" "lt_id (sl_record s) = k" using new_task_step [OF c that(3)] that(2) by simp_all
    have "repo_ok (AList.update k s tasks)" using ok s repo_okD [OF ok]
      by (intro repo_ok_lookup) (auto simp: repo_ok_def update_conv' split: if_splits intro: distinct_update)
    moreover have "tasks_advance tasks (AList.update k s tasks)" using that(1) by (auto simp: tasks_advance_def update_conv')
    ultimately show ?thesis by (simp add: repo_step_def s(2))
  qed
  show ?thesis unfolding create_def
  proof (rule snd_read_op [where P = "repo_step tasks", OF refl], goal_cases)
    case (1 k)
    then have "strip k = k" by (auto simp: required_text_Inr)
    then show ?case using new refl by (auto simp: read_op_def split: option.splits sum.splits)
  qed
qed
section \<open>Every call of the port\<close>

datatype long_task_cmd =
    Create_Task string long_task_create_command string
  | Bind_Run string string long_task_run_relation
  | Record_Usage string string long_task_usage int string
  | Start_Task string int int string
  | Expire_Deadline string int string
  | Pause_Task string "int option" "string option" string
  | Resume_Task string int string
  | Cancel_Task string string
  | Request_Cancel string "int option" int string
  | Finalize_Task string int string
  | Recover_Tasks string int string
  | Claim_Ready string string int int string
  | Claim_Unit string string string int int string
  | Bind_Unit_Run string string string int string int string
  | Renew_Lease string string string int int int string
  | Update_Progress string string string int json_mapping int string
  | Complete_Unit string string string int long_task_unit_result int string
  | Settle_Failure string string string int failure_decision int string
  | Expand_Unit string string string int long_task_split_result failure_decision int string
  | Interrupt_Unit string string string int string int string

text \<open>What a call leaves, whether it returns or raises.\<close>

fun long_task_after :: "(json \<Rightarrow> string) \<Rightarrow> long_task_state \<Rightarrow> long_task_cmd \<Rightarrow> long_task_state" where
  "long_task_after S t (Create_Task i c ts) = snd (create S t i c ts)"
| "long_task_after S t (Bind_Run i run rel) = snd (bind_run t i run rel)"
| "long_task_after S t (Record_Usage i run u rv ts) = snd (record_usage t i run u rv ts)"
| "long_task_after S t (Start_Task i rv now ts) = snd (start t i rv now ts)"
| "long_task_after S t (Expire_Deadline i now ts) = snd (expire_deadline t i now ts)"
| "long_task_after S t (Pause_Task i rv reason ts) = snd (pause t i rv reason ts)"
| "long_task_after S t (Resume_Task i n ts) = snd (resume t i n ts)"
| "long_task_after S t (Cancel_Task i ts) = snd (cancel_task t i ts)"
| "long_task_after S t (Request_Cancel i at now ts) = snd (request_cancel t i at now ts)"
| "long_task_after S t (Finalize_Task i now ts) = snd (finalize_if_complete t i now ts)"
| "long_task_after S t (Recover_Tasks reason wall ts) = snd (recover_after_restart t reason wall ts)"
| "long_task_after S t (Claim_Ready i w dur now ts) = snd (claim_ready_unit t i w dur now ts)"
| "long_task_after S t (Claim_Unit i u w dur now ts) = snd (claim_unit t i u w dur now ts)"
| "long_task_after S t (Bind_Unit_Run i u w e run now ts) = snd (bind_unit_run t i u w e run now ts)"
| "long_task_after S t (Renew_Lease i u w e dur now ts) = snd (renew_unit_lease t i u w e dur now ts)"
| "long_task_after S t (Update_Progress i u w e meta now ts) = snd (update_unit_progress t i u w e meta now ts)"
| "long_task_after S t (Complete_Unit i u w e r now ts) = snd (complete_unit t i u w e r now ts)"
| "long_task_after S t (Settle_Failure i u w e d now ts) = snd (settle_unit_failure t i u w e d now ts)"
| "long_task_after S t (Expand_Unit i u w e p d now ts) = snd (expand_unit t i u w e p d now ts)"
| "long_task_after S t (Interrupt_Unit i u w e reason now ts) = snd (interrupt_unit t i u w e reason now ts)"

definition long_task_react :: "(json \<Rightarrow> string) \<Rightarrow> long_task_state \<Rightarrow> long_task_cmd \<Rightarrow> long_task_state result" where
  "long_task_react S t cmd = Inr (long_task_after S t cmd)"

text \<open>
  Arguments are values their constructors accepted. A split names a required child: the source
  does not check this.
\<close>

fun long_task_cmd_ok :: "long_task_cmd \<Rightarrow> bool" where
  "long_task_cmd_ok (Create_Task i c ts) \<longleftrightarrow> create_cmd_ok c"
| "long_task_cmd_ok (Record_Usage i run u rv ts) \<longleftrightarrow> constructed LongTaskUsage_post_init u"
| "long_task_cmd_ok (Complete_Unit i u w e r now ts) \<longleftrightarrow> constructed LongTaskUnitResult_post_init r"
| "long_task_cmd_ok (Settle_Failure i u w e d now ts) \<longleftrightarrow> constructed FailureDecision_post_init d"
| "long_task_cmd_ok (Expand_Unit i u w e p d now ts) \<longleftrightarrow> split_ok p \<and> constructed FailureDecision_post_init d"
| "long_task_cmd_ok cmd \<longleftrightarrow> True"

lemma bind_run_repo: "repo_ok t \<Longrightarrow> repo_step t (snd (bind_run t i run rel))"
  unfolding bind_run_def
  by (auto intro!: repo_step_refl snd_read_op [where P = "repo_step t"] on_task_step bind_run_step dest: required_text_result_clean)

lemma record_usage_repo:
  "repo_ok t \<Longrightarrow> constructed LongTaskUsage_post_init u \<Longrightarrow> repo_step t (snd (record_usage t i run u rv ts))"
  unfolding record_usage_def constructed_def
  by (auto intro!: repo_step_refl snd_read_op [where P = "repo_step t"] on_task_step record_usage_step)

lemma claim_with_repo: "repo_ok t \<Longrightarrow> repo_step t (snd (claim_with t i u w dur now ts))"
  unfolding claim_with_def
  by (auto intro!: repo_step_refl snd_read_op [where P = "repo_step t"] on_task_step claim_stored_step dest: required_text_result_clean)

lemma claim_unit_repo: "repo_ok t \<Longrightarrow> repo_step t (snd (claim_unit t i u w dur now ts))"
  unfolding claim_unit_def
  by (auto intro!: repo_step_refl snd_read_op [where P = "repo_step t"] claim_with_repo)

lemma resume_repo: "repo_ok t \<Longrightarrow> repo_step t (snd (resume t i n ts))"
  unfolding resume_def by (auto intro!: repo_step_refl on_task_step resume_step)

lemma expand_keeps_repo:
  assumes ok: "repo_ok t" and p: "constructed LongTaskSplitResult_post_init p" "specs_ok (lp_children p)"
    and req: "\<And>s. map_of t (strip i) = Some s \<Longrightarrow> keeps_required s (strip u) p" and d: "constructed FailureDecision_post_init d"
  shows "repo_step t (snd (expand_unit t i u w e p d now ts))"
proof -
  have "full_step s (snd (expand_unit_stored u w e p d now ts s))" if "task_ok s" "map_of t (strip i) = Some s" for s
    using that p specs_okD req decision_code [OF d] by (intro expand_step [of _ p]) (auto simp: constructed_def)
  then show ?thesis unfolding expand_unit_def using ok by (auto intro: repo_step_refl on_task_step_at)
qed

lemma expand_repo:
  "repo_ok t \<Longrightarrow> split_ok p \<Longrightarrow> constructed FailureDecision_post_init d \<Longrightarrow> repo_step t (snd (expand_unit t i u w e p d now ts))"
  by (rule expand_keeps_repo) (simp_all add: split_ok_def keeps_required_def)

lemma recover_repo:
  assumes ok: "repo_ok t"
  shows "repo_step t (snd (recover_after_restart t reason wall ts))"
  unfolding recover_after_restart_def
proof (rule snd_read_op [where P = "repo_step t", OF repo_step_refl [OF ok]])
  fix r assume r: "required_text reason ''restart recovery reason'' = Inr r"
  let ?f = "\<lambda>(k :: string) s. snd (recover_stored r wall ts s)"
  have step: "full_step s (?f k s)" if "map_of t k = Some s" for k s
    using repo_okD(2) [OF ok that] required_text_result_clean [OF r] by (rule recover_step)
  have "repo_ok (map_dict ?f t)"
  proof (rule repo_ok_lookup)
    show "distinct (map fst (map_dict ?f t))" using ok by (simp only: map_dict_fst repo_ok_def)
    show "k = lt_id (sl_record s') \<and> task_ok s'" if "map_of (map_dict ?f t) k = Some s'" for k s'
      using that step repo_okD(1) [OF ok] unfolding map_of_map_dict by (fastforce simp: full_step_def advances_def)
  qed
  moreover have "tasks_advance t (map_dict ?f t)"
    using step unfolding tasks_advance_def map_of_map_dict by (auto simp: full_step_def)
  ultimately show "repo_step t (snd (Inr (concat (map (\<lambda>(k, s). case fst (recover_stored r wall ts s) of None \<Rightarrow> [] | Some i \<Rightarrow> [i]) t)),
      map (\<lambda>(k, s). (k, snd (recover_stored r wall ts s))) t))" by (simp add: repo_step_def)
qed

lemma long_task_after_step:
  assumes "repo_ok t" and "long_task_cmd_ok cmd"
  shows "repo_step t (long_task_after S t cmd)"
  using assms
  by (cases cmd)
     (auto simp: start_def expire_deadline_def pause_def cancel_task_def request_cancel_def finalize_if_complete_def
        bind_unit_run_def renew_unit_lease_def update_unit_progress_def complete_unit_def settle_unit_failure_def
        interrupt_unit_def claim_ready_unit_def constructed_def
      intro!: create_step bind_run_repo record_usage_repo resume_repo recover_repo claim_with_repo claim_unit_repo expand_repo
        repo_step_refl on_task_step start_step expire_deadline_step pause_step cancel_step request_cancel_step finalize_step
        bind_unit_run_step renew_step progress_step complete_unit_step settle_unit_failure_step interrupt_step decision_code)

interpretation task_store: progress_machine "long_task_react S" long_task_cmd_ok repo_ok tasks_advance for S
  using long_task_after_step
  by unfold_locales (auto simp: long_task_react_def repo_step_def tasks_advance_refl intro: tasks_advance_trans)

section \<open>Admissible calls\<close>

text \<open>
  Calls with constructed arguments, a split only if it leaves its task a required unit: every call
  that \<open>long_task_cmd_ok\<close> accepts is one. Whether a split is admissible depends on the state it meets.
\<close>

fun long_task_call_ok :: "long_task_state \<Rightarrow> long_task_cmd \<Rightarrow> bool" where
  "long_task_call_ok t (Expand_Unit i u w e p d now ts) \<longleftrightarrow> constructed LongTaskSplitResult_post_init p \<and> specs_ok (lp_children p)
     \<and> constructed FailureDecision_post_init d
     \<and> (case map_of t (strip i) of None \<Rightarrow> True | Some s \<Rightarrow> keeps_required s (strip u) p)"
| "long_task_call_ok t cmd \<longleftrightarrow> long_task_cmd_ok cmd"

fun long_task_calls_ok :: "(json \<Rightarrow> string) \<Rightarrow> long_task_state \<Rightarrow> long_task_cmd list \<Rightarrow> bool" where
  "long_task_calls_ok S t [] \<longleftrightarrow> True"
| "long_task_calls_ok S t (cmd # cmds) \<longleftrightarrow> long_task_call_ok t cmd \<and> long_task_calls_ok S (long_task_after S t cmd) cmds"

lemma long_task_call_step:
  assumes "repo_ok t" and "long_task_call_ok t cmd"
  shows "repo_step t (long_task_after S t cmd)"
proof (cases "\<exists>i u w e p d now ts. cmd = Expand_Unit i u w e p d now ts")
  case True
  then show ?thesis using assms by (auto split: option.splits intro!: expand_keeps_repo)
next
  case False
  then have "long_task_cmd_ok cmd" using assms(2) by (cases cmd) auto
  then show ?thesis by (rule long_task_after_step [OF assms(1)])
qed

lemma long_task_calls_keep:
  "repo_ok t \<Longrightarrow> long_task_calls_ok S t cmds \<Longrightarrow> repo_ok (drive (long_task_react S) t cmds)"
proof (induction cmds arbitrary: t)
  case (Cons cmd cmds)
  have "repo_ok (long_task_after S t cmd)" using long_task_call_step Cons.prems by (auto simp: repo_step_def)
  then show ?case using Cons by (simp add: long_task_react_def)
qed simp

end
