(* ===== verification/Recipe_Dispatch.thy ===== *)
theory Recipe_Dispatch
  imports Recipes Long_Task_Machine
begin

text \<open>
  \<open>RecipeLongTaskDispatcher\<close> of \<open>long_tasks/dispatcher.py\<close> up to the scheduling of units, and
  \<open>long_tasks/continuation.py\<close>: coordinators that reach the task store through several awaited calls.
\<close>

section \<open>Other callers\<close>

text \<open>
  Between two calls of the store that a method awaits, other callers may be served: \<open>others n\<close> are the
  calls served before the \<open>n\<close>-th call of the method.
\<close>

definition after_calls_on :: "(json \<Rightarrow> string) \<Rightarrow> long_task_cmd list \<Rightarrow> long_task_state \<Rightarrow> long_task_state" where
  "after_calls_on S cmds t = foldl (long_task_after S) t cmds"

section \<open>Continuations\<close>

definition continuation_conflict :: "string \<Rightarrow> py_error" where
  "continuation_conflict message = ContractViolation ''durable_continuation_binding_conflict'' message"

definition prepare_continuation ::
    "(json \<Rightarrow> string) \<Rightarrow> (nat \<Rightarrow> long_task_cmd list) \<Rightarrow> long_task_state \<Rightarrow> string \<Rightarrow> string \<Rightarrow> string
     \<Rightarrow> unit result \<times> long_task_state" where
  "prepare_continuation S others t0 task_id source_run_id run_id =
     read_op (required_text task_id ''durable continuation task id'') t0 (\<lambda>task_id.
     read_op (required_text source_run_id ''durable continuation source Run id'') t0 (\<lambda>source_run_id.
     read_op (required_text run_id ''durable continuation Run id'') t0 (\<lambda>run_id.
     if source_run_id = run_id then (Inl (continuation_conflict ''durable continuation requires a new Root Run''), t0)
     else
       let t1 = after_calls_on S (others 0) t0 in
       case load t1 task_id of
         None \<Rightarrow> (Inl (continuation_conflict ''durable continuation task does not exist''), t1)
       | Some task \<Rightarrow>
         let t2 = after_calls_on S (others 1) t1 in
         read_op (list_run_bindings t2 task_id) t2 (\<lambda>bindings.
         let source = find (\<lambda>b. lb_run_id b = source_run_id) bindings;
             current = find (\<lambda>b. lb_run_id b = run_id) bindings in
         if lt_created_by_run_id task \<noteq> source_run_id \<or> (case source of None \<Rightarrow> True | Some b \<Rightarrow> lb_relation b \<noteq> Relation_CREATED) then
           (Inl (continuation_conflict ''durable continuation source does not own the Recipe task''), t2)
         else case current of
           Some b \<Rightarrow>
             if lb_relation b \<noteq> Relation_CONTINUATION then
               (Inl (continuation_conflict ''durable continuation Run has a conflicting task relation''), t2)
             else (Inr (), t2)
         | None \<Rightarrow>
             if lt_status task \<notin> {Task_PAUSED, Task_RUNNING} then
               (Inl (continuation_conflict ''durable continuation task is not resumable''), t2)
             else
               let t3 = after_calls_on S (others 2) t2 in
               bind_op (bind_run t3 task_id run_id Relation_CONTINUATION) (\<lambda>_ t. (Inr (), t))))))"

section \<open>Dispatch\<close>

record durable_task_descriptor =
  dd_namespace :: string
  dd_owner_id :: string
  dd_idempotency_key :: string
  dd_message :: "string option"
  dd_failed_resume_attempts :: int
  dd_deadline_at_ms :: "int option"
  dd_budget_limits :: long_task_budget_limits
  dd_budget_exhaustion_disposition :: budget_exhaustion_disposition
  dd_metadata :: json_mapping

definition DurableTaskDescriptor_post_init :: "durable_task_descriptor \<Rightarrow> durable_task_descriptor result" where
  "DurableTaskDescriptor_post_init d =
     bind_result (required_text (dd_namespace d) ''durable task namespace'') (\<lambda>n.
     bind_result (required_text (dd_owner_id d) ''durable task owner_id'') (\<lambda>owner.
     bind_result (required_text (dd_idempotency_key d) ''durable task idempotency_key'') (\<lambda>key.
     bind_result (non_negative_int (dd_failed_resume_attempts d) ''durable failed resume attempts'') (\<lambda>attempts.
     if (case dd_deadline_at_ms d of None \<Rightarrow> False | Some t \<Rightarrow> t \<le> 0) then
       Inl (ValueError ''durable task deadline_at_ms must be positive'')
     else Inr (d\<lparr>dd_namespace := n, dd_owner_id := owner, dd_idempotency_key := key, dd_message := optional_text (dd_message d),
       dd_failed_resume_attempts := attempts\<rparr>)))))"

definition scope_conflict :: py_error where
  "scope_conflict = RuntimeError ''durable_task_scope_conflict''"

definition has_key :: "long_task_record \<Rightarrow> durable_task_descriptor \<Rightarrow> bool" where
  "has_key t d \<longleftrightarrow> map_of (lt_metadata t) ''idempotencyKey'' = Some (JStr (dd_idempotency_key d))"

text \<open>\<open>_find_reusable\<close> with the states that its two reads see.\<close>

definition find_reusable ::
    "(json \<Rightarrow> string) \<Rightarrow> long_task_state \<Rightarrow> long_task_state \<Rightarrow> durable_task_descriptor \<Rightarrow> execution_recipe \<Rightarrow> string option
     \<Rightarrow> long_task_record option result" where
  "find_reusable S t1 t2 d recipe session_id =
     (case find_active S t1 (dd_namespace d) (dd_owner_id d) (ec_kind recipe) (map_option JStr session_id) True of
        Some active \<Rightarrow>
          if \<not> has_key active d then Inl scope_conflict
          else if lt_budget_limits active \<noteq> dd_budget_limits d then Inl scope_conflict
          else bind_result (require_same_recipe active recipe) (\<lambda>_. Inr (Some active))
      | None \<Rightarrow>
          bind_result (find_by_idempotency_key t2 (dd_namespace d) (dd_idempotency_key d)) (\<lambda>found.
          case found of
            None \<Rightarrow> Inr None
          | Some reusable \<Rightarrow>
              if lt_owner_id reusable \<noteq> dd_owner_id d \<or> lt_kind reusable \<noteq> ec_kind recipe
                \<or> \<not> same_optional_text S (map_of (lt_metadata reusable) ''sessionId'') session_id then Inl scope_conflict
              else if lt_status reusable \<notin> {Task_COMPLETED, Task_FAILED} then Inl scope_conflict
              else if lt_budget_limits reusable \<noteq> dd_budget_limits d then Inl scope_conflict
              else bind_result (require_same_recipe reusable recipe) (\<lambda>_. Inr (Some reusable))))"

definition link_and_resume ::
    "(json \<Rightarrow> string) \<Rightarrow> (nat \<Rightarrow> long_task_cmd list) \<Rightarrow> long_task_state \<Rightarrow> long_task_record \<Rightarrow> string \<Rightarrow> int \<Rightarrow> string
     \<Rightarrow> long_task_record result \<times> long_task_state" where
  "link_and_resume S others t0 task run_id additional ts =
     (let t1 = after_calls_on S (others 3) t0 in
      read_op (list_run_bindings t1 (lt_id task)) t1 (\<lambda>bindings.
      let continues = (lt_status task = Task_PAUSED \<or> lt_status task = Task_FAILED \<and> additional > 0) in
      bind_op (if list_ex (\<lambda>b. lb_run_id b = run_id) bindings then (Inr (), t1)
        else bind_op (bind_run (after_calls_on S (others 4) t1) (lt_id task) run_id
          (if continues then Relation_CONTINUATION else Relation_REFERENCE)) (\<lambda>_ t. (Inr (), t))) (\<lambda>_ t2.
      if lt_status task = Task_PAUSED then resume (after_calls_on S (others 5) t2) (lt_id task) 0 ts
      else if lt_status task = Task_FAILED \<and> additional \<noteq> 0 then resume (after_calls_on S (others 5) t2) (lt_id task) additional ts
      else (Inr task, t2))))"

definition recipe_command ::
    "durable_task_descriptor \<Rightarrow> execution_recipe \<Rightarrow> long_task_unit_spec list \<Rightarrow> json_mapping \<Rightarrow> string \<Rightarrow> int option \<Rightarrow> int
     \<Rightarrow> long_task_create_command" where
  "recipe_command d recipe units metadata run_id timeout clock =
     \<lparr>lc_namespace = dd_namespace d, lc_kind = ec_kind recipe, lc_owner_id = dd_owner_id d, lc_created_by_run_id = run_id,
      lc_units = units, lc_max_parallelism = ec_max_parallelism recipe,
      lc_deadline_at_ms = (case dd_deadline_at_ms d of Some t \<Rightarrow> Some t | None \<Rightarrow> map_option (\<lambda>n. clock + n) timeout),
      lc_budget_limits = dd_budget_limits d, lc_budget_exhaustion_disposition = dd_budget_exhaustion_disposition d,
      lc_metadata = metadata\<rparr>"

definition create_from_recipe ::
    "(json \<Rightarrow> string) \<Rightarrow> (nat \<Rightarrow> long_task_cmd list) \<Rightarrow> long_task_state \<Rightarrow> durable_task_descriptor \<Rightarrow> execution_recipe \<Rightarrow>
     long_task_unit_spec list \<Rightarrow> json_mapping \<Rightarrow> string \<Rightarrow> string \<Rightarrow> int option \<Rightarrow> int \<Rightarrow> string \<Rightarrow> long_task_record result \<times> long_task_state" where
  "create_from_recipe S others t0 d recipe units metadata run_id drawn timeout clock ts =
     (let task_id = ''longtask_'' @ drawn in
      read_op (LongTaskCreateCommand_post_init (recipe_command d recipe units metadata run_id timeout clock)) t0 (\<lambda>c.
      bind_op (create S (after_calls_on S (others 2) t0) task_id c ts) (\<lambda>task t1.
      if lt_id task \<noteq> task_id then
        if \<not> has_key task d then (Inl scope_conflict, t1)
        else read_op (require_same_recipe task recipe) t1 (\<lambda>_.
          link_and_resume S others t1 task run_id (dd_failed_resume_attempts d) ts)
      else (Inr task, t1))))"

definition dispatch_metadata :: "durable_task_descriptor \<Rightarrow> string option \<Rightarrow> execution_recipe \<Rightarrow> execution_plan \<Rightarrow> json_mapping" where
  "dispatch_metadata d session_id recipe plan = dict_merge (dd_metadata d)
     [(''idempotencyKey'', JStr (dd_idempotency_key d)), (''sessionId'', case session_id of None \<Rightarrow> JNull | Some s \<Rightarrow> JStr s),
      (''recipe'', JObj (to_metadata recipe)),
      (''goal'', JStr (case ep_task_spec plan of Some spec \<Rightarrow> ts_goal spec | None \<Rightarrow> ep_title plan))]"

definition dispatch_message :: "long_task_record \<Rightarrow> string" where
  "dispatch_message t =
     (if lt_status t = Task_COMPLETED then ''Durable task is already complete.''
      else if lt_status t = Task_FAILED then ''Durable task is failed and requires an explicit retry decision.''
      else ''Durable task started with '' @ show_int (lt_total_units t) @ '' execution units.'')"

fun LongTaskStatus_value :: "long_task_status \<Rightarrow> string" where
  "LongTaskStatus_value Task_PENDING = ''pending''"
| "LongTaskStatus_value Task_RUNNING = ''running''"
| "LongTaskStatus_value Task_PAUSED = ''paused''"
| "LongTaskStatus_value Task_COMPLETED = ''completed''"
| "LongTaskStatus_value Task_FAILED = ''failed''"
| "LongTaskStatus_value Task_CANCELED = ''canceled''"

definition dispatch_receipt ::
    "durable_task_descriptor \<Rightarrow> task_admission_decision \<Rightarrow> long_task_record option \<Rightarrow> long_task_record \<Rightarrow> long_task_dispatch_receipt result" where
  "dispatch_receipt d decision reusable task =
     (let previous = map_option lt_status reusable in
      LongTaskDispatchReceipt_post_init \<lparr>dr_task_id = lt_id task, dr_message = text_or (dd_message d) (dispatch_message task),
        dr_admission = decision, dr_metadata = [(''namespace'', JStr (lt_namespace task)), (''kind'', JStr (lt_kind task)),
          (''ownerId'', JStr (lt_owner_id task)), (''status'', JStr (LongTaskStatus_value (lt_status task))),
          (''totalUnits'', JInt (lt_total_units task)), (''completedUnits'', JInt (lt_completed_units task)),
          (''reused'', JBool (reusable \<noteq> None)),
          (''resumed'', JBool (previous \<in> {Some Task_PAUSED, Some Task_FAILED} \<and> lt_status task = Task_RUNNING)),
          (''alreadyCompleted'', JBool (previous = Some Task_COMPLETED))]\<rparr>)"

text \<open>
  \<open>dispatch\<close>: \<open>d\<close> is the descriptor that the host resolved, \<open>namespace\<close> and \<open>session\<close> come from the
  request, \<open>drawn\<close> from the identity factory.
\<close>

definition dispatch ::
    "(json \<Rightarrow> string) \<Rightarrow> (nat \<Rightarrow> long_task_cmd list) \<Rightarrow> long_task_state \<Rightarrow> string \<Rightarrow> json option \<Rightarrow> execution_plan \<Rightarrow>
     task_admission_decision \<Rightarrow> durable_task_descriptor \<Rightarrow> string \<Rightarrow> string \<Rightarrow> int option \<Rightarrow> int \<Rightarrow> string
     \<Rightarrow> long_task_dispatch_receipt result \<times> long_task_state" where
  "dispatch S others t0 namespace session plan decision d run_id drawn timeout clock ts =
     (case ad_execution_recipe decision of
        None \<Rightarrow> (Inl (ValueError ''durable dispatch requires an execution recipe''), t0)
      | Some recipe \<Rightarrow>
        read_op (compile_recipe_units recipe (ad_covered_step_ids decision)) t0 (\<lambda>units.
        read_op (required_text run_id ''durable Run id'') t0 (\<lambda>run_id.
        if dd_namespace d \<noteq> namespace then (Inl (ValueError ''durable task namespace does not match the request''), t0)
        else
          let session_id = map_option (\<lambda>v. strip (session_text S v)) session;
              t1 = after_calls_on S (others 0) t0; t2 = after_calls_on S (others 1) t1 in
          bind_op (find_reusable S t1 t2 d recipe session_id,
            if find_active S t1 (dd_namespace d) (dd_owner_id d) (ec_kind recipe) (map_option JStr session_id) True = None then t2 else t1)
          (\<lambda>reusable t.
          bind_op (case reusable of
              None \<Rightarrow> create_from_recipe S others t d recipe units (dispatch_metadata d session_id recipe plan) run_id drawn timeout clock ts
            | Some r \<Rightarrow> link_and_resume S others t r run_id (dd_failed_resume_attempts d) ts) (\<lambda>task t.
          (dispatch_receipt d decision reusable task, t))))))"

text \<open>The admission of \<open>execute\<close>, before the units are scheduled, with the states that its two reads see.\<close>

definition execute_admission :: "long_task_state \<Rightarrow> long_task_state \<Rightarrow> string \<Rightarrow> string \<Rightarrow> unit result" where
  "execute_admission t1 t2 task_id run_id =
     bind_result (required_text run_id ''durable Run id'') (\<lambda>run_id.
     bind_result (list_run_bindings t1 task_id) (\<lambda>bindings.
     if \<not> list_ex (\<lambda>b. lb_run_id b = run_id) bindings then
       Inl (ContractViolation ''recipe_root_binding_conflict'' ''Recipe is not bound to this Run'')
     else bind_result (list_units t2 task_id) (\<lambda>units.
       if list_ex (\<lambda>u. lu_run_id u \<noteq> None \<and> lu_status u \<noteq> Unit_COMPLETED) units then
         Inl (ContractViolation ''recipe_tree_reconciliation_required'' ''Legacy delegated Unit execution requires reconciliation'')
       else Inr ())))"

end
