(* ===== verification/Long_Task_Leases.thy ===== *)
theory Long_Task_Leases
  imports Long_Task_Machine
begin

text \<open>
  The lease of a unit: the abstract automaton the store refines, what a claim takes and
  leaves, and that a worker whose claim is no longer current is refused.
\<close>

section \<open>The abstract lease automaton\<close>

text \<open>
  What the store promises of one unit. A unit is open, held by a worker, done with an outcome, or
  replaced by the children of a split. Each acquisition opens a new epoch; a done or replaced
  unit stays so.
\<close>

type_synonym unit_outcome = "string option \<times> string option \<times> string option \<times> json_mapping"

datatype unit_phase = Phase_Open | Phase_Held string | Phase_Done string unit_outcome | Phase_Replaced string

type_synonym lease_state = "int \<times> unit_phase"

inductive lease_step :: "lease_state \<Rightarrow> lease_state \<Rightarrow> bool" where
  acquire_open: "lease_step (e, Phase_Open) (e + 1, Phase_Held w)"
| acquire_held: "lease_step (e, Phase_Held v) (e + 1, Phase_Held w)"
| release: "lease_step (e, Phase_Held w) (e, Phase_Open)"
| finish: "lease_step (e, Phase_Held w) (e, Phase_Done w out)"
| replaced: "lease_step (e, Phase_Held w) (e, Phase_Replaced w)"

inductive_cases lease_done_E: "lease_step (e, Phase_Done w out) v"
inductive_cases lease_replaced_E: "lease_step (e, Phase_Replaced w) v"
inductive_simps lease_open_iff: "lease_step (e, Phase_Open) v"

lemma lease_step_epoch: "lease_step v v' \<Longrightarrow> fst v \<le> fst v' \<and> fst v' \<le> fst v + 1"
  by (cases rule: lease_step.cases) auto

lemma lease_epoch_mono: "lease_step\<^sup>*\<^sup>* v v' \<Longrightarrow> fst v \<le> fst v'"
  by (induction rule: rtranclp_induct) (auto dest: lease_step_epoch)

lemma lease_done_final: "lease_step\<^sup>*\<^sup>* (e, Phase_Done w out) v \<Longrightarrow> v = (e, Phase_Done w out)"
  by (induction rule: rtranclp_induct) (auto elim: lease_done_E)

lemma lease_replaced_final: "lease_step\<^sup>*\<^sup>* (e, Phase_Replaced w) v \<Longrightarrow> v = (e, Phase_Replaced w)"
  by (induction rule: rtranclp_induct) (auto elim: lease_replaced_E)

text \<open>Within one epoch nobody else becomes the holder.\<close>

lemma lease_same_epoch:
  assumes "lease_step\<^sup>*\<^sup>* v v'" and "fst v' = fst v" and "snd v' = Phase_Held w"
  shows "v = v'"
  using assms
proof (induction rule: converse_rtranclp_induct)
  case (step x y)
  have "fst y = fst x" using lease_step_epoch [OF step.hyps(1)] lease_epoch_mono [OF step.hyps(2)] step.prems(1) by simp
  moreover from this have "y = v'" using step by simp
  ultimately show ?case using step.hyps(1) step.prems by (auto elim: lease_step.cases)
qed simp

definition unsettled :: "unit_phase \<Rightarrow> bool" where
  "unsettled p \<longleftrightarrow> p = Phase_Open \<or> (\<exists>w. p = Phase_Held w)"

lemma lease_acquire: "unsettled p \<Longrightarrow> lease_step (e, p) (e + 1, Phase_Held w)"
  by (auto simp: unsettled_def intro: lease_step.intros)

lemma lease_reacquire: "unsettled p \<Longrightarrow> lease_step\<^sup>*\<^sup>* (e, p) (e + 1 + int n, Phase_Held w)"
proof (induction n)
  case 0
  then show ?case using lease_acquire by auto
next
  case (Suc n)
  have "lease_step (e + 1 + int n, Phase_Held w) (e + 1 + int n + 1, Phase_Held w)" by (rule acquire_held)
  then show ?case using Suc by (auto simp: algebra_simps)
qed

section \<open>The abstraction\<close>

definition phase_of :: "long_task_unit_record \<Rightarrow> unit_phase" where
  "phase_of u = (if lu_status u = Unit_COMPLETED then
       Phase_Done (str_or_empty (lu_settled_by_worker_id u))
         (lu_output_ref u, lu_artifact_digest u, lu_run_id u, lu_validation_receipt u)
     else if lu_status u = Unit_EXPANDED then Phase_Replaced (str_or_empty (lu_settled_by_worker_id u))
     else if unit_active u then Phase_Held (str_or_empty (lu_worker_id u)) else Phase_Open)"

definition lease_view :: "long_task_unit_record \<Rightarrow> lease_state" where
  "lease_view u = (lu_lease_epoch u, phase_of u)"

lemma unsettled_phase: "unsettled (phase_of u) \<longleftrightarrow> lu_status u \<noteq> Unit_COMPLETED \<and> lu_status u \<noteq> Unit_EXPANDED"
  by (auto simp: unsettled_def phase_of_def)

lemma held_to_phase:
  "\<exists>w. lease_step\<^sup>*\<^sup>* (e, Phase_Held w) (e, phase_of u)"
proof (cases "phase_of u")
  case (Phase_Held w)
  then show ?thesis by (intro exI [of _ w]) simp
qed (auto intro!: lease_step.intros r_into_rtranclp exI)

lemma same_epoch_view:
  assumes "unit_evolves u u'" and "lu_lease_epoch u' = lu_lease_epoch u"
  shows "lease_step\<^sup>*\<^sup>* (lease_view u) (lease_view u')"
proof -
  have d: "unit_active u' \<Longrightarrow> unit_active u \<and> lu_worker_id u' = lu_worker_id u"
    "lu_status u' \<in> {Unit_COMPLETED, Unit_EXPANDED} \<Longrightarrow>
       lu_status u = lu_status u' \<or> unit_active u \<and> lu_settled_by_worker_id u' = lu_worker_id u"
    using assms by (auto simp: unit_evolves_def lease_discipline_def)
  have k: "lu_status u = Unit_COMPLETED \<Longrightarrow> phase_of u' = phase_of u" "lu_status u = Unit_EXPANDED \<Longrightarrow> phase_of u' = phase_of u"
    using assms by (auto simp: unit_evolves_def phase_of_def)
  show ?thesis
  proof (cases "phase_of u' = phase_of u")
    case True
    then show ?thesis using assms(2) by (simp add: lease_view_def)
  next
    case False
    then have ns: "lu_status u \<noteq> Unit_COMPLETED" "lu_status u \<noteq> Unit_EXPANDED" using k by auto
    have act: "unit_active u" using False ns d unfolding phase_of_def by (auto split: if_splits)
    then have held: "phase_of u = Phase_Held (str_or_empty (lu_worker_id u))" using ns by (simp add: phase_of_def)
    have "lease_step (lu_lease_epoch u, Phase_Held (str_or_empty (lu_worker_id u))) (lu_lease_epoch u, phase_of u')"
      using False held ns d unfolding phase_of_def by (auto intro: lease_step.intros)
    then show ?thesis using assms(2) held by (simp add: lease_view_def r_into_rtranclp)
  qed
qed

theorem evolves_refines: "unit_evolves u u' \<Longrightarrow> lease_step\<^sup>*\<^sup>* (lease_view u) (lease_view u')"
proof (cases "lu_lease_epoch u' = lu_lease_epoch u")
  case False
  assume ev: "unit_evolves u u'"
  then have lt: "lu_lease_epoch u < lu_lease_epoch u'" and un: "unsettled (phase_of u)"
    using False by (auto simp: unit_evolves_def unsettled_phase)
  obtain w where w: "lease_step\<^sup>*\<^sup>* (lu_lease_epoch u', Phase_Held w) (lu_lease_epoch u', phase_of u')" using held_to_phase by blast
  have "lu_lease_epoch u + 1 + int (nat (lu_lease_epoch u' - lu_lease_epoch u - 1)) = lu_lease_epoch u'" using lt by simp
  then have "lease_step\<^sup>*\<^sup>* (lease_view u) (lu_lease_epoch u', Phase_Held w)"
    using lease_reacquire [OF un] unfolding lease_view_def by metis
  then show ?thesis using w unfolding lease_view_def by (rule rtranclp_trans)
qed (rule same_epoch_view)
section \<open>Claims\<close>

definition claimed_from :: "string \<Rightarrow> int \<Rightarrow> int \<Rightarrow> long_task_unit_record \<Rightarrow> long_task_unit_record" where
  "claimed_from worker duration now u = u\<lparr>lu_status := Unit_CLAIMED, lu_attempt := lu_attempt u + 1,
     lu_worker_id := Some worker, lu_lease_epoch := lu_lease_epoch u + 1, lu_lease_expires_at_ms := Some (now + duration),
     lu_settled_by_worker_id := None, lu_run_id := None\<rparr>"

lemma find_sorted_first:
  assumes "find P (sort_key f xs) = Some x"
  shows "x \<in> set xs" and "P x" and "\<forall>y \<in> set xs. P y \<longrightarrow> f x \<le> f y"
proof -
  have gen: "x \<in> set ys \<and> P x \<and> (\<forall>y \<in> set ys. P y \<longrightarrow> f x \<le> f y)" if "sorted (map f ys)" "find P ys = Some x" for ys
    using that by (induction ys) (auto split: if_splits)
  show "x \<in> set xs" "P x" "\<forall>y \<in> set xs. P y \<longrightarrow> f x \<le> f y" using gen [OF _ assms] by simp_all
qed

definition eligible :: "stored_long_task \<Rightarrow> string option \<Rightarrow> int \<Rightarrow> long_task_unit_record \<Rightarrow> bool" where
  "eligible s unit_id now u \<longleftrightarrow> (unit_id = None \<or> unit_id = Some (lu_id u)) \<and> claimable s now u"

lemma claim_next_Some:
  assumes "claim_next s i w dur now ts = (Inr (Some c), s')"
  obtains u where "u \<in> set (dict_values (sl_units s))" "eligible s i now u"
    "\<forall>v \<in> set (dict_values (sl_units s)). eligible s i now v \<longrightarrow> lu_position u \<le> lu_position v"
    "c = claimed_from w dur now u" "s' = touch (put_unit c s) ts" "int (length (active_units s now)) < lt_max_parallelism (sl_record s)"
proof -
  obtain u where u: "find (eligible s i now) (sort_key lu_position (dict_values (sl_units s))) = Some u"
    and r: "c = claimed_from w dur now u" "s' = touch (put_unit c s) ts" "int (length (active_units s now)) < lt_max_parallelism (sl_record s)"
    using assms unfolding claim_next_def eligible_def [symmetric]
    by (auto simp: Let_def claimed_from_def split: if_splits option.splits)
  show ?thesis using find_sorted_first [OF u] r by (intro that) auto
qed

lemma claim_next_None:
  assumes "claim_next s i w dur now ts = (Inr None, s')"
  shows "s' = s" and "int (length (active_units s now)) \<ge> lt_max_parallelism (sl_record s)
    \<or> (\<forall>u \<in> set (dict_values (sl_units s)). \<not> eligible s i now u)"
  using assms unfolding claim_next_def eligible_def [symmetric]
  by (auto simp: Let_def find_None_iff split: if_splits option.splits)

text \<open>Failing the expired units that have no attempt left changes neither what is claimable nor what is live.\<close>

lemma expired_not_claimable: "expired_exhausted now u \<Longrightarrow> \<not> claimable s now u \<and> \<not> (unit_active u \<and> lease_at u > now)
    \<and> lu_status u \<noteq> Unit_COMPLETED"
  by (auto simp: expired_exhausted_def claimable_def unit_active_def)

definition failed_expired :: "int \<Rightarrow> long_task_unit_record \<Rightarrow> long_task_unit_record" where
  "failed_expired now u = (if expired_exhausted now u
     then u\<lparr>lu_status := Unit_FAILED, lu_worker_id := None, lu_lease_expires_at_ms := None,
       lu_error_code := Some ''lease_expired_attempts_exhausted''\<rparr> else u)"

lemma fail_expired_values: "dict_values (sl_units (fail_expired now s)) = map (failed_expired now) (dict_values (sl_units s))"
  by (simp add: fail_expired_def failed_expired_def comp_def case_prod_beta)

lemma fail_expired_record: "sl_record (fail_expired now s) = sl_record s"
  by (simp add: fail_expired_def)

lemma fail_expired_completed: "completed_ids (fail_expired now s) = completed_ids s"
proof -
  have "lu_status (failed_expired now u) = Unit_COMPLETED \<longleftrightarrow> lu_status u = Unit_COMPLETED" "lu_id (failed_expired now u) = lu_id u" for u
    using expired_not_claimable [of now u] by (auto simp: failed_expired_def)
  then show ?thesis unfolding completed_ids_def fail_expired_values by (simp add: filter_map comp_def)
qed

lemma claimable_failed_expired: "claimable (fail_expired now s) now (failed_expired now u) \<longleftrightarrow> claimable s now u"
proof -
  have "claimable (fail_expired now s) now v = claimable s now v" for v by (simp add: claimable_def fail_expired_completed)
  then show ?thesis using expired_not_claimable [of now u s] by (auto simp: failed_expired_def claimable_def unit_active_def)
qed

lemma claimable_failed_same: "claimable s now (failed_expired now u) \<Longrightarrow> failed_expired now u = u"
  by (auto simp: failed_expired_def claimable_def unit_active_def)

lemma active_fail_expired: "length (active_units (fail_expired now s) now) = length (active_units s now)"
proof -
  have "(unit_active (failed_expired now u) \<and> lease_at (failed_expired now u) > now) = (unit_active u \<and> lease_at u > now)" for u
    using expired_not_claimable [of now u] by (auto simp: failed_expired_def unit_active_def)
  then show ?thesis unfolding active_units_def fail_expired_values by (simp add: filter_map comp_def)
qed
lemma length_filter_update: "length (filter P (dict_values (AList.update k v d))) \<le> length (filter P (dict_values d)) + 1"
  by (induction d) (auto split: if_splits)

lemma active_put: "length (active_units (touch (put_unit c s) ts) now) \<le> length (active_units s now) + 1"
proof -
  have "sl_units (touch (put_unit c s) ts) = AList.update (lu_id c) c (sl_units s)" by (simp add: touch_def put_unit_def)
  then show ?thesis unfolding active_units_def by (simp only: length_filter_update)
qed

text \<open>A successful claim: who gets it, from what, and what the store looks like afterwards.\<close>

definition claim_open :: "stored_long_task \<Rightarrow> int \<Rightarrow> bool" where
  "claim_open s now \<longleftrightarrow> \<not> deadline_elapsed s now \<and> task_budget_exhaustion s False = None
     \<and> lt_status (sl_record s) = Task_RUNNING \<and> lt_cancellation_requested_at_ms (sl_record s) = None
     \<and> \<not> list_ex (\<lambda>u. expired_exhausted now u \<and> lu_required u) (dict_values (sl_units s))"

lemma claim_stored_open:
  assumes "claim_open s now"
  shows "claim_stored i w dur now ts s =
     claim_next (if list_ex (expired_exhausted now) (dict_values (sl_units s)) then touch (fail_expired now s) ts else s) i w dur now ts"
proof -
  let ?expired = "filter (\<lambda>(k, u). expired_exhausted now u) (sl_units s)"
  have none: "find (\<lambda>(k, u). lu_required u) ?expired = None"
    using assms by (auto simp: claim_open_def find_None_iff list_ex_iff)
  have empty: "?expired = [] \<longleftrightarrow> \<not> list_ex (expired_exhausted now) (dict_values (sl_units s))"
    by (auto simp: filter_empty_conv list_ex_iff)
  show ?thesis using assms unfolding claim_stored_def Let_def none empty claim_open_def by simp
qed

lemma claim_stored_Some_open:
  assumes "base_ok s" and "claim_stored i w dur now ts s = (Inr (Some c), s')"
  shows "claim_open s now"
proof -
  let ?req = "find (\<lambda>(k, u). lu_required u) (filter (\<lambda>(k, u). expired_exhausted now u) (sl_units s))"
  have dl: "\<not> deadline_elapsed s now"
  proof
    assume e: "deadline_elapsed s now"
    obtain t where "expire_units s ts = (Inr (), t)" using expire_units_full [OF assms(1)] by blast
    then show False using assms(2) e by (simp add: claim_stored_def)
  qed
  moreover have bd: "task_budget_exhaustion s False = None"
  proof (rule ccontr)
    assume "task_budget_exhaustion s False \<noteq> None"
    then obtain k where k: "task_budget_exhaustion s False = Some k" by auto
    obtain t where "fail_budget s k ts = (Inr (), t)" using fail_budget_full [OF assms(1)] by blast
    then show False using assms(2) dl k by (simp add: claim_stored_def)
  qed
  moreover have st: "lt_status (sl_record s) = Task_RUNNING" "lt_cancellation_requested_at_ms (sl_record s) = None"
    using assms(2) dl bd by (auto simp: claim_stored_def split: if_splits)
  moreover have "?req = None"
  proof (rule ccontr)
    assume "?req \<noteq> None"
    then obtain k u where r: "?req = Some (k, u)" by auto
    have "base_ok (fail_expired now s)" using fail_expired_step [OF assms(1)] by (simp add: good_step_def)
    then obtain t where "fail_task (fail_expired now s) k ts = (Inr (), t)" by (rule fail_task_full)
    then show False using assms(2) dl bd st r by (simp add: claim_stored_def)
  qed
  ultimately show ?thesis by (auto simp: claim_open_def find_None_iff list_ex_iff)
qed

lemma map_of_put [simp]: "map_of (sl_units (put_unit c s)) (lu_id c) = Some c"
  by (simp add: put_unit_def update_conv')

lemma touch_views [simp]:
  "sl_units (touch s ts) = sl_units s" "completed_ids (touch s ts) = completed_ids s"
  "active_units (touch s ts) now = active_units s now" "claimable (touch s ts) = claimable s"
  "lt_max_parallelism (sl_record (touch s ts)) = lt_max_parallelism (sl_record s)"
  by (simp_all add: touch_def completed_ids_def active_units_def claimable_def fun_eq_iff)

definition claim_base :: "stored_long_task \<Rightarrow> int \<Rightarrow> string \<Rightarrow> stored_long_task" where
  "claim_base s now ts =
     (if list_ex (expired_exhausted now) (dict_values (sl_units s)) then touch (fail_expired now s) ts else s)"

lemma claim_base_values: "dict_values (sl_units (claim_base s now ts)) = map (failed_expired now) (dict_values (sl_units s))"
proof (cases "list_ex (expired_exhausted now) (dict_values (sl_units s))")
  case True
  then show ?thesis by (simp only: claim_base_def if_True touch_views fail_expired_values)
next
  case False
  then have "map (failed_expired now) (dict_values (sl_units s)) = dict_values (sl_units s)"
    by (intro map_idI) (auto simp: list_ex_iff failed_expired_def)
  then show ?thesis using False by (simp only: claim_base_def if_False)
qed

lemma claim_base_claimable: "claimable (claim_base s now ts) now (failed_expired now u) \<longleftrightarrow> claimable s now u"
proof (cases "list_ex (expired_exhausted now) (dict_values (sl_units s))")
  case True
  then show ?thesis by (simp add: claim_base_def claimable_failed_expired)
next
  case False
  then show ?thesis using expired_not_claimable [of now u s] by (auto simp: claim_base_def failed_expired_def claimable_def unit_active_def)
qed

lemma claim_base_rest: "length (active_units (claim_base s now ts) now) = length (active_units s now)"
    "lt_max_parallelism (sl_record (claim_base s now ts)) = lt_max_parallelism (sl_record s)"
  by (simp_all add: claim_base_def active_fail_expired fail_expired_record)

lemma failed_expired_id [simp]: "lu_id (failed_expired now u) = lu_id u" "lu_position (failed_expired now u) = lu_position u"
  by (simp_all add: failed_expired_def)

lemma claim_base_eligible: "eligible (claim_base s now ts) i now (failed_expired now u) \<longleftrightarrow> eligible s i now u"
  by (simp add: eligible_def claim_base_claimable)

lemma eligible_not_expired: "eligible s i now u \<Longrightarrow> failed_expired now u = u"
  using expired_not_claimable by (auto simp: eligible_def failed_expired_def)

lemma claim_stored_Some:
  assumes ok: "base_ok s" and c: "claim_stored i w dur now ts s = (Inr (Some c), s')"
  obtains u where "u \<in> set (dict_values (sl_units s))" "eligible s i now u"
    "\<forall>v \<in> set (dict_values (sl_units s)). eligible s i now v \<longrightarrow> lu_position u \<le> lu_position v"
    "c = claimed_from w dur now u" "map_of (sl_units s') (lu_id c) = Some c"
    "int (length (active_units s' now)) \<le> lt_max_parallelism (sl_record s')"
    "int (length (active_units s now)) < lt_max_parallelism (sl_record s)"
proof -
  have "claim_next (claim_base s now ts) i w dur now ts = (Inr (Some c), s')"
    using claim_stored_open [OF claim_stored_Some_open [OF ok c]] c by (simp add: claim_base_def)
  then obtain v where v: "v \<in> set (dict_values (sl_units (claim_base s now ts)))" "eligible (claim_base s now ts) i now v"
    "\<forall>x \<in> set (dict_values (sl_units (claim_base s now ts))). eligible (claim_base s now ts) i now x \<longrightarrow> lu_position v \<le> lu_position x"
    "c = claimed_from w dur now v" "s' = touch (put_unit c (claim_base s now ts)) ts"
    "int (length (active_units (claim_base s now ts) now)) < lt_max_parallelism (sl_record (claim_base s now ts))"
    by (rule claim_next_Some)
  obtain u where u: "u \<in> set (dict_values (sl_units s))" "v = failed_expired now u" using v(1) unfolding claim_base_values by auto
  have el: "eligible s i now u" using v(2) u(2) by (simp add: claim_base_eligible)
  have "v = u" using eligible_not_expired [OF el] u(2) by simp
  moreover have "\<forall>x \<in> set (dict_values (sl_units s)). eligible s i now x \<longrightarrow> lu_position u \<le> lu_position x"
  proof (intro ballI impI)
    fix x assume "x \<in> set (dict_values (sl_units s))" "eligible s i now x"
    then show "lu_position u \<le> lu_position x"
      using v(3) [rule_format, of "failed_expired now x"] u(2) unfolding claim_base_values
      by (simp add: claim_base_eligible del: map_map list.map_comp)
  qed
  moreover have "int (length (active_units s' now)) \<le> lt_max_parallelism (sl_record s')"
    using active_put [of c "claim_base s now ts" ts now] v(6) unfolding v(5) by (simp add: put_unit_def)
  moreover have "int (length (active_units s now)) < lt_max_parallelism (sl_record s)" using v(6) unfolding claim_base_rest .
  ultimately show ?thesis using u(1) el v(4,5) by (intro that [of u]) simp_all
qed

lemma claim_stored_None:
  assumes "claim_open s now" and "claim_stored i w dur now ts s = (Inr None, s')"
  shows "int (length (active_units s now)) \<ge> lt_max_parallelism (sl_record s)
    \<or> (\<forall>u \<in> set (dict_values (sl_units s)). \<not> eligible s i now u)"
proof -
  have "claim_next (claim_base s now ts) i w dur now ts = (Inr None, s')"
    using claim_stored_open [OF assms(1)] assms(2) by (simp add: claim_base_def)
  from claim_next_None(2) [OF this] show ?thesis
    unfolding claim_base_rest claim_base_values by (auto simp: claim_base_eligible)
qed

text \<open>An open task hands out a unit exactly when a slot is free and a unit can be taken.\<close>

lemma claim_next_returns: "\<exists>r s'. claim_next s i w dur now ts = (Inr r, s')"
  by (simp add: claim_next_def Let_def split: option.split)

lemma claim_stored_grants:
  assumes ok: "base_ok s" and opn: "claim_open s now"
  shows "(\<exists>c. fst (claim_stored i w dur now ts s) = Inr (Some c)) \<longleftrightarrow>
     int (length (active_units s now)) < lt_max_parallelism (sl_record s) \<and> list_ex (eligible s i now) (dict_values (sl_units s))"
proof -
  obtain r s' where c: "claim_stored i w dur now ts s = (Inr r, s')"
    unfolding claim_stored_open [OF opn] using claim_next_returns by blast
  show ?thesis
  proof (cases r)
    case None
    then have "claim_stored i w dur now ts s = (Inr None, s')" using c by simp
    from claim_stored_None [OF opn this] show ?thesis using c None by (auto simp: list_ex_iff)
  next
    case (Some u)
    then have "claim_stored i w dur now ts s = (Inr (Some u), s')" using c by simp
    from claim_stored_Some [OF ok this] show ?thesis using c Some by (metis fst_conv list_ex_iff)
  qed
qed
section \<open>Calls that need a claim\<close>

text \<open>A worker that presents another epoch than the unit's is refused.\<close>

definition refused :: "'a result \<times> 's \<Rightarrow> bool" where
  "refused m \<longleftrightarrow> isl (fst m)"

lemma refused_bind: "refused m \<Longrightarrow> refused (bind_op m f)"
  by (cases m; cases "fst m") (auto simp: refused_def)

lemma refused_Inl [simp]: "refused (Inl x, s)"
  by (simp add: refused_def)

lemma stale_claim_refused:
  assumes "base_ok s" and "lu_lease_epoch u \<noteq> e"
  shows "refused (require_unit_claim s u w e now ts)"
proof (cases "deadline_elapsed s now")
  case True
  obtain t where "expire_units s ts = (Inr (), t)" using expire_units_full [OF assms(1)] by blast
  then show ?thesis using True by (simp add: require_unit_claim_def)
next
  case False
  then show ?thesis using assms(2) by (simp add: require_unit_claim_def read_op_def split: sum.split)
qed

lemma claimed_op_refused:
  assumes ok: "base_ok s" and u: "map_of (sl_units s) (strip k) = Some u" and e: "lu_lease_epoch u \<noteq> e"
  shows "refused (read_op (require_unit s k) s (\<lambda>u. bind_op (require_unit_claim s u w e now ts) (\<lambda>_ s. f u s)))"
  using u ok e by (auto simp: read_op_def require_unit_def required_text_def Let_def intro: refused_bind stale_claim_refused)

lemma stale_ops_refused:
  assumes ok: "base_ok s" and u: "map_of (sl_units s) (strip k) = Some u" and e: "lu_lease_epoch u \<noteq> e"
  shows "refused (bind_unit_run_stored k w e run now ts s)" and "refused (renew_unit_lease_stored k w e dur now ts s)"
    and "refused (update_unit_progress_stored k w e meta now ts s)" and "refused (complete_unit_stored k w e r now ts s)"
    and "refused (settle_unit_failure_stored k w e d now ts s)" and "refused (expand_unit_stored k w e p d now ts s)"
    and "refused (interrupt_unit_stored k w e reason now ts s)"
proof -
  note c = claimed_op_refused [OF ok u e]
  show "refused (bind_unit_run_stored k w e run now ts s)" unfolding bind_unit_run_stored_def by (rule c)
  show "refused (renew_unit_lease_stored k w e dur now ts s)" unfolding renew_unit_lease_stored_def by (rule c)
  show "refused (update_unit_progress_stored k w e meta now ts s)" unfolding update_unit_progress_stored_def by (rule c)
  show "refused (settle_unit_failure_stored k w e d now ts s)" unfolding settle_unit_failure_stored_def by (rule c)
  show "refused (interrupt_unit_stored k w e reason now ts s)" unfolding interrupt_unit_stored_def by (rule c)
  have r: "require_unit s k = Inr u \<or> (\<exists>x. require_unit s k = Inl x)"
    using u by (simp add: require_unit_def required_text_def Let_def)
  have b: "refused (bind_op (require_unit_claim s u w e now ts) f)" for f :: "unit \<Rightarrow> stored_long_task \<Rightarrow> long_task_record task_op"
    by (rule refused_bind [OF stale_claim_refused [OF ok e]])
  show "refused (complete_unit_stored k w e r now ts s)"
    unfolding complete_unit_stored_def using r e b by (auto simp: read_op_def)
  show "refused (expand_unit_stored k w e p d now ts s)"
    unfolding expand_unit_stored_def using r e b by (auto simp: read_op_def)
qed

lemma on_task_refused:
  assumes "map_of t (strip i) = Some s" and "refused (f s)"
  shows "refused (on_task t i f)"
proof (cases "require_state t i")
  case (Inr p)
  then have "p = (strip i, s)" using assms(1) by (auto simp: require_state_def bind_result_Inr_iff required_text_Inr split: option.splits)
  then show ?thesis using Inr assms(2) by (cases "f s") (simp add: on_task_def read_op_def refused_def)
qed (simp add: on_task_def read_op_def)

lemma stale_calls_refused:
  assumes t: "repo_ok t" and s: "map_of t (strip i) = Some s" and u: "map_of (sl_units s) (strip k) = Some u" and e: "lu_lease_epoch u \<noteq> e"
  shows "refused (bind_unit_run t i k w e run now ts)" "refused (renew_unit_lease t i k w e dur now ts)"
    "refused (update_unit_progress t i k w e meta now ts)" "refused (complete_unit t i k w e r now ts)"
    "refused (settle_unit_failure t i k w e d now ts)" "refused (expand_unit t i k w e p d now ts)"
    "refused (interrupt_unit t i k w e reason now ts)"
proof -
  have ok: "base_ok s" using repo_okD(2) [OF t s] by (simp add: task_ok_def)
  note r = stale_ops_refused [OF ok u e]
  show "refused (bind_unit_run t i k w e run now ts)" unfolding bind_unit_run_def by (rule on_task_refused [OF s]) (rule r)
  show "refused (renew_unit_lease t i k w e dur now ts)"
    unfolding renew_unit_lease_def by (auto intro: on_task_refused [OF s] r)
  show "refused (update_unit_progress t i k w e meta now ts)" unfolding update_unit_progress_def by (rule on_task_refused [OF s]) (rule r)
  show "refused (complete_unit t i k w e r now ts)" unfolding complete_unit_def by (rule on_task_refused [OF s]) (rule r)
  show "refused (settle_unit_failure t i k w e d now ts)" unfolding settle_unit_failure_def by (rule on_task_refused [OF s]) (rule r)
  show "refused (expand_unit t i k w e p d now ts)" unfolding expand_unit_def by (auto intro: on_task_refused [OF s] r)
  show "refused (interrupt_unit t i k w e reason now ts)" unfolding interrupt_unit_def by (rule on_task_refused [OF s]) (rule r)
qed

text \<open>A claim through the repository.\<close>

lemma on_task_Inr:
  assumes "on_task t i f = (Inr x, t')"
  obtains s s' where "map_of t (strip i) = Some s" "f s = (Inr x, s')" "t' = AList.update (strip i) s' t"
proof (cases "require_state t i")
  case (Inr p)
  obtain s where p: "p = (strip i, s)" "map_of t (strip i) = Some s"
    using Inr by (auto simp: require_state_def bind_result_Inr_iff required_text_Inr split: option.splits)
  then show ?thesis using that [OF p(2)] assms Inr by (cases "f s") (simp add: on_task_def read_op_def)
qed (use assms in \<open>simp add: on_task_def read_op_def\<close>)

lemma claim_with_Some:
  assumes ok: "repo_ok t" and c: "claim_with t i k w dur now ts = (Inr (Some c), t')"
  obtains s s' where "map_of t (strip i) = Some s" "map_of t' (strip i) = Some s'" "task_ok s" "repo_ok t'"
    "claim_stored k (strip w) dur now ts s = (Inr (Some c), s')" "0 < dur"
proof -
  have d: "0 < dur" and on: "on_task t i (claim_stored k (strip w) dur now ts) = (Inr (Some c), t')"
    using c by (auto simp: claim_with_def read_op_Inr required_text_Inr split: if_splits)
  obtain s s' where s: "map_of t (strip i) = Some s" "claim_stored k (strip w) dur now ts s = (Inr (Some c), s')"
      "t' = AList.update (strip i) s' t"
    using on by (rule on_task_Inr)
  have "repo_ok t'" using claim_with_repo [OF ok, of i k w dur now ts] c by (simp add: repo_step_def)
  then show ?thesis using that s d repo_okD(2) [OF ok s(1)] by (simp add: update_conv')
qed

lemma claim_with_epoch:
  assumes ok: "repo_ok t" and c: "claim_with t i k w dur now ts = (Inr (Some c), t')"
  obtains s u s' where "map_of t (strip i) = Some s" "map_of (sl_units s) (lu_id c) = Some u"
    "lu_lease_epoch c = lu_lease_epoch u + 1" "map_of t' (strip i) = Some s'" "map_of (sl_units s') (lu_id c) = Some c" "repo_ok t'"
proof -
  obtain s s' where s: "map_of t (strip i) = Some s" "map_of t' (strip i) = Some s'" "task_ok s" "repo_ok t'"
    "claim_stored k (strip w) dur now ts s = (Inr (Some c), s')" by (rule claim_with_Some [OF ok c])
  have base: "base_ok s" using s(3) by (simp add: task_ok_def)
  obtain u where u: "u \<in> set (dict_values (sl_units s))" "c = claimed_from (strip w) dur now u" "map_of (sl_units s') (lu_id c) = Some c"
    using claim_stored_Some [OF base s(5)] by blast
  have "map_of (sl_units s) (lu_id u) = Some u" using in_values [OF base_okD(2) [OF base] u(1)] by blast
  then show ?thesis using that s u by (simp add: claimed_from_def)
qed

end
