(* ===== verification/Long_Task_Outcomes.thy ===== *)
theory Long_Task_Outcomes
  imports Long_Task_Leases
begin

text \<open>
  How tasks end: what finalization decides, that creating a task or completing a unit twice
  answers as the first time, and what a restart, a deadline and a budget leave.
\<close>

section \<open>Finalization\<close>

lemma bind_return_Inr: "m = (Inr (), s') \<Longrightarrow> bind_op m (\<lambda>_ s. (Inr (f s), s)) = (Inr (f s'), s')"
  by simp

definition finalize_cases :: "int \<Rightarrow> stored_long_task \<Rightarrow> long_task_status" where
  "finalize_cases now s =
     (if deadline_elapsed s now then Task_FAILED
      else if lt_cancellation_requested_at_ms (sl_record s) \<noteq> None then Task_CANCELED
      else if lt_status (sl_record s) \<noteq> Task_RUNNING then lt_status (sl_record s)
      else if list_ex (\<lambda>u. lu_status u = Unit_FAILED) (required_units s) then Task_FAILED
      else if list_all (\<lambda>u. lu_status u = Unit_COMPLETED) (required_units s) then Task_COMPLETED
      else if has_runnable_work s now then Task_RUNNING
      else if list_ex (\<lambda>u. lu_status u = Unit_BLOCKED) (required_units s) then Task_PAUSED
      else Task_FAILED)"

text \<open>Finalization always returns, and its outcome is decided by the units.\<close>

lemma finalize_outcome:
  assumes ok: "task_ok s"
  obtains s' where "finalize_stored now ts s = (Inr (sl_record s'), s')" "lt_status (sl_record s') = finalize_cases now s"
    "finalize_cases now s = Task_RUNNING \<Longrightarrow> s' = s"
proof -
  have base: "base_ok s" and units: "units_ok (sl_units s)" using ok by (simp_all add: task_ok_def base_okD(2))
  let ?step = "let required = required_units s in
        if deadline_elapsed s now then expire_units s ts
        else if lt_cancellation_requested_at_ms (sl_record s) \<noteq> None then (Inr (), cancel_units s ts)
        else if lt_status (sl_record s) \<noteq> Task_RUNNING then (Inr (), s)
        else if list_ex (\<lambda>u. lu_status u = Unit_FAILED) required then (Inr (), set_status s Task_FAILED ts)
        else if list_all (\<lambda>u. lu_status u = Unit_COMPLETED) required then (Inr (), set_status s Task_COMPLETED ts)
        else if list_ex (\<lambda>u. lu_status u = Unit_BLOCKED) required \<and> \<not> has_runnable_work s now then
          (Inr (), set_status s Task_PAUSED ts)
        else if \<not> has_runnable_work s now then
          (case find (\<lambda>u. lu_status u \<noteq> Unit_COMPLETED) required of
             None \<Rightarrow> (Inr (), s)
           | Some stranded \<Rightarrow>
               fail_task (put_unit (stranded\<lparr>lu_status := Unit_FAILED, lu_worker_id := None,
                 lu_lease_expires_at_ms := None,
                 lu_error_code := Some (text_or (lu_error_code stranded) ''long_task_no_runnable_work'')\<rparr>) s)
                 (lu_id stranded) ts)
        else (Inr (), s)"
  have "\<exists>s'. ?step = (Inr (), s') \<and> lt_status (sl_record s') = finalize_cases now s \<and> (finalize_cases now s = Task_RUNNING \<longrightarrow> s' = s)"
  proof -
    consider (deadline) "deadline_elapsed s now"
      | (stranded) "\<not> deadline_elapsed s now" "lt_cancellation_requested_at_ms (sl_record s) = None" "lt_status (sl_record s) = Task_RUNNING"
          "\<not> list_ex (\<lambda>u. lu_status u = Unit_FAILED) (required_units s)" "\<not> list_all (\<lambda>u. lu_status u = Unit_COMPLETED) (required_units s)"
          "\<not> list_ex (\<lambda>u. lu_status u = Unit_BLOCKED) (required_units s)" "\<not> has_runnable_work s now"
      | (simple) "\<not> deadline_elapsed s now"
          "lt_cancellation_requested_at_ms (sl_record s) \<noteq> None \<or> lt_status (sl_record s) \<noteq> Task_RUNNING
           \<or> list_ex (\<lambda>u. lu_status u = Unit_FAILED) (required_units s) \<or> list_all (\<lambda>u. lu_status u = Unit_COMPLETED) (required_units s)
           \<or> list_ex (\<lambda>u. lu_status u = Unit_BLOCKED) (required_units s) \<or> has_runnable_work s now" by blast
    then show ?thesis
    proof cases
      case deadline
      obtain t where "expire_units s ts = (Inr (), t)" "lt_status (sl_record t) = Task_FAILED" using expire_units_full [OF base] by blast
      then show ?thesis using deadline by (simp add: finalize_cases_def)
    next
      case stranded
      obtain u where f: "find (\<lambda>u. lu_status u \<noteq> Unit_COMPLETED) (required_units s) = Some u"
        using stranded(5) by (cases "find (\<lambda>u. lu_status u \<noteq> Unit_COMPLETED) (required_units s)") (auto simp: find_None_iff list_all_iff)
      let ?u = "u\<lparr>lu_status := Unit_FAILED, lu_worker_id := None, lu_lease_expires_at_ms := None,
          lu_error_code := Some (text_or (lu_error_code u) ''long_task_no_runnable_work'')\<rparr>"
      have "base_ok (put_unit ?u s)" using stranded_unit_step [OF base f] by (simp add: good_step_def)
      then obtain t where "fail_task (put_unit ?u s) (lu_id u) ts = (Inr (), t)" "lt_status (sl_record t) = Task_FAILED"
        by (rule fail_task_full)
      then show ?thesis using stranded f by (simp add: finalize_cases_def)
    next
      case simple
      then show ?thesis by (auto simp: finalize_cases_def cancel_units_def Let_def)
    qed
  qed
  then obtain s' where s': "?step = (Inr (), s')" "lt_status (sl_record s') = finalize_cases now s"
      "finalize_cases now s = Task_RUNNING \<longrightarrow> s' = s" by blast
  show ?thesis by (rule that [OF _ s'(2)]) (unfold finalize_stored_def, rule bind_return_Inr, rule s'(1), use s'(3) in blast)
qed
section \<open>Replays\<close>

lemma require_unit_known: "require_unit s k = Inr u \<Longrightarrow> map_of (sl_units s) (strip k) = Some u \<and> strip k \<noteq> []"
  by (auto simp: require_unit_def bind_result_Inr_iff required_text_Inr split: option.splits)

lemma complete_stored_Inr:
  assumes ok: "base_ok s" and c: "complete_unit_stored k w e r now ts s = (Inr x, s')"
  obtains u where "require_unit s' k = Inr u" "lu_status u = Unit_COMPLETED" "lu_lease_epoch u = e" "strip w \<noteq> []"
    "lu_settled_by_worker_id u = Some (strip w)" "matches_result u r" "x = sl_record s'"
proof -
  obtain u where u: "require_unit s k = Inr u" using c by (cases "require_unit s k") (auto simp: complete_unit_stored_def read_op_def)
  show ?thesis
  proof (cases "lu_status u = Unit_COMPLETED")
    case True
    then have "lu_lease_epoch u = e \<and> lu_settled_by_worker_id u = Some (strip w) \<and> matches_result u r \<and> x = sl_record s' \<and> s' = s \<and> strip w \<noteq> []"
      using c u by (auto simp: complete_unit_stored_def read_op_def required_text_def Let_def split: if_splits sum.splits)
    then show ?thesis using that [of u] True u by simp
  next
    case False
    let ?run = "if lr_run_id r \<noteq> None then lr_run_id r else lu_run_id u"
    obtain st where st: "require_unit_claim s u w e now ts = (Inr (), st)"
      and nc: "\<not> (lu_run_id u \<noteq> None \<and> lr_run_id r \<noteq> None \<and> lr_run_id r \<noteq> lu_run_id u)"
      and fin: "bind_op (refresh_totals (put_unit (completed_unit (strip w) ?run r u) st) ts) (\<lambda>_ s. (Inr (sl_record s), s)) = (Inr x, s')"
      and w: "strip w \<noteq> []"
      using c False u unfolding complete_unit_stored_def read_op_Inr Let_def
      by (auto simp: bind_op_Inr read_op_Inr required_text_Inr split: if_splits)
    have same: "st = s" "holds_claim s u w e now" using require_unit_claim_Inr [OF st] by auto
    let ?c = "completed_unit (strip w) ?run r u"
    obtain y where y: "refresh_totals (put_unit ?c s) ts = (Inr y, s')" "x = sl_record s'"
      using fin unfolding same(1) by (cases "refresh_totals (put_unit ?c s) ts"; cases "fst (refresh_totals (put_unit ?c s) ts)") auto
    have units: "sl_units s' = AList.update (lu_id u) ?c (sl_units s)"
      using y(1) by (auto simp: refresh_totals_def Let_def read_op_Inr touch_def put_unit_def completed_unit_def)
    have id: "lu_id u = strip k" using require_unit_Inr(4) [OF base_okD(2) [OF ok] u] .
    have "require_unit s' k = Inr ?c"
      using require_unit_known [OF u] units id by (simp add: require_unit_def required_text_def update_conv')
    moreover have "matches_result ?c r" using nc by (auto simp: matches_result_def completed_unit_def json_mapping_eq_def)
    ultimately show ?thesis using that [of ?c] same(2) w y(2) by (simp add: completed_unit_def holds_claim_def)
  qed
qed

lemma complete_stored_replay:
  assumes "base_ok s" and "complete_unit_stored k w e r now ts s = (Inr x, s')"
  shows "complete_unit_stored k w e r now' ts' s' = (Inr x, s')"
proof -
  obtain u where "require_unit s' k = Inr u" "lu_status u = Unit_COMPLETED" "lu_lease_epoch u = e" "strip w \<noteq> []"
    "lu_settled_by_worker_id u = Some (strip w)" "matches_result u r" "x = sl_record s'"
    using complete_stored_Inr [OF assms] .
  then show ?thesis by (simp add: complete_unit_stored_def read_op_def required_text_def)
qed

lemma on_task_replay:
  assumes "on_task t i f = (Inr x, t')" and "\<And>s s'. map_of t (strip i) = Some s \<Longrightarrow> f s = (Inr x, s') \<Longrightarrow> g s' = (Inr x, s')"
  shows "on_task t' i g = (Inr x, t')"
proof -
  obtain s s' where s: "map_of t (strip i) = Some s" "f s = (Inr x, s')" "t' = AList.update (strip i) s' t"
    using assms(1) by (rule on_task_Inr)
  have ne: "strip i \<noteq> []" using assms(1) by (auto simp: on_task_def read_op_Inr require_state_def bind_result_Inr_iff required_text_Inr)
  have "map_of t' (strip i) = Some s'" by (simp add: s(3) update_conv')
  then have "require_state t' i = Inr (strip i, s')" using ne by (simp add: require_state_def required_text_def)
  then show ?thesis using assms(2) [OF s(1,2)] \<open>map_of t' (strip i) = Some s'\<close> by (simp add: on_task_def read_op_def update_triv)
qed

section \<open>Creating a task twice\<close>

lemma list_all2_insort_key:
  assumes "list_all2 R xs ys" and "R x y" and "\<And>a b. R a b \<Longrightarrow> f a = g b"
  shows "list_all2 R (insort_key f x xs) (insort_key g y ys)"
  using assms by (induction rule: list_all2_induct) auto

lemma list_all2_sort_key:
  assumes "list_all2 R xs ys" and "\<And>a b. R a b \<Longrightarrow> f a = g b"
  shows "list_all2 R (sort_key f xs) (sort_key g ys)"
  using assms(1) by (induction rule: list_all2_induct) (auto intro: list_all2_insort_key assms(2))

lemma unit_from_spec_matches:
  assumes "unit_spec_ok c" and "clean_id task_id" and "unit_from_spec task_id c ts = Inr u"
  shows "unit_matches_spec u c \<and> lu_position u = ls_position c"
  using assms
  by (auto simp: unit_from_spec_def LongTaskUnitRecord_post_init_def bind_result_Inr_iff normalizer_Inr unit_matches_spec_def
      unit_spec_ok_def key_or_id_def str_or_empty_def clean_id_def required_text_Inr json_mapping_eq_def)

lemma new_task_matches:
  assumes c: "create_cmd_ok c" and s: "new_task i c ts = Inr s"
  shows "matches_create s c"
proof -
  have cc: "LongTaskCreateCommand_post_init c = Inr c" "\<forall>x \<in> set (lc_units c). unit_spec_ok x"
    using c specs_okD by (auto simp: create_cmd_ok_def constructed_def)
  have cl: "strip (lc_namespace c) = lc_namespace c" "strip (lc_kind c) = lc_kind c" "strip (lc_owner_id c) = lc_owner_id c"
      "strip (lc_created_by_run_id c) = lc_created_by_run_id c" and ids: "distinct (map ls_id (lc_units c))"
    using cc(1) by (auto simp: LongTaskCreateCommand_post_init_def bind_result_Inr_iff required_text_Inr Let_def split: if_splits
        dest: arg_cong [of _ _ lc_namespace] arg_cong [of _ _ lc_kind] arg_cong [of _ _ lc_owner_id] arg_cong [of _ _ lc_created_by_run_id])
  obtain r units b where rok: "record_ok r" and rf: "lt_namespace r = strip (lc_namespace c)" "lt_kind r = strip (lc_kind c)"
      "lt_owner_id r = strip (lc_owner_id c)" "lt_created_by_run_id r = strip (lc_created_by_run_id c)"
      "lt_max_parallelism r = lc_max_parallelism c" "lt_deadline_at_ms r = lc_deadline_at_ms c"
      "lt_budget_limits r = lc_budget_limits c" "lt_metadata r = lc_metadata c"
    and u: "map_result (\<lambda>spec. bind_result (unit_from_spec (lt_id r) spec ts) (\<lambda>u. Inr (ls_id spec, u))) (lc_units c) = Inr units"
    and eq: "s = \<lparr>sl_record = r, sl_units = dict_merge [] units, sl_bindings = [(lb_run_id b, b)], sl_usage_by_run = []\<rparr>"
    by (rule new_task_Inr [OF s])
  have tid: "clean_id (lt_id r)" using rok by (simp add: record_ok_def)
  let ?R = "\<lambda>u c. unit_matches_spec u c \<and> lu_position u = ls_position c"
  have all: "list_all2 (\<lambda>c e. fst e = ls_id c \<and> ?R (snd e) c) (lc_units c) units"
    by (rule list.rel_mono_strong [OF u [unfolded map_result_Inr_iff]])
       (use cc(2) tid unit_from_spec_matches in \<open>auto simp: bind_result_Inr_iff\<close>)
  have "map fst units = map ls_id (lc_units c)" using all by (induction rule: list_all2_induct) auto
  then have merged: "dict_merge [] units = units" using ids dict_merge_fresh [of units "[]"] by simp
  have "list_all2 ?R (dict_values units) (lc_units c)" using all by (induction rule: list_all2_induct) auto
  then have "list_all2 ?R (sort_key lu_position (dict_values units)) (sort_key ls_position (lc_units c))"
    by (rule list_all2_sort_key) simp
  then have "length (sort_key lu_position (dict_values units)) = length (sort_key ls_position (lc_units c))"
      "list_all (\<lambda>(u, spec). unit_matches_spec u spec) (zip (sort_key lu_position (dict_values units)) (sort_key ls_position (lc_units c)))"
    by (auto simp: list_all2_iff list_all_iff)
  then show ?thesis using rf cl by (simp add: matches_create_def Let_def eq merged json_mapping_eq_def)
qed

lemma create_replay:
  assumes c: "create_cmd_ok c" and r: "create S t i c ts = (Inr r, t')"
  shows "create S t' i c ts' = (Inr r, t')"
proof -
  have ne: "strip i \<noteq> []" using r by (auto simp: create_def read_op_Inr required_text_Inr)
  show ?thesis
  proof (cases "map_of t (strip i) = None \<and> find_active_state S t (lc_namespace c) (lc_owner_id c) (lc_kind c)
      (map_of (lc_metadata c) ''sessionId'') True = None")
    case False
    then show ?thesis using r ne by (auto simp: create_def read_op_def required_text_def split: option.splits if_splits)
  next
    case True
    then obtain s where s: "new_task (strip i) c ts = Inr s" "r = sl_record s" "t' = AList.update (lt_id (sl_record s)) s t"
      using r ne by (auto simp: create_def read_op_Inr required_text_Inr)
    have "lt_id (sl_record s) = strip i" using new_task_step(2) [OF c s(1)] by simp
    then have "map_of t' (strip i) = Some s" by (simp add: s(3) update_conv')
    then show ?thesis using ne new_task_matches [OF c s(1)] by (simp add: create_def read_op_def required_text_def s(2))
  qed
qed
section \<open>Restart\<close>

lemma recover_stored_running:
  assumes "lt_status (sl_record (snd (recover_stored reason wall ts s))) = Task_RUNNING"
  shows "snd (recover_stored reason wall ts s) = s" and "\<exists>u \<in> set (dict_values (sl_units s)). unit_active u \<and> lease_at u > wall"
proof -
  let ?live = "list_ex (\<lambda>u. unit_active u \<and> (case lu_lease_expires_at_ms u of None \<Rightarrow> False | Some n \<Rightarrow> n > wall)) (dict_values (sl_units s))"
  have c: "lt_status (sl_record s) = Task_RUNNING \<and> ?live"
    using assms by (auto simp: recover_stored_def cancel_units_def split: if_splits)
  then show "snd (recover_stored reason wall ts s) = s" by (simp add: recover_stored_def)
  show "\<exists>u \<in> set (dict_values (sl_units s)). unit_active u \<and> lease_at u > wall"
    using c by (force simp: list_ex_iff lease_at_def split: option.splits)
qed

section \<open>What a deadline and a budget do to settled tasks\<close>

text \<open>Neither the deadline nor the budget check of a claim looks at the status of the task.\<close>

lemma elapsed_deadline_fails_any_task:
  assumes "task_ok s" and "deadline_elapsed s now"
  shows "fst (claim_stored i w dur now ts s) = Inr None"
    and "lt_status (sl_record (snd (claim_stored i w dur now ts s))) = Task_FAILED"
proof -
  have "base_ok s" using assms(1) by (simp add: task_ok_def)
  then obtain t where "expire_units s ts = (Inr (), t)" "lt_status (sl_record t) = Task_FAILED" using expire_units_full by blast
  then show "fst (claim_stored i w dur now ts s) = Inr None"
    "lt_status (sl_record (snd (claim_stored i w dur now ts s))) = Task_FAILED"
    using assms(2) by (simp_all add: claim_stored_def)
qed

lemma exhausted_budget_reopens_any_task:
  assumes "task_ok s" and "\<not> deadline_elapsed s now" and "task_budget_exhaustion s False = Some kind"
    and "lt_budget_exhaustion_disposition (sl_record s) = Budget_PAUSE_RECOVERABLE"
  shows "lt_status (sl_record (snd (claim_stored i w dur now ts s))) = Task_PAUSED"
proof -
  have "base_ok s" using assms(1) by (simp add: task_ok_def)
  then obtain t where "fail_budget s kind ts = (Inr (), t)" "lt_status (sl_record t) = Task_PAUSED"
    using fail_budget_full [of s kind ts] assms(4) by (metis (no_types, lifting))
  then show ?thesis using assms(2,3) by (simp add: claim_stored_def)
qed

text \<open>A limit on reasoning tokens stops a task that has not run yet.\<close>

lemma reasoning_limit_blocks_new_task:
  assumes "new_task i c ts = Inr s" and "lm_max_reasoning_tokens (lc_budget_limits c) = Some n"
  shows "task_budget_exhaustion s False = Some ''reasoning_tokens_unreported''"
proof -
  obtain r where "sl_record s = r" "lt_usage r = no_usage" "lt_budget_limits r = lc_budget_limits c"
    using new_task_Inr [OF assms(1)] by (metis stored_long_task.select_convs(1))
  then show ?thesis using assms(2) by (simp add: task_budget_exhaustion_def Let_def no_usage_def)
qed

end
