(* ===== verification/Recipe_Laws.thy ===== *)
theory Recipe_Laws
  imports Recipe_Dispatch Long_Task_Outcomes
begin

text \<open>
  What the recipe and dispatch operations do: the units of a constructed recipe in closed form, the create
  command that they make, the binding of a Run to a task and how it survives later calls, and the effect of
  dispatch and continuation on the task store.
\<close>

section \<open>Constructed recipes\<close>

lemma backward_orderable:
  assumes "distinct (map fst g)" and "backward g"
  shows "orderable g"
proof -
  have edge: "\<exists>a b. a < b \<and> b < length g \<and> fst (g ! a) = d \<and> fst (g ! b) = i" if di: "(d, i) \<in> dependency_rel g" for d i
  proof -
    obtain ds where "(i, ds) \<in> set g" "d \<in> set ds" using di by (auto simp: dependency_rel_def)
    then obtain b where b: "b < length g" "g ! b = (i, ds)" by (auto simp: in_set_conv_nth)
    have "set (snd (g ! b)) \<subseteq> set (map fst (take b g))" using assms(2) b(1) by (simp only: backward_def)
    then have "d \<in> set (map fst (take b g))" using \<open>d \<in> set ds\<close> b(2) by auto
    then obtain a where "a < b" "fst (g ! a) = d" using b(1) by (auto simp: in_set_conv_nth)
    then show ?thesis using b by (intro exI [of _ a] exI [of _ b]) simp
  qed
  have path: "\<exists>a b. a < b \<and> b < length g \<and> fst (g ! a) = x \<and> fst (g ! b) = y" if "(x, y) \<in> (dependency_rel g)\<^sup>+" for x y
    using that
  proof (induction rule: trancl_induct)
    case (base y)
    then show ?case by (rule edge)
  next
    case (step y z)
    obtain a b where ab: "a < b" "b < length g" "fst (g ! a) = x" "fst (g ! b) = y" using step.IH by blast
    obtain c e where ce: "c < e" "e < length g" "fst (g ! c) = y" "fst (g ! e) = z" using edge [OF step.hyps(2)] by blast
    have "map fst g ! b = map fst g ! c" using ab ce by simp
    then have "b = c" using nth_eq_iff_index_eq [OF assms(1), of b c] ab ce by simp
    then show ?case using ab ce by (intro exI [of _ a] exI [of _ e]) simp
  qed
  have "(x, x) \<notin> (dependency_rel g)\<^sup>+" for x
  proof
    assume "(x, x) \<in> (dependency_rel g)\<^sup>+"
    then obtain a b where ab: "a < b" "b < length g" "fst (g ! a) = x" "fst (g ! b) = x" using path by blast
    then have "map fst g ! a = map fst g ! b" by simp
    then show False using nth_eq_iff_index_eq [OF assms(1), of a b] ab by simp
  qed
  then show ?thesis by (simp add: orderable_iff_acyclic acyclic_def)
qed

definition recipe_edges :: "execution_recipe_step list \<Rightarrow> dependency_graph" where
  "recipe_edges ss = map (\<lambda>s. (er_id s, er_depends_on s)) ss"

lemma check_recipe_order_Inr:
  "check_recipe_order ids known ss = Inr () \<Longrightarrow>
     \<forall>i < length ss. set (er_depends_on (ss ! i)) \<subseteq> known \<union> set (map er_id (take i ss))"
proof (induction ids known ss rule: check_recipe_order.induct)
  case (2 ids known s ss)
  then have s: "set (er_depends_on s) \<subseteq> known" and
    IH: "\<forall>i < length ss. set (er_depends_on (ss ! i)) \<subseteq> insert (er_id s) known \<union> set (map er_id (take i ss))"
    by (auto simp: Let_def split: if_splits)
  show ?case
  proof (intro allI impI)
    fix i assume "i < length (s # ss)"
    then show "set (er_depends_on ((s # ss) ! i)) \<subseteq> known \<union> set (map er_id (take i (s # ss)))"
      using s IH by (cases i) auto
  qed
qed simp

definition recipe_ok :: "execution_recipe \<Rightarrow> bool" where
  "recipe_ok r \<longleftrightarrow> constructed ExecutionRecipe_post_init r \<and> list_all (constructed ExecutionRecipeStep_post_init) (ec_steps r)"

lemma recipe_okD:
  assumes "recipe_ok r"
  shows "clean_id (ec_kind r)" and "ec_steps r \<noteq> []" and "distinct (map er_id (ec_steps r))" and "backward (recipe_edges (ec_steps r))"
    and "1 \<le> ec_max_parallelism r"
proof -
  have c: "ExecutionRecipe_post_init r = Inr r" using assms by (simp add: recipe_ok_def constructed_def)
  then have ok: "strip (ec_kind r) \<noteq> []" "ec_steps r \<noteq> []" "distinct (map er_id (ec_steps r))"
    "check_recipe_order (set (map er_id (ec_steps r))) {} (ec_steps r) = Inr ()" "1 \<le> ec_max_parallelism r"
    and e: "r\<lparr>ec_kind := strip (ec_kind r)\<rparr> = r"
    by (auto simp: ExecutionRecipe_post_init_def bind_result_Inr_iff required_text_Inr positive_int_Inr split: if_splits)
  show "clean_id (ec_kind r)" using ok(1) arg_cong [OF e, of ec_kind] by (simp add: clean_id_def)
  show "ec_steps r \<noteq> []" "distinct (map er_id (ec_steps r))" "1 \<le> ec_max_parallelism r" by (rule ok)+
  show "backward (recipe_edges (ec_steps r))"
    using check_recipe_order_Inr [OF ok(4)] by (simp add: backward_def recipe_edges_def take_map comp_def)
qed

lemma recipe_stepD:
  assumes "constructed ExecutionRecipeStep_post_init s"
  shows "clean_id (er_id s)" and "clean_id (er_kind s)" and "clean_ids (er_depends_on s)" and "er_id s \<notin> set (er_depends_on s)"
    and "clean_opt (er_input_ref s)" and "clean_opt (er_executor s)" and "clean_opt (er_plan_step_id s)" and "1 \<le> er_max_attempts s"
proof -
  have c: "ExecutionRecipeStep_post_init s = Inr s" using assms by (simp add: constructed_def)
  then have ok: "strip (er_id s) \<noteq> []" "strip (er_kind s) \<noteq> []" "[] \<notin> set (map strip (er_depends_on s))"
    "distinct (map strip (er_depends_on s))" "strip (er_id s) \<notin> set (map strip (er_depends_on s))" "1 \<le> er_max_attempts s"
    and e: "s\<lparr>er_id := strip (er_id s), er_kind := strip (er_kind s), er_depends_on := map strip (er_depends_on s),
      er_input_ref := optional_text (er_input_ref s), er_executor := optional_text (er_executor s),
      er_plan_step_id := optional_text (er_plan_step_id s)\<rparr> = s"
    by (auto simp: ExecutionRecipeStep_post_init_def bind_result_Inr_iff required_text_Inr positive_int_Inr Let_def split: if_splits)
  have deps: "map strip (er_depends_on s) = er_depends_on s" using arg_cong [OF e, of er_depends_on] by simp
  have i: "strip (er_id s) = er_id s" using arg_cong [OF e, of er_id] by simp
  show "clean_id (er_id s)" using ok(1) i by (simp add: clean_id_def)
  show "clean_id (er_kind s)" using ok(2) arg_cong [OF e, of er_kind] by (simp add: clean_id_def)
  have "strip d = d" if "d \<in> set (er_depends_on s)" for d using that deps by (metis in_set_conv_nth length_map nth_map)
  then show "clean_ids (er_depends_on s)" using ok(3,4) unfolding deps by (auto simp: clean_ids_def clean_id_def)
  show "er_id s \<notin> set (er_depends_on s)" using ok(5) unfolding deps i .
  show "clean_opt (er_input_ref s)" using arg_cong [OF e, of er_input_ref] optional_text_result_clean [of "er_input_ref s"] by simp
  show "clean_opt (er_executor s)" using arg_cong [OF e, of er_executor] optional_text_result_clean [of "er_executor s"] by simp
  show "clean_opt (er_plan_step_id s)" using arg_cong [OF e, of er_plan_step_id] optional_text_result_clean [of "er_plan_step_id s"] by simp
  show "1 \<le> er_max_attempts s" by (rule ok)
qed

section \<open>The units of a recipe\<close>

definition unit_of_step :: "int \<Rightarrow> execution_recipe_step \<Rightarrow> long_task_unit_spec" where
  "unit_of_step position s = (recipe_unit position s)\<lparr>ls_semantic_key := Some (er_id s)\<rparr>"

lemma unit_of_step_sel [simp]:
  "ls_id (unit_of_step p s) = er_id s" "ls_position (unit_of_step p s) = p" "ls_dependencies (unit_of_step p s) = er_depends_on s"
  "ls_semantic_key (unit_of_step p s) = Some (er_id s)" "ls_required (unit_of_step p s)" "ls_max_attempts (unit_of_step p s) = er_max_attempts s"
  by (simp_all add: unit_of_step_def recipe_unit_def)

lemma recipe_unit_constructed:
  assumes "constructed ExecutionRecipeStep_post_init s" and "0 \<le> p"
  shows "LongTaskUnitSpec_post_init (recipe_unit p s) = Inr (unit_of_step p s)"
    and "LongTaskUnitSpec_post_init (unit_of_step p s) = Inr (unit_of_step p s)"
proof -
  note D = recipe_stepD [OF assms(1)]
  have deps: "unique_text_tuple (map strip (er_depends_on s)) = er_depends_on s"
  proof -
    have "map strip (er_depends_on s) = er_depends_on s" using D(3) by (intro map_idI) (auto simp: clean_ids_def clean_id_def)
    then show ?thesis using D(3) by simp
  qed
  show "LongTaskUnitSpec_post_init (recipe_unit p s) = Inr (unit_of_step p s)"
    "LongTaskUnitSpec_post_init (unit_of_step p s) = Inr (unit_of_step p s)"
    using D deps assms(2)
    by (simp_all add: LongTaskUnitSpec_post_init_def recipe_unit_def unit_of_step_def key_or_id_def str_or_empty_def Let_def
        required_text_def clean_id_def non_negative_int_def positive_int_def)
qed

fun units_from :: "int \<Rightarrow> execution_recipe_step list \<Rightarrow> long_task_unit_spec list" where
  "units_from p [] = []"
| "units_from p (s # ss) = unit_of_step p s # units_from (p + 1) ss"

lemma compile_units_eq:
  "list_all (constructed ExecutionRecipeStep_post_init) ss \<Longrightarrow> 0 \<le> p \<Longrightarrow> compile_units covered p ss =
     (case find (\<lambda>s. planned_step s \<notin> covered) ss of
        None \<Rightarrow> Inr (units_from p ss)
      | Some s \<Rightarrow> Inl (ValueError (''execution recipe maps to an unadmitted plan step: '' @ planned_step s)))"
  by (induction ss arbitrary: p) (auto simp: recipe_unit_constructed split: option.splits)

lemma units_from_sel [simp]:
  "map ls_id (units_from p ss) = map er_id ss" "map ls_semantic_key (units_from p ss) = map (Some \<circ> er_id) ss"
  "spec_graph (units_from p ss) = recipe_edges ss" "length (units_from p ss) = length ss"
  "units_from p ss = [] \<longleftrightarrow> ss = []"
  by (induction ss arbitrary: p) (auto simp: spec_graph_def recipe_edges_def)

lemma units_from_positions: "map ls_position (units_from p ss) = map (\<lambda>i. p + int i) [0..<length ss]"
proof (induction ss arbitrary: p)
  case (Cons s ss)
  have "map (\<lambda>i. p + int i) [0..<length (s # ss)] = p # map (\<lambda>i. p + 1 + int i) [0..<length ss]"
    by (simp add: upt_rec [of 0] map_Suc_upt [symmetric] comp_def add.assoc del: upt_Suc)
  then show ?case using Cons.IH by simp
qed simp

lemma compile_recipe_units_eq:
  assumes "recipe_ok r"
  shows "compile_recipe_units r covered = Inr us \<longleftrightarrow> planned_step ` set (ec_steps r) = set covered \<and> us = units_from 0 (ec_steps r)"
proof -
  have c: "list_all (constructed ExecutionRecipeStep_post_init) (ec_steps r)" using assms by (simp add: recipe_ok_def)
  have n: "find (\<lambda>s. planned_step s \<notin> set covered) (ec_steps r) = None \<longleftrightarrow> planned_step ` set (ec_steps r) \<subseteq> set covered"
    by (auto simp: find_None_iff)
  have m: "filter (\<lambda>i. i \<notin> set (map planned_step (ec_steps r))) covered = [] \<longleftrightarrow> set covered \<subseteq> planned_step ` set (ec_steps r)"
    by (auto simp: filter_empty_conv)
  show ?thesis
  proof (cases "find (\<lambda>s. planned_step s \<notin> set covered) (ec_steps r)")
    case None
    then have e: "compile_units (set covered) 0 (ec_steps r) = Inr (units_from 0 (ec_steps r))" using compile_units_eq [OF c, of 0] by simp
    show ?thesis using m n None unfolding compile_recipe_units_def e Let_def by auto
  next
    case (Some s)
    then obtain x where e: "compile_units (set covered) 0 (ec_steps r) = Inl x" using compile_units_eq [OF c, of 0] by simp
    show ?thesis using n Some unfolding compile_recipe_units_def e by auto
  qed
qed

lemma list_all_units_from:
  "list_all (constructed ExecutionRecipeStep_post_init) ss \<Longrightarrow> 0 \<le> p \<Longrightarrow> specs_ok (units_from p ss)"
  by (induction ss arbitrary: p) (auto simp: specs_ok_def constructed_def recipe_unit_constructed)
section \<open>Commands of a recipe\<close>

definition descriptor_ok :: "durable_task_descriptor \<Rightarrow> bool" where
  "descriptor_ok d \<longleftrightarrow> constructed DurableTaskDescriptor_post_init d"

lemma descriptor_okD:
  assumes "descriptor_ok d"
  shows "clean_id (dd_namespace d)" and "clean_id (dd_owner_id d)" and "clean_id (dd_idempotency_key d)"
    and "0 \<le> dd_failed_resume_attempts d" and "\<And>t. dd_deadline_at_ms d = Some t \<Longrightarrow> 0 < t"
proof -
  have c: "DurableTaskDescriptor_post_init d = Inr d" using assms by (simp add: descriptor_ok_def constructed_def)
  then have ok: "strip (dd_namespace d) \<noteq> []" "strip (dd_owner_id d) \<noteq> []" "strip (dd_idempotency_key d) \<noteq> []"
    "0 \<le> dd_failed_resume_attempts d" "\<And>t. dd_deadline_at_ms d = Some t \<Longrightarrow> 0 < t"
    and e: "d\<lparr>dd_namespace := strip (dd_namespace d), dd_owner_id := strip (dd_owner_id d),
      dd_idempotency_key := strip (dd_idempotency_key d), dd_message := optional_text (dd_message d)\<rparr> = d"
    by (auto simp: DurableTaskDescriptor_post_init_def bind_result_Inr_iff required_text_Inr non_negative_int_Inr split: if_splits option.splits)
  show "clean_id (dd_namespace d)" using ok(1) arg_cong [OF e, of dd_namespace] by (simp add: clean_id_def)
  show "clean_id (dd_owner_id d)" using ok(2) arg_cong [OF e, of dd_owner_id] by (simp add: clean_id_def)
  show "clean_id (dd_idempotency_key d)" using ok(3) arg_cong [OF e, of dd_idempotency_key] by (simp add: clean_id_def)
  show "0 \<le> dd_failed_resume_attempts d" and "\<And>t. dd_deadline_at_ms d = Some t \<Longrightarrow> 0 < t" by (rule ok | fact ok(5))+
qed

lemma backward_no_missing:
  assumes "backward g"
  shows "filter (\<lambda>d. d \<notin> set (map fst g)) (concat (map snd g)) = []"
proof -
  have "d \<in> set (map fst g)" if d: "d \<in> set (concat (map snd g))" for d
  proof -
    obtain e where e: "e \<in> set g" "d \<in> set (snd e)" using d by auto
    then obtain i where i: "i < length g" "d \<in> set (snd (g ! i))" by (metis in_set_conv_nth)
    have "set (snd (g ! i)) \<subseteq> set (map fst (take i g))" using assms i(1) by (simp only: backward_def)
    then show ?thesis using i(2) set_take_subset [of i g] by auto
  qed
  then show ?thesis by (simp only: filter_empty_conv) blast
qed

lemma recipe_command_ok:
  assumes r: "recipe_ok r" and d: "descriptor_ok d" and run: "clean_id run_id" and time: "\<And>n. timeout = Some n \<Longrightarrow> 0 < clock + n"
  shows "create_cmd_ok (recipe_command d r (units_from 0 (ec_steps r)) metadata run_id timeout clock)"
proof -
  note R = recipe_okD [OF r] and D = descriptor_okD [OF d]
  let ?us = "units_from 0 (ec_steps r)"
  have g: "map fst (spec_graph ?us) = map ls_id ?us" "map snd (spec_graph ?us) = map ls_dependencies ?us"
    by (simp_all add: spec_graph_def comp_def del: units_from_sel)
  have miss: "filter (\<lambda>x. x \<notin> set (map ls_id ?us)) (concat (map ls_dependencies ?us)) = []"
    using backward_no_missing [of "spec_graph ?us"] R(4) unfolding g by simp
  have ord: "orderable (spec_graph ?us)"
    using backward_orderable [of "recipe_edges (ec_steps r)"] R(3,4) by (simp add: recipe_edges_def comp_def)
  have req: "list_ex ls_required ?us" using R(2) by (cases "ec_steps r") simp_all
  have pos: "distinct (map ls_position ?us)" unfolding units_from_positions by (simp add: distinct_map inj_on_def)
  have key: "distinct (map ls_semantic_key ?us)" using R(3) by (simp add: distinct_map inj_on_def)
  have ids: "distinct (map ls_id ?us)" using R(3) by simp
  have deadline: "optional_positive_int (case dd_deadline_at_ms d of Some t \<Rightarrow> Some t | None \<Rightarrow> map_option (\<lambda>n. clock + n) timeout)
      ''long task deadline_at_ms'' = Inr (case dd_deadline_at_ms d of Some t \<Rightarrow> Some t | None \<Rightarrow> map_option (\<lambda>n. clock + n) timeout)"
    using D(5) time by (cases "dd_deadline_at_ms d"; cases timeout) (auto simp: optional_positive_int_def positive_int_def)
  have "LongTaskCreateCommand_post_init (recipe_command d r ?us metadata run_id timeout clock)
      = Inr (recipe_command d r ?us metadata run_id timeout clock)"
    using R(1,2,5) D(1,2) run miss ord req pos key ids deadline
    by (simp add: LongTaskCreateCommand_post_init_def recipe_command_def Let_def positive_int_def del: units_from_sel(1-3))
  moreover have "specs_ok ?us" using r by (intro list_all_units_from) (simp_all add: recipe_ok_def)
  ultimately show ?thesis by (simp add: create_cmd_ok_def constructed_def recipe_command_def)
qed

section \<open>Bound Runs\<close>

definition bound :: "long_task_state \<Rightarrow> string \<Rightarrow> string \<Rightarrow> bool" where
  "bound t i run \<longleftrightarrow> (\<exists>s. map_of t i = Some s \<and> run \<in> dom (map_of (sl_bindings s)))"

lemma bound_advance: "tasks_advance t t' \<Longrightarrow> bound t i run \<Longrightarrow> bound t' i run"
  unfolding tasks_advance_def bound_def advances_def by (meson map_le_implies_dom_le subsetD)

lemma repo_step_trans: "repo_step a b \<Longrightarrow> repo_step b c \<Longrightarrow> repo_step a c"
  by (auto simp: repo_step_def intro: tasks_advance_trans)

lemma after_calls_step: "repo_ok t \<Longrightarrow> list_all long_task_cmd_ok cs \<Longrightarrow> repo_step t (after_calls_on S cs t)"
proof (induction cs arbitrary: t)
  case Nil
  then show ?case by (simp add: after_calls_on_def repo_step_refl)
next
  case (Cons c cs)
  have s: "repo_step t (long_task_after S t c)" using Cons.prems by (intro long_task_after_step) simp_all
  then have "repo_step (long_task_after S t c) (after_calls_on S cs (long_task_after S t c))"
    using Cons.prems by (intro Cons.IH) (simp_all add: repo_step_def)
  then show ?case using repo_step_trans [OF s] by (simp add: after_calls_on_def)
qed

lemma bindings_lookup:
  assumes "repo_ok t" and "map_of t i = Some s"
  shows "map_of (sl_bindings s) run = Some b \<longleftrightarrow> b \<in> set (dict_values (sl_bindings s)) \<and> lb_run_id b = run"
proof -
  have "bindings_ok s" using repo_okD(2) [OF assms] by (simp add: task_ok_def base_ok_def)
  then have d: "distinct (map fst (sl_bindings s))" and k: "\<forall>(k, b) \<in> set (sl_bindings s). lb_run_id b = k"
    by (auto simp: bindings_ok_def)
  show ?thesis using k map_of_eq_Some_iff [OF d, of run b] by force
qed

lemma list_run_bindings_Inr:
  assumes "list_run_bindings t i = Inr bs"
  obtains s where "map_of t (strip i) = Some s" "bs = dict_values (sl_bindings s)"
  using assms by (auto simp: list_run_bindings_def require_state_def bind_result_Inr_iff required_text_Inr split: option.splits)

lemma bound_listed:
  assumes "repo_ok t" and "list_run_bindings t i = Inr bs"
  shows "list_ex (\<lambda>b. lb_run_id b = run) bs \<longleftrightarrow> bound t (strip i) run"
proof -
  obtain s where s: "map_of t (strip i) = Some s" "bs = dict_values (sl_bindings s)" by (rule list_run_bindings_Inr [OF assms(2)])
  show ?thesis using bindings_lookup [OF assms(1) s(1), of run] s by (auto simp: bound_def list_ex_iff dom_def)
qed

lemma bind_run_bound:
  assumes "bind_run t i run rel = (Inr b, t')" and "clean_id run"
  shows "bound t' (strip i) run"
proof -
  have "on_task t i (bind_run_stored run rel) = (Inr b, t')"
    using assms by (auto simp: bind_run_def read_op_Inr split: if_splits)
  then obtain s s' where s: "map_of t (strip i) = Some s" "bind_run_stored run rel s = (Inr b, s')" "t' = AList.update (strip i) s' t"
    by (rule on_task_Inr)
  then have "run \<in> dom (map_of (sl_bindings s'))"
    by (auto simp: bind_run_stored_def read_op_Inr update_conv' split: option.splits if_splits)
  then show ?thesis using s(3) by (auto simp: bound_def update_conv')
qed

lemma resume_returns_task:
  assumes "resume t i n ts = (Inr r, t')" and "repo_ok t"
  shows "lt_id r = strip i"
proof -
  have "on_task t i (resume_stored n ts) = (Inr r, t')" using assms(1) by (auto simp: resume_def split: if_splits)
  then obtain s s' where s: "map_of t (strip i) = Some s" "resume_stored n ts s = (Inr r, s')" by (rule on_task_Inr)
  have "lt_id r = lt_id (sl_record s)"
    using s(2) by (auto simp: resume_stored_def Let_def set_status_def touch_def map_units_def split: if_splits)
  then show ?thesis using repo_okD(1) [OF assms(2) s(1)] by simp
qed
section \<open>Dispatch\<close>

lemma link_and_resume_sound:
  assumes ok: "repo_ok t" and others: "\<forall>n. list_all long_task_cmd_ok (others n)" and id: "clean_id (lt_id task)" and run: "clean_id run"
  shows "repo_step t (snd (link_and_resume S others t task run additional ts))"
    and "link_and_resume S others t task run additional ts = (Inr r, t') \<Longrightarrow> lt_id r = lt_id task \<and> bound t' (lt_id task) run"
proof -
  let ?c = "after_calls_on S"
  have calls: "repo_step u (?c (others n) u)" if "repo_ok u" for n u using after_calls_step [OF that] others by blast
  define t1 where "t1 = ?c (others 3) t"
  have t1: "repo_step t t1" "repo_ok t1" using calls [OF ok] by (simp_all add: t1_def repo_step_def)
  have st: "strip (lt_id task) = lt_id task" using id by (simp add: clean_id_def)
  let ?rel = "if lt_status task = Task_PAUSED \<or> lt_status task = Task_FAILED \<and> additional > 0 then Relation_CONTINUATION else Relation_REFERENCE"
  let ?bind = "\<lambda>bs. if list_ex (\<lambda>b. lb_run_id b = run) bs then (Inr (), t1)
        else bind_op (bind_run (?c (others 4) t1) (lt_id task) run ?rel) (\<lambda>_ t. (Inr (), t))"
  let ?rest = "\<lambda>t2. if lt_status task = Task_PAUSED then resume (?c (others 5) t2) (lt_id task) 0 ts
      else if lt_status task = Task_FAILED \<and> additional \<noteq> 0 then resume (?c (others 5) t2) (lt_id task) additional ts
      else (Inr task, t2)"
  have eq: "link_and_resume S others t task run additional ts =
      read_op (list_run_bindings t1 (lt_id task)) t1 (\<lambda>bs. bind_op (?bind bs) (\<lambda>_ t2. ?rest t2))"
    unfolding link_and_resume_def Let_def t1_def by (rule refl)
  have bind: "repo_step t (snd (?bind bs))" for bs
  proof (cases "list_ex (\<lambda>b. lb_run_id b = run) bs")
    case False
    have "repo_step t (?c (others 4) t1)" using repo_step_trans [OF t1(1) calls [OF t1(2)]] .
    then have "repo_step t (snd (bind_run (?c (others 4) t1) (lt_id task) run ?rel))"
      using repo_step_trans bind_run_repo by (metis repo_step_def)
    then show ?thesis using False snd_bind_return [of "bind_run (?c (others 4) t1) (lt_id task) run ?rel" "\<lambda>_. ()"] by simp
  qed (use t1 in simp)
  have rest: "repo_step t (snd (?rest t2))" if "repo_step t t2" for t2
  proof -
    have "repo_step t (?c (others 5) t2)" using repo_step_trans [OF that calls] that by (simp add: repo_step_def)
    then have "repo_step t (snd (resume (?c (others 5) t2) (lt_id task) n ts))" for n
      using repo_step_trans resume_repo by (metis repo_step_def)
    then show ?thesis using that by simp
  qed
  show "repo_step t (snd (link_and_resume S others t task run additional ts))"
    unfolding eq
  proof (rule snd_read_op [where P = "repo_step t", OF t1(1)])
    fix bs
    show "repo_step t (snd (bind_op (?bind bs) (\<lambda>_ t2. ?rest t2)))"
    proof (rule snd_bind_op [where P = "repo_step t", OF bind])
      fix x t2 assume e: "?bind bs = (Inr x, t2)"
      have "repo_step t t2" using bind [of bs] unfolding e by simp
      then show "repo_step t (snd (?rest t2))" by (rule rest)
    qed
  qed
  assume "link_and_resume S others t task run additional ts = (Inr r, t')"
  then obtain bs t2 where bs: "list_run_bindings t1 (lt_id task) = Inr bs" "?bind bs = (Inr (), t2)" "?rest t2 = (Inr r, t')"
    unfolding eq read_op_Inr bind_op_Inr by auto
  have t2: "repo_step t t2" using bind [of bs] bs(2) by simp
  have b2: "bound t2 (lt_id task) run"
  proof (cases "list_ex (\<lambda>b. lb_run_id b = run) bs")
    case True
    then show ?thesis using bound_listed [OF t1(2) bs(1), of run] bs(2) st by simp
  next
    case False
    then obtain b where "bind_run (?c (others 4) t1) (lt_id task) run ?rel = (Inr b, t2)"
      using bs(2) by (simp only: if_False bind_op_Inr) blast
    then show ?thesis using bind_run_bound run st by metis
  qed
  have c5: "repo_step t2 (?c (others 5) t2)" using calls t2 by (simp add: repo_step_def)
  have res: "lt_id r = lt_id task \<and> bound t' (lt_id task) run" if q: "resume (?c (others 5) t2) (lt_id task) n ts = (Inr r, t')" for n
  proof -
    have o: "repo_ok (?c (others 5) t2)" using c5 by (simp add: repo_step_def)
    have "repo_step (?c (others 5) t2) t'" using resume_repo [OF o, of "lt_id task" n ts] q by simp
    then have "tasks_advance t2 t'" using repo_step_trans [OF c5] by (simp add: repo_step_def)
    then show ?thesis using bound_advance b2 resume_returns_task [OF q o] st by simp
  qed
  show "lt_id r = lt_id task \<and> bound t' (lt_id task) run"
    using bs(3) res b2 by (auto split: if_splits)
qed

lemma stored_idD:
  assumes "repo_ok t" and "s \<in> set (dict_values t)"
  shows "map_of t (lt_id (sl_record s)) = Some s" and "clean_id (lt_id (sl_record s))"
proof -
  obtain k where k: "(k, s) \<in> set t" using assms(2) by auto
  then have "k = lt_id (sl_record s)" "task_ok s" using assms(1) by (auto simp: repo_ok_def)
  then show "map_of t (lt_id (sl_record s)) = Some s" "clean_id (lt_id (sl_record s))"
    using k assms(1) by (auto simp: repo_ok_def task_ok_def base_ok_def record_ok_def)
qed

lemma create_cmd_clean:
  assumes "create_cmd_ok c"
  shows "strip (lc_namespace c) = lc_namespace c" and "strip (lc_kind c) = lc_kind c" and "strip (lc_owner_id c) = lc_owner_id c"
    and "strip (lc_created_by_run_id c) = lc_created_by_run_id c"
proof -
  have "LongTaskCreateCommand_post_init c = Inr c" using assms by (simp add: create_cmd_ok_def constructed_def)
  then have e: "c\<lparr>lc_namespace := strip (lc_namespace c), lc_kind := strip (lc_kind c), lc_owner_id := strip (lc_owner_id c),
        lc_created_by_run_id := strip (lc_created_by_run_id c)\<rparr> = c"
    by (auto simp: LongTaskCreateCommand_post_init_def bind_result_Inr_iff Let_def required_text_Inr normalizer_Inr split: if_splits)
  show "strip (lc_namespace c) = lc_namespace c" using arg_cong [OF e, of lc_namespace] by simp
  show "strip (lc_kind c) = lc_kind c" using arg_cong [OF e, of lc_kind] by simp
  show "strip (lc_owner_id c) = lc_owner_id c" using arg_cong [OF e, of lc_owner_id] by simp
  show "strip (lc_created_by_run_id c) = lc_created_by_run_id c" using arg_cong [OF e, of lc_created_by_run_id] by simp
qed

text \<open>The task that \<open>create\<close> returns is stored and has the scope of the command; under the given identity it is the task of the command.\<close>

definition created_for :: "long_task_create_command \<Rightarrow> string \<Rightarrow> long_task_state \<Rightarrow> long_task_record \<Rightarrow> bool" where
  "created_for c i t r \<longleftrightarrow> (\<exists>s. map_of t (lt_id r) = Some s \<and> sl_record s = r)
     \<and> lt_namespace r = lc_namespace c \<and> lt_owner_id r = lc_owner_id c \<and> lt_kind r = lc_kind c
     \<and> (lt_id r = i \<longrightarrow> lt_created_by_run_id r = lc_created_by_run_id c \<and> json_mapping_eq (lt_metadata r) (lc_metadata c))"

lemma create_returns_stored:
  assumes ok: "repo_ok t" and c: "create_cmd_ok c" and r: "create S t i c ts = (Inr r, t')"
  shows "created_for c i t' r"
proof -
  have ne: "strip i \<noteq> []" using r by (auto simp: create_def read_op_Inr required_text_Inr)
  note C = create_cmd_clean [OF c]
  show ?thesis
  proof (cases "map_of t (strip i)")
    case (Some s)
    then have "matches_create s c" "r = sl_record s" "t' = t" using r ne
      by (auto simp: create_def read_op_def required_text_def split: if_splits)
    then show ?thesis using Some repo_okD(1) [OF ok Some] by (auto simp: created_for_def matches_create_def Let_def)
  next
    case None
    show ?thesis
    proof (cases "find_active_state S t (lc_namespace c) (lc_owner_id c) (lc_kind c) (map_of (lc_metadata c) ''sessionId'') True")
      case (Some s)
      then have e: "r = sl_record s" "t' = t" using r ne None by (auto simp: create_def read_op_def required_text_def)
      have f: "s \<in> set (dict_values t)" "lt_namespace r = lc_namespace c" "lt_owner_id r = lc_owner_id c" "lt_kind r = lc_kind c"
        using find_in [OF Some [unfolded find_active_state_def]] e(1) by (auto simp: Let_def)
      note S = stored_idD [OF ok f(1)]
      have "lt_id r \<noteq> i" using S None e by (auto simp: clean_id_def)
      then show ?thesis using S e f by (auto simp: created_for_def)
    next
      case act: None
      then obtain s where s: "new_task (strip i) c ts = Inr s" "r = sl_record s" "t' = AList.update (lt_id (sl_record s)) s t"
        using r ne None by (auto simp: create_def read_op_Inr required_text_Inr)
      have "lt_namespace r = lc_namespace c \<and> lt_owner_id r = lc_owner_id c \<and> lt_kind r = lc_kind c
          \<and> lt_created_by_run_id r = lc_created_by_run_id c \<and> lt_metadata r = lc_metadata c"
        by (rule new_task_Inr [OF s(1)]) (use s(2) C in simp)
      then show ?thesis using s by (simp add: created_for_def update_conv' json_mapping_eq_def)
    qed
  qed
qed

lemma creator_bound: "repo_ok t \<Longrightarrow> map_of t i = Some s \<Longrightarrow> bound t i (lt_created_by_run_id (sl_record s))"
  using repo_okD(2) [of t i s] by (auto simp: bound_def task_ok_def base_ok_def bindings_ok_def map_of_eq_None_iff domIff)
section \<open>The task of a dispatch\<close>

lemma map_of_sort_key_fst: "map_of (sort_key fst (xs :: ('k :: linorder \<times> 'v) list)) k = map_of xs k"
proof -
  have f: "map_of ys k = (case filter (\<lambda>p. fst p = k) ys of [] \<Rightarrow> None | p # _ \<Rightarrow> Some (snd p))" for ys :: "('k \<times> 'v) list"
    by (induction ys) auto
  show ?thesis unfolding f [of "sort_key fst xs"] f [of xs] sort_key_stable ..
qed

lemma json_mapping_eq_lookup: "json_mapping_eq a b \<Longrightarrow> map_option json_value (map_of a k) = map_option json_value (map_of b k)"
proof -
  assume "json_mapping_eq a b"
  then have e: "sort_key fst (map (map_prod id json_value) a) = sort_key fst (map (map_prod id json_value) b)"
    by (simp add: json_mapping_eq_def)
  have m: "map_of (sort_key fst (map (map_prod id json_value) c)) k = map_option json_value (map_of c k)" for c
    unfolding map_of_sort_key_fst by (induction c) auto
  show ?thesis using m [of a] m [of b] e by simp
qed

lemma float_value_number: "float_value m k \<noteq> JStr s" "float_value m k \<noteq> JObj kvs"
  by (induction m k rule: float_value.induct) auto

lemma json_value_JStr: "json_value v = JStr s \<longleftrightarrow> v = JStr s"
  by (cases v) (auto simp: float_value_number)

lemma json_value_JObj: "json_value v = json_value (JObj m) \<longleftrightarrow> (\<exists>n. v = JObj n \<and> json_mapping_eq n m)"
  by (cases v) (auto simp: json_mapping_eq_def float_value_number)

lemma json_mapping_eq_Nil: "json_mapping_eq [] m \<longleftrightarrow> m = []"
  by (auto simp: json_mapping_eq_def dest: arg_cong [of _ _ length])

lemma map_of_dict_merge: "map_of (dict_merge a b) k = (case map_of (rev b) k of None \<Rightarrow> map_of a k | Some v \<Rightarrow> Some v)"
proof (induction b arbitrary: a)
  case (Cons e b)
  obtain x v where e: "e = (x, v)" by (cases e)
  have "dict_merge a (e # b) = dict_merge (AList.update x v a) b" by (simp add: dict_merge_def e)
  then show ?case using Cons.IH [of "AList.update x v a"] by (auto simp: e update_conv' map_add_def split: option.splits)
qed (simp add: dict_merge_def)

lemma to_metadata_ne: "to_metadata r \<noteq> []"
proof
  assume "to_metadata r = []"
  then have "map_of (to_metadata r) ''kind'' = None" by simp
  then show False by (simp add: to_metadata_def map_of_dict_merge)
qed

text \<open>The task carries the key of the descriptor and the recipe.\<close>

definition task_matches :: "long_task_record \<Rightarrow> durable_task_descriptor \<Rightarrow> execution_recipe \<Rightarrow> bool" where
  "task_matches r d recipe \<longleftrightarrow> lt_namespace r = dd_namespace d \<and> lt_owner_id r = dd_owner_id d \<and> lt_kind r = ec_kind recipe
     \<and> has_key r d \<and> require_same_recipe r recipe = Inr ()"

lemma task_matches_scope: "task_scope r = task_scope r' \<Longrightarrow> task_matches r d recipe \<longleftrightarrow> task_matches r' d recipe"
  by (simp add: task_scope_def task_matches_def has_key_def require_same_recipe_def stored_recipe_def)

lemma metadata_matches:
  assumes "json_mapping_eq (lt_metadata r) (dispatch_metadata d session recipe plan)"
  shows "has_key r d" and "require_same_recipe r recipe = Inr ()"
proof -
  note L = json_mapping_eq_lookup [OF assms]
  have "map_option json_value (map_of (lt_metadata r) ''idempotencyKey'') = Some (JStr (dd_idempotency_key d))"
    unfolding L by (simp add: dispatch_metadata_def map_of_dict_merge)
  then show "has_key r d" by (auto simp: has_key_def json_value_JStr)
  have "map_option json_value (map_of (lt_metadata r) ''recipe'') = Some (json_value (JObj (to_metadata recipe)))"
    unfolding L by (simp add: dispatch_metadata_def map_of_dict_merge)
  then obtain v where v: "map_of (lt_metadata r) ''recipe'' = Some v" "json_value v = json_value (JObj (to_metadata recipe))"
    by (cases "map_of (lt_metadata r) ''recipe''") (auto simp del: json_value.simps)
  then obtain m where m: "v = JObj m" "json_mapping_eq m (to_metadata recipe)" unfolding json_value_JObj by blast
  have "m \<noteq> []" using m(2) to_metadata_ne [of recipe] json_mapping_eq_Nil by blast
  then show "require_same_recipe r recipe = Inr ()" using v(1) m by (simp add: require_same_recipe_def stored_recipe_def)
qed

definition settled_on :: "long_task_state \<Rightarrow> string \<Rightarrow> durable_task_descriptor \<Rightarrow> execution_recipe \<Rightarrow> string \<Rightarrow> bool" where
  "settled_on t i d recipe run \<longleftrightarrow> bound t i run \<and> (\<exists>s. map_of t i = Some s \<and> task_matches (sl_record s) d recipe)"

lemma matches_advance:
  assumes "tasks_advance t t'" and "map_of t i = Some s" and "task_matches (sl_record s) d recipe"
  shows "\<exists>s'. map_of t' i = Some s' \<and> task_matches (sl_record s') d recipe"
proof -
  obtain s' where s': "map_of t' i = Some s'" "advances s s'" using assms(1,2) unfolding tasks_advance_def by blast
  then have "task_matches (sl_record s') d recipe" using task_matches_scope assms(3) unfolding advances_def by blast
  then show ?thesis using s'(1) by blast
qed

lemma settled_on_advance: "tasks_advance t t' \<Longrightarrow> settled_on t i d recipe run \<Longrightarrow> settled_on t' i d recipe run"
  unfolding settled_on_def using bound_advance matches_advance by blast

lemma link_settles:
  assumes ok: "repo_ok t" and others: "\<forall>n. list_all long_task_cmd_ok (others n)" and run: "clean_id run"
    and s: "map_of t i = Some s" "sl_record s = task" and m: "task_matches task d recipe"
    and l: "link_and_resume S others t task run additional ts = (Inr r, t')"
  shows "settled_on t' (lt_id r) d recipe run"
proof -
  have i: "lt_id task = i" using repo_okD(1) [OF ok s(1)] s(2) by simp
  have c: "clean_id (lt_id task)" using repo_okD(2) [OF ok s(1)] s(2) by (simp add: task_ok_def base_ok_def record_ok_def)
  have "repo_step t t'" using link_and_resume_sound(1) [OF ok others c run, of S additional ts] l by simp
  then have a: "tasks_advance t t'" by (simp add: repo_step_def)
  have "lt_id r = i \<and> bound t' i run" using link_and_resume_sound(2) [OF ok others c run l] i by simp
  then show ?thesis using matches_advance [OF a s(1)] m s(2) by (auto simp: settled_on_def)
qed

lemma find_active_stored:
  assumes "repo_ok t" and "find_active S t n o' k ses True = Some r"
  shows "\<exists>s. map_of t (lt_id r) = Some s \<and> sl_record s = r" and "lt_namespace r = n" and "lt_owner_id r = o'" and "lt_kind r = k"
proof -
  obtain s where s: "find_active_state S t n o' k ses True = Some s" "sl_record s = r" using assms(2) by (auto simp: find_active_def)
  have f: "s \<in> set (dict_values t)" "lt_namespace r = n" "lt_owner_id r = o'" "lt_kind r = k"
    using find_in [OF s(1) [unfolded find_active_state_def]] s(2) by (auto simp: Let_def)
  show "\<exists>s. map_of t (lt_id r) = Some s \<and> sl_record s = r" using stored_idD(1) [OF assms(1) f(1)] s(2) by blast
  show "lt_namespace r = n" "lt_owner_id r = o'" "lt_kind r = k" by (rule f)+
qed

lemma find_by_key_stored:
  assumes "repo_ok t" and "find_by_idempotency_key t n key = Inr (Some r)"
  shows "\<exists>s. map_of t (lt_id r) = Some s \<and> sl_record s = r" and "lt_namespace r = strip n"
    and "map_of (lt_metadata r) ''idempotencyKey'' = Some (JStr (strip key))"
proof -
  define found where "found = filter (\<lambda>r. lt_namespace r = strip n \<and> map_of (lt_metadata r) ''idempotencyKey'' = Some (JStr (strip key)))
           (map sl_record (dict_values t))"
  have "(case found of [] \<Rightarrow> None | r # _ \<Rightarrow> Some r) = Some r"
    using assms(2) unfolding find_by_idempotency_key_def bind_result_Inr_iff required_text_Inr Let_def
    by (auto simp: found_def split: if_splits)
  then have "r \<in> set found" by (cases found) auto
  then obtain s where s: "s \<in> set (dict_values t)" "r = sl_record s" "lt_namespace r = strip n"
    "map_of (lt_metadata r) ''idempotencyKey'' = Some (JStr (strip key))" by (auto simp: found_def)
  then show "\<exists>s. map_of t (lt_id r) = Some s \<and> sl_record s = r" "lt_namespace r = strip n"
    "map_of (lt_metadata r) ''idempotencyKey'' = Some (JStr (strip key))" using stored_idD(1) [OF assms(1) s(1)] by auto
qed
lemma create_settles:
  assumes ok: "repo_ok t" and others: "\<forall>n. list_all long_task_cmd_ok (others n)" and recipe: "recipe_ok recipe" and d: "descriptor_ok d"
    and run: "clean_id run" and time: "\<And>n. timeout = Some n \<Longrightarrow> 0 < clock + n"
  shows "repo_step t (snd (create_from_recipe S others t d recipe (units_from 0 (ec_steps recipe)) (dispatch_metadata d ses recipe plan) run drawn timeout clock ts))"
    and "create_from_recipe S others t d recipe (units_from 0 (ec_steps recipe)) (dispatch_metadata d ses recipe plan) run drawn timeout clock ts = (Inr r, t')
      \<Longrightarrow> settled_on t' (lt_id r) d recipe run"
proof -
  define c where "c = recipe_command d recipe (units_from 0 (ec_steps recipe)) (dispatch_metadata d ses recipe plan) run timeout clock"
  define t1 where "t1 = after_calls_on S (others 2) t"
  let ?i = "''longtask_'' @ drawn"
  have cmd: "create_cmd_ok c" unfolding c_def by (rule recipe_command_ok [OF recipe d run time])
  then have con: "LongTaskCreateCommand_post_init c = Inr c" by (simp add: create_cmd_ok_def constructed_def)
  have t1: "repo_step t t1" unfolding t1_def using after_calls_step [OF ok] others by blast
  then have ok1: "repo_ok t1" by (simp add: repo_step_def)
  let ?rest = "\<lambda>task t2. if lt_id task \<noteq> ?i then
        if \<not> has_key task d then (Inl scope_conflict, t2)
        else read_op (require_same_recipe task recipe) t2 (\<lambda>_. link_and_resume S others t2 task run (dd_failed_resume_attempts d) ts)
      else (Inr task, t2)"
  have eq: "create_from_recipe S others t d recipe (units_from 0 (ec_steps recipe)) (dispatch_metadata d ses recipe plan) run drawn timeout clock ts
      = bind_op (create S t1 ?i c ts) ?rest"
    unfolding create_from_recipe_def Let_def c_def [symmetric] con read_op_def t1_def sum.case ..
  have created: "repo_step t t2" "repo_ok t2" "created_for c ?i t2 task" if q: "create S t1 ?i c ts = (Inr task, t2)" for task t2
  proof -
    show "repo_step t t2" using repo_step_trans [OF t1 create_step [OF ok1 cmd, of S ?i ts]] q by simp
    then show "repo_ok t2" by (simp add: repo_step_def)
    show "created_for c ?i t2 task" by (rule create_returns_stored [OF ok1 cmd q])
  qed
  have id: "clean_id (lt_id task)" if "repo_ok t2" "created_for c ?i t2 task" for t2 task
    using that repo_okD(2) by (fastforce simp: created_for_def task_ok_def base_ok_def record_ok_def)
  show "repo_step t (snd (create_from_recipe S others t d recipe (units_from 0 (ec_steps recipe)) (dispatch_metadata d ses recipe plan) run drawn timeout clock ts))"
    unfolding eq
  proof (rule snd_bind_op [where P = "repo_step t"])
    show "repo_step t (snd (create S t1 ?i c ts))" by (rule repo_step_trans [OF t1 create_step [OF ok1 cmd]])
    fix task t2 assume q: "create S t1 ?i c ts = (Inr task, t2)"
    note Q = created [OF q]
    have "repo_step t2 (snd (link_and_resume S others t2 task run (dd_failed_resume_attempts d) ts))"
      by (rule link_and_resume_sound(1) [OF Q(2) others id [OF Q(2,3)] run])
    then have "repo_step t (snd (link_and_resume S others t2 task run (dd_failed_resume_attempts d) ts))"
      by (rule repo_step_trans [OF Q(1)])
    then show "repo_step t (snd (?rest task t2))" using Q(1) by (auto intro: snd_read_op)
  qed
  assume "create_from_recipe S others t d recipe (units_from 0 (ec_steps recipe)) (dispatch_metadata d ses recipe plan) run drawn timeout clock ts = (Inr r, t')"
  then obtain task t2 where q: "create S t1 ?i c ts = (Inr task, t2)" and rest: "?rest task t2 = (Inr r, t')"
    unfolding eq bind_op_Inr by blast
  note Q = created [OF q]
  obtain s where s: "map_of t2 (lt_id task) = Some s" "sl_record s = task" using Q(3) by (auto simp: created_for_def)
  have scope: "lt_namespace task = dd_namespace d" "lt_owner_id task = dd_owner_id d" "lt_kind task = ec_kind recipe"
    using Q(3) by (simp_all add: created_for_def c_def recipe_command_def)
  show "settled_on t' (lt_id r) d recipe run"
  proof (cases "lt_id task = ?i")
    case True
    then have e: "r = task" "t' = t2" using rest by simp_all
    have "json_mapping_eq (lt_metadata task) (dispatch_metadata d ses recipe plan)" and creator: "lt_created_by_run_id task = run"
      using Q(3) True by (simp_all add: created_for_def c_def recipe_command_def)
    then have "task_matches task d recipe" using scope metadata_matches by (simp add: task_matches_def)
    then show ?thesis using creator_bound [OF Q(2) s(1)] s by (auto simp: settled_on_def e creator)
  next
    case False
    then have k: "has_key task d" "require_same_recipe task recipe = Inr ()"
      and l: "link_and_resume S others t2 task run (dd_failed_resume_attempts d) ts = (Inr r, t')"
      using rest by (auto simp: read_op_Inr split: if_splits)
    show ?thesis by (rule link_settles [OF Q(2) others run s _ l]) (use scope k in \<open>simp add: task_matches_def\<close>)
  qed
qed

lemma find_reusable_matches:
  assumes ok: "repo_ok t1" "repo_ok t2" and d: "descriptor_ok d" and f: "find_reusable S t1 t2 d recipe ses = Inr (Some r)"
    and t: "t = (if find_active S t1 (dd_namespace d) (dd_owner_id d) (ec_kind recipe) (map_option JStr ses) True = None then t2 else t1)"
  shows "(\<exists>s. map_of t (lt_id r) = Some s \<and> sl_record s = r) \<and> task_matches r d recipe"
proof (cases "find_active S t1 (dd_namespace d) (dd_owner_id d) (ec_kind recipe) (map_option JStr ses) True")
  case (Some a)
  then have "r = a" "has_key a d" "require_same_recipe a recipe = Inr ()"
    using f by (auto simp: find_reusable_def bind_result_Inr_iff split: if_splits)
  then show ?thesis using find_active_stored [OF ok(1) Some] Some t by (auto simp: task_matches_def)
next
  case None
  then obtain found where found: "find_by_idempotency_key t2 (dd_namespace d) (dd_idempotency_key d) = Inr found"
    and rest: "(case found of None \<Rightarrow> Inr None
          | Some reusable \<Rightarrow>
              if lt_owner_id reusable \<noteq> dd_owner_id d \<or> lt_kind reusable \<noteq> ec_kind recipe
                \<or> \<not> same_optional_text S (map_of (lt_metadata reusable) ''sessionId'') ses then Inl scope_conflict
              else if lt_status reusable \<notin> {Task_COMPLETED, Task_FAILED} then Inl scope_conflict
              else if lt_budget_limits reusable \<noteq> dd_budget_limits d then Inl scope_conflict
              else bind_result (require_same_recipe reusable recipe) (\<lambda>_. Inr (Some reusable))) = Inr (Some r)"
    using f unfolding find_reusable_def None option.case bind_result_Inr_iff by blast
  then have r: "found = Some r" "lt_owner_id r = dd_owner_id d" "lt_kind r = ec_kind recipe" "require_same_recipe r recipe = Inr ()"
    by (auto simp: bind_result_Inr_iff split: option.splits if_splits)
  have "strip (dd_namespace d) = dd_namespace d" "strip (dd_idempotency_key d) = dd_idempotency_key d"
    using descriptor_okD(1,3) [OF d] by (simp_all add: clean_id_def)
  then show ?thesis using find_by_key_stored [OF ok(2) found [unfolded r(1)]] r None t
    by (auto simp: task_matches_def has_key_def)
qed

definition admission_ok :: "task_admission_decision \<Rightarrow> bool" where
  "admission_ok a \<longleftrightarrow> constructed TaskAdmissionDecision_post_init a \<and> (\<forall>r. ad_execution_recipe a = Some r \<longrightarrow> recipe_ok r)"

lemma dispatch_receipt_id:
  assumes "dispatch_receipt d decision reusable task = Inr receipt" and "clean_id (lt_id task)"
  shows "dr_task_id receipt = lt_id task \<and> ad_mode decision = Mode_DURABLE"
  using assms by (auto simp: dispatch_receipt_def LongTaskDispatchReceipt_post_init_def Let_def bind_result_Inr_iff required_text_Inr clean_id_def
      split: if_splits)

lemma dispatch_sound:
  assumes ok: "repo_ok t" and others: "\<forall>n. list_all long_task_cmd_ok (others n)" and a: "admission_ok decision" and d: "descriptor_ok d"
    and time: "\<And>n. timeout = Some n \<Longrightarrow> 0 < clock + n"
  shows "repo_step t (snd (dispatch S others t namespace session plan decision d run_id drawn timeout clock ts))"
    and "dispatch S others t namespace session plan decision d run_id drawn timeout clock ts = (Inr receipt, t') \<Longrightarrow>
      \<exists>recipe. ad_execution_recipe decision = Some recipe \<and> settled_on t' (dr_task_id receipt) d recipe (strip run_id)"
proof -
  let ?D = "dispatch S others t namespace session plan decision d run_id drawn timeout clock ts"
  have "repo_step t (snd ?D) \<and> (\<forall>receipt t'. ?D = (Inr receipt, t') \<longrightarrow>
      (\<exists>recipe. ad_execution_recipe decision = Some recipe \<and> settled_on t' (dr_task_id receipt) d recipe (strip run_id)))"
  proof (cases "ad_execution_recipe decision")
    case None
    then show ?thesis using repo_step_refl [OF ok] by (simp add: dispatch_def)
  next
    case (Some recipe)
    have recipe: "recipe_ok recipe" using a Some by (simp add: admission_ok_def)
    show ?thesis
    proof (cases "(\<exists>us. compile_recipe_units recipe (ad_covered_step_ids decision) = Inr us) \<and> strip run_id \<noteq> [] \<and> dd_namespace d = namespace")
      case False
      then show ?thesis using Some repo_step_refl [OF ok]
        by (cases "compile_recipe_units recipe (ad_covered_step_ids decision)"; cases "strip run_id = []")
           (auto simp: dispatch_def read_op_def required_text_def Let_def)
    next
      case True
      have us: "compile_recipe_units recipe (ad_covered_step_ids decision) = Inr (units_from 0 (ec_steps recipe))"
        using True compile_recipe_units_eq [OF recipe] by auto
      have run: "required_text run_id ''durable Run id'' = Inr (strip run_id)" "clean_id (strip run_id)"
        using True by (simp_all add: required_text_def clean_id_def)
      define ses where "ses = map_option (\<lambda>v. strip (session_text S v)) session"
      define t1 where "t1 = after_calls_on S (others 0) t"
      define t2 where "t2 = after_calls_on S (others 1) t1"
      define t3 where "t3 = (if find_active S t1 (dd_namespace d) (dd_owner_id d) (ec_kind recipe) (map_option JStr ses) True = None then t2 else t1)"
      have s1: "repo_step t t1" unfolding t1_def using after_calls_step [OF ok] others by blast
      then have s2: "repo_step t1 t2" unfolding t2_def using after_calls_step [of t1] others by (simp add: repo_step_def)
      have s3: "repo_step t t3" using s1 repo_step_trans [OF s1 s2] by (simp add: t3_def)
      have ok': "repo_ok t1" "repo_ok t2" "repo_ok t3" using s1 s2 s3 by (simp_all add: repo_step_def)
      let ?next = "\<lambda>reusable u. case reusable of
              None \<Rightarrow> create_from_recipe S others u d recipe (units_from 0 (ec_steps recipe)) (dispatch_metadata d ses recipe plan) (strip run_id) drawn timeout clock ts
            | Some r \<Rightarrow> link_and_resume S others u r (strip run_id) (dd_failed_resume_attempts d) ts"
      have eq: "?D = bind_op (find_reusable S t1 t2 d recipe ses, t3)
          (\<lambda>reusable u. bind_op (?next reusable u) (\<lambda>task u. (dispatch_receipt d decision reusable task, u)))"
      proof -
        have ns: "(dd_namespace d \<noteq> namespace) = False" using True by simp
        show ?thesis unfolding dispatch_def Some option.case us run(1) read_op_def sum.case Let_def ns if_False ses_def t1_def t2_def t3_def
          by (rule refl)
      qed
      have good: "repo_step t (snd (?next reusable t3)) \<and> (\<forall>r u. ?next reusable t3 = (Inr r, u) \<longrightarrow> settled_on u (lt_id r) d recipe (strip run_id))"
        if f: "find_reusable S t1 t2 d recipe ses = Inr reusable" for reusable
      proof (cases reusable)
        case None
        note C = create_settles [where timeout = timeout and clock = clock, OF ok'(3) others recipe d run(2) time]
        show ?thesis unfolding None option.case using repo_step_trans [OF s3 C(1)] C(2) by blast
      next
        case r: (Some r)
        have f': "find_reusable S t1 t2 d recipe ses = Inr (Some r)" using f r by simp
        obtain s where s: "map_of t3 (lt_id r) = Some s" "sl_record s = r" and m: "task_matches r d recipe"
          using find_reusable_matches [OF ok'(1,2) d f' t3_def] by blast
        have "clean_id (lt_id r)" using repo_okD(2) [OF ok'(3) s(1)] s(2) by (simp add: task_ok_def base_ok_def record_ok_def)
        from link_and_resume_sound(1) [OF ok'(3) others this run(2)] link_settles [OF ok'(3) others run(2) s m]
        show ?thesis unfolding r option.case using repo_step_trans [OF s3] by blast
      qed
      show ?thesis
      proof (cases "find_reusable S t1 t2 d recipe ses")
        case (Inl e)
        then show ?thesis using s3 by (simp add: eq)
      next
        case (Inr reusable)
        have st: "snd ?D = snd (?next reusable t3)" unfolding eq Inr by (cases "?next reusable t3"; cases "fst (?next reusable t3)") simp_all
        have out: "settled_on t' (dr_task_id receipt) d recipe (strip run_id)" if D: "?D = (Inr receipt, t')" for receipt t'
        proof -
          obtain task where task: "?next reusable t3 = (Inr task, t')" "dispatch_receipt d decision reusable task = Inr receipt"
            using D unfolding eq Inr by (auto simp: bind_op_Inr)
          have S: "settled_on t' (lt_id task) d recipe (strip run_id)" "repo_ok t'"
            using good [OF Inr] task(1) by (auto simp: repo_step_def)
          then obtain s where "map_of t' (lt_id task) = Some s" by (auto simp: settled_on_def)
          then have "clean_id (lt_id task)" using repo_okD [OF S(2)] by (fastforce simp: task_ok_def base_ok_def record_ok_def)
          then show ?thesis using dispatch_receipt_id [OF task(2)] S(1) by simp
        qed
        show ?thesis using good [OF Inr] Some out unfolding st by blast
      qed
    qed
  qed
  then show "repo_step t (snd ?D)" and "?D = (Inr receipt, t') \<Longrightarrow>
      \<exists>recipe. ad_execution_recipe decision = Some recipe \<and> settled_on t' (dr_task_id receipt) d recipe (strip run_id)" by blast+
qed
section \<open>Continuations\<close>

lemma bind_run_relation:
  assumes "bind_run t i run rel = (Inr b, t')" and "clean_id run"
  shows "\<exists>s' b'. map_of t' (strip i) = Some s' \<and> map_of (sl_bindings s') run = Some b' \<and> lb_relation b' = rel"
proof -
  have "on_task t i (bind_run_stored run rel) = (Inr b, t')"
    using assms by (auto simp: bind_run_def read_op_Inr split: if_splits)
  then obtain s s' where s: "map_of t (strip i) = Some s" "bind_run_stored run rel s = (Inr b, s')" "t' = AList.update (strip i) s' t"
    by (rule on_task_Inr)
  then have "map_of (sl_bindings s') run = Some b \<and> lb_relation b = rel"
    by (auto simp: bind_run_stored_def read_op_Inr update_conv' LongTaskRunBinding_post_init_def bind_result_Inr_iff
        split: option.splits if_splits)
  then show ?thesis using s(3) by (simp add: update_conv')
qed

lemma find_binding:
  assumes "repo_ok t" and "map_of t i = Some s" and "find (\<lambda>b. lb_run_id b = run) (dict_values (sl_bindings s)) = Some b"
  shows "map_of (sl_bindings s) run = Some b"
  using bindings_lookup [OF assms(1,2), of run b] find_in [OF assms(3)] by blast

lemma binding_advance:
  assumes "tasks_advance t t'" and "map_of t i = Some s" and "map_of (sl_bindings s) run = Some b"
  shows "\<exists>s'. map_of t' i = Some s' \<and> map_of (sl_bindings s') run = Some b"
proof -
  obtain s' where s': "map_of t' i = Some s'" "advances s s'" using assms(1,2) unfolding tasks_advance_def by blast
  then show ?thesis using assms(3) unfolding advances_def map_le_def by (metis domI)
qed

lemma creator_advance:
  "tasks_advance t t' \<Longrightarrow> map_of t i = Some s \<Longrightarrow> map_of t' i = Some s' \<Longrightarrow>
     lt_created_by_run_id (sl_record s') = lt_created_by_run_id (sl_record s)"
  by (fastforce simp: tasks_advance_def advances_def)

lemma prepare_continuation_step:
  assumes ok: "repo_ok t" and others: "\<forall>n. list_all long_task_cmd_ok (others n)"
  shows "repo_step t (snd (prepare_continuation S others t task_id source run))"
proof -
  let ?c = "after_calls_on S"
  have calls: "repo_step t (?c (others n) u)" if "repo_step t u" for n u
    using repo_step_trans [OF that after_calls_step] that others by (simp add: repo_step_def)
  have s1: "repo_step t (?c (others 0) t)" by (rule calls [OF repo_step_refl [OF ok]])
  note s2 = calls [OF s1, of 1] and s3 = calls [OF calls [OF s1, of 1], of 2]
  have s4: "repo_step t (snd (bind_run (?c (others 2) (?c (others 1) (?c (others 0) t))) i r Relation_CONTINUATION))" for i r
    using repo_step_trans [OF s3 bind_run_repo] s3 by (simp add: repo_step_def)
  then have s5: "repo_step t (snd (bind_op (bind_run (?c (others 2) (?c (others 1) (?c (others 0) t))) i r Relation_CONTINUATION) (\<lambda>_ t. (Inr (), t))))" for i r
    using snd_bind_return [of _ "\<lambda>_. ()"] by metis
  show ?thesis unfolding prepare_continuation_def Let_def
    by (intro snd_read_op [where P = "repo_step t"] repo_step_refl [OF ok])
       (auto simp: s1 s2 s5 repo_step_refl [OF ok] simp del: One_nat_def split: option.splits intro!: snd_read_op [where P = "repo_step t"])
qed

lemma prepare_continuation_sound:
  assumes ok: "repo_ok t" and others: "\<forall>n. list_all long_task_cmd_ok (others n)"
    and p: "prepare_continuation S others t task_id source run = (Inr u, t')"
  shows "strip source \<noteq> strip run \<and> (\<exists>s b. map_of t' (strip task_id) = Some s \<and> lt_created_by_run_id (sl_record s) = strip source
    \<and> map_of (sl_bindings s) (strip run) = Some b \<and> lb_relation b = Relation_CONTINUATION)"
proof -
  define t1 where "t1 = after_calls_on S (others 0) t"
  define t2 where "t2 = after_calls_on S (others 1) t1"
  define t3 where "t3 = after_calls_on S (others 2) t2"
  have s1: "repo_step t t1" unfolding t1_def using after_calls_step [OF ok] others by blast
  have s2: "repo_step t1 t2" unfolding t2_def using after_calls_step [of t1] others s1 by (simp add: repo_step_def)
  have s3: "repo_step t2 t3" unfolding t3_def using after_calls_step [of t2] others s2 by (simp add: repo_step_def)
  have ne: "strip task_id \<noteq> []" "strip source \<noteq> []" "strip run \<noteq> []" "strip source \<noteq> strip run"
    using p by (auto simp: prepare_continuation_def read_op_Inr required_text_Inr split: if_splits)
  have strips: "strip (strip x) = strip x" for x by simp
  obtain task bs where task: "load t1 (strip task_id) = Some task" and bs: "list_run_bindings t2 (strip task_id) = Inr bs"
    and own: "lt_created_by_run_id task = strip source"
    and rest: "\<forall>b. find (\<lambda>b. lb_run_id b = strip run) bs = Some b \<longrightarrow> lb_relation b = Relation_CONTINUATION \<and> t' = t2"
      "find (\<lambda>b. lb_run_id b = strip run) bs = None \<longrightarrow> (\<exists>b. bind_run t3 (strip task_id) (strip run) Relation_CONTINUATION = (Inr b, t'))"
    using p ne by (auto simp: prepare_continuation_def read_op_Inr bind_op_Inr required_text_def Let_def t1_def [symmetric] t2_def [symmetric]
        t3_def [symmetric] simp del: One_nat_def split: option.splits if_splits)
  obtain x1 where x1: "map_of t1 (strip task_id) = Some x1" "sl_record x1 = task" using task by (auto simp: load_def)
  obtain x2 where x2: "map_of t2 (strip task_id) = Some x2" "bs = dict_values (sl_bindings x2)"
    using list_run_bindings_Inr [OF bs] by (metis strips)
  have ok2: "repo_ok t2" using s2 by (simp add: repo_step_def)
  have a12: "tasks_advance t1 t2" using s2 by (simp add: repo_step_def)
  have c2: "lt_created_by_run_id (sl_record x2) = strip source" using creator_advance [OF a12 x1(1) x2(1)] x1(2) own by simp
  show ?thesis
  proof (cases "find (\<lambda>b. lb_run_id b = strip run) bs")
    case (Some b)
    then have "map_of (sl_bindings x2) (strip run) = Some b" "lb_relation b = Relation_CONTINUATION" "t' = t2"
      using find_binding [OF ok2 x2(1)] x2(2) rest by simp_all
    then show ?thesis using x2(1) c2 ne(4) by blast
  next
    case None
    then obtain b where b: "bind_run t3 (strip task_id) (strip run) Relation_CONTINUATION = (Inr b, t')" using rest by auto
    have "clean_id (strip run)" using ne(3) by (simp add: clean_id_def)
    then obtain s' b' where s': "map_of t' (strip task_id) = Some s'" "map_of (sl_bindings s') (strip run) = Some b'" "lb_relation b' = Relation_CONTINUATION"
      using bind_run_relation [OF b] by auto
    have "repo_step t3 t'" using bind_run_repo [of t3 "strip task_id" "strip run" Relation_CONTINUATION] b s3 by (simp add: repo_step_def)
    then have "tasks_advance t2 t'" using repo_step_trans [OF s3] by (simp add: repo_step_def)
    then have "lt_created_by_run_id (sl_record s') = strip source" using creator_advance [OF _ x2(1) s'(1)] c2 by simp
    then show ?thesis using s' ne(4) by blast
  qed
qed
section \<open>Dispatching again\<close>

abbreviation quiet :: "nat \<Rightarrow> long_task_cmd list" where
  "quiet \<equiv> \<lambda>_. []"

lemma after_no_calls [simp]: "after_calls_on S [] t = t"
  by (simp add: after_calls_on_def)

lemma session_agrees:
  "stored_session S (dispatch_metadata d ses recipe plan) = expected_session S (map_option JStr ses)"
  by (cases ses) (auto simp: stored_session_def expected_session_def dispatch_metadata_def map_of_dict_merge session_text_def)

lemma session_of_metadata:
  "expected_session S (map_of (dispatch_metadata d ses recipe plan) ''sessionId'') = expected_session S (map_option JStr ses)"
  by (cases ses) (auto simp: expected_session_def dispatch_metadata_def map_of_dict_merge)

lemma find_active_state_session:
  "expected_session S v = expected_session S w \<Longrightarrow> find_active_state S t n o' k v True = find_active_state S t n o' k w True"
  by (simp add: find_active_state_def)

lemma no_others: "\<forall>n. list_all long_task_cmd_ok (quiet n)"
  by simp

text \<open>A call that creates its task leaves the task last in the store, pending and bound to the Run.\<close>

lemma create_from_recipe_new:
  assumes ok: "repo_ok t" and recipe: "recipe_ok recipe" and d: "descriptor_ok d" and run: "clean_id run"
    and time: "\<And>n. timeout = Some n \<Longrightarrow> 0 < clock + n" and drawn: "clean_id (''longtask_'' @ drawn)"
    and c: "create_from_recipe S quiet t d recipe (units_from 0 (ec_steps recipe)) (dispatch_metadata d ses recipe plan) run drawn timeout clock ts
      = (Inr r, t')" and new: "map_of t (lt_id r) = None"
  shows "\<exists>s. t' = t @ [(lt_id r, s)] \<and> sl_record s = r \<and> lt_status r = Task_PENDING \<and> lt_metadata r = dispatch_metadata d ses recipe plan
    \<and> lt_budget_limits r = dd_budget_limits d \<and> lt_namespace r = dd_namespace d \<and> lt_owner_id r = dd_owner_id d \<and> lt_kind r = ec_kind recipe"
proof -
  define cmd where "cmd = recipe_command d recipe (units_from 0 (ec_steps recipe)) (dispatch_metadata d ses recipe plan) run timeout clock"
  let ?i = "''longtask_'' @ drawn"
  have cmd: "create_cmd_ok cmd" unfolding cmd_def by (rule recipe_command_ok [OF recipe d run time])
  then have con: "LongTaskCreateCommand_post_init cmd = Inr cmd" by (simp add: create_cmd_ok_def constructed_def)
  have i: "strip ?i = ?i" "?i \<noteq> []" using drawn by (simp_all only: clean_id_def) simp_all
  obtain task t2 where q: "create S t ?i cmd ts = (Inr task, t2)"
    and rest: "(if lt_id task \<noteq> ?i then
        if \<not> has_key task d then (Inl scope_conflict, t2)
        else read_op (require_same_recipe task recipe) t2 (\<lambda>_. link_and_resume S quiet t2 task run (dd_failed_resume_attempts d) ts)
      else (Inr task, t2)) = (Inr r, t')"
    using c unfolding create_from_recipe_def Let_def cmd_def [symmetric] con read_op_def sum.case after_no_calls bind_op_Inr by blast
  have "created_for cmd ?i t2 task" by (rule create_returns_stored [OF ok cmd q])
  then obtain s0 where s0: "map_of t2 (lt_id task) = Some s0" "sl_record s0 = task" by (auto simp: created_for_def)
  have ok2: "repo_ok t2" using create_step [OF ok cmd, of S ?i ts] q by (simp add: repo_step_def)
  have same: "lt_id r = lt_id task"
  proof (cases "lt_id task = ?i")
    case False
    have "clean_id (lt_id task)" using repo_okD(2) [OF ok2 s0(1)] s0(2) by (simp add: task_ok_def base_ok_def record_ok_def)
    moreover have "link_and_resume S quiet t2 task run (dd_failed_resume_attempts d) ts = (Inr r, t')"
      using rest False by (auto simp: read_op_Inr split: if_splits)
    ultimately show ?thesis using link_and_resume_sound(2) [OF ok2 no_others _ run] by blast
  qed (use rest in simp)
  have none: "map_of t (lt_id task) = None" using new same by simp
  have fresh: "map_of t ?i = None"
  proof (rule ccontr)
    assume "map_of t ?i \<noteq> None"
    then obtain s where s: "map_of t ?i = Some s" by auto
    then have "task = sl_record s" using q i by (auto simp: create_def read_op_def required_text_def split: if_splits)
    then show False using repo_okD(1) [OF ok s] s none by simp
  qed
  have act: "find_active_state S t (lc_namespace cmd) (lc_owner_id cmd) (lc_kind cmd) (map_of (lc_metadata cmd) ''sessionId'') True = None"
  proof (rule ccontr)
    assume "\<not> ?thesis"
    then obtain s where s: "find_active_state S t (lc_namespace cmd) (lc_owner_id cmd) (lc_kind cmd) (map_of (lc_metadata cmd) ''sessionId'') True = Some s"
      by auto
    then have "task = sl_record s" using q i fresh by (auto simp: create_def read_op_def required_text_def)
    moreover have "s \<in> set (dict_values t)" using find_in [OF s [unfolded find_active_state_def]] by auto
    ultimately show False using stored_idD(1) [OF ok] none by auto
  qed
  obtain s where s: "new_task ?i cmd ts = Inr s" "task = sl_record s" "t2 = AList.update (lt_id (sl_record s)) s t"
    using q i fresh act by (auto simp: create_def read_op_Inr required_text_Inr)
  have rec: "lt_id task = ?i" using new_task_step(2) [OF cmd s(1)] s(2) i by simp
  have st: "lt_status task = Task_PENDING"
    using s(1,2) by (auto simp: new_task_def bind_result_Inr_iff dest!: LongTaskRecord_post_init_value)
  have scope: "lt_namespace task = dd_namespace d \<and> lt_owner_id task = dd_owner_id d \<and> lt_kind task = ec_kind recipe
      \<and> lt_metadata task = dispatch_metadata d ses recipe plan \<and> lt_budget_limits task = dd_budget_limits d"
    by (rule new_task_Inr [OF s(1)]) (use create_cmd_clean [OF cmd] s(2) in \<open>simp add: cmd_def recipe_command_def\<close>)
  have e: "r = task" "t' = t2" using rest rec by simp_all
  have "lt_id task \<notin> fst ` set t" using none by (simp add: map_of_eq_None_iff)
  then have "t2 = t @ [(lt_id task, s)]" using s(2,3) update_fresh by metis
  then show ?thesis using e s(2) st scope by blast
qed

lemma link_pending_bound:
  assumes ok: "repo_ok t" and s: "map_of t (lt_id r) = Some s" "sl_record s = r" and b: "bound t (lt_id r) run" and p: "lt_status r = Task_PENDING"
  shows "link_and_resume S quiet t r run additional ts = (Inr r, t)"
proof -
  have "clean_id (lt_id r)" using repo_okD(2) [OF ok s(1)] s(2) by (simp add: task_ok_def base_ok_def record_ok_def)
  then have i: "strip (lt_id r) = lt_id r" "lt_id r \<noteq> []" by (simp_all add: clean_id_def)
  have l: "list_run_bindings t (lt_id r) = Inr (dict_values (sl_bindings s))"
    using s(1) i by (simp add: list_run_bindings_def require_state_def required_text_def)
  have "list_ex (\<lambda>b. lb_run_id b = run) (dict_values (sl_bindings s))" using bound_listed [OF ok l, of run] b i by simp
  then show ?thesis using p by (simp add: link_and_resume_def l read_op_def)
qed

lemma dispatch_again:
  assumes ok: "repo_ok t" and a: "admission_ok decision" and d: "descriptor_ok d" and time: "\<And>n. timeout = Some n \<Longrightarrow> 0 < clock + n"
    and drawn: "clean_id (''longtask_'' @ drawn)"
    and first: "dispatch S quiet t namespace session plan decision d run_id drawn timeout clock ts = (Inr receipt, t')"
    and new: "map_of t (dr_task_id receipt) = None"
  shows "\<exists>receipt'. dispatch S quiet t' namespace session plan decision d run_id drawn' timeout' clock' ts' = (Inr receipt', t')
    \<and> dr_task_id receipt' = dr_task_id receipt"
proof -
  obtain recipe where r: "ad_execution_recipe decision = Some recipe" and st: "settled_on t' (dr_task_id receipt) d recipe (strip run_id)"
    using dispatch_sound(2) [OF ok no_others a d time first] by auto
  have recipe: "recipe_ok recipe" using a r by (simp add: admission_ok_def)
  define ses where "ses = map_option (\<lambda>v. strip (session_text S v)) session"
  obtain us where us: "compile_recipe_units recipe (ad_covered_step_ids decision) = Inr us" and ne: "strip run_id \<noteq> []" and ns: "dd_namespace d = namespace"
    using first r by (auto simp: dispatch_def read_op_Inr required_text_Inr split: if_splits)
  have us': "us = units_from 0 (ec_steps recipe)" using us compile_recipe_units_eq [OF recipe] by simp
  have run: "required_text run_id ''durable Run id'' = Inr (strip run_id)" "clean_id (strip run_id)"
    using ne by (simp_all add: required_text_def clean_id_def)
  have ns': "(dd_namespace d \<noteq> namespace) = False" using ns by simp
  have eq: "dispatch S quiet u namespace session plan decision d run_id x y z w =
      bind_op (find_reusable S u u d recipe ses, u) (\<lambda>reusable u. bind_op (case reusable of
              None \<Rightarrow> create_from_recipe S quiet u d recipe us (dispatch_metadata d ses recipe plan) (strip run_id) x y z w
            | Some r \<Rightarrow> link_and_resume S quiet u r (strip run_id) (dd_failed_resume_attempts d) w) (\<lambda>task u.
          (dispatch_receipt d decision reusable task, u)))" for u x y z w
    unfolding dispatch_def r option.case us run(1) read_op_def sum.case Let_def ns' if_False ses_def after_no_calls if_cancel by (rule refl)
  obtain reusable task where f: "find_reusable S t t d recipe ses = Inr reusable"
    and nx: "(case reusable of
              None \<Rightarrow> create_from_recipe S quiet t d recipe us (dispatch_metadata d ses recipe plan) (strip run_id) drawn timeout clock ts
            | Some r \<Rightarrow> link_and_resume S quiet t r (strip run_id) (dd_failed_resume_attempts d) ts) = (Inr task, t')"
    and rc: "dispatch_receipt d decision reusable task = Inr receipt"
    using first unfolding eq by (auto simp: bind_op_Inr)
  have ok': "repo_ok t'" using dispatch_sound(1) [OF ok no_others a d time] first by (metis repo_step_def snd_conv)
  have unused: "reusable = None"
  proof (cases reusable)
    case (Some q)
    obtain s where s: "map_of t (lt_id q) = Some s" "sl_record s = q" using find_reusable_matches [OF ok ok d f [unfolded Some] refl] by auto
    have c: "clean_id (lt_id q)" using repo_okD(2) [OF ok s(1)] s(2) by (simp add: task_ok_def base_ok_def record_ok_def)
    have "lt_id task = lt_id q" using link_and_resume_sound(2) [OF ok no_others c run(2)] nx Some by auto
    then show ?thesis using dispatch_receipt_id [OF rc] c new s(1) by simp
  qed
  note cr = nx [unfolded unused option.case us']
  have so: "settled_on t' (lt_id task) d recipe (strip run_id)" using create_settles(2) [OF ok no_others recipe d run(2) time cr] .
  then obtain s1 where "map_of t' (lt_id task) = Some s1" by (auto simp: settled_on_def)
  then have "clean_id (lt_id task)" using repo_okD [OF ok'] by (fastforce simp: task_ok_def base_ok_def record_ok_def)
  then have id: "dr_task_id receipt = lt_id task" "ad_mode decision = Mode_DURABLE" using dispatch_receipt_id [OF rc] by simp_all
  obtain s where s: "t' = t @ [(lt_id task, s)]" "sl_record s = task" and pend: "lt_status task = Task_PENDING"
    and md: "lt_metadata task = dispatch_metadata d ses recipe plan" "lt_budget_limits task = dd_budget_limits d"
      "lt_namespace task = dd_namespace d" "lt_owner_id task = dd_owner_id d" "lt_kind task = ec_kind recipe"
    using create_from_recipe_new [OF ok recipe d run(2) time drawn cr] new id(1) by auto
  have stored: "map_of t' (lt_id task) = Some s" using s(1) new id(1) by (simp add: map_add_def)
  have act: "find_active S t' (dd_namespace d) (dd_owner_id d) (ec_kind recipe) (map_option JStr ses) True = Some task"
    using s pend md session_agrees [of S d ses recipe plan] by (simp add: find_active_def find_active_state_def Let_def)
  have "json_mapping_eq (lt_metadata task) (dispatch_metadata d ses recipe plan)" by (simp add: md(1) json_mapping_eq_def)
  then have "find_reusable S t' t' d recipe ses = Inr (Some task)"
    using act md(2) metadata_matches by (simp add: find_reusable_def)
  moreover have "link_and_resume S quiet t' task (strip run_id) (dd_failed_resume_attempts d) ts' = (Inr task, t')"
    using so by (intro link_pending_bound [OF ok' stored s(2) _ pend]) (simp add: settled_on_def)
  ultimately have out: "dispatch S quiet t' namespace session plan decision d run_id drawn' timeout' clock' ts'
      = (dispatch_receipt d decision (Some task) task, t')" unfolding eq by simp
  obtain receipt' where "dispatch_receipt d decision (Some task) task = Inr receipt'" "dr_task_id receipt' = dr_task_id receipt"
    using rc unfolding dispatch_receipt_def LongTaskDispatchReceipt_post_init_def Let_def
    by (auto simp: bind_result_Inr_iff split: if_splits)
  then show ?thesis using out by auto
qed

end
