(* ===== verification/Recipe_Properties.thy ===== *)
theory Recipe_Properties
  imports Recipe_Laws
begin

text \<open>
  A sample recipe and the properties of recipe compilation, dispatch and continuation.
\<close>

section \<open>A sample recipe\<close>

abbreviation recipe_part :: "string \<Rightarrow> string list \<Rightarrow> string option \<Rightarrow> execution_recipe_step" where
  "recipe_part i deps planned \<equiv> \<lparr>er_id = i, er_kind = ''write'', er_depends_on = deps, er_input_ref = None, er_executor = None,
     er_plan_step_id = planned, er_max_attempts = 2, er_metadata = []\<rparr>"

definition book_recipe :: execution_recipe where
  "book_recipe = \<lparr>ec_kind = ''book'', ec_steps = [recipe_part ''draft'' [] (Some ''write''), recipe_part ''edit'' [''draft''] (Some ''write''),
     recipe_part ''print'' [''edit''] None], ec_max_parallelism = 1, ec_metadata = []\<rparr>"

definition book_admission :: task_admission_decision where
  "book_admission = \<lparr>ad_mode = Mode_DURABLE, ad_reason_code = ''long'', ad_estimated_units = 3, ad_estimated_model_calls = 3,
     ad_requires_confirmation = False, ad_message = None, ad_covered_step_ids = [''write'', ''print''],
     ad_execution_recipe = Some book_recipe, ad_metadata = []\<rparr>"

definition book_descriptor :: durable_task_descriptor where
  "book_descriptor = \<lparr>dd_namespace = ''library'', dd_owner_id = ''ada'', dd_idempotency_key = ''book-1'', dd_message = None,
     dd_failed_resume_attempts = 0, dd_deadline_at_ms = None, dd_budget_limits = no_limits,
     dd_budget_exhaustion_disposition = Budget_PAUSE_RECOVERABLE, dd_metadata = []\<rparr>"

definition book_plan :: execution_plan where
  "book_plan = \<lparr>ep_title = ''A book'', ep_steps = [], ep_goal = None, ep_task_spec = None, ep_work_step_ids = None\<rparr>"

definition book_dispatch :: "(nat \<Rightarrow> long_task_cmd list) \<Rightarrow> long_task_state \<Rightarrow> long_task_dispatch_receipt result \<times> long_task_state" where
  "book_dispatch others t = dispatch (\<lambda>_. []) others t ''library'' None book_plan book_admission book_descriptor ''run'' ''7'' (Some 1000) 5 ''now''"

lemma book_ok: "recipe_ok book_recipe" "admission_ok book_admission" "descriptor_ok book_descriptor"
proof -
  show r: "recipe_ok book_recipe" unfolding recipe_ok_def constructed_def by code_simp
  have "constructed TaskAdmissionDecision_post_init book_admission" unfolding constructed_def by code_simp
  then show "admission_ok book_admission" using r by (simp add: admission_ok_def book_admission_def)
  show "descriptor_ok book_descriptor" unfolding descriptor_ok_def constructed_def by code_simp
qed

lemma book_dispatched:
  "\<exists>receipt t. book_dispatch quiet [] = (Inr receipt, t) \<and> dr_task_id receipt = ''longtask_7''"
proof -
  have "case book_dispatch quiet [] of (Inr receipt, t) \<Rightarrow> dr_task_id receipt = ''longtask_7'' | _ \<Rightarrow> False" by code_simp
  then show ?thesis by (auto split: prod.splits sum.splits)
qed

lemma repo_ok_Nil: "repo_ok []"
  by (simp add: repo_ok_def)

section \<open>Properties\<close>

lemma compile_recipe_units_error:
  assumes "recipe_ok r" and "compile_recipe_units r covered = Inl e"
  shows "\<exists>m. e = ValueError m"
proof -
  have c: "list_all (constructed ExecutionRecipeStep_post_init) (ec_steps r)" using assms(1) by (simp add: recipe_ok_def)
  show ?thesis using assms(2) compile_units_eq [OF c, of 0]
    by (auto simp: compile_recipe_units_def bind_result_Inl_iff Let_def split: option.splits if_splits)
qed

text \<open>C24. A recipe compiles exactly when its steps implement the admitted plan steps, all of them and
  no others; its units then come in the order of the recipe with its dependencies, and the command
  that creates the durable task from them is always accepted.\<close>

theorem recipes_compile_to_creatable_tasks:
  assumes "recipe_ok r" and "descriptor_ok d" and "clean_id run_id" and "\<forall>n. timeout = Some n \<longrightarrow> 0 < clock + n"
  shows "case compile_recipe_units r covered of
      Inl e \<Rightarrow> planned_step ` set (ec_steps r) \<noteq> set covered \<and> (\<exists>m. e = ValueError m)
    | Inr us \<Rightarrow> planned_step ` set (ec_steps r) = set covered \<and> map ls_id us = map er_id (ec_steps r)
        \<and> spec_graph us = map (\<lambda>s. (er_id s, er_depends_on s)) (ec_steps r) \<and> map ls_position us = map int [0..<length (ec_steps r)]
        \<and> LongTaskCreateCommand_post_init (recipe_command d r us metadata run_id timeout clock)
            = Inr (recipe_command d r us metadata run_id timeout clock)"
proof (cases "compile_recipe_units r covered")
  case (Inl e)
  then show ?thesis using compile_recipe_units_error [OF assms(1) Inl] compile_recipe_units_eq [OF assms(1), of covered] by auto
next
  case (Inr us)
  then have us: "planned_step ` set (ec_steps r) = set covered" "us = units_from 0 (ec_steps r)"
    using compile_recipe_units_eq [OF assms(1)] by simp_all
  have "create_cmd_ok (recipe_command d r us metadata run_id timeout clock)"
    unfolding us(2) using assms(4) by (intro recipe_command_ok [OF assms(1-3)]) simp
  then show ?thesis using us units_from_positions [of 0 "ec_steps r"] Inr by (simp add: create_cmd_ok_def constructed_def recipe_edges_def)
qed

theorem recipes_compile_to_creatable_tasks_witness:
  "\<exists>us. compile_recipe_units book_recipe [''write'', ''print''] = Inr us \<and> map ls_id us = [''draft'', ''edit'', ''print'']"
proof -
  have r: "clean_id ''run''" "planned_step ` set (ec_steps book_recipe) = set [''write'', ''print'']"
    "map er_id (ec_steps book_recipe) = [''draft'', ''edit'', ''print'']" by code_simp+
  show ?thesis
    using recipes_compile_to_creatable_tasks [OF book_ok(1,3) r(1), of None 0 "[''write'', ''print'']" "[]"] r(2,3)
    by (auto split: sum.splits)
qed

definition needs_reconciliation :: "stored_long_task \<Rightarrow> bool" where
  "needs_reconciliation s \<longleftrightarrow> list_ex (\<lambda>u. lu_run_id u \<noteq> None \<and> lu_status u \<noteq> Unit_COMPLETED) (dict_values (sl_units s))"

lemma dispatch_run_named:
  assumes "dispatch S others t namespace session plan decision d run_id drawn timeout clock ts = (Inr receipt, t')"
  shows "strip run_id \<noteq> []"
proof
  assume "strip run_id = []"
  then have "required_text run_id ''durable Run id'' = Inl (ValueError (''durable Run id'' @ '' is required''))"
    by (simp add: required_text_def)
  with assms show False
    by (cases "ad_execution_recipe decision"; cases "compile_recipe_units (the (ad_execution_recipe decision)) (ad_covered_step_ids decision)")
      (simp_all add: dispatch_def read_op_def)
qed

lemma bound_run_admitted:
  assumes ok: "repo_ok u" "repo_ok u'" and run: "strip run_id \<noteq> []" and b: "bound u i (strip run_id)" and s: "map_of u' i = Some s"
  shows "execute_admission u u' i run_id = (if needs_reconciliation s
    then Inl (ContractViolation ''recipe_tree_reconciliation_required'' ''Legacy delegated Unit execution requires reconciliation'')
    else Inr ())"
proof -
  obtain q where q: "map_of u i = Some q" "strip run_id \<in> dom (map_of (sl_bindings q))" using b by (auto simp: bound_def)
  have base: "base_ok q" using repo_okD(2) [OF ok(1) q(1)] by (simp add: task_ok_def)
  have i: "strip i = i" "i \<noteq> []" using repo_okD(1) [OF ok(1) q(1)] base by (auto simp: base_ok_def record_ok_def clean_id_def)
  have l: "list_run_bindings u i = Inr (dict_values (sl_bindings q))"
    using q(1) i by (simp add: list_run_bindings_def require_state_def required_text_def)
  have "list_ex (\<lambda>b. lb_run_id b = strip run_id) (dict_values (sl_bindings q))" using bound_listed [OF ok(1) l] b i(1) by simp
  moreover have "list_units u' i = Inr (sort_key lu_position (dict_values (sl_units s)))"
    using s i by (simp add: list_units_def require_state_def required_text_def)
  moreover have "list_ex P (sort_key lu_position xs) = list_ex P xs" for P and xs :: "long_task_unit_record list" by (simp add: list_ex_iff)
  ultimately show ?thesis using run l by (simp add: execute_admission_def needs_reconciliation_def required_text_def)
qed

text \<open>C25. Whatever other calls the store serves in between, a dispatch that returns leaves a task in
  the scope of the descriptor, with its idempotency key and with the recipe, and the Run is bound to
  it for good: whatever calls follow, before the execution reads the bindings and before it reads the
  units, its admission lets the Run pass, unless at the second read some unit of the task is bound to a
  delegated Run and not completed. That is the only refusal.\<close>

theorem dispatched_runs_are_admitted:
  assumes "repo_ok t" and "\<forall>n. list_all long_task_cmd_ok (others n)" and "admission_ok decision" and "descriptor_ok d"
    and "\<forall>n. timeout = Some n \<longrightarrow> 0 < clock + n"
    and "dispatch S others t namespace session plan decision d run_id drawn timeout clock ts = (Inr receipt, t')"
    and "list_all long_task_cmd_ok cmds" and "u = after_calls_on S cmds t'"
    and "list_all long_task_cmd_ok cmds'" and "u' = after_calls_on S cmds' u"
  shows "repo_ok u' \<and> (\<exists>recipe s. ad_execution_recipe decision = Some recipe \<and> map_of u' (dr_task_id receipt) = Some s
    \<and> task_matches (sl_record s) d recipe
    \<and> execute_admission u u' (dr_task_id receipt) run_id = (if needs_reconciliation s
        then Inl (ContractViolation ''recipe_tree_reconciliation_required'' ''Legacy delegated Unit execution requires reconciliation'')
        else Inr ()))"
proof -
  note D = dispatch_sound [where timeout = timeout and clock = clock, OF assms(1-4)]
  obtain recipe where r: "ad_execution_recipe decision = Some recipe" and st: "settled_on t' (dr_task_id receipt) d recipe (strip run_id)"
    using D(2) [OF _ assms(6)] assms(5) by blast
  have "repo_step t t'" using D(1) [of S namespace session plan run_id drawn ts] assms(5,6) by simp
  then have "repo_step t' u" using after_calls_step assms(7,8) by (simp add: repo_step_def)
  then have u: "repo_ok u" "tasks_advance t' u" by (simp_all add: repo_step_def)
  have "repo_step u u'" using after_calls_step [OF u(1) assms(9)] assms(10) by simp
  then have u': "repo_ok u'" "tasks_advance u u'" by (simp_all add: repo_step_def)
  have st1: "settled_on u (dr_task_id receipt) d recipe (strip run_id)" by (rule settled_on_advance [OF u(2) st])
  have "settled_on u' (dr_task_id receipt) d recipe (strip run_id)" by (rule settled_on_advance [OF u'(2) st1])
  then obtain s where s: "map_of u' (dr_task_id receipt) = Some s" "task_matches (sl_record s) d recipe" by (auto simp: settled_on_def)
  have "bound u (dr_task_id receipt) (strip run_id)" using st1 by (simp add: settled_on_def)
  from bound_run_admitted [OF u(1) u'(1) dispatch_run_named [OF assms(6)] this s(1)] show ?thesis using u'(1) r s by blast
qed

text \<open>The task is created while other clients recover tasks, and the Run is admitted.\<close>

theorem dispatched_runs_are_admitted_witness:
  "\<exists>receipt t s. book_dispatch (\<lambda>_. [Recover_Tasks ''restart'' 1 ''now'']) [] = (Inr receipt, t)
     \<and> map_of t (dr_task_id receipt) = Some s \<and> task_matches (sl_record s) book_descriptor book_recipe
     \<and> execute_admission t t (dr_task_id receipt) ''run'' = Inr ()"
proof -
  let ?o = "\<lambda>_ :: nat. [Recover_Tasks ''restart'' 1 ''now'']"
  have "case book_dispatch ?o [] of (Inr receipt, t) \<Rightarrow> list_all (\<lambda>(k, s). \<not> needs_reconciliation s) t | _ \<Rightarrow> False" by code_simp
  then obtain receipt t where d: "book_dispatch ?o [] = (Inr receipt, t)" "list_all (\<lambda>(k, s). \<not> needs_reconciliation s) t"
    by (auto split: prod.splits sum.splits)
  have o: "\<forall>n. list_all long_task_cmd_ok (?o n)" "\<forall>n. Some 1000 = Some n \<longrightarrow> 0 < 5 + (n :: int)" by simp_all
  have n: "list_all long_task_cmd_ok []" "t = after_calls_on (\<lambda>_. []) [] t" by simp_all
  from dispatched_runs_are_admitted [OF repo_ok_Nil o(1) book_ok(2,3) o(2) d(1) [unfolded book_dispatch_def] n n] obtain s
    where s: "map_of t (dr_task_id receipt) = Some s" "task_matches (sl_record s) book_descriptor book_recipe"
      "execute_admission t t (dr_task_id receipt) ''run'' = (if needs_reconciliation s
        then Inl (ContractViolation ''recipe_tree_reconciliation_required'' ''Legacy delegated Unit execution requires reconciliation'')
        else Inr ())"
    by (auto simp: book_admission_def)
  then show ?thesis using d map_of_SomeD [OF s(1)] by (auto simp: list_all_iff)
qed

text \<open>C26. Dispatching again is harmless: a second dispatch with the same descriptor by the same Run
  returns the task that the first one created and leaves the store as it is.\<close>

theorem dispatch_is_idempotent:
  assumes "repo_ok t" and "admission_ok decision" and "descriptor_ok d" and "\<forall>n. timeout = Some n \<longrightarrow> 0 < clock + n"
    and "clean_id (''longtask_'' @ drawn)"
    and "dispatch S (\<lambda>_. []) t namespace session plan decision d run_id drawn timeout clock ts = (Inr receipt, t')"
    and "map_of t (dr_task_id receipt) = None"
  shows "\<exists>receipt'. dispatch S (\<lambda>_. []) t' namespace session plan decision d run_id drawn' timeout' clock' ts' = (Inr receipt', t')
    \<and> dr_task_id receipt' = dr_task_id receipt"
  using assms(4) by (intro dispatch_again [OF assms(1-3) _ assms(5-7)]) blast

theorem dispatch_is_idempotent_witness:
  "\<exists>receipt t receipt'. book_dispatch (\<lambda>_. []) [] = (Inr receipt, t) \<and> book_dispatch (\<lambda>_. []) t = (Inr receipt', t)
     \<and> dr_task_id receipt' = dr_task_id receipt"
proof -
  obtain receipt t where d: "book_dispatch (\<lambda>_. []) [] = (Inr receipt, t)" using book_dispatched by blast
  have c: "clean_id (''longtask_'' @ ''7'')" by code_simp
  have tm: "\<forall>n. Some 1000 = Some n \<longrightarrow> 0 < 5 + (n :: int)" and n: "map_of [] (dr_task_id receipt) = None" by simp_all
  from dispatch_is_idempotent [OF repo_ok_Nil book_ok(2,3) tm c d [unfolded book_dispatch_def] n, of "''7''" "Some 1000" 5 "''now''"] d
  show ?thesis unfolding book_dispatch_def by blast
qed

text \<open>C27. A continuation is bound only to a task that its source Run created: whatever other calls are
  served in between, after a successful preparation the new Run differs from the source, holds a
  continuation binding of the task, and the source is still its creator.\<close>

theorem continuations_bind_owned_tasks:
  assumes "repo_ok t" and "\<forall>n. list_all long_task_cmd_ok (others n)"
  shows "case prepare_continuation S others t task_id source run of (res, t') \<Rightarrow>
    repo_ok t' \<and> tasks_advance t t' \<and> (res = Inr () \<longrightarrow> strip source \<noteq> strip run
      \<and> (\<exists>s b. map_of t' (strip task_id) = Some s \<and> lt_created_by_run_id (sl_record s) = strip source
          \<and> map_of (sl_bindings s) (strip run) = Some b \<and> lb_relation b = Relation_CONTINUATION))"
  using prepare_continuation_step [OF assms, of S task_id source run] prepare_continuation_sound [OF assms, of S task_id source run "()"]
  by (cases "prepare_continuation S others t task_id source run") (simp add: repo_step_def)

definition paused_book :: long_task_state where
  "paused_book = snd (pause (snd (book_dispatch (\<lambda>_. []) [])) ''longtask_7'' None None ''later'')"

lemma paused_book_ok: "repo_ok paused_book"
proof -
  have tm: "\<And>n. Some 1000 = Some n \<Longrightarrow> 0 < 5 + (n :: int)" by simp
  have "repo_step [] (snd (book_dispatch (\<lambda>_. []) []))" unfolding book_dispatch_def
    by (rule dispatch_sound(1) [OF repo_ok_Nil no_others book_ok(2,3) tm])
  then have "repo_ok (snd (book_dispatch (\<lambda>_. []) []))" by (simp add: repo_step_def)
  then have "repo_step (snd (book_dispatch (\<lambda>_. []) [])) paused_book" unfolding paused_book_def pause_def
    by (rule on_task_step) (rule pause_step)
  then show ?thesis by (simp add: repo_step_def)
qed

theorem continuations_bind_owned_tasks_witness:
  "\<exists>t s b. prepare_continuation (\<lambda>_. []) (\<lambda>_. []) paused_book ''longtask_7'' ''run'' ''next'' = (Inr (), t)
     \<and> map_of t ''longtask_7'' = Some s \<and> map_of (sl_bindings s) ''next'' = Some b \<and> lb_relation b = Relation_CONTINUATION"
proof -
  have p: "fst (prepare_continuation (\<lambda>_. []) (\<lambda>_. []) paused_book ''longtask_7'' ''run'' ''next'') = Inr ()"
    and st: "strip ''longtask_7'' = ''longtask_7''" "strip ''next'' = ''next''" by code_simp+
  obtain t where t: "prepare_continuation (\<lambda>_. []) (\<lambda>_. []) paused_book ''longtask_7'' ''run'' ''next'' = (Inr (), t)"
    using p by (cases "prepare_continuation (\<lambda>_. []) (\<lambda>_. []) paused_book ''longtask_7'' ''run'' ''next''") simp
  show ?thesis using continuations_bind_owned_tasks [OF paused_book_ok no_others, where S = "\<lambda>_. []" and task_id = "''longtask_7''"
        and source = "''run''" and run = "''next''"]
    unfolding t prod.case st by blast
qed

end
