(* ===== verification/Unit_Settlement.thy ===== *)
theory Unit_Settlement
  imports Recipe_Dispatch Plan_Compiler
begin

text \<open>
  \<open>LongTaskUnitSettlement\<close> of \<open>long_tasks/coordinator.py\<close> and \<open>long_tasks/failure_policy.py\<close>: how a claimed unit is
  settled when its execution ends, and the loop that claims units, waits for their executions and stops
  the task.
\<close>

section \<open>Awaited calls\<close>

text \<open>
  What happens around the calls that a coordinator awaits: \<open>aw_others n\<close> are the calls that the store
  serves before the \<open>n\<close>-th call of the coordinator, \<open>aw_now n\<close> and \<open>aw_ts n\<close> the clock of that call. The
  calls of the unit executions that a coordinator has started are among them.
\<close>

record await_schedule =
  aw_text :: "json \<Rightarrow> string"
  aw_others :: "nat \<Rightarrow> long_task_cmd list"
  aw_now :: "nat \<Rightarrow> int"
  aw_ts :: "nat \<Rightarrow> string"

definition served :: "await_schedule \<Rightarrow> nat \<Rightarrow> long_task_state \<Rightarrow> long_task_state" where
  "served E n t = after_calls_on (aw_text E) (aw_others E n) t"

section \<open>Failure policy\<close>

text \<open>
  An exception of the unit runner: a \<open>ContractViolationError\<close> with its code and message, or another
  exception with its \<open>code\<close> attribute (empty if it has none), its text and the name of its class.
\<close>

datatype unit_error = Contract_Error string string | Other_Error string string string

fun error_code :: "unit_error \<Rightarrow> string" where
  "error_code (Contract_Error code message) = code"
| "error_code (Other_Error code message name) = code"

fun error_text :: "unit_error \<Rightarrow> string" where
  "error_text (Contract_Error code message) = message"
| "error_text (Other_Error code message name) = message"

fun error_type :: "unit_error \<Rightarrow> string" where
  "error_type (Contract_Error code message) = ''ContractViolationError''"
| "error_type (Other_Error code message name) = name"

text \<open>The exceptions of the store as a handler sees them; it raises none but the first four.\<close>

fun raised :: "py_error \<Rightarrow> unit_error" where
  "raised (ContractViolation code m) = Contract_Error code m"
| "raised (ValueError m) = Other_Error [] m ''ValueError''"
| "raised (LookupError m) = Other_Error [] m ''LookupError''"
| "raised (TypeError m) = Other_Error [] m ''TypeError''"
| "raised (RuntimeError m) = Other_Error [] m ''RuntimeError''"
| "raised (KeyError m) = Other_Error [] (py_repr m) ''KeyError''"
| "raised (AttributeError m) = Other_Error [] m ''AttributeError''"
| "raised (ContextOverflow reason) = Other_Error [] reason ''ContextOverflowError''"
| "raised (ArtifactNotFoundError code m) = Other_Error code m ''ArtifactNotFoundError''"
| "raised (ArtifactConflictError code m) = Other_Error code m ''ArtifactConflictError''"
| "raised (ArtifactStateError code m) = Other_Error code m ''ArtifactStateError''"
| "raised (ArtifactValidationError code m) = Other_Error code m ''ArtifactValidationError''"
| "raised (ArtifactAccessDeniedError code m) = Other_Error code m ''ArtifactAccessDeniedError''"
| "raised NonTermination = Other_Error [] [] ''RecursionError''"

text \<open>The optional hooks of a unit runner. A hook may raise.\<close>

type_synonym 'a unit_hook = "(long_task_record \<Rightarrow> long_task_unit_record \<Rightarrow> unit_error \<Rightarrow> 'a option result) option"

record unit_hooks =
  uh_classify_unit_failure :: "failure_signal unit_hook"
  uh_split_unit :: "long_task_split_result unit_hook"

definition invoke_hook :: "string \<Rightarrow> 'a unit_hook \<Rightarrow> long_task_record \<Rightarrow> long_task_unit_record \<Rightarrow> unit_error \<Rightarrow> 'a option result" where
  "invoke_hook name hook task unit error =
     (case hook of None \<Rightarrow> Inr None
      | Some h \<Rightarrow> (case h task unit error of
          Inl _ \<Rightarrow> Inl (ContractViolation ''long_task_failure_hook_failed'' (''Unit failure hook '' @ name @ '' failed''))
        | Inr v \<Rightarrow> Inr v))"

definition default_failure_code :: "unit_error \<Rightarrow> string" where
  "default_failure_code error = take 240
     (if strip (error_code error) \<noteq> [] then strip (error_code error)
      else if error_text error \<noteq> [] then error_text error else error_type error)"

definition classify_failure :: "unit_hooks \<Rightarrow> long_task_record \<Rightarrow> long_task_unit_record \<Rightarrow> unit_error \<Rightarrow> failure_signal result" where
  "classify_failure hooks task unit error =
     bind_result (invoke_hook ''classify_unit_failure'' (uh_classify_unit_failure hooks) task unit error) (\<lambda>failure.
     case failure of
       Some f \<Rightarrow> Inr f
     | None \<Rightarrow> FailureSignal_post_init \<lparr>fs_category = Failure_BUSINESS_INVARIANT, fs_code = default_failure_code error,
         fs_retryable = False, fs_scope = Scope_LOCAL, fs_effect_state = Effect_NOT_STARTED, fs_checkpoint_available = False,
         fs_part_splittable = False\<rparr>)"

definition split_part :: "unit_hooks \<Rightarrow> long_task_record \<Rightarrow> long_task_unit_record \<Rightarrow> unit_error \<Rightarrow> long_task_split_result option result" where
  "split_part hooks = invoke_hook ''split_unit'' (uh_split_unit hooks)"

section \<open>Settlement of a claimed unit\<close>

record coordinator_config =
  cf_worker_id :: string
  cf_lease_duration_ms :: int
  cf_retry_backoff_ms :: "int list"
  cf_idle_poll_ms :: int

definition LongTaskUnitSettlement_init :: "coordinator_config \<Rightarrow> coordinator_config result" where
  "LongTaskUnitSettlement_init c =
     (if strip (cf_worker_id c) = [] then Inl (ValueError ''long task coordinator worker_id is required'')
      else if cf_lease_duration_ms c \<le> 0 then Inl (ValueError ''long task coordinator lease must be positive'')
      else Inr (c\<lparr>cf_worker_id := strip (cf_worker_id c), cf_retry_backoff_ms := map (max 0) (cf_retry_backoff_ms c),
        cf_idle_poll_ms := max 1 (cf_idle_poll_ms c)\<rparr>))"

definition require_task :: "long_task_state \<Rightarrow> string \<Rightarrow> long_task_record result" where
  "require_task t task_id = (case load t (strip task_id) of
     None \<Rightarrow> Inl (LookupError ''long task does not exist'') | Some task \<Rightarrow> Inr task)"

text \<open>The two codes that the handlers of a \<open>ContractViolationError\<close> look for.\<close>

definition is_lease_lost :: "py_error \<Rightarrow> bool" where
  "is_lease_lost e \<longleftrightarrow> (case e of ContractViolation code _ \<Rightarrow> code = ''long_task_unit_lease_lost'' | _ \<Rightarrow> False)"

definition is_deadline :: "py_error \<Rightarrow> bool" where
  "is_deadline e \<longleftrightarrow> (case e of ContractViolation code _ \<Rightarrow> code = ''long_task_deadline_exceeded'' | _ \<Rightarrow> False)"

definition checkpoint_interrupted ::
    "await_schedule \<Rightarrow> nat \<Rightarrow> long_task_state \<Rightarrow> coordinator_config \<Rightarrow> string \<Rightarrow> string \<Rightarrow> int \<Rightarrow> long_task_record result \<times> long_task_state" where
  "checkpoint_interrupted E n t0 cf task_id unit_id epoch =
     (let t1 = served E n t0 in
      read_op (require_task t1 task_id) t1 (\<lambda>current.
      if lt_status current \<noteq> Task_RUNNING then (Inr current, t1)
      else case interrupt_unit (served E (n + 1) t1) task_id unit_id (cf_worker_id cf) epoch ''execution_interrupted''
            (aw_now E (n + 1)) (aw_ts E (n + 1)) of
          (Inr task, t) \<Rightarrow> (Inr task, t)
        | (Inl e, t) \<Rightarrow>
            if is_lease_lost e then (Inr current, t)
            else if is_deadline e then (let t = served E (n + 2) t in (require_task t task_id, t))
            else (Inl e, t)))"

definition settle_decision ::
    "await_schedule \<Rightarrow> long_task_state \<Rightarrow> coordinator_config \<Rightarrow> long_task_record \<Rightarrow> long_task_unit_record \<Rightarrow> failure_decision
     \<Rightarrow> long_task_record result \<times> long_task_state" where
  "settle_decision E t0 cf task unit decision =
     (case settle_unit_failure (served E 3 t0) (lt_id task) (lu_id unit) (cf_worker_id cf) (lu_lease_epoch unit) decision
           (aw_now E 3) (aw_ts E 3) of
        (Inr settled, t) \<Rightarrow> (Inr settled, t)
      | (Inl e, t) \<Rightarrow>
          if is_lease_lost e \<or> is_deadline e then (let t = served E 4 t in (require_task t (lt_id task), t))
          else (Inl e, t))"

text \<open>A part that was to be split and has no split is incompatible with its task.\<close>

definition settle_incompatible ::
    "await_schedule \<Rightarrow> long_task_state \<Rightarrow> coordinator_config \<Rightarrow> long_task_record \<Rightarrow> long_task_unit_record \<Rightarrow> failure_signal
     \<Rightarrow> long_task_record result \<times> long_task_state" where
  "settle_incompatible E t0 cf task unit failure =
     read_op (FailureSignal_post_init \<lparr>fs_category = Failure_PROTOCOL_INCOMPATIBLE, fs_code = ''model_task_mode_incompatible'',
         fs_retryable = False, fs_scope = fs_scope failure, fs_effect_state = Effect_NOT_STARTED, fs_checkpoint_available = False,
         fs_part_splittable = False\<rparr>) t0 (\<lambda>signal.
     read_op (decide_failure signal 0) t0 (\<lambda>decision. settle_decision E t0 cf task unit decision))"

text \<open>The handler of an exception that is no contract violation; \<open>stopped\<close> is the state of the stop signal.\<close>

definition settle_failed ::
    "await_schedule \<Rightarrow> long_task_state \<Rightarrow> coordinator_config \<Rightarrow> unit_hooks \<Rightarrow> bool \<Rightarrow> long_task_record \<Rightarrow> long_task_unit_record
     \<Rightarrow> unit_error \<Rightarrow> long_task_record result \<times> long_task_state" where
  "settle_failed E t0 cf hooks stopped task unit error =
     (let t1 = served E 2 t0 in
      read_op (require_task t1 (lt_id task)) t1 (\<lambda>current.
      if lt_status current \<noteq> Task_RUNNING then (Inr current, t1)
      else if stopped then checkpoint_interrupted E 3 t1 cf (lt_id task) (lu_id unit) (lu_lease_epoch unit)
      else
        read_op (classify_failure hooks task unit error) t1 (\<lambda>failure.
        read_op (decide_failure failure (max 0 (lu_max_attempts unit - lu_attempt unit))) t1 (\<lambda>decision.
        if fd_disposition decision = Disp_SPLIT_PART then
          read_op (split_part hooks task unit error) t1 (\<lambda>split.
          case split of
            Some p \<Rightarrow>
              if lp_children p \<noteq> [] then
                expand_unit (served E 3 t1) (lt_id task) (lu_id unit) (cf_worker_id cf) (lu_lease_epoch unit) p decision
                  (aw_now E 3) (aw_ts E 3)
              else settle_incompatible E t1 cf task unit failure
          | None \<Rightarrow> settle_incompatible E t1 cf task unit failure)
        else settle_decision E t1 cf task unit decision))))"

definition handle_error ::
    "await_schedule \<Rightarrow> long_task_state \<Rightarrow> coordinator_config \<Rightarrow> unit_hooks \<Rightarrow> bool \<Rightarrow> long_task_record \<Rightarrow> long_task_unit_record
     \<Rightarrow> unit_error \<Rightarrow> long_task_record result \<times> long_task_state" where
  "handle_error E t0 cf hooks stopped task unit error =
     (case error of
        Contract_Error code m \<Rightarrow>
          if is_lease_lost (ContractViolation code m) \<or> is_deadline (ContractViolation code m) then
            (let t = served E 2 t0 in (require_task t (lt_id task), t))
          else (Inl (ContractViolation code m), t0)
      | Other_Error _ _ _ \<Rightarrow> settle_failed E t0 cf hooks stopped task unit error)"

text \<open>How the execution of a unit under its heartbeat ends.\<close>

datatype unit_outcome = Finished long_task_unit_result | Cancelled | Raised unit_error

definition complete_claimed ::
    "await_schedule \<Rightarrow> long_task_state \<Rightarrow> coordinator_config \<Rightarrow> long_task_record \<Rightarrow> long_task_unit_record \<Rightarrow> long_task_unit_result
     \<Rightarrow> long_task_record result \<times> long_task_state" where
  "complete_claimed E t0 cf task unit result =
     (case complete_unit (served E 0 t0) (lt_id task) (lu_id unit) (cf_worker_id cf) (lu_lease_epoch unit) result
           (aw_now E 0) (aw_ts E 0) of
        (Inr settled, t) \<Rightarrow> (Inr settled, t)
      | (Inl e, t) \<Rightarrow> if is_lease_lost e then (let t = served E 1 t in (require_task t (lt_id task), t)) else (Inl e, t))"

definition settle_claimed_unit ::
    "await_schedule \<Rightarrow> long_task_state \<Rightarrow> coordinator_config \<Rightarrow> unit_hooks \<Rightarrow> bool \<Rightarrow> long_task_record \<Rightarrow> long_task_unit_record
     \<Rightarrow> unit_outcome \<Rightarrow> long_task_record result \<times> long_task_state" where
  "settle_claimed_unit E t0 cf hooks stopped task unit outcome =
     (case outcome of
        Finished result \<Rightarrow>
          (case complete_claimed E t0 cf task unit result of
             (Inr settled, t) \<Rightarrow> (Inr settled, t)
           | (Inl e, t) \<Rightarrow> handle_error E t cf hooks stopped task unit (raised e))
      | Cancelled \<Rightarrow> checkpoint_interrupted E 0 t0 cf (lt_id task) (lu_id unit) (lu_lease_epoch unit)
      | Raised error \<Rightarrow> handle_error E t0 cf hooks stopped task unit error)"

section \<open>The scheduling loop\<close>

text \<open>
  The second test of the cancellation request in \<open>_stop_active\<close> looks at the same record as the first and
  cannot succeed.
\<close>

definition stop_active :: "await_schedule \<Rightarrow> nat \<Rightarrow> long_task_state \<Rightarrow> string \<Rightarrow> long_task_record result \<times> long_task_state" where
  "stop_active E n t0 task_id =
     (let t1 = served E n t0 in
      read_op (require_task t1 task_id) t1 (\<lambda>current.
      if lt_cancellation_requested_at_ms current \<noteq> None then cancel_task (served E (n + 1) t1) task_id (aw_ts E (n + 1))
      else if lt_status current \<in> {Task_PAUSED, Task_CANCELED} then (Inr current, t1)
      else if lt_status current = Task_RUNNING then pause (served E (n + 1) t1) task_id None None (aw_ts E (n + 1))
      else (Inr current, t1)))"

text \<open>
  The coordinator between two rounds: the task as last read, the executions under way with the unit
  each has claimed, and the number of executions it has started.
\<close>

record coordinator =
  cr_task :: long_task_record
  cr_active :: "(nat \<times> long_task_unit_record) list"
  cr_started :: nat

text \<open>
  What a round finds: the reason of the stop signal if it is set, whether the coordinator is cancelled
  while it waits, and the executions that are done when the wait ends, with the exception of each that raised.
\<close>

record coordinator_round =
  rd_schedule :: await_schedule
  rd_stop :: "string option"
  rd_cancelled :: bool
  rd_done :: "(nat \<times> py_error option) list"

text \<open>\<open>while len(active) < task.max_parallelism\<close>: \<open>slots\<close> is the number of executions that may still start.\<close>

primrec claim_units ::
    "await_schedule \<Rightarrow> nat \<Rightarrow> coordinator_config \<Rightarrow> nat \<Rightarrow> coordinator \<Rightarrow> long_task_state \<Rightarrow> coordinator result \<times> long_task_state" where
  "claim_units E n cf 0 c t = (Inr c, t)"
| "claim_units E n cf (Suc slots) c t =
     bind_op (claim_ready_unit (served E n t) (lt_id (cr_task c)) (cf_worker_id cf) (cf_lease_duration_ms cf) (aw_now E n) (aw_ts E n))
     (\<lambda>claimed t. case claimed of
        None \<Rightarrow> (Inr c, t)
      | Some u \<Rightarrow> claim_units E (n + 1) cf slots
          (c\<lparr>cr_active := cr_active c @ [(cr_started c, u)], cr_started := cr_started c + 1\<rparr>) t)"

definition free_slots :: "coordinator \<Rightarrow> nat" where
  "free_slots c = nat (lt_max_parallelism (cr_task c) - int (length (cr_active c)))"

text \<open>\<open>active.pop(execution)\<close> and \<open>await execution\<close> for the executions that are done.\<close>

fun collect_done ::
    "(nat \<times> long_task_unit_record) list \<Rightarrow> (nat \<times> py_error option) list \<Rightarrow> py_error option \<times> (nat \<times> long_task_unit_record) list" where
  "collect_done active [] = (None, active)"
| "collect_done active ((k, e) # ds) =
     (let active = filter (\<lambda>a. fst a \<noteq> k) active in
      case e of Some x \<Rightarrow> (Some x, active) | None \<Rightarrow> collect_done active ds)"

text \<open>
  How a round ends: the loop goes on, or \<open>run\<close> returns or raises; then no execution is left, because the
  handlers and the \<open>finally\<close> clause cancel them. When a round finds the task not running, the loop ends
  with it.
\<close>

datatype round_end = Goes_On coordinator | Ends "long_task_record result"

definition end_with :: "long_task_record result \<times> long_task_state \<Rightarrow> round_end \<times> long_task_state" where
  "end_with r = (case r of (res, t) \<Rightarrow> (Ends res, t))"

text \<open>\<open>except BaseException\<close>: the task is stopped and the exception raised again.\<close>

definition stop_and_raise :: "await_schedule \<Rightarrow> nat \<Rightarrow> long_task_state \<Rightarrow> string \<Rightarrow> py_error \<Rightarrow> round_end \<times> long_task_state" where
  "stop_and_raise E n t task_id e = end_with (bind_op (stop_active E n t task_id) (\<lambda>_ t. (Inl e, t)))"

text \<open>A call within the \<open>try\<close> block.\<close>

definition guarded ::
    "await_schedule \<Rightarrow> nat \<Rightarrow> string \<Rightarrow> 'a result \<times> long_task_state \<Rightarrow> ('a \<Rightarrow> long_task_state \<Rightarrow> round_end \<times> long_task_state)
     \<Rightarrow> round_end \<times> long_task_state" where
  "guarded E n task_id m f = (case m of (Inl e, t) \<Rightarrow> stop_and_raise E n t task_id e | (Inr x, t) \<Rightarrow> f x t)"

definition return_task :: "long_task_record \<Rightarrow> long_task_state \<Rightarrow> round_end \<times> long_task_state" where
  "return_task task t = (Ends (Inr task), t)"

text \<open>
  Leaving the loop with the task as last read: executions that are still under way are cancelled first,
  and while the coordinator awaits their end other calls are served.
\<close>

definition leave_with ::
    "await_schedule \<Rightarrow> (nat \<times> long_task_unit_record) list \<Rightarrow> long_task_record \<Rightarrow> long_task_state \<Rightarrow> round_end \<times> long_task_state" where
  "leave_with E active task t = return_task task (if active = [] then t else served E 7 t)"

text \<open>
  One round of the loop. The calls before the claims have the numbers 0 to 2, those of a handler 3 and 4,
  the finalization is call 5, the read after the wait call 6, the end of the cancelled executions has
  number 7, and the claims start at 8.
\<close>

definition run_round :: "coordinator_config \<Rightarrow> coordinator_round \<Rightarrow> coordinator \<Rightarrow> long_task_state \<Rightarrow> round_end \<times> long_task_state" where
  "run_round cf rd c t0 =
     (let E = rd_schedule rd; i = lt_id (cr_task c) in
      case rd_stop rd of
        Some reason \<Rightarrow>
          guarded E 3 i
            (if reason = ''long_task_deadline_exceeded'' then expire_deadline (served E 0 t0) i (aw_now E 0) (aw_ts E 0)
             else stop_active E 0 t0 i) return_task
      | None \<Rightarrow>
          guarded E 3 i (let t1 = served E 0 t0 in (require_task t1 i, t1)) (\<lambda>task t1.
          if lt_cancellation_requested_at_ms task \<noteq> None then guarded E 3 i (stop_active E 1 t1 i) return_task
          else if lt_status task \<noteq> Task_RUNNING then leave_with E (cr_active c) task t1
          else guarded E 3 i (claim_units E 8 cf (free_slots (c\<lparr>cr_task := task\<rparr>)) (c\<lparr>cr_task := task\<rparr>) t1) (\<lambda>c t2.
          if cr_active c = [] then
            guarded E 3 i (finalize_if_complete (served E 5 t2) i (aw_now E 5) (aw_ts E 5)) (\<lambda>task t3.
            if lt_status task \<noteq> Task_RUNNING then return_task task t3
            else if rd_cancelled rd then end_with (stop_active E 3 t3 i)
            else (Goes_On (c\<lparr>cr_task := task\<rparr>), t3))
          else if rd_cancelled rd then end_with (stop_active E 3 t2 i)
          else case collect_done (cr_active c) (rd_done rd) of
            (Some e, _) \<Rightarrow> stop_and_raise E 3 t2 i e
          | (None, active) \<Rightarrow>
              guarded E 3 i (let t3 = served E 6 t2 in (require_task t3 i, t3)) (\<lambda>task t3.
              if lt_status task \<noteq> Task_RUNNING then leave_with E active task t3
              else (Goes_On (c\<lparr>cr_task := task, cr_active := active\<rparr>), t3)))))"

text \<open>\<open>while task.status is LongTaskStatus.RUNNING\<close> for as many rounds as are given.\<close>

primrec run_rounds :: "coordinator_config \<Rightarrow> coordinator_round list \<Rightarrow> coordinator \<Rightarrow> long_task_state \<Rightarrow> round_end \<times> long_task_state" where
  "run_rounds cf [] c t =
     (if lt_status (cr_task c) \<noteq> Task_RUNNING then return_task (cr_task c) t else (Goes_On c, t))"
| "run_rounds cf (rd # rds) c t =
     (if lt_status (cr_task c) \<noteq> Task_RUNNING then return_task (cr_task c) t
      else case run_round cf rd c t of (Ends r, t) \<Rightarrow> (Ends r, t) | (Goes_On c, t) \<Rightarrow> run_rounds cf rds c t)"

text \<open>
  How the first notification of the runner ends. The runner may call the store, and other calls are
  served while it is notified.
\<close>

datatype notice = Notified | Notice_Raises py_error | Notice_Cancelled

definition run_task ::
    "await_schedule \<Rightarrow> coordinator_config \<Rightarrow> string \<Rightarrow> notice \<Rightarrow> coordinator_round list \<Rightarrow> long_task_state
     \<Rightarrow> round_end \<times> long_task_state" where
  "run_task E cf task_id notified rds t0 =
     (let t1 = served E 0 t0 in
      case require_task t1 task_id of
        Inl e \<Rightarrow> (Ends (Inl e), t1)
      | Inr task \<Rightarrow>
          if lt_cancellation_requested_at_ms task \<noteq> None then
            end_with (cancel_task (served E 1 t1) (lt_id task) (aw_ts E 1))
          else case (if lt_status task = Task_PENDING
                then start (served E 1 t1) (lt_id task) (lt_revision task) (aw_now E 1) (aw_ts E 1) else (Inr task, t1)) of
              (Inl e, t2) \<Rightarrow> (Ends (Inl e), t2)
            | (Inr task, t2) \<Rightarrow>
                let t3 = served E 2 t2 in
                (case notified of
                   Notice_Raises e \<Rightarrow> stop_and_raise E 3 t3 (lt_id task) e
                 | Notice_Cancelled \<Rightarrow> end_with (stop_active E 3 t3 (lt_id task))
                 | Notified \<Rightarrow> run_rounds cf rds \<lparr>cr_task = task, cr_active = [], cr_started = 0\<rparr> t3))"

section \<open>Waits and heartbeats\<close>

text \<open>The wait before a repeated attempt and the time between two renewals of a lease, in milliseconds.\<close>

definition retry_delay_ms :: "coordinator_config \<Rightarrow> int \<Rightarrow> int" where
  "retry_delay_ms cf attempt = (if cf_retry_backoff_ms cf = [] then 0
     else max 0 (cf_retry_backoff_ms cf ! nat (min (max 0 (attempt - 1)) (int (length (cf_retry_backoff_ms cf)) - 1))))"

definition execution_delay_ms :: "coordinator_config \<Rightarrow> long_task_unit_record \<Rightarrow> int" where
  "execution_delay_ms cf unit =
     (if lu_attempt unit > 1 \<and> str_or_empty (lu_error_code unit) \<noteq> [] then retry_delay_ms cf (lu_attempt unit - 1) else 0)"

definition heartbeat_interval_ms :: "coordinator_config \<Rightarrow> int" where
  "heartbeat_interval_ms cf = max 1 (cf_lease_duration_ms cf div 3)"

end
