(* ===== verification/Settlement_Laws.thy ===== *)
theory Settlement_Laws
  imports Recipe_Laws Unit_Settlement
begin

text \<open>
  The settlement of a claimed unit: it keeps the store well formed, and whatever other calls are served in
  between, work that ended is recorded if the claim is still held and fenced off if it is not.
\<close>

section \<open>Claims and what ends them\<close>

definition claim_held :: "long_task_state \<Rightarrow> string \<Rightarrow> string \<Rightarrow> string \<Rightarrow> int \<Rightarrow> int \<Rightarrow> bool" where
  "claim_held t i k w e now \<longleftrightarrow> (case map_of t (strip i) of None \<Rightarrow> False
     | Some s \<Rightarrow> (case map_of (sl_units s) (strip k) of None \<Rightarrow> False | Some u \<Rightarrow> holds_claim s u w e now))"

lemma claim_held_iff:
  "claim_held t i k w e now \<longleftrightarrow>
     (\<exists>s u. map_of t (strip i) = Some s \<and> map_of (sl_units s) (strip k) = Some u \<and> holds_claim s u w e now)"
  by (auto simp: claim_held_def split: option.splits)

text \<open>The two codes on which the coordinator gives a unit up.\<close>

definition gives_up :: "py_error \<Rightarrow> bool" where
  "gives_up e \<longleftrightarrow> is_lease_lost e \<or> is_deadline e"

lemma gives_up_simps [simp]: "\<not> gives_up (ValueError m)" "\<not> gives_up (LookupError m)" "\<not> gives_up (TypeError m)"
  "gives_up (ContractViolation code m) \<longleftrightarrow> code = ''long_task_unit_lease_lost'' \<or> code = ''long_task_deadline_exceeded''"
  by (auto simp: gives_up_def is_lease_lost_def is_deadline_def)

lemma refresh_totals_units: "refresh_totals s ts = (Inr x, s') \<Longrightarrow> sl_units s' = sl_units s"
  by (auto simp: refresh_totals_def Let_def read_op_Inr touch_def)

lemma held_claim_passes:
  "holds_claim s u w e now \<Longrightarrow> strip w \<noteq> [] \<Longrightarrow> require_unit_claim s u w e now ts = (Inr (), s)"
  by (auto simp: holds_claim_def require_unit_claim_def read_op_def required_text_def lease_at_def Let_def split: option.splits)

lemma require_unit_lookup: "require_unit s k = Inr u \<Longrightarrow> map_of (sl_units s) (strip k) = Some u"
  by (auto simp: require_unit_def bind_result_Inr_iff required_text_Inr split: option.splits)

section \<open>Settlement\<close>

definition schedule_ok :: "await_schedule \<Rightarrow> bool" where
  "schedule_ok E \<longleftrightarrow> (\<forall>n. list_all long_task_cmd_ok (aw_others E n))"

lemma served_step: "repo_ok t \<Longrightarrow> schedule_ok E \<Longrightarrow> repo_step t (served E n t)"
  unfolding served_def by (rule after_calls_step) (simp_all add: schedule_ok_def)

lemma repo_stepD: "repo_step t t' \<Longrightarrow> repo_ok t'" "repo_step t t' \<Longrightarrow> tasks_advance t t'"
  by (simp_all add: repo_step_def)

lemma require_task_Inr: "require_task t i = Inr r \<longleftrightarrow> (\<exists>s. map_of t (strip i) = Some s \<and> r = sl_record s)"
  by (auto simp: require_task_def load_def split: option.splits)

lemma call_steps:
  assumes "repo_ok t"
  shows "constructed LongTaskUnitResult_post_init r \<Longrightarrow> repo_step t (snd (complete_unit t i k w e r now ts))"
    and "constructed FailureDecision_post_init d \<Longrightarrow> repo_step t (snd (settle_unit_failure t i k w e d now ts))"
    and "split_ok p \<Longrightarrow> constructed FailureDecision_post_init d \<Longrightarrow> repo_step t (snd (expand_unit t i k w e p d now ts))"
    and "repo_step t (snd (interrupt_unit t i k w e reason now ts))"
    and "repo_step t (snd (cancel_task t i ts))" and "repo_step t (snd (pause t i rv why ts))"
    and "repo_step t (snd (expire_deadline t i now ts))" and "repo_step t (snd (finalize_if_complete t i now ts))"
    and "repo_step t (snd (claim_ready_unit t i w dur now ts))" and "repo_step t (snd (start t i rn now ts))"
  using long_task_after_step [OF assms, of "Complete_Unit i k w e r now ts"] long_task_after_step [OF assms, of "Settle_Failure i k w e d now ts"]
    long_task_after_step [OF assms, of "Expand_Unit i k w e p d now ts"] long_task_after_step [OF assms, of "Interrupt_Unit i k w e reason now ts"]
    long_task_after_step [OF assms, of "Cancel_Task i ts"] long_task_after_step [OF assms, of "Pause_Task i rv why ts"]
    long_task_after_step [OF assms, of "Expire_Deadline i now ts"] long_task_after_step [OF assms, of "Finalize_Task i now ts"]
    long_task_after_step [OF assms, of "Claim_Ready i w dur now ts"] long_task_after_step [OF assms, of "Start_Task i rn now ts"]
  by simp_all

lemma fst_snd: "fst p = a \<Longrightarrow> p = (a, snd p)"
  by (simp add: prod_eq_iff)

lemma decide_failure_constructed: "decide_failure f n = Inr d \<Longrightarrow> constructed FailureDecision_post_init d"
  by (auto simp: decide_failure_def Let_def FailureDecision_post_init_def constructed_def bind_result_Inr_iff required_text_Inr
      non_negative_int_Inr)

definition hooks_ok :: "unit_hooks \<Rightarrow> bool" where
  "hooks_ok h \<longleftrightarrow> (case uh_split_unit h of None \<Rightarrow> True
     | Some f \<Rightarrow> \<forall>task unit error p. f task unit error = Inr (Some p) \<longrightarrow> split_ok p)"

lemma split_part_ok: "hooks_ok h \<Longrightarrow> split_part h task unit error = Inr (Some p) \<Longrightarrow> split_ok p"
  by (auto simp: hooks_ok_def split_part_def invoke_hook_def split: option.splits sum.splits)

text \<open>Whatever a settlement finds, the store stays well formed and its tasks only advance.\<close>

lemma step_read:
  assumes "repo_ok t" and "\<And>x. r = Inr x \<Longrightarrow> repo_step t (snd (f x))"
  shows "repo_step t (snd (read_op r t f))"
  using assms by (cases r) (simp_all add: read_op_def repo_step_refl)

lemma step_handled:
  fixes p :: "long_task_record result \<times> long_task_state"
  assumes "repo_step t (snd p)" and "\<And>x. repo_step (snd p) (snd (h x (snd p)))"
  shows "repo_step t (snd (case p of (Inr r, t) \<Rightarrow> (Inr r, t) | (Inl x, t) \<Rightarrow> h x t))"
proof (cases p)
  case (Pair r t')
  then show ?thesis using assms repo_step_trans by (cases r) auto
qed

lemma step_if: "repo_step t (snd p) \<Longrightarrow> repo_step t (snd q) \<Longrightarrow> repo_step t (snd (if b then p else q))"
  by simp

lemma checkpoint_step:
  assumes ok: "repo_ok t" and E: "schedule_ok E"
  shows "repo_step t (snd (checkpoint_interrupted E n t cf i k e))"
proof -
  let ?t1 = "served E n t" and ?t2 = "served E (n + 1) (served E n t)"
  have s1: "repo_step t ?t1" by (rule served_step [OF ok E])
  note ok1 = repo_stepD(1) [OF s1]
  have s2: "repo_step ?t1 ?t2" by (rule served_step [OF ok1 E])
  have s3: "repo_step ?t1 (snd (interrupt_unit ?t2 i k w e why now ts))" for w why now ts
    by (rule repo_step_trans [OF s2 call_steps(4) [OF repo_stepD(1) [OF s2]]])
  note ok3 = repo_stepD(1) [OF s3]
  show ?thesis unfolding checkpoint_interrupted_def Let_def
    by (rule repo_step_trans [OF s1], rule step_read [OF ok1], rule step_if, simp add: repo_step_refl [OF ok1], rule step_handled [OF s3])
       (auto simp: repo_step_refl [OF ok3] served_step [OF ok3 E] simp del: One_nat_def add_2_eq_Suc')
qed

lemma settle_decision_step:
  assumes ok: "repo_ok t" and E: "schedule_ok E" and d: "constructed FailureDecision_post_init d"
  shows "repo_step t (snd (settle_decision E t cf task unit d))"
proof -
  have s1: "repo_step t (served E 3 t)" by (rule served_step [OF ok E])
  have s2: "repo_step t (snd (settle_unit_failure (served E 3 t) i k w e d now ts))" for i k w e now ts
    by (rule repo_step_trans [OF s1 call_steps(2) [OF repo_stepD(1) [OF s1] d]])
  note ok2 = repo_stepD(1) [OF s2]
  show ?thesis unfolding settle_decision_def
    by (rule step_handled [OF s2]) (auto simp: Let_def repo_step_refl [OF ok2] served_step [OF ok2 E])
qed

lemma settle_incompatible_step:
  "repo_ok t \<Longrightarrow> schedule_ok E \<Longrightarrow> repo_step t (snd (settle_incompatible E t cf task unit failure))"
  unfolding settle_incompatible_def by (intro step_read settle_decision_step decide_failure_constructed)

lemma settle_failed_step:
  assumes ok: "repo_ok t" and E: "schedule_ok E" and h: "hooks_ok hooks"
  shows "repo_step t (snd (settle_failed E t cf hooks stopped task unit error))"
proof -
  let ?t1 = "served E 2 t"
  have s1: "repo_step t ?t1" by (rule served_step [OF ok E])
  note ok1 = repo_stepD(1) [OF s1]
  have s2: "repo_step ?t1 (served E 3 ?t1)" by (rule served_step [OF ok1 E])
  have ex: "repo_step ?t1 (snd (expand_unit (served E 3 ?t1) i k w e p d now ts))"
    if "split_part hooks task unit error = Inr (Some p)" "decide_failure f m = Inr d" for i k w e p d now ts f m
    by (rule repo_step_trans [OF s2 call_steps(3) [OF repo_stepD(1) [OF s2] split_part_ok [OF h that(1)] decide_failure_constructed [OF that(2)]]])
  show ?thesis unfolding settle_failed_def Let_def
    by (rule repo_step_trans [OF s1], intro step_read [OF ok1] step_if checkpoint_step [OF ok1 E])
       (auto simp: repo_step_refl [OF ok1] ex settle_incompatible_step [OF ok1 E] split: option.splits
         intro: settle_decision_step [OF ok1 E decide_failure_constructed])
qed

lemma handle_error_step:
  assumes ok: "repo_ok t" and E: "schedule_ok E" and h: "hooks_ok hooks"
  shows "repo_step t (snd (handle_error E t cf hooks stopped task unit error))"
  using settle_failed_step [OF assms] served_step [OF ok E] repo_step_refl [OF ok]
  by (cases error) (auto simp: handle_error_def Let_def)

definition outcome_constructed :: "unit_outcome \<Rightarrow> bool" where
  "outcome_constructed x \<longleftrightarrow> (case x of Finished r \<Rightarrow> constructed LongTaskUnitResult_post_init r | _ \<Rightarrow> True)"

lemma settle_claimed_step:
  assumes ok: "repo_ok t" and E: "schedule_ok E" and h: "hooks_ok hooks" and o: "outcome_constructed outcome"
  shows "repo_step t (snd (settle_claimed_unit E t cf hooks stopped task unit outcome))"
proof (cases outcome)
  case (Finished r)
  have s1: "repo_step t (served E 0 t)" by (rule served_step [OF ok E])
  have r: "constructed LongTaskUnitResult_post_init r" using o Finished by (simp add: outcome_constructed_def)
  have s2: "repo_step t (snd (complete_unit (served E 0 t) i k w e r now ts))" for i k w e now ts
    by (rule repo_step_trans [OF s1 call_steps(1) [OF repo_stepD(1) [OF s1] r]])
  note ok2 = repo_stepD(1) [OF s2]
  have s3: "repo_step t (snd (complete_claimed E t cf task unit r))" unfolding complete_claimed_def
    by (rule step_handled [OF s2]) (auto simp: Let_def repo_step_refl [OF ok2] served_step [OF ok2 E])
  have "repo_step t (snd (case complete_claimed E t cf task unit r of (Inr x, t) \<Rightarrow> (Inr x, t)
      | (Inl x, t) \<Rightarrow> handle_error E t cf hooks stopped task unit (raised x)))"
    by (rule step_handled [OF s3]) (rule handle_error_step [OF repo_stepD(1) [OF s3] E h])
  then show ?thesis using Finished by (simp add: settle_claimed_unit_def)
qed (simp_all add: settle_claimed_unit_def checkpoint_step [OF ok E] handle_error_step [OF ok E h])

section \<open>Finished work\<close>

lemma unheld_claim_gives_up:
  assumes "task_ok s" and "\<not> holds_claim s u w e now" and "strip w \<noteq> []"
  obtains x s' where "require_unit_claim s u w e now ts = (Inl x, s')" "gives_up x"
proof (cases "deadline_elapsed s now")
  case True
  obtain s' where "expire_units s ts = (Inr (), s')" using assms(1) expire_units_full by (metis task_ok_def)
  then show ?thesis using True that by (simp add: require_unit_claim_def)
next
  case False
  then have "require_unit_claim s u w e now ts = (Inl lease_lost, s)"
    using assms(2,3) by (auto simp: require_unit_claim_def read_op_def required_text_def holds_claim_def lease_at_def Let_def split: option.splits)
  then show ?thesis by (rule that) (simp add: lease_lost_def)
qed

lemma complete_stored_outcome:
  assumes ok: "task_ok s" and u: "require_unit s k = Inr u" and w: "strip w \<noteq> []" and r: "constructed LongTaskUnitResult_post_init r"
  shows "holds_claim s u w e now \<Longrightarrow> (\<exists>x s'. complete_unit_stored k w e r now ts s = (Inr x, s'))
      \<or> (\<exists>m. complete_unit_stored k w e r now ts s = (Inl (ContractViolation ''long_task_unit_run_conflict'' m), s))"
    and "\<not> holds_claim s u w e now \<Longrightarrow> (\<exists>x s'. complete_unit_stored k w e r now ts s = (Inr x, s'))
      \<or> (\<exists>x s'. complete_unit_stored k w e r now ts s = (Inl x, s') \<and> gives_up x)"
proof -
  have base: "base_ok s" and units: "units_ok (sl_units s)" using ok by (simp_all add: task_ok_def base_okD(2))
  note q = require_unit_Inr [OF units u]
  have w': "required_text w ''long task worker id'' = Inr (strip w)" using w by (simp add: required_text_def Let_def)
  show "(\<exists>x s'. complete_unit_stored k w e r now ts s = (Inr x, s'))
      \<or> (\<exists>m. complete_unit_stored k w e r now ts s = (Inl (ContractViolation ''long_task_unit_run_conflict'' m), s))"
    if h: "holds_claim s u w e now"
  proof -
    let ?run = "if lr_run_id r \<noteq> None then lr_run_id r else lu_run_id u"
    let ?other = "case ?run of None \<Rightarrow> False | Some run \<Rightarrow> other_has_run s (lu_id u) run"
    have nc: "lu_status u \<noteq> Unit_COMPLETED" using holds_claim_status [OF h] by simp
    show ?thesis
    proof (cases "?other \<or> lu_run_id u \<noteq> None \<and> lr_run_id r \<noteq> None \<and> lr_run_id r \<noteq> lu_run_id u")
      case True
      then show ?thesis using nc held_claim_passes [OF h w]
        by (cases "lu_run_id u \<noteq> None \<and> lr_run_id r \<noteq> None \<and> lr_run_id r \<noteq> lu_run_id u")
           (auto simp: complete_unit_stored_def u read_op_def Let_def simp del: not_None_eq)
    next
      case False
      then have free: "\<not> ?other" and same: "\<not> (lu_run_id u \<noteq> None \<and> lr_run_id r \<noteq> None \<and> lr_run_id r \<noteq> lu_run_id u)" by blast+
      have "good_step s (put_unit (completed_unit (strip w) ?run r u) s)"
        by (rule complete_unit_good [OF base q(1,3) h w' r [unfolded constructed_def] _ free]) (use same in auto)
      then obtain s' where s': "refresh_totals (put_unit (completed_unit (strip w) ?run r u) s) ts = (Inr (), s')" by (rule put_refresh_full)
      have "complete_unit_stored k w e r now ts s = (Inr (sl_record s'), s')"
        unfolding complete_unit_stored_def u read_op_def sum.case Let_def held_claim_passes [OF h w] bind_op.simps w'
        using nc free same s' by (simp only: if_False bind_op.simps)
      then show ?thesis by blast
    qed
  qed
  show "(\<exists>x s'. complete_unit_stored k w e r now ts s = (Inr x, s'))
      \<or> (\<exists>x s'. complete_unit_stored k w e r now ts s = (Inl x, s') \<and> gives_up x)"
    if h: "\<not> holds_claim s u w e now"
  proof (cases "lu_status u = Unit_COMPLETED")
    case True
    then show ?thesis by (auto simp: complete_unit_stored_def u read_op_def w' lease_lost_def)
  next
    case False
    obtain x s' where "require_unit_claim s u w e now ts = (Inl x, s')" "gives_up x" using unheld_claim_gives_up [OF ok h w] .
    then show ?thesis using False by (simp add: complete_unit_stored_def u read_op_def)
  qed
qed

text \<open>A call on a stored unit.\<close>

lemma known_unit:
  assumes ok: "repo_ok t" and s: "map_of t (strip i) = Some s" "map_of (sl_units s) (strip k) = Some u"
  shows "task_ok s" and "require_unit s k = Inr u" and "lu_id u = strip k" and "unit_ok u"
    and "on_task t i f = (case f s of (x, s') \<Rightarrow> (x, AList.update (strip i) s' t))"
    and "claim_held t i k w e now \<longleftrightarrow> holds_claim s u w e now"
proof -
  have t: "strip i = lt_id (sl_record s)" "task_ok s" using repo_okD [OF ok s(1)] by simp_all
  then have base: "base_ok s" and units: "units_ok (sl_units s)" by (simp_all add: task_ok_def base_okD(2))
  have "strip i \<noteq> []" using base t(1) by (auto simp: base_ok_def record_ok_def clean_id_def)
  then have st: "require_state t i = Inr (strip i, s)" using s(1) by (simp add: require_state_def required_text_def Let_def)
  then show "on_task t i f = (case f s of (x, s') \<Rightarrow> (x, AList.update (strip i) s' t))" by (simp add: on_task_def read_op_def)
  have id: "strip k = lu_id u" "unit_ok u" using units_okD(2,3) [OF units map_of_SomeD [OF s(2)]] by auto
  then have "strip k \<noteq> []" by (auto simp: unit_ok_def clean_id_def)
  then show "require_unit s k = Inr u" using s(2) by (simp add: require_unit_def required_text_def Let_def)
  show "task_ok s" "lu_id u = strip k" "unit_ok u" using t id by simp_all
  show "claim_held t i k w e now \<longleftrightarrow> holds_claim s u w e now" using s by (simp add: claim_held_iff)
qed

lemma complete_unit_outcome:
  assumes ok: "repo_ok t" and s: "map_of t (strip i) = Some s" "map_of (sl_units s) (strip k) = Some u" and w: "strip w \<noteq> []"
    and r: "constructed LongTaskUnitResult_post_init r"
  shows "claim_held t i k w e now \<Longrightarrow> (\<exists>x t'. complete_unit t i k w e r now ts = (Inr x, t'))
      \<or> (\<exists>m t'. complete_unit t i k w e r now ts = (Inl (ContractViolation ''long_task_unit_run_conflict'' m), t'))"
    and "\<not> claim_held t i k w e now \<Longrightarrow> (\<exists>x t'. complete_unit t i k w e r now ts = (Inr x, t'))
      \<or> (\<exists>x t'. complete_unit t i k w e r now ts = (Inl x, t') \<and> gives_up x)"
  unfolding complete_unit_def known_unit(5,6) [OF ok s]
  using complete_stored_outcome [OF known_unit(1,2) [OF ok s] w r, of e now ts] by (auto split: prod.splits)

lemma complete_recorded:
  assumes ok: "repo_ok t" and c: "complete_unit t i k w e r now ts = (Inr x, t')"
  obtains s u where "map_of t' (strip i) = Some s" "map_of (sl_units s) (strip k) = Some u" "lu_status u = Unit_COMPLETED"
    "lu_lease_epoch u = e" "lu_settled_by_worker_id u = Some (strip w)" "matches_result u r" "x = sl_record s"
proof -
  obtain s0 s where s: "map_of t (strip i) = Some s0" "complete_unit_stored k w e r now ts s0 = (Inr x, s)" "t' = AList.update (strip i) s t"
    using c unfolding complete_unit_def by (rule on_task_Inr)
  have "base_ok s0" using repo_okD(2) [OF ok s(1)] by (simp add: task_ok_def)
  then show ?thesis using s(2) by (rule complete_stored_Inr) (rule that, use s(3) in \<open>auto simp: update_conv' dest: require_unit_lookup\<close>)
qed


section \<open>Settlement of a result\<close>

lemma config_worker: "LongTaskUnitSettlement_init raw = Inr cf \<Longrightarrow> strip (cf_worker_id cf) \<noteq> []"
  by (auto simp: LongTaskUnitSettlement_init_def split: if_splits)

lemma config_worker_clean: "LongTaskUnitSettlement_init raw = Inr cf \<Longrightarrow> strip (cf_worker_id cf) = cf_worker_id cf"
  by (auto simp: LongTaskUnitSettlement_init_def split: if_splits)

lemma known_task_rereads:
  assumes "repo_ok t" and "schedule_ok E" and "repo_step t0 t" and "map_of t0 (strip i) = Some s"
  shows "\<exists>r. require_task (served E n t) i = Inr r"
proof -
  have "repo_step t0 (served E n t)" by (rule repo_step_trans [OF assms(3) served_step [OF assms(1,2)]])
  then show ?thesis using assms(4) by (fastforce simp: repo_step_def tasks_advance_def require_task_Inr)
qed

lemma finished_settlement:
  assumes ok: "repo_ok t" and E: "schedule_ok E" and w: "strip (cf_worker_id cf) \<noteq> []" and r: "constructed LongTaskUnitResult_post_init r"
    and s: "map_of (served E 0 t) (strip (lt_id task)) = Some s" "map_of (sl_units s) (strip (lu_id unit)) = Some u"
    and run: "settle_claimed_unit E t cf hooks stopped task unit (Finished r) = (res, t')"
  shows "if claim_held (served E 0 t) (lt_id task) (lu_id unit) (cf_worker_id cf) (lu_lease_epoch unit) (aw_now E 0)
    then (\<exists>s' u'. map_of t' (strip (lt_id task)) = Some s' \<and> map_of (sl_units s') (strip (lu_id unit)) = Some u' \<and> res = Inr (sl_record s')
        \<and> lu_status u' = Unit_COMPLETED \<and> lu_settled_by_worker_id u' = Some (strip (cf_worker_id cf)) \<and> matches_result u' r)
      \<or> (\<exists>m. res = Inl (ContractViolation ''long_task_unit_run_conflict'' m))
    else \<exists>x. res = Inr x" (is "if ?held then ?recorded \<or> ?conflict else _")
proof -
  let ?t1 = "served E 0 t"
  let ?p = "complete_unit ?t1 (lt_id task) (lu_id unit) (cf_worker_id cf) (lu_lease_epoch unit) r (aw_now E 0) (aw_ts E 0)"
  have ok1: "repo_ok ?t1" by (rule repo_stepD(1) [OF served_step [OF ok E]])
  have s2: "repo_step ?t1 (snd ?p)" by (rule call_steps(1) [OF ok1 r])
  note out = complete_unit_outcome [OF ok1 s w r, of "lu_lease_epoch unit" "aw_now E 0" "aw_ts E 0"]
  have returned: "res = Inr x \<and> t' = t2" if "?p = (Inr x, t2)" for x t2
    using run that by (simp add: settle_claimed_unit_def complete_claimed_def)
  have conflict: ?conflict if "?p = (Inl (ContractViolation ''long_task_unit_run_conflict'' m), t2)" for m t2
    using run that by (auto simp: settle_claimed_unit_def complete_claimed_def is_lease_lost_def is_deadline_def handle_error_def)
  have gone: "\<exists>x. res = Inr x" if p: "?p = (Inl y, t2)" and y: "gives_up y" for y t2
  proof -
    have t2: "repo_step ?t1 t2" using s2 p by simp
    obtain code m where c: "y = ContractViolation code m" using y by (auto simp: gives_up_def is_lease_lost_def is_deadline_def split: py_error.splits)
    obtain a where a: "require_task (served E 1 t2) (lt_id task) = Inr a" using known_task_rereads [OF repo_stepD(1) [OF t2] E t2 s(1)] by blast
    obtain b where b: "require_task (served E 2 t2) (lt_id task) = Inr b" using known_task_rereads [OF repo_stepD(1) [OF t2] E t2 s(1)] by blast
    show ?thesis
    proof (cases "is_lease_lost y")
      case True
      then have "settle_claimed_unit E t cf hooks stopped task unit (Finished r) = (Inr a, served E 1 t2)"
        using p a by (simp add: settle_claimed_unit_def complete_claimed_def Let_def del: One_nat_def)
      then show ?thesis using run by simp
    next
      case False
      then have "is_deadline y" using y by (simp add: gives_up_def)
      then have "settle_claimed_unit E t cf hooks stopped task unit (Finished r) = (Inr b, served E 2 t2)"
        using p False b c by (simp add: settle_claimed_unit_def complete_claimed_def handle_error_def Let_def)
      then show ?thesis using run by simp
    qed
  qed
  show ?thesis
  proof (cases ?held)
    case True
    then consider x t2 where "?p = (Inr x, t2)" | m t2 where "?p = (Inl (ContractViolation ''long_task_unit_run_conflict'' m), t2)"
      using out(1) by blast
    then have "?recorded \<or> ?conflict"
    proof cases
      case 1
      show ?thesis by (rule complete_recorded [OF ok1 1]) (use returned [OF 1] in blast)
    next
      case 2
      then show ?thesis using conflict by blast
    qed
    then show ?thesis using True by simp
  next
    case False
    then show ?thesis using out(2) returned gone by auto
  qed
qed

section \<open>Unfinished work\<close>

text \<open>What an interruption and a failure leave of the unit \<open>v\<close> in the stored task.\<close>

definition interrupted_in :: "string \<Rightarrow> long_task_unit_record \<Rightarrow> stored_long_task \<Rightarrow> bool" where
  "interrupted_in k v s \<longleftrightarrow> lt_status (sl_record s) = Task_PAUSED
     \<and> map_of (sl_units s) (strip k) = Some (v\<lparr>lu_status := Unit_PENDING, lu_max_attempts := lu_max_attempts v + 1,
         lu_worker_id := None, lu_lease_expires_at_ms := None, lu_error_code := Some ''execution_interrupted''\<rparr>)"

definition failed_in :: "failure_decision \<Rightarrow> string \<Rightarrow> long_task_unit_record \<Rightarrow> stored_long_task \<Rightarrow> bool" where
  "failed_in d k v s \<longleftrightarrow> map_of (sl_units s) (strip k) = Some (failed_unit d v)
     \<and> (case fd_disposition d of
          Disp_CANCEL \<Rightarrow> lt_status (sl_record s) = Task_CANCELED
        | Disp_FAIL_PERMANENT \<Rightarrow> lt_status (sl_record s) = Task_FAILED
        | Disp_PAUSE_RECOVERABLE \<Rightarrow> lt_status (sl_record s) = Task_PAUSED
            \<or> lt_status (sl_record s) = Task_RUNNING \<and> fd_scope d \<noteq> Scope_SYSTEMIC
        | _ \<Rightarrow> lt_status (sl_record s) = Task_RUNNING)"

lemma interrupt_stored_exact:
  assumes u: "require_unit s k = Inr u" "lu_id u = strip k" and h: "holds_claim s u w e now" and w: "strip w \<noteq> []"
  obtains s' where "interrupt_unit_stored k w e ''execution_interrupted'' now ts s = (Inr (sl_record s'), s')" "interrupted_in k u s'"
proof -
  have "required_text ''execution_interrupted'' ''interruption reason'' = Inr ''execution_interrupted''" by code_simp
  then show ?thesis using u held_claim_passes [OF h w] that
    by (simp add: interrupt_unit_stored_def read_op_def interrupted_in_def set_status_def touch_def put_unit_def update_conv' Let_def)
qed

lemma put_then_map:
  assumes "lu_id u = strip k" and "f (strip k) u = u"
  shows "map_of (map_dict f (sl_units (put_unit u s))) (strip k) = Some u"
  using assms by (simp add: map_of_map_dict put_unit_def update_conv')

lemma bind_op_fst: "fst p = Inr x \<Longrightarrow> bind_op p (\<lambda>_ s. (Inr (g s), s)) = (Inr (g (snd p)), snd p)"
  by (cases p) simp

lemma settle_stored_exact:
  assumes ok: "task_ok s" and u: "require_unit s k = Inr u" "lu_id u = strip k" "unit_ok u" and h: "holds_claim s u w e now"
    and w: "strip w \<noteq> []" and d: "clean_id (fd_code d)"
  obtains s' where "settle_unit_failure_stored k w e d now ts s = (Inr (sl_record s'), s')" "failed_in d k u s'"
proof -
  let ?v = "failed_unit d u" and ?target = "failure_target (fd_disposition d)"
  let ?t = "put_unit ?v s"
  let ?p = "if ?target = Unit_CANCELED then (Inr (), cancel_units ?t ts)
        else if ?target = Unit_FAILED then fail_task ?t (lu_id u) ts
        else if ?target = Unit_BLOCKED \<and> (fd_scope d = Scope_SYSTEMIC \<or> \<not> has_runnable_work ?t now) then
          (Inr (), set_status (release_active_units ?t (fd_code d)) Task_PAUSED ts)
        else (Inr (), touch ?t ts)"
  have id: "lu_id ?v = strip k" and st: "lu_status ?v = ?target" using u(2) by (simp_all add: failed_unit_def)
  have run: "lt_status (sl_record s) = Task_RUNNING" using h by (simp add: holds_claim_def)
  have lk: "map_of (sl_units s) (lu_id u) = Some u" using require_unit_lookup [OF u(1)] u(2) by simp
  have here: "map_of (sl_units ?t) (strip k) = Some ?v" using id by (simp add: put_unit_def update_conv')
  have "base_ok ?t" using failed_unit_step [OF _ lk u(3) h d] ok by (simp add: task_ok_def good_step_def)
  then obtain sf where sf: "fail_task ?t (lu_id u) ts = (Inr (), sf)" "lt_status (sl_record sf) = Task_FAILED" by (rule fail_task_full)
  have failed: "map_of (sl_units sf) (strip k) = Some ?v"
    using sf(1) u(2) unfolding fail_task_def
    by (auto simp: bind_op_Inr set_status_def touch_def refresh_totals_units map_units_sel intro!: put_then_map [OF id])
  have canceled: "map_of (sl_units (cancel_units ?t ts)) (strip k) = Some ?v" if "?target = Unit_CANCELED"
    unfolding cancel_units_def using st that
    by (auto simp: set_status_def touch_def map_units_sel unit_terminal_def intro!: put_then_map [OF id])
  have released: "map_of (sl_units (release_active_units ?t (fd_code d))) (strip k) = Some ?v"
    unfolding release_active_units_def map_units_sel by (rule put_then_map [OF id]) (cases "fd_disposition d", simp_all add: unit_active_def st)
  have same: "lt_status (sl_record ?t) = Task_RUNNING" using run by (simp add: put_unit_def)
  have p: "fst ?p = Inr () \<and> failed_in d k u (snd ?p)"
    using sf failed canceled released here same
    by (cases "fd_disposition d") (auto simp: failed_in_def cancel_units_def set_status_def touch_def)
  have "settle_unit_failure_stored k w e d now ts s = (Inr (sl_record (snd ?p)), snd ?p)"
    unfolding settle_unit_failure_stored_def u(1) read_op_def sum.case held_claim_passes [OF h w] bind_op.simps Let_def
    by (rule bind_op_fst) (use p in simp)
  then show ?thesis using conjunct2 [OF p] by (rule that)
qed

text \<open>
  Unfinished work: \<open>u1\<close> is the state the handler reads, \<open>u2\<close> the state its settling call meets. A task that is
  gone or no longer running is reported; if the claim is held, the call is made and leaves the unit as
  \<open>P\<close> says; if not, the settlement returns and has changed nothing itself, unless the deadline has passed.
\<close>

definition released_or_fenced ::
    "await_schedule \<Rightarrow> nat \<Rightarrow> long_task_state \<Rightarrow> string \<Rightarrow> string \<Rightarrow> string \<Rightarrow> int
     \<Rightarrow> (long_task_unit_record \<Rightarrow> stored_long_task \<Rightarrow> bool) \<Rightarrow> long_task_record result \<times> long_task_state \<Rightarrow> bool" where
  "released_or_fenced E n t i k w e P p \<longleftrightarrow>
     (let u1 = served E n t; u2 = served E (n + 1) u1; now = aw_now E (n + 1) in
      case map_of u1 (strip i) of
        None \<Rightarrow> p = (Inl (LookupError ''long task does not exist''), u1)
      | Some s1 \<Rightarrow>
          if lt_status (sl_record s1) \<noteq> Task_RUNNING then p = (Inr (sl_record s1), u1)
          else \<exists>s2. map_of u2 (strip i) = Some s2 \<and> (case map_of (sl_units s2) (strip k) of
              None \<Rightarrow> True
            | Some v \<Rightarrow>
                if holds_claim s2 v w e now then \<exists>s3. p = (Inr (sl_record s3), AList.update (strip i) s3 u2) \<and> P v s3
                else (\<exists>r. fst p = Inr r) \<and> (deadline_elapsed s2 now \<or> snd p \<in> {u2, served E (n + 2) u2})))"

lemma released_or_fencedI:
  assumes "m = n + 1" and "l = n + 2" and "map_of (served E n t) (strip i) = Some s1"
    and "map_of (served E m (served E n t)) (strip i) = Some s2"
    and "lt_status (sl_record s1) \<noteq> Task_RUNNING \<Longrightarrow> p = (Inr (sl_record s1), served E n t)"
    and "\<And>v. lt_status (sl_record s1) = Task_RUNNING \<Longrightarrow> map_of (sl_units s2) (strip k) = Some v \<Longrightarrow>
      if holds_claim s2 v w e (aw_now E m) then \<exists>s3. p = (Inr (sl_record s3), AList.update (strip i) s3 (served E m (served E n t))) \<and> P v s3
      else (\<exists>r. fst p = Inr r) \<and> (deadline_elapsed s2 (aw_now E m)
        \<or> snd p \<in> {served E m (served E n t), served E l (served E m (served E n t))})"
  shows "released_or_fenced E n t i k w e P p"
  using assms(3-6) unfolding released_or_fenced_def Let_def assms(1,2) [symmetric] by (auto split: option.splits simp del: split_paired_Ex)

lemma unheld_claim_refused:
  assumes "task_ok s" and "\<not> holds_claim s u w e now" and "strip w \<noteq> []" and "require_unit s k = Inr u"
  shows "\<exists>x s'. read_op (require_unit s k) s (\<lambda>u. bind_op (require_unit_claim s u w e now ts) (f u)) = (Inl x, s')
    \<and> gives_up x \<and> (deadline_elapsed s now \<or> is_lease_lost x \<and> s' = s)"
proof (cases "deadline_elapsed s now")
  case True
  obtain x s' where "require_unit_claim s u w e now ts = (Inl x, s')" "gives_up x" using unheld_claim_gives_up [OF assms(1-3)] .
  then show ?thesis using True assms(4) by (simp add: read_op_def)
next
  case False
  then have "require_unit_claim s u w e now ts = (Inl lease_lost, s)"
    using assms(2,3) by (auto simp: require_unit_claim_def read_op_def required_text_def holds_claim_def lease_at_def Let_def split: option.splits)
  then show ?thesis using assms(4) by (simp add: read_op_def lease_lost_def is_lease_lost_def)
qed

text \<open>The two settling calls on a task that the handler has found running.\<close>

lemma settling_call_outcome:
  fixes f :: "stored_long_task \<Rightarrow> long_task_record result \<times> stored_long_task"
  assumes ok: "repo_ok u2" and s2: "map_of u2 (strip i) = Some s2" "map_of (sl_units s2) (strip k) = Some v"
    and held: "holds_claim s2 v w e now \<Longrightarrow> \<exists>s3. f s2 = (Inr (sl_record s3), s3) \<and> P v s3"
    and unheld: "\<not> holds_claim s2 v w e now \<Longrightarrow> \<exists>x s3. f s2 = (Inl x, s3) \<and> gives_up x
      \<and> (deadline_elapsed s2 now \<or> is_lease_lost x \<and> s3 = s2)"
    and handler: "\<And>x t3. gives_up x \<Longrightarrow> repo_step u2 t3 \<Longrightarrow> (\<exists>r. fst (h x t3) = Inr r) \<and> (is_lease_lost x \<longrightarrow> t3 = u2 \<longrightarrow> snd (h x t3) \<in> A)"
    and step: "repo_step u2 (snd (on_task u2 i f))"
    and p: "p = (case on_task u2 i f of (Inr r, t) \<Rightarrow> (Inr r, t) | (Inl x, t) \<Rightarrow> h x t)"
  shows "if holds_claim s2 v w e now then \<exists>s3. p = (Inr (sl_record s3), AList.update (strip i) s3 u2) \<and> P v s3
    else (\<exists>r. fst p = Inr r) \<and> (deadline_elapsed s2 now \<or> snd p \<in> A)"
proof (cases "holds_claim s2 v w e now")
  case True
  then show ?thesis using held p by (auto simp: known_unit(5) [OF ok s2])
next
  case False
  then obtain x s3 where x: "f s2 = (Inl x, s3)" "gives_up x" "deadline_elapsed s2 now \<or> is_lease_lost x \<and> s3 = s2" using unheld by blast
  have on: "on_task u2 i f = (Inl x, AList.update (strip i) s3 u2)" using x(1) by (simp add: known_unit(5) [OF ok s2])
  have "AList.update (strip i) s2 u2 = u2" using s2(1) by (rule update_triv)
  then show ?thesis using False x handler [OF x(2), of "AList.update (strip i) s3 u2"] step on p by auto
qed

lemma served_known:
  assumes "repo_ok t" and "schedule_ok E" and "map_of t (strip i) = Some s"
  obtains s' where "map_of (served E n t) (strip i) = Some s'"
  using served_step [OF assms(1,2), of n] assms(3) by (fastforce simp: repo_step_def tasks_advance_def)

lemma checkpoint_outcome:
  assumes ok: "repo_ok t" and E: "schedule_ok E" and w: "strip (cf_worker_id cf) \<noteq> []"
  shows "released_or_fenced E n t i k (cf_worker_id cf) e (interrupted_in k) (checkpoint_interrupted E n t cf i k e)"
proof (cases "map_of (served E n t) (strip i)")
  case None
  then show ?thesis by (simp add: released_or_fenced_def checkpoint_interrupted_def require_task_def load_def read_op_def Let_def)
next
  case (Some s1)
  let ?w = "cf_worker_id cf" and ?t1 = "served E n t" and ?t2 = "served E (n + 1) (served E n t)"
  let ?f = "interrupt_unit_stored k ?w e ''execution_interrupted'' (aw_now E (n + 1)) (aw_ts E (n + 1))"
  let ?h = "\<lambda>x t. if is_lease_lost x then (Inr (sl_record s1), t)
            else if is_deadline x then (let t = served E (n + 2) t in (require_task t i, t)) else (Inl x, t)"
  have ok1: "repo_ok ?t1" by (rule repo_stepD(1) [OF served_step [OF ok E]])
  have ok2: "repo_ok ?t2" by (rule repo_stepD(1) [OF served_step [OF ok1 E]])
  obtain s2 where s2: "map_of ?t2 (strip i) = Some s2" by (rule served_known [OF ok1 E Some])
  have read: "require_task ?t1 i = Inr (sl_record s1)" using Some by (simp add: require_task_def load_def)
  have eq: "checkpoint_interrupted E n t cf i k e = (if lt_status (sl_record s1) \<noteq> Task_RUNNING then (Inr (sl_record s1), ?t1)
      else case on_task ?t2 i ?f of (Inr r, t) \<Rightarrow> (Inr r, t) | (Inl x, t) \<Rightarrow> ?h x t)"
    by (simp add: checkpoint_interrupted_def Let_def read read_op_def interrupt_unit_def)
  have out: "if holds_claim s2 v ?w e (aw_now E (n + 1))
      then \<exists>s3. p = (Inr (sl_record s3), AList.update (strip i) s3 ?t2) \<and> interrupted_in k v s3
      else (\<exists>r. fst p = Inr r) \<and> (deadline_elapsed s2 (aw_now E (n + 1)) \<or> snd p \<in> {?t2, served E (n + 2) ?t2})"
    if v: "map_of (sl_units s2) (strip k) = Some v" and p: "p = (case on_task ?t2 i ?f of (Inr r, t) \<Rightarrow> (Inr r, t) | (Inl x, t) \<Rightarrow> ?h x t)" for v p
  proof (rule settling_call_outcome [OF ok2 s2 v _ _ _ _ p])
    note q = known_unit [OF ok2 s2 v]
    show "\<exists>s3. ?f s2 = (Inr (sl_record s3), s3) \<and> interrupted_in k v s3" if "holds_claim s2 v ?w e (aw_now E (n + 1))"
      using interrupt_stored_exact [OF q(2,3) that w] by metis
    show "\<exists>x s3. ?f s2 = (Inl x, s3) \<and> gives_up x \<and> (deadline_elapsed s2 (aw_now E (n + 1)) \<or> is_lease_lost x \<and> s3 = s2)"
      if "\<not> holds_claim s2 v ?w e (aw_now E (n + 1))"
      unfolding interrupt_unit_stored_def by (rule unheld_claim_refused [OF q(1) that w q(2)])
    show "(\<exists>r. fst (?h x t3) = Inr r) \<and> (is_lease_lost x \<longrightarrow> t3 = ?t2 \<longrightarrow> snd (?h x t3) \<in> {?t2, served E (n + 2) ?t2})"
      if "gives_up x" "repo_step ?t2 t3" for x t3
      using known_task_rereads [OF repo_stepD(1) [OF that(2)] E that(2) s2, of "n + 2"] that(1) by (auto simp: gives_up_def Let_def)
    show "repo_step ?t2 (snd (on_task ?t2 i ?f))" using call_steps(4) [OF ok2] by (simp add: interrupt_unit_def)
  qed
  show ?thesis by (rule released_or_fencedI [OF refl refl Some s2]) (use out [OF _ refl] in \<open>auto simp: eq\<close>)
qed

lemma failure_outcome:
  assumes ok: "repo_ok t" and E: "schedule_ok E" and w: "strip (cf_worker_id cf) \<noteq> []"
    and c: "classify_failure hooks task unit error = Inr f" "decide_failure f (max 0 (lu_max_attempts unit - lu_attempt unit)) = Inr d"
      "fd_disposition d \<noteq> Disp_SPLIT_PART"
  shows "released_or_fenced E 2 t (lt_id task) (lu_id unit) (cf_worker_id cf) (lu_lease_epoch unit) (failed_in d (lu_id unit))
    (settle_failed E t cf hooks False task unit error)"
proof (cases "map_of (served E 2 t) (strip (lt_id task))")
  case None
  then show ?thesis by (simp add: released_or_fenced_def settle_failed_def require_task_def load_def read_op_def Let_def)
next
  case (Some s1)
  let ?i = "lt_id task" and ?k = "lu_id unit" and ?w = "cf_worker_id cf" and ?e = "lu_lease_epoch unit"
  let ?t1 = "served E 2 t" and ?t2 = "served E 3 (served E 2 t)"
  let ?f = "settle_unit_failure_stored ?k ?w ?e d (aw_now E 3) (aw_ts E 3)"
  let ?h = "\<lambda>x t. if is_lease_lost x \<or> is_deadline x then (let t = served E 4 t in (require_task t ?i, t)) else (Inl x, t)"
  have ok1: "repo_ok ?t1" by (rule repo_stepD(1) [OF served_step [OF ok E]])
  have ok2: "repo_ok ?t2" by (rule repo_stepD(1) [OF served_step [OF ok1 E]])
  obtain s2 where s2: "map_of ?t2 (strip ?i) = Some s2" by (rule served_known [OF ok1 E Some])
  have d: "constructed FailureDecision_post_init d" by (rule decide_failure_constructed [OF c(2)])
  note code = decision_code [OF d]
  have read: "require_task ?t1 ?i = Inr (sl_record s1)" using Some by (simp add: require_task_def load_def)
  have eq: "settle_failed E t cf hooks False task unit error = (if lt_status (sl_record s1) \<noteq> Task_RUNNING then (Inr (sl_record s1), ?t1)
      else case on_task ?t2 ?i ?f of (Inr r, t) \<Rightarrow> (Inr r, t) | (Inl x, t) \<Rightarrow> ?h x t)"
    by (simp add: settle_failed_def settle_decision_def Let_def read read_op_def c settle_unit_failure_def)
  have out: "if holds_claim s2 v ?w ?e (aw_now E 3)
      then \<exists>s3. p = (Inr (sl_record s3), AList.update (strip ?i) s3 ?t2) \<and> failed_in d ?k v s3
      else (\<exists>r. fst p = Inr r) \<and> (deadline_elapsed s2 (aw_now E 3) \<or> snd p \<in> {?t2, served E 4 ?t2})"
    if v: "map_of (sl_units s2) (strip ?k) = Some v" and p: "p = (case on_task ?t2 ?i ?f of (Inr r, t) \<Rightarrow> (Inr r, t) | (Inl x, t) \<Rightarrow> ?h x t)" for v p
  proof (rule settling_call_outcome [OF ok2 s2 v _ _ _ _ p])
    note q = known_unit [OF ok2 s2 v]
    show "\<exists>s3. ?f s2 = (Inr (sl_record s3), s3) \<and> failed_in d ?k v s3" if "holds_claim s2 v ?w ?e (aw_now E 3)"
      using settle_stored_exact [OF q(1-4) that w code] by metis
    show "\<exists>x s3. ?f s2 = (Inl x, s3) \<and> gives_up x \<and> (deadline_elapsed s2 (aw_now E 3) \<or> is_lease_lost x \<and> s3 = s2)"
      if "\<not> holds_claim s2 v ?w ?e (aw_now E 3)"
      unfolding settle_unit_failure_stored_def by (rule unheld_claim_refused [OF q(1) that w q(2)])
    show "(\<exists>r. fst (?h x t3) = Inr r) \<and> (is_lease_lost x \<longrightarrow> t3 = ?t2 \<longrightarrow> snd (?h x t3) \<in> {?t2, served E 4 ?t2})"
      if "gives_up x" "repo_step ?t2 t3" for x t3
      using known_task_rereads [OF repo_stepD(1) [OF that(2)] E that(2) s2, of 4] that(1) by (auto simp: gives_up_def Let_def)
    show "repo_step ?t2 (snd (on_task ?t2 ?i ?f))" using call_steps(2) [OF ok2 d] by (simp add: settle_unit_failure_def)
  qed
  show ?thesis by (rule released_or_fencedI [OF _ _ Some s2, where l = 4]) (use out [OF _ refl] in \<open>auto simp: eq\<close>)
qed

section \<open>Waits and heartbeats\<close>

lemma heartbeat_before_expiry:
  "LongTaskUnitSettlement_init raw = Inr cf \<Longrightarrow> 2 \<le> cf_lease_duration_ms cf \<Longrightarrow>
   0 < heartbeat_interval_ms cf \<and> heartbeat_interval_ms cf < cf_lease_duration_ms cf"
  by (auto simp: heartbeat_interval_ms_def)

lemma retry_delay_configured:
  assumes "cf_retry_backoff_ms cf \<noteq> []"
  shows "retry_delay_ms cf attempt \<in> max 0 ` set (cf_retry_backoff_ms cf)"
proof -
  let ?n = "length (cf_retry_backoff_ms cf)"
  have "0 < ?n" using assms by simp
  then have "nat (min (max 0 (attempt - 1)) (int ?n - 1)) < ?n" by linarith
  then show ?thesis using assms by (simp add: retry_delay_ms_def)
qed

lemma execution_delay_configured:
  "execution_delay_ms cf unit = 0 \<or> execution_delay_ms cf unit \<in> max 0 ` set (cf_retry_backoff_ms cf)"
proof (cases "cf_retry_backoff_ms cf = []")
  case True
  then show ?thesis by (simp add: execution_delay_ms_def retry_delay_ms_def)
next
  case False
  then show ?thesis using retry_delay_configured by (simp add: execution_delay_ms_def)
qed

end
