(* ===== verification/Coordinator_Laws.thy ===== *)
theory Coordinator_Laws
  imports Settlement_Laws
begin

text \<open>
  The scheduling loop: how a coordinator stops a task, how many executions it starts, and what holds
  when a round, the loop and the whole run end.
\<close>

section \<open>The coordinator\<close>

definition stored_record :: "long_task_state \<Rightarrow> string \<Rightarrow> long_task_record \<Rightarrow> bool" where
  "stored_record t i r \<longleftrightarrow> (\<exists>s. map_of t (strip i) = Some s \<and> sl_record s = r)"

definition not_running :: "long_task_state \<Rightarrow> string \<Rightarrow> bool" where
  "not_running t i \<longleftrightarrow> (\<forall>r. stored_record t i r \<longrightarrow> lt_status r \<noteq> Task_RUNNING)"

lemma stored_record_unique: "stored_record t i r \<Longrightarrow> stored_record t i r' \<Longrightarrow> r' = r"
  by (auto simp: stored_record_def)

lemma require_task_stored: "require_task t i = Inr r \<longleftrightarrow> stored_record t i r"
  by (auto simp: require_task_Inr stored_record_def)

lemma on_task_stored:
  assumes "on_task t i f = (res, t')" and "\<And>s r s'. f s = (Inr r, s') \<Longrightarrow> r = sl_record s'"
  shows "res = Inr r \<Longrightarrow> stored_record t' i r"
proof -
  assume "res = Inr r"
  then obtain s s' where "f s = (Inr r, s')" "t' = AList.update (strip i) s' t" using assms(1) by (auto elim: on_task_Inr)
  then show ?thesis using assms(2) by (auto simp: stored_record_def update_conv')
qed

lemma on_task_not_running:
  assumes "on_task t i f = (res, t')" and "\<And>s. lt_status (sl_record (snd (f s))) \<noteq> Task_RUNNING" and ok: "repo_ok t"
  shows "not_running t' i"
proof (cases "require_state t i")
  case (Inl x)
  then have "t' = t" using assms(1) by (simp add: on_task_def read_op_def)
  moreover have "strip i \<noteq> []" if "stored_record t i r" for r
    using that repo_okD [OF ok] by (force simp: stored_record_def task_ok_def base_ok_def record_ok_def clean_id_def)
  ultimately show ?thesis using Inl by (auto simp: not_running_def stored_record_def require_state_def required_text_def Let_def)
next
  case (Inr p)
  obtain s where p: "p = (strip i, s)" "map_of t (strip i) = Some s"
    using Inr by (auto simp: require_state_def bind_result_Inr_iff required_text_Inr split: option.splits)
  then have "t' = AList.update (strip i) (snd (f s)) t" using assms(1) Inr by (cases "f s") (auto simp: on_task_def read_op_def)
  then show ?thesis using assms(2) by (auto simp: not_running_def stored_record_def update_conv')
qed

lemma cancel_stored_cases:
  "lt_status (sl_record (snd (cancel_stored ts s))) \<noteq> Task_RUNNING" "cancel_stored ts s = (Inr r, s') \<Longrightarrow> r = sl_record s'"
  by (auto simp: cancel_stored_def cancel_units_def set_status_def touch_def task_terminal_def Let_def split: if_splits)

lemma pause_stored_cases:
  "lt_status (sl_record (snd (pause_stored None why ts s))) \<noteq> Task_RUNNING" "pause_stored None why ts s = (Inr r, s') \<Longrightarrow> r = sl_record s'"
  by (auto simp: pause_stored_def set_status_def touch_def Let_def split: if_splits)

definition stops :: "string \<Rightarrow> long_task_state \<Rightarrow> long_task_record result \<times> long_task_state \<Rightarrow> bool" where
  "stops i t p \<longleftrightarrow> repo_step t (snd p) \<and> not_running (snd p) i \<and> (\<forall>r. fst p = Inr r \<longrightarrow> stored_record (snd p) i r)"

lemma stops_after: "repo_step t t1 \<Longrightarrow> stops i t1 p \<Longrightarrow> stops i t p"
  unfolding stops_def using repo_step_trans by blast

lemma on_task_stops:
  assumes "repo_ok t" and "repo_step t (snd (on_task t i f))"
    and "\<And>s. lt_status (sl_record (snd (f s))) \<noteq> Task_RUNNING" and "\<And>s r s'. f s = (Inr r, s') \<Longrightarrow> r = sl_record s'"
  shows "stops i t (on_task t i f)"
proof (cases "on_task t i f")
  case (Pair res t')
  then show ?thesis using assms(2) on_task_not_running [OF Pair assms(3,1)] on_task_stored [OF Pair assms(4)] by (simp add: stops_def)
qed

lemma cancel_stops: "repo_ok t \<Longrightarrow> stops i t (cancel_task t i ts)"
  using call_steps(5) [of t i ts] on_task_stops [OF _ _ cancel_stored_cases] by (simp add: cancel_task_def)

lemma pause_stops: "repo_ok t \<Longrightarrow> stops i t (pause t i None why ts)"
  using call_steps(6) [of t i None why ts] on_task_stops [OF _ _ pause_stored_cases] by (simp add: pause_def)

lemma stops_read: "repo_ok t \<Longrightarrow> stored_record t i r \<Longrightarrow> lt_status r \<noteq> Task_RUNNING \<Longrightarrow> stops i t (Inr r, t)"
  by (auto simp: stops_def repo_step_refl not_running_def dest: stored_record_unique)

lemma stop_active_stops:
  assumes ok: "repo_ok t" and E: "schedule_ok E"
  shows "stops i t (stop_active E n t i)"
proof -
  let ?t1 = "served E n t" and ?t2 = "served E (n + 1) (served E n t)"
  have s1: "repo_step t ?t1" by (rule served_step [OF ok E])
  have s2: "repo_step ?t1 ?t2" by (rule served_step [OF repo_stepD(1) [OF s1] E])
  note ok1 = repo_stepD(1) [OF s1] and ok2 = repo_stepD(1) [OF s2]
  show ?thesis
  proof (cases "require_task ?t1 i")
    case (Inl x)
    then have "not_running ?t1 i" by (auto simp: not_running_def require_task_stored [symmetric])
    then show ?thesis using Inl s1 by (simp add: stop_active_def Let_def read_op_def stops_def)
  next
    case (Inr r)
    then have r: "stored_record ?t1 i r" by (simp add: require_task_stored)
    have "stops i ?t1 (if lt_cancellation_requested_at_ms r \<noteq> None then cancel_task ?t2 i (aw_ts E (n + 1))
      else if lt_status r \<in> {Task_PAUSED, Task_CANCELED} then (Inr r, ?t1)
      else if lt_status r = Task_RUNNING then pause ?t2 i None None (aw_ts E (n + 1)) else (Inr r, ?t1))"
      using stops_after [OF s2 cancel_stops [OF ok2]] stops_after [OF s2 pause_stops [OF ok2]] stops_read [OF ok1 r] by (auto split: if_splits)
    then show ?thesis using Inr by (simp add: stop_active_def Let_def read_op_def stops_after [OF s1])
  qed
qed

text \<open>
  A coordinator that returns after it has cancelled its last executions, or that finds the task not running
  before its first round, returns what it read before: \<open>W\<close> are the awaits in between, and \<open>caught_up\<close>
  says that at most one of them has passed.
\<close>

type_synonym awaits = "(await_schedule \<times> nat) set"

definition caught_up :: "awaits \<Rightarrow> long_task_state \<Rightarrow> long_task_state \<Rightarrow> bool" where
  "caught_up W u t \<longleftrightarrow> t = u \<or> (\<exists>(E, n) \<in> W. t = served E n u)"

definition follows :: "string \<Rightarrow> long_task_state \<Rightarrow> coordinator \<Rightarrow> bool" where
  "follows i t c \<longleftrightarrow> strip i = i \<and> lt_id (cr_task c) = i \<and> stored_record t i (cr_task c)
     \<and> int (length (cr_active c)) \<le> lt_max_parallelism (cr_task c)"

text \<open>
  What holds when a round ends: a coordinator that goes on knows the task it last read, which was running, and
  has at most as many executions as the task allows; one that returns, returns a record that was stored
  and not running; one that raises leaves the task not running.
\<close>

definition ends_well :: "awaits \<Rightarrow> string \<Rightarrow> long_task_state \<Rightarrow> round_end \<times> long_task_state \<Rightarrow> bool" where
  "ends_well W i t p \<longleftrightarrow> repo_step t (snd p) \<and> (case fst p of
     Goes_On c \<Rightarrow> \<exists>u. repo_step t u \<and> caught_up W u (snd p) \<and> follows i u c \<and> lt_status (cr_task c) = Task_RUNNING
   | Ends (Inr r) \<Rightarrow> \<exists>u. repo_step t u \<and> caught_up W u (snd p) \<and> stored_record u i r \<and> lt_status r \<noteq> Task_RUNNING
   | Ends (Inl x) \<Rightarrow> not_running (snd p) i)"

lemma ends_well_after: "repo_step t t1 \<Longrightarrow> ends_well W i t1 p \<Longrightarrow> ends_well W i t p"
  unfolding ends_well_def by (auto split: round_end.splits sum.splits intro: repo_step_trans)

lemma ends_wellI:
  assumes "repo_step t t'" and "repo_step t u" and "caught_up W u t'"
  shows "stored_record u i r \<Longrightarrow> lt_status r \<noteq> Task_RUNNING \<Longrightarrow> ends_well W i t (Ends (Inr r), t')"
    and "follows i u c \<Longrightarrow> lt_status (cr_task c) = Task_RUNNING \<Longrightarrow> ends_well W i t (Goes_On c, t')"
  using assms unfolding ends_well_def by auto

lemma caught_up_refl [simp]: "caught_up W u u"
  by (simp add: caught_up_def)

lemmas ends_well_here = ends_wellI [OF _ _ caught_up_refl]

lemma ends_well_stop: "stops i t p \<Longrightarrow> ends_well W i t (end_with p)"
  by (cases p) (auto simp: stops_def ends_well_def end_with_def caught_up_def not_running_def split: sum.splits)

lemma ends_well_raise:
  assumes "repo_ok t" and "schedule_ok E"
  shows "ends_well W i t (stop_and_raise E n t i e)"
  using stop_active_stops [OF assms, of i n]
  by (cases "stop_active E n t i"; cases "fst (stop_active E n t i)") (auto simp: stop_and_raise_def ends_well_def end_with_def stops_def)

lemma ends_well_return:
  "repo_ok t \<Longrightarrow> stored_record t i r \<Longrightarrow> lt_status r \<noteq> Task_RUNNING \<Longrightarrow> ends_well W i t (return_task r t)"
  unfolding return_task_def by (rule ends_well_here(1)) (simp_all add: repo_step_refl)

lemma ends_well_leave:
  assumes "repo_ok t" and "schedule_ok E" and "(E, 7) \<in> W" and "stored_record t i r" and "lt_status r \<noteq> Task_RUNNING"
  shows "ends_well W i t (leave_with E active r t)"
proof -
  have "caught_up W t (served E 7 t)" using assms(3) by (auto simp: caught_up_def)
  then have "ends_well W i t (Ends (Inr r), served E 7 t)"
    by (rule ends_wellI(1) [OF served_step [OF assms(1,2)] repo_step_refl [OF assms(1)]]) (use assms(4,5) in auto)
  then show ?thesis using ends_well_return [OF assms(1,4,5)] by (simp add: leave_with_def return_task_def)
qed

lemma ends_well_guarded:
  assumes step: "repo_step t (snd m)" and E: "schedule_ok E" and f: "\<And>x. fst m = Inr x \<Longrightarrow> ends_well W i (snd m) (f x (snd m))"
  shows "ends_well W i t (guarded E n i m f)"
proof (cases m)
  case (Pair r t')
  then show ?thesis using f step ends_well_after [OF step ends_well_raise [OF repo_stepD(1) [OF step] E]]
    by (cases r) (auto simp: guarded_def intro: ends_well_after)
qed

lemma stored_kept:
  assumes "repo_step t t'" and "stored_record t i r" and "stored_record t' i r'"
  shows "lt_max_parallelism r' = lt_max_parallelism r" and "lt_id r' = lt_id r"
  using assms by (fastforce simp: repo_step_def tasks_advance_def stored_record_def advances_def)+

lemma stored_positive: "repo_ok t \<Longrightarrow> stored_record t i r \<Longrightarrow> 0 < lt_max_parallelism r"
  by (auto simp: stored_record_def task_ok_def base_ok_def record_ok_def dest!: repo_okD(2))

lemma claim_units_bound:
  assumes E: "schedule_ok E" and "repo_ok t"
  shows "repo_step t (snd (claim_units E n cf slots c t)) \<and> (\<forall>c'. fst (claim_units E n cf slots c t) = Inr c' \<longrightarrow>
    cr_task c' = cr_task c \<and> length (cr_active c') \<le> length (cr_active c) + slots)"
  using assms(2)
proof (induction slots arbitrary: n c t)
  case 0
  then show ?case by (simp add: repo_step_refl)
next
  case (Suc slots)
  let ?p = "claim_ready_unit (served E n t) (lt_id (cr_task c)) (cf_worker_id cf) (cf_lease_duration_ms cf) (aw_now E n) (aw_ts E n)"
  have s1: "repo_step t (served E n t)" by (rule served_step [OF Suc.prems E])
  have s2: "repo_step t (snd ?p)" by (rule repo_step_trans [OF s1 call_steps(9) [OF repo_stepD(1) [OF s1]]])
  show ?case
  proof (cases ?p)
    case (Pair r t')
    have t': "repo_step t t'" "repo_ok t'" using s2 Pair repo_stepD(1) by auto
    show ?thesis
    proof (cases r)
      case (Inl x)
      then show ?thesis using Pair t' by simp
    next
      case (Inr u)
      show ?thesis
      proof (cases u)
        case None
        then show ?thesis using Pair Inr t' by simp
      next
        case (Some x)
        let ?c = "c\<lparr>cr_active := cr_active c @ [(cr_started c, x)], cr_started := cr_started c + 1\<rparr>"
        have eq: "claim_units E n cf (Suc slots) c t = claim_units E (n + 1) cf slots ?c t'" using Pair Inr Some by simp
        note I = Suc.IH [OF t'(2), of "n + 1" ?c]
        show ?thesis unfolding eq
        proof (intro conjI allI impI, goal_cases)
          case 1
          show ?case by (rule repo_step_trans [OF t'(1) conjunct1 [OF I]])
        next
          case (2 c')
          then show ?case using conjunct2 [OF I] by (auto dest!: spec [of _ c'])
        next
          case (3 c')
          then show ?case using conjunct2 [OF I] by (auto dest!: spec [of _ c'])
        qed
      qed
    qed
  qed
qed

lemma collect_done_length: "length (snd (collect_done active ds)) \<le> length active"
proof (induction active ds rule: collect_done.induct)
  case (2 active k e ds)
  have "length (filter (\<lambda>a. fst a \<noteq> k) active) \<le> length active" by simp
  then show ?case using 2 [OF refl] by (cases e) (auto simp: Let_def intro: order_trans)
qed simp

lemma expire_returns:
  assumes "expire_deadline t i now ts = (Inr r, t')" and ok: "repo_ok t"
  shows "stored_record t' i r \<and> lt_status r \<noteq> Task_RUNNING"
proof -
  obtain s s' where s: "map_of t (strip i) = Some s" "expire_deadline_stored now ts s = (Inr r, s')" "t' = AList.update (strip i) s' t"
    using assms(1) unfolding expire_deadline_def by (rule on_task_Inr)
  have "base_ok s" using repo_okD(2) [OF ok s(1)] by (simp add: task_ok_def)
  then obtain e where "expire_units s ts = (Inr (), e)" "lt_status (sl_record e) = Task_FAILED" by (rule expire_units_full)
  then have "r = sl_record s' \<and> lt_status r \<noteq> Task_RUNNING"
    using s(2) by (auto simp: expire_deadline_stored_def task_terminal_def split: if_splits)
  then show ?thesis using s(3) by (auto simp: stored_record_def update_conv')
qed

lemma finalize_stored_record: "finalize_if_complete t i now ts = (Inr r, t') \<Longrightarrow> stored_record t' i r"
  unfolding finalize_if_complete_def by (erule on_task_stored) (auto simp: finalize_stored_def bind_op_Inr)

lemma start_stored_record: "start t i rn now ts = (Inr r, t') \<Longrightarrow> stored_record t' i r"
  unfolding start_def by (erule on_task_stored) (auto simp: start_stored_def bind_op_Inr)

lemma reread_step:
  "repo_ok t \<Longrightarrow> schedule_ok E \<Longrightarrow> repo_step t (snd (let u = served E n t in (require_task u i, u)))"
  by (simp add: Let_def served_step)

lemma wait_ends_well:
  assumes E: "schedule_ok E" and W: "(E, 7) \<in> W" and ok: "repo_ok t" and i: "strip i = i" "lt_id (cr_task c) = i" and mp: "lt_max_parallelism (cr_task c) = mp"
    and len: "int (length (cr_active c)) \<le> mp" and kept: "\<And>t' r. repo_step t t' \<Longrightarrow> stored_record t' i r \<Longrightarrow> lt_max_parallelism r = mp \<and> lt_id r = i"
  shows "ends_well W i t (case collect_done (cr_active c) ds of
      (Some e, _) \<Rightarrow> stop_and_raise E 3 t i e
    | (None, active) \<Rightarrow> guarded E 3 i (let u = served E 6 t in (require_task u i, u)) (\<lambda>task u.
        if lt_status task \<noteq> Task_RUNNING then leave_with E active task u
        else (Goes_On (c\<lparr>cr_task := task, cr_active := active\<rparr>), u)))"
proof -
  obtain e active where d: "collect_done (cr_active c) ds = (e, active)" by fastforce
  have la: "int (length active) \<le> mp" using collect_done_length [of "cr_active c" ds] d len by simp
  show ?thesis
  proof (cases e)
    case (Some x)
    then show ?thesis using d ends_well_raise [OF ok E] by simp
  next
    case None
    let ?g = "\<lambda>task u. if lt_status task \<noteq> Task_RUNNING then leave_with E active task u
        else (Goes_On (c\<lparr>cr_task := task, cr_active := active\<rparr>), u)"
    have s: "repo_step t (served E 6 t)" by (rule served_step [OF ok E])
    note ok' = repo_stepD(1) [OF s]
    have "ends_well W i (served E 6 t) (?g r (served E 6 t))" if "require_task (served E 6 t) i = Inr r" for r
    proof -
      have r: "stored_record (served E 6 t) i r" using that by (simp add: require_task_stored)
      then show ?thesis using kept [OF s r] la i ends_well_leave [OF ok' E W r]
        by (auto simp: follows_def intro!: ends_well_here(2) repo_step_refl [OF ok'])
    qed
    then have "ends_well W i t (guarded E 3 i (let u = served E 6 t in (require_task u i, u)) ?g)"
      by (intro ends_well_guarded [OF reread_step [OF ok E] E]) (simp add: Let_def split: if_splits)
    then show ?thesis using d None by simp
  qed
qed

lemma finalize_ends_well:
  assumes E: "schedule_ok E" and ok: "repo_ok t" and i: "strip i = i" and c: "cr_active c = []"
    and kept: "\<And>t' r. repo_step t t' \<Longrightarrow> stored_record t' i r \<Longrightarrow> lt_max_parallelism r = mp \<and> lt_id r = i"
  shows "ends_well W i t (guarded E 3 i (finalize_if_complete (served E 5 t) i (aw_now E 5) (aw_ts E 5)) (\<lambda>task u.
      if lt_status task \<noteq> Task_RUNNING then return_task task u
      else if cancelled then end_with (stop_active E 3 u i) else (Goes_On (c\<lparr>cr_task := task\<rparr>), u)))"
proof -
  let ?p = "finalize_if_complete (served E 5 t) i (aw_now E 5) (aw_ts E 5)"
  have s1: "repo_step t (served E 5 t)" by (rule served_step [OF ok E])
  have s: "repo_step t (snd ?p)" by (rule repo_step_trans [OF s1 call_steps(8) [OF repo_stepD(1) [OF s1]]])
  note ok' = repo_stepD(1) [OF s]
  show ?thesis
  proof (rule ends_well_guarded [OF s E], goal_cases)
    case (1 r)
    have r: "stored_record (snd ?p) i r" by (rule finalize_stored_record [OF fst_snd [OF 1]])
    have "0 \<le> lt_max_parallelism r" using stored_positive [OF ok' r] by simp
    then have "follows i (snd ?p) (c\<lparr>cr_task := r\<rparr>)" using kept [OF s r] i r c by (simp add: follows_def)
    then show ?case using ends_well_return [OF ok' r] ends_well_stop [OF stop_active_stops [OF ok' E]]
        ends_well_here(2) [OF repo_step_refl [OF ok'] repo_step_refl [OF ok']] by simp
  qed
qed

lemma claims_end_well:
  assumes E: "schedule_ok E" and W: "(E, 7) \<in> W" and ok: "repo_ok t" and c: "follows i t c"
  shows "ends_well W i t (guarded E 3 i (claim_units E 8 cf (free_slots c) c t) (\<lambda>c u.
      if cr_active c = [] then
        guarded E 3 i (finalize_if_complete (served E 5 u) i (aw_now E 5) (aw_ts E 5)) (\<lambda>task u.
        if lt_status task \<noteq> Task_RUNNING then return_task task u
        else if cancelled then end_with (stop_active E 3 u i) else (Goes_On (c\<lparr>cr_task := task\<rparr>), u))
      else if cancelled then end_with (stop_active E 3 u i)
      else case collect_done (cr_active c) ds of
        (Some e, _) \<Rightarrow> stop_and_raise E 3 u i e
      | (None, active) \<Rightarrow> guarded E 3 i (let u = served E 6 u in (require_task u i, u)) (\<lambda>task u.
          if lt_status task \<noteq> Task_RUNNING then leave_with E active task u
          else (Goes_On (c\<lparr>cr_task := task, cr_active := active\<rparr>), u))))"
proof -
  let ?p = "claim_units E 8 cf (free_slots c) c t" and ?mp = "lt_max_parallelism (cr_task c)"
  have f: "strip i = i" "lt_id (cr_task c) = i" "stored_record t i (cr_task c)" "int (length (cr_active c)) \<le> ?mp"
    using c by (simp_all add: follows_def)
  note b = claim_units_bound [OF E ok, of 8 cf "free_slots c" c]
  have s: "repo_step t (snd ?p)" using b by blast
  have kept: "lt_max_parallelism r = ?mp \<and> lt_id r = i" if "repo_step (snd ?p) t'" "stored_record t' i r" for t' r
    using stored_kept [OF repo_step_trans [OF s that(1)] f(3) that(2)] f(2) by simp
  show ?thesis
  proof (rule ends_well_guarded [OF s E], goal_cases)
    case (1 c')
    then have c': "cr_task c' = cr_task c" "length (cr_active c') \<le> length (cr_active c) + free_slots c" using b by auto
    have "int (length (cr_active c')) \<le> ?mp" using c'(2) f(4) by (simp add: free_slots_def)
    then show ?case using ends_well_stop [OF stop_active_stops [OF repo_stepD(1) [OF s] E]]
        finalize_ends_well [OF E repo_stepD(1) [OF s] f(1) _ kept] c'(1)
        wait_ends_well [OF E W repo_stepD(1) [OF s] f(1) _ _ _ kept, of c'] f(2)
      by (simp del: One_nat_def)
  qed
qed

text \<open>A round reads the task first, so it may start from an older record.\<close>

definition tracks :: "string \<Rightarrow> long_task_state \<Rightarrow> coordinator \<Rightarrow> bool" where
  "tracks i t c \<longleftrightarrow> (\<exists>u. repo_step u t \<and> follows i u c)"

lemma tracks_reread:
  assumes "tracks i t c" and "repo_step t t1" and r: "stored_record t1 i r"
  shows "follows i t1 (c\<lparr>cr_task := r\<rparr>)"
proof -
  obtain u where "repo_step u t" "follows i u c" using assms(1) by (auto simp: tracks_def)
  then show ?thesis using stored_kept [OF repo_step_trans [OF _ assms(2)] _ r, of u] r by (auto simp: follows_def)
qed

lemma run_round_ends_well:
  assumes E: "schedule_ok (rd_schedule rd)" and W: "(rd_schedule rd, 7) \<in> W" and ok: "repo_ok t" and c: "tracks i t c"
  shows "ends_well W i t (run_round cf rd c t)"
proof -
  let ?E = "rd_schedule rd" and ?t1 = "served (rd_schedule rd) 0 t"
  have f: "lt_id (cr_task c) = i" using c by (auto simp: tracks_def follows_def)
  have s1: "repo_step t ?t1" by (rule served_step [OF ok E])
  note ok1 = repo_stepD(1) [OF s1]
  have returned: "ends_well W i t (guarded ?E 3 i p return_task)" if "stops i t p" for p t
    using that by (intro ends_well_guarded [OF _ E] ends_well_return)
      (auto simp: stops_def repo_stepD(1) not_running_def)
  show ?thesis
  proof (cases "rd_stop rd")
    case (Some reason)
    let ?p = "expire_deadline ?t1 i (aw_now ?E 0) (aw_ts ?E 0)"
    have s: "repo_step t (snd ?p)" by (rule repo_step_trans [OF s1 call_steps(7) [OF ok1]])
    have "ends_well W i t (guarded ?E 3 i ?p return_task)"
      by (rule ends_well_guarded [OF s E], rule ends_well_return [OF repo_stepD(1) [OF s]])
         (auto dest!: fst_snd expire_returns [OF _ ok1])
    then show ?thesis using Some returned [OF stop_active_stops [OF ok E]] by (simp add: run_round_def Let_def f)
  next
    case None
    have main: "ends_well W i ?t1 (if lt_cancellation_requested_at_ms r \<noteq> None then guarded ?E 3 i (stop_active ?E 1 ?t1 i) return_task
          else if lt_status r \<noteq> Task_RUNNING then leave_with ?E (cr_active c) r ?t1
          else guarded ?E 3 i (claim_units ?E 8 cf (free_slots (c\<lparr>cr_task := r\<rparr>)) (c\<lparr>cr_task := r\<rparr>) ?t1) (\<lambda>c u.
      if cr_active c = [] then
        guarded ?E 3 i (finalize_if_complete (served ?E 5 u) i (aw_now ?E 5) (aw_ts ?E 5)) (\<lambda>task u.
        if lt_status task \<noteq> Task_RUNNING then return_task task u
        else if rd_cancelled rd then end_with (stop_active ?E 3 u i) else (Goes_On (c\<lparr>cr_task := task\<rparr>), u))
      else if rd_cancelled rd then end_with (stop_active ?E 3 u i)
      else case collect_done (cr_active c) (rd_done rd) of
        (Some e, _) \<Rightarrow> stop_and_raise ?E 3 u i e
      | (None, active) \<Rightarrow> guarded ?E 3 i (let u = served ?E 6 u in (require_task u i, u)) (\<lambda>task u.
          if lt_status task \<noteq> Task_RUNNING then leave_with ?E active task u
          else (Goes_On (c\<lparr>cr_task := task, cr_active := active\<rparr>), u))))"
      if "require_task ?t1 i = Inr r" for r
    proof -
      have r: "stored_record ?t1 i r" using that by (simp add: require_task_stored)
      show ?thesis using claims_end_well [OF E W ok1 tracks_reread [OF c s1 r]] returned [OF stop_active_stops [OF ok1 E]]
          ends_well_leave [OF ok1 E W r]
        by (auto simp del: One_nat_def split del: if_split split: if_splits)
    qed
    show ?thesis unfolding run_round_def Let_def None option.case f
    proof (rule ends_well_guarded [OF _ E], goal_cases)
      case 1
      then show ?case by (simp add: s1)
    next
      case (2 r)
      then have "require_task ?t1 i = Inr r" by simp
      from main [OF this] show ?case unfolding Let_def prod.sel .
    qed
  qed
qed

lemma caught_up_step: "caught_up W u t \<Longrightarrow> repo_ok u \<Longrightarrow> \<forall>(E, n) \<in> W. schedule_ok E \<Longrightarrow> repo_step u t"
  by (auto simp: caught_up_def repo_step_refl served_step)

lemma run_rounds_end_well:
  assumes S: "\<forall>(E, n) \<in> W. schedule_ok E" and "\<forall>rd \<in> set rds. (rd_schedule rd, 7) \<in> W"
    and "repo_ok u" and "caught_up W u t" and "follows i u c" and "lt_status (cr_task c) = Task_RUNNING"
  shows "ends_well W i u (run_rounds cf rds c t)"
  using assms(2-6)
proof (induction rds arbitrary: c t u)
  case Nil
  then show ?case using ends_wellI(2) [OF caught_up_step [OF Nil(3,2) S] repo_step_refl [OF Nil(2)] Nil(3)] by simp
next
  case (Cons rd rds)
  have s: "repo_step u t" by (rule caught_up_step [OF Cons.prems(3,2) S])
  have E: "schedule_ok (rd_schedule rd)" "(rd_schedule rd, 7) \<in> W" using Cons.prems(1) S by auto
  have "tracks i t c" using s Cons.prems(4) by (auto simp: tracks_def)
  then have e: "ends_well W i u (run_round cf rd c t)" by (rule ends_well_after [OF s run_round_ends_well [OF E repo_stepD(1) [OF s]]])
  show ?case
  proof (cases "run_round cf rd c t")
    case (Pair x t')
    show ?thesis
    proof (cases x)
      case (Ends res)
      then show ?thesis using e Pair Cons.prems(5) by simp
    next
      case (Goes_On c')
      then obtain v where v: "repo_step u v" "caught_up W v t'" "follows i v c'" "lt_status (cr_task c') = Task_RUNNING"
        using e Pair by (auto simp: ends_well_def)
      then have "ends_well W i v (run_rounds cf rds c' t')" using Cons.IH Cons.prems(1) repo_stepD(1) [OF v(1)] by simp
      then show ?thesis using ends_well_after [OF v(1)] Pair Goes_On Cons.prems(5) by simp
    qed
  qed
qed

text \<open>The awaits after which a run may return: the first notification, and the end of its executions in a round.\<close>

definition last_awaits :: "await_schedule \<Rightarrow> coordinator_round list \<Rightarrow> awaits" where
  "last_awaits E rds = insert (E, 2) ((\<lambda>rd. (rd_schedule rd, 7)) ` set rds)"

lemma rounds_begin_well:
  assumes E: "schedule_ok E" and R: "\<forall>rd \<in> set rds. schedule_ok (rd_schedule rd)"
    and ok: "repo_ok t" and q: "stored_record t (strip i) q" "lt_id q = strip i"
  shows "ends_well (last_awaits E rds) (strip i) t (case notified of
      Notice_Raises e \<Rightarrow> stop_and_raise E 3 (served E 2 t) (lt_id q) e
    | Notice_Cancelled \<Rightarrow> end_with (stop_active E 3 (served E 2 t) (lt_id q))
    | Notified \<Rightarrow> run_rounds cf rds \<lparr>cr_task = q, cr_active = [], cr_started = 0\<rparr> (served E 2 t))"
proof -
  let ?W = "last_awaits E rds" and ?t1 = "served E 2 t" and ?c = "\<lparr>cr_task = q, cr_active = [], cr_started = 0\<rparr>"
  have s: "repo_step t ?t1" by (rule served_step [OF ok E])
  note ok1 = repo_stepD(1) [OF s]
  have W: "\<forall>(E, n) \<in> ?W. schedule_ok E" "\<forall>rd \<in> set rds. (rd_schedule rd, 7) \<in> ?W" "caught_up ?W t ?t1"
    using E R by (auto simp: last_awaits_def caught_up_def)
  have "ends_well ?W (strip i) t (run_rounds cf rds ?c ?t1)"
  proof (cases "lt_status q = Task_RUNNING")
    case True
    have "follows (strip i) t ?c" using q stored_positive [OF ok q(1)] by (simp add: follows_def)
    then show ?thesis using run_rounds_end_well [OF W(1,2) ok W(3)] True by simp
  next
    case False
    then have "run_rounds cf rds ?c ?t1 = (Ends (Inr q), ?t1)" by (cases rds) (simp_all add: return_task_def)
    then show ?thesis using ends_wellI(1) [OF s repo_step_refl [OF ok] W(3) q(1) False] by simp
  qed
  then show ?thesis using ends_well_after [OF s] ends_well_raise [OF ok1 E] ends_well_stop [OF stop_active_stops [OF ok1 E]] q(2)
    by (cases notified) simp_all
qed

lemma run_task_ends_well:
  assumes E: "schedule_ok E" and R: "\<forall>rd \<in> set rds. schedule_ok (rd_schedule rd)" and ok: "repo_ok t"
    and run: "run_task E cf i notified rds t = (x, t')"
  shows "ends_well (last_awaits E rds) (strip i) t (x, t')
    \<or> repo_step t t' \<and> (\<exists>e task. x = Ends (Inl e) \<and> stored_record (served E 0 t) i task
        \<and> start (served E 1 (served E 0 t)) (lt_id task) (lt_revision task) (aw_now E 1) (aw_ts E 1) = (Inl e, t'))"
proof -
  let ?t1 = "served E 0 t" and ?t2 = "served E 1 (served E 0 t)"
  have s1: "repo_step t ?t1" by (rule served_step [OF ok E])
  have s2: "repo_step ?t1 ?t2" by (rule served_step [OF repo_stepD(1) [OF s1] E])
  note ok1 = repo_stepD(1) [OF s1] and ok2 = repo_stepD(1) [OF s2]
  show ?thesis
  proof (cases "require_task ?t1 i")
    case (Inl e)
    then have "not_running ?t1 (strip i)" by (auto simp: not_running_def stored_record_def require_task_def load_def split: option.splits)
    then show ?thesis using run Inl s1 by (auto simp: run_task_def Let_def ends_well_def)
  next
    case (Inr task)
    then have r: "stored_record ?t1 i task" by (simp add: require_task_stored)
    have id: "lt_id task = strip i" using r repo_okD(1) [OF ok1] by (auto simp: stored_record_def)
    have r': "stored_record ?t1 (strip i) task" using r by (simp add: stored_record_def)
    consider (cancel) "lt_cancellation_requested_at_ms task \<noteq> None" | (pending) "lt_cancellation_requested_at_ms task = None" "lt_status task = Task_PENDING"
      | (started) "lt_cancellation_requested_at_ms task = None" "lt_status task \<noteq> Task_PENDING" by blast
    then show ?thesis
    proof cases
      case cancel
      then have "end_with (cancel_task ?t2 (strip i) (aw_ts E 1)) = (x, t')" using run Inr id by (simp add: run_task_def Let_def)
      then show ?thesis using ends_well_after [OF repo_step_trans [OF s1 s2] ends_well_stop [OF cancel_stops [OF ok2]]] by metis
    next
      case pending
      let ?p = "start ?t2 (lt_id task) (lt_revision task) (aw_now E 1) (aw_ts E 1)"
      have s3: "repo_step t (snd ?p)" by (rule repo_step_trans [OF repo_step_trans [OF s1 s2] call_steps(10) [OF ok2]])
      show ?thesis
      proof (cases ?p)
        case (Pair a u)
        have u: "repo_step t u" "repo_ok u" using s3 Pair repo_stepD(1) by auto
        show ?thesis
        proof (cases a)
          case (Inl e)
          then have "x = Ends (Inl e) \<and> t' = u" using run Inr pending Pair \<open>require_task ?t1 i = Inr task\<close> by (simp add: run_task_def Let_def)
          then show ?thesis using u(1) r Pair Inl by blast
        next
          case started: (Inr q)
          have q: "stored_record u (strip i) q" using start_stored_record [of ?t2 "lt_id task"] Pair started id by simp
          have "lt_id q = strip i" using q repo_okD(1) [OF u(2)] by (auto simp: stored_record_def)
          then show ?thesis using ends_well_after [OF u(1) rounds_begin_well [OF E R u(2) q, of cf notified]] run Inr pending Pair started
            by (simp add: run_task_def Let_def)
        qed
      qed
    next
      case started
      then show ?thesis using ends_well_after [OF s1 rounds_begin_well [OF E R ok1 r' id, of cf notified]] run Inr
        by (simp add: run_task_def Let_def)
    qed
  qed
qed

end
