(* ===== verification/Settlement_Properties.thy ===== *)
theory Settlement_Properties
  imports Coordinator_Laws
begin

text \<open>
  A sample task and the properties of settlement and scheduling.
\<close>

section \<open>A sample task\<close>

definition part_spec :: "string \<Rightarrow> int \<Rightarrow> long_task_unit_spec" where
  "part_spec i n = \<lparr>ls_id = i, ls_position = n, ls_semantic_key = Some i, ls_dependencies = [], ls_parent_unit_id = None,
     ls_required = True, ls_input_ref = None, ls_max_attempts = 2, ls_metadata = []\<rparr>"

definition part_task :: long_task_create_command where
  "part_task = \<lparr>lc_namespace = ''n'', lc_kind = ''k'', lc_owner_id = ''o'', lc_created_by_run_id = ''r'',
     lc_units = [part_spec ''a'' 1], lc_max_parallelism = 1, lc_deadline_at_ms = None,
     lc_budget_limits = no_limits, lc_budget_exhaustion_disposition = Budget_PAUSE_RECOVERABLE, lc_metadata = []\<rparr>"

definition quiet_schedule :: "int \<Rightarrow> await_schedule" where
  "quiet_schedule now = \<lparr>aw_text = (\<lambda>_. []), aw_others = (\<lambda>_. []), aw_now = (\<lambda>_. now), aw_ts = (\<lambda>_. ''d'')\<rparr>"

definition worker_w :: coordinator_config where
  "worker_w = \<lparr>cf_worker_id = ''w'', cf_lease_duration_ms = 10, cf_retry_backoff_ms = [], cf_idle_poll_ms = 100\<rparr>"

definition no_hooks :: unit_hooks where
  "no_hooks = \<lparr>uh_classify_unit_failure = None, uh_split_unit = None\<rparr>"

definition part_created :: long_task_state where
  "part_created = after_calls_on (\<lambda>_. []) [Create_Task ''t'' part_task ''d''] []"

definition part_claimed :: long_task_state where
  "part_claimed = after_calls_on (\<lambda>_. []) [Start_Task ''t'' 1 5 ''d'', Claim_Ready ''t'' ''w'' 10 6 ''d''] part_created"

definition task_of :: "long_task_state \<Rightarrow> long_task_record" where
  "task_of t = (case t of [] \<Rightarrow> undefined | (k, s) # _ \<Rightarrow> sl_record s)"

definition unit_of :: "long_task_state \<Rightarrow> long_task_unit_record" where
  "unit_of t = (case t of [] \<Rightarrow> undefined | (k, s) # _ \<Rightarrow> hd (dict_values (sl_units s)))"

definition part_result :: long_task_unit_result where
  "part_result = \<lparr>lr_output_ref = ''out'', lr_run_id = None, lr_artifact_digest = None, lr_validation_receipt = [], lr_metadata = []\<rparr>"

lemma quiet_schedule_ok: "schedule_ok (quiet_schedule now)"
  by (simp add: schedule_ok_def quiet_schedule_def)

lemma empty_repo_ok: "repo_ok []"
  by (simp add: repo_ok_def)

lemma part_states_ok: "repo_ok part_created" "repo_ok part_claimed"
proof -
  have c: "list_all long_task_cmd_ok [Create_Task ''t'' part_task ''d'']"
    "list_all long_task_cmd_ok [Start_Task ''t'' 1 5 ''d'', Claim_Ready ''t'' ''w'' 10 6 ''d'']" by code_simp+
  show created: "repo_ok part_created" unfolding part_created_def by (rule repo_stepD(1) [OF after_calls_step [OF empty_repo_ok c(1)]])
  show "repo_ok part_claimed" unfolding part_claimed_def by (rule repo_stepD(1) [OF after_calls_step [OF created c(2)]])
qed

section \<open>Properties\<close>





lemma served_quiet [simp]: "served (quiet_schedule now) n t = t"
  by (simp add: served_def quiet_schedule_def after_calls_on_def)



text \<open>C29. Finished work is recorded or fenced off, never turned into a failure. If the worker holds
  the claim when its result arrives, the unit is completed by that worker with that result, unless a
  Run of the result belongs to another unit; if it does not hold the claim, the settlement returns
  without an error.\<close>

theorem finished_work_is_recorded_or_fenced:
  assumes "repo_ok t" and "schedule_ok E" and "LongTaskUnitSettlement_init raw = Inr cf" and "constructed LongTaskUnitResult_post_init r"
    and "map_of (served E 0 t) (strip (lt_id task)) = Some s" and "map_of (sl_units s) (strip (lu_id unit)) = Some u"
    and "settle_claimed_unit E t cf hooks stopped task unit (Finished r) = (res, t')"
  shows "if claim_held (served E 0 t) (lt_id task) (lu_id unit) (cf_worker_id cf) (lu_lease_epoch unit) (aw_now E 0)
    then (\<exists>s' u'. map_of t' (strip (lt_id task)) = Some s' \<and> map_of (sl_units s') (strip (lu_id unit)) = Some u' \<and> res = Inr (sl_record s')
        \<and> lu_status u' = Unit_COMPLETED \<and> lu_settled_by_worker_id u' = Some (cf_worker_id cf) \<and> matches_result u' r)
      \<or> (\<exists>m. res = Inl (ContractViolation ''long_task_unit_run_conflict'' m))
    else \<exists>x. res = Inr x"
  using finished_settlement [OF assms(1,2) config_worker [OF assms(3)] assms(4-7)] unfolding config_worker_clean [OF assms(3)] .

theorem finished_work_is_recorded_or_fenced_witness:
  "\<exists>r t' s u. settle_claimed_unit (quiet_schedule 7) part_claimed worker_w no_hooks False (task_of part_claimed) (unit_of part_claimed)
      (Finished part_result) = (Inr r, t') \<and> map_of t' ''t'' = Some s \<and> map_of (sl_units s) ''a'' = Some u \<and> lu_status u = Unit_COMPLETED"
proof -
  let ?p = "settle_claimed_unit (quiet_schedule 7) part_claimed worker_w no_hooks False (task_of part_claimed) (unit_of part_claimed) (Finished part_result)"
  have cf: "LongTaskUnitSettlement_init worker_w = Inr worker_w" by code_simp
  have r: "constructed LongTaskUnitResult_post_init part_result" unfolding constructed_def by code_simp
  have ids: "strip (lt_id (task_of part_claimed)) = ''t''" "strip (lu_id (unit_of part_claimed)) = ''a''" by code_simp+
  have "case map_of (served (quiet_schedule 7) 0 part_claimed) ''t'' of None \<Rightarrow> False | Some s \<Rightarrow> map_of (sl_units s) ''a'' \<noteq> None" by code_simp
  then obtain s u where s: "map_of (served (quiet_schedule 7) 0 part_claimed) ''t'' = Some s" "map_of (sl_units s) ''a'' = Some u"
    by (auto split: option.splits)
  have held: "claim_held (served (quiet_schedule 7) 0 part_claimed) (lt_id (task_of part_claimed)) (lu_id (unit_of part_claimed))
      (cf_worker_id worker_w) (lu_lease_epoch (unit_of part_claimed)) (aw_now (quiet_schedule 7) 0)" by code_simp
  have "case fst ?p of Inr _ \<Rightarrow> True | Inl _ \<Rightarrow> False" by code_simp
  then obtain x where x: "fst ?p = Inr x" by (auto split: sum.splits)
  have s': "map_of (served (quiet_schedule 7) 0 part_claimed) (strip (lt_id (task_of part_claimed))) = Some s"
    "map_of (sl_units s) (strip (lu_id (unit_of part_claimed))) = Some u" unfolding ids by (rule s)+
  from finished_work_is_recorded_or_fenced [OF part_states_ok(2) quiet_schedule_ok cf r s' fst_snd [OF x]] held
  show ?thesis using fst_snd [OF x] unfolding ids by auto
qed







section \<open>A lost claim while a unit is split\<close>

text \<open>
  The handlers of \<open>complete_unit\<close> and \<open>settle_unit_failure\<close> treat a lost lease as the end of the
  settlement; the call of \<open>expand_unit\<close> has no handler. A worker that wants to split a unit which another
  worker has claimed meanwhile raises, and its coordinator pauses the task: the other worker loses
  the unit.
\<close>

definition splitting_hooks :: unit_hooks where
  "splitting_hooks = \<lparr>uh_classify_unit_failure = Some (\<lambda>_ _ _. Inr (Some \<lparr>fs_category = Failure_MODEL_OUTPUT_INVALID, fs_code = ''too_large'',
       fs_retryable = True, fs_scope = Scope_LOCAL, fs_effect_state = Effect_NOT_STARTED, fs_checkpoint_available = False,
       fs_part_splittable = True\<rparr>)),
     uh_split_unit = Some (\<lambda>_ _ _. Inr (Some \<lparr>lp_children = [part_spec ''b'' 2], lp_replacement_dependency_ids = [''b'']\<rparr>))\<rparr>"

definition part_reclaimed :: long_task_state where
  "part_reclaimed = after_calls_on (\<lambda>_. []) [Claim_Ready ''t'' ''x'' 10 20 ''d''] part_claimed"

lemma split_after_lost_claim_stops_the_other_worker:
  "fst (settle_claimed_unit (quiet_schedule 21) part_reclaimed worker_w splitting_hooks False (task_of part_claimed) (unit_of part_claimed)
      (Raised (Other_Error [] ''boom'' ''RuntimeError''))) = Inl lease_lost"
  "case fst (settle_claimed_unit (quiet_schedule 21) part_reclaimed worker_w no_hooks False (task_of part_claimed) (unit_of part_claimed)
      (Raised (Other_Error [] ''boom'' ''RuntimeError''))) of Inr r \<Rightarrow> lt_status r = Task_RUNNING | Inl _ \<Rightarrow> False"
  "claim_held part_reclaimed ''t'' ''a'' ''x'' 2 21"
  "\<not> claim_held (snd (stop_and_raise (quiet_schedule 21) 3 part_reclaimed ''t'' lease_lost)) ''t'' ''a'' ''x'' 2 21"
  by code_simp+

text \<open>
  An exception whose text is blank has no usable failure code: the classification raises a
  \<open>ValueError\<close>, and the unit is not settled.
\<close>

lemma blank_error_is_not_settled:
  "fst (settle_claimed_unit (quiet_schedule 7) part_claimed worker_w no_hooks False (task_of part_claimed) (unit_of part_claimed)
      (Raised (Other_Error [] '' '' ''RuntimeError''))) = Inl (ValueError ''failure signal code is required'')"
  by code_simp

end
