(* ===== verification/Long_Task_Properties.thy ===== *)
theory Long_Task_Properties
  imports Long_Task_Outcomes
begin

text \<open>
  The properties of the durable task store: its invariant, the refinement of the lease
  automaton, fencing, scheduling, finalization, replays and restart.
\<close>

section \<open>A concrete task\<close>

text \<open>Two units, the second waits for the first; at most one unit is under way.\<close>

definition demo_unit :: "string \<Rightarrow> int \<Rightarrow> string list \<Rightarrow> long_task_unit_spec" where
  "demo_unit i p ds = \<lparr>ls_id = i, ls_position = p, ls_semantic_key = Some i, ls_dependencies = ds, ls_parent_unit_id = None,
     ls_required = True, ls_input_ref = None, ls_max_attempts = 2, ls_metadata = []\<rparr>"

definition demo_create :: long_task_create_command where
  "demo_create = \<lparr>lc_namespace = ''n'', lc_kind = ''k'', lc_owner_id = ''o'', lc_created_by_run_id = ''r'',
     lc_units = [demo_unit ''b'' 2 [''a''], demo_unit ''a'' 1 []], lc_max_parallelism = 1, lc_deadline_at_ms = Some 1000,
     lc_budget_limits = no_limits, lc_budget_exhaustion_disposition = Budget_PAUSE_RECOVERABLE, lc_metadata = []\<rparr>"

definition demo_result :: long_task_unit_result where
  "demo_result = \<lparr>lr_output_ref = ''out'', lr_run_id = None, lr_artifact_digest = None, lr_validation_receipt = [], lr_metadata = []\<rparr>"

abbreviation demo_text :: "json \<Rightarrow> string" where
  "demo_text \<equiv> \<lambda>_. ''''"

definition demo_started :: "long_task_cmd list" where
  "demo_started = [Create_Task ''t'' demo_create ''d'', Start_Task ''t'' 1 5 ''d'']"

definition demo_claim :: "string \<Rightarrow> int \<Rightarrow> long_task_cmd" where
  "demo_claim w now = Claim_Ready ''t'' w 10 now ''d''"

definition demo_complete :: "string \<Rightarrow> string \<Rightarrow> int \<Rightarrow> int \<Rightarrow> long_task_cmd" where
  "demo_complete u w e now = Complete_Unit ''t'' u w e demo_result now ''d''"

abbreviation after_calls :: "(json \<Rightarrow> string) \<Rightarrow> long_task_cmd list \<Rightarrow> long_task_state" where
  "after_calls S cs \<equiv> drive (long_task_react S) [] cs"

text \<open>The unit a claim returned.\<close>

fun handed_out :: "'a option result \<times> 's \<Rightarrow> ('a \<times> 's) option" where
  "handed_out (Inr (Some c), t) = Some (c, t)"
| "handed_out m = None"

lemma handed_out_Some: "handed_out m = Some (c, t) \<longleftrightarrow> m = (Inr (Some c), t)"
  by (cases m rule: handed_out.cases) auto

lemma repo_ok_empty: "repo_ok []"
  by (simp add: repo_ok_def)

lemma reachable_repo_ok: "list_all long_task_cmd_ok cs \<Longrightarrow> repo_ok (after_calls S cs)"
  using repo_ok_empty by (rule task_store.drive_inv)

section \<open>Properties\<close>

text \<open>C18. Every admissible sequence of calls of the durable task store, whether they return or raise, leaves
  every task well formed: stored values are normalized, unit identities and semantic keys are
  unique, the dependencies have no cycle, a unit was started only after all its dependencies were
  completed, exactly the claimed and running units hold a lease, no Run serves two units, the
  totals count the required units and the usage is the sum over the Runs. The arguments of the calls are
  values that their constructors returned, and one kind of call is left out: a split by which
  a task loses its last required unit. The source accepts it, and it breaks the totals, as the last
  lemma of this theory shows.\<close>

theorem long_tasks_keep_invariant:
  assumes "long_task_calls_ok S [] cs"
  shows "repo_ok (after_calls S cs)"
  using repo_ok_empty assms by (rule long_task_calls_keep)

theorem long_tasks_keep_invariant_witness:
  "repo_ok (after_calls demo_text (demo_started @ [demo_claim ''w'' 6, demo_complete ''a'' ''w'' 1 7]))
   \<and> map (\<lambda>(k, s). lt_completed_units (sl_record s))
       (after_calls demo_text (demo_started @ [demo_claim ''w'' 6, demo_complete ''a'' ''w'' 1 7])) = [1]"
proof
  show "repo_ok (after_calls demo_text (demo_started @ [demo_claim ''w'' 6, demo_complete ''a'' ''w'' 1 7]))"
    by (rule long_tasks_keep_invariant) code_simp
  show "map (\<lambda>(k, s). lt_completed_units (sl_record s))
       (after_calls demo_text (demo_started @ [demo_claim ''w'' 6, demo_complete ''a'' ''w'' 1 7])) = [1]"
    by code_simp
qed

text \<open>C19. The store refines the abstract lease automaton: whatever calls follow, the view of a
  unit moves along steps of the automaton only. Each acquisition opens a new epoch, within an
  epoch the holder never changes and a released lease does not come back, only the holder
  finishes or splits the unit, and a finished unit keeps its worker, output, digest, Run and
  receipt for ever.\<close>

theorem store_refines_lease_automaton:
  assumes "list_all long_task_cmd_ok cs" and "list_all long_task_cmd_ok ds"
    and "map_of (after_calls S cs) i = Some s" and "map_of (sl_units s) k = Some u"
  shows "\<exists>s' u'. map_of (after_calls S (cs @ ds)) i = Some s' \<and> map_of (sl_units s') k = Some u'
    \<and> lease_step\<^sup>*\<^sup>* (lease_view u) (lease_view u')"
proof -
  have "tasks_advance (after_calls S cs) (after_calls S (cs @ ds))"
    unfolding drive_append using reachable_repo_ok [OF assms(1)] assms(2) by (rule task_store.drive_leads)
  then obtain s' where s': "map_of (after_calls S (cs @ ds)) i = Some s'" "advances s s'"
    using assms(3) by (auto simp: tasks_advance_def)
  then obtain u' where "map_of (sl_units s') k = Some u'" "unit_evolves u u'" using assms(4) by (auto simp: advances_def)
  then show ?thesis using s'(1) evolves_refines by blast
qed

definition demo_view :: "long_task_cmd list \<Rightarrow> string \<Rightarrow> lease_state option" where
  "demo_view cs k = Option.bind (map_of (after_calls demo_text cs) ''t'') (\<lambda>s. map_option lease_view (map_of (sl_units s) k))"

theorem store_refines_lease_automaton_witness:
  "demo_view (demo_started @ [demo_claim ''w'' 6]) ''a'' = Some (1, Phase_Held ''w'')
   \<and> demo_view ((demo_started @ [demo_claim ''w'' 6]) @ [demo_complete ''a'' ''w'' 1 7]) ''a''
       = Some (1, Phase_Done ''w'' (Some ''out'', None, None, []))
   \<and> lease_step\<^sup>*\<^sup>* (1, Phase_Held ''w'') (1, Phase_Done ''w'' (Some ''out'', None, None, []))"
proof -
  let ?cs = "demo_started @ [demo_claim ''w'' 6]" and ?ds = "[demo_complete ''a'' ''w'' 1 7]"
  have v: "demo_view ?cs ''a'' = Some (1, Phase_Held ''w'')"
    "demo_view (?cs @ ?ds) ''a'' = Some (1, Phase_Done ''w'' (Some ''out'', None, None, []))" by code_simp+
  obtain s u where s: "map_of (after_calls demo_text ?cs) ''t'' = Some s" "map_of (sl_units s) ''a'' = Some u"
      "lease_view u = (1, Phase_Held ''w'')"
    using v(1) by (auto simp: demo_view_def bind_eq_Some_conv)
  have ok: "list_all long_task_cmd_ok ?cs" "list_all long_task_cmd_ok ?ds" by code_simp+
  obtain s' u' where "map_of (after_calls demo_text (?cs @ ?ds)) ''t'' = Some s'" "map_of (sl_units s') ''a'' = Some u'"
      "lease_step\<^sup>*\<^sup>* (lease_view u) (lease_view u')"
    using store_refines_lease_automaton [OF ok s(1,2)] by blast
  then show ?thesis using v s(3) by (auto simp: demo_view_def)
qed
text \<open>C20. Claims are fenced. Once a unit has been claimed a second time, the worker of the first
  claim is refused in every call that needs the claim, whatever happened in between and whatever
  happens afterwards, even when the second worker has settled the unit.\<close>

theorem stale_claims_are_refused:
  assumes "repo_ok t"
    and "claim_with t i k w dur now ts = (Inr (Some c), t1)" and "list_all long_task_cmd_ok cs"
    and "claim_with (drive (long_task_react S) t1 cs) i k' w' dur' now' ts' = (Inr (Some c'), t2)" and "lu_id c' = lu_id c"
    and "list_all long_task_cmd_ok ds" and "t3 = drive (long_task_react S) t2 ds"
    and "strip u = lu_id c" and "e = lu_lease_epoch c"
  shows "refused (bind_unit_run t3 i u v e run at d) \<and> refused (renew_unit_lease t3 i u v e dur3 at d)
    \<and> refused (update_unit_progress t3 i u v e meta at d) \<and> refused (complete_unit t3 i u v e result at d)
    \<and> refused (settle_unit_failure t3 i u v e decision at d) \<and> refused (expand_unit t3 i u v e split decision at d)
    \<and> refused (interrupt_unit t3 i u v e reason at d)"
proof -
  obtain s1 where s1: "map_of t1 (strip i) = Some s1" "map_of (sl_units s1) (lu_id c) = Some c" "repo_ok t1"
    using claim_with_epoch [OF assms(1,2)] by metis
  let ?t = "drive (long_task_react S) t1 cs"
  have ok: "repo_ok ?t" using s1(3) assms(3) by (rule task_store.drive_inv)
  obtain s u1 s2 where s: "map_of ?t (strip i) = Some s" "map_of (sl_units s) (lu_id c) = Some u1"
      "lu_lease_epoch c' = lu_lease_epoch u1 + 1" and s2: "map_of t2 (strip i) = Some s2" "map_of (sl_units s2) (lu_id c) = Some c'" "repo_ok t2"
    using claim_with_epoch [OF ok assms(4)] assms(5) by metis
  have "lu_lease_epoch c \<le> lu_lease_epoch u1"
    using task_store.drive_leads [OF s1(3) assms(3), of S] s1(1,2) s(1,2) by (fastforce simp: tasks_advance_def advances_def unit_evolves_def)
  then have lt: "lu_lease_epoch c < lu_lease_epoch c'" using s(3) by simp
  have t3: "repo_ok t3" "tasks_advance t2 t3"
    unfolding assms(7) by (rule task_store.drive_inv [OF s2(3) assms(6)], rule task_store.drive_leads [OF s2(3) assms(6)])
  obtain s3 where s3: "map_of t3 (strip i) = Some s3" "advances s2 s3" using t3(2) s2(1) by (auto simp: tasks_advance_def)
  obtain u3 where u3: "map_of (sl_units s3) (strip u) = Some u3" "unit_evolves c' u3" using s3(2) s2(2) assms(8) by (auto simp: advances_def)
  have "lu_lease_epoch u3 \<noteq> e" using u3(2) lt assms(9) by (auto simp: unit_evolves_def)
  from stale_calls_refused [OF t3(1) s3(1) u3(1) this] show ?thesis by (intro conjI)
qed

theorem stale_claims_are_refused_witness:
  "\<exists>c t1 c' t2. claim_with (after_calls demo_text demo_started) ''t'' None ''w'' 10 6 ''d'' = (Inr (Some c), t1)
     \<and> claim_with t1 ''t'' None ''x'' 10 20 ''d'' = (Inr (Some c'), t2) \<and> lu_id c' = lu_id c \<and> lu_lease_epoch c = 1
     \<and> refused (complete_unit t2 ''t'' (lu_id c) ''w'' 1 demo_result 21 ''d'')"
proof -
  let ?t = "after_calls demo_text demo_started"
  have "Option.bind (handed_out (claim_with ?t ''t'' None ''w'' 10 6 ''d'')) (\<lambda>(c, t1).
      Option.bind (handed_out (claim_with t1 ''t'' None ''x'' 10 20 ''d'')) (\<lambda>(c', t2).
      Some (lu_id c' = lu_id c \<and> lu_lease_epoch c = 1 \<and> strip (lu_id c) = lu_id c))) = Some True" by code_simp
  then obtain c t1 c' t2 where c: "claim_with ?t ''t'' None ''w'' 10 6 ''d'' = (Inr (Some c), t1)"
      "claim_with t1 ''t'' None ''x'' 10 20 ''d'' = (Inr (Some c'), t2)" "lu_id c' = lu_id c" "lu_lease_epoch c = 1" "strip (lu_id c) = lu_id c"
    by (auto simp: bind_eq_Some_conv handed_out_Some)
  have "list_all long_task_cmd_ok demo_started" by code_simp
  then have ok: "repo_ok ?t" by (rule reachable_repo_ok)
  have "refused (complete_unit t2 ''t'' (lu_id c) ''w'' 1 demo_result 21 ''d'')"
    using stale_claims_are_refused [of ?t "''t''" None "''w''" 10 6 "''d''" c t1 "[]" demo_text None "''x''" 10 20 "''d''" c' t2 "[]" t2 "lu_id c" 1]
      ok c by simp
  then show ?thesis using c by blast
qed

text \<open>C21. A claim takes, among the units it may take, one with the lowest position; it may take a
  waiting unit, or an active one whose lease has expired, if attempts are left and every dependency is
  completed. The task is running, not cancelled, within its deadline and budget. The claim opens
  the next epoch and attempt for its worker, and afterwards at most \<open>max_parallelism\<close> units hold
  a live lease.\<close>

theorem claim_takes_first_claimable_unit:
  assumes "repo_ok t" and "claim_with t i k w dur now ts = (Inr (Some c), t')"
  shows "\<exists>s s' u. map_of t (strip i) = Some s \<and> map_of t' (strip i) = Some s' \<and> claim_open s now
    \<and> u \<in> set (dict_values (sl_units s)) \<and> eligible s k now u
    \<and> (\<forall>v \<in> set (dict_values (sl_units s)). eligible s k now v \<longrightarrow> lu_position u \<le> lu_position v)
    \<and> c = claimed_from (strip w) dur now u \<and> map_of (sl_units s') (lu_id c) = Some c
    \<and> int (length (active_units s' now)) \<le> lt_max_parallelism (sl_record s')"
proof -
  obtain s s' where s: "map_of t (strip i) = Some s" "map_of t' (strip i) = Some s'" "task_ok s"
    "claim_stored k (strip w) dur now ts s = (Inr (Some c), s')" by (rule claim_with_Some [OF assms])
  have base: "base_ok s" using s(3) by (simp add: task_ok_def)
  show ?thesis
    by (rule claim_stored_Some [OF base s(4)]) (use s(1,2) claim_stored_Some_open [OF base s(4)] in blast)
qed

theorem claim_takes_first_claimable_unit_witness:
  "\<exists>c t'. claim_with (after_calls demo_text demo_started) ''t'' None ''w'' 10 6 ''d'' = (Inr (Some c), t') \<and> lu_id c = ''a''
     \<and> (\<exists>s'. map_of t' ''t'' = Some s' \<and> int (length (active_units s' 6)) \<le> lt_max_parallelism (sl_record s'))"
proof -
  let ?t = "after_calls demo_text demo_started"
  have "map_option (\<lambda>(c, t'). lu_id c = ''a'') (handed_out (claim_with ?t ''t'' None ''w'' 10 6 ''d'')) = Some True" by code_simp
  then obtain c t' where c: "claim_with ?t ''t'' None ''w'' 10 6 ''d'' = (Inr (Some c), t')" "lu_id c = ''a''"
    by (auto simp: handed_out_Some)
  have "list_all long_task_cmd_ok demo_started" by code_simp
  then have ok: "repo_ok ?t" by (rule reachable_repo_ok)
  have "strip ''t'' = ''t''" by code_simp
  then show ?thesis using claim_takes_first_claimable_unit [OF ok c(1)] c by auto
qed
text \<open>C22. A running task within its deadline and budget, with no cancellation pending and no
  required unit that has used up its attempts, hands out a unit exactly when fewer than
  \<open>max_parallelism\<close> units hold a live lease and some unit can be taken: a ready unit is never
  withheld from an idle worker.\<close>

theorem ready_work_is_handed_out:
  assumes "repo_ok t" and "map_of t (strip i) = Some s" and "strip i \<noteq> []" and "claim_open s now" and "strip w \<noteq> []" and "0 < dur"
  shows "(\<exists>c. fst (claim_with t i k w dur now ts) = Inr (Some c)) \<longleftrightarrow>
    int (length (active_units s now)) < lt_max_parallelism (sl_record s) \<and> list_ex (eligible s k now) (dict_values (sl_units s))"
proof -
  have base: "base_ok s" using repo_okD(2) [OF assms(1,2)] by (simp add: task_ok_def)
  have "require_state t i = Inr (strip i, s)" using assms(2,3) by (simp add: require_state_def required_text_def)
  then have "fst (claim_with t i k w dur now ts) = fst (claim_stored k (strip w) dur now ts s)"
    using assms(5,6) by (cases "claim_stored k (strip w) dur now ts s") (simp add: claim_with_def on_task_def read_op_def required_text_def)
  then show ?thesis using claim_stored_grants [OF base assms(4)] by simp
qed

theorem ready_work_is_handed_out_witness:
  "\<exists>c. fst (claim_with (after_calls demo_text demo_started) ''t'' None ''w'' 10 6 ''d'') = Inr (Some c)"
proof -
  let ?t = "after_calls demo_text demo_started"
  have "Option.bind (map_of ?t ''t'') (\<lambda>s. Some (claim_open s 6 \<and> int (length (active_units s 6)) < lt_max_parallelism (sl_record s)
      \<and> list_ex (eligible s None 6) (dict_values (sl_units s)))) = Some True" by code_simp
  then obtain s where s: "map_of ?t ''t'' = Some s" "claim_open s 6" "int (length (active_units s 6)) < lt_max_parallelism (sl_record s)"
      "list_ex (eligible s None 6) (dict_values (sl_units s))" by (auto simp: bind_eq_Some_conv)
  have "list_all long_task_cmd_ok demo_started" by code_simp
  then have ok: "repo_ok ?t" by (rule reachable_repo_ok)
  have "strip ''t'' = ''t''" "strip ''w'' = ''w''" by code_simp+
  then show ?thesis using ready_work_is_handed_out [OF ok, of "''t''" s 6 "''w''" 10 None "''d''"] s by simp
qed

text \<open>C23. Finalization always returns. It fails a task whose deadline has elapsed and cancels
  one whose cancellation was requested. A running task is failed when a required unit failed,
  completed exactly when every required unit is completed, kept running only while some unit is
  under way or can still be started, paused when nothing can run and a required unit is blocked,
  and failed when nothing can run at all: no running task is left without work.\<close>

theorem finalize_decides_by_units:
  assumes "repo_ok t" and "map_of t (strip i) = Some s" and "strip i \<noteq> []"
  shows "\<exists>s'. finalize_if_complete t i now ts = (Inr (sl_record s'), AList.update (strip i) s' t)
    \<and> lt_status (sl_record s') = finalize_cases now s
    \<and> (lt_status (sl_record s') = Task_RUNNING \<longrightarrow> s' = s \<and> has_runnable_work s' now)"
proof -
  obtain s' where s': "finalize_stored now ts s = (Inr (sl_record s'), s')" "lt_status (sl_record s') = finalize_cases now s"
    "finalize_cases now s = Task_RUNNING \<Longrightarrow> s' = s"
    by (rule finalize_outcome [OF repo_okD(2) [OF assms(1,2)], of now ts]) blast
  have "require_state t i = Inr (strip i, s)" using assms(2,3) by (simp add: require_state_def required_text_def)
  moreover have "finalize_cases now s = Task_RUNNING \<Longrightarrow> has_runnable_work s now" by (auto simp: finalize_cases_def split: if_splits)
  ultimately show ?thesis using s' by (auto simp: finalize_if_complete_def on_task_def read_op_def)
qed

theorem finalize_decides_by_units_witness:
  "\<exists>s s'. map_of (after_calls demo_text demo_started) ''t'' = Some s
     \<and> fst (finalize_if_complete (after_calls demo_text demo_started) ''t'' 6 ''d'') = Inr (sl_record s')
     \<and> finalize_cases 6 s = Task_RUNNING \<and> has_runnable_work s' 6"
proof -
  let ?t = "after_calls demo_text demo_started"
  have "map_option (finalize_cases 6) (map_of ?t ''t'') = Some Task_RUNNING" by code_simp
  then obtain s where s: "map_of ?t ''t'' = Some s" "finalize_cases 6 s = Task_RUNNING" by auto
  have "list_all long_task_cmd_ok demo_started" by code_simp
  then have ok: "repo_ok ?t" by (rule reachable_repo_ok)
  have "strip ''t'' = ''t''" by code_simp
  then show ?thesis using finalize_decides_by_units [OF ok, of "''t''" s 6 "''d''"] s by auto
qed

text \<open>Creating a task is idempotent: repeating the command under the same identity answers with
  the same record and changes nothing.\<close>

theorem create_is_idempotent:
  assumes "create_cmd_ok c" and "create S t i c ts = (Inr r, t')"
  shows "create S t' i c ts' = (Inr r, t')"
  using assms by (rule create_replay)

theorem create_is_idempotent_witness:
  "\<exists>r t'. create demo_text [] ''t'' demo_create ''d'' = (Inr r, t') \<and> create demo_text t' ''t'' demo_create ''e'' = (Inr r, t')"
proof -
  have "isl (fst (create demo_text [] ''t'' demo_create ''d'')) = False" by code_simp
  then obtain r t' where r: "create demo_text [] ''t'' demo_create ''d'' = (Inr r, t')"
    by (cases "create demo_text [] ''t'' demo_create ''d''"; cases "fst (create demo_text [] ''t'' demo_create ''d'')") auto
  have "create_cmd_ok demo_create" by code_simp
  then show ?thesis using create_is_idempotent [OF _ r] r by blast
qed

text \<open>Completing a unit is idempotent: the same worker that repeats the call with the same
  epoch and result, at any later time, gets the same answer, and nothing changes.\<close>

theorem complete_unit_is_idempotent:
  assumes "repo_ok t" and "complete_unit t i k w e r now ts = (Inr x, t')"
  shows "complete_unit t' i k w e r now' ts' = (Inr x, t')"
  unfolding complete_unit_def
proof (rule on_task_replay)
  show "on_task t i (complete_unit_stored k w e r now ts) = (Inr x, t')" using assms(2) by (simp add: complete_unit_def)
  show "complete_unit_stored k w e r now' ts' s' = (Inr x, s')"
    if "map_of t (strip i) = Some s" "complete_unit_stored k w e r now ts s = (Inr x, s')" for s s'
    using repo_okD(2) [OF assms(1) that(1)] that(2) by (intro complete_stored_replay) (simp_all add: task_ok_def)
qed

theorem complete_unit_is_idempotent_witness:
  "\<exists>x t'. complete_unit (after_calls demo_text (demo_started @ [demo_claim ''w'' 6])) ''t'' ''a'' ''w'' 1 demo_result 7 ''d'' = (Inr x, t')
     \<and> complete_unit t' ''t'' ''a'' ''w'' 1 demo_result 5000 ''e'' = (Inr x, t')"
proof -
  let ?t = "after_calls demo_text (demo_started @ [demo_claim ''w'' 6])"
  let ?m = "complete_unit ?t ''t'' ''a'' ''w'' 1 demo_result 7 ''d''"
  have "isl (fst ?m) = False" by code_simp
  then obtain x t' where r: "?m = (Inr x, t')" by (cases ?m; cases "fst ?m") auto
  have "list_all long_task_cmd_ok (demo_started @ [demo_claim ''w'' 6])" by code_simp
  then have ok: "repo_ok ?t" by (rule reachable_repo_ok)
  show ?thesis using complete_unit_is_idempotent [OF ok r] r by blast
qed

text \<open>After a restart no task is left running unless one of its units still holds a live
  lease: every other running task was paused or cancelled, and such a task is untouched.\<close>

theorem restart_leaves_no_orphan:
  assumes "strip reason \<noteq> []" and "(k, s') \<in> set (snd (recover_after_restart t reason wall ts))"
    and "lt_status (sl_record s') = Task_RUNNING"
  shows "(k, s') \<in> set t \<and> (\<exists>u \<in> set (dict_values (sl_units s')). unit_active u \<and> lease_at u > wall)"
proof -
  obtain s where s: "(k, s) \<in> set t" "s' = snd (recover_stored (strip reason) wall ts s)"
    using assms(1,2) by (auto simp: recover_after_restart_def read_op_def required_text_def)
  then show ?thesis using recover_stored_running [of "strip reason" wall ts s] assms(3) by simp
qed

theorem restart_leaves_no_orphan_witness:
  "\<exists>s'. snd (recover_after_restart (after_calls demo_text (demo_started @ [demo_claim ''w'' 6])) ''restart'' 9 ''d'') = [(''t'', s')]
     \<and> lt_status (sl_record s') = Task_RUNNING \<and> (\<exists>u \<in> set (dict_values (sl_units s')). unit_active u \<and> lease_at u > 9)"
proof -
  let ?t = "after_calls demo_text (demo_started @ [demo_claim ''w'' 6])"
  let ?r = "snd (recover_after_restart ?t ''restart'' 9 ''d'')"
  have "map (map_prod id (\<lambda>s. lt_status (sl_record s))) ?r = [(''t'', Task_RUNNING)]" by code_simp
  then obtain s' where s': "?r = [(''t'', s')]" "lt_status (sl_record s') = Task_RUNNING" by (auto simp: Cons_eq_map_conv)
  have "strip ''restart'' \<noteq> []" by code_simp
  then show ?thesis using restart_leaves_no_orphan [of "''restart''" "''t''" s' ?t 9 "''d''"] s' by simp
qed
section \<open>A split into optional children\<close>

text \<open>
  The source does not require a split to contain a required child. If the only required unit is
  split into optional children the call raises, but the units have already been replaced; the
  next finalization then completes the task although nothing was done.
\<close>

definition demo_split :: long_task_split_result where
  "demo_split = \<lparr>lp_children = [(demo_unit ''c'' 3 [])\<lparr>ls_required := False\<rparr>], lp_replacement_dependency_ids = []\<rparr>"

definition demo_decision :: failure_decision where
  "demo_decision = \<lparr>fd_category = Failure_MODEL_OUTPUT_INVALID, fd_code = ''too_large'', fd_disposition = Disp_SPLIT_PART,
     fd_attempts_remaining = 1, fd_effect_state = Effect_NOT_STARTED, fd_checkpoint_available = False,
     fd_part_splittable = True, fd_scope = Scope_LOCAL\<rparr>"

definition demo_single :: long_task_state where
  "demo_single = after_calls demo_text
     [Create_Task ''t'' (demo_create\<lparr>lc_units := [demo_unit ''a'' 1 []]\<rparr>) ''d'', Start_Task ''t'' 1 5 ''d'', demo_claim ''w'' 6]"

lemma optional_split_completes_without_work:
  "refused (expand_unit demo_single ''t'' ''a'' ''w'' 1 demo_split demo_decision 7 ''d'')"
  "map (\<lambda>(k, s). (required_units s, lt_total_units (sl_record s)))
     (snd (expand_unit demo_single ''t'' ''a'' ''w'' 1 demo_split demo_decision 7 ''d'')) = [([], 1)]"
  "map (\<lambda>(k, s). (lt_status (sl_record s), lt_completed_units (sl_record s)))
     (snd (finalize_if_complete (snd (expand_unit demo_single ''t'' ''a'' ''w'' 1 demo_split demo_decision 7 ''d'')) ''t'' 8 ''d''))
   = [(Task_COMPLETED, 0)]"
  by code_simp+

end
