(* ===== verification/Artifacts.thy ===== *)
theory Artifacts
  imports Json_Values
begin

text \<open>
  The contracts of \<open>purra/artifacts/\<close>: \<open>ownership.py\<close>, \<open>contracts.py\<close>, \<open>continuity.py\<close> with the
  access policy, and \<open>maintenance.py\<close>. An artifact is content that a Run produces in batches and
  that survives the Run; a write claim is the exclusive right to add to it for a limited time.
\<close>

section \<open>Ownership and commands\<close>

record artifact_owner_ref =
  ao_kind :: string
  ao_id :: string

definition ArtifactOwnerRef_post_init :: "artifact_owner_ref \<Rightarrow> artifact_owner_ref result" where
  "ArtifactOwnerRef_post_init r =
     bind_result (required_text (ao_kind r) ''artifact owner kind'') (\<lambda>k.
     bind_result (required_text (ao_id r) ''artifact owner id'') (\<lambda>i.
     Inr (r\<lparr>ao_kind := k, ao_id := i\<rparr>)))"

datatype artifact_status = Artifact_OPEN | Artifact_FINALIZED | Artifact_ABORTED

record artifact_create_command =
  acc_namespace :: string
  acc_kind :: string
  acc_owner_id :: string
  acc_owner_ref :: artifact_owner_ref
  acc_created_by_run_id :: string
  acc_schema_version :: int
  acc_expected_item_count :: "int option"
  acc_metadata :: json_mapping

definition ArtifactCreateCommand_post_init :: "artifact_create_command \<Rightarrow> artifact_create_command result" where
  "ArtifactCreateCommand_post_init c =
     bind_result (required_text (acc_namespace c) ''artifact namespace'') (\<lambda>n.
     bind_result (required_text (acc_kind c) ''artifact kind'') (\<lambda>k.
     bind_result (required_text (acc_owner_id c) ''artifact owner_id'') (\<lambda>w.
     bind_result (required_text (acc_created_by_run_id c) ''artifact created_by_run_id'') (\<lambda>r.
     bind_result (positive_int (acc_schema_version c) ''artifact schema_version'') (\<lambda>_.
     bind_result (optional_non_negative_int (acc_expected_item_count c) ''artifact expected_item_count'') (\<lambda>_.
     Inr (c\<lparr>acc_namespace := n, acc_kind := k, acc_owner_id := w, acc_created_by_run_id := r\<rparr>)))))))"

record artifact_record =
  art_id :: string
  art_namespace :: string
  art_kind :: string
  art_owner_id :: string
  art_owner_ref :: artifact_owner_ref
  art_created_by_run_id :: string
  art_schema_version :: int
  art_status :: artifact_status
  art_revision :: int
  art_next_sequence :: int
  art_committed_item_count :: int
  art_expected_item_count :: "int option"
  art_metadata :: json_mapping
  art_resource_ref :: "string option"
  art_coverage_digest :: "string option"

definition ArtifactRecord_post_init :: "artifact_record \<Rightarrow> artifact_record result" where
  "ArtifactRecord_post_init a =
     bind_result (required_text (art_id a) ''artifact id'') (\<lambda>i.
     bind_result (required_text (art_namespace a) ''artifact namespace'') (\<lambda>n.
     bind_result (required_text (art_kind a) ''artifact kind'') (\<lambda>k.
     bind_result (required_text (art_owner_id a) ''artifact owner_id'') (\<lambda>w.
     bind_result (required_text (art_created_by_run_id a) ''artifact created_by_run_id'') (\<lambda>r.
     bind_result (positive_int (art_schema_version a) ''artifact schema_version'') (\<lambda>_.
     bind_result (positive_int (art_revision a) ''artifact revision'') (\<lambda>_.
     bind_result (positive_int (art_next_sequence a) ''artifact next_sequence'') (\<lambda>_.
     bind_result (non_negative_int (art_committed_item_count a) ''committed_item_count'') (\<lambda>_.
     bind_result (optional_non_negative_int (art_expected_item_count a) ''artifact expected_item_count'') (\<lambda>_.
     Inr (a\<lparr>art_id := i, art_namespace := n, art_kind := k, art_owner_id := w, art_created_by_run_id := r,
       art_resource_ref := optional_text (art_resource_ref a),
       art_coverage_digest := optional_text (art_coverage_digest a)\<rparr>)))))))))))"

record artifact_mutation_lease =
  aml_run_id :: string
  aml_claim_token :: string
  aml_lease_duration_ms :: int

definition ArtifactMutationLease_post_init :: "artifact_mutation_lease \<Rightarrow> artifact_mutation_lease result" where
  "ArtifactMutationLease_post_init l =
     bind_result (required_text (aml_run_id l) ''artifact mutation lease run_id'') (\<lambda>r.
     bind_result (required_text (aml_claim_token l) ''artifact mutation lease claim_token'') (\<lambda>t.
     bind_result (positive_int (aml_lease_duration_ms l) ''artifact mutation lease duration'') (\<lambda>_.
     Inr (l\<lparr>aml_run_id := r, aml_claim_token := t\<rparr>))))"

record artifact_append_command =
  aac_artifact_id :: string
  aac_expected_revision :: int
  aac_sequence :: int
  aac_batch_id :: string
  aac_idempotency_key :: string
  aac_items :: "json_mapping list"
  aac_write_lease :: artifact_mutation_lease
  aac_coverage_keys :: "string list"

definition ArtifactAppendCommand_post_init :: "artifact_append_command \<Rightarrow> artifact_append_command result" where
  "ArtifactAppendCommand_post_init c =
     bind_result (required_text (aac_artifact_id c) ''artifact batch artifact_id'') (\<lambda>i.
     bind_result (required_text (aac_batch_id c) ''artifact batch batch_id'') (\<lambda>b.
     bind_result (required_text (aac_idempotency_key c) ''artifact batch idempotency_key'') (\<lambda>k.
     bind_result (positive_int (aac_expected_revision c) ''artifact batch expected_revision'') (\<lambda>_.
     bind_result (positive_int (aac_sequence c) ''artifact batch sequence'') (\<lambda>_.
     if aac_items c = [] then Inl (ValueError ''artifact batch must contain at least one item'')
     else Inr (c\<lparr>aac_artifact_id := i, aac_batch_id := b, aac_idempotency_key := k,
       aac_coverage_keys := text_tuple (map strip (aac_coverage_keys c))\<rparr>))))))"

definition aac_content_digest :: "(json \<Rightarrow> string) \<Rightarrow> artifact_append_command \<Rightarrow> string" where
  "aac_content_digest H c = canonical_json_digest H (JObj
     [(''artifactId'', JStr (aac_artifact_id c)), (''sequence'', JInt (aac_sequence c)),
      (''batchId'', JStr (aac_batch_id c)), (''items'', JList (map JObj (aac_items c))),
      (''coverageKeys'', json_texts (aac_coverage_keys c))])"

record artifact_batch =
  abt_artifact_id :: string
  abt_batch_id :: string
  abt_idempotency_key :: string
  abt_sequence :: int
  abt_committed_revision :: int
  abt_items :: "json_mapping list"
  abt_coverage_keys :: "string list"
  abt_content_digest :: string

definition ArtifactBatch_post_init :: "artifact_batch \<Rightarrow> artifact_batch result" where
  "ArtifactBatch_post_init b =
     bind_result (required_text (abt_artifact_id b) ''artifact batch artifact_id'') (\<lambda>i.
     bind_result (required_text (abt_batch_id b) ''artifact batch batch_id'') (\<lambda>n.
     bind_result (required_text (abt_idempotency_key b) ''artifact batch idempotency_key'') (\<lambda>k.
     bind_result (positive_int (abt_sequence b) ''artifact batch sequence'') (\<lambda>_.
     bind_result (positive_int (abt_committed_revision b) ''artifact batch committed_revision'') (\<lambda>_.
     bind_result (required_text (abt_content_digest b) ''artifact batch content_digest'') (\<lambda>d.
     Inr (b\<lparr>abt_artifact_id := i, abt_batch_id := n, abt_idempotency_key := k, abt_content_digest := d\<rparr>)))))))"

record artifact_batch_receipt =
  abr_artifact_id :: string
  abr_batch_id :: string
  abr_sequence :: int
  abr_committed_revision :: int
  abr_next_sequence :: int
  abr_accepted_count :: int
  abr_replayed :: bool

definition ArtifactBatchReceipt_post_init :: "artifact_batch_receipt \<Rightarrow> artifact_batch_receipt result" where
  "ArtifactBatchReceipt_post_init r =
     bind_result (required_text (abr_artifact_id r) ''artifact receipt artifact_id'') (\<lambda>i.
     bind_result (required_text (abr_batch_id r) ''artifact receipt batch_id'') (\<lambda>b.
     bind_result (positive_int (abr_sequence r) ''artifact receipt sequence'') (\<lambda>_.
     bind_result (positive_int (abr_committed_revision r) ''artifact receipt committed_revision'') (\<lambda>_.
     bind_result (positive_int (abr_next_sequence r) ''artifact receipt next_sequence'') (\<lambda>_.
     bind_result (non_negative_int (abr_accepted_count r) ''artifact accepted_count'') (\<lambda>_.
     Inr (r\<lparr>abr_artifact_id := i, abr_batch_id := b\<rparr>)))))))"

record artifact_finalize_command =
  afc_artifact_id :: string
  afc_expected_revision :: int
  afc_write_lease :: artifact_mutation_lease
  afc_expected_item_count :: "int option"
  afc_expected_coverage_keys :: "string list"
  afc_resource_ref :: "string option"

definition ArtifactFinalizeCommand_post_init :: "artifact_finalize_command \<Rightarrow> artifact_finalize_command result" where
  "ArtifactFinalizeCommand_post_init c =
     bind_result (required_text (afc_artifact_id c) ''artifact_id'') (\<lambda>i.
     bind_result (positive_int (afc_expected_revision c) ''expected_revision'') (\<lambda>_.
     bind_result (optional_non_negative_int (afc_expected_item_count c) ''artifact expected_item_count'') (\<lambda>_.
     Inr (c\<lparr>afc_artifact_id := i,
       afc_expected_coverage_keys := unique_text_tuple (map strip (afc_expected_coverage_keys c)),
       afc_resource_ref := optional_text (afc_resource_ref c)\<rparr>))))"

record artifact_validation_result =
  avr_accepted :: bool
  avr_code :: "string option"
  avr_details :: json_mapping

definition ArtifactValidationResult_post_init :: "artifact_validation_result \<Rightarrow> artifact_validation_result result" where
  "ArtifactValidationResult_post_init r =
     (let code = optional_text (avr_code r) in
      if \<not> avr_accepted r \<and> code = None then Inl (ValueError ''rejected artifact validation requires a code'')
      else Inr (r\<lparr>avr_code := code\<rparr>))"

text \<open>\<open>canonical_json_digest(sorted(set(keys)))\<close>.\<close>

definition coverage_digest :: "(json \<Rightarrow> string) \<Rightarrow> string list \<Rightarrow> string" where
  "coverage_digest H keys = canonical_json_digest H (json_texts (sort (dict_fromkeys keys)))"

section \<open>Access\<close>

datatype artifact_access_mode = Access_READ | Access_WRITE

datatype artifact_access_reason =
    Access_ALLOWED | Access_ARTIFACT_ID_MISMATCH | Access_ARTIFACT_ABORTED | Access_ARTIFACT_FINALIZED
  | Access_ARTIFACT_REVISION_CONFLICT | Access_CROSS_RUN_NOT_AUTHORIZED

fun ArtifactAccessReason_value :: "artifact_access_reason \<Rightarrow> string" where
  "ArtifactAccessReason_value Access_ALLOWED = ''allowed''"
| "ArtifactAccessReason_value Access_ARTIFACT_ID_MISMATCH = ''artifact_id_mismatch''"
| "ArtifactAccessReason_value Access_ARTIFACT_ABORTED = ''artifact_aborted''"
| "ArtifactAccessReason_value Access_ARTIFACT_FINALIZED = ''artifact_finalized''"
| "ArtifactAccessReason_value Access_ARTIFACT_REVISION_CONFLICT = ''artifact_revision_conflict''"
| "ArtifactAccessReason_value Access_CROSS_RUN_NOT_AUTHORIZED = ''cross_run_not_authorized''"

record artifact_resume_candidate =
  arc_artifact_id :: string
  arc_namespace :: string
  arc_kind :: string
  arc_owner_id :: string
  arc_owner_ref :: artifact_owner_ref
  arc_created_by_run_id :: string
  arc_status :: artifact_status
  arc_revision :: int
  arc_committed_item_count :: int
  arc_expected_item_count :: "int option"

definition ArtifactResumeCandidate_post_init :: "artifact_resume_candidate \<Rightarrow> artifact_resume_candidate result" where
  "ArtifactResumeCandidate_post_init c =
     bind_result (required_text (arc_artifact_id c) ''artifact candidate artifact_id'') (\<lambda>i.
     bind_result (required_text (arc_namespace c) ''artifact candidate namespace'') (\<lambda>n.
     bind_result (required_text (arc_kind c) ''artifact candidate kind'') (\<lambda>k.
     bind_result (required_text (arc_owner_id c) ''artifact candidate owner_id'') (\<lambda>w.
     bind_result (required_text (arc_created_by_run_id c) ''artifact candidate created_by_run_id'') (\<lambda>r.
     bind_result (positive_int (arc_revision c) ''artifact candidate revision'') (\<lambda>_.
     bind_result (non_negative_int (arc_committed_item_count c) ''committed_item_count'') (\<lambda>_.
     bind_result (optional_non_negative_int (arc_expected_item_count c) ''expected_item_count'') (\<lambda>_.
     if (case arc_expected_item_count c of None \<Rightarrow> False | Some n \<Rightarrow> arc_committed_item_count c > n) then
       Inl (ValueError ''committed_item_count cannot exceed expected_item_count'')
     else Inr (c\<lparr>arc_artifact_id := i, arc_namespace := n, arc_kind := k, arc_owner_id := w,
       arc_created_by_run_id := r\<rparr>)))))))))"

record artifact_access_request =
  aar_artifact_id :: string
  aar_run_id :: string
  aar_mode :: artifact_access_mode
  aar_expected_revision :: int

definition ArtifactAccessRequest_post_init :: "artifact_access_request \<Rightarrow> artifact_access_request result" where
  "ArtifactAccessRequest_post_init r =
     bind_result (required_text (aar_artifact_id r) ''artifact access artifact_id'') (\<lambda>i.
     bind_result (required_text (aar_run_id r) ''artifact access run_id'') (\<lambda>n.
     bind_result (positive_int (aar_expected_revision r) ''expected_revision'') (\<lambda>_.
     Inr (r\<lparr>aar_artifact_id := i, aar_run_id := n\<rparr>))))"

record artifact_access_decision =
  aad_artifact_id :: string
  aad_run_id :: string
  aad_mode :: artifact_access_mode
  aad_allowed :: bool
  aad_reason :: artifact_access_reason
  aad_artifact_revision :: int
  aad_requires_write_claim :: bool

definition ArtifactAccessDecision_post_init :: "artifact_access_decision \<Rightarrow> artifact_access_decision result" where
  "ArtifactAccessDecision_post_init d =
     bind_result (required_text (aad_artifact_id d) ''artifact decision artifact_id'') (\<lambda>i.
     bind_result (required_text (aad_run_id d) ''artifact decision run_id'') (\<lambda>n.
     if aad_allowed d \<noteq> (aad_reason d = Access_ALLOWED) then
       Inl (ValueError ''artifact access decision reason does not match its verdict'')
     else
     bind_result (positive_int (aad_artifact_revision d) ''artifact_revision'') (\<lambda>_.
     if aad_requires_write_claim d \<and> (\<not> aad_allowed d \<or> aad_mode d \<noteq> Access_WRITE) then
       Inl (ValueError ''only allowed write decisions may require a write claim'')
     else Inr (d\<lparr>aad_artifact_id := i, aad_run_id := n\<rparr>))))"

record artifact_write_claim_command =
  awc_artifact_id :: string
  awc_run_id :: string
  awc_expected_revision :: int
  awc_lease_duration_ms :: int

definition ArtifactWriteClaimCommand_post_init :: "artifact_write_claim_command \<Rightarrow> artifact_write_claim_command result" where
  "ArtifactWriteClaimCommand_post_init c =
     bind_result (required_text (awc_artifact_id c) ''artifact claim artifact_id'') (\<lambda>i.
     bind_result (required_text (awc_run_id c) ''artifact claim run_id'') (\<lambda>n.
     bind_result (positive_int (awc_expected_revision c) ''expected_revision'') (\<lambda>_.
     bind_result (positive_int (awc_lease_duration_ms c) ''lease_duration_ms'') (\<lambda>_.
     Inr (c\<lparr>awc_artifact_id := i, awc_run_id := n\<rparr>)))))"

record artifact_write_claim =
  clm_artifact_id :: string
  clm_run_id :: string
  clm_claim_token :: string
  clm_acquired_revision :: int
  clm_expires_at_ms :: int

definition ArtifactWriteClaim_post_init :: "artifact_write_claim \<Rightarrow> artifact_write_claim result" where
  "ArtifactWriteClaim_post_init c =
     bind_result (required_text (clm_artifact_id c) ''artifact write claim artifact_id'') (\<lambda>i.
     bind_result (required_text (clm_run_id c) ''artifact write claim run_id'') (\<lambda>n.
     bind_result (required_text (clm_claim_token c) ''artifact write claim claim_token'') (\<lambda>t.
     bind_result (positive_int (clm_acquired_revision c) ''acquired_revision'') (\<lambda>_.
     bind_result (positive_int (clm_expires_at_ms c) ''expires_at_ms'') (\<lambda>_.
     Inr (c\<lparr>clm_artifact_id := i, clm_run_id := n, clm_claim_token := t\<rparr>))))))"

record artifact_claim_lease_command =
  acl_artifact_id :: string
  acl_run_id :: string
  acl_claim_token :: string
  acl_lease_duration_ms :: "int option"

definition ArtifactClaimLeaseCommand_post_init :: "artifact_claim_lease_command \<Rightarrow> artifact_claim_lease_command result" where
  "ArtifactClaimLeaseCommand_post_init c =
     bind_result (required_text (acl_artifact_id c) ''artifact claim lease artifact_id'') (\<lambda>i.
     bind_result (required_text (acl_run_id c) ''artifact claim lease run_id'') (\<lambda>n.
     bind_result (required_text (acl_claim_token c) ''artifact claim lease claim_token'') (\<lambda>t.
     bind_result (optional_positive_int (acl_lease_duration_ms c) ''lease_duration_ms'') (\<lambda>_.
     Inr (c\<lparr>acl_artifact_id := i, acl_run_id := n, acl_claim_token := t\<rparr>)))))"

record artifact_access_grant =
  aag_decision :: artifact_access_decision
  aag_write_claim :: "artifact_write_claim option"

definition ArtifactAccessGrant_post_init :: "artifact_access_grant \<Rightarrow> artifact_access_grant result" where
  "ArtifactAccessGrant_post_init g =
     (let d = aag_decision g in
      if \<not> aad_allowed d then Inl (ValueError ''denied artifact access cannot become a grant'')
      else if aad_requires_write_claim d \<noteq> (aag_write_claim g \<noteq> None) then
        Inl (ValueError ''artifact access grant write claim does not match'')
      else if (case aag_write_claim g of None \<Rightarrow> False | Some c \<Rightarrow> clm_artifact_id c \<noteq> aad_artifact_id d
          \<or> clm_run_id c \<noteq> aad_run_id d \<or> clm_acquired_revision c \<noteq> aad_artifact_revision d) then
        Inl (ValueError ''artifact write claim does not match the decision'')
      else Inr g)"

text \<open>\<open>ArtifactAccessPolicy\<close>.\<close>

definition access_denial_reason ::
    "artifact_resume_candidate \<Rightarrow> artifact_access_request \<Rightarrow> bool \<Rightarrow> artifact_access_reason option" where
  "access_denial_reason c r cross_run_authorized =
     (if arc_artifact_id c \<noteq> aar_artifact_id r then Some Access_ARTIFACT_ID_MISMATCH
      else if arc_created_by_run_id c \<noteq> aar_run_id r \<and> \<not> cross_run_authorized then
        Some Access_CROSS_RUN_NOT_AUTHORIZED
      else if arc_status c = Artifact_ABORTED then Some Access_ARTIFACT_ABORTED
      else if arc_revision c \<noteq> aar_expected_revision r then Some Access_ARTIFACT_REVISION_CONFLICT
      else if aar_mode r = Access_WRITE \<and> arc_status c = Artifact_FINALIZED then Some Access_ARTIFACT_FINALIZED
      else None)"

definition decide_access ::
    "artifact_resume_candidate \<Rightarrow> artifact_access_request \<Rightarrow> bool \<Rightarrow> artifact_access_decision result" where
  "decide_access c r cross_run_authorized =
     (let reason = access_denial_reason c r cross_run_authorized; allowed = (reason = None) in
      ArtifactAccessDecision_post_init
        \<lparr>aad_artifact_id = aar_artifact_id r, aad_run_id = aar_run_id r, aad_mode = aar_mode r, aad_allowed = allowed,
         aad_reason = (case reason of None \<Rightarrow> Access_ALLOWED | Some x \<Rightarrow> x), aad_artifact_revision = arc_revision c,
         aad_requires_write_claim = (allowed \<and> aar_mode r = Access_WRITE)\<rparr>)"

section \<open>Maintenance\<close>

record artifact_maintenance_policy =
  amp_terminal_retention_ms :: "int option"
  amp_max_purge_artifacts :: int

definition ArtifactMaintenancePolicy_post_init :: "artifact_maintenance_policy \<Rightarrow> artifact_maintenance_policy result" where
  "ArtifactMaintenancePolicy_post_init p =
     bind_result (optional_non_negative_int (amp_terminal_retention_ms p) ''terminal_retention_ms'') (\<lambda>_.
     bind_result (positive_int (amp_max_purge_artifacts p) ''max_purge_artifacts'') (\<lambda>_. Inr p))"

record artifact_maintenance_report =
  amr_expired_claims_released :: int
  amr_unavailable_run_claims_released :: int
  amr_invalid_target_claims_released :: int
  amr_purged_artifacts :: int
  amr_consistency_issues :: int

definition ArtifactMaintenanceReport_post_init :: "artifact_maintenance_report \<Rightarrow> artifact_maintenance_report result" where
  "ArtifactMaintenanceReport_post_init r =
     bind_result (non_negative_int (amr_expired_claims_released r) ''expired_claims_released'') (\<lambda>_.
     bind_result (non_negative_int (amr_unavailable_run_claims_released r) ''unavailable_run_claims_released'') (\<lambda>_.
     bind_result (non_negative_int (amr_invalid_target_claims_released r) ''invalid_target_claims_released'') (\<lambda>_.
     bind_result (non_negative_int (amr_purged_artifacts r) ''purged_artifacts'') (\<lambda>_.
     bind_result (non_negative_int (amr_consistency_issues r) ''consistency_issues'') (\<lambda>_. Inr r)))))"

definition released_claims :: "artifact_maintenance_report \<Rightarrow> int" where
  "released_claims r = amr_expired_claims_released r + amr_unavailable_run_claims_released r
     + amr_invalid_target_claims_released r"

definition report_changed :: "artifact_maintenance_report \<Rightarrow> bool" where
  "report_changed r \<longleftrightarrow> released_claims r \<noteq> 0 \<or> amr_purged_artifacts r \<noteq> 0"

record artifact_maintenance_snapshot =
  ams_checked_at_ms :: int
  ams_scope_run_id :: "string option"
  ams_open_artifacts :: int
  ams_finalized_artifacts :: int
  ams_aborted_artifacts :: int
  ams_unknown_artifacts :: int
  ams_active_claims :: int
  ams_expired_claims :: int
  ams_unavailable_run_claims :: int
  ams_invalid_target_claims :: int
  ams_consistency_issues :: int

definition ArtifactMaintenanceSnapshot_post_init :: "artifact_maintenance_snapshot \<Rightarrow> artifact_maintenance_snapshot result" where
  "ArtifactMaintenanceSnapshot_post_init s =
     bind_result (non_negative_int (ams_checked_at_ms s) ''checked_at_ms'') (\<lambda>_.
     bind_result (non_negative_int (ams_open_artifacts s) ''open_artifacts'') (\<lambda>_.
     bind_result (non_negative_int (ams_finalized_artifacts s) ''finalized_artifacts'') (\<lambda>_.
     bind_result (non_negative_int (ams_aborted_artifacts s) ''aborted_artifacts'') (\<lambda>_.
     bind_result (non_negative_int (ams_unknown_artifacts s) ''unknown_artifacts'') (\<lambda>_.
     bind_result (non_negative_int (ams_active_claims s) ''active_claims'') (\<lambda>_.
     bind_result (non_negative_int (ams_expired_claims s) ''expired_claims'') (\<lambda>_.
     bind_result (non_negative_int (ams_unavailable_run_claims s) ''unavailable_run_claims'') (\<lambda>_.
     bind_result (non_negative_int (ams_invalid_target_claims s) ''invalid_target_claims'') (\<lambda>_.
     bind_result (non_negative_int (ams_consistency_issues s) ''consistency_issues'') (\<lambda>_.
     Inr (s\<lparr>ams_scope_run_id := optional_text (ams_scope_run_id s)\<rparr>)))))))))))"

definition reclaimable_claims :: "artifact_maintenance_snapshot \<Rightarrow> int" where
  "reclaimable_claims s = ams_expired_claims s + ams_unavailable_run_claims s + ams_invalid_target_claims s"

definition claim_count :: "artifact_maintenance_snapshot \<Rightarrow> int" where
  "claim_count s = ams_active_claims s + reclaimable_claims s"

definition artifact_count :: "artifact_maintenance_snapshot \<Rightarrow> int" where
  "artifact_count s = ams_open_artifacts s + ams_finalized_artifacts s + ams_aborted_artifacts s + ams_unknown_artifacts s"

definition requires_attention :: "artifact_maintenance_snapshot \<Rightarrow> bool" where
  "requires_attention s \<longleftrightarrow> reclaimable_claims s \<noteq> 0 \<or> ams_consistency_issues s \<noteq> 0"

end
