(* ===== verification/Artifact_Store.thy ===== *)
theory Artifact_Store
  imports Artifacts
begin

text \<open>
  \<open>InMemoryArtifactStore\<close> of \<open>purra/adapters/durable_memory.py\<close>: the store of artifacts, their
  batches, receipts and write claims. Every method runs under the lock of the store, so a call is
  one step; all readings of the clock within a call are the argument \<open>now\<close>. The token that
  \<open>uuid4\<close> draws is an argument, as are the hash \<open>H\<close> and the host's test whether a Run is
  still available.
\<close>

section \<open>State\<close>

type_synonym artifact_owner_key = "string \<times> string \<times> string \<times> string \<times> string"

record artifact_state =
  as_artifacts :: "(string, artifact_record) dict"
  as_owners :: "(artifact_owner_key, string) dict"
  as_batches :: "(string, artifact_batch list) dict"
  as_receipts :: "(string \<times> string, artifact_batch_receipt) dict"
  as_receipt_digests :: "(string \<times> string, string) dict"
  as_claims :: "(string, artifact_write_claim) dict"
  as_updated_at_ms :: "(string, int) dict"

definition empty_artifacts :: artifact_state where
  "empty_artifacts = \<lparr>as_artifacts = [], as_owners = [], as_batches = [], as_receipts = [],
     as_receipt_digests = [], as_claims = [], as_updated_at_ms = []\<rparr>"

section \<open>Private helpers\<close>

definition owner_key :: "artifact_create_command \<Rightarrow> artifact_owner_key" where
  "owner_key c = (acc_namespace c, acc_kind c, acc_owner_id c, ao_kind (acc_owner_ref c), ao_id (acc_owner_ref c))"

definition matches_artifact_create :: "artifact_record \<Rightarrow> artifact_create_command \<Rightarrow> bool" where
  "matches_artifact_create a c \<longleftrightarrow> art_namespace a = acc_namespace c \<and> art_kind a = acc_kind c
     \<and> art_owner_id a = acc_owner_id c \<and> art_owner_ref a = acc_owner_ref c
     \<and> art_created_by_run_id a = acc_created_by_run_id c \<and> art_schema_version a = acc_schema_version c
     \<and> art_expected_item_count a = acc_expected_item_count c \<and> json_mapping_eq (art_metadata a) (acc_metadata c)"

definition require_artifact :: "artifact_state \<Rightarrow> string \<Rightarrow> artifact_record result" where
  "require_artifact s artifact_id = bind_result (required_text artifact_id ''artifact id'') (\<lambda>i.
     case map_of (as_artifacts s) i of
       None \<Rightarrow> Inl (ArtifactNotFoundError ''artifact_not_found'' ''artifact does not exist'') | Some a \<Rightarrow> Inr a)"

definition require_open :: "artifact_record \<Rightarrow> unit result" where
  "require_open a = (if art_status a \<noteq> Artifact_OPEN
     then Inl (ArtifactStateError ''artifact_not_open'' ''artifact is not open'') else Inr ())"

definition require_revision :: "artifact_record \<Rightarrow> int \<Rightarrow> unit result" where
  "require_revision a expected = (if art_revision a \<noteq> expected
     then Inl (ArtifactConflictError ''artifact_revision_conflict'' ''artifact revision conflicts'') else Inr ())"

definition active_claim :: "artifact_state \<Rightarrow> string \<Rightarrow> int \<Rightarrow> artifact_write_claim option" where
  "active_claim s i now = (case map_of (as_claims s) i of
     None \<Rightarrow> None | Some c \<Rightarrow> if clm_expires_at_ms c \<le> now then None else Some c)"

definition require_write_claim ::
    "artifact_state \<Rightarrow> artifact_record \<Rightarrow> artifact_mutation_lease \<Rightarrow> int \<Rightarrow> artifact_write_claim result" where
  "require_write_claim s a lease now =
     (let refusal = Inl (ArtifactConflictError ''artifact_write_claim_invalid'' ''artifact write claim is invalid'') in
      case active_claim s (art_id a) now of
        None \<Rightarrow> refusal
      | Some c \<Rightarrow> if clm_run_id c \<noteq> aml_run_id lease \<or> clm_claim_token c \<noteq> aml_claim_token lease
            \<or> clm_acquired_revision c \<noteq> art_revision a then refusal else Inr c)"

definition require_claim_command ::
    "artifact_state \<Rightarrow> artifact_record \<Rightarrow> artifact_claim_lease_command \<Rightarrow> int \<Rightarrow> artifact_write_claim result" where
  "require_claim_command s a c now =
     bind_result (ArtifactMutationLease_post_init \<lparr>aml_run_id = acl_run_id c, aml_claim_token = acl_claim_token c,
       aml_lease_duration_ms = (case acl_lease_duration_ms c of None \<Rightarrow> 1 | Some n \<Rightarrow> if n = 0 then 1 else n)\<rparr>) (\<lambda>lease.
     require_write_claim s a lease now)"

definition stored_receipt ::
    "(json \<Rightarrow> string) \<Rightarrow> artifact_state \<Rightarrow> artifact_append_command \<Rightarrow> artifact_batch_receipt option result" where
  "stored_receipt H s c =
     (let key = (aac_artifact_id c, aac_idempotency_key c) in
      case map_of (as_receipts s) key of
        None \<Rightarrow> Inr None
      | Some r \<Rightarrow> (case map_of (as_receipt_digests s) key of
            None \<Rightarrow> Inl (KeyError (aac_idempotency_key c))
          | Some d \<Rightarrow> if d \<noteq> aac_content_digest H c
              then Inl (ArtifactConflictError ''artifact_idempotency_conflict'' ''artifact idempotency key conflicts'')
              else Inr (Some (r\<lparr>abr_replayed := True\<rparr>))))"

definition artifact_key :: "artifact_record \<Rightarrow> artifact_owner_key" where
  "artifact_key a = (art_namespace a, art_kind a, art_owner_id a, ao_kind (art_owner_ref a), ao_id (art_owner_ref a))"

definition purge_artifact :: "artifact_state \<Rightarrow> string \<Rightarrow> unit result \<times> artifact_state" where
  "purge_artifact s i = (case map_of (as_artifacts s) i of
     None \<Rightarrow> (Inl (KeyError i), s)
   | Some a \<Rightarrow> (Inr (), s\<lparr>as_artifacts := AList.delete i (as_artifacts s),
         as_owners := AList.delete (artifact_key a) (as_owners s),
         as_batches := AList.delete i (as_batches s), as_claims := AList.delete i (as_claims s),
         as_updated_at_ms := AList.delete i (as_updated_at_ms s),
         as_receipts := filter (\<lambda>(k, r). fst k \<noteq> i) (as_receipts s),
         as_receipt_digests := filter (\<lambda>(k, d). fst k \<noteq> i \<or> k \<notin> fst ` set (as_receipts s)) (as_receipt_digests s)\<rparr>))"

section \<open>Artifacts\<close>

text \<open>Equality of two records compares their metadata as JSON.\<close>

definition artifact_equal :: "artifact_record \<Rightarrow> artifact_record \<Rightarrow> bool" where
  "artifact_equal a b \<longleftrightarrow> a\<lparr>art_metadata := []\<rparr> = b\<lparr>art_metadata := []\<rparr> \<and> json_mapping_eq (art_metadata a) (art_metadata b)"

definition new_artifact :: "string \<Rightarrow> artifact_create_command \<Rightarrow> artifact_record" where
  "new_artifact i c = \<lparr>art_id = i, art_namespace = acc_namespace c, art_kind = acc_kind c, art_owner_id = acc_owner_id c,
     art_owner_ref = acc_owner_ref c, art_created_by_run_id = acc_created_by_run_id c,
     art_schema_version = acc_schema_version c, art_status = Artifact_OPEN, art_revision = 1, art_next_sequence = 1,
     art_committed_item_count = 0, art_expected_item_count = acc_expected_item_count c, art_metadata = acc_metadata c,
     art_resource_ref = None, art_coverage_digest = None\<rparr>"

definition create_artifact ::
    "artifact_state \<Rightarrow> string \<Rightarrow> artifact_create_command \<Rightarrow> int \<Rightarrow> artifact_record result \<times> artifact_state" where
  "create_artifact s artifact_id c now =
     read_op (required_text artifact_id ''artifact id'') s (\<lambda>i.
     read_op (ArtifactRecord_post_init (new_artifact i c)) s (\<lambda>candidate.
     case map_of (as_artifacts s) i of
       Some existing \<Rightarrow>
         if artifact_equal existing candidate then (Inr existing, s)
         else (Inl (ArtifactConflictError ''artifact_id_conflict'' ''artifact id conflicts''), s)
     | None \<Rightarrow>
        (case map_of (as_owners s) (owner_key c) of
           Some owned_id \<Rightarrow>
             (case map_of (as_artifacts s) owned_id of
                None \<Rightarrow> (Inl (KeyError owned_id), s)
              | Some owned \<Rightarrow> if matches_artifact_create owned c then (Inr owned, s)
                  else (Inl (ArtifactConflictError ''artifact_owner_conflict'' ''artifact owner identity conflicts''), s))
         | None \<Rightarrow>
             (Inr candidate, s\<lparr>as_artifacts := AList.update i candidate (as_artifacts s),
                as_owners := AList.update (owner_key c) i (as_owners s),
                as_batches := AList.update i [] (as_batches s),
                as_updated_at_ms := AList.update i now (as_updated_at_ms s)\<rparr>))))"

definition load_artifact :: "artifact_state \<Rightarrow> string \<Rightarrow> artifact_record option" where
  "load_artifact s artifact_id = map_of (as_artifacts s) (strip artifact_id)"

definition find_for_owner ::
    "artifact_state \<Rightarrow> string \<Rightarrow> string \<Rightarrow> string \<Rightarrow> artifact_owner_ref \<Rightarrow> artifact_record option result" where
  "find_for_owner s namespace kind owner_id owner_ref =
     bind_result (required_text namespace ''artifact namespace'') (\<lambda>n.
     bind_result (required_text kind ''artifact kind'') (\<lambda>k.
     bind_result (required_text owner_id ''artifact owner id'') (\<lambda>w.
     Inr (case map_of (as_owners s) (n, k, w, ao_kind owner_ref, ao_id owner_ref) of
            None \<Rightarrow> None
          | Some i \<Rightarrow> if i = [] then None else map_of (as_artifacts s) i))))"

definition append_batch ::
    "(json \<Rightarrow> string) \<Rightarrow> artifact_state \<Rightarrow> artifact_append_command \<Rightarrow> int \<Rightarrow> artifact_batch_receipt result \<times> artifact_state" where
  "append_batch H s c now =
     read_op (stored_receipt H s c) s (\<lambda>replayed.
     case replayed of Some r \<Rightarrow> (Inr r, s)
     | None \<Rightarrow>
     read_op (require_artifact s (aac_artifact_id c)) s (\<lambda>a.
     read_op (require_open a) s (\<lambda>_.
     read_op (require_revision a (aac_expected_revision c)) s (\<lambda>_.
     if art_next_sequence a \<noteq> aac_sequence c then
       (Inl (ArtifactConflictError ''artifact_sequence_conflict'' ''artifact sequence conflicts''), s)
     else
     read_op (require_write_claim s a (aac_write_lease c) now) s (\<lambda>claim.
     let committed_revision = art_revision a + 1; receipt_key = (art_id a, aac_idempotency_key c) in
     read_op (ArtifactBatch_post_init
       \<lparr>abt_artifact_id = art_id a, abt_batch_id = aac_batch_id c, abt_idempotency_key = aac_idempotency_key c,
        abt_sequence = aac_sequence c, abt_committed_revision = committed_revision, abt_items = aac_items c,
        abt_coverage_keys = aac_coverage_keys c, abt_content_digest = aac_content_digest H c\<rparr>) s (\<lambda>batch.
     read_op (ArtifactBatchReceipt_post_init
       \<lparr>abr_artifact_id = art_id a, abr_batch_id = aac_batch_id c, abr_sequence = aac_sequence c,
        abr_committed_revision = committed_revision, abr_next_sequence = aac_sequence c + 1,
        abr_accepted_count = int (length (aac_items c)), abr_replayed = False\<rparr>) s (\<lambda>receipt.
     case map_of (as_batches s) (art_id a) of
       None \<Rightarrow> (Inl (KeyError (art_id a)), s)
     | Some batches \<Rightarrow>
     let s = s\<lparr>as_batches := AList.update (art_id a) (batches @ [batch]) (as_batches s),
           as_receipts := AList.update receipt_key receipt (as_receipts s),
           as_receipt_digests := AList.update receipt_key (aac_content_digest H c) (as_receipt_digests s),
           as_artifacts := AList.update (art_id a) (a\<lparr>art_revision := committed_revision,
             art_next_sequence := aac_sequence c + 1,
             art_committed_item_count := art_committed_item_count a + int (length (aac_items c))\<rparr>) (as_artifacts s)\<rparr> in
     read_op (ArtifactWriteClaim_post_init (claim\<lparr>clm_acquired_revision := committed_revision,
       clm_expires_at_ms := now + aml_lease_duration_ms (aac_write_lease c)\<rparr>)) s (\<lambda>renewed.
     (Inr receipt, s\<lparr>as_claims := AList.update (art_id a) renewed (as_claims s),
        as_updated_at_ms := AList.update (art_id a) now (as_updated_at_ms s)\<rparr>)))))))))"

definition list_batches :: "artifact_state \<Rightarrow> string \<Rightarrow> artifact_batch list result" where
  "list_batches s artifact_id = bind_result (require_artifact s artifact_id) (\<lambda>_.
     Inr (case map_of (as_batches s) artifact_id of None \<Rightarrow> [] | Some bs \<Rightarrow> bs))"

text \<open>The artifact leaves the open state and its claim is dropped.\<close>

definition settle_artifact :: "artifact_state \<Rightarrow> artifact_record \<Rightarrow> int \<Rightarrow> artifact_record result \<times> artifact_state" where
  "settle_artifact s settled now =
     (Inr settled, s\<lparr>as_artifacts := AList.update (art_id settled) settled (as_artifacts s),
        as_claims := AList.delete (art_id settled) (as_claims s),
        as_updated_at_ms := AList.update (art_id settled) now (as_updated_at_ms s)\<rparr>)"

definition finalize_artifact ::
    "artifact_state \<Rightarrow> artifact_finalize_command \<Rightarrow> string \<Rightarrow> int \<Rightarrow> artifact_record result \<times> artifact_state" where
  "finalize_artifact s c digest now =
     read_op (require_artifact s (afc_artifact_id c)) s (\<lambda>a.
     read_op (require_open a) s (\<lambda>_.
     read_op (require_revision a (afc_expected_revision c)) s (\<lambda>_.
     read_op (require_write_claim s a (afc_write_lease c) now) s (\<lambda>_.
     settle_artifact s (a\<lparr>art_status := Artifact_FINALIZED, art_revision := art_revision a + 1,
       art_resource_ref := afc_resource_ref c, art_coverage_digest := optional_text (Some digest)\<rparr>) now))))"

definition abort_artifact ::
    "artifact_state \<Rightarrow> string \<Rightarrow> int \<Rightarrow> artifact_mutation_lease \<Rightarrow> int \<Rightarrow> artifact_record result \<times> artifact_state" where
  "abort_artifact s artifact_id expected_revision lease now =
     read_op (require_artifact s artifact_id) s (\<lambda>a.
     read_op (require_open a) s (\<lambda>_.
     read_op (require_revision a expected_revision) s (\<lambda>_.
     read_op (require_write_claim s a lease now) s (\<lambda>_.
     settle_artifact s (a\<lparr>art_status := Artifact_ABORTED, art_revision := art_revision a + 1\<rparr>) now))))"

section \<open>Claims\<close>

definition acquire_claim ::
    "artifact_state \<Rightarrow> artifact_write_claim_command \<Rightarrow> string \<Rightarrow> int \<Rightarrow> artifact_write_claim result \<times> artifact_state" where
  "acquire_claim s c token now =
     read_op (require_artifact s (awc_artifact_id c)) s (\<lambda>a.
     read_op (require_open a) s (\<lambda>_.
     read_op (require_revision a (awc_expected_revision c)) s (\<lambda>_.
     case active_claim s (art_id a) now of
       Some current \<Rightarrow>
         if clm_run_id current = awc_run_id c \<and> clm_acquired_revision current = awc_expected_revision c then (Inr current, s)
         else (Inl (ArtifactConflictError ''artifact_write_claim_conflict'' ''artifact already has an active writer''), s)
     | None \<Rightarrow>
       read_op (ArtifactWriteClaim_post_init \<lparr>clm_artifact_id = art_id a, clm_run_id = awc_run_id c,
         clm_claim_token = token, clm_acquired_revision = art_revision a,
         clm_expires_at_ms = now + awc_lease_duration_ms c\<rparr>) s (\<lambda>claim.
       (Inr claim, s\<lparr>as_claims := AList.update (art_id a) claim (as_claims s)\<rparr>)))))"

definition load_active :: "artifact_state \<Rightarrow> string \<Rightarrow> int \<Rightarrow> artifact_write_claim option" where
  "load_active s artifact_id now = active_claim s (strip artifact_id) now"

definition renew_claim ::
    "artifact_state \<Rightarrow> artifact_claim_lease_command \<Rightarrow> int \<Rightarrow> artifact_write_claim result \<times> artifact_state" where
  "renew_claim s c now =
     (case acl_lease_duration_ms c of
        None \<Rightarrow> (Inl (ValueError ''claim renewal requires lease_duration_ms''), s)
      | Some duration \<Rightarrow>
        read_op (require_artifact s (acl_artifact_id c)) s (\<lambda>a.
        read_op (require_claim_command s a c now) s (\<lambda>claim.
        read_op (ArtifactWriteClaim_post_init (claim\<lparr>clm_expires_at_ms := now + duration\<rparr>)) s (\<lambda>renewed.
        (Inr renewed, s\<lparr>as_claims := AList.update (art_id a) renewed (as_claims s)\<rparr>)))))"

definition release_claim :: "artifact_state \<Rightarrow> artifact_claim_lease_command \<Rightarrow> bool result \<times> artifact_state" where
  "release_claim s c =
     (if acl_lease_duration_ms c \<noteq> None then (Inl (ValueError ''claim release cannot include lease_duration_ms''), s)
      else case map_of (as_claims s) (acl_artifact_id c) of
          None \<Rightarrow> (Inr False, s)
        | Some claim \<Rightarrow> if clm_run_id claim \<noteq> acl_run_id c \<or> clm_claim_token claim \<noteq> acl_claim_token c then (Inr False, s)
            else (Inr True, s\<lparr>as_claims := AList.delete (acl_artifact_id c) (as_claims s)\<rparr>))"

definition release_for_run :: "artifact_state \<Rightarrow> string \<Rightarrow> int result \<times> artifact_state" where
  "release_for_run s run_id = read_op (required_text run_id ''claim Run id'') s (\<lambda>run.
     (Inr (int (length (filter (\<lambda>(i, c). clm_run_id c = run) (as_claims s)))),
      s\<lparr>as_claims := filter (\<lambda>(i, c). clm_run_id c \<noteq> run) (as_claims s)\<rparr>))"

section \<open>Maintenance\<close>

datatype claim_fate = Fate_EXPIRED | Fate_UNAVAILABLE | Fate_INVALID | Fate_KEPT

definition target_invalid :: "artifact_record option \<Rightarrow> artifact_write_claim \<Rightarrow> bool" where
  "target_invalid a c \<longleftrightarrow> (case a of None \<Rightarrow> True
     | Some a \<Rightarrow> art_status a \<noteq> Artifact_OPEN \<or> art_revision a \<noteq> clm_acquired_revision c)"

definition claim_fate_of :: "(string \<Rightarrow> bool) \<Rightarrow> artifact_state \<Rightarrow> int \<Rightarrow> string \<times> artifact_write_claim \<Rightarrow> claim_fate" where
  "claim_fate_of available s now = (\<lambda>(i, c).
     if clm_expires_at_ms c \<le> now then Fate_EXPIRED
     else if \<not> available (clm_run_id c) then Fate_UNAVAILABLE
     else if target_invalid (map_of (as_artifacts s) i) c then Fate_INVALID
     else Fate_KEPT)"

definition fate_count :: "(string \<Rightarrow> bool) \<Rightarrow> artifact_state \<Rightarrow> int \<Rightarrow> claim_fate \<Rightarrow> int" where
  "fate_count available s now fate = int (length (filter (\<lambda>e. claim_fate_of available s now e = fate) (as_claims s)))"

text \<open>\<open>sorted((updated, artifact_id) for \<dots>)\<close>: by time, then by identity.\<close>

definition purge_candidates :: "artifact_state \<Rightarrow> int \<Rightarrow> (int \<times> string) list result" where
  "purge_candidates s cutoff =
     bind_result (filter_result (\<lambda>(i, updated). case map_of (as_artifacts s) i of
         None \<Rightarrow> Inl (KeyError i) | Some a \<Rightarrow> Inr (art_status a \<noteq> Artifact_OPEN \<and> updated \<le> cutoff))
       (as_updated_at_ms s)) (\<lambda>entries.
     Inr (sort_key fst (sort_key snd (map (\<lambda>(i, updated). (updated, i)) entries))))"

fun purge_all :: "artifact_state \<Rightarrow> string list \<Rightarrow> unit result \<times> artifact_state" where
  "purge_all s [] = (Inr (), s)"
| "purge_all s (i # is) = bind_op (purge_artifact s i) (\<lambda>_ s. purge_all s is)"

definition maintain ::
    "(string \<Rightarrow> bool) \<Rightarrow> artifact_state \<Rightarrow> artifact_maintenance_policy \<Rightarrow> int \<Rightarrow> artifact_maintenance_report result \<times> artifact_state" where
  "maintain available s policy now =
     (let expired = fate_count available s now Fate_EXPIRED; unavailable = fate_count available s now Fate_UNAVAILABLE;
          invalid = fate_count available s now Fate_INVALID;
          s = s\<lparr>as_claims := filter (\<lambda>e. claim_fate_of available s now e = Fate_KEPT) (as_claims s)\<rparr>;
          report = (\<lambda>purged s. read_op (ArtifactMaintenanceReport_post_init \<lparr>amr_expired_claims_released = expired,
            amr_unavailable_run_claims_released = unavailable, amr_invalid_target_claims_released = invalid,
            amr_purged_artifacts = purged, amr_consistency_issues = 0\<rparr>) s (\<lambda>r. (Inr r, s)))
      in case amp_terminal_retention_ms policy of
           None \<Rightarrow> report 0 s
         | Some retention \<Rightarrow>
             read_op (purge_candidates s (now - retention)) s (\<lambda>candidates.
             let ids = map snd (take (nat (amp_max_purge_artifacts policy)) candidates) in
             bind_op (purge_all s ids) (\<lambda>_ s. report (int (length ids)) s)))"

definition inspect ::
    "(string \<Rightarrow> bool) \<Rightarrow> artifact_state \<Rightarrow> string option \<Rightarrow> int \<Rightarrow> artifact_maintenance_snapshot result" where
  "inspect available s run_id now =
     (let run = optional_text run_id;
          artifacts = filter (\<lambda>a. case run of None \<Rightarrow> True | Some r \<Rightarrow> art_created_by_run_id a = r
            \<or> (case map_of (as_claims s) (art_id a) of None \<Rightarrow> False | Some c \<Rightarrow> clm_run_id c = r)) (dict_values (as_artifacts s));
          claims = filter (\<lambda>c. case run of None \<Rightarrow> True | Some r \<Rightarrow> clm_run_id c = r) (dict_values (as_claims s));
          expired = int (length (filter (\<lambda>c. clm_expires_at_ms c \<le> now) claims));
          unavailable = int (length (filter (\<lambda>c. clm_expires_at_ms c > now \<and> \<not> available (clm_run_id c)) claims));
          invalid = int (length (filter (\<lambda>c. clm_expires_at_ms c > now \<and> available (clm_run_id c)
            \<and> target_invalid (map_of (as_artifacts s) (clm_artifact_id c)) c) claims));
          having = (\<lambda>st. int (length (filter (\<lambda>a. art_status a = st) artifacts)))
      in ArtifactMaintenanceSnapshot_post_init \<lparr>ams_checked_at_ms = now, ams_scope_run_id = run,
           ams_open_artifacts = having Artifact_OPEN, ams_finalized_artifacts = having Artifact_FINALIZED,
           ams_aborted_artifacts = having Artifact_ABORTED, ams_unknown_artifacts = 0,
           ams_active_claims = int (length claims) - expired - unavailable - invalid, ams_expired_claims = expired,
           ams_unavailable_run_claims = unavailable, ams_invalid_target_claims = invalid, ams_consistency_issues = 0\<rparr>)"

end
