(* ===== verification/Artifact_Laws.thy ===== *)
theory Artifact_Laws
  imports Artifact_Store "HOL-Library.Sublist" "HOL-Library.Multiset"
begin

text \<open>
  The invariant of the artifact store, the order in which its states follow one another, and what
  every operation does to both. The operations are reduced to six changes of the state: a new
  artifact, a committed batch, a settled artifact, a new claim, fewer claims, and a purge.
\<close>

section \<open>The invariant of the store\<close>

abbreviation batches_of :: "artifact_state \<Rightarrow> string \<Rightarrow> artifact_batch list" where
  "batches_of s i \<equiv> (case map_of (as_batches s) i of None \<Rightarrow> [] | Some bs \<Rightarrow> bs)"

text \<open>
  The record of an artifact is a summary of its batches: they are numbered without a gap, every
  commit and the final settlement count as one revision, and the items are counted.
\<close>

definition artifact_ok :: "artifact_record \<Rightarrow> artifact_batch list \<Rightarrow> bool" where
  "artifact_ok a bs \<longleftrightarrow> clean_id (art_id a)
     \<and> map abt_sequence bs = [1..int (length bs)]
     \<and> art_next_sequence a = int (length bs) + 1
     \<and> art_revision a = 1 + int (length bs) + (if art_status a = Artifact_OPEN then 0 else 1)
     \<and> art_committed_item_count a = sum_list (map (\<lambda>b. int (length (abt_items b))) bs)
     \<and> (\<forall>b \<in> set bs. abt_artifact_id b = art_id a \<and> abt_committed_revision b = abt_sequence b + 1 \<and> abt_items b \<noteq> [])
     \<and> distinct (map abt_idempotency_key bs)"

text \<open>The receipt that a committed batch has been given.\<close>

definition receipt_of :: "artifact_batch \<Rightarrow> artifact_batch_receipt" where
  "receipt_of b = \<lparr>abr_artifact_id = abt_artifact_id b, abr_batch_id = abt_batch_id b, abr_sequence = abt_sequence b,
     abr_committed_revision = abt_committed_revision b, abr_next_sequence = abt_sequence b + 1,
     abr_accepted_count = int (length (abt_items b)), abr_replayed = False\<rparr>"

definition batch_with :: "artifact_state \<Rightarrow> string \<times> string \<Rightarrow> artifact_batch option" where
  "batch_with s k = find (\<lambda>b. abt_idempotency_key b = snd k) (batches_of s (fst k))"

definition artifact_entry_ok :: "artifact_state \<Rightarrow> string \<Rightarrow> artifact_record \<Rightarrow> bool" where
  "artifact_entry_ok s i a \<longleftrightarrow> art_id a = i \<and> artifact_ok a (batches_of s i)
     \<and> map_of (as_owners s) (artifact_key a) = Some i"

definition claim_ok :: "artifact_state \<Rightarrow> string \<Rightarrow> artifact_write_claim \<Rightarrow> bool" where
  "claim_ok s i c \<longleftrightarrow> clm_artifact_id c = i \<and> clean_id (clm_run_id c) \<and> clean_id (clm_claim_token c)
     \<and> (\<exists>a. map_of (as_artifacts s) i = Some a \<and> art_status a = Artifact_OPEN \<and> clm_acquired_revision c = art_revision a)"

text \<open>A dictionary lists every key once.\<close>

definition keys_ok :: "artifact_state \<Rightarrow> bool" where
  "keys_ok s \<longleftrightarrow> distinct (map fst (as_artifacts s)) \<and> distinct (map fst (as_owners s))
     \<and> distinct (map fst (as_batches s)) \<and> distinct (map fst (as_receipts s)) \<and> distinct (map fst (as_receipt_digests s))
     \<and> distinct (map fst (as_claims s)) \<and> distinct (map fst (as_updated_at_ms s))"

definition artifacts_ok :: "artifact_state \<Rightarrow> bool" where
  "artifacts_ok s \<longleftrightarrow> keys_ok s
     \<and> (\<forall>i a. map_of (as_artifacts s) i = Some a \<longrightarrow> artifact_entry_ok s i a)
     \<and> (\<forall>k i. map_of (as_owners s) k = Some i \<longrightarrow> (\<exists>a. map_of (as_artifacts s) i = Some a \<and> artifact_key a = k))
     \<and> dom (map_of (as_batches s)) = dom (map_of (as_artifacts s))
     \<and> dom (map_of (as_updated_at_ms s)) = dom (map_of (as_artifacts s))
     \<and> (\<forall>k. map_of (as_receipts s) k = map_option receipt_of (batch_with s k))
     \<and> (\<forall>k. rel_option (\<lambda>d b. strip d = abt_content_digest b) (map_of (as_receipt_digests s) k) (batch_with s k))
     \<and> (\<forall>i c. map_of (as_claims s) i = Some c \<longrightarrow> claim_ok s i c)"

lemma artifacts_okD:
  assumes "artifacts_ok s"
  shows "keys_ok s"
    and "map_of (as_artifacts s) i = Some a \<Longrightarrow> artifact_entry_ok s i a"
    and "map_of (as_owners s) k = Some i \<Longrightarrow> \<exists>a. map_of (as_artifacts s) i = Some a \<and> artifact_key a = k"
    and "dom (map_of (as_batches s)) = dom (map_of (as_artifacts s))"
    and "dom (map_of (as_updated_at_ms s)) = dom (map_of (as_artifacts s))"
    and "map_of (as_receipts s) q = map_option receipt_of (batch_with s q)"
    and "rel_option (\<lambda>d b. strip d = abt_content_digest b) (map_of (as_receipt_digests s) q) (batch_with s q)"
    and "map_of (as_claims s) i = Some c \<Longrightarrow> claim_ok s i c"
  using assms by (simp_all add: artifacts_ok_def del: split_paired_All)

lemma artifacts_okI:
  assumes "keys_ok s"
    and "\<And>i a. map_of (as_artifacts s) i = Some a \<Longrightarrow> artifact_entry_ok s i a"
    and "\<And>k i. map_of (as_owners s) k = Some i \<Longrightarrow> \<exists>a. map_of (as_artifacts s) i = Some a \<and> artifact_key a = k"
    and "dom (map_of (as_batches s)) = dom (map_of (as_artifacts s))"
    and "dom (map_of (as_updated_at_ms s)) = dom (map_of (as_artifacts s))"
    and "\<And>k. map_of (as_receipts s) k = map_option receipt_of (batch_with s k)"
    and "\<And>k. rel_option (\<lambda>d b. strip d = abt_content_digest b) (map_of (as_receipt_digests s) k) (batch_with s k)"
    and "\<And>i c. map_of (as_claims s) i = Some c \<Longrightarrow> claim_ok s i c"
  shows "artifacts_ok s"
  using assms by (simp add: artifacts_ok_def del: split_paired_All)

lemma empty_artifacts_ok: "artifacts_ok empty_artifacts"
  by (rule artifacts_okI) (simp_all add: empty_artifacts_def keys_ok_def batch_with_def)

lemma batches_known:
  assumes "artifacts_ok s" and "map_of (as_artifacts s) i = Some a"
  obtains bs where "map_of (as_batches s) i = Some bs"
  using assms artifacts_okD(4) [OF assms(1)] by blast

lemma batches_unknown:
  assumes "artifacts_ok s" and "map_of (as_artifacts s) i = None"
  shows "map_of (as_batches s) i = None"
  using assms(2) artifacts_okD(4) [OF assms(1)] by (metis domIff)

section \<open>What a step of the store may change\<close>

text \<open>
  Between two states an artifact keeps its identity, its batches only grow at the end, its
  revision never falls and tells whether anything has changed, and a settled artifact is final.
  Receipts stay.
\<close>

definition artifact_moves :: "artifact_record \<times> artifact_batch list \<Rightarrow> artifact_record \<times> artifact_batch list \<Rightarrow> bool" where
  "artifact_moves = (\<lambda>(a, bs) (a', bs').
     a' = a\<lparr>art_status := art_status a', art_revision := art_revision a', art_next_sequence := art_next_sequence a',
       art_committed_item_count := art_committed_item_count a', art_resource_ref := art_resource_ref a',
       art_coverage_digest := art_coverage_digest a'\<rparr>
     \<and> prefix bs bs' \<and> art_revision a \<le> art_revision a'
     \<and> (art_revision a' = art_revision a \<or> art_status a \<noteq> Artifact_OPEN \<longrightarrow> a' = a \<and> bs' = bs))"

definition artifacts_advance :: "artifact_state \<Rightarrow> artifact_state \<Rightarrow> bool" where
  "artifacts_advance s s' \<longleftrightarrow>
     (\<forall>i a. map_of (as_artifacts s) i = Some a \<longrightarrow>
        (\<exists>a'. map_of (as_artifacts s') i = Some a' \<and> artifact_moves (a, batches_of s i) (a', batches_of s' i)))
     \<and> map_of (as_receipts s) \<subseteq>\<^sub>m map_of (as_receipts s') \<and> map_of (as_receipt_digests s) \<subseteq>\<^sub>m map_of (as_receipt_digests s')"

lemma artifact_moves_identity:
  assumes "artifact_moves (a, bs) (a', bs')"
  shows "art_id a' = art_id a \<and> artifact_key a' = artifact_key a \<and> art_expected_item_count a' = art_expected_item_count a"
proof -
  have "a' = a\<lparr>art_status := art_status a', art_revision := art_revision a', art_next_sequence := art_next_sequence a',
       art_committed_item_count := art_committed_item_count a', art_resource_ref := art_resource_ref a',
       art_coverage_digest := art_coverage_digest a'\<rparr>" using assms by (simp add: artifact_moves_def)
  from arg_cong [OF this, of art_id] arg_cong [OF this, of artifact_key] arg_cong [OF this, of art_expected_item_count]
  show ?thesis by (simp add: artifact_key_def)
qed

lemma artifact_moves_refl: "artifact_moves p p"
  by (cases p) (simp add: artifact_moves_def)

lemma artifact_moves_trans:
  assumes "artifact_moves p q" and "artifact_moves q r"
  shows "artifact_moves p r"
proof -
  obtain a bs b cs c ds where p: "p = (a, bs)" "q = (b, cs)" "r = (c, ds)" by (metis surj_pair)
  have b: "b = a\<lparr>art_status := art_status b, art_revision := art_revision b, art_next_sequence := art_next_sequence b,
       art_committed_item_count := art_committed_item_count b, art_resource_ref := art_resource_ref b,
       art_coverage_digest := art_coverage_digest b\<rparr>"
    and c: "c = b\<lparr>art_status := art_status c, art_revision := art_revision c, art_next_sequence := art_next_sequence c,
       art_committed_item_count := art_committed_item_count c, art_resource_ref := art_resource_ref c,
       art_coverage_digest := art_coverage_digest c\<rparr>"
    and pre: "prefix bs cs" "prefix cs ds" "art_revision a \<le> art_revision b" "art_revision b \<le> art_revision c"
    and same: "art_revision b = art_revision a \<or> art_status a \<noteq> Artifact_OPEN \<Longrightarrow> b = a \<and> cs = bs"
      "art_revision c = art_revision b \<or> art_status b \<noteq> Artifact_OPEN \<Longrightarrow> c = b \<and> ds = cs"
    using assms unfolding p artifact_moves_def by auto
  have "c = a\<lparr>art_status := art_status c, art_revision := art_revision c, art_next_sequence := art_next_sequence c,
       art_committed_item_count := art_committed_item_count c, art_resource_ref := art_resource_ref c,
       art_coverage_digest := art_coverage_digest c\<rparr>"
    by (subst c, subst b) simp
  moreover have "c = a \<and> ds = bs" if "art_revision c = art_revision a \<or> art_status a \<noteq> Artifact_OPEN"
    using that same pre(3,4) by (metis order_antisym)
  ultimately show ?thesis using pre unfolding p artifact_moves_def by (auto intro: prefix_order.trans)
qed

lemma artifacts_advance_refl: "artifacts_advance s s"
  by (simp add: artifacts_advance_def artifact_moves_refl)

lemma artifacts_advance_trans:
  assumes "artifacts_advance s t" and "artifacts_advance t u"
  shows "artifacts_advance s u"
  using assms unfolding artifacts_advance_def by (meson artifact_moves_trans map_le_trans)

lemma artifacts_advanceD:
  assumes "artifacts_advance s s'" and "map_of (as_artifacts s) i = Some a"
  obtains a' where "map_of (as_artifacts s') i = Some a'" and "artifact_moves (a, batches_of s i) (a', batches_of s' i)"
  using assms unfolding artifacts_advance_def by blast

lemma advanceI:
  assumes "\<And>i a. map_of (as_artifacts s) i = Some a \<Longrightarrow>
        \<exists>a'. map_of (as_artifacts s') i = Some a' \<and> artifact_moves (a, batches_of s i) (a', batches_of s' i)"
    and "map_of (as_receipts s) \<subseteq>\<^sub>m map_of (as_receipts s')" and "map_of (as_receipt_digests s) \<subseteq>\<^sub>m map_of (as_receipt_digests s')"
  shows "artifacts_advance s s'"
  using assms by (simp add: artifacts_advance_def)

definition artifact_step :: "artifact_state \<Rightarrow> artifact_state \<Rightarrow> bool" where
  "artifact_step s s' \<longleftrightarrow> artifacts_ok s' \<and> artifacts_advance s s'"

lemma artifact_step_refl: "artifacts_ok s \<Longrightarrow> artifact_step s s"
  by (simp add: artifact_step_def artifacts_advance_refl)

section \<open>The changes the store makes\<close>

lemma delete_lookup [simp]: "map_of (AList.delete k d) = (map_of d)(k := None)"
  by (rule delete_conv')

lemma keys_update [simp]: "distinct (map fst d) \<Longrightarrow> distinct (map fst (AList.update k v d))"
  by (rule distinct_update)

lemma keys_delete [simp]: "distinct (map fst d) \<Longrightarrow> distinct (map fst (AList.delete k d))"
  by (rule distinct_delete)

text \<open>Changing the claims alone.\<close>

lemma claims_step:
  assumes ok: "artifacts_ok s" and d: "distinct (map fst cl)" and c: "\<And>i c. map_of cl i = Some c \<Longrightarrow> claim_ok s i c"
  shows "artifact_step s (s\<lparr>as_claims := cl\<rparr>)"
proof -
  note D = artifacts_okD [OF ok]
  have "artifacts_ok (s\<lparr>as_claims := cl\<rparr>)"
    using D(1-7) d c
    by (intro artifacts_okI) (simp_all add: keys_ok_def artifact_entry_ok_def claim_ok_def batch_with_def)
  moreover have "artifacts_advance s (s\<lparr>as_claims := cl\<rparr>)"
    by (rule advanceI) (simp_all add: artifact_moves_refl)
  ultimately show ?thesis by (simp add: artifact_step_def)
qed

lemma fewer_claims_step:
  assumes ok: "artifacts_ok s" and d: "distinct (map fst cl)" and sub: "map_of cl \<subseteq>\<^sub>m map_of (as_claims s)"
  shows "artifact_step s (s\<lparr>as_claims := cl\<rparr>)"
  using artifacts_okD(8) [OF ok] map_leD [OF sub] by (intro claims_step [OF ok d]) simp

lemma filtered_claims_step:
  assumes ok: "artifacts_ok s"
  shows "artifact_step s (s\<lparr>as_claims := filter P (as_claims s)\<rparr>)"
  using artifacts_okD(1) [OF ok]
  by (intro fewer_claims_step [OF ok])
     (auto simp: keys_ok_def map_of_filter_entries map_le_def intro: distinct_keys_filter split: option.splits)

lemma dropped_claim_step:
  assumes ok: "artifacts_ok s"
  shows "artifact_step s (s\<lparr>as_claims := AList.delete i (as_claims s)\<rparr>)"
  using artifacts_okD(1) [OF ok]
  by (intro fewer_claims_step [OF ok]) (auto simp: keys_ok_def map_le_def)

lemma new_claim_step:
  assumes ok: "artifacts_ok s" and c: "claim_ok s i c"
  shows "artifact_step s (s\<lparr>as_claims := AList.update i c (as_claims s)\<rparr>)"
  using artifacts_okD(1,8) [OF ok] c by (intro claims_step [OF ok]) (auto simp: keys_ok_def split: if_splits)

text \<open>A new artifact.\<close>

lemma new_artifact_step:
  assumes ok: "artifacts_ok s" and new: "map_of (as_artifacts s) i = None" and a: "art_id a = i" "artifact_ok a []"
    and k: "map_of (as_owners s) (artifact_key a) = None"
  shows "artifact_step s (s\<lparr>as_artifacts := AList.update i a (as_artifacts s),
      as_owners := AList.update (artifact_key a) i (as_owners s), as_batches := AList.update i [] (as_batches s),
      as_updated_at_ms := AList.update i now (as_updated_at_ms s)\<rparr>)" (is "artifact_step s ?t")
proof -
  note D = artifacts_okD [OF ok]
  have bn: "map_of (as_batches s) i = None" by (rule batches_unknown [OF ok new])
  have bs: "batches_of ?t j = batches_of s j" for j using bn by simp
  then have bw: "batch_with ?t q = batch_with s q" for q by (simp add: batch_with_def)
  have "artifacts_ok ?t"
  proof (rule artifacts_okI)
    show "keys_ok ?t" using D(1) by (simp add: keys_ok_def)
    show "artifact_entry_ok ?t j b" if "map_of (as_artifacts ?t) j = Some b" for j b
    proof (cases "j = i")
      case True
      then show ?thesis using that a bn by (auto simp: artifact_entry_ok_def)
    next
      case False
      then have e: "artifact_entry_ok s j b" using that D(2) by simp
      then have "artifact_key b \<noteq> artifact_key a" using k by (auto simp: artifact_entry_ok_def)
      then show ?thesis using e False by (simp add: artifact_entry_ok_def)
    qed
    show "\<exists>b. map_of (as_artifacts ?t) j = Some b \<and> artifact_key b = q" if own: "map_of (as_owners ?t) q = Some j" for q j
    proof (cases "q = artifact_key a")
      case True
      then show ?thesis using own by simp
    next
      case False
      then obtain b where "map_of (as_artifacts s) j = Some b" "artifact_key b = q" using own D(3) [of q j] by auto
      then show ?thesis using new by auto
    qed
    show "dom (map_of (as_batches ?t)) = dom (map_of (as_artifacts ?t))"
      "dom (map_of (as_updated_at_ms ?t)) = dom (map_of (as_artifacts ?t))" using D(4,5) by simp_all
    show "map_of (as_receipts ?t) q = map_option receipt_of (batch_with ?t q)" for q using D(6) bw by simp
    show "rel_option (\<lambda>d b. strip d = abt_content_digest b) (map_of (as_receipt_digests ?t) q) (batch_with ?t q)" for q
      using D(7) bw by simp
    show "claim_ok ?t j c" if "map_of (as_claims ?t) j = Some c" for j c
      using D(8) that new by (fastforce simp: claim_ok_def)
  qed
  moreover have "artifacts_advance s ?t"
    using new bn by (intro advanceI) (auto simp: artifact_moves_refl)
  ultimately show ?thesis by (simp add: artifact_step_def)
qed

text \<open>An artifact leaves the open state.\<close>

lemma settle_step:
  assumes ok: "artifacts_ok s" and a: "map_of (as_artifacts s) i = Some a" "art_status a = Artifact_OPEN"
    and st: "st \<noteq> Artifact_OPEN"
    and b: "b = a\<lparr>art_status := st, art_revision := art_revision a + 1, art_resource_ref := r, art_coverage_digest := d\<rparr>"
  shows "artifact_step s (snd (settle_artifact s b now))" (is "artifact_step s ?t")
proof -
  note D = artifacts_okD [OF ok]
  have e: "art_id a = i" "artifact_ok a (batches_of s i)" "map_of (as_owners s) (artifact_key a) = Some i"
    using D(2) [OF a(1)] by (auto simp: artifact_entry_ok_def)
  have b': "art_id b = art_id a" "artifact_key b = artifact_key a" "art_next_sequence b = art_next_sequence a"
    "art_committed_item_count b = art_committed_item_count a" by (simp_all add: b artifact_key_def)
  have t: "?t = s\<lparr>as_artifacts := AList.update i b (as_artifacts s), as_claims := AList.delete i (as_claims s),
      as_updated_at_ms := AList.update i now (as_updated_at_ms s)\<rparr>" by (simp add: settle_artifact_def b'(1) e(1))
  have bok: "artifact_ok b (batches_of s i)" using e(2) a(2) st by (simp add: artifact_ok_def b)
  have "artifacts_ok ?t"
  proof (rule artifacts_okI)
    show "keys_ok ?t" using D(1) by (simp add: keys_ok_def t)
    show "artifact_entry_ok ?t j c" if "map_of (as_artifacts ?t) j = Some c" for j c
      using that D(2) [of j c] bok e b' by (auto simp: t artifact_entry_ok_def split: if_splits)
    show "\<exists>c. map_of (as_artifacts ?t) j = Some c \<and> artifact_key c = q" if "map_of (as_owners ?t) q = Some j" for q j
      using that D(3) [of q j] a(1) b'(2) by (auto simp: t)
    show "dom (map_of (as_batches ?t)) = dom (map_of (as_artifacts ?t))"
      "dom (map_of (as_updated_at_ms ?t)) = dom (map_of (as_artifacts ?t))" using D(4,5) a(1) by (auto simp: t)
    show "map_of (as_receipts ?t) q = map_option receipt_of (batch_with ?t q)" for q using D(6) by (simp add: t batch_with_def)
    show "rel_option (\<lambda>d b. strip d = abt_content_digest b) (map_of (as_receipt_digests ?t) q) (batch_with ?t q)" for q
      using D(7) by (simp add: t batch_with_def)
    show "claim_ok ?t j c" if "map_of (as_claims ?t) j = Some c" for j c
      using that D(8) [of j c] by (auto simp: t claim_ok_def split: if_splits)
  qed
  moreover have "artifacts_advance s ?t"
  proof (rule advanceI)
    fix j c assume c: "map_of (as_artifacts s) j = Some c"
    have "artifact_moves (a, batches_of s i) (b, batches_of s i)"
      using a(2) by (simp add: artifact_moves_def b)
    then show "\<exists>c'. map_of (as_artifacts ?t) j = Some c' \<and> artifact_moves (c, batches_of s j) (c', batches_of ?t j)"
      using c a(1) by (auto simp: t artifact_moves_refl)
  qed (simp_all add: t)
  ultimately show ?thesis by (simp add: artifact_step_def)
qed

text \<open>A batch is committed and the claim that allowed it is renewed.\<close>

lemma find_append: "find P (xs @ ys) = (case find P xs of None \<Rightarrow> find P ys | Some x \<Rightarrow> Some x)"
  by (induction xs) auto

definition committed :: "artifact_record \<Rightarrow> artifact_batch \<Rightarrow> artifact_record" where
  "committed a b = a\<lparr>art_revision := art_revision a + 1, art_next_sequence := abt_sequence b + 1,
     art_committed_item_count := art_committed_item_count a + int (length (abt_items b))\<rparr>"

definition commit_batch ::
    "artifact_state \<Rightarrow> artifact_record \<Rightarrow> artifact_batch \<Rightarrow> string \<Rightarrow> artifact_write_claim \<Rightarrow> int \<Rightarrow> artifact_state" where
  "commit_batch s a b d c now = s\<lparr>as_batches := AList.update (art_id a) (batches_of s (art_id a) @ [b]) (as_batches s),
     as_receipts := AList.update (art_id a, abt_idempotency_key b) (receipt_of b) (as_receipts s),
     as_receipt_digests := AList.update (art_id a, abt_idempotency_key b) d (as_receipt_digests s),
     as_artifacts := AList.update (art_id a) (committed a b) (as_artifacts s),
     as_claims := AList.update (art_id a) c (as_claims s), as_updated_at_ms := AList.update (art_id a) now (as_updated_at_ms s)\<rparr>"

lemma upto_snoc: "0 \<le> n \<Longrightarrow> [1..n + 1] = [1..n] @ [n + 1 :: int]"
  by (simp add: upto_rec2)

lemma committed_ok:
  assumes "artifact_ok a bs" and "art_status a = Artifact_OPEN"
    and "abt_artifact_id b = art_id a" and "abt_sequence b = art_next_sequence a"
    and "abt_committed_revision b = art_revision a + 1" and "abt_items b \<noteq> []"
    and "abt_idempotency_key b \<notin> set (map abt_idempotency_key bs)"
  shows "artifact_ok (committed a b) (bs @ [b])"
  using assms upto_snoc [of "int (length bs)"] by (simp add: artifact_ok_def committed_def add.commute)

lemma commit_step:
  assumes ok: "artifacts_ok s" and a: "map_of (as_artifacts s) i = Some a" "art_status a = Artifact_OPEN"
    and b: "abt_artifact_id b = i" "abt_sequence b = art_next_sequence a" "abt_committed_revision b = art_revision a + 1"
      "abt_items b \<noteq> []" "abt_content_digest b = strip d"
    and fresh: "map_of (as_receipts s) (i, abt_idempotency_key b) = None"
    and c: "clm_artifact_id c = i" "clean_id (clm_run_id c)" "clean_id (clm_claim_token c)" "clm_acquired_revision c = art_revision a + 1"
  shows "artifact_step s (commit_batch s a b d c now)" (is "artifact_step s ?t")
proof -
  note D = artifacts_okD [OF ok]
  have e: "art_id a = i" "artifact_ok a (batches_of s i)" "map_of (as_owners s) (artifact_key a) = Some i"
    using D(2) [OF a(1)] by (auto simp: artifact_entry_ok_def)
  have nob: "batch_with s (i, abt_idempotency_key b) = None" using fresh D(6) by simp
  then have nk: "abt_idempotency_key b \<notin> set (map abt_idempotency_key (batches_of s i))"
    by (auto simp: batch_with_def find_None_iff)
  have cok: "artifact_ok (committed a b) (batches_of s i @ [b])"
    by (rule committed_ok [OF e(2) a(2) _ _ _ _ nk]) (simp_all add: b e)
  have cm: "art_id (committed a b) = i" "artifact_key (committed a b) = artifact_key a"
    "art_revision (committed a b) = art_revision a + 1" "art_status (committed a b) = Artifact_OPEN"
    using e(1) a(2) by (simp_all add: committed_def artifact_key_def)
  have bs: "batches_of ?t j = (if j = i then batches_of s i @ [b] else batches_of s j)" for j
    by (simp add: commit_batch_def e(1))
  have bw: "batch_with ?t q = (if q = (i, abt_idempotency_key b) then Some b else batch_with s q)" for q
    using nob unfolding batch_with_def bs by (cases q) (auto simp: find_append split: option.splits)
  have "artifacts_ok ?t"
  proof (rule artifacts_okI)
    show "keys_ok ?t" using D(1) by (simp add: keys_ok_def commit_batch_def)
    show "artifact_entry_ok ?t j x" if "map_of (as_artifacts ?t) j = Some x" for j x
      using that D(2) [of j x] cok cm e by (auto simp: bs artifact_entry_ok_def commit_batch_def split: if_splits)
    show "\<exists>x. map_of (as_artifacts ?t) j = Some x \<and> artifact_key x = q" if "map_of (as_owners ?t) q = Some j" for q j
      using that D(3) [of q j] a(1) cm(2) by (auto simp: commit_batch_def e(1))
    show "dom (map_of (as_batches ?t)) = dom (map_of (as_artifacts ?t))"
      "dom (map_of (as_updated_at_ms ?t)) = dom (map_of (as_artifacts ?t))" using D(4,5) by (simp_all add: commit_batch_def)
    show "map_of (as_receipts ?t) q = map_option receipt_of (batch_with ?t q)" for q
      using D(6) [of q] by (simp add: bw) (simp add: commit_batch_def e(1))
    show "rel_option (\<lambda>d b. strip d = abt_content_digest b) (map_of (as_receipt_digests ?t) q) (batch_with ?t q)" for q
      using D(7) [of q] b(5) by (simp add: bw) (simp add: commit_batch_def e(1))
    show "claim_ok ?t j x" if "map_of (as_claims ?t) j = Some x" for j x
      using that D(8) [of j x] c cm by (auto simp: claim_ok_def commit_batch_def e(1) split: if_splits)
  qed
  moreover have "artifacts_advance s ?t"
  proof (rule advanceI)
    have "artifact_moves (a, batches_of s i) (committed a b, batches_of s i @ [b])"
      using a(2) by (simp add: artifact_moves_def committed_def)
    then show "\<exists>x'. map_of (as_artifacts ?t) j = Some x' \<and> artifact_moves (x, batches_of s j) (x', batches_of ?t j)"
      if "map_of (as_artifacts s) j = Some x" for j x
      using that a(1) unfolding bs by (auto simp: artifact_moves_refl commit_batch_def e(1))
    have "map_of (as_receipt_digests s) (i, abt_idempotency_key b) = None"
      using D(7) [of "(i, abt_idempotency_key b)"] nob by simp
    then show "map_of (as_receipt_digests s) \<subseteq>\<^sub>m map_of (as_receipt_digests ?t)"
      by (auto simp: map_le_def commit_batch_def e(1))
    show "map_of (as_receipts s) \<subseteq>\<^sub>m map_of (as_receipts ?t)"
      using fresh by (auto simp: map_le_def commit_batch_def e(1))
  qed
  ultimately show ?thesis by (simp add: artifact_step_def)
qed

text \<open>Purging takes an artifact away with everything that belongs to it, and nothing else.\<close>

lemma purge_value:
  assumes ok: "artifacts_ok s" and a: "map_of (as_artifacts s) i = Some a"
  shows "fst (purge_artifact s i) = Inr ()"
    and "map_of (as_artifacts (snd (purge_artifact s i))) = (map_of (as_artifacts s))(i := None)"
    and "map_of (as_owners (snd (purge_artifact s i))) = (map_of (as_owners s))(artifact_key a := None)"
    and "map_of (as_batches (snd (purge_artifact s i))) = (map_of (as_batches s))(i := None)"
    and "map_of (as_claims (snd (purge_artifact s i))) = (map_of (as_claims s))(i := None)"
    and "map_of (as_updated_at_ms (snd (purge_artifact s i))) = (map_of (as_updated_at_ms s))(i := None)"
    and "map_of (as_receipts (snd (purge_artifact s i))) = (\<lambda>k. if fst k = i then None else map_of (as_receipts s) k)"
    and "map_of (as_receipt_digests (snd (purge_artifact s i))) = (\<lambda>k. if fst k = i then None else map_of (as_receipt_digests s) k)"
proof -
  note D = artifacts_okD [OF ok]
  show "fst (purge_artifact s i) = Inr ()" "map_of (as_artifacts (snd (purge_artifact s i))) = (map_of (as_artifacts s))(i := None)"
    "map_of (as_owners (snd (purge_artifact s i))) = (map_of (as_owners s))(artifact_key a := None)"
    "map_of (as_batches (snd (purge_artifact s i))) = (map_of (as_batches s))(i := None)"
    "map_of (as_claims (snd (purge_artifact s i))) = (map_of (as_claims s))(i := None)"
    "map_of (as_updated_at_ms (snd (purge_artifact s i))) = (map_of (as_updated_at_ms s))(i := None)"
    using a by (simp_all add: purge_artifact_def)
  show "map_of (as_receipts (snd (purge_artifact s i))) = (\<lambda>k. if fst k = i then None else map_of (as_receipts s) k)"
    using a by (simp add: purge_artifact_def map_of_filter_keys [where P = "\<lambda>k. fst k \<noteq> i"] fun_eq_iff)
  have same: "k \<in> fst ` set (as_receipts s) \<longleftrightarrow> map_of (as_receipt_digests s) k \<noteq> None" for k
  proof -
    have "map_of (as_receipts s) k \<noteq> None \<longleftrightarrow> map_of (as_receipt_digests s) k \<noteq> None"
      using D(6) [of k] D(7) [of k] by (cases "batch_with s k"; cases "map_of (as_receipt_digests s) k") auto
    then show ?thesis by (simp add: map_of_eq_None_iff)
  qed
  have eq: "as_receipt_digests (snd (purge_artifact s i))
      = filter (\<lambda>(k, d). fst k \<noteq> i \<or> k \<notin> fst ` set (as_receipts s)) (as_receipt_digests s)"
    using a by (simp add: purge_artifact_def)
  have "map_of (as_receipt_digests (snd (purge_artifact s i)))
      = (\<lambda>k. if fst k \<noteq> i \<or> k \<notin> fst ` set (as_receipts s) then map_of (as_receipt_digests s) k else None)"
    unfolding eq by (rule map_of_filter_keys)
  then show "map_of (as_receipt_digests (snd (purge_artifact s i))) = (\<lambda>k. if fst k = i then None else map_of (as_receipt_digests s) k)"
    using same by (auto simp: fun_eq_iff)
qed

lemma purge_ok:
  assumes ok: "artifacts_ok s" and a: "map_of (as_artifacts s) i = Some a"
  shows "artifacts_ok (snd (purge_artifact s i))" (is "artifacts_ok ?t")
proof -
  note D = artifacts_okD [OF ok]
  note V = purge_value [OF ok a]
  have bw: "batch_with ?t q = (if fst q = i then None else batch_with s q)" for q by (simp add: batch_with_def V)
  have key: "map_of (as_owners s) (artifact_key a) = Some i" using D(2) [OF a] by (simp add: artifact_entry_ok_def)
  show ?thesis
  proof (rule artifacts_okI)
    show "keys_ok ?t" using D(1) a by (auto simp: keys_ok_def purge_artifact_def intro: distinct_keys_filter)
    show "artifact_entry_ok ?t j x" if "map_of (as_artifacts ?t) j = Some x" for j x
      using that D(2) [of j x] key by (auto simp: V artifact_entry_ok_def split: if_splits)
    show "\<exists>x. map_of (as_artifacts ?t) j = Some x \<and> artifact_key x = q" if "map_of (as_owners ?t) q = Some j" for q j
      using that D(3) [of q j] a by (auto simp: V split: if_splits)
    show "dom (map_of (as_batches ?t)) = dom (map_of (as_artifacts ?t))"
      "dom (map_of (as_updated_at_ms ?t)) = dom (map_of (as_artifacts ?t))" using D(4,5) by (simp_all add: V)
    show "map_of (as_receipts ?t) q = map_option receipt_of (batch_with ?t q)" for q using D(6) [of q] by (simp add: V bw)
    show "rel_option (\<lambda>d b. strip d = abt_content_digest b) (map_of (as_receipt_digests ?t) q) (batch_with ?t q)" for q
      using D(7) [of q] by (simp add: V bw)
    show "claim_ok ?t j x" if "map_of (as_claims ?t) j = Some x" for j x
      using that D(8) [of j x] by (auto simp: V claim_ok_def split: if_splits)
  qed
qed

section \<open>Every operation\<close>

lemma require_artifact_Inr:
  "require_artifact s i = Inr a \<longleftrightarrow> strip i \<noteq> [] \<and> map_of (as_artifacts s) (strip i) = Some a"
  by (auto simp: require_artifact_def bind_result_Inr_iff required_text_Inr split: option.splits)

lemma require_open_Inr: "require_open a = Inr u \<longleftrightarrow> art_status a = Artifact_OPEN"
  by (simp add: require_open_def)

lemma require_revision_Inr: "require_revision a n = Inr u \<longleftrightarrow> art_revision a = n"
  by (simp add: require_revision_def)

lemma active_claim_Some: "active_claim s i now = Some c \<longleftrightarrow> map_of (as_claims s) i = Some c \<and> now < clm_expires_at_ms c"
  by (auto simp: active_claim_def split: option.splits)

lemma require_write_claim_Inr:
  "require_write_claim s a l now = Inr c \<longleftrightarrow> map_of (as_claims s) (art_id a) = Some c \<and> now < clm_expires_at_ms c
     \<and> clm_run_id c = aml_run_id l \<and> clm_claim_token c = aml_claim_token l \<and> clm_acquired_revision c = art_revision a"
  by (auto simp: require_write_claim_def active_claim_def Let_def split: option.splits if_splits)

lemmas require_Inr = require_artifact_Inr require_open_Inr require_revision_Inr require_write_claim_Inr

lemma stored_receipt_None: "stored_receipt H s c = Inr None \<longleftrightarrow> map_of (as_receipts s) (aac_artifact_id c, aac_idempotency_key c) = None"
  by (auto simp: stored_receipt_def Let_def split: option.splits)

definition lease_ok :: "artifact_mutation_lease \<Rightarrow> bool" where
  "lease_ok l \<longleftrightarrow> constructed ArtifactMutationLease_post_init l"

lemma lease_okD: "lease_ok l \<Longrightarrow> clean_id (aml_run_id l) \<and> clean_id (aml_claim_token l) \<and> 0 < aml_lease_duration_ms l"
  by (auto simp: lease_ok_def constructed_def ArtifactMutationLease_post_init_def bind_result_Inr_iff required_text_Inr
      positive_int_Inr clean_id_def dest: arg_cong [of _ _ aml_run_id] arg_cong [of _ _ aml_claim_token])

definition append_ok :: "artifact_append_command \<Rightarrow> bool" where
  "append_ok c \<longleftrightarrow> constructed ArtifactAppendCommand_post_init c \<and> lease_ok (aac_write_lease c)"

lemma append_okD:
  assumes "append_ok c"
  shows "clean_id (aac_artifact_id c)" and "clean_id (aac_batch_id c)" and "clean_id (aac_idempotency_key c)"
    and "aac_items c \<noteq> []" and "0 < aac_sequence c" and "lease_ok (aac_write_lease c)"
proof -
  have c: "ArtifactAppendCommand_post_init c = Inr c" and l: "lease_ok (aac_write_lease c)"
    using assms by (simp_all add: append_ok_def constructed_def)
  show "lease_ok (aac_write_lease c)" by (rule l)
  show "clean_id (aac_artifact_id c)" "clean_id (aac_batch_id c)" "clean_id (aac_idempotency_key c)"
      "aac_items c \<noteq> []" "0 < aac_sequence c"
    using c by (auto simp: ArtifactAppendCommand_post_init_def bind_result_Inr_iff required_text_Inr positive_int_Inr clean_id_def
        dest: arg_cong [of _ _ aac_artifact_id] arg_cong [of _ _ aac_batch_id] arg_cong [of _ _ aac_idempotency_key] split: if_splits)
qed

lemma claim_constructed:
  "clean_id (clm_artifact_id c) \<Longrightarrow> clean_id (clm_run_id c) \<Longrightarrow> clean_id (clm_claim_token c) \<Longrightarrow>
     0 < clm_acquired_revision c \<Longrightarrow> 0 < clm_expires_at_ms c \<Longrightarrow> ArtifactWriteClaim_post_init c = Inr c"
  by (cases c) (simp add: ArtifactWriteClaim_post_init_def positive_int_def)

lemma claim_post_init_Inr:
  "ArtifactWriteClaim_post_init c = Inr c' \<Longrightarrow> clean_id (clm_run_id c') \<and> clean_id (clm_claim_token c')
     \<and> clm_artifact_id c' = strip (clm_artifact_id c) \<and> clm_run_id c' = strip (clm_run_id c)
     \<and> clm_acquired_revision c' = clm_acquired_revision c \<and> clm_expires_at_ms c' = clm_expires_at_ms c"
  by (auto simp: ArtifactWriteClaim_post_init_def bind_result_Inr_iff required_text_Inr positive_int_Inr clean_id_def)

text \<open>The batch that a command asks to commit to an artifact at a revision.\<close>

definition batch_for :: "(json \<Rightarrow> string) \<Rightarrow> artifact_record \<Rightarrow> artifact_append_command \<Rightarrow> artifact_batch" where
  "batch_for H a c = \<lparr>abt_artifact_id = art_id a, abt_batch_id = aac_batch_id c, abt_idempotency_key = aac_idempotency_key c,
     abt_sequence = aac_sequence c, abt_committed_revision = art_revision a + 1, abt_items = aac_items c,
     abt_coverage_keys = aac_coverage_keys c, abt_content_digest = strip (aac_content_digest H c)\<rparr>"

definition renewed_claim :: "artifact_write_claim \<Rightarrow> artifact_record \<Rightarrow> artifact_append_command \<Rightarrow> int \<Rightarrow> artifact_write_claim" where
  "renewed_claim cl a c now = cl\<lparr>clm_acquired_revision := art_revision a + 1, clm_expires_at_ms := now + aml_lease_duration_ms (aac_write_lease c)\<rparr>"

text \<open>The three outcomes of an append: a replay, a commit or a refusal that changes nothing.\<close>

lemma append_cases:
  assumes ok: "artifacts_ok s" and c: "append_ok c" and now: "0 \<le> now"
  obtains (replay) r where "map_of (as_receipts s) (aac_artifact_id c, aac_idempotency_key c) = Some r"
      "map_of (as_receipt_digests s) (aac_artifact_id c, aac_idempotency_key c) = Some (aac_content_digest H c)"
      "append_batch H s c now = (Inr (r\<lparr>abr_replayed := True\<rparr>), s)"
  | (commit) a cl where "map_of (as_receipts s) (aac_artifact_id c, aac_idempotency_key c) = None"
      "map_of (as_artifacts s) (aac_artifact_id c) = Some a" "art_status a = Artifact_OPEN"
      "art_revision a = aac_expected_revision c" "art_next_sequence a = aac_sequence c"
      "require_write_claim s a (aac_write_lease c) now = Inr cl"
      "append_batch H s c now = (Inr (receipt_of (batch_for H a c)),
         commit_batch s a (batch_for H a c) (aac_content_digest H c) (renewed_claim cl a c now) now)"
  | (refuse) e where "append_batch H s c now = (Inl e, s)"
proof (cases "stored_receipt H s c")
  case (Inl e)
  then show thesis by (intro refuse [of e]) (simp add: append_batch_def read_op_def)
next
  case (Inr rep)
  note rep = Inr
  note D = artifacts_okD [OF ok]
  note C = append_okD [OF c]
  show thesis
  proof (cases rep)
    case (Some r)
    then show thesis using rep
      by (intro replay [of "the (map_of (as_receipts s) (aac_artifact_id c, aac_idempotency_key c))"])
         (auto simp: append_batch_def read_op_def stored_receipt_def Let_def split: option.splits if_splits)
  next
    case None
    show thesis
    proof (rule ccontr)
      assume no: "\<not> thesis"
      have inr: "fst (append_batch H s c now) \<noteq> Inl e \<or> snd (append_batch H s c now) \<noteq> s" for e
        using refuse [of e] no by (metis prod.collapse)
      obtain a where a: "require_artifact s (aac_artifact_id c) = Inr a"
        using inr rep None by (cases "require_artifact s (aac_artifact_id c)") (auto simp: append_batch_def read_op_def)
      have op: "require_open a = Inr ()"
        using inr rep None a by (cases "require_open a") (auto simp: append_batch_def read_op_def)
      have rv: "require_revision a (aac_expected_revision c) = Inr ()"
        using inr rep None a op by (cases "require_revision a (aac_expected_revision c)") (auto simp: append_batch_def read_op_def)
      have sq: "art_next_sequence a = aac_sequence c"
        using inr [of "ArtifactConflictError ''artifact_sequence_conflict'' ''artifact sequence conflicts''"] rep None a op rv
        by (rule_tac ccontr) (simp add: append_batch_def read_op_def)
      obtain cl where cl: "require_write_claim s a (aac_write_lease c) now = Inr cl"
        using inr rep None a op rv sq by (cases "require_write_claim s a (aac_write_lease c) now") (auto simp: append_batch_def read_op_def)
      have a': "map_of (as_artifacts s) (aac_artifact_id c) = Some a" using a C(1) by (simp add: require_artifact_Inr clean_id_def)
      have ai: "art_id a = aac_artifact_id c" "artifact_ok a (batches_of s (aac_artifact_id c))"
        using D(2) [OF a'] by (auto simp: artifact_entry_ok_def)
      have rpos: "0 < art_revision a + 1" using ai(2) by (auto simp: artifact_ok_def)
      obtain bs where bs: "map_of (as_batches s) (art_id a) = Some bs" using batches_known [OF ok a'] ai(1) by metis
      have co: "claim_ok s (aac_artifact_id c) cl" using cl D(8) ai(1) by (simp add: require_write_claim_Inr)
      have dig: "strip (aac_content_digest H c) \<noteq> []"
      proof
        assume "strip (aac_content_digest H c) = []"
        then have "append_batch H s c now = (Inl (ValueError ''artifact batch content_digest is required''), s)"
          using rep None a op rv sq cl C ai(1) rpos
          by (simp add: append_batch_def read_op_def ArtifactBatch_post_init_def Let_def positive_int_def required_text_def clean_id_def)
        then show False using inr [of "ValueError ''artifact batch content_digest is required''"] by simp
      qed
      have ren: "ArtifactWriteClaim_post_init (renewed_claim cl a c now) = Inr (renewed_claim cl a c now)"
        using co C(1) rpos now lease_okD [OF C(6)] by (intro claim_constructed) (auto simp: renewed_claim_def claim_ok_def)
      have "append_batch H s c now = (Inr (receipt_of (batch_for H a c)),
         commit_batch s a (batch_for H a c) (aac_content_digest H c) (renewed_claim cl a c now) now)"
        using rep None a op rv sq cl C ai(1) rpos dig bs ren [unfolded renewed_claim_def]
        by (simp add: append_batch_def read_op_def ArtifactBatch_post_init_def ArtifactBatchReceipt_post_init_def
            Let_def positive_int_def non_negative_int_def required_text_def clean_id_def
            commit_batch_def committed_def batch_for_def receipt_of_def renewed_claim_def)
      then show False using no commit [OF _ a' _ _ sq cl] rep None op rv
        by (simp add: require_Inr stored_receipt_None)
    qed
  qed
qed

lemma append_step:
  assumes ok: "artifacts_ok s" and c: "append_ok c" and now: "0 \<le> now"
  shows "artifact_step s (snd (append_batch H s c now))"
proof (cases rule: append_cases [OF ok c now, where H = H, case_names replay commit refuse])
  case (commit a cl)
  have id: "art_id a = aac_artifact_id c" using artifacts_okD(2) [OF ok commit(2)] by (simp add: artifact_entry_ok_def)
  have cl: "claim_ok s (aac_artifact_id c) cl" using commit(6) artifacts_okD(8) [OF ok] by (simp add: require_write_claim_Inr id)
  show ?thesis unfolding commit(7) snd_conv
    by (rule commit_step [OF ok commit(2,3)])
       (use commit(1,5) append_okD(4) [OF c] cl in \<open>simp_all add: batch_for_def renewed_claim_def claim_ok_def id\<close>)
qed (simp_all add: artifact_step_refl ok)

lemma settling_step:
  assumes ok: "artifacts_ok s" and "st \<noteq> Artifact_OPEN"
  shows "artifact_step s (snd (read_op (require_artifact s i) s (\<lambda>a.
     read_op (require_open a) s (\<lambda>_. read_op (require_revision a n) s (\<lambda>_. read_op (require_write_claim s a l now) s (\<lambda>_.
     settle_artifact s (a\<lparr>art_status := st, art_revision := art_revision a + 1, art_resource_ref := r a,
       art_coverage_digest := d a\<rparr>) now))))))"
  using assms
  by (auto intro!: snd_read_op [where P = "artifact_step s"] artifact_step_refl settle_step [OF ok] simp: require_Inr)

lemma finalize_artifact_step: "artifacts_ok s \<Longrightarrow> artifact_step s (snd (finalize_artifact s c d now))"
  using settling_step [where r = "\<lambda>a. afc_resource_ref c" and d = "\<lambda>a. optional_text (Some d)"]
  by (simp add: finalize_artifact_def)

lemma abort_step: "artifacts_ok s \<Longrightarrow> artifact_step s (snd (abort_artifact s i n l now))"
  using settling_step [where r = art_resource_ref and d = art_coverage_digest and st = Artifact_ABORTED and s = s and i = i and n = n and l = l and now = now]
  by (simp add: abort_artifact_def)

definition create_ok :: "artifact_create_command \<Rightarrow> bool" where
  "create_ok c \<longleftrightarrow> constructed ArtifactCreateCommand_post_init c"

lemma create_okD:
  "create_ok c \<Longrightarrow> clean_id (acc_namespace c) \<and> clean_id (acc_kind c) \<and> clean_id (acc_owner_id c) \<and> clean_id (acc_created_by_run_id c)"
  by (auto simp: create_ok_def constructed_def ArtifactCreateCommand_post_init_def bind_result_Inr_iff required_text_Inr clean_id_def
      dest: arg_cong [of _ _ acc_namespace] arg_cong [of _ _ acc_kind] arg_cong [of _ _ acc_owner_id] arg_cong [of _ _ acc_created_by_run_id])

lemma new_artifact_ok:
  assumes "create_ok c" and "ArtifactRecord_post_init (new_artifact i c) = Inr a" and "clean_id i"
  shows "art_id a = i" and "artifact_ok a []" and "artifact_key a = owner_key c" and "art_status a = Artifact_OPEN"
  using assms(2,3) create_okD [OF assms(1)]
  by (auto simp: ArtifactRecord_post_init_def new_artifact_def bind_result_Inr_iff required_text_Inr artifact_ok_def
      artifact_key_def owner_key_def clean_id_def)

lemma create_artifact_step:
  assumes ok: "artifacts_ok s" and c: "create_ok c"
  shows "artifact_step s (snd (create_artifact s i c now))"
  unfolding create_artifact_def
proof (rule snd_read_op [where P = "artifact_step s", OF artifact_step_refl [OF ok]], goal_cases)
  case (1 k)
  have k: "clean_id k" using 1 by (rule required_text_result_clean)
  show ?case
  proof (rule snd_read_op [where P = "artifact_step s", OF artifact_step_refl [OF ok]], goal_cases)
    case (1 a)
    note a = new_artifact_ok [OF c 1 k]
    have "artifact_step s (s\<lparr>as_artifacts := AList.update k a (as_artifacts s), as_owners := AList.update (owner_key c) k (as_owners s),
        as_batches := AList.update k [] (as_batches s), as_updated_at_ms := AList.update k now (as_updated_at_ms s)\<rparr>)"
      if "map_of (as_artifacts s) k = None" "map_of (as_owners s) (owner_key c) = None"
      using new_artifact_step [OF ok that(1) a(1,2), of now] that(2) a(3) by simp
    then show ?case using artifact_step_refl [OF ok] by (auto split: option.splits)
  qed
qed

lemma acquire_step:
  assumes ok: "artifacts_ok s"
  shows "artifact_step s (snd (acquire_claim s c token now))"
proof -
  have "claim_ok s (art_id a) cl" if a: "map_of (as_artifacts s) i = Some a" "art_status a = Artifact_OPEN"
    and cl: "ArtifactWriteClaim_post_init \<lparr>clm_artifact_id = art_id a, clm_run_id = run,
         clm_claim_token = token, clm_acquired_revision = art_revision a, clm_expires_at_ms = e\<rparr> = Inr cl" for i a run e cl
  proof -
    have "art_id a = i" "clean_id (art_id a)" using artifacts_okD(2) [OF ok a(1)] by (auto simp: artifact_entry_ok_def artifact_ok_def)
    then show ?thesis using claim_post_init_Inr [OF cl] a by (auto simp: claim_ok_def clean_id_def)
  qed
  then show ?thesis unfolding acquire_claim_def
    by (auto intro!: snd_read_op [where P = "artifact_step s"] artifact_step_refl [OF ok] new_claim_step [OF ok] simp: require_Inr split: option.splits)
qed

lemma require_claim_command_claim:
  "require_claim_command s a c now = Inr cl \<Longrightarrow> map_of (as_claims s) (art_id a) = Some cl"
  by (auto simp: require_claim_command_def bind_result_Inr_iff require_write_claim_Inr)

lemma renew_claim_step:
  assumes ok: "artifacts_ok s"
  shows "artifact_step s (snd (renew_claim s c now))"
proof -
  have "claim_ok s (art_id a) cl'" if cl: "require_claim_command s a c now = Inr cl"
    and cl': "ArtifactWriteClaim_post_init (cl\<lparr>clm_expires_at_ms := e\<rparr>) = Inr cl'"
    and a: "map_of (as_artifacts s) i = Some a" for a i cl e cl'
  proof -
    have "clean_id (art_id a)" using artifacts_okD(2) [OF ok a(1)] by (auto simp: artifact_entry_ok_def artifact_ok_def)
    then show ?thesis using artifacts_okD(8) [OF ok require_claim_command_claim [OF cl]] claim_post_init_Inr [OF cl']
      by (auto simp: claim_ok_def clean_id_def)
  qed
  then show ?thesis unfolding renew_claim_def
    by (auto intro!: snd_read_op [where P = "artifact_step s"] artifact_step_refl [OF ok] new_claim_step [OF ok] simp: require_artifact_Inr split: option.splits)
qed

lemma release_step: "artifacts_ok s \<Longrightarrow> artifact_step s (snd (release_claim s c))"
  by (auto simp: release_claim_def artifact_step_refl dropped_claim_step split: option.splits)

lemma release_for_run_step: "artifacts_ok s \<Longrightarrow> artifact_step s (snd (release_for_run s run))"
  unfolding release_for_run_def
  by (auto intro!: snd_read_op [where P = "artifact_step s"] artifact_step_refl filtered_claims_step)

section \<open>Maintenance\<close>

lemma updated_known:
  assumes ok: "artifacts_ok s" and u: "map_of (as_updated_at_ms s) i = Some u"
  shows "\<exists>a. map_of (as_artifacts s) i = Some a"
  using domI [of "map_of (as_updated_at_ms s)", OF u] unfolding artifacts_okD(5) [OF ok] by (rule domD)

lemma purge_candidates_value:
  assumes ok: "artifacts_ok s"
  shows "purge_candidates s cutoff = Inr (sort_key fst (sort_key snd (map (\<lambda>(i, updated). (updated, i))
    (filter (\<lambda>(i, updated). art_status (the (map_of (as_artifacts s) i)) \<noteq> Artifact_OPEN \<and> updated \<le> cutoff) (as_updated_at_ms s)))))"
proof -
  have known: "\<exists>a. map_of (as_artifacts s) i = Some a" if "(i, u) \<in> set (as_updated_at_ms s)" for i u
    by (rule updated_known [OF ok]) (use that artifacts_okD(1) [OF ok] in \<open>simp add: keys_ok_def\<close>)
  have "filter_result (\<lambda>(i, updated). case map_of (as_artifacts s) i of
      None \<Rightarrow> Inl (KeyError i) | Some a \<Rightarrow> Inr (art_status a \<noteq> Artifact_OPEN \<and> updated \<le> cutoff)) (as_updated_at_ms s)
    = Inr (filter (\<lambda>(i, updated). art_status (the (map_of (as_artifacts s) i)) \<noteq> Artifact_OPEN \<and> updated \<le> cutoff) (as_updated_at_ms s))"
  proof (rule filter_result_total)
    fix e assume e: "e \<in> set (as_updated_at_ms s)"
    obtain i u where iu: "e = (i, u)" by (cases e)
    obtain a where "map_of (as_artifacts s) i = Some a" using known [OF e [unfolded iu]] by (elim exE)
    then show "(case e of (i, updated) \<Rightarrow> case map_of (as_artifacts s) i of
        None \<Rightarrow> Inl (KeyError i) | Some a \<Rightarrow> Inr (art_status a \<noteq> Artifact_OPEN \<and> updated \<le> cutoff))
      = Inr (case e of (i, updated) \<Rightarrow> art_status (the (map_of (as_artifacts s) i)) \<noteq> Artifact_OPEN \<and> updated \<le> cutoff)"
      by (simp add: iu)
  qed
  then show ?thesis by (simp add: purge_candidates_def)
qed

definition purge_ids :: "artifact_state \<Rightarrow> int \<Rightarrow> nat \<Rightarrow> string list" where
  "purge_ids s cutoff n = map snd (take n (sort_key fst (sort_key snd (map (\<lambda>(i, updated). (updated, i))
    (filter (\<lambda>(i, updated). art_status (the (map_of (as_artifacts s) i)) \<noteq> Artifact_OPEN \<and> updated \<le> cutoff) (as_updated_at_ms s))))))"

lemma purge_idsD:
  assumes ok: "artifacts_ok s"
  shows "distinct (purge_ids s cutoff n)" and "length (purge_ids s cutoff n) \<le> n"
    and "i \<in> set (purge_ids s cutoff n) \<Longrightarrow> \<exists>a u. map_of (as_artifacts s) i = Some a \<and> art_status a \<noteq> Artifact_OPEN
      \<and> map_of (as_updated_at_ms s) i = Some u \<and> u \<le> cutoff"
proof -
  let ?old = "filter (\<lambda>(i, updated). art_status (the (map_of (as_artifacts s) i)) \<noteq> Artifact_OPEN \<and> updated \<le> cutoff) (as_updated_at_ms s)"
  let ?c = "sort_key fst (sort_key snd (map (\<lambda>(i, updated). (updated, i)) ?old))"
  have D: "distinct (map fst (as_updated_at_ms s))" using artifacts_okD(1) [OF ok] by (simp add: keys_ok_def)
  have "mset (map snd ?c) = mset (map snd (map (\<lambda>(i, updated). (updated, i)) ?old))" by (simp only: mset_map mset_sort)
  also have "map snd (map (\<lambda>(i, updated). (updated, i)) ?old) = map fst ?old" by simp
  finally have "distinct (map snd ?c) \<longleftrightarrow> distinct (map fst ?old)" by (rule mset_eq_imp_distinct_iff)
  then have "distinct (map snd ?c)" using distinct_keys_filter [OF D] by simp
  then show "distinct (purge_ids s cutoff n)" unfolding purge_ids_def take_map [symmetric] by (rule distinct_take)
  show "length (purge_ids s cutoff n) \<le> n" by (simp add: purge_ids_def)
  assume "i \<in> set (purge_ids s cutoff n)"
  then have "i \<in> set (map snd ?c)" unfolding purge_ids_def take_map [symmetric] by (rule in_set_takeD)
  then obtain u where u: "(i, u) \<in> set (as_updated_at_ms s)" "u \<le> cutoff" "art_status (the (map_of (as_artifacts s) i)) \<noteq> Artifact_OPEN" by auto
  then have m: "map_of (as_updated_at_ms s) i = Some u" using D by simp
  then obtain a where "map_of (as_artifacts s) i = Some a" using updated_known [OF ok m] by (elim exE)
  then show "\<exists>a u. map_of (as_artifacts s) i = Some a \<and> art_status a \<noteq> Artifact_OPEN
      \<and> map_of (as_updated_at_ms s) i = Some u \<and> u \<le> cutoff" using u m by auto
qed

definition without :: "'k set \<Rightarrow> ('k \<Rightarrow> 'v option) \<Rightarrow> 'k \<Rightarrow> 'v option" where
  "without S m = (\<lambda>k. if k \<in> S then None else m k)"

lemma purge_all_value:
  assumes "artifacts_ok s" and "distinct is" and "set is \<subseteq> dom (map_of (as_artifacts s))"
  shows "fst (purge_all s is) = Inr () \<and> artifacts_ok (snd (purge_all s is))
    \<and> map_of (as_artifacts (snd (purge_all s is))) = without (set is) (map_of (as_artifacts s))
    \<and> map_of (as_batches (snd (purge_all s is))) = without (set is) (map_of (as_batches s))
    \<and> map_of (as_claims (snd (purge_all s is))) = without (set is) (map_of (as_claims s))
    \<and> map_of (as_receipts (snd (purge_all s is))) = without (set is \<times> UNIV) (map_of (as_receipts s))
    \<and> map_of (as_receipt_digests (snd (purge_all s is))) = without (set is \<times> UNIV) (map_of (as_receipt_digests s))"
  using assms
proof (induction "is" arbitrary: s)
  case Nil
  then show ?case by (simp add: without_def)
next
  case (Cons i "is")
  obtain a where a: "map_of (as_artifacts s) i = Some a" using Cons.prems(3) by auto
  note V = purge_value [OF Cons.prems(1) a]
  obtain t where p: "purge_artifact s i = (Inr (), t)" using V(1) by (metis prod.collapse)
  have t: "artifacts_ok t" using purge_ok [OF Cons.prems(1) a] p by simp
  have IH: "set is \<subseteq> dom (map_of (as_artifacts t))" using Cons.prems(2,3) V(2) p by (auto simp: domIff)
  have e: "purge_all s (i # is) = purge_all t is" using p by simp
  show ?case unfolding e using Cons.IH [OF t _ IH] Cons.prems(2) V p by (auto simp: without_def fun_eq_iff)
qed

lemma fate_count_nonneg: "0 \<le> fate_count available s now f"
  by (simp add: fate_count_def)

definition kept_claims :: "(string \<Rightarrow> bool) \<Rightarrow> artifact_state \<Rightarrow> int \<Rightarrow> artifact_state" where
  "kept_claims available s now = s\<lparr>as_claims := filter (\<lambda>e. claim_fate_of available s now e = Fate_KEPT) (as_claims s)\<rparr>"

definition purged_ids :: "(string \<Rightarrow> bool) \<Rightarrow> artifact_state \<Rightarrow> artifact_maintenance_policy \<Rightarrow> int \<Rightarrow> string list" where
  "purged_ids available s p now = (case amp_terminal_retention_ms p of None \<Rightarrow> []
     | Some r \<Rightarrow> purge_ids (kept_claims available s now) (now - r) (nat (amp_max_purge_artifacts p)))"

lemma maintain_value:
  assumes ok: "artifacts_ok s"
  shows "maintain available s p now = (Inr \<lparr>amr_expired_claims_released = fate_count available s now Fate_EXPIRED,
      amr_unavailable_run_claims_released = fate_count available s now Fate_UNAVAILABLE,
      amr_invalid_target_claims_released = fate_count available s now Fate_INVALID,
      amr_purged_artifacts = int (length (purged_ids available s p now)), amr_consistency_issues = 0\<rparr>,
    snd (purge_all (kept_claims available s now) (purged_ids available s p now)))"
proof (cases "amp_terminal_retention_ms p")
  case None
  then show ?thesis
    by (simp add: maintain_def Let_def read_op_def ArtifactMaintenanceReport_post_init_def non_negative_int_def fate_count_def
        purged_ids_def kept_claims_def)
next
  case (Some r)
  have k: "artifacts_ok (kept_claims available s now)"
    using filtered_claims_step [OF ok] by (simp add: kept_claims_def artifact_step_def)
  let ?ids = "purge_ids (kept_claims available s now) (now - r) (nat (amp_max_purge_artifacts p))"
  have "fst (purge_all (kept_claims available s now) ?ids) = Inr ()"
    using purge_all_value [OF k, of ?ids] purge_idsD [OF k] by blast
  then obtain t where t: "purge_all (kept_claims available s now) ?ids = (Inr (), t)" by (metis prod.collapse)
  then show ?thesis using Some purge_candidates_value [OF k, of "now - r"]
    by (simp add: maintain_def Let_def read_op_def ArtifactMaintenanceReport_post_init_def non_negative_int_def fate_count_def
        purged_ids_def kept_claims_def purge_ids_def)
qed

lemma maintain_facts:
  assumes ok: "artifacts_ok s" and t: "t = snd (maintain available s p now)"
  defines "ids \<equiv> set (purged_ids available s p now)"
  shows "artifacts_ok t" and "map_of (as_artifacts t) = without ids (map_of (as_artifacts s))"
    and "map_of (as_batches t) = without ids (map_of (as_batches s))"
    and "map_of (as_receipts t) = without (ids \<times> UNIV) (map_of (as_receipts s))"
    and "map_of (as_receipt_digests t) = without (ids \<times> UNIV) (map_of (as_receipt_digests s))"
    and "map_of (as_claims t) = without ids (map_of (as_claims (kept_claims available s now)))"
    and "i \<in> ids \<Longrightarrow> \<exists>a u r. map_of (as_artifacts s) i = Some a \<and> art_status a \<noteq> Artifact_OPEN
      \<and> amp_terminal_retention_ms p = Some r \<and> map_of (as_updated_at_ms s) i = Some u \<and> u \<le> now - r"
    and "length (purged_ids available s p now) \<le> nat (amp_max_purge_artifacts p)"
proof -
  let ?k = "kept_claims available s now"
  have k: "artifacts_ok ?k" using filtered_claims_step [OF ok] by (simp add: kept_claims_def artifact_step_def)
  have t': "t = snd (purge_all ?k (purged_ids available s p now))" by (simp add: t maintain_value [OF ok])
  have d: "distinct (purged_ids available s p now)" using purge_idsD(1) [OF k] by (auto simp: purged_ids_def split: option.splits)
  have old: "\<exists>a u r. map_of (as_artifacts s) i = Some a \<and> art_status a \<noteq> Artifact_OPEN
      \<and> amp_terminal_retention_ms p = Some r \<and> map_of (as_updated_at_ms s) i = Some u \<and> u \<le> now - r" if i: "i \<in> ids" for i
  proof -
    obtain r where r: "amp_terminal_retention_ms p = Some r" "i \<in> set (purge_ids ?k (now - r) (nat (amp_max_purge_artifacts p)))"
      using i by (cases "amp_terminal_retention_ms p") (simp_all add: ids_def purged_ids_def)
    show ?thesis using purge_idsD(3) [OF k r(2)] r(1) by (simp add: kept_claims_def)
  qed
  then show "i \<in> ids \<Longrightarrow> \<exists>a u r. map_of (as_artifacts s) i = Some a \<and> art_status a \<noteq> Artifact_OPEN
      \<and> amp_terminal_retention_ms p = Some r \<and> map_of (as_updated_at_ms s) i = Some u \<and> u \<le> now - r" by blast
  have "set (purged_ids available s p now) \<subseteq> dom (map_of (as_artifacts ?k))"
    using old by (fastforce simp: ids_def kept_claims_def)
  note V = purge_all_value [OF k d this]
  show "artifacts_ok t" "map_of (as_artifacts t) = without ids (map_of (as_artifacts s))"
    "map_of (as_batches t) = without ids (map_of (as_batches s))"
    "map_of (as_receipts t) = without (ids \<times> UNIV) (map_of (as_receipts s))"
    "map_of (as_receipt_digests t) = without (ids \<times> UNIV) (map_of (as_receipt_digests s))"
    "map_of (as_claims t) = without ids (map_of (as_claims ?k))"
    using V unfolding t' ids_def by (simp_all add: kept_claims_def)
  show "length (purged_ids available s p now) \<le> nat (amp_max_purge_artifacts p)"
    using purge_idsD(2) [OF k] by (auto simp: purged_ids_def split: option.splits)
qed

lemma purged_ids_distinct: "artifacts_ok s \<Longrightarrow> distinct (purged_ids available s p now)"
  using purge_idsD(1) filtered_claims_step by (auto simp: purged_ids_def kept_claims_def artifact_step_def split: option.splits)

text \<open>Every claim is for an open artifact at its revision: the third reason to drop one never applies.\<close>

lemma claim_fate_cases:
  assumes ok: "artifacts_ok s" and e: "e \<in> set (as_claims s)"
  shows "claim_fate_of available s now e = (if clm_expires_at_ms (snd e) \<le> now then Fate_EXPIRED
    else if \<not> available (clm_run_id (snd e)) then Fate_UNAVAILABLE else Fate_KEPT)"
proof -
  obtain i c where ic: "e = (i, c)" by (cases e)
  have "map_of (as_claims s) i = Some c" using e ic artifacts_okD(1) [OF ok] by (simp add: keys_ok_def)
  then have "claim_ok s i c" by (rule artifacts_okD(8) [OF ok])
  then show ?thesis by (auto simp: ic claim_fate_of_def claim_ok_def target_invalid_def)
qed

lemma kept_claims_value:
  assumes ok: "artifacts_ok s"
  shows "as_claims (kept_claims available s now) = filter (\<lambda>(i, c). now < clm_expires_at_ms c \<and> available (clm_run_id c)) (as_claims s)"
  unfolding kept_claims_def by (simp, rule filter_cong) (auto simp: claim_fate_cases [OF ok])

lemma released_total:
  assumes ok: "artifacts_ok s"
  shows "fate_count available s now Fate_EXPIRED + fate_count available s now Fate_UNAVAILABLE + fate_count available s now Fate_INVALID
    = int (length (as_claims s)) - int (length (filter (\<lambda>(i, c). now < clm_expires_at_ms c \<and> available (clm_run_id c)) (as_claims s)))"
proof -
  have "length (filter (\<lambda>e. f e = Fate_EXPIRED) es) + length (filter (\<lambda>e. f e = Fate_UNAVAILABLE) es)
      + length (filter (\<lambda>e. f e = Fate_INVALID) es) + length (filter (\<lambda>e. f e = Fate_KEPT) es) = length es"
    for f :: "string \<times> artifact_write_claim \<Rightarrow> claim_fate" and es
  proof (induction es)
    case (Cons e es)
    then show ?case by (cases "f e") simp_all
  qed simp
  from this [of "claim_fate_of available s now" "as_claims s"] show ?thesis
    unfolding kept_claims_value [OF ok, symmetric] by (simp add: fate_count_def kept_claims_def)
qed

text \<open>A purged artifact has no claim, so purging leaves the claims alone.\<close>

lemma purge_all_claims: "fst ` set (as_claims s) \<inter> set is = {} \<Longrightarrow> as_claims (snd (purge_all s is)) = as_claims s"
proof (induction "is" arbitrary: s)
  case (Cons i "is")
  have i: "as_claims (snd (purge_artifact s i)) = as_claims s"
    using Cons.prems by (auto simp: purge_artifact_def delete_id split: option.splits)
  show ?case
  proof (cases "fst (purge_artifact s i)")
    case (Inl e)
    then show ?thesis using i by (cases "purge_artifact s i") simp
  next
    case (Inr u)
    then show ?thesis using i Cons by (cases "purge_artifact s i") auto
  qed
qed simp

lemma maintain_claims:
  assumes ok: "artifacts_ok s"
  shows "as_claims (snd (maintain available s p now)) = filter (\<lambda>(i, c). now < clm_expires_at_ms c \<and> available (clm_run_id c)) (as_claims s)"
proof -
  have "i \<notin> set (purged_ids available s p now)" if "(i, c) \<in> set (as_claims (kept_claims available s now))" for i c
  proof -
    have "map_of (as_claims s) i = Some c" using that artifacts_okD(1) [OF ok] by (simp add: kept_claims_def keys_ok_def)
    then have "claim_ok s i c" by (rule artifacts_okD(8) [OF ok])
    then show ?thesis using maintain_facts(7) [OF ok refl, of i available p now] by (auto simp: claim_ok_def)
  qed
  then have "as_claims (snd (purge_all (kept_claims available s now) (purged_ids available s p now))) = as_claims (kept_claims available s now)"
    by (intro purge_all_claims) auto
  then show ?thesis by (simp add: maintain_value [OF ok] kept_claims_value [OF ok])
qed

lemma maintain_step:
  assumes ok: "artifacts_ok s" and "amp_terminal_retention_ms p = None"
  shows "artifact_step s (snd (maintain available s p now))"
  using filtered_claims_step [OF ok] assms(2) by (simp add: maintain_value [OF ok] purged_ids_def kept_claims_def)

end
