(* ===== verification/Artifact_Machine.thy ===== *)
theory Artifact_Machine
  imports Artifact_Laws
begin

text \<open>
  The artifact store as a machine whose events are the calls of its ports: what any sequence of
  calls keeps, the exclusion that a live claim gives its holder, and the replay of a commit.
\<close>

section \<open>Every call of the ports\<close>

datatype artifact_cmd =
    Create_Artifact string artifact_create_command int
  | Append_Batch artifact_append_command int
  | Finalize_Artifact artifact_finalize_command string int
  | Abort_Artifact string int artifact_mutation_lease int
  | Acquire_Claim artifact_write_claim_command string int
  | Renew_Claim artifact_claim_lease_command int
  | Release_Claim artifact_claim_lease_command
  | Release_For_Run string
  | Maintain_Artifacts artifact_maintenance_policy int

fun artifact_after :: "(json \<Rightarrow> string) \<Rightarrow> (string \<Rightarrow> bool) \<Rightarrow> artifact_state \<Rightarrow> artifact_cmd \<Rightarrow> artifact_state" where
  "artifact_after H available s (Create_Artifact i c now) = snd (create_artifact s i c now)"
| "artifact_after H available s (Append_Batch c now) = snd (append_batch H s c now)"
| "artifact_after H available s (Finalize_Artifact c d now) = snd (finalize_artifact s c d now)"
| "artifact_after H available s (Abort_Artifact i n l now) = snd (abort_artifact s i n l now)"
| "artifact_after H available s (Acquire_Claim c token now) = snd (acquire_claim s c token now)"
| "artifact_after H available s (Renew_Claim c now) = snd (renew_claim s c now)"
| "artifact_after H available s (Release_Claim c) = snd (release_claim s c)"
| "artifact_after H available s (Release_For_Run run) = snd (release_for_run s run)"
| "artifact_after H available s (Maintain_Artifacts p now) = snd (maintain available s p now)"

definition artifact_react ::
    "(json \<Rightarrow> string) \<Rightarrow> (string \<Rightarrow> bool) \<Rightarrow> artifact_state \<Rightarrow> artifact_cmd \<Rightarrow> artifact_state result" where
  "artifact_react H available s cmd = Inr (artifact_after H available s cmd)"

text \<open>Arguments are values their constructors accepted, and the clock of a commit is not negative.\<close>

fun artifact_cmd_ok :: "artifact_cmd \<Rightarrow> bool" where
  "artifact_cmd_ok (Create_Artifact i c now) \<longleftrightarrow> create_ok c"
| "artifact_cmd_ok (Append_Batch c now) \<longleftrightarrow> append_ok c \<and> 0 \<le> now"
| "artifact_cmd_ok cmd \<longleftrightarrow> True"

fun purges :: "artifact_cmd \<Rightarrow> bool" where
  "purges (Maintain_Artifacts p now) \<longleftrightarrow> amp_terminal_retention_ms p \<noteq> None"
| "purges cmd \<longleftrightarrow> False"

definition retaining_cmd_ok :: "artifact_cmd \<Rightarrow> bool" where
  "retaining_cmd_ok cmd \<longleftrightarrow> artifact_cmd_ok cmd \<and> \<not> purges cmd"

lemma artifact_after_ok:
  assumes "artifacts_ok s" and "artifact_cmd_ok cmd"
  shows "artifacts_ok (artifact_after H available s cmd)"
proof -
  have step: "artifact_step s t \<Longrightarrow> artifacts_ok t" for t by (simp add: artifact_step_def)
  show ?thesis using assms maintain_facts(1) [OF assms(1)]
    by (cases cmd) (auto intro!: step create_artifact_step append_step finalize_artifact_step abort_step acquire_step renew_claim_step
        release_step release_for_run_step)
qed

lemma artifact_after_step:
  assumes "artifacts_ok s" and "retaining_cmd_ok cmd"
  shows "artifact_step s (artifact_after H available s cmd)"
  using assms
  by (cases cmd) (auto simp: retaining_cmd_ok_def intro!: create_artifact_step append_step finalize_artifact_step abort_step acquire_step
      renew_claim_step release_step release_for_run_step maintain_step)

interpretation artifact_store: event_machine "artifact_react H available" artifact_cmd_ok artifacts_ok for H available
  using artifact_after_ok by unfold_locales (auto simp: artifact_react_def)

interpretation retaining_store: progress_machine "artifact_react H available" retaining_cmd_ok artifacts_ok artifacts_advance for H available
  using artifact_after_step
  by unfold_locales (auto simp: artifact_react_def artifact_step_def artifacts_advance_refl intro: artifacts_advance_trans)

section \<open>A live claim excludes every other writer\<close>

text \<open>
  The calls that the holder of a claim makes or allows: those that present its token, release of
  the claims of its Run, and any call at or after the time of expiry.
\<close>

fun foreign_cmd :: "artifact_write_claim \<Rightarrow> artifact_cmd \<Rightarrow> bool" where
  "foreign_cmd c (Create_Artifact i cc now) \<longleftrightarrow> True"
| "foreign_cmd c (Append_Batch ac now) \<longleftrightarrow> now < clm_expires_at_ms c \<and> aml_claim_token (aac_write_lease ac) \<noteq> clm_claim_token c"
| "foreign_cmd c (Finalize_Artifact fc d now) \<longleftrightarrow> now < clm_expires_at_ms c \<and> aml_claim_token (afc_write_lease fc) \<noteq> clm_claim_token c"
| "foreign_cmd c (Abort_Artifact i n l now) \<longleftrightarrow> now < clm_expires_at_ms c \<and> aml_claim_token l \<noteq> clm_claim_token c"
| "foreign_cmd c (Acquire_Claim wc token now) \<longleftrightarrow> now < clm_expires_at_ms c"
| "foreign_cmd c (Renew_Claim lc now) \<longleftrightarrow> now < clm_expires_at_ms c \<and> strip (acl_claim_token lc) \<noteq> clm_claim_token c"
| "foreign_cmd c (Release_Claim lc) \<longleftrightarrow> acl_claim_token lc \<noteq> clm_claim_token c"
| "foreign_cmd c (Release_For_Run run) \<longleftrightarrow> strip run \<noteq> clm_run_id c"
| "foreign_cmd c (Maintain_Artifacts p now) \<longleftrightarrow> now < clm_expires_at_ms c"

definition holds :: "artifact_state \<Rightarrow> string \<Rightarrow> artifact_write_claim \<Rightarrow> artifact_record \<Rightarrow> artifact_batch list \<Rightarrow> bool" where
  "holds s i c a bs \<longleftrightarrow> map_of (as_claims s) i = Some c \<and> map_of (as_artifacts s) i = Some a \<and> map_of (as_batches s) i = Some bs"

lemma holdsD: "artifacts_ok s \<Longrightarrow> holds s i c a bs \<Longrightarrow> art_id a = i \<and> art_status a = Artifact_OPEN \<and> clm_artifact_id c = i
    \<and> clm_acquired_revision c = art_revision a"
  using artifacts_okD(2,8) by (fastforce simp: holds_def claim_ok_def artifact_entry_ok_def)

lemma wrong_token_refused:
  assumes "artifacts_ok s" and "holds s i c a bs" and "aml_claim_token l \<noteq> clm_claim_token c"
  shows "require_write_claim s a l now = Inl (ArtifactConflictError ''artifact_write_claim_invalid'' ''artifact write claim is invalid'')"
  using assms holdsD [OF assms(1,2)] by (auto simp: require_write_claim_def active_claim_def holds_def Let_def)

text \<open>What is stored for another artifact does not matter.\<close>

lemma settling_holds:
  assumes ok: "artifacts_ok s" and h: "holds s i c a bs" and l: "aml_claim_token l \<noteq> clm_claim_token c"
    and f: "\<And>b. art_id (f b) = art_id b"
  shows "holds (snd (read_op (require_artifact s j) s (\<lambda>a.
     read_op (require_open a) s (\<lambda>_. read_op (require_revision a n) s (\<lambda>_. read_op (require_write_claim s a l now) s (\<lambda>_.
     settle_artifact s (f a) now)))))) i c a bs"
proof (rule snd_read_op [where P = "\<lambda>t. holds t i c a bs", OF h], goal_cases)
  case (1 b)
  have id: "art_id b = strip j" "map_of (as_artifacts s) (strip j) = Some b"
    using 1 artifacts_okD(2) [OF ok] by (auto simp: require_artifact_Inr artifact_entry_ok_def)
  show ?case
  proof (cases "strip j = i")
    case True
    then have b: "b = a" using id h by (simp add: holds_def)
    show ?thesis using h by (auto simp: read_op_def wrong_token_refused [OF ok h l] b split: sum.splits)
  next
    case False
    then show ?thesis using h id by (auto simp: read_op_def settle_artifact_def holds_def f split: sum.splits)
  qed
qed

lemma append_holds:
  assumes ok: "artifacts_ok s" and h: "holds s i c a bs" and ac: "append_ok ac" "0 \<le> now"
    and l: "aml_claim_token (aac_write_lease ac) \<noteq> clm_claim_token c"
  shows "holds (snd (append_batch H s ac now)) i c a bs"
proof (cases rule: append_cases [OF ok ac, where H = H, case_names replay commit refuse])
  case (commit b cl)
  have id: "art_id b = aac_artifact_id ac" using artifacts_okD(2) [OF ok commit(2)] by (simp add: artifact_entry_ok_def)
  have "aac_artifact_id ac \<noteq> i"
  proof
    assume "aac_artifact_id ac = i"
    then have "b = a" using commit(2) h by (simp add: holds_def)
    then show False using commit(6) wrong_token_refused [OF ok h l] by simp
  qed
  then show ?thesis using h by (simp add: commit(7) commit_batch_def holds_def id)
qed (simp_all add: h)

lemma create_holds:
  assumes ok: "artifacts_ok s" and h: "holds s i c a bs"
  shows "holds (snd (create_artifact s j cc now)) i c a bs"
  unfolding create_artifact_def
proof (rule snd_read_op [where P = "\<lambda>t. holds t i c a bs", OF h], goal_cases)
  case (1 k)
  show ?case
  proof (rule snd_read_op [where P = "\<lambda>t. holds t i c a bs", OF h], goal_cases)
    case (1 b)
    show ?case using h by (auto simp: holds_def split: option.splits)
  qed
qed

lemma acquire_holds:
  assumes ok: "artifacts_ok s" and h: "holds s i c a bs" and now: "now < clm_expires_at_ms c"
  shows "holds (snd (acquire_claim s wc token now)) i c a bs"
  unfolding acquire_claim_def
proof (rule snd_read_op [where P = "\<lambda>t. holds t i c a bs", OF h], goal_cases)
  case (1 b)
  have id: "art_id b = strip (awc_artifact_id wc)"
    using 1 artifacts_okD(2) [OF ok] by (auto simp: require_artifact_Inr artifact_entry_ok_def)
  have act: "active_claim s i now = Some c" using h now by (simp add: active_claim_Some holds_def)
  show ?case
  proof (cases "art_id b = i")
    case True
    then show ?thesis using h act by (auto simp: read_op_def split: sum.splits)
  next
    case False
    then show ?thesis using h by (auto simp: read_op_def holds_def split: sum.splits option.splits)
  qed
qed

lemma renew_holds:
  assumes ok: "artifacts_ok s" and h: "holds s i c a bs" and t: "strip (acl_claim_token lc) \<noteq> clm_claim_token c"
  shows "holds (snd (renew_claim s lc now)) i c a bs"
proof (cases "acl_lease_duration_ms lc")
  case None
  then show ?thesis using h by (simp add: renew_claim_def)
next
  case (Some d)
  have "holds (snd (read_op (require_artifact s (acl_artifact_id lc)) s (\<lambda>a. read_op (require_claim_command s a lc now) s (\<lambda>claim.
        read_op (ArtifactWriteClaim_post_init (claim\<lparr>clm_expires_at_ms := now + d\<rparr>)) s (\<lambda>renewed.
        (Inr renewed, s\<lparr>as_claims := AList.update (art_id a) renewed (as_claims s)\<rparr>)))))) i c a bs"
  proof (rule snd_read_op [where P = "\<lambda>t. holds t i c a bs", OF h], rule snd_read_op [where P = "\<lambda>t. holds t i c a bs", OF h], goal_cases)
    case (1 b cl)
    have "art_id b \<noteq> i"
      using 1(2) h t
      by (auto simp: require_claim_command_def bind_result_Inr_iff require_write_claim_Inr ArtifactMutationLease_post_init_def
          required_text_Inr holds_def)
    then show ?case using h by (auto simp: read_op_def holds_def split: sum.splits)
  qed
  then show ?thesis using Some by (simp add: renew_claim_def)
qed

lemma keys_ok_claims: "artifacts_ok s \<Longrightarrow> distinct (map fst (as_claims s))"
  using artifacts_okD(1) by (simp add: keys_ok_def)

lemma maintain_holds:
  assumes ok: "artifacts_ok s" and h: "holds s i c a bs" and now: "now < clm_expires_at_ms c" and av: "available (clm_run_id c)"
  shows "holds (snd (maintain available s p now)) i c a bs"
proof -
  note F = maintain_facts [OF ok, where t = "snd (maintain available s p now)" and available = available and p = p and now = now, OF refl]
  have live: "art_status a = Artifact_OPEN" "clm_acquired_revision c = art_revision a" using holdsD [OF ok h] by simp_all
  have ni: "i \<notin> set (purged_ids available s p now)" using F(7) [of i] h live(1) by (auto simp: holds_def)
  have "map_of (as_claims (kept_claims available s now)) i = Some c"
    using h now av live
    by (simp add: kept_claims_def map_of_filter_entries [OF keys_ok_claims [OF ok]] holds_def claim_fate_of_def target_invalid_def)
  then show ?thesis using h ni by (simp add: holds_def F(2,3,6) without_def)
qed

lemma release_run_holds:
  assumes ok: "artifacts_ok s" and h: "holds s i c a bs" and run: "strip run \<noteq> clm_run_id c"
  shows "holds (snd (release_for_run s run)) i c a bs"
  using h run
  by (auto simp: release_for_run_def read_op_def holds_def required_text_Inr map_of_filter_entries [OF keys_ok_claims [OF ok]] split: sum.splits)

lemma foreign_holds:
  assumes ok: "artifacts_ok s" and h: "holds s i c a bs" and cmd: "artifact_cmd_ok cmd" "foreign_cmd c cmd"
    and av: "available (clm_run_id c)"
  shows "holds (artifact_after H available s cmd) i c a bs"
proof (cases cmd)
  case (Release_Claim lc)
  then show ?thesis using h cmd(2) by (auto simp: release_claim_def holds_def split: option.splits)
qed (use ok h cmd av in \<open>simp_all add: finalize_artifact_def abort_artifact_def create_holds append_holds settling_holds acquire_holds
    renew_holds release_run_holds maintain_holds\<close>)

text \<open>A machine in which the calls other than those of the holder leave the claimed artifact alone.\<close>

definition exclusive :: "string \<Rightarrow> artifact_write_claim \<Rightarrow> artifact_record \<Rightarrow> artifact_batch list \<Rightarrow> artifact_state \<Rightarrow> bool" where
  "exclusive i c a bs s \<longleftrightarrow> artifacts_ok s \<and> holds s i c a bs"

lemma foreign_calls_hold:
  assumes "exclusive i c a bs s" and "list_all (\<lambda>cmd. artifact_cmd_ok cmd \<and> foreign_cmd c cmd) cmds" and "available (clm_run_id c)"
  shows "exclusive i c a bs (drive (artifact_react H available) s cmds)"
  using assms
proof (induction cmds arbitrary: s)
  case (Cons cmd cmds)
  then have "exclusive i c a bs (artifact_after H available s cmd)"
    by (simp add: exclusive_def artifact_after_ok foreign_holds)
  then show ?case using Cons by (simp add: artifact_react_def)
qed simp

lemma holder_renews:
  assumes ok: "artifacts_ok s" and h: "holds s i c a bs" and now: "0 \<le> now" "now < clm_expires_at_ms c" and n: "0 < n"
  shows "\<exists>c' t. renew_claim s \<lparr>acl_artifact_id = i, acl_run_id = clm_run_id c, acl_claim_token = clm_claim_token c,
        acl_lease_duration_ms = Some n\<rparr> now = (Inr c', t) \<and> clm_expires_at_ms c' = now + n"
proof -
  have e: "art_id a = i" "clean_id i" "0 < art_revision a" "map_of (as_artifacts s) i = Some a" "map_of (as_claims s) i = Some c"
    using artifacts_okD(2) [OF ok, of i a] h by (auto simp: holds_def artifact_entry_ok_def artifact_ok_def)
  have c: "clm_artifact_id c = i" "clean_id (clm_run_id c)" "clean_id (clm_claim_token c)" "clm_acquired_revision c = art_revision a"
    using artifacts_okD(8) [OF ok e(5)] e(4) by (auto simp: claim_ok_def)
  have p: "ArtifactWriteClaim_post_init (c\<lparr>clm_expires_at_ms := now + n\<rparr>) = Inr (c\<lparr>clm_expires_at_ms := now + n\<rparr>)"
    using c e now n by (intro claim_constructed) simp_all
  have q: "require_write_claim s a \<lparr>aml_run_id = clm_run_id c, aml_claim_token = clm_claim_token c, aml_lease_duration_ms = n\<rparr> now = Inr c"
    using c e now by (simp add: require_write_claim_Inr)
  have a: "require_artifact s i = Inr a" using e by (simp add: require_artifact_Inr clean_id_def)
  show ?thesis using c(2,3) n p q a
    by (simp add: renew_claim_def read_op_def require_claim_command_def ArtifactMutationLease_post_init_def positive_int_def)
qed

section \<open>Replays\<close>

text \<open>What a commit leaves for its own repetition, and that later calls keep it.\<close>

definition replayable :: "(json \<Rightarrow> string) \<Rightarrow> artifact_append_command \<Rightarrow> artifact_batch_receipt \<Rightarrow> artifact_state \<Rightarrow> bool" where
  "replayable H c r s \<longleftrightarrow> map_of (as_receipts s) (aac_artifact_id c, aac_idempotency_key c) = Some (r\<lparr>abr_replayed := False\<rparr>)
     \<and> map_of (as_receipt_digests s) (aac_artifact_id c, aac_idempotency_key c) = Some (aac_content_digest H c)"

lemma append_replayable:
  assumes ok: "artifacts_ok s" and c: "append_ok c" "0 \<le> now" and r: "append_batch H s c now = (Inr r, t)"
  shows "replayable H c r t"
proof (cases rule: append_cases [OF ok c, where H = H, case_names replay commit refuse])
  case (replay r')
  have "abr_replayed r' = False" using replay(1) artifacts_okD(6) [OF ok] by (auto simp: receipt_of_def)
  moreover have "r'\<lparr>abr_replayed := False\<rparr> = r'" if "abr_replayed r' = False" using that by (cases r') simp
  ultimately show ?thesis using replay r by (simp add: replayable_def)
next
  case (commit a cl)
  have id: "art_id a = aac_artifact_id c" using artifacts_okD(2) [OF ok commit(2)] by (simp add: artifact_entry_ok_def)
  have "r = receipt_of (batch_for H a c)" "t = commit_batch s a (batch_for H a c) (aac_content_digest H c) (renewed_claim cl a c now) now"
    using commit(7) r by simp_all
  then show ?thesis by (simp add: replayable_def commit_batch_def id batch_for_def receipt_of_def)
qed (use r in simp)

lemma replayable_advance: "artifacts_advance s t \<Longrightarrow> replayable H c r s \<Longrightarrow> replayable H c r t"
  unfolding replayable_def artifacts_advance_def by (meson map_leD)

lemma replayable_append: "replayable H c r s \<Longrightarrow> append_batch H s c now = (Inr (r\<lparr>abr_replayed := True\<rparr>), s)"
  by (simp add: replayable_def append_batch_def stored_receipt_def read_op_def)

lemma other_content_conflicts:
  assumes "replayable H c r s" and "aac_artifact_id c' = aac_artifact_id c" and "aac_idempotency_key c' = aac_idempotency_key c"
    and "aac_content_digest H c' \<noteq> aac_content_digest H c"
  shows "append_batch H s c' now = (Inl (ArtifactConflictError ''artifact_idempotency_conflict'' ''artifact idempotency key conflicts''), s)"
  using assms by (simp add: replayable_def append_batch_def stored_receipt_def read_op_def)

end
