(* ===== verification/Artifact_Lifecycle.thy ===== *)
theory Artifact_Lifecycle
  imports Artifact_Machine
begin

text \<open>
  \<open>ArtifactLifecycle\<close> of \<open>purra/artifacts/lifecycle.py\<close> and \<open>ArtifactAccessController\<close> of
  \<open>access.py\<close>: the coordinators over the store. They read and write through separate calls of the
  store, so other calls interleave; histories of the store say what the coordinators still guarantee.
  The host's validators and authorizer are parameters.
\<close>

section \<open>Commits\<close>

definition lifecycle_begin ::
    "artifact_state \<Rightarrow> string \<Rightarrow> artifact_create_command \<Rightarrow> int \<Rightarrow> artifact_record result \<times> artifact_state" where
  "lifecycle_begin s drawn c now =
     (let artifact_id = strip drawn in
      if artifact_id = [] then (Inl (RuntimeError ''artifact id factory returned an empty id''), s)
      else create_artifact s artifact_id c now)"

definition lifecycle_require :: "artifact_state \<Rightarrow> string \<Rightarrow> artifact_record result" where
  "lifecycle_require s artifact_id = (case load_artifact s (strip artifact_id) of
     None \<Rightarrow> Inl (ArtifactNotFoundError ''artifact_not_found'' ''artifact does not exist'') | Some a \<Rightarrow> Inr a)"

definition lifecycle_get :: "artifact_state \<Rightarrow> string \<Rightarrow> artifact_record result" where
  "lifecycle_get s artifact_id = lifecycle_require s artifact_id"

definition lifecycle_require_open :: "artifact_record \<Rightarrow> unit result" where
  "lifecycle_require_open a = (if art_status a \<noteq> Artifact_OPEN
     then Inl (ArtifactStateError ''artifact_not_open'' ''artifact is not open'') else Inr ())"

definition lifecycle_require_revision :: "artifact_record \<Rightarrow> int \<Rightarrow> unit result" where
  "lifecycle_require_revision a expected = (if art_revision a \<noteq> expected
     then Inl (ArtifactConflictError ''artifact_revision_conflict'' ''artifact revision does not match'') else Inr ())"

text \<open>\<open>_duplicates\<close>: the values that the loop meets again.\<close>

fun duplicates_from :: "string set \<Rightarrow> string set \<Rightarrow> string list \<Rightarrow> string set" where
  "duplicates_from seen duplicates [] = duplicates"
| "duplicates_from seen duplicates (v # vs) =
     duplicates_from (insert v seen) (if v \<in> seen then insert v duplicates else duplicates) vs"

definition duplicates :: "string list \<Rightarrow> string set" where
  "duplicates vs = duplicates_from {} {} vs"

definition require_validation_result :: "artifact_validation_result \<Rightarrow> unit result" where
  "require_validation_result r =
     (if \<not> avr_accepted r then Inl (ArtifactValidationError
        (case avr_code r of None \<Rightarrow> ''artifact_validation_failed'' | Some c \<Rightarrow> if c = [] then ''artifact_validation_failed'' else c)
        ''artifact domain validation rejected the operation'')
      else Inr ())"

type_synonym batch_validator = "artifact_record \<Rightarrow> artifact_append_command \<Rightarrow> artifact_validation_result result"

type_synonym final_validator =
  "artifact_record \<Rightarrow> artifact_batch list \<Rightarrow> artifact_finalize_command \<Rightarrow> artifact_validation_result result"

definition validate_batch ::
    "batch_validator option \<Rightarrow> artifact_record \<Rightarrow> artifact_append_command \<Rightarrow> unit result" where
  "validate_batch validator a c = (case validator of None \<Rightarrow> Inr ()
     | Some v \<Rightarrow> bind_result (v a c) require_validation_result)"

definition validate_finalization ::
    "final_validator option \<Rightarrow> artifact_record \<Rightarrow> artifact_batch list \<Rightarrow> artifact_finalize_command \<Rightarrow> unit result" where
  "validate_finalization validator a bs c = (case validator of None \<Rightarrow> Inr ()
     | Some v \<Rightarrow> bind_result (v a bs c) require_validation_result)"

definition validate_batch_sequence :: "artifact_batch list \<Rightarrow> unit result" where
  "validate_batch_sequence bs = (if map abt_sequence bs \<noteq> [1..int (length bs)]
     then Inl (ArtifactValidationError ''artifact_batch_sequence_invalid'' ''artifact batch sequence contains a gap or reordering'')
     else Inr ())"

abbreviation coverage_of :: "artifact_batch list \<Rightarrow> string list" where
  "coverage_of bs \<equiv> concat (map abt_coverage_keys bs)"

text \<open>
  The coordinator awaits the store once for every read and once for the write. Other calls may
  run in between, so every read has a state of its own: \<open>s0\<close> answers the replay, \<open>s1\<close> loads the
  artifact, \<open>s2\<close> lists the batches and \<open>s\<close> is the state in which the write runs.
\<close>

definition lifecycle_append ::
    "(json \<Rightarrow> string) \<Rightarrow> batch_validator option \<Rightarrow> artifact_state \<Rightarrow> artifact_state \<Rightarrow> artifact_state \<Rightarrow> artifact_state \<Rightarrow>
     artifact_append_command \<Rightarrow> int \<Rightarrow> artifact_batch_receipt result \<times> artifact_state" where
  "lifecycle_append H validator s0 s1 s2 s c now =
     read_op (stored_receipt H s0 c) s (\<lambda>replayed.
     case replayed of Some r \<Rightarrow> (Inr r, s)
     | None \<Rightarrow>
     read_op (lifecycle_require s1 (aac_artifact_id c)) s (\<lambda>a.
     read_op (lifecycle_require_open a) s (\<lambda>_.
     read_op (lifecycle_require_revision a (aac_expected_revision c)) s (\<lambda>_.
     if art_next_sequence a \<noteq> aac_sequence c then
       (Inl (ArtifactConflictError ''artifact_sequence_conflict'' ''artifact batch sequence is not next''), s)
     else if duplicates (aac_coverage_keys c) \<noteq> {} then
       (Inl (ArtifactValidationError ''artifact_coverage_duplicate'' ''artifact batch contains duplicate coverage keys''), s)
     else
     read_op (list_batches s2 (art_id a)) s (\<lambda>batches.
     if set (coverage_of batches) \<inter> set (aac_coverage_keys c) \<noteq> {} then
       (Inl (ArtifactValidationError ''artifact_coverage_duplicate'' ''artifact batch repeats committed coverage keys''), s)
     else
     read_op (validate_batch validator a c) s (\<lambda>_. append_batch H s c now))))))"

definition lifecycle_finalize ::
    "(json \<Rightarrow> string) \<Rightarrow> final_validator option \<Rightarrow> artifact_state \<Rightarrow> artifact_state \<Rightarrow> artifact_state \<Rightarrow>
     artifact_finalize_command \<Rightarrow> int \<Rightarrow> artifact_record result \<times> artifact_state" where
  "lifecycle_finalize H validator s1 s2 s c now =
     read_op (lifecycle_require s1 (afc_artifact_id c)) s (\<lambda>a.
     read_op (lifecycle_require_open a) s (\<lambda>_.
     read_op (lifecycle_require_revision a (afc_expected_revision c)) s (\<lambda>_.
     let expected_count = (case afc_expected_item_count c of Some n \<Rightarrow> Some n | None \<Rightarrow> art_expected_item_count a) in
     if (case (art_expected_item_count a, afc_expected_item_count c) of (Some m, Some n) \<Rightarrow> m \<noteq> n | _ \<Rightarrow> False) then
       (Inl (ArtifactValidationError ''artifact_manifest_count_mismatch'' ''final item count conflicts with the artifact manifest''), s)
     else if (case expected_count of None \<Rightarrow> False | Some n \<Rightarrow> art_committed_item_count a \<noteq> n) then
       (Inl (ArtifactValidationError ''artifact_item_count_incomplete'' ''artifact item count is incomplete''), s)
     else
     read_op (list_batches s2 (art_id a)) s (\<lambda>batches.
     read_op (validate_batch_sequence batches) s (\<lambda>_.
     if duplicates (coverage_of batches) \<noteq> {} then
       (Inl (ArtifactValidationError ''artifact_coverage_duplicate'' ''artifact coverage contains duplicate keys''), s)
     else if afc_expected_coverage_keys c \<noteq> [] \<and> set (coverage_of batches) \<noteq> set (afc_expected_coverage_keys c) then
       (Inl (ArtifactValidationError ''artifact_coverage_mismatch'' ''artifact coverage does not match the final manifest''), s)
     else
     read_op (validate_finalization validator a batches c) s (\<lambda>_.
     finalize_artifact s c (coverage_digest H (coverage_of batches)) now))))))"

definition lifecycle_abort ::
    "artifact_state \<Rightarrow> artifact_state \<Rightarrow> string \<Rightarrow> int \<Rightarrow> artifact_mutation_lease \<Rightarrow> int \<Rightarrow> artifact_record result \<times> artifact_state" where
  "lifecycle_abort s1 s artifact_id expected_revision lease now =
     read_op (lifecycle_require s1 artifact_id) s (\<lambda>a.
     read_op (lifecycle_require_open a) s (\<lambda>_.
     read_op (lifecycle_require_revision a expected_revision) s (\<lambda>_.
     abort_artifact s (art_id a) (art_revision a) lease now)))"

section \<open>Access\<close>

type_synonym access_authorizer = "artifact_resume_candidate \<Rightarrow> artifact_access_request \<Rightarrow> bool result"

definition cross_run_authorized ::
    "access_authorizer option \<Rightarrow> artifact_resume_candidate \<Rightarrow> artifact_access_request \<Rightarrow> bool result" where
  "cross_run_authorized authorizer c r =
     (if aar_run_id r = arc_created_by_run_id c then Inr False
      else case authorizer of None \<Rightarrow> Inr False | Some f \<Rightarrow> f c r)"

definition access_authorize ::
    "access_authorizer option \<Rightarrow> artifact_state \<Rightarrow> artifact_resume_candidate \<Rightarrow> artifact_access_request \<Rightarrow> int option \<Rightarrow> string \<Rightarrow>
     int \<Rightarrow> artifact_access_grant result \<times> artifact_state" where
  "access_authorize authorizer s c r lease_duration_ms token now =
     read_op (cross_run_authorized authorizer c r) s (\<lambda>cross.
     read_op (decide_access c r cross) s (\<lambda>decision.
     if \<not> aad_allowed decision then
       (Inl (ArtifactAccessDeniedError (ArtifactAccessReason_value (aad_reason decision)) ''artifact access was denied''), s)
     else if aad_requires_write_claim decision then
       (case lease_duration_ms of
          None \<Rightarrow> (Inl (ValueError ''artifact write access requires lease_duration_ms''), s)
        | Some duration \<Rightarrow>
          read_op (ArtifactWriteClaimCommand_post_init \<lparr>awc_artifact_id = arc_artifact_id c, awc_run_id = aar_run_id r,
            awc_expected_revision = aar_expected_revision r, awc_lease_duration_ms = duration\<rparr>) s (\<lambda>command.
          bind_op (acquire_claim s command token now) (\<lambda>claim t.
          if clm_artifact_id claim \<noteq> arc_artifact_id c \<or> clm_run_id claim \<noteq> aar_run_id r
              \<or> clm_acquired_revision claim \<noteq> aar_expected_revision r then
            (Inl (TypeError ''artifact claim repository returned a mismatched claim''), t)
          else read_op (ArtifactAccessGrant_post_init \<lparr>aag_decision = decision, aag_write_claim = Some claim\<rparr>) t (\<lambda>g. (Inr g, t)))))
     else if lease_duration_ms \<noteq> None then
       (Inl (ValueError ''this artifact access does not require a write lease''), s)
     else read_op (ArtifactAccessGrant_post_init \<lparr>aag_decision = decision, aag_write_claim = None\<rparr>) s (\<lambda>g. (Inr g, s))))"

definition access_renew ::
    "artifact_state \<Rightarrow> artifact_claim_lease_command \<Rightarrow> int \<Rightarrow> artifact_write_claim result \<times> artifact_state" where
  "access_renew s c now = (if acl_lease_duration_ms c = None then (Inl (ValueError ''renew requires lease_duration_ms''), s)
     else renew_claim s c now)"

definition access_release :: "artifact_state \<Rightarrow> artifact_claim_lease_command \<Rightarrow> bool result \<times> artifact_state" where
  "access_release s c = (if acl_lease_duration_ms c \<noteq> None then (Inl (ValueError ''release cannot include lease_duration_ms''), s)
     else release_claim s c)"

section \<open>Histories\<close>

lemma duplicates_from_empty: "duplicates_from seen D vs = {} \<longleftrightarrow> D = {} \<and> distinct vs \<and> set vs \<inter> seen = {}"
  by (induction seen D vs rule: duplicates_from.induct) auto

lemma duplicates_empty: "duplicates vs = {} \<longleftrightarrow> distinct vs"
  by (simp add: duplicates_def duplicates_from_empty)

text \<open>
  A history lists the states of the store, the newest first. All appends and finalizations go
  through the coordinator and read states that the store has passed through, in this order; every
  other call goes to the store.
\<close>

fun commits :: "artifact_cmd \<Rightarrow> bool" where
  "commits (Append_Batch c now) \<longleftrightarrow> True"
| "commits (Finalize_Artifact c d now) \<longleftrightarrow> True"
| "commits cmd \<longleftrightarrow> False"

fun observed :: "'s list \<Rightarrow> 's list \<Rightarrow> bool" where
  "observed hs [] \<longleftrightarrow> True"
| "observed [] (x # xs) \<longleftrightarrow> False"
| "observed (h # hs) (x # xs) \<longleftrightarrow> (h = x \<and> observed (h # hs) xs) \<or> observed hs (x # xs)"

inductive artifact_history ::
    "(json \<Rightarrow> string) \<Rightarrow> (string \<Rightarrow> bool) \<Rightarrow> batch_validator option \<Rightarrow> final_validator option \<Rightarrow> artifact_state list \<Rightarrow> bool"
  for H available vb vf where
  hist_start: "artifact_history H available vb vf [empty_artifacts]"
| hist_call: "artifact_history H available vb vf (s # hs) \<Longrightarrow> retaining_cmd_ok cmd \<Longrightarrow> \<not> commits cmd \<Longrightarrow>
    artifact_history H available vb vf (artifact_after H available s cmd # s # hs)"
| hist_append: "artifact_history H available vb vf (s # hs) \<Longrightarrow> append_ok c \<Longrightarrow> 0 \<le> now \<Longrightarrow> observed (s # hs) [s2, s1, s0] \<Longrightarrow>
    artifact_history H available vb vf (snd (lifecycle_append H vb s0 s1 s2 s c now) # s # hs)"
| hist_finalize: "artifact_history H available vb vf (s # hs) \<Longrightarrow> constructed ArtifactFinalizeCommand_post_init c \<Longrightarrow>
    observed (s # hs) [s2, s1] \<Longrightarrow>
    artifact_history H available vb vf (snd (lifecycle_finalize H vf s1 s2 s c now) # s # hs)"

text \<open>
  What the coordinator guarantees of an artifact: no coverage key is committed twice, and a
  finalized artifact holds the announced number of items and the digest of its coverage.
\<close>

definition sealed :: "(json \<Rightarrow> string) \<Rightarrow> artifact_record \<Rightarrow> artifact_batch list \<Rightarrow> bool" where
  "sealed H a bs \<longleftrightarrow> distinct (coverage_of bs)
     \<and> (art_status a = Artifact_FINALIZED \<longrightarrow>
         (\<forall>n. art_expected_item_count a = Some n \<longrightarrow> sum_list (map (\<lambda>b. int (length (abt_items b))) bs) = n)
         \<and> art_coverage_digest a = optional_text (Some (coverage_digest H (coverage_of bs))))"

definition all_sealed :: "(json \<Rightarrow> string) \<Rightarrow> artifact_state \<Rightarrow> bool" where
  "all_sealed H s \<longleftrightarrow> artifacts_ok s \<and> (\<forall>i a. map_of (as_artifacts s) i = Some a \<longrightarrow> sealed H a (batches_of s i))"

lemma sealed_mono:
  assumes "sealed H a bs" and "art_status b = Artifact_FINALIZED \<Longrightarrow> b = a"
  shows "sealed H b bs"
  using assms by (auto simp: sealed_def)

lemma same_store_sealed:
  assumes "all_sealed H s" and "artifacts_ok t" and "as_artifacts t = as_artifacts s" and "as_batches t = as_batches s"
  shows "all_sealed H t"
  using assms by (simp add: all_sealed_def)

lemma claim_ops_same:
  shows "as_artifacts (snd (acquire_claim s c token now)) = as_artifacts s \<and> as_batches (snd (acquire_claim s c token now)) = as_batches s"
    and "as_artifacts (snd (renew_claim s lc now)) = as_artifacts s \<and> as_batches (snd (renew_claim s lc now)) = as_batches s"
    and "as_artifacts (snd (release_claim s lc)) = as_artifacts s \<and> as_batches (snd (release_claim s lc)) = as_batches s"
    and "as_artifacts (snd (release_for_run s run)) = as_artifacts s \<and> as_batches (snd (release_for_run s run)) = as_batches s"
  by (auto simp: acquire_claim_def renew_claim_def release_claim_def release_for_run_def read_op_def split: sum.splits option.splits)

lemma maintain_same:
  assumes "artifacts_ok s" and "amp_terminal_retention_ms p = None"
  shows "as_artifacts (snd (maintain available s p now)) = as_artifacts s \<and> as_batches (snd (maintain available s p now)) = as_batches s"
  using assms by (simp add: maintain_value purged_ids_def kept_claims_def)

lemma create_sealed:
  assumes s: "all_sealed H s" and c: "create_ok c"
  shows "all_sealed H (snd (create_artifact s i c now))"
  unfolding create_artifact_def
proof (rule snd_read_op [where P = "all_sealed H", OF s], goal_cases)
  case (1 k)
  have ok: "artifacts_ok s" and k: "clean_id k" using s 1 by (simp_all add: all_sealed_def required_text_result_clean)
  show ?case
  proof (rule snd_read_op [where P = "all_sealed H", OF s], goal_cases)
    case (1 a)
    note a = new_artifact_ok [OF c 1 k]
    have "all_sealed H (s\<lparr>as_artifacts := AList.update k a (as_artifacts s), as_owners := AList.update (owner_key c) k (as_owners s),
        as_batches := AList.update k [] (as_batches s), as_updated_at_ms := AList.update k now (as_updated_at_ms s)\<rparr>)"
      if new: "map_of (as_artifacts s) k = None" "map_of (as_owners s) (owner_key c) = None"
      using new_artifact_step [OF ok new(1) a(1,2), of now] new(2) a(3,4) s
      by (auto simp: all_sealed_def artifact_step_def sealed_def)
    then show ?case using s by (auto split: option.splits)
  qed
qed

lemma settle_sealed:
  assumes s: "all_sealed H s" and a: "map_of (as_artifacts s) i = Some a" "art_status a = Artifact_OPEN"
    and st: "st \<noteq> Artifact_OPEN"
    and b: "b = a\<lparr>art_status := st, art_revision := art_revision a + 1, art_resource_ref := r, art_coverage_digest := d\<rparr>"
    and sealed: "sealed H b (batches_of s i)"
  shows "all_sealed H (snd (settle_artifact s b now))"
proof -
  have ok: "artifacts_ok s" using s by (simp add: all_sealed_def)
  have "art_id b = i" using artifacts_okD(2) [OF ok a(1)] b by (simp add: artifact_entry_ok_def)
  moreover have "artifacts_ok (snd (settle_artifact s b now))" using settle_step [OF ok a st b] by (simp add: artifact_step_def)
  ultimately show ?thesis using s sealed by (auto simp: all_sealed_def settle_artifact_def)
qed

lemma abort_sealed:
  assumes s: "all_sealed H s"
  shows "all_sealed H (snd (abort_artifact s i n l now))"
  unfolding abort_artifact_def
proof (rule snd_read_op [where P = "all_sealed H", OF s], goal_cases)
  case (1 a)
  then have a: "map_of (as_artifacts s) (strip i) = Some a" by (simp add: require_artifact_Inr)
  have "all_sealed H (snd (settle_artifact s (a\<lparr>art_status := Artifact_ABORTED, art_revision := art_revision a + 1\<rparr>) now))"
    if "art_status a = Artifact_OPEN"
    by (rule settle_sealed [OF s a that, where st = Artifact_ABORTED and r = "art_resource_ref a" and d = "art_coverage_digest a"])
       (use s a in \<open>simp_all add: all_sealed_def sealed_def\<close>)
  then show ?case using s by (auto simp: read_op_def require_open_def split: sum.splits)
qed

lemma call_sealed:
  assumes s: "all_sealed H s" and cmd: "retaining_cmd_ok cmd" "\<not> commits cmd"
  shows "all_sealed H (artifact_after H available s cmd)"
proof -
  have ok: "artifacts_ok s" using s by (simp add: all_sealed_def)
  have ok': "artifacts_ok (artifact_after H available s cmd)"
    using artifact_after_step [OF ok cmd(1)] by (simp add: artifact_step_def)
  show ?thesis
    using cmd ok ok'
    by (cases cmd) (auto simp: retaining_cmd_ok_def claim_ops_same maintain_same
        intro: create_sealed [OF s] abort_sealed [OF s] same_store_sealed [OF s])
qed

text \<open>
  Optimistic concurrency: a reader that saw the revision at which the write later succeeds has
  read the batches that the write extends.
\<close>

lemma same_revision_same_batches:
  assumes "artifacts_advance s1 s2" and "artifacts_advance s2 s"
    and "map_of (as_artifacts s1) i = Some a1" and "map_of (as_artifacts s) i = Some a" and "art_revision a = art_revision a1"
  shows "a1 = a \<and> map_of (as_artifacts s2) i = Some a \<and> batches_of s2 i = batches_of s i"
proof -
  obtain a2 where a2: "map_of (as_artifacts s2) i = Some a2" "artifact_moves (a1, batches_of s1 i) (a2, batches_of s2 i)"
    using artifacts_advanceD [OF assms(1,3)] by blast
  have m: "artifact_moves (a2, batches_of s2 i) (a, batches_of s i)"
    using artifacts_advanceD [OF assms(2) a2(1)] assms(4) by (metis option.inject)
  have "art_revision a1 \<le> art_revision a2" "art_revision a2 \<le> art_revision a"
    using a2(2) m by (simp_all add: artifact_moves_def)
  then have "art_revision a2 = art_revision a1" using assms(5) by simp
  then have "a2 = a1" "a = a2 \<and> batches_of s i = batches_of s2 i" using a2(2) m assms(5) by (simp_all add: artifact_moves_def)
  then show ?thesis using a2(1) by simp
qed

lemma lifecycle_require_Inr: "lifecycle_require s i = Inr a \<longleftrightarrow> map_of (as_artifacts s) (strip i) = Some a"
  by (simp add: lifecycle_require_def load_artifact_def split: option.splits)

lemma list_batches_known: "list_batches s i = Inr bs \<Longrightarrow> bs = batches_of s i"
  by (simp add: list_batches_def bind_result_Inr_iff)

lemma lifecycle_append_cases:
  assumes ok: "artifacts_ok s" "artifacts_ok s1" and c: "append_ok c" "0 \<le> now"
    and adv: "artifacts_advance s1 s2" "artifacts_advance s2 s"
  obtains (same) "snd (lifecycle_append H vb s0 s1 s2 s c now) = s"
  | (commit) a cl where "map_of (as_artifacts s) (aac_artifact_id c) = Some a" "art_id a = aac_artifact_id c"
      "art_status a = Artifact_OPEN" "distinct (coverage_of (batches_of s (aac_artifact_id c)) @ aac_coverage_keys c)
        \<or> \<not> distinct (coverage_of (batches_of s (aac_artifact_id c)))"
      "lifecycle_append H vb s0 s1 s2 s c now = append_batch H s c now"
      "snd (lifecycle_append H vb s0 s1 s2 s c now)
        = commit_batch s a (batch_for H a c) (aac_content_digest H c) (renewed_claim cl a c now) now"
proof (cases "lifecycle_append H vb s0 s1 s2 s c now = append_batch H s c now")
  case False
  have "snd (lifecycle_append H vb s0 s1 s2 s c now) = s"
    using False by (auto simp: lifecycle_append_def read_op_def split: sum.splits option.splits)
  then show thesis by (rule same)
next
  case True
  show thesis
  proof (cases "snd (append_batch H s c now) = s")
    case True
    then show thesis using same \<open>lifecycle_append H vb s0 s1 s2 s c now = append_batch H s c now\<close> by simp
  next
    case False
    obtain a cl where cm: "map_of (as_artifacts s) (aac_artifact_id c) = Some a" "art_status a = Artifact_OPEN"
      "art_revision a = aac_expected_revision c"
      "append_batch H s c now = (Inr (receipt_of (batch_for H a c)),
         commit_batch s a (batch_for H a c) (aac_content_digest H c) (renewed_claim cl a c now) now)"
      by (rule append_cases [OF ok(1) c, where H = H]) (use False in auto)
    have id: "art_id a = aac_artifact_id c" using artifacts_okD(2) [OF ok(1) cm(1)] by (simp add: artifact_entry_ok_def)
    have str: "strip (aac_artifact_id c) = aac_artifact_id c" using append_okD(1) [OF c(1)] by (simp add: clean_id_def)
    have diff: "snd (lifecycle_append H vb s0 s1 s2 s c now) \<noteq> s" using True False by simp
    obtain a1 bs where r: "lifecycle_require s1 (aac_artifact_id c) = Inr a1" "art_revision a1 = aac_expected_revision c"
      "list_batches s2 (art_id a1) = Inr bs" "distinct (aac_coverage_keys c)" "set (coverage_of bs) \<inter> set (aac_coverage_keys c) = {}"
      using diff
      by (auto simp: lifecycle_append_def read_op_def lifecycle_require_revision_def duplicates_empty
          split: sum.splits option.splits if_splits)
    have a1: "map_of (as_artifacts s1) (aac_artifact_id c) = Some a1" using r(1) str by (simp add: lifecycle_require_Inr)
    have "a1 = a \<and> batches_of s2 (aac_artifact_id c) = batches_of s (aac_artifact_id c)"
      using same_revision_same_batches [OF adv a1 cm(1)] cm(3) r(2) by simp
    then have "bs = batches_of s (aac_artifact_id c)" using list_batches_known [OF r(3)] id by simp
    then have "distinct (coverage_of (batches_of s (aac_artifact_id c)) @ aac_coverage_keys c)
        \<or> \<not> distinct (coverage_of (batches_of s (aac_artifact_id c)))" using r(4,5) by auto
    then show thesis using commit [OF cm(1) id cm(2) _ True] True cm(4) by simp
  qed
qed

lemma lifecycle_append_sealed:
  assumes s: "all_sealed H s" and ok: "artifacts_ok s1" and c: "append_ok c" "0 \<le> now"
    and adv: "artifacts_advance s1 s2" "artifacts_advance s2 s"
  shows "all_sealed H (snd (lifecycle_append H vb s0 s1 s2 s c now))"
    and "artifact_step s (snd (lifecycle_append H vb s0 s1 s2 s c now))"
proof -
  have oks: "artifacts_ok s" using s by (simp add: all_sealed_def)
  have "all_sealed H (snd (lifecycle_append H vb s0 s1 s2 s c now)) \<and> artifact_step s (snd (lifecycle_append H vb s0 s1 s2 s c now))"
  proof (cases rule: lifecycle_append_cases [OF oks ok c adv, where H = H and vb = vb and ?s0.0 = s0, case_names same commit])
    case same
    then show ?thesis using s oks by (simp add: artifact_step_refl)
  next
    case (commit a cl)
    have step: "artifact_step s (snd (lifecycle_append H vb s0 s1 s2 s c now))" using append_step [OF oks c] commit(5) by simp
    have d: "distinct (coverage_of (batches_of s (aac_artifact_id c)) @ aac_coverage_keys c)"
      using commit(1,4) s by (auto simp: all_sealed_def sealed_def)
    have "sealed H (committed a (batch_for H a c)) (batches_of s (aac_artifact_id c) @ [batch_for H a c])"
      using d commit(3) by (simp add: sealed_def batch_for_def committed_def)
    then have "all_sealed H (snd (lifecycle_append H vb s0 s1 s2 s c now))"
      using step s commit(2) unfolding all_sealed_def artifact_step_def commit(6) by (auto simp: commit_batch_def)
    then show ?thesis using step by simp
  qed
  then show "all_sealed H (snd (lifecycle_append H vb s0 s1 s2 s c now))" "artifact_step s (snd (lifecycle_append H vb s0 s1 s2 s c now))"
    by simp_all
qed

lemma finalize_changes:
  assumes "snd (finalize_artifact s c d now) \<noteq> s"
  obtains a where "map_of (as_artifacts s) (strip (afc_artifact_id c)) = Some a" "art_status a = Artifact_OPEN"
    "art_revision a = afc_expected_revision c"
    "finalize_artifact s c d now = settle_artifact s (a\<lparr>art_status := Artifact_FINALIZED, art_revision := art_revision a + 1,
       art_resource_ref := afc_resource_ref c, art_coverage_digest := optional_text (Some d)\<rparr>) now"
  using assms
  by (auto simp: finalize_artifact_def read_op_def require_artifact_Inr require_open_def require_revision_def split: sum.splits if_splits)

lemma lifecycle_finalize_Inr:
  assumes "snd (lifecycle_finalize H vf s1 s2 s c now) \<noteq> s"
  obtains a bs where "map_of (as_artifacts s1) (strip (afc_artifact_id c)) = Some a" "art_status a = Artifact_OPEN"
    "art_revision a = afc_expected_revision c" "list_batches s2 (art_id a) = Inr bs"
    "\<forall>n. art_expected_item_count a = Some n \<longrightarrow> art_committed_item_count a = n"
    "\<forall>n. afc_expected_item_count c = Some n \<longrightarrow> art_committed_item_count a = n"
    "afc_expected_coverage_keys c = [] \<or> set (coverage_of bs) = set (afc_expected_coverage_keys c)"
    "lifecycle_finalize H vf s1 s2 s c now = finalize_artifact s c (coverage_digest H (coverage_of bs)) now"
proof -
  obtain a where a: "lifecycle_require s1 (afc_artifact_id c) = Inr a" "art_status a = Artifact_OPEN" "art_revision a = afc_expected_revision c"
    using assms by (auto simp: lifecycle_finalize_def read_op_def lifecycle_require_open_def lifecycle_require_revision_def split: sum.splits if_splits)
  have count: "\<not> (case (art_expected_item_count a, afc_expected_item_count c) of (Some m, Some n) \<Rightarrow> m \<noteq> n | _ \<Rightarrow> False)"
    "\<not> (case (case afc_expected_item_count c of Some n \<Rightarrow> Some n | None \<Rightarrow> art_expected_item_count a) of None \<Rightarrow> False
        | Some n \<Rightarrow> art_committed_item_count a \<noteq> n)"
    using assms a by (auto simp: lifecycle_finalize_def read_op_def lifecycle_require_open_def lifecycle_require_revision_def Let_def)
  obtain bs where bs: "list_batches s2 (art_id a) = Inr bs"
      "afc_expected_coverage_keys c = [] \<or> set (coverage_of bs) = set (afc_expected_coverage_keys c)"
      "lifecycle_finalize H vf s1 s2 s c now = finalize_artifact s c (coverage_digest H (coverage_of bs)) now"
    using assms a count
    by (simp add: lifecycle_finalize_def read_op_def lifecycle_require_open_def lifecycle_require_revision_def Let_def
        split: sum.splits if_splits)
  show thesis
  proof (rule that [OF _ a(2,3) bs(1) _ _ bs(2,3)])
    show "map_of (as_artifacts s1) (strip (afc_artifact_id c)) = Some a" using a(1) by (simp add: lifecycle_require_Inr)
    show "\<forall>n. art_expected_item_count a = Some n \<longrightarrow> art_committed_item_count a = n"
      "\<forall>n. afc_expected_item_count c = Some n \<longrightarrow> art_committed_item_count a = n"
      using count by (auto split: option.splits)
  qed
qed

lemma lifecycle_finalize_sealed:
  assumes s: "all_sealed H s" and ok: "artifacts_ok s1"
    and adv: "artifacts_advance s1 s2" "artifacts_advance s2 s"
  shows "all_sealed H (snd (lifecycle_finalize H vf s1 s2 s c now))" and "artifact_step s (snd (lifecycle_finalize H vf s1 s2 s c now))"
proof -
  let ?t = "snd (lifecycle_finalize H vf s1 s2 s c now)"
  have oks: "artifacts_ok s" using s by (simp add: all_sealed_def)
  have "all_sealed H ?t \<and> artifact_step s ?t"
  proof (cases "?t = s")
    case True
    then show ?thesis using s oks by (simp add: artifact_step_refl)
  next
    case False
    let ?i = "strip (afc_artifact_id c)"
    obtain a1 bs where r: "map_of (as_artifacts s1) ?i = Some a1" "art_revision a1 = afc_expected_revision c"
      "list_batches s2 (art_id a1) = Inr bs" "\<forall>n. art_expected_item_count a1 = Some n \<longrightarrow> art_committed_item_count a1 = n"
      "lifecycle_finalize H vf s1 s2 s c now = finalize_artifact s c (coverage_digest H (coverage_of bs)) now"
      by (rule lifecycle_finalize_Inr [OF False])
    have ne: "snd (finalize_artifact s c (coverage_digest H (coverage_of bs)) now) \<noteq> s" using False r(5) by simp
    obtain a where a: "map_of (as_artifacts s) ?i = Some a" "art_status a = Artifact_OPEN" "art_revision a = afc_expected_revision c"
      and eq: "finalize_artifact s c (coverage_digest H (coverage_of bs)) now = settle_artifact s (a\<lparr>art_status := Artifact_FINALIZED,
         art_revision := art_revision a + 1, art_resource_ref := afc_resource_ref c,
         art_coverage_digest := optional_text (Some (coverage_digest H (coverage_of bs)))\<rparr>) now"
      by (rule finalize_changes [OF ne])
    have e: "artifact_entry_ok s ?i a" using artifacts_okD(2) [OF oks a(1)] .
    have same: "a1 = a \<and> batches_of s2 ?i = batches_of s ?i"
      using same_revision_same_batches [OF adv r(1) a(1)] a(3) r(2) by simp
    then have bs: "bs = batches_of s ?i" using list_batches_known [OF r(3)] e by (simp add: artifact_entry_ok_def)
    have "sealed H a (batches_of s ?i)" using s a(1) by (simp add: all_sealed_def)
    then have "all_sealed H ?t" unfolding r(5) eq
      using e r(4) same bs
      by (intro settle_sealed [OF s a(1,2) _ refl]) (simp_all add: sealed_def artifact_entry_ok_def artifact_ok_def)
    then show ?thesis using finalize_artifact_step [OF oks] r(5) by simp
  qed
  then show "all_sealed H ?t" "artifact_step s ?t" by simp_all
qed

section \<open>Every history\<close>

lemma observed_in: "observed hs xs \<Longrightarrow> x \<in> set xs \<Longrightarrow> x \<in> set hs"
  by (induction hs xs rule: observed.induct) auto

lemma observed_sorted:
  assumes "\<And>x. R x x" and "sorted_wrt R hs" and "observed hs (x # y # xs)"
  shows "R x y"
  using assms(2,3)
proof (induction hs)
  case (Cons h hs)
  then show ?case using assms(1) by (auto dest: observed_in)
qed simp

lemma observed_tl: "observed hs (x # xs) \<Longrightarrow> observed hs xs"
proof (induction hs)
  case (Cons h hs)
  then show ?case by (cases xs) auto
qed simp

lemma history_sealed:
  assumes "artifact_history H available vb vf hs"
  shows "hs \<noteq> [] \<and> list_all (all_sealed H) hs \<and> sorted_wrt (\<lambda>new old. artifacts_advance old new) hs"
  using assms
proof induction
  case hist_start
  then show ?case by (simp add: all_sealed_def empty_artifacts_ok) (simp add: empty_artifacts_def)
next
  case (hist_call s hs cmd)
  have s: "all_sealed H s" using hist_call.IH by simp
  then have "artifacts_advance s (artifact_after H available s cmd)"
    using artifact_after_step [OF _ hist_call.hyps(2)] by (simp add: all_sealed_def artifact_step_def)
  then show ?case using hist_call call_sealed [OF s] by (auto intro: artifacts_advance_trans)
next
  case (hist_append s hs c now s2 s1 s0)
  have srt: "sorted_wrt (\<lambda>new old. artifacts_advance old new) (s # hs)" using hist_append.IH by simp
  have in': "s1 \<in> set (s # hs)" "s2 \<in> set (s # hs)" using observed_in [OF hist_append.hyps(4)] by auto
  have adv: "artifacts_advance s1 s2" "artifacts_advance s2 s"
    using observed_sorted [OF artifacts_advance_refl srt hist_append.hyps(4)] srt in'(2) by (auto intro: artifacts_advance_refl)
  have "all_sealed H s" "artifacts_ok s1" using hist_append.IH in'(1) by (auto simp: list_all_iff all_sealed_def)
  note L = lifecycle_append_sealed [OF this hist_append.hyps(2,3) adv, where vb = vb and ?s0.0 = s0]
  show ?case using hist_append.IH L by (auto simp: artifact_step_def intro: artifacts_advance_trans)
next
  case (hist_finalize s hs c s2 s1 now)
  have srt: "sorted_wrt (\<lambda>new old. artifacts_advance old new) (s # hs)" using hist_finalize.IH by simp
  have in': "s1 \<in> set (s # hs)" "s2 \<in> set (s # hs)" using observed_in [OF hist_finalize.hyps(3)] by auto
  have adv: "artifacts_advance s1 s2" "artifacts_advance s2 s"
    using observed_sorted [OF artifacts_advance_refl srt hist_finalize.hyps(3)] srt in'(2) by (auto intro: artifacts_advance_refl)
  have "all_sealed H s" "artifacts_ok s1" using hist_finalize.IH in'(1) by (auto simp: list_all_iff all_sealed_def)
  note L = lifecycle_finalize_sealed [OF this adv, where vf = vf and c = c and now = now]
  show ?case using hist_finalize.IH L by (auto simp: artifact_step_def intro: artifacts_advance_trans)
qed

section \<open>Grants\<close>

lemma decide_access_allowed:
  assumes "decide_access c r cross = Inr d" and "aad_allowed d"
  shows "arc_artifact_id c = aar_artifact_id r" and "arc_created_by_run_id c = aar_run_id r \<or> cross"
    and "arc_status c \<noteq> Artifact_ABORTED" and "arc_revision c = aar_expected_revision r"
    and "aar_mode r = Access_WRITE \<Longrightarrow> arc_status c = Artifact_OPEN"
    and "aad_requires_write_claim d \<longleftrightarrow> aar_mode r = Access_WRITE"
proof -
  have none: "access_denial_reason c r cross = None" and req: "aad_requires_write_claim d \<longleftrightarrow> aar_mode r = Access_WRITE"
    using assms by (auto simp: decide_access_def Let_def ArtifactAccessDecision_post_init_def bind_result_Inr_iff split: if_splits)
  show "aad_requires_write_claim d \<longleftrightarrow> aar_mode r = Access_WRITE" by (rule req)
  show "arc_artifact_id c = aar_artifact_id r" "arc_created_by_run_id c = aar_run_id r \<or> cross"
    "arc_status c \<noteq> Artifact_ABORTED" "arc_revision c = aar_expected_revision r"
    using none by (auto simp: access_denial_reason_def split: if_splits)
  show "aar_mode r = Access_WRITE \<Longrightarrow> arc_status c = Artifact_OPEN"
    using none by (cases "arc_status c") (auto simp: access_denial_reason_def split: if_splits)
qed

lemma acquire_Inr:
  assumes ok: "artifacts_ok s" and dur: "0 < awc_lease_duration_ms wc" and cl: "acquire_claim s wc token now = (Inr cl, t)"
  shows "\<exists>a. map_of (as_artifacts t) (strip (awc_artifact_id wc)) = Some a \<and> art_status a = Artifact_OPEN
      \<and> art_revision a = awc_expected_revision wc"
    and "map_of (as_claims t) (strip (awc_artifact_id wc)) = Some cl" and "now < clm_expires_at_ms cl"
    and "as_artifacts t = as_artifacts s \<and> as_batches t = as_batches s"
proof -
  obtain a where a: "map_of (as_artifacts s) (strip (awc_artifact_id wc)) = Some a" "art_status a = Artifact_OPEN"
      "art_revision a = awc_expected_revision wc"
    using cl by (auto simp: acquire_claim_def read_op_Inr require_Inr)
  have id: "art_id a = strip (awc_artifact_id wc)" using artifacts_okD(2) [OF ok a(1)] by (simp add: artifact_entry_ok_def)
  have same: "as_artifacts t = as_artifacts s \<and> as_batches t = as_batches s" using claim_ops_same(1) [of s wc token now] cl by simp
  show "as_artifacts t = as_artifacts s \<and> as_batches t = as_batches s" by (rule same)
  show "\<exists>a. map_of (as_artifacts t) (strip (awc_artifact_id wc)) = Some a \<and> art_status a = Artifact_OPEN
      \<and> art_revision a = awc_expected_revision wc" using a same by simp
  have "map_of (as_claims t) (art_id a) = Some cl \<and> now < clm_expires_at_ms cl"
  proof (cases "active_claim s (art_id a) now")
    case (Some cur)
    then have "cl = cur \<and> t = s" using cl a by (auto simp: acquire_claim_def read_op_Inr require_Inr split: if_splits)
    then show ?thesis using Some by (simp add: active_claim_Some)
  next
    case None
    then show ?thesis using cl a dur
      by (auto simp: acquire_claim_def read_op_Inr require_Inr dest!: claim_post_init_Inr)
  qed
  then show "map_of (as_claims t) (strip (awc_artifact_id wc)) = Some cl" "now < clm_expires_at_ms cl" using id by simp_all
qed

lemma candidate_id: "constructed ArtifactResumeCandidate_post_init c \<Longrightarrow> strip (arc_artifact_id c) = arc_artifact_id c"
  by (auto simp: constructed_def ArtifactResumeCandidate_post_init_def bind_result_Inr_iff required_text_Inr
      dest: arg_cong [of _ _ arc_artifact_id] split: if_splits)

lemma ArtifactAccessGrant_Inr: "ArtifactAccessGrant_post_init g = Inr h \<Longrightarrow> h = g"
  by (auto simp: ArtifactAccessGrant_post_init_def Let_def split: if_splits)

lemma access_authorize_Inr:
  assumes "access_authorize f s c r dur token now = (Inr g, t)"
  obtains cross d where "cross_run_authorized f c r = Inr cross" "decide_access c r cross = Inr d" "aad_allowed d" "aag_decision g = d"
    "aar_mode r = Access_READ \<longrightarrow> t = s \<and> aag_write_claim g = None"
    "aar_mode r = Access_WRITE \<longrightarrow> (\<exists>n wc cl. dur = Some n \<and> ArtifactWriteClaimCommand_post_init \<lparr>awc_artifact_id = arc_artifact_id c,
        awc_run_id = aar_run_id r, awc_expected_revision = aar_expected_revision r, awc_lease_duration_ms = n\<rparr> = Inr wc
      \<and> acquire_claim s wc token now = (Inr cl, t) \<and> aag_write_claim g = Some cl \<and> clm_run_id cl = aar_run_id r)"
proof -
  obtain cross d where d: "cross_run_authorized f c r = Inr cross" "decide_access c r cross = Inr d" "aad_allowed d"
    using assms by (auto simp: access_authorize_def read_op_Inr split: if_splits)
  note w = decide_access_allowed(6) [OF d(2,3)]
  show thesis
  proof (cases "aar_mode r")
    case Access_READ
    then have "t = s" "g = \<lparr>aag_decision = d, aag_write_claim = None\<rparr>"
      using assms d w by (auto simp: access_authorize_def read_op_def split: if_splits sum.splits dest: ArtifactAccessGrant_Inr)
    then show thesis using that [OF d] Access_READ by simp
  next
    case Access_WRITE
    then obtain n wc cl where n: "dur = Some n" "ArtifactWriteClaimCommand_post_init \<lparr>awc_artifact_id = arc_artifact_id c,
        awc_run_id = aar_run_id r, awc_expected_revision = aar_expected_revision r, awc_lease_duration_ms = n\<rparr> = Inr wc"
      "acquire_claim s wc token now = (Inr cl, t)" "g = \<lparr>aag_decision = d, aag_write_claim = Some cl\<rparr>" "clm_run_id cl = aar_run_id r"
      using assms d w
      by (auto simp: access_authorize_def read_op_Inr bind_op_Inr split: if_splits option.splits dest!: ArtifactAccessGrant_Inr)
    then show thesis using that [OF d] Access_WRITE by auto
  qed
qed

end
