(* ===== verification/Artifact_Properties.thy ===== *)
theory Artifact_Properties
  imports Artifact_Lifecycle
begin

text \<open>
  The properties of artifacts: the invariant of the store, what is kept of committed content, single
  commits, exclusive claims, interleaved commits, access grants and maintenance.
\<close>

section \<open>A concrete artifact\<close>

definition sample_new :: artifact_create_command where
  "sample_new = \<lparr>acc_namespace = ''n'', acc_kind = ''k'', acc_owner_id = ''o'', acc_owner_ref = \<lparr>ao_kind = ''run'', ao_id = ''r''\<rparr>,
     acc_created_by_run_id = ''r'', acc_schema_version = 1, acc_expected_item_count = Some 2, acc_metadata = []\<rparr>"

definition sample_lease :: "string \<Rightarrow> artifact_mutation_lease" where
  "sample_lease token = \<lparr>aml_run_id = ''r'', aml_claim_token = token, aml_lease_duration_ms = 100\<rparr>"

definition sample_batch :: "string \<Rightarrow> string \<Rightarrow> artifact_append_command" where
  "sample_batch token key = \<lparr>aac_artifact_id = ''a'', aac_expected_revision = 1, aac_sequence = 1, aac_batch_id = ''b'',
     aac_idempotency_key = key, aac_items = [[], []], aac_write_lease = sample_lease token, aac_coverage_keys = [''x'', ''y'']\<rparr>"

definition sample_final :: artifact_finalize_command where
  "sample_final = \<lparr>afc_artifact_id = ''a'', afc_expected_revision = 2, afc_write_lease = sample_lease ''t'',
     afc_expected_item_count = None, afc_expected_coverage_keys = [''x'', ''y''], afc_resource_ref = None\<rparr>"

definition sample_claiming :: "artifact_cmd list" where
  "sample_claiming = [Create_Artifact ''a'' sample_new 0,
     Acquire_Claim \<lparr>awc_artifact_id = ''a'', awc_run_id = ''r'', awc_expected_revision = 1, awc_lease_duration_ms = 100\<rparr> ''t'' 0]"

definition sample_purge :: artifact_cmd where
  "sample_purge = Maintain_Artifacts \<lparr>amp_terminal_retention_ms = Some 10, amp_max_purge_artifacts = 5\<rparr> 1000"

text \<open>The hash of the examples tells contents apart by the number of their items.\<close>

fun sample_hash :: "json \<Rightarrow> string" where
  "sample_hash (JObj kvs) = (case map_of kvs ''items'' of Some (JList xs) \<Rightarrow> show_nat (length xs) | _ \<Rightarrow> ''o'')"
| "sample_hash j = ''c''"

abbreviation all_runs :: "string \<Rightarrow> bool" where
  "all_runs \<equiv> \<lambda>_. True"

abbreviation stored_after :: "(json \<Rightarrow> string) \<Rightarrow> (string \<Rightarrow> bool) \<Rightarrow> artifact_cmd list \<Rightarrow> artifact_state" where
  "stored_after H available cmds \<equiv> drive (artifact_react H available) empty_artifacts cmds"

lemma stored_after_ok: "list_all artifact_cmd_ok cmds \<Longrightarrow> artifacts_ok (stored_after H available cmds)"
  using empty_artifacts_ok by (rule artifact_store.drive_inv)

section \<open>Properties\<close>

text \<open>C31. Every sequence of calls of the artifact store, returning or raising, purges included, keeps its
  seven dictionaries consistent: the record of an artifact counts its batches, items and revisions,
  batches are numbered without a gap and their idempotency keys differ, every owner identity leads to one artifact, every batch
  and nothing else has a receipt and a digest, and every claim is for an open artifact at its
  current revision.\<close>

theorem artifact_store_keeps_invariant:
  assumes "list_all artifact_cmd_ok cmds"
  shows "artifacts_ok (stored_after H available cmds)"
  using assms by (rule stored_after_ok)

theorem artifact_store_keeps_invariant_witness:
  "artifacts_ok (stored_after sample_hash all_runs (sample_claiming @
     [Append_Batch (sample_batch ''t'' ''k'') 10, Finalize_Artifact sample_final ''d'' 20, sample_purge]))
   \<and> as_batches (stored_after sample_hash all_runs (sample_claiming @
     [Append_Batch (sample_batch ''t'' ''k'') 10, Finalize_Artifact sample_final ''d'' 20, sample_purge])) = []
   \<and> map (length \<circ> snd) (as_batches (stored_after sample_hash all_runs (sample_claiming @
     [Append_Batch (sample_batch ''t'' ''k'') 10, Finalize_Artifact sample_final ''d'' 20]))) = [1]"
proof (intro conjI)
  show "artifacts_ok (stored_after sample_hash all_runs (sample_claiming @
     [Append_Batch (sample_batch ''t'' ''k'') 10, Finalize_Artifact sample_final ''d'' 20, sample_purge]))"
    by (rule artifact_store_keeps_invariant) code_simp
qed code_simp+

text \<open>C32. Without purging, whatever calls follow: an artifact stays, with the same identity, owner and
  manifest; its batches are only added to at the end; its revision never falls and an unchanged
  revision means an unchanged artifact; and a finalized or aborted artifact is never changed again.\<close>

theorem committed_content_is_kept:
  assumes "list_all artifact_cmd_ok cmds" and "list_all retaining_cmd_ok later"
    and "s = stored_after H available cmds" and "t = stored_after H available (cmds @ later)"
    and "map_of (as_artifacts s) i = Some a"
  shows "\<exists>a'. map_of (as_artifacts t) i = Some a' \<and> art_id a' = art_id a \<and> artifact_key a' = artifact_key a
     \<and> art_expected_item_count a' = art_expected_item_count a \<and> prefix (batches_of s i) (batches_of t i)
     \<and> art_revision a \<le> art_revision a'
     \<and> (art_revision a' = art_revision a \<or> art_status a \<noteq> Artifact_OPEN \<longrightarrow> a' = a \<and> batches_of t i = batches_of s i)"
proof -
  have "artifacts_ok s" using assms(1,3) stored_after_ok by simp
  then have adv: "artifacts_advance s t"
    using retaining_store.drive_leads [OF _ assms(2)] assms(3,4) by (simp add: drive_append)
  obtain a' where a': "map_of (as_artifacts t) i = Some a'" "artifact_moves (a, batches_of s i) (a', batches_of t i)"
    by (rule artifacts_advanceD [OF adv assms(5)])
  show ?thesis using a' artifact_moves_identity [OF a'(2)] by (intro exI [of _ a']) (simp add: artifact_moves_def)
qed

theorem committed_content_is_kept_witness:
  "\<exists>a'. map_of (as_artifacts (stored_after sample_hash all_runs (sample_claiming @ [Append_Batch (sample_batch ''t'' ''k'') 10]))) ''a'' = Some a'
     \<and> art_revision a' = 2"
proof -
  let ?c = "Append_Batch (sample_batch ''t'' ''k'') 10"
  have 1: "list_all artifact_cmd_ok sample_claiming" by code_simp
  have 2: "list_all retaining_cmd_ok [?c]" by code_simp
  have 3: "map_of (as_artifacts (stored_after sample_hash all_runs sample_claiming)) ''a'' = Some (new_artifact ''a'' sample_new)" by code_simp
  have "map_option art_revision (map_of (as_artifacts (stored_after sample_hash all_runs (sample_claiming @ [?c]))) ''a'') = Some 2" by code_simp
  then show ?thesis using committed_content_is_kept [OF 1 2 refl refl 3] by auto
qed

text \<open>C33. A commit happens once: after an append has returned its receipt, repeating the command at
  any later time, after any calls that do not purge, returns the same receipt marked as replayed
  and changes nothing, even when the claim is gone or the artifact is finalized. The same
  idempotency key with another content is refused.\<close>

theorem append_happens_once:
  assumes "list_all artifact_cmd_ok cmds" and "list_all retaining_cmd_ok later" and "append_ok c" and "0 \<le> now"
    and "append_batch H (stored_after H available cmds) c now = (Inr r, s)"
    and "t = drive (artifact_react H available) s later"
  shows "append_batch H t c now' = (Inr (r\<lparr>abr_replayed := True\<rparr>), t)
     \<and> (\<forall>c'. aac_artifact_id c' = aac_artifact_id c \<and> aac_idempotency_key c' = aac_idempotency_key c
          \<and> aac_content_digest H c' \<noteq> aac_content_digest H c \<longrightarrow>
        append_batch H t c' now' = (Inl (ArtifactConflictError ''artifact_idempotency_conflict'' ''artifact idempotency key conflicts''), t))"
proof -
  have ok: "artifacts_ok (stored_after H available cmds)" using assms(1) by (rule stored_after_ok)
  have s: "artifacts_ok s" using append_step [OF ok assms(3,4), of H] assms(5) by (simp add: artifact_step_def)
  have "replayable H c r s" by (rule append_replayable [OF ok assms(3-5)])
  then have rep: "replayable H c r t"
    using replayable_advance retaining_store.drive_leads [OF s assms(2)] assms(6) by blast
  then show ?thesis using replayable_append [OF rep] other_content_conflicts [OF rep] by simp
qed

theorem append_happens_once_witness:
  "\<exists>r s t. append_batch sample_hash (stored_after sample_hash all_runs sample_claiming) (sample_batch ''t'' ''k'') 10 = (Inr r, s)
     \<and> abr_replayed r = False \<and> t = drive (artifact_react sample_hash all_runs) s [Finalize_Artifact sample_final ''d'' 20]
     \<and> append_batch sample_hash t (sample_batch ''t'' ''k'') 500 = (Inr (r\<lparr>abr_replayed := True\<rparr>), t)"
proof -
  let ?m = "append_batch sample_hash (stored_after sample_hash all_runs sample_claiming) (sample_batch ''t'' ''k'') 10"
  have "case fst ?m of Inl e \<Rightarrow> False | Inr r \<Rightarrow> abr_replayed r = False" by code_simp
  then obtain r s where r: "?m = (Inr r, s)" "abr_replayed r = False" by (cases ?m) (auto split: sum.splits)
  have "append_batch sample_hash (drive (artifact_react sample_hash all_runs) s [Finalize_Artifact sample_final ''d'' 20])
      (sample_batch ''t'' ''k'') 500 = (Inr (r\<lparr>abr_replayed := True\<rparr>), drive (artifact_react sample_hash all_runs) s [Finalize_Artifact sample_final ''d'' 20])"
    by (rule append_happens_once [OF _ _ _ _ r(1) refl, THEN conjunct1]) code_simp+
  then show ?thesis using r by blast
qed

text \<open>C34. While a claim has not expired and its Run is available, no sequence of calls by others can
  change the claimed artifact, add to its batches or take the claim away: calls are foreign when
  they come before the expiry, do not present the token of the claim and do not release the
  claims of its Run. Afterwards the holder can still renew the claim.\<close>

theorem live_claim_excludes_writers:
  assumes "list_all artifact_cmd_ok cmds" and "list_all (\<lambda>cmd. artifact_cmd_ok cmd \<and> foreign_cmd c cmd) others"
    and "s = stored_after H available cmds" and "t = stored_after H available (cmds @ others)"
    and "map_of (as_claims s) i = Some c" and "available (clm_run_id c)"
    and "0 \<le> now" and "now < clm_expires_at_ms c" and "0 < n"
  shows "map_of (as_claims t) i = Some c \<and> map_of (as_artifacts t) i = map_of (as_artifacts s) i
     \<and> map_of (as_batches t) i = map_of (as_batches s) i \<and> map_of (as_artifacts s) i \<noteq> None
     \<and> (\<exists>c' t'. renew_claim t \<lparr>acl_artifact_id = i, acl_run_id = clm_run_id c, acl_claim_token = clm_claim_token c,
          acl_lease_duration_ms = Some n\<rparr> now = (Inr c', t') \<and> clm_expires_at_ms c' = now + n)"
proof -
  have ok: "artifacts_ok s" using assms(1,3) stored_after_ok by simp
  obtain a where a: "map_of (as_artifacts s) i = Some a" using artifacts_okD(8) [OF ok assms(5)] by (auto simp: claim_ok_def)
  obtain bs where "map_of (as_batches s) i = Some bs" by (rule batches_known [OF ok a])
  then have h: "holds s i c a bs" using assms(5) a by (simp add: holds_def)
  then have "exclusive i c a bs t"
    using foreign_calls_hold [where available = available, OF _ assms(2,6)] ok assms(3,4) by (simp add: exclusive_def drive_append)
  then have tok: "artifacts_ok t" and t: "holds t i c a bs" by (simp_all add: exclusive_def)
  show ?thesis using h t holder_renews [OF tok t assms(7-9)] by (simp add: holds_def)
qed

theorem live_claim_excludes_writers_witness:
  "map_of (as_claims (stored_after sample_hash all_runs (sample_claiming @
      [Append_Batch (sample_batch ''u'' ''k'') 10, Abort_Artifact ''a'' 1 (sample_lease ''u'') 20, Release_For_Run ''q'']))) ''a''
    = Some \<lparr>clm_artifact_id = ''a'', clm_run_id = ''r'', clm_claim_token = ''t'', clm_acquired_revision = 1, clm_expires_at_ms = 100\<rparr>"
proof -
  let ?o = "[Append_Batch (sample_batch ''u'' ''k'') 10, Abort_Artifact ''a'' 1 (sample_lease ''u'') 20, Release_For_Run ''q'']"
  let ?c = "\<lparr>clm_artifact_id = ''a'', clm_run_id = ''r'', clm_claim_token = ''t'', clm_acquired_revision = 1, clm_expires_at_ms = 100\<rparr>"
  have 1: "list_all artifact_cmd_ok sample_claiming" by code_simp
  have 2: "list_all (\<lambda>cmd. artifact_cmd_ok cmd \<and> foreign_cmd ?c cmd) ?o" by code_simp
  have 3: "map_of (as_claims (stored_after sample_hash all_runs sample_claiming)) ''a'' = Some ?c" by code_simp
  show ?thesis using live_claim_excludes_writers [OF 1 2 refl refl 3, of 50 10] by simp
qed

text \<open>C35. The coordinator's checks hold under any interleaving: its reads and its write are separate
  calls of the store, yet in every state of every history no coverage key of an artifact has been
  committed twice, and a finalized artifact has exactly the number of items its manifest announced
  and the digest of the coverage of all its batches.\<close>

theorem interleaved_commits_are_sound:
  assumes "artifact_history H available vb vf hs" and "s \<in> set hs" and "map_of (as_artifacts s) i = Some a"
  shows "distinct (coverage_of (batches_of s i))
     \<and> (art_status a = Artifact_FINALIZED \<longrightarrow>
          art_coverage_digest a = optional_text (Some (coverage_digest H (coverage_of (batches_of s i))))
          \<and> (\<forall>n. art_expected_item_count a = Some n \<longrightarrow>
               sum_list (map (\<lambda>b. int (length (abt_items b))) (batches_of s i)) = n))"
proof -
  have "all_sealed H s" using history_sealed [OF assms(1)] assms(2) by (simp add: list_all_iff)
  then show ?thesis using assms(3) by (simp add: all_sealed_def sealed_def)
qed

text \<open>A batch is validated against the state before the claim and committed after it.\<close>

definition sample_states :: "artifact_state list" where
  "sample_states = (let s0 = empty_artifacts;
       s1 = artifact_after sample_hash all_runs s0 (sample_claiming ! 0);
       s2 = artifact_after sample_hash all_runs s1 (sample_claiming ! 1);
       s3 = snd (lifecycle_append sample_hash None s0 s1 s1 s2 (sample_batch ''t'' ''k'') 10);
       s4 = snd (lifecycle_finalize sample_hash None s3 s3 s3 sample_final 20) in [s4, s3, s2, s1, s0])"

lemma sample_states_history: "artifact_history sample_hash all_runs None None sample_states"
proof -
  have ok: "retaining_cmd_ok (sample_claiming ! 0)" "\<not> commits (sample_claiming ! 0)"
    "retaining_cmd_ok (sample_claiming ! 1)" "\<not> commits (sample_claiming ! 1)" by code_simp+
  have ap: "append_ok (sample_batch ''t'' ''k'')" by code_simp
  have fi: "constructed ArtifactFinalizeCommand_post_init sample_final" by code_simp
  note 1 = hist_call [OF hist_start ok(1,2), of sample_hash all_runs None None]
  note 2 = hist_call [OF 1 ok(3,4)]
  note 3 = hist_append [OF 2 ap, of 10]
  show ?thesis unfolding sample_states_def Let_def
    by (rule hist_finalize [OF 3 fi]) simp_all
qed

theorem interleaved_commits_are_sound_witness:
  "\<exists>a. map_of (as_artifacts (hd sample_states)) ''a'' = Some a \<and> art_status a = Artifact_FINALIZED
     \<and> coverage_of (batches_of (hd sample_states) ''a'') = [''x'', ''y'']
     \<and> art_coverage_digest a = optional_text (Some (coverage_digest sample_hash [''x'', ''y'']))"
proof -
  have "case map_of (as_artifacts (hd sample_states)) ''a'' of None \<Rightarrow> False | Some a \<Rightarrow> art_status a = Artifact_FINALIZED" by code_simp
  then obtain a where a: "map_of (as_artifacts (hd sample_states)) ''a'' = Some a" "art_status a = Artifact_FINALIZED"
    by (auto split: option.splits)
  have cov: "coverage_of (batches_of (hd sample_states) ''a'') = [''x'', ''y'']" by code_simp
  have "hd sample_states \<in> set sample_states" by (simp add: sample_states_def Let_def)
  from interleaved_commits_are_sound [OF sample_states_history this a(1)] show ?thesis using a cov by simp
qed

text \<open>C36. A grant is given only to the Run that created the artifact or to one the host's
  authorizer accepted, for the requested artifact at the revision it has, never for an aborted artifact. Reading changes
  nothing and takes no claim. A grant to write comes with a claim of this Run that the store
  holds, that has not expired, and whose artifact is open at the expected revision; the artifacts and
  batches are as before.\<close>

theorem access_grants_are_sound:
  assumes "list_all artifact_cmd_ok cmds" and "s = stored_after H available cmds"
    and "access_authorize authorizer s c r lease token now = (Inr g, t)" and "constructed ArtifactResumeCandidate_post_init c"
  shows "aar_artifact_id r = arc_artifact_id c \<and> aar_expected_revision r = arc_revision c \<and> arc_status c \<noteq> Artifact_ABORTED
     \<and> (aar_run_id r = arc_created_by_run_id c \<or> (\<exists>f. authorizer = Some f \<and> f c r = Inr True))
     \<and> as_artifacts t = as_artifacts s \<and> as_batches t = as_batches s
     \<and> (aar_mode r = Access_READ \<longrightarrow> t = s \<and> aag_write_claim g = None)
     \<and> (aar_mode r = Access_WRITE \<longrightarrow> (\<exists>cl a. aag_write_claim g = Some cl \<and> clm_run_id cl = aar_run_id r
          \<and> map_of (as_claims t) (arc_artifact_id c) = Some cl \<and> now < clm_expires_at_ms cl
          \<and> map_of (as_artifacts t) (arc_artifact_id c) = Some a \<and> art_status a = Artifact_OPEN
          \<and> art_revision a = aar_expected_revision r))"
proof -
  have ok: "artifacts_ok s" using assms(1,2) stored_after_ok by simp
  obtain cross d where cr: "cross_run_authorized authorizer c r = Inr cross" and d: "decide_access c r cross = Inr d" "aad_allowed d"
    and "aag_decision g = d"
    and rd: "aar_mode r = Access_READ \<longrightarrow> t = s \<and> aag_write_claim g = None"
    and wr: "aar_mode r = Access_WRITE \<longrightarrow> (\<exists>n wc cl. lease = Some n \<and> ArtifactWriteClaimCommand_post_init \<lparr>awc_artifact_id = arc_artifact_id c,
        awc_run_id = aar_run_id r, awc_expected_revision = aar_expected_revision r, awc_lease_duration_ms = n\<rparr> = Inr wc
      \<and> acquire_claim s wc token now = (Inr cl, t) \<and> aag_write_claim g = Some cl \<and> clm_run_id cl = aar_run_id r)"
    by (rule access_authorize_Inr [OF assms(3)])
  note D = decide_access_allowed [OF d]
  have run: "aar_run_id r = arc_created_by_run_id c \<or> (\<exists>f. authorizer = Some f \<and> f c r = Inr True)"
    using cr D(2) by (auto simp: cross_run_authorized_def split: if_splits option.splits)
  have wclaim: "as_artifacts t = as_artifacts s \<and> as_batches t = as_batches s \<and> (\<exists>cl a. aag_write_claim g = Some cl \<and> clm_run_id cl = aar_run_id r
          \<and> map_of (as_claims t) (arc_artifact_id c) = Some cl \<and> now < clm_expires_at_ms cl
          \<and> map_of (as_artifacts t) (arc_artifact_id c) = Some a \<and> art_status a = Artifact_OPEN
          \<and> art_revision a = aar_expected_revision r)" if m: "aar_mode r = Access_WRITE"
  proof -
    obtain n wc cl where w: "ArtifactWriteClaimCommand_post_init \<lparr>awc_artifact_id = arc_artifact_id c,
        awc_run_id = aar_run_id r, awc_expected_revision = aar_expected_revision r, awc_lease_duration_ms = n\<rparr> = Inr wc"
      "acquire_claim s wc token now = (Inr cl, t)" "aag_write_claim g = Some cl" "clm_run_id cl = aar_run_id r" using wr m by blast
    have wc: "strip (awc_artifact_id wc) = arc_artifact_id c" "awc_expected_revision wc = aar_expected_revision r" "0 < awc_lease_duration_ms wc"
      using w(1) candidate_id [OF assms(4)]
      by (auto simp: ArtifactWriteClaimCommand_post_init_def bind_result_Inr_iff required_text_Inr positive_int_Inr)
    show ?thesis using acquire_Inr [OF ok wc(3) w(2)] w(3,4) wc(1,2) by auto
  qed
  show ?thesis using D(1,3,4) run rd wclaim by (cases "aar_mode r") auto
qed

definition sample_candidate :: artifact_resume_candidate where
  "sample_candidate = \<lparr>arc_artifact_id = ''a'', arc_namespace = ''n'', arc_kind = ''k'', arc_owner_id = ''o'',
     arc_owner_ref = \<lparr>ao_kind = ''run'', ao_id = ''r''\<rparr>, arc_created_by_run_id = ''r'', arc_status = Artifact_OPEN, arc_revision = 1,
     arc_committed_item_count = 0, arc_expected_item_count = Some 2\<rparr>"

definition sample_access :: artifact_access_request where
  "sample_access = \<lparr>aar_artifact_id = ''a'', aar_run_id = ''q'', aar_mode = Access_WRITE, aar_expected_revision = 1\<rparr>"

theorem access_grants_are_sound_witness:
  "\<exists>g t cl. access_authorize (Some (\<lambda>_ _. Inr True)) (stored_after sample_hash all_runs [Create_Artifact ''a'' sample_new 0])
       sample_candidate sample_access (Some 50) ''t'' 5 = (Inr g, t)
     \<and> map_of (as_claims t) ''a'' = Some cl \<and> clm_run_id cl = ''q'' \<and> 5 < clm_expires_at_ms cl"
proof -
  let ?s = "stored_after sample_hash all_runs [Create_Artifact ''a'' sample_new 0]"
  let ?m = "access_authorize (Some (\<lambda>_ _. Inr True)) ?s sample_candidate sample_access (Some 50) ''t'' 5"
  have "case fst ?m of Inl e \<Rightarrow> False | Inr g \<Rightarrow> True" by code_simp
  then obtain g t where g: "?m = (Inr g, t)" by (cases ?m) (auto split: sum.splits)
  have 1: "list_all artifact_cmd_ok [Create_Artifact ''a'' sample_new 0]" by code_simp
  have 2: "constructed ArtifactResumeCandidate_post_init sample_candidate" by code_simp
  show ?thesis using access_grants_are_sound [OF 1 refl g 2] g by (auto simp: sample_candidate_def sample_access_def)
qed

text \<open>Maintenance always returns. It purges only artifacts that are finalized or aborted and have
  not been touched for the retention time, at most as many as the policy allows, and nothing at
  all without a retention time; every other artifact keeps its record and its batches, and exactly
  the claims that have not expired and whose Run is available are kept, the reported numbers adding
  up to all claims that were dropped.\<close>

theorem maintenance_purges_only_old_artifacts:
  assumes "list_all artifact_cmd_ok cmds" and "s = stored_after H available cmds"
  shows "\<exists>r t ids. maintain available s p now = (Inr r, t) \<and> distinct ids
     \<and> amr_purged_artifacts r = int (length ids) \<and> length ids \<le> nat (amp_max_purge_artifacts p)
     \<and> (\<forall>i \<in> set ids. \<exists>a u d. map_of (as_artifacts s) i = Some a \<and> art_status a \<noteq> Artifact_OPEN
          \<and> amp_terminal_retention_ms p = Some d \<and> map_of (as_updated_at_ms s) i = Some u \<and> u + d \<le> now)
     \<and> (\<forall>i. map_of (as_artifacts t) i = (if i \<in> set ids then None else map_of (as_artifacts s) i)
          \<and> map_of (as_batches t) i = (if i \<in> set ids then None else map_of (as_batches s) i))
     \<and> as_claims t = filter (\<lambda>(i, c). now < clm_expires_at_ms c \<and> available (clm_run_id c)) (as_claims s)
     \<and> released_claims r = int (length (as_claims s)) - int (length (as_claims t))"
proof -
  have ok: "artifacts_ok s" using assms(1,2) stored_after_ok by simp
  let ?t = "snd (maintain available s p now)" and ?ids = "purged_ids available s p now"
  note F = maintain_facts [OF ok refl, where available = available and p = p and now = now]
  obtain r where r: "maintain available s p now = (Inr r, ?t)" "amr_purged_artifacts r = int (length ?ids)"
      "released_claims r = fate_count available s now Fate_EXPIRED + fate_count available s now Fate_UNAVAILABLE
        + fate_count available s now Fate_INVALID"
    by (simp add: maintain_value [OF ok] released_claims_def)
  have cl: "as_claims ?t = filter (\<lambda>(i, c). now < clm_expires_at_ms c \<and> available (clm_run_id c)) (as_claims s)"
    by (rule maintain_claims [OF ok])
  have "released_claims r = int (length (as_claims s)) - int (length (as_claims ?t))"
    unfolding r(3) cl by (rule released_total [OF ok])
  then show ?thesis using r(1,2) cl F(2,3,8) F(7) purged_ids_distinct [OF ok]
    by (intro exI [of _ r] exI [of _ ?t] exI [of _ ?ids]) (force simp: without_def)
qed

theorem maintenance_purges_only_old_artifacts_witness:
  "\<exists>r t. maintain all_runs (stored_after sample_hash all_runs (sample_claiming @
       [Append_Batch (sample_batch ''t'' ''k'') 10, Finalize_Artifact sample_final ''d'' 20]))
     \<lparr>amp_terminal_retention_ms = Some 10, amp_max_purge_artifacts = 5\<rparr> 1000 = (Inr r, t) \<and> amr_purged_artifacts r = 1
     \<and> amr_purged_artifacts r \<le> 5"
proof -
  let ?cmds = "sample_claiming @ [Append_Batch (sample_batch ''t'' ''k'') 10, Finalize_Artifact sample_final ''d'' 20]"
  let ?p = "\<lparr>amp_terminal_retention_ms = Some 10, amp_max_purge_artifacts = 5\<rparr>"
  have 1: "list_all artifact_cmd_ok ?cmds" by code_simp
  have "case fst (maintain all_runs (stored_after sample_hash all_runs ?cmds) ?p 1000) of Inl e \<Rightarrow> False | Inr r \<Rightarrow> amr_purged_artifacts r = 1"
    by code_simp
  then show ?thesis
    using maintenance_purges_only_old_artifacts [where H = sample_hash and available = all_runs and p = ?p and now = 1000, OF 1 refl] by auto
qed

text \<open>
  A deviation: \<open>list_batches\<close> finds an artifact under a padded identity but then looks for its
  batches under the padded text and returns none.
\<close>

theorem list_batches_misses_padded_id:
  "list_batches (hd (tl sample_states)) '' a'' = Inr [] \<and> batches_of (hd (tl sample_states)) ''a'' \<noteq> []"
  by code_simp

end
