(* ===== verification/Spec2Isabelle.thy ===== *)
theory Spec2Isabelle
  imports Run_Properties Plan_Compiler_Properties Agent_Tree_Properties Recovery_Properties Context_Properties Recipe_Properties Settlement_Properties Long_Task_Properties Artifact_Properties
begin

text \<open>
  A verification library for Purra, a Python core that runs language-model agents on behalf of a
  host application. The paths below are relative to \<open>src/purra/\<close>.

  \<^bold>\<open>The program.\<close> A Run works through an execution plan whose steps are model answers or tool
  rounds. A planner proposes a work plan, which \<open>plan_compiler.py\<close> turns into the execution plan: it
  lowers public capabilities to runtime tools and inserts missing prerequisites. \<open>run_state.py\<close> holds the immutable Run snapshot and the stateless reducers that a
  controller applies to it as events arrive. A Run may spawn child Agents, each with Runs of its
  own; \<open>agent_tree/memory.py\<close> is the repository of that tree: it admits, leases, suspends, completes,
  fails and cancels Runs, keeps the context checkpoints of every Agent and answers repeated commands
  from receipts. Work that outlives a Run is a durable task, a set of units with dependencies that
  workers claim, settle or split; \<open>InMemoryLongTaskRepository\<close> of \<open>adapters/durable_memory.py\<close> with
  its mixins is the store of these tasks. A host that admits planned steps to durable execution gives
  a recipe for them, which \<open>long_tasks/recipe_compiler.py\<close> turns into units and
  \<open>long_tasks/dispatcher.py\<close> into a task bound to the Run; \<open>long_tasks/coordinator.py\<close> schedules the
  units of the task and settles each execution. What a Run produces for later Runs is an artifact, committed
  in batches under an exclusive claim; \<open>artifacts/\<close> coordinates it over \<open>InMemoryArtifactStore\<close> of the
  same file. \<open>recovery/\<close> decides whether failed work may be repeated. Before a model is called,
  \<open>context_budget.py\<close> divides the context window and trims the conversation. All of them build on
  the value contracts of \<open>contracts/\<close>, whose constructors normalize their fields with
  \<open>normalization.py\<close>.

  \<^bold>\<open>The theories.\<close>
  \<^item> \<open>Prelude\<close>: exceptions as values, the result type and its bind, dictionaries in insertion order,
    and the locales \<open>keyed_store\<close> (lookup and update laws), \<open>event_machine\<close> (an invariant that every
    accepted event keeps), \<open>settling_machine\<close> (settled states never change) and \<open>progress_machine\<close>
    (every event moves along a preorder). Their lemmas speak about arbitrary sequences of events.
  \<^item> \<open>Normalization\<close>, \<open>Json_Values\<close>, \<open>Enums\<close>: \<open>normalization.py\<close>, the frozen JSON values of
    \<open>json_values.py\<close> and the enumerations of \<open>contracts/enums.py\<close>.
  \<^item> \<open>Plans\<close>: \<open>contracts/plans.py\<close>, work plans, execution plans and the contract a plan must meet
    before it is executed.
  \<^item> \<open>Run_State\<close>: \<open>run_state.py\<close>, one definition per reducer of \<open>RunStateMachine\<close>. \<open>Run_Lifecycle\<close>
    shows what each reducer does to the steps and interprets \<open>settling_machine\<close> twice: for any
    sequence of events (the snapshot invariant) and for the plan-driven loop of the controller (steps
    are worked in order). \<open>Run_Properties\<close> holds the properties.
  \<^item> \<open>Plan_Compiler\<close>: \<open>plan_compiler.py\<close> and the tool contracts and constraints it reads.
    \<open>Plan_Compiler_Laws\<close> shows that the order of a capability exists exactly for acyclic prerequisites,
    that every compiled step is ready when its turn comes, and which errors can be raised;
    \<open>Plan_Execution\<close> shows that the plan-driven events never change what a step runs (an interpretation
    of \<open>progress_machine\<close>), which carries readiness over to Runs. \<open>Plan_Compiler_Properties\<close> holds the
    properties.
  \<^item> \<open>Agent_Contracts\<close> and \<open>Agent_Tree\<close>: \<open>agent_tree/contracts.py\<close> and \<open>InMemoryRunTreeRepository\<close>,
    one definition per method on a record of its dictionaries and counters; a method that mutates
    returns the new state. \<open>Agent_Tree_Invariant\<close>, \<open>Agent_Tree_Lifecycle\<close> and \<open>Agent_Tree_Spawn\<close> prove
    the structural invariant for every operation, \<open>Agent_Tree_Machine\<close> collects the operations into an
    event machine and shows what only moves forward, \<open>Agent_Tree_Context\<close> shows that context versions
    form an unbroken chain. \<open>Agent_Tree_Properties\<close> holds the properties.
  \<^item> \<open>Recovery\<close> and \<open>Recovery_Properties\<close>: \<open>recovery/contracts.py\<close>, \<open>disposition.py\<close>, \<open>policy.py\<close> and
    \<open>ledger.py\<close>; the ledger is interpreted as an event machine over recovery requests.
  \<^item> \<open>Messages\<close> and \<open>Context_Budget\<close>: \<open>media.py\<close>, the message and tool records of
    \<open>contracts/model.py\<close> and \<open>contracts/tools.py\<close>, \<open>contracts/context.py\<close> and \<open>context_budget.py\<close>.
    \<open>Context_Laws\<close> has the arithmetic of the division and the loops, \<open>Context_Properties\<close> the
    properties.
  \<^item> \<open>Long_Tasks\<close> and \<open>Long_Task_Store\<close>: \<open>long_tasks/contracts.py\<close> and the durable task store, one
    definition per method on the stored tasks (\<open><method>_stored\<close> is its effect on one task). A call
    yields its result and the state it leaves, because several calls change the state before they
    raise. \<open>Long_Task_Invariant\<close> has the invariant, the order in which units only move forward and
    the equivalence of the topological sort with acyclicity; \<open>Long_Task_Operations\<close> and
    \<open>Long_Task_Split\<close> show that every method keeps both, \<open>Long_Task_Machine\<close> interprets
    \<open>progress_machine\<close> on the calls of the port. \<open>Long_Task_Leases\<close> states the abstract lease automaton
    of a unit as an inductive step relation, shows that the store refines it and what a claim
    takes; \<open>Long_Task_Outcomes\<close> treats finalization, replays and restart; \<open>Long_Task_Properties\<close> holds
    the properties.
  \<^item> \<open>Recipes\<close> and \<open>Recipe_Dispatch\<close>: \<open>contracts/host.py\<close>, \<open>task_admission/contracts.py\<close> and
    \<open>recipe_compiler.py\<close>; then \<open>dispatch\<close> of \<open>RecipeLongTaskDispatcher\<close>, the admission checks of its
    \<open>execute\<close>, and \<open>continuation.py\<close>. These coordinators await several calls of the task store: the
    argument \<open>others\<close> lists the calls of other clients that are served before each of them.
    \<open>Recipe_Laws\<close> follows the store through them, \<open>Recipe_Properties\<close> holds the properties.
  \<^item> \<open>Unit_Settlement\<close>: \<open>coordinator.py\<close> and \<open>failure_policy.py\<close>. A record \<open>await_schedule\<close> gives, for every
    awaited call, the calls served before it and its clock; the calls of the unit executions are among
    them. How an execution ends is an argument of \<open>settle_claimed_unit\<close>; what a round of the loop
    finds (the stop signal, a cancellation, the executions that are done) is a record, and
    \<open>run_task\<close> works through a list of rounds. A cancellation of the coordinator arrives while it waits or
    while the runner is first notified. The end of cancelled executions is awaited, and calls are served
    there too, also after the last read of the task.
    \<open>Settlement_Laws\<close> shows what a settlement leaves of its unit, \<open>Coordinator_Laws\<close> what holds after every
    round, \<open>Settlement_Properties\<close> has the properties.
  \<^item> \<open>Artifacts\<close> and \<open>Artifact_Store\<close>: the contracts and the access policy of \<open>artifacts/\<close>, and the store
    on a record of its seven dictionaries. \<open>Artifact_Laws\<close> has the invariant and reduces every method
    to six changes of the state; \<open>Artifact_Machine\<close> interprets \<open>event_machine\<close> on all calls and
    \<open>progress_machine\<close> on those that do not purge, and shows what a live claim excludes.
    \<open>Artifact_Lifecycle\<close> models \<open>artifacts/lifecycle.py\<close> and \<open>access.py\<close>: their reads and their write are
    separate calls of the store, and an inductive set of histories interleaves them with any other
    calls. \<open>Artifact_Properties\<close> holds the properties.

  \<^bold>\<open>How code is modelled.\<close> A dataclass is a record and its \<open>__post_init__\<close> a function
  \<open><Class>_post_init\<close> from the raw fields to the normalized record or an error. A raise is a value
  \<open>Inl e\<close> of the result type; the exception class, its code and its message are kept. Dictionaries
  are association lists in insertion order, because several operations iterate over them. Field
  values arrive with their declared type, so the coercions of the constructors act on that type
  only. Integers are unbounded as in Python. Text consists of code points below 256. An operation
  of the repository runs under its lock, hence one operation is one step and concurrency is the
  order of the steps; the clock is an argument, and all readings within one call agree.

  \<^bold>\<open>Loops and fuel.\<close> The search for an unused step identity is a function with a termination
  measure. The two walks of the repository along parent and dependency pointers take as fuel the
  number of stored entries: a longer walk would have to visit an entry twice, and the invariant
  shows that parents and dependencies are always older, so that the walks end within the fuel.
  The two recursions of the plan compiler, along the prerequisites of tools, take the number of
  registrations as fuel: a path never repeats a registered name, and the fuel is shown to suffice.
  The scheduling loop may run for ever: it is run for any finite list of rounds, and its properties hold
  after each of them. Every other loop is structural recursion.

  \<^bold>\<open>Parameters and assumptions.\<close> The digest function of canonical JSON is a parameter \<open>H\<close> and the
  textual form of a float a parameter \<open>R\<close>, and \<open>str\<close> of a session identity that is not a text a
  parameter \<open>S\<close>; no property depends on more than that they are
  functions, unless its statement says so. The validators, the authorizer and the availability of a
  Run that a host supplies to the artifacts are parameters too. Sequences of repository calls are taken over commands that
  their own constructors returned, root identities outside the generated form \<open>agent-<n>\<close> and
  \<open>agent-run-<n>\<close>, and stripped identities for \<open>suspend_run\<close>; the source does not check the last two, and
  \<open>Agent_Tree_Properties\<close> shows what goes wrong without them. A split must not take the last required unit of
  its task away, which the source does not check either: the invariant of the task store is shown for all
  calls but such splits (\<open>long_task_calls_ok\<close>), the other properties of durable tasks for calls whose splits
  contain a required child (\<open>long_task_cmd_ok\<close>). The product of a window with the
  double 0.05 is computed bit for bit; ceilings of divisions are exact for counts below
  \<open>2 ^ 53\<close>.

  \<^bold>\<open>What is shown.\<close> For the Run: every reachable snapshot is valid, terminal Runs are final, tools
  start only when granted, completion, cancellation and failure settle every step, revisions keep
  history. For the plan compiler: a compiled plan is valid and keeps the work steps, it starts a Run,
  and no tool of that Run starts before its prerequisites. For the tree: the invariant holds after any sequence of admissible calls, at most one active Run
  per Agent, leases fence old owners, capacity and grants are respected, completion needs a quiet
  subtree, repeated commands are answered with the first receipt, context versions never fork. For
  recovery: attempts are bounded, unsafe repetition is refused, a checkpoint carries the counts. For
  context: the window is accounted for exactly, claims are funded by priority, reserved output
  stays available, trimming keeps complete turns. For durable tasks: the invariant holds after any
  sequence of admissible calls, also when calls raise; the store refines the lease automaton; workers with
  an old claim are refused; claims respect position, dependencies and the limit on parallel
  units, and ready work is handed out; finalization leaves no running task without work; creating
  and completing are idempotent; a restart leaves no orphaned task. For recipes: the compiled units
  implement exactly the admitted steps and always make a valid task; a dispatched Run stays bound to
  its task whatever other clients call, and its execution is refused only while delegated units need reconciliation; dispatching twice is harmless; continuations need the creator
  of the task. For the coordinator: unfinished work is released as the policy decides and finished work
  recorded, each exactly if the claim is still held and fenced off otherwise; at most the allowed executions are
  under way; what the coordinator returns it read as stopped, and before it raises it stops the task. For artifacts: the dictionaries
  stay consistent under any calls, committed content is kept, an append happens once, a live claim
  excludes other writers, the checks of the coordinator hold although its reads and its write are
  interleaved with other calls, grants are sound and maintenance removes only what is old.

  \<^bold>\<open>Not modelled.\<close> The asynchronous orchestrators (\<open>engine/\<close>, \<open>runtime/\<close>, \<open>execution/\<close>,
  \<open>model_invocation/\<close>) await models, tools and sinks and decide little themselves, and so does the unit runner of the dispatcher; the stores of
  events and streams (\<open>adapters/memory.py\<close>, \<open>storage/\<close>), the output and observability layers, the
  TypeScript port and the integrations are not modelled either.
\<close>

end
